(* ===== verification/CPrelude.thy ===== *)
theory CPrelude
  imports Main "HOL-Library.Word" "HOL-Library.Monad_Syntax"
begin

text \<open>
  Shared vocabulary of the development: the machine integers of the C sources, the C conversions
  between them, the error numbers, bounds-checked access to byte buffers, and C strings.

  Conventions used by every theory:
  \<^item> a function whose C body can read or write outside an object returns an \<open>option\<close>, and
    \<open>None\<close> stands for that undefined behaviour (never for an error return of the code);
  \<^item> an error return of the code is the negative error number, an \<open>int\<close>, as in the sources;
  \<^item> \<open>int\<close> values stand for the C types \<open>int\<close>, \<open>long\<close>, \<open>off_t\<close>, \<open>loff_t\<close>; where the code converts
    between widths the conversion is written out with \<open>cast_s32\<close> and its relatives;
  \<^item> kernel and libc calls whose code is not in the repository are arguments of the definitions.
\<close>

section \<open>Machine integers\<close>

type_synonym u8 = "8 word"
type_synonym u16 = "16 word"
type_synonym u32 = "32 word"
type_synonym u64 = "64 word"

text \<open>Conversion of an integer to a signed or unsigned type of a given width (two's complement).\<close>

definition cast_s32 :: "int \<Rightarrow> int" where
  "cast_s32 x = (x + 2147483648) mod 4294967296 - 2147483648"

definition cast_u32 :: "int \<Rightarrow> int" where
  "cast_u32 x = x mod 4294967296"

definition cast_s64 :: "int \<Rightarrow> int" where
  "cast_s64 x = (x + 9223372036854775808) mod 18446744073709551616 - 9223372036854775808"

definition cast_u64 :: "int \<Rightarrow> int" where
  "cast_u64 x = x mod 18446744073709551616"

text \<open>The values of type \<open>int\<close>: a result of signed arithmetic outside them is undefined behaviour.\<close>

definition fits_s32 :: "int \<Rightarrow> bool" where
  "fits_s32 x \<longleftrightarrow> -2147483648 \<le> x \<and> x < 2147483648"

text \<open>The result of an operation on \<open>int\<close> values, \<open>None\<close> where it overflows.\<close>

definition arith32 :: "int \<Rightarrow> int option" where
  "arith32 x = (if fits_s32 x then Some x else None)"

lemma arith32_ok [simp]: "-2147483648 \<le> x \<Longrightarrow> x < 2147483648 \<Longrightarrow> arith32 x = Some x"
  by (simp add: arith32_def fits_s32_def)

lemma arith32_overflow: "2147483648 \<le> x \<or> x < -2147483648 \<Longrightarrow> arith32 x = None"
  by (auto simp: arith32_def fits_s32_def)

lemma cast_s32_id [simp]: "-2147483648 \<le> x \<Longrightarrow> x < 2147483648 \<Longrightarrow> cast_s32 x = x"
  by (simp add: cast_s32_def)

lemma cast_u32_id [simp]: "0 \<le> x \<Longrightarrow> x < 4294967296 \<Longrightarrow> cast_u32 x = x"
  by (simp add: cast_u32_def)

lemma cast_s64_id [simp]:
  "-9223372036854775808 \<le> x \<Longrightarrow> x < 9223372036854775808 \<Longrightarrow> cast_s64 x = x"
  by (simp add: cast_s64_def)

lemma cast_u64_id [simp]: "0 \<le> x \<Longrightarrow> x < 18446744073709551616 \<Longrightarrow> cast_u64 x = x"
  by (simp add: cast_u64_def)

lemma cast_u64_neg:
  assumes "-18446744073709551616 \<le> x" and "x < 0"
  shows "cast_u64 x = x + 18446744073709551616"
proof -
  have "cast_u64 x = (x + 18446744073709551616) mod 18446744073709551616"
    by (simp add: cast_u64_def)
  also have "\<dots> = x + 18446744073709551616"
    using assms by (intro mod_pos_pos_trivial) simp_all
  finally show ?thesis .
qed

lemma cast_s32_range: "-2147483648 \<le> cast_s32 x \<and> cast_s32 x < 2147483648"
  by (simp add: cast_s32_def)

lemma cast_u64_range: "0 \<le> cast_u64 x \<and> cast_u64 x < 18446744073709551616"
  by (simp add: cast_u64_def)

text \<open>C division truncates towards zero.\<close>

definition c_div :: "int \<Rightarrow> int \<Rightarrow> int" where
  "c_div a b = sgn a * sgn b * (\<bar>a\<bar> div \<bar>b\<bar>)"

definition c_mod :: "int \<Rightarrow> int \<Rightarrow> int" where
  "c_mod a b = a - c_div a b * b"

lemma c_div_pos [simp]: "0 \<le> a \<Longrightarrow> 0 < b \<Longrightarrow> c_div a b = a div b"
  by (auto simp: c_div_def sgn_if)

lemma c_mod_pos [simp]: "0 \<le> a \<Longrightarrow> 0 < b \<Longrightarrow> c_mod a b = a mod b"
  by (simp add: c_mod_def minus_div_mult_eq_mod)

lemma int_div_less: "0 < c \<Longrightarrow> x < n * c \<Longrightarrow> x div c < (n :: int)"
proof (rule ccontr)
  assume "0 < c" "x < n * c" "\<not> x div c < n"
  then have "n * c \<le> (x div c) * c" by (intro mult_right_mono) simp_all
  also have "\<dots> \<le> x" using \<open>0 < c\<close> by (simp add: minus_mod_eq_div_mult [symmetric])
  finally show False using \<open>x < n * c\<close> by simp
qed

section \<open>Outcomes of code that may trap or run forever\<close>

datatype 'a outcome =
    Ret 'a         \<comment> \<open>the function returns\<close>
  | Trap           \<comment> \<open>undefined behaviour: an access outside an object, a division by zero\<close>
  | NoReturn       \<comment> \<open>the fuel given to a loop did not suffice\<close>

section \<open>Error numbers\<close>

abbreviation (input) EPERM :: int where "EPERM \<equiv> 1"
abbreviation (input) ENOENT :: int where "ENOENT \<equiv> 2"
abbreviation (input) EIO :: int where "EIO \<equiv> 5"
abbreviation (input) ENOMEM :: int where "ENOMEM \<equiv> 12"
abbreviation (input) EFAULT :: int where "EFAULT \<equiv> 14"
abbreviation (input) EBUSY :: int where "EBUSY \<equiv> 16"
abbreviation (input) EEXIST :: int where "EEXIST \<equiv> 17"
abbreviation (input) ENOTDIR :: int where "ENOTDIR \<equiv> 20"
abbreviation (input) EISDIR :: int where "EISDIR \<equiv> 21"
abbreviation (input) EINVAL :: int where "EINVAL \<equiv> 22"
abbreviation (input) ENOTTY :: int where "ENOTTY \<equiv> 25"
abbreviation (input) ENOSPC :: int where "ENOSPC \<equiv> 28"
abbreviation (input) ENOTEMPTY :: int where "ENOTEMPTY \<equiv> 39"

section \<open>Bounds-checked buffers\<close>

text \<open>
  \<open>get_bytes off n xs\<close> reads \<open>n\<close> elements at offset \<open>off\<close>, \<open>put_bytes off ys xs\<close> overwrites the elements
  at \<open>off\<close> with \<open>ys\<close>; both are \<open>None\<close> where the access leaves the object. The offsets are integers:
  a C pointer difference may be negative.
\<close>

definition get_bytes :: "int \<Rightarrow> int \<Rightarrow> 'a list \<Rightarrow> 'a list option" where
  "get_bytes off n xs =
     (if 0 \<le> off \<and> 0 \<le> n \<and> off + n \<le> int (length xs)
      then Some (take (nat n) (drop (nat off) xs)) else None)"

definition put_bytes :: "int \<Rightarrow> 'a list \<Rightarrow> 'a list \<Rightarrow> 'a list option" where
  "put_bytes off ys xs =
     (if 0 \<le> off \<and> off + int (length ys) \<le> int (length xs)
      then Some (take (nat off) xs @ ys @ drop (nat off + length ys) xs) else None)"

named_theorems buf_simps

lemma take_prefix_append: "n \<le> length xs \<Longrightarrow> take n (xs @ ys) = take n xs"
  by simp

lemma take_drop_rest: "take k xs @ drop (length (take k xs)) xs = xs"
  by (cases "k \<le> length xs") (simp_all add: min_def)

lemma all_nat_Suc: "(\<forall>i. P i) \<longleftrightarrow> P 0 \<and> (\<forall>i. P (Suc i))"
  by (metis not0_implies_Suc)

lemma option_eqI: "(\<And>n. x = Some n \<longleftrightarrow> y = Some n) \<Longrightarrow> x = y"
  by (metis not_Some_eq)

lemma get_bytes_length [buf_simps]: "get_bytes off n xs = Some ys \<Longrightarrow> length ys = nat n"
  by (auto simp: get_bytes_def split: if_splits)

lemma put_bytes_length: "put_bytes off ys xs = Some zs \<Longrightarrow> length zs = length xs"
  by (auto simp: put_bytes_def split: if_splits)

lemma get_bytes_all [simp]: "get_bytes 0 (int (length xs)) xs = Some xs"
  by (simp add: get_bytes_def)

lemma get_bytes_ok: "0 \<le> off \<Longrightarrow> 0 \<le> n \<Longrightarrow> off + n \<le> int (length xs) \<Longrightarrow>
  get_bytes off n xs = Some (take (nat n) (drop (nat off) xs))"
  by (simp add: get_bytes_def)

lemma put_bytes_ok: "0 \<le> off \<Longrightarrow> off + int (length ys) \<le> int (length xs) \<Longrightarrow>
  put_bytes off ys xs = Some (take (nat off) xs @ ys @ drop (nat off + length ys) xs)"
  by (simp add: put_bytes_def)

text \<open>Reading back what was just written.\<close>

lemma get_bytes_splice_same:
  "put_bytes off ys xs = Some zs \<Longrightarrow> get_bytes off (int (length ys)) zs = Some ys"
  by (auto simp: put_bytes_def get_bytes_def split: if_splits)

lemma put_bytes_SomeD:
  assumes "put_bytes off ys xs = Some zs"
  shows "zs = take (nat off) xs @ ys @ drop (nat off + length ys) xs"
    and "0 \<le> off" and "nat off + length ys \<le> length xs"
  using assms by (simp_all add: put_bytes_def split: if_splits)

text \<open>Reading outside what was written gives the old contents.\<close>

lemma put_bytes_nth_other:
  assumes "put_bytes off ys xs = Some zs" and "i < length xs"
    and "int i < off \<or> off + int (length ys) \<le> int i"
  shows "zs ! i = xs ! i"
proof -
  note z = put_bytes_SomeD [OF assms(1)]
  from z(2) assms(3) consider "i < nat off" | "nat off + length ys \<le> i"
    by linarith
  then show ?thesis
  proof cases
    case 1
    with assms(2) show ?thesis by (simp add: z(1) nth_append)
  next
    case 2
    then have "\<not> i - nat off < length ys" "\<not> i < nat off" by linarith+
    with z(3) 2 show ?thesis by (simp add: z(1) nth_append)
  qed
qed

lemma put_bytes_nth_in:
  assumes "put_bytes off ys xs = Some zs" and "j < length ys"
  shows "zs ! (nat off + j) = ys ! j"
proof -
  note z = put_bytes_SomeD [OF assms(1)]
  from z(3) assms(2) show ?thesis by (simp add: z(1) nth_append)
qed

text \<open>Overwriting a part of a list that lies inside it.\<close>

definition splice :: "nat \<Rightarrow> 'a list \<Rightarrow> 'a list \<Rightarrow> 'a list" where
  "splice off ys xs = take off xs @ ys @ drop (off + length ys) xs"

lemma splice_length: "off + length ys \<le> length xs \<Longrightarrow> length (splice off ys xs) = length xs"
  by (simp add: splice_def)

lemma splice_append:
  "off + length ys + length zs \<le> length xs \<Longrightarrow>
     splice (off + length ys) zs (splice off ys xs) = splice off (ys @ zs) xs"
  by (simp add: splice_def ac_simps)

lemma put_bytes_splice: "off + length ys \<le> length xs \<Longrightarrow> put_bytes (int off) ys xs = Some (splice off ys xs)"
  by (simp add: put_bytes_def splice_def)

lemma unat64: "n < 2 ^ 64 \<Longrightarrow> unat (word_of_nat n :: u64) = n"
  by (simp add: unat_of_nat)

section \<open>C strings\<close>

abbreviation NUL :: char where "NUL \<equiv> CHR 0x00"

text \<open>
  The string held by a character array, up to its first NUL; \<open>None\<close> when no NUL lies inside the
  array (then \<open>strlen\<close> and \<open>printf\<close> would run past its end).
\<close>

definition c_string :: "char list \<Rightarrow> string option" where
  "c_string buf = (if NUL \<in> set buf then Some (takeWhile (\<lambda>c. c \<noteq> NUL) buf) else None)"

lemma c_string_no_nul: "c_string buf = Some s \<Longrightarrow> NUL \<notin> set s"
  by (auto simp: c_string_def dest: set_takeWhileD split: if_splits)

lemma c_string_terminated:
  "NUL \<notin> set s \<Longrightarrow> c_string (s @ NUL # rest) = Some s"
  by (simp add: c_string_def takeWhile_append)

end
