(* ===== verification/Bytes.thy ===== *)
theory Bytes
  imports CPrelude
begin

text \<open>
  Multi-byte integers in byte buffers, in both byte orders, and the text that the \<open>printf\<close>
  conversions of the sources produce. Host byte order is little-endian (the labs build for x86-64),
  so \<open>htons\<close>, \<open>htonl\<close> and their inverses swap bytes: storing \<open>htonl x\<close> in a struct and sending the
  struct puts the big-endian encoding of \<open>x\<close> on the wire, which is how the models write it.
\<close>

section \<open>Integers in buffers\<close>

definition byte_at :: "u8 list \<Rightarrow> nat \<Rightarrow> int" where
  "byte_at bs i = uint (bs ! i)"

definition le16 :: "u8 list \<Rightarrow> nat \<Rightarrow> int" where
  "le16 bs i = byte_at bs i + 256 * byte_at bs (i + 1)"

definition le32 :: "u8 list \<Rightarrow> nat \<Rightarrow> int" where
  "le32 bs i = le16 bs i + 65536 * le16 bs (i + 2)"

definition be16 :: "u8 list \<Rightarrow> nat \<Rightarrow> int" where
  "be16 bs i = 256 * byte_at bs i + byte_at bs (i + 1)"

definition be32 :: "u8 list \<Rightarrow> nat \<Rightarrow> int" where
  "be32 bs i = 65536 * be16 bs i + be16 bs (i + 2)"

definition enc_be16 :: "int \<Rightarrow> u8 list" where
  "enc_be16 x = [word_of_int (x div 256), word_of_int x]"

definition enc_be32 :: "int \<Rightarrow> u8 list" where
  "enc_be32 x = enc_be16 (x div 65536) @ enc_be16 x"

lemma byte_at_range: "0 \<le> byte_at bs i \<and> byte_at bs i < 256"
  using uint_lt2p [of "bs ! i"] by (simp add: byte_at_def)

lemma be16_range: "0 \<le> be16 bs i \<and> be16 bs i < 65536"
  using byte_at_range [of bs i] byte_at_range [of bs "i + 1"] by (simp add: be16_def)

lemma le16_range: "0 \<le> le16 bs i \<and> le16 bs i < 65536"
  using byte_at_range [of bs i] byte_at_range [of bs "i + 1"] by (simp add: le16_def)

lemma be32_range: "0 \<le> be32 bs i \<and> be32 bs i < 4294967296"
  using be16_range [of bs i] be16_range [of bs "i + 2"] by (simp add: be32_def)

lemma le32_range: "0 \<le> le32 bs i \<and> le32 bs i < 4294967296"
  using le16_range [of bs i] le16_range [of bs "i + 2"] by (simp add: le32_def)

lemma uint_word8: "uint (word_of_int x :: u8) = x mod 256"
  by (simp add: uint_word_of_int)

lemma length_enc_be [simp]: "length (enc_be16 x) = 2" "length (enc_be32 x) = 4"
  by (simp_all add: enc_be16_def enc_be32_def)

lemma be16_enc: "be16 (pre @ enc_be16 x @ post) (length pre) = x mod 65536"
proof -
  have "256 * (x div 256 mod 256) + x mod 256 = x mod (256 * 256)"
    by (subst zmod_zmult2_eq) simp_all
  then show ?thesis
    by (simp add: be16_def byte_at_def enc_be16_def nth_append uint_word8)
qed

lemma be32_enc: "be32 (pre @ enc_be32 x @ post) (length pre) = x mod 4294967296"
proof -
  have a: "be16 (pre @ enc_be32 x @ post) (length pre) = x div 65536 mod 65536"
    using be16_enc [of pre "x div 65536" "enc_be16 x @ post"] by (simp add: enc_be32_def)
  have b: "be16 (pre @ enc_be32 x @ post) (length pre + 2) = x mod 65536"
    using be16_enc [of "pre @ enc_be16 (x div 65536)" x post] by (simp add: enc_be32_def)
  have "65536 * (x div 65536 mod 65536) + x mod 65536 = x mod (65536 * 65536)"
    by (subst zmod_zmult2_eq) simp_all
  then show ?thesis unfolding be32_def a b by simp
qed

text \<open>The character a byte stands for in a \<open>char\<close> array, and the characters of an array.\<close>

definition chr8 :: "u8 \<Rightarrow> char" where
  "chr8 b = char_of (unat b)"

definition ord8 :: "char \<Rightarrow> u8" where
  "ord8 c = word_of_nat (of_char c)"

lemma chr8_ord8 [simp]: "chr8 (ord8 c) = c"
proof -
  have "of_char c < (256 :: nat)" using nat_of_char_less_256 by simp
  then have "unat (word_of_nat (of_char c) :: u8) = of_char c"
    by (simp add: unat_of_nat)
  then show ?thesis by (simp add: chr8_def ord8_def)
qed

text \<open>The bytes of a string.\<close>

definition text_bytes :: "string \<Rightarrow> u8 list" where
  "text_bytes str = map ord8 str"

lemma text_bytes_length [simp]: "length (text_bytes str) = length str"
  by (simp add: text_bytes_def)

definition chars_at :: "u8 list \<Rightarrow> nat \<Rightarrow> nat \<Rightarrow> string" where
  "chars_at bs i n = map chr8 (take n (drop i bs))"

text \<open>A field read does not see what follows it.\<close>

lemma byte_at_append: "i < length bs \<Longrightarrow> byte_at (bs @ cs) i = byte_at bs i"
  by (simp add: byte_at_def nth_append)

lemma be16_append: "i + 1 < length bs \<Longrightarrow> be16 (bs @ cs) i = be16 bs i"
  by (simp add: be16_def byte_at_append)

lemma be32_append: "i + 3 < length bs \<Longrightarrow> be32 (bs @ cs) i = be32 bs i"
  by (simp add: be32_def be16_append)

section \<open>Formatted output\<close>

definition digit :: "nat \<Rightarrow> char" where
  "digit n = ''0123456789abcdef'' ! n"

definition digit_upper :: "nat \<Rightarrow> char" where
  "digit_upper n = ''0123456789ABCDEF'' ! n"

fun dec :: "nat \<Rightarrow> string" where
  "dec n = (if n < 10 then [digit n] else dec (n div 10) @ [digit (n mod 10)])"

fun hex :: "(nat \<Rightarrow> char) \<Rightarrow> nat \<Rightarrow> string" where
  "hex f n = (if n < 16 then [f n] else hex f (n div 16) @ [f (n mod 16)])"

declare dec.simps [simp del] hex.simps [simp del]

definition fmt_d :: "int \<Rightarrow> string" where
  "fmt_d i = (if i < 0 then CHR ''-'' # dec (nat (- i)) else dec (nat i))"

definition fmt_u :: "int \<Rightarrow> string" where "fmt_u i = dec (nat i)"
definition fmt_x :: "int \<Rightarrow> string" where "fmt_x i = hex digit (nat i)"
definition fmt_X :: "int \<Rightarrow> string" where "fmt_X i = hex digit_upper (nat i)"

text \<open>Field width with blanks on the left or right, or zeros on the left; \<open>%.ns\<close> of a char array.\<close>

definition pad_left :: "nat \<Rightarrow> string \<Rightarrow> string" where
  "pad_left w s = replicate (w - length s) CHR '' '' @ s"

definition pad_right :: "nat \<Rightarrow> string \<Rightarrow> string" where
  "pad_right w s = s @ replicate (w - length s) CHR '' ''"

definition pad_zero :: "nat \<Rightarrow> string \<Rightarrow> string" where
  "pad_zero w s = replicate (w - length s) CHR ''0'' @ s"

definition fmt_prec :: "nat \<Rightarrow> string \<Rightarrow> string" where
  "fmt_prec n arr = takeWhile (\<lambda>c. c \<noteq> NUL) (take n arr)"

definition NL :: string where "NL = [CHR 0x0A]"
definition CRLF :: string where "CRLF = [CHR 0x0D, CHR 0x0A]"

text \<open>The dash of the messages, between blanks, and a text in single quotes.\<close>

definition DASH :: string where "DASH = '' '' @ [CHR 0xE2, CHR 0x80, CHR 0x94] @ '' ''"
definition in_quotes :: "string \<Rightarrow> string" where "in_quotes s = [CHR 0x27] @ s @ [CHR 0x27]"

lemma dec_length_le: "n < 10 ^ k \<Longrightarrow> 0 < k \<Longrightarrow> length (dec n) \<le> k"
proof (induction k arbitrary: n)
  case (Suc k)
  show ?case
  proof (cases "n < 10")
    case False
    then have "0 < k" using Suc.prems(1) by (cases k) simp_all
    moreover have "n div 10 < 10 ^ k" using Suc.prems(1) by (simp add: less_mult_imp_div_less)
    ultimately show ?thesis using Suc.IH [of "n div 10"] False by (simp add: dec.simps [of n])
  qed (simp add: dec.simps [of n])
qed simp

lemma dec_nonempty: "dec n \<noteq> []"
  by (subst dec.simps) simp

text \<open>Reading the digits back.\<close>

definition digit_val :: "char \<Rightarrow> nat" where
  "digit_val c = of_char c - 48"

definition undec :: "string \<Rightarrow> nat" where
  "undec s = foldl (\<lambda>n c. 10 * n + digit_val c) 0 s"

definition is_digit :: "char \<Rightarrow> bool" where
  "is_digit c \<longleftrightarrow> c \<in> set ''0123456789''"

lemma digit_val_digit: "n < 10 \<Longrightarrow> digit_val (digit n) = n"
  by (auto simp: digit_val_def digit_def less_Suc_eq numeral_eq_Suc)

lemma is_digit_digit: "n < 10 \<Longrightarrow> is_digit (digit n)"
  by (auto simp: is_digit_def digit_def less_Suc_eq numeral_eq_Suc)

lemma undec_dec: "undec (dec n) = n"
proof (induction n rule: dec.induct)
  case (1 n)
  show ?case
  proof (cases "n < 10")
    case True
    then show ?thesis by (subst dec.simps) (simp add: undec_def digit_val_digit)
  next
    case False
    with 1 have "undec (dec (n div 10)) = n div 10" by simp
    with False show ?thesis
      by (subst dec.simps) (simp add: undec_def digit_val_digit)
  qed
qed

lemma dec_digits: "c \<in> set (dec n) \<Longrightarrow> is_digit c"
proof (induction n rule: dec.induct)
  case (1 n)
  then show ?case
    by (subst (asm) (2) dec.simps) (auto simp: is_digit_digit split: if_splits)
qed

text \<open>
  The number at the beginning of a text, as \<open>scanf\<close> with \<open>%d\<close> and \<open>atoi\<close> read it: after blanks, with a sign or without; \<open>None\<close> where there is no digit.
\<close>

definition is_blank :: "char \<Rightarrow> bool" where
  "is_blank c \<longleftrightarrow> c \<in> {CHR '' '', CHR 0x09, CHR 0x0A, CHR 0x0B, CHR 0x0C, CHR 0x0D}"

definition scan_digits :: "int \<Rightarrow> string \<Rightarrow> int option" where
  "scan_digits sign s = (let ds = takeWhile is_digit s in if ds = [] then None else Some (sign * int (undec ds)))"

definition scan_int :: "string \<Rightarrow> int option" where
  "scan_int s = (case dropWhile is_blank s of
       [] \<Rightarrow> None
     | c # t \<Rightarrow> if c = CHR ''-'' then scan_digits (- 1) t else if c = CHR ''+'' then scan_digits 1 t else scan_digits 1 (c # t))"

lemma scan_digits_dec: "t = [] \<or> \<not> is_digit (hd t) \<Longrightarrow> scan_digits sign (dec n @ t) = Some (sign * int n)"
proof -
  assume t: "t = [] \<or> \<not> is_digit (hd t)"
  have "takeWhile is_digit (dec n @ t) = dec n @ takeWhile is_digit t" by (simp add: dec_digits takeWhile_append2)
  moreover have "takeWhile is_digit t = []" using t by (cases t) simp_all
  ultimately show ?thesis by (simp add: scan_digits_def dec_nonempty undec_dec)
qed

lemma scan_int_fmt_d: "t = [] \<or> \<not> is_digit (hd t) \<Longrightarrow> scan_int (fmt_d x @ t) = Some x"
proof -
  assume t: "t = [] \<or> \<not> is_digit (hd t)"
  show ?thesis
  proof (cases "x < 0")
    case True
    then show ?thesis using scan_digits_dec [OF t, of "- 1" "nat (- x)"] by (simp add: fmt_d_def scan_int_def is_blank_def)
  next
    case False
    obtain c cs where c: "dec (nat x) = c # cs" by (cases "dec (nat x)") (simp_all add: dec_nonempty)
    then have "is_digit c" using dec_digits [of c "nat x"] by simp
    then have "\<not> is_blank c" and "c \<noteq> CHR ''-''" and "c \<noteq> CHR ''+''" by (auto simp: is_digit_def is_blank_def)
    then show ?thesis using scan_digits_dec [OF t, of 1 "nat x"] False by (simp add: fmt_d_def scan_int_def c)
  qed
qed

section \<open>Lines of input\<close>

text \<open>\<open>fgets\<close> with a buffer of \<open>n\<close> bytes on the rest of standard input: what it stores, what is left.\<close>

fun fgets :: "nat \<Rightarrow> string \<Rightarrow> string \<times> string" where
  "fgets n [] = ([], [])"
| "fgets 0 s = ([], s)"
| "fgets (Suc 0) s = ([], s)"
| "fgets (Suc (Suc n)) (c # cs) =
     (if [c] = NL then ([c], cs) else (case fgets (Suc n) cs of (a, b) \<Rightarrow> (c # a, b)))"

lemma fgets_split: "fgets n s = (a, b) \<Longrightarrow> s = a @ b"
  by (induction n s arbitrary: a b rule: fgets.induct) (auto split: if_splits prod.splits)

lemma fgets_progress: "s \<noteq> [] \<Longrightarrow> 1 < n \<Longrightarrow> fst (fgets n s) \<noteq> []"
  by (induction n s rule: fgets.induct) (auto split: prod.splits)

lemma fgets_line:
  "CHR 0x0A \<notin> set l \<Longrightarrow> Suc (length l) < n \<Longrightarrow> fgets n (l @ CHR 0x0A # rest) = (l @ NL, rest)"
proof (induction l arbitrary: n)
  case Nil
  then obtain k where "n = Suc (Suc k)" by (cases n; cases "n - 1") auto
  then show ?case by (simp add: NL_def)
next
  case (Cons c l)
  then obtain k where "n = Suc (Suc k)" by (cases n; cases "n - 1") auto
  with Cons show ?case by (auto simp: NL_def)
qed

text \<open>All lines as a program with a buffer of \<open>n\<close> bytes reads them: pieces of at most \<open>n - 1\<close> characters.\<close>

lemma fgets_less: "s \<noteq> [] \<Longrightarrow> 1 < n \<Longrightarrow> length (snd (fgets n s)) < length s"
  using fgets_split [of n s "fst (fgets n s)" "snd (fgets n s)"] fgets_progress [of s n] by (metis length_append length_greater_0_conv less_add_same_cancel2 prod.collapse)

lemma fgets_pair: "(a, b) = fgets n s \<Longrightarrow> s \<noteq> [] \<Longrightarrow> 1 < n \<Longrightarrow> length b < length s"
  using fgets_less [of s n] by (metis snd_conv)

function input_lines :: "nat \<Rightarrow> string \<Rightarrow> string list" where
  "input_lines n s = (if s = [] \<or> n \<le> 1 then [] else fst (fgets n s) # input_lines n (snd (fgets n s)))"
  by pat_completeness auto
termination by (relation "measure (\<lambda>(_, s). length s)") (use fgets_less in auto)

declare input_lines.simps [simp del]

lemma fgets_one: "fst (fgets (Suc 0) s) = []"
  by (cases s) simp_all

lemma fgets_length: "length (fst (fgets (Suc n) s)) \<le> n"
proof (induction n arbitrary: s)
  case (Suc n)
  then show ?case by (cases s) (auto simp: split_beta NL_def)
qed (simp add: fgets_one)

lemma input_lines_concat: "1 < n \<Longrightarrow> concat (input_lines n s) = s"
proof (induction n s rule: input_lines.induct)
  case (1 n s)
  then show ?case using fgets_split [of n s "fst (fgets n s)" "snd (fgets n s)"]
    by (cases "s = []") (simp add: input_lines.simps, simp add: input_lines.simps [of n s])
qed

lemma input_lines_line: "l \<in> set (input_lines n s) \<Longrightarrow> l \<noteq> [] \<and> length l < n"
proof (induction n s rule: input_lines.induct)
  case (1 n s)
  then have s: "s \<noteq> []" "1 < n" by (auto simp: input_lines.simps [of n s] split: if_splits)
  then show ?case using 1 fgets_progress [of s n] fgets_length [of "n - 1" s] by (auto simp: input_lines.simps [of n s])
qed

end
