(* ===== verification/AntiDebug.thy ===== *)
theory AntiDebug
  imports Bytes
begin

text \<open>
  Programs of SystemProgramming/Handson/lab05_ptrace_antidebug: anti_debug.c, which looks for a debugger in four ways, fake_ptrace.c, which is to defeat one of them, and ptrace_memspy.c, which shows the memory of another process;
  and the program to be patched of lab02_binutils_elf, elf_patch_target.c. Tracing is as it is documented: a process can ask its parent to trace it, unless it is traced already.
\<close>

section \<open>anti\_debug\<close>

text \<open>The process that traces this one, or 0, and its parent. What a tracer does with a signal: it passes it on, drops it, or leaves the process stopped.\<close>

datatype tracer_does = Passes | Drops | Leaves_stopped

record traced =
  tracer :: int
  parent :: int
  reaction :: tracer_does

text \<open>The call that asks for tracing, as the kernel does it, and as the library of fake\_ptrace.c that is loaded before libc.\<close>

definition kernel_traceme :: "traced \<Rightarrow> int \<times> traced" where
  "kernel_traceme s = (if tracer s \<noteq> 0 then (- 1, s) else (0, s\<lparr>tracer := parent s\<rparr>))"

definition fake_ptrace :: "traced \<Rightarrow> int \<times> traced" where
  "fake_ptrace s = (0, s)"

text \<open>The call to detach that follows names process 0, which is not traced by this one: it fails, and the parent stays the tracer.\<close>

definition check_ptrace :: "(traced \<Rightarrow> int \<times> traced) \<Rightarrow> traced \<Rightarrow> int \<times> traced" where
  "check_ptrace ptrace s = (let (r, s1) = ptrace s in (if r = - 1 then 1 else 0, s1))"

definition TRACER :: string where "TRACER = ''TracerPid:''"

text \<open>The status file of the kernel, with some lines before and after; the file as lines, or not to be opened. \<open>None\<close>: the number does not fit.\<close>

definition status_file :: "string list \<Rightarrow> string list \<Rightarrow> traced \<Rightarrow> string list" where
  "status_file before after s = before @ [TRACER @ [CHR 0x09] @ fmt_d (tracer s) @ NL] @ after"

definition check_proc_status :: "string list option \<Rightarrow> int option" where
  "check_proc_status file = (case file of
       None \<Rightarrow> Some 0
     | Some ls \<Rightarrow> (case find (\<lambda>l. take 10 l = TRACER) ls of
           None \<Rightarrow> Some 0
         | Some l \<Rightarrow> (case scan_int (drop 10 l) of
               None \<Rightarrow> Some 0
             | Some v \<Rightarrow> if fits_s32 v then Some (if v \<noteq> 0 then 1 else 0) else None)))"

text \<open>The loop of the timing check: \<open>n\<close> rounds from \<open>i\<close> on. The sum is an \<open>int\<close>.\<close>

fun timing_loop :: "int \<Rightarrow> nat \<Rightarrow> int \<Rightarrow> int option" where
  "timing_loop i 0 s = Some s"
| "timing_loop i (Suc n) s = Option.bind (arith32 (s + i)) (timing_loop (i + 1) n)"

text \<open>With a compiler that lets the sum wrap around, or one that does not; the time that has passed is in nanoseconds.\<close>

definition check_timing :: "bool \<Rightarrow> int \<Rightarrow> int option" where
  "check_timing wraps elapsed_ns =
     (if \<not> wraps \<and> timing_loop 0 100000 0 = None then None else Some (if elapsed_ns > 100000000 then 1 else 0))"

text \<open>\<open>None\<close>: the process stays stopped.\<close>

definition check_signal :: "traced \<Rightarrow> int option" where
  "check_signal s = (if tracer s = 0 then Some 0 else case reaction s of Passes \<Rightarrow> Some 0 | Drops \<Rightarrow> Some 1 | Leaves_stopped \<Rightarrow> None)"

datatype ended = Exit int "string list" | Stopped "string list" | Undefined

definition verdict :: "string \<Rightarrow> string \<Rightarrow> int \<Rightarrow> string" where
  "verdict label bad r = label @ (if r \<noteq> 0 then bad else ''OK'') @ NL"

definition protected_operation :: "string list" where
  "protected_operation = [NL @ ''[PROTECTED] Executing sensitive operation...'' @ NL,
     ''[PROTECTED] Secret key: 0x'' @ fmt_X 0xDE @ fmt_X 0xAD @ fmt_X 0xBE @ fmt_X 0xEF @ NL, ''[PROTECTED] Operation complete.'' @ NL]"

definition anti_debug :: "(traced \<Rightarrow> int \<times> traced) \<Rightarrow> (traced \<Rightarrow> string list option) \<Rightarrow> bool \<Rightarrow> int \<Rightarrow> traced \<Rightarrow> ended" where
  "anti_debug ptrace proc_status wraps elapsed_ns s =
     (let (r1, s1) = check_ptrace ptrace s;
          l1 = verdict ''[CHECK 1] ptrace self-trace... '' ''DEBUGGER DETECTED!'' r1
      in case check_proc_status (proc_status s1) of None \<Rightarrow> Undefined | Some r2 \<Rightarrow>
        (case check_timing wraps elapsed_ns of None \<Rightarrow> Undefined | Some r3 \<Rightarrow>
          (let ls = [''=== Anti-Debugging Demo ==='' @ NL @ NL, l1, verdict ''[CHECK 2] /proc/self/status... '' ''DEBUGGER DETECTED!'' r2,
                     verdict ''[CHECK 3] Timing analysis...   '' ''SUSPICIOUS TIMING!'' r3]
           in case check_signal s1 of None \<Rightarrow> Stopped ls | Some r4 \<Rightarrow>
             (let ls4 = ls @ [verdict ''[CHECK 4] Signal trap...       '' ''DEBUGGER DETECTED!'' r4, NL]
              in if r1 \<noteq> 0 \<or> r2 \<noteq> 0 \<or> r3 \<noteq> 0 \<or> r4 \<noteq> 0
                 then Exit 1 (ls4 @ [''[!] Debugging detected! Aborting sensitive operation.'' @ NL])
                 else Exit 0 (ls4 @ protected_operation @ [NL @ ''=== Demo Complete ==='' @ NL])))))"

text \<open>The sum of the numbers below 100000 does not fit: the loop is undefined from round 65536 on.\<close>

lemma timing_loop_sum:
  "0 \<le> i \<Longrightarrow> 2 * s = i * (i - 1) \<Longrightarrow> i + int n \<le> 65536 \<Longrightarrow>
     \<exists>t. timing_loop i n s = Some t \<and> 2 * t = (i + int n) * (i + int n - 1)"
proof (induction n arbitrary: i s)
  case (Suc n)
  have e: "2 * (s + i) = (i + 1) * (i + 1 - 1)" using Suc.prems(2) by (simp add: algebra_simps)
  have "(i + 1) * i \<le> 65536 * 65535" using Suc.prems(1,3) by (intro mult_mono) simp_all
  then have "s + i < 2147483648" using e by simp
  moreover have "0 \<le> 2 * (s + i)" unfolding e using Suc.prems(1) by simp
  then have "0 \<le> s + i" by simp
  ultimately have a: "arith32 (s + i) = Some (s + i)" by (simp add: arith32_ok)
  have "\<exists>t. timing_loop (i + 1) n (s + i) = Some t \<and> 2 * t = (i + 1 + int n) * (i + 1 + int n - 1)"
    using Suc.prems(1,3) e by (intro Suc.IH) simp_all
  moreover have "i + 1 + int n = i + int (Suc n)" by simp
  ultimately show ?case using a by simp
qed simp

lemma timing_loop_app: "timing_loop i (m + n) s = Option.bind (timing_loop i m s) (timing_loop (i + int m) n)"
proof (induction m arbitrary: i s)
  case (Suc m)
  then show ?case by (cases "arith32 (s + i)") (simp_all add: add.assoc)
qed simp

lemma check_timing_overflows: "check_timing False elapsed_ns = None"
proof -
  have a: "timing_loop 0 65536 0 = Some 2147450880" using timing_loop_sum [of 0 0 65536] by auto
  have "timing_loop 65536 (Suc 34463) 2147450880 = None" by (subst timing_loop.simps) (simp add: arith32_overflow)
  then have "timing_loop 0 (65536 + 34464) 0 = None" unfolding timing_loop_app a by simp
  then show ?thesis by (simp add: check_timing_def)
qed

lemma status_number:
  assumes "list_all (\<lambda>l. take 10 l \<noteq> TRACER) before" and "fits_s32 (tracer s)"
  shows "check_proc_status (Some (status_file before after s)) = Some (if tracer s \<noteq> 0 then 1 else 0)"
proof -
  have "find (\<lambda>l. take 10 l = TRACER) (before @ x # after) = Some x" if "take 10 x = TRACER" for x
    using assms(1) that by (induction before) simp_all
  moreover have "scan_int ([CHR 0x09] @ fmt_d (tracer s) @ NL) = Some (tracer s)"
    using scan_int_fmt_d [of NL "tracer s"] by (simp add: scan_int_def is_blank_def NL_def is_digit_def)
  ultimately show ?thesis using assms(2) by (simp add: check_proc_status_def status_file_def TRACER_def)
qed

text \<open>The program takes itself for one that is debugged: the first check has made its parent the tracer, which the second check reports. What the fourth does is
  up to the parent then; a shell leaves the process stopped.\<close>

lemma detects_itself:
  assumes "tracer s = 0" and "0 < parent s" and "fits_s32 (parent s)" and "list_all (\<lambda>l. take 10 l \<noteq> TRACER) before"
  shows "case anti_debug kernel_traceme (\<lambda>s. Some (status_file before after s)) True elapsed_ns s of
      Exit r ls \<Rightarrow> r = 1 \<and> reaction s \<noteq> Leaves_stopped | Stopped ls \<Rightarrow> reaction s = Leaves_stopped | Undefined \<Rightarrow> False"
proof -
  have "check_proc_status (Some (status_file before after (s\<lparr>tracer := parent s\<rparr>))) = Some 1"
    using status_number [OF assms(4), of "s\<lparr>tracer := parent s\<rparr>" after] assms(2,3) by simp
  then show ?thesis
    using assms(1,2) by (cases "reaction s") (simp_all add: anti_debug_def check_ptrace_def kernel_traceme_def check_timing_def check_signal_def Let_def)
qed

text \<open>With the library that fakes the call, the program finds nothing wrong where nothing is; a real debugger is still found by the second check.\<close>

lemma fake_ptrace_result:
  assumes "list_all (\<lambda>l. take 10 l \<noteq> TRACER) before" and "fits_s32 (tracer s)" and "elapsed_ns \<le> 100000000" and "reaction s = Passes"
  shows "\<exists>ls. anti_debug fake_ptrace (\<lambda>s. Some (status_file before after s)) True elapsed_ns s = Exit (if tracer s = 0 then 0 else 1) ls"
  using status_number [OF assms(1,2), of after] assms(3,4)
  by (simp add: anti_debug_def check_ptrace_def fake_ptrace_def check_timing_def check_signal_def Let_def)

text \<open>Without the first check there would be nothing to detect.\<close>

lemma other_checks_quiet:
  assumes "tracer s = 0" and "list_all (\<lambda>l. take 10 l \<noteq> TRACER) before"
  shows "check_proc_status (Some (status_file before after s)) = Some 0 \<and> check_signal s = Some 0"
  using status_number [OF assms(2), of s after] assms(1) by (simp add: check_signal_def fits_s32_def)

section \<open>ptrace\_memspy\<close>

text \<open>Eight bytes of the other process, if they can all be read.\<close>

definition peek :: "(int \<Rightarrow> u8 option) \<Rightarrow> int \<Rightarrow> u8 list option" where
  "peek mem a = those (map (\<lambda>i. mem (a + i)) [0..7])"

definition dump_byte :: "u8 \<Rightarrow> string" where
  "dump_byte b = pad_zero 2 (fmt_x (uint b)) @ '' ''"

definition shown_char :: "u8 \<Rightarrow> char" where
  "shown_char b = (if 32 \<le> b \<and> b < 127 then chr8 b else CHR ''.'')"

text \<open>One line: two words, of which the second is not tried if the first cannot be read.\<close>

definition memspy_line :: "(int \<Rightarrow> u8 option) \<Rightarrow> int \<Rightarrow> string" where
  "memspy_line mem line_addr =
     (let unknown = ''?? ?? ?? ?? ?? ?? ?? ?? '';
          (h, ascii) = (case peek mem line_addr of
              None \<Rightarrow> (unknown, replicate 16 CHR ''.'')
            | Some w \<Rightarrow> (case peek mem (line_addr + 8) of
                  None \<Rightarrow> (concat (map dump_byte w) @ unknown, map shown_char w @ replicate 8 CHR ''.'')
                | Some w2 \<Rightarrow> (concat (map dump_byte w) @ concat (map dump_byte w2), map shown_char w @ map shown_char w2)))
      in ''  '' @ pad_zero 8 (fmt_x line_addr) @ ''  '' @ h @ '' '' @ ascii @ NL)"

definition memspy :: "(int \<Rightarrow> string) \<Rightarrow> int \<Rightarrow> int \<Rightarrow> int \<Rightarrow> (int \<Rightarrow> u8 option) \<Rightarrow> string list" where
  "memspy strerror attach target_pid addr mem =
     (''[memspy] Attaching to PID '' @ fmt_d target_pid @ NL) #
     (if attach < 0 then [''PTRACE_ATTACH: '' @ strerror (- attach) @ NL]
      else [''[memspy] Attached. Target stopped.'' @ NL, ''[memspy] Reading memory at 0x'' @ fmt_x addr @ '':'' @ NL,
            ''  Offset    Hex                                      ASCII'' @ NL, ''  --------  ---------------------------------------  ----------------'' @ NL] @
           map (\<lambda>line. memspy_line mem (addr + line * 16)) [0..3] @ [NL @ ''[memspy] Detached from PID '' @ fmt_d target_pid @ NL])"

lemma those_map_Some: "those (map (\<lambda>i. Some (f i)) xs) = Some (map f xs)"
  by (induction xs) simp_all

lemma memspy_readable:
  assumes "\<And>i. 0 \<le> i \<Longrightarrow> i < 16 \<Longrightarrow> mem (a + i) = Some (f i)"
  shows "memspy_line mem a = ''  '' @ pad_zero 8 (fmt_x a) @ ''  '' @ concat (map (\<lambda>i. dump_byte (f i)) [0..15]) @ '' '' @ map (\<lambda>i. shown_char (f i)) [0..15] @ NL"
proof -
  have "map (\<lambda>i. mem (a + i)) [0..7] = map (\<lambda>i. Some (f i)) [0..7]" and "map (\<lambda>i. mem (a + 8 + i)) [0..7] = map (\<lambda>i. Some (f (8 + i))) [0..7]"
    using assms by (auto simp: add.assoc)
  then have "peek mem a = Some (map f [0..7])" and "peek mem (a + 8) = Some (map (\<lambda>i. f (8 + i)) [0..7])" by (simp_all only: peek_def those_map_Some)
  moreover have "[0..15] = [0..7] @ map ((+) 8) [0..7 :: int]" by code_simp
  ultimately show ?thesis by (simp add: memspy_line_def comp_def)
qed

section \<open>elf\_patch\_target\<close>

definition check_authentication :: "string \<Rightarrow> int" where
  "check_authentication password = (if password = ''s3cur3_p4ss'' then 1 else 0)"

text \<open>\<open>main\<close>, with the password and the two messages that are to be patched.\<close>

definition patch_target :: "string \<Rightarrow> string \<Rightarrow> string \<Rightarrow> string list" where
  "patch_target test_password auth_message_pass auth_message_fail =
     [''=== ELF Patch Target ==='' @ NL, ''Checking password: '' @ in_quotes test_password @ NL] @
     (if check_authentication test_password \<noteq> 0 then [''Result: '' @ auth_message_pass @ NL, ''Welcome! Secret data: 42'' @ NL]
      else [''Result: '' @ auth_message_fail @ NL, ''Hint: Try patching the binary!'' @ NL]) @ [''=== Done ==='' @ NL]"

lemma patch_target_denies: "patch_target ''wrong_password'' ''Access Allowed'' ''Access Denied'' ! 2 = ''Result: Access Denied'' @ NL"
  by (simp add: patch_target_def check_authentication_def)

end
