(* ===== verification/BarrierDemo.thy ===== *)
theory BarrierDemo
  imports Bytes
begin

text \<open>
  KernelProgramming/Handson/lab15_signals_barriers/barrier_demo.c: a writer and a reader that communicate over two plain variables with memory
  barriers.

  The memory is weak, as the kernel documents it. A store goes to the buffer of the processor and reaches memory later, two stores in any order unless a
  write barrier stands between them. A load can be served by a value that was fetched from memory earlier, in any order, unless a read barrier has come in
  between; a value once seen of a variable is not followed by an older one of it. A schedule lists the steps of the two threads and of the memory.
\<close>

section \<open>Memory\<close>

datatype shared_var = Message | Flag

datatype buffered = Store shared_var int | Write_Barrier

datatype w_place = W_Start | W_Barrier | W_Flag | W_Waits

datatype r_place = R_Loop nat | R_Sleep nat | R_Test | R_Barrier | R_Report | R_Report_Message int | R_Waits

record barrier_state =
  memory :: "shared_var \<Rightarrow> int"
  store_buffer :: "buffered list"
  fetched :: "shared_var \<Rightarrow> int option"
  writer :: w_place
  reader :: r_place
  reports :: "string list"

definition barrier_start :: barrier_state where
  "barrier_start = \<lparr>memory = (\<lambda>_. 0), store_buffer = [], fetched = (\<lambda>_. None), writer = W_Start, reader = R_Loop 0, reports = []\<rparr>"

text \<open>The buffered store number \<open>k\<close> reaches memory if no barrier stands before it; a barrier at the front is done.\<close>

definition commit :: "nat \<Rightarrow> barrier_state \<Rightarrow> barrier_state option" where
  "commit k s =
     (if k < length (store_buffer s) \<and> Write_Barrier \<notin> set (take k (store_buffer s)) then
        (case store_buffer s ! k of
           Store v x \<Rightarrow> Some (s\<lparr>memory := (memory s)(v := x), store_buffer := take k (store_buffer s) @ drop (k + 1) (store_buffer s)\<rparr>)
         | Write_Barrier \<Rightarrow> if k = 0 then Some (s\<lparr>store_buffer := tl (store_buffer s)\<rparr>) else None)
      else None)"

definition fetch :: "shared_var \<Rightarrow> barrier_state \<Rightarrow> barrier_state" where
  "fetch v s = s\<lparr>fetched := (fetched s)(v := Some (memory s v))\<rparr>"

text \<open>A load takes the value fetched earlier if \<open>early\<close> holds and there is one, and that of the memory otherwise.\<close>

definition load :: "bool \<Rightarrow> shared_var \<Rightarrow> barrier_state \<Rightarrow> int \<times> barrier_state" where
  "load early v s =
     (case fetched s v of
        Some x \<Rightarrow> if early then (x, s) else (memory s v, fetch v s)
      | None \<Rightarrow> (memory s v, fetch v s))"

definition smp_rmb :: "barrier_state \<Rightarrow> barrier_state" where
  "smp_rmb s = s\<lparr>fetched := (\<lambda>_. None)\<rparr>"

section \<open>The threads\<close>

definition barrier_writer_fn :: "barrier_state \<Rightarrow> barrier_state option" where
  "barrier_writer_fn s = (case writer s of
     W_Start \<Rightarrow> Some (s\<lparr>store_buffer := store_buffer s @ [Store Message 42], writer := W_Barrier\<rparr>)
   | W_Barrier \<Rightarrow> Some (s\<lparr>store_buffer := store_buffer s @ [Write_Barrier], writer := W_Flag\<rparr>)
   | W_Flag \<Rightarrow> Some (s\<lparr>store_buffer := store_buffer s @ [Store Flag 1], writer := W_Waits\<rparr>)
   | W_Waits \<Rightarrow> None)"

text \<open>\<open>R_Loop n\<close> is the test of the loop in its round \<open>n\<close>; the report reads both variables.\<close>

definition barrier_reader_fn :: "bool \<Rightarrow> barrier_state \<Rightarrow> barrier_state option" where
  "barrier_reader_fn early s = (case reader s of
     R_Loop n \<Rightarrow> (case load early Flag s of (x, t) \<Rightarrow> Some (t\<lparr>reader := (if x = 0 \<and> n < 50 then R_Sleep n else R_Test)\<rparr>))
   | R_Sleep n \<Rightarrow> Some ((smp_rmb s)\<lparr>reader := R_Loop (n + 1)\<rparr>)
   | R_Test \<Rightarrow> (case load early Flag s of
       (x, t) \<Rightarrow> Some (if x = 1 then t\<lparr>reader := R_Barrier\<rparr>
                      else t\<lparr>reader := R_Waits, reports := reports s @ [''[barrier-reader] Timed out waiting for flag'' @ NL]\<rparr>))
   | R_Barrier \<Rightarrow> Some ((smp_rmb s)\<lparr>reader := R_Report\<rparr>)
   | R_Report \<Rightarrow> (case load early Flag s of (x, t) \<Rightarrow> Some (t\<lparr>reader := R_Report_Message x\<rparr>))
   | R_Report_Message x \<Rightarrow> (case load early Message s of
       (y, t) \<Rightarrow> Some (t\<lparr>reader := R_Waits, reports := reports s @
         [''[barrier-reader] flag='' @ fmt_d x @ '', message='' @ fmt_d y @ '' (should be 42)'' @ NL]\<rparr>))
   | R_Waits \<Rightarrow> None)"

datatype barrier_step = Writer_Step | Reader_Step bool | Commit nat | Fetch shared_var

definition barrier_demo_step :: "barrier_step \<Rightarrow> barrier_state \<Rightarrow> barrier_state option" where
  "barrier_demo_step a s = (case a of
     Writer_Step \<Rightarrow> barrier_writer_fn s
   | Reader_Step early \<Rightarrow> barrier_reader_fn early s
   | Commit k \<Rightarrow> commit k s
   | Fetch v \<Rightarrow> Some (fetch v s))"

fun barrier_run :: "barrier_step list \<Rightarrow> barrier_state \<Rightarrow> barrier_state option" where
  "barrier_run [] s = Some s"
| "barrier_run (a # as) s = Option.bind (barrier_demo_step a s) (barrier_run as)"

section \<open>Invariant\<close>

text \<open>The place of the writer with the buffer and the memory.\<close>

definition writer_configs :: "(w_place \<times> buffered list \<times> int \<times> int) list" where
  "writer_configs =
     [(W_Start, [], 0, 0), (W_Barrier, [Store Message 42], 0, 0), (W_Barrier, [], 42, 0),
      (W_Flag, [Store Message 42, Write_Barrier], 0, 0), (W_Flag, [Write_Barrier], 42, 0), (W_Flag, [], 42, 0),
      (W_Waits, [Store Message 42, Write_Barrier, Store Flag 1], 0, 0), (W_Waits, [Write_Barrier, Store Flag 1], 42, 0),
      (W_Waits, [Store Flag 1], 42, 0), (W_Waits, [], 42, 1)]"

definition config :: "barrier_state \<Rightarrow> w_place \<times> buffered list \<times> int \<times> int" where
  "config s = (writer s, store_buffer s, memory s Message, memory s Flag)"

definition buffer_phase :: "barrier_state \<Rightarrow> bool" where
  "buffer_phase s \<longleftrightarrow> config s \<in> set writer_configs"

text \<open>The two kinds of steps that change a configuration, as functions of it; that none leads out of the list is then a computation.\<close>

fun commit_config :: "nat \<Rightarrow> w_place \<times> buffered list \<times> int \<times> int \<Rightarrow> (w_place \<times> buffered list \<times> int \<times> int) option" where
  "commit_config k (w, b, m, f) =
     (if k < length b \<and> Write_Barrier \<notin> set (take k b) then
        (case b ! k of
           Store v x \<Rightarrow> Some (w, take k b @ drop (k + 1) b, if v = Message then x else m, if v = Flag then x else f)
         | Write_Barrier \<Rightarrow> if k = 0 then Some (w, tl b, m, f) else None)
      else None)"

fun writer_config :: "w_place \<times> buffered list \<times> int \<times> int \<Rightarrow> (w_place \<times> buffered list \<times> int \<times> int) option" where
  "writer_config (W_Start, b, m, f) = Some (W_Barrier, b @ [Store Message 42], m, f)"
| "writer_config (W_Barrier, b, m, f) = Some (W_Flag, b @ [Write_Barrier], m, f)"
| "writer_config (W_Flag, b, m, f) = Some (W_Waits, b @ [Store Flag 1], m, f)"
| "writer_config (W_Waits, b, m, f) = None"

definition stays :: "(w_place \<times> buffered list \<times> int \<times> int) option \<Rightarrow> int \<Rightarrow> bool" where
  "stays c f \<longleftrightarrow> (case c of None \<Rightarrow> True | Some d \<Rightarrow> d \<in> set writer_configs \<and> (f \<noteq> 1 \<or> snd (snd (snd d)) = 1))"

lemma configs_closed:
  "list_all (\<lambda>c. length (fst (snd c)) \<le> 3 \<and> stays (writer_config c) (snd (snd (snd c))) \<and>
     list_all (\<lambda>k. stays (commit_config k c) (snd (snd (snd c)))) [0, 1, 2] \<and>
     (snd (snd (snd c)) = 0 \<or> snd (snd (snd c)) = 1 \<and> fst (snd (snd c)) = 42)) writer_configs"
  by code_simp

lemma commit_config: "commit k s = Some s' \<Longrightarrow> commit_config k (config s) = Some (config s')"
  by (auto simp: commit_def config_def split: if_splits buffered.splits)

lemma commit_keeps: "commit k s = Some s' \<Longrightarrow> reader s' = reader s \<and> fetched s' = fetched s \<and> reports s' = reports s"
  by (auto simp: commit_def split: if_splits buffered.splits)

lemma writer_config: "barrier_writer_fn s = Some s' \<Longrightarrow> writer_config (config s) = Some (config s')"
  by (cases "writer s") (auto simp: barrier_writer_fn_def config_def)

lemma writer_keeps: "barrier_writer_fn s = Some s' \<Longrightarrow> reader s' = reader s \<and> fetched s' = fetched s \<and> reports s' = reports s \<and> memory s' = memory s"
  by (cases "writer s") (auto simp: barrier_writer_fn_def)

definition reader_phase :: "barrier_state \<Rightarrow> bool" where
  "reader_phase s \<longleftrightarrow>
     (case reader s of
        R_Barrier \<Rightarrow> memory s Flag = 1
      | R_Report \<Rightarrow> memory s Flag = 1 \<and> fetched s Message \<in> {None, Some 42} \<and> fetched s Flag \<in> {None, Some 1}
      | R_Report_Message x \<Rightarrow> memory s Flag = 1 \<and> fetched s Message \<in> {None, Some 42} \<and> x = 1
      | _ \<Rightarrow> True) \<and>
     fetched s Flag \<in> {None, Some 0, Some 1} \<and> (fetched s Flag = Some 1 \<longrightarrow> memory s Flag = 1)"

definition good_reports :: "string list" where
  "good_reports = [''[barrier-reader] flag=1, message=42 (should be 42)'' @ NL, ''[barrier-reader] Timed out waiting for flag'' @ NL]"

definition barrier_ok :: "barrier_state \<Rightarrow> bool" where
  "barrier_ok s \<longleftrightarrow> buffer_phase s \<and> reader_phase s \<and> set (reports s) \<subseteq> set good_reports"

lemma barrier_start_ok: "barrier_ok barrier_start"
  by (simp add: barrier_ok_def buffer_phase_def writer_configs_def config_def reader_phase_def barrier_start_def)

lemma flag_after_message:
  assumes "buffer_phase s"
  shows "memory s Flag = 0 \<or> memory s Flag = 1 \<and> memory s Message = 42"
  using configs_closed assms by (auto simp: list_all_iff buffer_phase_def config_def)

lemma buffer_phase_writer:
  assumes "buffer_phase s" and "barrier_writer_fn s = Some s'"
  shows "buffer_phase s'"
proof -
  have "stays (writer_config (config s)) (memory s Flag)"
    using configs_closed assms(1) by (auto simp: list_all_iff buffer_phase_def config_def)
  then show ?thesis using writer_config [OF assms(2)] by (simp add: stays_def buffer_phase_def)
qed

lemma commit_stays: "c \<in> set writer_configs \<Longrightarrow> k = 0 \<or> k = 1 \<or> k = 2 \<Longrightarrow> stays (commit_config k c) (snd (snd (snd c)))"
  using configs_closed by (auto simp: list_all_iff simp del: commit_config.simps)

lemma flag_of_config: "snd (snd (snd (config s))) = memory s Flag"
  by (simp add: config_def)

lemma buffer_phase_commit:
  assumes "buffer_phase s" and "commit k s = Some s'"
  shows "buffer_phase s' \<and> (memory s Flag \<noteq> 1 \<or> memory s' Flag = 1)"
proof -
  have "k < length (store_buffer s)" using assms(2) by (auto simp: commit_def split: if_splits)
  moreover have "length (store_buffer s) \<le> 3" using configs_closed assms(1) by (auto simp: list_all_iff buffer_phase_def config_def)
  ultimately have "k = 0 \<or> k = 1 \<or> k = 2" by linarith
  then have "stays (Some (config s')) (memory s Flag)"
    using commit_stays [of "config s" k] assms(1) commit_config [OF assms(2)]
    by (simp only: buffer_phase_def flag_of_config)
  then show ?thesis by (simp add: stays_def buffer_phase_def flag_of_config)
qed

lemma reader_phase_memory:
  assumes "reader_phase s" and "memory s Flag \<noteq> 1 \<or> memory s' Flag = 1" and "reader s' = reader s" and "fetched s' = fetched s"
  shows "reader_phase s'"
  using assms by (cases "reader s") (auto simp: reader_phase_def)

lemma reader_phase_fetch: "buffer_phase s \<Longrightarrow> reader_phase s \<Longrightarrow> reader_phase (fetch v s)"
  using flag_after_message [of s] by (cases "reader s"; cases v) (auto simp: reader_phase_def fetch_def)

text \<open>What a load delivers.\<close>

lemma load_flag:
  assumes "buffer_phase s" and "reader_phase s" and "load early Flag s = (x, t)"
  shows "(x = 0 \<or> x = 1) \<and> (x = 1 \<longrightarrow> memory s Flag = 1) \<and> memory t = memory s \<and> reader_phase t \<and> config t = config s \<and>
    reports t = reports s \<and> reader t = reader s \<and> fetched t Message = fetched s Message"
  using assms flag_after_message [OF assms(1)] reader_phase_fetch [OF assms(1,2), of Flag]
  by (auto simp: load_def reader_phase_def fetch_def config_def split: option.splits if_splits)

lemma load_message:
  assumes "buffer_phase s" and "memory s Flag = 1" and "fetched s Message \<in> {None, Some 42}" and "load early Message s = (y, t)"
  shows "y = 42 \<and> memory t = memory s \<and> config t = config s \<and> reports t = reports s \<and> fetched t Flag = fetched s Flag"
  using assms flag_after_message [OF assms(1)]
  by (auto simp: load_def fetch_def config_def split: option.splits if_splits)

lemma barrier_okI:
  assumes "config s' = config s" and "barrier_ok s" and "reader_phase s'" and "set (reports s') \<subseteq> set good_reports"
  shows "barrier_ok s'"
  using assms by (simp add: barrier_ok_def buffer_phase_def)

lemma config_update:
  "config (s\<lparr>reader := r\<rparr>) = config s"
  "config (s\<lparr>reports := rs\<rparr>) = config s"
  "config (s\<lparr>fetched := f\<rparr>) = config s"
  by (simp_all add: config_def)

lemma flag_phase_anywhere:
  assumes "reader_phase s" and "reader s' = R_Loop n \<or> reader s' = R_Sleep n \<or> reader s' = R_Test \<or> reader s' = R_Waits"
    and "memory s' = memory s" and "fetched s' Flag = fetched s Flag \<or> fetched s' Flag = None"
  shows "reader_phase s'"
  using assms by (auto simp: reader_phase_def)

lemma barrier_ok_anywhere:
  assumes "config s' = config s" and "barrier_ok s" and "reader_phase t"
    and "reader s' = R_Loop n \<or> reader s' = R_Sleep n \<or> reader s' = R_Test \<or> reader s' = R_Waits"
    and "memory s' = memory t" and "fetched s' Flag = fetched t Flag \<or> fetched s' Flag = None" and "set (reports s') \<subseteq> set good_reports"
  shows "barrier_ok s'"
  by (rule barrier_okI [OF assms(1,2) flag_phase_anywhere [OF assms(3-6)] assms(7)])

lemma good_reports_set:
  "''[barrier-reader] flag='' @ fmt_d 1 @ '', message='' @ fmt_d 42 @ '' (should be 42)'' @ NL \<in> set good_reports"
  "''[barrier-reader] Timed out waiting for flag'' @ NL \<in> set good_reports"
  by (simp_all add: good_reports_def fmt_d_def dec.simps digit_def)

lemma barrier_reader_fn_ok:
  assumes "barrier_ok s" and "barrier_reader_fn early s = Some s'"
  shows "barrier_ok s'"
proof -
  obtain x t where l: "load early Flag s = (x, t)" by (cases "load early Flag s")
  obtain y u where m: "load early Message s = (y, u)" by (cases "load early Message s")
  have b: "buffer_phase s" and r: "reader_phase s" and g: "set (reports s) \<subseteq> set good_reports"
    using assms(1) by (simp_all add: barrier_ok_def)
  note lf = load_flag [OF b r l]
  show ?thesis
  proof (cases "reader s")
    case (R_Loop n)
    then have e: "s' = t\<lparr>reader := (if x = 0 \<and> n < 50 then R_Sleep n else R_Test)\<rparr>" using assms(2) l by (simp add: barrier_reader_fn_def)
    show ?thesis
      by (rule barrier_ok_anywhere [OF _ assms(1), of _ t n]) (use e lf g in \<open>simp_all add: config_update\<close>)
  next
    case (R_Sleep n)
    then have e: "s' = (smp_rmb s)\<lparr>reader := R_Loop (n + 1)\<rparr>" using assms(2) by (simp add: barrier_reader_fn_def)
    show ?thesis
      by (rule barrier_ok_anywhere [OF _ assms(1), of _ s "n + 1"]) (use e r g in \<open>simp_all add: config_update smp_rmb_def\<close>)
  next
    case R_Test
    show ?thesis
    proof (cases "x = 1")
      case True
      then have e: "s' = t\<lparr>reader := R_Barrier\<rparr>" using assms(2) l R_Test by (simp add: barrier_reader_fn_def)
      show ?thesis
        by (rule barrier_okI [OF _ assms(1)]) (use e lf g True in \<open>auto simp: config_update reader_phase_def\<close>)
    next
      case False
      then have e: "s' = t\<lparr>reader := R_Waits, reports := reports s @ [''[barrier-reader] Timed out waiting for flag'' @ NL]\<rparr>"
        using assms(2) l R_Test by (simp add: barrier_reader_fn_def)
      show ?thesis
        by (rule barrier_ok_anywhere [OF _ assms(1), of _ t 0]) (use e lf g good_reports_set in \<open>simp_all add: config_update\<close>)
    qed
  next
    case R_Barrier
    then have e: "s' = (smp_rmb s)\<lparr>reader := R_Report\<rparr>" using assms(2) by (simp add: barrier_reader_fn_def)
    show ?thesis
      by (rule barrier_okI [OF _ assms(1)]) (use e r g R_Barrier in \<open>simp_all add: config_update reader_phase_def smp_rmb_def\<close>)
  next
    case R_Report
    then have e: "s' = t\<lparr>reader := R_Report_Message x\<rparr>" using assms(2) l by (simp add: barrier_reader_fn_def)
    have x: "x = 1" using R_Report r l flag_after_message [OF b]
      by (auto simp: reader_phase_def load_def split: option.splits if_splits)
    show ?thesis
      by (rule barrier_okI [OF _ assms(1)]) (use e x lf r g R_Report in \<open>auto simp: config_update reader_phase_def\<close>)
  next
    case (R_Report_Message z)
    then have z: "memory s Flag = 1" "fetched s Message \<in> {None, Some 42}" "z = 1" using r by (auto simp: reader_phase_def)
    note lm = load_message [OF b z(1,2) m]
    have e: "s' = u\<lparr>reader := R_Waits, reports := reports s @
         [''[barrier-reader] flag='' @ fmt_d z @ '', message='' @ fmt_d y @ '' (should be 42)'' @ NL]\<rparr>"
      using assms(2) m R_Report_Message by (simp add: barrier_reader_fn_def)
    show ?thesis
      by (rule barrier_ok_anywhere [OF _ assms(1), of _ s 0]) (use e lm r g z good_reports_set in \<open>simp_all add: config_update\<close>)
  next
    case R_Waits
    then show ?thesis using assms(2) by (simp add: barrier_reader_fn_def)
  qed
qed

lemma barrier_demo_step_ok:
  assumes "barrier_ok s" and "barrier_demo_step a s = Some s'"
  shows "barrier_ok s'"
proof (cases a)
  case Writer_Step
  then have w: "barrier_writer_fn s = Some s'" using assms(2) by (simp add: barrier_demo_step_def)
  show ?thesis
    using assms(1) buffer_phase_writer [OF _ w] writer_keeps [OF w] reader_phase_memory [of s s'] by (simp add: barrier_ok_def)
next
  case (Reader_Step early)
  then show ?thesis using assms barrier_reader_fn_ok [of s early s'] by (simp add: barrier_demo_step_def)
next
  case (Commit k)
  then have w: "commit k s = Some s'" using assms(2) by (simp add: barrier_demo_step_def)
  show ?thesis
    using assms(1) buffer_phase_commit [OF _ w] commit_keeps [OF w] reader_phase_memory [of s s'] by (simp add: barrier_ok_def)
next
  case (Fetch v)
  then show ?thesis
    using assms reader_phase_fetch [of s v]
    by (auto simp: barrier_demo_step_def barrier_ok_def buffer_phase_def config_def fetch_def)
qed

lemma barrier_run_ok: "barrier_ok s \<Longrightarrow> barrier_run as s = Some s' \<Longrightarrow> barrier_ok s'"
  by (induction as arbitrary: s) (auto simp: Option.bind_eq_Some_conv dest: barrier_demo_step_ok)

section \<open>Properties\<close>

text \<open>
  C34. Whatever the order in which the two threads run, the stores reach memory and loads are served early: the report of the reader is the message 42 or the timeout,
  never a stale message.\<close>

theorem barrier_no_stale_message:
  assumes "barrier_run as barrier_start = Some s"
  shows "set (reports s) \<subseteq> set good_reports"
  using barrier_run_ok [OF barrier_start_ok assms] by (simp add: barrier_ok_def)

definition barrier_schedule :: "barrier_step list" where
  "barrier_schedule =
     [Fetch Message, Reader_Step False, Writer_Step, Writer_Step, Writer_Step, Commit 0, Commit 0, Commit 0, Fetch Flag, Reader_Step True,
      Reader_Step True, Reader_Step True, Reader_Step True, Reader_Step True, Reader_Step True]"

theorem barrier_no_stale_message_witness:
  "\<exists>s. barrier_run barrier_schedule barrier_start = Some s \<and> set (reports s) \<subseteq> set good_reports \<and> length (reports s) = 1"
proof -
  have r: "map_option (length \<circ> reports) (barrier_run barrier_schedule barrier_start) = Some 1"
    by code_simp
  then obtain s where s: "barrier_run barrier_schedule barrier_start = Some s" and l: "length (reports s) = 1" by auto
  show ?thesis using s l barrier_no_stale_message [OF s] by blast
qed

text \<open>The barrier of the writer is what does it: with its two stores in the buffer and no barrier between them, the flag can reach memory first.\<close>

lemma without_write_barrier:
  "map_option (\<lambda>s. (memory s Flag, memory s Message)) (commit 1 (barrier_start\<lparr>store_buffer := [Store Message 42, Store Flag 1]\<rparr>)) = Some (1, 0)"
  by (simp add: commit_def barrier_start_def)

lemma with_write_barrier:
  "commit 2 (barrier_start\<lparr>store_buffer := [Store Message 42, Write_Barrier, Store Flag 1]\<rparr>) = None"
  by (simp add: commit_def barrier_start_def numeral_2_eq_2)

end
