(* ===== verification/Benchmarks.thy ===== *)
theory Benchmarks
  imports Bytes "HOL-Library.Multiset"
begin

text \<open>
  The integer kernels of the benchmark programs: SystemProgramming/Handson/lab16_profiling/profile_target.c and
  the three programs of SystemProgramming/Handson/lab01_gcc_compilation, optimization_benchmark.c,
  specific_opts.c and pgo_demo.c. \<open>None\<close> is undefined behaviour: signed overflow or an access outside an array.
  Timing, floating-point work and the text printed are not modelled.
\<close>

section \<open>Sorting\<close>

text \<open>The same function in profile_target.c and optimization_benchmark.c; \<open>m\<close> is \<open>n - i - 1\<close>.\<close>

function bubble_inner :: "nat \<Rightarrow> nat \<Rightarrow> int list \<Rightarrow> int list option" where
  "bubble_inner j m arr =
     (if j < m then
        (if j + 1 < length arr then
           bubble_inner (j + 1) m (if arr ! j > arr ! (j + 1) then arr[j := arr ! (j + 1), j + 1 := arr ! j] else arr)
         else None)
      else Some arr)"
  by pat_completeness auto
termination by (relation "measure (\<lambda>(j, m, _). m - j)") auto

function bubble_outer :: "nat \<Rightarrow> nat \<Rightarrow> int list \<Rightarrow> int list option" where
  "bubble_outer i n arr =
     (if i + 1 < n then
        (case bubble_inner 0 (n - i - 1) arr of
           None \<Rightarrow> None
         | Some arr' \<Rightarrow> bubble_outer (i + 1) n arr')
      else Some arr)"
  by pat_completeness auto
termination by (relation "measure (\<lambda>(i, n, _). n - i)") auto

definition bubble_sort :: "int list \<Rightarrow> int \<Rightarrow> int list option" where
  "bubble_sort arr n = (case arith32 (n - 1) of None \<Rightarrow> None | Some _ \<Rightarrow> bubble_outer 0 (nat n) arr)"

definition qsort_cmp :: "int \<Rightarrow> int \<Rightarrow> int option" where
  "qsort_cmp a b = arith32 (a - b)"

declare bubble_inner.simps [simp del] bubble_outer.simps [simp del]

lemma mset_swap_adjacent: "j + 1 < length arr \<Longrightarrow> mset (arr[j := arr ! (j + 1), j + 1 := arr ! j]) = mset arr"
  using mset_swap [of "j + 1" arr j] by (simp add: list_update_swap)

text \<open>
  A pass keeps what lies behind its range and the multiset, and moves the maximum of its range to the end, when
  it starts at the maximum of what lies before.
\<close>

lemma bubble_inner_pass:
  assumes "j \<le> m" and "m < length arr" and "\<And>k. k \<le> j \<Longrightarrow> arr ! k \<le> arr ! j"
  shows "\<exists>arr'. bubble_inner j m arr = Some arr' \<and> length arr' = length arr \<and> drop (m + 1) arr' = drop (m + 1) arr \<and>
    mset arr' = mset arr \<and> (\<forall>k\<le>m. arr' ! k \<le> arr' ! m)"
  using assms
proof (induction j m arr rule: bubble_inner.induct)
  case (1 j m arr)
  show ?case
  proof (cases "j < m")
    case False
    with 1 show ?thesis by (simp add: bubble_inner.simps [of m])
  next
    case True
    define arr1 where "arr1 = (if arr ! j > arr ! (j + 1) then arr[j := arr ! (j + 1), j + 1 := arr ! j] else arr)"
    have jl: "j + 1 < length arr" using True 1(3) by simp
    have l: "length arr1 = length arr" by (simp add: arr1_def)
    have s: "mset arr1 = mset arr" using mset_swap_adjacent [OF jl] by (simp add: arr1_def)
    have d: "drop (m + 1) arr1 = drop (m + 1) arr" using True by (simp add: arr1_def)
    have "arr1 ! k \<le> arr1 ! (j + 1)" if "k \<le> j + 1" for k
      using that 1(4) [of k] 1(4) [of j] jl by (cases "k = j + 1"; cases "k = j") (auto simp: arr1_def nth_list_update)
    then have "\<exists>arr'. bubble_inner (j + 1) m arr1 = Some arr' \<and> length arr' = length arr1 \<and>
        drop (m + 1) arr' = drop (m + 1) arr1 \<and> mset arr' = mset arr1 \<and> (\<forall>k\<le>m. arr' ! k \<le> arr' ! m)"
      using 1(1) [OF True jl] True 1(3) l by (simp add: arr1_def)
    moreover have "bubble_inner j m arr = bubble_inner (j + 1) m arr1"
      using True jl by (simp add: bubble_inner.simps [of j] arr1_def)
    ultimately show ?thesis using l s d by simp
  qed
qed

lemma mset_take_of_drop:
  assumes "mset xs = mset ys" and "drop n xs = drop n ys"
  shows "mset (take n xs) = mset (take n ys)"
proof -
  have "mset (take n xs) + mset (drop n xs) = mset (take n ys) + mset (drop n ys)"
    using assms(1) by (metis append_take_drop_id mset_append)
  with assms(2) show ?thesis by simp
qed

text \<open>Behind the range that remains to be sorted every element is an upper bound of all before it.\<close>

definition settled :: "nat \<Rightarrow> nat \<Rightarrow> int list \<Rightarrow> bool" where
  "settled i n arr \<longleftrightarrow> (\<forall>k l. k < l \<and> n - i \<le> l \<and> l < n \<longrightarrow> arr ! k \<le> arr ! l)"

lemma bubble_pass_settles:
  assumes "settled i n arr" and "i + 1 < n" and "n \<le> length arr"
  shows "\<exists>arr'. bubble_inner 0 (n - i - 1) arr = Some arr' \<and> length arr' = length arr \<and> drop n arr' = drop n arr \<and>
    mset arr' = mset arr \<and> settled (i + 1) n arr'"
proof -
  define m where "m = n - i - 1"
  have m: "0 \<le> m" "m < length arr" "m + 1 = n - i" "m < n" using assms(2,3) by (simp_all add: m_def)
  obtain arr' where a: "bubble_inner 0 m arr = Some arr'" "length arr' = length arr" "drop (m + 1) arr' = drop (m + 1) arr"
    "mset arr' = mset arr" "\<And>k. k \<le> m \<Longrightarrow> arr' ! k \<le> arr' ! m"
    using bubble_inner_pass [OF m(1,2)] by auto
  have tail: "arr' ! l = arr ! l" if "m < l" "l < length arr" for l
    using that a(2) arg_cong [OF a(3), of "\<lambda>xs. xs ! (l - (m + 1))"] by simp
  have front: "arr' ! k \<in> set (take (m + 1) arr)" if "k \<le> m" for k
  proof -
    have "set (take (m + 1) arr') = set (take (m + 1) arr)"
      using mset_take_of_drop [OF a(4,3)] mset_eq_setD by blast
    moreover have "arr' ! k \<in> set (take (m + 1) arr')" using that m(2) a(2) nth_mem [of k "take (m + 1) arr'"] by simp
    ultimately show ?thesis by simp
  qed
  have "settled (i + 1) n arr'"
    unfolding settled_def
  proof (intro allI impI)
    fix k l assume kl: "k < l \<and> n - (i + 1) \<le> l \<and> l < n"
    then consider "l = m" | "m < l" "k \<le> m" | "m < l" "m < k" by (fastforce simp: m_def)
    then show "arr' ! k \<le> arr' ! l"
    proof cases
      case 1
      with a(5) [of k] kl show ?thesis by simp
    next
      case 2
      obtain k' where k': "k' \<le> m" "arr ! k' = arr' ! k" using front [OF 2(2)] m(2) by (auto simp: in_set_conv_nth less_Suc_eq_le)
      have "arr ! k' \<le> arr ! l" using assms(1) 2 k'(1) kl m(3) by (simp add: settled_def)
      with k' tail [of l] 2 kl assms(3) show ?thesis by simp
    next
      case 3
      have "arr ! k \<le> arr ! l" using assms(1) 3 kl m(3) by (simp add: settled_def)
      with tail [of k] tail [of l] 3 kl assms(3) show ?thesis by simp
    qed
  qed
  moreover have "drop n arr' = drop n arr"
    using arg_cong [OF a(3), of "drop (n - (m + 1))"] m(3,4) by simp
  ultimately show ?thesis using a by (auto simp: m_def)
qed

lemma bubble_outer_sorts:
  assumes "settled i n arr" and "i \<le> n" and "n \<le> length arr"
  shows "\<exists>arr'. bubble_outer i n arr = Some arr' \<and> length arr' = length arr \<and> drop n arr' = drop n arr \<and>
    mset arr' = mset arr \<and> sorted (take n arr')"
  using assms
proof (induction i n arr rule: bubble_outer.induct)
  case (1 i n arr)
  show ?case
  proof (cases "i + 1 < n")
    case True
    obtain arr' where a: "bubble_inner 0 (n - i - 1) arr = Some arr'" "length arr' = length arr" "drop n arr' = drop n arr"
      "mset arr' = mset arr" "settled (i + 1) n arr'"
      using bubble_pass_settles [OF 1(2) True 1(4)] by blast
    have "bubble_outer i n arr = bubble_outer (i + 1) n arr'" using True a(1) by (simp add: bubble_outer.simps [of i])
    with 1(1) [OF True a(1) a(5)] True 1(4) a show ?thesis by simp
  next
    case False
    then have "sorted (take n arr)" using 1(2,3,4) by (auto simp: sorted_iff_nth_mono_less settled_def)
    moreover have "bubble_outer i n arr = Some arr" using False by (simp add: bubble_outer.simps [of i])
    ultimately show ?thesis by simp
  qed
qed

lemma bubble_sort_value:
  assumes "0 \<le> n" "n < 2147483648" and "n \<le> int (length arr)"
  shows "bubble_sort arr n = Some (sort (take (nat n) arr) @ drop (nat n) arr)"
proof -
  have "settled 0 (nat n) arr" "nat n \<le> length arr" using assms by (simp_all add: settled_def)
  then obtain arr' where a: "bubble_outer 0 (nat n) arr = Some arr'" "drop (nat n) arr' = drop (nat n) arr"
    "mset arr' = mset arr" "sorted (take (nat n) arr')"
    using bubble_outer_sorts [of 0 "nat n" arr] by auto
  have "sort (take (nat n) arr) = take (nat n) arr'"
    using mset_take_of_drop [OF a(3,2)] a(4) by (intro properties_for_sort) simp_all
  then have "arr' = sort (take (nat n) arr) @ drop (nat n) arr" using a(2) by (metis append_take_drop_id)
  with a(1) assms show ?thesis by (simp add: bubble_sort_def)
qed

text \<open>
  \<open>bubble_sort\<close> sorts the first \<open>n\<close> elements of an array and leaves the rest, inside the array for every
  \<open>n\<close> up to its length. The comparison function for \<open>qsort\<close> agrees with the order wherever the difference is
  an \<open>int\<close>, which holds for the values of the benchmark, and is undefined elsewhere.
\<close>

theorem bubble_sort_sorts:
  assumes "0 \<le> n" "n < 2147483648" and "n \<le> int (length arr)"
  shows "bubble_sort arr n = Some (sort (take (nat n) arr) @ drop (nat n) arr) \<and>
    (case qsort_cmp a b of
       None \<Rightarrow> a - b < -2147483648 \<or> 2147483648 \<le> a - b
     | Some c \<Rightarrow> sgn c = (if a < b then -1 else if b < a then 1 else 0))"
proof
  show "bubble_sort arr n = Some (sort (take (nat n) arr) @ drop (nat n) arr)" using assms by (rule bubble_sort_value)
  show "case qsort_cmp a b of
       None \<Rightarrow> a - b < -2147483648 \<or> 2147483648 \<le> a - b
     | Some c \<Rightarrow> sgn c = (if a < b then -1 else if b < a then 1 else 0)"
    by (auto simp: qsort_cmp_def arith32_def fits_s32_def sgn_if)
qed

theorem bubble_sort_sorts_witness: "bubble_sort [5, 3, 9, 1, 0] 4 = Some [1, 3, 5, 9, 0]"
  using bubble_sort_sorts [of 4 "[5, 3, 9, 1, 0]"] by (simp add: eval_nat_numeral)

section \<open>The two traversals of a matrix\<close>

definition MATRIX_SIZE :: nat where "MATRIX_SIZE = 1024"

text \<open>One step \<open>matrix[i][j] = matrix[i][j] * 2 + 1\<close> and a loop of such steps in some order of the cells.\<close>

definition update_cell :: "nat \<times> nat \<Rightarrow> int list list \<Rightarrow> int list list option" where
  "update_cell c m =
     (case c of (i, j) \<Rightarrow>
        if i < length m \<and> j < length (m ! i) then
          do { d \<leftarrow> arith32 (m ! i ! j * 2); v \<leftarrow> arith32 (d + 1); Some (m[i := (m ! i)[j := v]]) }
        else None)"

primrec visit :: "(nat \<times> nat) list \<Rightarrow> int list list \<Rightarrow> int list list option" where
  "visit [] m = Some m"
| "visit (c # cs) m = Option.bind (update_cell c m) (visit cs)"

definition cache_unfriendly :: "int list list \<Rightarrow> int list list option" where
  "cache_unfriendly m = visit (concat (map (\<lambda>j. map (\<lambda>i. (i, j)) [0..<MATRIX_SIZE]) [0..<MATRIX_SIZE])) m"

definition cache_friendly :: "int list list \<Rightarrow> int list list option" where
  "cache_friendly m = visit (concat (map (\<lambda>i. map (\<lambda>j. (i, j)) [0..<MATRIX_SIZE]) [0..<MATRIX_SIZE])) m"

text \<open>A matrix as C has it: all rows of the same length.\<close>

definition is_matrix :: "nat \<Rightarrow> nat \<Rightarrow> int list list \<Rightarrow> bool" where
  "is_matrix r c m \<longleftrightarrow> length m = r \<and> (\<forall>row \<in> set m. length row = c)"

definition cell_ok :: "int \<Rightarrow> bool" where
  "cell_ok x \<longleftrightarrow> fits_s32 (x * 2) \<and> fits_s32 (x * 2 + 1)"

text \<open>The matrix with the given cells updated.\<close>

definition updated :: "(nat \<times> nat) set \<Rightarrow> int list list \<Rightarrow> int list list" where
  "updated C m = map (\<lambda>i. map (\<lambda>j. if (i, j) \<in> C then m ! i ! j * 2 + 1 else m ! i ! j) [0..<length (m ! i)]) [0..<length m]"

lemma updated_nth:
  "i < length m \<Longrightarrow> j < length (m ! i) \<Longrightarrow> updated C m ! i ! j = (if (i, j) \<in> C then m ! i ! j * 2 + 1 else m ! i ! j)"
  by (simp add: updated_def)

lemma updated_dims: "length (updated C m) = length m" "i < length m \<Longrightarrow> length (updated C m ! i) = length (m ! i)"
  by (simp_all add: updated_def)

lemma update_cell_value:
  assumes "i < length m" "j < length (m ! i)"
  shows "update_cell (i, j) m = (if cell_ok (m ! i ! j) then Some (updated {(i, j)} m) else None)"
proof -
  have "m[i := (m ! i)[j := m ! i ! j * 2 + 1]] = updated {(i, j)} m"
    using assms by (intro nth_equalityI) (auto simp: updated_dims updated_nth nth_list_update intro!: nth_equalityI)
  then show ?thesis using assms by (simp add: update_cell_def arith32_def cell_ok_def)
qed

lemma updated_updated: "C \<inter> D = {} \<Longrightarrow> updated C (updated D m) = updated (C \<union> D) m"
  by (intro nth_equalityI) (auto simp: updated_dims updated_nth intro!: nth_equalityI)

lemma visit_value:
  assumes "distinct cs" and "\<And>i j. (i, j) \<in> set cs \<Longrightarrow> i < length m \<and> j < length (m ! i)"
  shows "visit cs m = (if \<forall>(i, j) \<in> set cs. cell_ok (m ! i ! j) then Some (updated (set cs) m) else None)"
  using assms
proof (induction cs arbitrary: m)
  case Nil
  have "updated {} m = m" by (intro nth_equalityI) (auto simp: updated_dims updated_nth intro!: nth_equalityI)
  then show ?case by simp
next
  case (Cons c cs)
  obtain i j where c: "c = (i, j)" by force
  let ?m = "updated {(i, j)} m"
  have ij: "i < length m" "j < length (m ! i)" using Cons.prems(2) c by auto
  have cells: "?m ! k ! l = m ! k ! l" if "(k, l) \<in> set cs" for k l
    using that Cons.prems(1) Cons.prems(2) [of k l] c by (auto simp: updated_nth)
  have "visit cs ?m = (if \<forall>(k, l) \<in> set cs. cell_ok (?m ! k ! l) then Some (updated (set cs) ?m) else None)"
  proof (rule Cons.IH)
    show "k < length ?m \<and> l < length (?m ! k)" if "(k, l) \<in> set cs" for k l
      using Cons.prems(2) [of k l] that by (simp add: updated_dims)
  qed (use Cons.prems(1) in simp)
  moreover have "(\<forall>(k, l) \<in> set cs. cell_ok (?m ! k ! l)) \<longleftrightarrow> (\<forall>(k, l) \<in> set cs. cell_ok (m ! k ! l))"
    using cells by (intro ball_cong) auto
  moreover have "updated (set cs) ?m = updated (set (c # cs)) m"
    using Cons.prems(1) c by (subst updated_updated) auto
  ultimately show ?case using update_cell_value [OF ij] c by simp
qed

lemma cells_grid:
  "distinct (concat (map (\<lambda>j. map (\<lambda>i. (i, j)) [0..<n]) [0..<k]))"
  "distinct (concat (map (\<lambda>i. map (\<lambda>j. (i, j)) [0..<n]) [0..<k]))"
  by (induction k) (auto simp: distinct_map inj_on_def)

text \<open>
  Visiting a matrix column by column gives the same matrix as visiting it row by row: every cell is doubled
  and incremented, and both are undefined on exactly the matrices where the value of some cell overflows.
\<close>

theorem cache_orders_agree:
  assumes "is_matrix 1024 1024 m"
  shows "cache_unfriendly m = cache_friendly m \<and>
    cache_friendly m = (if list_all (list_all cell_ok) m then Some (map (map (\<lambda>x. x * 2 + 1)) m) else None)"
proof -
  have dims: "length m = 1024" "\<And>i. i < 1024 \<Longrightarrow> length (m ! i) = 1024" using assms by (auto simp: is_matrix_def)
  let ?C = "{(i, j). i < (1024 :: nat) \<and> j < (1024 :: nat)}"
  have "(\<forall>(i, j) \<in> ?C. cell_ok (m ! i ! j)) \<longleftrightarrow> list_all (list_all cell_ok) m"
    using dims by (auto simp: list_all_length)
  moreover have "updated ?C m = map (map (\<lambda>x. x * 2 + 1)) m"
    using dims by (intro nth_equalityI) (auto simp: updated_dims updated_nth intro!: nth_equalityI)
  moreover have "set (concat (map (\<lambda>j. map (\<lambda>i. (i, j)) [0..<1024]) [0..<1024])) = ?C"
    "set (concat (map (\<lambda>i. map (\<lambda>j. (i, j)) [0..<1024]) [0..<1024])) = ?C" by auto
  moreover have "visit cs m = (if \<forall>(i, j) \<in> ?C. cell_ok (m ! i ! j) then Some (updated ?C m) else None)"
    if "distinct cs" "set cs = ?C" for cs
    using visit_value [OF that(1), of m] that(2) dims by auto
  ultimately show ?thesis
    unfolding cache_unfriendly_def cache_friendly_def MATRIX_SIZE_def using cells_grid [of 1024 1024] by simp
qed

lemma updated_cells_max: "cell_ok x \<longleftrightarrow> -1073741824 \<le> x \<and> x < 1073741824"
  by (auto simp: cell_ok_def fits_s32_def)

theorem cache_orders_agree_witness:
  "cache_unfriendly (replicate 1024 (replicate 1024 0)) = Some (replicate 1024 (replicate 1024 1)) \<and>
   cache_friendly (replicate 1024 (replicate 1024 1)) = Some (replicate 1024 (replicate 1024 3))"
proof -
  have m: "is_matrix 1024 1024 (replicate 1024 (replicate 1024 x))" for x by (simp add: is_matrix_def)
  have ok: "list_all (list_all cell_ok) (replicate 1024 (replicate 1024 0))"
    "list_all (list_all cell_ok) (replicate 1024 (replicate 1024 1))"
    by (simp_all add: list_all_iff updated_cells_max)
  show ?thesis using cache_orders_agree [OF m, of 0] cache_orders_agree [OF m, of 1] ok by (simp add: map_replicate)
qed

section \<open>Strings\<close>

text \<open>
  \<open>inefficient_strings\<close>: the buffer holds the string and a terminator and is grown before each
  \<open>strcat\<close>; the state is its size and the string in it. \<open>None\<close>: one of the two buffers overflows.
\<close>

definition append_number :: "nat \<Rightarrow> nat \<times> string \<Rightarrow> (nat \<times> string) option" where
  "append_number i st =
     (case st of (room, result) \<Rightarrow>
        (let num = take 31 (dec i @ '',''); old_len = length result; new_len = old_len + length num + 1 in
         if length (result @ num) + 1 \<le> new_len then Some (new_len, result @ num) else None))"

primrec append_numbers :: "nat \<Rightarrow> (nat \<times> string) option" where
  "append_numbers 0 = Some (1, [])"
| "append_numbers (Suc i) = Option.bind (append_numbers i) (append_number i)"

definition inefficient_strings :: "string option" where
  "inefficient_strings =
     map_option (\<lambda>(room, result). ''  String length: '' @ fmt_u (int (length result)) @ NL) (append_numbers 10000)"

lemma dec_length_step: "10 \<le> n \<Longrightarrow> length (dec n) = Suc (length (dec (n div 10)))"
  by (simp add: dec.simps [of n])

lemma dec_length1: "n < 10 \<Longrightarrow> length (dec n) = 1"
  by (simp add: dec.simps [of n])

lemma dec_length2: "10 \<le> n \<Longrightarrow> n < 100 \<Longrightarrow> length (dec n) = 2"
  using dec_length1 [of "n div 10"] by (simp add: dec_length_step)

lemma dec_length3: "100 \<le> n \<Longrightarrow> n < 1000 \<Longrightarrow> length (dec n) = 3"
  using dec_length2 [of "n div 10"] dec_length_step [of n] by (simp add: less_eq_div_iff_mult_less_eq)

lemma dec_length4: "1000 \<le> n \<Longrightarrow> n < 10000 \<Longrightarrow> length (dec n) = 4"
  using dec_length3 [of "n div 10"] dec_length_step [of n] by (simp add: less_eq_div_iff_mult_less_eq)

lemmas dec_length = dec_length1 dec_length2 dec_length3 dec_length4

lemma upt_split: "a \<le> b \<Longrightarrow> b \<le> c \<Longrightarrow> [a..<c] = [a..<b] @ [b..<c]"
  using upt_add_eq_append [of a b "c - b"] by simp

definition numbers :: "nat \<Rightarrow> string" where
  "numbers n = concat (map (\<lambda>i. dec i @ '','') [0..<n])"

lemma append_numbers_value:
  "n \<le> 10000 \<Longrightarrow> append_numbers n = Some (length (numbers n) + 1, numbers n)"
proof (induction n)
  case (Suc n)
  then have "length (dec n) \<le> 4" using dec_length [of n] by (cases "n < 10"; cases "n < 100"; cases "n < 1000") simp_all
  with Suc show ?case by (simp add: append_number_def numbers_def Let_def)
qed (simp add: numbers_def)

lemma numbers_length: "length (numbers 10000) = 48890"
proof -
  have "[0..<10000] = [0..<10] @ [10..<10000 :: nat]" "[10..<10000] = [10..<100] @ [100..<10000 :: nat]"
    "[100..<10000] = [100..<1000] @ [1000..<10000 :: nat]" by (rule upt_split; linarith)+
  then have u: "[0..<10000] = [0..<10] @ [10..<100] @ [100..<1000] @ [1000..<10000 :: nat]" by (simp only:)
  have c: "sum_list (map (\<lambda>i. length (dec i) + 1) [a..<b]) = (b - a) * k"
    if "\<And>i. a \<le> i \<Longrightarrow> i < b \<Longrightarrow> length (dec i) + 1 = k" for a b k
  proof -
    have "map (\<lambda>i. length (dec i) + 1) [a..<b] = replicate (b - a) k" using that by (intro nth_equalityI) simp_all
    then show ?thesis by (simp add: sum_list_replicate)
  qed
  show ?thesis
    unfolding numbers_def length_concat map_map comp_def u map_append sum_list_append
    using c [of 0 10 2] c [of 10 100 3] c [of 100 1000 4] c [of 1000 10000 5]
    by (simp add: dec_length del: upt_rec_numeral upt_conv_Cons)
qed

text \<open>No buffer overflows and the length is that of the 10000 numbers with their commas.\<close>

lemma inefficient_strings_value: "inefficient_strings = Some (''  String length: 48890'' @ NL)"
proof -
  have "append_numbers 10000 = Some (length (numbers 10000) + 1, numbers 10000)"
    using append_numbers_value by simp
  moreover have "fmt_u 48890 = ''48890''" by (simp add: fmt_u_def dec.simps digit_def)
  ultimately show ?thesis by (simp add: inefficient_strings_def numbers_length)
qed

section \<open>The arithmetic of optimization_benchmark\<close>

definition tiny_add :: "int \<Rightarrow> int \<Rightarrow> int option" where
  "tiny_add a b = arith32 (a + b)"

primrec benchmark_function_calls :: "nat \<Rightarrow> int option" where
  "benchmark_function_calls 0 = Some 0"
| "benchmark_function_calls (Suc i) = do { r \<leftarrow> benchmark_function_calls i; tiny_add (cast_s32 r) 1 }"

fun benchmark_array_ops :: "int list \<Rightarrow> int list \<Rightarrow> int list \<Rightarrow> nat \<Rightarrow> int list option" where
  "benchmark_array_ops a b c 0 = Some c"
| "benchmark_array_ops a b c (Suc i) =
     do {
       c' \<leftarrow> benchmark_array_ops a b c i;
       if i < length a \<and> i < length b \<and> i < length c' then
         do { p \<leftarrow> arith32 (a ! i * b ! i); q \<leftarrow> arith32 (p + a ! i); r \<leftarrow> arith32 (q - b ! i); Some (c'[i := r]) }
       else None
     }"

text \<open>The branch that no input takes, with its loop.\<close>

primrec add_up :: "nat \<Rightarrow> int \<Rightarrow> int option" where
  "add_up 0 r = Some r"
| "add_up (Suc i) r = Option.bind (add_up i r) (\<lambda>s. arith32 (s + int i))"

definition benchmark_dead_code :: "int \<Rightarrow> int option" where
  "benchmark_dead_code input =
     do {
       result \<leftarrow>
         (if input < 0 \<and> input > 100
          then do { r1 \<leftarrow> arith32 (input * 1000); r3 \<leftarrow> arith32 (c_div r1 3 + 999); add_up 1000 r3 }
          else Some input);
       x \<leftarrow> arith32 (input * 2);
       y \<leftarrow> arith32 (input * 2);
       arith32 (x + y)
     }"

text \<open>The loop of \<open>main\<close> that adds the results up, for a number of iterations.\<close>

primrec dead_code_total :: "nat \<Rightarrow> int option" where
  "dead_code_total 0 = Some 0"
| "dead_code_total (Suc i) = do { s \<leftarrow> dead_code_total i; r \<leftarrow> benchmark_dead_code (int i); arith32 (s + r) }"

definition ITERATIONS :: nat where "ITERATIONS = 100000000"

lemma dead_code_value: "benchmark_dead_code x = (if fits_s32 (4 * x) then Some (4 * x) else None)"
  by (auto simp: benchmark_dead_code_def arith32_def fits_s32_def)

lemma dead_code_total_value: "dead_code_total n = (if n \<le> 32768 then Some (2 * int n * (int n - 1)) else None)"
proof (induction n)
  case (Suc n)
  show ?case
  proof (cases "n < 32768")
    case True
    then have "2 * int n * (int n + 1) \<le> 2 * 32767 * 32768" by (intro mult_mono) simp_all
    then have t: "0 \<le> 2 * int n * (int n + 1)" "2 * int n * (int n + 1) < 2147483648" by simp_all
    have "2 * int n * (int n - 1) + 4 * int n = 2 * int n * (int n + 1)" by (simp add: algebra_simps)
    moreover have "dead_code_total (Suc n) = arith32 (2 * int n * (int n - 1) + 4 * int n)"
      using Suc True by (simp add: dead_code_value fits_s32_def)
    ultimately have "dead_code_total (Suc n) = arith32 (2 * int n * (int n + 1))" by (simp only:)
    also have "\<dots> = Some (2 * int n * (int n + 1))" using t by (intro arith32_ok) linarith+
    finally show ?thesis using True by (simp add: algebra_simps)
  next
    case False
    then show ?thesis using Suc by (auto simp: dead_code_value arith32_def fits_s32_def)
  qed
qed simp

lemma dead_code_main_overflows: "dead_code_total (ITERATIONS div 10) = None"
  by (simp add: dead_code_total_value ITERATIONS_def)

lemma function_calls_value: "int n < 2147483648 \<Longrightarrow> benchmark_function_calls n = Some (int n)"
  by (induction n) (simp_all add: tiny_add_def)

section \<open>specific_opts\<close>

definition dead_code_test :: "int \<Rightarrow> int option" where
  "dead_code_test x = arith32 (x * 2)"

primrec sum_first :: "nat \<Rightarrow> int list \<Rightarrow> int option" where
  "sum_first 0 arr = Some 0"
| "sum_first (Suc i) arr = do { s \<leftarrow> sum_first i arr; if i < length arr then arith32 (s + arr ! i) else None }"

definition loop_test :: "int list \<Rightarrow> int \<Rightarrow> int option" where
  "loop_test arr n = sum_first (nat n) arr"

definition fixed_loop_test :: "int list \<Rightarrow> int option" where
  "fixed_loop_test arr = sum_first 8 arr"

definition tiny_function :: "int \<Rightarrow> int option" where
  "tiny_function x = arith32 (x + 1)"

definition inline_test :: "int option" where
  "inline_test = fold (\<lambda>k r. do { s \<leftarrow> r; t \<leftarrow> tiny_function k; arith32 (s + t) }) [1, 2, 3, 4, 5] (Some 0)"

definition constant_fold_test :: "int option" where
  "constant_fold_test = do { a \<leftarrow> arith32 (10 + 20); b \<leftarrow> arith32 (a * 3); arith32 (c_div b 2 - 5) }"

primrec strength_loop :: "nat \<Rightarrow> int option" where
  "strength_loop 0 = Some 0"
| "strength_loop (Suc i) = do { s \<leftarrow> strength_loop i; t \<leftarrow> arith32 (int i * 4); arith32 (s + t) }"

definition strength_reduction_test :: "int \<Rightarrow> int option" where
  "strength_reduction_test n = strength_loop (nat n)"

text \<open>The numbers that \<open>main\<close> prints.\<close>

definition specific_opts_results :: "int option list" where
  "specific_opts_results =
     (let arr = [1, 2, 3, 4, 5, 6, 7, 8] in
      [dead_code_test 10, loop_test arr 8, fixed_loop_test arr, inline_test, constant_fold_test, strength_reduction_test 10])"

lemma specific_opts_results_value: "specific_opts_results = map Some [20, 36, 36, 20, 40, 180]"
  by code_simp

text \<open>The loop with a fixed count is the loop with that count, and both overflow on the same arrays.\<close>

lemma fixed_loop_is_loop: "fixed_loop_test arr = loop_test arr 8"
  by (simp add: fixed_loop_test_def loop_test_def)

lemma strength_loop_dead_code: "strength_loop n = dead_code_total n"
proof (induction n)
  case (Suc n)
  then show ?case by (auto simp: dead_code_value arith32_def mult.commute split: option.split)
qed simp

section \<open>pgo_demo\<close>

primrec rare_path :: "nat \<Rightarrow> int \<Rightarrow> int option" where
  "rare_path 0 v = Some 0"
| "rare_path (Suc i) v = do { r \<leftarrow> rare_path i v; arith32 (r + c_div v (int i + 1)) }"

definition process_value :: "int \<Rightarrow> int option" where
  "process_value v =
     (if c_mod v 50 \<noteq> 0 then do { d \<leftarrow> arith32 (v * 2); arith32 (d + 1) } else rare_path 10 v)"

definition dispatch_command :: "int \<Rightarrow> int \<Rightarrow> int option" where
  "dispatch_command cmd data =
     (if cmd = 0 then arith32 (data + 1)
      else if cmd = 1 then arith32 (data - 1)
      else if cmd = 2 then arith32 (data * 2)
      else if cmd = 3 then Some (c_div data 2)
      else if cmd = 4 then Some (xor data 0xFF)
      else if cmd = 5 then Some (and data 0x0F)
      else if cmd = 6 then Some (not data)
      else Some data)"

definition hot_path :: "int \<Rightarrow> int option" where
  "hot_path x = do { s \<leftarrow> arith32 (x * x); t \<leftarrow> arith32 (s + x); arith32 (t + 1) }"

text \<open>\<open>sum\<close> is a \<open>long\<close>, \<open>i * 2\<close> an \<open>int\<close>.\<close>

primrec compute_series :: "nat \<Rightarrow> int option" where
  "compute_series 0 = Some 0"
| "compute_series (Suc i) =
     do {
       sum \<leftarrow> compute_series i;
       if i mod 3 = 0 then map_option (\<lambda>d. sum + d) (arith32 (int i * 2))
       else if i mod 3 = 1 then Some (sum + int i)
       else Some (sum - int i div 2)
     }"

definition command_for :: "int \<Rightarrow> int" where
  "command_for i =
     (let r = c_mod i 200 in
      if r < 80 then 0 else if r < 140 then 1 else if r < 170 then 2 else if r < 190 then 3
      else if r < 196 then 4 else if r < 199 then 5 else 6)"

primrec pgo_branches :: "nat \<Rightarrow> int option" where
  "pgo_branches 0 = Some 0"
| "pgo_branches (Suc i) = do { s \<leftarrow> pgo_branches i; r \<leftarrow> process_value (int i mod 65536); Some (s + r) }"

primrec pgo_dispatch :: "nat \<Rightarrow> int option" where
  "pgo_dispatch 0 = Some 0"
| "pgo_dispatch (Suc i) = do { s \<leftarrow> pgo_dispatch i; r \<leftarrow> dispatch_command (command_for (int i)) (int i mod 256); Some (s + r) }"

lemma c_div_small: "0 \<le> v \<Longrightarrow> 0 < k \<Longrightarrow> 0 \<le> c_div v k \<and> c_div v k \<le> v"
  using zdiv_mono2 [of v 1 k] by (simp add: pos_imp_zdiv_nonneg_iff)

lemma rare_path_defined: "0 \<le> v \<Longrightarrow> v < 65536 \<Longrightarrow> i \<le> 10 \<Longrightarrow> \<exists>r. rare_path i v = Some r \<and> 0 \<le> r \<and> r \<le> int i * v"
proof (induction i)
  case (Suc i)
  then obtain r where r: "rare_path i v = Some r" "0 \<le> r" "r \<le> int i * v" by auto
  have d: "0 \<le> c_div v (int i + 1)" "c_div v (int i + 1) \<le> v" using c_div_small [of v "int i + 1"] Suc.prems by simp_all
  have "int i * v \<le> 10 * 65536" using Suc.prems by (intro mult_mono) simp_all
  with r d Suc.prems have "arith32 (r + c_div v (int i + 1)) = Some (r + c_div v (int i + 1))" by (intro arith32_ok) linarith+
  moreover have "int (Suc i) * v = int i * v + v" by (simp add: algebra_simps)
  ultimately show ?case using r d by (simp del: c_div_pos)
qed simp

lemma process_value_defined:
  assumes "0 \<le> v" "v < 65536"
  shows "\<exists>r. process_value v = Some r \<and> 0 \<le> r \<and> r \<le> 655360"
proof (cases "c_mod v 50 \<noteq> 0")
  case True
  with assms show ?thesis by (simp add: process_value_def)
next
  case False
  obtain r where "rare_path 10 v = Some r" "0 \<le> r" "r \<le> 10 * v" using rare_path_defined [of v 10] assms by auto
  with False assms show ?thesis by (simp add: process_value_def)
qed

lemma pgo_branches_defined: "\<exists>r. pgo_branches n = Some r \<and> 0 \<le> r \<and> r \<le> 655360 * int n"
proof (induction n)
  case (Suc n)
  then obtain s where s: "pgo_branches n = Some s" "0 \<le> s" "s \<le> 655360 * int n" by blast
  obtain r where "process_value (int n mod 65536) = Some r" "0 \<le> r" "r \<le> 655360"
    using process_value_defined [of "int n mod 65536"] by auto
  with s show ?case by simp
qed simp

lemma compute_series_bound: "int n < 1073741824 \<Longrightarrow> \<exists>r. compute_series n = Some r \<and> \<bar>r\<bar> \<le> int n * int n"
proof (induction n)
  case (Suc n)
  then obtain s where s: "compute_series n = Some s" "\<bar>s\<bar> \<le> int n * int n" by auto
  have "int n div 2 \<le> int n" using zdiv_mono2 [of "int n" 1 2] by simp
  moreover have "0 \<le> int n div 2" by simp
  moreover have "int (Suc n) * int (Suc n) = int n * int n + 2 * int n + 1" by (simp add: algebra_simps)
  moreover have "arith32 (int n * 2) = Some (int n * 2)" using Suc.prems by simp
  ultimately show ?case using s by (auto intro!: exI split: if_splits)
qed simp

end
