(* ===== verification/BlockDev.thy ===== *)
theory BlockDev
  imports CPrelude
begin

text \<open>
  The RAM disk of KernelProgramming/Handson/lab36_block/block_demo.c: the request handler
  \<open>blkdemo_queue_rq\<close> over the bytes of the disk. A request is a start sector, a direction and the
  buffers of its segments; a copy outside the backing store is \<open>None\<close>. Sector arithmetic is done in 64
  bits, as in the code. The module's load and unload paths are in the theory Modules.
\<close>

definition SECTOR_SIZE :: nat where "SECTOR_SIZE = 512"
definition NSECTORS :: nat where "NSECTORS = 8192"

datatype blk_status = STS_OK | STS_IOERR

definition disk_size :: nat where "disk_size = NSECTORS * SECTOR_SIZE"

fun rq_segments :: "bool \<Rightarrow> u64 \<Rightarrow> u8 list list \<Rightarrow> u8 list \<Rightarrow> (blk_status \<times> u8 list list \<times> u8 list) option" where
  "rq_segments write sector [] data = Some (STS_OK, [], data)"
| "rq_segments write sector (buf # bufs) data =
     (let offset = sector * word_of_nat SECTOR_SIZE; len = length buf in
      if offset + word_of_nat len > word_of_nat disk_size then Some (STS_IOERR, buf # bufs, data)
      else (case (if write then map_option (\<lambda>d. (buf, d)) (put_bytes (uint offset) buf data)
                  else map_option (\<lambda>b. (b, data)) (get_bytes (uint offset) (int len) data)) of
              None \<Rightarrow> None
            | Some (buf', data') \<Rightarrow>
                (case rq_segments write (sector + word_of_nat (len div SECTOR_SIZE)) bufs data' of
                   None \<Rightarrow> None
                 | Some (st, bufs', data'') \<Rightarrow> Some (st, buf' # bufs', data''))))"

text \<open>
  The handler: what it returns, with which statuses it called \<open>blk_mq_end_request\<close>, the buffers and
  the disk afterwards.
\<close>

definition blkdemo_queue_rq ::
  "bool \<Rightarrow> u64 \<Rightarrow> u8 list list \<Rightarrow> u8 list \<Rightarrow> (blk_status \<times> blk_status list \<times> u8 list list \<times> u8 list) option" where
  "blkdemo_queue_rq write sector bufs data =
     map_option (\<lambda>(st, bufs', data'). (st, [st], bufs', data')) (rq_segments write sector bufs data)"

text \<open>
  How often the request is completed: the calls of the handler, and the one that blk-mq makes itself
  when the handler returns an error.
\<close>

definition completions :: "blk_status \<Rightarrow> blk_status list \<Rightarrow> nat" where
  "completions ret ended = length ended + (if ret = STS_OK then 0 else 1)"

definition blk_start :: "u8 list" where
  "blk_start = replicate disk_size 0"

section \<open>Requests within the disk\<close>

definition sized :: "u8 list list \<Rightarrow> bool" where
  "sized bufs \<longleftrightarrow> list_all (\<lambda>b. length b mod SECTOR_SIZE = 0) bufs"

fun chunks :: "nat list \<Rightarrow> 'a list \<Rightarrow> 'a list list" where
  "chunks [] xs = []"
| "chunks (n # ns) xs = take n xs # chunks ns (drop n xs)"

lemma chunks_concat: "chunks (map length bufs) (concat bufs @ rest) = bufs"
  by (induction bufs) simp_all

lemma offset_word:
  assumes "s * 512 < 2 ^ 40"
  shows "uint (word_of_nat s * word_of_nat SECTOR_SIZE :: u64) = int (s * 512)"
proof -
  have "(word_of_nat s * word_of_nat SECTOR_SIZE :: u64) = word_of_nat (s * 512)"
    by (simp add: SECTOR_SIZE_def)
  moreover have "uint (word_of_nat (s * 512) :: u64) = int (s * 512)"
    using assms unat64 [of "s * 512"] by (simp add: uint_nat del: of_nat_mult)
  ultimately show ?thesis by simp
qed

lemma range_word:
  assumes "s * 512 < 2 ^ 40" and "n < 2 ^ 40"
  shows "(word_of_nat s * word_of_nat SECTOR_SIZE + word_of_nat n > (word_of_nat disk_size :: u64)) \<longleftrightarrow> s * 512 + n > disk_size"
proof -
  have "(word_of_nat s * word_of_nat SECTOR_SIZE + word_of_nat n :: u64) = word_of_nat (s * 512 + n)"
    by (simp add: SECTOR_SIZE_def)
  moreover have "unat (word_of_nat (s * 512 + n) :: u64) = s * 512 + n"
    using assms by (intro unat64) simp
  moreover have "unat (word_of_nat disk_size :: u64) = disk_size"
    by (intro unat64) (simp add: disk_size_def NSECTORS_def SECTOR_SIZE_def)
  ultimately show ?thesis by (simp only: word_less_nat_alt)
qed

lemma next_sector:
  "length b mod SECTOR_SIZE = 0 \<Longrightarrow> (s + length b div SECTOR_SIZE) * 512 = s * 512 + length b"
  by (auto simp: SECTOR_SIZE_def)

lemma sector_word: "(word_of_nat s + word_of_nat n :: u64) = word_of_nat (s + n)"
  by simp

lemma rq_cons:
  assumes "s * 512 + length b \<le> disk_size" and "length data = disk_size" and "length b mod SECTOR_SIZE = 0"
  shows "rq_segments write (word_of_nat s) (b # bufs) data =
    (let b' = (if write then b else take (length b) (drop (s * 512) data));
         data' = (if write then splice (s * 512) b data else data)
     in map_option (\<lambda>(st, bufs', d). (st, b' # bufs', d))
          (rq_segments write (word_of_nat (s + length b div SECTOR_SIZE)) bufs data'))"
proof -
  have small: "s * 512 < 2 ^ 40" "length b < 2 ^ 40"
    using assms(1) by (simp_all add: disk_size_def NSECTORS_def SECTOR_SIZE_def)
  have "\<not> (word_of_nat s * word_of_nat SECTOR_SIZE + word_of_nat (length b) > (word_of_nat disk_size :: u64))"
    using range_word [OF small] assms(1) by simp
  moreover have "put_bytes (int (s * 512)) b data = Some (splice (s * 512) b data)"
    using assms(1,2) put_bytes_ok [of "int (s * 512)" b data] by (simp add: splice_def nat_mult_distrib)
  moreover have "get_bytes (int (s * 512)) (int (length b)) data = Some (take (length b) (drop (s * 512) data))"
    using assms(1,2) get_bytes_ok [of "int (s * 512)" "int (length b)" data] by (simp add: nat_mult_distrib)
  ultimately show ?thesis
    by (simp add: offset_word [OF small(1)] Let_def split_def sector_word del: of_nat_add of_nat_mult of_nat_numeral split: option.split)
qed

lemma rq_write:
  "sized bufs \<Longrightarrow> s * 512 + length (concat bufs) \<le> disk_size \<Longrightarrow> length data = disk_size \<Longrightarrow>
     rq_segments True (word_of_nat s) bufs data = Some (STS_OK, bufs, splice (s * 512) (concat bufs) data)"
proof (induction bufs arbitrary: s data)
  case Nil
  then show ?case by (simp add: splice_def)
next
  case (Cons b bufs)
  then have b: "length b mod SECTOR_SIZE = 0" "sized bufs" "s * 512 + length b \<le> disk_size" by (simp_all add: sized_def)
  note ns = next_sector [OF b(1), of s]
  have "rq_segments True (word_of_nat (s + length b div SECTOR_SIZE)) bufs (splice (s * 512) b data) =
      Some (STS_OK, bufs, splice (s * 512 + length b) (concat bufs) (splice (s * 512) b data))"
    using Cons.IH [OF b(2), of "s + length b div SECTOR_SIZE" "splice (s * 512) b data"] Cons.prems(2,3) ns
    by (simp add: splice_length del: of_nat_add)
  moreover have "splice (s * 512 + length b) (concat bufs) (splice (s * 512) b data) = splice (s * 512) (concat (b # bufs)) data"
    using splice_append [of "s * 512" b "concat bufs" data] Cons.prems(2,3) by simp
  ultimately show ?case
    using rq_cons [OF b(3) Cons.prems(3) b(1), of True bufs] by simp
qed

lemma rq_read:
  "sized bufs \<Longrightarrow> s * 512 + length (concat bufs) \<le> disk_size \<Longrightarrow> length data = disk_size \<Longrightarrow>
     rq_segments False (word_of_nat s) bufs data = Some (STS_OK, chunks (map length bufs) (drop (s * 512) data), data)"
proof (induction bufs arbitrary: s)
  case (Cons b bufs)
  then have b: "length b mod SECTOR_SIZE = 0" "sized bufs" "s * 512 + length b \<le> disk_size" by (simp_all add: sized_def)
  note ns = next_sector [OF b(1), of s]
  have "rq_segments False (word_of_nat (s + length b div SECTOR_SIZE)) bufs data =
      Some (STS_OK, chunks (map length bufs) (drop (s * 512 + length b) data), data)"
    using Cons.IH [OF b(2), of "s + length b div SECTOR_SIZE"] Cons.prems(2,3) ns by (simp del: of_nat_add)
  moreover have "drop (length b) (drop (s * 512) data) = drop (s * 512 + length b) data" by (simp add: add.commute)
  ultimately show ?case
    using rq_cons [OF b(3) Cons.prems(3) b(1), of False bufs] by (simp del: drop_drop of_nat_add)
qed simp

section \<open>Properties\<close>

text \<open>
  C17. The disk keeps what is written: a write request within the disk, in segments of whole sectors,
  succeeds, is completed once and changes exactly its sectors; and a read request for the same range,
  whatever its own segmentation into whole sectors, succeeds and returns those bytes.
\<close>

theorem blk_write_read:
  assumes "sized bufs" and "s * 512 + length (concat bufs) \<le> 4194304" and "length data = 4194304"
    and "sized rbufs" and "length (concat rbufs) = length (concat bufs)"
  shows "\<exists>data' rbufs'. blkdemo_queue_rq True (word_of_nat s) bufs data = Some (STS_OK, [STS_OK], bufs, data') \<and>
    data' = take (s * 512) data @ concat bufs @ drop (s * 512 + length (concat bufs)) data \<and>
    completions STS_OK [STS_OK] = 1 \<and>
    blkdemo_queue_rq False (word_of_nat s) rbufs data' = Some (STS_OK, [STS_OK], rbufs', data') \<and>
    concat rbufs' = concat bufs \<and> map length rbufs' = map length rbufs"
proof -
  have d: "disk_size = 4194304" by (simp add: disk_size_def NSECTORS_def SECTOR_SIZE_def)
  let ?data = "splice (s * 512) (concat bufs) data"
  have w: "blkdemo_queue_rq True (word_of_nat s) bufs data = Some (STS_OK, [STS_OK], bufs, ?data)"
    using rq_write [OF assms(1), of s data] assms(2,3) d by (simp add: blkdemo_queue_rq_def)
  have len: "length ?data = disk_size" using splice_length [of "s * 512" "concat bufs" data] assms(2,3) d by simp
  let ?r = "chunks (map length rbufs) (drop (s * 512) ?data)"
  have r: "blkdemo_queue_rq False (word_of_nat s) rbufs ?data = Some (STS_OK, [STS_OK], ?r, ?data)"
    using rq_read [OF assms(4), of s ?data] assms(2,3,5) d len by (simp add: blkdemo_queue_rq_def)
  have "drop (s * 512) ?data = concat bufs @ drop (s * 512 + length (concat bufs)) data"
    using assms(2,3) by (simp add: splice_def)
  moreover have "length (concat rbufs) \<le> length (concat bufs @ rest)" for rest using assms(5) by simp
  moreover have "concat (chunks (map length rs) xs) = take (length (concat rs)) xs \<and>
      (length (concat rs) \<le> length xs \<longrightarrow> map length (chunks (map length rs) xs) = map length rs)"
    for rs :: "u8 list list" and xs :: "u8 list"
    by (induction rs arbitrary: xs) (auto simp: take_add)
  ultimately have "concat ?r = concat bufs" "map length ?r = map length rbufs"
    using assms(5) by simp_all
  with w r show ?thesis by (auto simp: splice_def completions_def)
qed

theorem blk_write_read_witness:
  "\<exists>data' rbufs'. blkdemo_queue_rq True (word_of_nat 3) [replicate 512 1, replicate 1024 2] blk_start =
      Some (STS_OK, [STS_OK], [replicate 512 1, replicate 1024 2], data') \<and>
    blkdemo_queue_rq False (word_of_nat 3) [replicate 1536 0] data' = Some (STS_OK, [STS_OK], rbufs', data') \<and>
    concat rbufs' = replicate 512 1 @ replicate 1024 2"
proof -
  have a: "sized [replicate 512 1, replicate 1024 2]" "sized [replicate 1536 0]" "length blk_start = 4194304"
    by (simp_all add: sized_def SECTOR_SIZE_def blk_start_def disk_size_def NSECTORS_def)
  have b: "3 * 512 + length (concat [replicate 512 (1 :: u8), replicate 1024 2]) \<le> 4194304"
    "length (concat [replicate 1536 (0 :: u8)]) = length (concat [replicate 512 (1 :: u8), replicate 1024 2])"
    by simp_all
  from blk_write_read [OF a(1) b(1) a(3,2) b(2)] show ?thesis by auto
qed

text \<open>
  A write request that leaves the disk in a later segment fails, but the segments before it are
  already on the disk; and it is completed twice, once by the handler and once by blk-mq, to which
  the handler also returns the error.
\<close>

theorem blk_range_error:
  assumes "sized pre" and "s * 512 + length (concat pre) \<le> 4194304" and "length data = 4194304"
    and "4194304 < s * 512 + length (concat pre) + length buf" and "length buf < 4294967296"
  shows "\<exists>bufs'. blkdemo_queue_rq True (word_of_nat s) (pre @ buf # post) data =
      Some (STS_IOERR, [STS_IOERR], bufs', take (s * 512) data @ concat pre @ drop (s * 512 + length (concat pre)) data) \<and>
    completions STS_IOERR [STS_IOERR] = 2"
proof -
  have d: "disk_size = 4194304" by (simp add: disk_size_def NSECTORS_def SECTOR_SIZE_def)
  have "rq_segments True (word_of_nat s) (pre @ buf # post) data =
      Some (STS_IOERR, pre @ buf # post, splice (s * 512) (concat pre) data)"
    using assms(1-4)
  proof (induction pre arbitrary: s data)
    case Nil
    have small: "s * 512 < 2 ^ 40" "length buf < 2 ^ 40" using Nil assms(5) by simp_all
    have "(word_of_nat s * word_of_nat SECTOR_SIZE + word_of_nat (length buf) > (word_of_nat disk_size :: u64))"
      using range_word [OF small] Nil d by simp
    then show ?case by (simp add: splice_def)
  next
    case (Cons b pre)
    then have b: "length b mod SECTOR_SIZE = 0" "sized pre" "s * 512 + length b \<le> disk_size" "length data = disk_size"
      using d by (simp_all add: sized_def)
    note ns = next_sector [OF b(1), of s]
    have "rq_segments True (word_of_nat (s + length b div SECTOR_SIZE)) (pre @ buf # post) (splice (s * 512) b data) =
        Some (STS_IOERR, pre @ buf # post, splice (s * 512 + length b) (concat pre) (splice (s * 512) b data))"
      using Cons.IH [OF b(2), of "s + length b div SECTOR_SIZE" "splice (s * 512) b data"] Cons.prems(2-4) ns d b(4)
      by (simp add: splice_length del: of_nat_add)
    moreover have "splice (s * 512 + length b) (concat pre) (splice (s * 512) b data) = splice (s * 512) (concat (b # pre)) data"
      using splice_append [of "s * 512" b "concat pre" data] Cons.prems(2,3) by simp
    ultimately show ?case
      using rq_cons [OF b(3,4,1), of True "pre @ buf # post"] by simp
  qed
  then show ?thesis by (auto simp: blkdemo_queue_rq_def splice_def completions_def)
qed

theorem blk_range_error_witness:
  "\<exists>bufs' data'. blkdemo_queue_rq True (word_of_nat 8191) ([replicate 512 1] @ replicate 512 2 # []) blk_start =
      Some (STS_IOERR, [STS_IOERR], bufs', data')"
proof -
  have a: "sized [replicate 512 1]" "length blk_start = 4194304"
    by (simp_all add: sized_def SECTOR_SIZE_def blk_start_def disk_size_def NSECTORS_def)
  have b: "8191 * 512 + length (concat [replicate 512 (1 :: u8)]) \<le> 4194304"
    "4194304 < 8191 * 512 + length (concat [replicate 512 (1 :: u8)]) + length (replicate 512 (2 :: u8))"
    "length (replicate 512 (2 :: u8)) < 4294967296"
    by simp_all
  from blk_range_error [OF a(1) b(1) a(2) b(2,3), of "[]"] show ?thesis by blast
qed

end
