(* ===== verification/Packets.thy ===== *)
theory Packets
  imports Bytes
begin

text \<open>
  The packet dissectors of NetworkProgramming/Handson: lab01_socket_basics/packet_headers.c,
  lab04_raw_sockets/raw_sniffer.c and lab04_raw_sockets/ethernet_sniffer.c. A received packet is the
  list of the bytes that \<open>recvfrom\<close> stored; reading a header that is not wholly inside them is
  \<open>None\<close>. The results of the handlers are the text they print and, for the sniffer, its counters.
\<close>

section \<open>Headers\<close>

text \<open>The headers that the sources read through casts, with multi-byte fields in host order.\<close>

record iphdr =
  ip_version :: int
  ip_ihl :: int
  ip_tos :: int
  ip_tot_len :: int
  ip_id :: int
  ip_ttl :: int
  ip_protocol :: int
  ip_check :: int
  ip_saddr :: "int list"
  ip_daddr :: "int list"

record ethhdr =
  h_dest :: "int list"
  h_source :: "int list"
  h_proto :: int

record tcphdr =
  tcp_source :: int
  tcp_dest :: int
  tcp_seq :: int
  tcp_ack_seq :: int
  tcp_doff :: int
  tcp_flags :: int
  tcp_window :: int
  tcp_check :: int

record udphdr =
  udp_source :: int
  udp_dest :: int
  udp_len :: int
  udp_check :: int

record icmphdr =
  icmp_type :: int
  icmp_code :: int
  icmp_checksum :: int
  icmp_id :: int
  icmp_sequence :: int

definition SIZEOF_IPHDR :: nat where "SIZEOF_IPHDR = 20"
definition SIZEOF_TCPHDR :: nat where "SIZEOF_TCPHDR = 20"
definition SIZEOF_UDPHDR :: nat where "SIZEOF_UDPHDR = 8"
definition SIZEOF_ICMPHDR :: nat where "SIZEOF_ICMPHDR = 8"
definition SIZEOF_ETHHDR :: nat where "SIZEOF_ETHHDR = 14"

lemmas header_sizes = SIZEOF_IPHDR_def SIZEOF_TCPHDR_def SIZEOF_UDPHDR_def SIZEOF_ICMPHDR_def SIZEOF_ETHHDR_def

definition eth_at :: "u8 list \<Rightarrow> nat \<Rightarrow> ethhdr option" where
  "eth_at buf i =
     (if i + SIZEOF_ETHHDR \<le> length buf
      then Some \<lparr>h_dest = map (\<lambda>k. byte_at buf (i + k)) [0..<6], h_source = map (\<lambda>k. byte_at buf (i + 6 + k)) [0..<6],
        h_proto = be16 buf (i + 12)\<rparr>
      else None)"

definition ip_at :: "u8 list \<Rightarrow> nat \<Rightarrow> iphdr option" where
  "ip_at buf i =
     (if i + SIZEOF_IPHDR \<le> length buf
      then Some \<lparr>ip_version = byte_at buf i div 16, ip_ihl = byte_at buf i mod 16, ip_tos = byte_at buf (i + 1),
        ip_tot_len = be16 buf (i + 2), ip_id = be16 buf (i + 4), ip_ttl = byte_at buf (i + 8),
        ip_protocol = byte_at buf (i + 9), ip_check = be16 buf (i + 10),
        ip_saddr = map (\<lambda>k. byte_at buf (i + 12 + k)) [0..<4],
        ip_daddr = map (\<lambda>k. byte_at buf (i + 16 + k)) [0..<4]\<rparr>
      else None)"

definition tcp_at :: "u8 list \<Rightarrow> nat \<Rightarrow> tcphdr option" where
  "tcp_at buf i =
     (if i + SIZEOF_TCPHDR \<le> length buf
      then Some \<lparr>tcp_source = be16 buf i, tcp_dest = be16 buf (i + 2), tcp_seq = be32 buf (i + 4),
        tcp_ack_seq = be32 buf (i + 8), tcp_doff = byte_at buf (i + 12) div 16, tcp_flags = byte_at buf (i + 13),
        tcp_window = be16 buf (i + 14), tcp_check = be16 buf (i + 16)\<rparr>
      else None)"

definition udp_at :: "u8 list \<Rightarrow> nat \<Rightarrow> udphdr option" where
  "udp_at buf i =
     (if i + SIZEOF_UDPHDR \<le> length buf
      then Some \<lparr>udp_source = be16 buf i, udp_dest = be16 buf (i + 2), udp_len = be16 buf (i + 4), udp_check = be16 buf (i + 6)\<rparr>
      else None)"

definition icmp_at :: "u8 list \<Rightarrow> nat \<Rightarrow> icmphdr option" where
  "icmp_at buf i =
     (if i + SIZEOF_ICMPHDR \<le> length buf
      then Some \<lparr>icmp_type = byte_at buf i, icmp_code = byte_at buf (i + 1), icmp_checksum = be16 buf (i + 2),
        icmp_id = be16 buf (i + 4), icmp_sequence = be16 buf (i + 6)\<rparr>
      else None)"

named_theorems header_reads

lemma ip_at_ok [header_reads]: "i + 20 \<le> length buf \<Longrightarrow> \<exists>h. ip_at buf i = Some h"
  by (simp add: ip_at_def header_sizes)

lemma tcp_at_ok [header_reads]: "i + 20 \<le> length buf \<Longrightarrow> \<exists>h. tcp_at buf i = Some h"
  by (simp add: tcp_at_def header_sizes)

lemma udp_at_ok [header_reads]: "i + 8 \<le> length buf \<Longrightarrow> \<exists>h. udp_at buf i = Some h"
  by (simp add: udp_at_def header_sizes)

lemma icmp_at_ok [header_reads]: "i + 8 \<le> length buf \<Longrightarrow> \<exists>h. icmp_at buf i = Some h"
  by (simp add: icmp_at_def header_sizes)

text \<open>The flag bits of the TCP header as \<open>netinet/tcp.h\<close> names them.\<close>

definition tcp_flag :: "nat \<Rightarrow> tcphdr \<Rightarrow> bool" where
  "tcp_flag k t \<longleftrightarrow> tcp_flags t div 2 ^ k mod 2 = 1"

abbreviation (input) FIN :: nat where "FIN \<equiv> 0"
abbreviation (input) SYN :: nat where "SYN \<equiv> 1"
abbreviation (input) RST :: nat where "RST \<equiv> 2"
abbreviation (input) PSH :: nat where "PSH \<equiv> 3"
abbreviation (input) ACK :: nat where "ACK \<equiv> 4"
abbreviation (input) URG :: nat where "URG \<equiv> 5"

abbreviation (input) IPPROTO_ICMP :: int where "IPPROTO_ICMP \<equiv> 1"
abbreviation (input) IPPROTO_TCP :: int where "IPPROTO_TCP \<equiv> 6"
abbreviation (input) IPPROTO_UDP :: int where "IPPROTO_UDP \<equiv> 17"
abbreviation (input) ICMP_ECHOREPLY :: int where "ICMP_ECHOREPLY \<equiv> 0"
abbreviation (input) ICMP_DEST_UNREACH :: int where "ICMP_DEST_UNREACH \<equiv> 3"
abbreviation (input) ICMP_ECHO :: int where "ICMP_ECHO \<equiv> 8"
abbreviation (input) ICMP_TIME_EXCEEDED :: int where "ICMP_TIME_EXCEEDED \<equiv> 11"

text \<open>\<open>inet_ntop\<close> for IPv4, and the arrow that the sources print, in UTF-8.\<close>

fun dotted :: "int list \<Rightarrow> string" where
  "dotted [] = []"
| "dotted [b] = fmt_u b"
| "dotted (b # bs) = fmt_u b @ ''.'' @ dotted bs"

definition ARROW :: string where "ARROW = [CHR '' '', CHR 0xE2, CHR 0x86, CHR 0x92, CHR '' '']"

definition hex4 :: "int \<Rightarrow> string" where "hex4 x = ''0x'' @ pad_zero 4 (fmt_x x)"

section \<open>packet_headers\<close>

definition print_ip_header :: "iphdr \<Rightarrow> string" where
  "print_ip_header ip =
     ''  IP Header:'' @ NL @
     ''    Version:  '' @ fmt_u (ip_version ip) @ NL @
     ''    IHL:      '' @ fmt_u (ip_ihl ip) @ '' ('' @ fmt_u (ip_ihl ip * 4) @ '' bytes)'' @ NL @
     ''    TOS:      0x'' @ pad_zero 2 (fmt_x (ip_tos ip)) @ NL @
     ''    Total Len:'' @ fmt_u (ip_tot_len ip) @ NL @
     ''    ID:       '' @ fmt_u (ip_id ip) @ NL @
     ''    TTL:      '' @ fmt_u (ip_ttl ip) @ NL @
     ''    Protocol: '' @ fmt_u (ip_protocol ip) @
     (if ip_protocol ip = IPPROTO_TCP then '' (TCP)''
      else if ip_protocol ip = IPPROTO_UDP then '' (UDP)''
      else if ip_protocol ip = IPPROTO_ICMP then '' (ICMP)'' else []) @ NL @
     ''    Checksum: '' @ hex4 (ip_check ip) @ NL @
     ''    Src:      '' @ dotted (ip_saddr ip) @ NL @
     ''    Dst:      '' @ dotted (ip_daddr ip) @ NL"

definition flag_text :: "nat \<Rightarrow> string \<Rightarrow> tcphdr \<Rightarrow> string" where
  "flag_text k nm t = (if tcp_flag k t then nm else [])"

definition print_tcp_header :: "tcphdr \<Rightarrow> string" where
  "print_tcp_header t =
     ''  TCP Header:'' @ NL @
     ''    Src Port:  '' @ fmt_u (tcp_source t) @ NL @
     ''    Dst Port:  '' @ fmt_u (tcp_dest t) @ NL @
     ''    Seq:       '' @ fmt_u (tcp_seq t) @ NL @
     ''    Ack:       '' @ fmt_u (tcp_ack_seq t) @ NL @
     ''    Data Off:  '' @ fmt_u (tcp_doff t) @ '' ('' @ fmt_u (tcp_doff t * 4) @ '' bytes)'' @ NL @
     ''    Flags:     '' @ flag_text SYN ''SYN '' t @ flag_text ACK ''ACK '' t @ flag_text FIN ''FIN '' t @
       flag_text RST ''RST '' t @ flag_text PSH ''PSH '' t @ flag_text URG ''URG '' t @ NL @
     ''    Window:    '' @ fmt_u (tcp_window t) @ NL @
     ''    Checksum:  '' @ hex4 (tcp_check t) @ NL"

definition print_udp_header :: "udphdr \<Rightarrow> string" where
  "print_udp_header u =
     ''  UDP Header:'' @ NL @
     ''    Src Port:  '' @ fmt_u (udp_source u) @ NL @
     ''    Dst Port:  '' @ fmt_u (udp_dest u) @ NL @
     ''    Length:    '' @ fmt_u (udp_len u) @ NL @
     ''    Checksum:  '' @ hex4 (udp_check u) @ NL"

definition print_icmp_header :: "icmphdr \<Rightarrow> string" where
  "print_icmp_header c =
     ''  ICMP Header:'' @ NL @
     ''    Type:      '' @ fmt_u (icmp_type c) @
     (if icmp_type c = ICMP_ECHOREPLY then '' (Echo Reply)''
      else if icmp_type c = ICMP_ECHO then '' (Echo Request)''
      else if icmp_type c = ICMP_DEST_UNREACH then '' (Dest Unreachable)''
      else if icmp_type c = ICMP_TIME_EXCEEDED then '' (Time Exceeded)'' else []) @ NL @
     ''    Code:      '' @ fmt_u (icmp_code c) @ NL @
     ''    Checksum:  '' @ hex4 (icmp_checksum c) @ NL"

text \<open>One packet of the capture loop; \<open>count\<close> is the number of packets shown so far.\<close>

definition show_packet :: "u8 list \<Rightarrow> nat \<Rightarrow> (nat \<times> string) option" where
  "show_packet buf count =
     (let n = length buf in
      if n < SIZEOF_IPHDR then Some (count, [])
      else do {
        ip \<leftarrow> ip_at buf 0;
        let ip_hdr_len = nat (ip_ihl ip * 4);
        body \<leftarrow>
          (if ip_protocol ip = IPPROTO_TCP then
             (if n \<ge> ip_hdr_len + SIZEOF_TCPHDR then map_option print_tcp_header (tcp_at buf ip_hdr_len) else Some [])
           else if ip_protocol ip = IPPROTO_UDP then
             (if n \<ge> ip_hdr_len + SIZEOF_UDPHDR then map_option print_udp_header (udp_at buf ip_hdr_len) else Some [])
           else if ip_protocol ip = IPPROTO_ICMP then
             (if n \<ge> ip_hdr_len + SIZEOF_ICMPHDR then map_option print_icmp_header (icmp_at buf ip_hdr_len) else Some [])
           else Some []);
        Some (count + 1,
          ''--- Packet #'' @ dec (count + 1) @ '' ('' @ dec n @ '' bytes) ---'' @ NL @ print_ip_header ip @ body @ NL)
      })"

fun show_packets :: "u8 list list \<Rightarrow> nat \<Rightarrow> (nat \<times> string) option" where
  "show_packets [] count = Some (count, [])"
| "show_packets (p # ps) count =
     (if count < 20 then do {
        (c, t) \<leftarrow> show_packet p count;
        (c', t') \<leftarrow> show_packets ps c;
        Some (c', t @ t') }
      else Some (count, []))"

section \<open>raw_sniffer\<close>

record sniffer =
  pkt_count :: u64
  tcp_count :: u64
  udp_count :: u64
  icmp_count :: u64
  other_count :: u64

definition sniffer_start :: sniffer where
  "sniffer_start = \<lparr>pkt_count = 0, tcp_count = 0, udp_count = 0, icmp_count = 0, other_count = 0\<rparr>"

definition icmp_type_str :: "string \<Rightarrow> string \<Rightarrow> int \<Rightarrow> string" where
  "icmp_type_str other unreach t =
     (if t = ICMP_ECHO then ''Echo Request'' else if t = ICMP_ECHOREPLY then ''Echo Reply''
      else if t = ICMP_DEST_UNREACH then unreach else other)"

definition process_packet :: "u8 list \<Rightarrow> sniffer \<Rightarrow> (sniffer \<times> string) option" where
  "process_packet buf s =
     (let len = length buf in
      if len < SIZEOF_IPHDR then Some (s, [])
      else do {
        ip \<leftarrow> ip_at buf 0;
        let ip_hdr_len = nat (ip_ihl ip * 4);
        let src = dotted (ip_saddr ip);
        let dst = dotted (ip_daddr ip);
        let s1 = s\<lparr>pkt_count := pkt_count s + 1\<rparr>;
        if ip_protocol ip = IPPROTO_TCP then
          (let s2 = s1\<lparr>tcp_count := tcp_count s1 + 1\<rparr> in
           if len \<ge> ip_hdr_len + SIZEOF_TCPHDR
           then map_option (\<lambda>t. (s2, ''[TCP] '' @ src @ '':'' @ fmt_d (tcp_source t) @ ARROW @ dst @ '':'' @
                  fmt_d (tcp_dest t) @ ''  len='' @ dec len @ ''  '' @ flag_text SYN ''SYN '' t @ flag_text ACK ''ACK '' t @
                  flag_text FIN ''FIN '' t @ flag_text RST ''RST '' t @ flag_text PSH ''PSH '' t @ NL)) (tcp_at buf ip_hdr_len)
           else Some (s2, []))
        else if ip_protocol ip = IPPROTO_UDP then
          (let s2 = s1\<lparr>udp_count := udp_count s1 + 1\<rparr> in
           if len \<ge> ip_hdr_len + SIZEOF_UDPHDR
           then map_option (\<lambda>u. (s2, ''[UDP] '' @ src @ '':'' @ fmt_d (udp_source u) @ ARROW @ dst @ '':'' @
                  fmt_d (udp_dest u) @ ''  len='' @ dec len @ NL)) (udp_at buf ip_hdr_len)
           else Some (s2, []))
        else if ip_protocol ip = IPPROTO_ICMP then
          (let s2 = s1\<lparr>icmp_count := icmp_count s1 + 1\<rparr> in
           if len \<ge> ip_hdr_len + SIZEOF_ICMPHDR
           then map_option (\<lambda>c. (s2, ''[ICMP] '' @ src @ ARROW @ dst @ ''  type='' @
                  icmp_type_str ''Other'' ''Dest Unreachable'' (icmp_type c) @ ''('' @ fmt_d (icmp_type c) @ '') code='' @
                  fmt_d (icmp_code c) @ NL)) (icmp_at buf ip_hdr_len)
           else Some (s2, []))
        else Some (s1\<lparr>other_count := other_count s1 + 1\<rparr>,
               ''[Proto '' @ fmt_d (ip_protocol ip) @ ''] '' @ src @ ARROW @ dst @ ''  len='' @ dec len @ NL)
      })"

fun sniff :: "u8 list list \<Rightarrow> sniffer \<Rightarrow> (sniffer \<times> string) option" where
  "sniff [] s = Some (s, [])"
| "sniff (p # ps) s =
     (if p = [] then sniff ps s
      else do { (s1, t) \<leftarrow> process_packet p s; (s2, t') \<leftarrow> sniff ps s1; Some (s2, t @ t') })"

definition statistics :: "sniffer \<Rightarrow> string" where
  "statistics s = NL @ ''=== Statistics ==='' @ NL @ ''Total: '' @ dec (unat (pkt_count s)) @ ''  TCP: '' @
     dec (unat (tcp_count s)) @ ''  UDP: '' @ dec (unat (udp_count s)) @ ''  ICMP: '' @ dec (unat (icmp_count s)) @
     ''  Other: '' @ dec (unat (other_count s)) @ NL"

section \<open>ethernet_sniffer\<close>

abbreviation (input) ETH_P_IP :: int where "ETH_P_IP \<equiv> 0x0800"

definition hex2 :: "int \<Rightarrow> string" where "hex2 x = pad_zero 2 (fmt_x x)"

definition print_mac :: "int list \<Rightarrow> string" where
  "print_mac mac = hex2 (mac ! 0) @ '':'' @ hex2 (mac ! 1) @ '':'' @ hex2 (mac ! 2) @ '':'' @ hex2 (mac ! 3) @ '':'' @
     hex2 (mac ! 4) @ '':'' @ hex2 (mac ! 5)"

definition ethertype_str :: "int \<Rightarrow> string" where
  "ethertype_str proto =
     (if proto = ETH_P_IP then ''IPv4'' else if proto = 0x86DD then ''IPv6'' else if proto = 0x0806 then ''ARP''
      else if proto = 0x8100 then ''VLAN'' else if proto = 0x0060 then ''Loopback'' else ''Other'')"

definition show_frame :: "u8 list \<Rightarrow> nat \<Rightarrow> (nat \<times> string) option" where
  "show_frame buf count =
     (let n = length buf in
      if n < SIZEOF_ETHHDR then Some (count, [])
      else do {
        eth \<leftarrow> eth_at buf 0;
        let proto = h_proto eth;
        addrs \<leftarrow>
          (if proto = ETH_P_IP \<and> n \<ge> SIZEOF_ETHHDR + SIZEOF_IPHDR
           then map_option (\<lambda>ip. ''  '' @ dotted (ip_saddr ip) @ ARROW @ dotted (ip_daddr ip)) (ip_at buf SIZEOF_ETHHDR)
           else Some []);
        Some (count + 1,
          ''#'' @ dec (count + 1) @ '' ['' @ dec n @ '' bytes] '' @ print_mac (h_source eth) @ ARROW @
          print_mac (h_dest eth) @ ''  EtherType='' @ hex4 proto @ '' ('' @ ethertype_str proto @ '')'' @ addrs @ NL)
      })"

fun show_frames :: "u8 list list \<Rightarrow> nat \<Rightarrow> (nat \<times> string) option" where
  "show_frames [] count = Some (count, [])"
| "show_frames (f # fs) count =
     (if count < 50 then do {
        (c, t) \<leftarrow> show_frame f count;
        (c', t') \<leftarrow> show_frames fs c;
        Some (c', t @ t') }
      else Some (count, []))"

section \<open>Properties\<close>

text \<open>A header that the length test covers can be read.\<close>

lemma guarded_reads:
  "map_option f (ip_at buf i) = (if i + 20 \<le> length buf then Some (f (the (ip_at buf i))) else None)"
  "map_option g (tcp_at buf i) = (if i + 20 \<le> length buf then Some (g (the (tcp_at buf i))) else None)"
  "map_option h (udp_at buf i) = (if i + 8 \<le> length buf then Some (h (the (udp_at buf i))) else None)"
  "map_option k (icmp_at buf i) = (if i + 8 \<le> length buf then Some (k (the (icmp_at buf i))) else None)"
  by (simp_all add: ip_at_def tcp_at_def udp_at_def icmp_at_def header_sizes)

lemma show_packet_ok: "\<exists>t. show_packet buf count = Some (if length buf < 20 then count else count + 1, t)"
proof (cases "length buf < 20")
  case True
  then show ?thesis by (simp add: show_packet_def header_sizes)
next
  case False
  then obtain ip where "ip_at buf 0 = Some ip" using ip_at_ok [of 0 buf] by auto
  with False show ?thesis by (simp add: show_packet_def header_sizes guarded_reads Let_def)
qed

text \<open>What a packet adds to the sniffer's counters.\<close>

definition counted :: "u8 list \<Rightarrow> sniffer \<Rightarrow> sniffer" where
  "counted buf s =
     (if length buf < 20 then s
      else let p = byte_at buf 9; s1 = s\<lparr>pkt_count := pkt_count s + 1\<rparr> in
           if p = IPPROTO_TCP then s1\<lparr>tcp_count := tcp_count s + 1\<rparr>
           else if p = IPPROTO_UDP then s1\<lparr>udp_count := udp_count s + 1\<rparr>
           else if p = IPPROTO_ICMP then s1\<lparr>icmp_count := icmp_count s + 1\<rparr>
           else s1\<lparr>other_count := other_count s + 1\<rparr>)"

lemma process_packet_ok: "\<exists>t. process_packet buf s = Some (counted buf s, t)"
proof (cases "length buf < 20")
  case True
  then show ?thesis by (simp add: process_packet_def header_sizes counted_def)
next
  case False
  then obtain ip where ip: "ip_at buf 0 = Some ip" using ip_at_ok [of 0 buf] by auto
  then have "byte_at buf 9 = ip_protocol ip" using False by (auto simp: ip_at_def header_sizes)
  with False ip show ?thesis by (simp add: process_packet_def header_sizes guarded_reads counted_def Let_def)
qed

lemma show_frame_ok: "\<exists>t. show_frame buf count = Some (if length buf < 14 then count else count + 1, t)"
proof (cases "length buf < 14")
  case True
  then show ?thesis by (simp add: show_frame_def header_sizes)
next
  case False
  then obtain eth where "eth_at buf 0 = Some eth" by (simp add: eth_at_def header_sizes)
  with False show ?thesis by (simp add: show_frame_def header_sizes guarded_reads Let_def)
qed

lemma sniff_ok: "\<exists>t. sniff ps s = Some (fold counted ps s, t)"
proof (induction ps arbitrary: s)
  case (Cons p ps)
  obtain t where t: "process_packet p s = Some (counted p s, t)" using process_packet_ok by blast
  obtain t' where "sniff ps (counted p s) = Some (fold counted ps (counted p s), t')" using Cons by blast
  moreover have "counted [] s = s" by (simp add: counted_def)
  moreover obtain t'' where "sniff ps s = Some (fold counted ps s, t'')" using Cons by blast
  ultimately show ?case using t by auto
qed simp

text \<open>The packets that are long enough are shown, up to a limit.\<close>

lemma show_packets_ok:
  "count \<le> 20 \<Longrightarrow> \<exists>t. show_packets ps count = Some (min 20 (count + length (filter (\<lambda>p. 20 \<le> length p) ps)), t)"
proof (induction ps arbitrary: count)
  case (Cons p ps)
  obtain t where t: "show_packet p count = Some (if length p < 20 then count else count + 1, t)" using show_packet_ok by blast
  show ?case
  proof (cases "count < 20")
    case True
    then show ?thesis using t Cons.IH [of count] Cons.IH [of "count + 1"] by (cases "length p < 20") auto
  qed (use Cons.prems in simp)
qed simp

lemma show_frames_ok:
  "count \<le> 50 \<Longrightarrow> \<exists>t. show_frames fs count = Some (min 50 (count + length (filter (\<lambda>f. 14 \<le> length f) fs)), t)"
proof (induction fs arbitrary: count)
  case (Cons f fs)
  obtain t where t: "show_frame f count = Some (if length f < 14 then count else count + 1, t)" using show_frame_ok by blast
  show ?case
  proof (cases "count < 50")
    case True
    then show ?thesis using t Cons.IH [of count] Cons.IH [of "count + 1"] by (cases "length f < 14") auto
  qed (use Cons.prems in simp)
qed simp

lemma counted_totals:
  "pkt_count s = tcp_count s + udp_count s + icmp_count s + other_count s \<Longrightarrow>
     pkt_count (fold counted ps s) = tcp_count (fold counted ps s) + udp_count (fold counted ps s) +
       icmp_count (fold counted ps s) + other_count (fold counted ps s)"
proof (induction ps arbitrary: s)
  case (Cons p ps)
  have "pkt_count (counted p s) = tcp_count (counted p s) + udp_count (counted p s) + icmp_count (counted p s) + other_count (counted p s)"
    using Cons.prems by (simp add: counted_def Let_def)
  from Cons.IH [OF this] show ?case by simp
qed simp

text \<open>
  C19. No packet, however short or inconsistent, makes a dissector read outside the bytes received: the
  three programs handle every list of packets (the header lengths that a packet claims are checked
  against its length before anything behind the IP header is read, and no header is read from less bytes than it has). What is too short for the first
  header is not counted: packet_headers shows the others up to twenty, ethernet_sniffer up to fifty, and the sniffer's counters are those of the protocol
  bytes and add up to the total.
\<close>

theorem dissectors_stay_inside:
  "(\<exists>t. show_packets ps 0 = Some (min 20 (length (filter (\<lambda>p. 20 \<le> length p) ps)), t)) \<and>
    (\<exists>t. show_frames ps 0 = Some (min 50 (length (filter (\<lambda>f. 14 \<le> length f) ps)), t)) \<and>
    (\<exists>t. sniff ps sniffer_start = Some (fold counted ps sniffer_start, t)) \<and>
    pkt_count (fold counted ps sniffer_start) = tcp_count (fold counted ps sniffer_start) +
      udp_count (fold counted ps sniffer_start) + icmp_count (fold counted ps sniffer_start) +
      other_count (fold counted ps sniffer_start)"
proof -
  have "\<exists>t. sniff ps sniffer_start = Some (fold counted ps sniffer_start, t)" by (rule sniff_ok)
  then show ?thesis
    using show_packets_ok [of 0 ps] show_frames_ok [of 0 ps] counted_totals [of sniffer_start ps] by (simp add: sniffer_start_def)
qed

end
