(* ===== verification/Bpf.thy ===== *)
theory Bpf
  imports Packets
begin

text \<open>
  The socket filter of NetworkProgramming/Handson/lab08_kernel_network/bpf_filter.c: the classic BPF
  program as data, a machine for the instructions it uses as the kernel documents them, the check that
  the kernel makes before it accepts a program, and the program's own display of what it captures.
\<close>

section \<open>The machine\<close>

text \<open>
  The instructions: load a half-word or a byte of the packet, compare the accumulator and skip one of
  two numbers of instructions, return. A load outside the packet ends the program with result 0.
\<close>

datatype sock_filter =
    LDH_ABS nat
  | LDB_ABS nat
  | JEQ_K int nat nat
  | RET_K int

text \<open>\<open>None\<close>: the program is left without a return.\<close>

fun bpf_run :: "sock_filter list \<Rightarrow> int \<Rightarrow> u8 list \<Rightarrow> int option" where
  "bpf_run [] a pkt = None"
| "bpf_run (LDH_ABS k # rest) a pkt = (if k + 2 \<le> length pkt then bpf_run rest (be16 pkt k) pkt else Some 0)"
| "bpf_run (LDB_ABS k # rest) a pkt = (if k + 1 \<le> length pkt then bpf_run rest (byte_at pkt k) pkt else Some 0)"
| "bpf_run (JEQ_K v jt jf # rest) a pkt = (if a = v then bpf_run (drop jt rest) a pkt else bpf_run (drop jf rest) a pkt)"
| "bpf_run (RET_K v # rest) a pkt = Some v"

text \<open>The kernel's check: jumps stay inside the program, and its last instruction returns.\<close>

fun filter_ok :: "sock_filter list \<Rightarrow> bool" where
  "filter_ok [] = False"
| "filter_ok (RET_K v # rest) = (rest = [] \<or> filter_ok rest)"
| "filter_ok (JEQ_K v jt jf # rest) = (jt < length rest \<and> jf < length rest \<and> filter_ok rest)"
| "filter_ok (LDH_ABS k # rest) = filter_ok rest"
| "filter_ok (LDB_ABS k # rest) = filter_ok rest"

fun_cases filter_okE: "filter_ok (i # rest)"

section \<open>The program\<close>

definition icmp_filter :: "sock_filter list" where
  "icmp_filter =
     [LDH_ABS 12,
      JEQ_K ETH_P_IP 0 3,
      LDB_ABS 23,
      JEQ_K IPPROTO_ICMP 0 1,
      RET_K 65535,
      RET_K 0]"

text \<open>
  One frame of the capture loop: the count and the line printed. The frame is what the filter let
  through of it.
\<close>

definition show_icmp :: "u8 list \<Rightarrow> nat \<Rightarrow> (nat \<times> string) option" where
  "show_icmp buf count =
     (let n = length buf in
      if n < SIZEOF_ETHHDR + SIZEOF_IPHDR then Some (count, [])
      else do {
        ip \<leftarrow> ip_at buf SIZEOF_ETHHDR;
        let ip_hdr_len = nat (ip_ihl ip * 4);
        if n < SIZEOF_ETHHDR + ip_hdr_len + SIZEOF_ICMPHDR then Some (count, [])
        else map_option (\<lambda>c.
               (count + 1,
                ''['' @ dec (count + 1) @ ''] ICMP '' @ dotted (ip_saddr ip) @ ARROW @ dotted (ip_daddr ip) @ ''  type='' @
                icmp_type_str ''?'' ''Unreachable'' (icmp_type c) @ ''('' @ fmt_d (icmp_type c) @ '') code='' @ fmt_d (icmp_code c) @
                ''  id='' @ fmt_u (icmp_id c) @ '' seq='' @ fmt_u (icmp_sequence c) @ NL))
               (icmp_at buf (SIZEOF_ETHHDR + ip_hdr_len))
      })"

text \<open>The loop over the frames that arrive at the socket, filtered by the kernel.\<close>

fun capture_icmp :: "u8 list list \<Rightarrow> nat \<Rightarrow> (nat \<times> string) option" where
  "capture_icmp [] count = Some (count, NL @ ''Captured '' @ dec count @ '' ICMP packets.'' @ NL)"
| "capture_icmp (f # fs) count =
     (case bpf_run icmp_filter 0 f of
        None \<Rightarrow> None
      | Some k \<Rightarrow>
          if k \<le> 0 then capture_icmp fs count
          else do {
            (c, t) \<leftarrow> show_icmp (take (nat k) f) count;
            (c', t') \<leftarrow> capture_icmp fs c;
            Some (c', t @ t') })"

section \<open>Properties\<close>

text \<open>A jump of a checked program leads to a checked program.\<close>

lemma filter_ok_drop: "filter_ok prog \<Longrightarrow> n < length prog \<Longrightarrow> filter_ok (drop n prog)"
proof (induction prog arbitrary: n)
  case (Cons i rest)
  show ?case
  proof (cases n)
    case (Suc m)
    with Cons.prems(2) have "m < length rest" by simp
    then have "rest \<noteq> []" by auto
    with Cons.prems(1) have "filter_ok rest" by (cases i) auto
    with Cons.IH [OF this \<open>m < length rest\<close>] Suc show ?thesis by simp
  qed (use Cons.prems in simp)
qed simp

lemma filter_ok_returns: "filter_ok prog \<Longrightarrow> \<exists>r. bpf_run prog a pkt = Some r"
  by (induction prog a pkt rule: bpf_run.induct) (auto intro: filter_ok_drop)

definition is_icmp_frame :: "u8 list \<Rightarrow> bool" where
  "is_icmp_frame f \<longleftrightarrow> 24 \<le> length f \<and> be16 f 12 = 0x0800 \<and> byte_at f 23 = 1"

lemma icmp_filter_result: "bpf_run icmp_filter a f = Some (if is_icmp_frame f then 65535 else 0)"
  by (simp add: icmp_filter_def is_icmp_frame_def)

text \<open>
  C21. The filter is well-typed and right: the program passes the kernel's check; no program that passes
  it can run off its end, on any packet; and this one accepts a frame, in full, exactly when it is
  an IPv4 frame that carries ICMP, rejecting every other frame, the truncated ones included.
\<close>

theorem icmp_filter_typed:
  "filter_ok icmp_filter \<and>
   (filter_ok prog \<longrightarrow> (\<exists>r. bpf_run prog a pkt = Some r)) \<and>
   (bpf_run icmp_filter a pkt = Some 65535 \<longleftrightarrow> 24 \<le> length pkt \<and> be16 pkt 12 = 0x0800 \<and> byte_at pkt 23 = 1) \<and>
   (bpf_run icmp_filter a pkt \<noteq> Some 65535 \<longrightarrow> bpf_run icmp_filter a pkt = Some 0)"
proof -
  have "filter_ok icmp_filter" by (simp add: icmp_filter_def)
  with filter_ok_returns [of prog a pkt] icmp_filter_result [of a pkt] show ?thesis
    by (auto simp: is_icmp_frame_def)
qed

theorem icmp_filter_typed_witness:
  "\<exists>r. bpf_run [LDB_ABS 0, JEQ_K 4 1 0, RET_K 1, RET_K 2] 0 [4] = Some r"
proof -
  have "filter_ok [LDB_ABS 0, JEQ_K 4 1 0, RET_K 1, RET_K 2]" by simp
  with icmp_filter_typed [of "[LDB_ABS 0, JEQ_K 4 1 0, RET_K 1, RET_K 2]" 0 "[4]"] show ?thesis by blast
qed

lemma show_icmp_ok: "\<exists>c t. show_icmp buf count = Some (c, t) \<and> count \<le> c \<and> c \<le> count + 1"
proof (cases "length buf < 34")
  case True
  then show ?thesis by (simp add: show_icmp_def header_sizes)
next
  case False
  then obtain ip where "ip_at buf 14 = Some ip" using ip_at_ok [of 14 buf] by auto
  with False show ?thesis by (simp add: show_icmp_def header_sizes guarded_reads Let_def)
qed

lemma capture_icmp_ok:
  "\<exists>c t. capture_icmp fs count = Some (c, t) \<and> c \<le> count + length (filter is_icmp_frame fs)"
proof (induction fs arbitrary: count)
  case (Cons f fs)
  show ?case
  proof (cases "is_icmp_frame f")
    case True
    obtain c t where c: "show_icmp (take 65535 f) count = Some (c, t)" "c \<le> count + 1" using show_icmp_ok by blast
    obtain c' t' where "capture_icmp fs c = Some (c', t')" "c' \<le> c + length (filter is_icmp_frame fs)" using Cons by blast
    with True c show ?thesis by (simp add: icmp_filter_result)
  next
    case False
    with Cons show ?thesis by (simp add: icmp_filter_result)
  qed
qed simp

end
