(* ===== verification/UserCopy.thy ===== *)
theory UserCopy
  imports Bytes
begin

text \<open>
  The kernel's copies between a driver buffer and user memory, and the small helpers that the drivers
  use with them. User memory at the pointer of a call is the list of its readable bytes, or the number
  of its writable bytes; a copy that needs more faults, and a faulting \<open>copy_from_user\<close> fills the rest
  of the destination with zeros, as documented. \<open>None\<close> is a copy outside the driver's buffer.
\<close>

definition copy_from_user :: "u8 list \<Rightarrow> int \<Rightarrow> u8 list \<Rightarrow> (bool \<times> u8 list) option" where
  "copy_from_user user n dst =
     (if n < 0 \<or> int (length dst) < n then None
      else if nat n \<le> length user then Some (True, take (nat n) user @ drop (nat n) dst)
      else Some (False, user @ replicate (nat n - length user) 0 @ drop (nat n) dst))"

definition copy_to_user :: "nat \<Rightarrow> u8 list \<Rightarrow> int \<Rightarrow> int \<Rightarrow> (bool \<times> u8 list) option" where
  "copy_to_user room src off n =
     (case get_bytes off n src of
        None \<Rightarrow> None
      | Some bytes \<Rightarrow> Some (length bytes \<le> room, take room bytes))"

text \<open>\<open>min_t(int, a, b)\<close>.\<close>

definition min_t_int :: "int \<Rightarrow> int \<Rightarrow> int" where
  "min_t_int a b = min (cast_s32 a) (cast_s32 b)"

definition strlen :: "u8 list \<Rightarrow> nat" where
  "strlen bs = length (takeWhile (\<lambda>b. b \<noteq> 0) bs)"

lemma copy_from_user_length:
  "copy_from_user user n dst = Some (ok, dst') \<Longrightarrow> length dst' = length dst"
  by (auto simp: copy_from_user_def split: if_splits)

lemma copy_from_user_ok:
  "0 \<le> n \<Longrightarrow> n \<le> int (length dst) \<Longrightarrow> n \<le> int (length user) \<Longrightarrow>
     copy_from_user user n dst = Some (True, take (nat n) user @ drop (nat n) dst)"
  by (simp add: copy_from_user_def nat_le_iff)

lemma copy_to_user_ok:
  "0 \<le> off \<Longrightarrow> 0 \<le> n \<Longrightarrow> off + n \<le> int (length src) \<Longrightarrow> n \<le> int room \<Longrightarrow>
     copy_to_user room src off n = Some (True, take (nat n) (drop (nat off) src))"
  by (simp add: copy_to_user_def get_bytes_ok nat_le_iff min.coboundedI1 min.coboundedI2)

lemma min_t_int_ok:
  "0 \<le> a \<Longrightarrow> a < 2147483648 \<Longrightarrow> 0 \<le> b \<Longrightarrow> b < 2147483648 \<Longrightarrow> min_t_int a b = min a b"
  by (simp add: min_t_int_def)

lemma strlen_le: "strlen bs \<le> length bs"
  by (simp add: strlen_def length_takeWhile_le)

lemma strlen_less: "0 \<in> set bs \<Longrightarrow> strlen bs < length bs"
  by (induction bs) (auto simp: strlen_def)

lemma strlen_at: "i < length bs \<Longrightarrow> bs ! i = 0 \<Longrightarrow> strlen bs \<le> i"
proof (induction bs arbitrary: i)
  case (Cons b bs)
  then show ?case by (cases i) (simp_all add: strlen_def)
qed simp

end
