(* ===== verification/BusDrivers.thy ===== *)
theory BusDrivers
  imports UserCopy
begin

text \<open>
  Drivers for devices on a serial line or a bus: lab29_uart/serdev_demo.c, lab25_i2c/i2c_driver_demo.c, lab26_spi/spi_driver_demo.c and
  lab32_regmap/regmap_demo.c of KernelProgramming/Handson. What the device answers is an argument, and so are the results of the kernel's
  calls. The register map of the last driver is modelled as documented: it refuses a register that the driver's predicates do not admit, and delivers otherwise
  what the register holds. Log lines are those that depend on the device.
\<close>

section \<open>serdev_demo\<close>

record serdev_priv =
  rx_buf :: "u8 list"
  rx_len :: int

definition serdev_zero :: serdev_priv where
  "serdev_zero = \<lparr>rx_buf = replicate 256 0, rx_len = 0\<rparr>"

text \<open>The difference is one of type \<open>size_t\<close>.\<close>

definition serdev_demo_receive :: "u8 list \<Rightarrow> serdev_priv \<Rightarrow> (int \<times> serdev_priv) option" where
  "serdev_demo_receive buf p =
     (let count = int (length buf);
          to_copy = min_t_int count (cast_u64 (256 - cast_u64 (rx_len p) - 1))
      in if 0 < to_copy then
           Option.bind (get_bytes 0 to_copy buf) (\<lambda>bytes.
             Option.bind (put_bytes (rx_len p) bytes (rx_buf p)) (\<lambda>b1.
               Option.bind (put_bytes (rx_len p + to_copy) [0] b1) (\<lambda>b2.
                 Some (count, p\<lparr>rx_buf := b2, rx_len := rx_len p + to_copy\<rparr>))))
         else Some (count, p))"

text \<open>What \<open>probe\<close> sends, unless the memory or the line are not available.\<close>

definition serdev_demo_probe :: "bool \<Rightarrow> int \<Rightarrow> int \<times> string list" where
  "serdev_demo_probe kzalloc_ok open_ret =
     (if \<not> kzalloc_ok then (- ENOMEM, []) else if open_ret \<noteq> 0 then (open_ret, []) else (0, [''AT'' @ CRLF]))"

section \<open>i2c_driver_demo\<close>

definition WHO_AM_I_REG :: nat where "WHO_AM_I_REG = 0x75"

definition hex_reg :: "int \<Rightarrow> string" where "hex_reg v = ''0x'' @ pad_zero 2 (fmt_x v)"

text \<open>\<open>bus\<close> answers \<open>i2c_smbus_read_byte_data\<close>: a byte, or a negative error number.\<close>

definition device_id_show :: "(nat \<Rightarrow> int) \<Rightarrow> int \<times> string" where
  "device_id_show bus =
     (let val = bus WHO_AM_I_REG in
      if val < 0 then (val, []) else (let out = hex_reg val @ NL in (int (length out), out)))"

definition reg_read_store :: "(string \<Rightarrow> int + u32) \<Rightarrow> (nat \<Rightarrow> int) \<Rightarrow> string \<Rightarrow> int \<times> string list" where
  "reg_read_store kstrtouint bus buf =
     (case kstrtouint buf of
        Inl e \<Rightarrow> (- EINVAL, [])
      | Inr reg \<Rightarrow>
          if 0xFF < reg then (- EINVAL, [])
          else (let val = bus (unat reg) in
                if val < 0 then (val, [])
                else (int (length buf), [''Register '' @ hex_reg (uint reg) @ '' = '' @ hex_reg val])))"

text \<open>The result, the device id that is kept, and the log.\<close>

definition my_i2c_probe :: "bool \<Rightarrow> int \<Rightarrow> (nat \<Rightarrow> int) \<Rightarrow> int \<times> u8 \<times> string list" where
  "my_i2c_probe kzalloc_ok groups_ret bus =
     (if \<not> kzalloc_ok then (- ENOMEM, 0, [])
      else (let val = bus WHO_AM_I_REG in
            if val < 0 then (groups_ret, 0, [''Failed to read WHO_AM_I: '' @ fmt_d val])
            else (groups_ret, word_of_int val, [''WHO_AM_I = '' @ hex_reg val])))"

section \<open>spi_driver_demo\<close>

text \<open>
  A transfer is full duplex: the device answers the bytes sent with as many bytes, or with an error, and then the buffer is as before. \<open>%s\<close> of the
  received bytes ends at the first NUL; without one it reads on behind the buffer.
\<close>

definition my_spi_xfer :: "(u8 list \<Rightarrow> int + u8 list) \<Rightarrow> u8 list \<Rightarrow> u8 list \<Rightarrow> int \<times> u8 list" where
  "my_spi_xfer device tx rx = (case device tx of Inl e \<Rightarrow> (e, rx) | Inr bytes \<Rightarrow> (0, bytes))"

definition hex_byte :: "u8 \<Rightarrow> string" where "hex_byte b = pad_zero 2 (fmt_x (uint b))"

definition SPI_TEST :: "u8 list" where "SPI_TEST = text_bytes (''SPI_TEST'' @ [NUL])"

definition my_spi_probe :: "bool \<Rightarrow> int \<Rightarrow> (u8 list \<Rightarrow> int + u8 list) \<Rightarrow> (int \<times> string list) option" where
  "my_spi_probe kzalloc_ok setup_ret device =
     (if \<not> kzalloc_ok then Some (- ENOMEM, [])
      else if setup_ret \<noteq> 0 then Some (setup_ret, [''SPI setup failed: '' @ fmt_d setup_ret])
      else
        (let (ret, rx) = my_spi_xfer device [0x9F, 0, 0, 0] [0, 0, 0, 0];
             l1 = (if ret \<noteq> 0 then ''SPI transfer failed: '' @ fmt_d ret
                   else ''Response: '' @ hex_byte (rx ! 0) @ '' '' @ hex_byte (rx ! 1) @ '' '' @ hex_byte (rx ! 2) @ '' '' @ hex_byte (rx ! 3));
             (ret2, test_rx) = my_spi_xfer device SPI_TEST (replicate 9 0)
         in if ret2 \<noteq> 0 then Some (0, [l1])
            else map_option (\<lambda>s. (0, [l1, ''Loopback TX: SPI_TEST'',
                ''Loopback RX: '' @ s @ (if test_rx = SPI_TEST then '' (MATCH!)'' else '' (no match '' @ [CHR 0xE2, CHR 0x80, CHR 0x94] @ '' MOSI not wired to MISO?)'')]))
              (c_string (map chr8 test_rx))))"

section \<open>regmap_demo\<close>

definition my_readable :: "nat \<Rightarrow> bool" where "my_readable reg \<longleftrightarrow> reg \<le> 0x75"

definition my_writeable :: "nat \<Rightarrow> bool" where "my_writeable reg \<longleftrightarrow> reg \<noteq> 0x75 \<and> reg \<le> 0x6B"

definition my_volatile :: "nat \<Rightarrow> bool" where "my_volatile reg \<longleftrightarrow> 0x3B \<le> reg \<and> reg \<le> 0x48"

text \<open>The registers, and the error of an access to one, zero if there is none.\<close>

record reg_device =
  rm_regs :: "u8 list"
  rm_fault :: "nat \<Rightarrow> int"

definition regmap_read :: "nat \<Rightarrow> reg_device \<Rightarrow> int + u8" where
  "regmap_read reg d =
     (if \<not> my_readable reg then Inl (- EIO) else if rm_fault d reg \<noteq> 0 then Inl (rm_fault d reg) else Inr (rm_regs d ! reg))"

definition regmap_write :: "nat \<Rightarrow> u8 \<Rightarrow> reg_device \<Rightarrow> int \<times> reg_device" where
  "regmap_write reg v d =
     (if \<not> my_writeable reg then (- EIO, d) else if rm_fault d reg \<noteq> 0 then (rm_fault d reg, d)
      else (0, d\<lparr>rm_regs := (rm_regs d)[reg := v]\<rparr>))"

definition regmap_update_bits :: "nat \<Rightarrow> u8 \<Rightarrow> u8 \<Rightarrow> reg_device \<Rightarrow> int \<times> reg_device" where
  "regmap_update_bits reg bits v d =
     (case regmap_read reg d of
        Inl e \<Rightarrow> (e, d)
      | Inr old \<Rightarrow>
          (let new = or (and old (not bits)) (and v bits) in if new = old then (0, d) else regmap_write reg new d))"

fun regmap_bulk_read :: "nat \<Rightarrow> nat \<Rightarrow> reg_device \<Rightarrow> int + u8 list" where
  "regmap_bulk_read reg 0 d = Inr []"
| "regmap_bulk_read reg (Suc n) d =
     (case regmap_read reg d of
        Inl e \<Rightarrow> Inl e
      | Inr v \<Rightarrow> (case regmap_bulk_read (reg + 1) n d of Inl e \<Rightarrow> Inl e | Inr vs \<Rightarrow> Inr (v # vs)))"

fun regdump_loop :: "reg_device \<Rightarrow> nat list \<Rightarrow> string \<Rightarrow> string" where
  "regdump_loop d [] out = out"
| "regdump_loop d (reg # rs) out =
     (if length out < 4096 - 32
      then regdump_loop d rs (case regmap_read reg d of Inl e \<Rightarrow> out | Inr v \<Rightarrow> out @ hex_reg (int reg) @ '' = '' @ hex_reg (uint v) @ NL)
      else out)"

definition regdump_show :: "reg_device \<Rightarrow> int \<times> string" where
  "regdump_show d = (let out = regdump_loop d [0..<0x11] [] in (int (length out), out))"

definition regmap_demo_probe :: "bool \<Rightarrow> int \<Rightarrow> reg_device \<Rightarrow> int \<times> string list \<times> reg_device" where
  "regmap_demo_probe kzalloc_ok init_err d =
     (if \<not> kzalloc_ok then (- ENOMEM, [], d)
      else if init_err \<noteq> 0 then (init_err, [''regmap init failed: '' @ fmt_d init_err], d)
      else
        (let l1 = (case regmap_read 0x75 d of
                     Inl e \<Rightarrow> ''Failed to read WHO_AM_I: '' @ fmt_d e
                   | Inr v \<Rightarrow> ''WHO_AM_I = '' @ hex_reg (uint v) @ '' (via regmap)'');
             (r2, d2) = regmap_write 0x6B 0 d;
             l2 = (if r2 = 0 then [''Device woken up (reg 0x6B = 0x00)''] else []);
             (r3, d3) = regmap_update_bits 0x1C 0x18 0x10 d2;
             l3 = (if r3 = 0 then [''Updated bits [4:3] of reg 0x1C''] else []);
             l4 = (case regmap_bulk_read 0x3B 6 d3 of Inl e \<Rightarrow> [] | Inr vs \<Rightarrow> [''Bulk read 6 bytes from 0x3B''])
         in (0, [l1] @ l2 @ l3 @ l4, d3)))"

section \<open>The receive buffer\<close>

text \<open>The buffer after \<open>xs\<close> has been received: the first 255 bytes, and a NUL.\<close>

definition serdev_ok :: "u8 list \<Rightarrow> serdev_priv \<Rightarrow> bool" where
  "serdev_ok xs p \<longleftrightarrow> (\<exists>rest. rx_len p = int (length (take 255 xs)) \<and> rx_buf p = take 255 xs @ 0 # rest \<and> length (rx_buf p) = 256)"

fun serdev_run :: "u8 list list \<Rightarrow> serdev_priv \<Rightarrow> serdev_priv option" where
  "serdev_run [] p = Some p"
| "serdev_run (b # bs) p = Option.bind (serdev_demo_receive b p) (\<lambda>(r, p'). serdev_run bs p')"


lemma serdev_start: "serdev_ok [] serdev_zero"
proof -
  have "replicate 256 (0 :: u8) = 0 # replicate 255 0" using replicate_Suc [of 255 "0 :: u8"] by simp
  then show ?thesis by (auto simp: serdev_ok_def serdev_zero_def simp del: replicate.simps)
qed

lemma serdev_step:
  assumes "serdev_ok xs p" and "length b < 2147483648"
  shows "\<exists>p'. serdev_demo_receive b p = Some (int (length b), p') \<and> serdev_ok (xs @ b) p'"
proof -
  define ys where "ys = take 255 xs"
  obtain rest where p: "rx_len p = int (length ys)" "rx_buf p = ys @ 0 # rest" "length ys + length rest = 255"
    using assms(1) by (auto simp: serdev_ok_def ys_def)
  define k where "k = min (length b) (255 - length ys)"
  have ys: "length ys \<le> 255" "xs = ys \<or> length ys = 255" by (auto simp: ys_def min_def)
  have "min_t_int (int (length b)) (255 - int (length ys)) = int k"
    using min_t_int_ok [of "int (length b)" "255 - int (length ys)"] assms(2) ys(1) by (simp add: k_def)
  moreover have "cast_u64 (256 - cast_u64 (rx_len p) - 1) = 255 - int (length ys)" using ys(1) p(1) by simp
  ultimately have m: "min_t_int (int (length b)) (cast_u64 (256 - cast_u64 (rx_len p) - 1)) = int k" by simp
  have new: "take 255 (xs @ b) = ys @ take k b"
    using ys by (auto simp: ys_def k_def min_def)
  show ?thesis
  proof (cases "k = 0")
    case True
    then have "take 255 (xs @ b) = ys" using new by simp
    then show ?thesis using assms(1) m True by (auto simp: serdev_demo_receive_def serdev_ok_def ys_def Let_def)
  next
    case False
    have k: "k \<le> length b" "k \<le> length rest" using p(3) by (simp_all add: k_def)
    have "get_bytes 0 (int k) b = Some (take k b)" using k(1) by (simp add: get_bytes_def)
    moreover have "put_bytes (rx_len p) (take k b) (rx_buf p) = Some (ys @ take k b @ drop k (0 # rest))"
      using k p by (simp add: put_bytes_def)
    moreover have "drop k (0 # rest) \<noteq> []" using k(2) by simp
    then obtain z zs where "drop k (0 # rest) = z # zs" by (cases "drop k (0 # rest)") auto
    moreover have "put_bytes (rx_len p + int k) [0] (ys @ take k b @ z # zs) = Some (ys @ take k b @ 0 # zs)"
      using k(1) p(1) by (simp add: put_bytes_def nat_add_distrib min_def)
    moreover have "length (drop k (0 # rest)) = Suc (length rest) - k" by simp
    ultimately show ?thesis
      using m False k p(1,3) new
      by (auto simp: serdev_demo_receive_def serdev_ok_def Let_def)
  qed
qed

text \<open>
  However the bytes are divided into calls of the receive handler, the buffer holds the first 255 of them as a string, and no call writes outside it.
\<close>

lemma serdev_keeps_prefix:
  "serdev_ok xs p \<Longrightarrow> list_all (\<lambda>b. length b < 2147483648) bs \<Longrightarrow> \<exists>p'. serdev_run bs p = Some p' \<and> serdev_ok (xs @ concat bs) p'"
proof (induction bs arbitrary: xs p)
  case (Cons b bs)
  obtain p1 where "serdev_demo_receive b p = Some (int (length b), p1)" "serdev_ok (xs @ b) p1"
    using serdev_step [OF Cons.prems(1)] Cons.prems(2) by auto
  then show ?case using Cons.IH [of "xs @ b" p1] Cons.prems(2) by simp
qed simp


theorem serdev_receives:
  assumes "list_all (\<lambda>b. length b < 2147483648) bs"
  shows "\<exists>p. serdev_run bs serdev_zero = Some p \<and> rx_len p = int (min 255 (length (concat bs))) \<and>
    take (nat (rx_len p)) (rx_buf p) = take 255 (concat bs) \<and> rx_buf p ! nat (rx_len p) = 0 \<and> length (rx_buf p) = 256"
proof -
  obtain p where p: "serdev_run bs serdev_zero = Some p" "serdev_ok (concat bs) p"
    using serdev_keeps_prefix [OF serdev_start assms] by auto
  then obtain rest where "rx_len p = int (length (take 255 (concat bs)))" "rx_buf p = take 255 (concat bs) @ 0 # rest" "length (rx_buf p) = 256"
    by (auto simp: serdev_ok_def)
  moreover have "take (min (length (concat bs)) 255) (concat bs) = take 255 (concat bs)" by (simp add: min_def)
  ultimately show ?thesis using p(1) nth_append_length [of "take 255 (concat bs)" 0 rest] by (simp add: min.commute)
qed

theorem serdev_receives_witness:
  "\<exists>p. serdev_run [text_bytes ''OK'', [], text_bytes CRLF] serdev_zero = Some p \<and> rx_len p = 4 \<and> take 4 (rx_buf p) = text_bytes (''OK'' @ CRLF)"
  using serdev_receives [of "[text_bytes ''OK'', [], text_bytes CRLF]"] by (auto simp: text_bytes_def CRLF_def)

section \<open>The other drivers\<close>

lemma hex_reg_length: "0 \<le> v \<Longrightarrow> v < 256 \<Longrightarrow> length (hex_reg v) = 4"
  by (simp add: hex_reg_def pad_zero_def fmt_x_def hex.simps [of digit "nat v"] hex.simps [of digit "nat v div 16"] less_mult_imp_div_less)

lemma device_id_show_length: "0 \<le> bus WHO_AM_I_REG \<Longrightarrow> bus WHO_AM_I_REG < 256 \<Longrightarrow> fst (device_id_show bus) = 5"
  using hex_reg_length [of "bus WHO_AM_I_REG"] by (simp add: device_id_show_def Let_def NL_def)

lemma reg_read_store_range:
  "fst (reg_read_store kstrtouint bus buf) \<ge> 0 \<Longrightarrow> \<exists>reg. kstrtouint buf = Inr reg \<and> reg \<le> 0xFF \<and> fst (reg_read_store kstrtouint bus buf) = int (length buf)"
  by (auto simp: reg_read_store_def Let_def not_less split: sum.splits if_splits)

text \<open>With the lines wired together the test matches; a bus that no chip drives, on which every bit reads as one, makes the driver read behind its buffer.\<close>

lemma spi_loopback: "\<exists>log. my_spi_probe True 0 Inr = Some (0, log) \<and> last log = ''Loopback RX: SPI_TEST (MATCH!)''"
  by (simp add: my_spi_probe_def my_spi_xfer_def SPI_TEST_def text_bytes_def c_string_def)

lemma spi_undriven: "my_spi_probe True 0 (\<lambda>tx. Inr (map (\<lambda>_. 0xFF) tx)) = None"
proof -
  have "of_char (chr8 0xFF) = (255 :: nat)" by (simp add: chr8_def)
  then have "chr8 0xFF \<noteq> NUL" by auto
  then show ?thesis by (simp add: my_spi_probe_def my_spi_xfer_def SPI_TEST_def text_bytes_def c_string_def)
qed

text \<open>
  Without bus errors the probe of the register map clears the power register, sets bit four and clears bit three of the configuration register, and
  changes nothing else; the dump has seventeen lines of twelve characters, far from a page.
\<close>

lemma regmap_update_value:
  assumes "my_readable reg" "my_writeable reg" "rm_fault d reg = 0"
  shows "regmap_update_bits reg bits v d = (0, d\<lparr>rm_regs := (rm_regs d)[reg := or (and (rm_regs d ! reg) (not bits)) (and v bits)]\<rparr>)"
  using assms by (cases "reg < length (rm_regs d)") (auto simp: regmap_update_bits_def regmap_read_def regmap_write_def Let_def list_update_beyond)

lemma regmap_demo_probe_effect:
  assumes "\<forall>r. rm_fault d r = 0" and "length (rm_regs d) = 118"
  shows "\<exists>log. regmap_demo_probe True 0 d =
    (0, log, d\<lparr>rm_regs := (rm_regs d)[0x6B := 0, 0x1C := or (and (rm_regs d ! 0x1C) (not 0x18)) 0x10]\<rparr>)"
proof -
  have "regmap_write 0x6B 0 d = (0, d\<lparr>rm_regs := (rm_regs d)[0x6B := 0]\<rparr>)"
    using assms by (simp add: regmap_write_def my_writeable_def)
  moreover have "regmap_update_bits 0x1C 0x18 0x10 (d\<lparr>rm_regs := (rm_regs d)[0x6B := 0]\<rparr>) =
      (0, d\<lparr>rm_regs := (rm_regs d)[0x6B := 0, 0x1C := or (and (rm_regs d ! 0x1C) (not 0x18)) 0x10]\<rparr>)"
    using assms by (subst regmap_update_value) (simp_all add: my_readable_def my_writeable_def)
  ultimately show ?thesis by (simp add: regmap_demo_probe_def Let_def)
qed

lemma regdump_lines:
  assumes "\<forall>r. rm_fault d r = 0" and "list_all (\<lambda>r. r \<le> 0x10) rs" and "length out + 12 * length rs < 4064"
  shows "regdump_loop d rs out = out @ concat (map (\<lambda>r. hex_reg (int r) @ '' = '' @ hex_reg (uint (rm_regs d ! r)) @ NL) rs)"
  using assms(2,3)
proof (induction rs arbitrary: out)
  case (Cons r rs)
  have "length (hex_reg (int r)) = 4" "length (hex_reg (uint (rm_regs d ! r))) = 4"
    using Cons.prems(1) uint_bounded [of "rm_regs d ! r"] by (auto intro!: hex_reg_length)
  then have "length (out @ hex_reg (int r) @ '' = '' @ hex_reg (uint (rm_regs d ! r)) @ NL) + 12 * length rs < 4064"
    using Cons.prems(2) by (simp add: NL_def)
  from Cons.IH [OF _ this] Cons.prems show ?case using assms(1) by (simp add: regmap_read_def my_readable_def)
qed simp

end
