(* ===== verification/CHeap.thy ===== *)
theory CHeap
  imports Bytes
begin

text \<open>
  The memory that the programs of Debugging/Handson and of the leak lab allocate, and C functions as transformers of it that end with a value or with
  the undefined behaviour they run into. A block is the list of its elements (characters, integers, pointers, or the fields of a struct in order), each
  unwritten at first; it stays listed when it is freed. \<open>avail\<close> tells of every allocation, in order, whether it succeeds. What is printed before the end is kept
  as well.
\<close>

section \<open>State\<close>

datatype cval = Chr char | Num int | Ptr "nat option"

record block =
  bytes :: nat
  cells :: "cval option list"
  live :: bool

record machine =
  heap :: "block list"
  requests :: nat
  avail :: "nat \<Rightarrow> bool"
  console :: "string list"

datatype fault = Null_Access | Past_End | After_Free | Not_Written | Bad_Free | Int_Overflow | Stack_Exhausted | Wrong_Type

type_synonym 'a cfun = "machine \<Rightarrow> (fault + 'a) \<times> machine"

type_synonym pointer = "nat option"

definition started :: "(nat \<Rightarrow> bool) \<Rightarrow> machine" where
  "started av = \<lparr>heap = [], requests = 0, avail = av, console = []\<rparr>"

section \<open>Sequencing\<close>

definition ret :: "'a \<Rightarrow> 'a cfun" where "ret x m = (Inr x, m)"

definition fail :: "fault \<Rightarrow> 'a cfun" where "fail e m = (Inl e, m)"

definition bindc :: "'a cfun \<Rightarrow> ('a \<Rightarrow> 'b cfun) \<Rightarrow> 'b cfun" where
  "bindc p f m = (case p m of (Inl e, m') \<Rightarrow> (Inl e, m') | (Inr x, m') \<Rightarrow> f x m')"

definition thenc :: "unit cfun \<Rightarrow> 'a cfun \<Rightarrow> 'a cfun" where
  "thenc p q = bindc p (\<lambda>_. q)"

fun seqc :: "unit cfun list \<Rightarrow> unit cfun" where
  "seqc [] = ret ()"
| "seqc (p # ps) = thenc p (seqc ps)"

definition print :: "string \<Rightarrow> unit cfun" where
  "print s m = (Inr (), m\<lparr>console := console m @ [s]\<rparr>)"

named_theorems cfun_simps

lemma bindc_simps [cfun_simps]:
  "p m = (Inr x, m') \<Longrightarrow> bindc p f m = f x m'"
  "p m = (Inl e, m') \<Longrightarrow> bindc p f m = (Inl e, m')"
  by (simp_all add: bindc_def)

lemma thenc_simps [cfun_simps]:
  "p m = (Inr (), m') \<Longrightarrow> thenc p q m = q m'"
  "p m = (Inl e, m') \<Longrightarrow> thenc p q m = (Inl e, m')"
  by (simp_all add: thenc_def bindc_def)

lemma ret_fail_print [cfun_simps]:
  "ret x m = (Inr x, m)"
  "fail e m = (Inl e, m)"
  "print s m = (Inr (), m\<lparr>console := console m @ [s]\<rparr>)"
  by (simp_all add: ret_def fail_def print_def)

section \<open>Allocation\<close>

definition malloc :: "nat \<Rightarrow> nat \<Rightarrow> pointer cfun" where
  "malloc sz n m =
     (let m1 = m\<lparr>requests := requests m + 1\<rparr>
      in if avail m (requests m) then
           (Inr (Some (length (heap m))), m1\<lparr>heap := heap m @ [\<lparr>bytes = sz, cells = replicate n None, live = True\<rparr>]\<rparr>)
         else (Inr None, m1))"

definition free :: "pointer \<Rightarrow> unit cfun" where
  "free p m = (case p of
     None \<Rightarrow> (Inr (), m)
   | Some b \<Rightarrow>
       if live (heap m ! b) then (Inr (), m\<lparr>heap := (heap m)[b := (heap m ! b)\<lparr>live := False\<rparr>]\<rparr>) else (Inl Bad_Free, m))"

definition heap_block :: "pointer \<Rightarrow> block cfun" where
  "heap_block p m = (case p of
     None \<Rightarrow> (Inl Null_Access, m)
   | Some b \<Rightarrow> if live (heap m ! b) then (Inr (heap m ! b), m) else (Inl After_Free, m))"

section \<open>Access\<close>

definition write_cells :: "pointer \<Rightarrow> nat \<Rightarrow> cval list \<Rightarrow> unit cfun" where
  "write_cells p i vs = bindc (heap_block p) (\<lambda>b.
     if length (cells b) < i + length vs then fail Past_End
     else (\<lambda>m. (Inr (), m\<lparr>heap := (heap m)[the p := b\<lparr>cells := splice i (map Some vs) (cells b)\<rparr>]\<rparr>)))"

definition read_cell :: "pointer \<Rightarrow> nat \<Rightarrow> cval cfun" where
  "read_cell p i = bindc (heap_block p) (\<lambda>b.
     if length (cells b) \<le> i then fail Past_End
     else (case cells b ! i of None \<Rightarrow> fail Not_Written | Some v \<Rightarrow> ret v))"

definition read_int :: "pointer \<Rightarrow> nat \<Rightarrow> int cfun" where
  "read_int p i = bindc (read_cell p i) (\<lambda>v. case v of Num x \<Rightarrow> ret x | _ \<Rightarrow> fail Wrong_Type)"

definition read_pointer :: "pointer \<Rightarrow> nat \<Rightarrow> pointer cfun" where
  "read_pointer p i = bindc (read_cell p i) (\<lambda>v. case v of Ptr x \<Rightarrow> ret x | _ \<Rightarrow> fail Wrong_Type)"

text \<open>The string that starts at an element, up to its NUL.\<close>

fun string_of :: "cval option list \<Rightarrow> fault + string" where
  "string_of [] = Inl Past_End"
| "string_of (None # vs) = Inl Not_Written"
| "string_of (Some (Chr c) # vs) =
     (if c = NUL then Inr [] else (case string_of vs of Inl e \<Rightarrow> Inl e | Inr s \<Rightarrow> Inr (c # s)))"
| "string_of (Some v # vs) = Inl Wrong_Type"

definition read_string :: "pointer \<Rightarrow> nat \<Rightarrow> string cfun" where
  "read_string p i = bindc (heap_block p) (\<lambda>b.
     case string_of (drop i (cells b)) of Inl e \<Rightarrow> fail e | Inr s \<Rightarrow> ret s)"

definition strcpy :: "pointer \<Rightarrow> string \<Rightarrow> unit cfun" where
  "strcpy p s = write_cells p 0 (map Chr (s @ [NUL]))"

text \<open>\<open>snprintf\<close> with a limit of at least 1.\<close>

definition snprintf_to :: "pointer \<Rightarrow> nat \<Rightarrow> string \<Rightarrow> unit cfun" where
  "snprintf_to p n s = write_cells p 0 (map Chr (take (n - 1) s @ [NUL]))"

section \<open>What is left\<close>

definition leaked :: "machine \<Rightarrow> nat list" where
  "leaked m = map bytes (filter live (heap m))"

section \<open>Lemmas\<close>

lemma malloc_ok [cfun_simps]:
  "avail m (requests m) \<Longrightarrow> malloc sz n m =
     (Inr (Some (length (heap m))),
      m\<lparr>requests := requests m + 1, heap := heap m @ [\<lparr>bytes = sz, cells = replicate n None, live = True\<rparr>]\<rparr>)"
  "\<not> avail m (requests m) \<Longrightarrow> malloc sz n m = (Inr None, m\<lparr>requests := requests m + 1\<rparr>)"
  by (simp_all add: malloc_def)

lemma free_simps [cfun_simps]:
  "free None m = (Inr (), m)"
  "live (heap m ! b) \<Longrightarrow> free (Some b) m = (Inr (), m\<lparr>heap := (heap m)[b := (heap m ! b)\<lparr>live := False\<rparr>]\<rparr>)"
  "\<not> live (heap m ! b) \<Longrightarrow> free (Some b) m = (Inl Bad_Free, m)"
  by (simp_all add: free_def)

lemma heap_block_simps [cfun_simps]:
  "heap_block None m = (Inl Null_Access, m)"
  "live (heap m ! b) \<Longrightarrow> heap_block (Some b) m = (Inr (heap m ! b), m)"
  "\<not> live (heap m ! b) \<Longrightarrow> heap_block (Some b) m = (Inl After_Free, m)"
  by (simp_all add: heap_block_def)

lemma write_cells_simps [cfun_simps]:
  "write_cells None i vs m = (Inl Null_Access, m)"
  "\<not> live (heap m ! b) \<Longrightarrow> write_cells (Some b) i vs m = (Inl After_Free, m)"
  "live (heap m ! b) \<Longrightarrow> length (cells (heap m ! b)) < i + length vs \<Longrightarrow> write_cells (Some b) i vs m = (Inl Past_End, m)"
  "live (heap m ! b) \<Longrightarrow> i + length vs \<le> length (cells (heap m ! b)) \<Longrightarrow>
     write_cells (Some b) i vs m =
       (Inr (), m\<lparr>heap := (heap m)[b := (heap m ! b)\<lparr>cells := splice i (map Some vs) (cells (heap m ! b))\<rparr>]\<rparr>)"
  by (simp_all add: write_cells_def bindc_def heap_block_simps fail_def)

lemma read_cell_simps [cfun_simps]:
  "read_cell None i m = (Inl Null_Access, m)"
  "\<not> live (heap m ! b) \<Longrightarrow> read_cell (Some b) i m = (Inl After_Free, m)"
  "live (heap m ! b) \<Longrightarrow> length (cells (heap m ! b)) \<le> i \<Longrightarrow> read_cell (Some b) i m = (Inl Past_End, m)"
  "live (heap m ! b) \<Longrightarrow> i < length (cells (heap m ! b)) \<Longrightarrow> cells (heap m ! b) ! i = Some v \<Longrightarrow> read_cell (Some b) i m = (Inr v, m)"
  "live (heap m ! b) \<Longrightarrow> i < length (cells (heap m ! b)) \<Longrightarrow> cells (heap m ! b) ! i = None \<Longrightarrow> read_cell (Some b) i m = (Inl Not_Written, m)"
  by (simp_all add: read_cell_def bindc_def heap_block_simps fail_def ret_def)

lemma read_string_simps [cfun_simps]:
  "read_string None i m = (Inl Null_Access, m)"
  "\<not> live (heap m ! b) \<Longrightarrow> read_string (Some b) i m = (Inl After_Free, m)"
  "live (heap m ! b) \<Longrightarrow> string_of (drop i (cells (heap m ! b))) = Inr s \<Longrightarrow> read_string (Some b) i m = (Inr s, m)"
  by (simp_all add: read_string_def bindc_def heap_block_simps fail_def ret_def)

lemma read_pointer_simps [cfun_simps]:
  "read_cell p i m = (Inr (Ptr q), m') \<Longrightarrow> read_pointer p i m = (Inr q, m')"
  "read_cell p i m = (Inl e, m') \<Longrightarrow> read_pointer p i m = (Inl e, m')"
  by (simp_all add: read_pointer_def bindc_def ret_def)

lemma read_int_simps [cfun_simps]:
  "read_cell p i m = (Inr (Num x), m') \<Longrightarrow> read_int p i m = (Inr x, m')"
  "read_cell p i m = (Inl e, m') \<Longrightarrow> read_int p i m = (Inl e, m')"
  by (simp_all add: read_int_def bindc_def ret_def)

text \<open>A string that was written is read back.\<close>

lemma string_of_written: "NUL \<notin> set s \<Longrightarrow> string_of (map Some (map Chr (s @ [NUL])) @ rest) = Inr s"
  by (induction s) auto

lemma read_written_string:
  assumes "live (heap m ! b)" and "cells (heap m ! b) = splice 0 (map Some (map Chr (s @ [NUL]))) cs"
    and "length s < length cs" and "NUL \<notin> set s"
  shows "read_string (Some b) 0 m = (Inr s, m)"
  using assms string_of_written [OF assms(4), of "drop (length s + 1) cs"] by (simp add: cfun_simps splice_def)

text \<open>The blocks without what is stored in them, on which the sizes that are left depend.\<close>

definition shape :: "machine \<Rightarrow> (nat \<times> bool \<times> nat) list" where
  "shape m = map (\<lambda>b. (bytes b, live b, length (cells b))) (heap m)"

lemma leaked_shape: "leaked m = map fst (filter (\<lambda>(_, l, _). l) (shape m))"
  by (simp add: leaked_def shape_def filter_map comp_def split_beta)

lemma length_shape [simp]: "length (shape m) = length (heap m)"
  by (simp add: shape_def)

lemma shape_nth: "b < length (heap m) \<Longrightarrow> shape m ! b = (bytes (heap m ! b), live (heap m ! b), length (cells (heap m ! b)))"
  by (simp add: shape_def)

lemma shape_malloc [simp]:
  "shape (m\<lparr>requests := r, heap := heap m @ [\<lparr>bytes = sz, cells = replicate n None, live = True\<rparr>]\<rparr>) = shape m @ [(sz, True, n)]"
  by (simp add: shape_def)

lemma write_shape:
  assumes "b < length (heap m)" and "live (heap m ! b)" and "i + length vs \<le> length (cells (heap m ! b))"
  obtains m' where "write_cells (Some b) i vs m = (Inr (), m')" and "avail m' = avail m" and "shape m' = shape m"
    and "\<And>c. c \<noteq> b \<Longrightarrow> heap m' ! c = heap m ! c"
    and "cells (heap m' ! b) = splice i (map Some vs) (cells (heap m ! b))"
proof
  let ?m = "m\<lparr>heap := (heap m)[b := (heap m ! b)\<lparr>cells := splice i (map Some vs) (cells (heap m ! b))\<rparr>]\<rparr>"
  show "write_cells (Some b) i vs m = (Inr (), ?m)" using assms by (simp add: cfun_simps)
  show "shape ?m = shape m"
    using assms by (auto simp: shape_def map_update splice_length list_eq_iff_nth_eq nth_list_update)
qed (use assms in auto)

lemma snprintf_shape:
  assumes "b < length (heap m)" and "live (heap m ! b)" and "n \<le> length (cells (heap m ! b))" and "0 < n"
  obtains m' where "snprintf_to (Some b) n s m = (Inr (), m')" and "avail m' = avail m" and "shape m' = shape m"
    and "\<And>c. c \<noteq> b \<Longrightarrow> heap m' ! c = heap m ! c"
    and "cells (heap m' ! b) = splice 0 (map Some (map Chr (take (n - 1) s @ [NUL]))) (cells (heap m ! b))"
proof -
  have len: "0 + length (map Chr (take (n - 1) s @ [NUL])) \<le> length (cells (heap m ! b))" using assms(3,4) by simp
  show thesis
    using that unfolding snprintf_to_def by (rule write_shape [OF assms(1,2) len])
qed

lemma free_shape:
  assumes "b < length (heap m)" and "live (heap m ! b)"
  obtains m' where "free (Some b) m = (Inr (), m')" and "avail m' = avail m"
    and "shape m' = (shape m)[b := (bytes (heap m ! b), False, length (cells (heap m ! b)))]"
    and "\<And>c. cells (heap m' ! c) = cells (heap m ! c)"
proof
  let ?m = "m\<lparr>heap := (heap m)[b := (heap m ! b)\<lparr>live := False\<rparr>]\<rparr>"
  show "free (Some b) m = (Inr (), ?m)" using assms by (simp add: cfun_simps)
  show "shape ?m = (shape m)[b := (bytes (heap m ! b), False, length (cells (heap m ! b)))]" by (simp add: shape_def map_update)
  show "cells (heap ?m ! c) = cells (heap m ! c)" for c using assms by (simp add: nth_list_update)
qed simp

end
