(* ===== verification/Camera.thy ===== *)
theory Camera
  imports Bytes
begin

text \<open>
  v4l2_capture.c of KernelProgramming/Handson/lab41_camera: one frame from a camera. What the driver answers to each request is an argument, with the interruptions before its answer; the
  memory that it maps is that of the frames. The state is what the program has printed, saved, opened and mapped.
\<close>

unbundle bit_operations_syntax

section \<open>The driver\<close>

definition NUM_BUFFERS :: nat where "NUM_BUFFERS = 4"

abbreviation (input) EINTR :: int where "EINTR \<equiv> 4"

text \<open>A list of results: those before the last are tries that a signal interrupts.\<close>

record driver =
  querycap :: "int list"
  cap_driver :: string
  cap_card :: string
  cap_bus :: string
  cap_version :: u32
  cap_video :: bool
  cap_streaming :: bool
  formats :: "(string \<times> u8 list) list"
  s_fmt :: "int list"
  fmt_size :: "int \<times> int \<times> int \<times> int"
  reqbufs :: "int list"
  req_count :: nat
  querybuf :: "nat \<Rightarrow> int list"
  frame :: "nat \<Rightarrow> u8 list"
  mmap_ok :: "nat \<Rightarrow> bool"
  qbuf :: "nat \<Rightarrow> int list"
  streamon :: "int list"
  dqbuf :: "int list"
  dq_index :: nat
  dq_bytesused :: nat
  streamoff :: "int list"

section \<open>The program\<close>

record cam =
  out :: "string list"
  saved :: "u8 list option"
  fd_open :: bool
  mapped :: "nat list"

datatype ending = Finished int cam | Undefined | Interrupted_forever

fun xioctl :: "int list \<Rightarrow> int option" where
  "xioctl [] = None"
| "xioctl (r # rs) = (if r = - EINTR then xioctl rs else Some r)"

definition ask :: "int list \<Rightarrow> (int \<Rightarrow> ending) \<Rightarrow> ending" where
  "ask rs k = (case xioctl rs of None \<Rightarrow> Interrupted_forever | Some r \<Rightarrow> k r)"

definition prints :: "string \<Rightarrow> cam \<Rightarrow> cam" where
  "prints t s = s\<lparr>out := out s @ [t]\<rparr>"

text \<open>An error: its message, then the device is closed; the mappings stay until the process is gone.\<close>

definition give_up :: "string \<Rightarrow> cam \<Rightarrow> ending" where
  "give_up msg s = Finished 1 (prints msg (s\<lparr>fd_open := False\<rparr>))"

definition perror_line :: "(int \<Rightarrow> string) \<Rightarrow> string \<Rightarrow> int \<Rightarrow> string" where
  "perror_line strerror what r = what @ '': '' @ strerror (- r) @ NL"

definition version_line :: "u32 \<Rightarrow> string" where
  "version_line v = ''Version: '' @ fmt_u (uint (drop_bit 16 v AND 0xFF)) @ ''.'' @ fmt_u (uint (drop_bit 8 v AND 0xFF)) @ ''.'' @ fmt_u (uint (v AND 0xFF)) @ NL"

text \<open>The formats that the driver enumerates, until it gives an error.\<close>

definition format_line :: "nat \<Rightarrow> string \<times> u8 list \<Rightarrow> string" where
  "format_line i f = ''  '' @ fmt_d (int i) @ '': '' @ fst f @ '' ('' @ fmt_prec 4 (map chr8 (snd f)) @ '')'' @ NL"

definition format_lines :: "driver \<Rightarrow> string list" where
  "format_lines d = map (\<lambda>i. format_line i (formats d ! i)) [0..<length (formats d)]"

text \<open>The two loops over the buffers; \<open>n\<close> are left. The array has room for four.\<close>

fun map_buffers :: "driver \<Rightarrow> (int \<Rightarrow> string) \<Rightarrow> nat \<Rightarrow> nat \<Rightarrow> cam \<Rightarrow> (cam \<Rightarrow> ending) \<Rightarrow> ending" where
  "map_buffers d strerror i 0 s k = k s"
| "map_buffers d strerror i (Suc n) s k =
     ask (querybuf d i) (\<lambda>r.
       if r < 0 then give_up (perror_line strerror ''VIDIOC_QUERYBUF'' r) s
       else if NUM_BUFFERS \<le> i then Undefined
       else if \<not> mmap_ok d i then give_up (perror_line strerror ''mmap'' (- ENOMEM)) s
       else map_buffers d strerror (i + 1) n (s\<lparr>mapped := mapped s @ [i]\<rparr>) k)"

fun queue_buffers :: "driver \<Rightarrow> (int \<Rightarrow> string) \<Rightarrow> nat \<Rightarrow> nat \<Rightarrow> cam \<Rightarrow> (cam \<Rightarrow> ending) \<Rightarrow> ending" where
  "queue_buffers d strerror i 0 s k = k s"
| "queue_buffers d strerror i (Suc n) s k =
     ask (qbuf d i) (\<lambda>r. if r < 0 then give_up (perror_line strerror ''VIDIOC_QBUF'' r) s else queue_buffers d strerror (i + 1) n s k)"

text \<open>The frame is read from the buffer that the driver names.\<close>

definition save_frame :: "driver \<Rightarrow> string \<Rightarrow> bool \<Rightarrow> cam \<Rightarrow> cam option" where
  "save_frame d out_name writable s =
     (if \<not> writable then Some s
      else if NUM_BUFFERS \<le> dq_index d \<or> dq_index d \<notin> set (mapped s) \<or> length (frame d (dq_index d)) < dq_bytesused d then None
      else let (w, h, _, _) = fmt_size d
           in Some (prints (''Convert: ffmpeg -f rawvideo -pix_fmt yuyv422 -s '' @ fmt_u w @ ''x'' @ fmt_u h @ '' -i '' @ out_name @ '' frame.png'' @ NL)
                (prints (''Saved '' @ fmt_u (int (dq_bytesused d)) @ '' bytes to '' @ out_name @ NL)
                  (s\<lparr>saved := Some (take (dq_bytesused d) (frame d (dq_index d)))\<rparr>))))"

definition capture :: "driver \<Rightarrow> (int \<Rightarrow> string) \<Rightarrow> string \<Rightarrow> bool \<Rightarrow> cam \<Rightarrow> ending" where
  "capture d strerror out_name writable s0 =
     (let s = prints (NL @ ''Capturing frame...'' @ NL) s0
      in ask (dqbuf d) (\<lambda>r.
           if r < 0 then give_up (perror_line strerror ''VIDIOC_DQBUF'' r) s
           else (case save_frame d out_name writable s of
               None \<Rightarrow> Undefined
             | Some s2 \<Rightarrow> ask (streamoff d) (\<lambda>_. Finished 0 (prints (''Done!'' @ NL) (s2\<lparr>mapped := filter (\<lambda>i. req_count d \<le> i) (mapped s2), fd_open := False\<rparr>))))))"

definition stream :: "driver \<Rightarrow> (int \<Rightarrow> string) \<Rightarrow> string \<Rightarrow> bool \<Rightarrow> cam \<Rightarrow> ending" where
  "stream d strerror out_name writable s =
     ask (reqbufs d) (\<lambda>r.
       if r < 0 then give_up (perror_line strerror ''VIDIOC_REQBUFS'' r) s
       else map_buffers d strerror 0 (req_count d) s (\<lambda>s. queue_buffers d strerror 0 (req_count d) s (\<lambda>s.
         ask (streamon d) (\<lambda>r.
           if r < 0 then give_up (perror_line strerror ''VIDIOC_STREAMON'' r) s
           else capture d strerror out_name writable s))))"

definition capture_line :: "driver \<Rightarrow> string" where
  "capture_line d = (let (w, h, stride, size_image) = fmt_size d
     in NL @ ''Capture format: '' @ fmt_u w @ ''x'' @ fmt_u h @ '', stride='' @ fmt_u stride @ '', size='' @ fmt_u size_image @ NL)"

definition v4l2_capture :: "driver \<Rightarrow> (int \<Rightarrow> string) \<Rightarrow> int \<Rightarrow> string \<Rightarrow> bool \<Rightarrow> ending" where
  "v4l2_capture d strerror fd out_name writable =
     (let s0 = \<lparr>out = [], saved = None, fd_open = False, mapped = []\<rparr>
      in if fd < 0 then Finished 1 (prints (perror_line strerror ''open'' fd) s0)
      else ask (querycap d) (\<lambda>r.
        if r < 0 then give_up (perror_line strerror ''VIDIOC_QUERYCAP'' r) s0
        else let s1 = s0\<lparr>fd_open := True, out := [''Driver:  '' @ cap_driver d @ NL, ''Card:    '' @ cap_card d @ NL, ''Bus:     '' @ cap_bus d @ NL, version_line (cap_version d)]\<rparr>
        in if \<not> cap_video d then give_up (''Device does not support video capture'' @ NL) s1
        else if \<not> cap_streaming d then give_up (''Device does not support streaming I/O'' @ NL) s1
        else let s2 = s1\<lparr>out := out s1 @ [NL @ ''Supported formats:'' @ NL] @ format_lines d\<rparr>
        in ask (s_fmt d) (\<lambda>r.
          if r < 0 then give_up (perror_line strerror ''VIDIOC_S_FMT'' r) s2
          else stream d strerror out_name writable (prints (capture_line d) s2))))"

section \<open>Safety\<close>

text \<open>What the code relies on: the driver gives no more buffers than asked for, and names one of them with no more bytes than it has.\<close>

definition well_behaved :: "driver \<Rightarrow> bool" where
  "well_behaved d \<longleftrightarrow> req_count d \<le> NUM_BUFFERS \<and> dq_index d < req_count d \<and> dq_bytesused d \<le> length (frame d (dq_index d))"

definition closed :: "ending \<Rightarrow> bool" where
  "closed e = (case e of Finished _ s \<Rightarrow> \<not> fd_open s | Undefined \<Rightarrow> False | Interrupted_forever \<Rightarrow> True)"

lemma closed_ask: "(\<And>r. closed (k r)) \<Longrightarrow> closed (ask rs k)"
  by (auto simp: ask_def closed_def split: option.splits)

lemma closed_give_up [simp]: "closed (give_up msg s)"
  by (simp add: give_up_def closed_def prints_def)

lemma closed_map_buffers:
  assumes "i + n \<le> NUM_BUFFERS" and "\<And>s'. mapped s' = mapped s @ [i..<i + n] \<Longrightarrow> closed (k s')"
  shows "closed (map_buffers d strerror i n s k)"
  using assms
proof (induction n arbitrary: i s)
  case (Suc n)
  have u: "[i..<i + Suc n] = i # [Suc i..<Suc i + n]" by (simp add: upt_rec)
  have "closed (map_buffers d strerror (i + 1) n (s\<lparr>mapped := mapped s @ [i]\<rparr>) k)"
    using Suc.prems unfolding u by (intro Suc.IH) simp_all
  then show ?case using Suc.prems(1) by (auto intro!: closed_ask)
qed simp

lemma closed_queue_buffers: "closed (k s) \<Longrightarrow> closed (queue_buffers d strerror i n s k)"
  by (induction n arbitrary: i) (auto intro!: closed_ask)

lemma closed_capture:
  assumes "well_behaved d" and "mapped s = [0..<req_count d]"
  shows "closed (capture d strerror out_name writable s)"
proof -
  have "\<exists>s2. save_frame d out_name writable (prints t s) = Some s2" for t
    using assms by (auto simp: save_frame_def well_behaved_def prints_def split: prod.splits)
  then obtain s2 where s2: "save_frame d out_name writable (prints (NL @ ''Capturing frame...'' @ NL) s) = Some s2" by blast
  have ends: "closed (Finished 0 (prints t (s'\<lparr>mapped := ms, fd_open := False\<rparr>)))" for t s' ms by (simp add: closed_def prints_def)
  show ?thesis
    unfolding capture_def Let_def s2 by (auto intro!: closed_ask simp: ends)
qed

lemma closed_stream:
  assumes "well_behaved d" and "mapped s = []"
  shows "closed (stream d strerror out_name writable s)"
  unfolding stream_def
proof (rule closed_ask)
  fix r
  have "closed (map_buffers d strerror 0 (req_count d) s (\<lambda>s. queue_buffers d strerror 0 (req_count d) s (\<lambda>s.
         ask (streamon d) (\<lambda>r. if r < 0 then give_up (perror_line strerror ''VIDIOC_STREAMON'' r) s else capture d strerror out_name writable s))))"
    using assms by (intro closed_map_buffers closed_queue_buffers closed_ask) (auto simp: well_behaved_def intro: closed_capture)
  then show "closed (if r < 0 then give_up (perror_line strerror ''VIDIOC_REQBUFS'' r) s
       else map_buffers d strerror 0 (req_count d) s (\<lambda>s. queue_buffers d strerror 0 (req_count d) s (\<lambda>s.
         ask (streamon d) (\<lambda>r. if r < 0 then give_up (perror_line strerror ''VIDIOC_STREAMON'' r) s else capture d strerror out_name writable s))))"
    by simp
qed

text \<open>With such a driver no access is outside an object, and the device is closed however the program ends.\<close>

lemma v4l2_capture_safe: "well_behaved d \<Longrightarrow> closed (v4l2_capture d strerror fd out_name writable)"
proof -
  assume d: "well_behaved d"
  have p: "mapped (prints t s) = mapped s" for t s by (simp add: prints_def)
  show ?thesis
    unfolding v4l2_capture_def Let_def
    by (auto intro!: closed_ask closed_stream [OF d] simp: p) (simp_all add: closed_def prints_def)
qed

text \<open>A driver may give more buffers than it was asked for: then the program writes behind its array.\<close>

definition generous :: driver where
  "generous = \<lparr>querycap = [0], cap_driver = ''uvc'', cap_card = ''cam'', cap_bus = ''usb'', cap_version = 0x060102, cap_video = True, cap_streaming = True,
     formats = [(''YUYV 4:2:2'', [0x59, 0x55, 0x59, 0x56])], s_fmt = [- 4, 0], fmt_size = (640, 480, 1280, 614400), reqbufs = [0], req_count = 5,
     querybuf = (\<lambda>_. [0]), frame = (\<lambda>_. [1, 2, 3]), mmap_ok = (\<lambda>_. True), qbuf = (\<lambda>_. [0]), streamon = [0], dqbuf = [- 4, - 4, 0], dq_index = 1, dq_bytesused = 3,
     streamoff = [0]\<rparr>"

lemmas capture_defs = v4l2_capture_def generous_def ask_def stream_def NUM_BUFFERS_def capture_def save_frame_def give_up_def

lemma generous_overflows: "v4l2_capture generous strerror 3 out_name True = Undefined"
  by (simp add: capture_defs numeral_eq_Suc)

text \<open>With four buffers the frame is saved, interrupted calls are repeated, and all is released.\<close>

lemma capture_saves:
  "\<exists>s. v4l2_capture (generous\<lparr>req_count := 4\<rparr>) strerror 3 out_name True = Finished 0 s \<and> saved s = Some [1, 2, 3] \<and> \<not> fd_open s \<and> mapped s = []"
  by (simp add: capture_defs numeral_eq_Suc prints_def)

text \<open>When a later request fails, the buffers stay mapped.\<close>

lemma streamon_leaks:
  "\<exists>s. v4l2_capture (generous\<lparr>req_count := 4, streamon := [- 5]\<rparr>) strerror 3 out_name True = Finished 1 s \<and> mapped s = [0, 1, 2, 3] \<and> \<not> fd_open s"
  by (simp add: capture_defs numeral_eq_Suc prints_def)

end
