(* ===== verification/Lifecycle.thy ===== *)
theory Lifecycle
  imports CPrelude
begin

text \<open>
  Module initialisation and exit of the kernel drivers as traces of acquired and released resources,
  and the contract that each driver's pair of functions is to meet.

  An init function is given the result of every kernel call it makes, by resource: zero for success,
  a negative error number otherwise (a NULL pointer is \<open>-ENOMEM\<close>, an error pointer its code). It
  returns its own result and the trace. Resources form a stack: releasing anything but the resource
  acquired last among those still held is an error of the trace.
\<close>

datatype 'r action = Acquire 'r | Release 'r

fun run_trace :: "'r list \<Rightarrow> 'r action list \<Rightarrow> 'r list option" where
  "run_trace held [] = Some held"
| "run_trace held (Acquire r # tr) = (if r \<in> set held then None else run_trace (r # held) tr)"
| "run_trace [] (Release r # tr) = None"
| "run_trace (h # held) (Release r # tr) = (if h = r then run_trace held tr else None)"

lemma run_trace_append:
  "run_trace held (tr @ tr') = (case run_trace held tr of None \<Rightarrow> None | Some h \<Rightarrow> run_trace h tr')"
  by (induction held tr rule: run_trace.induct) simp_all

text \<open>Loading a module repeatedly, each time under other kernel results, and unloading it when it loaded.\<close>

fun sessions :: "('e \<Rightarrow> int \<times> 'r action list) \<Rightarrow> 'r action list \<Rightarrow> 'e list \<Rightarrow> 'r action list" where
  "sessions init exit_trace [] = []"
| "sessions init exit_trace (e # es) =
     (case init e of (c, tr) \<Rightarrow> tr @ (if c = 0 then exit_trace else []) @ sessions init exit_trace es)"

text \<open>What the kernel calls return, by their documentation.\<close>

definition kernel_results :: "('r \<Rightarrow> int) \<Rightarrow> bool" where
  "kernel_results res \<longleftrightarrow> (\<forall>r. res r \<le> 0)"

text \<open>
  The contract of a module whose init function does not look at the results for \<open>ignored\<close>: loading and unloading leaves nothing
  held if these calls have succeeded, and otherwise releases something that is not held. A load that fails leaves nothing held.
\<close>

locale lax_lifecycle =
  fixes init :: "('r \<Rightarrow> int) \<Rightarrow> int \<times> 'r action list"
    and exit_trace :: "'r action list"
    and ignored :: "'r list"
  assumes load_unload_exact: "kernel_results res \<Longrightarrow> init res = (0, tr) \<Longrightarrow>
      run_trace [] (tr @ exit_trace) = (if \<forall>r \<in> set ignored. res r = 0 then Some [] else None)"
    and failed_load: "kernel_results res \<Longrightarrow> init res = (c, tr) \<Longrightarrow> c \<noteq> 0 \<Longrightarrow>
      run_trace [] tr = Some [] \<and> c < 0 \<and> c \<in> insert (- ENOMEM) (range res)"
begin

lemma sessions_exact:
  "list_all kernel_results es \<Longrightarrow>
     run_trace [] (sessions init exit_trace es) =
       (if \<forall>res \<in> set es. fst (init res) = 0 \<longrightarrow> (\<forall>r \<in> set ignored. res r = 0) then Some [] else None)"
proof (induction es)
  case (Cons e es)
  obtain c tr where e: "init e = (c, tr)" by (cases "init e")
  show ?case
  proof (cases "c = 0")
    case True
    with Cons e load_unload_exact [of e tr] show ?thesis by (simp add: run_trace_append flip: append_assoc)
  next
    case False
    with Cons e failed_load [of e c tr] show ?thesis by (simp add: run_trace_append)
  qed
qed simp

lemma load_error: "kernel_results res \<Longrightarrow> fst (init res) \<noteq> 0 \<Longrightarrow> fst (init res) < 0 \<and> fst (init res) \<in> insert (- ENOMEM) (range res)"
  using failed_load [of res "fst (init res)" "snd (init res)"] by simp

end

text \<open>The contract of a module that checks every result, with what it holds while it is loaded.\<close>

locale driver_lifecycle =
  fixes init :: "('r \<Rightarrow> int) \<Rightarrow> int \<times> 'r action list"
    and exit_trace :: "'r action list"
    and full :: "'r list"
  assumes init_succeeds: "kernel_results res \<Longrightarrow> init res = (0, tr) \<Longrightarrow> run_trace [] tr = Some full"
    and init_fails: "kernel_results res \<Longrightarrow> init res = (c, tr) \<Longrightarrow> c \<noteq> 0 \<Longrightarrow>
      run_trace [] tr = Some [] \<and> c < 0 \<and> c \<in> insert (- ENOMEM) (range res)"
    and exit_clean: "run_trace full exit_trace = Some []"
begin

lemma load_unload:
  assumes "kernel_results res" and "init res = (0, tr)"
  shows "run_trace [] (tr @ exit_trace) = Some []"
  using init_succeeds [OF assms] exit_clean by (simp add: run_trace_append)

end

sublocale driver_lifecycle \<subseteq> lax_lifecycle init exit_trace "[]"
  by unfold_locales (use load_unload init_fails in auto)

text \<open>Every result a resource can have: success or an error.\<close>

lemma kernel_resultsD: "kernel_results res \<Longrightarrow> res r \<noteq> 0 \<Longrightarrow> res r < 0"
  "kernel_results res \<Longrightarrow> \<not> res r < 0 \<Longrightarrow> res r = 0"
  by (auto simp: kernel_results_def le_less)

end
