(* ===== verification/CharDev.thy ===== *)
theory CharDev
  imports UserCopy Lifecycle
begin

text \<open>
  The character devices: KernelProgramming/Handson/lab18_chardev/chardev_old.c, chardev_new.c and
  chardev_ioctl.c, and KernelProgramming/Handson/lab19_misc_driver/misc_demo.c and misc_multi.c.

  All five keep one message in a fixed buffer with its length. Their read and write handlers have the
  same bodies, with a mutex in three of them and per-descriptor state in the last, so the bodies are
  written once (\<open>buffer_read\<close>, \<open>buffer_write\<close>, and their locked forms) and each driver's handlers are
  their instances. A handler's result is \<open>None\<close> where the code would copy outside the buffer or take
  a mutex it already holds.
\<close>

section \<open>State and handlers\<close>

record chardev =
  dbuf :: "u8 list"
  buf_len :: int
  locked :: bool

definition buffer_read ::
  "nat \<Rightarrow> int \<Rightarrow> int \<Rightarrow> 'a chardev_scheme \<Rightarrow> (int \<times> u8 list \<times> int \<times> 'a chardev_scheme) option" where
  "buffer_read room count off s =
     (if off \<ge> buf_len s then Some (0, [], off, s)
      else (let to_copy = min_t_int count (buf_len s - off) in
            case copy_to_user room (dbuf s) off to_copy of
              None \<Rightarrow> None
            | Some (ok, out) \<Rightarrow>
                if \<not> ok then Some (- EFAULT, out, off, s)
                else Some (to_copy, out, off + to_copy, s)))"

definition buffer_write ::
  "int \<Rightarrow> u8 list \<Rightarrow> int \<Rightarrow> 'a chardev_scheme \<Rightarrow> (int \<times> 'a chardev_scheme) option" where
  "buffer_write buf_size user count s =
     (let to_copy = min_t_int count (buf_size - 1) in
      case copy_from_user user to_copy (dbuf s) of
        None \<Rightarrow> None
      | Some (ok, buf) \<Rightarrow>
          if \<not> ok then Some (- EFAULT, s\<lparr>dbuf := buf\<rparr>)
          else Some (to_copy, s\<lparr>buf_len := to_copy, dbuf := buf[nat to_copy := 0]\<rparr>))"

definition mutex_lock :: "'a chardev_scheme \<Rightarrow> 'a chardev_scheme option" where
  "mutex_lock s = (if locked s then None else Some (s\<lparr>locked := True\<rparr>))"

definition mutex_unlock :: "'a chardev_scheme \<Rightarrow> 'a chardev_scheme" where
  "mutex_unlock s = s\<lparr>locked := False\<rparr>"

definition locked_read ::
  "nat \<Rightarrow> int \<Rightarrow> int \<Rightarrow> 'a chardev_scheme \<Rightarrow> (int \<times> u8 list \<times> int \<times> 'a chardev_scheme) option" where
  "locked_read room count off s =
     Option.bind (mutex_lock s) (\<lambda>s1.
       map_option (\<lambda>(r, out, off', s2). (r, out, off', mutex_unlock s2)) (buffer_read room count off s1))"

definition locked_write ::
  "int \<Rightarrow> u8 list \<Rightarrow> int \<Rightarrow> 'a chardev_scheme \<Rightarrow> (int \<times> 'a chardev_scheme) option" where
  "locked_write buf_size user count s =
     Option.bind (mutex_lock s) (\<lambda>s1.
       map_option (\<lambda>(r, s2). (r, mutex_unlock s2)) (buffer_write buf_size user count s1))"

definition OLDDEV_BUF_SIZE :: int where "OLDDEV_BUF_SIZE = 1024"
definition CHARDEV_BUF_SIZE :: int where "CHARDEV_BUF_SIZE = 4096"
definition MISC_BUF_SIZE :: int where "MISC_BUF_SIZE = 1024"

text \<open>chardev_old.c: no mutex, and a count of the opens.\<close>

record olddev = chardev +
  open_count :: int

definition olddev_init_state :: olddev where
  "olddev_init_state = \<lparr>dbuf = replicate 1024 0, buf_len = 0, locked = False, open_count = 0\<rparr>"

definition olddev_open :: "olddev \<Rightarrow> int \<times> olddev" where
  "olddev_open s = (0, s\<lparr>open_count := cast_s32 (open_count s + 1)\<rparr>)"

definition olddev_release :: "olddev \<Rightarrow> int \<times> olddev" where
  "olddev_release s = (0, s)"

definition olddev_read :: "nat \<Rightarrow> int \<Rightarrow> int \<Rightarrow> olddev \<Rightarrow> (int \<times> u8 list \<times> int \<times> olddev) option" where
  "olddev_read = buffer_read"

definition olddev_write :: "u8 list \<Rightarrow> int \<Rightarrow> olddev \<Rightarrow> (int \<times> olddev) option" where
  "olddev_write = buffer_write OLDDEV_BUF_SIZE"

text \<open>chardev_new.c and misc_demo.c: the same with a mutex.\<close>

definition newdev_init_state :: chardev where
  "newdev_init_state = \<lparr>dbuf = replicate 4096 0, buf_len = 0, locked = False\<rparr>"

definition newdev_read :: "nat \<Rightarrow> int \<Rightarrow> int \<Rightarrow> chardev \<Rightarrow> (int \<times> u8 list \<times> int \<times> chardev) option" where
  "newdev_read = locked_read"

definition newdev_write :: "u8 list \<Rightarrow> int \<Rightarrow> chardev \<Rightarrow> (int \<times> chardev) option" where
  "newdev_write = locked_write CHARDEV_BUF_SIZE"

definition mymisc_init_state :: chardev where
  "mymisc_init_state = \<lparr>dbuf = replicate 1024 0, buf_len = 0, locked = False\<rparr>"

definition mymisc_read :: "nat \<Rightarrow> int \<Rightarrow> int \<Rightarrow> chardev \<Rightarrow> (int \<times> u8 list \<times> int \<times> chardev) option" where
  "mymisc_read = locked_read"

definition mymisc_write :: "u8 list \<Rightarrow> int \<Rightarrow> chardev \<Rightarrow> (int \<times> chardev) option" where
  "mymisc_write = locked_write MISC_BUF_SIZE"

text \<open>
  misc_multi.c: every open file has its own buffer. The table maps file descriptors to the private
  data; a handler called without private data would dereference a dangling pointer.
\<close>

type_synonym multidev = "nat \<Rightarrow> chardev option"

definition multi_open :: "bool \<Rightarrow> nat \<Rightarrow> multidev \<Rightarrow> int \<times> multidev" where
  "multi_open alloc_ok fd s =
     (if \<not> alloc_ok then (- ENOMEM, s)
      else (0, s(fd \<mapsto> \<lparr>dbuf = replicate 1024 0, buf_len = 0, locked = False\<rparr>)))"

definition multi_release :: "nat \<Rightarrow> multidev \<Rightarrow> int \<times> multidev" where
  "multi_release fd s = (0, s(fd := None))"

definition multi_read ::
  "nat \<Rightarrow> nat \<Rightarrow> int \<Rightarrow> int \<Rightarrow> multidev \<Rightarrow> (int \<times> u8 list \<times> int \<times> multidev) option" where
  "multi_read fd room count off s =
     (case s fd of
        None \<Rightarrow> None
      | Some p \<Rightarrow> map_option (\<lambda>(r, out, off', p'). (r, out, off', s(fd \<mapsto> p'))) (buffer_read room count off p))"

definition multi_write :: "nat \<Rightarrow> u8 list \<Rightarrow> int \<Rightarrow> multidev \<Rightarrow> (int \<times> multidev) option" where
  "multi_write fd user count s =
     (case s fd of
        None \<Rightarrow> None
      | Some p \<Rightarrow> map_option (\<lambda>(r, p'). (r, s(fd \<mapsto> p'))) (buffer_write MISC_BUF_SIZE user count p))"

section \<open>The buffer device contract\<close>

text \<open>
  The laws a client of any of these devices relies on: a read delivers the part of the message at the
  offset and changes nothing, a write replaces the message by what fits.
\<close>

locale file_reader =
  fixes rd :: "nat \<Rightarrow> int \<Rightarrow> int \<Rightarrow> 's \<Rightarrow> (int \<times> u8 list \<times> int \<times> 's) option"
    and good :: "'s \<Rightarrow> bool"
    and content :: "'s \<Rightarrow> u8 list"
  assumes rd_law: "good s \<Longrightarrow> 0 \<le> off \<Longrightarrow> 0 \<le> count \<Longrightarrow> count < 2147483648 \<Longrightarrow> count \<le> int room \<Longrightarrow>
      rd room count off s =
        Some (int (length (take (nat count) (drop (nat off) (content s)))),
              take (nat count) (drop (nat off) (content s)),
              off + int (length (take (nat count) (drop (nat off) (content s)))), s)"

locale buffer_device = file_reader rd good content
  for rd :: "nat \<Rightarrow> int \<Rightarrow> int \<Rightarrow> 's \<Rightarrow> (int \<times> u8 list \<times> int \<times> 's) option"
    and wr :: "u8 list \<Rightarrow> int \<Rightarrow> 's \<Rightarrow> (int \<times> 's) option"
    and good :: "'s \<Rightarrow> bool"
    and content :: "'s \<Rightarrow> u8 list" +
  fixes cap :: int
  assumes wr_law: "good s \<Longrightarrow> 0 \<le> count \<Longrightarrow> count < 2147483648 \<Longrightarrow> count \<le> int (length user) \<Longrightarrow>
      \<exists>s'. wr user count s = Some (min count (cap - 1), s') \<and> good s' \<and>
           content s' = take (nat (min count (cap - 1))) user"
    and cap_pos: "0 < cap"

text \<open>A user program that reads chunks of \<open>k\<close> bytes from an offset until a read returns 0 (\<open>cat\<close>).\<close>

fun cat_from ::
  "(nat \<Rightarrow> int \<Rightarrow> int \<Rightarrow> 's \<Rightarrow> (int \<times> u8 list \<times> int \<times> 's) option) \<Rightarrow> nat \<Rightarrow> nat \<Rightarrow> int \<Rightarrow> 's \<Rightarrow> u8 list option" where
  "cat_from rd 0 k off s = None"
| "cat_from rd (Suc fuel) k off s =
     (case rd k (int k) off s of
        None \<Rightarrow> None
      | Some (r, out, off', s') \<Rightarrow>
          if r \<le> 0 then Some [] else map_option ((@) out) (cat_from rd fuel k off' s'))"

context file_reader
begin

lemma cat_content:
  assumes "good s" and "0 < k" and "int k < 2147483648"
  shows "length (drop n (content s)) < fuel \<Longrightarrow>
    cat_from rd fuel k (int n) s = Some (drop n (content s))"
proof (induction fuel arbitrary: n)
  case (Suc fuel)
  let ?chunk = "take k (drop n (content s))"
  have rd: "rd k (int k) (int n) s = Some (int (length ?chunk), ?chunk, int n + int (length ?chunk), s)"
    using rd_law [OF assms(1), of "int n" "int k" k] assms(3) by simp
  show ?case
  proof (cases "drop n (content s) = []")
    case True
    with rd show ?thesis by simp
  next
    case False
    with assms(2) have pos: "0 < length ?chunk" by simp
    have "length (drop (n + length ?chunk) (content s)) < fuel"
      using Suc.prems False assms(2) by (simp add: drop_eq_Nil)
    from Suc.IH [OF this]
    have "cat_from rd fuel k (int n + int (length ?chunk)) s = Some (drop (n + length ?chunk) (content s))"
      by (simp only: of_nat_add)
    moreover have "?chunk @ drop (n + length ?chunk) (content s) = drop n (content s)"
      using take_drop_rest [of k "drop n (content s)"] by (simp only: drop_drop add.commute)
    ultimately show ?thesis using rd pos by simp
  qed
qed simp

end

context buffer_device
begin

lemma write_cat:
  assumes "good s" and "0 \<le> count" and "count < 2147483648" and "count \<le> int (length user)"
    and "0 < k" and "int k < 2147483648" and "nat cap \<le> fuel"
  shows "\<exists>s'. wr user count s = Some (min count (cap - 1), s') \<and> good s' \<and>
    cat_from rd fuel k 0 s' = Some (take (nat (min count (cap - 1))) user)"
proof -
  obtain s' where s': "wr user count s = Some (min count (cap - 1), s')" "good s'"
    "content s' = take (nat (min count (cap - 1))) user"
    using wr_law [OF assms(1-4)] by blast
  have "length (drop 0 (content s')) < fuel"
    using s'(3) assms(7) cap_pos by (simp add: min_def) linarith
  from cat_content [OF s'(2) assms(5,6) this] s' show ?thesis by simp
qed

end

section \<open>The devices meet the contract\<close>

definition buf_ok :: "int \<Rightarrow> 'a chardev_scheme \<Rightarrow> bool" where
  "buf_ok cap s \<longleftrightarrow> int (length (dbuf s)) = cap \<and> 0 \<le> buf_len s \<and> buf_len s < cap \<and> cap \<le> 4096"

definition dev_ok :: "int \<Rightarrow> 'a chardev_scheme \<Rightarrow> bool" where
  "dev_ok cap s \<longleftrightarrow> buf_ok cap s \<and> \<not> locked s"

definition message :: "'a chardev_scheme \<Rightarrow> u8 list" where
  "message s = take (nat (buf_len s)) (dbuf s)"

lemma buffer_read_ok:
  assumes "buf_ok cap s" and "0 \<le> off" and "0 \<le> count" and "count < 2147483648" and "count \<le> int room"
  shows "buffer_read room count off s =
    Some (int (length (take (nat count) (drop (nat off) (message s)))),
          take (nat count) (drop (nat off) (message s)),
          off + int (length (take (nat count) (drop (nat off) (message s)))), s)"
proof (cases "off \<ge> buf_len s")
  case True
  then have "nat (buf_len s) \<le> nat off" by (rule nat_mono)
  then have "drop (nat off) (message s) = []" by (simp add: message_def)
  with True show ?thesis by (simp add: buffer_read_def)
next
  case False
  let ?n = "min count (buf_len s - off)"
  have n: "0 \<le> ?n" "?n \<le> int room" "off + ?n \<le> int (length (dbuf s))"
    using assms False unfolding buf_ok_def by linarith+
  have m: "min_t_int count (buf_len s - off) = ?n"
    using assms False by (intro min_t_int_ok) (simp_all add: buf_ok_def)
  have chunk: "take (nat ?n) (drop (nat off) (dbuf s)) = take (nat count) (drop (nat off) (message s))"
    using assms(2,3) False by (simp add: message_def drop_take nat_diff_distrib min_def nat_mono)
  moreover have "length (take (nat ?n) (drop (nat off) (dbuf s))) = nat ?n"
    using n(1,3) assms(2) by (simp add: nat_le_iff)
  ultimately have "int (length (take (nat count) (drop (nat off) (message s)))) = ?n"
    using n(1) by simp
  moreover have "buffer_read room count off s =
      Some (?n, take (nat count) (drop (nat off) (message s)), off + ?n, s)"
    using False by (simp only: buffer_read_def m Let_def copy_to_user_ok [OF assms(2) n(1,3,2)]
        chunk option.case prod.case if_False simp_thms)
  ultimately show ?thesis by simp
qed

lemma buffer_write_ok:
  assumes "buf_ok cap s" and "0 \<le> count" and "count < 2147483648" and "count \<le> int (length user)"
  shows "\<exists>s'. buffer_write cap user count s = Some (min count (cap - 1), s') \<and> buf_ok cap s' \<and>
    locked s' = locked s \<and> message s' = take (nat (min count (cap - 1))) user \<and>
    dbuf s' ! nat (buf_len s') = 0"
proof -
  let ?n = "min count (cap - 1)"
  let ?buf = "take (nat ?n) user @ drop (nat ?n) (dbuf s)"
  have m: "min_t_int count (cap - 1) = ?n"
    using assms by (intro min_t_int_ok) (auto simp: buf_ok_def)
  have n: "0 \<le> ?n" "?n \<le> int (length user)" "?n < int (length (dbuf s))"
    using assms by (auto simp: buf_ok_def)
  then have u: "length (take (nat ?n) user) = nat ?n" by simp
  have len: "length ?buf = length (dbuf s)" using n u by simp
  let ?s' = "s\<lparr>buf_len := ?n, dbuf := ?buf[nat ?n := 0]\<rparr>"
  have "buffer_write cap user count s = Some (?n, ?s')"
    using copy_from_user_ok [of ?n "dbuf s" user] n by (simp add: buffer_write_def m Let_def)
  moreover have "buf_ok cap ?s'"
    using assms(1) n len by (simp add: buf_ok_def)
  moreover have "message ?s' = take (nat ?n) user"
    using u by (simp add: message_def)
  moreover have "dbuf ?s' ! nat (buf_len ?s') = 0"
    using n len by (simp add: nat_less_iff)
  ultimately show ?thesis by (intro exI [of _ ?s']) simp
qed

lemma locked_read_ok:
  assumes "dev_ok cap s" and "0 \<le> off" and "0 \<le> count" and "count < 2147483648" and "count \<le> int room"
  shows "locked_read room count off s =
    Some (int (length (take (nat count) (drop (nat off) (message s)))),
          take (nat count) (drop (nat off) (message s)),
          off + int (length (take (nat count) (drop (nat off) (message s)))), s)"
proof -
  have "buf_ok cap (s\<lparr>locked := True\<rparr>)" "message (s\<lparr>locked := True\<rparr>) = message s"
    using assms(1) by (simp_all add: dev_ok_def buf_ok_def message_def)
  with buffer_read_ok [OF _ assms(2-5), of cap "s\<lparr>locked := True\<rparr>"] assms(1) show ?thesis
    by (simp add: locked_read_def mutex_lock_def mutex_unlock_def dev_ok_def)
qed

lemma locked_write_ok:
  assumes "dev_ok cap s" and "0 \<le> count" and "count < 2147483648" and "count \<le> int (length user)"
  shows "\<exists>s'. locked_write cap user count s = Some (min count (cap - 1), s') \<and> dev_ok cap s' \<and>
    message s' = take (nat (min count (cap - 1))) user"
proof -
  have "buf_ok cap (s\<lparr>locked := True\<rparr>)" using assms(1) by (simp add: dev_ok_def buf_ok_def)
  from buffer_write_ok [OF this assms(2-4)] assms(1) show ?thesis
    by (auto simp: locked_write_def mutex_lock_def mutex_unlock_def dev_ok_def buf_ok_def message_def)
qed

lemma buffer_device_locked:
  "0 < cap \<Longrightarrow> buffer_device locked_read (locked_write cap) (dev_ok cap) message cap"
  by unfold_locales (use locked_read_ok in blast, use locked_write_ok in blast, blast)

lemma buffer_device_plain:
  "0 < cap \<Longrightarrow> buffer_device buffer_read (buffer_write cap) (buf_ok cap) message cap"
  by unfold_locales (use buffer_read_ok in blast, use buffer_write_ok in blast, blast)

interpretation olddev: buffer_device olddev_read olddev_write "buf_ok OLDDEV_BUF_SIZE" message OLDDEV_BUF_SIZE
  unfolding olddev_read_def olddev_write_def
  by (rule buffer_device_plain) (simp add: OLDDEV_BUF_SIZE_def)

interpretation newdev: buffer_device newdev_read newdev_write "dev_ok CHARDEV_BUF_SIZE" message CHARDEV_BUF_SIZE
  unfolding newdev_read_def newdev_write_def
  by (rule buffer_device_locked) (simp add: CHARDEV_BUF_SIZE_def)

interpretation mymisc: buffer_device mymisc_read mymisc_write "dev_ok MISC_BUF_SIZE" message MISC_BUF_SIZE
  unfolding mymisc_read_def mymisc_write_def
  by (rule buffer_device_locked) (simp add: MISC_BUF_SIZE_def)

text \<open>Each open descriptor of the per-file driver is such a device by itself.\<close>

definition multi_ok :: "nat \<Rightarrow> multidev \<Rightarrow> bool" where
  "multi_ok fd s \<longleftrightarrow> (case s fd of None \<Rightarrow> False | Some p \<Rightarrow> buf_ok MISC_BUF_SIZE p)"

definition multi_message :: "nat \<Rightarrow> multidev \<Rightarrow> u8 list" where
  "multi_message fd s = (case s fd of None \<Rightarrow> [] | Some p \<Rightarrow> message p)"

interpretation multi: buffer_device "multi_read fd" "multi_write fd" "multi_ok fd" "multi_message fd" MISC_BUF_SIZE
  for fd :: nat
proof
  fix s :: multidev and off count :: int and room :: nat
  assume "multi_ok fd s" "0 \<le> off" "0 \<le> count" "count < 2147483648" "count \<le> int room"
  then show "multi_read fd room count off s =
        Some (int (length (take (nat count) (drop (nat off) (multi_message fd s)))),
              take (nat count) (drop (nat off) (multi_message fd s)),
              off + int (length (take (nat count) (drop (nat off) (multi_message fd s)))), s)"
    using buffer_read_ok [of MISC_BUF_SIZE "the (s fd)" off count room]
    by (auto simp: multi_ok_def multi_read_def multi_message_def map_upd_triv split: option.splits)
next
  fix s :: multidev and count :: int and user :: "u8 list"
  assume a: "multi_ok fd s" "0 \<le> count" "count < 2147483648" "count \<le> int (length user)"
  then obtain p where p: "s fd = Some p" "buf_ok MISC_BUF_SIZE p"
    by (auto simp: multi_ok_def split: option.splits)
  from buffer_write_ok [OF p(2) a(2-4)] p(1)
  show "\<exists>s'. multi_write fd user count s = Some (min count (MISC_BUF_SIZE - 1), s') \<and> multi_ok fd s' \<and>
      multi_message fd s' = take (nat (min count (MISC_BUF_SIZE - 1))) user"
    by (auto simp: multi_write_def multi_ok_def multi_message_def)
qed (simp add: MISC_BUF_SIZE_def)

text \<open>
  C10. What is written to /dev/newchardev in one call is what \<open>cat\<close> then reads from it, whatever the
  chunk size of the reads: the write accepts at most 4095 bytes and reports how many, the mutex is
  free again, and the reads return exactly those bytes and then end of file.
\<close>

theorem newdev_write_cat:
  assumes "dev_ok CHARDEV_BUF_SIZE s" and "0 \<le> count" and "count < 2147483648" and "count \<le> int (length user)"
    and "0 < k" and "int k < 2147483648" and "4096 \<le> fuel"
  shows "\<exists>s'. newdev_write user count s = Some (min count 4095, s') \<and> \<not> locked s' \<and>
    cat_from newdev_read fuel k 0 s' = Some (take (nat (min count 4095)) user)"
  using newdev.write_cat [OF assms(1-6), of fuel] assms(7)
  by (auto simp: CHARDEV_BUF_SIZE_def dev_ok_def)

theorem newdev_write_cat_witness:
  "\<exists>s'. newdev_write [104, 105, 10] 3 newdev_init_state = Some (3, s') \<and>
     cat_from newdev_read 4096 2 0 s' = Some [104, 105, 10]"
proof -
  have "dev_ok CHARDEV_BUF_SIZE newdev_init_state"
    by (simp add: dev_ok_def buf_ok_def CHARDEV_BUF_SIZE_def newdev_init_state_def)
  from newdev_write_cat [OF this, of 3 "[104, 105, 10]" 2 4096] show ?thesis by auto
qed

lemma multi_write_other: "multi_write fd user count s = Some (r, s') \<Longrightarrow> fd' \<noteq> fd \<Longrightarrow> s' fd' = s fd'"
  by (auto simp: multi_write_def split: option.splits)

lemma multi_read_table: "s fd = t fd \<Longrightarrow> map_option (\<lambda>(r, out, off', _). (r, out, off')) (multi_read fd room count off s) =
    map_option (\<lambda>(r, out, off', _). (r, out, off')) (multi_read fd room count off t)"
  by (auto simp: multi_read_def option.map_comp o_def split_def split: option.split)

text \<open>
  The per-descriptor buffers of misc_multi are isolated: a write on one descriptor stores what was
  written for that descriptor, and what any read on another descriptor returns is unchanged.
\<close>

theorem multi_isolated:
  assumes "multi_ok fd s" and "0 \<le> count" and "count < 1024" and "count \<le> int (length user)"
  shows "\<exists>s'. multi_write fd user count s = Some (count, s') \<and>
    cat_from (multi_read fd) 1024 64 0 s' = Some (take (nat count) user) \<and>
    (\<forall>fd' room n off. fd' \<noteq> fd \<longrightarrow>
       map_option (\<lambda>(r, out, off', _). (r, out, off')) (multi_read fd' room n off s') =
       map_option (\<lambda>(r, out, off', _). (r, out, off')) (multi_read fd' room n off s))"
proof -
  have c: "min count (MISC_BUF_SIZE - 1) = count" "count < 2147483648" "nat MISC_BUF_SIZE \<le> 1024"
    using assms(3) by (simp_all add: MISC_BUF_SIZE_def)
  from multi.write_cat [OF assms(1,2) c(2) assms(4), of 64 1024] c(1,3)
  obtain s' where s': "multi_write fd user count s = Some (count, s')"
    "cat_from (multi_read fd) 1024 64 0 s' = Some (take (nat count) user)" by auto
  have "map_option (\<lambda>(r, out, off', _). (r, out, off')) (multi_read fd' room n off s') =
       map_option (\<lambda>(r, out, off', _). (r, out, off')) (multi_read fd' room n off s)" if "fd' \<noteq> fd" for fd' room n off
    by (rule multi_read_table [where s = s' and t = s]) (rule multi_write_other [OF s'(1) that])
  with s' show ?thesis by blast
qed

theorem multi_isolated_witness:
  "\<exists>s'. multi_write 3 [1, 2] 2 (snd (multi_open True 4 (snd (multi_open True 3 (\<lambda>_. None))))) = Some (2, s') \<and>
     cat_from (multi_read 3) 1024 64 0 s' = Some [1, 2]"
proof -
  have "multi_ok 3 (snd (multi_open True 4 (snd (multi_open True 3 (\<lambda>_. None)))))"
    by (simp add: multi_ok_def multi_open_def buf_ok_def MISC_BUF_SIZE_def)
  from multi_isolated [OF this, of 2 "[1, 2]"] show ?thesis by auto
qed

text \<open>
  A write that faults is not without effect: it returns \<open>-EFAULT\<close> and frees the mutex, but the
  bytes that could be read, padded with zeros, have replaced the front of the stored message, whose
  length is kept. A reader then gets a message that nobody wrote.
\<close>

theorem newdev_fault_corrupts:
  assumes "dev_ok CHARDEV_BUF_SIZE s" and "0 \<le> count" and "count < 4096" and "int (length user) < count"
    and "buf_len s \<le> count"
  shows "\<exists>s'. newdev_write user count s = Some (- EFAULT, s') \<and> \<not> locked s' \<and> buf_len s' = buf_len s \<and>
    message s' = take (nat (buf_len s)) (user @ replicate (nat count - length user) 0)"
proof -
  have m: "min_t_int count (CHARDEV_BUF_SIZE - 1) = count"
    using assms(2,3) by (simp add: min_t_int_def CHARDEV_BUF_SIZE_def)
  let ?buf = "user @ replicate (nat count - length user) 0 @ drop (nat count) (dbuf s)"
  have u: "length user \<le> nat count" "nat (buf_len s) \<le> nat count" using assms(2,4,5) by simp_all
  have copy: "copy_from_user user count (dbuf s) = Some (False, ?buf)"
    using assms by (simp add: copy_from_user_def dev_ok_def buf_ok_def CHARDEV_BUF_SIZE_def nat_le_iff)
  have "newdev_write user count s = Some (- EFAULT, s\<lparr>dbuf := ?buf\<rparr>)"
    using assms(1) copy by (simp add: newdev_write_def locked_write_def mutex_lock_def buffer_write_def m
        mutex_unlock_def dev_ok_def Let_def)
  moreover have "message (s\<lparr>dbuf := ?buf\<rparr>) =
      take (nat (buf_len s)) (user @ replicate (nat count - length user) 0)"
    using u take_prefix_append [of "nat (buf_len s)" "user @ replicate (nat count - length user) 0"]
    by (simp add: message_def)
  ultimately show ?thesis using assms(1) by (simp add: dev_ok_def)
qed

theorem newdev_fault_corrupts_witness:
  "\<exists>s'. newdev_write [1] 3 (newdev_init_state\<lparr>dbuf := [7, 7, 7] @ replicate 4093 0, buf_len := 3\<rparr>) =
      Some (- EFAULT, s') \<and> message s' = [1, 0, 0]"
proof -
  let ?s = "newdev_init_state\<lparr>dbuf := [7, 7, 7] @ replicate 4093 0, buf_len := 3\<rparr>"
  have "dev_ok CHARDEV_BUF_SIZE ?s"
    by (simp add: dev_ok_def buf_ok_def CHARDEV_BUF_SIZE_def newdev_init_state_def)
  from newdev_fault_corrupts [OF this, of 3 "[1]"] show ?thesis
    by (auto simp: newdev_init_state_def numeral_3_eq_3)
qed

end
