(* ===== verification/CompilerLabs.thy ===== *)
theory CompilerLabs
  imports Bytes
begin

text \<open>
  Small programs that are there to be compiled and taken apart: main_caller.c with asm_add.s and pipeline_demo.c of SystemProgramming/Handson/lab01_gcc_compilation, and
  elf_artifact.c of lab02_binutils_elf. \<open>None\<close> is signed overflow or another undefined operation; floating-point numbers, dates and file names are texts that are given.
\<close>

unbundle bit_operations_syntax

section \<open>main\_caller\<close>

text \<open>The assembly routine adds in a register of 32 bits.\<close>

definition asm_add :: "int \<Rightarrow> int \<Rightarrow> int" where
  "asm_add a b = (let eax = (word_of_int a :: 32 word); eax = eax + word_of_int b in sint eax)"

text \<open>The marks that the program prints in front of its verdict.\<close>

definition TICK_MARK :: string where "TICK_MARK = [CHR 0xE2, CHR 0x9C, CHR 0x93]"
definition CROSS_MARK :: string where "CROSS_MARK = [CHR 0xE2, CHR 0x9C, CHR 0x97]"

definition verify_line :: "int \<Rightarrow> int \<Rightarrow> string" where
  "verify_line result expected = (if result = expected then TICK_MARK @ '' Result is CORRECT!'' @ NL
     else CROSS_MARK @ '' Result is WRONG! Expected '' @ fmt_d expected @ '', got '' @ fmt_d result @ NL)"

definition test_cases :: "(int \<times> int) list" where
  "test_cases = [(1, 2), (100, 200), (- 5, 10), (0, 0), (- 30, - 12)]"

definition test_line :: "(int \<Rightarrow> int \<Rightarrow> int) \<Rightarrow> int \<times> int \<Rightarrow> string" where
  "test_line add ab = ''  asm_add('' @ pad_left 4 (fmt_d (fst ab)) @ '', '' @ pad_left 4 (fmt_d (snd ab)) @ '') = '' @ pad_left 4 (fmt_d (add (fst ab) (snd ab))) @
     ''  ['' @ (if add (fst ab) (snd ab) = fst ab + snd ab then ''PASS'' else ''FAIL'') @ '']'' @ NL"

definition tests_passed :: "(int \<Rightarrow> int \<Rightarrow> int) \<Rightarrow> nat" where
  "tests_passed add = length (filter (\<lambda>(a, b). add a b = a + b) test_cases)"

definition main_caller :: "(int \<Rightarrow> int \<Rightarrow> int) \<Rightarrow> string list" where
  "main_caller add =
     [''=== C '' @ [CHR 0xE2, CHR 0x86, CHR 0x94] @ '' Assembly Interoperability Demo ==='' @ NL @ NL, ''asm_add('' @ fmt_d 25 @ '', '' @ fmt_d 17 @ '') = '' @ fmt_d (add 25 17) @ NL, verify_line (add 25 17) (25 + 17), NL @ ''--- Batch Test ---'' @ NL] @
     map (test_line add) test_cases @
     [NL @ ''Results: '' @ fmt_d (int (tests_passed add)) @ ''/'' @ fmt_d (int (length test_cases)) @ '' tests passed'' @ NL, ''=== Demo Complete ==='' @ NL]"

lemma asm_add_correct: "arith32 (a + b) = Some c \<Longrightarrow> asm_add a b = c"
proof -
  assume c: "arith32 (a + b) = Some c"
  then have r: "- 2147483648 \<le> a + b" "a + b < 2147483648" "c = a + b" by (auto simp: arith32_def fits_s32_def split: if_splits)
  have "(word_of_int a :: 32 word) + word_of_int b = word_of_int (a + b)" by simp
  moreover have "sint (word_of_int (a + b) :: 32 word) = a + b"
    using r(1,2) unfolding sint_sbintrunc' by (simp add: signed_take_bit_int_eq_self)
  ultimately show ?thesis using r(3) unfolding asm_add_def Let_def by metis
qed

lemma asm_add_wraps: "asm_add 2147483647 1 = - 2147483648"
  by (simp add: asm_add_def)

lemma all_tests_pass: "tests_passed asm_add = length test_cases" and verified: "verify_line (asm_add 25 17) (25 + 17) = TICK_MARK @ '' Result is CORRECT!'' @ NL"
  by (simp_all add: tests_passed_def test_cases_def verify_line_def asm_add_def)

section \<open>pipeline\_demo\<close>

definition add_numbers :: "int \<Rightarrow> int \<Rightarrow> int option" where "add_numbers a b = arith32 (a + b)"

definition MAX_ITEMS :: nat where "MAX_ITEMS = 10"

definition demonstrate_stack :: "string option" where
  "demonstrate_stack = (let local_array = map (\<lambda>i. int i * int i) [0..<MAX_ITEMS]
     in map_option (\<lambda>v. ''Stack demo: array[5] = '' @ fmt_d (hd v) @ NL) (get_bytes 5 1 local_array))"

definition pipeline_demo :: "string list \<Rightarrow> bool \<Rightarrow> string \<Rightarrow> string \<Rightarrow> string list option" where
  "pipeline_demo build_info debug log_line hypotenuse =
     Option.bind (add_numbers 10 32) (\<lambda>s. Option.bind demonstrate_stack (\<lambda>st.
       Some ([''=== Pipeline Demo v1.0.0 ==='' @ NL] @ build_info @ (if debug then [log_line] else []) @
             [''Sum: '' @ fmt_d s @ NL, ''Hypotenuse: '' @ hypotenuse @ NL, ''Function: alpha'' @ NL, ''Function: beta'' @ NL, st, ''Initialized global: '' @ fmt_d 42 @ NL,
              ''Uninitialized global: '' @ fmt_d 0 @ NL, ''Greeting: Hello from the pipeline!'' @ NL, ''=== Pipeline Demo Complete ==='' @ NL])))"

lemma small_texts: "fmt_d 25 = ''25''" "fmt_d 42 = ''42''"
  by (simp_all add: fmt_d_def dec.simps digit_def)

lemma demonstrate_stack_runs: "demonstrate_stack = Some (''Stack demo: array[5] = 25'' @ NL)"
proof -
  have "[0..<10] = [0, 1, 2, 3, 4, 5, 6, 7, 8, 9]" by (simp add: upt_rec)
  then show ?thesis by (simp add: demonstrate_stack_def MAX_ITEMS_def get_bytes_def small_texts)
qed

lemma pipeline_demo_runs: "\<exists>out. pipeline_demo info debug l h = Some out \<and> ''Sum: 42'' @ NL \<in> set out"
  by (simp add: pipeline_demo_def add_numbers_def demonstrate_stack_runs small_texts arith32_ok)

section \<open>elf\_artifact\<close>

text \<open>A character of the message is a signed byte; a left shift of a negative number, or one whose result does not fit, is undefined.\<close>

definition c_shl :: "int \<Rightarrow> nat \<Rightarrow> int option" where
  "c_shl x k = (if x < 0 then None else arith32 (x * 2 ^ k))"

fun checksum_loop :: "int \<Rightarrow> int list \<Rightarrow> int \<Rightarrow> int option" where
  "checksum_loop i [] checksum = Some checksum"
| "checksum_loop i (c # cs) checksum =
     (let x = xor checksum c
      in Option.bind (c_shl x 3) (\<lambda>l. Option.bind (arith32 (or l (x div 2 ^ 29) + cast_s32 i)) (checksum_loop (i + 1) cs)))"

definition signed_char :: "char \<Rightarrow> int" where
  "signed_char c = (let n = of_char c :: int in if n < 128 then n else n - 256)"

definition artifact_checksum :: "string \<Rightarrow> int option" where
  "artifact_checksum data = checksum_loop 0 (map signed_char data) 0"

definition GLOBAL_MESSAGE :: string where "GLOBAL_MESSAGE = ''Visible in .data section''"

definition helper_function :: "int \<Rightarrow> int option" where
  "helper_function x = Option.bind (arith32 (x * x)) (\<lambda>a. Option.bind (arith32 (2 * x)) (\<lambda>b. Option.bind (arith32 (a + b)) (\<lambda>c. arith32 (c + 1))))"

definition xor42 :: "char \<Rightarrow> char" where "xor42 c = char_of (xor (of_char c :: nat) 0x42)"

text \<open>The buffer: the encoded characters and the terminating NUL.\<close>

definition create_encoded_message :: "bool \<Rightarrow> string \<Rightarrow> string option" where
  "create_encoded_message malloc_ok input = (if malloc_ok then Some (map xor42 input @ [NUL]) else None)"

definition decode_back :: "nat \<Rightarrow> string \<Rightarrow> string" where
  "decode_back n enc = map xor42 (take n enc) @ drop n enc"

definition stack_layout_lines :: "string \<Rightarrow> string list" where
  "stack_layout_lines local_double =
     (let local_int = 42; local_array = map (\<lambda>i. int i * local_int) [0..<10]
      in [take 63 (''Stack local: int='' @ fmt_d local_int @ '', double='' @ local_double) @ NL, ''Array sum: '' @ fmt_d (local_array ! 9) @ NL])"

lemma xor_42_bytes:
  assumes "n < (256 :: nat)"
  shows "xor n 0x42 < 256" and "xor (xor n 0x42) 0x42 = n"
proof -
  have "take_bit 8 (xor n 0x42) = xor n 0x42"
    using assms by (simp add: take_bit_xor take_bit_nat_eq_self)
  then show "xor n 0x42 < 256" using take_bit_nat_less_exp [of 8 "xor n 0x42"] by simp
  show "xor (xor n 0x42) 0x42 = n" by (simp add: xor.assoc)
qed

text \<open>Decoding gives the message back, also where a character is encoded as NUL.\<close>

lemma xor42_twice: "xor42 (xor42 c) = c"
proof -
  have c: "of_char c < (256 :: nat)" using nat_of_char_less_256 by simp
  then have "xor (of_char c :: nat) 0x42 < 256" and "xor (xor (of_char c :: nat) 0x42) 0x42 = of_char c" by (rule xor_42_bytes)+
  then show ?thesis by (simp add: xor42_def)
qed

lemma encode_decode: "create_encoded_message True input = Some enc \<Longrightarrow> c_string (decode_back (length input) enc) = (if NUL \<in> set input then c_string input else Some input)"
  by (auto simp: create_encoded_message_def decode_back_def comp_def xor42_twice c_string_def takeWhile_append split: if_splits)

lemma encoded_NUL: "create_encoded_message True ''AB'' = Some [CHR 0x03, NUL, NUL]"
  by code_simp

text \<open>In range the helper is a square.\<close>

lemma helper_square: "0 \<le> x \<Longrightarrow> x \<le> 46339 \<Longrightarrow> helper_function x = Some ((x + 1) ^ 2)"
proof -
  assume x: "0 \<le> x" "x \<le> 46339"
  then have "x * x \<le> 46339 * 46339" by (intro mult_mono) simp_all
  then obtain y where y: "x * x = y" "0 \<le> y" "y \<le> 2147302921" using x by simp
  then have "(x + 1) ^ 2 = y + 2 * x + 1" by (simp add: power2_eq_square algebra_simps)
  then show ?thesis using x y by (simp add: helper_function_def arith32_ok)
qed

text \<open>The checksum of the message is undefined in its ninth round: the shifted value does not fit.\<close>

lemma checksum_overflows: "artifact_checksum GLOBAL_MESSAGE = None"
  by code_simp

text \<open>What is called the sum of the array is its last element.\<close>

lemma not_the_sum: "stack_layout_lines d ! 1 = ''Array sum: 378'' @ NL" "sum_list (map (\<lambda>i. int i * 42) [0..<10]) = 1890"
proof -
  have "fmt_d 378 = ''378''" by (simp add: fmt_d_def dec.simps digit_def)
  then show "stack_layout_lines d ! 1 = ''Array sum: 378'' @ NL" by (simp add: stack_layout_lines_def Let_def)
qed code_simp

text \<open>\<open>main\<close>; the pointer to the message is not tested beyond what \<open>if\<close> does.\<close>

definition elf_artifact :: "string \<Rightarrow> string \<Rightarrow> string \<Rightarrow> bool \<Rightarrow> string list option" where
  "elf_artifact pi_text dist_text double_text malloc_ok =
     Option.bind (artifact_checksum GLOBAL_MESSAGE) (\<lambda>chk. Option.bind (helper_function 5) (\<lambda>h.
       Some ([''=== ELF Artifact Program ==='' @ NL, ''Author: Binary Archaeologist Training Program v2.0'' @ NL, ''Magic: 0x'' @ fmt_X 0xCAFEBABE @ NL, ''Counter: '' @ fmt_d (100 + 1) @ NL,
              ''Pi: '' @ pi_text @ NL, ''Message: '' @ GLOBAL_MESSAGE @ NL, ''Checksum: 0x'' @ pad_zero 8 (fmt_X (cast_u32 chk)) @ NL, ''Helper(5): '' @ fmt_d h @ NL, ''Distance: '' @ dist_text @ NL] @
             (case create_encoded_message malloc_ok ''Hello ELF World!'' of None \<Rightarrow> []
              | Some enc \<Rightarrow> [''Encoded message created (XOR 0x42)'' @ NL, ''Decoded: '' @ takeWhile (\<lambda>c. c \<noteq> NUL) (decode_back 16 enc) @ NL]) @
             stack_layout_lines double_text @ [''BSS buffer: '' @ replicate 64 CHR ''A'' @ NL, ''Uninitialized[0]: 0'' @ NL, NL @ ''FLAG{y0u_f0und_the_h1dd3n_str1ng}'' @ NL,
              ''=== Artifact Program Complete ==='' @ NL])))"

lemma elf_artifact_undefined: "elf_artifact p d t m = None"
  by (simp add: elf_artifact_def checksum_overflows)

end
