(* ===== verification/MiniProto.thy ===== *)
theory MiniProto
  imports Bytes
begin

text \<open>
  The mini-protocol of NetworkProgramming/Handson/project_mini_protocol: the message header of
  protocol.h, a connected stream socket, and the \<open>read_all\<close>/\<open>write_all\<close>/\<open>send_message\<close> helpers that
  server and client share.

  A header is a record of the host-order values; \<open>hdr_bytes\<close> is its packed memory image after the
  \<open>htonl\<close>/\<open>htons\<close> of \<open>proto_fill_header\<close>, \<open>hdr_of_bytes\<close> the reverse. What the network does to a
  socket is explicit in the connection: the pieces in which input arrives (a read error is a piece
  too) and the results that the next calls of \<open>write\<close> give.
\<close>

section \<open>Header\<close>

definition PROTO_MAGIC :: int where "PROTO_MAGIC = 0x4D494E49"
definition PROTO_VERSION :: u8 where "PROTO_VERSION = 1"
definition MSG_HELLO :: u8 where "MSG_HELLO = 0x01"
definition MSG_DATA :: u8 where "MSG_DATA = 0x02"
definition MSG_STATUS :: u8 where "MSG_STATUS = 0x03"
definition MSG_BYE :: u8 where "MSG_BYE = 0x04"
definition MSG_ACK :: u8 where "MSG_ACK = 0x80"
definition MSG_ERROR :: u8 where "MSG_ERROR = 0xFF"
definition MAX_PAYLOAD :: nat where "MAX_PAYLOAD = 4096"

record proto_header =
  h_magic :: int
  h_version :: u8
  h_msg_type :: u8
  h_seq :: int
  h_payload_len :: int

definition HDR_SIZE :: nat where "HDR_SIZE = 12"

definition hdr_bytes :: "proto_header \<Rightarrow> u8 list" where
  "hdr_bytes h = enc_be32 (h_magic h) @ [h_version h, h_msg_type h] @ enc_be16 (h_seq h) @
     enc_be32 (h_payload_len h)"

definition hdr_of_bytes :: "u8 list \<Rightarrow> proto_header" where
  "hdr_of_bytes bs = \<lparr>h_magic = be32 bs 0, h_version = bs ! 4, h_msg_type = bs ! 5,
     h_seq = be16 bs 6, h_payload_len = be32 bs 8\<rparr>"

definition proto_fill_header :: "u8 \<Rightarrow> int \<Rightarrow> int \<Rightarrow> proto_header" where
  "proto_fill_header type seq payload_len =
     \<lparr>h_magic = PROTO_MAGIC, h_version = PROTO_VERSION, h_msg_type = type, h_seq = seq,
      h_payload_len = payload_len\<rparr>"

lemma fill_header_fields [simp]:
  "h_magic (proto_fill_header t q n) = PROTO_MAGIC" "h_version (proto_fill_header t q n) = PROTO_VERSION"
  "h_msg_type (proto_fill_header t q n) = t" "h_seq (proto_fill_header t q n) = q"
  "h_payload_len (proto_fill_header t q n) = n"
  by (simp_all add: proto_fill_header_def)

definition proto_validate_header :: "proto_header \<Rightarrow> int" where
  "proto_validate_header h =
     (if h_magic h \<noteq> PROTO_MAGIC then -1
      else if h_version h \<noteq> PROTO_VERSION then -2
      else if h_payload_len h > int MAX_PAYLOAD then -3
      else 0)"

definition proto_type_str :: "u8 \<Rightarrow> string" where
  "proto_type_str t =
     (if t = MSG_HELLO then ''HELLO''
      else if t = MSG_DATA then ''DATA''
      else if t = MSG_STATUS then ''STATUS''
      else if t = MSG_BYE then ''BYE''
      else if t = MSG_ACK then ''ACK''
      else if t = MSG_ERROR then ''ERROR''
      else ''UNKNOWN'')"

lemmas msg_type_defs = MSG_HELLO_def MSG_DATA_def MSG_STATUS_def MSG_BYE_def MSG_ACK_def MSG_ERROR_def

lemma length_hdr_bytes [simp]: "length (hdr_bytes h) = HDR_SIZE"
  by (simp add: hdr_bytes_def HDR_SIZE_def)

lemma hdr_of_bytes_bytes:
  assumes "0 \<le> h_magic h" "h_magic h < 4294967296" "0 \<le> h_seq h" "h_seq h < 65536"
    and "0 \<le> h_payload_len h" "h_payload_len h < 4294967296"
  shows "hdr_of_bytes (hdr_bytes h) = h"
proof -
  let ?m = "enc_be32 (h_magic h)"
  let ?rest = "enc_be16 (h_seq h) @ enc_be32 (h_payload_len h)"
  have "be32 (hdr_bytes h) 0 = h_magic h"
    using be32_enc [of "[]" "h_magic h" "[h_version h, h_msg_type h] @ ?rest"] assms
    by (simp add: hdr_bytes_def)
  moreover have "be16 (hdr_bytes h) 6 = h_seq h"
    using be16_enc [of "?m @ [h_version h, h_msg_type h]" "h_seq h" "enc_be32 (h_payload_len h)"] assms
    by (simp add: hdr_bytes_def)
  moreover have "be32 (hdr_bytes h) 8 = h_payload_len h"
    using be32_enc [of "?m @ [h_version h, h_msg_type h] @ enc_be16 (h_seq h)" "h_payload_len h" "[]"] assms
    by (simp add: hdr_bytes_def)
  moreover have "hdr_bytes h ! 4 = h_version h" "hdr_bytes h ! 5 = h_msg_type h"
    by (simp_all add: hdr_bytes_def nth_append)
  ultimately show ?thesis by (simp add: hdr_of_bytes_def)
qed

section \<open>Sockets\<close>

datatype net_event = Arrive "u8 list" | ReadErr

record conn =
  c_in :: "net_event list"
  c_out :: "u8 list"
  c_wr :: "int list"

text \<open>
  One \<open>read\<close> of at most \<open>n\<close> bytes: the return value, the bytes, the connection after. Input at an end,
  or an empty piece, is end of file. One \<open>write\<close>: the planned result, at most the length; without a
  plan everything is accepted.
\<close>

definition sock_read :: "nat \<Rightarrow> conn \<Rightarrow> int \<times> u8 list \<times> conn" where
  "sock_read n c =
     (case c_in c of
        [] \<Rightarrow> (0, [], c)
      | ReadErr # es \<Rightarrow> (-1, [], c\<lparr>c_in := es\<rparr>)
      | Arrive bs # es \<Rightarrow>
          if length bs \<le> n then (int (length bs), bs, c\<lparr>c_in := es\<rparr>)
          else (int n, take n bs, c\<lparr>c_in := Arrive (drop n bs) # es\<rparr>))"

definition sock_write :: "u8 list \<Rightarrow> conn \<Rightarrow> int \<times> conn" where
  "sock_write bs c =
     (case c_wr c of
        [] \<Rightarrow> (int (length bs), c\<lparr>c_out := c_out c @ bs\<rparr>)
      | w # ws \<Rightarrow>
          (let k = min w (int (length bs))
           in (k, c\<lparr>c_out := c_out c @ take (nat k) bs, c_wr := ws\<rparr>)))"

function read_all_from :: "nat \<Rightarrow> u8 list \<Rightarrow> conn \<Rightarrow> int \<times> u8 list \<times> conn" where
  "read_all_from n got c =
     (if n = 0 then (int (length got), got, c)
      else (case sock_read n c of
              (r, bs, c') \<Rightarrow>
                if r \<le> 0 then (r, got, c') else read_all_from (n - nat r) (got @ bs) c'))"
  by pat_completeness auto
termination by (relation "measure (\<lambda>(n, _, _). n)") auto

declare read_all_from.simps [simp del]

definition read_all :: "nat \<Rightarrow> conn \<Rightarrow> int \<times> u8 list \<times> conn" where
  "read_all n c = read_all_from n [] c"

function write_all_from :: "nat \<Rightarrow> u8 list \<Rightarrow> conn \<Rightarrow> int \<times> conn" where
  "write_all_from sent bs c =
     (if bs = [] then (int sent, c)
      else (case sock_write bs c of
              (w, c') \<Rightarrow>
                if w \<le> 0 then (w, c') else write_all_from (sent + nat w) (drop (nat w) bs) c'))"
  by pat_completeness auto
termination by (relation "measure (\<lambda>(_, bs, _). length bs)") auto

declare write_all_from.simps [simp del]

definition write_all :: "u8 list \<Rightarrow> conn \<Rightarrow> int \<times> conn" where
  "write_all bs c = write_all_from 0 bs c"

text \<open>\<open>send_message\<close> with a null payload is the case \<open>None\<close>; the results of the writes are ignored.\<close>

definition send_message :: "u8 \<Rightarrow> int \<Rightarrow> u8 list option \<Rightarrow> int \<Rightarrow> conn \<Rightarrow> conn" where
  "send_message type seq payload payload_len c =
     (let c' = snd (write_all (hdr_bytes (proto_fill_header type seq payload_len)) c)
      in if payload_len > 0
         then (case payload of None \<Rightarrow> c' | Some p \<Rightarrow> snd (write_all (take (nat payload_len) p) c'))
         else c')"

section \<open>Exact transfer\<close>

text \<open>The bytes still to arrive before an error, an end of file, or the end of input.\<close>

fun stream :: "net_event list \<Rightarrow> u8 list" where
  "stream [] = []"
| "stream (ReadErr # es) = []"
| "stream (Arrive bs # es) = (if bs = [] then [] else bs @ stream es)"

lemma sock_read_stream:
  assumes "n \<noteq> 0" and "stream (c_in c) \<noteq> []"
  shows "\<exists>k bs c'. sock_read n c = (int k, bs, c') \<and> 0 < k \<and> k \<le> n \<and> length bs = k \<and>
    stream (c_in c) = bs @ stream (c_in c') \<and> c_out c' = c_out c \<and> c_wr c' = c_wr c"
proof -
  from assms(2) obtain as es where in_c: "c_in c = Arrive as # es" "as \<noteq> []"
    by (cases "c_in c" rule: stream.cases) (auto split: if_splits)
  with assms(1) show ?thesis by (auto simp: sock_read_def)
qed

lemma read_all_from_stream:
  "n \<le> length (stream (c_in c)) \<Longrightarrow>
     \<exists>c'. read_all_from n got c = (int (length got + n), got @ take n (stream (c_in c)), c') \<and>
          stream (c_in c') = drop n (stream (c_in c)) \<and> c_out c' = c_out c \<and> c_wr c' = c_wr c"
proof (induction n got c rule: read_all_from.induct)
  case (1 n got c)
  show ?case
  proof (cases "n = 0")
    case True
    then show ?thesis by (simp add: read_all_from.simps)
  next
    case False
    moreover have "stream (c_in c) \<noteq> []" using False 1(2) by auto
    ultimately obtain k bs c' where r: "sock_read n c = (int k, bs, c')" "0 < k" "k \<le> n" "length bs = k"
      "stream (c_in c) = bs @ stream (c_in c')" "c_out c' = c_out c" "c_wr c' = c_wr c"
      using sock_read_stream [of n c] by blast
    have "n - k \<le> length (stream (c_in c'))" using 1(2) r by simp
    with 1(1) [OF False r(1) [symmetric] refl] r
    show ?thesis by (subst read_all_from.simps) (auto simp: False)
  qed
qed

lemma read_all_stream:
  assumes "n \<le> length (stream (c_in c))"
  obtains c' where "read_all n c = (int n, take n (stream (c_in c)), c')"
    "stream (c_in c') = drop n (stream (c_in c))" "c_out c' = c_out c" "c_wr c' = c_wr c"
  using read_all_from_stream [OF assms, of "[]"] by (auto simp: read_all_def)

text \<open>Reading writes nothing.\<close>

lemma read_all_from_out: "read_all_from n got c = (r, bs, c') \<Longrightarrow> c_out c' = c_out c"
proof (induction n got c rule: read_all_from.induct)
  case (1 n got c)
  obtain k as d where rd: "sock_read n c = (k, as, d)" by (cases "sock_read n c")
  then have "c_out d = c_out c"
    by (auto simp: sock_read_def split: list.splits net_event.splits if_splits)
  with 1(2) 1(1) [OF _ rd [symmetric] refl] rd show ?case
    by (auto simp: read_all_from.simps [of n got c] split: if_splits)
qed

lemma read_all_out: "read_all n c = (r, bs, c') \<Longrightarrow> c_out c' = c_out c"
  by (simp add: read_all_def read_all_from_out)

text \<open>With too little input \<open>read_all\<close> reports failure.\<close>

lemma read_all_from_short:
  "length (stream (c_in c)) < n \<Longrightarrow> fst (read_all_from n got c) \<le> 0"
proof (induction n got c rule: read_all_from.induct)
  case (1 n got c)
  then have n: "n \<noteq> 0" by simp
  show ?case
  proof (cases "stream (c_in c) = []")
    case True
    then have "fst (sock_read n c) \<le> 0"
      by (cases "c_in c" rule: stream.cases) (auto simp: sock_read_def split: if_splits)
    with n show ?thesis by (subst read_all_from.simps) (auto split: prod.split)
  next
    case False
    then obtain k bs c' where r: "sock_read n c = (int k, bs, c')" "0 < k" "k \<le> n" "length bs = k"
      "stream (c_in c) = bs @ stream (c_in c')"
      using sock_read_stream [OF n] by blast
    have "length (stream (c_in c')) < n - k" using 1(2) r by simp
    with 1(1) [OF n r(1) [symmetric] refl] r n
    show ?thesis by (subst read_all_from.simps) auto
  qed
qed

lemma read_all_short: "length (stream (c_in c)) < n \<Longrightarrow> fst (read_all n c) \<le> 0"
  by (simp add: read_all_def read_all_from_short)

text \<open>A connection whose writes are only ever short, never failing.\<close>

definition writable :: "conn \<Rightarrow> bool" where
  "writable c \<longleftrightarrow> list_all (\<lambda>w. 0 < w) (c_wr c)"

lemma write_all_from_out:
  "writable c \<Longrightarrow> \<exists>c'. write_all_from sent bs c = (int (sent + length bs), c') \<and>
     c_out c' = c_out c @ bs \<and> c_in c' = c_in c \<and> writable c'"
proof (induction sent bs c rule: write_all_from.induct)
  case (1 sent bs c)
  show ?case
  proof (cases "bs = []")
    case True
    with 1(2) show ?thesis by (simp add: write_all_from.simps)
  next
    case False
    obtain w c' where w: "sock_write bs c = (w, c')" by (cases "sock_write bs c")
    with 1(2) False have c': "0 < w" "w \<le> int (length bs)" "writable c'" "c_in c' = c_in c"
      "c_out c' = c_out c @ take (nat w) bs"
      by (auto simp: sock_write_def writable_def Let_def split: list.splits)
    with 1(1) [OF False w [symmetric]] w False show ?thesis
      by (subst write_all_from.simps) (auto simp: nat_le_iff)
  qed
qed

lemma send_message_out:
  assumes "writable c" and "payload = Some p \<or> (payload = None \<and> p = [])"
  shows "c_out (send_message type seq payload (int (length p)) c) =
      c_out c @ hdr_bytes (proto_fill_header type seq (int (length p))) @ p"
    and "c_in (send_message type seq payload (int (length p)) c) = c_in c"
    and "writable (send_message type seq payload (int (length p)) c)"
proof -
  let ?h = "hdr_bytes (proto_fill_header type seq (int (length p)))"
  obtain c1 where c1: "write_all ?h c = (int (length ?h), c1)" "c_out c1 = c_out c @ ?h"
    "c_in c1 = c_in c" "writable c1"
    using write_all_from_out [OF assms(1), of 0 ?h] by (auto simp: write_all_def)
  obtain c2 where c2: "write_all p c1 = (int (length p), c2)" "c_out c2 = c_out c1 @ p"
    "c_in c2 = c_in c1" "writable c2"
    using write_all_from_out [OF c1(4), of 0 p] by (auto simp: write_all_def)
  from c1 c2 assms(2)
  show "c_out (send_message type seq payload (int (length p)) c) = c_out c @ ?h @ p"
    and "c_in (send_message type seq payload (int (length p)) c) = c_in c"
    and "writable (send_message type seq payload (int (length p)) c)"
    by (auto simp: send_message_def Let_def)
qed

end
