(* ===== verification/MiniServer.thy ===== *)
theory MiniServer
  imports MiniProto
begin

text \<open>
  The mini-protocol server, NetworkProgramming/Handson/project_mini_protocol/mini_server.c: one
  client connection (\<open>handle_client\<close>) with the global counters and the text it prints.

  The environment gives the clock when the n-th message of the process is handled, the start time,
  and the value of the \<open>running\<close> flag (cleared by SIGINT) at each test of the loop.
\<close>

record server =
  total_connections :: int
  total_messages :: int
  console :: string

record session =
  s_conn :: conn
  s_name :: string
  s_srv :: server

record srv_env =
  clock :: "int \<Rightarrow> int"
  start_time :: int
  running :: "nat \<Rightarrow> bool"

definition log_line :: "string \<Rightarrow> session \<Rightarrow> session" where
  "log_line msg s = s\<lparr>s_srv := (s_srv s)\<lparr>console := console (s_srv s) @ msg @ NL\<rparr>\<rparr>"

definition in_brackets :: "string \<Rightarrow> string" where
  "in_brackets nm = ''['' @ nm @ '']''"

definition reply :: "u8 \<Rightarrow> int \<Rightarrow> u8 list option \<Rightarrow> int \<Rightarrow> session \<Rightarrow> session" where
  "reply type seq payload payload_len s =
     s\<lparr>s_conn := send_message type seq payload payload_len (s_conn s)\<rparr>"

definition status_payload :: "srv_env \<Rightarrow> server \<Rightarrow> u8 list" where
  "status_payload env sv =
     enc_be32 (cast_u32 (clock env (total_messages sv) - start_time env)) @
     enc_be32 (cast_u32 (total_connections sv)) @ enc_be32 (cast_u32 (total_messages sv))"

text \<open>The \<open>switch\<close> on the message type; the flag tells whether the loop goes on.\<close>

definition dispatch :: "srv_env \<Rightarrow> proto_header \<Rightarrow> u8 list \<Rightarrow> session \<Rightarrow> session \<times> bool" where
  "dispatch env hdr payload s =
     (if h_msg_type hdr = MSG_HELLO then
        (let s1 = (if h_payload_len hdr \<ge> 32
                   then s\<lparr>s_name := fmt_prec 32 (map chr8 (take 32 payload))\<rparr> else s)
         in (reply MSG_ACK (h_seq hdr) None 0 (log_line (in_brackets (s_name s1) @ '' Client identified'') s1), True))
      else if h_msg_type hdr = MSG_DATA then
        (reply MSG_ACK (h_seq hdr) (Some payload) (h_payload_len hdr)
           (log_line (in_brackets (s_name s) @ '' Data: '' @
              fmt_prec (nat (h_payload_len hdr)) (map chr8 payload)) s), True)
      else if h_msg_type hdr = MSG_STATUS then
        (reply MSG_STATUS (h_seq hdr) (Some (status_payload env (s_srv s))) 12 s, True)
      else if h_msg_type hdr = MSG_BYE then
        (reply MSG_ACK (h_seq hdr) None 0
           (log_line (in_brackets (s_name s) @ '' Client says goodbye'') s), False)
      else
        (reply MSG_ERROR (h_seq hdr) (Some (text_bytes ''Unknown type'')) 12
           (log_line (in_brackets (s_name s) @ '' Unknown message type: 0x'' @
              pad_zero 2 (fmt_x (uint (h_msg_type hdr)))) s), True))"

text \<open>One round of the message loop.\<close>

definition serve_message :: "srv_env \<Rightarrow> session \<Rightarrow> session \<times> bool" where
  "serve_message env s =
     (case read_all HDR_SIZE (s_conn s) of
        (n, bs, c1) \<Rightarrow>
          if n \<le> 0 then (s\<lparr>s_conn := c1\<rparr>, False)
          else
            (let hdr = hdr_of_bytes bs; err = proto_validate_header hdr; s1 = s\<lparr>s_conn := c1\<rparr>
             in if err < 0 then
                  (reply MSG_ERROR 0 (Some (text_bytes ''Bad header'')) 10
                     (log_line (in_brackets (s_name s) @ '' Invalid header (err='' @ fmt_d err @ '')'') s1), False)
                else
                  (case (if h_payload_len hdr > 0 then read_all (nat (h_payload_len hdr)) c1
                         else (1, [], c1)) of
                     (m, payload, c2) \<Rightarrow>
                       if m \<le> 0 then (s1\<lparr>s_conn := c2\<rparr>, False)
                       else
                         (let sv = s_srv s;
                              s2 = s1\<lparr>s_conn := c2,
                                 s_srv := sv\<lparr>total_messages := cast_u64 (total_messages sv + 1)\<rparr>\<rparr>
                          in dispatch env hdr payload
                               (log_line (in_brackets (s_name s) @ '' Received '' @
                                  proto_type_str (h_msg_type hdr) @ '' (seq='' @ fmt_u (h_seq hdr) @
                                  '', '' @ fmt_u (h_payload_len hdr) @ '' bytes)'') s2)))))"

section \<open>Termination of the message loop\<close>

text \<open>Every round that goes on has consumed input.\<close>

fun ev_weight :: "net_event \<Rightarrow> nat" where
  "ev_weight (Arrive bs) = Suc (length bs)"
| "ev_weight ReadErr = 1"

definition in_weight :: "conn \<Rightarrow> nat" where
  "in_weight c = sum_list (map ev_weight (c_in c))"

lemma sock_read_weight:
  "sock_read n c = (r, bs, c') \<Longrightarrow> in_weight c' \<le> in_weight c \<and> (0 < r \<longrightarrow> in_weight c' < in_weight c)"
  by (auto simp: sock_read_def in_weight_def split: list.splits net_event.splits if_splits)

lemma read_all_from_weight:
  "read_all_from n got c = (r, bs, c') \<Longrightarrow>
     in_weight c' \<le> in_weight c \<and> (0 < n \<and> 0 < r \<longrightarrow> in_weight c' < in_weight c)"
proof (induction n got c rule: read_all_from.induct)
  case (1 n got c)
  show ?case
  proof (cases "n = 0")
    case True
    with 1(2) show ?thesis by (simp add: read_all_from.simps)
  next
    case False
    obtain k as d where rd: "sock_read n c = (k, as, d)" by (cases "sock_read n c")
    note w = sock_read_weight [OF rd]
    show ?thesis
    proof (cases "k \<le> 0")
      case True
      with 1(2) rd False w show ?thesis by (subst (asm) read_all_from.simps) auto
    next
      case go: False
      with 1(2) rd False have "read_all_from (n - nat k) (got @ as) d = (r, bs, c')"
        by (subst (asm) read_all_from.simps) simp
      from 1(1) [OF False rd [symmetric] refl go this] w go show ?thesis by auto
    qed
  qed
qed

lemma read_all_weight:
  "read_all n c = (r, bs, c') \<Longrightarrow> in_weight c' \<le> in_weight c"
  "read_all n c = (r, bs, c') \<Longrightarrow> 0 < n \<Longrightarrow> 0 < r \<Longrightarrow> in_weight c' < in_weight c"
  by (auto simp: read_all_def dest: read_all_from_weight)

lemma write_all_from_in: "c_in (snd (write_all_from sent bs c)) = c_in c"
proof (induction sent bs c rule: write_all_from.induct)
  case (1 sent bs c)
  obtain w d where w: "sock_write bs c = (w, d)" by (cases "sock_write bs c")
  then have "c_in d = c_in c" by (auto simp: sock_write_def Let_def split: list.splits)
  with 1 w show ?case by (subst write_all_from.simps) auto
qed

lemma send_message_in: "in_weight (send_message t q p l c) = in_weight c"
  by (simp add: in_weight_def send_message_def write_all_def write_all_from_in Let_def split: option.split)

lemma dispatch_in: "in_weight (s_conn (fst (dispatch env hdr p s))) = in_weight (s_conn s)"
  by (simp add: dispatch_def reply_def log_line_def send_message_in Let_def)

lemma log_line_conn [simp]: "s_conn (log_line msg s) = s_conn s"
  by (simp add: log_line_def)

lemma dispatch_weight: "dispatch env hdr p s = (s', go) \<Longrightarrow> in_weight (s_conn s') = in_weight (s_conn s)"
  using dispatch_in [of env hdr p s] by simp

lemma serve_message_weight:
  assumes "serve_message env s = (s', True)"
  shows "in_weight (s_conn s') < in_weight (s_conn s)"
proof -
  obtain n bs c1 where r: "read_all HDR_SIZE (s_conn s) = (n, bs, c1)"
    by (cases "read_all HDR_SIZE (s_conn s)")
  have n: "0 < n" using assms r by (auto simp: serve_message_def split: if_splits)
  let ?hdr = "hdr_of_bytes bs"
  obtain m payload c2 where p: "(if h_payload_len ?hdr > 0 then read_all (nat (h_payload_len ?hdr)) c1
      else (1, [], c1)) = (m, payload, c2)"
    by (cases "if h_payload_len ?hdr > 0 then read_all (nat (h_payload_len ?hdr)) c1 else (1, [], c1)")
  have "in_weight c2 \<le> in_weight c1" using p read_all_weight(1) by (auto split: if_splits)
  also have "in_weight c1 < in_weight (s_conn s)"
    using read_all_weight(2) [OF r _ n] by (simp add: HDR_SIZE_def)
  finally have lt: "in_weight c2 < in_weight (s_conn s)" .
  then show ?thesis
    using assms n by (auto simp: serve_message_def r p Let_def dest!: dispatch_weight split: if_splits)
qed

function handle_loop :: "srv_env \<Rightarrow> nat \<Rightarrow> session \<Rightarrow> session" where
  "handle_loop env i s =
     (if running env i then
        (case serve_message env s of
           (s', go) \<Rightarrow> if go then handle_loop env (Suc i) s' else s')
      else s)"
  by pat_completeness auto
termination
  by (relation "measure (\<lambda>(env, i, s). in_weight (s_conn s))") (auto simp: serve_message_weight)

declare handle_loop.simps [simp del]

definition handle_client :: "srv_env \<Rightarrow> string \<Rightarrow> int \<Rightarrow> conn \<Rightarrow> server \<Rightarrow> conn \<times> server" where
  "handle_client env ip port c sv =
     (let s0 = log_line (in_brackets (ip @ '':'' @ fmt_d port) @ '' Connected'')
                 \<lparr>s_conn = c, s_name = ''unknown'', s_srv = sv\<rparr>;
          s1 = s0\<lparr>s_srv := (s_srv s0)\<lparr>total_connections := cast_u64 (total_connections sv + 1)\<rparr>\<rparr>;
          s2 = handle_loop env 0 s1;
          s3 = log_line (in_brackets (s_name s2) @ '' Disconnected'') s2
      in (s_conn s3, s_srv s3))"

text \<open>\<open>main\<close> serves the accepted connections one after the other and prints the totals.\<close>

fun serve_all :: "srv_env \<Rightarrow> (string \<times> int \<times> conn) list \<Rightarrow> server \<Rightarrow> conn list \<times> server" where
  "serve_all env [] sv = ([], sv)"
| "serve_all env ((ip, port, c) # cs) sv =
     (case handle_client env ip port c sv of
        (c', sv') \<Rightarrow> (case serve_all env cs sv' of (ds, sv'') \<Rightarrow> (c' # ds, sv'')))"

definition server_totals :: "server \<Rightarrow> string" where
  "server_totals sv = NL @ ''Server stopped. Total: '' @ fmt_u (total_connections sv) @
     '' connections, '' @ fmt_u (total_messages sv) @ '' messages'' @ NL"

section \<open>What the protocol promises\<close>

text \<open>A message as the two ends mean it, its wire image, and the reply the server owes for it.\<close>

type_synonym msg = "u8 \<times> int \<times> u8 list"

definition wire :: "msg \<Rightarrow> u8 list" where
  "wire m = (case m of (t, q, p) \<Rightarrow> hdr_bytes (proto_fill_header t q (int (length p))) @ p)"

definition valid_msg :: "msg \<Rightarrow> bool" where
  "valid_msg m \<longleftrightarrow> (case m of (t, q, p) \<Rightarrow> 0 \<le> q \<and> q < 65536 \<and> length p \<le> MAX_PAYLOAD)"

definition count_message :: "server \<Rightarrow> server" where
  "count_message sv = sv\<lparr>total_messages := cast_u64 (total_messages sv + 1)\<rparr>"

definition owed_reply :: "srv_env \<Rightarrow> server \<Rightarrow> msg \<Rightarrow> msg" where
  "owed_reply env sv m = (case m of (t, q, p) \<Rightarrow>
     if t = MSG_HELLO then (MSG_ACK, q, [])
     else if t = MSG_DATA then (MSG_ACK, q, p)
     else if t = MSG_STATUS then (MSG_STATUS, q, status_payload env sv)
     else if t = MSG_BYE then (MSG_ACK, q, [])
     else (MSG_ERROR, q, text_bytes ''Unknown type''))"

text \<open>The replies to a dialogue: one per message, up to and including the first BYE.\<close>

fun owed_replies :: "srv_env \<Rightarrow> server \<Rightarrow> msg list \<Rightarrow> msg list" where
  "owed_replies env sv [] = []"
| "owed_replies env sv (m # ms) =
     owed_reply env (count_message sv) m #
       (if fst m = MSG_BYE then [] else owed_replies env (count_message sv) ms)"

lemma status_payload_length: "length (status_payload env sv) = 12"
  by (simp add: status_payload_def)

lemma hdr_of_fill:
  assumes "valid_msg (t, q, p)"
  shows "hdr_of_bytes (hdr_bytes (proto_fill_header t q (int (length p)))) =
    proto_fill_header t q (int (length p))"
  using assms
  by (intro hdr_of_bytes_bytes) (simp_all add: proto_fill_header_def valid_msg_def PROTO_MAGIC_def MAX_PAYLOAD_def)

lemma validate_fill: "valid_msg (t, q, p) \<Longrightarrow> proto_validate_header (proto_fill_header t q (int (length p))) = 0"
  by (simp add: proto_validate_header_def valid_msg_def)

text \<open>What of a session the specification sees.\<close>

definition counters :: "server \<Rightarrow> int \<times> int" where
  "counters sv = (total_connections sv, total_messages sv)"

lemma owed_reply_counters:
  "counters sv = counters sv' \<Longrightarrow> owed_reply env sv m = owed_reply env sv' m"
  "counters sv = counters sv' \<Longrightarrow> counters (count_message sv) = counters (count_message sv')"
  by (cases m) (simp_all add: owed_reply_def counters_def status_payload_def count_message_def)

lemma owed_replies_counters:
  "counters sv = counters sv' \<Longrightarrow> owed_replies env sv ms = owed_replies env sv' ms"
proof (induction ms arbitrary: sv sv')
  case (Cons m ms)
  note eq = owed_reply_counters(2) [OF Cons.prems]
  from Cons.IH [OF eq] owed_reply_counters(1) [OF eq, of env m] show ?case
    by (simp only: owed_replies.simps)
qed simp

definition replied :: "session \<Rightarrow> session \<Rightarrow> msg \<Rightarrow> bool" where
  "replied s s' m \<longleftrightarrow> c_out (s_conn s') = c_out (s_conn s) @ wire m \<and> c_in (s_conn s') = c_in (s_conn s) \<and>
     writable (s_conn s') \<and> counters (s_srv s') = counters (s_srv s)"

lemma replied_reply:
  assumes "writable (s_conn s)" and "payload = Some p \<or> (payload = None \<and> p = [])"
    and "n = int (length p)"
  shows "replied s (reply t q payload n s) (t, q, p)"
  using send_message_out [OF assms(1,2), of t q] by (simp add: replied_def reply_def wire_def assms(3))

lemma replied_log: "replied (log_line msg s) s' m \<longleftrightarrow> replied s s' m"
  by (simp add: replied_def counters_def log_line_def)

lemma replied_name: "replied (s\<lparr>s_name := nm\<rparr>) s' m \<longleftrightarrow> replied s s' m"
  by (simp add: replied_def)

lemma log_line_counters [simp]: "counters (s_srv (log_line msg s)) = counters (s_srv s)"
  by (simp add: counters_def log_line_def)

lemma reply_log:
  assumes "writable (s_conn s)" and "payload = Some p \<or> (payload = None \<and> p = [])"
    and "n = int (length p)"
  shows "replied s (reply t q payload n (log_line msg s)) (t, q, p)"
  using replied_reply [of "log_line msg s", OF _ assms(2,3)] assms(1) by (simp add: replied_log)

lemma dispatch_replies:
  assumes "writable (s_conn s)"
  shows "replied s (fst (dispatch env (proto_fill_header t q (int (length p))) p s))
           (owed_reply env (s_srv s) (t, q, p))"
    and "snd (dispatch env (proto_fill_header t q (int (length p))) p s) \<longleftrightarrow> t \<noteq> MSG_BYE"
proof -
  let ?hdr = "proto_fill_header t q (int (length p))"
  show "snd (dispatch env ?hdr p s) \<longleftrightarrow> t \<noteq> MSG_BYE"
    by (simp add: dispatch_def Let_def msg_type_defs)
  have named: "replied s (reply MSG_ACK q None 0 (log_line msg (s\<lparr>s_name := nm\<rparr>))) (MSG_ACK, q, [])" for msg nm
    using reply_log [of "s\<lparr>s_name := nm\<rparr>" None "[]" 0] assms by (simp add: replied_name)
  consider "t = MSG_HELLO" | "t = MSG_DATA" | "t = MSG_STATUS" | "t = MSG_BYE"
    | "t \<noteq> MSG_HELLO" "t \<noteq> MSG_DATA" "t \<noteq> MSG_STATUS" "t \<noteq> MSG_BYE" by blast
  then show "replied s (fst (dispatch env ?hdr p s)) (owed_reply env (s_srv s) (t, q, p))"
  proof cases
    case 1
    with named reply_log [OF assms, of None "[]" 0] show ?thesis
      by (simp add: dispatch_def owed_reply_def Let_def msg_type_defs)
  next
    case 2
    with reply_log [OF assms, of "Some p" p] show ?thesis
      by (simp add: dispatch_def owed_reply_def msg_type_defs)
  next
    case 3
    with replied_reply [OF assms, of "Some (status_payload env (s_srv s))" "status_payload env (s_srv s)" 12] show ?thesis
      by (simp add: dispatch_def owed_reply_def msg_type_defs status_payload_length)
  next
    case 4
    with reply_log [OF assms, of None "[]" 0] show ?thesis
      by (simp add: dispatch_def owed_reply_def msg_type_defs)
  next
    case 5
    with reply_log [OF assms, of "Some (text_bytes ''Unknown type'')" "text_bytes ''Unknown type''" 12]
    show ?thesis by (simp add: dispatch_def owed_reply_def)
  qed
qed

text \<open>The record of a received message in the session.\<close>

definition received :: "session \<Rightarrow> conn \<Rightarrow> proto_header \<Rightarrow> session" where
  "received s c hdr =
     log_line (in_brackets (s_name s) @ '' Received '' @ proto_type_str (h_msg_type hdr) @
        '' (seq='' @ fmt_u (h_seq hdr) @ '', '' @ fmt_u (h_payload_len hdr) @ '' bytes)'')
       (s\<lparr>s_conn := c, s_srv := count_message (s_srv s)\<rparr>)"

lemma serve_message_ok:
  assumes "read_all HDR_SIZE (s_conn s) = (n, bs, c1)" and "0 < n"
    and "hdr_of_bytes bs = hdr" and "proto_validate_header hdr = 0"
    and "(if 0 < h_payload_len hdr then read_all (nat (h_payload_len hdr)) c1 else (1, [], c1)) = (r, p, c2)"
    and "0 < r"
  shows "serve_message env s = dispatch env hdr p (received s c2 hdr)"
  using assms
  by (cases "0 < h_payload_len hdr") (auto simp: serve_message_def Let_def received_def count_message_def)

text \<open>One message from the wire: what the round answers, whatever the split of the input into reads.\<close>

lemma serve_message_wire:
  assumes "stream (c_in (s_conn s)) = wire m @ rest" and "valid_msg m" and "writable (s_conn s)"
  obtains s' where "serve_message env s = (s', fst m \<noteq> MSG_BYE)"
    and "c_out (s_conn s') = c_out (s_conn s) @ wire (owed_reply env (count_message (s_srv s)) m)"
    and "stream (c_in (s_conn s')) = rest" and "writable (s_conn s')"
    and "counters (s_srv s') = counters (count_message (s_srv s))"
proof -
  obtain t q p where m: "m = (t, q, p)" by (cases m)
  let ?hdr = "proto_fill_header t q (int (length p))"
  have str: "stream (c_in (s_conn s)) = hdr_bytes ?hdr @ p @ rest"
    using assms(1) by (simp add: m wire_def)
  obtain c1 where c1: "read_all HDR_SIZE (s_conn s) = (int HDR_SIZE, hdr_bytes ?hdr, c1)"
    "stream (c_in c1) = p @ rest" "c_out c1 = c_out (s_conn s)" "c_wr c1 = c_wr (s_conn s)"
    using read_all_stream [of HDR_SIZE "s_conn s"] by (auto simp: str)
  obtain r c2 where c2: "(if int (length p) > 0 then read_all (nat (int (length p))) c1 else (1, [], c1)) = (r, p, c2)"
    "0 < r" "stream (c_in c2) = rest" "c_out c2 = c_out c1" "c_wr c2 = c_wr c1"
  proof (cases "p = []")
    case True
    with c1 show thesis by (intro that [of 1 c1]) simp_all
  next
    case False
    have "length p \<le> length (stream (c_in c1))" by (simp add: c1(2))
    then obtain c' where "read_all (length p) c1 = (int (length p), take (length p) (stream (c_in c1)), c')"
      "stream (c_in c') = drop (length p) (stream (c_in c1))" "c_out c' = c_out c1" "c_wr c' = c_wr c1"
      by (rule read_all_stream)
    with False show thesis by (intro that [of "int (length p)" c']) (simp_all add: c1(2))
  qed
  define s2 where "s2 = received s c2 ?hdr"
  have w: "writable (s_conn s2)"
    using assms(3) c1 c2 by (simp add: s2_def received_def writable_def)
  have n: "0 < int HDR_SIZE" by (simp add: HDR_SIZE_def)
  have "serve_message env s = dispatch env ?hdr p s2"
    unfolding s2_def
    by (rule serve_message_ok [OF c1(1) n hdr_of_fill [OF assms(2) [unfolded m]]
          validate_fill [OF assms(2) [unfolded m]] _ c2(2)]) (simp only: fill_header_fields c2(1))
  moreover obtain s' go where "dispatch env ?hdr p s2 = (s', go)" by (cases "dispatch env ?hdr p s2")
  ultimately have sm: "serve_message env s = (s', fst m \<noteq> MSG_BYE)"
    and "replied s2 s' (owed_reply env (s_srv s2) m)"
    using dispatch_replies [OF w, of env t q p] by (simp_all add: m)
  moreover have cnt: "counters (s_srv s2) = counters (count_message (s_srv s))"
    by (simp add: s2_def received_def)
  moreover have "owed_reply env (s_srv s2) m = owed_reply env (count_message (s_srv s)) m"
    by (rule owed_reply_counters(1) [OF cnt])
  moreover have "c_out (s_conn s2) = c_out (s_conn s)" "stream (c_in (s_conn s2)) = rest"
    using c1 c2 by (simp_all add: s2_def received_def)
  ultimately show thesis
    by (intro that [OF sm]) (simp_all add: replied_def)
qed

lemma serve_message_eof:
  assumes "stream (c_in (s_conn s)) = []"
  shows "\<exists>c. serve_message env s = (s\<lparr>s_conn := c\<rparr>, False) \<and> c_out c = c_out (s_conn s)"
proof -
  obtain n bs c where r: "read_all HDR_SIZE (s_conn s) = (n, bs, c)"
    by (cases "read_all HDR_SIZE (s_conn s)")
  have "n \<le> 0" using read_all_short [of "s_conn s" HDR_SIZE] assms r by (simp add: HDR_SIZE_def)
  moreover have "c_out c = c_out (s_conn s)" by (rule read_all_out [OF r])
  ultimately show ?thesis using r by (intro exI [of _ c]) (simp add: serve_message_def)
qed

lemma counters_funpow:
  assumes "counters a = counters b"
  shows "counters ((count_message ^^ k) a) = counters ((count_message ^^ k) b)"
proof (induction k)
  case (Suc k)
  from owed_reply_counters(2) [OF this] show ?case by simp
qed (simp add: assms)

lemma handle_loop_dialogue:
  assumes "running env = (\<lambda>_. True)"
  shows "stream (c_in (s_conn s)) = concat (map wire ms) \<Longrightarrow> list_all valid_msg ms \<Longrightarrow>
    writable (s_conn s) \<Longrightarrow>
    c_out (s_conn (handle_loop env i s)) =
      c_out (s_conn s) @ concat (map wire (owed_replies env (s_srv s) ms)) \<and>
    counters (s_srv (handle_loop env i s)) =
      counters ((count_message ^^ length (owed_replies env (s_srv s) ms)) (s_srv s))"
proof (induction ms arbitrary: s i)
  case Nil
  then show ?case
    using serve_message_eof [of s env] by (subst (1 2) handle_loop.simps) (auto simp: assms)
next
  case (Cons m ms)
  then have str: "stream (c_in (s_conn s)) = wire m @ concat (map wire ms)" and ok: "valid_msg m" by simp_all
  from serve_message_wire [OF str ok Cons.prems(3), of env] obtain s' where
    s': "serve_message env s = (s', fst m \<noteq> MSG_BYE)"
    "c_out (s_conn s') = c_out (s_conn s) @ wire (owed_reply env (count_message (s_srv s)) m)"
    "stream (c_in (s_conn s')) = concat (map wire ms)" "writable (s_conn s')"
    "counters (s_srv s') = counters (count_message (s_srv s))"
    by blast
  show ?case
  proof (cases "fst m = MSG_BYE")
    case True
    with s' show ?thesis by (subst (1 2) handle_loop.simps) (simp add: assms)
  next
    case False
    have same: "owed_replies env (s_srv s') ms = owed_replies env (count_message (s_srv s)) ms"
      by (rule owed_replies_counters [OF s'(5)])
    from False s'(1) have "handle_loop env i s = handle_loop env (Suc i) s'"
      by (subst handle_loop.simps) (simp add: assms)
    moreover have "c_out (s_conn (handle_loop env (Suc i) s')) =
          c_out (s_conn s') @ concat (map wire (owed_replies env (count_message (s_srv s)) ms))"
      "counters (s_srv (handle_loop env (Suc i) s')) =
          counters ((count_message ^^ length (owed_replies env (count_message (s_srv s)) ms)) (s_srv s'))"
      using Cons.IH [OF s'(3) _ s'(4), of "Suc i"] Cons.prems(2) same by simp_all
    moreover have "counters ((count_message ^^ k) (s_srv s')) = counters ((count_message ^^ Suc k) (s_srv s))" for k
      using counters_funpow [OF s'(5)] by (simp only: funpow_Suc_right o_apply)
    ultimately show ?thesis
      using False s'(2) by (simp only: owed_replies.simps list.map concat.simps append_assoc
          if_False length_Cons simp_thms)
  qed
qed

text \<open>
  C7. A client whose input arrives as the wire images of valid messages, split into reads in any way,
  gets exactly the owed replies, in order, up to and including the reply to the first BYE, even when
  writes are short; and the server counts one connection and one message per reply.
\<close>

theorem server_answers_dialogue:
  assumes "running env = (\<lambda>_. True)" and "stream (c_in c) = concat (map wire ms)"
    and "list_all valid_msg ms" and "writable c"
    and "sv1 = sv\<lparr>total_connections := cast_u64 (total_connections sv + 1)\<rparr>"
  shows "c_out (fst (handle_client env ip port c sv)) = c_out c @ concat (map wire (owed_replies env sv1 ms))
    \<and> counters (snd (handle_client env ip port c sv)) =
        counters ((count_message ^^ length (owed_replies env sv1 ms)) sv1)"
proof -
  let ?s0 = "log_line (in_brackets (ip @ '':'' @ fmt_d port) @ '' Connected'')
      \<lparr>s_conn = c, s_name = ''unknown'', s_srv = sv\<rparr>"
  let ?s1 = "?s0\<lparr>s_srv := (s_srv ?s0)\<lparr>total_connections := cast_u64 (total_connections sv + 1)\<rparr>\<rparr>"
  have cnt: "counters (s_srv ?s1) = counters sv1"
    by (simp add: assms(5) counters_def log_line_def)
  have "c_out (s_conn (handle_loop env 0 ?s1)) = c_out c @ concat (map wire (owed_replies env (s_srv ?s1) ms)) \<and>
    counters (s_srv (handle_loop env 0 ?s1)) =
      counters ((count_message ^^ length (owed_replies env (s_srv ?s1) ms)) (s_srv ?s1))"
    using handle_loop_dialogue [OF assms(1), of ?s1 ms 0] assms(2-4) by simp
  then show ?thesis
    using owed_replies_counters [OF cnt, of env ms] counters_funpow [OF cnt]
    by (simp add: handle_client_def Let_def)
qed

text \<open>HELLO and DATA in three pieces, then end of input.\<close>

definition sample_env :: srv_env where
  "sample_env = \<lparr>clock = (\<lambda>n. 100), start_time = 40, running = (\<lambda>_. True)\<rparr>"

definition sample_dialogue :: "msg list" where
  "sample_dialogue = [(MSG_HELLO, 1, []), (MSG_DATA, 2, [104, 105]), (MSG_STATUS, 3, [])]"

definition sample_conn :: conn where
  "sample_conn = (let w = concat (map wire sample_dialogue)
     in \<lparr>c_in = [Arrive (take 5 w), Arrive (take 20 (drop 5 w)), Arrive (drop 25 w)], c_out = [], c_wr = [3, 1]\<rparr>)"

definition sample_server :: server where
  "sample_server = \<lparr>total_connections = 0, total_messages = 0, console = []\<rparr>"

theorem server_answers_dialogue_witness:
  "c_out (fst (handle_client sample_env ''127.0.0.1'' 5000 sample_conn sample_server)) =
     wire (MSG_ACK, 1, []) @ wire (MSG_ACK, 2, [104, 105]) @
     wire (MSG_STATUS, 3, [0, 0, 0, 60, 0, 0, 0, 1, 0, 0, 0, 3])"
proof -
  let ?sv = "sample_server\<lparr>total_connections := cast_u64 (total_connections sample_server + 1)\<rparr>"
  have "running sample_env = (\<lambda>_. True)" by (simp add: sample_env_def)
  moreover have "stream (c_in sample_conn) = concat (map wire sample_dialogue)"
    "list_all valid_msg sample_dialogue" "writable sample_conn" by code_simp+
  ultimately have "c_out (fst (handle_client sample_env ''127.0.0.1'' 5000 sample_conn sample_server)) =
      c_out sample_conn @ concat (map wire (owed_replies sample_env ?sv sample_dialogue))"
    by (intro conjunct1 [OF server_answers_dialogue]) simp_all
  also have "c_out sample_conn = []" by (simp add: sample_conn_def Let_def)
  also have "owed_replies sample_env ?sv sample_dialogue =
      [(MSG_ACK, 1, []), (MSG_ACK, 2, [104, 105]), (MSG_STATUS, 3, [0, 0, 0, 60, 0, 0, 0, 1, 0, 0, 0, 3])]"
    by code_simp
  finally show ?thesis by simp
qed

text \<open>
  C8. A header with a wrong magic number, version or an oversized length is answered with one ERROR
  message and ends the connection; none of the announced payload is read and no message is counted.
\<close>

theorem server_rejects_bad_header:
  assumes "stream (c_in (s_conn s)) = bs @ rest" and "length bs = HDR_SIZE"
    and "proto_validate_header (hdr_of_bytes bs) < 0" and "writable (s_conn s)"
  shows "\<exists>s'. serve_message env s = (s', False) \<and>
    c_out (s_conn s') = c_out (s_conn s) @ wire (MSG_ERROR, 0, text_bytes ''Bad header'') \<and>
    stream (c_in (s_conn s')) = rest \<and> counters (s_srv s') = counters (s_srv s)"
proof -
  obtain c1 where c1: "read_all HDR_SIZE (s_conn s) = (int HDR_SIZE, bs, c1)" "stream (c_in c1) = rest"
    "c_out c1 = c_out (s_conn s)" "c_wr c1 = c_wr (s_conn s)"
    using read_all_stream [of HDR_SIZE "s_conn s"] by (auto simp: assms(1,2))
  define msg where "msg = in_brackets (s_name s) @ '' Invalid header (err='' @
    fmt_d (proto_validate_header (hdr_of_bytes bs)) @ '')''"
  define s' where "s' = reply MSG_ERROR 0 (Some (text_bytes ''Bad header'')) 10 (log_line msg (s\<lparr>s_conn := c1\<rparr>))"
  have "0 < int HDR_SIZE" by (simp add: HDR_SIZE_def)
  then have "serve_message env s = (s', False)"
    using assms(3) by (simp add: serve_message_def c1(1) s'_def msg_def Let_def)
  moreover have "replied (s\<lparr>s_conn := c1\<rparr>) s' (MSG_ERROR, 0, text_bytes ''Bad header'')"
    unfolding s'_def using assms(4) by (intro reply_log) (simp_all add: c1(4) writable_def)
  ultimately show ?thesis using c1 by (intro exI [of _ s']) (simp add: replied_def)
qed

theorem server_rejects_bad_header_witness:
  "\<exists>s'. serve_message sample_env \<lparr>s_conn = \<lparr>c_in = [Arrive (replicate 12 0)], c_out = [], c_wr = []\<rparr>,
      s_name = ''unknown'', s_srv = sample_server\<rparr> = (s', False) \<and>
    c_out (s_conn s') = wire (MSG_ERROR, 0, text_bytes ''Bad header'')"
proof -
  let ?s = "\<lparr>s_conn = \<lparr>c_in = [Arrive (replicate 12 0)], c_out = [], c_wr = []\<rparr>,
      s_name = ''unknown'', s_srv = sample_server\<rparr>"
  have "stream (c_in (s_conn ?s)) = replicate 12 0 @ []" by (simp add: numeral_eq_Suc)
  moreover have "length (replicate 12 (0 :: u8)) = HDR_SIZE" "proto_validate_header (hdr_of_bytes (replicate 12 0)) < 0"
    "writable (s_conn ?s)" by code_simp+
  ultimately obtain s' where "serve_message sample_env ?s = (s', False)"
    "c_out (s_conn s') = c_out (s_conn ?s) @ wire (MSG_ERROR, 0, text_bytes ''Bad header'')"
    using server_rejects_bad_header [of ?s "replicate 12 0" "[]" sample_env] by blast
  then show ?thesis by (intro exI [of _ s']) simp
qed

end
