(* ===== verification/MiniClient.thy ===== *)
theory MiniClient
  imports MiniServer
begin

text \<open>
  The mini-protocol client, NetworkProgramming/Handson/project_mini_protocol/mini_client.c, from the
  connected socket on: the HELLO exchange and the interactive loop over standard input, with the
  text it prints. The response header and payload are buffers that live across the loop, so what a
  failed receive leaves in them is part of the state.
\<close>

section \<open>Receiving\<close>

record client =
  cl_conn :: conn
  cl_seq :: int
  cl_hdr :: "u8 list"
  cl_payload :: "u8 list"
  cl_out :: string

text \<open>The client has its own copies of the transfer helpers.\<close>

definition client_read_all :: "nat \<Rightarrow> conn \<Rightarrow> int \<times> u8 list \<times> conn" where
  "client_read_all = read_all"

definition client_send_message :: "u8 \<Rightarrow> int \<Rightarrow> u8 list option \<Rightarrow> int \<Rightarrow> conn \<Rightarrow> conn" where
  "client_send_message = send_message"

text \<open>\<open>got\<close> overwrites the front of a buffer.\<close>

definition fill_buf :: "u8 list \<Rightarrow> u8 list \<Rightarrow> u8 list" where
  "fill_buf got buf = got @ drop (length got) buf"

definition recv_message :: "conn \<Rightarrow> u8 list \<Rightarrow> u8 list \<Rightarrow> int \<Rightarrow> int \<times> u8 list \<times> u8 list \<times> conn" where
  "recv_message c hdr payload max_payload =
     (case client_read_all HDR_SIZE c of
        (n, got, c1) \<Rightarrow>
          (let hdr' = fill_buf got hdr; h = hdr_of_bytes hdr' in
           if n \<le> 0 then (-1, hdr', payload, c1)
           else if proto_validate_header h < 0 then (-1, hdr', payload, c1)
           else if h_payload_len h > 0 then
             (if h_payload_len h > max_payload then (-1, hdr', payload, c1)
              else (case client_read_all (nat (h_payload_len h)) c1 of
                      (m, got', c2) \<Rightarrow>
                        (if m \<le> 0 then -1 else 0, hdr', fill_buf got' payload, c2)))
           else (0, hdr', payload, c1)))"

definition client_print :: "string \<Rightarrow> client \<Rightarrow> client" where
  "client_print msg s = s\<lparr>cl_out := cl_out s @ msg\<rparr>"

definition client_send :: "u8 \<Rightarrow> u8 list option \<Rightarrow> int \<Rightarrow> client \<Rightarrow> client" where
  "client_send type payload payload_len s =
     (let seq = (cl_seq s + 1) mod 65536
      in s\<lparr>cl_seq := seq, cl_conn := client_send_message type seq payload payload_len (cl_conn s)\<rparr>)"

definition client_recv :: "client \<Rightarrow> int \<times> client" where
  "client_recv s =
     (case recv_message (cl_conn s) (cl_hdr s) (cl_payload s) (int MAX_PAYLOAD) of
        (r, hdr, payload, c) \<Rightarrow> (r, s\<lparr>cl_hdr := hdr, cl_payload := payload, cl_conn := c\<rparr>))"

section \<open>The dialogue\<close>

definition ARROW_OUT :: string where "ARROW_OUT = [CHR 0xE2, CHR 0x86, CHR 0x92, CHR '' '']"
definition ARROW_IN :: string where "ARROW_IN = [CHR 0xE2, CHR 0x86, CHR 0x90, CHR '' '']"

text \<open>\<open>hello.client_name\<close>: \<open>snprintf\<close> into 32 zeroed bytes keeps at most 31 characters.\<close>

definition client_name :: "int \<Rightarrow> string" where
  "client_name pid = take 31 (''test_client_'' @ fmt_d pid)"

definition hello_payload :: "int \<Rightarrow> u8 list" where
  "hello_payload pid =
     text_bytes (client_name pid) @ replicate (32 - length (client_name pid)) 0"

definition say_hello :: "int \<Rightarrow> client \<Rightarrow> client" where
  "say_hello pid s =
     (let s1 = client_print (ARROW_OUT @ ''Sending HELLO (name: '' @ client_name pid @ '')'' @ NL) s;
          s2 = client_send MSG_HELLO (Some (hello_payload pid)) 32 s1
      in case client_recv s2 of
           (r, s3) \<Rightarrow>
             (let h = hdr_of_bytes (cl_hdr s3) in
              if r = 0
              then client_print (ARROW_IN @ ''Received '' @ proto_type_str (h_msg_type h) @ '' (seq='' @
                     fmt_u (h_seq h) @ '')'' @ NL @ NL) s3
              else s3))"

definition print_status :: "client \<Rightarrow> client" where
  "print_status s =
     client_print (ARROW_IN @ ''STATUS: uptime='' @ fmt_u (be32 (cl_payload s) 0) @ ''s, connections='' @
       fmt_u (be32 (cl_payload s) 4) @ '', messages='' @ fmt_u (be32 (cl_payload s) 8) @ NL @ NL) s"

text \<open>
  One line without its newline, not empty; the flag tells whether the loop goes on. The reply to a
  DATA message is printed as a string, ended by the NUL stored behind it.
\<close>

definition client_command :: "string \<Rightarrow> client \<Rightarrow> client \<times> bool" where
  "client_command line s =
     (if line = ''/status'' then
        (let s1 = client_send MSG_STATUS None 0
                    (client_print (ARROW_OUT @ ''Requesting STATUS'' @ NL) s)
         in case client_recv s1 of
              (r, s2) \<Rightarrow>
                (let h = hdr_of_bytes (cl_hdr s2)
                 in (if r = 0 \<and> h_msg_type h = MSG_STATUS \<and> h_payload_len h \<ge> 12
                     then print_status s2 else s2, True)))
      else if line = ''/quit'' then
        (let s1 = client_send MSG_BYE None 0
                    (client_print (ARROW_OUT @ ''Sending BYE'' @ NL) s)
         in case client_recv s1 of
              (r, s2) \<Rightarrow>
                (client_print (ARROW_IN @ ''Received '' @
                   proto_type_str (h_msg_type (hdr_of_bytes (cl_hdr s2))) @ NL) s2, False))
      else
        (let s1 = client_send MSG_DATA (Some (text_bytes line)) (int (length line))
                    (client_print (ARROW_OUT @ ''Sending DATA: '' @ line @ NL) s)
         in case client_recv s1 of
              (r, s2) \<Rightarrow>
                (let h = hdr_of_bytes (cl_hdr s2);
                     s3 = s2\<lparr>cl_payload := (cl_payload s2)[nat (h_payload_len h) := 0]\<rparr>
                 in (if r = 0
                     then client_print (ARROW_IN @ proto_type_str (h_msg_type h) @ '': '' @
                            takeWhile (\<lambda>c. c \<noteq> NUL) (map chr8 (cl_payload s3)) @ NL @ NL) s3
                     else s2, True))))"

definition chop_line :: "string \<Rightarrow> string" where
  "chop_line buf =
     (let line = takeWhile (\<lambda>c. c \<noteq> NUL) buf
      in if line \<noteq> [] \<and> [last line] = NL then butlast line else line)"

lemma fgets_shorter:
  assumes "(a, b) = fgets 1024 s" and "s \<noteq> []"
  shows "length b < length s"
  using fgets_split [of 1024 s a b] fgets_progress [of s 1024] assms(2) assms(1) [symmetric] by auto

function client_loop :: "string \<Rightarrow> client \<Rightarrow> client" where
  "client_loop stdin s =
     (if stdin = [] then s
      else (case fgets 1024 stdin of
              (buf, rest) \<Rightarrow>
                if chop_line buf = [] then client_loop rest s
                else (case client_command (chop_line buf) s of
                        (s', go) \<Rightarrow> if go then client_loop rest s' else s')))"
  by pat_completeness auto
termination
  by (relation "measure (\<lambda>(stdin, s). length stdin)") (auto dest!: fgets_shorter)

declare client_loop.simps [simp del]

definition client_main :: "int \<Rightarrow> u8 list \<Rightarrow> u8 list \<Rightarrow> string \<Rightarrow> conn \<Rightarrow> client" where
  "client_main pid hdr0 payload0 stdin c =
     (let s0 = \<lparr>cl_conn = c, cl_seq = 0, cl_hdr = hdr0, cl_payload = payload0,
                cl_out = ''Connected!'' @ NL @ NL\<rparr>;
          s1 = client_print (''Commands: <text> = send data, /status = get status, /quit = disconnect'' @ NL @ NL)
                 (say_hello pid s0)
      in client_print (''Disconnected.'' @ NL) (client_loop stdin s1))"

section \<open>A session against the server\<close>

text \<open>The lines a user may type, the messages they stand for, and what the user sees for each.\<close>

definition line_ok :: "string \<Rightarrow> bool" where
  "line_ok l \<longleftrightarrow> l \<noteq> [] \<and> CHR 0x0A \<notin> set l \<and> NUL \<notin> set l \<and> length l \<le> 1022"

definition line_msg :: "int \<Rightarrow> string \<Rightarrow> msg" where
  "line_msg q l =
     (if l = ''/status'' then (MSG_STATUS, q, [])
      else if l = ''/quit'' then (MSG_BYE, q, [])
      else (MSG_DATA, q, text_bytes l))"

fun client_msgs :: "int \<Rightarrow> string list \<Rightarrow> msg list" where
  "client_msgs q [] = []"
| "client_msgs q (l # ls) =
     line_msg ((q + 1) mod 65536) l #
       (if l = ''/quit'' then [] else client_msgs ((q + 1) mod 65536) ls)"

definition shown :: "srv_env \<Rightarrow> server \<Rightarrow> string \<Rightarrow> string" where
  "shown env sv l =
     (if l = ''/status'' then
        ARROW_OUT @ ''Requesting STATUS'' @ NL @
        ARROW_IN @ ''STATUS: uptime='' @ fmt_u (cast_u32 (clock env (total_messages sv) - start_time env)) @
        ''s, connections='' @ fmt_u (cast_u32 (total_connections sv)) @
        '', messages='' @ fmt_u (cast_u32 (total_messages sv)) @ NL @ NL
      else if l = ''/quit'' then ARROW_OUT @ ''Sending BYE'' @ NL @ ARROW_IN @ ''Received ACK'' @ NL
      else ARROW_OUT @ ''Sending DATA: '' @ l @ NL @ ARROW_IN @ ''ACK: '' @ l @ NL @ NL)"

fun transcript :: "srv_env \<Rightarrow> server \<Rightarrow> string list \<Rightarrow> string" where
  "transcript env sv [] = []"
| "transcript env sv (l # ls) =
     shown env (count_message sv) l @ (if l = ''/quit'' then [] else transcript env (count_message sv) ls)"

lemma fill_buf_length [simp]: "length (fill_buf got buf) = max (length got) (length buf)"
  by (simp add: fill_buf_def)

lemma chop_ok: "line_ok l \<Longrightarrow> chop_line (l @ NL) = l"
proof -
  assume ok: "line_ok l"
  then have "takeWhile (\<lambda>c. c \<noteq> NUL) (l @ NL) = l @ NL"
    by (subst takeWhile_eq_all_conv) (auto simp: line_ok_def NL_def)
  then show ?thesis by (simp add: chop_line_def Let_def NL_def)
qed

text \<open>A state between two exchanges: the buffers have their sizes and writes succeed.\<close>

definition ready :: "client \<Rightarrow> bool" where
  "ready s \<longleftrightarrow> length (cl_hdr s) = HDR_SIZE \<and> length (cl_payload s) = MAX_PAYLOAD + 1 \<and> writable (cl_conn s)"

text \<open>Sending a message appends its wire image; receiving one delivers its header and payload.\<close>

lemma client_send_wire:
  assumes "ready s" and "payload = Some p \<or> (payload = None \<and> p = [])" and "n = int (length p)"
  shows "\<exists>c. client_send t payload n s = s\<lparr>cl_seq := (cl_seq s + 1) mod 65536, cl_conn := c\<rparr> \<and>
    c_out c = c_out (cl_conn s) @ wire (t, (cl_seq s + 1) mod 65536, p) \<and> c_in c = c_in (cl_conn s) \<and> writable c"
  using send_message_out [OF _ assms(2), of "cl_conn s" t "(cl_seq s + 1) mod 65536"] assms(1,3)
  by (intro exI [of _ "send_message t ((cl_seq s + 1) mod 65536) payload n (cl_conn s)"]) (simp add: client_send_def client_send_message_def ready_def wire_def Let_def)

lemma client_recv_wire:
  assumes "ready s" and "stream (c_in (cl_conn s)) = wire (t, q, p) @ rest" and "valid_msg (t, q, p)"
  shows "\<exists>c. client_recv s = (0, s\<lparr>cl_hdr := hdr_bytes (proto_fill_header t q (int (length p))),
      cl_payload := fill_buf p (cl_payload s), cl_conn := c\<rparr>) \<and>
    stream (c_in c) = rest \<and> c_out c = c_out (cl_conn s) \<and> writable c"
proof -
  let ?hdr = "proto_fill_header t q (int (length p))"
  have str: "stream (c_in (cl_conn s)) = hdr_bytes ?hdr @ p @ rest"
    using assms(2) by (simp add: wire_def)
  obtain c1 where c1: "read_all HDR_SIZE (cl_conn s) = (int HDR_SIZE, hdr_bytes ?hdr, c1)"
    "stream (c_in c1) = p @ rest" "c_out c1 = c_out (cl_conn s)" "c_wr c1 = c_wr (cl_conn s)"
    using read_all_stream [of HDR_SIZE "cl_conn s"] by (auto simp: str)
  have pos: "0 < int HDR_SIZE" by (simp add: HDR_SIZE_def)
  have hdr: "fill_buf (hdr_bytes ?hdr) (cl_hdr s) = hdr_bytes ?hdr"
    using assms(1) by (simp add: fill_buf_def ready_def)
  have w: "writable c1" using assms(1) c1(4) by (simp add: ready_def writable_def)
  show ?thesis
  proof (cases "p = []")
    case True
    with c1 pos hdr w hdr_of_fill [OF assms(3)] validate_fill [OF assms(3)] show ?thesis
      by (intro exI [of _ c1]) (simp add: client_recv_def recv_message_def client_read_all_def Let_def fill_buf_def [of "[]"])
  next
    case False
    have "length p \<le> length (stream (c_in c1))" by (simp add: c1(2))
    then obtain c2 where c2: "read_all (length p) c1 = (int (length p), take (length p) (stream (c_in c1)), c2)"
      "stream (c_in c2) = drop (length p) (stream (c_in c1))" "c_out c2 = c_out c1" "c_wr c2 = c_wr c1"
      by (rule read_all_stream)
    have "writable c2" using w c2(4) by (simp add: writable_def)
    with False c1 c2 pos hdr hdr_of_fill [OF assms(3)] validate_fill [OF assms(3)] assms(3) show ?thesis
      by (intro exI [of _ c2]) (simp add: client_recv_def recv_message_def client_read_all_def Let_def valid_msg_def)
  qed
qed

text \<open>One command against the reply the server owes for it.\<close>

lemma line_msg_cases:
  "line_msg q ''/status'' = (MSG_STATUS, q, [])" "line_msg q ''/quit'' = (MSG_BYE, q, [])"
  "l \<noteq> ''/status'' \<Longrightarrow> l \<noteq> ''/quit'' \<Longrightarrow> line_msg q l = (MSG_DATA, q, text_bytes l)"
  by (simp_all add: line_msg_def)

lemma status_fields:
  "be32 (fill_buf (status_payload env sv) buf) 0 = cast_u32 (clock env (total_messages sv) - start_time env)"
  "be32 (fill_buf (status_payload env sv) buf) 4 = cast_u32 (total_connections sv)"
  "be32 (fill_buf (status_payload env sv) buf) 8 = cast_u32 (total_messages sv)"
proof -
  let ?u = "cast_u32 (clock env (total_messages sv) - start_time env)"
  let ?c = "cast_u32 (total_connections sv)" and ?m = "cast_u32 (total_messages sv)"
  have m: "x mod 4294967296 = cast_u32 x" "cast_u32 (cast_u32 x) = cast_u32 x" for x
    by (simp_all add: cast_u32_def)
  show "be32 (fill_buf (status_payload env sv) buf) 0 = ?u"
    using be32_enc [of "[]" ?u "enc_be32 ?c @ enc_be32 ?m @ drop 12 buf"]
    by (simp add: fill_buf_def status_payload_def m)
  show "be32 (fill_buf (status_payload env sv) buf) 4 = ?c"
    using be32_enc [of "enc_be32 ?u" ?c "enc_be32 ?m @ drop 12 buf"]
    by (simp add: fill_buf_def status_payload_def m)
  show "be32 (fill_buf (status_payload env sv) buf) 8 = ?m"
    using be32_enc [of "enc_be32 ?u @ enc_be32 ?c" ?m "drop 12 buf"]
    by (simp add: fill_buf_def status_payload_def m)
qed

lemma text_shown:
  assumes "NUL \<notin> set l" and "length l < length buf"
  shows "takeWhile (\<lambda>c. c \<noteq> NUL) (map chr8 ((fill_buf (text_bytes l) buf)[length l := 0])) = l"
proof -
  have "(fill_buf (text_bytes l) buf)[length l := 0] = text_bytes l @ 0 # drop (Suc (length l)) buf"
    using assms(2) by (simp add: fill_buf_def list_update_append text_bytes_def Cons_nth_drop_Suc [symmetric])
  moreover have "map chr8 (text_bytes l) = l" by (simp add: text_bytes_def o_def)
  moreover have "chr8 0 = NUL" by (simp add: chr8_def char_of_def)
  ultimately show ?thesis using assms(1) by (simp add: takeWhile_append)
qed

lemma exchange:
  assumes "ready s" and "payload = Some p \<or> (payload = None \<and> p = [])" and "n = int (length p)"
    and "stream (c_in (cl_conn s)) = wire (t', q', p') @ rest" and "valid_msg (t', q', p')"
  shows "\<exists>c. client_recv (client_send t payload n (client_print msg s)) =
      (0, s\<lparr>cl_out := cl_out s @ msg, cl_seq := (cl_seq s + 1) mod 65536, cl_conn := c,
            cl_hdr := hdr_bytes (proto_fill_header t' q' (int (length p'))),
            cl_payload := fill_buf p' (cl_payload s)\<rparr>) \<and>
    stream (c_in c) = rest \<and> writable c \<and>
    c_out c = c_out (cl_conn s) @ wire (t, (cl_seq s + 1) mod 65536, p)"
proof -
  have r: "ready (client_print msg s)" using assms(1) by (simp add: ready_def client_print_def)
  obtain c where c: "client_send t payload n (client_print msg s) =
      (client_print msg s)\<lparr>cl_seq := (cl_seq s + 1) mod 65536, cl_conn := c\<rparr>"
    "c_out c = c_out (cl_conn s) @ wire (t, (cl_seq s + 1) mod 65536, p)"
    "c_in c = c_in (cl_conn s)" "writable c"
    using client_send_wire [OF r assms(2,3), of t] by (auto simp: client_print_def)
  let ?s1 = "client_send t payload n (client_print msg s)"
  have "ready ?s1" using r c by (simp add: ready_def)
  moreover have "stream (c_in (cl_conn ?s1)) = wire (t', q', p') @ rest" using c assms(4) by simp
  ultimately obtain d where d: "client_recv ?s1 = (0, ?s1\<lparr>cl_hdr := hdr_bytes (proto_fill_header t' q' (int (length p'))),
      cl_payload := fill_buf p' (cl_payload ?s1), cl_conn := d\<rparr>)"
    "stream (c_in d) = rest" "c_out d = c_out (cl_conn ?s1)" "writable d"
    using client_recv_wire [OF _ _ assms(5)] by blast
  then show ?thesis using c by (intro exI [of _ d]) (simp add: client_print_def)
qed

definition answered :: "srv_env \<Rightarrow> server \<Rightarrow> string \<Rightarrow> u8 list \<Rightarrow> client \<Rightarrow> client \<Rightarrow> bool" where
  "answered env sv l rest s s' \<longleftrightarrow>
     ready s' \<and> cl_seq s' = (cl_seq s + 1) mod 65536 \<and> stream (c_in (cl_conn s')) = rest \<and>
     c_out (cl_conn s') = c_out (cl_conn s) @ wire (line_msg ((cl_seq s + 1) mod 65536) l) \<and>
     cl_out s' = cl_out s @ shown env sv l"

lemma command_wire:
  assumes "ready s" and "line_ok l"
    and "stream (c_in (cl_conn s)) = wire (owed_reply env sv (line_msg ((cl_seq s + 1) mod 65536) l)) @ rest"
  shows "\<exists>s'. client_command l s = (s', l \<noteq> ''/quit'') \<and> answered env sv l rest s s'"
proof -
  let ?q = "(cl_seq s + 1) mod 65536"
  have q: "0 \<le> ?q" "?q < 65536" by simp_all
  have len: "length (cl_hdr s) = HDR_SIZE" "length (cl_payload s) = 4097"
    using assms(1) by (simp_all add: ready_def MAX_PAYLOAD_def)
  consider "l = ''/status''" | "l = ''/quit''" | "l \<noteq> ''/status''" "l \<noteq> ''/quit''" by blast
  then show ?thesis
  proof cases
    case 1
    let ?p = "status_payload env sv"
    have v: "valid_msg (MSG_STATUS, ?q, ?p)"
      using q by (simp add: valid_msg_def status_payload_length MAX_PAYLOAD_def)
    have str: "stream (c_in (cl_conn s)) = wire (MSG_STATUS, ?q, ?p) @ rest"
      using assms(3) by (simp add: 1 line_msg_cases owed_reply_def msg_type_defs)
    obtain c where c: "client_recv (client_send MSG_STATUS None 0 (client_print (ARROW_OUT @ ''Requesting STATUS'' @ NL) s)) =
      (0, s\<lparr>cl_out := cl_out s @ ARROW_OUT @ ''Requesting STATUS'' @ NL, cl_seq := ?q, cl_conn := c,
            cl_hdr := hdr_bytes (proto_fill_header MSG_STATUS ?q (int (length ?p))),
            cl_payload := fill_buf ?p (cl_payload s)\<rparr>)"
      "stream (c_in c) = rest" "writable c" "c_out c = c_out (cl_conn s) @ wire (MSG_STATUS, ?q, [])"
      using exchange [OF assms(1) _ _ str v, of None "[]" 0] by auto
    from c len hdr_of_fill [OF v] show ?thesis
      by (simp add: 1 client_command_def Let_def status_payload_length answered_def ready_def MAX_PAYLOAD_def
          line_msg_cases shown_def print_status_def client_print_def status_fields)
  next
    case 2
    have v: "valid_msg (MSG_ACK, ?q, [])" using q by (simp add: valid_msg_def)
    have str: "stream (c_in (cl_conn s)) = wire (MSG_ACK, ?q, []) @ rest"
      using assms(3) by (simp add: 2 line_msg_cases owed_reply_def msg_type_defs)
    obtain c where c: "client_recv (client_send MSG_BYE None 0 (client_print (ARROW_OUT @ ''Sending BYE'' @ NL) s)) =
      (0, s\<lparr>cl_out := cl_out s @ ARROW_OUT @ ''Sending BYE'' @ NL, cl_seq := ?q, cl_conn := c,
            cl_hdr := hdr_bytes (proto_fill_header MSG_ACK ?q 0), cl_payload := fill_buf [] (cl_payload s)\<rparr>)"
      "stream (c_in c) = rest" "writable c" "c_out c = c_out (cl_conn s) @ wire (MSG_BYE, ?q, [])"
      using exchange [OF assms(1) _ _ str v, of None "[]" 0] by auto
    have ack: "proto_type_str MSG_ACK = ''ACK''" by (simp add: proto_type_str_def msg_type_defs)
    from c len hdr_of_fill [OF v] ack show ?thesis
      by (simp add: 2 client_command_def Let_def answered_def ready_def MAX_PAYLOAD_def
          line_msg_cases shown_def client_print_def)
  next
    case 3
    let ?p = "text_bytes l"
    have l: "length l < 4097" "NUL \<notin> set l" using assms(2) by (simp_all add: line_ok_def)
    have v: "valid_msg (MSG_ACK, ?q, ?p)" using q l by (simp add: valid_msg_def MAX_PAYLOAD_def)
    have str: "stream (c_in (cl_conn s)) = wire (MSG_ACK, ?q, ?p) @ rest"
      using assms(3) by (simp add: 3 line_msg_cases owed_reply_def msg_type_defs)
    obtain c where c: "client_recv (client_send MSG_DATA (Some ?p) (int (length l))
        (client_print (ARROW_OUT @ ''Sending DATA: '' @ l @ NL) s)) =
      (0, s\<lparr>cl_out := cl_out s @ ARROW_OUT @ ''Sending DATA: '' @ l @ NL, cl_seq := ?q, cl_conn := c,
            cl_hdr := hdr_bytes (proto_fill_header MSG_ACK ?q (int (length ?p))),
            cl_payload := fill_buf ?p (cl_payload s)\<rparr>)"
      "stream (c_in c) = rest" "writable c" "c_out c = c_out (cl_conn s) @ wire (MSG_DATA, ?q, ?p)"
      using exchange [OF assms(1) _ _ str v, of "Some ?p" ?p "int (length l)"] by auto
    have ack: "proto_type_str MSG_ACK = ''ACK''" by (simp add: proto_type_str_def msg_type_defs)
    from c len hdr_of_fill [OF v] ack text_shown [OF l(2), of "cl_payload s"] l(1) 3 show ?thesis
      by (simp add: client_command_def Let_def answered_def ready_def MAX_PAYLOAD_def
          line_msg_cases shown_def client_print_def)
  qed
qed

text \<open>Typed lines as they stand on standard input.\<close>

definition typed :: "string list \<Rightarrow> string" where
  "typed ls = concat (map (\<lambda>l. l @ NL) ls)"

lemma client_loop_session:
  "ready s \<Longrightarrow> list_all line_ok ls \<Longrightarrow>
   stream (c_in (cl_conn s)) = concat (map wire (owed_replies env sv (client_msgs (cl_seq s) ls))) \<Longrightarrow>
   c_out (cl_conn (client_loop (typed ls) s)) = c_out (cl_conn s) @ concat (map wire (client_msgs (cl_seq s) ls)) \<and>
   cl_out (client_loop (typed ls) s) = cl_out s @ transcript env sv ls"
proof (induction ls arbitrary: s sv)
  case Nil
  then show ?case by (simp add: typed_def client_loop.simps)
next
  case (Cons l ls)
  let ?q = "(cl_seq s + 1) mod 65536"
  let ?sv = "count_message sv"
  have ok: "line_ok l" "list_all line_ok ls" using Cons.prems(2) by simp_all
  have buf: "fgets 1024 (typed (l # ls)) = (l @ NL, typed ls)"
    using ok(1) fgets_line [of l 1024 "typed ls"] by (simp add: typed_def line_ok_def NL_def)
  have m: "fst (line_msg ?q l) = MSG_BYE \<longleftrightarrow> l = ''/quit''"
    by (simp add: line_msg_def msg_type_defs)
  define rest where "rest = (if l = ''/quit'' then [] else
      concat (map wire (owed_replies env ?sv (client_msgs ?q ls))))"
  have "stream (c_in (cl_conn s)) = wire (owed_reply env ?sv (line_msg ?q l)) @ rest"
    using Cons.prems(3) m by (simp add: rest_def)
  from command_wire [OF Cons.prems(1) ok(1) this] obtain s' where
    s': "client_command l s = (s', l \<noteq> ''/quit'')" "answered env ?sv l rest s s'" by blast
  have ne: "typed (l # ls) \<noteq> []" "l \<noteq> []" using ok(1) by (simp_all add: typed_def line_ok_def)
  have step: "client_loop (typed (l # ls)) s = (if l \<noteq> ''/quit'' then client_loop (typed ls) s' else s')"
    by (subst client_loop.simps) (simp only: buf prod.case chop_ok [OF ok(1)] s'(1) ne if_False)
  show ?case
  proof (cases "l = ''/quit''")
    case True
    with s'(2) step show ?thesis by (simp add: answered_def)
  next
    case False
    have "stream (c_in (cl_conn s')) = concat (map wire (owed_replies env ?sv (client_msgs (cl_seq s') ls)))"
      using s'(2) False by (simp add: answered_def rest_def)
    from Cons.IH [OF _ ok(2) this] s'(2) False step show ?thesis by (simp add: answered_def)
  qed
qed

lemma hello_length: "length (hello_payload pid) = 32"
  by (simp add: hello_payload_def client_name_def)

lemma say_hello_wire:
  assumes "ready s" and "cl_seq s = 0" and "stream (c_in (cl_conn s)) = wire (MSG_ACK, 1, []) @ rest"
  shows "ready (say_hello pid s) \<and> cl_seq (say_hello pid s) = 1 \<and>
    stream (c_in (cl_conn (say_hello pid s))) = rest \<and>
    c_out (cl_conn (say_hello pid s)) = c_out (cl_conn s) @ wire (MSG_HELLO, 1, hello_payload pid) \<and>
    cl_out (say_hello pid s) = cl_out s @ ARROW_OUT @ ''Sending HELLO (name: '' @ client_name pid @ '')'' @ NL @
      ARROW_IN @ ''Received ACK (seq=1)'' @ NL @ NL"
proof -
  have v: "valid_msg (MSG_ACK, 1, [])" by (simp add: valid_msg_def)
  have len: "length (cl_hdr s) = HDR_SIZE" "length (cl_payload s) = 4097"
    using assms(1) by (simp_all add: ready_def MAX_PAYLOAD_def)
  obtain c where c: "client_recv (client_send MSG_HELLO (Some (hello_payload pid)) 32
      (client_print (ARROW_OUT @ ''Sending HELLO (name: '' @ client_name pid @ '')'' @ NL) s)) =
    (0, s\<lparr>cl_out := cl_out s @ ARROW_OUT @ ''Sending HELLO (name: '' @ client_name pid @ '')'' @ NL,
          cl_seq := 1, cl_conn := c,
          cl_hdr := hdr_bytes (proto_fill_header MSG_ACK 1 0), cl_payload := fill_buf [] (cl_payload s)\<rparr>)"
    "stream (c_in c) = rest" "writable c" "c_out c = c_out (cl_conn s) @ wire (MSG_HELLO, 1, hello_payload pid)"
    using exchange [OF assms(1) _ _ assms(3) v, of "Some (hello_payload pid)" "hello_payload pid" 32]
    by (auto simp: hello_length assms(2))
  have "proto_type_str MSG_ACK = ''ACK''" "fmt_u 1 = ''1''"
    by (simp_all add: proto_type_str_def msg_type_defs fmt_u_def dec.simps digit_def)
  with c len hdr_of_fill [OF v] show ?thesis
    by (simp add: say_hello_def Let_def ready_def MAX_PAYLOAD_def client_print_def)
qed

text \<open>
  C9. Client and server understand each other: if the bytes that reach the client are the replies
  the server owes to HELLO and to the messages of the typed lines (split into reads in any way), then
  the client sends exactly HELLO and those messages, and prints for every line the matching answer:
  the text echoed for data, the three counters for /status, and the farewell for /quit.
\<close>

theorem client_session:
  assumes "stream (c_in c) = concat (map wire (owed_replies env sv
      ((MSG_HELLO, 1, hello_payload pid) # client_msgs 1 ls)))"
    and "list_all line_ok ls" and "writable c"
    and "length hdr0 = HDR_SIZE" and "length payload0 = MAX_PAYLOAD + 1"
  shows "c_out (cl_conn (client_main pid hdr0 payload0 (typed ls) c)) =
      c_out c @ concat (map wire ((MSG_HELLO, 1, hello_payload pid) # client_msgs 1 ls)) \<and>
    cl_out (client_main pid hdr0 payload0 (typed ls) c) =
      ''Connected!'' @ NL @ NL @
      ARROW_OUT @ ''Sending HELLO (name: '' @ client_name pid @ '')'' @ NL @
      ARROW_IN @ ''Received ACK (seq=1)'' @ NL @ NL @
      ''Commands: <text> = send data, /status = get status, /quit = disconnect'' @ NL @ NL @
      transcript env (count_message sv) ls @ ''Disconnected.'' @ NL"
proof -
  define s0 where "s0 = \<lparr>cl_conn = c, cl_seq = 0, cl_hdr = hdr0, cl_payload = payload0,
    cl_out = ''Connected!'' @ NL @ NL\<rparr>"
  let ?rest = "concat (map wire (owed_replies env (count_message sv) (client_msgs 1 ls)))"
  have "ready s0" "cl_seq s0 = 0" using assms(3-5) by (simp_all add: s0_def ready_def)
  moreover have "stream (c_in (cl_conn s0)) = wire (MSG_ACK, 1, []) @ ?rest"
    using assms(1) by (simp add: s0_def owed_reply_def msg_type_defs)
  ultimately have h: "ready (say_hello pid s0)" "cl_seq (say_hello pid s0) = 1"
    "stream (c_in (cl_conn (say_hello pid s0))) = ?rest"
    "c_out (cl_conn (say_hello pid s0)) = c_out c @ wire (MSG_HELLO, 1, hello_payload pid)"
    "cl_out (say_hello pid s0) = cl_out s0 @ ARROW_OUT @ ''Sending HELLO (name: '' @ client_name pid @ '')'' @ NL @
      ARROW_IN @ ''Received ACK (seq=1)'' @ NL @ NL"
    using say_hello_wire [of s0 ?rest pid] by (simp_all add: s0_def)
  define s1 where "s1 = client_print (''Commands: <text> = send data, /status = get status, /quit = disconnect'' @ NL @ NL)
                 (say_hello pid s0)"
  have s1: "ready s1" "cl_seq s1 = 1" "stream (c_in (cl_conn s1)) = ?rest"
    using h by (simp_all add: s1_def client_print_def ready_def)
  have main: "client_main pid hdr0 payload0 (typed ls) c = client_print (''Disconnected.'' @ NL) (client_loop (typed ls) s1)"
    by (simp only: client_main_def Let_def s0_def s1_def)
  from client_loop_session [OF s1(1) assms(2), of env "count_message sv"] s1(2,3) h(4,5) show ?thesis
    unfolding main by (simp add: client_print_def s1_def s0_def)
qed

text \<open>The replies to a short session, arriving in two pieces.\<close>

definition sample_lines :: "string list" where
  "sample_lines = [''hello'', ''/status'', ''/quit'']"

definition sample_replies :: "u8 list" where
  "sample_replies = concat (map wire (owed_replies sample_env sample_server
     ((MSG_HELLO, 1, hello_payload 42) # client_msgs 1 sample_lines)))"

definition client_conn :: conn where
  "client_conn = \<lparr>c_in = [Arrive (take 30 sample_replies), Arrive (drop 30 sample_replies)],
     c_out = [], c_wr = [7]\<rparr>"

theorem client_session_witness:
  "c_out (cl_conn (client_main 42 (replicate 12 0) (replicate 4097 0) (typed sample_lines) client_conn)) =
     wire (MSG_HELLO, 1, hello_payload 42) @ wire (MSG_DATA, 2, text_bytes ''hello'') @
     wire (MSG_STATUS, 3, []) @ wire (MSG_BYE, 4, [])"
proof -
  have len: "length sample_replies = 12 + (12 + 5) + (12 + 12) + 12" by code_simp
  then have "take 30 sample_replies \<noteq> []" "drop 30 sample_replies \<noteq> []" by auto
  then have "stream (c_in client_conn) = sample_replies" by (simp add: client_conn_def)
  moreover have "list_all line_ok sample_lines" by code_simp
  moreover have "writable client_conn" by (simp add: client_conn_def writable_def)
  ultimately have "c_out (cl_conn (client_main 42 (replicate 12 0) (replicate 4097 0) (typed sample_lines) client_conn)) =
      c_out client_conn @ concat (map wire ((MSG_HELLO, 1, hello_payload 42) # client_msgs 1 sample_lines))"
    by (intro conjunct1 [OF client_session]) (simp_all add: sample_replies_def HDR_SIZE_def MAX_PAYLOAD_def)
  also have "client_msgs 1 sample_lines =
      [(MSG_DATA, 2, text_bytes ''hello''), (MSG_STATUS, 3, []), (MSG_BYE, 4, [])]"
    by code_simp
  finally show ?thesis by (simp add: client_conn_def)
qed

end
