(* ===== verification/EchoServers.thy ===== *)
theory EchoServers
  imports MiniClient
begin

text \<open>
  The simple echo servers and their clients: tcp_server.c, tcp_server_concurrent.c and tcp_client.c of
  NetworkProgramming/Handson/lab02_tcp_server_client, udp_server.c and udp_client.c of lab03_udp, unix_server.c and
  unix_client.c of lab05_domain_sockets, and the pair buggy_server.c and buggy_client.c of
  Debugging/Handson/project_crash_detective. Connections and standard input are those of the mini-protocol; what a program
  prints is the list of its lines. Sockets are set up already; a server runs until its clients are served.
\<close>

section \<open>Transfers\<close>

text \<open>The inner loop: write until everything is sent or a write fails.\<close>

function write_fully :: "u8 list \<Rightarrow> conn \<Rightarrow> bool \<times> conn" where
  "write_fully bs c =
     (if bs = [] then (True, c)
      else (case sock_write bs c of
              (w, c1) \<Rightarrow> if w \<le> 0 then (False, c1) else write_fully (drop (nat w) bs) c1))"
  by pat_completeness auto
termination by (relation "measure (\<lambda>(bs, _). length bs)") auto

declare write_fully.simps [simp del]

lemma write_fully_snd: "snd (write_fully bs c) = snd (write_all_from k bs c)"
proof (induction k bs c rule: write_all_from.induct)
  case (1 k bs c)
  show ?case
  proof (cases "bs = []")
    case False
    with 1 show ?thesis by (cases "sock_write bs c") (auto simp: write_fully.simps [of bs c] write_all_from.simps [of k bs c])
  qed (simp add: write_fully.simps write_all_from.simps)
qed

lemma write_fully_in: "c_in (snd (write_fully bs c)) = c_in c"
  by (simp add: write_fully_snd [where k = 0] write_all_from_in)

lemma write_fully_out:
  "writable c \<Longrightarrow> fst (write_fully bs c) \<and> c_out (snd (write_fully bs c)) = c_out c @ bs \<and> writable (snd (write_fully bs c))"
proof (induction bs c rule: write_fully.induct)
  case (1 bs c)
  show ?case
  proof (cases "bs = []")
    case False
    obtain w c1 where w: "sock_write bs c = (w, c1)" by (cases "sock_write bs c")
    with 1(2) False have c1: "0 < w" "w \<le> int (length bs)" "writable c1" "c_out c1 = c_out c @ take (nat w) bs"
      by (auto simp: sock_write_def writable_def Let_def split: list.splits)
    with 1(1) [OF False w [symmetric]] w False show ?thesis by (simp add: write_fully.simps [of bs c])
  qed (use 1 in \<open>simp add: write_fully.simps\<close>)
qed

text \<open>\<open>%.*s\<close> with the number of bytes received, and a buffer that is printed up to its first NUL.\<close>

definition printed :: "u8 list \<Rightarrow> string" where
  "printed bs = fmt_prec (length bs) (map chr8 bs)"

section \<open>tcp_server\<close>

definition received_line :: "u8 list \<Rightarrow> string" where
  "received_line bs = ''  Received '' @ fmt_d (int (length bs)) @ '' bytes: '' @ printed bs"

function tcp_echo :: "conn \<Rightarrow> string list \<times> conn" where
  "tcp_echo c =
     (case sock_read 1024 c of
        (n, bs, c1) \<Rightarrow>
          if n \<le> 0 then ([], c1)
          else (case tcp_echo (snd (write_fully bs c1)) of (log, c2) \<Rightarrow> (received_line bs # log, c2)))"
  by pat_completeness auto
termination
proof (relation "measure in_weight")
  fix c n y bs c1
  assume a: "(n, y) = sock_read 1024 c" "(bs, c1) = y" "\<not> n \<le> (0 :: int)"
  have "in_weight (snd (write_fully bs c1)) = in_weight c1" by (simp add: in_weight_def write_fully_in)
  with sock_read_weight [of 1024 c n bs c1] a show "(snd (write_fully bs c1), c) \<in> measure in_weight" by simp
qed simp

declare tcp_echo.simps [simp del]

definition peer :: "string \<Rightarrow> int \<Rightarrow> string" where
  "peer ip port = ip @ '':'' @ fmt_d port"

text \<open>The accepted clients, one after another; none for a failed \<open>accept\<close>.\<close>

fun tcp_server :: "(string \<times> int \<times> conn) option list \<Rightarrow> string list \<times> conn list" where
  "tcp_server [] = ([], [])"
| "tcp_server (None # rest) = tcp_server rest"
| "tcp_server (Some (ip, port, c) # rest) =
     (case (tcp_echo c, tcp_server rest) of
        ((log, c1), (logs, cs)) \<Rightarrow>
          ((''Client connected: '' @ peer ip port @ NL) # log @ [''Client disconnected: '' @ peer ip port @ NL] @ logs, c1 # cs))"

section \<open>tcp_server_concurrent\<close>

text \<open>The flag of the loop tells whether it ended without a failed write.\<close>

function fork_echo :: "conn \<Rightarrow> bool \<times> conn" where
  "fork_echo c =
     (case sock_read 1024 c of
        (n, bs, c1) \<Rightarrow>
          if n \<le> 0 then (True, c1)
          else if fst (write_fully bs c1) then fork_echo (snd (write_fully bs c1)) else write_fully bs c1)"
  by pat_completeness auto
termination
proof (relation "measure in_weight")
  fix c n y bs c1
  assume a: "(n, y) = sock_read 1024 c" "(bs, c1) = y" "\<not> n \<le> (0 :: int)"
  have "in_weight (snd (write_fully bs c1)) = in_weight c1" by (simp add: in_weight_def write_fully_in)
  with sock_read_weight [of 1024 c n bs c1] a show "(snd (write_fully bs c1), c) \<in> measure in_weight" by simp
qed simp

declare fork_echo.simps [simp del]

definition fork_handle_client :: "int \<Rightarrow> string \<Rightarrow> int \<Rightarrow> conn \<Rightarrow> string list \<times> conn" where
  "fork_handle_client pid ip port c =
     (case fork_echo c of
        (fine, c1) \<Rightarrow>
          ((''[PID '' @ fmt_d pid @ ''] Handling client '' @ peer ip port @ NL) #
           (if fine then [''[PID '' @ fmt_d pid @ ''] Client '' @ peer ip port @ '' disconnected'' @ NL] else []), c1))"

text \<open>The result of \<open>fork\<close> for each accepted client: a process, or a failure, after which the connection is closed unserved.\<close>

fun fork_server :: "(string \<times> int \<times> conn \<times> int) option list \<Rightarrow> (string list \<times> conn) list" where
  "fork_server [] = []"
| "fork_server (None # rest) = fork_server rest"
| "fork_server (Some (ip, port, c, pid) # rest) =
     (if pid < 0 then ([], c) else fork_handle_client pid ip port c) # fork_server rest"

section \<open>unix_server and udp_server\<close>

text \<open>The result of \<open>write\<close> is ignored.\<close>

function unix_echo :: "conn \<Rightarrow> string list \<times> conn" where
  "unix_echo c =
     (case sock_read 1024 c of
        (n, bs, c1) \<Rightarrow>
          if n \<le> 0 then ([], c1)
          else (case unix_echo (snd (sock_write bs c1)) of (log, c2) \<Rightarrow> (received_line bs # log, c2)))"
  by pat_completeness auto
termination
proof (relation "measure in_weight")
  fix c n y bs c1
  assume a: "(n, y) = sock_read 1024 c" "(bs, c1) = y" "\<not> n \<le> (0 :: int)"
  have "in_weight (snd (sock_write bs c1)) = in_weight c1" by (auto simp: in_weight_def sock_write_def Let_def split: list.split)
  with sock_read_weight [of 1024 c n bs c1] a show "(snd (sock_write bs c1), c) \<in> measure in_weight" by simp
qed simp

declare unix_echo.simps [simp del]

fun unix_server :: "(int \<times> conn) option list \<Rightarrow> string list \<times> conn list" where
  "unix_server [] = ([], [])"
| "unix_server (None # rest) = unix_server rest"
| "unix_server (Some (fd, c) # rest) =
     (case (unix_echo c, unix_server rest) of
        ((log, c1), (logs, cs)) \<Rightarrow>
          ((''Client connected (fd='' @ fmt_d fd @ '')'' @ NL) # log @ [''Client disconnected'' @ NL] @ logs, c1 # cs))"

text \<open>A datagram longer than the buffer is cut; \<open>None\<close> is a failed \<open>recvfrom\<close>. The second list is what is sent, with its destination.\<close>

fun udp_server :: "((string \<times> int) \<times> u8 list) option list \<Rightarrow> string list \<times> ((string \<times> int) \<times> u8 list) list" where
  "udp_server [] = ([], [])"
| "udp_server (None # rest) = udp_server rest"
| "udp_server (Some ((ip, port), d) # rest) =
     (let bs = take 4095 d in
      case udp_server rest of
        (log, out) \<Rightarrow>
          ((''From '' @ peer ip port @ '' ('' @ fmt_d (int (length bs)) @ '' bytes): '' @ printed bs) # log, ((ip, port), bs) # out))"

section \<open>The clients\<close>

text \<open>The bytes of a line from \<open>fgets\<close> up to its first NUL.\<close>

definition line_bytes :: "string \<Rightarrow> u8 list" where
  "line_bytes line = text_bytes (takeWhile (\<lambda>ch. ch \<noteq> NUL) line)"

lemma fgets_rest: "(a, b) = fgets 1024 s \<Longrightarrow> s \<noteq> [] \<Longrightarrow> length b < length s"
  by (rule fgets_shorter)

function tcp_client :: "string \<Rightarrow> conn \<Rightarrow> string list \<times> conn" where
  "tcp_client stdin c =
     (if stdin = [] then ([], c)
      else (case fgets 1024 stdin of
              (line, rest) \<Rightarrow>
                (case write_fully (line_bytes line) c of
                   (sent, c1) \<Rightarrow>
                     if \<not> sent then ([], c1)
                     else (case sock_read 1023 c1 of
                             (n, bs, c2) \<Rightarrow>
                               if n \<le> 0 then ([''Server closed connection.'' @ NL], c2)
                               else (case tcp_client rest c2 of (out, c3) \<Rightarrow> ((''Echo: '' @ printed bs) # out, c3))))))"
  by pat_completeness auto
termination by (relation "measure (\<lambda>(stdin, _). length stdin)") (auto dest: fgets_rest)

declare tcp_client.simps [simp del]

function unix_client :: "string \<Rightarrow> conn \<Rightarrow> string list \<times> conn" where
  "unix_client stdin c =
     (if stdin = [] then ([], c)
      else (case fgets 1024 stdin of
              (line, rest) \<Rightarrow>
                (case sock_read 1023 (snd (sock_write (line_bytes line) c)) of
                   (n, bs, c2) \<Rightarrow>
                     if n \<le> 0 then ([''Server closed connection.'' @ NL], c2)
                     else (case unix_client rest c2 of (out, c3) \<Rightarrow> ((''Echo: '' @ printed bs) # out, c3)))))"
  by pat_completeness auto
termination by (relation "measure (\<lambda>(stdin, _). length stdin)") (auto dest: fgets_rest)

declare unix_client.simps [simp del]

text \<open>For each line, the answer to the datagram sent: none if it could not be sent or nothing has come within five seconds.\<close>

function udp_client :: "string \<Rightarrow> (nat \<Rightarrow> u8 list \<Rightarrow> u8 list option) \<Rightarrow> nat \<Rightarrow> string list" where
  "udp_client stdin net k =
     (if stdin = [] then []
      else (case fgets 1024 stdin of
              (line, rest) \<Rightarrow>
                (case net k (line_bytes line) of None \<Rightarrow> [] | Some d \<Rightarrow> [''Echo: '' @ printed (take 1023 d)]) @
                udp_client rest net (k + 1)))"
  by pat_completeness auto
termination by (relation "measure (\<lambda>(stdin, _). length stdin)") (auto dest: fgets_rest)

declare udp_client.simps [simp del]

section \<open>The echo contract\<close>

locale echo_service =
  fixes fit :: "conn \<Rightarrow> bool"
    and serve :: "conn \<Rightarrow> 'l \<times> conn"
  assumes serve_law: "fit c \<Longrightarrow> c_out (snd (serve c)) = c_out c @ stream (c_in c)"
begin

lemma echoes_pieces:
  "fit c \<Longrightarrow> c_in c = map Arrive ps \<Longrightarrow> [] \<notin> set ps \<Longrightarrow> c_out (snd (serve c)) = c_out c @ concat ps"
proof -
  have "[] \<notin> set ps \<Longrightarrow> stream (map Arrive ps) = concat ps" by (induction ps) auto
  then show "fit c \<Longrightarrow> c_in c = map Arrive ps \<Longrightarrow> [] \<notin> set ps \<Longrightarrow> c_out (snd (serve c)) = c_out c @ concat ps"
    by (simp add: serve_law)
qed

lemma serves_each: "list_all fit cs \<Longrightarrow> map (\<lambda>c. c_out (snd (serve c))) cs = map (\<lambda>c. c_out c @ stream (c_in c)) cs"
  by (induction cs) (simp_all add: serve_law)

end

lemma sock_read_cases:
  assumes "0 < k" and "sock_read k c = (n, bs, c1)"
  shows "stream (c_in c) = [] \<and> n \<le> 0 \<and> c_out c1 = c_out c \<or>
    0 < n \<and> stream (c_in c) = bs @ stream (c_in c1) \<and> c_out c1 = c_out c \<and> c_wr c1 = c_wr c"
proof (cases "stream (c_in c) = []")
  case True
  then show ?thesis using assms(2) by (cases "c_in c" rule: stream.cases) (auto simp: sock_read_def split: if_splits)
next
  case False
  then show ?thesis using sock_read_stream [of k c] assms by auto
qed

lemma tcp_echo_law: "writable c \<Longrightarrow> c_out (snd (tcp_echo c)) = c_out c @ stream (c_in c)"
proof (induction c rule: tcp_echo.induct)
  case (1 c)
  obtain n bs c1 where r: "sock_read 1024 c = (n, bs, c1)" by (cases "sock_read 1024 c")
  consider "n \<le> 0" "stream (c_in c) = []" "c_out c1 = c_out c"
    | "0 < n" "stream (c_in c) = bs @ stream (c_in c1)" "c_out c1 = c_out c" "c_wr c1 = c_wr c"
    using sock_read_cases [OF _ r] by auto
  then show ?case
  proof cases
    case 1
    then show ?thesis by (simp add: r tcp_echo.simps [of c])
  next
    case 2
    then have w: "writable c1" using 1(2) by (simp add: writable_def)
    show ?thesis using 1(1) [OF r [symmetric] refl] write_fully_out [OF w, of bs] 2
      by (simp add: r tcp_echo.simps [of c] write_fully_in split_beta)
  qed
qed

lemma fork_echo_law: "writable c \<Longrightarrow> fst (fork_echo c) \<and> c_out (snd (fork_echo c)) = c_out c @ stream (c_in c)"
proof (induction c rule: fork_echo.induct)
  case (1 c)
  obtain n bs c1 where r: "sock_read 1024 c = (n, bs, c1)" by (cases "sock_read 1024 c")
  consider "n \<le> 0" "stream (c_in c) = []" "c_out c1 = c_out c"
    | "0 < n" "stream (c_in c) = bs @ stream (c_in c1)" "c_out c1 = c_out c" "c_wr c1 = c_wr c"
    using sock_read_cases [OF _ r] by auto
  then show ?case
  proof cases
    case 1
    then show ?thesis by (simp add: r fork_echo.simps [of c])
  next
    case 2
    then have w: "writable c1" using 1(2) by (simp add: writable_def)
    show ?thesis using 1(1) [OF r [symmetric] refl] write_fully_out [OF w, of bs] 2
      by (simp add: r fork_echo.simps [of c] write_fully_in)
  qed
qed

lemma unix_echo_law: "c_wr c = [] \<Longrightarrow> c_out (snd (unix_echo c)) = c_out c @ stream (c_in c)"
proof (induction c rule: unix_echo.induct)
  case (1 c)
  obtain n bs c1 where r: "sock_read 1024 c = (n, bs, c1)" by (cases "sock_read 1024 c")
  consider "n \<le> 0" "stream (c_in c) = []" "c_out c1 = c_out c"
    | "0 < n" "stream (c_in c) = bs @ stream (c_in c1)" "c_out c1 = c_out c" "c_wr c1 = c_wr c"
    using sock_read_cases [OF _ r] by auto
  then show ?case
  proof cases
    case 1
    then show ?thesis by (simp add: r unix_echo.simps [of c])
  next
    case 2
    then show ?thesis using 1(1) [OF r [symmetric] refl] 1(2)
      by (simp add: r unix_echo.simps [of c] sock_write_def split_beta)
  qed
qed

interpretation tcp: echo_service writable tcp_echo
  by unfold_locales (rule tcp_echo_law)

interpretation forked: echo_service writable "fork_handle_client pid ip port" for pid ip port
  by unfold_locales (simp add: fork_handle_client_def split_beta fork_echo_law)

interpretation local_socket: echo_service "\<lambda>c. c_wr c = []" unix_echo
  by unfold_locales (rule unix_echo_law)

text \<open>The server of the local socket loses what a short write leaves.\<close>

lemma unix_echo_loses:
  "c_out (snd (unix_echo \<lparr>c_in = [Arrive [1, 2, 3]], c_out = [], c_wr = [2]\<rparr>)) = [1, 2]"
  by (simp add: unix_echo.simps sock_read_def sock_write_def Let_def)

lemma udp_server_echoes: "snd (udp_server evs) = map (\<lambda>(a, d). (a, take 4095 d)) (List.map_filter id evs)"
  by (induction evs rule: udp_server.induct) (simp_all add: map_filter_simps Let_def split_beta)


section \<open>A session\<close>

lemma takeWhile_no_nul: "NUL \<notin> set l \<Longrightarrow> takeWhile (\<lambda>ch. ch \<noteq> NUL) l = l"
  by (induction l) auto

lemma printed_text: "NUL \<notin> set l \<Longrightarrow> printed (text_bytes l) = l"
  by (simp add: printed_def text_bytes_def fmt_prec_def o_def takeWhile_no_nul)

lemma line_bytes_text: "NUL \<notin> set l \<Longrightarrow> line_bytes l = text_bytes l"
  by (simp add: line_bytes_def takeWhile_no_nul)

lemma text_bytes_append: "text_bytes (a @ b) = text_bytes a @ text_bytes b"
  by (simp add: text_bytes_def)

lemma sock_read_piece: "c_in c = Arrive bs # es \<Longrightarrow> length bs \<le> n \<Longrightarrow> sock_read n c = (int (length bs), bs, c\<lparr>c_in := es\<rparr>)"
  by (simp add: sock_read_def)

text \<open>What one \<open>read\<close> of up to \<open>n\<close> bytes returns.\<close>

definition piece :: "nat \<Rightarrow> u8 list \<Rightarrow> bool" where
  "piece n p \<longleftrightarrow> p \<noteq> [] \<and> length p \<le> n"

lemma chr8_NUL: "chr8 b = NUL \<Longrightarrow> b = 0"
proof -
  assume "chr8 b = NUL"
  moreover have "unat b < 256" using unsigned_less [of b] by simp
  ultimately show "b = 0" by (simp add: chr8_def char_of_eq_iff take_bit_nat_eq_self unsigned_eq_0_iff)
qed

lemma ord8_NUL: "ord8 ch = 0 \<Longrightarrow> ch = NUL"
proof -
  assume "ord8 ch = 0"
  then have "ch = chr8 0" using chr8_ord8 [of ch] by simp
  also have "chr8 0 = NUL" by (simp add: chr8_def char_of_eq_iff)
  finally show "ch = NUL" .
qed

lemma printed_piece: "0 \<notin> set p \<Longrightarrow> printed p = map chr8 p"
proof -
  assume "0 \<notin> set p"
  then have "NUL \<notin> set (map chr8 p)" by (auto dest!: sym [of NUL] chr8_NUL)
  then show ?thesis by (simp add: printed_def fmt_prec_def takeWhile_no_nul)
qed

text \<open>One line is sent before each read, so \<open>k\<close> pieces of input make the client send \<open>k + 1\<close> lines, if there are as many.\<close>

lemma tcp_client_run:
  assumes "NUL \<notin> set stdin" and "writable c" and "c_in c = map Arrive ps" and "list_all (piece 1023) ps"
  shows "c_out (snd (tcp_client stdin c)) = c_out c @ text_bytes (concat (take (length ps + 1) (input_lines 1024 stdin))) \<and>
    (length (input_lines 1024 stdin) \<le> length ps \<longrightarrow>
      fst (tcp_client stdin c) = map (\<lambda>p. ''Echo: '' @ printed p) (take (length (input_lines 1024 stdin)) ps))"
  using assms
proof (induction "1024 :: nat" stdin arbitrary: c ps rule: input_lines.induct)
  case (1 s)
  show ?case
  proof (cases "s = []")
    case False
    obtain a b where ab: "fgets 1024 s = (a, b)" by (cases "fgets 1024 s")
    then have s: "s = a @ b" by (rule fgets_split)
    have lines: "input_lines 1024 s = a # input_lines 1024 b" using ab False by (simp add: input_lines.simps [of 1024 s])
    have a: "NUL \<notin> set a" "NUL \<notin> set b" using 1(2) s by simp_all
    define c1 where "c1 = snd (write_fully (text_bytes a) c)"
    have c1: "write_fully (text_bytes a) c = (True, c1)" "c_out c1 = c_out c @ text_bytes a" "writable c1" "c_in c1 = map Arrive ps"
      using write_fully_out [OF 1(3), of "text_bytes a"] 1(4) by (simp_all add: c1_def write_fully_in prod_eq_iff)
    show ?thesis
    proof (cases ps)
      case Nil
      with c1 False show ?thesis
        by (simp add: tcp_client.simps [of s] ab line_bytes_text [OF a(1)] lines sock_read_def)
    next
      case (Cons p qs)
      define c2 where "c2 = c1\<lparr>c_in := map Arrive qs\<rparr>"
      have p: "piece 1023 p" using 1(5) Cons by simp
      have r: "sock_read 1023 c1 = (int (length p), p, c2)"
        using sock_read_piece [of c1 p] c1(4) p Cons by (simp add: c2_def piece_def)
      have ih: "c_out (snd (tcp_client b c2)) = c_out c2 @ text_bytes (concat (take (length qs + 1) (input_lines 1024 b))) \<and>
          (length (input_lines 1024 b) \<le> length qs \<longrightarrow>
            fst (tcp_client b c2) = map (\<lambda>p. ''Echo: '' @ printed p) (take (length (input_lines 1024 b)) qs))"
        using 1(1) [of c2 qs] False ab a(2) c1(3) 1(5) Cons by (simp add: c2_def writable_def)
      obtain out c3 where d: "tcp_client b c2 = (out, c3)" by (cases "tcp_client b c2")
      have "tcp_client s c = ((''Echo: '' @ printed p) # out, c3)"
        using False p by (simp add: tcp_client.simps [of s] ab line_bytes_text [OF a(1)] c1(1) r  d piece_def)
      moreover have "c_out c2 = c_out c1" by (simp add: c2_def)
      ultimately show ?thesis using ih c1(2) Cons by (simp add: lines d text_bytes_append)
    qed
  qed (simp add: tcp_client.simps input_lines.simps text_bytes_def)
qed

lemma tcp_server_run:
  assumes "writable c" and "c_in c = map Arrive qs" and "list_all (piece 1024) qs"
  shows "fst (tcp_echo c) = map (\<lambda>q. ''  Received '' @ fmt_d (int (length q)) @ '' bytes: '' @ printed q) qs"
  using assms
proof (induction qs arbitrary: c)
  case Nil
  then show ?case by (simp add: tcp_echo.simps sock_read_def)
next
  case (Cons q qs)
  define c1 where "c1 = c\<lparr>c_in := map Arrive qs\<rparr>"
  define c2 where "c2 = snd (write_fully q c1)"
  have q: "piece 1024 q" using Cons.prems(3) by simp
  have r: "sock_read 1024 c = (int (length q), q, c1)"
    using sock_read_piece [of c q] Cons.prems(2) q by (simp add: c1_def piece_def)
  have "writable c1" using Cons.prems(1) by (simp add: c1_def writable_def)
  then have "writable c2" "c_in c2 = map Arrive qs"
    using write_fully_out by (simp_all add: c2_def write_fully_in) (simp add: c1_def)
  moreover obtain log c3 where d: "tcp_echo c2 = (log, c3)" by (cases "tcp_echo c2")
  ultimately have "log = map (\<lambda>q. ''  Received '' @ fmt_d (int (length q)) @ '' bytes: '' @ printed q) qs"
    using Cons.IH [of c2] Cons.prems(3) by simp
  then show ?case using q
    by (simp add: tcp_echo.simps [of c] r c2_def [symmetric] d received_line_def  piece_def)
qed

lemma input_lines_set: "1 < n \<Longrightarrow> l \<in> set (input_lines n s) \<Longrightarrow> set l \<subseteq> set s"
  using set_concat [of "input_lines n s"] by (auto simp: input_lines_concat)

text \<open>As long as the answers follow the lines, there is a piece to read for every line.\<close>

lemma enough_pieces:
  assumes "[] \<notin> set ls" and "concat ps = text_bytes (concat (take (length ps + 1) ls))"
    and "\<forall>k \<le> length ls. length (concat (take k ps)) \<le> length (concat (take k ls))"
  shows "length ls \<le> length ps"
proof (rule ccontr)
  assume "\<not> length ls \<le> length ps"
  then have k: "length ps < length ls" by simp
  have "length (concat (take (Suc (length ps)) ls)) = length (concat ps)" using assms(2) by (simp add: text_bytes_def)
  also have "\<dots> \<le> length (concat (take (length ps) ls))" using assms(3) [rule_format, of "length ps"] k by simp
  finally have "ls ! length ps = []" by (simp add: take_Suc_conv_app_nth [OF k])
  with k assms(1) show False by (metis nth_mem)
qed

lemma text_bytes_no_nul: "NUL \<notin> set s \<Longrightarrow> 0 \<notin> set (text_bytes s)"
  by (auto simp: text_bytes_def dest!: sym [of 0] ord8_NUL)

lemma chr8_text: "map chr8 (text_bytes s) = s"
  by (simp add: text_bytes_def o_def)

text \<open>
  C27. The TCP client and the TCP server together. The input of the server is what the client has sent, in any pieces \<open>qs\<close>,
  and the input of the client is what the server has sent, in any pieces \<open>ps\<close>; a piece is what one \<open>read\<close> returns, and the only thing
  assumed of the network is that it is reliable and that no byte of an echo comes before the line is sent. Whatever the single writes of the
  two accept, the client sends everything typed and the server returns it all, reporting each piece with its length; the client
  shows exactly one piece for each line, which is the line itself when the pieces are the lines.
\<close>

theorem tcp_echo_session:
  assumes "NUL \<notin> set stdin" and "writable client" and "writable server" and "c_out client = []" and "c_out server = []"
    and "c_in server = map Arrive qs" and "concat qs = c_out (snd (tcp_client stdin client))"
    and "c_in client = map Arrive ps" and "concat ps = c_out (snd (tcp_echo server))"
    and "\<forall>q \<in> set qs. q \<noteq> [] \<and> length q \<le> 1024" and "\<forall>p \<in> set ps. p \<noteq> [] \<and> length p \<le> 1023"
    and "\<forall>k \<le> length (input_lines 1024 stdin). length (concat (take k ps)) \<le> length (concat (take k (input_lines 1024 stdin)))"
  shows "c_out (snd (tcp_client stdin client)) = text_bytes stdin \<and> c_out (snd (tcp_echo server)) = text_bytes stdin \<and>
    length (input_lines 1024 stdin) \<le> length ps \<and>
    fst (tcp_client stdin client) = map (\<lambda>p. ''Echo: '' @ map chr8 p) (take (length (input_lines 1024 stdin)) ps) \<and>
    fst (tcp_echo server) = map (\<lambda>q. ''  Received '' @ fmt_d (int (length q)) @ '' bytes: '' @ map chr8 q) qs \<and>
    (ps = map text_bytes (input_lines 1024 stdin) \<longrightarrow>
      fst (tcp_client stdin client) = map (\<lambda>l. ''Echo: '' @ l) (input_lines 1024 stdin))"
proof -
  let ?ls = "input_lines 1024 stdin"
  have out: "concat ps = concat qs"
    using tcp.echoes_pieces [OF assms(3,6)] assms(5,9,10) by auto
  have run: "c_out (snd (tcp_client stdin client)) = text_bytes (concat (take (length ps + 1) ?ls))"
    "length ?ls \<le> length ps \<longrightarrow> fst (tcp_client stdin client) = map (\<lambda>p. ''Echo: '' @ printed p) (take (length ?ls) ps)"
    using tcp_client_run [OF assms(1,2,8)] assms(4,11) by (auto simp: list_all_iff piece_def)
  have enough: "length ?ls \<le> length ps"
    using enough_pieces [of ?ls ps] input_lines_line [of "[]" 1024 stdin] run(1) out assms(7,12) by auto
  then have sent: "c_out (snd (tcp_client stdin client)) = text_bytes stdin"
    using run(1) by (simp add: input_lines_concat)
  then have bytes: "concat ps = text_bytes stdin" "concat qs = text_bytes stdin" using out assms(7) by simp_all
  have shown: "printed p = map chr8 p" if "p \<in> set ps \<union> set qs" for p
    using that text_bytes_no_nul [OF assms(1)] bytes set_concat [of ps] set_concat [of qs] by (intro printed_piece) auto
  then have "map (\<lambda>p. ''Echo: '' @ printed p) (take (length ?ls) ps) = map (\<lambda>p. ''Echo: '' @ map chr8 p) (take (length ?ls) ps)"
    by (intro map_cong) (auto dest: in_set_takeD)
  moreover have "fst (tcp_echo server) = map (\<lambda>q. ''  Received '' @ fmt_d (int (length q)) @ '' bytes: '' @ map chr8 q) qs"
    using tcp_server_run [OF assms(3,6)] assms(10) shown by (auto simp: list_all_iff piece_def)
  ultimately show ?thesis
    using run(2) enough sent bytes assms(9) by (auto simp: chr8_text)
qed

text \<open>Two lines. The server gets both at once; the echo of the first comes in two pieces, so that the client shows it in two parts and
  the second line not at all. The writes of both sides accept a few bytes at a time.\<close>

theorem tcp_echo_session_witness:
  "(let stdin = ''hi'' @ NL @ ''you''; qs = [text_bytes stdin]; ps = [text_bytes ''h'', text_bytes (''i'' @ NL @ ''y''), text_bytes ''ou''];
        client = \<lparr>c_in = map Arrive ps, c_out = [], c_wr = [2, 1]\<rparr>; server = \<lparr>c_in = map Arrive qs, c_out = [], c_wr = [1]\<rparr>
    in fst (tcp_client stdin client) = [''Echo: h'', ''Echo: i'' @ NL @ ''y''] \<and>
       fst (tcp_echo server) = [''  Received 6 bytes: hi'' @ NL @ ''you''] \<and>
       c_out (snd (tcp_echo server)) = text_bytes stdin)"
proof -
  have lines: "input_lines 1024 (''hi'' @ NL @ ''you'') = [''hi'' @ NL, ''you'']"
    by (simp add: input_lines.simps NL_def eval_nat_numeral)
  define stdin where "stdin = ''hi'' @ NL @ ''you''"
  define ps where "ps = [text_bytes ''h'', text_bytes (''i'' @ NL @ ''y''), text_bytes ''ou'']"
  define client where "client = \<lparr>c_in = map Arrive ps, c_out = [], c_wr = [2, 1]\<rparr>"
  define server where "server = \<lparr>c_in = map Arrive [text_bytes stdin], c_out = [], c_wr = [1]\<rparr>"
  have pre: "NUL \<notin> set stdin" "writable client" "writable server"
    by (simp_all add: stdin_def client_def server_def writable_def NL_def)
  have sent: "c_out (snd (tcp_client stdin client)) = text_bytes stdin"
    using tcp_client_run [OF pre(1,2), of ps] lines
    by (simp add: client_def ps_def piece_def stdin_def text_bytes_def NL_def)
  have echoed: "c_out (snd (tcp_echo server)) = text_bytes stdin"
    using tcp_echo_law [OF pre(3)] by (simp add: server_def stdin_def text_bytes_def)
  have causal: "\<forall>k \<le> length (input_lines 1024 stdin). length (concat (take k ps)) \<le> length (concat (take k (input_lines 1024 stdin)))"
    unfolding stdin_def lines by (auto simp: ps_def NL_def le_Suc_eq text_bytes_def)
  have net: "c_in server = map Arrive [text_bytes stdin]" "c_in client = map Arrive ps" "c_out client = []" "c_out server = []"
    by (simp_all add: client_def server_def)
  have sent': "concat [text_bytes stdin] = c_out (snd (tcp_client stdin client))" using sent by simp
  have echoed': "concat ps = c_out (snd (tcp_echo server))" using echoed by (simp add: ps_def stdin_def text_bytes_append [symmetric])
  have pieces: "\<forall>q \<in> set [text_bytes stdin]. q \<noteq> [] \<and> length q \<le> 1024" "\<forall>p \<in> set ps. p \<noteq> [] \<and> length p \<le> 1023"
    by (simp_all add: stdin_def ps_def NL_def text_bytes_def)
  note session = tcp_echo_session [OF pre(1-3) net(3,4,1) sent' net(2) echoed' pieces causal]
  have "fst (tcp_client stdin client) = [''Echo: h'', ''Echo: i'' @ NL @ ''y'']"
    using session unfolding stdin_def lines by (simp add: ps_def chr8_text)
  moreover have "fmt_d 6 = ''6''" by (simp add: fmt_d_def dec.simps digit_def)
  then have "fst (tcp_echo server) = [''  Received 6 bytes: hi'' @ NL @ ''you'']"
    using session by (simp add: chr8_text) (simp add: stdin_def NL_def)
  ultimately show ?thesis using echoed unfolding stdin_def client_def server_def ps_def Let_def by simp
qed

end
