(* ===== verification/CrashDetective.thy ===== *)
theory CrashDetective
  imports EchoServers
begin

text \<open>
  The pair of Debugging/Handson/project_crash_detective, buggy_client.c and buggy_server.c, with the defects that the
  lab is about. \<open>None\<close> is undefined behaviour. What the threads of the server find in the unprotected counter whenever they read it is an argument.
\<close>

section \<open>buggy_client\<close>

text \<open>\<open>strcpy\<close> into 32 bytes and \<open>sprintf\<close> into 128.\<close>

definition format_message :: "string \<Rightarrow> string option" where
  "format_message input = (if length input < 32 then Some (''MSG: '' @ input @ NL) else None)"

definition chomp :: "string \<Rightarrow> string" where
  "chomp line = takeWhile (\<lambda>ch. ch \<noteq> NUL \<and> [ch] \<noteq> NL) line"

function buggy_client_loop :: "string \<Rightarrow> conn \<Rightarrow> (string list \<times> conn) option" where
  "buggy_client_loop stdin c =
     (if stdin = [] then Some ([], c)
      else (case fgets 128 stdin of
              (line, rest) \<Rightarrow>
                (case format_message (chomp line) of
                   None \<Rightarrow> None
                 | Some f \<Rightarrow>
                     (case sock_write (text_bytes f) c of
                        (w, c1) \<Rightarrow>
                          if w < 0 then Some ([], c1)
                          else (case sock_read 127 c1 of
                                  (n, bs, c2) \<Rightarrow>
                                    if n \<le> 0 then Some ([], c2)
                                    else map_option (\<lambda>(out, c3). ((''Server: '' @ printed bs) # out, c3)) (buggy_client_loop rest c2))))))"
  by pat_completeness auto
termination by (relation "measure (\<lambda>(stdin, _). length stdin)") (auto dest: fgets_pair)

declare buggy_client_loop.simps [simp del]

text \<open>The rest of \<open>main\<close> once connected; \<open>status\<close> is the indeterminate value of the variable.\<close>

definition buggy_client :: "int \<Rightarrow> string \<Rightarrow> conn \<Rightarrow> (string list \<times> conn) option" where
  "buggy_client status stdin c =
     map_option (\<lambda>(out, c1).
         ((''Connected! Type messages (Ctrl+D to quit):'' @ NL) #
          (if 0 < status then [''(Previous session had '' @ fmt_d status @ '' messages)'' @ NL] else []) @
          out @ [''Disconnected.'' @ NL], c1))
       (buggy_client_loop stdin c)"

section \<open>buggy_server\<close>

definition echo_response :: "int \<Rightarrow> u8 list \<Rightarrow> string" where
  "echo_response count bs = take 287 (''ECHO('' @ fmt_d count @ ''): '' @ printed bs)"

text \<open>The number \<open>k\<close> counts the reads of \<open>connection_count\<close>.\<close>

function buggy_echo :: "int \<Rightarrow> (nat \<Rightarrow> int) \<Rightarrow> nat \<Rightarrow> conn \<Rightarrow> string list \<times> nat \<times> conn" where
  "buggy_echo fd seen k c =
     (case sock_read 255 c of
        (n, bs, c1) \<Rightarrow>
          if n \<le> 0 then ([], k, c1)
          else (case buggy_echo fd seen (k + 1) (snd (sock_write (text_bytes (echo_response (seen k) bs)) c1)) of
                  (log, k2, c2) \<Rightarrow> ((''['' @ fmt_d fd @ ''] Received: '' @ printed bs) # log, k2, c2)))"
  by pat_completeness auto
termination
proof (relation "measure (\<lambda>(_, _, _, c). in_weight c)")
  fix fd :: int and seen :: "nat \<Rightarrow> int" and k c n y bs c1
  assume a: "(n, y) = sock_read 255 c" "(bs, c1) = y" "\<not> n \<le> (0 :: int)"
  have "in_weight (snd (sock_write xs c1)) = in_weight c1" for xs
    by (auto simp: in_weight_def sock_write_def Let_def split: list.split)
  with sock_read_weight [of 255 c n bs c1] a
  show "((fd, seen, k + 1, snd (sock_write (text_bytes (echo_response (seen k) bs)) c1)), fd, seen, k, c)
      \<in> measure (\<lambda>(_, _, _, c). in_weight c)" by simp
qed simp

declare buggy_echo.simps [simp del]

text \<open>
  \<open>snprintf\<close> into a buffer that \<open>malloc\<close> did not deliver is undefined. The last component lists the blocks of the connection that are still allocated at
  the end.
\<close>

datatype block = Client_Info | Log_Buffer

definition buggy_handle_client ::
  "bool \<Rightarrow> (nat \<Rightarrow> int) \<Rightarrow> int \<Rightarrow> string \<Rightarrow> int \<Rightarrow> conn \<Rightarrow> (string list \<times> conn \<times> block list) option" where
  "buggy_handle_client malloc_ok seen fd ip port c =
     (if \<not> malloc_ok then None
      else (case buggy_echo fd seen 1 c of
              (log, k, c1) \<Rightarrow>
                Some ((''['' @ fmt_d fd @ ''] Client connected from '' @ peer ip port @ '' (total: '' @ fmt_d (seen 0) @ '')'' @ NL) #
                    log @ [''['' @ fmt_d fd @ ''] Client disconnected (total: '' @ fmt_d (seen k) @ '')'' @ NL],
                  c1, remove1 Client_Info [Client_Info, Log_Buffer])))"

text \<open>An answer of the server is never cut.\<close>

lemma echo_response_fits:
  assumes "length bs \<le> 255" and "- 2147483648 \<le> count" and "count < 2147483648"
  shows "echo_response count bs = ''ECHO('' @ fmt_d count @ ''): '' @ printed bs"
proof -
  have "length (fmt_d count) \<le> 11"
  proof -
    have "nat count < 10 ^ 10" "nat (- count) < 10 ^ 10" using assms(2,3) by (simp_all add: nat_less_iff)
    then have "length (dec (nat count)) \<le> 10" "length (dec (nat (- count))) \<le> 10" by (auto intro: dec_length_le)
    then show ?thesis by (simp add: fmt_d_def)
  qed
  moreover have "length (printed bs) \<le> 255"
    using assms(1) length_takeWhile_le [of "\<lambda>ch. ch \<noteq> NUL" "map chr8 bs"] by (simp add: printed_def fmt_prec_def)
  ultimately show ?thesis by (simp add: echo_response_def)
qed

section \<open>Properties\<close>

lemma buggy_server_leaks:
  "buggy_handle_client True seen fd ip port c = Some (log, c1, left) \<Longrightarrow> left = [Log_Buffer]"
  by (auto simp: buggy_handle_client_def split: prod.splits)

text \<open>
  If every message is answered, the client is defined exactly when no line has more than 31 characters.
\<close>

lemma chomp_length: "length (chomp l) \<le> length l"
  by (simp add: chomp_def length_takeWhile_le)

lemma buggy_client_defined:
  assumes "c_wr c = []" and "c_in c = map Arrive rs @ es" and "length rs = length (input_lines 128 stdin)"
    and "\<forall>r \<in> set rs. r \<noteq> [] \<and> length r \<le> 127"
  shows "buggy_client_loop stdin c \<noteq> None \<longleftrightarrow> (\<forall>l \<in> set (input_lines 128 stdin). length (chomp l) < 32)"
  using assms
proof (induction "128 :: nat" stdin arbitrary: c rs rule: input_lines.induct)
  case (1 s)
  show ?case
  proof (cases "s = []")
    case False
    obtain a b where ab: "fgets 128 s = (a, b)" by (cases "fgets 128 s")
    have lines: "input_lines 128 s = a # input_lines 128 b" using ab False by (simp add: input_lines.simps [of 128 s])
    obtain r rs' where rs: "rs = r # rs'" using 1(4) lines by (cases rs) auto
    show ?thesis
    proof (cases "format_message (chomp a)")
      case None
      then show ?thesis using False lines
        by (simp add: buggy_client_loop.simps [of s] ab format_message_def split: if_splits)
    next
      case (Some f)
      define c2 where "c2 = c\<lparr>c_out := c_out c @ text_bytes f, c_in := map Arrive rs' @ es\<rparr>"
      have w: "sock_write (text_bytes f) c = (int (length f), c\<lparr>c_out := c_out c @ text_bytes f\<rparr>)"
        using 1(2) by (simp add: sock_write_def)
      have rd: "sock_read 127 (c\<lparr>c_out := c_out c @ text_bytes f\<rparr>) = (int (length r), r, c2)"
        using 1(3,5) rs by (simp add: sock_read_def c2_def)
      have "0 < length r" using 1(5) rs by simp
      moreover have "buggy_client_loop b c2 \<noteq> None \<longleftrightarrow> (\<forall>l \<in> set (input_lines 128 b). length (chomp l) < 32)"
        using 1(1) [of c2 rs'] False ab 1(2-5) rs lines by (simp add: c2_def)
      ultimately show ?thesis using False lines Some w rd
        by (simp add: buggy_client_loop.simps [of s] ab format_message_def split: if_splits)
    qed
  qed (simp add: buggy_client_loop.simps input_lines.simps)
qed


text \<open>
  The server answers each message it receives in one piece with one reply in full, in order, that carries the message up to its first NUL and the value
  of the counter it has just read.
\<close>

lemma buggy_echo_replies:
  assumes "c_wr c = []" and "c_in c = map Arrive ps" and "\<forall>p \<in> set ps. p \<noteq> [] \<and> length p \<le> 255"
    and "\<forall>i. - 2147483648 \<le> seen i \<and> seen i < 2147483648"
  shows "\<exists>log c1. buggy_echo fd seen k c = (log, k + length ps, c1) \<and> length log = length ps \<and>
    c_out c1 = c_out c @ concat (map (\<lambda>(i, p). text_bytes (''ECHO('' @ fmt_d (seen (k + i)) @ ''): '' @ printed p)) (enumerate 0 ps))"
  using assms
proof (induction ps arbitrary: c k)
  case Nil
  then show ?case by (simp add: buggy_echo.simps sock_read_def)
next
  case (Cons p ps)
  have p: "p \<noteq> []" "length p \<le> 255" using Cons.prems(3) by simp_all
  let ?r = "text_bytes (''ECHO('' @ fmt_d (seen k) @ ''): '' @ printed p)"
  define c2 where "c2 = c\<lparr>c_in := map Arrive ps, c_out := c_out c @ ?r\<rparr>"
  have "echo_response (seen k) p = ''ECHO('' @ fmt_d (seen k) @ ''): '' @ printed p"
    using echo_response_fits [OF p(2)] Cons.prems(4) by simp
  moreover have "sock_read 255 c = (int (length p), p, c\<lparr>c_in := map Arrive ps\<rparr>)"
    using Cons.prems(2) p(2) by (simp add: sock_read_def)
  ultimately have step: "buggy_echo fd seen k c =
      (case buggy_echo fd seen (k + 1) c2 of (log, k2, c3) \<Rightarrow> ((''['' @ fmt_d fd @ ''] Received: '' @ printed p) # log, k2, c3))"
    using p(1) Cons.prems(1) by (simp add: buggy_echo.simps [of fd seen k c] sock_write_def c2_def)
  obtain log c1 where ih: "buggy_echo fd seen (k + 1) c2 = (log, k + 1 + length ps, c1)" "length log = length ps"
    "c_out c1 = c_out c2 @ concat (map (\<lambda>(i, p). text_bytes (''ECHO('' @ fmt_d (seen (k + 1 + i)) @ ''): '' @ printed p)) (enumerate 0 ps))"
    using Cons.IH [of c2 "k + 1"] Cons.prems by (auto simp: c2_def)
  have "enumerate 0 (p # ps) = (0, p) # map (\<lambda>(i, q). (Suc i, q)) (enumerate 0 ps)"
    by (auto simp: enumerate_Suc_eq)
  then have "concat (map (\<lambda>(i, p). text_bytes (''ECHO('' @ fmt_d (seen (k + i)) @ ''): '' @ printed p)) (enumerate 0 (p # ps))) =
      ?r @ concat (map (\<lambda>(i, p). text_bytes (''ECHO('' @ fmt_d (seen (k + 1 + i)) @ ''): '' @ printed p)) (enumerate 0 ps))"
    by (simp add: o_def case_prod_beta')
  then show ?case using ih step by (auto simp: c2_def)
qed

end
