(* ===== verification/CrashLabs.thy ===== *)
theory CrashLabs
  imports CHeap
begin

text \<open>
  The programs that fail on purpose: use_after_free.c, heap_overflow.c and stack_overflow.c of Debugging/Handson/lab02_sanitizers, invalid_access.c of lab03_valgrind,
  and buggy_app.c, crash_scenarios.c, segfault_demo.c and long_running.c of lab01_gdb. The theorems state where each of them leaves defined behaviour, and
  what it has printed by then.
\<close>

section \<open>use_after_free\<close>

text \<open>A user is one block: the id, 32 characters of the name, the score.\<close>

definition create_user :: "int \<Rightarrow> string \<Rightarrow> int \<Rightarrow> pointer cfun" where
  "create_user uid name score =
     bindc (malloc 40 34) (\<lambda>u.
       if u = None then ret None
       else thenc (write_cells u 0 [Num uid])
         (thenc (write_cells u 1 (map Chr (take 31 (name @ replicate 31 NUL))))
           (thenc (write_cells u 32 [Chr NUL])
             (thenc (write_cells u 33 [Num score]) (ret u)))))"

definition print_user :: "pointer \<Rightarrow> unit cfun" where
  "print_user u =
     bindc (read_int u 0) (\<lambda>uid. bindc (read_string u 1) (\<lambda>name. bindc (read_int u 33) (\<lambda>score.
       print (''User '' @ fmt_d uid @ '': '' @ name @ '' (score: '' @ fmt_d score @ '')'' @ NL))))"

definition use_after_free_main :: "unit cfun" where
  "use_after_free_main =
     bindc (create_user 1 ''Alice'' 95) (\<lambda>alice. bindc (create_user 2 ''Bob'' 87) (\<lambda>bob. seqc
       [print (''=== Use-After-Free Demo ==='' @ NL @ NL),
        print (''Before free:'' @ NL),
        print_user alice,
        print_user bob,
        print (NL @ ''Freeing Alice...'' @ NL),
        free alice,
        print (NL @ ''Accessing freed memory:'' @ NL),
        print_user alice,
        write_cells alice 33 [Num 100],
        free bob]))"

section \<open>heap_overflow and invalid_access\<close>

fun fill_multiples :: "pointer \<Rightarrow> int \<Rightarrow> nat \<Rightarrow> nat \<Rightarrow> unit cfun" where
  "fill_multiples p x i 0 = ret ()"
| "fill_multiples p x i (Suc k) = thenc (write_cells p i [Num (int i * x)]) (fill_multiples p x (i + 1) k)"

definition overflow_function :: "unit cfun" where
  "overflow_function =
     bindc (malloc 40 10) (\<lambda>buf.
       if buf = None then ret ()
       else seqc
         [print (''Allocated 10 ints (40 bytes)'' @ NL),
          fill_multiples buf 100 0 10,
          print (''Writing past end of buffer...'' @ NL),
          write_cells buf 10 [Num 9999],
          write_cells buf 11 [Num 8888],
          bindc (read_int buf 10) (\<lambda>x. print (''buf[10] = '' @ fmt_d x @ '' (out of bounds!)'' @ NL)),
          free buf])"

definition heap_overflow_main :: "unit cfun" where
  "heap_overflow_main = seqc
     [print (''=== Heap Buffer Overflow Demo ==='' @ NL),
      print (''Without ASan, this may appear to 'work' silently.'' @ NL),
      print (''With ASan, it will be caught immediately.'' @ NL @ NL),
      overflow_function,
      print (''Program completed (if you see this, the bug was silent!)'' @ NL)]"

definition read_past_end :: "unit cfun" where
  "read_past_end =
     bindc (malloc 40 10) (\<lambda>arr. seqc
       [fill_multiples arr 1 0 10,
        bindc (read_int arr 10) (\<lambda>x. print (''arr[10] = '' @ fmt_d x @ '' (invalid read!)'' @ NL)),
        free arr])"

fun sum_positive :: "pointer \<Rightarrow> int \<Rightarrow> nat \<Rightarrow> nat \<Rightarrow> int cfun" where
  "sum_positive data acc i 0 = ret acc"
| "sum_positive data acc i (Suc k) =
     bindc (read_int data i) (\<lambda>x.
       if 0 < x then (case arith32 (acc + x) of None \<Rightarrow> fail Int_Overflow | Some s \<Rightarrow> sum_positive data s (i + 1) k)
       else sum_positive data acc (i + 1) k)"

definition use_uninit :: "unit cfun" where
  "use_uninit =
     bindc (malloc 20 5) (\<lambda>data.
       thenc (write_cells data 0 [Num 10]) (thenc (write_cells data 2 [Num 30])
         (bindc (sum_positive data 0 0 5) (\<lambda>acc. seqc
            [print (''Sum = '' @ fmt_d acc @ '' (includes uninitialized values!)'' @ NL), free data]))))"

definition write_after_free :: "unit cfun" where
  "write_after_free =
     bindc (malloc 32 32) (\<lambda>msg. seqc
       [strcpy msg ''Hello'', free msg, strcpy msg ''World'',
        bindc (read_string msg 0) (\<lambda>s. print (''After free write: '' @ s @ NL))])"

text \<open>An array of the stack has a size and no block; copying a string into it is in bounds if the string fits.\<close>

definition stack_strcpy :: "nat \<Rightarrow> string \<Rightarrow> unit cfun" where
  "stack_strcpy n s = (if length s < n then ret () else fail Past_End)"

definition mismatched_free :: "unit cfun" where
  "mismatched_free = seqc [stack_strcpy 32 ''Stack allocated'', print (''Stack buffer: Stack allocated'' @ NL)]"

definition invalid_access_main :: "unit cfun" where
  "invalid_access_main = seqc
     [print (''=== Invalid Memory Access Demo (Valgrind) ==='' @ NL @ NL),
      print (''[1] Read past end:'' @ NL), read_past_end,
      print (NL @ ''[2] Uninitialized memory:'' @ NL), use_uninit,
      print (NL @ ''[3] Write after free:'' @ NL), write_after_free,
      print (NL @ ''[4] Mismatched free (demonstration only):'' @ NL), mismatched_free,
      print (NL @ ''Done.'' @ NL)]"

section \<open>stack_overflow\<close>

definition vulnerable_function :: "string \<Rightarrow> unit cfun" where
  "vulnerable_function input =
     (let secret = 0xDEADBEEF in seqc
       [print (''Before copy: secret = 0x'' @ fmt_X secret @ NL),
        print (''Input length: '' @ fmt_u (int (length input)) @ '', buffer size: 16'' @ NL),
        stack_strcpy 16 input,
        print (''After copy: buffer = '' @ [CHR 0x27] @ input @ [CHR 0x27] @ NL),
        print (''After copy: secret = 0x'' @ fmt_X secret @ NL)])"

definition stack_overflow_main :: "unit cfun" where
  "stack_overflow_main = seqc
     [print (''=== Stack Buffer Overflow Demo ==='' @ NL @ NL),
      print (''[1] Safe input (fits in buffer):'' @ NL),
      vulnerable_function ''Hello'',
      print NL,
      print (''[2] Overflow input (too large for buffer):'' @ NL),
      vulnerable_function (replicate 37 CHR ''A'')]"

section \<open>buggy_app\<close>

text \<open>\<open>n\<close> rounds of the loop from \<open>i\<close> on.\<close>

fun process_rounds :: "int list \<Rightarrow> int \<Rightarrow> nat \<Rightarrow> nat \<Rightarrow> int cfun" where
  "process_rounds data acc i 0 = ret acc"
| "process_rounds data acc i (Suc n) =
     (if length data \<le> i then fail Past_End
      else (case arith32 (acc + data ! i) of None \<Rightarrow> fail Int_Overflow | Some s \<Rightarrow> process_rounds data s (i + 1) n))"

definition process_data :: "int list \<Rightarrow> int \<Rightarrow> int cfun" where
  "process_data data count = process_rounds data 0 0 (nat (count + 1))"

definition greet_user :: "string option \<Rightarrow> unit cfun" where
  "greet_user name = (case name of
     None \<Rightarrow> fail Null_Access
   | Some s \<Rightarrow> print (take 63 (''Hello, '' @ s @ ''! (len='' @ fmt_u (int (length s)) @ '')'') @ NL))"

definition compute :: "int \<Rightarrow> int \<Rightarrow> int cfun" where
  "compute a b = (case arith32 (a * b) of
     None \<Rightarrow> fail Int_Overflow
   | Some result \<Rightarrow> thenc (print (''compute('' @ fmt_d a @ '', '' @ fmt_d b @ '') = '' @ fmt_d result @ NL)) (ret result))"

definition create_message :: "string \<Rightarrow> pointer cfun" where
  "create_message txt =
     bindc (malloc (length txt + 20) (length txt + 20)) (\<lambda>msg.
       if msg = None then ret None else thenc (strcpy msg (''Message: '' @ txt)) (ret msg))"

text \<open>The argument is the first one of the command line, if there is one.\<close>

definition buggy_app :: "string option \<Rightarrow> unit cfun" where
  "buggy_app arg = thenc (seqc
     [print (''=== Buggy App '' @ [CHR 0xE2, CHR 0x80, CHR 0x94] @ '' Debug me with GDB! ==='' @ NL @ NL),
      print (''[1] Processing data array...'' @ NL)])
     (bindc (process_data (map (\<lambda>i. int i * 10) [0..<10]) 10) (\<lambda>acc. thenc (seqc
       [print (''Sum = '' @ fmt_d acc @ NL @ NL),
        print (''[2] Greeting user...'' @ NL),
        greet_user arg,
        print NL,
        print (''[3] Computing...'' @ NL),
        bindc (compute 100000 100000) (\<lambda>_. ret ()),
        print NL,
        print (''[4] Creating message...'' @ NL)])
       (bindc (create_message ''Hello, World'') (\<lambda>msg. seqc
         [bindc (read_string msg 0) (\<lambda>s. print (s @ NL)),
          free msg,
          bindc (read_string msg 0) (\<lambda>s. print (''After free: '' @ s @ NL))]))))"

section \<open>crash_scenarios\<close>

definition null_deref :: "unit cfun" where
  "null_deref = seqc [print (''Dereferencing NULL pointer...'' @ NL), write_cells None 0 [Num 42]]"

definition scenario_use_after_free :: "unit cfun" where
  "scenario_use_after_free =
     bindc (malloc 64 64) (\<lambda>buf. seqc
       [strcpy buf ''Hello, World!'',
        bindc (read_string buf 0) (\<lambda>s. print (''Before free: '' @ s @ NL)),
        free buf,
        bindc (read_string buf 0) (\<lambda>s. print (''After free: '' @ s @ NL)),
        write_cells buf 0 [Chr CHR ''X'']])"

text \<open>The stack has room for so many frames.\<close>

fun infinite_recurse :: "nat \<Rightarrow> nat \<Rightarrow> unit cfun" where
  "infinite_recurse 0 depth = fail Stack_Exhausted"
| "infinite_recurse (Suc frames) depth = thenc (print (''Depth: '' @ fmt_d (int depth) @ NL)) (infinite_recurse frames (depth + 1))"

definition double_free :: "unit cfun" where
  "double_free =
     bindc (malloc 128 128) (\<lambda>ptr. seqc
       [strcpy ptr ''Double free test'', free ptr, print (''First free done'' @ NL), free ptr])"

definition scenario_buffer_overflow :: "unit cfun" where
  "scenario_buffer_overflow = seqc
     [print (''Writing 256 bytes to 16-byte buffer...'' @ NL), stack_strcpy 16 (replicate 256 CHR ''A'')]"

text \<open>What \<open>main\<close> returns; \<open>arg\<close> is what \<open>atoi\<close> makes of the first argument, if there is one.\<close>

definition crash_scenarios :: "nat \<Rightarrow> string \<Rightarrow> int option \<Rightarrow> int cfun" where
  "crash_scenarios frames name arg = (case arg of
     None \<Rightarrow> thenc (seqc
       [print (''Usage: '' @ name @ '' <1-5>'' @ NL), print (''  1 = NULL pointer'' @ NL), print (''  2 = Use-after-free'' @ NL),
        print (''  3 = Stack overflow'' @ NL), print (''  4 = Double-free'' @ NL), print (''  5 = Buffer overflow'' @ NL)]) (ret 1)
   | Some scenario \<Rightarrow>
       if scenario = 1 then thenc null_deref (ret 0)
       else if scenario = 2 then thenc scenario_use_after_free (ret 0)
       else if scenario = 3 then thenc (infinite_recurse frames 0) (ret 0)
       else if scenario = 4 then thenc double_free (ret 0)
       else if scenario = 5 then thenc scenario_buffer_overflow (ret 0)
       else thenc (print (''Unknown scenario: '' @ fmt_d scenario @ NL)) (ret 1))"

section \<open>segfault_demo and long_running\<close>

text \<open>The list of records is that of the ids and names along the chain.\<close>

fun find_record :: "(int \<times> string) list \<Rightarrow> int \<Rightarrow> (int \<times> string) option" where
  "find_record [] key = None"
| "find_record (r # rs) key = (if fst r = key then Some r else find_record rs key)"

definition process_record :: "(int \<times> string) option \<Rightarrow> unit cfun" where
  "process_record rec = (case rec of
     None \<Rightarrow> fail Null_Access
   | Some (uid, name) \<Rightarrow> print (''Processing record '' @ fmt_d uid @ '': '' @ name @ NL))"

definition segfault_demo :: "unit cfun" where
  "segfault_demo = seqc
     [print (''Looking for record 3 (does not exist)...'' @ NL), process_record (find_record [(2, ''Bob''), (1, ''Alice'')] 3)]"

text \<open>The counter and the suspicious value after one round; \<open>None\<close> is an overflow.\<close>

definition do_work :: "int \<Rightarrow> int \<times> int \<Rightarrow> (int \<times> int) option" where
  "do_work iteration s = (case s of (counter, suspicious) \<Rightarrow>
     (case arith32 (counter + iteration) of
        None \<Rightarrow> None
      | Some c \<Rightarrow> if c_mod iteration 100 = 0 then map_option (Pair c) (arith32 (c * - 1)) else Some (c, suspicious)))"

text \<open>So many rounds of the endless loop from round \<open>i\<close> on, with the lines it prints.\<close>

fun long_rounds :: "nat \<Rightarrow> nat \<Rightarrow> int \<times> int \<Rightarrow> ((int \<times> int) \<times> string list) option" where
  "long_rounds i 0 s = Some (s, [])"
| "long_rounds i (Suc n) s =
     (case do_work (int i) s of
        None \<Rightarrow> None
      | Some t \<Rightarrow> map_option (apsnd (append (if i mod 500 = 0
            then [''['' @ fmt_d (int i) @ ''] counter='' @ fmt_d (fst t) @ '' suspicious='' @ fmt_d (snd t) @ NL] else [])))
          (long_rounds (i + 1) n t))"

section \<open>Lemmas\<close>

definition user_cells :: "int \<Rightarrow> string \<Rightarrow> int \<Rightarrow> cval option list" where
  "user_cells uid name score = map Some (Num uid # map Chr (take 31 (name @ replicate 31 NUL)) @ [Chr NUL, Num score])"

lemma create_user_run:
  assumes "avail m (requests m)"
  shows "create_user uid name score m =
    (Inr (Some (length (heap m))),
     m\<lparr>requests := requests m + 1, heap := heap m @ [\<lparr>bytes = 40, cells = user_cells uid name score, live = True\<rparr>]\<rparr>)"
proof -
  define c where "c = map Chr (take 31 (name @ replicate 31 NUL))"
  have c: "length c = 31" by (simp add: c_def)
  have r: "replicate 34 None = None # replicate 31 None @ [None, None]" for x :: cval
    by (simp add: numeral_eq_Suc)
  have "splice 33 [Some (Num score)] (splice 32 [Some (Chr NUL)] (splice 1 (map Some c) (splice 0 [Some (Num uid)] (replicate 34 None))))
      = map Some (Num uid # c @ [Chr NUL, Num score])"
    using c by (simp add: splice_def r)
  then show ?thesis
    using assms c unfolding create_user_def c_def [symmetric] user_cells_def
    by (simp add: cfun_simps splice_length)
qed

lemma string_of_padded: "NUL \<notin> set s \<Longrightarrow> string_of (map (\<lambda>a. Some (Chr a)) s @ Some (Chr NUL) # rest) = Inr s"
  by (induction s) auto

lemma user_cells_name:
  assumes "NUL \<notin> set name"
  shows "string_of (drop 1 (user_cells uid name score)) = Inr (take 31 name)"
proof -
  have "drop 1 (user_cells uid name score) =
      map (Some \<circ> Chr) (take 31 name) @ map (Some \<circ> Chr) (replicate (31 - length name) NUL @ [NUL]) @ [Some (Num score)]"
    by (simp add: user_cells_def)
  also have "replicate (31 - length name) NUL @ [NUL] = NUL # replicate (31 - length name) NUL"
    by (simp add: replicate_app_Cons_same)
  finally show ?thesis using assms string_of_padded [of "take 31 name"] in_set_takeD [of NUL 31 name] by auto
qed

lemma print_user_run:
  assumes "heap m ! b = \<lparr>bytes = 40, cells = user_cells uid name score, live = True\<rparr>" and "NUL \<notin> set name"
  shows "print_user (Some b) m =
    (Inr (), m\<lparr>console := console m @ [''User '' @ fmt_d uid @ '': '' @ take 31 name @ '' (score: '' @ fmt_d score @ '')'' @ NL]\<rparr>)"
proof -
  define c where "c = map Chr (take 31 (name @ replicate 31 NUL))"
  have "length c = 31" by (simp add: c_def)
  then have "length (user_cells uid name score) = 34" "user_cells uid name score ! 0 = Some (Num uid)" "user_cells uid name score ! 33 = Some (Num score)"
    unfolding user_cells_def c_def [symmetric] by (simp_all add: nth_append)
  then show ?thesis using assms user_cells_name [OF assms(2)] by (simp add: print_user_def cfun_simps)
qed

text \<open>What is stored of a user is printed: the id, 31 characters of the name, the score.\<close>

lemma create_print_user:
  assumes "avail m (requests m)" and "NUL \<notin> set name"
  shows "\<exists>m'. bindc (create_user uid name score) print_user m = (Inr (), m') \<and>
    console m' = console m @ [''User '' @ fmt_d uid @ '': '' @ take 31 name @ '' (score: '' @ fmt_d score @ '')'' @ NL]"
  using create_user_run [OF assms(1)] assms(2) by (simp add: cfun_simps print_user_run)

text \<open>The loop of \<open>process_data\<close> runs over the end of every array.\<close>

lemma process_rounds_runs_over:
  "i + n = length data + 1 \<Longrightarrow> fst (process_rounds data s i n m) = Inl Past_End \<or> fst (process_rounds data s i n m) = Inl Int_Overflow"
  if "0 < n"
  using that by (induction data s i n arbitrary: m rule: process_rounds.induct) (auto simp: fail_def split: option.splits)

lemma vulnerable_function_fault:
  "fst (vulnerable_function input m) = (if length input < 16 then Inr () else Inl Past_End)"
  by (simp add: vulnerable_function_def Let_def stack_strcpy_def cfun_simps)

lemma infinite_recurse_fault:
  "fst (infinite_recurse frames depth m) = Inl Stack_Exhausted \<and> length (console (snd (infinite_recurse frames depth m))) = length (console m) + frames"
  by (induction frames arbitrary: depth m) (simp_all add: cfun_simps)

text \<open>\<open>long_running\<close> adds up the numbers of its rounds.\<close>

definition tri :: "nat \<Rightarrow> int" where "tri i = (\<Sum>j<i. int j)"

lemma tri_Suc: "tri (Suc i) = tri i + int i"
  by (simp add: tri_def)

lemma tri_twice: "2 * tri i = int i * (int i - 1)"
  by (induction i) (simp_all add: tri_def algebra_simps)

lemma tri_bounds:
  "0 \<le> tri i"
  "i \<le> 65536 \<Longrightarrow> tri i < 2147483648"
proof -
  show p: "0 \<le> tri i" by (simp add: tri_def sum_nonneg)
  assume "i \<le> 65536"
  then have "int i * (int i - 1) \<le> 65536 * 65535"
    using mult_mono [of "int i" 65536 "int i - 1" 65535] by (cases "i = 0") simp_all
  then show "tri i < 2147483648" using tri_twice [of i] by linarith
qed

lemma do_work_defined: "i < 65536 \<Longrightarrow> \<exists>s'. do_work (int i) (tri i, s) = Some (tri (Suc i), s')"
  using tri_bounds [of "Suc i"] by (simp add: do_work_def tri_Suc [symmetric])

lemma do_work_overflow: "do_work 65536 (tri 65536, s) = None"
  using tri_twice [of 65536] by (simp add: do_work_def arith32_overflow)

lemma long_rounds_defined: "i + n \<le> 65536 \<Longrightarrow> \<exists>s' out. long_rounds i n (tri i, s) = Some ((tri (i + n), s'), out)"
proof (induction n arbitrary: i s)
  case (Suc n)
  obtain t where "do_work (int i) (tri i, s) = Some (tri (Suc i), t)" using do_work_defined [of i s] Suc.prems by auto
  then show ?case using Suc.IH [of "Suc i" t] Suc.prems by auto
qed simp

lemma long_rounds_overflow: "i \<le> 65536 \<Longrightarrow> 65536 < i + n \<Longrightarrow> long_rounds i n (tri i, s) = None"
proof (induction n arbitrary: i s)
  case (Suc n)
  show ?case
  proof (cases "i = 65536")
    case True
    then show ?thesis using do_work_overflow by simp
  next
    case False
    then obtain t where "do_work (int i) (tri i, s) = Some (tri (Suc i), t)" using do_work_defined [of i s] Suc.prems by auto
    then show ?thesis using Suc.IH [of "Suc i" t] Suc.prems False by simp
  qed
qed simp

text \<open>The endless loop is defined for exactly 65536 rounds.\<close>

theorem long_running_overflows: "(long_rounds 0 n (0, 0) \<noteq> None) = (n \<le> 65536)"
  using long_rounds_defined [of 0 n 0] long_rounds_overflow [of 0 n 0] by (cases "n \<le> 65536") (auto simp: tri_def)

section \<open>Where the programs fail\<close>

abbreviation "fault_of p \<equiv> fst (p (started (\<lambda>_. True)))"

lemma started_avail: "avail (started av) (requests (started av)) = av 0"
  by (simp add: started_def)

text \<open>The lines with users that the program prints before it fails.\<close>

definition user_lines :: "unit cfun \<Rightarrow> string list" where
  "user_lines p = filter (\<lambda>l. take 5 l = ''User '') (console (snd (p (started (\<lambda>_. True)))))"

lemma use_after_free_fault:
  "fault_of use_after_free_main = Inl After_Free"
  "user_lines use_after_free_main = [''User 1: Alice (score: 95)'' @ NL, ''User 2: Bob (score: 87)'' @ NL]"
  by code_simp+

lemma invalid_access_faults:
  "fault_of read_past_end = Inl Past_End"
  "fault_of use_uninit = Inl Not_Written"
  "fault_of write_after_free = Inl After_Free"
  "fault_of mismatched_free = Inr ()"
  "fault_of invalid_access_main = Inl Past_End"
  by code_simp+

lemma heap_overflow_faults:
  "fault_of heap_overflow_main = Inl Past_End"
  "fst (heap_overflow_main (started (\<lambda>_. False))) = Inr ()"
  by code_simp+

lemma stack_overflow_fault: "fault_of stack_overflow_main = Inl Past_End"
  by (simp add: stack_overflow_main_def vulnerable_function_def Let_def stack_strcpy_def cfun_simps)

lemma buggy_app_fault: "fault_of (buggy_app arg) = Inl Past_End"
  by code_simp

text \<open>The later mistakes of \<open>buggy_app\<close>, which it does not reach.\<close>

lemma buggy_app_functions:
  "fst (greet_user None m) = Inl Null_Access"
  "fst (compute a b m) = (if fits_s32 (a * b) then Inr (a * b) else Inl Int_Overflow)"
  by (simp_all add: greet_user_def fail_def compute_def arith32_def cfun_simps)

lemma crash_scenarios_faults:
  "fault_of (crash_scenarios frames name None) = Inr 1"
  "fault_of (crash_scenarios frames name (Some x)) =
    (if x = 1 then Inl Null_Access else if x = 2 then Inl After_Free else if x = 3 then Inl Stack_Exhausted
     else if x = 4 then Inl Bad_Free else if x = 5 then Inl Past_End else Inr 1)"
proof -
  have f: "fault_of null_deref = Inl Null_Access" "fault_of scenario_use_after_free = Inl After_Free"
      "fault_of double_free = Inl Bad_Free" "fault_of scenario_buffer_overflow = Inl Past_End"
    by code_simp+
  have t: "fst (thenc p (ret (0 :: int)) m) = (case fst (p m) of Inl e \<Rightarrow> Inl e | Inr _ \<Rightarrow> Inr 0)" for p m
    by (cases "p m") (auto simp: thenc_def bindc_def ret_def split: sum.splits)
  show "fault_of (crash_scenarios frames name None) = Inr 1"
    by (simp add: crash_scenarios_def cfun_simps)
  show "fault_of (crash_scenarios frames name (Some x)) =
    (if x = 1 then Inl Null_Access else if x = 2 then Inl After_Free else if x = 3 then Inl Stack_Exhausted
     else if x = 4 then Inl Bad_Free else if x = 5 then Inl Past_End else Inr 1)"
    using f by (simp add: crash_scenarios_def t infinite_recurse_fault cfun_simps)
qed

lemma segfault_demo_fault: "fault_of segfault_demo = Inl Null_Access"
  by code_simp

text \<open>All programs: where memory does not run out, each ends with the undefined behaviour that it is there to show.\<close>

theorem crash_labs_fault:
  "fault_of use_after_free_main = Inl After_Free \<and>
   user_lines use_after_free_main = [''User 1: Alice (score: 95)'' @ NL, ''User 2: Bob (score: 87)'' @ NL] \<and>
   fault_of heap_overflow_main = Inl Past_End \<and>
   fault_of stack_overflow_main = Inl Past_End \<and>
   fault_of (vulnerable_function input) = (if length input < 16 then Inr () else Inl Past_End) \<and>
   fault_of invalid_access_main = Inl Past_End \<and> fault_of use_uninit = Inl Not_Written \<and> fault_of write_after_free = Inl After_Free \<and>
   fault_of (buggy_app arg) = Inl Past_End \<and> fault_of segfault_demo = Inl Null_Access \<and>
   map (\<lambda>x. fault_of (crash_scenarios frames name (Some x))) [1, 2, 3, 4, 5, 6] =
     [Inl Null_Access, Inl After_Free, Inl Stack_Exhausted, Inl Bad_Free, Inl Past_End, Inr 1]"
  by (intro conjI use_after_free_fault heap_overflow_faults stack_overflow_fault vulnerable_function_fault invalid_access_faults
      buggy_app_fault segfault_demo_fault) (simp add: crash_scenarios_faults)

end
