(* ===== verification/Crypto.thy ===== *)
theory Crypto
  imports Bytes
begin

text \<open>
  SystemProgramming/Handson/lab15_encryption/crypto_demo.c. The OpenSSL calls are arguments: a digest or
  cipher is a record of what the calls on a context answer, \<open>None\<close> being a failure. The number of contexts
  in use is part of the state, so that each path shows what it frees. Text is printed as bytes in UTF-8;
  the banners of the demonstrations are left out.
\<close>

section \<open>Printing\<close>

definition hex_bytes :: "u8 list \<Rightarrow> string" where
  "hex_bytes data = concat (map (\<lambda>b. pad_zero 2 (fmt_x (uint b))) data)"

definition print_hex :: "string \<Rightarrow> u8 list \<Rightarrow> string" where
  "print_hex label data = label @ '': '' @ hex_bytes data @ NL"

definition CHECK :: string where "CHECK = [CHR 0xE2, CHR 0x9C, CHR 0x93, CHR '' '']"
definition CROSS :: string where "CROSS = [CHR 0xE2, CHR 0x9C, CHR 0x97, CHR '' '']"

section \<open>SHA-256\<close>

record 'c digest_api =
  md_new :: bool
  md_init :: "'c option"
  md_update :: "'c \<Rightarrow> u8 list \<Rightarrow> 'c option"
  md_final :: "'c \<Rightarrow> u8 list option"

text \<open>Result, contents of \<open>hash_out\<close> and number of contexts in use; \<open>None\<close> if \<open>hash_out\<close> is overrun.\<close>

definition compute_sha256 :: "'c digest_api \<Rightarrow> u8 list \<Rightarrow> u8 list \<Rightarrow> int \<Rightarrow> (int \<times> u8 list \<times> int) option" where
  "compute_sha256 md data hash_out live =
     (if \<not> md_new md then Some (-1, hash_out, live)
      else let live1 = live + 1 in
        case md_init md of
          None \<Rightarrow> Some (-1, hash_out, live1 - 1)
        | Some c \<Rightarrow>
            (case md_update md c data of
               None \<Rightarrow> Some (-1, hash_out, live1 - 1)
             | Some c' \<Rightarrow>
                 (case md_final md c' of
                    None \<Rightarrow> Some (-1, hash_out, live1 - 1)
                  | Some h \<Rightarrow> map_option (\<lambda>out. (0, out, live1 - 1)) (put_bytes 0 h hash_out))))"

definition sha256_messages :: "string list" where
  "sha256_messages =
     [''Hello, Linux System Programming!'', ''Hello, Linux System Programming!'', ''Hello, Linux System Programming.'']"

text \<open>The result of \<open>compute_sha256\<close> is not looked at: after a failure the array \<open>hash\<close>, \<open>junk\<close>, is printed as it was.\<close>

primrec sha256_lines :: "'c digest_api \<Rightarrow> u8 list \<Rightarrow> string list \<Rightarrow> int \<Rightarrow> (string \<times> int) option" where
  "sha256_lines md junk [] live = Some ([], live)"
| "sha256_lines md junk (m # ms) live =
     do {
       (r, hash, live1) \<leftarrow> compute_sha256 md (text_bytes m) junk live;
       (rest, live2) \<leftarrow> sha256_lines md junk ms live1;
       Some (''  Input:  \"'' @ m @ ''\"'' @ NL @ print_hex ''  SHA256'' hash @ NL @ rest, live2)
     }"

definition demo_sha256 :: "'c digest_api \<Rightarrow> u8 list \<Rightarrow> int \<Rightarrow> (string \<times> int) option" where
  "demo_sha256 md junk live = sha256_lines md junk sha256_messages live"

section \<open>AES-256-CBC\<close>

record 'c cipher_api =
  ev_new :: bool
  ev_init :: "u8 list \<Rightarrow> u8 list \<Rightarrow> 'c option"
  ev_update :: "'c \<Rightarrow> u8 list \<Rightarrow> ('c \<times> u8 list) option"
  ev_final :: "'c \<Rightarrow> u8 list option"

text \<open>
  The two functions have the same body over the calls for encryption and for decryption: the length or -1,
  the output array and the number of contexts. \<open>None\<close>: the output array is overrun.
\<close>

definition evp_run :: "'c cipher_api \<Rightarrow> u8 list \<Rightarrow> u8 list \<Rightarrow> u8 list \<Rightarrow> u8 list \<Rightarrow> int \<Rightarrow> (int \<times> u8 list \<times> int) option" where
  "evp_run ev inp key iv out live =
     (if \<not> ev_new ev then Some (-1, out, live)
      else let live1 = live + 1 in
        case ev_init ev key iv of
          None \<Rightarrow> Some (-1, out, live1 - 1)
        | Some c \<Rightarrow>
            (case ev_update ev c inp of
               None \<Rightarrow> Some (-1, out, live1 - 1)
             | Some (c', b1) \<Rightarrow>
                 (case put_bytes 0 b1 out of
                    None \<Rightarrow> None
                  | Some out1 \<Rightarrow>
                      (case ev_final ev c' of
                         None \<Rightarrow> Some (-1, out1, live1 - 1)
                       | Some b2 \<Rightarrow>
                           map_option (\<lambda>out2. (int (length b1) + int (length b2), out2, live1 - 1))
                             (put_bytes (int (length b1)) b2 out1)))))"

definition aes_encrypt :: "'c cipher_api \<Rightarrow> u8 list \<Rightarrow> u8 list \<Rightarrow> u8 list \<Rightarrow> u8 list \<Rightarrow> int \<Rightarrow> (int \<times> u8 list \<times> int) option" where
  "aes_encrypt enc plaintext key iv ciphertext live = evp_run enc plaintext key iv ciphertext live"

definition aes_decrypt :: "'c cipher_api \<Rightarrow> u8 list \<Rightarrow> u8 list \<Rightarrow> u8 list \<Rightarrow> u8 list \<Rightarrow> int \<Rightarrow> (int \<times> u8 list \<times> int) option" where
  "aes_decrypt dec_api ciphertext key iv plaintext live = evp_run dec_api ciphertext key iv plaintext live"

definition SECRET :: string where "SECRET = ''TOP SECRET: The kernel module password is ''  @ [CHR 0x27] @ ''penguin42'' @ [CHR 0x27]"

fun hex_rows :: "nat \<Rightarrow> u8 list \<Rightarrow> string" where
  "hex_rows i [] = []"
| "hex_rows i (b # bs) =
     pad_zero 2 (fmt_x (uint b)) @ (if (i + 1) mod 32 = 0 then NL @ ''  '' else []) @ hex_rows (i + 1) bs"

text \<open>The string in a \<open>char\<close> array.\<close>

definition c_text :: "u8 list \<Rightarrow> u8 list" where
  "c_text buf = takeWhile (\<lambda>b. b \<noteq> 0) buf"

text \<open>
  The arrays \<open>ciphertext\<close> and \<open>decrypted\<close> have 256 bytes of indeterminate contents. The key and the
  initialisation vector are what \<open>RAND_bytes\<close> left in their arrays.
\<close>

definition demo_aes ::
    "'c cipher_api \<Rightarrow> 'd cipher_api \<Rightarrow> u8 list \<Rightarrow> u8 list \<Rightarrow> u8 list \<Rightarrow> u8 list \<Rightarrow> int \<Rightarrow> (string \<times> int) option" where
  "demo_aes enc dec_api key iv junk1 junk2 live =
     (let t1 = ''  Plaintext:  \"'' @ SECRET @ ''\"'' @ NL @ ''  Length:     '' @ dec (length SECRET) @ '' bytes'' @ NL @ NL @
            print_hex ''  Key'' key @ print_hex ''  IV '' iv in
      case aes_encrypt enc (text_bytes SECRET) key iv junk1 live of
        None \<Rightarrow> None
      | Some (cipher_len, ciphertext, live1) \<Rightarrow>
          if cipher_len < 0 then Some (t1 @ ''  ERROR: Encryption failed!'' @ NL, live1)
          else
            (let ct = take (nat cipher_len) ciphertext;
                 t2 = NL @ ''  Ciphertext ('' @ fmt_d cipher_len @ '' bytes):'' @ NL @ ''  '' @ hex_rows 0 ct @ NL in
             case aes_decrypt dec_api ct key iv junk2 live1 of
               None \<Rightarrow> None
             | Some (dec_len, decrypted, live2) \<Rightarrow>
                 if dec_len < 0 then Some (t1 @ t2 @ ''  ERROR: Decryption failed!'' @ NL, live2)
                 else map_option (\<lambda>d.
                        (t1 @ t2 @ NL @ ''  Decrypted:  \"'' @ map chr8 (c_text d) @ ''\"'' @ NL @ ''  Match:      '' @
                           (if c_text d = text_bytes SECRET then CHECK @ ''YES'' else CROSS @ ''NO'') @ NL @ NL, live2))
                      (put_bytes dec_len [0] decrypted)))"

section \<open>HMAC\<close>

text \<open>\<open>HMAC\<close> as a function of key and message; \<open>CRYPTO_memcmp\<close> compares.\<close>

definition demo_hmac :: "(u8 list \<Rightarrow> u8 list \<Rightarrow> u8 list) \<Rightarrow> string" where
  "demo_hmac HMAC =
     (let message = ''Transfer $1000 to account 12345''; secret_key = ''my-shared-secret-key'';
          hmac_result = HMAC (text_bytes secret_key) (text_bytes message);
          hmac_verify = HMAC (text_bytes secret_key) (text_bytes message);
          tampered = ''Transfer $9999 to account 12345'';
          hmac_tampered = HMAC (text_bytes secret_key) (text_bytes tampered) in
      ''  Message: \"'' @ message @ ''\"'' @ NL @ ''  Key:     \"'' @ secret_key @ ''\"'' @ NL @ print_hex ''  HMAC   '' hmac_result @
      ''  Verify:  '' @ (if hmac_result = hmac_verify then CHECK @ ''VALID'' else CROSS @ ''INVALID'') @ NL @ NL @
      ''  Tampered: \"'' @ tampered @ ''\"'' @ NL @ print_hex ''  HMAC   '' hmac_tampered @
      ''  Verify:   '' @ (if hmac_result = hmac_tampered then CROSS @ ''VALID (BAD!)'' else CHECK @ ''INVALID (GOOD!)'') @
      '' (expected: INVALID)'' @ NL @ NL)"

section \<open>Properties\<close>

text \<open>Every path frees the context it created.\<close>

lemma evp_run_frees: "evp_run ev inp key iv out live = Some (r, out', live') \<Longrightarrow> live' = live"
  by (auto simp: evp_run_def Let_def split: if_splits option.splits)

lemma compute_sha256_frees: "compute_sha256 md data hash live = Some (r, hash', live') \<Longrightarrow> live' = live"
  by (auto simp: compute_sha256_def Let_def split: if_splits option.splits)

lemma evp_run_error_cases:
  "evp_run ev inp key iv out live = Some (r, out', live') \<Longrightarrow> r < 0 \<Longrightarrow>
     \<not> ev_new ev \<or> ev_init ev key iv = None \<or>
     (\<exists>c. ev_init ev key iv = Some c \<and> (ev_update ev c inp = None \<or> (\<exists>c' b. ev_update ev c inp = Some (c', b) \<and> ev_final ev c' = None)))"
  by (auto simp: evp_run_def Let_def split: if_splits option.splits)

text \<open>
  The documented behaviour of a padding block cipher with 16-byte blocks under a key and vector: no call
  fails, encryption pads to the next full block, and decryption gives back the text.
\<close>

definition cbc_pair :: "'c cipher_api \<Rightarrow> 'd cipher_api \<Rightarrow> u8 list \<Rightarrow> u8 list \<Rightarrow> bool" where
  "cbc_pair enc dec_api key iv \<longleftrightarrow> ev_new enc \<and> ev_new dec_api \<and>
     (\<forall>pt. \<exists>c c' b1 b2 d d' p1 p2.
        ev_init enc key iv = Some c \<and> ev_update enc c pt = Some (c', b1) \<and> ev_final enc c' = Some b2 \<and>
        length b1 + length b2 = length pt + (16 - length pt mod 16) \<and>
        ev_init dec_api key iv = Some d \<and> ev_update dec_api d (b1 @ b2) = Some (d', p1) \<and> ev_final dec_api d' = Some p2 \<and>
        p1 @ p2 = pt)"

text \<open>Two writes one behind the other are one write.\<close>

lemma put_bytes_twice:
  assumes "length xs + length ys \<le> length out"
  shows "\<exists>out1. put_bytes 0 xs out = Some out1 \<and>
    put_bytes (int (length xs)) ys out1 = Some (xs @ ys @ drop (length xs + length ys) out)"
  using assms by (simp add: put_bytes_def add.commute)

lemma evp_run_ok:
  assumes "ev_new ev" and "ev_init ev key iv = Some c" and "ev_update ev c inp = Some (c', b1)" and "ev_final ev c' = Some b2"
    and "length b1 + length b2 \<le> length out"
  shows "evp_run ev inp key iv out live =
    Some (int (length b1 + length b2), b1 @ b2 @ drop (length b1 + length b2) out, live)"
proof -
  obtain out1 where "put_bytes 0 b1 out = Some out1"
    "put_bytes (int (length b1)) b2 out1 = Some (b1 @ b2 @ drop (length b1 + length b2) out)"
    using put_bytes_twice [OF assms(5)] by blast
  with assms show ?thesis by (simp add: evp_run_def Let_def)
qed

text \<open>What encryption and decryption do to the arrays of the demonstration.\<close>

lemma aes_pair:
  assumes "cbc_pair enc dec_api key iv" and "length pt \<le> 239" and "length out1 = 256" "length out2 = 256"
  shows "\<exists>ct buf. length ct = length pt + (16 - length pt mod 16) \<and> take (length ct) buf = ct \<and>
    aes_encrypt enc pt key iv out1 live = Some (int (length ct), buf, live) \<and>
    aes_decrypt dec_api ct key iv out2 live = Some (int (length pt), pt @ drop (length pt) out2, live)"
proof -
  obtain c c' b1 b2 d d' p1 p2 where
    e: "ev_init enc key iv = Some c" "ev_update enc c pt = Some (c', b1)" "ev_final enc c' = Some b2"
      "length b1 + length b2 = length pt + (16 - length pt mod 16)" and
    d: "ev_init dec_api key iv = Some d" "ev_update dec_api d (b1 @ b2) = Some (d', p1)" "ev_final dec_api d' = Some p2"
      "p1 @ p2 = pt"
    using assms(1) unfolding cbc_pair_def by metis
  have n: "ev_new enc" "ev_new dec_api" using assms(1) by (simp_all add: cbc_pair_def)
  have "length pt + (16 - length pt mod 16) \<le> 256" using assms(2) by presburger
  then have "aes_encrypt enc pt key iv out1 live =
      Some (int (length (b1 @ b2)), b1 @ b2 @ drop (length b1 + length b2) out1, live)"
    unfolding aes_encrypt_def using evp_run_ok [OF n(1) e(1-3), of out1 live] e(4) assms(3) by simp
  moreover have "length p1 + length p2 = length pt" using d(4) by auto
  then have "aes_decrypt dec_api (b1 @ b2) key iv out2 live = Some (int (length pt), pt @ drop (length pt) out2, live)"
    unfolding aes_decrypt_def using evp_run_ok [OF n(2) d(1-3), of out2 live] d(4) assms(2,4) by (auto simp flip: append_assoc)
  ultimately show ?thesis using e(4)
    by (intro exI [of _ "b1 @ b2"] exI [of _ "b1 @ b2 @ drop (length b1 + length b2) out1"]) simp
qed

lemma secret_bytes: "length SECRET = 53" "list_all (\<lambda>b. b \<noteq> 0) (text_bytes SECRET)"
  by (simp add: SECRET_def) code_simp

text \<open>
  C24. With a block cipher that does what it is documented to do, encryption followed by decryption gives
  back every text of at most 239 bytes inside the 256-byte arrays of the demonstration, and the
  demonstration reports the match. No call leaks a context, whatever fails.
\<close>

theorem aes_roundtrip:
  assumes "cbc_pair enc dec_api key iv" and "length pt \<le> 239" and "length out1 = 256" "length out2 = 256"
  shows "(\<exists>ct buf out. aes_encrypt enc pt key iv out1 live = Some (int (length ct), buf, live) \<and> take (length ct) buf = ct \<and>
      length ct mod 16 = 0 \<and>
      aes_decrypt dec_api ct key iv out2 live = Some (int (length pt), out, live) \<and> take (length pt) out = pt) \<and>
    (\<exists>t. demo_aes enc dec_api key iv out1 out2 live = Some (t @ ''  Match:      '' @ CHECK @ ''YES'' @ NL @ NL, live)) \<and>
    (\<forall>r out' live'. evp_run ev inp key' iv' out live = Some (r, out', live') \<longrightarrow> live' = live)"
proof (intro conjI)
  obtain ct buf where p: "length ct = length pt + (16 - length pt mod 16)" "take (length ct) buf = ct"
    "aes_encrypt enc pt key iv out1 live = Some (int (length ct), buf, live)"
    "aes_decrypt dec_api ct key iv out2 live = Some (int (length pt), pt @ drop (length pt) out2, live)"
    using aes_pair [OF assms] by blast
  moreover have "(length pt + (16 - length pt mod 16)) mod 16 = 0" by presburger
  ultimately show "\<exists>ct buf out. aes_encrypt enc pt key iv out1 live = Some (int (length ct), buf, live) \<and> take (length ct) buf = ct \<and>
      length ct mod 16 = 0 \<and>
      aes_decrypt dec_api ct key iv out2 live = Some (int (length pt), out, live) \<and> take (length pt) out = pt"
    by (intro exI [of _ ct] exI [of _ buf] exI [of _ "pt @ drop (length pt) out2"]) simp
  define m where "m = text_bytes SECRET"
  have m: "length m = 53" "list_all (\<lambda>b. b \<noteq> 0) m" using secret_bytes by (simp_all add: m_def)
  obtain ct' buf' where q: "take (length ct') buf' = ct'"
    "aes_encrypt enc m key iv out1 live = Some (int (length ct'), buf', live)"
    "aes_decrypt dec_api ct' key iv out2 live = Some (53, m @ drop 53 out2, live)"
    using aes_pair [OF assms(1) _ assms(3,4), of m live] m(1) by auto
  have "put_bytes 53 [0] (m @ drop 53 out2) = Some (m @ 0 # drop 54 out2)" using m(1) assms(4) by (simp add: put_bytes_def)
  moreover have "c_text (m @ 0 # drop 54 out2) = m" using m(2) by (simp add: c_text_def list_all_iff takeWhile_tail)
  ultimately show "\<exists>t. demo_aes enc dec_api key iv out1 out2 live = Some (t @ ''  Match:      '' @ CHECK @ ''YES'' @ NL @ NL, live)"
    using q unfolding demo_aes_def m_def [symmetric] Let_def by simp
  show "\<forall>r out' live'. evp_run ev inp key' iv' out live = Some (r, out', live') \<longrightarrow> live' = live"
    using evp_run_frees by blast
qed

text \<open>A cipher that only pads, to see the hypothesis satisfied.\<close>

definition pad_enc :: "u8 list cipher_api" where
  "pad_enc = \<lparr>ev_new = True, ev_init = (\<lambda>_ _. Some []), ev_update = (\<lambda>c inp. Some (inp, [])),
     ev_final = (\<lambda>c. Some (c @ replicate (16 - length c mod 16) (word_of_nat (16 - length c mod 16))))\<rparr>"

definition pad_dec :: "u8 list cipher_api" where
  "pad_dec = \<lparr>ev_new = True, ev_init = (\<lambda>_ _. Some []), ev_update = (\<lambda>c inp. Some (inp, [])),
     ev_final = (\<lambda>c. Some (take (length c - unat (last c)) c))\<rparr>"

lemma unpad:
  assumes "0 < k" "k \<le> 16"
  shows "take (length (c @ replicate k (word_of_nat k :: u8)) - unat (last (c @ replicate k (word_of_nat k :: u8))))
    (c @ replicate k (word_of_nat k)) = c"
  using assms by (simp add: unat_of_nat)

lemma pad_pair: "cbc_pair pad_enc pad_dec key iv"
  unfolding cbc_pair_def
proof (intro conjI allI)
  fix pt :: "u8 list"
  define k where "k = 16 - length pt mod 16"
  have k: "0 < k" "k \<le> 16" by (simp_all add: k_def)
  define b where "b = pt @ replicate k (word_of_nat k :: u8)"
  have "ev_final pad_enc pt = Some b" unfolding pad_enc_def b_def k_def cipher_api.simps by (rule refl)
  moreover have "length [] + length b = length pt + (16 - length pt mod 16)" by (simp add: b_def k_def)
  moreover have "ev_final pad_dec b = Some pt" using unpad [OF k, of pt] unfolding pad_dec_def cipher_api.simps b_def by (simp only:)
  moreover have "ev_init pad_enc key iv = Some []" "ev_update pad_enc [] pt = Some (pt, [])"
    "ev_init pad_dec key iv = Some []" "ev_update pad_dec [] ([] @ b) = Some (b, [])" "[] @ pt = pt"
    by (simp_all add: pad_enc_def pad_dec_def)
  ultimately show "\<exists>c c' b1 b2 d d' p1 p2.
        ev_init pad_enc key iv = Some c \<and> ev_update pad_enc c pt = Some (c', b1) \<and> ev_final pad_enc c' = Some b2 \<and>
        length b1 + length b2 = length pt + (16 - length pt mod 16) \<and>
        ev_init pad_dec key iv = Some d \<and> ev_update pad_dec d (b1 @ b2) = Some (d', p1) \<and> ev_final pad_dec d' = Some p2 \<and>
        p1 @ p2 = pt"
    by metis
qed (simp_all add: pad_enc_def pad_dec_def)

theorem aes_roundtrip_witness:
  "\<exists>t. demo_aes pad_enc pad_dec [1] [2] (replicate 256 7) (replicate 256 9) 0 =
     Some (t @ ''  Match:      '' @ CHECK @ ''YES'' @ NL @ NL, 0)"
proof -
  have l: "length ([] :: u8 list) \<le> 239" "length (replicate 256 (7 :: u8)) = 256" "length (replicate 256 (9 :: u8)) = 256" by simp_all
  show ?thesis by (rule aes_roundtrip [OF pad_pair l, THEN conjunct2, THEN conjunct1])
qed

end
