(* ===== verification/CustomProto.thy ===== *)
theory CustomProto
  imports Bytes
begin

text \<open>
  The custom Ethernet protocol of NetworkProgramming/Handson/lab08_kernel_network: the handler that the
  module custom_protocol.c registers with the kernel and the sender send_custom_packet.c. The log lines of the
  handler are kept, as they are all it does with a packet; the header pull that may fail is an argument.
\<close>

abbreviation (input) CUSTOM_ETH_TYPE :: int where "CUSTOM_ETH_TYPE \<equiv> 0x88B5"
abbreviation (input) CUSTOM_MAGIC :: int where "CUSTOM_MAGIC \<equiv> 0xDEADBEEF"

text \<open>The packed header of both files, with its fields in host order.\<close>

record custom_header =
  cu_magic :: int
  cu_version :: int
  cu_msg_type :: int
  cu_payload_len :: int

definition SIZEOF_CUSTOM_HEADER :: nat where "SIZEOF_CUSTOM_HEADER = 12"

section \<open>The receiver\<close>

text \<open>
  The module: its counter, whether its handler is registered, and the references to packet buffers that it
  has taken over and not released. \<open>rx_count\<close> is an \<open>unsigned long\<close>.
\<close>

datatype custom_log =
    Received int nat
  | Cannot_pull
  | Bad_magic int
  | Header custom_header
  | Payload nat "u8 list"
  | Registered
  | Unregistered int

record custom_module =
  rx_count :: int
  rx_registered :: bool
  rx_held :: int
  rx_log :: "custom_log list"

definition custom_header_at :: "u8 list \<Rightarrow> custom_header option" where
  "custom_header_at data =
     (if SIZEOF_CUSTOM_HEADER \<le> length data
      then Some \<lparr>cu_magic = be32 data 0, cu_version = be16 data 4, cu_msg_type = be16 data 6, cu_payload_len = be32 data 8\<rparr>
      else None)"

text \<open>
  The part of the handler between taking the packet and releasing it: what it logs. \<open>linear\<close> is what the
  kernel keeps of the packet in one piece, which \<open>skb->data\<close> points to; \<open>pull\<close> makes at least the asked number
  of bytes linear, or fails. \<open>None\<close>: bytes outside the linear part are read. The format \<open>%*ph\<close> prints
  \<open>plen\<close> bytes from its pointer.
\<close>

definition custom_parse ::
    "(nat \<Rightarrow> u8 list option) \<Rightarrow> nat \<Rightarrow> custom_log list option" where
  "custom_parse pull skb_len =
     (if skb_len \<ge> SIZEOF_CUSTOM_HEADER
      then case pull SIZEOF_CUSTOM_HEADER of
          None \<Rightarrow> Some [Cannot_pull]
        | Some linear \<Rightarrow>
            do {
              hdr \<leftarrow> custom_header_at linear;
              if cu_magic hdr \<noteq> CUSTOM_MAGIC then Some [Bad_magic (cu_magic hdr)]
              else if skb_len > SIZEOF_CUSTOM_HEADER
              then let plen = min 32 (skb_len - SIZEOF_CUSTOM_HEADER) in
                if SIZEOF_CUSTOM_HEADER + plen \<le> length linear
                then Some [Header hdr, Payload plen (take plen (drop SIZEOF_CUSTOM_HEADER linear))]
                else None
              else Some [Header hdr]
            }
      else Some [])"

definition custom_proto_rcv ::
    "(nat \<Rightarrow> u8 list option) \<Rightarrow> nat \<Rightarrow> custom_module \<Rightarrow> (custom_module \<times> int) option" where
  "custom_proto_rcv pull skb_len m =
     (let m1 = m\<lparr>rx_held := rx_held m + 1, rx_count := cast_u64 (rx_count m + 1)\<rparr>;
          m2 = m1\<lparr>rx_log := rx_log m1 @ [Received (rx_count m1) skb_len]\<rparr> in
      case custom_parse pull skb_len of
        None \<Rightarrow> None
      | Some l \<Rightarrow> Some (m2\<lparr>rx_log := rx_log m2 @ l, rx_held := rx_held m2 - 1\<rparr>, 0))"

definition custom_proto_init :: "custom_module \<Rightarrow> custom_module \<times> int" where
  "custom_proto_init m = (m\<lparr>rx_count := 0, rx_registered := True, rx_log := rx_log m @ [Registered]\<rparr>, 0)"

definition custom_proto_exit :: "custom_module \<Rightarrow> custom_module" where
  "custom_proto_exit m = m\<lparr>rx_registered := False, rx_log := rx_log m @ [Unregistered (rx_count m)]\<rparr>"

text \<open>
  The kernel hands the handler the packets of its type, in order, while it is registered: the payload of the
  frame, behind the Ethernet header. \<open>held\<close> is how it keeps a packet of that many bytes in memory: as one
  piece, or only a first part, which a pull extends.
\<close>

definition deliver :: "(u8 list \<Rightarrow> nat \<Rightarrow> u8 list option) \<Rightarrow> u8 list \<Rightarrow> custom_module \<Rightarrow> custom_module option" where
  "deliver pull frame m =
     (if rx_registered m \<and> 14 \<le> length frame \<and> be16 frame 12 = CUSTOM_ETH_TYPE
      then map_option fst (custom_proto_rcv (pull (drop 14 frame)) (length frame - 14) m)
      else Some m)"

section \<open>The sender\<close>

definition GREETING :: string where "GREETING = ''Hello from custom protocol!''"

text \<open>
  The frame of \<open>main\<close>: the destination is the sender itself on the loopback interface and everyone elsewhere.
  \<open>None\<close>: the array \<open>frame[128]\<close> is overrun.
\<close>

definition dst_mac :: "string \<Rightarrow> u8 list \<Rightarrow> u8 list" where
  "dst_mac ifname src_mac = (if ifname = ''lo'' then src_mac else replicate 6 0xff)"

definition pad60 :: "u8 list \<Rightarrow> u8 list" where
  "pad60 bs = bs @ replicate (60 - length bs) 0"

definition build_frame :: "string \<Rightarrow> u8 list \<Rightarrow> u8 list option" where
  "build_frame ifname src_mac =
     (let frame = pad60 (dst_mac ifname src_mac @ src_mac @ enc_be16 CUSTOM_ETH_TYPE @
            enc_be32 CUSTOM_MAGIC @ enc_be16 1 @ enc_be16 1 @ enc_be32 (int (length GREETING)) @ text_bytes GREETING) in
      if length frame \<le> 128 then Some frame else None)"

text \<open>
  The program: \<open>None\<close> for undefined behaviour, otherwise the exit status and the frame sent. The system
  calls answer whether the socket opens, the interface is known, its address is known and the frame goes out.
\<close>

definition send_custom_packet ::
    "bool \<Rightarrow> (string \<Rightarrow> int option) \<Rightarrow> (string \<Rightarrow> u8 list option) \<Rightarrow> string option \<Rightarrow> (int \<times> u8 list list) option" where
  "send_custom_packet socket_ok SIOCGIFINDEX SIOCGIFHWADDR arg =
     (let ifname = (case arg of None \<Rightarrow> ''lo'' | Some s \<Rightarrow> s); ifr_name = take 15 ifname in
      if \<not> socket_ok then Some (1, [])
      else case SIOCGIFINDEX ifr_name of
          None \<Rightarrow> Some (1, [])
        | Some ifindex \<Rightarrow>
            (case SIOCGIFHWADDR ifr_name of
               None \<Rightarrow> Some (1, [])
             | Some src_mac \<Rightarrow> map_option (\<lambda>f. (0, [f])) (build_frame ifname (take 6 src_mac))))"

section \<open>Properties\<close>

text \<open>A handler run releases the packet it took and counts it, whatever the packet holds.\<close>

lemma custom_proto_rcv_balanced:
  "custom_proto_rcv pull n m = Some (m', r) \<Longrightarrow>
     rx_held m' = rx_held m \<and> rx_count m' = cast_u64 (rx_count m + 1) \<and> rx_registered m' = rx_registered m \<and> r = 0"
  by (auto simp: custom_proto_rcv_def Let_def split: option.splits)

text \<open>On a packet that is in one piece nothing outside it is read.\<close>

lemma custom_parse_linear: "\<exists>l. custom_parse (\<lambda>n. Some data) (length data) = Some l"
  by (auto simp: custom_parse_def custom_header_at_def SIZEOF_CUSTOM_HEADER_def Let_def)

lemma greeting_length: "length GREETING = 27"
  by (simp add: GREETING_def)

text \<open>The payload of the frame: header, greeting and the padding to sixty bytes.\<close>

definition greeting_packet :: "u8 list" where
  "greeting_packet = enc_be32 CUSTOM_MAGIC @ enc_be16 1 @ enc_be16 1 @ enc_be32 27 @ text_bytes GREETING @ replicate 7 0"

lemma greeting_packet_length: "length greeting_packet = 46"
  by (simp add: greeting_packet_def greeting_length)

lemma build_frame_value:
  "length mac = 6 \<Longrightarrow> build_frame ifname mac = Some (dst_mac ifname mac @ mac @ enc_be16 CUSTOM_ETH_TYPE @ greeting_packet)"
  by (simp add: build_frame_def pad60_def dst_mac_def greeting_packet_def greeting_length Let_def eval_nat_numeral)

definition greeting_header :: custom_header where
  "greeting_header = \<lparr>cu_magic = CUSTOM_MAGIC, cu_version = 1, cu_msg_type = 1, cu_payload_len = 27\<rparr>"

lemma greeting_packet_header:
  "custom_header_at greeting_packet = Some greeting_header"
  "custom_header_at (take 12 greeting_packet) = Some greeting_header"
proof -
  let ?t = "text_bytes GREETING @ replicate 7 0"
  let ?p = "\<lambda>t. enc_be32 CUSTOM_MAGIC @ enc_be16 1 @ enc_be16 1 @ enc_be32 27 @ t"
  have h: "custom_header_at (?p t) = Some greeting_header" for t
    using be32_enc [of "[]" CUSTOM_MAGIC "enc_be16 1 @ enc_be16 1 @ enc_be32 27 @ t"]
      be16_enc [of "enc_be32 CUSTOM_MAGIC" 1 "enc_be16 1 @ enc_be32 27 @ t"]
      be16_enc [of "enc_be32 CUSTOM_MAGIC @ enc_be16 1" 1 "enc_be32 27 @ t"]
      be32_enc [of "enc_be32 CUSTOM_MAGIC @ enc_be16 1 @ enc_be16 1" 27 t]
    by (simp add: custom_header_at_def SIZEOF_CUSTOM_HEADER_def greeting_header_def)
  show "custom_header_at greeting_packet = Some greeting_header" unfolding greeting_packet_def by (rule h)
  have "take 12 greeting_packet = ?p []" by (simp add: greeting_packet_def)
  then show "custom_header_at (take 12 greeting_packet) = Some greeting_header" by (simp only: h)
qed

lemma greeting_payload: "take 32 (drop 12 greeting_packet) = text_bytes GREETING @ replicate 5 0"
  by (simp add: greeting_packet_def greeting_length)

text \<open>
  Sender and handler agree: on every interface the sender builds a frame of sixty bytes, and a module
  that gets it in one piece counts it, accepts the header with version 1, type 1 and the length of
  the greeting, logs the greeting, followed by five bytes of padding, and releases the packet. If the kernel keeps
  only the twelve bytes that the handler asked for in the first piece, the handler reads past them.
\<close>

theorem custom_greeting:
  assumes "length mac = 6" and "rx_registered m" and "0 \<le> rx_count m" "rx_count m < 2 ^ 64 - 1"
  shows "\<exists>f. build_frame ifname mac = Some f \<and> length f = 60 \<and>
    deliver (\<lambda>d n. Some d) f m =
      Some (m\<lparr>rx_count := rx_count m + 1,
              rx_log := rx_log m @ [Received (rx_count m + 1) 46,
                Header \<lparr>cu_magic = 0xDEADBEEF, cu_version = 1, cu_msg_type = 1, cu_payload_len = int (length GREETING)\<rparr>,
                Payload 32 (text_bytes GREETING @ replicate 5 0)]\<rparr>) \<and>
    deliver (\<lambda>d n. Some (take n d)) f m = None"
proof -
  define f where "f = dst_mac ifname mac @ mac @ enc_be16 CUSTOM_ETH_TYPE @ greeting_packet"
  have d: "length (dst_mac ifname mac) = 6" using assms(1) by (simp add: dst_mac_def)
  have f: "build_frame ifname mac = Some f" "length f = 60" "drop 14 f = greeting_packet"
    using assms(1) d by (simp_all add: f_def build_frame_value greeting_packet_length)
  have e: "be16 f 12 = CUSTOM_ETH_TYPE"
    using be16_enc [of "dst_mac ifname mac @ mac" CUSTOM_ETH_TYPE greeting_packet] assms(1) d by (simp add: f_def)
  have p: "custom_parse (\<lambda>n. Some greeting_packet) 46 =
      Some [Header greeting_header, Payload 32 (text_bytes GREETING @ replicate 5 0)]"
    using greeting_packet_header(1) greeting_payload greeting_packet_length
    by (simp add: custom_parse_def SIZEOF_CUSTOM_HEADER_def greeting_header_def Let_def)
  have q: "custom_parse (\<lambda>n. Some (take n greeting_packet)) 46 = None"
    using greeting_packet_header(2) greeting_packet_length
    by (simp add: custom_parse_def SIZEOF_CUSTOM_HEADER_def greeting_header_def Let_def)
  have "cast_u64 (rx_count m + 1) = rx_count m + 1" using assms(3,4) by simp
  then show ?thesis
    using assms(2) f e p q by (simp add: deliver_def custom_proto_rcv_def greeting_header_def greeting_length Let_def)
qed

theorem custom_greeting_witness:
  "\<exists>f. build_frame ''eth0'' [2, 0, 0, 0, 0, 1] = Some f \<and> length f = 60 \<and>
    deliver (\<lambda>d n. Some (take n d)) f (fst (custom_proto_init \<lparr>rx_count = 9, rx_registered = False, rx_held = 0, rx_log = []\<rparr>)) = None"
  using custom_greeting [of "[2, 0, 0, 0, 0, 1]"
      "fst (custom_proto_init \<lparr>rx_count = 9, rx_registered = False, rx_held = 0, rx_log = []\<rparr>)" "''eth0''"]
  by (auto simp: custom_proto_init_def)

end
