(* ===== verification/Dns.thy ===== *)
theory Dns
  imports Packets
begin

text \<open>
  The DNS client of NetworkProgramming/Handson/lab01_socket_basics/dns_client.c: encoding a name,
  parsing a possibly compressed name, building the query and reading the answers. The loop of
  \<open>parse_name\<close> follows pointers and may not end, so it has fuel and an \<open>outcome\<close>. The packet is the
  whole receive array with the number of bytes received, since the code can look one byte past them;
  \<open>inet_ntop\<close> for IPv6 is an argument.
\<close>

section \<open>Encoding\<close>

text \<open>The label at the front of a name and what follows it, with the dot skipped.\<close>

definition label_of :: "string \<Rightarrow> string" where
  "label_of p = takeWhile (\<lambda>c. c \<noteq> CHR ''.'') p"

definition after_label :: "string \<Rightarrow> string" where
  "after_label p = drop 1 (dropWhile (\<lambda>c. c \<noteq> CHR ''.'') p)"

lemma after_label_shorter: "p \<noteq> [] \<Longrightarrow> length (after_label p) < length p"
  using length_dropWhile_le [of "\<lambda>c. c \<noteq> CHR ''.''" p] by (cases p) (auto simp: after_label_def)

function encode_loop :: "string \<Rightarrow> int \<Rightarrow> u8 list \<Rightarrow> int \<Rightarrow> (int \<times> u8 list) option" where
  "encode_loop p pos buf bufsize =
     (if p = [] then
        (if pos \<ge> bufsize then Some (-1, buf)
         else map_option (\<lambda>b. (pos + 1, b)) (put_bytes pos [0] buf))
      else
        (let len = int (length (label_of p)) in
         if pos + 1 + len \<ge> bufsize then Some (-1, buf)
         else case put_bytes pos (word_of_int len # text_bytes (label_of p)) buf of
                None \<Rightarrow> None
              | Some b \<Rightarrow> encode_loop (after_label p) (pos + 1 + len) b bufsize))"
  by pat_completeness auto
termination by (relation "measure (\<lambda>(p, _). length p)") (auto intro: after_label_shorter)

declare encode_loop.simps [simp del]

definition encode_name :: "string \<Rightarrow> u8 list \<Rightarrow> int \<Rightarrow> (int \<times> u8 list) option" where
  "encode_name nm buf bufsize = encode_loop nm 0 buf bufsize"

section \<open>Parsing\<close>

text \<open>
  One name: the position, the text written so far, and the position saved at the first pointer, if a
  pointer was followed. A length byte with both top bits set starts a pointer of fourteen bits.
\<close>

primrec parse_loop ::
  "nat \<Rightarrow> u8 list \<Rightarrow> int \<Rightarrow> int \<Rightarrow> string \<Rightarrow> int option \<Rightarrow> int \<Rightarrow> (int \<times> string) outcome" where
  "parse_loop 0 pkt pktlen pos out saved outsize = NoReturn"
| "parse_loop (Suc fuel) pkt pktlen pos out saved outsize =
     (if pos \<ge> pktlen then Ret (case saved of None \<Rightarrow> pos | Some sp \<Rightarrow> sp, out)
      else if pos < 0 \<or> int (length pkt) \<le> pos then Trap
      else let len = byte_at pkt (nat pos) in
        if len = 0 then Ret (case saved of None \<Rightarrow> pos + 1 | Some sp \<Rightarrow> sp, out)
        else if len \<ge> 192 then
          (if int (length pkt) \<le> pos + 1 then Trap
           else parse_loop fuel pkt pktlen ((len mod 64) * 256 + byte_at pkt (nat (pos + 1))) out
                  (case saved of None \<Rightarrow> Some (pos + 2) | Some sp \<Rightarrow> Some sp) outsize)
        else
          (let out1 = (if out \<noteq> [] \<and> int (length out) < outsize - 1 then out @ ''.'' else out);
               k = min (min len (pktlen - (pos + 1))) (outsize - 1 - int (length out1));
               k' = max 0 k
           in case get_bytes (pos + 1) k' pkt of
                None \<Rightarrow> Trap
              | Some bs \<Rightarrow> parse_loop fuel pkt pktlen (pos + 1 + k') (out1 @ map chr8 bs) saved outsize))"

text \<open>The array \<open>out\<close> then holds this text and a terminating NUL.\<close>

definition parse_name :: "nat \<Rightarrow> u8 list \<Rightarrow> int \<Rightarrow> int \<Rightarrow> int \<Rightarrow> (int \<times> string) outcome" where
  "parse_name fuel pkt pktlen offset outsize =
     (case parse_loop fuel pkt pktlen offset [] None outsize of
        Ret (p, out) \<Rightarrow> if 0 \<le> int (length out) \<and> int (length out) < outsize then Ret (p, out) else Trap
      | Trap \<Rightarrow> Trap
      | NoReturn \<Rightarrow> NoReturn)"

section \<open>The client\<close>

definition QUERY_FLAGS :: int where "QUERY_FLAGS = 0x0100"
definition SIZEOF_DNS_HEADER :: int where "SIZEOF_DNS_HEADER = 12"
definition SIZEOF_DNS_QUESTION :: int where "SIZEOF_DNS_QUESTION = 4"
definition SIZEOF_DNS_RR :: int where "SIZEOF_DNS_RR = 10"

record dns_header =
  dns_id :: int
  dns_flags :: int
  dns_qdcount :: int
  dns_ancount :: int
  dns_nscount :: int
  dns_arcount :: int

definition dns_header_bytes :: "dns_header \<Rightarrow> u8 list" where
  "dns_header_bytes h = enc_be16 (dns_id h) @ enc_be16 (dns_flags h) @ enc_be16 (dns_qdcount h) @
     enc_be16 (dns_ancount h) @ enc_be16 (dns_nscount h) @ enc_be16 (dns_arcount h)"

definition dns_header_at :: "u8 list \<Rightarrow> dns_header" where
  "dns_header_at b = \<lparr>dns_id = be16 b 0, dns_flags = be16 b 2, dns_qdcount = be16 b 4, dns_ancount = be16 b 6,
     dns_nscount = be16 b 8, dns_arcount = be16 b 10\<rparr>"

text \<open>The query for an A record; \<open>Inl\<close> is the message printed when the name is too long.\<close>

definition dns_query :: "int \<Rightarrow> string \<Rightarrow> u8 list \<Rightarrow> (string + u8 list) option" where
  "dns_query rand domain packet = do {
     p1 \<leftarrow> put_bytes 0 (dns_header_bytes \<lparr>dns_id = rand mod 65536, dns_flags = QUERY_FLAGS, dns_qdcount = 1,
       dns_ancount = 0, dns_nscount = 0, dns_arcount = 0\<rparr>) packet;
     (name_len, tl') \<leftarrow> encode_name domain (drop 12 p1) (512 - SIZEOF_DNS_HEADER);
     if name_len < 0 then Some (Inl (''Domain too long'' @ NL))
     else do {
       p3 \<leftarrow> put_bytes (SIZEOF_DNS_HEADER + name_len) (enc_be16 1 @ enc_be16 1) (take 12 p1 @ tl');
       Some (Inr (take (nat (SIZEOF_DNS_HEADER + name_len + SIZEOF_DNS_QUESTION)) p3))
     }
   }"

record dns_rr =
  rr_type :: int
  rr_class :: int
  rr_ttl :: int
  rr_rdlength :: int

definition dns_rr_at :: "u8 list \<Rightarrow> nat \<Rightarrow> dns_rr option" where
  "dns_rr_at b i = (if i + 10 \<le> length b
     then Some \<lparr>rr_type = be16 b i, rr_class = be16 b (i + 2), rr_ttl = be32 b (i + 4), rr_rdlength = be16 b (i + 8)\<rparr>
     else None)"

text \<open>Sequencing of outcomes.\<close>

fun then_do :: "'a outcome \<Rightarrow> ('a \<Rightarrow> 'b outcome) \<Rightarrow> 'b outcome" where
  "then_do (Ret x) f = f x"
| "then_do Trap f = Trap"
| "then_do NoReturn f = NoReturn"

fun or_trap :: "'a option \<Rightarrow> 'a outcome" where
  "or_trap None = Trap"
| "or_trap (Some x) = Ret x"

definition ttl_text :: "dns_rr \<Rightarrow> string" where
  "ttl_text rr = '' (TTL='' @ fmt_u (rr_ttl rr) @ '')'' @ NL"

definition show_rdata :: "(u8 list \<Rightarrow> string) \<Rightarrow> nat \<Rightarrow> u8 list \<Rightarrow> int \<Rightarrow> int \<Rightarrow> dns_rr \<Rightarrow> string outcome" where
  "show_rdata ntop6 fuel resp n pos rr =
     (if rr_type rr = 1 \<and> rr_rdlength rr = 4 then
        then_do (or_trap (get_bytes pos 4 resp)) (\<lambda>bs. Ret (''A '' @ dotted (map uint bs) @ ttl_text rr))
      else if rr_type rr = 28 \<and> rr_rdlength rr = 16 then
        then_do (or_trap (get_bytes pos 16 resp)) (\<lambda>bs. Ret (''AAAA '' @ ntop6 bs @ ttl_text rr))
      else if rr_type rr = 5 then
        then_do (parse_name fuel resp n pos 256) (\<lambda>(_, cname). Ret (''CNAME '' @ cname @ ttl_text rr))
      else Ret (''type='' @ fmt_u (rr_type rr) @ '' rdlen='' @ fmt_u (rr_rdlength rr) @ ttl_text rr))"

primrec show_answers :: "(u8 list \<Rightarrow> string) \<Rightarrow> nat \<Rightarrow> u8 list \<Rightarrow> int \<Rightarrow> nat \<Rightarrow> int \<Rightarrow> string outcome" where
  "show_answers ntop6 fuel resp n 0 pos = Ret []"
| "show_answers ntop6 fuel resp n (Suc k) pos =
     (if pos \<ge> n then Ret []
      else then_do (parse_name fuel resp n pos 256) (\<lambda>(p, nm).
        if p + SIZEOF_DNS_RR > n then Ret []
        else then_do (or_trap (dns_rr_at resp (nat p))) (\<lambda>rr.
          then_do (show_rdata ntop6 fuel resp n (p + SIZEOF_DNS_RR) rr) (\<lambda>t.
            then_do (show_answers ntop6 fuel resp n k (p + SIZEOF_DNS_RR + rr_rdlength rr)) (\<lambda>rest.
              Ret (''  '' @ nm @ '': '' @ t @ rest))))))"

text \<open>What the client prints about a response of \<open>n\<close> bytes in the receive array, and its exit status.\<close>

definition dns_response :: "(u8 list \<Rightarrow> string) \<Rightarrow> nat \<Rightarrow> u8 list \<Rightarrow> int \<Rightarrow> (int \<times> string) outcome" where
  "dns_response ntop6 fuel resp n =
     (let h = dns_header_at resp; rcode = dns_flags h mod 16;
          intro = ''Response: ID='' @ hex4 (dns_id h) @ '', RCODE='' @ fmt_d rcode @ '', Answers='' @
            fmt_d (dns_ancount h) @ NL
      in if rcode \<noteq> 0 then Ret (1, intro @ ''DNS error (RCODE='' @ fmt_d rcode @ '')'' @ NL)
         else then_do (parse_name fuel resp n SIZEOF_DNS_HEADER 256) (\<lambda>(p, _).
           then_do (show_answers ntop6 fuel resp n (nat (dns_ancount h)) (p + SIZEOF_DNS_QUESTION)) (\<lambda>t.
             Ret (0, intro @ NL @ ''Answers:'' @ NL @ t))))"

section \<open>Names on the wire\<close>

definition wire_label :: "string \<Rightarrow> u8 list" where
  "wire_label l = word_of_nat (length l) # text_bytes l"

definition wire_name :: "string list \<Rightarrow> u8 list" where
  "wire_name ls = concat (map wire_label ls) @ [0]"

fun join_labels :: "string list \<Rightarrow> string" where
  "join_labels [] = []"
| "join_labels [l] = l"
| "join_labels (l # ls) = l @ ''.'' @ join_labels ls"

definition label_ok :: "string \<Rightarrow> bool" where
  "label_ok l \<longleftrightarrow> l \<noteq> [] \<and> length l < 64 \<and> CHR ''.'' \<notin> set l"

lemma wire_label_length [simp]: "length (wire_label l) = length l + 1"
  by (simp add: wire_label_def)

lemma wire_name_Cons: "wire_name (l # ls) = wire_label l @ wire_name ls"
  by (simp add: wire_name_def)

lemma wire_name_Nil: "wire_name [] = [0]"
  by (simp add: wire_name_def)

lemma join_labels_Cons: "join_labels (l # ls) = l @ (if ls = [] then [] else ''.'' @ join_labels ls)"
  by (cases ls) simp_all

lemma join_length: "ls \<noteq> [] \<Longrightarrow> length (wire_name ls) = length (join_labels ls) + 2"
  by (induction ls rule: join_labels.induct) (simp_all add: wire_name_Cons wire_name_Nil)

lemma first_label:
  assumes "label_ok l"
  shows "label_of (join_labels (l # ls)) = l" and "after_label (join_labels (l # ls)) = join_labels ls"
    and "join_labels (l # ls) \<noteq> []"
proof -
  have d: "\<forall>c \<in> set l. c \<noteq> CHR ''.''" using assms by (auto simp: label_ok_def)
  then have "takeWhile (\<lambda>c. c \<noteq> CHR ''.'') l = l" "dropWhile (\<lambda>c. c \<noteq> CHR ''.'') l = []"
    by (simp_all add: takeWhile_eq_all_conv dropWhile_eq_Nil_conv)
  with d show "label_of (join_labels (l # ls)) = l" "after_label (join_labels (l # ls)) = join_labels ls"
    by (simp_all add: label_of_def after_label_def join_labels_Cons takeWhile_append2 dropWhile_append2)
  show "join_labels (l # ls) \<noteq> []" using assms by (simp add: label_ok_def join_labels_Cons)
qed

lemma encode_labels:
  "list_all label_ok ls \<Longrightarrow> int pos + int (length (wire_name ls)) \<le> bufsize \<Longrightarrow> bufsize \<le> int (length buf) \<Longrightarrow>
     encode_loop (join_labels ls) (int pos) buf bufsize =
       Some (int pos + int (length (wire_name ls)), splice pos (wire_name ls) buf)"
proof (induction ls arbitrary: pos buf)
  case Nil
  then show ?case
    by (subst encode_loop.simps) (simp add: wire_name_Nil put_bytes_splice)
next
  case (Cons l ls)
  let ?b = "splice pos (wire_label l) buf"
  have l: "label_ok l" using Cons.prems by simp
  note fl = first_label [OF l, of ls]
  have n: "length (wire_name (l # ls)) = length l + 1 + length (wire_name ls)" by (simp add: wire_name_Cons)
  have pos1: "0 < length (wire_name ls)" by (simp add: wire_name_def)
  have "put_bytes (int pos) (wire_label l) buf = Some ?b"
    using Cons.prems n by (intro put_bytes_splice) simp
  moreover have "word_of_int (int (length l)) # text_bytes l = wire_label l" by (simp add: wire_label_def)
  moreover have "\<not> bufsize \<le> int pos + 1 + int (length l)" using Cons.prems(2) n pos1 by linarith
  ultimately have "encode_loop (join_labels (l # ls)) (int pos) buf bufsize =
      encode_loop (join_labels ls) (int pos + 1 + int (length l)) ?b bufsize"
    using fl by (subst encode_loop.simps) (simp add: Let_def)
  also have "int pos + 1 + int (length l) = int (pos + length (wire_label l))" by simp
  also have "encode_loop (join_labels ls) (int (pos + length (wire_label l))) ?b bufsize =
      Some (int (pos + length (wire_label l)) + int (length (wire_name ls)), splice (pos + length (wire_label l)) (wire_name ls) ?b)"
    using Cons.prems n by (intro Cons.IH) (simp_all add: splice_length)
  also have "splice (pos + length (wire_label l)) (wire_name ls) ?b = splice pos (wire_name (l # ls)) buf"
    using Cons.prems n splice_append [of pos "wire_label l" "wire_name ls" buf] by (simp only: wire_name_Cons) simp
  finally show ?case using n by simp
qed

lemma label_byte: "label_ok l \<Longrightarrow> uint (word_of_nat (length l) :: u8) = int (length l)"
  by (simp add: label_ok_def uint_nat unat_of_nat)

lemma chars_of_text [simp]: "map chr8 (text_bytes t) = t"
  by (simp add: text_bytes_def o_def)

definition resumed :: "int option \<Rightarrow> int \<Rightarrow> int" where
  "resumed saved p = (case saved of None \<Rightarrow> p | Some sp \<Rightarrow> sp)"

lemma parse_labels:
  assumes "list_all label_ok ls" and "pkt = pre @ wire_name ls @ post"
    and "int (length pre + length (wire_name ls)) \<le> pktlen" and "pktlen \<le> int (length pkt)"
    and "ls = [] \<or> int (length out + 1 + length (join_labels ls)) < outsize" and "length ls < fuel"
  shows "parse_loop fuel pkt pktlen (int (length pre)) out saved outsize =
    Ret (resumed saved (int (length pre + length (wire_name ls))),
         out @ (if out \<noteq> [] \<and> ls \<noteq> [] then ''.'' else []) @ join_labels ls)"
  using assms
proof (induction ls arbitrary: fuel pre out)
  case Nil
  then obtain f where "fuel = Suc f" by (cases fuel) auto
  with Nil show ?case by (simp add: wire_name_Nil byte_at_def nth_append resumed_def split: option.split)
next
  case (Cons l ls)
  then obtain f where f: "fuel = Suc f" "length ls < f" by (cases fuel) auto
  have l: "label_ok l" "0 < length l" "length l < 64" using Cons.prems(1) by (auto simp: label_ok_def)
  let ?p = "length pre" and ?out1 = "if out \<noteq> [] then out @ ''.'' else out"
  have pkt: "pkt = pre @ wire_label l @ wire_name ls @ post" using Cons.prems(2) by (simp add: wire_name_Cons)
  have n: "length (wire_name (l # ls)) = length l + 1 + length (wire_name ls)" by (simp add: wire_name_Cons)
  have j: "length (join_labels (l # ls)) = length l + (if ls = [] then 0 else 1 + length (join_labels ls))"
    by (simp add: join_labels_Cons)
  have byte: "byte_at pkt ?p = int (length l)"
    using label_byte [OF l(1)] by (simp add: pkt byte_at_def nth_append wire_label_def)
  have get: "get_bytes (int ?p + 1) (int (length l)) pkt = Some (text_bytes l)"
  proof -
    have "drop (Suc ?p) pkt = text_bytes l @ wire_name ls @ post" by (simp add: pkt wire_label_def)
    moreover have "nat (int ?p + 1) = Suc ?p" by simp
    ultimately show ?thesis by (simp add: get_bytes_def) (simp add: pkt)
  qed
  have k: "max 0 (min (min (int (length l)) (pktlen - (int ?p + 1))) (outsize - 1 - int (length ?out1))) = int (length l)"
    using Cons.prems(3,5) n j by (auto simp: min_def)
  have "parse_loop fuel pkt pktlen (int ?p) out saved outsize =
      parse_loop f pkt pktlen (int ?p + 1 + int (length l)) (?out1 @ l) saved outsize"
    using Cons.prems(3-5) n j l k get byte by (simp add: f(1) Let_def)
  also have "int ?p + 1 + int (length l) = int (length (pre @ wire_label l))" by simp
  also have "parse_loop f pkt pktlen (int (length (pre @ wire_label l))) (?out1 @ l) saved outsize =
      Ret (resumed saved (int (length (pre @ wire_label l) + length (wire_name ls))),
           (?out1 @ l) @ (if ?out1 @ l \<noteq> [] \<and> ls \<noteq> [] then ''.'' else []) @ join_labels ls)"
    using Cons.prems(1,3,4,5) n j f(2) pkt by (intro Cons.IH) (simp_all split: if_splits)
  finally show ?case using l n by (simp add: join_labels_Cons add.assoc)
qed

section \<open>Properties\<close>

text \<open>
  C20. A name of non-empty labels of at most 63 characters survives the wire: it is encoded into the
  buffer, whenever it fits, as length-prefixed labels and a root label, nothing else in the buffer
  changes, and parsing it back at any place of a packet gives the same text and the position behind it.
\<close>

theorem dns_name_roundtrip:
  assumes "list_all label_ok ls" and "length (wire_name ls) \<le> 255"
    and "int (length (wire_name ls)) \<le> bufsize" and "bufsize \<le> int (length buf)" and "length ls < fuel"
  shows "encode_name (join_labels ls) buf bufsize =
      Some (int (length (wire_name ls)), wire_name ls @ drop (length (wire_name ls)) buf) \<and>
    parse_name fuel (pre @ wire_name ls @ post) (int (length pre + length (wire_name ls) + length post)) (int (length pre)) 256 =
      Ret (int (length pre + length (wire_name ls)), join_labels ls)"
proof -
  have "encode_name (join_labels ls) buf bufsize = Some (int (length (wire_name ls)), wire_name ls @ drop (length (wire_name ls)) buf)"
    using encode_labels [OF assms(1), of 0 bufsize buf] assms(3,4) by (simp add: encode_name_def splice_def)
  moreover have j: "length (join_labels ls) \<le> 253" using join_length [of ls] assms(2) by (cases "ls = []") auto
  have "parse_loop fuel (pre @ wire_name ls @ post) (int (length pre + length (wire_name ls) + length post)) (int (length pre)) [] None 256 =
      Ret (int (length pre + length (wire_name ls)), join_labels ls)"
    using parse_labels [OF assms(1) refl, of pre "int (length pre + length (wire_name ls) + length post)" post "[]" 256 fuel None] assms(5) j
    by (simp add: resumed_def)
  ultimately show ?thesis using j by (simp add: parse_name_def)
qed

theorem dns_name_roundtrip_witness:
  "encode_name ''ab.c'' (replicate 10 7) 10 = Some (6, [2, 97, 98, 1, 99, 0, 7, 7, 7, 7]) \<and>
   parse_name 5 ([9] @ [2, 97, 98, 1, 99, 0] @ [8]) 8 1 256 = Ret (7, ''ab.c'')"
proof -
  have ok: "list_all label_ok [''ab'', ''c'']" by (simp add: label_ok_def)
  have w: "wire_name [''ab'', ''c''] = [2, 97, 98, 1, 99, 0]" by code_simp
  have "join_labels [''ab'', ''c''] = ''ab.c''" by simp
  with dns_name_roundtrip [OF ok, of 10 "replicate 10 7" 5 "[9]" "[8]"] w show ?thesis by (simp add: numeral_eq_Suc)
qed

definition inside :: "(int \<times> string) outcome \<Rightarrow> bool" where
  "inside r = (case r of Ret (p, t) \<Rightarrow> 0 \<le> p \<and> int (length t) < 256 | Trap \<Rightarrow> False | NoReturn \<Rightarrow> True)"

lemma parse_loop_inside:
  "n < int (length pkt) \<Longrightarrow> 0 \<le> pos \<Longrightarrow> int (length out) < 256 \<Longrightarrow> (\<And>sp. saved = Some sp \<Longrightarrow> 0 \<le> sp) \<Longrightarrow>
     inside (parse_loop fuel pkt n pos out saved 256)"
proof (induction fuel arbitrary: pos out saved)
  case (Suc fuel)
  let ?len = "byte_at pkt (nat pos)"
  define out1 where "out1 = (if out \<noteq> [] \<and> int (length out) < 256 - 1 then out @ ''.'' else out)"
  define k where "k = max 0 (min (min ?len (n - (pos + 1))) (256 - 1 - int (length out1)))"
  have len: "0 \<le> ?len" "?len < 256" using byte_at_range [of pkt "nat pos"] by simp_all
  consider "pos \<ge> n" | "pos < n" "?len = 0" | "pos < n" "?len \<ge> 192" | "pos < n" "?len \<noteq> 0" "?len < 192" by linarith
  then show ?case
  proof cases
    case 3
    have "0 \<le> ?len mod 64 * 256 + byte_at pkt (nat (pos + 1))"
      using byte_at_range [of pkt "nat (pos + 1)"] by simp
    moreover have "(case saved of None \<Rightarrow> Some (pos + 2) | Some sp \<Rightarrow> Some sp) = Some sp \<Longrightarrow> 0 \<le> sp" for sp
      using Suc.prems(2,4) by (cases saved) auto
    ultimately show ?thesis
      using Suc.IH [OF Suc.prems(1) _ Suc.prems(3)] 3 Suc.prems(1,2) by (simp add: Let_def)
  next
    case 4
    have o: "int (length out1) \<le> 255" using Suc.prems(3) by (simp add: out1_def)
    have k: "0 \<le> k" "pos + 1 + k \<le> int (length pkt)" "int (length out1) + k < 256"
      using 4 Suc.prems(1) o unfolding k_def by linarith+
    let ?bs = "take (nat k) (drop (nat (pos + 1)) pkt)"
    have get: "get_bytes (pos + 1) k pkt = Some ?bs"
      using k Suc.prems(2) by (intro get_bytes_ok) simp_all
    have c: "(pos \<ge> n) = False" "(pos < 0 \<or> int (length pkt) \<le> pos) = False" "(?len = 0) = False" "(?len \<ge> 192) = False"
      using 4 Suc.prems(1,2) by simp_all
    have "parse_loop (Suc fuel) pkt n pos out saved 256 = parse_loop fuel pkt n (pos + 1 + k) (out1 @ map chr8 ?bs) saved 256"
      by (simp only: parse_loop.simps Let_def c if_False get option.case flip: out1_def k_def)
    moreover have "int (length (out1 @ map chr8 ?bs)) < 256" using k by simp
    ultimately show ?thesis using Suc.IH [OF Suc.prems(1), of "pos + 1 + k" "out1 @ map chr8 ?bs" saved] k(1) Suc.prems(2,4)
      by simp
  qed (use Suc.prems in \<open>auto simp: Let_def inside_def split: option.split\<close>)
qed (simp add: inside_def)

lemma parse_name_inside:
  "n < int (length pkt) \<Longrightarrow> 0 \<le> off \<Longrightarrow> inside (parse_name fuel pkt n off 256)"
  using parse_loop_inside [of n pkt off "[]" None fuel] by (auto simp: parse_name_def inside_def split: outcome.splits)

lemma show_rdata_inside:
  assumes "n < int (length resp)" and "0 \<le> pos" and "pos + 16 \<le> int (length resp)"
  shows "show_rdata ntop6 fuel resp n pos rr \<noteq> Trap"
  using parse_name_inside [OF assms(1,2), of fuel] get_bytes_ok [of pos 4 resp] get_bytes_ok [of pos 16 resp] assms
  by (auto simp: show_rdata_def inside_def split: outcome.splits)

text \<open>Sixteen bytes behind the received ones are enough for the longest address.\<close>

lemma show_answers_inside:
  "n + 16 \<le> int (length resp) \<Longrightarrow> 0 \<le> pos \<Longrightarrow> show_answers ntop6 fuel resp n k pos \<noteq> Trap"
proof (induction k arbitrary: pos)
  case (Suc k)
  show ?case
  proof (cases "pos < n")
    case True
    have "inside (parse_name fuel resp n pos 256)" using parse_name_inside [of n resp pos fuel] Suc.prems by simp
    then consider "parse_name fuel resp n pos 256 = NoReturn"
      | p nm where "parse_name fuel resp n pos 256 = Ret (p, nm)" "0 \<le> p" by (auto simp: inside_def split: outcome.splits)
    then show ?thesis
    proof cases
      case 2
      show ?thesis
      proof (cases "p + SIZEOF_DNS_RR \<le> n")
        case fits: True
        then have b: "nat p + 10 \<le> length resp" using 2(2) Suc.prems(1) by (simp add: SIZEOF_DNS_RR_def)
        then obtain rr where rr: "dns_rr_at resp (nat p) = Some rr" "0 \<le> rr_rdlength rr"
          using be16_range [of resp "nat p + 8"] by (simp add: dns_rr_at_def)
        let ?q = "p + SIZEOF_DNS_RR"
        have "show_rdata ntop6 fuel resp n ?q rr \<noteq> Trap"
          using fits 2(2) Suc.prems(1) by (intro show_rdata_inside) (simp_all add: SIZEOF_DNS_RR_def)
        moreover have "show_answers ntop6 fuel resp n k (?q + rr_rdlength rr) \<noteq> Trap"
          using Suc.IH [OF Suc.prems(1), of "?q + rr_rdlength rr"] 2(2) rr(2) by (simp add: SIZEOF_DNS_RR_def)
        ultimately show ?thesis using True fits 2 rr(1)
          by (cases "show_rdata ntop6 fuel resp n ?q rr"; cases "show_answers ntop6 fuel resp n k (?q + rr_rdlength rr)") simp_all
      qed (use True 2 in simp)
    qed (use True in simp)
  qed simp
qed simp

text \<open>A response of 497 bytes in the receive array: an answer of unknown type with 458 bytes of data, and the head of an IPv6 address behind it.\<close>

definition late_answer :: "u8 list" where
  "late_answer = [0, 7, 0x81, 0x80, 0, 1, 0, 2, 0, 0, 0, 0] @ [0, 0, 1, 0, 1] @ [0, 0, 99, 0, 1, 0, 0, 0, 0, 1, 202] @
     replicate 458 0 @ [0, 0, 28, 0, 1, 0, 0, 0, 0, 0, 16] @ replicate 15 0"

text \<open>
  C36. Reading a response is memory-safe for whatever bytes a server sends, as long as they are at most 496: header, names, compression pointers, records and addresses are
  read inside the receive array of 512 bytes, and the names written inside their arrays of 256 characters with the terminating NUL. The bound is exact: the data of a
  record is not checked against the number of bytes received, and of a response of 497 bytes an address is read behind the end of the array.
\<close>

theorem dns_response_bounds:
  assumes "length resp = 512" and "n \<le> 496"
  shows "dns_response ntop6 fuel resp n \<noteq> Trap \<and>
    length late_answer = 512 \<and> dns_response ntop6 (Suc fuel) late_answer 497 = Trap"
proof -
  have "inside (parse_name fuel resp n SIZEOF_DNS_HEADER 256)"
    using parse_name_inside [of n resp SIZEOF_DNS_HEADER fuel] assms by (simp add: SIZEOF_DNS_HEADER_def)
  moreover have "show_answers ntop6 fuel resp n k (p + SIZEOF_DNS_QUESTION) \<noteq> Trap" if "0 \<le> p" for k p
    using show_answers_inside [of n resp "p + SIZEOF_DNS_QUESTION"] that assms by (simp add: SIZEOF_DNS_QUESTION_def)
  ultimately have "dns_response ntop6 fuel resp n \<noteq> Trap"
    by (auto simp: dns_response_def Let_def inside_def split: outcome.splits elim!: then_do.elims)
  moreover have "dns_response ntop6 (Suc fuel) late_answer 497 = Trap"
    by code_simp
  ultimately show ?thesis by (simp add: late_answer_def)
qed

theorem dns_response_bounds_witness: "dns_response (\<lambda>_. []) 100 (replicate 512 0x41) 496 \<noteq> Trap"
  using dns_response_bounds [of "replicate 512 0x41" 496] by simp

text \<open>
  A response can make the client hang: a name whose first byte is a compression pointer to itself
  is never finished, whatever the fuel, and with it the client.
\<close>

theorem dns_pointer_hangs:
  assumes "12 < n" and "length resp = 512" and "be16 resp 2 mod 16 = 0"
    and "byte_at resp 12 = 192" and "byte_at resp 13 = 12"
  shows "dns_response ntop6 fuel resp n = NoReturn"
proof -
  have "parse_loop fuel resp n 12 out saved 256 = NoReturn" for out saved
    using assms by (induction fuel arbitrary: saved) (simp_all add: Let_def)
  then have "parse_name fuel resp n 12 256 = NoReturn" by (simp add: parse_name_def)
  then show ?thesis using assms(3) by (simp add: dns_response_def dns_header_at_def SIZEOF_DNS_HEADER_def Let_def)
qed

theorem dns_pointer_hangs_witness:
  "dns_response (\<lambda>_. []) 1000 (replicate 12 0 @ [192, 12] @ replicate 498 0) 20 = NoReturn"
  by (rule dns_pointer_hangs; code_simp)

text \<open>A server's answer with one address, after the header and the question, naming it by a pointer.\<close>

definition answer_bytes :: "dns_header \<Rightarrow> string list \<Rightarrow> int \<Rightarrow> u8 list \<Rightarrow> u8 list" where
  "answer_bytes h ls ttl ip = dns_header_bytes h @ wire_name ls @ enc_be16 1 @ enc_be16 1 @
     [192, 12] @ enc_be16 1 @ enc_be16 1 @ enc_be32 ttl @ enc_be16 4 @ ip"

lemma dns_header_length [simp]: "length (dns_header_bytes h) = 12"
  by (simp add: dns_header_bytes_def)

lemma be16_at: "length pre = i \<Longrightarrow> be16 (pre @ enc_be16 x @ post) i = x mod 65536"
  using be16_enc [of pre x post] by simp

lemma dns_header_read:
  "dns_header_at (dns_header_bytes h @ rest) =
     \<lparr>dns_id = dns_id h mod 65536, dns_flags = dns_flags h mod 65536, dns_qdcount = dns_qdcount h mod 65536,
      dns_ancount = dns_ancount h mod 65536, dns_nscount = dns_nscount h mod 65536, dns_arcount = dns_arcount h mod 65536\<rparr>"
  using be16_at [of "[]" 0] be16_at [of "enc_be16 (dns_id h)" 2]
    be16_at [of "enc_be16 (dns_id h) @ enc_be16 (dns_flags h)" 4]
    be16_at [of "enc_be16 (dns_id h) @ enc_be16 (dns_flags h) @ enc_be16 (dns_qdcount h)" 6]
    be16_at [of "enc_be16 (dns_id h) @ enc_be16 (dns_flags h) @ enc_be16 (dns_qdcount h) @ enc_be16 (dns_ancount h)" 8]
    be16_at [of "enc_be16 (dns_id h) @ enc_be16 (dns_flags h) @ enc_be16 (dns_qdcount h) @ enc_be16 (dns_ancount h) @ enc_be16 (dns_nscount h)" 10]
  by (simp add: dns_header_at_def dns_header_bytes_def)

lemma dns_rr_read:
  assumes "length pre = i"
  shows "dns_rr_at (pre @ enc_be16 a @ enc_be16 b @ enc_be32 ttl @ enc_be16 c @ post) i =
    Some \<lparr>rr_type = a mod 65536, rr_class = b mod 65536, rr_ttl = ttl mod 4294967296, rr_rdlength = c mod 65536\<rparr>"
  using assms be16_at [of pre i a] be16_at [of "pre @ enc_be16 a" "i + 2" b] be32_enc [of "pre @ enc_be16 a @ enc_be16 b" ttl]
    be16_at [of "pre @ enc_be16 a @ enc_be16 b @ enc_be32 ttl" "i + 8" c]
  by (simp add: dns_rr_at_def)

lemma query_bytes:
  assumes "list_all label_ok ls" and "length (wire_name ls) \<le> 255" and "length packet = 512"
  shows "dns_query rand (join_labels ls) packet =
    Some (Inr (dns_header_bytes \<lparr>dns_id = rand mod 65536, dns_flags = 256, dns_qdcount = 1, dns_ancount = 0,
      dns_nscount = 0, dns_arcount = 0\<rparr> @ wire_name ls @ enc_be16 1 @ enc_be16 1))"
proof -
  let ?h = "dns_header_bytes \<lparr>dns_id = rand mod 65536, dns_flags = 256, dns_qdcount = 1, dns_ancount = 0, dns_nscount = 0, dns_arcount = 0\<rparr>"
  let ?w = "wire_name ls" and ?d = "drop 12 packet"
  have p1: "put_bytes 0 ?h packet = Some (?h @ ?d)" using put_bytes_ok [of 0 ?h packet] assms(3) by simp
  have e: "encode_name (join_labels ls) ?d 500 = Some (int (length ?w), ?w @ drop (length ?w) ?d)"
    using encode_labels [OF assms(1), of 0 500 ?d] assms(2,3) by (simp add: encode_name_def splice_def)
  let ?q = "?h @ ?w @ drop (length ?w) ?d"
  have "put_bytes (int (12 + length ?w)) (enc_be16 1 @ enc_be16 1) ?q =
      Some (splice (12 + length ?w) (enc_be16 1 @ enc_be16 1) ?q)"
    using assms(2,3) by (intro put_bytes_splice) simp
  moreover have "take (12 + length ?w + 4) (splice (12 + length ?w) (enc_be16 1 @ enc_be16 1) ?q) = ?h @ ?w @ enc_be16 1 @ enc_be16 1"
    by (simp add: splice_def)
  moreover have "nat (12 + int (length ?w) + 4) = 12 + length ?w + 4" "int 12 + int (length ?w) = 12 + int (length ?w)" by simp_all
  ultimately show ?thesis
    using p1 e by (simp add: dns_query_def QUERY_FLAGS_def SIZEOF_DNS_HEADER_def SIZEOF_DNS_QUESTION_def del: of_nat_add) (simp add: add.commute)
qed

text \<open>One answer with an address.\<close>

lemma one_address:
  assumes "parse_name fuel resp n pos 256 = Ret (int p, nm)"
    and "dns_rr_at resp p = Some \<lparr>rr_type = 1, rr_class = c, rr_ttl = ttl, rr_rdlength = 4\<rparr>"
    and "pos < n" and "int p + 10 \<le> n" and "get_bytes (int p + 10) 4 resp = Some ip"
  shows "show_answers ntop6 fuel resp n (Suc 0) pos =
    Ret (''  '' @ nm @ '': A '' @ dotted (map uint ip) @ '' (TTL='' @ fmt_u ttl @ '')'' @ NL)"
  using assms by (simp add: SIZEOF_DNS_RR_def show_rdata_def ttl_text_def)

text \<open>
  The client resolves names: for every name of valid labels it sends a well-formed query, and to the
  answer of a server that repeats the question and gives one address by a compression pointer to
  it, it prints that name, the address and the time to live, and exits with success.
\<close>

theorem dns_resolves:
  assumes "list_all label_ok ls" and "length (wire_name ls) \<le> 255" and "length packet = 512"
    and "dns_flags h mod 65536 mod 16 = 0" and "dns_ancount h = 1" and "0 \<le> ttl" and "ttl < 4294967296"
    and "length ip = 4" and "resp = answer_bytes h ls ttl ip @ stale" and "length resp = 512" and "Suc (length ls) < fuel"
  shows "dns_query rand (join_labels ls) packet = Some (Inr (dns_header_bytes \<lparr>dns_id = rand mod 65536,
      dns_flags = 256, dns_qdcount = 1, dns_ancount = 0, dns_nscount = 0, dns_arcount = 0\<rparr> @
      wire_name ls @ enc_be16 1 @ enc_be16 1)) \<and>
    dns_response ntop6 fuel resp (int (length (answer_bytes h ls ttl ip))) =
      Ret (0, ''Response: ID='' @ hex4 (dns_id h mod 65536) @ '', RCODE='' @ fmt_d 0 @ '', Answers='' @ fmt_d 1 @ NL @
        NL @ ''Answers:'' @ NL @ ''  '' @ join_labels ls @ '': A '' @ dotted (map uint ip) @ '' (TTL='' @ fmt_u ttl @ '')'' @ NL)"
proof
  show "dns_query rand (join_labels ls) packet = Some (Inr (dns_header_bytes \<lparr>dns_id = rand mod 65536,
      dns_flags = 256, dns_qdcount = 1, dns_ancount = 0, dns_nscount = 0, dns_arcount = 0\<rparr> @
      wire_name ls @ enc_be16 1 @ enc_be16 1))"
    by (rule query_bytes [OF assms(1-3)])
  let ?w = "length (wire_name ls)" and ?n = "int (length (answer_bytes h ls ttl ip))"
  let ?q = "enc_be16 1 @ enc_be16 1" and ?rr = "enc_be16 1 @ enc_be16 1 @ enc_be32 ttl @ enc_be16 4"
  have n: "?n = int (12 + ?w + 4 + 2 + 10 + 4)" using assms(8) by (simp add: answer_bytes_def)
  have j: "length (join_labels ls) \<le> 253" using join_length [of ls] assms(2) by (cases "ls = []") auto
  have r1: "resp = dns_header_bytes h @ wire_name ls @ (?q @ [192, 12] @ ?rr @ ip @ stale)"
    by (simp add: assms(9) answer_bytes_def)
  have le: "?n \<le> int (length resp)" by (simp add: assms(9))
  have loop: "parse_loop f resp ?n 12 [] saved 256 = Ret (resumed saved (int (12 + ?w)), join_labels ls)"
    if "length ls < f" for f saved
    using parse_labels [OF assms(1) r1 _ le, of "[]" 256 f saved] n j that by simp
  have first: "parse_name fuel resp ?n 12 256 = Ret (int (12 + ?w), join_labels ls)"
    using loop [of fuel None] assms(11) j by (simp add: parse_name_def resumed_def)
  have r2: "resp = (dns_header_bytes h @ wire_name ls @ ?q) @ [192, 12] @ (?rr @ ip @ stale)"
    by (simp add: r1)
  have ptr: "byte_at resp (16 + ?w) = 192" "byte_at resp (Suc (16 + ?w)) = 12"
    unfolding r2 byte_at_def by (simp_all add: nth_append)
  obtain f where f: "fuel = Suc f" "length ls < f" using assms(11) by (cases fuel) auto
  have "parse_loop fuel resp ?n (int (16 + ?w)) [] None 256 = parse_loop f resp ?n 12 [] (Some (int (18 + ?w))) 256"
    using ptr n le unfolding f(1) by (simp add: Let_def nat_add_distrib)
  then have second: "parse_name fuel resp ?n (int (16 + ?w)) 256 = Ret (int (18 + ?w), join_labels ls)"
    using loop [OF f(2), of "Some (int (18 + ?w))"] j by (simp add: parse_name_def resumed_def)
  have r3: "resp = (dns_header_bytes h @ wire_name ls @ ?q @ [192, 12]) @ ?rr @ (ip @ stale)" by (simp add: r1)
  have rr: "dns_rr_at resp (18 + ?w) = Some \<lparr>rr_type = 1, rr_class = 1, rr_ttl = ttl, rr_rdlength = 4\<rparr>"
    using assms(6,7) dns_rr_read [of "dns_header_bytes h @ wire_name ls @ ?q @ [192, 12]" "18 + ?w" 1 1 ttl 4 "ip @ stale"]
    by (simp add: r3)
  have addr: "get_bytes (int (28 + ?w)) 4 resp = Some ip"
    using assms(8) n le by (simp add: get_bytes_def r1 nat_add_distrib)
  have h: "dns_header_at resp = \<lparr>dns_id = dns_id h mod 65536, dns_flags = dns_flags h mod 65536,
      dns_qdcount = dns_qdcount h mod 65536, dns_ancount = 1, dns_nscount = dns_nscount h mod 65536, dns_arcount = dns_arcount h mod 65536\<rparr>"
    using dns_header_read [of h] assms(5) by (simp add: r1)
  have "show_answers ntop6 fuel resp ?n (Suc 0) (int (16 + ?w)) =
      Ret (''  '' @ join_labels ls @ '': A '' @ dotted (map uint ip) @ '' (TTL='' @ fmt_u ttl @ '')'' @ NL)"
    by (rule one_address [OF second rr]) (use n addr in \<open>simp_all add: add.commute\<close>)
  then show "dns_response ntop6 fuel resp (int (length (answer_bytes h ls ttl ip))) =
      Ret (0, ''Response: ID='' @ hex4 (dns_id h mod 65536) @ '', RCODE='' @ fmt_d 0 @ '', Answers='' @ fmt_d 1 @ NL @
        NL @ ''Answers:'' @ NL @ ''  '' @ join_labels ls @ '': A '' @ dotted (map uint ip) @ '' (TTL='' @ fmt_u ttl @ '')'' @ NL)"
    using first h assms(4) by (simp add: dns_response_def Let_def SIZEOF_DNS_HEADER_def SIZEOF_DNS_QUESTION_def del: show_answers.simps)
qed

definition sample_header :: dns_header where
  "sample_header = \<lparr>dns_id = 7, dns_flags = 0x8180, dns_qdcount = 1, dns_ancount = 1, dns_nscount = 0, dns_arcount = 0\<rparr>"

definition sample_answer :: "u8 list" where
  "sample_answer = answer_bytes sample_header [''ab'', ''c''] 300 [10, 0, 0, 1]"

theorem dns_resolves_witness:
  "dns_response (\<lambda>_. []) 5 (sample_answer @ replicate 474 0) 38 =
     Ret (0, ''Response: ID=0x0007, RCODE=0, Answers=1'' @ NL @ NL @ ''Answers:'' @ NL @
       ''  ab.c: A 10.0.0.1 (TTL=300)'' @ NL)"
proof -
  have ok: "list_all label_ok [''ab'', ''c'']" by (simp add: label_ok_def)
  have len: "length sample_answer = 38" "length (wire_name [''ab'', ''c'']) \<le> 255" by code_simp+
  have texts: "hex4 7 = ''0x0007''" "fmt_d 0 = ''0''" "fmt_d 1 = ''1''" "fmt_u 300 = ''300''"
    "dotted (map uint [10 :: u8, 0, 0, 1]) = ''10.0.0.1''" "join_labels [''ab'', ''c''] = ''ab.c''" by code_simp+
  have "dns_response (\<lambda>_. []) 5 (sample_answer @ replicate 474 0) (int (length sample_answer)) =
      Ret (0, ''Response: ID='' @ hex4 (dns_id sample_header mod 65536) @ '', RCODE='' @ fmt_d 0 @ '', Answers='' @ fmt_d 1 @ NL @
        NL @ ''Answers:'' @ NL @ ''  '' @ join_labels [''ab'', ''c''] @ '': A '' @ dotted (map uint [10 :: u8, 0, 0, 1]) @
        '' (TTL='' @ fmt_u 300 @ '')'' @ NL)"
    unfolding sample_answer_def
    by (rule conjunct2 [OF dns_resolves [OF ok len(2), of "replicate 512 0" sample_header 300]])
       (use len(1) in \<open>simp_all add: sample_header_def sample_answer_def\<close>)
  then show ?thesis unfolding texts len(1) by (simp add: sample_header_def texts)
qed

end
