(* ===== verification/EventServers.thy ===== *)
theory EventServers
  imports Bytes "HOL-Library.Multiset"
begin

text \<open>
  The echo servers of NetworkProgramming/Handson/lab06_advanced_io: select_server.c, with its table of
  clients, and epoll_server.c, with its counter. What a call of \<open>select\<close>, \<open>epoll_wait\<close>, \<open>accept\<close> or \<open>read\<close>
  answers is an argument; writes succeed in full. The state has the descriptors of the connections that are open
  and the data sent back.
\<close>

section \<open>select_server\<close>

definition MAX_CLIENTS :: nat where "MAX_CLIENTS = 64"

record sel_state =
  client_fds :: "int list"
  num_clients :: nat
  open_fds :: "int list"
  echoed :: "(int \<times> u8 list) list"

text \<open>The array \<open>client_fds[MAX_CLIENTS]\<close> starts with indeterminate contents.\<close>

definition sel_start :: "int list \<Rightarrow> sel_state" where
  "sel_start junk = \<lparr>client_fds = junk, num_clients = 0, open_fds = [], echoed = []\<rparr>"

text \<open>A connection for a ready server socket, \<open>None\<close> if \<open>accept\<close> fails. The result is \<open>None\<close> if the array is left.\<close>

definition sel_accept :: "int option \<Rightarrow> sel_state \<Rightarrow> sel_state option" where
  "sel_accept conn s =
     (case conn of
        None \<Rightarrow> Some s
      | Some fd \<Rightarrow>
          (let s1 = s\<lparr>open_fds := fd # open_fds s\<rparr> in
           if num_clients s < MAX_CLIENTS then
             (if num_clients s < length (client_fds s)
              then Some (s1\<lparr>client_fds := (client_fds s)[num_clients s := fd], num_clients := num_clients s + 1\<rparr>)
              else None)
           else Some (s1\<lparr>open_fds := remove1 fd (open_fds s1)\<rparr>)))"

text \<open>
  The loop over the clients. \<open>rd\<close> gives what \<open>read\<close> delivers on a ready descriptor, nothing at the end of the
  connection or after an error. The last client takes the place of one that is gone, and is looked at next.
\<close>

function sel_clients :: "(int \<Rightarrow> bool) \<Rightarrow> (int \<Rightarrow> u8 list) \<Rightarrow> nat \<Rightarrow> sel_state \<Rightarrow> sel_state option" where
  "sel_clients ready rd i s =
     (if i < num_clients s then
        (if num_clients s \<le> length (client_fds s) then
           (let fd = client_fds s ! i in
            if ready fd then
              (if rd fd = [] then
                 sel_clients ready rd i
                   (s\<lparr>open_fds := remove1 fd (open_fds s),
                      client_fds := (client_fds s)[i := client_fds s ! (num_clients s - 1)],
                      num_clients := num_clients s - 1\<rparr>)
               else sel_clients ready rd (i + 1) (s\<lparr>echoed := echoed s @ [(fd, rd fd)]\<rparr>))
            else sel_clients ready rd (i + 1) s)
         else None)
      else Some s)"
  by pat_completeness auto
termination by (relation "measure (\<lambda>(ready, rd, i, s). num_clients s - i)") auto

declare sel_clients.simps [simp del]

text \<open>
  One round of the server: what \<open>select\<close> found, whether the server socket is among it with the answer of \<open>accept\<close>,
  and the data. \<open>None\<close> for the whole round: a timeout or an error.
\<close>

record sel_round =
  r_server :: bool
  r_accept :: "int option"
  r_ready :: "int \<Rightarrow> bool"
  r_read :: "int \<Rightarrow> u8 list"

definition sel_step :: "sel_round option \<Rightarrow> sel_state \<Rightarrow> sel_state option" where
  "sel_step r s =
     (case r of
        None \<Rightarrow> Some s
      | Some r \<Rightarrow>
          Option.bind (if r_server r then sel_accept (r_accept r) s else Some s) (sel_clients (r_ready r) (r_read r) 0))"

primrec sel_run :: "sel_round option list \<Rightarrow> sel_state \<Rightarrow> sel_state option" where
  "sel_run [] s = Some s"
| "sel_run (r # rs) s = Option.bind (sel_step r s) (sel_run rs)"

text \<open>After the loop every client and the server socket are closed.\<close>

definition sel_stop :: "sel_state \<Rightarrow> sel_state" where
  "sel_stop s = s\<lparr>open_fds := fold remove1 (take (num_clients s) (client_fds s)) (open_fds s)\<rparr>"

section \<open>epoll_server\<close>

text \<open>
  The reads on a non-blocking connection after an event: data, until the connection has no more, ends or
  fails.
\<close>

datatype read_end = Again | Closed | Failed

datatype epoll_event =
    Connections "int list"
  | Readable int "u8 list list" read_end

record ep_state =
  ep_clients :: int
  ep_watched :: "int list"
  ep_open :: "int list"
  ep_echoed :: "(int \<times> u8 list) list"

definition ep_start :: ep_state where
  "ep_start = \<lparr>ep_clients = 0, ep_watched = [], ep_open = [], ep_echoed = []\<rparr>"

definition ep_accept :: "int \<Rightarrow> ep_state \<Rightarrow> ep_state" where
  "ep_accept fd s = s\<lparr>ep_open := fd # ep_open s, ep_watched := fd # ep_watched s, ep_clients := ep_clients s + 1\<rparr>"

definition ep_event :: "epoll_event \<Rightarrow> ep_state \<Rightarrow> ep_state" where
  "ep_event e s =
     (case e of
        Connections fds \<Rightarrow> fold ep_accept fds s
      | Readable fd datas how \<Rightarrow>
          (let s1 = s\<lparr>ep_echoed := ep_echoed s @ map (\<lambda>d. (fd, d)) datas\<rparr> in
           if how = Again then s1
           else s1\<lparr>ep_watched := remove1 fd (ep_watched s1), ep_open := remove1 fd (ep_open s1), ep_clients := ep_clients s1 - 1\<rparr>))"

definition ep_run :: "epoll_event list \<Rightarrow> ep_state \<Rightarrow> ep_state" where
  "ep_run = fold ep_event"

section \<open>Properties of select_server\<close>

definition sel_table :: "sel_state \<Rightarrow> int list" where
  "sel_table s = take (num_clients s) (client_fds s)"

text \<open>The table holds the open connections, each once.\<close>

definition sel_ok :: "sel_state \<Rightarrow> bool" where
  "sel_ok s \<longleftrightarrow> length (client_fds s) = MAX_CLIENTS \<and> num_clients s \<le> MAX_CLIENTS \<and>
     mset (sel_table s) = mset (open_fds s) \<and> distinct (sel_table s)"

text \<open>Moving the last element to the place of one that is dropped keeps the others.\<close>

lemma swap_remove:
  assumes "i < n" and "n \<le> length xs"
  shows "take i (take (n - 1) (xs[i := xs ! (n - 1)])) = take i (take n xs)"
    "mset (drop i (take (n - 1) (xs[i := xs ! (n - 1)]))) = mset (drop (i + 1) (take n xs))"
proof -
  show "take i (take (n - 1) (xs[i := xs ! (n - 1)])) = take i (take n xs)"
    using assms Suc_le_eq [of i n] by (cases n) (simp_all add: min_def)
  show "mset (drop i (take (n - 1) (xs[i := xs ! (n - 1)]))) = mset (drop (i + 1) (take n xs))"
  proof (cases "i = n - 1")
    case True
    with assms show ?thesis by simp
  next
    case False
    with assms have i: "i < n - 1" by simp
    have last: "take n xs = take (n - 1) xs @ [xs ! (n - 1)]"
      using assms take_Suc_conv_app_nth [of "n - 1" xs] by simp
    have "drop i (take (n - 1) (xs[i := xs ! (n - 1)])) = xs ! (n - 1) # drop (i + 1) (take (n - 1) xs)"
      using i assms by (simp add: take_update_swap Cons_nth_drop_Suc [symmetric])
    moreover have "drop (i + 1) (take n xs) = drop (i + 1) (take (n - 1) xs) @ [xs ! (n - 1)]"
      using i assms by (simp add: last)
    ultimately show ?thesis by simp
  qed
qed

lemma mset_minus_filter: "M - filter_mset P M = filter_mset (\<lambda>x. \<not> P x) M"
  by (metis add_diff_cancel_left' multiset_partition)

text \<open>The clients whose connection the round finds ended, and the data that it sends back.\<close>

definition gone :: "(int \<Rightarrow> bool) \<Rightarrow> (int \<Rightarrow> u8 list) \<Rightarrow> int \<Rightarrow> bool" where
  "gone ready rd fd \<longleftrightarrow> ready fd \<and> rd fd = []"

definition served :: "(int \<Rightarrow> bool) \<Rightarrow> (int \<Rightarrow> u8 list) \<Rightarrow> int \<Rightarrow> bool" where
  "served ready rd fd \<longleftrightarrow> ready fd \<and> rd fd \<noteq> []"

text \<open>What the loop leaves, with the clients \<open>F\<close> it has passed and \<open>R\<close> those it has to look at.\<close>

definition round_done ::
    "(int \<Rightarrow> bool) \<Rightarrow> (int \<Rightarrow> u8 list) \<Rightarrow> int multiset \<Rightarrow> int multiset \<Rightarrow> sel_state \<Rightarrow> sel_state \<Rightarrow> bool" where
  "round_done ready rd F R s s' \<longleftrightarrow>
     length (client_fds s') = length (client_fds s) \<and> num_clients s' \<le> num_clients s \<and>
     mset (sel_table s') = F + filter_mset (\<lambda>f. \<not> gone ready rd f) R \<and>
     mset (open_fds s') = mset (open_fds s) - filter_mset (gone ready rd) R \<and>
     (\<exists>es. echoed s' = echoed s @ es \<and> mset es = image_mset (\<lambda>f. (f, rd f)) (filter_mset (served ready rd) R))"

lemma round_done_end: "round_done ready rd (mset (sel_table s)) {#} s s"
  by (simp add: round_done_def)

lemma round_done_gone:
  assumes "round_done ready rd F R s1 s'" and "ready fd" "rd fd = []"
    and "open_fds s1 = remove1 fd (open_fds s)" "echoed s1 = echoed s" "length (client_fds s1) = length (client_fds s)"
    and "num_clients s1 \<le> num_clients s"
  shows "round_done ready rd F (add_mset fd R) s s'"
  using assms by (auto simp: round_done_def gone_def served_def)

lemma round_done_served:
  assumes "round_done ready rd (F + {#fd#}) R s1 s'" and "ready fd" "rd fd \<noteq> []" and "s1 = s\<lparr>echoed := echoed s @ [(fd, rd fd)]\<rparr>"
  shows "round_done ready rd F (add_mset fd R) s s'"
  using assms by (auto simp: round_done_def gone_def served_def)

lemma round_done_idle:
  assumes "round_done ready rd (F + {#fd#}) R s s'" and "\<not> ready fd"
  shows "round_done ready rd F (add_mset fd R) s s'"
  using assms by (auto simp: round_done_def gone_def served_def)

lemma sel_clients_round:
  assumes "num_clients s \<le> length (client_fds s)" and "i \<le> num_clients s"
  shows "\<exists>s'. sel_clients ready rd i s = Some s' \<and>
    round_done ready rd (mset (take i (sel_table s))) (mset (drop i (sel_table s))) s s'"
  using assms
proof (induction ready rd i s rule: sel_clients.induct)
  case (1 ready rd i s)
  note IH = 1(1-3) and h = 1(4-5)
  define fd where "fd = client_fds s ! i"
  show ?case
  proof (cases "i < num_clients s")
    case False
    then have "sel_clients ready rd i s = Some s" by (subst sel_clients.simps) simp
    moreover have "take i (sel_table s) = sel_table s" "drop i (sel_table s) = []"
      using False h by (simp_all add: sel_table_def)
    ultimately show ?thesis using round_done_end by simp
  next
    case True
    note fits = h(1)
    have rest: "mset (drop i (sel_table s)) = add_mset fd (mset (drop (i + 1) (sel_table s)))"
      using True fits by (simp add: sel_table_def fd_def flip: Cons_nth_drop_Suc)
    have front: "mset (take (i + 1) (sel_table s)) = mset (take i (sel_table s)) + {#fd#}"
      using True fits by (simp add: sel_table_def fd_def take_Suc_conv_app_nth)
    consider "ready fd" "rd fd = []" | "ready fd" "rd fd \<noteq> []" | "\<not> ready fd" by blast
    then show ?thesis
    proof cases
      case 1
      define s1 where "s1 = s\<lparr>open_fds := remove1 fd (open_fds s),
        client_fds := (client_fds s)[i := client_fds s ! (num_clients s - 1)], num_clients := num_clients s - 1\<rparr>"
      have t: "take i (sel_table s1) = take i (sel_table s)" "mset (drop i (sel_table s1)) = mset (drop (i + 1) (sel_table s))"
        using swap_remove [OF True fits] by (simp_all add: s1_def sel_table_def)
      have bounds: "num_clients s1 \<le> length (client_fds s1)" "i \<le> num_clients s1"
        using True fits by (simp_all add: s1_def)
      have step: "sel_clients ready rd i s = sel_clients ready rd i s1"
        using True fits 1 by (simp add: sel_clients.simps [of _ _ i s] s1_def fd_def [symmetric] Let_def)
      obtain s' where "sel_clients ready rd i s1 = Some s'"
        "round_done ready rd (mset (take i (sel_table s1))) (mset (drop i (sel_table s1))) s1 s'"
        using IH(1) [OF True fits fd_def 1, folded s1_def] bounds by blast
      then show ?thesis unfolding step rest t using 1
        by (intro exI [of _ s'] conjI round_done_gone [of _ _ _ _ s1]) (simp_all add: s1_def)
    next
      case 2
      define s1 where "s1 = s\<lparr>echoed := echoed s @ [(fd, rd fd)]\<rparr>"
      have t: "sel_table s1 = sel_table s" by (simp add: s1_def sel_table_def)
      have bounds: "num_clients s1 \<le> length (client_fds s1)" "i + 1 \<le> num_clients s1"
        using True fits by (simp_all add: s1_def)
      have step: "sel_clients ready rd i s = sel_clients ready rd (i + 1) s1"
        using True fits 2 by (simp add: sel_clients.simps [of _ _ i s] s1_def fd_def [symmetric] Let_def)
      obtain s' where "sel_clients ready rd (i + 1) s1 = Some s'"
        "round_done ready rd (mset (take (i + 1) (sel_table s1))) (mset (drop (i + 1) (sel_table s1))) s1 s'"
        using IH(2) [OF True fits fd_def 2, folded s1_def] bounds by blast
      then show ?thesis unfolding step rest t front using 2
        by (intro exI [of _ s'] conjI round_done_served [of _ _ _ _ _ s1]) (simp_all add: s1_def)
    next
      case 3
      have step: "sel_clients ready rd i s = sel_clients ready rd (i + 1) s"
        using True fits 3 by (simp add: sel_clients.simps [of _ _ i s] fd_def [symmetric] Let_def)
      obtain s' where "sel_clients ready rd (i + 1) s = Some s'"
        "round_done ready rd (mset (take (i + 1) (sel_table s))) (mset (drop (i + 1) (sel_table s))) s s'"
        using IH(3) [OF True fits fd_def 3] True fits by auto
      then show ?thesis unfolding step rest front using 3 by (intro exI [of _ s'] conjI round_done_idle)
    qed
  qed
qed

text \<open>
  What the kernel guarantees of a round: an accepted descriptor is not that of an open connection, and was
  therefore not asked for in the call of \<open>select\<close>.
\<close>

definition valid_round :: "sel_round option \<Rightarrow> sel_state \<Rightarrow> bool" where
  "valid_round r s \<longleftrightarrow>
     (case r of
        None \<Rightarrow> True
      | Some r \<Rightarrow> (case r_accept r of None \<Rightarrow> True | Some fd \<Rightarrow> fd \<notin> set (open_fds s) \<and> \<not> r_ready r fd))"

definition newcomer :: "sel_round \<Rightarrow> sel_state \<Rightarrow> int set" where
  "newcomer r s = (if r_server r \<and> num_clients s < MAX_CLIENTS then set_option (r_accept r) else {})"

lemma sel_accept_ok:
  assumes "sel_ok s" and "valid_round (Some r) s" and "r_server r"
  shows "\<exists>s1. sel_accept (r_accept r) s = Some s1 \<and> sel_ok s1 \<and>
    set (sel_table s1) = set (sel_table s) \<union> newcomer r s \<and> echoed s1 = echoed s \<and>
    filter_mset (served (r_ready r) (r_read r)) (mset (sel_table s1)) = filter_mset (served (r_ready r) (r_read r)) (mset (sel_table s))"
proof (cases "r_accept r")
  case None
  with assms show ?thesis by (simp add: sel_accept_def newcomer_def)
next
  case (Some fd)
  have new: "fd \<notin> set (open_fds s)" "\<not> r_ready r fd" using assms(2) Some by (simp_all add: valid_round_def)
  have "set (sel_table s) = set (open_fds s)" using assms(1) mset_eq_setD by (auto simp: sel_ok_def)
  then have out: "fd \<notin> set (sel_table s)" using new(1) by simp
  show ?thesis
  proof (cases "num_clients s < MAX_CLIENTS")
    case True
    define s1 where "s1 = s\<lparr>open_fds := fd # open_fds s, client_fds := (client_fds s)[num_clients s := fd], num_clients := num_clients s + 1\<rparr>"
    have "sel_table s1 = sel_table s @ [fd]"
      using True assms(1) by (simp add: s1_def sel_table_def sel_ok_def take_Suc_conv_app_nth)
    moreover have "sel_accept (Some fd) s = Some s1" using True assms(1) by (simp add: sel_accept_def s1_def sel_ok_def)
    ultimately show ?thesis using True Some assms out new(2)
      by (auto simp: sel_ok_def newcomer_def served_def s1_def)
  next
    case False
    with Some assms show ?thesis by (simp add: sel_accept_def newcomer_def)
  qed
qed

lemma sel_step_ok:
  assumes "sel_ok s" and "valid_round (Some r) s"
  shows "\<exists>s' es. sel_step (Some r) s = Some s' \<and> sel_ok s' \<and>
    set (sel_table s') = {f \<in> set (sel_table s) \<union> newcomer r s. \<not> gone (r_ready r) (r_read r) f} \<and>
    echoed s' = echoed s @ es \<and>
    mset es = image_mset (\<lambda>f. (f, r_read r f)) (filter_mset (served (r_ready r) (r_read r)) (mset (sel_table s)))"
proof -
  let ?gone = "gone (r_ready r) (r_read r)" and ?served = "served (r_ready r) (r_read r)"
  obtain s1 where s1: "(if r_server r then sel_accept (r_accept r) s else Some s) = Some s1" "sel_ok s1"
    "set (sel_table s1) = set (sel_table s) \<union> newcomer r s" "echoed s1 = echoed s"
    "filter_mset ?served (mset (sel_table s1)) = filter_mset ?served (mset (sel_table s))"
  proof (cases "r_server r")
    case True
    with sel_accept_ok [OF assms] that show ?thesis by auto
  next
    case False
    with assms(1) that [of s] show ?thesis by (simp add: newcomer_def)
  qed
  have "num_clients s1 \<le> length (client_fds s1)" using s1(2) by (simp add: sel_ok_def)
  then obtain s' where s': "sel_clients (r_ready r) (r_read r) 0 s1 = Some s'"
    "round_done (r_ready r) (r_read r) {#} (mset (sel_table s1)) s1 s'"
    using sel_clients_round [of s1 0 "r_ready r" "r_read r"] by auto
  have table: "mset (sel_table s') = filter_mset (\<lambda>f. \<not> ?gone f) (mset (sel_table s1))" using s'(2) by (simp add: round_done_def)
  have "mset (open_fds s') = mset (sel_table s1) - filter_mset ?gone (mset (sel_table s1))"
    using s'(2) s1(2) by (simp add: round_done_def sel_ok_def)
  also have "\<dots> = mset (sel_table s')" unfolding table by (rule mset_minus_filter)
  finally have "mset (sel_table s') = mset (open_fds s')" by simp
  moreover have "distinct (sel_table s')"
    using table s1(2) by (metis mset_filter mset_eq_imp_distinct_iff distinct_filter sel_ok_def)
  ultimately have "sel_ok s'" using s'(2) s1(2) by (simp add: sel_ok_def round_done_def)
  moreover have "set (sel_table s') = {f \<in> set (sel_table s1). \<not> ?gone f}"
    using arg_cong [OF table, of set_mset] by simp
  moreover obtain es where "echoed s' = echoed s @ es"
    "mset es = image_mset (\<lambda>f. (f, r_read r f)) (filter_mset ?served (mset (sel_table s)))"
    using s'(2) s1(4,5) by (auto simp: round_done_def)
  moreover have "sel_step (Some r) s = Some s'" using s1(1) s'(1) by (simp add: sel_step_def)
  ultimately show ?thesis using s1(3) by auto
qed

inductive sel_reach :: "sel_state \<Rightarrow> bool" where
  start: "length junk = MAX_CLIENTS \<Longrightarrow> sel_reach (sel_start junk)"
| step: "sel_reach s \<Longrightarrow> valid_round r s \<Longrightarrow> sel_step r s = Some s' \<Longrightarrow> sel_reach s'"

lemma sel_reach_ok: "sel_reach s \<Longrightarrow> sel_ok s"
proof (induction rule: sel_reach.induct)
  case (start junk)
  then show ?case by (simp add: sel_ok_def sel_start_def sel_table_def)
next
  case (step s r s')
  show ?case
  proof (cases r)
    case (Some r')
    with step sel_step_ok [of s r'] show ?thesis by auto
  qed (use step in \<open>simp add: sel_step_def\<close>)
qed

lemma mset_fold_remove1: "mset (fold remove1 xs ys) = mset ys - mset xs"
  by (induction xs arbitrary: ys) simp_all

text \<open>
  C26. In every state that the server can reach its table holds exactly the open connections, each once and at most
  64 of them. A round is then defined; it admits the newcomer if there is room, drops exactly the clients whose connection has
  ended, and answers each client that sent something exactly once, with what it sent. Stopping leaves no
  connection open.
\<close>

theorem select_server_serves:
  assumes "sel_reach s" and "valid_round (Some r) s"
  shows "mset (sel_table s) = mset (open_fds s) \<and> distinct (open_fds s) \<and> length (open_fds s) \<le> 64 \<and>
    open_fds (sel_stop s) = [] \<and>
    (\<exists>s' es. sel_step (Some r) s = Some s' \<and>
       set (open_fds s') = {f \<in> set (open_fds s) \<union> newcomer r s. \<not> (r_ready r f \<and> r_read r f = [])} \<and>
       echoed s' = echoed s @ es \<and>
       mset es = image_mset (\<lambda>f. (f, r_read r f)) (filter_mset (\<lambda>f. r_ready r f \<and> r_read r f \<noteq> []) (mset (open_fds s))))"
proof -
  have ok: "sel_ok s" using assms(1) by (rule sel_reach_ok)
  have m: "mset (sel_table s) = mset (open_fds s)" using ok by (simp add: sel_ok_def)
  have d: "distinct (open_fds s)" using ok m mset_eq_imp_distinct_iff by (auto simp: sel_ok_def)
  have "length (open_fds s) = length (sel_table s)" using m by (metis size_mset)
  then have l: "length (open_fds s) \<le> 64" using ok by (simp add: sel_ok_def sel_table_def MAX_CLIENTS_def)
  have "mset (open_fds (sel_stop s)) = {#}"
    using m by (simp add: sel_stop_def mset_fold_remove1 sel_table_def)
  then have "open_fds (sel_stop s) = []" by simp
  moreover obtain s' es where s': "sel_step (Some r) s = Some s'" "sel_ok s'"
    "set (sel_table s') = {f \<in> set (sel_table s) \<union> newcomer r s. \<not> gone (r_ready r) (r_read r) f}"
    "echoed s' = echoed s @ es"
    "mset es = image_mset (\<lambda>f. (f, r_read r f)) (filter_mset (served (r_ready r) (r_read r)) (mset (sel_table s)))"
    using sel_step_ok [OF ok assms(2)] by blast
  moreover have "set (sel_table s) = set (open_fds s)" "set (sel_table s') = set (open_fds s')"
    using m s'(2) mset_eq_setD by (auto simp: sel_ok_def)
  moreover have "served ready rd = (\<lambda>f. ready f \<and> rd f \<noteq> [])" for ready and rd :: "int \<Rightarrow> u8 list"
    by (rule ext) (simp add: served_def)
  ultimately show ?thesis using m d l by (simp add: gone_def)
qed

text \<open>A connection arrives on descriptor 4, and in the next round it sends two bytes while another arrives.\<close>

lemma select_server_serves_witness:
  "\<exists>s. sel_step (Some \<lparr>r_server = True, r_accept = Some 4, r_ready = \<lambda>_. False, r_read = \<lambda>_. []\<rparr>)
          (sel_start (replicate 64 0)) = Some s \<and>
     (\<exists>s' es. sel_step (Some \<lparr>r_server = True, r_accept = Some 5, r_ready = \<lambda>f. f = 4, r_read = \<lambda>_. [104, 105]\<rparr>) s = Some s' \<and>
       set (open_fds s') = {4, 5} \<and> echoed s' = es \<and> mset es = {#(4, [104, 105])#})"
proof -
  define r1 :: sel_round where "r1 = \<lparr>r_server = True, r_accept = Some 4, r_ready = \<lambda>_. False, r_read = \<lambda>_. []\<rparr>"
  define r2 :: sel_round where "r2 = \<lparr>r_server = True, r_accept = Some 5, r_ready = \<lambda>f. f = 4, r_read = \<lambda>_. [104, 105]\<rparr>"
  define s where "s = \<lparr>client_fds = (replicate 64 0)[0 := 4], num_clients = 1, open_fds = [4::int], echoed = []\<rparr>"
  have step: "sel_step (Some r1) (sel_start (replicate 64 0)) = Some s"
    by (simp add: sel_step_def r1_def sel_accept_def sel_start_def MAX_CLIENTS_def sel_clients.simps s_def Let_def)
  have "sel_reach (sel_start (replicate 64 0))" by (rule sel_reach.start) (simp add: MAX_CLIENTS_def)
  then have "sel_reach s"
    by (rule sel_reach.step [OF _ _ step]) (simp add: valid_round_def r1_def sel_start_def)
  moreover have "valid_round (Some r2) s" by (simp add: valid_round_def r2_def s_def)
  ultimately have "\<exists>s' es. sel_step (Some r2) s = Some s' \<and>
       set (open_fds s') = {f \<in> set (open_fds s) \<union> newcomer r2 s. \<not> (r_ready r2 f \<and> r_read r2 f = [])} \<and>
       echoed s' = echoed s @ es \<and>
       mset es = image_mset (\<lambda>f. (f, r_read r2 f)) (filter_mset (\<lambda>f. r_ready r2 f \<and> r_read r2 f \<noteq> []) (mset (open_fds s)))"
    using select_server_serves by blast
  moreover have "{f \<in> set (open_fds s) \<union> newcomer r2 s. \<not> (r_ready r2 f \<and> r_read r2 f = [])} = {4, 5}"
    by (auto simp: s_def r2_def newcomer_def MAX_CLIENTS_def)
  moreover have "filter_mset (\<lambda>f. r_ready r2 f \<and> r_read r2 f \<noteq> []) (mset (open_fds s)) = {#4#}"
    "r_read r2 4 = [104, 105]" "echoed s = []"
    by (simp_all add: s_def r2_def)
  ultimately show ?thesis using step unfolding r1_def r2_def by auto
qed

section \<open>Properties of epoll_server\<close>

text \<open>The counter is the number of open connections, and exactly those are watched.\<close>

definition ep_ok :: "ep_state \<Rightarrow> bool" where
  "ep_ok s \<longleftrightarrow> ep_clients s = int (length (ep_open s)) \<and> ep_watched s = ep_open s"

text \<open>An event on a connection comes from one that is watched.\<close>

definition valid_event :: "epoll_event \<Rightarrow> ep_state \<Rightarrow> bool" where
  "valid_event e s \<longleftrightarrow> (case e of Connections fds \<Rightarrow> True | Readable fd datas how \<Rightarrow> fd \<in> set (ep_watched s))"

lemma ep_accept_ok: "ep_ok s \<Longrightarrow> ep_ok (ep_accept fd s)"
  by (simp add: ep_ok_def ep_accept_def)

lemma ep_event_ok:
  assumes "ep_ok s" and "valid_event e s"
  shows "ep_ok (ep_event e s)"
proof (cases e)
  case (Connections fds)
  have "ep_ok (fold ep_accept fds s)" using assms(1)
    by (induction fds arbitrary: s) (simp_all add: ep_accept_ok)
  with Connections show ?thesis by (simp add: ep_event_def)
next
  case (Readable fd datas how)
  have "fd \<in> set (ep_open s)" using assms Readable by (simp add: ep_ok_def valid_event_def)
  then obtain n where "length (ep_open s) = Suc n" by (cases "ep_open s") simp_all
  with Readable assms \<open>fd \<in> set (ep_open s)\<close> show ?thesis
    by (simp add: ep_event_def ep_ok_def Let_def length_remove1)
qed

fun valid_events :: "epoll_event list \<Rightarrow> ep_state \<Rightarrow> bool" where
  "valid_events [] s \<longleftrightarrow> True"
| "valid_events (e # es) s \<longleftrightarrow> valid_event e s \<and> valid_events es (ep_event e s)"

lemma ep_run_ok:
  assumes "ep_ok s" and "valid_events es s"
  shows "ep_ok (ep_run es s)"
  using assms by (induction es arbitrary: s) (simp_all add: ep_run_def ep_event_ok)

text \<open>The data a list of events delivers, in the order of the reads.\<close>

definition sent :: "epoll_event \<Rightarrow> (int \<times> u8 list) list" where
  "sent e = (case e of Connections _ \<Rightarrow> [] | Readable fd datas _ \<Rightarrow> map (Pair fd) datas)"

lemma ep_accept_echo: "ep_echoed (fold ep_accept fds s) = ep_echoed s"
  by (induction fds arbitrary: s) (simp_all add: ep_accept_def)

lemma ep_event_echo: "ep_echoed (ep_event e s) = ep_echoed s @ sent e"
  by (simp add: ep_event_def sent_def ep_accept_echo Let_def split: epoll_event.splits)

text \<open>
  The server answers each read with what it read, in order, and its counter of clients is right, so it never
  watches a connection that is closed. It does not close the connections that are left when it stops.
\<close>

lemma epoll_server_echoes:
  assumes "valid_events es ep_start"
  shows "ep_ok (ep_run es ep_start) \<and> ep_echoed (ep_run es ep_start) = concat (map sent es)"
proof
  show "ep_ok (ep_run es ep_start)" using assms by (intro ep_run_ok) (simp_all add: ep_ok_def ep_start_def)
  have "ep_echoed (ep_run es s) = ep_echoed s @ concat (map sent es)" for s
    by (induction es arbitrary: s) (simp_all add: ep_run_def ep_event_echo)
  then show "ep_echoed (ep_run es ep_start) = concat (map sent es)" by (simp add: ep_start_def)
qed

end
