(* ===== verification/FuseTypes.thy ===== *)
theory FuseTypes
  imports CPrelude
begin

text \<open>
  The part of the FUSE and POSIX types that both filesystems fill in: the \<open>struct stat\<close> fields
  their \<open>getattr\<close> handlers set, and the file type bits.
\<close>

record stat_buf =
  st_mode :: u32
  st_nlink :: nat
  st_uid :: u32
  st_gid :: u32
  st_size :: int
  st_atime :: int
  st_mtime :: int
  st_ctime :: int

definition zero_stat :: stat_buf where
  "zero_stat = \<lparr>st_mode = 0, st_nlink = 0, st_uid = 0, st_gid = 0, st_size = 0, st_atime = 0,
     st_mtime = 0, st_ctime = 0\<rparr>"

definition S_IFDIR :: u32 where "S_IFDIR = 0x4000"
definition S_IFREG :: u32 where "S_IFREG = 0x8000"

end
