(* ===== verification/FuseFat.thy ===== *)
theory FuseFat
  imports Bytes FuseTypes
begin

text \<open>
  The read-only FAT16 FUSE driver, SystemProgramming/Handson/lab18_fuse_fat/fuse_fat.c.

  The disk image is the list of its bytes: \<open>fseek\<close> with \<open>fread\<close> reads at an offset, and a read that
  reaches past the end of the image is short. The module state is the boot sector \<open>bpb\<close> with the
  layout \<open>main\<close> computes from it. All numbers are the values of the C variables as integers; the
  offset arithmetic is modulo 2^32 as it is done in \<open>uint32_t\<close>.
\<close>

section \<open>On-disk structures\<close>

record fat16_bpb =
  b_oem_name :: string
  bytes_per_sector :: int
  sectors_per_cluster :: int
  reserved_sectors :: int
  num_fats :: int
  root_entry_count :: int
  total_sectors_16 :: int
  media_type :: int
  fat_size_16 :: int
  total_sectors_32 :: int
  volume_serial :: int
  volume_label :: string
  fs_type :: string

definition BPB_SIZE :: nat where "BPB_SIZE = 62"

definition decode_bpb :: "u8 list \<Rightarrow> fat16_bpb" where
  "decode_bpb bs =
     \<lparr>b_oem_name = chars_at bs 3 8, bytes_per_sector = le16 bs 11,
      sectors_per_cluster = byte_at bs 13, reserved_sectors = le16 bs 14,
      num_fats = byte_at bs 16, root_entry_count = le16 bs 17, total_sectors_16 = le16 bs 19,
      media_type = byte_at bs 21, fat_size_16 = le16 bs 22, total_sectors_32 = le32 bs 32,
      volume_serial = le32 bs 39, volume_label = chars_at bs 43 11, fs_type = chars_at bs 54 8\<rparr>"

record fat_dir_entry =
  d_name :: string
  d_ext :: string
  d_attr :: u8
  d_first_cluster :: int
  d_file_size :: int

definition DIRENT_SIZE :: nat where "DIRENT_SIZE = 32"

definition decode_dirent :: "u8 list \<Rightarrow> fat_dir_entry" where
  "decode_dirent bs =
     \<lparr>d_name = chars_at bs 0 8, d_ext = chars_at bs 8 3, d_attr = bs ! 11,
      d_first_cluster = le16 bs 26, d_file_size = le32 bs 28\<rparr>"

definition ATTR_DIRECTORY :: u8 where "ATTR_DIRECTORY = 0x10"
definition ATTR_VOLUME_ID :: u8 where "ATTR_VOLUME_ID = 0x08"
definition ATTR_LONG_NAME :: u8 where "ATTR_LONG_NAME = 0x0F"

section \<open>Module state\<close>

record fat_vol =
  v_disk :: "u8 list"
  v_bpb :: fat16_bpb
  v_fat_start :: int
  v_root_dir_start :: int
  v_data_start :: int
  v_cluster_size :: int

text \<open>\<open>fread\<close> of one item of \<open>n\<close> bytes at \<open>off\<close> (\<open>None\<close>: fewer bytes were there), and of \<open>n\<close> bytes.\<close>

definition fread_item :: "u8 list \<Rightarrow> int \<Rightarrow> nat \<Rightarrow> u8 list option" where
  "fread_item disk off n =
     (if nat off + n \<le> length disk then Some (take n (drop (nat off) disk)) else None)"

definition fread_bytes :: "u8 list \<Rightarrow> int \<Rightarrow> nat \<Rightarrow> u8 list" where
  "fread_bytes disk off n = take n (drop (nat off) disk)"

text \<open>
  \<open>main\<close> reads the boot sector and computes the layout. The products of the 16-bit fields are
  computed in \<open>int\<close>: one that leaves the range of \<open>int\<close> is undefined behaviour. \<open>Ret None\<close> is the
  error exit for an image shorter than a boot sector.
\<close>

definition fat_layout :: "fat16_bpb \<Rightarrow> (int \<times> int \<times> int) outcome" where
  "fat_layout b =
     (let fat_start = reserved_sectors b * bytes_per_sector b;
          fats_size = num_fats b * fat_size_16 b * bytes_per_sector b
      in if \<not> fits_s32 fat_start \<or> \<not> fits_s32 fats_size then Trap
         else (let root_dir_start = cast_u32 (fat_start + fats_size);
                   root_dir_size = cast_u32 (root_entry_count b * 32)
               in Ret (fat_start, root_dir_start, cast_u32 (root_dir_start + root_dir_size))))"

definition fusefat_main :: "u8 list \<Rightarrow> fat_vol option outcome" where
  "fusefat_main disk =
     (case fread_item disk 0 BPB_SIZE of
        None \<Rightarrow> Ret None
      | Some bs \<Rightarrow>
          (let b = decode_bpb bs in
           case fat_layout b of
             Ret (fat_start, root_dir_start, data_start) \<Rightarrow>
               Ret (Some \<lparr>v_disk = disk, v_bpb = b, v_fat_start = fat_start,
                 v_root_dir_start = root_dir_start, v_data_start = data_start,
                 v_cluster_size = sectors_per_cluster b * bytes_per_sector b\<rparr>)
           | Trap \<Rightarrow> Trap
           | NoReturn \<Rightarrow> NoReturn))"

definition fat_next_cluster :: "fat_vol \<Rightarrow> int \<Rightarrow> int" where
  "fat_next_cluster v cluster =
     (case fread_item (v_disk v) (cast_u32 (v_fat_start v + cluster * 2)) 2 of
        None \<Rightarrow> 0xFFFF
      | Some bs \<Rightarrow> le16 bs 0)"

definition cluster_to_offset :: "fat_vol \<Rightarrow> int \<Rightarrow> int" where
  "cluster_to_offset v cluster = cast_u32 (v_data_start v + (cluster - 2) * v_cluster_size v)"

text \<open>The characters \<open>format_name\<close> writes before its NUL, and the C string a caller then sees.\<close>

definition format_name :: "fat_dir_entry \<Rightarrow> string" where
  "format_name e =
     takeWhile (\<lambda>c. c \<noteq> CHR '' '') (take 8 (d_name e)) @
     (if d_ext e ! 0 \<noteq> CHR '' ''
      then CHR ''.'' # takeWhile (\<lambda>c. c \<noteq> CHR '' '') (take 3 (d_ext e)) else [])"

definition fname_of :: "fat_dir_entry \<Rightarrow> string" where
  "fname_of e = takeWhile (\<lambda>c. c \<noteq> NUL) (format_name e)"

text \<open>\<open>strcasecmp\<close> and \<open>strtok\<close> of the C library, as the code uses them.\<close>

definition to_lower :: "char \<Rightarrow> char" where
  "to_lower c =
     (if of_char c \<ge> (65 :: nat) \<and> of_char c \<le> (90 :: nat) then char_of (of_char c + (32 :: nat)) else c)"

definition strcaseeq :: "string \<Rightarrow> string \<Rightarrow> bool" where
  "strcaseeq a b \<longleftrightarrow> map to_lower a = map to_lower b"

fun strtok_from :: "string \<Rightarrow> string \<Rightarrow> string list" where
  "strtok_from cur [] = (if cur = [] then [] else [cur])"
| "strtok_from cur (c # cs) =
     (if c = CHR ''/'' then (if cur = [] then strtok_from [] cs else cur # strtok_from [] cs)
      else strtok_from (cur @ [c]) cs)"

section \<open>Directory look-up\<close>

text \<open>The search of \<open>find_entry\<close> in one directory.\<close>

fun search_dir :: "u8 list \<Rightarrow> int \<Rightarrow> nat \<Rightarrow> string \<Rightarrow> fat_dir_entry option" where
  "search_dir disk off 0 component = None"
| "search_dir disk off (Suc n) component =
     (case fread_item disk off DIRENT_SIZE of
        None \<Rightarrow> None
      | Some bs \<Rightarrow>
          (let e = decode_dirent bs in
           if bs ! 0 = 0x00 then None
           else if bs ! 0 = 0xE5 then search_dir disk (off + 32) n component
           else if d_attr e = ATTR_LONG_NAME then search_dir disk (off + 32) n component
           else if and (d_attr e) ATTR_VOLUME_ID \<noteq> 0 then search_dir disk (off + 32) n component
           else if strcaseeq (fname_of e) component then Some e
           else search_dir disk (off + 32) n component))"

fun fat_walk :: "fat_vol \<Rightarrow> int \<Rightarrow> nat \<Rightarrow> string list \<Rightarrow> int + fat_dir_entry" where
  "fat_walk v dir_offset max_entries [] = Inl (- ENOENT)"
| "fat_walk v dir_offset max_entries (component # rest) =
     (case search_dir (v_disk v) dir_offset max_entries component of
        None \<Rightarrow> Inl (- ENOENT)
      | Some e \<Rightarrow>
          if rest = [] then Inr e
          else if and (d_attr e) ATTR_DIRECTORY = 0 then Inl (- ENOTDIR)
          else fat_walk v (cluster_to_offset v (d_first_cluster e))
                 (nat (v_cluster_size v div 32)) rest)"

definition root_dirent :: fat_dir_entry where
  "root_dirent = \<lparr>d_name = replicate 8 NUL, d_ext = replicate 3 NUL, d_attr = ATTR_DIRECTORY,
     d_first_cluster = 0, d_file_size = 0\<rparr>"

definition fat_find_entry :: "fat_vol \<Rightarrow> string \<Rightarrow> int + fat_dir_entry" where
  "fat_find_entry v path =
     (if path = ''/'' then Inr root_dirent
      else fat_walk v (v_root_dir_start v) (nat (root_entry_count (v_bpb v)))
             (strtok_from [] (take 511 (drop 1 path))))"

section \<open>FUSE operations\<close>

definition fusefat_getattr :: "u32 \<Rightarrow> u32 \<Rightarrow> fat_vol \<Rightarrow> string \<Rightarrow> int \<times> stat_buf" where
  "fusefat_getattr uid gid v path =
     (case fat_find_entry v path of
        Inl r \<Rightarrow> (r, zero_stat)
      | Inr e \<Rightarrow>
          (let st = (if and (d_attr e) ATTR_DIRECTORY \<noteq> 0
                     then zero_stat\<lparr>st_mode := or S_IFDIR 0x1ED, st_nlink := 2\<rparr>
                     else zero_stat\<lparr>st_mode := or S_IFREG 0x124, st_nlink := 1,
                            st_size := d_file_size e\<rparr>)
           in (0, st\<lparr>st_uid := uid, st_gid := gid\<rparr>)))"

text \<open>The loop of \<open>readdir\<close>.\<close>

fun scan_dir :: "u8 list \<Rightarrow> int \<Rightarrow> nat \<Rightarrow> fat_dir_entry list" where
  "scan_dir disk off 0 = []"
| "scan_dir disk off (Suc n) =
     (case fread_item disk off DIRENT_SIZE of
        None \<Rightarrow> []
      | Some bs \<Rightarrow>
          (let e = decode_dirent bs in
           if bs ! 0 = 0x00 then []
           else if bs ! 0 = 0xE5 then scan_dir disk (off + 32) n
           else if d_attr e = ATTR_LONG_NAME then scan_dir disk (off + 32) n
           else if and (d_attr e) ATTR_VOLUME_ID \<noteq> 0 then scan_dir disk (off + 32) n
           else e # scan_dir disk (off + 32) n))"

definition fusefat_readdir :: "fat_vol \<Rightarrow> string \<Rightarrow> int \<times> string list" where
  "fusefat_readdir v path =
     (case fat_find_entry v path of
        Inl r \<Rightarrow> (r, [])
      | Inr dir_entry \<Rightarrow>
          (let dir_offset = (if path = ''/'' then v_root_dir_start v
                             else cluster_to_offset v (d_first_cluster dir_entry));
               max_entries = (if path = ''/'' then nat (root_entry_count (v_bpb v))
                              else nat (v_cluster_size v div 32))
           in (0, [''.'', ''..''] @ map fname_of (scan_dir (v_disk v) dir_offset max_entries))))"

fun skip_clusters :: "fat_vol \<Rightarrow> nat \<Rightarrow> int \<Rightarrow> int" where
  "skip_clusters v 0 cluster = cluster"
| "skip_clusters v (Suc n) cluster =
     (if cluster < 0xFFF8 then skip_clusters v n (fat_next_cluster v cluster) else cluster)"

text \<open>
  The copy loop. Nothing in it bounds the number of clusters visited when a cluster delivers no
  byte, so it takes fuel; \<open>None\<close> is fuel exhausted.
\<close>

fun read_loop :: "nat \<Rightarrow> fat_vol \<Rightarrow> int \<Rightarrow> int \<Rightarrow> int \<Rightarrow> u8 list \<Rightarrow> u8 list option" where
  "read_loop 0 v sz cluster intra out = None"
| "read_loop (Suc fuel) v sz cluster intra out =
     (if int (length out) < sz \<and> 2 \<le> cluster \<and> cluster < 0xFFF8 then
        (let coff = cast_u32 (cluster_to_offset v cluster + intra);
             to_read = min (cast_u64 (v_cluster_size v - intra)) (sz - int (length out));
             bytes = fread_bytes (v_disk v) coff (nat to_read)
         in read_loop fuel v sz (fat_next_cluster v cluster) 0 (out @ bytes))
      else Some out)"

definition fusefat_read ::
  "nat \<Rightarrow> fat_vol \<Rightarrow> string \<Rightarrow> int \<Rightarrow> int \<Rightarrow> (int \<times> u8 list) outcome" where
  "fusefat_read fuel v path sz offset =
     (case fat_find_entry v path of
        Inl r \<Rightarrow> Ret (r, [])
      | Inr e \<Rightarrow>
          if and (d_attr e) ATTR_DIRECTORY \<noteq> 0 then Ret (- EISDIR, [])
          else if offset \<ge> d_file_size e then Ret (0, [])
          else
            (let sz' = (if cast_u64 (offset + sz) > d_file_size e
                        then cast_u64 (d_file_size e - offset) else sz)
             in if v_cluster_size v = 0 then Trap
                else case read_loop fuel v sz'
                            (skip_clusters v (nat (cast_u64 (c_div offset (v_cluster_size v))))
                               (d_first_cluster e))
                            (cast_u64 (c_mod offset (v_cluster_size v))) [] of
                       None \<Rightarrow> NoReturn
                     | Some out \<Rightarrow> Ret (cast_s32 (int (length out)), out)))"

definition fusefat_open :: "fat_vol \<Rightarrow> string \<Rightarrow> int" where
  "fusefat_open v path = (case fat_find_entry v path of Inl r \<Rightarrow> r | Inr _ \<Rightarrow> 0)"

section \<open>Layout and cluster chains\<close>

text \<open>
  A cluster that lies inside the image, at an offset that does not wrap; the bytes it holds; and a
  chain of such clusters ended by an end-of-chain mark in the file allocation table.
\<close>

definition cluster_ok :: "fat_vol \<Rightarrow> int \<Rightarrow> bool" where
  "cluster_ok v c \<longleftrightarrow> 2 \<le> c \<and> c < 0xFFF8 \<and>
     v_data_start v + (c - 2) * v_cluster_size v + v_cluster_size v \<le> int (length (v_disk v)) \<and>
     v_data_start v + (c - 2) * v_cluster_size v + v_cluster_size v < 4294967296"

definition geometry_ok :: "fat_vol \<Rightarrow> bool" where
  "geometry_ok v \<longleftrightarrow> 0 < v_cluster_size v \<and> v_cluster_size v < 4294967296 \<and> 0 \<le> v_data_start v"

definition cluster_data :: "fat_vol \<Rightarrow> int \<Rightarrow> u8 list" where
  "cluster_data v c = fread_bytes (v_disk v) (cluster_to_offset v c) (nat (v_cluster_size v))"

fun cluster_chain :: "fat_vol \<Rightarrow> int \<Rightarrow> int list \<Rightarrow> bool" where
  "cluster_chain v c [] \<longleftrightarrow> 0xFFF8 \<le> c"
| "cluster_chain v c (d # ds) \<longleftrightarrow> d = c \<and> cluster_ok v c \<and> cluster_chain v (fat_next_cluster v c) ds"

definition chain_data :: "fat_vol \<Rightarrow> int list \<Rightarrow> u8 list" where
  "chain_data v cs = concat (map (cluster_data v) cs)"

lemma cluster_offset_ok:
  assumes "geometry_ok v" and "cluster_ok v c" and "0 \<le> i" and "i < v_cluster_size v"
  shows "cast_u32 (cluster_to_offset v c + i) = v_data_start v + (c - 2) * v_cluster_size v + i"
    and "0 \<le> v_data_start v + (c - 2) * v_cluster_size v"
proof -
  have "0 \<le> (c - 2) * v_cluster_size v"
    using assms(1,2) by (simp add: cluster_ok_def geometry_ok_def)
  then show nn: "0 \<le> v_data_start v + (c - 2) * v_cluster_size v"
    using assms(1) by (simp add: geometry_ok_def)
  have "cluster_to_offset v c = v_data_start v + (c - 2) * v_cluster_size v"
    unfolding cluster_to_offset_def using nn assms by (intro cast_u32_id) (simp_all add: cluster_ok_def)
  then show "cast_u32 (cluster_to_offset v c + i) = v_data_start v + (c - 2) * v_cluster_size v + i"
    using nn assms by (simp add: cluster_ok_def)
qed

lemma cluster_data_length:
  assumes "geometry_ok v" and "cluster_ok v c"
  shows "length (cluster_data v c) = nat (v_cluster_size v)"
proof -
  have "0 < v_cluster_size v" using assms(1) by (simp add: geometry_ok_def)
  with cluster_offset_ok [OF assms, of 0] assms(2) show ?thesis
    by (simp add: cluster_data_def fread_bytes_def cluster_to_offset_def cast_u32_def cluster_ok_def
          split: split_min) linarith
qed

text \<open>What one round of the copy loop reads from a good cluster.\<close>

lemma fread_cluster:
  assumes "geometry_ok v" and "cluster_ok v c" and "0 \<le> i" and "i < v_cluster_size v"
    and "0 \<le> m"
  shows "fread_bytes (v_disk v) (cast_u32 (cluster_to_offset v c + i))
           (nat (min (cast_u64 (v_cluster_size v - i)) m)) =
         take (nat m) (drop (nat i) (cluster_data v c))"
proof -
  note off = cluster_offset_ok [OF assms(1-4)]
  have size: "0 < v_cluster_size v" "v_cluster_size v < 4294967296"
    using assms(1) by (simp_all add: geometry_ok_def)
  have "cluster_to_offset v c = v_data_start v + (c - 2) * v_cluster_size v"
    using cluster_offset_ok(1) [OF assms(1,2), of 0] size
    by (simp add: cluster_to_offset_def cast_u32_def)
  moreover have "nat (min (v_cluster_size v - i) m) = min (nat (v_cluster_size v) - nat i) (nat m)"
    using assms(3-5) by linarith
  ultimately show ?thesis
    using off size assms(3-5)
    by (simp add: fread_bytes_def cluster_data_def nat_add_distrib drop_take add.commute min.commute)
qed

lemma chain_data_length:
  "geometry_ok v \<Longrightarrow> cluster_chain v c cs \<Longrightarrow>
     length (chain_data v cs) = length cs * nat (v_cluster_size v)"
  by (induction v c cs rule: cluster_chain.induct) (auto simp: chain_data_def cluster_data_length)

lemma read_loop_chain:
  assumes "geometry_ok v"
  shows "cluster_chain v c cs \<Longrightarrow> length cs < fuel \<Longrightarrow> 0 \<le> i \<Longrightarrow> i < v_cluster_size v \<Longrightarrow>
     int (length out) \<le> sz \<Longrightarrow>
     read_loop fuel v sz c i out =
       Some (out @ take (nat (sz - int (length out))) (drop (nat i) (chain_data v cs)))"
proof (induction cs arbitrary: c fuel i out)
  case Nil
  then show ?case by (cases fuel) (simp_all add: chain_data_def)
next
  case (Cons d ds)
  then obtain n where fuel: "fuel = Suc n" "length ds < n" by (cases fuel) auto
  from Cons.prems have d: "d = c" "cluster_ok v c" "cluster_chain v (fat_next_cluster v c) ds"
    by simp_all
  have cs: "0 < v_cluster_size v" using assms by (simp add: geometry_ok_def)
  show ?case
  proof (cases "int (length out) < sz")
    case False
    with Cons.prems show ?thesis by (simp add: fuel)
  next
    case True
    define m where "m = sz - int (length out)"
    define xs where "xs = take (nat m) (drop (nat i) (cluster_data v c))"
    have m: "0 < m" using True by (simp add: m_def)
    have len: "length xs \<le> nat m" by (simp add: xs_def)
    have "int (length (out @ xs)) \<le> sz" using len m by (simp add: m_def)
    then have IH: "read_loop n v sz (fat_next_cluster v c) 0 (out @ xs) =
        Some ((out @ xs) @ take (nat (sz - int (length (out @ xs)))) (chain_data v ds))"
      using Cons.IH [OF d(3) fuel(2), of 0 "out @ xs"] cs by simp
    have "read_loop fuel v sz c i out = read_loop n v sz (fat_next_cluster v c) 0 (out @ xs)"
      using True d(2) fread_cluster [OF assms d(2) Cons.prems(3,4), of m] m
      by (simp add: fuel(1) Let_def xs_def m_def cluster_ok_def)
    also have "\<dots> = Some (out @ take (nat m) (drop (nat i) (chain_data v (d # ds))))"
    proof -
      have "nat (sz - int (length (out @ xs))) = nat m - (nat (v_cluster_size v) - nat i)"
        using m by (simp add: m_def xs_def cluster_data_length [OF assms d(2)]) linarith
      then show ?thesis
        unfolding IH using nat_mono [OF less_imp_le [OF Cons.prems(4)]]
        by (simp add: chain_data_def d(1) xs_def cluster_data_length [OF assms d(2)])
    qed
    finally show ?thesis by (simp add: m_def)
  qed
qed

lemma skip_clusters_chain:
  "cluster_chain v c cs \<Longrightarrow> n \<le> length cs \<Longrightarrow> cluster_chain v (skip_clusters v n c) (drop n cs)"
proof (induction n arbitrary: c cs)
  case (Suc n)
  then show ?case by (cases cs) (auto simp: cluster_ok_def)
qed simp

lemma drop_chain_data:
  assumes "geometry_ok v" and "cluster_chain v c cs"
  shows "n \<le> length cs \<Longrightarrow>
    drop (n * nat (v_cluster_size v)) (chain_data v cs) = chain_data v (drop n cs)"
  using assms(2)
proof (induction n arbitrary: c cs)
  case (Suc n)
  then show ?case
    by (cases cs) (auto simp: chain_data_def cluster_data_length [OF assms(1)] algebra_simps)
qed simp

section \<open>Entries found by the look-up\<close>

text \<open>
  What a directory of \<open>n\<close> places at \<open>off\<close> holds, stated without the loops: the entries of 32 bytes up to the first that is free or not
  wholly on the disk, the deleted ones left out; and of these the files and directories, which are neither volume labels nor parts of long names.
\<close>

definition dir_slots :: "u8 list \<Rightarrow> int \<Rightarrow> nat \<Rightarrow> u8 list list" where
  "dir_slots disk off n = map (\<lambda>i. take 32 (drop (nat (off + 32 * int i)) disk)) [0..<n]"

definition live_entries :: "u8 list \<Rightarrow> int \<Rightarrow> nat \<Rightarrow> fat_dir_entry list" where
  "live_entries disk off n =
     map decode_dirent (filter (\<lambda>s. s ! 0 \<noteq> 0xE5) (takeWhile (\<lambda>s. length s = 32 \<and> s ! 0 \<noteq> 0) (dir_slots disk off n)))"

definition file_entries :: "u8 list \<Rightarrow> int \<Rightarrow> nat \<Rightarrow> fat_dir_entry list" where
  "file_entries disk off n = filter (\<lambda>e. and (d_attr e) ATTR_VOLUME_ID = 0) (live_entries disk off n)"

lemma dir_slots_Suc: "dir_slots disk off (Suc n) = take 32 (drop (nat off) disk) # dir_slots disk (off + 32) n"
  by (simp add: dir_slots_def upt_conv_Cons map_Suc_upt [symmetric] o_def algebra_simps del: upt_Suc)

lemma live_entries_Suc:
  "live_entries disk off (Suc n) =
     (case fread_item disk off DIRENT_SIZE of
        None \<Rightarrow> []
      | Some bs \<Rightarrow> if bs ! 0 = 0 then [] else (if bs ! 0 = 0xE5 then [] else [decode_dirent bs]) @ live_entries disk (off + 32) n)"
  by (auto simp: live_entries_def dir_slots_Suc fread_item_def DIRENT_SIZE_def)

lemma live_entries_0 [simp]: "live_entries disk off 0 = []"
  by (simp add: live_entries_def dir_slots_def)

text \<open>The attribute of a part of a long name has the bit of a volume label.\<close>

lemma long_name_volume: "and ATTR_LONG_NAME ATTR_VOLUME_ID \<noteq> (0 :: u8)"
  by (simp add: ATTR_LONG_NAME_def ATTR_VOLUME_ID_def)

lemma scan_dir_entries: "scan_dir disk off n = file_entries disk off n"
  by (induction disk off n rule: scan_dir.induct)
     (auto simp: file_entries_def live_entries_Suc long_name_volume Let_def split: option.split)

lemma search_dir_find: "search_dir disk off n nm = find (\<lambda>e. strcaseeq (fname_of e) nm) (file_entries disk off n)"
  by (induction disk off n nm rule: search_dir.induct)
     (auto simp: file_entries_def live_entries_Suc long_name_volume Let_def split: option.split)

lemma file_entries_size: "e \<in> set (file_entries disk off n) \<Longrightarrow> 0 \<le> d_file_size e \<and> d_file_size e < 4294967296"
  using le32_range by (auto simp: file_entries_def live_entries_def decode_dirent_def)

lemma search_dir_SomeD:
  "search_dir disk off n nm = Some e \<Longrightarrow>
     e \<in> set (file_entries disk off n) \<and> strcaseeq (fname_of e) nm"
  by (auto simp: search_dir_find find_Some_iff)

lemma fat_walk_size: "fat_walk v off n comps = Inr e \<Longrightarrow> 0 \<le> d_file_size e \<and> d_file_size e < 4294967296"
  by (induction v off n comps rule: fat_walk.induct)
     (auto dest: search_dir_SomeD file_entries_size split: option.splits if_splits)

lemma fat_find_entry_size:
  "fat_find_entry v path = Inr e \<Longrightarrow> 0 \<le> d_file_size e \<and> d_file_size e < 4294967296"
  by (auto simp: fat_find_entry_def root_dirent_def dest: fat_walk_size split: if_splits)

section \<open>Reading files\<close>

text \<open>The read request after the code has clipped it to the file.\<close>

lemma read_clip:
  assumes "0 \<le> offset" "offset < fsz" "fsz < 4294967296" "0 \<le> sz" "sz < 2147483648"
  shows "(if cast_u64 (offset + sz) > fsz then cast_u64 (fsz - offset) else sz) = min sz (fsz - offset)"
  using assms by simp

text \<open>
  C4. A read of a regular file whose clusters form a chain inside the image returns exactly the
  requested part of the file: the bytes of the chained clusters in order, cut to the size in the
  directory entry, from \<open>offset\<close>, at most \<open>sz\<close> of them; and it returns (fuel of one more than
  the number of clusters is enough).
\<close>

theorem fusefat_read_chain:
  assumes "fat_find_entry v path = Inr e" and "and (d_attr e) ATTR_DIRECTORY = 0"
    and "geometry_ok v" and "cluster_chain v (d_first_cluster e) cs"
    and "d_file_size e \<le> int (length cs) * v_cluster_size v"
    and "0 \<le> offset" and "offset < 9223372036854775808" and "0 \<le> sz" and "sz < 2147483648"
    and "length cs < fuel"
  shows "fusefat_read fuel v path sz offset =
    (let bytes = take (nat sz) (drop (nat offset) (take (nat (d_file_size e)) (chain_data v cs)))
     in Ret (int (length bytes), bytes))"
proof (cases "offset < d_file_size e")
  case False
  with assms(1,2) show ?thesis by (simp add: fusefat_read_def nat_mono)
next
  case True
  define csz where "csz = v_cluster_size v"
  have csz: "0 < csz" "csz < 4294967296" using assms(3) by (simp_all add: geometry_ok_def csz_def)
  have size: "d_file_size e < 4294967296" using fat_find_entry_size [OF assms(1)] by simp
  define n where "n = nat (offset div csz)"
  define i where "i = offset mod csz"
  define m where "m = min sz (d_file_size e - offset)"
  have i: "0 \<le> i" "i < csz" using csz by (simp_all add: i_def)
  have "offset div csz < int (length cs)"
    using True assms(5) csz by (intro int_div_less) (simp_all add: csz_def)
  then have n: "n \<le> length cs" "length (drop n cs) < fuel" using assms(10) by (simp_all add: n_def)
  have m: "0 \<le> m" "m < 2147483648" using True assms(8,9) by (simp_all add: m_def)
  have div: "offset div csz \<le> offset" using zdiv_mono2 [of offset 1 csz] assms(6) csz by simp
  note chain = skip_clusters_chain [OF assms(4) n(1)]
  have pos: "nat offset = n * nat csz + nat i"
    using assms(6) csz by (simp add: n_def i_def nat_div_distrib nat_mod_distrib)
  have loop: "read_loop fuel v m (skip_clusters v n (d_first_cluster e)) i [] =
      Some (take (nat m) (drop (nat offset) (chain_data v cs)))"
    using read_loop_chain [OF assms(3) chain n(2) i [unfolded csz_def], of "[]" m] m
    by (simp add: pos drop_chain_data [OF assms(3,4) n(1), folded csz_def, symmetric] add.commute)
  have bytes: "take (nat m) (drop (nat offset) (chain_data v cs)) =
      take (nat sz) (drop (nat offset) (take (nat (d_file_size e)) (chain_data v cs)))"
    using assms(6,8) True by (simp add: m_def drop_take min_def nat_diff_distrib nat_mono)
  define bs where "bs = take (nat sz) (drop (nat offset) (take (nat (d_file_size e)) (chain_data v cs)))"
  have len: "int (length bs) < 2147483648"
    using assms(9) by (simp add: bs_def)
  have "0 \<le> offset div csz" using assms(6) csz by (simp add: pos_imp_zdiv_nonneg_iff)
  then have "fusefat_read fuel v path sz offset = Ret (int (length bs), bs)"
    using assms(1,2,6,7) True csz loop len div i bytes
      read_clip [OF assms(6) True size assms(8,9)]
    by (simp add: fusefat_read_def Let_def csz_def [symmetric] n_def i_def m_def bs_def [symmetric])
  then show ?thesis by (simp add: bs_def Let_def)
qed

section \<open>A sample image\<close>

text \<open>
  A volume with 32-byte clusters: boot sector, one FAT sector, a root directory of two entries with
  the file A.TXT (cluster 2, the given size) and two data clusters. The FAT links 2 to \<open>next2\<close> and 3
  to \<open>next3\<close>.
\<close>

definition sample_image :: "u8 \<Rightarrow> u8 \<Rightarrow> u8 \<Rightarrow> u8 \<Rightarrow> u8 list" where
  "sample_image next2 next3 hi sz =
     replicate 11 0 @ [32, 0, 1, 2, 0, 1, 2, 0, 0, 0, 0xF8, 1, 0] @ replicate 40 0 @
     [0, 0, 0, 0, next2, 0, next3, hi] @ replicate 24 0 @
     [65, 32, 32, 32, 32, 32, 32, 32, 84, 88, 84, 0x20] @ replicate 14 0 @ [2, 0, sz, 0, 0, 0] @
     replicate 32 0 @
     replicate 32 7 @ replicate 32 9"

definition sample_vol :: "u8 \<Rightarrow> u8 \<Rightarrow> u8 \<Rightarrow> u8 \<Rightarrow> fat_vol" where
  "sample_vol next2 next3 hi sz =
     (case fusefat_main (sample_image next2 next3 hi sz) of Ret (Some v) \<Rightarrow> v)"

definition sample_entry :: "u8 \<Rightarrow> fat_dir_entry" where
  "sample_entry sz = \<lparr>d_name = ''A       '', d_ext = ''TXT'', d_attr = 0x20, d_first_cluster = 2,
     d_file_size = uint sz\<rparr>"

lemma sample_lookup: "fat_find_entry (sample_vol 3 0xFF 0xFF 40) ''/a.txt'' = Inr (sample_entry 40)"
  by code_simp

theorem fusefat_read_chain_witness:
  "fusefat_read 3 (sample_vol 3 0xFF 0xFF 40) ''/a.txt'' 4 30 = Ret (4, [7, 7, 9, 9])"
proof -
  have "and (d_attr (sample_entry 40)) ATTR_DIRECTORY = 0" "geometry_ok (sample_vol 3 0xFF 0xFF 40)"
    "cluster_chain (sample_vol 3 0xFF 0xFF 40) (d_first_cluster (sample_entry 40)) [2, 3]"
    "d_file_size (sample_entry 40) \<le> int (length [2, 3 :: int]) * v_cluster_size (sample_vol 3 0xFF 0xFF 40)"
    by code_simp+
  note read = fusefat_read_chain [OF sample_lookup this, of 30 4 3]
  have "(let bytes = take (nat 4) (drop (nat 30) (take (nat (d_file_size (sample_entry 40)))
       (chain_data (sample_vol 3 0xFF 0xFF 40) [2, 3]))) in Ret (int (length bytes), bytes)) =
     Ret (4, [7, 7, 9, 9])"
    by code_simp
  with read show ?thesis by simp
qed

section \<open>Termination of the copy loop\<close>

lemma read_round_length:
  assumes "geometry_ok v" and "cluster_ok v c" and "0 \<le> i" and "i < v_cluster_size v" and "0 < m"
  shows "0 < length (fread_bytes (v_disk v) (cast_u32 (cluster_to_offset v c + i))
           (nat (min (cast_u64 (v_cluster_size v - i)) m)))"
    and "int (length (fread_bytes (v_disk v) (cast_u32 (cluster_to_offset v c + i))
           (nat (min (cast_u64 (v_cluster_size v - i)) m)))) \<le> m"
  using assms
  by (simp_all add: fread_cluster [OF assms(1-4)] cluster_data_length [OF assms(1,2)])

text \<open>A list of clusters that the FAT does not lead out of, all of them inside the image.\<close>

definition clusters_closed :: "fat_vol \<Rightarrow> int list \<Rightarrow> bool" where
  "clusters_closed v S \<longleftrightarrow>
     list_all (\<lambda>d. d < 0xFFF8 \<longrightarrow> fat_next_cluster v d \<in> set S \<and> (2 \<le> d \<longrightarrow> cluster_ok v d)) S"

lemma clusters_closedD:
  assumes "clusters_closed v S" and "d \<in> set S" and "d < 0xFFF8"
  shows "fat_next_cluster v d \<in> set S" and "2 \<le> d \<Longrightarrow> cluster_ok v d"
  using assms by (auto simp: clusters_closed_def list_all_iff)

lemma read_loop_returns:
  assumes "geometry_ok v" and closed: "clusters_closed v S"
  shows "c \<in> set S \<Longrightarrow> 0 \<le> i \<Longrightarrow> i < v_cluster_size v \<Longrightarrow> int (length out) \<le> sz \<Longrightarrow>
     nat (sz - int (length out)) < fuel \<Longrightarrow>
     \<exists>bytes. read_loop fuel v sz c i out = Some bytes \<and> int (length bytes) \<le> sz"
proof (induction fuel arbitrary: c i out)
  case (Suc n)
  show ?case
  proof (cases "int (length out) < sz \<and> 2 \<le> c \<and> c < 0xFFF8")
    case False
    with Suc.prems show ?thesis by auto
  next
    case True
    then have ok: "cluster_ok v c" "fat_next_cluster v c \<in> set S"
      using clusters_closedD [OF closed Suc.prems(1)] by auto
    define xs where "xs = fread_bytes (v_disk v) (cast_u32 (cluster_to_offset v c + i))
        (nat (min (cast_u64 (v_cluster_size v - i)) (sz - int (length out))))"
    have xs: "0 < length xs" "int (length xs) \<le> sz - int (length out)"
      using read_round_length [OF assms(1) ok(1) Suc.prems(2,3), of "sz - int (length out)"] True
      by (simp_all add: xs_def)
    have bound: "int (length (out @ xs)) \<le> sz" "nat (sz - int (length (out @ xs))) < n"
      using Suc.prems(5) xs unfolding length_append by linarith+
    have "\<exists>bytes. read_loop n v sz (fat_next_cluster v c) 0 (out @ xs) = Some bytes \<and> int (length bytes) \<le> sz"
      using assms(1) by (intro Suc.IH ok(2) bound) (simp_all add: geometry_ok_def)
    then show ?thesis using True by (simp add: Let_def xs_def)
  qed
qed simp

lemma skip_clusters_in:
  assumes "clusters_closed v S"
  shows "c \<in> set S \<Longrightarrow> skip_clusters v n c \<in> set S"
  by (induction n arbitrary: c) (simp_all add: clusters_closedD [OF assms])

text \<open>
  The copy loop always ends when every cluster reachable through the FAT lies inside the image,
  even if the FAT is corrupt and links clusters in a cycle: each round delivers at least one byte,
  so as many rounds as bytes requested are enough, and no more than \<open>sz\<close> bytes are written to the
  caller's buffer.
\<close>

theorem fusefat_read_returns:
  assumes "fat_find_entry v path = Inr e" and "geometry_ok v"
    and "clusters_closed v S" and "d_first_cluster e \<in> set S"
    and "0 \<le> offset" and "offset < 9223372036854775808" and "0 \<le> sz" and "sz < 2147483648"
    and "nat sz < fuel"
  shows "\<exists>r bytes. fusefat_read fuel v path sz offset = Ret (r, bytes) \<and> int (length bytes) \<le> sz
           \<and> (bytes \<noteq> [] \<longrightarrow> r = int (length bytes))"
proof (cases "and (d_attr e) ATTR_DIRECTORY \<noteq> 0 \<or> d_file_size e \<le> offset")
  case True
  with assms(1,7) show ?thesis by (auto simp: fusefat_read_def)
next
  case False
  define m where "m = min sz (d_file_size e - offset)"
  define i where "i = offset mod v_cluster_size v"
  define c where "c = skip_clusters v (nat (cast_u64 (c_div offset (v_cluster_size v)))) (d_first_cluster e)"
  have size: "d_file_size e < 4294967296" using fat_find_entry_size [OF assms(1)] by simp
  have csz: "0 < v_cluster_size v" "v_cluster_size v < 4294967296"
    using assms(2) by (simp_all add: geometry_ok_def)
  then have i: "0 \<le> i" "i < v_cluster_size v" by (simp_all add: i_def)
  have m: "0 \<le> m" "m \<le> sz" using False assms(7) by (simp_all add: m_def)
  have "c \<in> set S" unfolding c_def by (rule skip_clusters_in [OF assms(3,4)])
  then obtain bytes where bytes: "read_loop fuel v m c i [] = Some bytes" "int (length bytes) \<le> m"
    using read_loop_returns [OF assms(2,3) _ i, of c "[]" m fuel] m assms(9) nat_mono [OF m(2)] by auto
  have "cast_u64 (c_mod offset (v_cluster_size v)) = i"
    using csz i assms(5) by (simp add: i_def)
  then show ?thesis
    using False assms(1,8) csz(1) bytes m read_clip [OF assms(5) _ size assms(7,8)]
    by (simp add: fusefat_read_def Let_def m_def [symmetric] c_def [symmetric])
qed

theorem fusefat_read_returns_witness:
  "\<exists>r bytes. fusefat_read 101 (sample_vol 3 2 0 100) ''/a.txt'' 100 0 = Ret (r, bytes) \<and>
     int (length bytes) \<le> 100 \<and> (bytes \<noteq> [] \<longrightarrow> r = int (length bytes))"
proof -
  have "fat_find_entry (sample_vol 3 2 0 100) ''/a.txt'' = Inr (sample_entry 100)"
    "geometry_ok (sample_vol 3 2 0 100)" "clusters_closed (sample_vol 3 2 0 100) [2, 3]"
    "d_first_cluster (sample_entry 100) \<in> set [2, 3]"
    by code_simp+
  from fusefat_read_returns [OF this, of 0 100 101] show ?thesis by simp
qed

lemma read_loop_stuck:
  assumes "2 \<le> c" and "c < 0xFFF8" and "fat_next_cluster v c = c" and "0 < sz"
    and "\<And>j n. 0 \<le> j \<Longrightarrow> j < v_cluster_size v \<Longrightarrow>
           fread_bytes (v_disk v) (cast_u32 (cluster_to_offset v c + j)) n = []"
    and "0 < v_cluster_size v"
  shows "0 \<le> i \<Longrightarrow> i < v_cluster_size v \<Longrightarrow> read_loop fuel v sz c i [] = None"
  using assms by (induction fuel arbitrary: i) (simp_all add: Let_def)

lemma skip_clusters_self: "fat_next_cluster v c = c \<Longrightarrow> skip_clusters v n c = c"
  by (induction n) simp_all

text \<open>
  On an image whose FAT links the first cluster of a file to itself and whose data area ends
  before that cluster, a read of the file never returns: the loop gains no byte and follows the same
  link forever, whatever the fuel.
\<close>

theorem fusefat_read_hangs:
  assumes "fat_find_entry v path = Inr e" and "and (d_attr e) ATTR_DIRECTORY = 0"
    and "geometry_ok v"
    and "2 \<le> d_first_cluster e" and "d_first_cluster e < 0xFFF8"
    and "fat_next_cluster v (d_first_cluster e) = d_first_cluster e"
    and "int (length (v_disk v)) \<le> cluster_to_offset v (d_first_cluster e)"
    and "cluster_to_offset v (d_first_cluster e) + v_cluster_size v < 4294967296"
    and "0 \<le> offset" and "offset < d_file_size e" and "0 < sz" and "sz < 2147483648"
  shows "fusefat_read fuel v path sz offset = NoReturn"
proof -
  define c where "c = d_first_cluster e"
  define m where "m = min sz (d_file_size e - offset)"
  define i where "i = offset mod v_cluster_size v"
  have size: "d_file_size e < 4294967296" using fat_find_entry_size [OF assms(1)] by simp
  have csz: "0 < v_cluster_size v" "v_cluster_size v < 4294967296"
    using assms(3) by (simp_all add: geometry_ok_def)
  then have i: "0 \<le> i" "i < v_cluster_size v" by (simp_all add: i_def)
  have "0 < m" using assms(10,11) by (simp add: m_def)
  moreover have "fread_bytes (v_disk v) (cast_u32 (cluster_to_offset v c + j)) n = []"
    if "0 \<le> j" "j < v_cluster_size v" for j n
    using that assms(7,8) by (simp add: fread_bytes_def c_def)
  ultimately have "read_loop fuel v m c i [] = None"
    using assms(4-6) csz(1) i by (intro read_loop_stuck) (simp_all add: c_def)
  moreover have "cast_u64 (c_mod offset (v_cluster_size v)) = i"
    using csz i assms(9) by (simp add: i_def)
  ultimately show ?thesis
    using assms(1,2,10-12) csz(1) read_clip [OF assms(9,10) size _ assms(12)]
    by (simp add: fusefat_read_def Let_def m_def [symmetric] skip_clusters_self [OF assms(6) [folded c_def]] c_def [symmetric])
qed

theorem fusefat_read_hangs_witness:
  "fusefat_read 1000 ((sample_vol 2 0 0 100)\<lparr>v_disk := take 160 (sample_image 2 0 0 100)\<rparr>)
     ''/a.txt'' 10 0 = NoReturn"
proof -
  let ?v = "(sample_vol 2 0 0 100)\<lparr>v_disk := take 160 (sample_image 2 0 0 100)\<rparr>"
  have "fat_find_entry ?v ''/a.txt'' = Inr (sample_entry 100)"
    "and (d_attr (sample_entry 100)) ATTR_DIRECTORY = 0" "geometry_ok ?v"
    "2 \<le> d_first_cluster (sample_entry 100)" "d_first_cluster (sample_entry 100) < 0xFFF8"
    "fat_next_cluster ?v (d_first_cluster (sample_entry 100)) = d_first_cluster (sample_entry 100)"
    "int (length (v_disk ?v)) \<le> cluster_to_offset ?v (d_first_cluster (sample_entry 100))"
    "cluster_to_offset ?v (d_first_cluster (sample_entry 100)) + v_cluster_size ?v < 4294967296"
    "0 \<le> (0 :: int)" "0 < d_file_size (sample_entry 100)"
    by code_simp+
  from fusefat_read_hangs [OF this, of 10 1000] show ?thesis by simp
qed

section \<open>Looking up names\<close>

lemma strtok_component:
  "cur @ nm \<noteq> [] \<Longrightarrow> CHR ''/'' \<notin> set nm \<Longrightarrow> strtok_from cur nm = [cur @ nm]"
  by (induction cur nm rule: strtok_from.induct) auto

lemma strtok_last:
  "nm \<noteq> [] \<Longrightarrow> CHR ''/'' \<notin> set nm \<Longrightarrow> strtok_from cur (p @ CHR ''/'' # nm) = strtok_from cur p @ [nm]"
  by (induction cur p rule: strtok_from.induct) (simp_all add: strtok_component)

lemma fat_walk_last:
  "fat_walk v off n comps = Inr d \<Longrightarrow> and (d_attr d) ATTR_DIRECTORY \<noteq> 0 \<Longrightarrow>
     fat_walk v off n (comps @ [nm]) =
       (case search_dir (v_disk v) (cluster_to_offset v (d_first_cluster d)) (nat (v_cluster_size v div 32)) nm of
          None \<Rightarrow> Inl (- ENOENT) | Some e \<Rightarrow> Inr e)"
  by (induction v off n comps rule: fat_walk.induct) (auto split: option.splits if_splits)

text \<open>The path of a name in a directory, and where the entries of a directory are: those of the root, or those of its first cluster.\<close>

definition path_in :: "string \<Rightarrow> string \<Rightarrow> string" where
  "path_in path nm = (if path = ''/'' then CHR ''/'' # nm else path @ CHR ''/'' # nm)"

definition dir_place :: "fat_vol \<Rightarrow> string \<Rightarrow> (int \<times> nat) option" where
  "dir_place v path =
     (if path = ''/'' then Some (v_root_dir_start v, nat (root_entry_count (v_bpb v)))
      else case fat_find_entry v path of
             Inr d \<Rightarrow> if and (d_attr d) ATTR_DIRECTORY \<noteq> 0 then Some (cluster_to_offset v (d_first_cluster d), nat (v_cluster_size v div 32)) else None
           | Inl _ \<Rightarrow> None)"

lemma fat_find_in:
  assumes "dir_place v path = Some (off, n)" and "nm \<noteq> []" and "CHR ''/'' \<notin> set nm" and "length path + length nm < 511"
  shows "fat_find_entry v (path_in path nm) = (case search_dir (v_disk v) off n nm of None \<Rightarrow> Inl (- ENOENT) | Some e \<Rightarrow> Inr e)"
proof (cases "path = ''/''")
  case True
  then show ?thesis using assms by (auto simp: dir_place_def path_in_def fat_find_entry_def strtok_component split: option.split)
next
  case False
  then obtain d where d: "fat_find_entry v path = Inr d" "and (d_attr d) ATTR_DIRECTORY \<noteq> 0"
    "off = cluster_to_offset v (d_first_cluster d)" "n = nat (v_cluster_size v div 32)"
    using assms(1) by (auto simp: dir_place_def split: sum.splits if_splits)
  let ?walk = "fat_walk v (v_root_dir_start v) (nat (root_entry_count (v_bpb v)))"
  have w: "?walk (strtok_from [] (drop 1 path)) = Inr d" using d(1) False assms(4) by (simp add: fat_find_entry_def)
  then obtain c p where p: "path = c # p" by (cases path) auto
  have "path_in path nm \<noteq> ''/''" using assms(2) by (simp add: path_in_def p)
  then have "fat_find_entry v (path_in path nm) = ?walk (strtok_from [] p @ [nm])"
    using False assms strtok_last [OF assms(2,3), of "[]" p] by (auto simp: fat_find_entry_def path_in_def p)
  then show ?thesis using fat_walk_last [OF _ d(2), of v _ _ "strtok_from [] p" nm] w by (simp add: p d)
qed

text \<open>
  C5. In every directory, \<open>readdir\<close> and the look-up agree on what is there. The directory holds the entries of its places up to the first free
  one which are not deleted, volume labels or parts of long names. \<open>readdir\<close> lists the names of exactly these, in order; and a name in the
  directory is opened as the first of them that bears it up to case, and not found if none does.
\<close>

theorem fusefat_readdir_lookup:
  assumes "dir_place v path = Some (off, n)"
  shows "fusefat_readdir v path = (0, [''.'', ''..''] @ map fname_of (file_entries (v_disk v) off n)) \<and>
    (\<forall>nm. nm \<noteq> [] \<and> CHR ''/'' \<notin> set nm \<and> length path + length nm < 511 \<longrightarrow>
       (case find (\<lambda>e. strcaseeq (fname_of e) nm) (file_entries (v_disk v) off n) of
          None \<Rightarrow> fat_find_entry v (path_in path nm) = Inl (- ENOENT) \<and> fusefat_open v (path_in path nm) = - ENOENT
        | Some e \<Rightarrow> fat_find_entry v (path_in path nm) = Inr e \<and> fusefat_open v (path_in path nm) = 0))"
proof -
  have "fusefat_readdir v path = (0, [''.'', ''..''] @ map fname_of (file_entries (v_disk v) off n))"
    using assms by (auto simp: dir_place_def fusefat_readdir_def scan_dir_entries fat_find_entry_def [of v "''/''"] split: sum.splits if_splits)
  then show ?thesis
    using fat_find_in [OF assms] by (auto simp: search_dir_find fusefat_open_def split: option.split)
qed

theorem fusefat_readdir_lookup_witness:
  "fusefat_readdir (sample_vol 3 0xFF 0xFF 40) ''/'' = (0, [''.'', ''..'', ''A.TXT'']) \<and>
   fusefat_open (sample_vol 3 0xFF 0xFF 40) ''/b.txt'' = - ENOENT"
proof -
  have d: "dir_place (sample_vol 3 0xFF 0xFF 40) ''/'' = Some (96, 2)" by code_simp
  have "map fname_of (file_entries (v_disk (sample_vol 3 0xFF 0xFF 40)) 96 2) = [''A.TXT'']"
    "find (\<lambda>e. strcaseeq (fname_of e) ''b.txt'') (file_entries (v_disk (sample_vol 3 0xFF 0xFF 40)) 96 2) = None"
    "path_in ''/'' ''b.txt'' = ''/b.txt''"
    by code_simp+
  then show ?thesis using fusefat_readdir_lookup [OF d] by (auto dest!: spec [of _ "''b.txt''"])
qed

lemma to_lower_slash: "to_lower c = CHR ''/'' \<longleftrightarrow> c = CHR ''/''"
proof (cases "(65 :: nat) \<le> of_char c \<and> of_char c \<le> (90 :: nat)")
  case True
  then have "of_char (to_lower c) = of_char c + (32 :: nat)"
    by (simp add: to_lower_def)
  with True have "of_char (to_lower c) \<noteq> (47 :: nat)" "of_char c \<noteq> (47 :: nat)" by simp_all
  moreover have "of_char CHR ''/'' = (47 :: nat)" by simp
  ultimately show ?thesis by metis
qed (auto simp: to_lower_def)

lemma strtok_lower:
  "map (map to_lower) (strtok_from cur s) = strtok_from (map to_lower cur) (map to_lower s)"
  by (induction cur s rule: strtok_from.induct) (simp_all add: to_lower_slash)

lemma fat_walk_lower:
  "map (map to_lower) comps = map (map to_lower) comps' \<Longrightarrow>
     fat_walk v off n comps = fat_walk v off n comps'"
proof (induction v off n comps arbitrary: comps' rule: fat_walk.induct)
  case (2 v off n c cs)
  then obtain d ds where d: "comps' = d # ds" "map to_lower c = map to_lower d"
    "map (map to_lower) cs = map (map to_lower) ds" by auto
  then have "search_dir (v_disk v) off n c = search_dir (v_disk v) off n d" "cs = [] \<longleftrightarrow> ds = []"
    by (simp_all add: search_dir_find strcaseeq_def) (metis map_is_Nil_conv)
  with 2(1) d show ?case by (auto split: option.split)
qed simp

text \<open>Look-up is insensitive to case: the entry found depends only on the lower-cased path.\<close>

theorem fat_lookup_ignores_case:
  assumes "map to_lower p = map to_lower q"
  shows "fat_find_entry v p = fat_find_entry v q"
proof -
  have "map to_lower (take 511 (drop 1 p)) = map to_lower (take 511 (drop 1 q))"
    using assms by (metis drop_map take_map)
  then have "map (map to_lower) (strtok_from [] (take 511 (drop 1 p))) =
      map (map to_lower) (strtok_from [] (take 511 (drop 1 q)))"
    by (simp add: strtok_lower)
  note walk = fat_walk_lower [OF this]
  have slash: "map to_lower t = ''/'' \<longleftrightarrow> t = ''/''" for t
    by (cases t) (auto simp: to_lower_slash)
  have "p = ''/'' \<longleftrightarrow> q = ''/''" using slash [of p] slash [of q] assms by simp
  then show ?thesis by (simp add: fat_find_entry_def walk [unfolded One_nat_def])
qed

theorem fat_lookup_ignores_case_witness:
  "fat_find_entry (sample_vol 3 0xFF 0xFF 40) ''/A.txT'' = Inr (sample_entry 40)"
proof -
  have "map to_lower ''/A.txT'' = map to_lower ''/a.txt''" by code_simp
  from fat_lookup_ignores_case [OF this] sample_lookup show ?thesis by simp
qed

end
