(* ===== verification/FatParser.thy ===== *)
theory FatParser
  imports FuseFat
begin

text \<open>
  The FAT16 image parser, SystemProgramming/Handson/lab18_fuse_fat/fat_parser.c: what it prints for
  an image, as a string. It shares the on-disk structures with the FUSE driver. The bytes of a fresh
  \<open>malloc\<close> block, which \<open>fread\<close> may leave unset, are an argument.
\<close>

section \<open>Printing\<close>








section \<open>Extraction of the first file\<close>


definition file_offset :: "fat16_bpb \<Rightarrow> int \<Rightarrow> fat_dir_entry \<Rightarrow> int outcome" where
  "file_offset b data_start e =
     (let p = (d_first_cluster e - 2) * sectors_per_cluster b * bytes_per_sector b
      in if fits_s32 p then Ret (cast_u32 (data_start + p)) else Trap)"

definition read_content :: "u8 list \<Rightarrow> int \<Rightarrow> fat_dir_entry \<Rightarrow> u8 list" where
  "read_content disk off e =
     fread_bytes disk off (nat (if d_file_size e < 512 then d_file_size e else 512))"




section \<open>Agreement with the driver\<close>










lemma main_vol:
  assumes "fusefat_main disk = Ret (Some v)"
  shows "v_disk v = disk" and "v_cluster_size v = sectors_per_cluster (v_bpb v) * bytes_per_sector (v_bpb v)"
  using assms by (auto simp: fusefat_main_def Let_def split: option.splits outcome.splits)

text \<open>
  Extraction agrees with the driver: on an image with clusters of at least 512 bytes, the content
  that the parser reads for a file is what a read of the first 512 bytes of the same file through the
  driver returns.
\<close>

theorem extract_matches_read:
  assumes "fusefat_main disk = Ret (Some v)" and "fat_find_entry v path = Inr e"
    and "and (d_attr e) ATTR_DIRECTORY = 0"
    and "geometry_ok v" and "512 \<le> v_cluster_size v"
    and "cluster_chain v (d_first_cluster e) (c # cs)"
    and "d_file_size e \<le> int (length (c # cs)) * v_cluster_size v"
    and "file_offset (v_bpb v) (v_data_start v) e = Ret off"
    and "length (c # cs) < fuel"
  shows "fusefat_read fuel v path 512 0 =
    Ret (int (length (read_content disk off e)), read_content disk off e)"
proof -
  note vol = main_vol [OF assms(1)]
  have size: "0 \<le> d_file_size e" using fat_find_entry_size [OF assms(2)] by simp
  have c: "c = d_first_cluster e" "cluster_ok v c" using assms(6) by simp_all
  have off: "off = cluster_to_offset v c"
    using assms(8) by (simp add: file_offset_def cluster_to_offset_def Let_def c(1) vol(2) mult.assoc
        split: if_splits)
  have "read_content disk off e = take (min 512 (nat (d_file_size e))) (cluster_data v c)"
    using size assms(5)
    by (auto simp: read_content_def off cluster_data_def fread_bytes_def vol(1) min_def nat_le_iff le_nat_iff)
  moreover have "take 512 (take (nat (d_file_size e)) (chain_data v (c # cs))) =
      take (min 512 (nat (d_file_size e))) (cluster_data v c)"
  proof -
    have "min 512 (nat (d_file_size e)) \<le> nat (v_cluster_size v)" using assms(5) by simp
    then have "take (min 512 (nat (d_file_size e))) (cluster_data v c @ concat (map (cluster_data v) cs)) =
        take (min 512 (nat (d_file_size e))) (cluster_data v c)"
      using cluster_data_length [OF assms(4) c(2)] by (intro take_prefix_append) simp
    then show ?thesis by (simp only: take_take chain_data_def list.map concat.simps)
  qed
  ultimately show ?thesis
    using fusefat_read_chain [OF assms(2-4,6,7), of 0 512 fuel] assms(9) by (simp add: Let_def)
qed

text \<open>A volume with one 512-byte cluster for the file A.TXT.\<close>

definition sample_image512 :: "u8 list" where
  "sample_image512 =
     replicate 11 0 @ [128, 0, 4, 1, 0, 1, 2, 0, 0, 0, 0xF8, 1, 0] @ replicate 104 0 @
     [0, 0, 0, 0, 0xFF, 0xFF] @ replicate 122 0 @
     [65, 32, 32, 32, 32, 32, 32, 32, 84, 88, 84, 0x20] @ replicate 14 0 @ [2, 0, 5, 0, 0, 0] @
     replicate 32 0 @ replicate 512 7"

definition sample_vol512 :: fat_vol where
  "sample_vol512 = (case fusefat_main sample_image512 of Ret (Some v) \<Rightarrow> v)"

theorem extract_matches_read_witness:
  "fusefat_read 2 sample_vol512 ''/a.txt'' 512 0 = Ret (5, replicate 5 7)"
proof -
  have "fusefat_main sample_image512 = Ret (Some sample_vol512)" by code_simp
  moreover have "fat_find_entry sample_vol512 ''/a.txt'' = Inr (sample_entry 5)"
    "and (d_attr (sample_entry 5)) ATTR_DIRECTORY = 0" "geometry_ok sample_vol512"
    "512 \<le> v_cluster_size sample_vol512"
    "cluster_chain sample_vol512 (d_first_cluster (sample_entry 5)) [2]"
    "d_file_size (sample_entry 5) \<le> int (length [2 :: int]) * v_cluster_size sample_vol512"
    "file_offset (v_bpb sample_vol512) (v_data_start sample_vol512) (sample_entry 5) = Ret 320"
    by code_simp+
  ultimately have "fusefat_read 2 sample_vol512 ''/a.txt'' 512 0 =
      Ret (int (length (read_content sample_image512 320 (sample_entry 5))),
           read_content sample_image512 320 (sample_entry 5))"
    by (rule extract_matches_read) simp
  also have "read_content sample_image512 320 (sample_entry 5) = replicate 5 7" by code_simp
  finally show ?thesis by simp
qed

end
