(* ===== verification/Processes.thy ===== *)
theory Processes
  imports Bytes
begin

text \<open>
  Processes as POSIX documents them, for the labs whose programs fork: descriptors that are shared by fork, pipes, socket pairs that carry descriptors, files, exit status and
  zombies, signals, and the buffer of \<open>printf\<close>. A program is a value of the type \<open>prog\<close>: a system call with what follows for each of its results, so that a C function is a definition that
  takes what follows it as an argument. Processes take turns in any order; in one turn a process makes one system call and prints what it prints until the next. \<open>None\<close> is a call that blocks. A
  call that fails returns a negated error number (the wrappers of libc return -1 and set \<open>errno\<close>). \<open>Fault\<close> is undefined behaviour. What a process is at depends on the
  results of its calls only, which is what makes it possible to explore all schedules of a program.
\<close>

section \<open>Programs\<close>

datatype signal = SIGCHLD | SIGINT | SIGTERM | SIGUSR1 | SIGUSR2 | SIGPIPE

text \<open>What \<open>recvmsg\<close> gives: an error, the end of the stream, or a message, with a descriptor if one was attached.\<close>

datatype received = Failed int | End_of_stream | Message string "int option"

datatype prog =
    Print string prog
  | Quit int
  | Return int
  | Fault
  | Loop prog prog
  | Again
  | Break
  | Fork "int \<Rightarrow> prog"
  | Exec "string list" prog
  | Waitpid int bool "int \<Rightarrow> int \<Rightarrow> prog"
  | Getpid "int \<Rightarrow> prog"
  | Getppid "int \<Rightarrow> prog"
  | Pipe "int \<Rightarrow> int \<Rightarrow> int \<Rightarrow> prog"
  | Socketpair "int \<Rightarrow> int \<Rightarrow> int \<Rightarrow> prog"
  | Open string bool "int \<Rightarrow> prog"
  | Unlink string prog
  | Close int prog
  | Dup2 int int prog
  | Nonblock int prog
  | Read int int "int \<Rightarrow> string \<Rightarrow> prog"
  | Write int string "int \<Rightarrow> prog"
  | Sendmsg int string "int option" "int \<Rightarrow> prog"
  | Recvmsg int "received \<Rightarrow> prog"
  | Setenv string string prog
  | Getenv string "string option \<Rightarrow> prog"
  | Sigaction signal "(int \<Rightarrow> prog) option" prog
  | Sigblock signal "signal list \<Rightarrow> prog"
  | Sigsetmask "signal list" prog
  | Sigpending "signal list \<Rightarrow> prog"
  | Kill int signal prog
  | Load string "int \<Rightarrow> prog"
  | Store string int prog
  | Sleep prog

section \<open>State\<close>

text \<open>What a program has of its own: its place, the loops and interrupted calls around it, environment, variables, signal handlers and mask, the buffer of \<open>printf\<close>, and what reached the terminal.\<close>

datatype frame = Round prog prog | Resume prog "signal list"

record local =
  code :: prog
  stack :: "frame list"
  env :: "string \<Rightarrow> string option"
  vars :: "string \<Rightarrow> int"
  handlers :: "signal \<Rightarrow> (int \<Rightarrow> prog) option"
  blocked :: "signal list"
  obuf :: "string list"
  shown :: "string list"

text \<open>The results of calls; \<open>Taken\<close> is a signal that interrupts.\<close>

datatype reply =
    Done
  | Num (num: int)
  | Fds (fd_a: int) (fd_b: int)
  | Ended (child: int) (ended: int)
  | Data (data_n: int) (data: string)
  | Got (got: received)
  | Sigs (sigs: "signal list")
  | Terminal (written: int)
  | Taken signal int

datatype okind = Tty | PipeR nat | PipeW nat | Disk nat | Sock nat bool

record ofd =
  okind :: okind
  opos :: nat
  ononblock :: bool

datatype pstatus = Running | Zombie int | Reaped | Broken

fun exit_status :: "pstatus \<Rightarrow> int option" where
  "exit_status (Zombie st) = Some st"
| "exit_status s = None"

record process =
  here :: local
  hist :: "reply list"
  fdt :: "nat option list"
  ppid :: int
  status :: pstatus
  pending :: "(signal \<times> int) list"

record kernel =
  procs :: "process list"
  ofds :: "ofd list"
  pipes :: "string list"
  socks :: "((string \<times> nat option) list \<times> (string \<times> nat option) list) list"
  inodes :: "string list"
  paths :: "(string \<times> nat) list"

text \<open>What does not change: the programs that can be executed, the limit of processes, whether standard output is a terminal, and the number of the first process.\<close>

record config =
  images :: "string list \<Rightarrow> prog option"
  max_procs :: nat
  tty :: bool
  first_pid :: int

definition pid_of :: "config \<Rightarrow> nat \<Rightarrow> int" where "pid_of g i = first_pid g + int i"

definition index_of :: "config \<Rightarrow> int \<Rightarrow> nat option" where
  "index_of g pid = (if first_pid g \<le> pid then Some (nat (pid - first_pid g)) else None)"

abbreviation (input) EAGAIN :: int where "EAGAIN \<equiv> 11"
abbreviation (input) ECHILD :: int where "ECHILD \<equiv> 10"
abbreviation (input) EBADF :: int where "EBADF \<equiv> 9"
abbreviation (input) EPIPE :: int where "EPIPE \<equiv> 32"
abbreviation (input) ENOTSOCK :: int where "ENOTSOCK \<equiv> 88"

section \<open>The program\<close>

definition put :: "bool \<Rightarrow> string list \<Rightarrow> local \<Rightarrow> local" where
  "put direct ts l = (if direct then l\<lparr>shown := shown l @ ts\<rparr> else l\<lparr>obuf := obuf l @ ts\<rparr>)"

text \<open>The texts at the head of a program, and what follows them. A text ends a line, which is when a terminal gets it. They are printed with the call before them unless the program
  handles signals: then each is a turn of its own, since a handler may print in between.\<close>

definition no_handlers :: "local \<Rightarrow> bool" where
  "no_handlers l = list_all (\<lambda>s. handlers l s = None) [SIGCHLD, SIGINT, SIGTERM, SIGUSR1, SIGUSR2, SIGPIPE]"

fun texts :: "prog \<Rightarrow> string list \<times> prog" where
  "texts (Print t c) = (let (ts, c') = texts c in (t # ts, c'))"
| "texts c = ([], c)"

definition at :: "bool \<Rightarrow> prog \<Rightarrow> local \<Rightarrow> local" where
  "at direct c l = (if no_handlers l then (let (ts, c') = texts c in put direct ts (l\<lparr>code := c'\<rparr>)) else l\<lparr>code := c\<rparr>)"

text \<open>The end of a round, of a loop, or of a signal handler.\<close>

definition unwind :: "bool \<Rightarrow> bool \<Rightarrow> local \<Rightarrow> local" where
  "unwind direct leave l = (case stack l of
       Round b r # st \<Rightarrow> if leave then at direct r (l\<lparr>stack := st\<rparr>) else at direct b l
     | Resume c m # st \<Rightarrow> l\<lparr>code := c, stack := st, blocked := m\<rparr>
     | [] \<Rightarrow> l\<lparr>code := Fault\<rparr>)"

text \<open>A program goes on with the result of its call. The buffer of \<open>printf\<close> is written out by \<open>return\<close> and lost by \<open>_exit\<close> and \<open>exec\<close>.\<close>

definition resume :: "config \<Rightarrow> local \<Rightarrow> reply \<Rightarrow> local" where
  "resume g l r = (case r of
       Taken sig sender \<Rightarrow>
         (case handlers l sig of
            None \<Rightarrow> l
          | Some h \<Rightarrow> at (tty g) (h sender) (l\<lparr>stack := Resume (code l) (blocked l) # stack l, blocked := sig # blocked l\<rparr>))
     | _ \<Rightarrow>
      (case code l of
         Print t c \<Rightarrow> at (tty g) c (put (tty g) [t] l)
       | Quit n \<Rightarrow> l
       | Return n \<Rightarrow> l\<lparr>shown := shown l @ obuf l, obuf := []\<rparr>
       | Fault \<Rightarrow> l
       | Loop b c \<Rightarrow> at (tty g) b (l\<lparr>stack := Round b c # stack l\<rparr>)
       | Again \<Rightarrow> unwind (tty g) False l
       | Break \<Rightarrow> unwind (tty g) True l
       | Fork c \<Rightarrow> at (tty g) (c (num r)) (if num r = 0 then l\<lparr>shown := []\<rparr> else l)
       | Exec as c \<Rightarrow> (case images g as of
            None \<Rightarrow> at (tty g) c l
          | Some p \<Rightarrow> at (tty g) p (l\<lparr>stack := [], handlers := (\<lambda>_. None), obuf := [], vars := (\<lambda>_. 0)\<rparr>))
       | Waitpid pid nohang c \<Rightarrow> at (tty g) (c (child r) (ended r)) l
       | Getpid c \<Rightarrow> at (tty g) (c (num r)) l
       | Getppid c \<Rightarrow> at (tty g) (c (num r)) l
       | Pipe c \<Rightarrow> at (tty g) (c 0 (fd_a r) (fd_b r)) l
       | Socketpair c \<Rightarrow> at (tty g) (c 0 (fd_a r) (fd_b r)) l
       | Open path create c \<Rightarrow> at (tty g) (c (num r)) l
       | Unlink path c \<Rightarrow> at (tty g) c l
       | Close fd c \<Rightarrow> at (tty g) c l
       | Dup2 fd fd2 c \<Rightarrow> at (tty g) c l
       | Nonblock fd c \<Rightarrow> at (tty g) c l
       | Read fd n c \<Rightarrow> at (tty g) (c (data_n r) (data r)) l
       | Write fd bs c \<Rightarrow> (case r of Terminal n \<Rightarrow> at (tty g) (c n) (l\<lparr>shown := shown l @ [bs]\<rparr>) | _ \<Rightarrow> at (tty g) (c (num r)) l)
       | Sendmsg fd bs d c \<Rightarrow> at (tty g) (c (num r)) l
       | Recvmsg fd c \<Rightarrow> at (tty g) (c (got r)) l
       | Setenv x v c \<Rightarrow> at (tty g) c (l\<lparr>env := (env l)(x := Some v)\<rparr>)
       | Getenv x c \<Rightarrow> at (tty g) (c (env l x)) l
       | Sigaction sig h c \<Rightarrow> at (tty g) c (l\<lparr>handlers := (handlers l)(sig := h)\<rparr>)
       | Sigblock sig c \<Rightarrow> at (tty g) (c (blocked l)) (l\<lparr>blocked := sig # blocked l\<rparr>)
       | Sigsetmask m c \<Rightarrow> at (tty g) c (l\<lparr>blocked := m\<rparr>)
       | Sigpending c \<Rightarrow> at (tty g) (c (sigs r)) l
       | Kill pid sig c \<Rightarrow> at (tty g) c l
       | Load x c \<Rightarrow> at (tty g) (c (vars l x)) l
       | Store x v c \<Rightarrow> at (tty g) c (l\<lparr>vars := (vars l)(x := v)\<rparr>)
       | Sleep c \<Rightarrow> at (tty g) c l))"

section \<open>Descriptors\<close>

definition upd :: "nat \<Rightarrow> (process \<Rightarrow> process) \<Rightarrow> kernel \<Rightarrow> kernel" where
  "upd i f k = k\<lparr>procs := (procs k)[i := f (procs k ! i)]\<rparr>"

definition lookup_fd :: "process \<Rightarrow> int \<Rightarrow> nat option" where
  "lookup_fd p fd = (if 0 \<le> fd \<and> nat fd < length (fdt p) then fdt p ! nat fd else None)"

text \<open>The lowest free descriptor.\<close>

fun free_slot :: "nat option list \<Rightarrow> nat" where
  "free_slot [] = 0"
| "free_slot (None # ds) = 0"
| "free_slot (Some x # ds) = Suc (free_slot ds)"

definition set_slot :: "nat \<Rightarrow> nat option \<Rightarrow> nat option list \<Rightarrow> nat option list" where
  "set_slot n x ds = (ds @ replicate (Suc n - length ds) None)[n := x]"

definition add_fd :: "nat \<Rightarrow> process \<Rightarrow> process" where
  "add_fd x p = p\<lparr>fdt := set_slot (free_slot (fdt p)) (Some x) (fdt p)\<rparr>"

text \<open>Descriptors that a message carries count as references too.\<close>

definition in_flight :: "kernel \<Rightarrow> nat option list" where
  "in_flight k = concat (map (\<lambda>(a, b). map snd a @ map snd b) (socks k))"

definition refers :: "kernel \<Rightarrow> okind \<Rightarrow> bool" where
  "refers k w = list_ex (\<lambda>d. case d of None \<Rightarrow> False | Some x \<Rightarrow> okind (ofds k ! x) = w) (concat (map fdt (procs k)) @ in_flight k)"

definition new_ofd :: "okind \<Rightarrow> ofd" where "new_ofd x = \<lparr>okind = x, opos = 0, ononblock = False\<rparr>"

section \<open>Signals and exit\<close>

text \<open>A signal that is ignored is dropped when it is sent; one that is pending already is not noted again.\<close>

definition dropped :: "signal \<Rightarrow> local \<Rightarrow> bool" where
  "dropped sig l \<longleftrightarrow> sig = SIGCHLD \<and> handlers l SIGCHLD = None \<and> SIGCHLD \<notin> set (blocked l)"

definition raise_signal :: "nat \<Rightarrow> signal \<Rightarrow> int \<Rightarrow> kernel \<Rightarrow> kernel" where
  "raise_signal i sig sender k =
     (if i < length (procs k) \<and> status (procs k ! i) = Running \<and> \<not> dropped sig (here (procs k ! i)) \<and> sig \<notin> fst ` set (pending (procs k ! i))
      then upd i (\<lambda>p. p\<lparr>pending := pending p @ [(sig, sender)]\<rparr>) k else k)"

definition signal_pid :: "config \<Rightarrow> int \<Rightarrow> signal \<Rightarrow> int \<Rightarrow> kernel \<Rightarrow> kernel" where
  "signal_pid g pid sig sender k = (case index_of g pid of None \<Rightarrow> k | Some j \<Rightarrow> raise_signal j sig sender k)"

text \<open>A process that ends: its descriptors are closed, its children go to init, and its parent is told. Init is not in the table unless the
  program itself is process 1; then it reaps at once.\<close>

definition orphan :: "config \<Rightarrow> int \<Rightarrow> process \<Rightarrow> process" where
  "orphan g me p = (if ppid p = me
     then p\<lparr>ppid := 1, status := (if exit_status (status p) \<noteq> None \<and> first_pid g \<noteq> 1 then Reaped else status p)\<rparr> else p)"

definition terminate :: "config \<Rightarrow> nat \<Rightarrow> int \<Rightarrow> kernel \<Rightarrow> kernel" where
  "terminate g i st k =
     (let me = pid_of g i;
          k1 = upd i (\<lambda>p. p\<lparr>status := (if ppid p = 1 \<and> first_pid g \<noteq> 1 then Reaped else Zombie st), fdt := []\<rparr>) k;
          k2 = k1\<lparr>procs := map (orphan g me) (procs k1)\<rparr>
      in signal_pid g (ppid (procs k ! i)) SIGCHLD me k2)"

definition signo :: "signal \<Rightarrow> int" where
  "signo sig = (case sig of SIGINT \<Rightarrow> 2 | SIGUSR1 \<Rightarrow> 10 | SIGUSR2 \<Rightarrow> 12 | SIGPIPE \<Rightarrow> 13 | SIGTERM \<Rightarrow> 15 | SIGCHLD \<Rightarrow> 17)"

definition deliverable :: "process \<Rightarrow> (signal \<times> int) option" where
  "deliverable p = find (\<lambda>s. fst s \<notin> set (blocked (here p))) (pending p)"

section \<open>System calls\<close>

text \<open>The reply of a call, and the state but for the program that called.\<close>

definition fork_call :: "config \<Rightarrow> nat \<Rightarrow> kernel \<Rightarrow> reply \<times> kernel" where
  "fork_call g i k =
     (if length (procs k) < max_procs g then
        (let p = procs k ! i
         in (Num (pid_of g (length (procs k))),
             k\<lparr>procs := procs k @ [p\<lparr>here := resume g (here p) (Num 0), hist := Num 0 # hist p, ppid := pid_of g i, pending := []\<rparr>]\<rparr>))
      else (Num (- EAGAIN), k))"

definition is_child :: "config \<Rightarrow> nat \<Rightarrow> int \<Rightarrow> kernel \<Rightarrow> nat \<Rightarrow> bool" where
  "is_child g i pid k j \<longleftrightarrow> ppid (procs k ! j) = pid_of g i \<and> (pid < 0 \<or> pid_of g j = pid) \<and> status (procs k ! j) \<noteq> Reaped"

definition wait_call :: "config \<Rightarrow> nat \<Rightarrow> int \<Rightarrow> bool \<Rightarrow> kernel \<Rightarrow> (reply \<times> kernel) option" where
  "wait_call g i pid nohang k =
     (let cs = filter (is_child g i pid k) [0..<length (procs k)]
      in if cs = [] then Some (Ended (- ECHILD) 0, k)
         else (case find (\<lambda>j. exit_status (status (procs k ! j)) \<noteq> None) cs of
                 Some j \<Rightarrow> Some (Ended (pid_of g j) (the (exit_status (status (procs k ! j)))), upd j (\<lambda>p. p\<lparr>status := Reaped\<rparr>) k)
               | None \<Rightarrow> if nohang then Some (Ended 0 0, k) else None))"

definition add_pair :: "nat \<Rightarrow> okind \<Rightarrow> okind \<Rightarrow> kernel \<Rightarrow> reply \<times> kernel" where
  "add_pair i a b k =
     (let n = length (ofds k);
          p = procs k ! i;
          p1 = add_fd n p
      in (Fds (int (free_slot (fdt p))) (int (free_slot (fdt p1))),
          upd i (\<lambda>_. add_fd (n + 1) p1) (k\<lparr>ofds := ofds k @ [new_ofd a, new_ofd b]\<rparr>)))"

definition open_file :: "nat \<Rightarrow> nat \<Rightarrow> kernel \<Rightarrow> reply \<times> kernel" where
  "open_file i f k = (Num (int (free_slot (fdt (procs k ! i)))), upd i (add_fd (length (ofds k))) (k\<lparr>ofds := ofds k @ [new_ofd (Disk f)]\<rparr>))"

definition open_call :: "nat \<Rightarrow> string \<Rightarrow> bool \<Rightarrow> kernel \<Rightarrow> reply \<times> kernel" where
  "open_call i path create k =
     (case map_of (paths k) path of
        Some f \<Rightarrow> open_file i f (if create then k\<lparr>inodes := (inodes k)[f := []]\<rparr> else k)
      | None \<Rightarrow> if create then open_file i (length (inodes k)) (k\<lparr>inodes := inodes k @ [[]], paths := (path, length (inodes k)) # paths k\<rparr>)
                else (Num (- ENOENT), k))"

definition close_call :: "nat \<Rightarrow> int \<Rightarrow> kernel \<Rightarrow> kernel" where
  "close_call i fd = upd i (\<lambda>p. if lookup_fd p fd = None then p else p\<lparr>fdt := (fdt p)[nat fd := None]\<rparr>)"

definition dup2_call :: "nat \<Rightarrow> int \<Rightarrow> int \<Rightarrow> kernel \<Rightarrow> kernel" where
  "dup2_call i fd fd2 = upd i (\<lambda>p. if lookup_fd p fd = None \<or> fd2 < 0 then p else p\<lparr>fdt := set_slot (nat fd2) (lookup_fd p fd) (fdt p)\<rparr>)"

definition nonblock_call :: "nat \<Rightarrow> int \<Rightarrow> kernel \<Rightarrow> kernel" where
  "nonblock_call i fd k = (case lookup_fd (procs k ! i) fd of None \<Rightarrow> k | Some x \<Rightarrow> k\<lparr>ofds := (ofds k)[x := (ofds k ! x)\<lparr>ononblock := True\<rparr>]\<rparr>)"

text \<open>A pipe with no bytes: the end of the file if nobody can write any more.\<close>

definition read_call :: "nat \<Rightarrow> int \<Rightarrow> int \<Rightarrow> kernel \<Rightarrow> (reply \<times> kernel) option" where
  "read_call i fd n k = (case lookup_fd (procs k ! i) fd of
       None \<Rightarrow> Some (Data (- EBADF) [], k)
     | Some x \<Rightarrow>
         (case okind (ofds k ! x) of
            PipeR q \<Rightarrow>
              (let bs = take (nat n) (pipes k ! q)
               in if bs \<noteq> [] then Some (Data (int (length bs)) bs, k\<lparr>pipes := (pipes k)[q := drop (nat n) (pipes k ! q)]\<rparr>)
                  else if \<not> refers k (PipeW q) then Some (Data 0 [], k)
                  else if ononblock (ofds k ! x) then Some (Data (- EAGAIN) [], k) else None)
          | Disk f \<Rightarrow>
              (let bs = take (nat n) (drop (opos (ofds k ! x)) (inodes k ! f))
               in Some (Data (int (length bs)) bs, k\<lparr>ofds := (ofds k)[x := (ofds k ! x)\<lparr>opos := opos (ofds k ! x) + length bs\<rparr>]\<rparr>))
          | _ \<Rightarrow> Some (Data (- EINVAL) [], k)))"

definition PIPE_SIZE :: int where "PIPE_SIZE = 65536"

definition write_call :: "config \<Rightarrow> nat \<Rightarrow> int \<Rightarrow> string \<Rightarrow> kernel \<Rightarrow> (reply \<times> kernel) option" where
  "write_call g i fd bs k = (case lookup_fd (procs k ! i) fd of
       None \<Rightarrow> Some (Num (- EBADF), k)
     | Some x \<Rightarrow>
         (case okind (ofds k ! x) of
            Tty \<Rightarrow> Some (Terminal (int (length bs)), k)
          | PipeW q \<Rightarrow>
              if \<not> refers k (PipeR q) then Some (Num (- EPIPE), raise_signal i SIGPIPE (pid_of g i) k)
              else if int (length (pipes k ! q)) + int (length bs) \<le> PIPE_SIZE then Some (Num (int (length bs)), k\<lparr>pipes := (pipes k)[q := pipes k ! q @ bs]\<rparr>)
              else None
          | Disk f \<Rightarrow>
              (let p = opos (ofds k ! x)
               in Some (Num (int (length bs)),
                    k\<lparr>inodes := (inodes k)[f := take p (inodes k ! f) @ bs @ drop (p + length bs) (inodes k ! f)],
                      ofds := (ofds k)[x := (ofds k ! x)\<lparr>opos := p + length bs\<rparr>]\<rparr>))
          | _ \<Rightarrow> Some (Num (- EBADF), k)))"

definition inbox :: "nat \<Rightarrow> bool \<Rightarrow> kernel \<Rightarrow> (string \<times> nat option) list" where
  "inbox q b k = (if b then snd (socks k ! q) else fst (socks k ! q))"

definition set_inbox :: "nat \<Rightarrow> bool \<Rightarrow> (string \<times> nat option) list \<Rightarrow> kernel \<Rightarrow> kernel" where
  "set_inbox q b ms k = k\<lparr>socks := (socks k)[q := (if b then (fst (socks k ! q), ms) else (ms, snd (socks k ! q)))]\<rparr>"

definition sock_of :: "nat \<Rightarrow> int \<Rightarrow> kernel \<Rightarrow> (nat \<times> bool) option" where
  "sock_of i fd k = (case lookup_fd (procs k ! i) fd of None \<Rightarrow> None | Some x \<Rightarrow> (case okind (ofds k ! x) of Sock q b \<Rightarrow> Some (q, b) | _ \<Rightarrow> None))"

definition send_call :: "nat \<Rightarrow> int \<Rightarrow> string \<Rightarrow> int option \<Rightarrow> kernel \<Rightarrow> reply \<times> kernel" where
  "send_call i fd bs attached k = (case sock_of i fd k of
       None \<Rightarrow> (Num (- ENOTSOCK), k)
     | Some (q, b) \<Rightarrow>
         if \<not> refers k (Sock q (\<not> b)) then (Num (- EPIPE), k)
         else (case attached of
                 None \<Rightarrow> (Num (int (length bs)), set_inbox q (\<not> b) (inbox q (\<not> b) k @ [(bs, None)]) k)
               | Some d \<Rightarrow>
                   (case lookup_fd (procs k ! i) d of
                      None \<Rightarrow> (Num (- EBADF), k)
                    | Some y \<Rightarrow> (Num (int (length bs)), set_inbox q (\<not> b) (inbox q (\<not> b) k @ [(bs, Some y)]) k))))"

definition recv_call :: "nat \<Rightarrow> int \<Rightarrow> kernel \<Rightarrow> (reply \<times> kernel) option" where
  "recv_call i fd k = (case sock_of i fd k of
       None \<Rightarrow> Some (Got (Failed ENOTSOCK), k)
     | Some (q, b) \<Rightarrow>
         (case inbox q b k of
            [] \<Rightarrow> if refers k (Sock q (\<not> b)) then None else Some (Got End_of_stream, k)
          | (bs, None) # ms \<Rightarrow> Some (Got (Message bs None), set_inbox q b ms k)
          | (bs, Some y) # ms \<Rightarrow>
              Some (Got (Message bs (Some (int (free_slot (fdt (procs k ! i)))))), upd i (add_fd y) (set_inbox q b ms k))))"

definition answer :: "config \<Rightarrow> nat \<Rightarrow> kernel \<Rightarrow> (reply \<times> kernel) option" where
  "answer g i k = (case code (here (procs k ! i)) of
     Quit n \<Rightarrow> Some (Done, terminate g i (n mod 256 * 256) k)
   | Return n \<Rightarrow> Some (Done, terminate g i (n mod 256 * 256) k)
   | Fault \<Rightarrow> Some (Done, upd i (\<lambda>p. p\<lparr>status := Broken\<rparr>) k)
   | Fork c \<Rightarrow> Some (fork_call g i k)
   | Waitpid pid nohang c \<Rightarrow> wait_call g i pid nohang k
   | Getpid c \<Rightarrow> Some (Num (pid_of g i), k)
   | Getppid c \<Rightarrow> Some (Num (ppid (procs k ! i)), k)
   | Pipe c \<Rightarrow> Some (add_pair i (PipeR (length (pipes k))) (PipeW (length (pipes k))) (k\<lparr>pipes := pipes k @ [[]]\<rparr>))
   | Socketpair c \<Rightarrow> Some (add_pair i (Sock (length (socks k)) False) (Sock (length (socks k)) True) (k\<lparr>socks := socks k @ [([], [])]\<rparr>))
   | Open path create c \<Rightarrow> Some (open_call i path create k)
   | Unlink path c \<Rightarrow> Some (Done, k\<lparr>paths := filter (\<lambda>x. fst x \<noteq> path) (paths k)\<rparr>)
   | Close fd c \<Rightarrow> Some (Done, close_call i fd k)
   | Dup2 fd fd2 c \<Rightarrow> Some (Done, dup2_call i fd fd2 k)
   | Nonblock fd c \<Rightarrow> Some (Done, nonblock_call i fd k)
   | Read fd n c \<Rightarrow> read_call i fd n k
   | Write fd bs c \<Rightarrow> write_call g i fd bs k
   | Sendmsg fd bs d c \<Rightarrow> Some (send_call i fd bs d k)
   | Recvmsg fd c \<Rightarrow> recv_call i fd k
   | Sigpending c \<Rightarrow> Some (Sigs (map fst (pending (procs k ! i))), k)
   | Kill pid sig c \<Rightarrow> Some (Done, signal_pid g pid sig (pid_of g i) k)
   | _ \<Rightarrow> Some (Done, k))"

text \<open>A turn: a signal that waits is taken first, otherwise the call is made.\<close>

definition advance :: "config \<Rightarrow> nat \<Rightarrow> reply \<Rightarrow> kernel \<Rightarrow> kernel" where
  "advance g i r = upd i (\<lambda>p. p\<lparr>here := resume g (here p) r, hist := r # hist p\<rparr>)"

definition take_signal :: "config \<Rightarrow> nat \<Rightarrow> signal \<times> int \<Rightarrow> kernel \<Rightarrow> kernel" where
  "take_signal g i s k =
     (let k1 = upd i (\<lambda>p. p\<lparr>pending := remove1 s (pending p)\<rparr>) k
      in if handlers (here (procs k ! i)) (fst s) = None \<and> fst s \<noteq> SIGCHLD then terminate g i (signo (fst s)) k1
         else advance g i (Taken (fst s) (snd s)) k1)"

definition turn :: "config \<Rightarrow> nat \<Rightarrow> kernel \<Rightarrow> kernel option" where
  "turn g i k =
     (if i < length (procs k) \<and> status (procs k ! i) = Running then
        (case deliverable (procs k ! i) of
           Some s \<Rightarrow> Some (take_signal g i s k)
         | None \<Rightarrow> map_option (\<lambda>(r, k'). advance g i r k') (answer g i k))
      else None)"

text \<open>A schedule is a list of the processes that take turns.\<close>

definition take_turn :: "config \<Rightarrow> nat \<Rightarrow> kernel \<Rightarrow> kernel" where
  "take_turn g i k = (case turn g i k of Some k' \<Rightarrow> k' | None \<Rightarrow> k)"

definition play :: "config \<Rightarrow> nat list \<Rightarrow> kernel \<Rightarrow> kernel" where
  "play g is k = fold (take_turn g) is k"

definition the_end :: "config \<Rightarrow> kernel \<Rightarrow> bool" where
  "the_end g k = list_all (\<lambda>i. turn g i k = None) [0..<length (procs k)]"

text \<open>The program starts with the terminal as standard input, output and error.\<close>

definition fresh :: "config \<Rightarrow> prog \<Rightarrow> local" where
  "fresh g c = at (tty g) c \<lparr>code = Fault, stack = [], env = (\<lambda>_. None), vars = (\<lambda>_. 0), handlers = (\<lambda>_. None), blocked = [], obuf = [], shown = []\<rparr>"

definition boot :: "config \<Rightarrow> prog \<Rightarrow> kernel" where
  "boot g c = \<lparr>procs = [\<lparr>here = fresh g c, hist = [], fdt = [Some 0, Some 0, Some 0], ppid = 0, status = Running, pending = []\<rparr>],
     ofds = [new_ofd Tty], pipes = [], socks = [], inodes = [], paths = []\<rparr>"

section \<open>What the programs share\<close>

definition WIFEXITED :: "int \<Rightarrow> bool" where "WIFEXITED st \<longleftrightarrow> st mod 128 = 0"

definition WEXITSTATUS :: "int \<Rightarrow> int" where "WEXITSTATUS st = st div 256 mod 256"

abbreviation say :: "string \<Rightarrow> prog \<Rightarrow> prog" where "say t c \<equiv> Print (t @ NL) c"

text \<open>Standard error has no buffer.\<close>

definition perror :: "(int \<Rightarrow> string) \<Rightarrow> string \<Rightarrow> int \<Rightarrow> prog \<Rightarrow> prog" where
  "perror strerror t e c = Write 2 (t @ '': '' @ strerror e @ NL) (\<lambda>_. c)"

text \<open>What follows a \<open>read\<close> into a buffer with this much room, which the program terminates at the index that was returned.\<close>

definition terminated :: "int \<Rightarrow> int \<Rightarrow> prog \<Rightarrow> prog" where
  "terminated room n c = (if n < 0 \<or> room \<le> n then Fault else c)"

text \<open>A signal handler returns to what it interrupted.\<close>

abbreviation handler_return :: prog where "handler_return \<equiv> Again"

end
