(* ===== verification/Schedules.thy ===== *)
theory Schedules
  imports Processes
begin

text \<open>
  All schedules of a program of processes. What a process is at is a function of the results of its calls, so two states of a run with the same results, descriptors and
  kernel objects are equal, and the states that a program can reach are found by search. \<open>always\<close> is that search; \<open>always_holds\<close> says that it misses no
  schedule, so that a property of all schedules is a computation.
\<close>

section \<open>A process is its history\<close>

definition replay :: "config \<Rightarrow> prog \<Rightarrow> reply list \<Rightarrow> local" where
  "replay g c h = foldr (\<lambda>r l. resume g l r) h (fresh g c)"

definition consistent :: "config \<Rightarrow> prog \<Rightarrow> kernel \<Rightarrow> bool" where
  "consistent g c k \<longleftrightarrow> (\<forall>p \<in> set (procs k). here p = replay g c (hist p))"

lemma replay_Cons: "replay g c (r # h) = resume g (replay g c h) r"
  by (simp add: replay_def)

lemma consistentD: "consistent g c k \<Longrightarrow> i < length (procs k) \<Longrightarrow> here (procs k ! i) = replay g c (hist (procs k ! i))"
  by (simp add: consistent_def)

text \<open>An update that leaves each process at its place, and one that moves a process on by a result.\<close>

lemma consistent_upd:
  "consistent g c k \<Longrightarrow> (\<And>p. here (f p) = here p) \<Longrightarrow> (\<And>p. hist (f p) = hist p) \<Longrightarrow> consistent g c (upd i f k)"
  unfolding consistent_def upd_def
  by (cases "i < length (procs k)") (auto simp: list_update_beyond dest!: set_update_subset_insert [THEN subsetD])

lemma consistent_advance:
  "consistent g c k \<Longrightarrow> consistent g c (advance g i r k)"
  unfolding consistent_def upd_def advance_def
  by (cases "i < length (procs k)") (auto simp: replay_Cons list_update_beyond dest!: set_update_subset_insert [THEN subsetD])

lemma consistent_objects [simp]:
  "consistent g c (k\<lparr>ofds := a\<rparr>) = consistent g c k" "consistent g c (k\<lparr>pipes := b\<rparr>) = consistent g c k"
  "consistent g c (k\<lparr>socks := s\<rparr>) = consistent g c k" "consistent g c (k\<lparr>inodes := f\<rparr>) = consistent g c k"
  "consistent g c (k\<lparr>paths := n\<rparr>) = consistent g c k"
  by (simp_all add: consistent_def)

lemma consistent_map:
  "consistent g c k \<Longrightarrow> (\<And>p. here (f p) = here p) \<Longrightarrow> (\<And>p. hist (f p) = hist p) \<Longrightarrow> consistent g c (k\<lparr>procs := map f (procs k)\<rparr>)"
  by (simp add: consistent_def)

lemma add_fd_place [simp]: "here (add_fd x p) = here p" "hist (add_fd x p) = hist p"
  by (simp_all add: add_fd_def)

lemma orphan_place [simp]: "here (orphan g me p) = here p" "hist (orphan g me p) = hist p"
  by (simp_all add: orphan_def)

lemma consistent_signal:
  "consistent g c k \<Longrightarrow> consistent g c (raise_signal i sig s k)"
  "consistent g c k \<Longrightarrow> consistent g c (signal_pid g pid sig s k)"
  by (auto simp: raise_signal_def signal_pid_def intro!: consistent_upd split: option.splits)

lemma consistent_terminate: "consistent g c k \<Longrightarrow> consistent g c (terminate g i st k)"
  unfolding terminate_def Let_def by (intro consistent_signal consistent_map consistent_upd) simp_all

lemma consistent_fork:
  assumes "consistent g c k" and "i < length (procs k)"
  shows "consistent g c (snd (fork_call g i k))"
  using assms consistentD [OF assms] by (auto simp: fork_call_def consistent_def replay_Cons Let_def)

lemma consistent_wait: "consistent g c k \<Longrightarrow> wait_call g i pid b k = Some (r, k') \<Longrightarrow> consistent g c k'"
  by (auto simp: wait_call_def Let_def intro!: consistent_upd split: if_splits option.splits)

lemma consistent_add_pair:
  assumes "consistent g c k" and "i < length (procs k)"
  shows "consistent g c (snd (add_pair i a b k))"
  using assms unfolding add_pair_def Let_def consistent_def upd_def
  by (auto dest!: set_update_subset_insert [THEN subsetD])

lemma consistent_open: "consistent g c k \<Longrightarrow> consistent g c (snd (open_call i path b k))"
  by (auto simp: open_call_def open_file_def intro!: consistent_upd split: option.splits)

lemma consistent_fd:
  "consistent g c k \<Longrightarrow> consistent g c (close_call i fd k)"
  "consistent g c k \<Longrightarrow> consistent g c (dup2_call i fd fd2 k)"
  "consistent g c k \<Longrightarrow> consistent g c (nonblock_call i fd k)"
  by (auto simp: close_call_def dup2_call_def nonblock_call_def intro!: consistent_upd split: option.splits)

lemma consistent_read: "consistent g c k \<Longrightarrow> read_call i fd n k = Some (r, k') \<Longrightarrow> consistent g c k'"
  by (auto simp: read_call_def Let_def split: option.splits okind.splits if_splits)

lemma consistent_write: "consistent g c k \<Longrightarrow> write_call g i fd bs k = Some (r, k') \<Longrightarrow> consistent g c k'"
  by (auto simp: write_call_def Let_def intro!: consistent_signal split: option.splits okind.splits if_splits)

lemma consistent_inbox [simp]: "consistent g c (set_inbox q b ms k) = consistent g c k"
  by (simp add: set_inbox_def)

lemma consistent_send: "consistent g c k \<Longrightarrow> consistent g c (snd (send_call i fd bs d k))"
  by (auto simp: send_call_def split: option.splits)

lemma consistent_recv: "consistent g c k \<Longrightarrow> recv_call i fd k = Some (r, k') \<Longrightarrow> consistent g c k'"
  by (auto simp: recv_call_def intro!: consistent_upd split: option.splits list.splits if_splits)

lemma consistent_answer:
  assumes "consistent g c k" and "i < length (procs k)" and "answer g i k = Some (r, k')"
  shows "consistent g c k'"
proof (cases "code (here (procs k ! i))")
  case (Fork x)
  then show ?thesis using assms consistent_fork [OF assms(1,2)] by (auto simp: answer_def dest: arg_cong [where f = snd])
next
  case (Pipe x)
  then show ?thesis using assms consistent_add_pair [of g c "k\<lparr>pipes := pipes k @ [[]]\<rparr>" i "PipeR (length (pipes k))" "PipeW (length (pipes k))"] by (auto simp: answer_def dest: arg_cong [where f = snd])
next
  case (Socketpair x)
  then show ?thesis using assms consistent_add_pair [of g c "k\<lparr>socks := socks k @ [([], [])]\<rparr>" i "Sock (length (socks k)) False" "Sock (length (socks k)) True"] by (auto simp: answer_def dest: arg_cong [where f = snd])
next
  case (Open path b x)
  then show ?thesis using assms consistent_open [OF assms(1), of i path b] by (auto simp: answer_def dest: arg_cong [where f = snd])
next
  case (Sendmsg fd bs d x)
  then show ?thesis using assms consistent_send [OF assms(1), of i fd bs d] by (auto simp: answer_def dest: arg_cong [where f = snd])
next
  case Fault
  then show ?thesis using assms by (auto simp: answer_def intro!: consistent_upd)
next
  case (Unlink path x)
  then show ?thesis using assms by (auto simp: answer_def)
qed (use assms in \<open>auto simp: answer_def intro: consistent_terminate consistent_wait consistent_fd consistent_read consistent_write consistent_recv consistent_signal\<close>)

lemma consistent_turn: "consistent g c k \<Longrightarrow> turn g i k = Some k' \<Longrightarrow> consistent g c k'"
  by (auto simp: turn_def take_signal_def Let_def intro!: consistent_advance consistent_terminate consistent_upd intro: consistent_answer split: if_splits option.splits)

lemma consistent_boot: "consistent g c (boot g c)"
  by (simp add: consistent_def boot_def replay_def)

section \<open>Search\<close>

definition key :: "process \<Rightarrow> reply list \<times> nat option list \<times> int \<times> pstatus \<times> (signal \<times> int) list" where
  "key p = (hist p, fdt p, ppid p, status p, pending p)"

type_synonym fingerprint = "(reply list \<times> nat option list \<times> int \<times> pstatus \<times> (signal \<times> int) list) list \<times> ofd list \<times> string list \<times>
  ((string \<times> nat option) list \<times> (string \<times> nat option) list) list \<times> string list \<times> (string \<times> nat) list"

definition fingerprint :: "kernel \<Rightarrow> fingerprint" where
  "fingerprint k = (map key (procs k), ofds k, pipes k, socks k, inodes k, paths k)"

abbreviation same :: "kernel \<Rightarrow> kernel \<Rightarrow> bool" where "same k k' \<equiv> fingerprint k = fingerprint k'"

lemma same_equal:
  assumes "same k k'" and "consistent g c k" and "consistent g c k'"
  shows "k = k'"
proof -
  have m: "map key (procs k) = map key (procs k')" using assms(1) by (simp add: fingerprint_def)
  then have l: "length (procs k) = length (procs k')" by (metis length_map)
  have "procs k = procs k'"
  proof (rule nth_equalityI [OF l])
    fix i assume i: "i < length (procs k)"
    have "key (procs k ! i) = key (procs k' ! i)" using m i l by (metis nth_map)
    moreover have "here (procs k ! i) = replay g c (hist (procs k ! i))" using consistentD [OF assms(2) i] .
    moreover have "here (procs k' ! i) = replay g c (hist (procs k' ! i))" using consistentD [OF assms(3)] i l by simp
    ultimately show "procs k ! i = procs k' ! i" by (simp add: key_def)
  qed
  then show ?thesis using assms(1) by (simp add: fingerprint_def)
qed

definition successors :: "config \<Rightarrow> kernel \<Rightarrow> kernel list" where
  "successors g k = List.map_filter (\<lambda>i. turn g i k) [0..<length (procs k)]"

fun uniq :: "('a \<times> 'b) list \<Rightarrow> ('a \<times> 'b) list" where
  "uniq [] = []"
| "uniq ((x, y) # zs) = (let r = uniq zs in if x \<in> set (map fst r) then r else (x, y) # r)"

definition dedup :: "kernel list \<Rightarrow> kernel list" where
  "dedup ks = map snd (uniq (map (\<lambda>k. (fingerprint k, k)) ks))"

text \<open>The states after 0, 1, 2, ... turns, until no process can take a turn, which must be after \<open>n\<close> turns at the latest. \<open>P\<close> is to hold in all of them, and \<open>Q\<close> in the
  last.\<close>

fun search :: "config \<Rightarrow> nat \<Rightarrow> (kernel \<Rightarrow> bool) \<Rightarrow> (kernel \<Rightarrow> bool) \<Rightarrow> kernel list \<Rightarrow> bool" where
  "search g n P Q [] = True"
| "search g 0 P Q (k # ks) = list_all (\<lambda>k. P k \<and> Q k \<and> successors g k = []) (k # ks)"
| "search g (Suc n) P Q (k # ks) =
     (let sss = map (successors g) (k # ks)
      in list_all P (k # ks) \<and> list_all (\<lambda>(k, ss). ss = [] \<longrightarrow> Q k) (zip (k # ks) sss) \<and> search g n P Q (dedup (concat sss)))"

definition always :: "config \<Rightarrow> nat \<Rightarrow> prog \<Rightarrow> (kernel \<Rightarrow> bool) \<Rightarrow> (kernel \<Rightarrow> bool) \<Rightarrow> bool" where
  "always g n c P Q = search g n P Q [boot g c]"

lemma successorsI:
  assumes "turn g i k = Some k'"
  shows "k' \<in> set (successors g k)"
proof -
  have "i < length (procs k)" using assms by (auto simp: turn_def split: if_splits)
  then show ?thesis using assms by (force simp: successors_def List.map_filter_def image_iff)
qed

lemma successor_consistent: "consistent g c k \<Longrightarrow> k' \<in> set (successors g k) \<Longrightarrow> consistent g c k'"
  by (auto simp: successors_def List.map_filter_def intro: consistent_turn)

lemma uniq_fst: "fst ` set (uniq zs) = fst ` set zs"
  by (induction zs rule: uniq.induct) (auto simp: Let_def image_iff)

lemma uniq_subset: "set (uniq zs) \<subseteq> set zs"
  by (induction zs rule: uniq.induct) (auto simp: Let_def)

lemma dedup_set:
  assumes "\<And>k. k \<in> set ks \<Longrightarrow> consistent g c k"
  shows "set (dedup ks) = set ks"
proof
  let ?zs = "map (\<lambda>k. (fingerprint k, k)) ks"
  show "set (dedup ks) \<subseteq> set ks" using uniq_subset [of ?zs] by (auto simp: dedup_def)
  show "set ks \<subseteq> set (dedup ks)"
  proof
    fix k assume k: "k \<in> set ks"
    then have "fingerprint k \<in> fst ` set (uniq ?zs)" unfolding uniq_fst by force
    then obtain z where z: "z \<in> set (uniq ?zs)" "fst z = fingerprint k" by auto
    then have "z \<in> set ?zs" using uniq_subset by blast
    then obtain d where d: "d \<in> set ks" "z = (fingerprint d, d)" by auto
    then have "d = k" using same_equal [of d k g c] z(2) assms k by simp
    then show "k \<in> set (dedup ks)" using z(1) d(2) by (force simp: dedup_def)
  qed
qed

section \<open>Soundness\<close>

text \<open>How many of the turns of a schedule are taken; the others fall to processes that cannot go on.\<close>

fun turns_taken :: "config \<Rightarrow> nat list \<Rightarrow> kernel \<Rightarrow> nat" where
  "turns_taken g [] k = 0"
| "turns_taken g (i # is) k = (if turn g i k = None then 0 else 1) + turns_taken g is (take_turn g i k)"

lemma play_Cons: "play g (i # is) k = play g is (take_turn g i k)" "play g [] k = k"
  by (simp_all add: play_def)

lemma the_end_turn: "the_end g k \<Longrightarrow> turn g i k = None"
  by (cases "i < length (procs k)") (auto simp: the_end_def list_all_iff turn_def)

lemma the_end_play: "the_end g k \<Longrightarrow> play g is k = k \<and> turns_taken g is k = 0"
  by (induction "is") (simp_all add: play_Cons take_turn_def the_end_turn)

lemma the_end_successors: "the_end g k \<longleftrightarrow> successors g k = []"
proof
  assume "successors g k = []"
  then have "turn g i k = None" for i using successorsI [of g i k] by (cases "turn g i k") auto
  then show "the_end g k" by (simp add: the_end_def list_all_iff)
next
  assume e: "the_end g k"
  show "successors g k = []"
    using the_end_turn [OF e] by (simp add: successors_def List.map_filter_def)
qed

text \<open>One layer: \<open>P\<close> holds, \<open>Q\<close> if it is the end, and what follows is in the next layer.\<close>

lemma search_layer:
  assumes "search g n P Q ks" and "k \<in> set ks"
  shows "P k" and "the_end g k \<Longrightarrow> Q k"
    and "turn g i k = Some k' \<Longrightarrow> \<exists>m. n = Suc m \<and> search g m P Q (dedup (concat (map (successors g) ks))) \<and> k' \<in> set (concat (map (successors g) ks))"
proof -
  obtain x xs where ks: "ks = x # xs" using assms(2) by (cases ks) auto
  have pq: "P k \<and> (successors g k = [] \<longrightarrow> Q k)"
  proof (cases n)
    case (Suc m)
    have "(k, successors g k) \<in> set (zip ks (map (successors g) ks))" using assms(2) by (auto simp: zip_map2 zip_same_conv_map)
    then show ?thesis using assms Suc ks by (auto simp: list_all_iff Let_def)
  qed (use assms ks in \<open>auto simp: list_all_iff\<close>)
  then show "P k" and "the_end g k \<Longrightarrow> Q k" by (simp_all add: the_end_successors)
  assume t: "turn g i k = Some k'"
  then have k': "k' \<in> set (successors g k)" by (rule successorsI)
  show "\<exists>m. n = Suc m \<and> search g m P Q (dedup (concat (map (successors g) ks))) \<and> k' \<in> set (concat (map (successors g) ks))"
  proof (cases n)
    case 0
    then show ?thesis using assms ks k' by (auto simp: list_all_iff)
  next
    case (Suc m)
    then show ?thesis using assms ks k' by (auto simp: Let_def)
  qed
qed

lemma search_sound:
  assumes "search g n P Q ks" and "\<And>k. k \<in> set ks \<Longrightarrow> consistent g c k" and "k \<in> set ks"
  shows "P (play g is k) \<and> (the_end g (play g is k) \<longrightarrow> Q (play g is k)) \<and> turns_taken g is k \<le> n"
  using assms
proof (induction "is" arbitrary: n ks k)
  case Nil
  then show ?case using search_layer(1,2) [OF Nil.prems(1,3)] by (simp add: play_Cons)
next
  case (Cons i "is")
  show ?case
  proof (cases "turn g i k")
    case None
    then show ?thesis using Cons.IH [OF Cons.prems] by (simp add: play_Cons take_turn_def)
  next
    case (Some k')
    let ?ks = "concat (map (successors g) ks)"
    obtain m where m: "n = Suc m" and s: "search g m P Q (dedup ?ks)" and k': "k' \<in> set ?ks"
      using search_layer(3) [OF Cons.prems(1,3) Some] by blast
    have c: "consistent g c k2" if "k2 \<in> set ?ks" for k2
      using that Cons.prems(2) successor_consistent [of g c] by auto
    have set: "set (dedup ?ks) = set ?ks" by (rule dedup_set [OF c])
    have "P (play g is k') \<and> (the_end g (play g is k') \<longrightarrow> Q (play g is k')) \<and> turns_taken g is k' \<le> m"
      using Cons.IH [OF s] c k' set by blast
    then show ?thesis using Some m by (simp add: play_Cons take_turn_def)
  qed
qed

theorem always_holds:
  assumes "always g n c P Q"
  shows "P (play g is (boot g c)) \<and> (the_end g (play g is (boot g c)) \<longrightarrow> Q (play g is (boot g c))) \<and> turns_taken g is (boot g c) \<le> n"
  using search_sound [OF assms [unfolded always_def], of c] consistent_boot [of g c] by simp

section \<open>What a program comes to\<close>

text \<open>Under every schedule: no undefined behaviour; at most \<open>n\<close> turns; and when no process can go on, the first has ended with status 0, the others have ended and were waited
  for, and this is what each has printed on the terminal.\<close>

definition nothing_broken :: "kernel \<Rightarrow> bool" where
  "nothing_broken k = list_all (\<lambda>p. status p \<noteq> Broken) (procs k)"

definition finished :: "string list list \<Rightarrow> kernel \<Rightarrow> bool" where
  "finished out k \<longleftrightarrow> map status (procs k) = Zombie 0 # replicate (length out - 1) Reaped \<and> map (\<lambda>p. shown (here p)) (procs k) = out"

definition every_schedule :: "config \<Rightarrow> nat \<Rightarrow> prog \<Rightarrow> (kernel \<Rightarrow> bool) \<Rightarrow> (kernel \<Rightarrow> bool) \<Rightarrow> bool" where
  "every_schedule g n c P Q \<longleftrightarrow>
     (\<forall>is. P (play g is (boot g c)) \<and> turns_taken g is (boot g c) \<le> n \<and> (the_end g (play g is (boot g c)) \<longrightarrow> Q (play g is (boot g c))))"

definition runs_to :: "config \<Rightarrow> nat \<Rightarrow> prog \<Rightarrow> string list list \<Rightarrow> bool" where
  "runs_to g n c out \<longleftrightarrow> every_schedule g n c nothing_broken (finished out)"

lemma every_scheduleI: "always g n c P Q \<Longrightarrow> every_schedule g n c P Q"
  using always_holds [of g n c P Q] by (simp add: every_schedule_def)

lemma runs_toI: "always g n c nothing_broken (finished out) \<Longrightarrow> runs_to g n c out"
  unfolding runs_to_def by (rule every_scheduleI)

text \<open>A schedule that gives turns to all gets there: as long as it is not the end, some process can take a turn.\<close>

lemma not_the_end: "\<not> the_end g k \<Longrightarrow> \<exists>i k'. turn g i k = Some k'"
  by (auto simp: the_end_def list_all_iff)

end
