(* ===== verification/FdPassing.thy ===== *)
theory FdPassing
  imports Schedules
begin

text \<open>
  Programs that pass descriptors between processes: fd_passing.c of NetworkProgramming/Handson/lab05_domain_sockets and \<open>demo_fd_passing\<close> of unix_socket_demo.c of
  SystemProgramming/Handson/lab09_ipc. A message of one byte carries the descriptor; \<open>recvmsg\<close> at the end of the stream gives no message at all.
\<close>

section \<open>fd\_passing\<close>

text \<open>The result, and the error if a call has set one.\<close>

definition send_fd :: "int \<Rightarrow> int \<Rightarrow> (int \<Rightarrow> int \<Rightarrow> prog) \<Rightarrow> prog" where
  "send_fd sockfd fd_to_send c = Sendmsg sockfd ''F'' (Some fd_to_send) (\<lambda>n. if n \<ge> 0 then c 0 0 else c (- 1) (- n))"

definition recv_fd :: "int \<Rightarrow> (int \<Rightarrow> int \<Rightarrow> prog) \<Rightarrow> prog" where
  "recv_fd sockfd c = Recvmsg sockfd (\<lambda>r. case r of
       Failed e \<Rightarrow> c (- 1) e
     | End_of_stream \<Rightarrow> c (- 1) 0
     | Message dummy None \<Rightarrow> c (- 1) 0
     | Message dummy (Some fd) \<Rightarrow> c fd 0)"

definition FD_PATH :: string where "FD_PATH = ''/tmp/fd_passing_test.txt''"

definition FD_CONTENT :: string where
  "FD_CONTENT = ''Hello from parent process!'' @ NL @ ''This file descriptor was passed via SCM_RIGHTS.'' @ NL"

definition fd_child :: "(int \<Rightarrow> string) \<Rightarrow> int \<Rightarrow> int \<Rightarrow> prog" where
  "fd_child strerror sv0 sv1 = Close sv0 (say ''[Child] Waiting to receive file descriptor...''
     (recv_fd sv1 (\<lambda>received_fd e.
        if received_fd < 0 then perror strerror ''[Child] recv_fd'' e (Close sv1 (Return 1))
        else say (''[Child] Received fd='' @ fmt_d received_fd @ '', reading content:'')
          (Loop (Read received_fd 255 (\<lambda>n buf. if n > 0 then terminated 256 n (Print (''  '' @ buf) Again) else Break))
            (say (NL @ ''[Child] Done.'') (Close received_fd (Close sv1 (Return 0))))))))"

definition fd_parent :: "(int \<Rightarrow> string) \<Rightarrow> int \<Rightarrow> int \<Rightarrow> prog" where
  "fd_parent strerror sv0 sv1 = Close sv1
     (Open FD_PATH True (\<lambda>file_fd.
        if file_fd < 0 then perror strerror ''open'' (- file_fd) (Close sv0 (Return 1))
        else Write file_fd FD_CONTENT (\<lambda>_. Close file_fd
          (Open FD_PATH False (\<lambda>file_fd.
             if file_fd < 0 then perror strerror ''open read'' (- file_fd) (Close sv0 (Return 1))
             else say (''[Parent] Sending fd='' @ fmt_d file_fd @ '' to child...'')
               (send_fd sv0 file_fd (\<lambda>r e.
                  (if r < 0 then perror strerror ''[Parent] send_fd'' e else say ''[Parent] File descriptor sent successfully.'')
                    (Close file_fd (Close sv0 (Waitpid (- 1) False (\<lambda>_ _. Unlink FD_PATH (Return 0))))))))))))"

definition fd_passing :: "(int \<Rightarrow> string) \<Rightarrow> prog" where
  "fd_passing strerror = Socketpair (\<lambda>r sv0 sv1.
     if r < 0 then perror strerror ''socketpair'' (- r) (Return 1)
     else Fork (\<lambda>pid.
       if pid < 0 then perror strerror ''fork'' (- pid) (Return 1)
       else if pid = 0 then fd_child strerror sv0 sv1
       else fd_parent strerror sv0 sv1))"

section \<open>unix\_socket\_demo\<close>

definition demo_fd_passing :: "(int \<Rightarrow> string) \<Rightarrow> prog \<Rightarrow> prog" where
  "demo_fd_passing strerror k = say (NL @ ''--- File Descriptor Passing (SCM_RIGHTS) ---'')
     (Socketpair (\<lambda>r sv0 sv1.
        if r < 0 then perror strerror ''socketpair'' (- r) k
        else Fork (\<lambda>pid.
          if pid = 0 then
            Close sv0 (Open ''/etc/hostname'' False (\<lambda>fd.
              if fd < 0 then perror strerror ''open'' (- fd) (Quit 1)
              else Sendmsg sv1 ''F'' (Some fd) (\<lambda>_. say (''  [Child]  Sent fd '' @ fmt_d fd @ '' to parent'') (Close fd (Close sv1 (Quit 0))))))
          else
            Close sv1 (Recvmsg sv0 (\<lambda>m. case m of
                Message _ (Some received_fd) \<Rightarrow>
                  say (''  [Parent] Received fd '' @ fmt_d received_fd)
                    (Read received_fd 255 (\<lambda>n content.
                       (if n > 0 then (\<lambda>c. terminated 256 n (say (''  [Parent] Read from received fd: '' @ in_quotes content) c)) else (\<lambda>c. c))
                         (Close received_fd (Close sv0 (Waitpid pid False (\<lambda>_ _. k))))))
              | _ \<Rightarrow> Fault)))))"

section \<open>Every schedule\<close>

definition plain :: config where
  "plain = \<lparr>images = (\<lambda>_. None), max_procs = 10, tty = True, first_pid = 2\<rparr>"

text \<open>The child reads the file through a descriptor that it has not opened, also after the parent has closed its own and after the name is gone.\<close>

lemma fd_passing_runs: "runs_to plain 30 (fd_passing strerror)
  [[''[Parent] Sending fd=4 to child...'' @ NL, ''[Parent] File descriptor sent successfully.'' @ NL],
   [''[Child] Waiting to receive file descriptor...'' @ NL, ''[Child] Received fd=3, reading content:'' @ NL, ''  '' @ FD_CONTENT, NL @ ''[Child] Done.'' @ NL]]"
  by (rule runs_toI) code_simp

definition with_hostname :: "string \<Rightarrow> prog \<Rightarrow> prog" where
  "with_hostname t c = Open ''/etc/hostname'' True (\<lambda>fd. Write fd t (\<lambda>_. Close fd c))"

lemma demo_fd_passing_runs: "runs_to plain 30 (with_hostname ''box'' (demo_fd_passing strerror (Quit 0)))
  [[NL @ ''--- File Descriptor Passing (SCM_RIGHTS) ---'' @ NL, ''  [Parent] Received fd 4'' @ NL, ''  [Parent] Read from received fd: '' @ in_quotes ''box'' @ NL],
   [''  [Child]  Sent fd 3 to parent'' @ NL]]"
  by (rule runs_toI) code_simp

text \<open>When the child cannot open the file, the parent reads a header that is not there.\<close>

lemma fd_passing_breaks:
  "map status (procs (play plain [0, 0, 1, 1, 1, 1, 0, 0, 0] (boot plain (demo_fd_passing strerror (Quit 0))))) = [Broken, Zombie 256]"
  by code_simp

end
