(* ===== verification/PosixFiles.thy ===== *)
theory PosixFiles
  imports Bytes
begin

text \<open>
  The file calls that the file labs use, as POSIX documents them: paths that name files, open files with an offset and access modes in a table of descriptors, and
  \<open>errno\<close>. A byte that a program writes without having initialised it is \<open>None\<close>. A file lives as long as a name or a descriptor refers to it. What a process may
  open is given by \<open>permits\<close>. Writes to a file are complete.
\<close>

section \<open>State\<close>

type_synonym contents = "char option list"

record open_file =
  ofile :: nat
  pos :: nat
  readable :: bool
  writable :: bool
  appends :: bool

record oflags =
  o_read :: bool
  o_write :: bool
  o_creat :: bool
  o_excl :: bool
  o_trunc :: bool
  o_append :: bool

record posix =
  names :: "string \<Rightarrow> nat option"
  files :: "nat \<Rightarrow> contents"
  next_file :: nat
  fds :: "nat \<Rightarrow> open_file option"
  permits :: "string \<Rightarrow> bool"
  errno :: int

definition O_RDONLY :: oflags where
  "O_RDONLY = \<lparr>o_read = True, o_write = False, o_creat = False, o_excl = False, o_trunc = False, o_append = False\<rparr>"

definition O_WRONLY :: oflags where
  "O_WRONLY = \<lparr>o_read = False, o_write = True, o_creat = False, o_excl = False, o_trunc = False, o_append = False\<rparr>"

definition O_RDWR :: oflags where
  "O_RDWR = \<lparr>o_read = True, o_write = True, o_creat = False, o_excl = False, o_trunc = False, o_append = False\<rparr>"

abbreviation (input) EBADF :: int where "EBADF \<equiv> 9"
abbreviation (input) EACCES :: int where "EACCES \<equiv> 13"
abbreviation (input) EMFILE :: int where "EMFILE \<equiv> 24"

section \<open>Calls\<close>

definition free_fd :: "posix \<Rightarrow> nat option" where
  "free_fd s = find (\<lambda>fd. fds s fd = None) [0..<1024]"

definition opened :: "nat \<Rightarrow> oflags \<Rightarrow> open_file" where
  "opened i fl = \<lparr>ofile = i, pos = 0, readable = o_read fl, writable = o_write fl, appends = o_append fl\<rparr>"

definition sys_open :: "string \<Rightarrow> oflags \<Rightarrow> posix \<Rightarrow> int \<times> posix" where
  "sys_open path fl s = (case free_fd s of
     None \<Rightarrow> (- 1, s\<lparr>errno := EMFILE\<rparr>)
   | Some fd \<Rightarrow>
       (case names s path of
          Some i \<Rightarrow>
            if \<not> permits s path then (- 1, s\<lparr>errno := EACCES\<rparr>)
            else if o_creat fl \<and> o_excl fl then (- 1, s\<lparr>errno := EEXIST\<rparr>)
            else (int fd, s\<lparr>files := (if o_trunc fl then (files s)(i := []) else files s), fds := (fds s)(fd := Some (opened i fl))\<rparr>)
        | None \<Rightarrow>
            if \<not> o_creat fl then (- 1, s\<lparr>errno := ENOENT\<rparr>)
            else if \<not> permits s path then (- 1, s\<lparr>errno := EACCES\<rparr>)
            else (int fd, s\<lparr>names := (names s)(path := Some (next_file s)), files := (files s)(next_file s := []), next_file := next_file s + 1,
                            fds := (fds s)(fd := Some (opened (next_file s) fl))\<rparr>)))"

text \<open>A file without a name, as \<open>O_TMPFILE\<close> gives it.\<close>

definition sys_open_anonymous :: "oflags \<Rightarrow> posix \<Rightarrow> int \<times> posix" where
  "sys_open_anonymous fl s = (case free_fd s of
     None \<Rightarrow> (- 1, s\<lparr>errno := EMFILE\<rparr>)
   | Some fd \<Rightarrow> (int fd, s\<lparr>files := (files s)(next_file s := []), next_file := next_file s + 1,
                          fds := (fds s)(fd := Some (opened (next_file s) fl))\<rparr>))"

definition fd_file :: "int \<Rightarrow> posix \<Rightarrow> open_file option" where
  "fd_file fd s = (if fd < 0 then None else fds s (nat fd))"

definition sys_read :: "int \<Rightarrow> nat \<Rightarrow> posix \<Rightarrow> int \<times> contents \<times> posix" where
  "sys_read fd n s = (case fd_file fd s of
     None \<Rightarrow> (- 1, [], s\<lparr>errno := EBADF\<rparr>)
   | Some f \<Rightarrow>
       if \<not> readable f then (- 1, [], s\<lparr>errno := EBADF\<rparr>)
       else (let bs = take n (drop (pos f) (files s (ofile f)))
             in (int (length bs), bs, s\<lparr>fds := (fds s)(nat fd := Some (f\<lparr>pos := pos f + length bs\<rparr>))\<rparr>)))"

text \<open>Writing behind the end leaves a gap of zeros.\<close>

definition write_at :: "nat \<Rightarrow> contents \<Rightarrow> contents \<Rightarrow> contents" where
  "write_at p bs d = take p (d @ replicate (p - length d) (Some NUL)) @ bs @ drop (p + length bs) d"

definition sys_write :: "int \<Rightarrow> contents \<Rightarrow> posix \<Rightarrow> int \<times> posix" where
  "sys_write fd bs s = (case fd_file fd s of
     None \<Rightarrow> (- 1, s\<lparr>errno := EBADF\<rparr>)
   | Some f \<Rightarrow>
       if \<not> writable f then (- 1, s\<lparr>errno := EBADF\<rparr>)
       else (let p = (if appends f then length (files s (ofile f)) else pos f)
             in (int (length bs), s\<lparr>files := (files s)(ofile f := write_at p bs (files s (ofile f))),
                                    fds := (fds s)(nat fd := Some (f\<lparr>pos := p + length bs\<rparr>))\<rparr>)))"

datatype whence = SEEK_SET | SEEK_CUR | SEEK_END

definition sys_lseek :: "int \<Rightarrow> int \<Rightarrow> whence \<Rightarrow> posix \<Rightarrow> int \<times> posix" where
  "sys_lseek fd off wh s = (case fd_file fd s of
     None \<Rightarrow> (- 1, s\<lparr>errno := EBADF\<rparr>)
   | Some f \<Rightarrow>
       (let p = off + (case wh of SEEK_SET \<Rightarrow> 0 | SEEK_CUR \<Rightarrow> int (pos f) | SEEK_END \<Rightarrow> int (length (files s (ofile f))))
        in if p < 0 then (- 1, s\<lparr>errno := EINVAL\<rparr>) else (p, s\<lparr>fds := (fds s)(nat fd := Some (f\<lparr>pos := nat p\<rparr>))\<rparr>)))"

definition sys_close :: "int \<Rightarrow> posix \<Rightarrow> posix" where
  "sys_close fd s = (if fd_file fd s = None then s\<lparr>errno := EBADF\<rparr> else s\<lparr>fds := (fds s)(nat fd := None)\<rparr>)"

definition sys_unlink :: "string \<Rightarrow> posix \<Rightarrow> posix" where
  "sys_unlink path s = (if names s path = None then s\<lparr>errno := ENOENT\<rparr> else s\<lparr>names := (names s)(path := None)\<rparr>)"

text \<open>A file exists while something refers to it.\<close>

definition exists_file :: "nat \<Rightarrow> posix \<Rightarrow> bool" where
  "exists_file i s \<longleftrightarrow> (\<exists>path. names s path = Some i) \<or> (\<exists>fd f. fds s fd = Some f \<and> ofile f = i)"

text \<open>The string that a buffer holds, up to its first NUL; a byte that was never initialised has no value to print.\<close>

fun buffer_text :: "contents \<Rightarrow> string option" where
  "buffer_text [] = None"
| "buffer_text (None # bs) = None"
| "buffer_text (Some c # bs) = (if c = NUL then Some [] else map_option (Cons c) (buffer_text bs))"

section \<open>Well-formed states\<close>

definition files_ok :: "posix \<Rightarrow> bool" where
  "files_ok s \<longleftrightarrow> (\<forall>path i. names s path = Some i \<longrightarrow> i < next_file s) \<and> (\<forall>fd f. fds s fd = Some f \<longrightarrow> ofile f < next_file s)"

lemma files_okD:
  "files_ok s \<Longrightarrow> names s path = Some i \<Longrightarrow> i < next_file s"
  "files_ok s \<Longrightarrow> fds s fd = Some f \<Longrightarrow> ofile f < next_file s"
  by (simp_all add: files_ok_def)

lemma free_fd_Some: "free_fd s = Some fd \<Longrightarrow> fds s fd = None"
  by (auto simp: free_fd_def find_Some_iff)

lemma sys_open_ok: "files_ok s \<Longrightarrow> files_ok (snd (sys_open path fl s))"
  by (auto simp: sys_open_def files_ok_def opened_def less_Suc_eq split: option.splits)

lemma sys_open_anonymous_ok: "files_ok s \<Longrightarrow> files_ok (snd (sys_open_anonymous fl s))"
  by (auto simp: sys_open_anonymous_def files_ok_def opened_def less_Suc_eq split: option.splits)

lemma files_ok_updates:
  "files_ok s \<Longrightarrow> files_ok (s\<lparr>errno := e\<rparr>)"
  "files_ok s \<Longrightarrow> files_ok (s\<lparr>fds := (fds s)(k := None)\<rparr>)"
  "files_ok s \<Longrightarrow> files_ok (s\<lparr>names := (names s)(path := None)\<rparr>)"
  "files_ok s \<Longrightarrow> fds s k = Some f \<Longrightarrow> ofile g = ofile f \<Longrightarrow> files_ok (s\<lparr>fds := (fds s)(k := Some g)\<rparr>)"
  "files_ok s \<Longrightarrow> fds s k = Some f \<Longrightarrow> ofile g = ofile f \<Longrightarrow> files_ok (s\<lparr>files := h, fds := (fds s)(k := Some g)\<rparr>)"
  by (auto simp: files_ok_def)

lemma fd_file_Some: "fd_file fd s = Some f \<Longrightarrow> 0 \<le> fd \<and> fds s (nat fd) = Some f"
  by (simp add: fd_file_def split: if_splits)

lemma sys_read_ok: "files_ok s \<Longrightarrow> files_ok (snd (snd (sys_read fd n s)))"
  using files_ok_updates(4) [of s "nat fd"]
  by (cases "fd_file fd s") (simp_all add: sys_read_def files_ok_updates(1) fd_file_Some Let_def)

lemma sys_write_ok: "files_ok s \<Longrightarrow> files_ok (snd (sys_write fd bs s))"
  using files_ok_updates(5) [of s "nat fd"]
  by (cases "fd_file fd s") (simp_all add: sys_write_def files_ok_updates(1) fd_file_Some Let_def)

lemma sys_lseek_ok: "files_ok s \<Longrightarrow> files_ok (snd (sys_lseek fd off wh s))"
  using files_ok_updates(4) [of s "nat fd"]
  by (cases "fd_file fd s") (simp_all add: sys_lseek_def files_ok_updates(1) fd_file_Some Let_def)

lemma sys_close_ok: "files_ok s \<Longrightarrow> files_ok (sys_close fd s)"
  by (simp add: sys_close_def files_ok_updates)

lemma sys_unlink_ok: "files_ok s \<Longrightarrow> files_ok (sys_unlink path s)"
  by (simp add: sys_unlink_def files_ok_updates)

section \<open>Laws\<close>

lemma length_write_at: "length (write_at p bs d) = max (length d) (p + length bs)"
  by (auto simp: write_at_def)

lemma write_at_end: "write_at (length d) bs d = d @ bs"
  by (simp add: write_at_def)

lemma write_at_empty: "write_at 0 bs [] = bs"
  by (simp add: write_at_def)

lemma read_back_at: "take (length bs) (drop p (write_at p bs d)) = bs"
  by (simp add: write_at_def)

lemma write_at_before: "q + n \<le> p \<Longrightarrow> q + n \<le> length d \<Longrightarrow> take n (drop q (write_at p bs d)) = take n (drop q d)"
  by (simp add: write_at_def take_drop min_def)

lemma write_at_behind:
  assumes "p + length bs \<le> q" and "q \<le> length d"
  shows "take n (drop q (write_at p bs d)) = take n (drop q d)"
proof -
  have "length (take p (d @ replicate (p - length d) (Some NUL)) @ bs) = p + length bs" using assms by simp
  then have "drop q (write_at p bs d) = drop q d"
    using assms by (simp add: write_at_def)
  then show ?thesis by simp
qed

lemma buffer_text_app: "NUL \<notin> set s \<Longrightarrow> buffer_text (map Some (s @ [NUL]) @ rest) = Some s"
  by (induction s) auto

lemma buffer_text_terminated: "NUL \<notin> set s \<Longrightarrow> buffer_text (map Some s @ [Some NUL]) = Some s"
  using buffer_text_app [of s "[]"] by simp

text \<open>What is written can be read back through another descriptor as soon as it is there.\<close>

theorem write_then_read:
  assumes "fd_file fd s = Some f" and "writable f" and "\<not> appends f" and "fd_file rd s = Some g" and "readable g"
    and "ofile g = ofile f" and "fd \<noteq> rd" and "pos g = pos f"
  shows "fst (snd (sys_read rd (length bs) (snd (sys_write fd bs s)))) = bs"
  using assms read_back_at [of bs "pos f" "files s (ofile f)"]
  by (auto simp: sys_read_def sys_write_def fd_file_def Let_def split: if_splits)

text \<open>Opening a file for writing from the start, whether or not it exists.\<close>

lemma open_truncated:
  assumes "free_fd s = Some k" and "permits s path" and "o_creat fl" and "o_trunc fl" and "\<not> o_excl fl"
  obtains i where "sys_open path fl s =
      (int k, s\<lparr>names := (names s)(path := Some i), files := (files s)(i := []),
                 next_file := (case names s path of None \<Rightarrow> next_file s + 1 | Some _ \<Rightarrow> next_file s), fds := (fds s)(k := Some (opened i fl))\<rparr>)"
    and "i = (case names s path of None \<Rightarrow> next_file s | Some j \<Rightarrow> j)"
proof (cases "names s path")
  case None
  show thesis by (rule that [of "next_file s"]) (use None assms in \<open>simp_all add: sys_open_def\<close>)
next
  case (Some j)
  then have n: "(names s)(path := Some j) = names s" by (simp add: fun_upd_idem)
  show thesis by (rule that [of j]) (use Some assms n in \<open>simp_all add: sys_open_def\<close>)
qed

text \<open>Opening a file that exists, without truncating it.\<close>

lemma open_existing:
  "free_fd s = Some k \<Longrightarrow> permits s path \<Longrightarrow> names s path = Some i \<Longrightarrow> \<not> o_creat fl \<Longrightarrow> \<not> o_trunc fl \<Longrightarrow>
     sys_open path fl s = (int k, s\<lparr>fds := (fds s)(k := Some (opened i fl))\<rparr>)"
  by (simp add: sys_open_def)

lemma free_fd_cong: "fds s = fds t \<Longrightarrow> free_fd s = free_fd t"
  by (simp add: free_fd_def)

lemma fd_file_nat [simp]: "fd_file (int k) s = fds s k"
  by (simp add: fd_file_def)

text \<open>The calls on an open descriptor.\<close>

lemma write_open:
  "fds s k = Some f \<Longrightarrow> writable f \<Longrightarrow> \<not> appends f \<Longrightarrow>
     sys_write (int k) bs s = (int (length bs), s\<lparr>files := (files s)(ofile f := write_at (pos f) bs (files s (ofile f))),
        fds := (fds s)(k := Some (f\<lparr>pos := pos f + length bs\<rparr>))\<rparr>)"
  "fds s k = Some f \<Longrightarrow> writable f \<Longrightarrow> appends f \<Longrightarrow>
     sys_write (int k) bs s = (int (length bs), s\<lparr>files := (files s)(ofile f := files s (ofile f) @ bs),
        fds := (fds s)(k := Some (f\<lparr>pos := length (files s (ofile f)) + length bs\<rparr>))\<rparr>)"
  by (simp_all add: sys_write_def write_at_end Let_def)

lemma read_open:
  "fds s k = Some f \<Longrightarrow> readable f \<Longrightarrow>
     sys_read (int k) n s =
       (int (length (take n (drop (pos f) (files s (ofile f))))), take n (drop (pos f) (files s (ofile f))),
        s\<lparr>fds := (fds s)(k := Some (f\<lparr>pos := pos f + length (take n (drop (pos f) (files s (ofile f))))\<rparr>))\<rparr>)"
  by (simp add: sys_read_def Let_def)

lemma lseek_open:
  "fds s k = Some f \<Longrightarrow> 0 \<le> off \<Longrightarrow> sys_lseek (int k) off SEEK_SET s = (off, s\<lparr>fds := (fds s)(k := Some (f\<lparr>pos := nat off\<rparr>))\<rparr>)"
  "fds s k = Some f \<Longrightarrow> sys_lseek (int k) 0 SEEK_CUR s = (int (pos f), s\<lparr>fds := (fds s)(k := Some f)\<rparr>)"
  "fds s k = Some f \<Longrightarrow> sys_lseek (int k) 0 SEEK_END s =
     (int (length (files s (ofile f))), s\<lparr>fds := (fds s)(k := Some (f\<lparr>pos := length (files s (ofile f))\<rparr>))\<rparr>)"
  by (simp_all add: sys_lseek_def Let_def)

lemma close_open: "fds s k = Some f \<Longrightarrow> sys_close (int k) s = s\<lparr>fds := (fds s)(k := None)\<rparr>"
  by (simp add: sys_close_def)

lemma opened_fields [simp]:
  "ofile (opened i fl) = i" "pos (opened i fl) = 0" "readable (opened i fl) = o_read fl" "writable (opened i fl) = o_write fl"
  "appends (opened i fl) = o_append fl"
  by (simp_all add: opened_def)

lemma flag_fields [simp]:
  "o_read O_RDONLY" "\<not> o_write O_RDONLY" "\<not> o_creat O_RDONLY" "\<not> o_excl O_RDONLY" "\<not> o_trunc O_RDONLY" "\<not> o_append O_RDONLY"
  "\<not> o_read O_WRONLY" "o_write O_WRONLY" "\<not> o_creat O_WRONLY" "\<not> o_excl O_WRONLY" "\<not> o_trunc O_WRONLY" "\<not> o_append O_WRONLY"
  "o_read O_RDWR" "o_write O_RDWR" "\<not> o_creat O_RDWR" "\<not> o_excl O_RDWR" "\<not> o_trunc O_RDWR" "\<not> o_append O_RDWR"
  by (simp_all add: O_RDONLY_def O_WRONLY_def O_RDWR_def)

lemmas open_calls = write_open read_open lseek_open close_open

end
