(* ===== verification/FileDemos.thy ===== *)
theory FileDemos
  imports PosixFiles
begin

text \<open>
  Programs that use the file calls: file_ops.c of SystemProgramming/Handson/lab06_file_operations, tempfile_demo.c of lab15_tempfiles and error_handling_demo.c of
  lab04_error_handling. A function returns what it prints and the state, or \<open>None\<close> where it leaves its buffer: the terminating NUL is written at the
  index that \<open>read\<close> returned. \<open>strerror\<close>, what \<open>fstat\<close> reports and whether a lock is granted are arguments.
\<close>

section \<open>file_ops\<close>

definition TEST_FILE :: string where "TEST_FILE = ''/tmp/file_ops_test.dat''"

type_synonym demo = "(string list \<times> posix) option"

definition create_flags :: "oflags \<Rightarrow> oflags" where
  "create_flags fl = fl\<lparr>o_creat := True, o_trunc := True\<rparr>"

definition HELLO :: string where "HELLO = ''Hello from low-level I/O!'' @ NL"

definition demo_basic_io :: "(int \<Rightarrow> string) \<Rightarrow> posix \<Rightarrow> demo" where
  "demo_basic_io strerror s =
     (let out1 = [''--- Demo 1: Basic I/O ---'' @ NL];
          (fd, s1) = sys_open TEST_FILE (create_flags O_WRONLY) s
      in if fd < 0 then Some (out1 @ [''open: '' @ strerror (errno s1) @ NL], s1)
         else
           (let msg = HELLO;
                (written, s2) = sys_write fd (map Some msg) s1;
                out2 = out1 @ [''  Written: '' @ fmt_d written @ '' bytes'' @ NL];
                (fd2, s4) = sys_open TEST_FILE O_RDONLY (sys_close fd s2)
            in if fd2 < 0 then Some (out2 @ [''open: '' @ strerror (errno s4) @ NL], s4)
               else
                 (let (nread, bytes, s5) = sys_read fd2 255 s4
                  in if nread < 0 then None
                     else map_option (\<lambda>t. (out2 @ [''  Read:    '' @ fmt_d nread @ '' bytes => '' @ in_quotes t @ NL], sys_close fd2 s5))
                            (buffer_text (bytes @ [Some NUL])))))"

text \<open>A record of 32 bytes, of which \<open>snprintf\<close> initialises the text and its NUL.\<close>

definition record_bytes :: "nat \<Rightarrow> contents" where
  "record_bytes i = (let t = take 31 (''Record-'' @ fmt_d (int i)) @ [NUL] in map Some t @ replicate (32 - length t) None)"

fun write_records :: "int \<Rightarrow> nat \<Rightarrow> nat \<Rightarrow> posix \<Rightarrow> posix" where
  "write_records fd i 0 s = s"
| "write_records fd i (Suc k) s =
     write_records fd (i + 1) k (snd (sys_write fd (record_bytes i) (snd (sys_lseek fd (int i * 32) SEEK_SET s))))"

definition demo_seek :: "(int \<Rightarrow> string) \<Rightarrow> posix \<Rightarrow> demo" where
  "demo_seek strerror s =
     (let out1 = [NL @ ''--- Demo 2: lseek Random Access ---'' @ NL];
          (fd, s1) = sys_open TEST_FILE (create_flags O_RDWR) s
      in if fd < 0 then Some (out1 @ [''open: '' @ strerror (errno s1) @ NL], s1)
         else
           (let s2 = write_records fd 0 5 s1;
                s3 = snd (sys_lseek fd (3 * 32) SEEK_SET s2);
                (n, bytes, s4) = sys_read fd 32 s3;
                (posn, s5) = sys_lseek fd 0 SEEK_CUR s4;
                (sz, s6) = sys_lseek fd 0 SEEK_END s5
            in map_option (\<lambda>t. (out1 @ [''  Record at offset 96: '' @ in_quotes t @ NL, ''  Current position: '' @ fmt_d posn @ NL,
                   ''  File size:        '' @ fmt_d sz @ '' bytes'' @ NL], sys_close fd s6))
                 (buffer_text bytes)))"

text \<open>\<open>stat_lines\<close> are the lines printed of a file, or \<open>None\<close> if \<open>fstat\<close> fails.\<close>

definition demo_fstat :: "(int \<Rightarrow> string) \<Rightarrow> (contents \<Rightarrow> string list option) \<Rightarrow> posix \<Rightarrow> demo" where
  "demo_fstat strerror stat_lines s =
     (let out1 = [NL @ ''--- Demo 3: fstat Metadata ---'' @ NL];
          (fd, s1) = sys_open TEST_FILE O_RDONLY s
      in if fd < 0 then Some (out1 @ [''open: '' @ strerror (errno s1) @ NL], s1)
         else
           (case Option.bind (fd_file fd s1) (\<lambda>f. stat_lines (files s1 (ofile f))) of
              None \<Rightarrow> Some (out1 @ [''fstat: '' @ strerror (errno s1) @ NL], sys_close fd s1)
            | Some ls \<Rightarrow> Some (out1 @ ls, sys_close fd s1)))"

definition append_line :: "string \<Rightarrow> contents" where "append_line t = map Some (t @ NL)"

definition demo_append :: "posix \<Rightarrow> demo" where
  "demo_append s =
     (let out1 = [NL @ ''--- Demo 4: O_APPEND ---'' @ NL];
          (fd, s1) = sys_open TEST_FILE (create_flags O_WRONLY) s;
          s2 = sys_close fd (snd (sys_write fd (append_line ''Line 1'') s1));
          (fd2, s3) = sys_open TEST_FILE (O_WRONLY\<lparr>o_append := True\<rparr>) s2;
          s4 = snd (sys_write fd2 (append_line ''Line 2 (appended)'') s3);
          s5 = snd (sys_write fd2 (append_line ''Line 3 (appended)'') s4);
          (fd3, s6) = sys_open TEST_FILE O_RDONLY (sys_close fd2 s5);
          (n, bytes, s7) = sys_read fd3 255 s6
      in if n < 0 then None
         else map_option (\<lambda>t. (out1 @ [''  File contents:'' @ NL @ t], sys_close fd3 s7)) (buffer_text (bytes @ [Some NUL])))"

text \<open>\<open>denied\<close> is the error if the lock is not granted, \<open>holder\<close> the process that holds a conflicting one.\<close>

definition demo_locking :: "(int \<Rightarrow> string) \<Rightarrow> int option \<Rightarrow> int option \<Rightarrow> posix \<Rightarrow> demo" where
  "demo_locking strerror denied holder s =
     (let out1 = [NL @ ''--- Demo 5: fcntl File Locking ---'' @ NL];
          (fd, s1) = sys_open TEST_FILE O_RDWR s
      in if fd < 0 then Some (out1 @ [''open: '' @ strerror (errno s1) @ NL], s1)
         else Some (out1 @
           [case denied of None \<Rightarrow> ''  Write lock acquired on bytes 0-99'' @ NL | Some e \<Rightarrow> ''  Cannot lock file: '' @ strerror e @ NL,
            case holder of None \<Rightarrow> ''  No conflicting lock found'' @ NL | Some p \<Rightarrow> ''  Lock held by PID '' @ fmt_d p @ NL,
            ''  Lock released'' @ NL], sys_close fd s1))"

definition and_then :: "demo \<Rightarrow> (posix \<Rightarrow> demo) \<Rightarrow> demo" where
  "and_then d f = Option.bind d (\<lambda>(out, s). map_option (\<lambda>(out2, s2). (out @ out2, s2)) (f s))"

definition file_ops :: "(int \<Rightarrow> string) \<Rightarrow> (contents \<Rightarrow> string list option) \<Rightarrow> int option \<Rightarrow> int option \<Rightarrow> posix \<Rightarrow> demo" where
  "file_ops strerror stat_lines denied holder s =
     and_then (and_then (and_then (and_then (and_then (and_then (Some ([''=== POSIX File Operations Demo ==='' @ NL @ NL], s))
       (demo_basic_io strerror)) (demo_seek strerror)) (demo_fstat strerror stat_lines)) demo_append) (demo_locking strerror denied holder))
       (\<lambda>s. Some ([NL @ ''=== Demo Complete ==='' @ NL], sys_unlink TEST_FILE s))"

section \<open>Lemmas\<close>

text \<open>What a function of the program leaves: the test file with these contents, and everything else as it was.\<close>

definition leaves_file :: "contents \<Rightarrow> posix \<Rightarrow> posix \<Rightarrow> bool" where
  "leaves_file d s s' \<longleftrightarrow> fds s' = fds s \<and> permits s' = permits s \<and>
     (\<exists>i. names s' = (names s)(TEST_FILE := Some i) \<and> files s' = (files s)(i := d))"

lemma create_flags_fields [simp]:
  "o_creat (create_flags fl)" "o_trunc (create_flags fl)" "o_excl (create_flags fl) = o_excl fl" "o_read (create_flags fl) = o_read fl"
  "o_write (create_flags fl) = o_write fl" "o_append (create_flags fl) = o_append fl"
  by (simp_all add: create_flags_def)

lemma HELLO_facts [simp]: "length HELLO = 26" "NUL \<notin> set HELLO"
  by (simp_all add: HELLO_def NL_def)

text \<open>The state in which the test file was just created or truncated.\<close>

abbreviation "with_file s i d nf \<equiv> s\<lparr>names := (names s)(TEST_FILE := Some i), files := (files s)(i := d), next_file := nf\<rparr>"

lemma with_file_leaves: "leaves_file d s (with_file s i d nf)"
  by (auto simp: leaves_file_def)

lemma create_test_file:
  assumes "free_fd s = Some k" and "permits s TEST_FILE" and "\<not> o_excl fl"
  obtains i nf where "sys_open TEST_FILE (create_flags fl) s = (int k, (with_file s i [] nf)\<lparr>fds := (fds s)(k := Some (opened i (create_flags fl)))\<rparr>)"
  by (rule open_truncated [OF assms(1,2), of "create_flags fl"]) (use assms(3) that in auto)

lemma close_restores: "free_fd s = Some k \<Longrightarrow> (fds s)(k := None) = fds s"
  using free_fd_Some [of s k] by auto

lemma reopen_test_file:
  assumes "free_fd s = Some k" and "permits s TEST_FILE" and "\<not> o_creat fl" and "\<not> o_trunc fl"
  shows "sys_open TEST_FILE fl (with_file s i d nf) = (int k, (with_file s i d nf)\<lparr>fds := (fds s)(k := Some (opened i fl))\<rparr>)"
proof -
  have "free_fd (with_file s i d nf) = Some k" using assms(1) free_fd_cong [of "with_file s i d nf" s] by simp
  from open_existing [OF this, of TEST_FILE i fl] show ?thesis using assms(2-4) by simp
qed

lemma close_test_file:
  "free_fd s = Some k \<Longrightarrow> sys_close (int k) ((with_file s i d nf)\<lparr>fds := (fds s)(k := Some f)\<rparr>) = with_file s i d nf"
  by (simp add: close_open close_restores)

lemma demo_basic_io_run:
  assumes "free_fd s = Some k" and "permits s TEST_FILE"
  shows "\<exists>s'. demo_basic_io strerror s = Some
      ([''--- Demo 1: Basic I/O ---'' @ NL, ''  Written: 26 bytes'' @ NL, ''  Read:    26 bytes => '' @ in_quotes HELLO @ NL], s') \<and>
    leaves_file (map Some HELLO) s s'"
proof -
  obtain i nf where o: "sys_open TEST_FILE (create_flags O_WRONLY) s =
      (int k, (with_file s i [] nf)\<lparr>fds := (fds s)(k := Some (opened i (create_flags O_WRONLY)))\<rparr>)"
    by (rule create_test_file [OF assms, of O_WRONLY]) simp_all
  let ?s3 = "with_file s i (map Some HELLO) nf"
  have w: "sys_write (int k) (map Some HELLO) ((with_file s i [] nf)\<lparr>fds := (fds s)(k := Some (opened i (create_flags O_WRONLY)))\<rparr>) =
      (26, ?s3\<lparr>fds := (fds s)(k := Some ((opened i (create_flags O_WRONLY))\<lparr>pos := 26\<rparr>))\<rparr>)"
    by (simp add: open_calls write_at_empty)
  have o2: "sys_open TEST_FILE O_RDONLY ?s3 = (int k, ?s3\<lparr>fds := (fds s)(k := Some (opened i O_RDONLY))\<rparr>)"
    by (rule reopen_test_file [OF assms]) simp_all
  have r: "sys_read (int k) 255 (?s3\<lparr>fds := (fds s)(k := Some (opened i O_RDONLY))\<rparr>) =
      (26, map Some HELLO, ?s3\<lparr>fds := (fds s)(k := Some ((opened i O_RDONLY)\<lparr>pos := 26\<rparr>))\<rparr>)"
    by (simp add: open_calls)
  have t: "buffer_text (map Some HELLO @ [Some NUL]) = Some HELLO" by (simp add: buffer_text_terminated)
  have "demo_basic_io strerror s = Some
      ([''--- Demo 1: Basic I/O ---'' @ NL, ''  Written: '' @ fmt_d 26 @ '' bytes'' @ NL, ''  Read:    '' @ fmt_d 26 @ '' bytes => '' @ in_quotes HELLO @ NL], ?s3)"
    unfolding demo_basic_io_def Let_def by (simp add: o w o2 r t close_test_file [OF assms(1)])
  moreover have "fmt_d 26 = ''26''" by (simp add: fmt_d_def dec.simps digit_def)
  ultimately show ?thesis using with_file_leaves by auto
qed

text \<open>The records of \<open>demo_seek\<close>.\<close>

lemma length_record [simp]: "length (record_bytes i) = 32"
  by (simp add: record_bytes_def Let_def)

definition records :: "nat \<Rightarrow> contents" where
  "records n = concat (map record_bytes [0..<n])"

lemma records_Suc: "records (Suc n) = records n @ record_bytes n"
  by (simp add: records_def)

lemma length_records [simp]: "length (records n) = n * 32"
  by (induction n) (simp_all add: records_Suc, simp add: records_def)

lemma records_at: "j < n \<Longrightarrow> take 32 (drop (j * 32) (records n)) = record_bytes j"
proof (induction n)
  case (Suc n)
  then show ?case by (cases "j = n") (auto simp: records_Suc less_Suc_eq)
qed simp

lemma write_records_run:
  assumes "writable f" and "\<not> appends f" and "ofile f = i"
  shows "\<exists>p. write_records (int k) j n ((with_file s i (records j) nf)\<lparr>fds := (fds s)(k := Some f)\<rparr>) =
    (with_file s i (records (j + n)) nf)\<lparr>fds := (fds s)(k := Some (f\<lparr>pos := p\<rparr>))\<rparr>"
  using assms
proof (induction n arbitrary: j f)
  case 0
  have "f\<lparr>pos := pos f\<rparr> = f" by simp
  then show ?case by (intro exI [of _ "pos f"]) (simp only: write_records.simps add_0_right)
next
  case (Suc n)
  let ?f1 = "f\<lparr>pos := j * 32\<rparr>" and ?f2 = "f\<lparr>pos := j * 32 + 32\<rparr>"
  have l: "sys_lseek (int k) (int j * 32) SEEK_SET ((with_file s i (records j) nf)\<lparr>fds := (fds s)(k := Some f)\<rparr>) =
      (int j * 32, (with_file s i (records j) nf)\<lparr>fds := (fds s)(k := Some ?f1)\<rparr>)"
    by (simp add: open_calls nat_mult_distrib)
  have e: "write_at (j * 32) (record_bytes j) (records j) = records (Suc j)"
    using write_at_end [of "records j" "record_bytes j"] by (simp add: records_Suc)
  have w: "sys_write (int k) (record_bytes j) ((with_file s i (records j) nf)\<lparr>fds := (fds s)(k := Some ?f1)\<rparr>) =
      (32, (with_file s i (records (Suc j)) nf)\<lparr>fds := (fds s)(k := Some ?f2)\<rparr>)"
    using Suc.prems by (simp add: open_calls e)
  have g: "writable ?f2" "\<not> appends ?f2" "ofile ?f2 = i" using Suc.prems by simp_all
  obtain p where r: "write_records (int k) (Suc j) n ((with_file s i (records (Suc j)) nf)\<lparr>fds := (fds s)(k := Some ?f2)\<rparr>) =
      (with_file s i (records (Suc j + n)) nf)\<lparr>fds := (fds s)(k := Some (?f2\<lparr>pos := p\<rparr>))\<rparr>"
    using Suc.IH [OF g, of "Suc j"] by blast
  have q: "f\<lparr>pos := j * 32 + 32, pos := p\<rparr> = f\<lparr>pos := p\<rparr>" by simp
  show ?case
    by (intro exI [of _ p]) (simp only: write_records.simps(2) l w snd_conv Suc_eq_plus1 [symmetric] add_Suc_right add_Suc r q)
qed

lemma record_text: "buffer_text (record_bytes 3) = Some ''Record-3''"
proof -
  have "record_bytes 3 = map Some (''Record-3'' @ [NUL]) @ replicate 23 None"
    by (simp add: record_bytes_def fmt_d_def dec.simps digit_def)
  then show ?thesis using buffer_text_app [of "''Record-3''" "replicate 23 None"] by simp
qed

lemma demo_seek_run:
  assumes "free_fd s = Some k" and "permits s TEST_FILE"
  shows "\<exists>s'. demo_seek strerror s = Some
      ([NL @ ''--- Demo 2: lseek Random Access ---'' @ NL, ''  Record at offset 96: '' @ in_quotes ''Record-3'' @ NL,
        ''  Current position: 128'' @ NL, ''  File size:        160 bytes'' @ NL], s') \<and>
    leaves_file (records 5) s s'"
proof -
  let ?fl = "create_flags O_RDWR"
  obtain i nf where o: "sys_open TEST_FILE ?fl s = (int k, (with_file s i [] nf)\<lparr>fds := (fds s)(k := Some (opened i ?fl))\<rparr>)"
    by (rule create_test_file [OF assms, of O_RDWR]) simp_all
  have z: "records 0 = []" by (simp add: records_def)
  obtain p where w: "write_records (int k) 0 5 ((with_file s i [] nf)\<lparr>fds := (fds s)(k := Some (opened i ?fl))\<rparr>) =
      (with_file s i (records 5) nf)\<lparr>fds := (fds s)(k := Some ((opened i ?fl)\<lparr>pos := p\<rparr>))\<rparr>"
    using write_records_run [of "opened i ?fl" i k 0 5 s nf] z by auto
  let ?st = "\<lambda>q. (with_file s i (records 5) nf)\<lparr>fds := (fds s)(k := Some ((opened i ?fl)\<lparr>pos := q\<rparr>))\<rparr>"
  have l: "sys_lseek (int k) 96 SEEK_SET (?st p) = (96, ?st 96)" by (simp add: open_calls)
  have r: "sys_read (int k) 32 (?st 96) = (32, record_bytes 3, ?st 128)"
    using records_at [of 3 5] by (simp add: open_calls)
  have c: "sys_lseek (int k) 0 SEEK_CUR (?st 128) = (128, ?st 128)" "sys_lseek (int k) 0 SEEK_END (?st 128) = (160, ?st 160)"
    by (simp_all add: open_calls)
  have f: "fmt_d 128 = ''128''" "fmt_d 160 = ''160''" by (simp_all add: fmt_d_def dec.simps digit_def)
  have "demo_seek strerror s = Some
      ([NL @ ''--- Demo 2: lseek Random Access ---'' @ NL, ''  Record at offset 96: '' @ in_quotes ''Record-3'' @ NL,
        ''  Current position: 128'' @ NL, ''  File size:        160 bytes'' @ NL], with_file s i (records 5) nf)"
    unfolding demo_seek_def Let_def by (simp add: o w l r c record_text close_test_file [OF assms(1)] f)
  then show ?thesis using with_file_leaves by blast
qed

text \<open>Twenty-three bytes of every record are whatever the stack held.\<close>

lemma record_uninitialised: "length (filter (\<lambda>b. b = None) (records 5)) = 115"
proof -
  have "length (filter (\<lambda>b. b = None) (record_bytes i)) = 23" if "i < 10" for i
  proof -
    have "length (fmt_d (int i)) = 1" using that by (simp add: fmt_d_def dec.simps)
    then show ?thesis by (simp add: record_bytes_def Let_def filter_map comp_def)
  qed
  then show ?thesis by (simp add: records_def upt_rec)
qed

definition APPENDED :: string where
  "APPENDED = (''Line 1'' @ NL) @ (''Line 2 (appended)'' @ NL) @ (''Line 3 (appended)'' @ NL)"

lemma APPENDED_facts [simp]: "length APPENDED = 43" "NUL \<notin> set APPENDED"
  by (simp_all add: APPENDED_def NL_def)

lemma append_lines: "append_line ''Line 1'' @ append_line ''Line 2 (appended)'' @ append_line ''Line 3 (appended)'' = map Some APPENDED"
  by (simp add: append_line_def APPENDED_def)

lemma demo_append_run:
  assumes "free_fd s = Some k" and "permits s TEST_FILE"
  shows "\<exists>s'. demo_append s = Some ([NL @ ''--- Demo 4: O_APPEND ---'' @ NL, ''  File contents:'' @ NL @ APPENDED], s') \<and>
    leaves_file (map Some APPENDED) s s'"
proof -
  let ?fl = "create_flags O_WRONLY" and ?ap = "O_WRONLY\<lparr>o_append := True\<rparr>"
  let ?l1 = "append_line ''Line 1''" and ?l2 = "append_line ''Line 2 (appended)''" and ?l3 = "append_line ''Line 3 (appended)''"
  obtain i nf where o: "sys_open TEST_FILE ?fl s = (int k, (with_file s i [] nf)\<lparr>fds := (fds s)(k := Some (opened i ?fl))\<rparr>)"
    by (rule create_test_file [OF assms, of O_WRONLY]) simp_all
  let ?st = "\<lambda>d f. (with_file s i d nf)\<lparr>fds := (fds s)(k := Some f)\<rparr>"
  let ?f1 = "(opened i ?fl)\<lparr>pos := length ?l1\<rparr>" and ?f2 = "(opened i ?ap)\<lparr>pos := length ?l1 + length ?l2\<rparr>"
  let ?f3 = "(opened i ?ap)\<lparr>pos := length (?l1 @ ?l2) + length ?l3\<rparr>" and ?f4 = "(opened i O_RDONLY)\<lparr>pos := 43\<rparr>"
  have w1: "sys_write (int k) ?l1 (?st [] (opened i ?fl)) = (int (length ?l1), ?st ?l1 ?f1)"
    by (simp add: open_calls write_at_empty)
  have o2: "sys_open TEST_FILE ?ap (with_file s i ?l1 nf) = (int k, ?st ?l1 (opened i ?ap))"
    by (rule reopen_test_file [OF assms]) simp_all
  have w2: "sys_write (int k) ?l2 (?st ?l1 (opened i ?ap)) = (int (length ?l2), ?st (?l1 @ ?l2) ?f2)"
    by (simp add: open_calls)
  have w3: "sys_write (int k) ?l3 (?st (?l1 @ ?l2) ?f2) = (int (length ?l3), ?st (map Some APPENDED) ?f3)"
    by (simp add: open_calls append_lines)
  have o3: "sys_open TEST_FILE O_RDONLY (with_file s i (map Some APPENDED) nf) = (int k, ?st (map Some APPENDED) (opened i O_RDONLY))"
    by (rule reopen_test_file [OF assms]) simp_all
  have r: "sys_read (int k) 255 (?st (map Some APPENDED) (opened i O_RDONLY)) = (43, map Some APPENDED, ?st (map Some APPENDED) ?f4)"
    by (simp add: open_calls)
  have t: "buffer_text (map Some APPENDED @ [Some NUL]) = Some APPENDED" by (simp add: buffer_text_terminated)
  have "demo_append s = Some ([NL @ ''--- Demo 4: O_APPEND ---'' @ NL, ''  File contents:'' @ NL @ APPENDED], with_file s i (map Some APPENDED) nf)"
    unfolding demo_append_def Let_def by (simp add: o w1 o2 w2 w3 o3 r t close_test_file [OF assms(1)])
  then show ?thesis using with_file_leaves by blast
qed

lemma demo_fstat_run:
  assumes "free_fd s = Some k" and "permits s TEST_FILE" and "names s TEST_FILE = Some i"
  shows "\<exists>out. demo_fstat strerror stat_lines s = Some (out, s)"
proof -
  have o: "sys_open TEST_FILE O_RDONLY s = (int k, s\<lparr>fds := (fds s)(k := Some (opened i O_RDONLY))\<rparr>)"
    by (rule open_existing [OF assms]) simp_all
  have c: "sys_close (int k) (s\<lparr>fds := (fds s)(k := Some (opened i O_RDONLY))\<rparr>) = s"
    by (simp add: close_open close_restores [OF assms(1)])
  show ?thesis unfolding demo_fstat_def Let_def by (simp add: o c split: option.splits)
qed

lemma demo_locking_run:
  assumes "free_fd s = Some k" and "permits s TEST_FILE" and "names s TEST_FILE = Some i"
  shows "\<exists>out. demo_locking strerror denied holder s = Some (out, s)"
proof -
  have o: "sys_open TEST_FILE O_RDWR s = (int k, s\<lparr>fds := (fds s)(k := Some (opened i O_RDWR))\<rparr>)"
    by (rule open_existing [OF assms]) simp_all
  have c: "sys_close (int k) (s\<lparr>fds := (fds s)(k := Some (opened i O_RDWR))\<rparr>) = s"
    by (simp add: close_open close_restores [OF assms(1)])
  show ?thesis unfolding demo_locking_def Let_def by (simp add: o c)
qed

lemma leaves_file_next:
  assumes "leaves_file d s s'" and "free_fd s = Some k" and "permits s TEST_FILE"
  shows "free_fd s' = Some k" and "permits s' TEST_FILE" and "\<exists>i. names s' TEST_FILE = Some i"
  using assms free_fd_cong [of s' s] by (auto simp: leaves_file_def)

text \<open>What the whole program prints of the files, and what it leaves behind.\<close>

lemma file_ops_run:
  assumes "free_fd s = Some k" and "permits s TEST_FILE"
  shows "\<exists>out s'. file_ops strerror stat_lines denied holder s = Some (out, s') \<and> fds s' = fds s \<and> names s' = (names s)(TEST_FILE := None) \<and>
    ''  Read:    26 bytes => '' @ in_quotes HELLO @ NL \<in> set out \<and> ''  Record at offset 96: '' @ in_quotes ''Record-3'' @ NL \<in> set out \<and>
    ''  File contents:'' @ NL @ APPENDED \<in> set out"
proof -
  obtain s1 where s1: "demo_basic_io strerror s = Some
      ([''--- Demo 1: Basic I/O ---'' @ NL, ''  Written: 26 bytes'' @ NL, ''  Read:    26 bytes => '' @ in_quotes HELLO @ NL], s1)"
      "leaves_file (map Some HELLO) s s1"
    using demo_basic_io_run [OF assms] by blast
  note n1 = leaves_file_next [OF s1(2) assms]
  obtain s2 where s2: "demo_seek strerror s1 = Some
      ([NL @ ''--- Demo 2: lseek Random Access ---'' @ NL, ''  Record at offset 96: '' @ in_quotes ''Record-3'' @ NL,
        ''  Current position: 128'' @ NL, ''  File size:        160 bytes'' @ NL], s2)" "leaves_file (records 5) s1 s2"
    using demo_seek_run [OF n1(1,2)] by blast
  note n2 = leaves_file_next [OF s2(2) n1(1,2)]
  obtain i out3 where s3: "demo_fstat strerror stat_lines s2 = Some (out3, s2)"
    using n2(3) demo_fstat_run [OF n2(1,2)] by blast
  obtain s4 where s4: "demo_append s2 = Some ([NL @ ''--- Demo 4: O_APPEND ---'' @ NL, ''  File contents:'' @ NL @ APPENDED], s4)"
      "leaves_file (map Some APPENDED) s2 s4"
    using demo_append_run [OF n2(1,2)] by blast
  note n4 = leaves_file_next [OF s4(2) n2(1,2)]
  obtain out5 where s5: "demo_locking strerror denied holder s4 = Some (out5, s4)"
    using n4(3) demo_locking_run [OF n4(1,2)] by blast
  have u: "fds (sys_unlink TEST_FILE s4) = fds s" "names (sys_unlink TEST_FILE s4) = (names s)(TEST_FILE := None)"
    using n4(3) s4(2) s2(2) s1(2) by (auto simp: sys_unlink_def leaves_file_def)
  show ?thesis
    unfolding file_ops_def using u by (simp add: and_then_def s1(1) s2(1) s3 s4(1) s5)
qed

end
