(* ===== verification/FileViews.thy ===== *)
theory FileViews
  imports Bytes
begin

text \<open>
  Two programs of SystemProgramming/Handson/lab06_file_operations: file_watcher.c, which prints the events of inotify, and mmap_demo.c, which writes and reads a file through a
  mapping. A mapped file is the string of its bytes. The time of an event is an argument.
\<close>

unbundle bit_operations_syntax

section \<open>Events\<close>

abbreviation (input) IN_ACCESS :: u32 where "IN_ACCESS \<equiv> 0x1"
abbreviation (input) IN_MODIFY :: u32 where "IN_MODIFY \<equiv> 0x2"
abbreviation (input) IN_ATTRIB :: u32 where "IN_ATTRIB \<equiv> 0x4"
abbreviation (input) IN_CLOSE_WRITE :: u32 where "IN_CLOSE_WRITE \<equiv> 0x8"
abbreviation (input) IN_CLOSE_NOWRITE :: u32 where "IN_CLOSE_NOWRITE \<equiv> 0x10"
abbreviation (input) IN_OPEN :: u32 where "IN_OPEN \<equiv> 0x20"
abbreviation (input) IN_MOVED_FROM :: u32 where "IN_MOVED_FROM \<equiv> 0x40"
abbreviation (input) IN_MOVED_TO :: u32 where "IN_MOVED_TO \<equiv> 0x80"
abbreviation (input) IN_CREATE :: u32 where "IN_CREATE \<equiv> 0x100"
abbreviation (input) IN_DELETE :: u32 where "IN_DELETE \<equiv> 0x200"
abbreviation (input) IN_ISDIR :: u32 where "IN_ISDIR \<equiv> 0x40000000"

definition event_types :: "(u32 \<times> string) list" where
  "event_types = [(IN_CREATE, ''CREATED''), (IN_DELETE, ''DELETED''), (IN_MODIFY, ''MODIFIED''), (IN_MOVED_FROM, ''MOVED_FROM''), (IN_MOVED_TO, ''MOVED_TO''),
     (IN_ATTRIB, ''ATTRIB_CHANGE''), (IN_OPEN, ''OPENED''), (IN_CLOSE_WRITE, ''CLOSE_WRITE''), (IN_CLOSE_NOWRITE, ''CLOSE_NOWRITE''), (IN_ACCESS, ''ACCESSED'')]"

definition event_type_str :: "u32 \<Rightarrow> string" where
  "event_type_str m = (case find (\<lambda>(b, _). m AND b \<noteq> 0) event_types of Some (_, t) \<Rightarrow> t | None \<Rightarrow> ''UNKNOWN'')"

definition EVENT_SIZE :: nat where "EVENT_SIZE = 16"

definition watch_line :: "string \<Rightarrow> u32 \<Rightarrow> string \<Rightarrow> string" where
  "watch_line ts m name = pad_right 24 ts @ '' '' @ pad_right 14 (event_type_str m) @ '' '' @ pad_right 6 (if m AND IN_ISDIR \<noteq> 0 then ''DIR'' else ''FILE'') @ '' '' @ name @ NL"

text \<open>The event at the head of what is left of the buffer, with the length of its name field; \<open>None\<close>: the program reads behind what it has got.\<close>

definition event_at :: "u8 list \<Rightarrow> (u32 \<times> nat \<times> string) option" where
  "event_at bs =
     (if length bs < EVENT_SIZE then None
      else let n = nat (le32 bs 12); m = word_of_int (le32 bs 4)
           in if n = 0 then Some (m, 0, ''(watch root)'')
              else map_option (\<lambda>name. (m, n, name)) (c_string (map chr8 (drop EVENT_SIZE bs))))"

text \<open>The lines for what one \<open>read\<close> has given; \<open>ts k\<close> is the time of the \<open>k\<close>th event.\<close>

function watch_events :: "(nat \<Rightarrow> string) \<Rightarrow> nat \<Rightarrow> u8 list \<Rightarrow> string list option" where
  "watch_events ts k bs =
     (if bs = [] then Some []
      else case event_at bs of
          None \<Rightarrow> None
        | Some (m, n, name) \<Rightarrow> map_option ((#) (watch_line (ts k) m name)) (watch_events ts (k + 1) (drop (EVENT_SIZE + n) bs)))"
  by pat_completeness auto
termination by (relation "measure (\<lambda>(_, _, bs). length bs)") (auto simp: EVENT_SIZE_def)

declare watch_events.simps [simp del]

abbreviation (input) EINTR :: int where "EINTR \<equiv> 4"

datatype delivery = Batch "u8 list" | Failure int

text \<open>The main loop over the results of \<open>read\<close>: the lines, and the number of events if it has ended.\<close>

fun watch_loop :: "(nat \<Rightarrow> string) \<Rightarrow> (int \<Rightarrow> string) \<Rightarrow> nat \<Rightarrow> delivery list \<Rightarrow> (string list \<times> nat option) option" where
  "watch_loop ts strerror k [] = Some ([], None)"
| "watch_loop ts strerror k (Failure e # ds) =
     (if e = EINTR then watch_loop ts strerror k ds else Some ([''read: '' @ strerror e @ NL], Some k))"
| "watch_loop ts strerror k (Batch bs # ds) =
     (case watch_events ts k bs of
        None \<Rightarrow> None
      | Some ls \<Rightarrow> map_option (\<lambda>(ls', r). (ls @ ls', r)) (watch_loop ts strerror (k + length ls) ds))"

definition watch_header :: "string \<Rightarrow> string list" where
  "watch_header watch_path =
     [''=== File Watcher ==='' @ NL, ''Monitoring: '' @ watch_path @ NL, ''Press Ctrl+C to stop.'' @ NL @ NL,
      pad_right 24 ''TIMESTAMP'' @ '' '' @ pad_right 14 ''EVENT'' @ '' '' @ pad_right 6 ''TYPE'' @ '' NAME'' @ NL,
      replicate 24 CHR ''-'' @ '' '' @ replicate 14 CHR ''-'' @ '' '' @ replicate 6 CHR ''-'' @ '' ----'' @ NL]"

text \<open>\<open>main\<close>, with the results of the two calls that set up the watch.\<close>

definition file_watcher :: "(nat \<Rightarrow> string) \<Rightarrow> (int \<Rightarrow> string) \<Rightarrow> string list \<Rightarrow> int \<Rightarrow> int \<Rightarrow> delivery list \<Rightarrow> (string list \<times> int option) option" where
  "file_watcher ts strerror argv fd wd ds =
     (if length argv < 2 then Some ([''Usage: '' @ hd argv @ '' <path_to_watch>'' @ NL], Some 1)
      else if fd < 0 then Some ([''inotify_init: '' @ strerror (- fd) @ NL], Some 1)
      else if wd < 0 then Some ([''inotify_add_watch: '' @ strerror (- wd) @ NL], Some 1)
      else map_option (\<lambda>(ls, r). case r of
            None \<Rightarrow> (watch_header (argv ! 1) @ ls, None)
          | Some k \<Rightarrow> (watch_header (argv ! 1) @ ls @ [NL @ ''Total events: '' @ fmt_d (int k) @ NL], Some 0))
        (watch_loop ts strerror 0 ds))"

subsection \<open>What the kernel delivers is printed\<close>

text \<open>An event as the kernel documents it: the name, if there is one, is followed by at least one NUL.\<close>

record event =
  ev_wd :: int
  ev_mask :: u32
  ev_cookie :: int
  ev_name :: string
  ev_pad :: nat

definition enc_le32 :: "int \<Rightarrow> u8 list" where
  "enc_le32 x = [word_of_int x, word_of_int (x div 256), word_of_int (x div 65536), word_of_int (x div 16777216)]"

definition enc_event :: "event \<Rightarrow> u8 list" where
  "enc_event e =
     (let name = (if ev_name e = [] then [] else text_bytes (ev_name e @ NUL # replicate (ev_pad e) NUL))
      in enc_le32 (ev_wd e) @ enc_le32 (uint (ev_mask e)) @ enc_le32 (ev_cookie e) @ enc_le32 (int (length name)) @ name)"

definition good_event :: "event \<Rightarrow> bool" where
  "good_event e \<longleftrightarrow> NUL \<notin> set (ev_name e) \<and> length (ev_name e) + ev_pad e < 2 ^ 16"

definition event_line :: "string \<Rightarrow> event \<Rightarrow> string" where
  "event_line ts e = watch_line ts (ev_mask e) (if ev_name e = [] then ''(watch root)'' else ev_name e)"

lemma le32_enc: "le32 (pre @ enc_le32 x @ post) (length pre) = x mod 4294967296"
proof -
  have a: "le16 (pre @ enc_le32 x @ post) (length pre) = x mod 65536"
  proof -
    have "x mod 256 + 256 * (x div 256 mod 256) = x mod (256 * 256)" by (subst zmod_zmult2_eq) simp_all
    then show ?thesis by (simp add: le16_def byte_at_def enc_le32_def nth_append uint_word8)
  qed
  have b: "le16 (pre @ enc_le32 x @ post) (length pre + 2) = x div 65536 mod 65536"
  proof -
    have "x div 65536 mod 256 + 256 * (x div 65536 div 256 mod 256) = x div 65536 mod (256 * 256)" by (subst zmod_zmult2_eq) simp_all
    moreover have "x div 65536 div 256 = x div 16777216" by (simp flip: zdiv_zmult2_eq)
    ultimately show ?thesis by (simp add: le16_def byte_at_def enc_le32_def nth_append uint_word8)
  qed
  have "x mod 65536 + 65536 * (x div 65536 mod 65536) = x mod (65536 * 65536)" by (subst zmod_zmult2_eq) simp_all
  then show ?thesis unfolding le32_def a b by simp
qed

lemma enc_le32_length [simp]: "length (enc_le32 x) = 4"
  by (simp add: enc_le32_def)

lemma map_chr8_text: "map chr8 (text_bytes t) = t"
  by (simp add: text_bytes_def comp_def)

lemma event_at_enc:
  assumes "good_event e"
  shows "\<exists>n. event_at (enc_event e @ rest) = Some (ev_mask e, n, if ev_name e = [] then ''(watch root)'' else ev_name e) \<and> length (enc_event e) = EVENT_SIZE + n"
proof -
  let ?name = "if ev_name e = [] then [] else text_bytes (ev_name e @ NUL # replicate (ev_pad e) NUL)"
  let ?bs = "enc_event e @ rest"
  have len: "length ?name < 65537" using assms by (simp add: good_event_def)
  have bs: "?bs = enc_le32 (ev_wd e) @ enc_le32 (uint (ev_mask e)) @ enc_le32 (ev_cookie e) @ enc_le32 (int (length ?name)) @ ?name @ rest"
    by (simp add: enc_event_def Let_def)
  have "le32 ?bs 12 = int (length ?name) mod 4294967296"
    using le32_enc [of "enc_le32 (ev_wd e) @ enc_le32 (uint (ev_mask e)) @ enc_le32 (ev_cookie e)" "int (length ?name)" "?name @ rest"]
    unfolding bs by simp
  then have n: "nat (le32 ?bs 12) = length ?name" using len by simp
  have "le32 ?bs 4 = uint (ev_mask e) mod 4294967296"
    using le32_enc [of "enc_le32 (ev_wd e)" "uint (ev_mask e)" "enc_le32 (ev_cookie e) @ enc_le32 (int (length ?name)) @ ?name @ rest"] unfolding bs by simp
  then have m: "word_of_int (le32 ?bs 4) = ev_mask e" using uint_lt2p [of "ev_mask e"] by simp
  have l: "length (enc_event e) = EVENT_SIZE + length ?name" by (simp add: enc_event_def EVENT_SIZE_def Let_def)
  have d: "drop EVENT_SIZE ?bs = ?name @ rest" unfolding bs by (simp add: EVENT_SIZE_def)
  show ?thesis
  proof (intro exI conjI)
    show "event_at ?bs = Some (ev_mask e, length ?name, if ev_name e = [] then ''(watch root)'' else ev_name e)"
    proof (cases "ev_name e = []")
      case True
      then show ?thesis using n m l by (simp add: event_at_def)
    next
      case False
      have "c_string (map chr8 (drop EVENT_SIZE ?bs)) = Some (ev_name e)"
        using assms False c_string_terminated [of "ev_name e" "replicate (ev_pad e) NUL @ map chr8 rest"]
        unfolding d by (simp add: map_chr8_text good_event_def)
      then show ?thesis using n m l False by (simp add: event_at_def)
    qed
  qed (rule l)
qed

lemma watch_events_enc:
  "list_all good_event es \<Longrightarrow> watch_events ts k (concat (map enc_event es)) = Some (map (\<lambda>i. event_line (ts (k + i)) (es ! i)) [0..<length es])"
proof (induction es arbitrary: k)
  case Nil
  then show ?case by (simp add: watch_events.simps)
next
  case (Cons e es)
  let ?rest = "concat (map enc_event es)"
  obtain n where n: "event_at (enc_event e @ ?rest) = Some (ev_mask e, n, if ev_name e = [] then ''(watch root)'' else ev_name e)" "length (enc_event e) = EVENT_SIZE + n"
    using event_at_enc [of e ?rest] Cons.prems by auto
  have "enc_event e \<noteq> []" using n(2) by (auto simp: EVENT_SIZE_def)
  moreover have "drop (EVENT_SIZE + n) (enc_event e @ ?rest) = ?rest" by (simp flip: n(2))
  moreover have "map (\<lambda>i. event_line (ts (k + i)) ((e # es) ! i)) [0..<length (e # es)] =
      event_line (ts k) e # map (\<lambda>i. event_line (ts (k + 1 + i)) (es ! i)) [0..<length es]"
    by (simp add: upt_conv_Cons flip: map_Suc_upt del: upt_Suc)
  ultimately show ?case
    using Cons.IH [of "k + 1"] Cons.prems n(1) by (simp add: watch_events.simps [of ts k "enc_event e @ ?rest"] event_line_def)
qed

text \<open>Whatever the kernel delivers in how many pieces, each event is printed once, in order, and counted.\<close>

lemma add_upt: "[m..<m + n] = map ((+) m) [0..<n]"
  by (induction n) simp_all

lemma watch_loop_prints:
  "list_all (list_all good_event) ess \<Longrightarrow>
     watch_loop ts strerror k (map (\<lambda>es. Batch (concat (map enc_event es))) ess @ [Failure e]) =
       (if e = EINTR then Some (map (\<lambda>i. event_line (ts (k + i)) (concat ess ! i)) [0..<length (concat ess)], None)
        else Some (map (\<lambda>i. event_line (ts (k + i)) (concat ess ! i)) [0..<length (concat ess)] @ [''read: '' @ strerror e @ NL], Some (k + length (concat ess))))"
proof (induction ess arbitrary: k)
  case (Cons es ess)
  have "[0..<length es + length (concat ess)] = [0..<length es] @ map ((+) (length es)) [0..<length (concat ess)]"
    using upt_add_eq_append [of 0 "length es" "length (concat ess)"] by (simp add: add_upt)
  then have "map (\<lambda>i. event_line (ts (k + i)) (concat (es # ess) ! i)) [0..<length (concat (es # ess))] =
      map (\<lambda>i. event_line (ts (k + i)) (es ! i)) [0..<length es] @ map (\<lambda>i. event_line (ts (k + length es + i)) (concat ess ! i)) [0..<length (concat ess)]"
    by (simp add: nth_append add.assoc)
  then show ?case using Cons.IH [of "k + length es"] Cons.prems by (simp add: watch_events_enc add.assoc)
qed simp

lemma event_type_examples: "event_type_str (IN_CREATE OR IN_ISDIR) = ''CREATED''" "event_type_str 0x8000 = ''UNKNOWN''"
  by (simp_all add: event_type_str_def event_types_def)

section \<open>A mapped file\<close>

definition MAP_SIZE :: nat where "MAP_SIZE = 4 * 1024 * 1024"

definition HEADER :: string where "HEADER = ''=== MMAP DATA ==='' @ NL"

definition mmap_record :: "nat \<Rightarrow> string" where
  "mmap_record i = take 63 (''Record '' @ pad_zero 3 (fmt_d (int i)) @ '': value='' @ fmt_d (int i * 42) @ NL)"

definition mmap_contents :: string where
  "mmap_contents = fold (\<lambda>i. splice (length HEADER + i * 64) (mmap_record i)) [0..<100] (splice 0 HEADER (replicate MAP_SIZE NUL))"

text \<open>The results of \<open>open\<close>, \<open>ftruncate\<close> and \<open>mmap\<close>; the file afterwards.\<close>

definition demo_mmap_write :: "(int \<Rightarrow> string) \<Rightarrow> int \<Rightarrow> int \<Rightarrow> int \<Rightarrow> string list \<times> string" where
  "demo_mmap_write strerror fd trunc map_r =
     (let t = ''--- Demo 1: mmap Write ---'' @ NL
      in if fd < 0 then ([t, ''open: '' @ strerror (- fd) @ NL], [])
         else if trunc < 0 then ([t, ''ftruncate: '' @ strerror (- trunc) @ NL], [])
         else if map_r < 0 then ([t, ''mmap: '' @ strerror (- map_r) @ NL], replicate MAP_SIZE NUL)
         else ([t, ''  Wrote 100 records via mmap'' @ NL], mmap_contents))"

fun memmem :: "string \<Rightarrow> string \<Rightarrow> int option" where
  "memmem [] needle = (if needle = [] then Some 0 else None)"
| "memmem (c # hay) needle = (if take (length needle) (c # hay) = needle then Some 0 else map_option ((+) 1) (memmem hay needle))"

definition NEEDLE :: string where "NEEDLE = ''Record 042''"

definition PREVIEW :: string where "PREVIEW = ''  First 200 bytes:'' @ NL"

definition demo_mmap_read :: "(int \<Rightarrow> string) \<Rightarrow> int \<Rightarrow> int \<Rightarrow> string \<Rightarrow> string list" where
  "demo_mmap_read strerror fd map_r contents =
     (let t = NL @ ''--- Demo 2: mmap Read ---'' @ NL
      in if fd < 0 then [t, ''open: '' @ strerror (- fd) @ NL]
         else if map_r < 0 then [t, ''mmap: '' @ strerror (- map_r) @ NL]
         else [t, PREVIEW @ takeWhile (\<lambda>c. c \<noteq> NUL) (take 200 contents) @ NL] @
           (case memmem contents NEEDLE of None \<Rightarrow> [] | Some off \<Rightarrow> [''  Found '' @ in_quotes NEEDLE @ '' at offset '' @ fmt_d off @ NL]))"

definition demo_anon_mmap :: "(int \<Rightarrow> string) \<Rightarrow> int \<Rightarrow> string \<Rightarrow> string list" where
  "demo_anon_mmap strerror map_r address =
     (let t = NL @ ''--- Demo 4: Anonymous mmap ---'' @ NL; mem = splice 0 (''This is anonymous mmap memory!'' @ [NUL]) (replicate 4096 NUL)
      in if map_r < 0 then [t, ''mmap anonymous: '' @ strerror (- map_r) @ NL]
         else [t, ''  Content: '' @ in_quotes (takeWhile (\<lambda>c. c \<noteq> NUL) mem) @ NL, ''  Address: '' @ address @ NL, ''  Memory unmapped.'' @ NL])"

text \<open>The file is the header, then one slot of 64 bytes for each record, then zeros.\<close>

definition slot :: "nat \<Rightarrow> string" where
  "slot i = mmap_record i @ replicate (64 - length (mmap_record i)) NUL"

lemma slot_length [simp]: "length (slot i) = 64"
  by (simp add: slot_def mmap_record_def)

lemma splice_slot:
  assumes "length pre = 18 + i * 64" and "64 \<le> n"
  shows "splice (18 + i * 64) (mmap_record i) (pre @ replicate n NUL) = (pre @ slot i) @ replicate (n - 64) NUL"
proof -
  have l: "length (mmap_record i) \<le> 63" by (simp add: mmap_record_def)
  have "replicate (n - length (mmap_record i)) NUL = replicate (64 - length (mmap_record i)) NUL @ replicate (n - 64) NUL"
    using l assms(2) by (simp flip: replicate_add)
  then show ?thesis using assms by (simp add: splice_def slot_def)
qed

lemma mmap_contents_fold:
  "k \<le> 100 \<Longrightarrow> fold (\<lambda>i. splice (18 + i * 64) (mmap_record i)) [0..<k] (HEADER @ replicate (MAP_SIZE - 18) NUL) =
     HEADER @ concat (map slot [0..<k]) @ replicate (MAP_SIZE - 18 - 64 * k) NUL"
proof (induction k)
  case (Suc k)
  have "length (HEADER @ concat (map slot [0..<k])) = 18 + k * 64"
    by (simp add: HEADER_def NL_def length_concat comp_def sum_list_triv)
  moreover have "64 \<le> MAP_SIZE - 18 - 64 * k" using Suc.prems by (simp add: MAP_SIZE_def)
  moreover have "MAP_SIZE - 18 - 64 * k - 64 = MAP_SIZE - 18 - 64 * Suc k" by simp
  ultimately show ?case using Suc.IH Suc.prems splice_slot [of "HEADER @ concat (map slot [0..<k])" k "MAP_SIZE - 18 - 64 * k"] by simp
qed simp

lemma mmap_contents_slots: "mmap_contents = HEADER @ concat (map slot [0..<100]) @ replicate (MAP_SIZE - 6418) NUL"
proof -
  have h: "length HEADER = 18" by (simp add: HEADER_def NL_def)
  have "splice 0 HEADER (replicate MAP_SIZE NUL) = HEADER @ replicate (MAP_SIZE - 18) NUL" by (simp add: splice_def h)
  then show ?thesis using mmap_contents_fold [of 100] by (simp add: mmap_contents_def h)
qed

lemma add_zero: "map_option ((+) (0 :: int)) x = x"
  by (cases x) simp_all

text \<open>A text that has the first letter of the needle at its head only is passed over if the needle is not there.\<close>

lemma memmem_skip:
  "needle = c # cs \<Longrightarrow> c \<notin> set xs \<Longrightarrow> memmem (xs @ hay) needle = map_option ((+) (int (length xs))) (memmem hay needle)"
proof (induction xs)
  case (Cons x xs)
  then have "take (length needle) ((x # xs) @ hay) \<noteq> needle" by auto
  then show ?case using Cons by (cases "memmem hay needle") auto
qed (simp add: add_zero)

lemma three_digits: "list_all (\<lambda>i. length (pad_zero 3 (dec i)) = 3 \<and> pad_zero 3 (dec i) \<noteq> ''042'') [0..<42]"
  by code_simp

lemma no_R_in_number: "CHR ''R'' \<notin> set (dec n)" "CHR ''R'' \<notin> set (pad_zero k (dec n))"
  using dec_digits [of "CHR ''R''" n] by (auto simp: is_digit_def pad_zero_def)

lemma small_record:
  assumes "i < 42"
  shows "CHR ''R'' \<notin> set (tl (mmap_record i))" and "mmap_record i \<noteq> []" and "take 10 (slot i) \<noteq> NEEDLE"
proof -
  let ?p = "pad_zero 3 (dec i)" and ?rest = "'': value='' @ dec (i * 42) @ NL"
  have p: "length ?p = 3" "?p \<noteq> ''042''" using three_digits assms by (auto simp: list_all_iff)
  have f: "fmt_d (int i) = dec i" "fmt_d (int i * 42) = dec (i * 42)" by (simp_all add: fmt_d_def nat_mult_distrib)
  have m: "mmap_record i = CHR ''R'' # take 62 (''ecord '' @ ?p @ ?rest)" by (simp add: mmap_record_def f)
  have "CHR ''R'' \<notin> set (''ecord '' @ ?p @ ?rest)" by (simp add: no_R_in_number NL_def)
  then show "CHR ''R'' \<notin> set (tl (mmap_record i))" unfolding m by (auto dest: in_set_takeD)
  show "mmap_record i \<noteq> []" by (simp add: m)
  have "take 10 (mmap_record i) = ''Record '' @ ?p" unfolding m using p(1) by simp
  moreover have "10 \<le> length (mmap_record i)" unfolding m using p(1) by simp
  ultimately have "take 10 (slot i) = ''Record '' @ ?p" by (simp add: slot_def)
  then show "take 10 (slot i) \<noteq> NEEDLE" using p(2) by (simp add: NEEDLE_def)
qed

lemma needle: "NEEDLE = CHR ''R'' # ''ecord 042''" "length NEEDLE = 10"
  by (simp_all add: NEEDLE_def)

lemma memmem_slot:
  assumes "i < 42"
  shows "memmem (slot i @ hay) NEEDLE = map_option ((+) 64) (memmem hay NEEDLE)"
proof -
  note r = small_record [OF assms]
  obtain c cs where s: "slot i = c # cs" by (metis slot_length length_0_conv neq_Nil_conv zero_neq_numeral)
  have cs: "cs = tl (mmap_record i) @ replicate (64 - length (mmap_record i)) NUL" using s r(2) by (metis slot_def list.sel(3) tl_append2)
  then have "CHR ''R'' \<notin> set cs" using r(1) by auto
  then have m: "memmem (cs @ hay) NEEDLE = map_option ((+) 63) (memmem hay NEEDLE)"
    using memmem_skip [OF needle(1), of cs hay] slot_length [of i] unfolding s by simp
  have "take (length NEEDLE) (c # cs @ hay) = take 10 (slot i)" using slot_length [of i] unfolding s by (simp add: needle(2))
  then show ?thesis using m r(3) unfolding s by (cases "memmem hay NEEDLE") auto
qed

lemma memmem_slots: "k \<le> 42 \<Longrightarrow> memmem (concat (map slot [0..<k]) @ hay) NEEDLE = map_option ((+) (64 * int k)) (memmem hay NEEDLE)"
proof (induction k arbitrary: hay)
  case (Suc k)
  then show ?case using memmem_slot [of k hay] by (cases "memmem hay NEEDLE") simp_all
qed (simp add: add_zero)

lemma slot_0: "slot 0 = ''Record 000: value=0'' @ NL @ NUL # replicate 43 NUL"
  by code_simp

lemma slot_42: "take 10 (slot 42) = NEEDLE"
  by code_simp

lemma mmap_found: "memmem mmap_contents NEEDLE = Some 2706"
proof -
  have u: "[0..<100] = [0..<42] @ 42 # [43..<100]" by (simp add: upt_conv_Cons flip: upt_add_eq_append [of 0 42 58, simplified])
  have "\<exists>r. mmap_contents = HEADER @ concat (map slot [0..<42]) @ slot 42 @ r" unfolding mmap_contents_slots u map_append concat_append by (intro exI) simp
  then obtain r where c: "mmap_contents = HEADER @ concat (map slot [0..<42]) @ slot 42 @ r" ..
  have "CHR ''R'' \<notin> set HEADER" by (simp add: HEADER_def NL_def)
  then have h: "memmem (HEADER @ hay) NEEDLE = map_option ((+) 18) (memmem hay NEEDLE)" for hay
    using memmem_skip [OF needle(1), of HEADER hay] by (simp add: HEADER_def NL_def)
  obtain x xs where x: "slot 42 = x # xs" by (metis slot_length length_0_conv neq_Nil_conv zero_neq_numeral)
  have "take (length NEEDLE) (slot 42 @ r) = NEEDLE" using slot_42 by (simp add: needle(2))
  then have "memmem (slot 42 @ r) NEEDLE = Some 0" unfolding x by simp
  then show ?thesis using h memmem_slots [of 42 "slot 42 @ r"] unfolding c by simp
qed

text \<open>What is read: the preview is of 200 bytes but ends after the first record, where the zeros of its slot begin; the record is found where it was written.\<close>

lemma mmap_demo_reads:
  assumes "0 \<le> fd" and "0 \<le> map_r"
  shows "demo_mmap_read strerror fd map_r (snd (demo_mmap_write strerror 3 0 0)) =
    [NL @ ''--- Demo 2: mmap Read ---'' @ NL, PREVIEW @ HEADER @ ''Record 000: value=0'' @ NL @ NL, ''  Found '' @ in_quotes NEEDLE @ '' at offset 2706'' @ NL]"
proof -
  have "fmt_d 2706 = ''2706''" by (simp add: fmt_d_def dec.simps digit_def)
  moreover have "takeWhile (\<lambda>c. c \<noteq> NUL) (take 200 mmap_contents) = HEADER @ ''Record 000: value=0'' @ NL"
  proof -
    have u: "[0..<100] = 0 # [1..<100]" by (simp add: upt_conv_Cons)
    let ?pre = "HEADER @ ''Record 000: value=0'' @ NL"
    have "mmap_contents = ?pre @ NUL # (replicate 43 NUL @ concat (map slot [1..<100]) @ replicate (MAP_SIZE - 6418) NUL)"
      unfolding mmap_contents_slots u by (simp add: slot_0)
    moreover have "take 200 (?pre @ NUL # r) = ?pre @ NUL # take 161 r" for r by (simp add: HEADER_def NL_def)
    moreover have "takeWhile (\<lambda>c. c \<noteq> NUL) (?pre @ NUL # r) = ?pre" for r by (simp add: HEADER_def NL_def)
    ultimately show ?thesis by metis
  qed
  ultimately show ?thesis using assms by (simp add: demo_mmap_read_def demo_mmap_write_def mmap_found)
qed

end
