(* ===== verification/HttpServer.thy ===== *)
theory HttpServer
  imports Bytes
begin

text \<open>
  Two clients of text and time on the network: NetworkProgramming/Handson/lab02_tcp_server_client/http_server.c,
  the handling of a request, and NetworkProgramming/Handson/lab01_socket_basics/ntp_client.c, the request
  and the interpretation of the answer. Socket calls, the process number and the conversion of a
  time to text are arguments; writes are taken to succeed in full. \<open>None\<close> is undefined behaviour.
\<close>

section \<open>Scanning\<close>

definition isspace :: "char \<Rightarrow> bool" where
  "isspace c \<longleftrightarrow> c = CHR '' '' \<or> c \<in> set [CHR 0x09, CHR 0x0A, CHR 0x0B, CHR 0x0C, CHR 0x0D]"

text \<open>
  \<open>%ns\<close> of \<open>sscanf\<close> into an array of \<open>room\<close> characters: white space is skipped, and at most \<open>n\<close> characters that are not white space are stored, with a
  terminating NUL; nothing is converted at the end of the input, and what does not fit is written behind the array.
\<close>

datatype scanned = End_of_input | Behind_array | Token string string

definition scan_token :: "nat \<Rightarrow> nat \<Rightarrow> string \<Rightarrow> scanned" where
  "scan_token room n s =
     (let s1 = dropWhile isspace s; t = take n (takeWhile (\<lambda>c. \<not> isspace c) s1) in
      if t = [] then End_of_input else if length t + 1 > room then Behind_array else Token t (drop (length t) s1))"

text \<open>The conversions of the handler into \<open>method\<close>, \<open>path\<close> and \<open>version\<close>; \<open>Some None\<close> if there are fewer than three, \<open>None\<close> for a write behind an array.\<close>

definition scan_request :: "string \<Rightarrow> (string \<times> string \<times> string) option option" where
  "scan_request s =
     (case scan_token 16 15 s of
        Behind_array \<Rightarrow> None
      | End_of_input \<Rightarrow> Some None
      | Token verb s1 \<Rightarrow>
          (case scan_token 256 255 s1 of
             Behind_array \<Rightarrow> None
           | End_of_input \<Rightarrow> Some None
           | Token path s2 \<Rightarrow>
               (case scan_token 16 15 s2 of
                  Behind_array \<Rightarrow> None
                | End_of_input \<Rightarrow> Some None
                | Token version s3 \<Rightarrow> Some (Some (verb, path, version)))))"

section \<open>http_server\<close>

definition index_body :: string where
  "index_body =
     ''<html>'' @ NL @ ''<head><title>Mini HTTP Server</title></head>'' @ NL @ ''<body>'' @ NL @
     ''<h1>Hello from Mini HTTP Server!</h1>'' @ NL @ ''<p>This is a minimal HTTP/1.0 server written in C.</p>'' @ NL @
     ''<ul>'' @ NL @ ''  <li><a href=\"/info\">Server Info</a></li>'' @ NL @
     ''  <li><a href=\"/time\">Current Time</a></li>'' @ NL @ ''</ul>'' @ NL @ ''</body>'' @ NL @ ''</html>'' @ NL"

definition info_body :: "int \<Rightarrow> string" where
  "info_body pid =
     ''<html><body>'' @ NL @ ''<h1>Server Info</h1>'' @ NL @ ''<p>HTTP/1.0 server in C</p>'' @ NL @
     ''<p>PID: '' @ fmt_d pid @ ''</p>'' @ NL @ ''<p><a href=\"/\">Home</a></p>'' @ NL @ ''</body></html>'' @ NL"

definition time_body :: "string \<Rightarrow> string" where
  "time_body timebuf =
     ''<html><body>'' @ NL @ ''<h1>Server Time</h1>'' @ NL @ ''<p>'' @ timebuf @ ''</p>'' @ NL @
     ''<p><a href=\"/\">Home</a></p>'' @ NL @ ''</body></html>'' @ NL"

definition not_found_body :: string where
  "not_found_body = ''<html><body><h1>404 Not Found</h1></body></html>'' @ NL"

definition method_not_allowed :: string where
  "method_not_allowed =
     ''HTTP/1.0 405 Method Not Allowed'' @ CRLF @ ''Content-Length: 22'' @ CRLF @ CRLF @ ''405 Method Not Allowed''"

definition not_found :: string where
  "not_found =
     ''HTTP/1.0 404 Not Found'' @ CRLF @ ''Content-Type: text/html'' @ CRLF @
     ''Content-Length: '' @ dec (length not_found_body) @ CRLF @ CRLF @ not_found_body"

definition ok_header :: "int \<Rightarrow> string" where
  "ok_header body_len =
     ''HTTP/1.0 200 OK'' @ CRLF @ ''Content-Type: text/html'' @ CRLF @ ''Content-Length: '' @ fmt_d body_len @ CRLF @
     ''Connection: close'' @ CRLF @ CRLF"

text \<open>
  \<open>snprintf\<close> into an array of \<open>room\<close> bytes returns the length of the whole text; writing that many bytes from the
  array is defined only if the text fitted.
\<close>

definition formatted :: "nat \<Rightarrow> string \<Rightarrow> string option" where
  "formatted room s = (if length s < room then Some s else None)"

text \<open>
  The handler: what is logged and the list of the texts written to the connection. \<open>data\<close> is what \<open>read\<close>
  delivered of at most 4095 bytes, \<open>None\<close> an error.
\<close>

definition handle_request :: "int \<Rightarrow> string \<Rightarrow> u8 list option \<Rightarrow> (string \<times> string list) option" where
  "handle_request pid timebuf data =
     (case data of
        None \<Rightarrow> Some ([], [])
      | Some bs \<Rightarrow>
          if bs = [] then Some ([], [])
          else if length bs > 4095 then None
          else case scan_request (takeWhile (\<lambda>c. c \<noteq> NUL) (map chr8 bs)) of
              None \<Rightarrow> None
            | Some None \<Rightarrow> Some ([], [])
            | Some (Some (verb, path, version)) \<Rightarrow>
                (let log = ''  '' @ verb @ '' '' @ path @ '' '' @ version @ NL in
                 if verb \<noteq> ''GET'' then Some (log, [method_not_allowed])
                 else
                   (let reply = (\<lambda>body. do { b \<leftarrow> formatted 4096 body; h \<leftarrow> formatted 512 (ok_header (int (length b))); Some (log, [h, b]) }) in
                    if path = ''/'' \<or> path = ''/index.html'' then reply index_body
                    else if path = ''/info'' then reply (info_body pid)
                    else if path = ''/time'' then reply (time_body timebuf)
                    else map_option (\<lambda>r. (log, [r])) (formatted 512 not_found))))"

text \<open>The accept loop over the connections, each with its own time; a failed accept is skipped.\<close>

primrec serve_http :: "int \<Rightarrow> (string \<times> u8 list option) option list \<Rightarrow> (string \<times> string list) list option" where
  "serve_http pid [] = Some []"
| "serve_http pid (c # cs) =
     (case c of
        None \<Rightarrow> serve_http pid cs
      | Some (timebuf, data) \<Rightarrow>
          do { r \<leftarrow> handle_request pid timebuf data; rs \<leftarrow> serve_http pid cs; Some (r # rs) })"

section \<open>ntp_client\<close>

definition NTP_EPOCH_OFFSET :: int where "NTP_EPOCH_OFFSET = 2208988800"

record ntp_packet =
  li_vn_mode :: int
  stratum :: int
  ntp_poll :: int
  ntp_precision :: int
  xmit_ts_sec :: int

definition SIZEOF_NTP_PACKET :: nat where "SIZEOF_NTP_PACKET = 48"

text \<open>The request: all zero but the first byte. The answer: the fields that the program uses, in host order.\<close>

definition ntp_request :: "u8 list" where
  "ntp_request = 0x23 # replicate 47 0"

definition ntp_packet_at :: "u8 list \<Rightarrow> ntp_packet" where
  "ntp_packet_at bs =
     \<lparr>li_vn_mode = byte_at bs 0, stratum = byte_at bs 1, ntp_poll = byte_at bs 2,
      ntp_precision = (if byte_at bs 3 < 128 then byte_at bs 3 else byte_at bs 3 - 256),
      xmit_ts_sec = be32 bs 40\<rparr>"

text \<open>\<open>1 << pkt.poll\<close> on \<open>int\<close>: undefined when the result is not an \<open>int\<close> or the shift is too wide.\<close>

definition shift_one :: "int \<Rightarrow> int option" where
  "shift_one k = (if 0 \<le> k \<and> k < 31 then Some (2 ^ nat k) else None)"

definition stratum_text :: "int \<Rightarrow> string" where
  "stratum_text s =
     (if s = 0 then '' (kiss-of-death)'' else if s = 1 then '' (primary reference)'' else '' (secondary)'')"

text \<open>\<open>time_t\<close> is 64 bits and the subtraction is done in \<open>unsigned long long\<close>.\<close>

definition ntp_unix_time :: "int \<Rightarrow> int" where
  "ntp_unix_time ntp_sec = cast_s64 (cast_u64 (ntp_sec - NTP_EPOCH_OFFSET))"

definition fmt_signed :: "int \<Rightarrow> string" where
  "fmt_signed d = (if 0 \<le> d then CHR ''+'' # fmt_d d else fmt_d d)"

text \<open>From the answer of \<open>recvfrom\<close> on: exit status and output. \<open>localtime\<close> and \<open>strftime\<close> together are an argument.\<close>

definition ntp_answer :: "(int \<Rightarrow> string) \<Rightarrow> int \<Rightarrow> u8 list option \<Rightarrow> (int \<times> string) option" where
  "ntp_answer local_text local_time data =
     (case data of
        None \<Rightarrow> Some (1, [])
      | Some bs \<Rightarrow>
          if length bs < SIZEOF_NTP_PACKET then Some (1, [])
          else
            (let pkt = ntp_packet_at bs; li = li_vn_mode pkt div 64 mod 4; vn = li_vn_mode pkt div 8 mod 8; mode = li_vn_mode pkt mod 8;
                 ntp_sec = xmit_ts_sec pkt; unix_time = ntp_unix_time ntp_sec in
             case shift_one (ntp_poll pkt) of
               None \<Rightarrow> None
             | Some interval \<Rightarrow>
                 Some (0,
                   NL @ ''NTP Response:'' @ NL @ ''  LI='' @ fmt_u li @ '', Version='' @ fmt_u vn @ '', Mode='' @ fmt_u mode @ NL @
                   ''  Stratum: '' @ fmt_u (stratum pkt) @ stratum_text (stratum pkt) @ NL @
                   ''  Poll: '' @ fmt_d (ntp_poll pkt) @ '' (2^'' @ fmt_d (ntp_poll pkt) @ '' = '' @ fmt_d interval @ '' sec)'' @ NL @
                   ''  Precision: '' @ fmt_d (ntp_precision pkt) @ '' (2^'' @ fmt_d (ntp_precision pkt) @ '' sec)'' @ NL @
                   NL @ ''  NTP Time:   '' @ fmt_u ntp_sec @ '' (seconds since 1900)'' @ NL @
                   ''  Unix Time:  '' @ fmt_d unix_time @ NL @ ''  Local Time: '' @ local_text unix_time @ NL @
                   NL @ ''  Clock offset: '' @ fmt_signed (cast_s64 (unix_time - local_time)) @ '' seconds'' @ NL)))"

section \<open>Properties of the server\<close>

text \<open>A response in full: the length it announces is the length of what follows the empty line.\<close>

definition well_framed :: "string list \<Rightarrow> bool" where
  "well_framed out \<longleftrightarrow>
     (\<exists>pre post body. concat out = pre @ ''Content-Length: '' @ dec (length body) @ CRLF @ post @ CRLF @ body \<and>
        (post = [] \<or> post = ''Connection: close'' @ CRLF))"

lemma well_framedI: "concat out = pre @ ''Content-Length: '' @ dec (length body) @ CRLF @ post @ CRLF @ body \<Longrightarrow>
    post = [] \<or> post = ''Connection: close'' @ CRLF \<Longrightarrow> well_framed out"
  unfolding well_framed_def by blast

lemma not_allowed_framed: "well_framed [method_not_allowed]"
proof (rule well_framedI)
  have "length ''405 Method Not Allowed'' = 22" by simp
  moreover have "dec 22 = ''22''" by (simp add: dec.simps digit_def)
  ultimately have "dec (length ''405 Method Not Allowed'') = ''22''" by (simp only:)
  then show "concat [method_not_allowed] = (''HTTP/1.0 405 Method Not Allowed'' @ CRLF) @ ''Content-Length: '' @
      dec (length ''405 Method Not Allowed'') @ CRLF @ [] @ CRLF @ ''405 Method Not Allowed''"
    by (simp only: method_not_allowed_def) simp
qed simp

lemma not_found_framed: "well_framed [not_found]"
  by (rule well_framedI [of _ "''HTTP/1.0 404 Not Found'' @ CRLF @ ''Content-Type: text/html'' @ CRLF" not_found_body "[]"])
    (simp_all add: not_found_def)

lemma ok_framed: "well_framed [ok_header (int (length b)), b]"
  by (rule well_framedI [of _ "''HTTP/1.0 200 OK'' @ CRLF @ ''Content-Type: text/html'' @ CRLF" b "''Connection: close'' @ CRLF"])
    (simp_all add: ok_header_def fmt_d_def)

lemma ok_header_fits: "length b < 4096 \<Longrightarrow> formatted 512 (ok_header (int (length b))) = Some (ok_header (int (length b)))"
  using dec_length_le [of "length b" 4] by (simp add: formatted_def ok_header_def fmt_d_def CRLF_def)

lemma bodies_fit:
  "length index_body < 4096"
  "0 \<le> pid \<Longrightarrow> pid < 2147483648 \<Longrightarrow> length (info_body pid) < 4096"
  "length timebuf \<le> 63 \<Longrightarrow> length (time_body timebuf) < 4096"
  using dec_length_le [of "nat pid" 10] nat_less_iff [of pid 10000000000]
  by (simp_all add: index_body_def info_body_def time_body_def NL_def fmt_d_def)

lemma not_found_fits: "formatted 512 not_found = Some not_found"
proof -
  have "length not_found_body = 49" by (simp add: not_found_body_def NL_def)
  then show ?thesis using dec_length_le [of 49 2] by (simp add: formatted_def not_found_def CRLF_def)
qed

definition request_text :: "u8 list \<Rightarrow> string" where
  "request_text bs = takeWhile (\<lambda>c. c \<noteq> NUL) (map chr8 bs)"

lemma status_lines:
  "take 12 (concat [method_not_allowed]) = ''HTTP/1.0 405''" "take 12 (concat [not_found]) = ''HTTP/1.0 404''"
  "take 12 (concat [ok_header n, b]) = ''HTTP/1.0 200''"
  by (simp_all add: method_not_allowed_def not_found_def ok_header_def)

text \<open>The words of a text, and the scan in terms of them.\<close>

function split_words :: "string \<Rightarrow> string list" where
  "split_words s =
     (let s1 = dropWhile isspace s in
      if s1 = [] then [] else takeWhile (\<lambda>c. \<not> isspace c) s1 # split_words (dropWhile (\<lambda>c. \<not> isspace c) s1))"
  by pat_completeness auto
termination
proof (relation "measure length")
  fix s s1 :: string
  assume "s1 = dropWhile isspace s" and "s1 \<noteq> []"
  then have "\<not> isspace (hd s1)" and "length s1 \<le> length s" using hd_dropWhile [of isspace s] length_dropWhile_le by auto
  then have "length (dropWhile (\<lambda>c. \<not> isspace c) s1) < length s1"
    using \<open>s1 \<noteq> []\<close> length_dropWhile_le [of "\<lambda>c. \<not> isspace c" "tl s1"] by (cases s1) auto
  then show "(dropWhile (\<lambda>c. \<not> isspace c) s1, s) \<in> measure length" using \<open>length s1 \<le> length s\<close> by simp
qed simp

declare split_words.simps [simp del]

lemma scan_token_word:
  assumes "0 < n" and "n < room"
  shows "split_words s = [] \<Longrightarrow> scan_token room n s = End_of_input"
    and "split_words s = w # ws \<Longrightarrow> length w \<le> n \<Longrightarrow> \<exists>r. scan_token room n s = Token w r \<and> split_words r = ws"
    and "scan_token room n s \<noteq> Behind_array"
proof -
  let ?s = "dropWhile isspace s"
  let ?w = "takeWhile (\<lambda>c. \<not> isspace c) ?s"
  have word: "?w \<noteq> []" if "?s \<noteq> []" using hd_dropWhile [OF that] that by (cases ?s) auto
  have ws: "split_words s = (if ?s = [] then [] else ?w # split_words (dropWhile (\<lambda>c. \<not> isspace c) ?s))"
    by (subst split_words.simps) (simp add: Let_def)
  show "split_words s = [] \<Longrightarrow> scan_token room n s = End_of_input"
  proof -
    assume "split_words s = []"
    then have e: "?s = []" using ws by (metis list.distinct(1))
    show "scan_token room n s = End_of_input" unfolding scan_token_def Let_def e by simp
  qed
  show "scan_token room n s \<noteq> Behind_array" using assms by (auto simp: scan_token_def Let_def min_def)
  assume "split_words s = w # ws" and "length w \<le> n"
  then have "?s \<noteq> []" "w = ?w" "ws = split_words (dropWhile (\<lambda>c. \<not> isspace c) ?s)" "take n ?w = ?w"
    using ws by (auto split: if_splits)
  then show "\<exists>r. scan_token room n s = Token w r \<and> split_words r = ws"
    using word assms \<open>length w \<le> n\<close> by (simp add: scan_token_def Let_def dropWhile_eq_drop)
qed

lemma scan_request_defined: "scan_request s \<noteq> None"
  by (auto simp: scan_request_def scan_token_word(3) split: scanned.split)

text \<open>The first three words of the request, where they are not longer than the conversions admit.\<close>

definition short_words :: "string list \<Rightarrow> bool" where
  "short_words ws \<longleftrightarrow> list_all2 (\<lambda>w n. length w \<le> n) (take 3 ws) (take (length ws) [15, 255, 15])"

lemma scan_request_words:
  assumes "short_words (split_words s)"
  shows "scan_request s = Some (case split_words s of verb # path # version # _ \<Rightarrow> Some (verb, path, version) | _ \<Rightarrow> None)"
proof (cases "split_words s")
  case Nil
  then show ?thesis by (simp add: scan_request_def scan_token_word)
next
  case (Cons verb r1)
  then obtain s1 where s1: "scan_token 16 15 s = Token verb s1" "split_words s1 = r1"
    using assms scan_token_word(2) [of 15 16 s] by (auto simp: short_words_def)
  show ?thesis
  proof (cases r1)
    case Nil
    then show ?thesis using s1 Cons by (simp add: scan_request_def scan_token_word)
  next
    case (Cons path r2)
    then obtain s2 where s2: "scan_token 256 255 s1 = Token path s2" "split_words s2 = r2"
      using assms s1 \<open>split_words s = verb # r1\<close> scan_token_word(2) [of 255 256 s1] by (auto simp: short_words_def)
    show ?thesis
    proof (cases r2)
      case Nil
      then show ?thesis using s1 s2 Cons \<open>split_words s = verb # r1\<close> by (simp add: scan_request_def scan_token_word)
    next
      case (Cons version r3)
      then obtain s3 where "scan_token 16 15 s2 = Token version s3"
        using assms s1 s2 \<open>r1 = path # r2\<close> \<open>split_words s = verb # r1\<close> scan_token_word(2) [of 15 16 s2] by (auto simp: short_words_def)
      then show ?thesis using s1 s2 Cons \<open>r1 = path # r2\<close> \<open>split_words s = verb # r1\<close> by (simp add: scan_request_def)
    qed
  qed
qed

definition status_for :: "string \<Rightarrow> string \<Rightarrow> string" where
  "status_for verb path = ''HTTP/1.0 '' @
     (if verb \<noteq> ''GET'' then ''405''
      else if path \<in> set [''/'', ''/index.html'', ''/info'', ''/time''] then ''200'' else ''404'')"

definition log_line :: "string \<Rightarrow> string \<Rightarrow> string \<Rightarrow> string" where
  "log_line verb path version = ''  '' @ verb @ '' '' @ path @ '' '' @ version @ NL"

lemma reply_to_words:
  assumes "bs \<noteq> []" and "length bs \<le> 4095" and "0 \<le> pid" "pid < 2147483648" and "length timebuf \<le> 63"
    and "scan_request (request_text bs) = Some (Some (verb, path, version))"
  shows "\<exists>out. handle_request pid timebuf (Some bs) = Some (log_line verb path version, out) \<and> well_framed out \<and>
          take 12 (concat out) = status_for verb path"
proof -
  let ?log = "log_line verb path version"
  define reply where "reply = (\<lambda>body. Option.bind (formatted 4096 body) (\<lambda>b.
    Option.bind (formatted 512 (ok_header (int (length b)))) (\<lambda>h. Some (?log, [h, b]))))"
  have h: "handle_request pid timebuf (Some bs) =
      (if verb \<noteq> ''GET'' then Some (?log, [method_not_allowed])
       else if path = ''/'' \<or> path = ''/index.html'' then reply index_body
       else if path = ''/info'' then reply (info_body pid)
       else if path = ''/time'' then reply (time_body timebuf)
       else map_option (\<lambda>r. (?log, [r])) (formatted 512 not_found))"
    using assms(1,2,6) unfolding handle_request_def request_text_def reply_def log_line_def by (simp add: Let_def)
  have ok: "reply b = Some (?log, [ok_header (int (length b)), b])" if "length b < 4096" for b
    using that ok_header_fits [OF that] by (simp add: reply_def formatted_def [of 4096])
  let ?known = "path \<in> set [''/'', ''/index.html'', ''/info'', ''/time'']"
  let ?status = "status_for verb path"
  consider "verb \<noteq> ''GET''" | "verb = ''GET''" ?known | "verb = ''GET''" "\<not> ?known" by blast
  then show ?thesis
  proof cases
    case 1
    then have "handle_request pid timebuf (Some bs) = Some (?log, [method_not_allowed])" by (simp only: h if_True simp_thms)
    moreover have "?status = ''HTTP/1.0 405''" unfolding status_for_def using 1 by simp
    ultimately show ?thesis using not_allowed_framed status_lines(1) by metis
  next
    case 2
    have "\<exists>b. handle_request pid timebuf (Some bs) = reply b \<and> length b < 4096"
      using 2(2) bodies_fit(1) bodies_fit(2) [OF assms(3,4)] bodies_fit(3) [OF assms(5)] unfolding h 2(1) by auto
    then obtain b where "handle_request pid timebuf (Some bs) = Some (?log, [ok_header (int (length b)), b])" using ok by auto
    moreover have "?status = ''HTTP/1.0 200''" unfolding status_for_def using 2 by simp
    ultimately show ?thesis using ok_framed status_lines(3) by metis
  next
    case 3
    then have "handle_request pid timebuf (Some bs) = Some (?log, [not_found])" unfolding h not_found_fits by simp
    moreover have "?status = ''HTTP/1.0 404''" unfolding status_for_def using 3 by simp
    ultimately show ?thesis using not_found_framed status_lines(2) by metis
  qed
qed

text \<open>
  C25. Every request that fits into the buffer of the handler is handled inside its arrays, however long its words are, and each answer announces
  exactly the length of the body that it carries. When the first three words of the request are at most 15, 255 and 15 characters long, they decide: a request with fewer
  words gets no answer; a first word other than GET gets status 405; of the others, a second word that is a path the server knows gets 200 and any
  other 404; and the three words are logged.
\<close>

theorem http_replies:
  assumes "bs \<noteq> []" and "length bs \<le> 4095" and "0 \<le> pid" "pid < 2147483648" and "length timebuf \<le> 63"
  shows "(\<exists>log out. handle_request pid timebuf (Some bs) = Some (log, out) \<and> (out = [] \<or> well_framed out)) \<and>
    (short_words (split_words (request_text bs)) \<longrightarrow>
      (case split_words (request_text bs) of
         verb # path # version # _ \<Rightarrow>
           (\<exists>out. handle_request pid timebuf (Some bs) = Some (log_line verb path version, out) \<and> well_framed out \<and>
             take 12 (concat out) = status_for verb path)
       | _ \<Rightarrow> handle_request pid timebuf (Some bs) = Some ([], [])))"
proof (intro conjI impI)
  note reply = reply_to_words [OF assms]
  have none: "scan_request (request_text bs) = Some None \<Longrightarrow> handle_request pid timebuf (Some bs) = Some ([], [])"
    using assms by (simp add: handle_request_def request_text_def)
  show "\<exists>log out. handle_request pid timebuf (Some bs) = Some (log, out) \<and> (out = [] \<or> well_framed out)"
  proof (cases "scan_request (request_text bs)")
    case (Some r)
    then show ?thesis using none reply by (cases r) fastforce+
  qed (simp add: scan_request_defined)
  assume "short_words (split_words (request_text bs))"
  note words = scan_request_words [OF this]
  show "case split_words (request_text bs) of
         verb # path # version # _ \<Rightarrow>
           (\<exists>out. handle_request pid timebuf (Some bs) = Some (log_line verb path version, out) \<and> well_framed out \<and>
             take 12 (concat out) = status_for verb path)
       | _ \<Rightarrow> handle_request pid timebuf (Some bs) = Some ([], [])"
    using words none reply by (simp split: list.split)
qed

theorem http_replies_witness:
  "\<exists>out. handle_request 7 [] (Some (text_bytes ''GET /nothing HTTP/1.0'')) = Some (''  GET /nothing HTTP/1.0'' @ NL, out) \<and> well_framed out \<and>
     take 12 (concat out) = ''HTTP/1.0 404''"
proof -
  have "split_words (request_text (text_bytes ''GET /nothing HTTP/1.0'')) = [''GET'', ''/nothing'', ''HTTP/1.0'']"
    by (simp add: request_text_def text_bytes_def split_words.simps isspace_def Let_def)
  then show ?thesis using http_replies [of "text_bytes ''GET /nothing HTTP/1.0''" 7 "[]"] by (simp add: text_bytes_def short_words_def log_line_def status_for_def)
qed

section \<open>Properties of the time client\<close>

text \<open>
  From the start of 1970 to the end of the NTP era the time is that of the answer; the answer decides whether
  the program's shift is defined.
\<close>

lemma ntp_unix_time_value: "0 \<le> s \<Longrightarrow> s < 4294967296 \<Longrightarrow> ntp_unix_time s = s - 2208988800"
proof -
  assume s: "0 \<le> s" "s < 4294967296"
  have "cast_s64 (cast_u64 x) = cast_s64 x" for x by (simp add: cast_s64_def cast_u64_def mod_simps)
  then have "ntp_unix_time s = cast_s64 (s - NTP_EPOCH_OFFSET)" by (simp add: ntp_unix_time_def)
  with s show ?thesis by (simp add: NTP_EPOCH_OFFSET_def)
qed

lemma ntp_answer_undefined:
  "ntp_answer lt now (Some bs) = None \<longleftrightarrow> SIZEOF_NTP_PACKET \<le> length bs \<and> 31 \<le> byte_at bs 2"
  using byte_at_range [of bs 2] by (auto simp: ntp_answer_def ntp_packet_at_def shift_one_def Let_def)

end
