(* ===== verification/InitLab.thy ===== *)
theory InitLab
  imports Schedules
begin

text \<open>
  custom_init.c of KernelProgramming/Handson/lab04_boot: the process number 1 that starts a shell again and again. Mounting and the banner are left out; the shell is a
  parameter.
\<close>

definition spawn_shell :: "(int \<Rightarrow> string) \<Rightarrow> prog \<Rightarrow> prog" where
  "spawn_shell strerror k = say (''[init] Spawning shell...'' @ NL)
     (Fork (\<lambda>pid.
        if pid = 0 then Exec [''/bin/sh''] (perror strerror ''[init] execve failed'' ENOENT (Quit 1))
        else if pid > 0 then Waitpid pid False (\<lambda>_ st. say (''[init] Shell exited with status '' @ fmt_d (WEXITSTATUS st)) k)
        else perror strerror ''[init] fork failed'' (- pid) k))"

definition sig_handler :: "signal \<Rightarrow> int \<Rightarrow> prog" where
  "sig_handler sig sender = say (''[init] Received signal '' @ fmt_d (signo sig)) handler_return"

definition custom_init :: "(int \<Rightarrow> string) \<Rightarrow> prog" where
  "custom_init strerror =
     Sigaction SIGINT (Some (sig_handler SIGINT)) (Sigaction SIGTERM (Some (sig_handler SIGTERM))
       (Getpid (\<lambda>me. say (''[init] Custom init starting (PID '' @ fmt_d me @ '')...'')
         (Getpid (\<lambda>me. (if me \<noteq> 1 then (\<lambda>c. Getpid (\<lambda>me. say (''[init] WARNING: Not running as PID 1 (PID='' @ fmt_d me @ '')'')
              (say ''[init] This program is designed to be the init process.'' (say ''[init] Boot with: init=/path/to/custom_init'' c)))) else (\<lambda>c. c))
           (Loop (spawn_shell strerror (say ''[init] Respawning shell in 2 seconds...'' (Sleep Again))) Fault))))))"

section \<open>As process 1\<close>

definition as_init :: "prog \<Rightarrow> config" where
  "as_init sh = \<lparr>images = (\<lambda>as. if as = [''/bin/sh''] then Some sh else None), max_procs = 10, tty = True, first_pid = 1\<rparr>"

text \<open>A shell ends with status 3 and is started again.\<close>

lemma shell_respawned:
  "let k = play (as_init (Return 3)) [0, 0, 0, 0, 0, 0, 0, 0, 0, 1, 1, 0, 0, 0, 0, 0, 0, 0] (boot (as_init (Return 3)) (custom_init strerror))
   in shown (here (procs k ! 0)) = [''[init] Custom init starting (PID 1)...'' @ NL, ''[init] Spawning shell...'' @ NL @ NL, ''[init] Shell exited with status 3'' @ NL,
        ''[init] Respawning shell in 2 seconds...'' @ NL, ''[init] Spawning shell...'' @ NL @ NL] \<and> map status (procs k) = [Running, Reaped, Running]"
  by code_simp

text \<open>Ctrl+C does not end it.\<close>

lemma init_survives:
  "let k = play (as_init (Return 3)) [0, 0, 0, 0, 0] (boot (as_init (Return 3)) (custom_init strerror));
       k2 = play (as_init (Return 3)) [0, 0, 0] (raise_signal 0 SIGINT 9 k)
   in status (procs k2 ! 0) = Running \<and> blocked (here (procs k2 ! 0)) = [] \<and> length (stack (here (procs k2 ! 0))) = length (stack (here (procs k ! 0))) \<and> last (shown (here (procs k2 ! 0))) = ''[init] Received signal 2'' @ NL"
  by code_simp

text \<open>Init waits for its shell only: a process that the shell has left behind stays a zombie.\<close>

lemma orphan_never_reaped:
  "let sh = Fork (\<lambda>pid. if pid = 0 then Sleep (Quit 0) else Return 0);
       k = play (as_init sh) [0, 0, 0, 0, 0, 0, 0, 0, 0, 1, 1, 1, 2, 2, 0, 0, 0, 0, 0, 0, 0, 0] (boot (as_init sh) (custom_init strerror))
   in map (\<lambda>p. (status p, ppid p)) (procs k) = [(Running, 0), (Reaped, 1), (Zombie 0, 1), (Running, 1)]"
  by code_simp

end
