(* ===== verification/Inversion.thy ===== *)
theory Inversion
  imports Bytes "HOL-Library.Sublist"
begin

text \<open>
  thread_sched.c of SystemProgramming/Handson/lab11_thread_sched: three threads of different real-time priority over one mutex, on any number of processors. The scheduler is the
  documented one, as a nondeterministic choice: of the threads that can run, as many run as there are processors, and none of them while one of higher priority has to wait for a
  processor; ties are broken in any way. A thread of priority 0 (the main thread, of normal policy) runs on the processors that are left; with priority inheritance the owner of a
  mutex has the priority of the highest thread that waits for it. Any time may pass between two steps of a thread, a sleep may last longer than asked for, and every round of a
  loop is a step. The limit that the kernel sets to the time of real-time threads is not modelled, and the threads can be created.
\<close>

section \<open>The scheduler\<close>

datatype action = Say string | Work nat | Usleep int | Lock | Unlock | Stamp | Report | Create nat | Join nat

record task =
  prio :: nat
  todo :: "action list"
  wake :: int
  born :: bool

record machine =
  now :: int
  tasks :: "task list"
  owner :: "nat option"
  stamp :: int
  waited :: "int option"
  printed :: "string list"

definition awake :: "machine \<Rightarrow> task \<Rightarrow> bool" where
  "awake m t \<longleftrightarrow> born t \<and> wake t \<le> now m \<and> todo t \<noteq> []"

definition blocked :: "machine \<Rightarrow> task \<Rightarrow> bool" where
  "blocked m t = (case hd (todo t) of Lock \<Rightarrow> owner m \<noteq> None | Join j \<Rightarrow> todo (tasks m ! j) \<noteq> [] | _ \<Rightarrow> False)"

definition ready :: "machine \<Rightarrow> nat \<Rightarrow> bool" where
  "ready m i \<longleftrightarrow> i < length (tasks m) \<and> awake m (tasks m ! i) \<and> \<not> blocked m (tasks m ! i)"

definition waits_for_lock :: "machine \<Rightarrow> task \<Rightarrow> bool" where
  "waits_for_lock m t \<longleftrightarrow> awake m t \<and> hd (todo t) = Lock \<and> owner m \<noteq> None"

definition effective :: "bool \<Rightarrow> machine \<Rightarrow> nat \<Rightarrow> nat" where
  "effective inherit m i =
     (if inherit \<and> owner m = Some i then foldr max (map prio (filter (waits_for_lock m) (tasks m))) (prio (tasks m ! i)) else prio (tasks m ! i))"

text \<open>Which threads may have the processors.\<close>

definition ready_threads :: "machine \<Rightarrow> nat list" where
  "ready_threads m = filter (ready m) [0..<length (tasks m)]"

definition legal :: "nat \<Rightarrow> bool \<Rightarrow> machine \<Rightarrow> nat list \<Rightarrow> bool" where
  "legal cpus inherit m on \<longleftrightarrow>
     distinct on \<and> list_all (ready m) on \<and> length on = min cpus (length (ready_threads m)) \<and>
     list_all (\<lambda>j. j \<in> set on \<or> list_all (\<lambda>i. effective inherit m j \<le> effective inherit m i) on) (ready_threads m)"

definition set_task :: "nat \<Rightarrow> (task \<Rightarrow> task) \<Rightarrow> machine \<Rightarrow> machine" where
  "set_task i f m = m\<lparr>tasks := (tasks m)[i := f (tasks m ! i)]\<rparr>"

definition wait_line :: "(int \<Rightarrow> string) \<Rightarrow> int \<Rightarrow> string" where
  "wait_line fmt_ms us = ''  [HIGH] Lock acquired after '' @ fmt_ms us @ '' ms wait!'' @ NL"

text \<open>The next step of a running thread; a sleep lasts longer by \<open>late\<close>.\<close>

definition perform :: "(int \<Rightarrow> string) \<Rightarrow> int \<Rightarrow> nat \<Rightarrow> machine \<Rightarrow> machine" where
  "perform fmt_ms late i m =
     (let m' = set_task i (\<lambda>t. t\<lparr>todo := tl (todo t)\<rparr>) m
      in case hd (todo (tasks m ! i)) of
           Say s \<Rightarrow> m'\<lparr>printed := printed m @ [s @ NL]\<rparr>
         | Work n \<Rightarrow> if n = 0 then m' else set_task i (\<lambda>t. t\<lparr>todo := Work (n - 1) # tl (todo t)\<rparr>) m
         | Usleep n \<Rightarrow> set_task i (\<lambda>t. t\<lparr>wake := now m + n + late\<rparr>) m'
         | Lock \<Rightarrow> m'\<lparr>owner := Some i\<rparr>
         | Unlock \<Rightarrow> m'\<lparr>owner := None\<rparr>
         | Stamp \<Rightarrow> m'\<lparr>stamp := now m\<rparr>
         | Report \<Rightarrow> m'\<lparr>waited := Some (now m - stamp m),
             printed := printed m @ [wait_line fmt_ms (now m - stamp m)]\<rparr>
         | Create j \<Rightarrow> set_task j (\<lambda>t. t\<lparr>born := True\<rparr>) m'
         | Join j \<Rightarrow> m')"

text \<open>A schedule: the processors are given to the threads of a legal choice and one of these does a step, or time passes.\<close>

datatype event = Turn "nat list" nat int | Pass int

definition later :: "int \<Rightarrow> machine \<Rightarrow> machine" where
  "later d m = m\<lparr>now := now m + d\<rparr>"

fun step :: "nat \<Rightarrow> bool \<Rightarrow> (int \<Rightarrow> string) \<Rightarrow> event \<Rightarrow> machine \<Rightarrow> machine option" where
  "step cpus inherit fmt_ms (Turn on i late) m =
     (if legal cpus inherit m on \<and> i \<in> set on \<and> 0 \<le> late then Some (perform fmt_ms late i m) else None)"
| "step cpus inherit fmt_ms (Pass d) m = (if 0 \<le> d then Some (later d m) else None)"

primrec run :: "nat \<Rightarrow> bool \<Rightarrow> (int \<Rightarrow> string) \<Rightarrow> event list \<Rightarrow> machine \<Rightarrow> machine option" where
  "run cpus inherit fmt_ms [] m = Some m"
| "run cpus inherit fmt_ms (e # es) m = (case step cpus inherit fmt_ms e m of None \<Rightarrow> None | Some m' \<Rightarrow> run cpus inherit fmt_ms es m')"

section \<open>The threads\<close>

text \<open>The lines that the threads print.\<close>

definition LOW_TRIES :: string where "LOW_TRIES = ''  [LOW]  Acquiring lock...''"
definition LOW_HAS :: string where "LOW_HAS = ''  [LOW]  Lock acquired. Doing long work...''"
definition LOW_DONE :: string where "LOW_DONE = ''  [LOW]  Work done, releasing lock.''"
definition MED_RUNS :: string where "MED_RUNS = ''  [MED]  Running (no lock needed)...''"
definition MED_DONE :: string where "MED_DONE = ''  [MED]  Done.''"
definition HIGH_TRIES :: string where "HIGH_TRIES = ''  [HIGH] Trying to acquire lock...''"

definition ROUNDS :: nat where "ROUNDS = 100000000"

definition low_priority_func :: "action list" where
  "low_priority_func = [Say LOW_TRIES, Lock, Say LOW_HAS, Work ROUNDS, Say LOW_DONE, Unlock]"

definition medium_priority_func :: "action list" where
  "medium_priority_func = [Usleep 10000, Say MED_RUNS, Work ROUNDS, Say MED_DONE]"

definition high_priority_func :: "action list" where
  "high_priority_func = [Usleep 20000, Say HIGH_TRIES, Stamp, Lock, Report, Unlock]"

text \<open>The main thread; without the rights the demonstration is skipped. Thread 1 is the low one, 2 the medium one, 3 the high one.\<close>

definition inversion_title :: "bool \<Rightarrow> string" where
  "inversion_title use_inherit = NL @ ''--- Demo 2: Priority Inversion '' @ (if use_inherit then ''(with PRIO_INHERIT fix)'' else ''(no fix)'') @ '' ---''"

definition demo_priority_inversion :: "bool \<Rightarrow> bool \<Rightarrow> action list" where
  "demo_priority_inversion root use_inherit = Say (inversion_title use_inherit) #
     (if \<not> root then [Say ''  [SKIP] Requires root.''] else [Create 1, Create 2, Create 3, Join 3, Join 2, Join 1])"

definition inversion_start :: "bool \<Rightarrow> bool \<Rightarrow> machine" where
  "inversion_start root use_inherit =
     \<lparr>now = 0,
      tasks = [\<lparr>prio = 0, todo = demo_priority_inversion root use_inherit, wake = 0, born = True\<rparr>,
               \<lparr>prio = 10, todo = low_priority_func, wake = 0, born = False\<rparr>,
               \<lparr>prio = 50, todo = medium_priority_func, wake = 0, born = False\<rparr>,
               \<lparr>prio = 90, todo = high_priority_func, wake = 0, born = False\<rparr>],
      owner = None, stamp = 0, waited = None, printed = []\<rparr>"

definition demo_over :: "machine \<Rightarrow> bool" where
  "demo_over m \<longleftrightarrow> list_all (\<lambda>t. born t \<longrightarrow> todo t = []) (tasks m)"

section \<open>What holds under every schedule\<close>

abbreviation left :: "machine \<Rightarrow> nat \<Rightarrow> action list" where
  "left m i \<equiv> todo (tasks m ! i)"

text \<open>How far each thread is. The rounds of a loop are counted down.\<close>

definition main_place :: "bool \<Rightarrow> action list \<Rightarrow> bool" where
  "main_place inherit as \<longleftrightarrow> suffix as [Say (inversion_title inherit), Create 1, Create 2, Create 3, Join 3, Join 2, Join 1]"

definition low_place :: "action list \<Rightarrow> bool" where
  "low_place as \<longleftrightarrow> (\<exists>n. suffix as [Say LOW_TRIES, Lock, Say LOW_HAS, Work n, Say LOW_DONE, Unlock])"

definition medium_place :: "action list \<Rightarrow> bool" where
  "medium_place as \<longleftrightarrow> (\<exists>n. suffix as [Usleep 10000, Say MED_RUNS, Work n, Say MED_DONE])"

definition high_place :: "action list \<Rightarrow> bool" where
  "high_place as \<longleftrightarrow> suffix as high_priority_func"

text \<open>Who owns the mutex, by the places of the threads.\<close>

definition low_has :: "machine \<Rightarrow> bool" where "low_has m \<longleftrightarrow> left m 1 \<noteq> [] \<and> length (left m 1) \<le> 4"
definition high_has :: "machine \<Rightarrow> bool" where "high_has m \<longleftrightarrow> left m 3 \<noteq> [] \<and> length (left m 3) \<le> 2"

definition places :: "bool \<Rightarrow> machine \<Rightarrow> bool" where
  "places inherit m \<longleftrightarrow> main_place inherit (left m 0) \<and> low_place (left m 1) \<and> medium_place (left m 2) \<and> high_place (left m 3)"

definition births :: "machine \<Rightarrow> bool" where
  "births m \<longleftrightarrow> born (tasks m ! 0) \<and>
     (born (tasks m ! 1) \<longleftrightarrow> length (left m 0) \<le> 5) \<and> (born (tasks m ! 2) \<longleftrightarrow> length (left m 0) \<le> 4) \<and> (born (tasks m ! 3) \<longleftrightarrow> length (left m 0) \<le> 3) \<and>
     (\<not> born (tasks m ! 1) \<longrightarrow> length (left m 1) = 6) \<and> (\<not> born (tasks m ! 2) \<longrightarrow> length (left m 2) = 4) \<and>
     (\<not> born (tasks m ! 3) \<longrightarrow> length (left m 3) = 6)"

definition joined :: "machine \<Rightarrow> bool" where
  "joined m \<longleftrightarrow> (length (left m 0) \<le> 2 \<longrightarrow> left m 3 = []) \<and> (length (left m 0) \<le> 1 \<longrightarrow> left m 2 = []) \<and> (left m 0 = [] \<longrightarrow> left m 1 = [])"

definition demo_inv :: "nat \<Rightarrow> bool \<Rightarrow> machine \<Rightarrow> bool" where
  "demo_inv cpus inherit m \<longleftrightarrow>
     length (tasks m) = 4 \<and> map prio (tasks m) = [0, 10, 50, 90] \<and> 0 \<le> now m \<and> wake (tasks m ! 0) = 0 \<and> wake (tasks m ! 1) = 0 \<and>
     places inherit m \<and> births m \<and> joined m \<and>
     owner m = (if low_has m then Some 1 else if high_has m then Some 3 else None) \<and> \<not> (low_has m \<and> high_has m) \<and>
     (waited m = None \<longleftrightarrow> 2 \<le> length (left m 3)) \<and> stamp m \<le> now m \<and> (\<forall>w. waited m = Some w \<longrightarrow> 0 \<le> w) \<and>
     (cpus = 1 \<and> length (left m 0) \<le> 4 \<longrightarrow> left m 1 = [])"

lemmas suffixes = suffix_Cons suffix_bot.extremum_unique

lemma four: "length xs = 4 \<Longrightarrow> \<exists>a b c d. xs = [a, b, c, d]"
  by (auto simp: eval_nat_numeral length_Suc_conv)

lemma legal_ready: "legal cpus inherit m on \<Longrightarrow> i \<in> set on \<Longrightarrow> ready m i"
  by (simp add: legal_def list_all_iff)

lemma legal_order:
  "legal cpus inherit m on \<Longrightarrow> ready m j \<Longrightarrow> j \<notin> set on \<Longrightarrow> i \<in> set on \<Longrightarrow> effective inherit m j \<le> effective inherit m i"
  by (auto simp: legal_def list_all_iff ready_threads_def ready_def)

lemma legal_length: "legal cpus inherit m on \<Longrightarrow> length on = min cpus (card {i. ready m i}) \<and> distinct on"
proof -
  have "set (ready_threads m) = {i. ready m i}" by (auto simp: ready_threads_def ready_def)
  moreover have "distinct (ready_threads m)" by (simp add: ready_threads_def)
  ultimately have "length (ready_threads m) = card {i. ready m i}" using distinct_card by metis
  then show "legal cpus inherit m on \<Longrightarrow> length on = min cpus (card {i. ready m i}) \<and> distinct on" by (simp add: legal_def)
qed

lemma effective_at_least: "prio (tasks m ! i) \<le> effective inherit m i"
proof -
  have "(x :: nat) \<le> foldr max ys x" for x ys by (induction ys) auto
  then show ?thesis by (simp add: effective_def)
qed

lemma effective_other: "owner m \<noteq> Some i \<Longrightarrow> effective inherit m i = prio (tasks m ! i)"
  by (simp add: effective_def)

lemma inv_prio: "demo_inv cpus inherit m \<Longrightarrow> prio (tasks m ! 0) = 0 \<and> prio (tasks m ! 1) = 10 \<and> prio (tasks m ! 2) = 50 \<and> prio (tasks m ! 3) = 90"
  using four [of "tasks m"] by (auto simp: demo_inv_def)

lemma low_ready:
  assumes "demo_inv cpus inherit m" and "born (tasks m ! 1)" and "left m 1 \<noteq> []" and "\<not> high_has m"
  shows "ready m 1"
proof -
  have "low_place (left m 1)" "owner m = (if low_has m then Some 1 else None)" "length (tasks m) = 4" "wake (tasks m ! 1) = 0" "0 \<le> now m"
    using assms(1,4) by (auto simp: demo_inv_def places_def)
  then show ?thesis using assms(2,3) by (auto simp: ready_def awake_def blocked_def low_place_def low_has_def suffixes)
qed

text \<open>On one processor the normal thread runs only when the low one has ended.\<close>

lemma main_alone:
  assumes "demo_inv 1 inherit m" and "legal 1 inherit m on" and "0 \<in> set on" and "length (left m 0) = 5"
  shows "left m 1 = []"
proof (rule ccontr)
  assume l: "left m 1 \<noteq> []"
  have "born (tasks m ! 1)" "\<not> high_has m" "owner m \<noteq> Some 0" using assms(1,4) by (auto simp: demo_inv_def births_def high_has_def)
  with low_ready [OF assms(1) _ l] have r: "ready m 1" by simp
  have "length on \<le> 1" using assms(2) by (simp add: legal_def)
  with assms(3) have "1 \<notin> set on" by (cases on) auto
  with legal_order [OF assms(2) r _ assms(3)] have "effective inherit m 1 \<le> effective inherit m 0" by simp
  with effective_at_least [of m 1 inherit] effective_other [OF \<open>owner m \<noteq> Some 0\<close>, of inherit] inv_prio [OF assms(1)] show False by simp
qed

subsection \<open>The steps keep it\<close>

lemmas facts = demo_inv_def places_def births_def joined_def low_has_def high_has_def
lemmas steps = perform_def set_task_def ready_def awake_def blocked_def Let_def

lemma low_cases [consumes 2]:
  assumes "low_place as" and "as \<noteq> []"
  obtains n where "as = [Say LOW_TRIES, Lock, Say LOW_HAS, Work n, Say LOW_DONE, Unlock]"
    | n where "as = [Lock, Say LOW_HAS, Work n, Say LOW_DONE, Unlock]" | n where "as = [Say LOW_HAS, Work n, Say LOW_DONE, Unlock]"
    | n where "as = [Work n, Say LOW_DONE, Unlock]" | "as = [Say LOW_DONE, Unlock]" | "as = [Unlock]"
  using assms by (auto simp: low_place_def suffixes)

lemma low_places [simp]:
  "low_place [Lock, Say LOW_HAS, Work n, Say LOW_DONE, Unlock]" "low_place [Say LOW_HAS, Work n, Say LOW_DONE, Unlock]"
  "low_place [Work n, Say LOW_DONE, Unlock]" "low_place [Say LOW_DONE, Unlock]" "low_place [Unlock]" "low_place []"
  by (auto simp: low_place_def suffixes)

lemma medium_cases [consumes 2]:
  assumes "medium_place as" and "as \<noteq> []"
  obtains n where "as = [Usleep 10000, Say MED_RUNS, Work n, Say MED_DONE]" | n where "as = [Say MED_RUNS, Work n, Say MED_DONE]"
    | n where "as = [Work n, Say MED_DONE]" | "as = [Say MED_DONE]"
  using assms by (auto simp: medium_place_def suffixes)

lemma medium_places [simp]:
  "medium_place [Say MED_RUNS, Work n, Say MED_DONE]" "medium_place [Work n, Say MED_DONE]" "medium_place [Say MED_DONE]" "medium_place []"
  by (auto simp: medium_place_def suffixes)

lemma high_cases [consumes 2]:
  assumes "high_place as" and "as \<noteq> []"
  obtains "as = [Usleep 20000, Say HIGH_TRIES, Stamp, Lock, Report, Unlock]" | "as = [Say HIGH_TRIES, Stamp, Lock, Report, Unlock]"
    | "as = [Stamp, Lock, Report, Unlock]" | "as = [Lock, Report, Unlock]" | "as = [Report, Unlock]" | "as = [Unlock]"
  using assms by (auto simp: high_place_def high_priority_func_def suffixes)

lemma high_places [simp]:
  "high_place [Say HIGH_TRIES, Stamp, Lock, Report, Unlock]" "high_place [Stamp, Lock, Report, Unlock]" "high_place [Lock, Report, Unlock]"
  "high_place [Report, Unlock]" "high_place [Unlock]" "high_place []"
  by (auto simp: high_place_def high_priority_func_def suffixes)

lemma main_cases [consumes 2]:
  assumes "main_place inherit as" and "as \<noteq> []"
  obtains "as = [Say (inversion_title inherit), Create 1, Create 2, Create 3, Join 3, Join 2, Join 1]"
    | "as = [Create 1, Create 2, Create 3, Join 3, Join 2, Join 1]" | "as = [Create 2, Create 3, Join 3, Join 2, Join 1]"
    | "as = [Create 3, Join 3, Join 2, Join 1]" | "as = [Join 3, Join 2, Join 1]" | "as = [Join 2, Join 1]" | "as = [Join 1]"
  using assms by (auto simp: main_place_def suffixes)

lemma main_places [simp]:
  "main_place i [Create 1, Create 2, Create 3, Join 3, Join 2, Join 1]" "main_place i [Create 2, Create 3, Join 3, Join 2, Join 1]"
  "main_place i [Create 3, Join 3, Join 2, Join 1]" "main_place i [Join 3, Join 2, Join 1]" "main_place i [Join 2, Join 1]" "main_place i [Join 1]" "main_place i []"
  by (auto simp: main_place_def suffixes)

lemmas main_places_Suc [simp] = main_places [unfolded One_nat_def]

lemma inv_main:
  assumes "demo_inv cpus inherit m" and "legal cpus inherit m on" and "0 \<in> set on"
  shows "demo_inv cpus inherit (perform fmt_ms late 0 m)"
proof -
  obtain a b c d where t: "tasks m = [a, b, c, d]" using assms(1) four by (auto simp: demo_inv_def)
  have r: "ready m 0" using legal_ready assms(2,3) by blast
  have p: "main_place inherit (todo a)" "todo a \<noteq> []" using assms(1) r by (simp_all add: facts ready_def awake_def t)
  have alone: "cpus = 1 \<Longrightarrow> length (todo a) = 5 \<Longrightarrow> todo b = []" using main_alone [of inherit m on] assms t by simp
  note i = assms(1) [unfolded facts t, simplified]
  show ?thesis using p
    by (cases rule: main_cases) (insert i r alone, simp_all add: steps facts t)
qed

lemma inv_low:
  assumes "demo_inv cpus inherit m" and "ready m 1"
  shows "demo_inv cpus inherit (perform fmt_ms late 1 m)"
proof -
  obtain a b c d where t: "tasks m = [a, b, c, d]" using assms(1) four by (auto simp: demo_inv_def)
  have p: "low_place (todo b)" "todo b \<noteq> []" using assms by (simp_all add: facts ready_def awake_def t)
  note i = assms(1) [unfolded facts t, simplified]
  show ?thesis using p by (cases rule: low_cases) (insert i assms(2), simp_all add: steps facts t split: if_splits)
qed

lemma inv_medium:
  assumes "demo_inv cpus inherit m" and "ready m 2"
  shows "demo_inv cpus inherit (perform fmt_ms late 2 m)"
proof -
  obtain a b c d where t: "tasks m = [a, b, c, d]" using assms(1) four by (auto simp: demo_inv_def)
  have p: "medium_place (todo c)" "todo c \<noteq> []" using assms by (simp_all add: facts ready_def awake_def t)
  note i = assms(1) [unfolded facts t, simplified]
  show ?thesis using p by (cases rule: medium_cases) (insert i assms(2), simp_all add: steps facts t split: if_splits)
qed

lemma inv_high:
  assumes "demo_inv cpus inherit m" and "ready m 3"
  shows "demo_inv cpus inherit (perform fmt_ms late 3 m)"
proof -
  obtain a b c d where t: "tasks m = [a, b, c, d]" using assms(1) four by (auto simp: demo_inv_def)
  have p: "high_place (todo d)" "todo d \<noteq> []" using assms by (simp_all add: facts ready_def awake_def t)
  note i = assms(1) [unfolded facts t, simplified]
  show ?thesis using p by (cases rule: high_cases) (insert i assms(2), simp_all add: steps facts t split: if_splits)
qed

lemma inv_start: "demo_inv cpus inherit (inversion_start True inherit)"
proof -
  have "main_place inherit [Say (inversion_title inherit), Create 1, Create 2, Create 3, Join 3, Join 2, Join 1]" "low_place low_priority_func"
    "medium_place medium_priority_func" "high_place high_priority_func"
    by (auto simp: main_place_def low_place_def low_priority_func_def medium_place_def medium_priority_func_def high_place_def)
  moreover have "length low_priority_func = 6" "length medium_priority_func = 4" "length high_priority_func = 6"
    by (simp_all add: low_priority_func_def medium_priority_func_def high_priority_func_def)
  ultimately show ?thesis by (simp add: facts inversion_start_def demo_priority_inversion_def)
qed

lemma inv_later: "demo_inv cpus inherit m \<Longrightarrow> 0 \<le> d \<Longrightarrow> demo_inv cpus inherit (later d m)"
  by (auto simp: facts later_def)

lemma inv_step: "demo_inv cpus inherit m \<Longrightarrow> step cpus inherit fmt_ms e m = Some m' \<Longrightarrow> demo_inv cpus inherit m'"
proof (cases e)
  case (Turn on i late)
  assume i: "demo_inv cpus inherit m" and "step cpus inherit fmt_ms e m = Some m'"
  then have l: "legal cpus inherit m on" "i \<in> set on" "m' = perform fmt_ms late i m" using Turn by (auto split: if_splits)
  have r: "ready m i" using legal_ready l by blast
  then have "i < 4" using i by (simp add: ready_def demo_inv_def)
  then consider "i = 0" | "i = 1" | "i = 2" | "i = 3" by linarith
  then show ?thesis using i l r inv_main inv_low inv_medium inv_high by cases simp_all
qed (auto simp: inv_later split: if_splits)

lemma inv_run: "demo_inv cpus inherit m \<Longrightarrow> run cpus inherit fmt_ms es m = Some m' \<Longrightarrow> demo_inv cpus inherit m'"
  by (induction es arbitrary: m) (auto dest: inv_step split: option.splits)

subsection \<open>No thread of lower priority than the waiting one keeps the owner from running\<close>

text \<open>Priority inversion: the high thread waits for the mutex, and its owner, which could run, does not.\<close>

definition inversion :: "nat \<Rightarrow> bool \<Rightarrow> machine \<Rightarrow> bool" where
  "inversion cpus inherit m \<longleftrightarrow>
     waits_for_lock m (tasks m ! 3) \<and> (\<exists>on k. legal cpus inherit m on \<and> owner m = Some k \<and> ready m k \<and> k \<notin> set on)"

lemma waiting_high:
  assumes "demo_inv cpus inherit m" and "waits_for_lock m (tasks m ! 3)"
  shows "owner m = Some 1" and "ready m 1" and "cpus \<noteq> 1" and "\<not> ready m 3"
proof -
  have h: "left m 3 = [Lock, Report, Unlock]" "born (tasks m ! 3)" "owner m \<noteq> None"
  proof -
    have "high_place (left m 3)" "left m 3 \<noteq> []" "hd (left m 3) = Lock" "born (tasks m ! 3)" "owner m \<noteq> None"
      using assms by (simp_all add: demo_inv_def places_def waits_for_lock_def awake_def)
    then show "left m 3 = [Lock, Report, Unlock]" "born (tasks m ! 3)" "owner m \<noteq> None" by (cases rule: high_cases; simp)+
  qed
  then have "\<not> high_has m" by (simp add: high_has_def)
  with h(3) assms(1) show o: "owner m = Some 1" by (simp add: demo_inv_def split: if_splits)
  then have l: "low_has m" using \<open>\<not> high_has m\<close> assms(1) by (auto simp: demo_inv_def split: if_splits)
  then show "ready m 1" using low_ready [OF assms(1)] \<open>\<not> high_has m\<close> assms(1) by (auto simp: facts)
  show "cpus \<noteq> 1" using l h(2) assms(1) by (auto simp: facts)
  show "\<not> ready m 3" using h by (simp add: ready_def blocked_def)
qed

lemma owner_runs:
  assumes "demo_inv cpus inherit m" and "waits_for_lock m (tasks m ! 3)" and "legal cpus inherit m on" and "0 < cpus"
  shows "1 \<in> set on"
proof (rule ccontr)
  note w = waiting_high [OF assms(1,2)]
  assume n: "1 \<notin> set on"
  have "i = 2" if "i \<in> set on" for i
  proof -
    have "ready m i" using legal_ready assms(3) that by blast
    then have "i < 4" "i \<noteq> 3" "i \<noteq> 1" using w(4) that n assms(1) by (auto simp: ready_def demo_inv_def)
    moreover have "effective inherit m 1 \<le> effective inherit m i" using legal_order [OF assms(3) w(2) n that] .
    then have "i \<noteq> 0" using effective_at_least [of m 1 inherit] effective_other [of m 0 inherit] w(1) inv_prio [OF assms(1)] by (intro notI) simp
    ultimately show ?thesis by linarith
  qed
  then have two: "set on \<subseteq> {2}" by auto
  have d: "length on = min cpus (card {i. ready m i})" "distinct on" using legal_length [OF assms(3)] by simp_all
  have fin: "finite {i. ready m i}" by (rule finite_subset [of _ "{..<length (tasks m)}"]) (auto simp: ready_def)
  have "card (insert 1 (set on)) \<le> card {i. ready m i}"
    using w(2) legal_ready [OF assms(3)] fin by (intro card_mono) auto
  then have "Suc (length on) \<le> card {i. ready m i}" using n d(2) by (simp add: distinct_card)
  then have "length on = cpus" using d(1) by linarith
  moreover have "length on \<le> 1" using two d(2) card_mono [of "{2}" "set on"] by (simp add: distinct_card)
  ultimately show False using w(3) assms(4) by simp
qed

subsection \<open>The end\<close>

definition is_turn :: "event \<Rightarrow> bool" where
  "is_turn e = (case e of Turn _ _ _ \<Rightarrow> True | Pass _ \<Rightarrow> False)"

definition cost :: "action list \<Rightarrow> nat" where
  "cost as = sum_list (map (\<lambda>a. case a of Work n \<Rightarrow> n + 1 | _ \<Rightarrow> 1) as)"

definition work_left :: "machine \<Rightarrow> nat" where
  "work_left m = sum_list (map (\<lambda>t. cost (todo t)) (tasks m))"

lemma work_left_set_task:
  assumes "i < length (tasks m)" and "cost (todo (f (tasks m ! i))) + k = cost (left m i)"
  shows "work_left (set_task i f m) + k = work_left m"
proof -
  have "cost (left m i) \<le> sum_list (map (\<lambda>t. cost (todo t)) (tasks m))"
    using assms(1) by (intro member_le_sum_list) auto
  then show ?thesis using assms by (simp add: work_left_def set_task_def map_update sum_list_update)
qed

lemma set_task_length [simp]: "length (tasks (set_task i f m)) = length (tasks m)"
  by (simp add: set_task_def)

lemma work_left_born: "work_left (set_task j (\<lambda>t. t\<lparr>born := True\<rparr>) m) = work_left m"
  using work_left_set_task [of j m "\<lambda>t. t\<lparr>born := True\<rparr>" 0] by (cases "j < length (tasks m)") (simp_all add: set_task_def list_update_beyond)

lemma work_left_wake: "work_left (set_task j (\<lambda>t. t\<lparr>wake := x\<rparr>) m) = work_left m"
  using work_left_set_task [of j m "\<lambda>t. t\<lparr>wake := x\<rparr>" 0] by (cases "j < length (tasks m)") (simp_all add: set_task_def list_update_beyond)

lemma work_left_simps [simp]: "work_left (m\<lparr>printed := p\<rparr>) = work_left m" "work_left (m\<lparr>owner := q\<rparr>) = work_left m"
  "work_left (m\<lparr>stamp := x\<rparr>) = work_left m" "work_left (m\<lparr>waited := y\<rparr>) = work_left m" "work_left (later d m) = work_left m"
  by (simp_all add: work_left_def later_def)

lemma work_left_perform:
  assumes "ready m i"
  shows "work_left (perform fmt_ms late i m) + 1 = work_left m"
proof -
  obtain a as where a: "left m i = a # as" and i: "i < length (tasks m)"
    using assms by (cases "left m i") (auto simp: ready_def awake_def)
  have tl: "work_left (set_task i (\<lambda>t. t\<lparr>todo := tl (todo t)\<rparr>) m) + 1 = work_left m" if "\<forall>n. a = Work n \<longrightarrow> n = 0"
    using work_left_set_task [OF i, of "\<lambda>t. t\<lparr>todo := tl (todo t)\<rparr>" 1] a that by (cases a) (auto simp: cost_def)
  have dec: "work_left (set_task i (\<lambda>t. t\<lparr>todo := Work (n - 1) # tl (todo t)\<rparr>) m) + 1 = work_left m" if "a = Work n" "n \<noteq> 0" for n
    using work_left_set_task [OF i, of "\<lambda>t. t\<lparr>todo := Work (n - 1) # tl (todo t)\<rparr>" 1] a that by (auto simp: cost_def)
  show ?thesis using tl dec a by (cases a) (auto simp: perform_def Let_def work_left_born work_left_wake)
qed

lemma turns_bounded: "run cpus inherit fmt_ms es m = Some m' \<Longrightarrow> length (filter is_turn es) + work_left m' = work_left m"
proof (induction es arbitrary: m)
  case (Cons e es)
  then obtain m1 where m1: "step cpus inherit fmt_ms e m = Some m1" "run cpus inherit fmt_ms es m1 = Some m'" by (auto split: option.splits)
  have "work_left m1 + (if is_turn e then 1 else 0) = work_left m"
    using m1(1) work_left_perform legal_ready by (cases e) (auto simp: is_turn_def split: if_splits)
  with Cons.IH [OF m1(2)] show ?case by (cases "is_turn e") simp_all
qed simp

lemma cost_simps: "cost [] = 0" "cost (a # as) = (case a of Work n \<Rightarrow> n + 1 | _ \<Rightarrow> 1) + cost as"
  by (simp_all add: cost_def)

lemma cost_low: "cost low_priority_func = ROUNDS + 6"
  by (simp add: low_priority_func_def cost_def)

lemma cost_medium: "cost medium_priority_func = ROUNDS + 4"
  by (simp add: medium_priority_func_def cost_def)

lemma cost_high: "cost high_priority_func = 6"
  by (simp add: high_priority_func_def cost_def)

lemma cost_main: "cost (demo_priority_inversion True inherit) = 7"
  by (simp add: demo_priority_inversion_def cost_def)

lemmas costs = cost_low cost_medium cost_high cost_main

lemma work_at_start: "work_left (inversion_start True inherit) = 2 * ROUNDS + 23"
proof -
  have "work_left (inversion_start True inherit) =
      cost (demo_priority_inversion True inherit) + (cost low_priority_func + (cost medium_priority_func + cost high_priority_func))"
    by (simp only: work_left_def inversion_start_def machine.simps task.simps list.map sum_list.Cons sum_list.Nil add_0_right)
  then show ?thesis by (simp only: costs)
qed

text \<open>There is always a legal choice, and while the demonstration is not over, some thread can run, at the latest when the sleeps are over.\<close>

lemma legal_exists: "\<exists>on. legal cpus inherit m on"
proof -
  define xs where "xs = rev (sort_key (effective inherit m) (ready_threads m))"
  have "sorted_wrt (\<lambda>i j. effective inherit m j \<le> effective inherit m i) xs"
    using sorted_sort_key [of "effective inherit m" "ready_threads m"] unfolding xs_def sorted_wrt_rev sorted_map .
  then have "sorted_wrt (\<lambda>i j. effective inherit m j \<le> effective inherit m i) (take cpus xs @ drop cpus xs)" by (simp only: append_take_drop_id)
  then have "effective inherit m j \<le> effective inherit m i" if "i \<in> set (take cpus xs)" "j \<in> set (drop cpus xs)" for i j
    using that unfolding sorted_wrt_append by blast
  moreover have "set xs = set (ready_threads m)" "distinct xs" "length xs = length (ready_threads m)"
    by (simp_all add: xs_def ready_threads_def)
  moreover have "set xs = set (take cpus xs) \<union> set (drop cpus xs)" by (metis append_take_drop_id set_append)
  moreover have "\<forall>i \<in> set (ready_threads m). ready m i" by (simp add: ready_threads_def)
  ultimately have "legal cpus inherit m (take cpus xs)"
    by (auto simp: legal_def list_all_iff min_def)
  then show ?thesis by blast
qed

lemma someone_ready:
  assumes "demo_inv cpus inherit m" and "\<not> demo_over m"
  shows "\<exists>d \<ge> 0. \<exists>i. ready (later d m) i"
proof -
  obtain a b c d where t: "tasks m = [a, b, c, d]" using assms(1) four by (auto simp: demo_inv_def)
  define late where "late = max 0 (max (wake c) (wake d) - now m)"
  define n where "n = later late m"
  have late: "0 \<le> late" "wake c \<le> now n" "wake d \<le> now n" by (simp_all add: late_def n_def later_def)
  have inv: "demo_inv cpus inherit n" using assms(1) inv_later late(1) by (simp add: n_def)
  have tn: "tasks n = [a, b, c, d]" by (simp add: n_def later_def t)
  note i = inv [unfolded facts tn, simplified]
  have "\<exists>k. ready n k"
  proof (rule ccontr)
    assume none: "\<not> ?thesis"
    have d: "todo d = []" if "born d"
    proof (rule ccontr)
      assume n: "todo d \<noteq> []"
      then have "awake n d" using that late(3) by (simp add: awake_def)
      moreover have "\<not> ready n 3" using none by simp
      ultimately have "awake n d" "blocked n d" by (simp_all add: ready_def tn)
      moreover have "high_place (todo d)" using i by simp
      ultimately have "waits_for_lock n (tasks n ! 3)"
        using n by (auto simp: blocked_def waits_for_lock_def tn elim!: high_cases)
      then show False using waiting_high(2) [OF inv] none by blast
    qed
    have c: "todo c = []" if "born c"
    proof (rule ccontr)
      assume "todo c \<noteq> []"
      moreover have "\<not> ready n 2" using none by simp
      moreover have "medium_place (todo c)" using i by simp
      ultimately show False using that late(2)
        by (auto simp: ready_def awake_def blocked_def tn elim!: medium_cases)
    qed
    have b: "todo b = []" if "born b"
      using low_ready [OF inv] that none i d by (auto simp: tn high_has_def)
    have a: "todo a = []"
    proof (rule ccontr)
      assume "todo a \<noteq> []"
      moreover have "main_place inherit (todo a)" using i by simp
      ultimately have "ready n 0" using i b c d
        by (cases rule: main_cases [of inherit "todo a", consumes 0]) (simp_all add: ready_def awake_def blocked_def tn)
      then show False using none by blast
    qed
    show False using a b c d assms(2) by (simp add: demo_over_def t)
  qed
  then show ?thesis using late(1) unfolding n_def by blast
qed

lemma someone_runs:
  assumes "demo_inv cpus inherit m" and "\<not> demo_over m" and "0 < cpus"
  shows "\<exists>d \<ge> 0. \<exists>on i. step cpus inherit fmt_ms (Turn on i 0) (later d m) \<noteq> None"
proof -
  obtain d k where d: "0 \<le> d" "ready (later d m) k" using someone_ready assms(1,2) by blast
  then have "k \<in> set (ready_threads (later d m))" by (simp add: ready_threads_def) (simp add: ready_def)
  then have "0 < length (ready_threads (later d m))" by auto
  moreover obtain on where on: "legal cpus inherit (later d m) on" using legal_exists by blast
  ultimately have "0 < length on" using assms(3) unfolding legal_def by linarith
  then have "on \<noteq> []" by simp
  then have "step cpus inherit fmt_ms (Turn on (hd on) 0) (later d m) \<noteq> None" using on by simp
  then show ?thesis using d(1) by blast
qed

lemma demo_end:
  assumes "demo_inv cpus inherit m" and "demo_over m"
  shows "\<forall>i < 4. left m i = []" and "owner m = None" and "\<exists>w \<ge> 0. waited m = Some w"
proof -
  obtain a b c d where t: "tasks m = [a, b, c, d]" using assms(1) four by (auto simp: demo_inv_def)
  note i = assms(1) [unfolded facts t, simplified]
  have "todo a = []" "todo b = []" "todo c = []" "todo d = []" using i assms(2) by (auto simp: demo_over_def t)
  then show "\<forall>i < 4. left m i = []" "owner m = None" "\<exists>w \<ge> 0. waited m = Some w"
    using i by (auto simp: t less_Suc_eq eval_nat_numeral split: option.splits)
qed

text \<open>What the program is to show, it would show from another state: with one processor, the medium thread
  awake and the mutex with the low one.\<close>

definition meant_to_show :: machine where
  "meant_to_show =
     \<lparr>now = 30000,
      tasks = [\<lparr>prio = 0, todo = [Join 3, Join 2, Join 1], wake = 0, born = True\<rparr>,
               \<lparr>prio = 10, todo = [Work 5, Say LOW_DONE, Unlock], wake = 0, born = True\<rparr>,
               \<lparr>prio = 50, todo = [Work 5, Say MED_DONE], wake = 0, born = True\<rparr>,
               \<lparr>prio = 90, todo = [Lock, Report, Unlock], wake = 20000, born = True\<rparr>],
      owner = Some 1, stamp = 30000, waited = None, printed = []\<rparr>"

lemma inheritance_cures: "inversion 1 False meant_to_show" "\<not> inversion 1 True meant_to_show"
proof -
  have ready: "ready_threads meant_to_show = [1, 2]"
    by (simp add: ready_threads_def ready_def awake_def blocked_def meant_to_show_def upt_rec)
  have m: "ready meant_to_show 1" "ready meant_to_show 2" "waits_for_lock meant_to_show (tasks meant_to_show ! 3)" "owner meant_to_show = Some 1"
    by (simp_all add: ready_def awake_def blocked_def waits_for_lock_def meant_to_show_def)
  have e: "effective False meant_to_show 1 = 10" "effective i meant_to_show 2 = 50" "effective True meant_to_show 1 = 90" for i
    by (simp_all add: effective_def waits_for_lock_def awake_def meant_to_show_def)
  have "legal 1 False meant_to_show [2]" using m(2) e by (simp add: legal_def ready)
  then show "inversion 1 False meant_to_show" using m unfolding inversion_def by force
  have "1 \<in> set on" if "legal 1 True meant_to_show on" for on
  proof (rule ccontr)
    assume n: "1 \<notin> set on"
    have "length on = 1" using that by (simp add: legal_def ready)
    then obtain k where k: "on = [k]" by (auto simp: length_Suc_conv)
    have "ready meant_to_show k" using legal_ready that k by auto
    then have "k \<in> set (ready_threads meant_to_show)" by (simp add: ready_threads_def) (simp add: ready_def)
    then have "k = 2" using n k by (auto simp: ready)
    then show False using legal_order [OF that m(1) n, of 2] k e(2) [of True] e(3) by simp
  qed
  then show "\<not> inversion 1 True meant_to_show" using m(4) by (auto simp: inversion_def)
qed

text \<open>A run in which the two meet.\<close>

definition meeting :: "event list" where
  "meeting = [Turn [0] 0 0, Turn [0] 0 0, Turn [0, 1] 1 0, Turn [0, 1] 1 0] @ [Turn [0, 1] 0 0, Turn [1, 2] 2 5, Turn [0, 1] 0 0] @
     [Turn [1, 3] 3 0, Pass 20005, Turn [2, 3] 3 0, Turn [2, 3] 3 0]"

definition met :: "string list \<Rightarrow> machine" where
  "met ps =
     \<lparr>now = 20005,
      tasks = [\<lparr>prio = 0, todo = [Join 3, Join 2, Join 1], wake = 0, born = True\<rparr>,
               \<lparr>prio = 10, todo = [Say LOW_HAS, Work ROUNDS, Say LOW_DONE, Unlock], wake = 0, born = True\<rparr>,
               \<lparr>prio = 50, todo = [Say MED_RUNS, Work ROUNDS, Say MED_DONE], wake = 10005, born = True\<rparr>,
               \<lparr>prio = 90, todo = [Lock, Report, Unlock], wake = 20000, born = True\<rparr>],
      owner = Some 1, stamp = 20005, waited = None, printed = ps\<rparr>"

lemma run_append: "run c i f (es @ es') m = (case run c i f es m of None \<Rightarrow> None | Some m' \<Rightarrow> run c i f es' m')"
  by (induction es arbitrary: m) (simp_all split: option.split)

lemmas concrete = ready_threads_def legal_def ready_def awake_def blocked_def effective_def waits_for_lock_def perform_def set_task_def later_def Let_def upt_rec

lemma met_waits: "waits_for_lock (met ps) (tasks (met ps) ! 3)" "legal 2 False (met ps) [1, 2]"
  by (simp_all add: met_def concrete)

lemma meeting_run: "\<exists>ps. run 2 False fmt_d meeting (inversion_start True False) = Some (met ps)"
proof -
  define t where "t p as w = \<lparr>prio = p, todo = as, wake = w, born = True\<rparr>" for p as w
  define t0 where "t0 p as = \<lparr>prio = p, todo = as, wake = 0, born = False\<rparr>" for p as
  define st where "st ts ps = \<lparr>now = 0, tasks = ts, owner = Some 1, stamp = 0, waited = None, printed = ps\<rparr>" for ts ps
  note defs = concrete st_def t_def t0_def
  let ?run = "run 2 False fmt_d" and ?low = "t 10 [Say LOW_HAS, Work ROUNDS, Say LOW_DONE, Unlock] 0"
  let ?two = "[t 0 [Create 2, Create 3, Join 3, Join 2, Join 1] 0, ?low, t0 50 medium_priority_func, t0 90 high_priority_func]"
  let ?four = "[t 0 [Join 3, Join 2, Join 1] 0, ?low, t 50 [Say MED_RUNS, Work ROUNDS, Say MED_DONE] 10005, t 90 high_priority_func 0]"
  obtain ps where 1: "?run [Turn [0] 0 0, Turn [0] 0 0, Turn [0, 1] 1 0, Turn [0, 1] 1 0] (inversion_start True False) = Some (st ?two ps)"
    by (simp add: inversion_start_def demo_priority_inversion_def low_priority_func_def defs)
  have 2: "?run [Turn [0, 1] 0 0, Turn [1, 2] 2 5, Turn [0, 1] 0 0] (st ?two ps) = Some (st ?four ps)"
    by (simp add: medium_priority_func_def defs)
  have "\<exists>ps'. ?run [Turn [1, 3] 3 0, Pass 20005, Turn [2, 3] 3 0, Turn [2, 3] 3 0] (st ?four ps) = Some (met ps')"
    by (simp add: high_priority_func_def met_def defs)
  then show ?thesis unfolding meeting_def run_append 1 option.case 2 .
qed

text \<open>
  C39. The demonstration of priority inversion, run with the rights it needs, on any number of processors and under every schedule, with the mutex of priority inheritance or
  without, never shows one: whenever the high thread waits for the mutex, its owner is the low thread, there are at least two processors, and the low thread has one of them in every
  legal choice, so that neither the medium thread nor inheritance makes a difference; on one processor the high thread never waits at all. Every
  schedule has at most 200000023 steps of threads, there is no deadlock, and when all threads have ended the mutex is free and the high thread has reported its wait.
\<close>

theorem demo_shows_no_inversion:
  assumes "run cpus inherit fmt_ms es (inversion_start True inherit) = Some m" and "0 < cpus"
  shows "\<not> inversion cpus inherit m \<and>
    (waits_for_lock m (tasks m ! 3) \<longrightarrow> owner m = Some 1 \<and> 2 \<le> cpus \<and> (\<forall>on. legal cpus inherit m on \<longrightarrow> 1 \<in> set on)) \<and>
    length (filter is_turn es) \<le> 200000023 \<and>
    (\<not> demo_over m \<longrightarrow> (\<exists>d \<ge> 0. \<exists>on i. step cpus inherit fmt_ms (Turn on i 0) (later d m) \<noteq> None)) \<and>
    (demo_over m \<longrightarrow> (\<forall>i < 4. todo (tasks m ! i) = []) \<and> owner m = None \<and> (\<exists>w \<ge> 0. waited m = Some w))"
proof -
  have inv: "demo_inv cpus inherit m" using inv_run [OF inv_start assms(1)] .
  have waits: "waits_for_lock m (tasks m ! 3) \<longrightarrow> owner m = Some 1 \<and> 2 \<le> cpus \<and> (\<forall>on. legal cpus inherit m on \<longrightarrow> 1 \<in> set on)"
    using waiting_high [OF inv] owner_runs [OF inv _ _ assms(2)] assms(2) by (cases cpus rule: nat.exhaust) (auto simp: Suc_le_eq)
  then have "\<not> inversion cpus inherit m" by (auto simp: inversion_def)
  then show ?thesis
    using waits turns_bounded [OF assms(1)] someone_runs [OF inv _ assms(2)] demo_end [OF inv] work_at_start [of inherit] by (simp add: ROUNDS_def)
qed

text \<open>Two processors: the low thread has the mutex when the high one comes, and the medium one is awake; then the medium and the low thread run, and no other choice is legal.\<close>

theorem demo_shows_no_inversion_witness:
  "\<exists>m. run 2 False fmt_d meeting (inversion_start True False) = Some m \<and> waits_for_lock m (tasks m ! 3) \<and> legal 2 False m [1, 2] \<and>
     \<not> legal 2 False m [0, 2]"
proof -
  obtain ps where "run 2 False fmt_d meeting (inversion_start True False) = Some (met ps)" using meeting_run by blast
  then show ?thesis using demo_shows_no_inversion [of 2 False fmt_d meeting "met ps"] met_waits [of ps] by fastforce
qed

end
