(* ===== verification/IoctlDev.thy ===== *)
theory IoctlDev
  imports CharDev
begin

text \<open>
  The ioctl interface of KernelProgramming/Handson/lab18_chardev/chardev_ioctl.c, over the buffer
  device: the command numbers, the five commands and the unknown one, with the mutex and the counter.
\<close>

section \<open>Command numbers\<close>

definition IOC :: "int \<Rightarrow> int \<Rightarrow> int \<Rightarrow> int \<Rightarrow> int" where
  "IOC dir type nr sz = dir * 2 ^ 30 + sz * 2 ^ 16 + type * 2 ^ 8 + nr"

definition IOCTL_MAGIC :: int where "IOCTL_MAGIC = 0x6B"
definition IOCTL_RESET :: int where "IOCTL_RESET = IOC 0 IOCTL_MAGIC 0 0"
definition IOCTL_SET_MSG :: int where "IOCTL_SET_MSG = IOC 1 IOCTL_MAGIC 1 4096"
definition IOCTL_GET_MSG :: int where "IOCTL_GET_MSG = IOC 2 IOCTL_MAGIC 2 4096"
definition IOCTL_GET_LEN :: int where "IOCTL_GET_LEN = IOC 2 IOCTL_MAGIC 3 4"
definition IOCTL_GET_COUNT :: int where "IOCTL_GET_COUNT = IOC 2 IOCTL_MAGIC 4 4"

lemmas ioctl_numbers = IOC_def IOCTL_MAGIC_def IOCTL_RESET_def IOCTL_SET_MSG_def IOCTL_GET_MSG_def
  IOCTL_GET_LEN_def IOCTL_GET_COUNT_def

section \<open>The handler\<close>

record ioctldev = chardev +
  ioctl_count :: int

definition ioctldev_init_state :: ioctldev where
  "ioctldev_init_state = \<lparr>dbuf = replicate 4096 0, buf_len = 0, locked = False, ioctl_count = 0\<rparr>"

definition ioctldev_read :: "nat \<Rightarrow> int \<Rightarrow> int \<Rightarrow> ioctldev \<Rightarrow> (int \<times> u8 list \<times> int \<times> ioctldev) option" where
  "ioctldev_read = locked_read"

definition ioctldev_write :: "u8 list \<Rightarrow> int \<Rightarrow> ioctldev \<Rightarrow> (int \<times> ioctldev) option" where
  "ioctldev_write = locked_write CHARDEV_BUF_SIZE"

text \<open>The bytes of an \<open>int\<close> in memory.\<close>

definition int_bytes :: "int \<Rightarrow> u8 list" where
  "int_bytes x = [word_of_int x, word_of_int (x div 256), word_of_int (x div 65536), word_of_int (x div 16777216)]"

text \<open>
  The body between lock and unlock: the return value, the bytes that reach the user's memory, the
  state. \<open>user\<close> is what can be read at the argument pointer, \<open>room\<close> what can be written there.
\<close>

definition ioctl_body ::
  "int \<Rightarrow> u8 list \<Rightarrow> nat \<Rightarrow> ioctldev \<Rightarrow> (int \<times> u8 list \<times> ioctldev) option" where
  "ioctl_body cmd user room s =
     (if cmd = IOCTL_RESET then
        Some (0, [], s\<lparr>dbuf := replicate (length (dbuf s)) 0, buf_len := 0\<rparr>)
      else if cmd = IOCTL_SET_MSG then
        (case copy_from_user user (CHARDEV_BUF_SIZE - 1) (dbuf s) of
           None \<Rightarrow> None
         | Some (ok, buf) \<Rightarrow>
             if \<not> ok then Some (- EFAULT, [], s\<lparr>dbuf := buf\<rparr>)
             else (let buf' = buf[nat (CHARDEV_BUF_SIZE - 1) := 0]
                   in Some (0, [], s\<lparr>dbuf := buf', buf_len := int (strlen buf')\<rparr>)))
      else if cmd = IOCTL_GET_MSG then
        (case copy_to_user room (dbuf s) 0 (buf_len s + 1) of
           None \<Rightarrow> None
         | Some (ok, out) \<Rightarrow> Some (if ok then 0 else - EFAULT, out, s))
      else if cmd = IOCTL_GET_LEN then
        (case copy_to_user room (int_bytes (buf_len s)) 0 4 of
           None \<Rightarrow> None
         | Some (ok, out) \<Rightarrow> Some (if ok then 0 else - EFAULT, out, s))
      else if cmd = IOCTL_GET_COUNT then
        (case copy_to_user room (int_bytes (ioctl_count s)) 0 4 of
           None \<Rightarrow> None
         | Some (ok, out) \<Rightarrow> Some (if ok then 0 else - EFAULT, out, s))
      else Some (- ENOTTY, [], s))"

definition dev_ioctl ::
  "int \<Rightarrow> u8 list \<Rightarrow> nat \<Rightarrow> ioctldev \<Rightarrow> (int \<times> u8 list \<times> ioctldev) option" where
  "dev_ioctl cmd user room s =
     Option.bind (mutex_lock s) (\<lambda>s1.
       map_option (\<lambda>(r, out, s2). (r, out, mutex_unlock s2))
         (ioctl_body cmd user room (s1\<lparr>ioctl_count := cast_s32 (ioctl_count s1 + 1)\<rparr>)))"

interpretation ioctldev: buffer_device ioctldev_read ioctldev_write "dev_ok CHARDEV_BUF_SIZE" message CHARDEV_BUF_SIZE
  unfolding ioctldev_read_def ioctldev_write_def
  by (rule buffer_device_locked) (simp add: CHARDEV_BUF_SIZE_def)

section \<open>Safety of every command\<close>

lemma ioctl_body_safe:
  assumes "buf_ok CHARDEV_BUF_SIZE s"
  shows "\<exists>r out s'. ioctl_body cmd user room s = Some (r, out, s') \<and> buf_ok CHARDEV_BUF_SIZE s' \<and>
    locked s' = locked s \<and> ioctl_count s' = ioctl_count s \<and> r \<in> {0, - EFAULT, - ENOTTY}"
proof -
  have len: "length (dbuf s) = 4096" "0 \<le> buf_len s" "buf_len s < 4096"
    using assms by (simp_all add: buf_ok_def CHARDEV_BUF_SIZE_def)
  have ints: "\<exists>ok out. copy_to_user room (int_bytes x) 0 4 = Some (ok, out)" for x
    by (simp add: copy_to_user_def get_bytes_def int_bytes_def)
  have msg: "\<exists>ok out. copy_to_user room (dbuf s) 0 (buf_len s + 1) = Some (ok, out)"
    using len by (simp add: copy_to_user_def get_bytes_def)
  have "copy_from_user user 4095 (dbuf s) \<noteq> None" using len by (auto simp: copy_from_user_def)
  then obtain ok buf where set: "copy_from_user user 4095 (dbuf s) = Some (ok, buf)" by auto
  have buf: "length buf = 4096" using copy_from_user_length [OF set] len by simp
  have "strlen (buf[4095 := 0]) < 4096" using strlen_at [of 4095 "buf[4095 := 0]"] buf by simp
  with set buf ints [of "buf_len s"] ints [of "ioctl_count s"] msg len assms show ?thesis
    unfolding ioctl_body_def by (auto simp: buf_ok_def CHARDEV_BUF_SIZE_def Let_def)
qed

text \<open>
  No ioctl command, known or unknown, whatever the argument pointer can be read or written for,
  accesses memory outside the buffer or leaves the mutex held: it returns 0, \<open>-EFAULT\<close> or \<open>-ENOTTY\<close>,
  counts one call, and keeps the length of the message below the size of the buffer.
\<close>

theorem ioctl_safe:
  assumes "dev_ok CHARDEV_BUF_SIZE s"
  shows "\<exists>r out s'. dev_ioctl cmd user room s = Some (r, out, s') \<and> dev_ok CHARDEV_BUF_SIZE s' \<and>
    ioctl_count s' = cast_s32 (ioctl_count s + 1) \<and> r \<in> {0, - EFAULT, - ENOTTY}"
proof -
  let ?s1 = "s\<lparr>locked := True, ioctl_count := cast_s32 (ioctl_count s + 1)\<rparr>"
  have "buf_ok CHARDEV_BUF_SIZE ?s1" using assms by (simp add: dev_ok_def buf_ok_def)
  from ioctl_body_safe [OF this, of cmd user room] obtain r out s' where
    "ioctl_body cmd user room ?s1 = Some (r, out, s')" "buf_ok CHARDEV_BUF_SIZE s'"
    "ioctl_count s' = cast_s32 (ioctl_count s + 1)" "r \<in> {0, - EFAULT, - ENOTTY}" by auto
  with assms show ?thesis
    by (auto simp: dev_ioctl_def mutex_lock_def mutex_unlock_def dev_ok_def buf_ok_def)
qed

theorem ioctl_safe_witness:
  "\<exists>r out s'. dev_ioctl 99 [] 0 ioctldev_init_state = Some (r, out, s') \<and> ioctl_count s' = 1"
proof -
  have "dev_ok CHARDEV_BUF_SIZE ioctldev_init_state"
    by (simp add: dev_ok_def buf_ok_def CHARDEV_BUF_SIZE_def ioctldev_init_state_def)
  from ioctl_safe [OF this, of 99 "[]" 0] show ?thesis
    by (auto simp: ioctldev_init_state_def)
qed

text \<open>
  A message set through the ioctl is the string up to its first NUL, and getting the length and
  the message return exactly its length and the string with its terminating NUL.
\<close>

theorem ioctl_set_get:
  assumes "dev_ok CHARDEV_BUF_SIZE s" and "user = msg @ 0 # rest" and "0 \<notin> set msg"
    and "length msg < 4095" and "4095 \<le> length user" and "length msg < room" and "4 \<le> room"
  shows "\<exists>s'. dev_ioctl IOCTL_SET_MSG user 0 s = Some (0, [], s') \<and>
    (\<exists>s2. dev_ioctl IOCTL_GET_LEN [] room s' = Some (0, int_bytes (int (length msg)), s2)) \<and>
    (\<exists>s3. dev_ioctl IOCTL_GET_MSG [] room s' = Some (0, msg @ [0], s3))"
proof -
  have len: "length (dbuf s) = 4096" "\<not> locked s"
    using assms(1) by (simp_all add: dev_ok_def buf_ok_def CHARDEV_BUF_SIZE_def)
  let ?buf = "(take 4095 user @ drop 4095 (dbuf s))[4095 := 0]"
  have copy: "copy_from_user user 4095 (dbuf s) = Some (True, take 4095 user @ drop 4095 (dbuf s))"
    using len assms(5) by (simp add: copy_from_user_def)
  obtain k where k: "4095 = length msg + Suc k" using assms(4) by (metis less_imp_Suc_add add_Suc_right)
  have buf: "?buf = msg @ 0 # (take k rest @ [0])"
  proof -
    obtain z where "drop 4095 (dbuf s) = [z]" using len by (cases "drop 4095 (dbuf s)") (auto simp: drop_Suc dest: arg_cong [of _ _ length])
    moreover have "take 4095 user = msg @ 0 # take k rest" by (simp add: assms(2) k)
    moreover have "length (msg @ 0 # take k rest) = 4095" using assms(2,5) k by simp
    ultimately show ?thesis using list_update_length [of "take 4095 user" z "[]" 0] by simp
  qed
  have str: "strlen ?buf = length msg"
    unfolding buf using assms(3) by (simp add: strlen_def takeWhile_append)
  let ?s' = "s\<lparr>ioctl_count := cast_s32 (ioctl_count s + 1), dbuf := ?buf, buf_len := int (length msg)\<rparr>"
  have set: "dev_ioctl IOCTL_SET_MSG user 0 s = Some (0, [], ?s')"
    using len copy str
    by (simp add: dev_ioctl_def mutex_lock_def mutex_unlock_def ioctl_body_def ioctl_numbers CHARDEV_BUF_SIZE_def Let_def)
  have "copy_to_user room (int_bytes (int (length msg))) 0 4 = Some (True, int_bytes (int (length msg)))"
    using assms(7) by (simp add: copy_to_user_def get_bytes_def int_bytes_def)
  then have "\<exists>s2. dev_ioctl IOCTL_GET_LEN [] room ?s' = Some (0, int_bytes (int (length msg)), s2)"
    using len by (simp add: dev_ioctl_def mutex_lock_def ioctl_body_def ioctl_numbers)
  moreover have "copy_to_user room ?buf 0 (int (length msg) + 1) = Some (True, msg @ [0])"
    unfolding buf using assms(6) by (simp add: copy_to_user_def get_bytes_def nat_add_distrib)
  then have "\<exists>s3. dev_ioctl IOCTL_GET_MSG [] room ?s' = Some (0, msg @ [0], s3)"
    using len by (simp add: dev_ioctl_def mutex_lock_def ioctl_body_def ioctl_numbers)
  ultimately show ?thesis using set by blast
qed

theorem ioctl_set_get_witness:
  "\<exists>s' s3. dev_ioctl IOCTL_SET_MSG ([72, 105] @ 0 # replicate 4100 5) 0 ioctldev_init_state = Some (0, [], s') \<and>
     dev_ioctl IOCTL_GET_MSG [] 100 s' = Some (0, [72, 105, 0], s3)"
proof -
  have "dev_ok CHARDEV_BUF_SIZE ioctldev_init_state"
    by (simp add: dev_ok_def buf_ok_def CHARDEV_BUF_SIZE_def ioctldev_init_state_def)
  from ioctl_set_get [OF this refl, of "[72, 105]" "replicate 4100 5" 100] show ?thesis by auto
qed

end
