(* ===== verification/KernelEvents.thy ===== *)
theory KernelEvents
  imports UserCopy
begin

text \<open>
  Handlers that the kernel calls: lab24_input/input_demo.c, lab10_timers/hrtimer_demo.c, lab15_signals_barriers/signal_aware.c, lab11_threads/kthread_multi.c and
  lab17_interrupts/threaded_irq_demo.c of KernelProgramming/Handson. The clock, pending signals and the results of allocations are
  arguments. The input core passes on events that the device has announced and drops others, as documented.
\<close>

section \<open>input_demo\<close>

datatype key = KEY_H | KEY_E | KEY_L | KEY_O | KEY_SPACE | KEY_ENTER

datatype input_event = Key_Event key int | Syn

record input_state =
  keybit :: "key list"
  key_idx :: nat
  timer_armed :: bool
  events :: "input_event list"

definition demo_keys :: "key list" where
  "demo_keys = [KEY_H, KEY_E, KEY_L, KEY_L, KEY_O, KEY_SPACE]"

definition input_report_key :: "key \<Rightarrow> int \<Rightarrow> input_state \<Rightarrow> input_state" where
  "input_report_key k v s = (if k \<in> set (keybit s) then s\<lparr>events := events s @ [Key_Event k v]\<rparr> else s)"

definition input_sync :: "input_state \<Rightarrow> input_state" where
  "input_sync s = s\<lparr>events := events s @ [Syn]\<rparr>"

definition key_timer_fn :: "input_state \<Rightarrow> input_state" where
  "key_timer_fn s =
     (let k = demo_keys ! (key_idx s mod length demo_keys);
          s1 = input_sync (input_report_key k 1 s);
          s2 = input_sync (input_report_key k 0 s1);
          s3 = s2\<lparr>key_idx := key_idx s2 + 1, timer_armed := False\<rparr>
      in if key_idx s3 < 30 then s3\<lparr>timer_armed := True\<rparr> else s3)"

text \<open>The capabilities that init announces, and the timer it starts.\<close>

definition input_demo_load :: input_state where
  "input_demo_load = \<lparr>keybit = KEY_ENTER # demo_keys, key_idx = 0, timer_armed = True, events = []\<rparr>"

text \<open>The timer goes off as long as it is armed, at most \<open>n\<close> times.\<close>

fun firings :: "nat \<Rightarrow> input_state \<Rightarrow> input_state" where
  "firings 0 s = s"
| "firings (Suc n) s = (if timer_armed s then firings n (key_timer_fn s) else s)"

definition key_stroke :: "key \<Rightarrow> input_event list" where
  "key_stroke k = [Key_Event k 1, Syn, Key_Event k 0, Syn]"

lemma demo_keys_announced: "demo_keys ! (i mod length demo_keys) \<in> set (KEY_ENTER # demo_keys)"
proof -
  have "i mod length demo_keys < length demo_keys" by (simp add: demo_keys_def)
  then have "demo_keys ! (i mod length demo_keys) \<in> set demo_keys" by (rule nth_mem)
  then show ?thesis by simp
qed

lemma key_timer_fn_step:
  assumes "keybit s = KEY_ENTER # demo_keys"
  shows "key_timer_fn s = s\<lparr>events := events s @ key_stroke (demo_keys ! (key_idx s mod length demo_keys)), key_idx := key_idx s + 1,
    timer_armed := (key_idx s + 1 < 30)\<rparr>"
  using assms demo_keys_announced [of "key_idx s"]
  by (simp add: key_timer_fn_def Let_def input_report_key_def input_sync_def key_stroke_def del: set_simps)

lemma firings_run:
  assumes "keybit s = KEY_ENTER # demo_keys" and "timer_armed s" and "key_idx s + n = 30" and "n \<le> m" and "0 < n"
  shows "firings m s = s\<lparr>events := events s @ concat (map (\<lambda>i. key_stroke (demo_keys ! (i mod length demo_keys))) [key_idx s..<30]),
    key_idx := 30, timer_armed := False\<rparr>"
  using assms
proof (induction n arbitrary: m s)
  case (Suc n)
  obtain k where m: "m = Suc k" using Suc.prems(4) by (cases m) auto
  let ?t = "key_timer_fn s"
  note t = key_timer_fn_step [OF Suc.prems(1)]
  have u: "[key_idx s..<30] = key_idx s # [key_idx s + 1..<30]" using Suc.prems(3) by (simp add: upt_conv_Cons)
  show ?case
  proof (cases "n = 0")
    case True
    then have "\<not> timer_armed ?t" "key_idx s = 29" using t Suc.prems(3) by simp_all
    then show ?thesis using m t Suc.prems(2) u by (cases k) simp_all
  next
    case False
    then have "timer_armed ?t" "keybit ?t = KEY_ENTER # demo_keys" "key_idx ?t + n = 30" "n \<le> k" "0 < n"
      using t Suc.prems m by simp_all
    from Suc.IH [OF this(2,1,3,4,5)] show ?thesis using m t Suc.prems(2) u by simp
  qed
qed simp

text \<open>The device types HELLO and a space five times and then stops, however often the timer could go off.\<close>

theorem input_demo_types:
  "firings (30 + n) input_demo_load =
     \<lparr>keybit = KEY_ENTER # demo_keys, key_idx = 30, timer_armed = False,
      events = concat (map key_stroke (concat (replicate 5 demo_keys)))\<rparr>"
proof -
  have k: "map (\<lambda>i. demo_keys ! (i mod length demo_keys)) [0..<30] = concat (replicate 5 demo_keys)" by code_simp
  have "concat (map (\<lambda>i. key_stroke (demo_keys ! (i mod length demo_keys))) [0..<30]) = concat (map key_stroke (concat (replicate 5 demo_keys)))"
    unfolding k [symmetric] by (simp only: map_map comp_def)
  then show ?thesis using firings_run [of input_demo_load 30 "30 + n"] by (simp add: input_demo_load_def)
qed

section \<open>hrtimer_demo\<close>

record hrtimer_state =
  tick_count :: nat
  last_time :: int
  hlog :: "string list"

text \<open>A call of the callback at the time \<open>now\<close> (in ns); the result is whether the timer is started again.\<close>

definition hrtimer_callback :: "int \<Rightarrow> hrtimer_state \<Rightarrow> bool \<times> hrtimer_state" where
  "hrtimer_callback now s =
     (let elapsed = now - last_time s;
          n = tick_count s + 1;
          l1 = (if n \<le> 10 then [''[hrtimer] Tick #'' @ fmt_u (int n) @ '' elapsed '' @ fmt_d elapsed @ '' ns (expected 100000000)''] else []);
          l2 = (if n \<ge> 20 then [''[hrtimer] Stopping after '' @ fmt_u (int n) @ '' ticks''] else [])
      in (n < 20, \<lparr>tick_count = n, last_time = now, hlog = hlog s @ l1 @ l2\<rparr>))"

text \<open>The timer goes off at the given times until it is not started again; what is left of the times is returned.\<close>

fun ticks :: "int list \<Rightarrow> hrtimer_state \<Rightarrow> hrtimer_state \<times> int list" where
  "ticks [] s = (s, [])"
| "ticks (t # ts) s = (case hrtimer_callback t s of (again, s') \<Rightarrow> if again then ticks ts s' else (s', ts))"

definition hrtimer_load :: "int \<Rightarrow> hrtimer_state" where
  "hrtimer_load now = \<lparr>tick_count = 0, last_time = now, hlog = []\<rparr>"

lemma ticks_run:
  "tick_count s < 20 \<Longrightarrow> 20 \<le> tick_count s + length ts \<Longrightarrow>
     tick_count (fst (ticks ts s)) = 20 \<and> snd (ticks ts s) = drop (20 - tick_count s) ts \<and>
     last_time (fst (ticks ts s)) = ts ! (19 - tick_count s) \<and>
     length (hlog (fst (ticks ts s))) = length (hlog s) + (10 - tick_count s) + 1"
proof (induction ts arbitrary: s)
  case (Cons t ts)
  obtain s' where c: "hrtimer_callback t s = (tick_count s + 1 < 20, s')" "tick_count s' = tick_count s + 1" "last_time s' = t"
      "length (hlog s') = length (hlog s) + (if tick_count s < 10 then 1 else 0) + (if tick_count s \<ge> 19 then 1 else 0)"
    by (simp add: hrtimer_callback_def Let_def)
  have u: "ticks (t # ts) s = (if tick_count s + 1 < 20 then ticks ts s' else (s', ts))" using c(1) by simp
  show ?case
  proof (cases "tick_count s + 1 < 20")
    case True
    have "20 \<le> tick_count s' + length ts" using Cons.prems(2) c(2) by simp
    from Cons.IH [OF _ this] True c(2-4) show ?thesis unfolding u by (auto simp: drop_Cons' nth_Cons')
  next
    case False
    then have "tick_count s = 19" using Cons.prems(1) by simp
    then show ?thesis using c unfolding u by simp
  qed
qed simp

text \<open>Whatever the times, the timer goes off twenty times, and one line is logged for each of the first ten and one for the end.\<close>

theorem hrtimer_demo_stops:
  assumes "20 \<le> length times_ns"
  shows "tick_count (fst (ticks times_ns (hrtimer_load now))) = 20 \<and> snd (ticks times_ns (hrtimer_load now)) = drop 20 times_ns \<and>
    length (hlog (fst (ticks times_ns (hrtimer_load now)))) = 11"
  using ticks_run [of "hrtimer_load now" times_ns] assms by (simp add: hrtimer_load_def)

section \<open>signal_aware\<close>

text \<open>A reader waits until there is data, or is interrupted by a signal; what it has seen it consumes in a further step, before it copies.\<close>

datatype sig_place = Sig_Wait int | Sig_Consume int | Sig_Done int "string"

definition ERESTARTSYS :: int where "ERESTARTSYS = 512"

text \<open>
  A step of \<open>sig_read\<close> of a reader with the flag \<open>data_available\<close>: \<open>signal\<close> is whether one is pending, \<open>fault\<close> whether the copy to user space fails. The condition of the wait comes before the signal.
\<close>

definition sig_read_step :: "bool \<Rightarrow> bool \<Rightarrow> sig_place \<Rightarrow> int \<Rightarrow> (sig_place \<times> int) option" where
  "sig_read_step signal fault p data_available = (case p of
     Sig_Wait count \<Rightarrow>
       if data_available \<noteq> 0 then Some (Sig_Consume count, data_available)
       else if signal then Some (Sig_Done (- ERESTARTSYS) [], data_available)
       else None
   | Sig_Consume count \<Rightarrow>
       (let n = (if count > 5 then 5 else count) in
        if fault then Some (Sig_Done (- EFAULT) [], 0) else Some (Sig_Done n (take (nat n) ''hello''), 0))
   | Sig_Done _ _ \<Rightarrow> None)"

definition sig_write :: "int \<Rightarrow> int \<Rightarrow> int \<times> int" where
  "sig_write count data_available = (count, 1)"

datatype sig_actor = Reader nat bool bool | Writer

text \<open>The readers, the flag and the number of writes.\<close>

fun sig_step :: "sig_actor \<Rightarrow> sig_place list \<times> int \<times> nat \<Rightarrow> (sig_place list \<times> int \<times> nat) option" where
  "sig_step (Reader i signal fault) (rs, d, w) =
     (if i < length rs then map_option (\<lambda>(p, d'). (rs[i := p], d', w)) (sig_read_step signal fault (rs ! i) d) else None)"
| "sig_step Writer (rs, d, w) = Some (rs, snd (sig_write 1 d), w + 1)"

fun sig_run :: "sig_actor list \<Rightarrow> sig_place list \<times> int \<times> nat \<Rightarrow> (sig_place list \<times> int \<times> nat) option" where
  "sig_run [] s = Some s"
| "sig_run (a # as) s = Option.bind (sig_step a s) (sig_run as)"

text \<open>What a reader can have returned.\<close>

definition sig_result_ok :: "sig_place \<Rightarrow> bool" where
  "sig_result_ok p = (case p of
     Sig_Wait n \<Rightarrow> 0 \<le> n
   | Sig_Consume n \<Rightarrow> 0 \<le> n
   | Sig_Done r out \<Rightarrow> r = - ERESTARTSYS \<and> out = [] \<or> r = - EFAULT \<and> out = [] \<or> 0 \<le> r \<and> r \<le> 5 \<and> out = take (nat r) ''hello'')"

text \<open>Before the first write, no reader has got past its wait but by a signal.\<close>

definition sig_idle :: "sig_place \<Rightarrow> bool" where
  "sig_idle p = (case p of Sig_Wait _ \<Rightarrow> True | Sig_Consume _ \<Rightarrow> False | Sig_Done r _ \<Rightarrow> r = - ERESTARTSYS)"

definition sig_ok :: "sig_place list \<times> int \<times> nat \<Rightarrow> bool" where
  "sig_ok s \<longleftrightarrow> (case s of (rs, d, w) \<Rightarrow> list_all sig_result_ok rs \<and> (d = 0 \<or> d = 1) \<and>
     (w = 0 \<longrightarrow> d = 0 \<and> list_all sig_idle rs))"

lemma list_all_update: "list_all P xs \<Longrightarrow> P x \<Longrightarrow> list_all P (xs[i := x])"
  by (auto simp: list_all_iff dest: set_update_subset_insert [THEN subsetD])

lemma sig_read_step_result: "sig_result_ok p \<Longrightarrow> sig_read_step signal fault p d = Some (p', d') \<Longrightarrow> sig_result_ok p'"
  by (cases p) (auto simp: sig_read_step_def sig_result_ok_def Let_def split: if_splits)

lemma sig_read_step_flag: "d = 0 \<or> d = 1 \<Longrightarrow> sig_read_step signal fault p d = Some (p', d') \<Longrightarrow> d' = 0 \<or> d' = 1"
  by (cases p) (auto simp: sig_read_step_def Let_def split: if_splits)

lemma sig_read_step_idle:
  "sig_read_step signal fault (Sig_Wait n) 0 = Some (p', d') \<Longrightarrow> p' = Sig_Done (- ERESTARTSYS) [] \<and> d' = 0"
  by (simp add: sig_read_step_def split: if_splits)

lemma sig_step_ok:
  assumes "sig_ok s" and "sig_step a s = Some s'"
  shows "sig_ok s'"
proof -
  obtain rs d w where s: "s = (rs, d, w)" by (cases s) auto
  show ?thesis
  proof (cases a)
    case (Reader i signal fault)
    obtain p' d' where i: "i < length rs" and r: "sig_read_step signal fault (rs ! i) d = Some (p', d')" and s': "s' = (rs[i := p'], d', w)"
      using assms(2) Reader by (auto simp: s split: if_splits)
    have ok: "sig_result_ok (rs ! i)" using assms(1) i by (simp add: s sig_ok_def list_all_length)
    have res: "list_all sig_result_ok (rs[i := p'])"
      using assms(1) sig_read_step_result [OF ok r] by (simp add: s sig_ok_def list_all_update)
    have flag: "d' = 0 \<or> d' = 1" using assms(1) sig_read_step_flag [OF _ r] by (simp add: s sig_ok_def)
    show ?thesis
    proof (cases "w = 0")
      case True
      then have d: "d = 0" and all: "list_all sig_idle rs" using assms(1) by (simp_all add: s sig_ok_def)
      have "sig_idle (rs ! i)" using all i by (simp add: list_all_length)
      then obtain n where "rs ! i = Sig_Wait n" using r by (cases "rs ! i") (simp_all add: sig_read_step_def sig_idle_def)
      then have "p' = Sig_Done (- ERESTARTSYS) [] \<and> d' = 0"
        using sig_read_step_idle [of signal fault n p' d'] r d by simp
      then have "sig_idle p'" "d' = 0" by (simp_all add: sig_idle_def)
      then show ?thesis using res list_all_update [OF all, of p' i] by (simp add: s' sig_ok_def)
    next
      case False
      then show ?thesis using res flag by (simp add: s' sig_ok_def)
    qed
  next
    case Writer
    then show ?thesis using assms by (auto simp: s sig_ok_def sig_write_def)
  qed
qed

lemma sig_run_ok: "sig_ok s \<Longrightarrow> sig_run as s = Some s' \<Longrightarrow> sig_ok s'"
  by (induction as arbitrary: s) (auto simp: Option.bind_eq_Some_conv dest: sig_step_ok)

text \<open>Every read that returns was interrupted, failed to copy, or delivered at most five bytes of the text; without a write all of them were interrupted.\<close>

theorem sig_reads:
  assumes "sig_run as (map Sig_Wait counts, 0, 0) = Some (rs, d, w)" and "list_all (\<lambda>n. 0 \<le> n) counts"
  shows "list_all sig_result_ok rs \<and> (w = 0 \<longrightarrow> list_all sig_idle rs)"
proof -
  have "sig_ok (map Sig_Wait counts, 0, 0)" using assms(2) by (simp add: sig_ok_def list_all_iff sig_result_ok_def sig_idle_def)
  from sig_run_ok [OF this assms(1)] show ?thesis by (simp add: sig_ok_def)
qed

text \<open>One write can serve two readers, a write that comes between the wait and the consumption of a reader is lost, and so is the data when the copy fails.\<close>

lemma one_write_two_reads:
  "sig_run [Writer, Reader 0 False False, Reader 1 False False, Reader 0 False False, Reader 1 False False] ([Sig_Wait 5, Sig_Wait 5], 0, 0)
    = Some ([Sig_Done 5 ''hello'', Sig_Done 5 ''hello''], 0, 1)"
  by (simp add: sig_read_step_def sig_write_def)

lemma write_lost:
  "sig_run [Writer, Reader 0 False False, Writer, Reader 0 False False] ([Sig_Wait 5, Sig_Wait 5], 0, 0)
    = Some ([Sig_Done 5 ''hello'', Sig_Wait 5], 0, 2)"
  by (simp add: sig_read_step_def sig_write_def)

section \<open>kthread_multi\<close>

text \<open>\<open>started i\<close> is whether \<open>kthread_run\<close> succeeds for thread \<open>i\<close>; the table has eight entries, \<open>None\<close> being a null pointer.\<close>

definition MAX_THREADS :: int where "MAX_THREADS = 8"

fun create_threads :: "(nat \<Rightarrow> bool) \<Rightarrow> nat \<Rightarrow> nat \<Rightarrow> nat option list \<Rightarrow> nat option list option" where
  "create_threads started i 0 threads = Some threads"
| "create_threads started i (Suc k) threads =
     (if i < length threads then create_threads started (i + 1) k (threads[i := (if started i then Some i else None)]) else None)"

definition kthread_multi_init :: "(nat \<Rightarrow> bool) \<Rightarrow> int \<Rightarrow> (int \<times> nat option list) option" where
  "kthread_multi_init started num_threads =
     (let n = (if num_threads > MAX_THREADS then MAX_THREADS else num_threads)
      in map_option (Pair n) (create_threads started 0 (nat n) (replicate 8 None)))"

text \<open>The threads that exit stops, in order.\<close>

fun stop_threads :: "nat \<Rightarrow> nat \<Rightarrow> nat option list \<Rightarrow> nat list option" where
  "stop_threads i 0 threads = Some []"
| "stop_threads i (Suc k) threads =
     (if i < length threads then
        map_option (\<lambda>rest. (case threads ! i of None \<Rightarrow> rest | Some t \<Rightarrow> t # rest)) (stop_threads (i + 1) k threads)
      else None)"

definition kthread_multi_exit :: "int \<times> nat option list \<Rightarrow> nat list option" where
  "kthread_multi_exit s = stop_threads 0 (nat (fst s)) (snd s)"

lemma create_threads_run:
  "i + k \<le> length threads \<Longrightarrow>
     create_threads started i k threads =
       Some (take i threads @ map (\<lambda>j. if started j then Some j else None) [i..<i + k] @ drop (i + k) threads)"
proof (induction k arbitrary: i threads)
  case (Suc k)
  have "[i..<i + Suc k] = i # [i + 1..<i + 1 + k]" by (simp add: upt_conv_Cons)
  then show ?case using Suc by (simp add: take_Suc_conv_app_nth)
qed simp

lemma stop_threads_run:
  "i + k \<le> length threads \<Longrightarrow> stop_threads i k threads = Some (List.map_filter (\<lambda>j. threads ! j) [i..<i + k])"
proof (induction k arbitrary: i)
  case (Suc k)
  have "[i..<i + Suc k] = i # [i + 1..<i + 1 + k]" by (simp add: upt_conv_Cons)
  then show ?case using Suc by (simp add: List.map_filter_simps split: option.splits)
qed (simp add: List.map_filter_simps)

lemma map_filter_same: "(\<And>x. x \<in> set xs \<Longrightarrow> f x = g x) \<Longrightarrow> List.map_filter f xs = List.map_filter g xs"
  by (induction xs) (auto simp: List.map_filter_simps split: option.splits)

text \<open>For every parameter the accesses stay inside the table, and exit stops exactly the threads that were created.\<close>

theorem kthread_multi_stops:
  "Option.bind (kthread_multi_init started num_threads) kthread_multi_exit = Some (filter started [0..<nat (min num_threads 8)])"
proof -
  let ?n = "nat (min num_threads 8)"
  have n: "(if num_threads > MAX_THREADS then MAX_THREADS else num_threads) = min num_threads 8" by (simp add: MAX_THREADS_def)
  have "?n \<le> 8" by simp
  let ?ts = "map (\<lambda>j. if started j then Some j else None) [0..<?n] @ replicate (8 - ?n) None"
  have i: "kthread_multi_init started num_threads = Some (min num_threads 8, ?ts)"
    using create_threads_run [of 0 ?n "replicate 8 None" started] \<open>?n \<le> 8\<close> by (simp add: kthread_multi_init_def Let_def n)
  have "stop_threads 0 ?n ?ts = Some (List.map_filter (\<lambda>j. ?ts ! j) [0..<?n])"
    using stop_threads_run [of 0 ?n ?ts] \<open>?n \<le> 8\<close> by simp
  also have "List.map_filter (\<lambda>j. ?ts ! j) [0..<?n] = List.map_filter (\<lambda>j. if started j then Some j else None) [0..<?n]"
  proof (rule map_filter_same)
    fix j assume "j \<in> set [0..<?n]"
    then have "j < length (map (\<lambda>j. if started j then Some j else None) [0..<?n])" by simp
    then show "?ts ! j = (if started j then Some j else None)" by (simp only: nth_append if_True nth_map) simp
  qed
  also have "\<dots> = filter started [0..<?n]"
    by (auto simp: List.map_filter_def comp_def intro!: map_idI)
  finally show ?thesis by (simp add: i kthread_multi_exit_def)
qed

section \<open>threaded_irq_demo\<close>

text \<open>The interrupt handler and the threaded one: the thread is woken by the first, and runs once for all interrupts that came while it was not running.\<close>

record irq_state =
  hard_count :: nat
  thread_count :: nat
  woken :: bool
  ilog :: "string list"

definition hardirq_handler :: "irq_state \<Rightarrow> irq_state" where
  "hardirq_handler s = s\<lparr>hard_count := hard_count s + 1, woken := True\<rparr>"

definition thread_handler :: "irq_state \<Rightarrow> irq_state" where
  "thread_handler s =
     (let s1 = s\<lparr>thread_count := thread_count s + 1\<rparr> in
      if thread_count s1 \<le> 10 then
        s1\<lparr>ilog := ilog s1 @ [''hard='' @ fmt_d (int (hard_count s1)) @ '', thread='' @ fmt_d (int (thread_count s1))]\<rparr>
      else s1)"

datatype irq_actor = Interrupt | Irq_Thread

fun irq_step :: "irq_actor \<Rightarrow> irq_state \<Rightarrow> irq_state" where
  "irq_step Interrupt s = hardirq_handler s"
| "irq_step Irq_Thread s = (if woken s then (thread_handler s)\<lparr>woken := False\<rparr> else s)"

definition irq_start :: irq_state where
  "irq_start = \<lparr>hard_count = 0, thread_count = 0, woken = False, ilog = []\<rparr>"

text \<open>The thread never runs more often than there were interrupts, it has run after the last interrupt or is about to, and it logs ten times at most.\<close>

theorem threaded_irq_counts:
  "let s = fold irq_step as irq_start in
     thread_count s + (if woken s then 1 else 0) \<le> hard_count s \<and> hard_count s = length (filter (\<lambda>a. a = Interrupt) as) \<and>
     (thread_count s = 0 \<and> \<not> woken s) = (hard_count s = 0) \<and> length (ilog s) = min 10 (thread_count s)"
proof (induction as rule: rev_induct)
  case Nil
  show ?case by (simp add: irq_start_def)
next
  case (snoc a as)
  then show ?case
    by (cases a) (auto simp: Let_def hardirq_handler_def thread_handler_def split: if_splits)
qed

end
