(* ===== verification/Refinement.thy ===== *)
theory Refinement
  imports CPrelude
begin

text \<open>
  The refinement interface shared by the components that have an abstract specification: a state
  with an invariant, an abstraction, a partial step (\<open>None\<close> is undefined behaviour of the code) and
  a total specification step. The one law is that a step from a good state on a valid request is
  defined, keeps the invariant and returns what the specification returns. The client lemmas lift
  it to every sequence of requests.
\<close>

fun run_impl :: "('s \<Rightarrow> 'o \<Rightarrow> ('r \<times> 's) option) \<Rightarrow> 's \<Rightarrow> 'o list \<Rightarrow> ('r list \<times> 's) option" where
  "run_impl step s [] = Some ([], s)"
| "run_impl step s (x # xs) =
     (case step s x of
        None \<Rightarrow> None
      | Some (r, s') \<Rightarrow> map_option (\<lambda>(rs, t). (r # rs, t)) (run_impl step s' xs))"

fun run_spec :: "('a \<Rightarrow> 'o \<Rightarrow> 'r \<times> 'a) \<Rightarrow> 'a \<Rightarrow> 'o list \<Rightarrow> 'r list \<times> 'a" where
  "run_spec spec a [] = ([], a)"
| "run_spec spec a (x # xs) =
     (case spec a x of (r, a') \<Rightarrow> (case run_spec spec a' xs of (rs, b) \<Rightarrow> (r # rs, b)))"

locale simulation =
  fixes inv :: "'s \<Rightarrow> bool"
    and abs :: "'s \<Rightarrow> 'a"
    and step :: "'s \<Rightarrow> 'o \<Rightarrow> ('r \<times> 's) option"
    and spec :: "'a \<Rightarrow> 'o \<Rightarrow> 'r \<times> 'a"
    and ok :: "'o \<Rightarrow> bool"
  assumes step_sim: "inv s \<Longrightarrow> ok x \<Longrightarrow>
    \<exists>r s'. step s x = Some (r, s') \<and> inv s' \<and> spec (abs s) x = (r, abs s')"
begin

lemma run_sim:
  "inv s \<Longrightarrow> list_all ok xs \<Longrightarrow>
     \<exists>rs t. run_impl step s xs = Some (rs, t) \<and> inv t \<and> run_spec spec (abs s) xs = (rs, abs t)"
proof (induction xs arbitrary: s)
  case Nil
  then show ?case by simp
next
  case (Cons x xs)
  then obtain r s' where s': "step s x = Some (r, s')" "inv s'" "spec (abs s) x = (r, abs s')"
    using step_sim by (auto dest: step_sim)
  with Cons.IH [of s'] Cons.prems(2) show ?case by auto
qed

lemma run_defined: "inv s \<Longrightarrow> list_all ok xs \<Longrightarrow> run_impl step s xs \<noteq> None"
  using run_sim by blast

lemma run_invariant: "inv s \<Longrightarrow> list_all ok xs \<Longrightarrow> run_impl step s xs = Some (rs, t) \<Longrightarrow> inv t"
  using run_sim by fastforce

text \<open>Two good states with the same abstraction answer every request sequence alike.\<close>

lemma run_determined:
  assumes "inv s" and "inv t" and "abs s = abs t" and "list_all ok xs"
  shows "map_option fst (run_impl step s xs) = map_option fst (run_impl step t xs)"
  using run_sim [OF assms(1,4)] run_sim [OF assms(2,4)] assms(3) by auto

end

end
