(* ===== verification/KernelLists.thy ===== *)
theory KernelLists
  imports Refinement Bytes
begin

text \<open>
  The data structures of KernelProgramming/Handson/lab16_data_structures: the hash table of hashtable_demo.c
  and the linked list of klist_demo.c. List nodes live in a heap; reading or freeing a node that is not
  allocated is \<open>None\<close>. The intrusive lists of the kernel are lists of node addresses. Whether \<open>kmalloc\<close>
  succeeds is an argument of each call. The hash function of the kernel is an argument with values of
  \<open>MY_HASH_BITS\<close> bits.
\<close>

section \<open>Nodes\<close>

type_synonym 'a nodes = "'a option list"

text \<open>Allocation with the initial contents that the caller stores, at a new address.\<close>

definition kmalloc_node :: "bool \<Rightarrow> 'a \<Rightarrow> 'a nodes \<Rightarrow> (nat \<times> 'a nodes) option" where
  "kmalloc_node ok x ns = (if ok then Some (length ns, ns @ [Some x]) else None)"

definition node_at :: "nat \<Rightarrow> 'a nodes \<Rightarrow> 'a option" where
  "node_at a ns = (if a < length ns then ns ! a else None)"

definition kfree_node :: "nat \<Rightarrow> 'a nodes \<Rightarrow> 'a nodes option" where
  "kfree_node a ns = (if node_at a ns = None then None else Some (ns[a := None]))"

text \<open>The search of a list for the first node with a property, and the freeing of all nodes of a list.\<close>

fun find_node :: "('a \<Rightarrow> bool) \<Rightarrow> 'a nodes \<Rightarrow> nat list \<Rightarrow> nat option option" where
  "find_node P ns [] = Some None"
| "find_node P ns (a # as) =
     (case node_at a ns of None \<Rightarrow> None | Some x \<Rightarrow> if P x then Some (Some a) else find_node P ns as)"

primrec free_nodes :: "nat list \<Rightarrow> 'a nodes \<Rightarrow> 'a nodes option" where
  "free_nodes [] ns = Some ns"
| "free_nodes (a # as) ns = Option.bind (kfree_node a ns) (free_nodes as)"

definition strscpy32 :: "string \<Rightarrow> string" where
  "strscpy32 s = take 31 s"

section \<open>hashtable_demo\<close>

record student =
  st_id :: int
  st_name :: string
  st_grade :: int

record hash_table =
  hbuckets :: "nat list list"
  hnodes :: "student nodes"

definition HASH_SIZE :: nat where "HASH_SIZE = 16"

definition student_table :: hash_table where
  "student_table = \<lparr>hbuckets = replicate HASH_SIZE [], hnodes = []\<rparr>"

definition add_student :: "(int \<Rightarrow> 4 word) \<Rightarrow> bool \<Rightarrow> int \<Rightarrow> string \<Rightarrow> int \<Rightarrow> hash_table \<Rightarrow> hash_table" where
  "add_student h ok ident name grade t =
     (case kmalloc_node ok \<lparr>st_id = ident, st_name = strscpy32 name, st_grade = grade\<rparr> (hnodes t) of
        None \<Rightarrow> t
      | Some (s, ns) \<Rightarrow>
          (let b = unat (h ident) in t\<lparr>hnodes := ns, hbuckets := (hbuckets t)[b := s # hbuckets t ! b]\<rparr>))"

definition find_student :: "(int \<Rightarrow> 4 word) \<Rightarrow> int \<Rightarrow> hash_table \<Rightarrow> nat option option" where
  "find_student h ident t = find_node (\<lambda>s. st_id s = ident) (hnodes t) (hbuckets t ! unat (h ident))"

definition remove_student :: "(int \<Rightarrow> 4 word) \<Rightarrow> int \<Rightarrow> hash_table \<Rightarrow> hash_table option" where
  "remove_student h ident t =
     (case find_student h ident t of
        None \<Rightarrow> None
      | Some None \<Rightarrow> Some t
      | Some (Some s) \<Rightarrow>
          map_option (\<lambda>ns. t\<lparr>hnodes := ns, hbuckets := map (remove1 s) (hbuckets t)\<rparr>) (kfree_node s (hnodes t)))"

definition student_line :: "student \<Rightarrow> string" where
  "student_line s = ''id='' @ fmt_d (st_id s) @ '' name='' @ st_name s @ '' grade='' @ fmt_d (st_grade s)"

fun bucket_lines :: "nat \<Rightarrow> student nodes \<Rightarrow> nat list \<Rightarrow> string list option" where
  "bucket_lines b ns [] = Some []"
| "bucket_lines b ns (a # as) =
     (case node_at a ns of
        None \<Rightarrow> None
      | Some s \<Rightarrow> map_option (\<lambda>ls. (''  [bucket '' @ dec b @ ''] '' @ student_line s) # ls) (bucket_lines b ns as))"

fun table_lines :: "nat \<Rightarrow> student nodes \<Rightarrow> nat list list \<Rightarrow> string list option" where
  "table_lines b ns [] = Some []"
| "table_lines b ns (as # rest) = do { l \<leftarrow> bucket_lines b ns as; ls \<leftarrow> table_lines (b + 1) ns rest; Some (l @ ls) }"

definition print_all_students :: "hash_table \<Rightarrow> string list option" where
  "print_all_students t = map_option (\<lambda>ls. ''--- All Students ---'' # ls) (table_lines 0 (hnodes t) (hbuckets t))"

definition free_all_students :: "hash_table \<Rightarrow> hash_table option" where
  "free_all_students t =
     map_option (\<lambda>ns. t\<lparr>hnodes := ns, hbuckets := map (\<lambda>_. []) (hbuckets t)\<rparr>) (free_nodes (concat (hbuckets t)) (hnodes t))"

definition hash_empty :: "hash_table \<Rightarrow> bool" where
  "hash_empty t \<longleftrightarrow> list_all (\<lambda>b. b = []) (hbuckets t)"

text \<open>The module: \<open>mem\<close> says for each of the five allocations whether it succeeds. The result holds the lines printed.\<close>

definition hashtable_demo_init :: "(int \<Rightarrow> 4 word) \<Rightarrow> (nat \<Rightarrow> bool) \<Rightarrow> hash_table \<Rightarrow> (int \<times> string list \<times> hash_table) option" where
  "hashtable_demo_init h mem t0 =
     (let t = add_student h (mem 4) 117 ''Eve'' 99 (add_student h (mem 3) 404 ''Diana'' 78
        (add_student h (mem 2) 303 ''Charlie'' 91 (add_student h (mem 1) 202 ''Bob'' 87 (add_student h (mem 0) 101 ''Alice'' 95 t0)))) in
      do {
        l1 \<leftarrow> print_all_students t;
        found \<leftarrow> find_student h 303 t;
        l2 \<leftarrow> (case found of
                None \<Rightarrow> Some []
              | Some a \<Rightarrow> map_option (\<lambda>s. [''Found: '' @ student_line s]) (node_at a (hnodes t)));
        t1 \<leftarrow> remove_student h 202 t;
        l3 \<leftarrow> print_all_students t1;
        Some (0, l1 @ l2 @ l3 @ [''Empty? '' @ (if hash_empty t1 then ''YES'' else ''NO'')], t1)
      })"

definition hashtable_demo_exit :: "hash_table \<Rightarrow> hash_table option" where
  "hashtable_demo_exit t = free_all_students t"

section \<open>klist_demo\<close>

record city =
  ct_name :: string
  ct_population :: int

record klist =
  city_list :: "nat list"
  cnodes :: "city nodes"

definition add_city :: "bool \<Rightarrow> string \<Rightarrow> int \<Rightarrow> klist \<Rightarrow> klist" where
  "add_city ok name population l =
     (case kmalloc_node ok \<lparr>ct_name = strscpy32 name, ct_population = population\<rparr> (cnodes l) of
        None \<Rightarrow> l
      | Some (c, ns) \<Rightarrow> l\<lparr>cnodes := ns, city_list := city_list l @ [c]\<rparr>)"

fun city_lines :: "nat \<Rightarrow> city nodes \<Rightarrow> nat list \<Rightarrow> string list option" where
  "city_lines i ns [] = Some [''--- Total: '' @ dec i @ '' cities ---'']"
| "city_lines i ns (a # as) =
     (case node_at a ns of
        None \<Rightarrow> None
      | Some c \<Rightarrow>
          map_option (\<lambda>ls. (''  ['' @ dec i @ ''] '' @ ct_name c @ '' (pop: '' @ fmt_d (ct_population c) @ '')'') # ls)
            (city_lines (i + 1) ns as))"

definition print_cities :: "klist \<Rightarrow> string list option" where
  "print_cities l = map_option (\<lambda>ls. ''--- City List ---'' # ls) (city_lines 0 (cnodes l) (city_list l))"

definition delete_city :: "string \<Rightarrow> klist \<Rightarrow> (bool \<times> klist) option" where
  "delete_city name l =
     (case find_node (\<lambda>c. ct_name c = name) (cnodes l) (city_list l) of
        None \<Rightarrow> None
      | Some None \<Rightarrow> Some (False, l)
      | Some (Some c) \<Rightarrow>
          map_option (\<lambda>ns. (True, l\<lparr>cnodes := ns, city_list := remove1 c (city_list l)\<rparr>)) (kfree_node c (cnodes l)))"

definition free_all_cities :: "klist \<Rightarrow> klist option" where
  "free_all_cities l = map_option (\<lambda>ns. l\<lparr>cnodes := ns, city_list := []\<rparr>) (free_nodes (city_list l) (cnodes l))"

definition klist_demo_init :: "(nat \<Rightarrow> bool) \<Rightarrow> klist \<Rightarrow> (int \<times> string list \<times> klist) option" where
  "klist_demo_init mem l0 =
     (let l = add_city (mem 4) ''Hyderabad'' 10500000 (add_city (mem 3) ''Chennai'' 10000000 (add_city (mem 2) ''Delhi'' 19000000
        (add_city (mem 1) ''Mumbai'' 20000000 (add_city (mem 0) ''Bangalore'' 12000000 l0)))) in
      do {
        l1 \<leftarrow> print_cities l;
        (found, l') \<leftarrow> delete_city ''Delhi'' l;
        l2 \<leftarrow> print_cities l';
        Some (0, l1 @ [''List empty? '' @ (if city_list l = [] then ''YES'' else ''NO'')] @
          [(if found then ''Deleting city: Delhi'' else ''City not found: Delhi'')] @ l2 @
          [''Count via list_for_each: '' @ dec (length (city_list l'))], l')
      })"

definition klist_demo_exit :: "klist \<Rightarrow> klist option" where
  "klist_demo_exit l = free_all_cities l"

section \<open>Nodes: lemmas\<close>

text \<open>The contents of the nodes of a list, and lists all of whose nodes are allocated.\<close>

definition node_vals :: "'a nodes \<Rightarrow> nat list \<Rightarrow> 'a list" where
  "node_vals ns as = map (\<lambda>a. the (node_at a ns)) as"

definition live :: "'a nodes \<Rightarrow> nat list \<Rightarrow> bool" where
  "live ns as \<longleftrightarrow> (\<forall>a \<in> set as. node_at a ns \<noteq> None)"

definition allocated :: "'a nodes \<Rightarrow> nat set" where
  "allocated ns = {a. node_at a ns \<noteq> None}"

lemma live_bound: "live ns as \<Longrightarrow> a \<in> set as \<Longrightarrow> a < length ns"
  by (auto simp: live_def node_at_def split: if_splits)

lemma live_simps [simp]: "live ns []" "live ns (a # as) \<longleftrightarrow> node_at a ns \<noteq> None \<and> live ns as"
  by (auto simp: live_def)

lemma node_vals_simps [simp]: "node_vals ns [] = []" "node_vals ns (a # as) = the (node_at a ns) # node_vals ns as"
  "node_vals ns (as @ bs) = node_vals ns as @ node_vals ns bs" "length (node_vals ns as) = length as"
  by (simp_all add: node_vals_def)

lemma node_vals_tl: "node_vals ns (tl as) = tl (node_vals ns as)"
  by (simp add: node_vals_def map_tl)

lemma node_at_alloc: "node_at a (ns @ [Some x]) = (if a = length ns then Some x else node_at a ns)"
  by (auto simp: node_at_def nth_append)

lemma node_at_free: "node_at b (ns[a := None]) = (if a = b then None else node_at b ns)"
  by (auto simp: node_at_def nth_list_update)

lemma allocated_alloc: "allocated (ns @ [Some x]) = insert (length ns) (allocated ns)"
  by (auto simp: allocated_def node_at_alloc)

lemma allocated_free: "allocated (ns[a := None]) = allocated ns - {a}"
  by (auto simp: allocated_def node_at_free)

lemma node_vals_alloc: "live ns as \<Longrightarrow> node_vals (ns @ [Some x]) as = node_vals ns as"
  using live_bound [of ns as] by (force simp: node_vals_def node_at_alloc)

lemma node_vals_free: "a \<notin> set as \<Longrightarrow> node_vals (ns[a := None]) as = node_vals ns as"
  by (auto simp: node_vals_def node_at_free)

lemma live_alloc: "live ns as \<Longrightarrow> live (ns @ [Some x]) as"
  by (auto simp: live_def node_at_alloc)

lemma live_free: "live ns as \<Longrightarrow> a \<notin> set as \<Longrightarrow> live (ns[a := None]) as"
  by (auto simp: live_def node_at_free)

lemma find_node_value:
  "live ns as \<Longrightarrow> find_node P ns as = Some (List.find (\<lambda>a. P (the (node_at a ns))) as)"
  by (induction as) auto

lemma find_filter: "List.find P xs = (case filter P xs of [] \<Rightarrow> None | y # _ \<Rightarrow> Some y)"
  by (induction xs) auto

lemma filter_node_vals: "filter P (node_vals ns as) = node_vals ns (filter (\<lambda>a. P (the (node_at a ns))) as)"
  by (induction as) auto

lemma free_nodes_value:
  "live ns as \<Longrightarrow> distinct as \<Longrightarrow> \<exists>ns'. free_nodes as ns = Some ns' \<and> allocated ns' = allocated ns - set as"
proof (induction as arbitrary: ns)
  case (Cons a as)
  have "live (ns[a := None]) as" using Cons.prems by (auto intro: live_free)
  then obtain ns' where "free_nodes as (ns[a := None]) = Some ns'" "allocated ns' = allocated (ns[a := None]) - set as"
    using Cons by auto
  with Cons.prems(1) show ?case by (auto simp: kfree_node_def allocated_free)
qed simp

text \<open>Unlinking the first node with a property takes the first such value out and leaves the others.\<close>

lemma remove_first:
  assumes "List.find P as = Some a" and "distinct as"
  shows "a \<in> set as" "P a" "filter P (remove1 a as) = tl (filter P as)"
    "\<And>Q. \<not> Q a \<Longrightarrow> filter Q (remove1 a as) = filter Q as"
proof -
  show m: "a \<in> set as" "P a" using assms(1) by (auto simp: find_Some_iff)
  obtain rest where "filter P as = a # rest" using assms(1) by (auto simp: find_filter split: list.splits)
  then show "filter P (remove1 a as) = tl (filter P as)" by (simp add: filter_remove1)
  show "filter Q (remove1 a as) = filter Q as" if "\<not> Q a" for Q
    using that by (simp add: filter_remove1 remove1_idem)
qed

section \<open>The hash table refines a multimap\<close>

text \<open>
  The abstract table gives for each key the students that were added under it and not removed, the latest
  first. Adding puts one in front, looking up reads the front, removing takes the front away.
\<close>

type_synonym student_map = "int \<Rightarrow> student list"

definition table_abs :: "(int \<Rightarrow> 4 word) \<Rightarrow> hash_table \<Rightarrow> student_map" where
  "table_abs h t = (\<lambda>k. filter (\<lambda>s. st_id s = k) (node_vals (hnodes t) (hbuckets t ! unat (h k))))"

definition table_ok :: "(int \<Rightarrow> 4 word) \<Rightarrow> hash_table \<Rightarrow> bool" where
  "table_ok h t \<longleftrightarrow> length (hbuckets t) = HASH_SIZE \<and> distinct (concat (hbuckets t)) \<and>
     set (concat (hbuckets t)) = allocated (hnodes t) \<and>
     (\<forall>b < HASH_SIZE. \<forall>s \<in> set (node_vals (hnodes t) (hbuckets t ! b)). unat (h (st_id s)) = b)"

datatype table_req = Add bool int string int | Find int | Remove int
datatype table_resp = Done | Found "student option"

definition table_step :: "(int \<Rightarrow> 4 word) \<Rightarrow> hash_table \<Rightarrow> table_req \<Rightarrow> (table_resp \<times> hash_table) option" where
  "table_step h t req =
     (case req of
        Add ok k name g \<Rightarrow> Some (Done, add_student h ok k name g t)
      | Find k \<Rightarrow> map_option (\<lambda>r. (Found (case r of None \<Rightarrow> None | Some a \<Rightarrow> node_at a (hnodes t)), t)) (find_student h k t)
      | Remove k \<Rightarrow> map_option (\<lambda>t'. (Done, t')) (remove_student h k t))"

definition table_spec :: "student_map \<Rightarrow> table_req \<Rightarrow> table_resp \<times> student_map" where
  "table_spec m req =
     (case req of
        Add ok k name g \<Rightarrow>
          (Done, if ok then m(k := \<lparr>st_id = k, st_name = take 31 name, st_grade = g\<rparr> # m k) else m)
      | Find k \<Rightarrow> (Found (case m k of [] \<Rightarrow> None | s # _ \<Rightarrow> Some s), m)
      | Remove k \<Rightarrow> (Done, m(k := tl (m k))))"

lemma bucket_bound: "unat (w :: 4 word) < HASH_SIZE"
  using unsigned_less [of w, where ?'a = nat] by (simp add: HASH_SIZE_def)

lemma distinct_concat_disjoint:
  "distinct (concat xss) \<Longrightarrow> i < length xss \<Longrightarrow> j < length xss \<Longrightarrow> i \<noteq> j \<Longrightarrow> set (xss ! i) \<inter> set (xss ! j) = {}"
proof (induction xss arbitrary: i j)
  case (Cons xs xss)
  have out: "set xs \<inter> set (xss ! k) = {}" if "k < length xss" for k
    using Cons.prems(1) that by (fastforce dest: nth_mem)
  show ?case using Cons.prems Cons.IH out by (cases i; cases j) (auto simp: Int_commute)
qed simp

lemma table_ok_bucket:
  assumes "table_ok h t" and "b < HASH_SIZE"
  shows "live (hnodes t) (hbuckets t ! b)" "distinct (hbuckets t ! b)"
proof -
  have "set (hbuckets t ! b) \<subseteq> set (concat (hbuckets t))" using assms by (auto simp: table_ok_def)
  then show "live (hnodes t) (hbuckets t ! b)" using assms(1) by (auto simp: table_ok_def live_def allocated_def)
  show "distinct (hbuckets t ! b)" using assms by (auto simp: table_ok_def distinct_concat_iff)
qed

lemma find_student_value:
  "table_ok h t \<Longrightarrow> find_student h k t =
     Some (List.find (\<lambda>a. st_id (the (node_at a (hnodes t))) = k) (hbuckets t ! unat (h k)))"
  using table_ok_bucket [OF _ bucket_bound] by (simp add: find_student_def find_node_value)

lemma concat_insert:
  "i < length xss \<Longrightarrow> set (concat (xss[i := a # xss ! i])) = insert a (set (concat xss)) \<and>
     (distinct (concat (xss[i := a # xss ! i])) \<longleftrightarrow> a \<notin> set (concat xss) \<and> distinct (concat xss))"
  by (induction xss arbitrary: i) (auto split: nat.split)

lemma concat_remove:
  "distinct (concat xss) \<Longrightarrow> set (concat (map (remove1 a) xss)) = set (concat xss) - {a} \<and>
     distinct (concat (map (remove1 a) xss))"
  by (induction xss) (auto simp: distinct_remove1 set_remove1_eq)

lemma add_student_refines:
  assumes "table_ok h t"
  shows "table_ok h (add_student h ok k nm g t)"
    "table_spec (table_abs h t) (Add ok k nm g) = (Done, table_abs h (add_student h ok k nm g t))"
proof -
  define s where "s = \<lparr>st_id = k, st_name = take 31 nm, st_grade = g\<rparr>"
  define b where "b = unat (h k)"
  define t' where "t' = t\<lparr>hnodes := hnodes t @ [Some s], hbuckets := (hbuckets t)[b := length (hnodes t) # hbuckets t ! b]\<rparr>"
  have t': "add_student h ok k nm g t = (if ok then t' else t)"
    by (simp add: add_student_def kmalloc_node_def strscpy32_def s_def b_def t'_def Let_def)
  have l: "length (hbuckets t) = HASH_SIZE" "b < HASH_SIZE" using assms bucket_bound by (simp_all add: table_ok_def b_def)
  have new: "length (hnodes t) \<notin> set (concat (hbuckets t))"
    using assms by (auto simp: table_ok_def allocated_def node_at_def)
  have vals: "node_vals (hnodes t') (hbuckets t' ! c) =
      (if c = b then s # node_vals (hnodes t) (hbuckets t ! b) else node_vals (hnodes t) (hbuckets t ! c))"
    if "c < HASH_SIZE" for c
    using table_ok_bucket(1) [OF assms that] table_ok_bucket(1) [OF assms l(2)] l that
    by (simp add: t'_def node_at_alloc node_vals_alloc)
  have "table_ok h t'"
    unfolding table_ok_def
  proof (intro conjI allI impI)
    show "length (hbuckets t') = HASH_SIZE" by (simp add: t'_def l)
    show "distinct (concat (hbuckets t'))" "set (concat (hbuckets t')) = allocated (hnodes t')"
      using assms new concat_insert [of b "hbuckets t" "length (hnodes t)"] l
      by (simp_all add: t'_def table_ok_def allocated_alloc)
    show "\<forall>x \<in> set (node_vals (hnodes t') (hbuckets t' ! c)). unat (h (st_id x)) = c" if "c < HASH_SIZE" for c
      using assms that by (simp add: vals) (auto simp: table_ok_def s_def b_def)
  qed
  moreover have "table_abs h t' = (table_abs h t)(k := s # table_abs h t k)"
    by (rule ext) (auto simp: table_abs_def vals [OF bucket_bound] b_def s_def)
  ultimately show "table_ok h (add_student h ok k nm g t)"
    "table_spec (table_abs h t) (Add ok k nm g) = (Done, table_abs h (add_student h ok k nm g t))"
    using assms by (simp_all add: t' table_spec_def s_def)
qed

lemma find_student_refines:
  assumes "table_ok h t"
  shows "table_step h t (Find k) = Some (fst (table_spec (table_abs h t) (Find k)), t)"
proof -
  let ?P = "\<lambda>a. st_id (the (node_at a (hnodes t))) = k" and ?b = "hbuckets t ! unat (h k)"
  have f: "find_student h k t = Some (List.find ?P ?b)" using assms by (rule find_student_value)
  have "table_abs h t k = node_vals (hnodes t) (filter ?P ?b)" by (simp add: table_abs_def filter_node_vals)
  moreover have "live (hnodes t) ?b" using table_ok_bucket(1) [OF assms bucket_bound] .
  then have "live (hnodes t) (filter ?P ?b)" by (auto simp: live_def)
  ultimately show ?thesis
    using f by (cases "filter ?P ?b") (auto simp: table_step_def table_spec_def find_filter)
qed

lemma remove_student_refines:
  assumes "table_ok h t"
  shows "\<exists>t'. remove_student h k t = Some t' \<and> table_ok h t' \<and>
    table_abs h t' = (table_abs h t)(k := tl (table_abs h t k))"
proof -
  let ?P = "\<lambda>a. st_id (the (node_at a (hnodes t))) = k" and ?b = "hbuckets t ! unat (h k)"
  have f: "find_student h k t = Some (List.find ?P ?b)" using assms by (rule find_student_value)
  show ?thesis
  proof (cases "List.find ?P ?b")
    case None
    then have "table_abs h t k = []" by (simp add: table_abs_def filter_node_vals find_filter split: list.splits)
    then have "(table_abs h t)(k := tl (table_abs h t k)) = table_abs h t" by (simp add: fun_upd_idem)
    with None f assms show ?thesis by (simp add: remove_student_def)
  next
    case (Some a)
    have live_b: "live (hnodes t) ?b" "distinct ?b" using table_ok_bucket [OF assms bucket_bound] by blast+
    note first = remove_first [OF Some live_b(2)]
    have an: "node_at a (hnodes t) \<noteq> None" using first(1) live_b(1) by (simp add: live_def)
    define t' where "t' = t\<lparr>hnodes := (hnodes t)[a := None], hbuckets := map (remove1 a) (hbuckets t)\<rparr>"
    have t': "remove_student h k t = Some t'" using f Some an by (auto simp: remove_student_def kfree_node_def t'_def)
    have l: "length (hbuckets t) = HASH_SIZE" using assms by (simp add: table_ok_def)
    have vals: "node_vals (hnodes t') (hbuckets t' ! c) = node_vals (hnodes t) (remove1 a (hbuckets t ! c))"
      if "c < HASH_SIZE" for c
    proof -
      have "distinct (hbuckets t ! c)" using table_ok_bucket(2) [OF assms that] .
      then have "a \<notin> set (remove1 a (hbuckets t ! c))" by simp
      with that l show ?thesis by (simp add: t'_def node_vals_free)
    qed
    have "table_ok h t'"
      unfolding table_ok_def
    proof (intro conjI allI impI)
      show "length (hbuckets t') = HASH_SIZE" by (simp add: t'_def l)
      show "distinct (concat (hbuckets t'))" "set (concat (hbuckets t')) = allocated (hnodes t')"
        using assms concat_remove [of "hbuckets t" a] by (simp_all add: t'_def table_ok_def allocated_free)
      show "\<forall>x \<in> set (node_vals (hnodes t') (hbuckets t' ! c)). unat (h (st_id x)) = c" if "c < HASH_SIZE" for c
        using assms that unfolding vals [OF that] by (auto simp: table_ok_def node_vals_def dest: subsetD [OF set_remove1_subset])
    qed
    moreover have "table_abs h t' = (table_abs h t)(k := tl (table_abs h t k))"
    proof
      fix k'
      let ?Q = "\<lambda>a. st_id (the (node_at a (hnodes t))) = k'" and ?c = "hbuckets t ! unat (h k')"
      have q: "table_abs h t' k' = node_vals (hnodes t) (filter ?Q (remove1 a ?c))"
        by (simp add: table_abs_def vals [OF bucket_bound] filter_node_vals)
      show "table_abs h t' k' = ((table_abs h t)(k := tl (table_abs h t k))) k'"
      proof (cases "k' = k")
        case True
        have "table_abs h t' k = node_vals (hnodes t) (tl (filter ?P ?b))" using q first(3) True by simp
        then show ?thesis using True by (simp add: table_abs_def filter_node_vals node_vals_tl)
      next
        case False
        then have "\<not> ?Q a" using first(2) by simp
        then have "filter ?Q (remove1 a ?c) = filter ?Q ?c" by (simp add: filter_remove1 remove1_idem)
        then show ?thesis using False q by (simp add: table_abs_def filter_node_vals)
      qed
    qed
    ultimately show ?thesis using t' by blast
  qed
qed

interpretation students: simulation "table_ok h" "table_abs h" "table_step h" table_spec "\<lambda>_. True"
proof
  fix t req assume t: "table_ok h t"
  show "\<exists>r t'. table_step h t req = Some (r, t') \<and> table_ok h t' \<and> table_spec (table_abs h t) req = (r, table_abs h t')"
  proof (cases req)
    case (Add ok k nm g)
    with add_student_refines [OF t] show ?thesis by (simp add: table_step_def)
  next
    case (Find k)
    with find_student_refines [OF t] t show ?thesis by (simp add: table_spec_def)
  next
    case (Remove k)
    with remove_student_refines [OF t, of k] show ?thesis by (auto simp: table_step_def table_spec_def)
  qed
qed

lemma student_table_ok: "table_ok h student_table" "table_abs h student_table = (\<lambda>k. [])"
  using bucket_bound by (auto simp: table_ok_def student_table_def table_abs_def allocated_def node_at_def fun_eq_iff)

lemma free_all_students_frees:
  assumes "table_ok h t"
  shows "\<exists>t'. free_all_students t = Some t' \<and> allocated (hnodes t') = {} \<and> hash_empty t'"
proof -
  have "live (hnodes t) (concat (hbuckets t))" "distinct (concat (hbuckets t))"
    using assms by (auto simp: table_ok_def live_def allocated_def)
  then obtain ns where "free_nodes (concat (hbuckets t)) (hnodes t) = Some ns"
    "allocated ns = allocated (hnodes t) - set (concat (hbuckets t))" using free_nodes_value by blast
  with assms show ?thesis by (simp add: free_all_students_def table_ok_def hash_empty_def list_all_iff)
qed

lemma lines_defined:
  "live ns as \<Longrightarrow> \<exists>ls. bucket_lines b ns as = Some ls"
  "(\<And>as. as \<in> set bs \<Longrightarrow> live ns as) \<Longrightarrow> \<exists>ls. table_lines b ns bs = Some ls"
proof -
  show l: "\<exists>ls. bucket_lines b ns as = Some ls" if "live ns as" for as b using that by (induction as) auto
  show "\<exists>ls. table_lines b ns bs = Some ls" if "\<And>as. as \<in> set bs \<Longrightarrow> live ns as"
    using that
  proof (induction bs arbitrary: b)
    case (Cons as bs)
    obtain l where l: "bucket_lines b ns as = Some l" using l [of as b] Cons.prems by auto
    obtain ls where "table_lines (b + 1) ns bs = Some ls" using Cons by fastforce
    with l show ?case by simp
  qed simp
qed

lemma print_all_students_defined: "table_ok h t \<Longrightarrow> \<exists>ls. print_all_students t = Some ls"
  using table_ok_bucket(1) [of h t] lines_defined(2) [of "hbuckets t" "hnodes t" 0]
  by (auto simp: print_all_students_def table_ok_def in_set_conv_nth)

text \<open>The module runs without touching a freed node and frees all it allocated, whatever allocations fail.\<close>

lemma hashtable_demo_frees:
  "\<exists>ls t t'. hashtable_demo_init h mem student_table = Some (0, ls, t) \<and> hashtable_demo_exit t = Some t' \<and>
     allocated (hnodes t') = {} \<and> hash_empty t'"
proof -
  define t where "t = add_student h (mem 4) 117 ''Eve'' 99 (add_student h (mem 3) 404 ''Diana'' 78
        (add_student h (mem 2) 303 ''Charlie'' 91 (add_student h (mem 1) 202 ''Bob'' 87
          (add_student h (mem 0) 101 ''Alice'' 95 student_table))))"
  have t: "table_ok h t" unfolding t_def by (intro add_student_refines(1) student_table_ok)
  obtain l1 where l1: "print_all_students t = Some l1" using print_all_students_defined [OF t] by blast
  obtain found where f: "find_student h 303 t = Some found" using find_student_value [OF t] by blast
  have "\<exists>l2. (case found of None \<Rightarrow> Some [] | Some a \<Rightarrow> map_option (\<lambda>s. [''Found: '' @ student_line s]) (node_at a (hnodes t))) = Some l2"
  proof (cases found)
    case (Some a)
    then have "a \<in> set (hbuckets t ! unat (h 303))"
      using f find_student_value [OF t, of 303] by (auto simp: find_Some_iff)
    then have "node_at a (hnodes t) \<noteq> None" using table_ok_bucket(1) [OF t bucket_bound] by (auto simp: live_def)
    then show ?thesis using Some by auto
  qed simp
  then obtain l2 where l2: "(case found of None \<Rightarrow> Some [] | Some a \<Rightarrow> map_option (\<lambda>s. [''Found: '' @ student_line s]) (node_at a (hnodes t))) = Some l2"
    by blast
  obtain t1 where t1: "remove_student h 202 t = Some t1" "table_ok h t1" using remove_student_refines [OF t] by blast
  obtain l3 where l3: "print_all_students t1 = Some l3" using print_all_students_defined [OF t1(2)] by blast
  have "\<exists>ls. hashtable_demo_init h mem student_table = Some (0, ls, t1)"
    unfolding hashtable_demo_init_def Let_def t_def [symmetric] by (simp add: l1 f l2 t1 l3)
  with free_all_students_frees [OF t1(2)] show ?thesis by (auto simp: hashtable_demo_exit_def)
qed

text \<open>
  C23. The hash table is a map from student numbers to students, whatever the hash function: every sequence of
  additions, with or without memory, look-ups and removals runs without touching memory that is not allocated and
  answers as the abstract map does, the latest student with a number hiding the earlier ones. Freeing the table
  afterwards leaves no allocated node behind.
\<close>

theorem hashtable_refines_map:
  "\<exists>rs t t'. run_impl (table_step h) student_table reqs = Some (rs, t) \<and>
     rs = fst (run_spec table_spec (\<lambda>k. []) reqs) \<and>
     free_all_students t = Some t' \<and> list_all (\<lambda>n. n = None) (hnodes t') \<and> hash_empty t'"
proof -
  have "list_all (\<lambda>_. True) reqs" by (simp add: list_all_iff)
  from students.run_sim [OF student_table_ok(1) this]
  obtain rs t where r: "run_impl (table_step h) student_table reqs = Some (rs, t)" "table_ok h t"
    "run_spec table_spec (\<lambda>k. []) reqs = (rs, table_abs h t)"
    unfolding student_table_ok(2) by blast
  obtain t' where t': "free_all_students t = Some t'" "allocated (hnodes t') = {}" "hash_empty t'"
    using free_all_students_frees [OF r(2)] by blast
  have "list_all (\<lambda>n. n = None) (hnodes t')"
    unfolding list_all_length
  proof (intro allI impI)
    fix a assume "a < length (hnodes t')"
    moreover have "node_at a (hnodes t') = None" using t'(2) by (auto simp: allocated_def)
    ultimately show "hnodes t' ! a = None" by (simp add: node_at_def)
  qed
  with r t' show ?thesis by auto
qed

section \<open>The list refines a list\<close>

definition klist_ok :: "klist \<Rightarrow> bool" where
  "klist_ok l \<longleftrightarrow> distinct (city_list l) \<and> set (city_list l) = allocated (cnodes l)"

definition cities :: "klist \<Rightarrow> city list" where
  "cities l = node_vals (cnodes l) (city_list l)"

lemma klist_ok_live: "klist_ok l \<Longrightarrow> live (cnodes l) (city_list l)"
  by (auto simp: klist_ok_def live_def allocated_def)

lemma add_city_refines:
  assumes "klist_ok l"
  shows "klist_ok (add_city ok nm p l)"
    "cities (add_city ok nm p l) = cities l @ (if ok then [\<lparr>ct_name = take 31 nm, ct_population = p\<rparr>] else [])"
proof -
  have "length (cnodes l) \<notin> set (city_list l)" using assms by (auto simp: klist_ok_def allocated_def node_at_def)
  then show "klist_ok (add_city ok nm p l)"
    using assms by (auto simp: add_city_def kmalloc_node_def klist_ok_def allocated_alloc)
  show "cities (add_city ok nm p l) = cities l @ (if ok then [\<lparr>ct_name = take 31 nm, ct_population = p\<rparr>] else [])"
    using klist_ok_live [OF assms]
    by (simp add: add_city_def kmalloc_node_def cities_def node_vals_alloc node_at_alloc strscpy32_def)
qed

lemma delete_city_refines:
  assumes "klist_ok l"
  shows "\<exists>l'. delete_city nm l = Some (\<exists>c \<in> set (cities l). ct_name c = nm, l') \<and> klist_ok l' \<and>
    filter (\<lambda>c. ct_name c \<noteq> nm) (cities l') = filter (\<lambda>c. ct_name c \<noteq> nm) (cities l) \<and>
    filter (\<lambda>c. ct_name c = nm) (cities l') = tl (filter (\<lambda>c. ct_name c = nm) (cities l))"
proof -
  let ?P = "\<lambda>a. ct_name (the (node_at a (cnodes l))) = nm"
  have live: "live (cnodes l) (city_list l)" and d: "distinct (city_list l)"
    using klist_ok_live [OF assms] assms by (simp_all add: klist_ok_def)
  show ?thesis
  proof (cases "List.find ?P (city_list l)")
    case None
    then have n: "\<forall>c \<in> set (cities l). ct_name c \<noteq> nm" by (auto simp: find_None_iff cities_def node_vals_def)
    then have "filter (\<lambda>c. ct_name c = nm) (cities l) = []" by (simp add: filter_empty_conv)
    with None n live assms show ?thesis by (auto simp: delete_city_def find_node_value)
  next
    case (Some a)
    note first = remove_first [OF Some d]
    have an: "node_at a (cnodes l) \<noteq> None" using first(1) live by (simp add: live_def)
    define l' where "l' = l\<lparr>cnodes := (cnodes l)[a := None], city_list := remove1 a (city_list l)\<rparr>"
    have "\<exists>c \<in> set (cities l). ct_name c = nm" using first(1,2) by (auto simp: cities_def node_vals_def)
    then have r: "delete_city nm l = Some (\<exists>c \<in> set (cities l). ct_name c = nm, l')"
      using Some live an by (auto simp: delete_city_def find_node_value kfree_node_def l'_def)
    have "klist_ok l'" using assms d by (simp add: klist_ok_def l'_def allocated_free set_remove1_eq)
    moreover have v: "cities l' = node_vals (cnodes l) (remove1 a (city_list l))"
      using d by (simp add: cities_def l'_def node_vals_free)
    moreover have "filter (\<lambda>c. ct_name c \<noteq> nm) (cities l') = filter (\<lambda>c. ct_name c \<noteq> nm) (cities l)"
      using first(4) [of "\<lambda>a. \<not> ?P a"] first(2)
      unfolding v unfolding cities_def filter_node_vals by simp
    moreover have "filter (\<lambda>c. ct_name c = nm) (cities l') = tl (filter (\<lambda>c. ct_name c = nm) (cities l))"
      using first(3)
      unfolding v unfolding cities_def filter_node_vals by (simp add: node_vals_tl)
    ultimately show ?thesis using r by blast
  qed
qed

lemma free_all_cities_frees: "klist_ok l \<Longrightarrow> \<exists>l'. free_all_cities l = Some l' \<and> allocated (cnodes l') = {} \<and> cities l' = []"
  using free_nodes_value [OF klist_ok_live, of l] by (auto simp: klist_ok_def free_all_cities_def cities_def)

end
