(* ===== verification/LeakLabs.thy ===== *)
theory LeakLabs
  imports CHeap
begin

text \<open>
  The programs that leak on purpose: Debugging/Handson/lab03_valgrind/leak_demo.c, Debugging/Handson/lab02_sanitizers/memory_leak.c and
  SystemProgramming/Handson/lab13_memory/memory_leaks.c. What a leak checker is to report of each is a theorem, composed from what its functions leave
  allocated. \<open>%p\<close> is an argument; a file is its content, or \<open>None\<close> if it cannot be opened.
\<close>

definition void :: "'a cfun \<Rightarrow> unit cfun" where
  "void p = bindc p (\<lambda>_. ret ())"

section \<open>leak_demo\<close>

text \<open>A node has two fields.\<close>

fun build_nodes :: "nat \<Rightarrow> nat \<Rightarrow> pointer \<Rightarrow> pointer cfun" where
  "build_nodes i 0 head = ret head"
| "build_nodes i (Suc k) head =
     bindc (malloc 16 2) (\<lambda>n.
       thenc (write_cells n 0 [Num (int i)]) (thenc (write_cells n 1 [Ptr head]) (build_nodes (i + 1) k n)))"

definition build_list :: "int \<Rightarrow> pointer cfun" where
  "build_list count = build_nodes 0 (nat count) None"

fun leak_iterations :: "nat \<Rightarrow> nat \<Rightarrow> pointer \<Rightarrow> pointer cfun" where
  "leak_iterations i 0 data = ret data"
| "leak_iterations i (Suc k) data =
     bindc (malloc 128 128) (\<lambda>d. thenc (snprintf_to d 128 (''iteration '' @ fmt_d (int i))) (leak_iterations (i + 1) k d))"

definition loop_leak :: "int \<Rightarrow> unit cfun" where
  "loop_leak iterations =
     bindc (leak_iterations 0 (nat iterations) None) (\<lambda>data.
       bindc (read_string data 0) (\<lambda>s. seqc [print (''Last: '' @ s @ NL), free data]))"

definition process_file :: "string option \<Rightarrow> string \<Rightarrow> int cfun" where
  "process_file content filename =
     bindc (malloc 1024 1024) (\<lambda>buffer.
       if buffer = None then ret (- 1)
       else (case content of
           None \<Rightarrow> thenc (print (''Cannot open '' @ filename @ NL)) (ret (- 1))
         | Some text_read \<Rightarrow> thenc (write_cells buffer 0 (map Chr (take 1024 text_read))) (thenc (free buffer) (ret 0))))"

definition leak_demo :: "string option \<Rightarrow> unit cfun" where
  "leak_demo content = seqc
     [print (''=== Valgrind Leak Demo ==='' @ NL @ NL),
      print (''[1] Building leaked linked list...'' @ NL),
      void (build_list 5),
      print (''[2] Loop leak...'' @ NL),
      loop_leak 10,
      print (''[3] Error path leak...'' @ NL),
      void (process_file content ''/nonexistent/file.txt''),
      print (NL @ ''Done. Run with valgrind to see leak report.'' @ NL)]"

section \<open>memory_leak\<close>

definition leaky_function :: "(pointer \<Rightarrow> string) \<Rightarrow> int \<Rightarrow> unit cfun" where
  "leaky_function fmt_p size_arg =
     bindc (malloc (nat (cast_u64 size_arg)) (nat (cast_u64 size_arg))) (\<lambda>buf.
       if buf = None then ret ()
       else seqc
         [write_cells buf 0 (replicate (nat (cast_u64 size_arg)) (Chr CHR ''X'')),
          print (''Allocated '' @ fmt_d size_arg @ '' bytes at '' @ fmt_p buf @ '' (never freed!)'' @ NL)])"

definition overwrite_leak :: "pointer cfun" where
  "overwrite_leak =
     bindc (malloc 256 256) (\<lambda>old.
       thenc (strcpy old ''Important data'')
         (bindc (malloc 128 128) (\<lambda>ptr. thenc (strcpy ptr ''New data'') (ret ptr))))"

text \<open>The sums of the loop are of type \<open>int\<close>.\<close>

fun fill_sums :: "pointer \<Rightarrow> int \<Rightarrow> nat \<Rightarrow> nat \<Rightarrow> unit cfun" where
  "fill_sums data v i 0 = ret ()"
| "fill_sums data v i (Suc k) =
     (case arith32 (v + int i) of
        None \<Rightarrow> fail Int_Overflow
      | Some x \<Rightarrow> thenc (write_cells data i [Num x]) (fill_sums data v (i + 1) k))"

definition process_with_leak :: "int \<Rightarrow> int cfun" where
  "process_with_leak v =
     bindc (malloc 400 100) (\<lambda>data.
       if data = None then ret (- 1)
       else thenc (fill_sums data v 0 100)
         (if v < 0 then ret (- 1)
          else bindc (read_int data 50) (\<lambda>result. thenc (free data) (ret result))))"

definition memory_leak :: "(pointer \<Rightarrow> string) \<Rightarrow> unit cfun" where
  "memory_leak fmt_p = seqc
     [print (''=== Memory Leak Demo ==='' @ NL @ NL),
      print (''[1] Direct leak:'' @ NL),
      leaky_function fmt_p 1024,
      leaky_function fmt_p 512,
      print (NL @ ''[2] Overwrite leak:'' @ NL),
      bindc overwrite_leak (\<lambda>result. bindc (read_string result 0) (\<lambda>s. seqc [print (''Got: '' @ s @ NL), free result])),
      print (NL @ ''[3] Early-return leak:'' @ NL),
      void (process_with_leak (- 5)),
      void (process_with_leak 10),
      print (NL @ ''Program ending '' @ [CHR 0xE2, CHR 0x80, CHR 0x94] @ '' LeakSanitizer will report leaks below:'' @ NL)]"

section \<open>memory_leaks\<close>

text \<open>\<open>realloc\<close> of a block: a new block that begins with the elements of the old one, which is released, or nothing.\<close>

definition realloc :: "pointer \<Rightarrow> nat \<Rightarrow> nat \<Rightarrow> pointer cfun" where
  "realloc p sz n =
     bindc (heap_block p) (\<lambda>old.
       bindc (malloc sz n) (\<lambda>q.
         if q = None then ret None
         else thenc (\<lambda>m. (Inr (), m\<lparr>heap := (heap m)[the q := (heap m ! the q)\<lparr>cells := splice 0 (take n (cells old)) (cells (heap m ! the q))\<rparr>]\<rparr>))
           (thenc (free p) (ret q))))"

definition leak_direct :: "(pointer \<Rightarrow> string) \<Rightarrow> unit cfun" where
  "leak_direct fmt_p = thenc (print (''[Leak 1] Direct memory leak'' @ NL))
     (bindc (malloc 256 256) (\<lambda>buf. seqc
        [snprintf_to buf 256 ''This memory is never freed!'',
         print (''  Allocated 256 bytes at '' @ fmt_p buf @ NL)]))"

fun alloc_strings :: "nat \<Rightarrow> string \<Rightarrow> pointer \<Rightarrow> nat \<Rightarrow> nat \<Rightarrow> unit cfun" where
  "alloc_strings sz label arr i 0 = ret ()"
| "alloc_strings sz label arr i (Suc k) =
     bindc (malloc sz sz) (\<lambda>s.
       thenc (write_cells arr i [Ptr s])
         (bindc (read_pointer arr i) (\<lambda>t.
            thenc (snprintf_to t sz (label @ fmt_d (int i))) (alloc_strings sz label arr (i + 1) k))))"

definition leak_indirect :: "unit cfun" where
  "leak_indirect = thenc (print (''[Leak 2] Indirect leak (lost pointer)'' @ NL))
     (bindc (malloc 40 5) (\<lambda>arr. seqc
        [alloc_strings 100 ''String '' arr 0 5,
         print (''  Allocated array of 5 strings'' @ NL),
         free arr]))"

definition leak_realloc :: "(pointer \<Rightarrow> string) \<Rightarrow> unit cfun" where
  "leak_realloc fmt_p = thenc (print (''[Leak 3] Realloc pattern (safe version shown)'' @ NL))
     (bindc (malloc 100 100) (\<lambda>buf.
        thenc (strcpy buf ''Initial data'')
          (bindc (realloc buf 200 200) (\<lambda>tmp.
             if tmp = None then seqc
               [print (''  realloc failed, original still at '' @ fmt_p buf @ NL), free buf, free buf]
             else seqc
               [print (''  Reallocated to 200 bytes at '' @ fmt_p tmp @ NL), free tmp]))))"

definition init_global :: "(pointer \<Rightarrow> string) \<Rightarrow> pointer cfun" where
  "init_global fmt_p = thenc (print (''[Leak 4] Still-reachable (global not freed at exit)'' @ NL))
     (bindc (malloc 512 512) (\<lambda>global_buffer.
        thenc (strcpy global_buffer ''Global data that persists until exit'')
          (thenc (print (''  Global buffer at '' @ fmt_p global_buffer @ NL)) (ret global_buffer))))"

fun fill_products :: "pointer \<Rightarrow> nat \<Rightarrow> nat \<Rightarrow> unit cfun" where
  "fill_products data i 0 = ret ()"
| "fill_products data i (Suc k) = thenc (write_cells data i [Num (int i * 42)]) (fill_products data (i + 1) k)"

definition leaks_use_after_free :: "unit cfun" where
  "leaks_use_after_free = thenc (print (''[Leak 5] Use-after-free (UB)'' @ NL))
     (bindc (malloc 40 10) (\<lambda>data. seqc
        [fill_products data 0 10,
         free data,
         print (''  (Use-after-free line commented out '' @ [CHR 0xE2, CHR 0x80, CHR 0x94] @ '' uncomment to test with Valgrind)'' @ NL)]))"

definition leaks_buffer_overflow :: "unit cfun" where
  "leaks_buffer_overflow = thenc (print (''[Leak 6] Heap buffer overflow'' @ NL))
     (bindc (malloc 10 10) (\<lambda>buf. seqc
        [strcpy buf ''Hello'',
         print (''  (Overflow line commented out '' @ [CHR 0xE2, CHR 0x80, CHR 0x94] @ '' uncomment to test with Valgrind)'' @ NL),
         free buf]))"

fun free_strings :: "pointer \<Rightarrow> nat \<Rightarrow> nat \<Rightarrow> unit cfun" where
  "free_strings arr i 0 = ret ()"
| "free_strings arr i (Suc k) = bindc (read_pointer arr i) (\<lambda>s. thenc (free s) (free_strings arr (i + 1) k))"

definition no_leak :: "unit cfun" where
  "no_leak = thenc (print (''[Clean] Properly managed memory'' @ NL))
     (bindc (malloc 24 3) (\<lambda>lst. seqc
        [alloc_strings 64 ''Item '' lst 0 3,
         free_strings lst 0 3,
         free lst,
         print (''  All memory properly freed.'' @ NL)]))"

definition memory_leaks :: "(pointer \<Rightarrow> string) \<Rightarrow> unit cfun" where
  "memory_leaks fmt_p = seqc
     [print (''=== Memory Leak Demo (for Valgrind) ==='' @ NL @ NL),
      leak_direct fmt_p, leak_indirect, leak_realloc fmt_p, void (init_global fmt_p), leaks_use_after_free, leaks_buffer_overflow, no_leak,
      print (NL @ ''=== Run with: valgrind --leak-check=full ./memory_leaks ==='' @ NL)]"

section \<open>What a program leaves allocated\<close>

text \<open>With memory for every allocation, \<open>p\<close> runs to its end and leaves blocks of these sizes, in this order, behind those of before.\<close>

definition leaves :: "'a cfun \<Rightarrow> nat list \<Rightarrow> bool" where
  "leaves p ls \<longleftrightarrow>
     (\<forall>m. avail m = (\<lambda>_. True) \<longrightarrow> (\<exists>x m'. p m = (Inr x, m') \<and> avail m' = (\<lambda>_. True) \<and> leaked m' = leaked m @ ls))"

lemma leavesI:
  "(\<And>m. avail m = (\<lambda>_. True) \<Longrightarrow> \<exists>x m'. p m = (Inr x, m') \<and> avail m' = (\<lambda>_. True) \<and> leaked m' = leaked m @ ls) \<Longrightarrow> leaves p ls"
  by (simp add: leaves_def)

lemma leavesE:
  assumes "leaves p ls" and "avail m = (\<lambda>_. True)"
  obtains x m' where "p m = (Inr x, m')" and "avail m' = (\<lambda>_. True)" and "leaked m' = leaked m @ ls"
  using assms by (auto simp: leaves_def)

lemma leaves_bind:
  assumes "leaves p a" and "\<And>x. leaves (f x) b"
  shows "leaves (bindc p f) (a @ b)"
proof (rule leavesI)
  fix m :: machine assume "avail m = (\<lambda>_. True)"
  with assms(1) obtain x m1 where m1: "p m = (Inr x, m1)" "avail m1 = (\<lambda>_. True)" "leaked m1 = leaked m @ a" by (rule leavesE)
  obtain y m2 where "f x m1 = (Inr y, m2)" "avail m2 = (\<lambda>_. True)" "leaked m2 = leaked m1 @ b" by (rule leavesE [OF assms(2) m1(2)])
  with m1 show "\<exists>y m'. bindc p f m = (Inr y, m') \<and> avail m' = (\<lambda>_. True) \<and> leaked m' = leaked m @ a @ b" by (simp add: cfun_simps)
qed

lemma leaves_basic:
  "leaves (ret x) []"
  "leaves (print s) []"
  by (simp_all add: leaves_def cfun_simps leaked_def)

lemma leaves_thenc: "leaves p a \<Longrightarrow> leaves q b \<Longrightarrow> leaves (thenc p q) (a @ b)"
  unfolding thenc_def by (rule leaves_bind)

lemma leaves_seqc:
  "leaves (seqc []) []"
  "leaves p a \<Longrightarrow> leaves (seqc ps) b \<Longrightarrow> leaves (seqc (p # ps)) (a @ b)"
  by (simp_all add: leaves_basic leaves_thenc)

lemma leaves_void: "leaves p a \<Longrightarrow> leaves (void p) a"
  using leaves_bind [OF _ leaves_basic(1), of p a] by (simp add: void_def)

text \<open>Facts for executing a function from a machine that has memory.\<close>

lemmas exec_simps = cfun_simps nth_append list_update_append splice_def leaked_def

lemma leak_direct_leaves: "leaves (leak_direct fmt_p) [256]"
  by (rule leavesI) (simp add: leak_direct_def snprintf_to_def exec_simps)

lemma alloc_strings_run:
  assumes "avail m = (\<lambda>_. True)" and "b < length (heap m)" and "live (heap m ! b)" and "i + k \<le> length (cells (heap m ! b))" and "0 < sz"
  shows "\<exists>m'. alloc_strings sz label (Some b) i k m = (Inr (), m') \<and> avail m' = (\<lambda>_. True) \<and> shape m' = shape m @ replicate k (sz, True, sz) \<and>
    (\<forall>j < length (cells (heap m ! b)). cells (heap m' ! b) ! j =
       (if i \<le> j \<and> j < i + k then Some (Ptr (Some (length (heap m) + (j - i)))) else cells (heap m ! b) ! j))"
  using assms
proof (induction k arbitrary: i m)
  case 0
  then show ?case by (auto simp: cfun_simps)
next
  case (Suc k)
  let ?new = "length (heap m)"
  let ?m1 = "m\<lparr>requests := requests m + 1, heap := heap m @ [\<lparr>bytes = sz, cells = replicate sz None, live = True\<rparr>]\<rparr>"
  have m1: "malloc sz sz m = (Inr (Some ?new), ?m1)" using Suc.prems(1) by (simp add: cfun_simps)
  have b1: "heap ?m1 ! b = heap m ! b" using Suc.prems(2) by (simp add: nth_append)
  obtain m2 where m2: "write_cells (Some b) i [Ptr (Some ?new)] ?m1 = (Inr (), m2)" "avail m2 = avail ?m1" "shape m2 = shape ?m1"
      "\<And>c. c \<noteq> b \<Longrightarrow> heap m2 ! c = heap ?m1 ! c" "cells (heap m2 ! b) = splice i [Some (Ptr (Some ?new))] (cells (heap m ! b))"
    using write_shape [of b ?m1 i "[Ptr (Some ?new)]"] b1 Suc.prems(2-4) by auto
  have l2: "length (heap m2) = Suc ?new" using arg_cong [OF m2(3), of length] by simp
  have b2: "live (heap m2 ! b)" "length (cells (heap m2 ! b)) = length (cells (heap m ! b))"
    using arg_cong [OF m2(3), of "\<lambda>l. l ! b"] Suc.prems(2,3) l2 by (simp_all add: shape_nth shape_def nth_append)
  have new2: "live (heap m2 ! ?new)" "length (cells (heap m2 ! ?new)) = sz"
    using m2(4) [of ?new] Suc.prems(2) by (simp_all add: nth_append)
  have at: "cells (heap m2 ! b) ! i = Some (Ptr (Some ?new))"
    using m2(5) Suc.prems(4) by (simp add: splice_def nth_append)
  have r: "read_pointer (Some b) i m2 = (Inr (Some ?new), m2)"
    using at b2 Suc.prems(4) by (simp add: cfun_simps)
  obtain m3 where m3: "snprintf_to (Some ?new) sz (label @ fmt_d (int i)) m2 = (Inr (), m3)" "avail m3 = avail m2" "shape m3 = shape m2"
      "\<And>c. c \<noteq> ?new \<Longrightarrow> heap m3 ! c = heap m2 ! c"
    by (rule snprintf_shape [of ?new m2 sz "label @ fmt_d (int i)"]) (use new2 l2 Suc.prems(5) in auto)
  have b3: "heap m3 ! b = heap m2 ! b" using m3(4) Suc.prems(2) by simp
  have l3: "length (heap m3) = Suc ?new" using arg_cong [OF m3(3), of length] l2 by simp
  have i3: "avail m3 = (\<lambda>_. True)" "b < length (heap m3)" "live (heap m3 ! b)" "i + 1 + k \<le> length (cells (heap m3 ! b))"
    using m3(2) m2(2) Suc.prems l3 b3 b2 by simp_all
  obtain m' where m': "alloc_strings sz label (Some b) (i + 1) k m3 = (Inr (), m')" "avail m' = (\<lambda>_. True)"
      "shape m' = shape m3 @ replicate k (sz, True, sz)"
      "\<forall>j < length (cells (heap m3 ! b)). cells (heap m' ! b) ! j =
         (if i + 1 \<le> j \<and> j < i + 1 + k then Some (Ptr (Some (length (heap m3) + (j - (i + 1))))) else cells (heap m3 ! b) ! j)"
    using Suc.IH [OF i3 Suc.prems(5)] by blast
  have "alloc_strings sz label (Some b) i (Suc k) m = (Inr (), m')"
    using m1 m2(1) r m3(1) m'(1) by (simp add: cfun_simps)
  moreover have "shape m' = shape m @ replicate (Suc k) (sz, True, sz)"
    using m'(3) m3(3) m2(3) by simp
  moreover have "cells (heap m' ! b) ! j =
      (if i \<le> j \<and> j < i + Suc k then Some (Ptr (Some (?new + (j - i)))) else cells (heap m ! b) ! j)"
    if "j < length (cells (heap m ! b))" for j
    using m'(4) that b3 b2 l3 m2(5) Suc.prems(4) by (auto simp: splice_def nth_append not_less le_Suc_eq)
  ultimately show ?case using m'(2) by auto
qed

text \<open>An array of strings: what happens after its strings were allocated.\<close>

lemma strings_allocated:
  assumes "avail m = (\<lambda>_. True)" and "0 < sz"
  obtains m' where
    "bindc (malloc asz k) (\<lambda>arr. thenc (alloc_strings sz label arr 0 k) (f arr)) m = f (Some (length (heap m))) m'"
    and "avail m' = (\<lambda>_. True)"
    and "shape m' = shape m @ (asz, True, k) # replicate k (sz, True, sz)"
    and "\<forall>j < k. cells (heap m' ! length (heap m)) ! j = Some (Ptr (Some (length (heap m) + 1 + j)))"
proof -
  let ?b = "length (heap m)"
  let ?m1 = "m\<lparr>requests := requests m + 1, heap := heap m @ [\<lparr>bytes = asz, cells = replicate k None, live = True\<rparr>]\<rparr>"
  have m1: "malloc asz k m = (Inr (Some ?b), ?m1)" using assms(1) by (simp add: cfun_simps)
  have p: "avail ?m1 = (\<lambda>_. True)" "?b < length (heap ?m1)" "live (heap ?m1 ! ?b)" "0 + k \<le> length (cells (heap ?m1 ! ?b))"
    using assms(1) by simp_all
  obtain m' where "alloc_strings sz label (Some ?b) 0 k ?m1 = (Inr (), m')" "avail m' = (\<lambda>_. True)"
      "shape m' = shape ?m1 @ replicate k (sz, True, sz)"
      "\<forall>j < k. cells (heap m' ! ?b) ! j = Some (Ptr (Some (?b + 1 + j)))"
    using alloc_strings_run [OF p assms(2), of label] by auto
  with m1 that show thesis by (simp add: cfun_simps)
qed

lemma leak_indirect_leaves: "leaves leak_indirect (replicate 5 100)"
proof -
  have "leaves (bindc (malloc 40 5) (\<lambda>arr. thenc (alloc_strings 100 ''String '' arr 0 5)
          (seqc [print (''  Allocated array of 5 strings'' @ NL), free arr]))) (replicate 5 100)" (is "leaves ?p _")
  proof (rule leavesI)
    fix m :: machine assume av: "avail m = (\<lambda>_. True)"
    let ?b = "length (heap m)"
    obtain m1 where m1: "?p m = seqc [print (''  Allocated array of 5 strings'' @ NL), free (Some ?b)] m1"
        "avail m1 = (\<lambda>_. True)" "shape m1 = shape m @ (40, True, 5) # replicate 5 (100, True, 100)"
      by (rule strings_allocated [OF av, of 100]) simp_all
    let ?m2 = "m1\<lparr>console := console m1 @ [''  Allocated array of 5 strings'' @ NL]\<rparr>"
    have s2: "shape ?m2 = shape m1" by (simp add: shape_def)
    have l: "?b < length (heap ?m2)" using arg_cong [OF m1(3), of length] by simp
    have at: "live (heap ?m2 ! ?b)" "bytes (heap ?m2 ! ?b) = 40" "length (cells (heap ?m2 ! ?b)) = 5"
      using arg_cong [OF m1(3), of "\<lambda>l. l ! ?b"] l by (simp_all add: shape_nth nth_append)
    obtain m3 where "free (Some ?b) ?m2 = (Inr (), m3)" "avail m3 = avail ?m2" "shape m3 = (shape m1)[?b := (40, False, 5)]"
      by (rule free_shape [OF l at(1)]) (use at s2 in simp_all)
    then show "\<exists>x m'. ?p m = (Inr x, m') \<and> avail m' = (\<lambda>_. True) \<and> leaked m' = leaked m @ replicate 5 100"
      using m1 by (simp add: cfun_simps leaked_shape list_update_append)
  qed
  from leaves_thenc [OF leaves_basic(2) this] show ?thesis by (simp add: leak_indirect_def)
qed

text \<open>A function that allocates one block and goes on with it.\<close>

lemma one_block:
  assumes "avail m = (\<lambda>_. True)"
  obtains m1 where "malloc sz n m = (Inr (Some (length (heap m))), m1)" and "avail m1 = (\<lambda>_. True)"
    and "shape m1 = shape m @ [(sz, True, n)]" and "length (heap m) < length (heap m1)"
    and "heap m1 ! length (heap m) = \<lparr>bytes = sz, cells = replicate n None, live = True\<rparr>"
  using assms by (auto simp: cfun_simps)

lemma build_nodes_run:
  assumes "avail m = (\<lambda>_. True)"
  shows "\<exists>p m'. build_nodes i k head m = (Inr p, m') \<and> avail m' = (\<lambda>_. True) \<and> shape m' = shape m @ replicate k (16, True, 2)"
  using assms
proof (induction k arbitrary: i head m)
  case 0
  then show ?case by (simp add: cfun_simps)
next
  case (Suc k)
  let ?b = "length (heap m)"
  obtain m1 where m1: "malloc 16 2 m = (Inr (Some ?b), m1)" "avail m1 = (\<lambda>_. True)" "shape m1 = shape m @ [(16, True, 2)]"
      "?b < length (heap m1)" "heap m1 ! ?b = \<lparr>bytes = 16, cells = replicate 2 None, live = True\<rparr>"
    by (rule one_block [OF Suc.prems])
  obtain m2 where m2: "write_cells (Some ?b) 0 [Num (int i)] m1 = (Inr (), m2)" "avail m2 = avail m1" "shape m2 = shape m1"
    by (rule write_shape [OF m1(4), of 0 "[Num (int i)]"]) (use m1(5) in simp_all)
  have l2: "?b < length (heap m2)" using arg_cong [OF m2(3), of length] m1(4) by simp
  have at2: "live (heap m2 ! ?b)" "length (cells (heap m2 ! ?b)) = 2"
    using arg_cong [OF m2(3), of "\<lambda>l. l ! ?b"] m1(3) l2 by (simp_all add: shape_nth nth_append)
  obtain m3 where m3: "write_cells (Some ?b) 1 [Ptr head] m2 = (Inr (), m3)" "avail m3 = avail m2" "shape m3 = shape m2"
    by (rule write_shape [OF l2 at2(1), of 1 "[Ptr head]"]) (use at2 in simp_all)
  have "avail m3 = (\<lambda>_. True)" using m1 m2 m3 by simp
  from Suc.IH [OF this, of "i + 1" "Some ?b"] obtain p m' where
      "build_nodes (i + 1) k (Some ?b) m3 = (Inr p, m')" "avail m' = (\<lambda>_. True)" "shape m' = shape m3 @ replicate k (16, True, 2)"
    by blast
  then show ?case using m1 m2 m3 by (simp add: cfun_simps)
qed

lemma build_list_leaves: "leaves (build_list count) (replicate (nat count) 16)"
proof (rule leavesI)
  fix m :: machine assume "avail m = (\<lambda>_. True)"
  from build_nodes_run [OF this, of 0 "nat count" None]
  show "\<exists>x m'. build_list count m = (Inr x, m') \<and> avail m' = (\<lambda>_. True) \<and> leaked m' = leaked m @ replicate (nat count) 16"
    by (auto simp: build_list_def leaked_shape)
qed

lemma is_digit_not_NUL: "is_digit c \<Longrightarrow> c \<noteq> NUL"
  by (auto simp: is_digit_def)

lemma fmt_d_no_NUL: "NUL \<notin> set (fmt_d x)"
  using dec_digits is_digit_not_NUL by (auto simp: fmt_d_def)

lemma leak_iterations_run:
  assumes "avail m = (\<lambda>_. True)"
  shows "\<exists>m'. leak_iterations i (Suc k) data m = (Inr (Some (length (heap m) + k)), m') \<and> avail m' = (\<lambda>_. True) \<and>
    shape m' = shape m @ replicate (Suc k) (128, True, 128) \<and>
    read_string (Some (length (heap m) + k)) 0 m' = (Inr (take 127 (''iteration '' @ fmt_d (int (i + k)))), m')"
  using assms
proof (induction k arbitrary: i data m)
  case (0 i data m)
  let ?b = "length (heap m)" and ?t = "''iteration '' @ fmt_d (int i)"
  obtain m1 where m1: "malloc 128 128 m = (Inr (Some ?b), m1)" "avail m1 = (\<lambda>_. True)" "shape m1 = shape m @ [(128, True, 128)]"
      "?b < length (heap m1)" "heap m1 ! ?b = \<lparr>bytes = 128, cells = replicate 128 None, live = True\<rparr>"
    by (rule one_block [OF 0])
  obtain m2 where m2: "snprintf_to (Some ?b) 128 ?t m1 = (Inr (), m2)" "avail m2 = avail m1" "shape m2 = shape m1"
      "cells (heap m2 ! ?b) = splice 0 (map Some (map Chr (take 127 ?t @ [NUL]))) (replicate 128 None)"
    by (rule snprintf_shape [OF m1(4), of 128 ?t]) (use m1(5) in simp_all)
  have "?b < length (heap m2)" using arg_cong [OF m2(3), of length] m1(4) by simp
  then have "live (heap m2 ! ?b)"
    using arg_cong [OF m2(3), of "\<lambda>l. l ! ?b"] m1(3) by (simp add: shape_nth nth_append)
  moreover have "NUL \<notin> set (take 127 ?t)" using fmt_d_no_NUL set_take_subset [of 127 ?t] by auto
  ultimately have "read_string (Some ?b) 0 m2 = (Inr (take 127 ?t), m2)"
    using read_written_string [of m2 ?b "take 127 ?t" "replicate 128 None"] m2(4) by (simp del: map_append map_map)
  then show ?case using m1 m2(1-3) by (simp add: cfun_simps)
next
  case (Suc k i data m)
  let ?b = "length (heap m)" and ?t = "''iteration '' @ fmt_d (int i)"
  obtain m1 where m1: "malloc 128 128 m = (Inr (Some ?b), m1)" "avail m1 = (\<lambda>_. True)" "shape m1 = shape m @ [(128, True, 128)]"
      "?b < length (heap m1)" "heap m1 ! ?b = \<lparr>bytes = 128, cells = replicate 128 None, live = True\<rparr>"
    by (rule one_block [OF Suc.prems])
  obtain m2 where m2: "snprintf_to (Some ?b) 128 ?t m1 = (Inr (), m2)" "avail m2 = avail m1" "shape m2 = shape m1"
    by (rule snprintf_shape [OF m1(4), of 128 ?t]) (use m1(5) in simp_all)
  have "length (heap m2) = Suc ?b" using arg_cong [OF m2(3), of length] arg_cong [OF m1(3), of length] by simp
  moreover obtain m' where "leak_iterations (i + 1) (Suc k) (Some ?b) m2 = (Inr (Some (length (heap m2) + k)), m')" "avail m' = (\<lambda>_. True)"
      "shape m' = shape m2 @ replicate (Suc k) (128, True, 128)"
      "read_string (Some (length (heap m2) + k)) 0 m' = (Inr (take 127 (''iteration '' @ fmt_d (int (i + 1 + k)))), m')"
    using Suc.IH [of m2 "i + 1" "Some ?b"] m1(2) m2(2) by auto
  ultimately show ?case
    using m1 m2(1-3) by (simp add: cfun_simps leak_iterations.simps(2) [of i "Suc k" data] del: leak_iterations.simps)
qed

lemma loop_leak_leaves:
  assumes "0 < iterations"
  shows "leaves (loop_leak iterations) (replicate (nat iterations - 1) 128)"
proof (rule leavesI)
  fix m :: machine assume av: "avail m = (\<lambda>_. True)"
  obtain k where k: "nat iterations = Suc k" using assms by (cases "nat iterations") auto
  let ?b = "length (heap m) + k"
  obtain m1 s where m1: "leak_iterations 0 (Suc k) None m = (Inr (Some ?b), m1)" "avail m1 = (\<lambda>_. True)"
      "shape m1 = shape m @ replicate (Suc k) (128, True, 128)" "read_string (Some ?b) 0 m1 = (Inr s, m1)"
    using leak_iterations_run [OF av, of 0 k None] by auto
  have sh: "shape m1 = (shape m @ replicate k (128, True, 128)) @ [(128, True, 128)]"
    using m1(3) by (simp add: replicate_append_same)
  let ?m2 = "m1\<lparr>console := console m1 @ [''Last: '' @ s @ NL]\<rparr>"
  have s2: "shape ?m2 = shape m1" by (simp add: shape_def)
  have l: "?b < length (heap ?m2)" using arg_cong [OF m1(3), of length] by simp
  have at: "live (heap ?m2 ! ?b)" "bytes (heap ?m2 ! ?b) = 128" "length (cells (heap ?m2 ! ?b)) = 128"
    using arg_cong [OF sh, of "\<lambda>l. l ! ?b"] l by (simp_all add: shape_nth nth_append)
  obtain m3 where m3: "free (Some ?b) ?m2 = (Inr (), m3)" "avail m3 = avail ?m2" "shape m3 = (shape m1)[?b := (128, False, 128)]"
    by (rule free_shape [OF l at(1)]) (use at s2 in simp_all)
  have "shape m3 = (shape m @ replicate k (128, True, 128)) @ [(128, False, 128)]"
    using m3(3) by (simp add: sh list_update_append)
  then have "leaked m3 = leaked m @ replicate k 128" by (simp add: leaked_shape)
  then show "\<exists>x m'. loop_leak iterations m = (Inr x, m') \<and> avail m' = (\<lambda>_. True) \<and> leaked m' = leaked m @ replicate (nat iterations - 1) 128"
    using m1 m3 k by (simp add: loop_leak_def cfun_simps)
qed

lemma process_file_leaves: "leaves (process_file content filename) (if content = None then [1024] else [])"
proof (rule leavesI)
  fix m :: machine assume av: "avail m = (\<lambda>_. True)"
  let ?b = "length (heap m)"
  obtain m1 where m1: "malloc 1024 1024 m = (Inr (Some ?b), m1)" "avail m1 = (\<lambda>_. True)" "shape m1 = shape m @ [(1024, True, 1024)]"
      "?b < length (heap m1)" "heap m1 ! ?b = \<lparr>bytes = 1024, cells = replicate 1024 None, live = True\<rparr>"
    by (rule one_block [OF av])
  show "\<exists>x m'. process_file content filename m = (Inr x, m') \<and> avail m' = (\<lambda>_. True) \<and> leaked m' = leaked m @ (if content = None then [1024] else [])"
  proof (cases content)
    case None
    then show ?thesis using m1 by (simp add: process_file_def cfun_simps leaked_shape) (simp add: shape_def)
  next
    case (Some t)
    let ?vs = "map Chr (take 1024 t)"
    have len: "0 + length ?vs \<le> length (cells (heap m1 ! ?b))" using m1(5) by simp
    obtain m2 where m2: "write_cells (Some ?b) 0 ?vs m1 = (Inr (), m2)" "avail m2 = avail m1" "shape m2 = shape m1"
      by (rule write_shape [OF m1(4) _ len]) (use m1(5) in simp_all)
    have l: "?b < length (heap m2)" using arg_cong [OF m2(3), of length] m1(4) by simp
    have at: "live (heap m2 ! ?b)" "bytes (heap m2 ! ?b) = 1024" "length (cells (heap m2 ! ?b)) = 1024"
      using arg_cong [OF m2(3), of "\<lambda>l. l ! ?b"] m1(3) l by (simp_all add: shape_nth nth_append)
    obtain m3 where m3: "free (Some ?b) m2 = (Inr (), m3)" "avail m3 = avail m2" "shape m3 = (shape m2)[?b := (1024, False, 1024)]"
      by (rule free_shape [OF l at(1)]) (use at in simp_all)
    have "leaked m3 = leaked m" using m3(3) m2(3) m1(3) by (simp add: leaked_shape list_update_append)
    then show ?thesis using Some m1 m2 m3 by (simp add: process_file_def cfun_simps)
  qed
qed

text \<open>The first program, for every result of \<open>fopen\<close>.\<close>

theorem leak_demo_leaves: "leaves (leak_demo content) (replicate 5 16 @ replicate 9 128 @ (if content = None then [1024] else []))"
proof -
  have l: "leaves (void (build_list 5)) (replicate 5 16)" "leaves (loop_leak 10) (replicate 9 128)"
      "leaves (void (process_file content ''/nonexistent/file.txt'')) (if content = None then [1024] else [])"
    using build_list_leaves [of 5] loop_leak_leaves [of 10] process_file_leaves by (simp_all add: leaves_void)
  have "leaves (leak_demo content)
      ([] @ [] @ replicate 5 16 @ [] @ replicate 9 128 @ [] @ (if content = None then [1024] else []) @ [] @ [])"
    unfolding leak_demo_def by (intro leaves_seqc leaves_basic l)
  then show ?thesis by simp
qed

section \<open>The other two\<close>

lemma leaky_function_leaves:
  assumes "0 \<le> n" and "n < 2147483648"
  shows "leaves (leaky_function fmt_p n) [nat n]"
proof (rule leavesI)
  fix m :: machine assume av: "avail m = (\<lambda>_. True)"
  let ?b = "length (heap m)" and ?vs = "replicate (nat n) (Chr CHR ''X'')"
  have n: "nat (cast_u64 n) = nat n" using assms by simp
  obtain m1 where m1: "malloc (nat n) (nat n) m = (Inr (Some ?b), m1)" "avail m1 = (\<lambda>_. True)" "shape m1 = shape m @ [(nat n, True, nat n)]"
      "?b < length (heap m1)" "heap m1 ! ?b = \<lparr>bytes = nat n, cells = replicate (nat n) None, live = True\<rparr>"
    by (rule one_block [OF av])
  obtain m2 where m2: "write_cells (Some ?b) 0 ?vs m1 = (Inr (), m2)" "avail m2 = avail m1" "shape m2 = shape m1"
    by (rule write_shape [OF m1(4), of 0 ?vs]) (use m1(5) in simp_all)
  have "leaked m2 = leaked m @ [nat n]" using m2(3) m1(3) by (simp add: leaked_shape)
  then show "\<exists>x m'. leaky_function fmt_p n m = (Inr x, m') \<and> avail m' = (\<lambda>_. True) \<and> leaked m' = leaked m @ [nat n]"
    using m1 m2 by (simp add: leaky_function_def n cfun_simps) (simp add: leaked_def)
qed

text \<open>A block that is allocated, filled with a string and then handled further.\<close>

lemma string_block:
  assumes "avail m = (\<lambda>_. True)" and "length s < n"
  obtains m' where "bindc (malloc sz n) (\<lambda>p. thenc (strcpy p s) (f p)) m = f (Some (length (heap m))) m'"
    and "avail m' = (\<lambda>_. True)" and "shape m' = shape m @ [(sz, True, n)]" and "length (heap m) < length (heap m')"
    and "live (heap m' ! length (heap m))" and "bytes (heap m' ! length (heap m)) = sz" and "length (cells (heap m' ! length (heap m))) = n"
    and "cells (heap m' ! length (heap m)) = splice 0 (map Some (map Chr (s @ [NUL]))) (replicate n None)"
    and "\<And>c. c < length (heap m) \<Longrightarrow> heap m' ! c = heap m ! c"
proof -
  let ?b = "length (heap m)" and ?m1 = "m\<lparr>requests := requests m + 1, heap := heap m @ [\<lparr>bytes = sz, cells = replicate n None, live = True\<rparr>]\<rparr>"
  have m1: "malloc sz n m = (Inr (Some ?b), ?m1)" using assms(1) by (simp add: cfun_simps)
  have len: "0 + length (map Chr (s @ [NUL])) \<le> length (cells (heap ?m1 ! ?b))" using assms(2) by simp
  obtain m2 where m2: "write_cells (Some ?b) 0 (map Chr (s @ [NUL])) ?m1 = (Inr (), m2)" "avail m2 = avail ?m1" "shape m2 = shape ?m1"
      "\<And>c. c \<noteq> ?b \<Longrightarrow> heap m2 ! c = heap ?m1 ! c"
      "cells (heap m2 ! ?b) = splice 0 (map Some (map Chr (s @ [NUL]))) (cells (heap ?m1 ! ?b))"
    by (rule write_shape [OF _ _ len]) simp_all
  have l: "?b < length (heap m2)" using arg_cong [OF m2(3), of length] by simp
  have at: "live (heap m2 ! ?b)" "bytes (heap m2 ! ?b) = sz" "length (cells (heap m2 ! ?b)) = n"
    using arg_cong [OF m2(3), of "\<lambda>l. l ! ?b"] l by (simp_all add: shape_nth nth_append)
  show thesis
  proof (rule that [of m2])
    show "bindc (malloc sz n) (\<lambda>p. thenc (strcpy p s) (f p)) m = f (Some ?b) m2"
      using m1 m2(1) by (simp add: cfun_simps strcpy_def)
    show "cells (heap m2 ! ?b) = splice 0 (map Some (map Chr (s @ [NUL]))) (replicate n None)" using m2(5) by simp
    show "heap m2 ! c = heap m ! c" if "c < ?b" for c using m2(4) [of c] that by (simp add: nth_append)
  qed (use m2 l at assms(1) in simp_all)
qed

lemma overwrite_leak_leaves:
  "leaves (bindc overwrite_leak (\<lambda>result. bindc (read_string result 0) (\<lambda>s. seqc [print (''Got: '' @ s @ NL), free result]))) [256]"
proof (rule leavesI)
  fix m :: machine assume av: "avail m = (\<lambda>_. True)"
  let ?c = "Suc (length (heap m))" and ?t = "''New data''"
  obtain m1 where m1: "overwrite_leak m = bindc (malloc 128 128) (\<lambda>ptr. thenc (strcpy ptr ''New data'') (ret ptr)) m1"
      "avail m1 = (\<lambda>_. True)" "shape m1 = shape m @ [(256, True, 256)]"
    unfolding overwrite_leak_def by (rule string_block [OF av, of "''Important data''" 256]) simp_all
  have l1: "length (heap m1) = ?c" using arg_cong [OF m1(3), of length] by simp
  obtain m2 where m2: "overwrite_leak m = (Inr (Some ?c), m2)" "avail m2 = (\<lambda>_. True)"
      "shape m2 = shape m @ [(256, True, 256), (128, True, 128)]" "?c < length (heap m2)" "live (heap m2 ! ?c)" "bytes (heap m2 ! ?c) = 128"
      "length (cells (heap m2 ! ?c)) = 128"
      "cells (heap m2 ! ?c) = splice 0 (map Some (map Chr (?t @ [NUL]))) (replicate 128 None)"
    by (rule string_block [OF m1(2), of ?t 128 128 ret]) (use m1(1,3) l1 in \<open>simp_all add: ret_def\<close>)
  have r: "read_string (Some ?c) 0 m2 = (Inr ?t, m2)"
    using read_written_string [OF m2(5,8)] by simp
  let ?m3 = "m2\<lparr>console := console m2 @ [''Got: '' @ ?t @ NL]\<rparr>"
  obtain m4 where m4: "free (Some ?c) ?m3 = (Inr (), m4)" "avail m4 = avail ?m3" "shape m4 = (shape m2)[?c := (128, False, 128)]"
    by (rule free_shape [of ?c ?m3]) (use m2 in \<open>simp_all add: shape_def\<close>)
  have "leaked m4 = leaked m @ [256]" using m4(3) m2(3) by (simp add: leaked_shape list_update_append)
  with m2 r m4 show "\<exists>x m'. bindc overwrite_leak (\<lambda>result. bindc (read_string result 0) (\<lambda>s.
        seqc [print (''Got: '' @ s @ NL), free result])) m = (Inr x, m') \<and> avail m' = (\<lambda>_. True) \<and> leaked m' = leaked m @ [256]"
    by (simp add: cfun_simps)
qed

lemma fill_sums_run:
  assumes "b < length (heap m)" and "live (heap m ! b)" and "i + k \<le> length (cells (heap m ! b))"
    and "-2147483648 \<le> v" and "v + int (i + k) \<le> 2147483648"
  shows "\<exists>m'. fill_sums (Some b) v i k m = (Inr (), m') \<and> avail m' = avail m \<and> shape m' = shape m \<and>
    (\<forall>j < length (cells (heap m ! b)). cells (heap m' ! b) ! j = (if i \<le> j \<and> j < i + k then Some (Num (v + int j)) else cells (heap m ! b) ! j))"
  using assms
proof (induction k arbitrary: i m)
  case 0
  then show ?case by (auto simp: cfun_simps)
next
  case (Suc k)
  have v: "arith32 (v + int i) = Some (v + int i)" using Suc.prems(4,5) by (intro arith32_ok) simp_all
  obtain m1 where m1: "write_cells (Some b) i [Num (v + int i)] m = (Inr (), m1)" "avail m1 = avail m" "shape m1 = shape m"
      "cells (heap m1 ! b) = splice i [Some (Num (v + int i))] (cells (heap m ! b))"
    by (rule write_shape [OF Suc.prems(1,2), of i "[Num (v + int i)]"]) (use Suc.prems(3) in simp_all)
  have l1: "b < length (heap m1)" using arg_cong [OF m1(3), of length] Suc.prems(1) by simp
  have at1: "live (heap m1 ! b)" "length (cells (heap m1 ! b)) = length (cells (heap m ! b))"
    using arg_cong [OF m1(3), of "\<lambda>l. l ! b"] Suc.prems(1,2) l1 by (simp_all add: shape_nth)
  obtain m' where m': "fill_sums (Some b) v (i + 1) k m1 = (Inr (), m')" "avail m' = avail m1" "shape m' = shape m1"
      "\<forall>j < length (cells (heap m1 ! b)). cells (heap m' ! b) ! j =
         (if i + 1 \<le> j \<and> j < i + 1 + k then Some (Num (v + int j)) else cells (heap m1 ! b) ! j)"
    using Suc.IH [OF l1 at1(1), of "i + 1"] Suc.prems(3-5) at1(2) by auto
  have "cells (heap m' ! b) ! j = (if i \<le> j \<and> j < i + Suc k then Some (Num (v + int j)) else cells (heap m ! b) ! j)"
    if "j < length (cells (heap m ! b))" for j
    using m'(4) that at1 m1(4) Suc.prems(3) by (auto simp: splice_def nth_append not_less le_Suc_eq)
  then show ?case using v m1(1-3) m'(1-3) by (auto simp: cfun_simps)
qed

text \<open>A negative argument leaks the array; for every other one that does not overflow the sums, the result is the sum number 50.\<close>

lemma process_with_leak_run:
  assumes "avail m = (\<lambda>_. True)" and "-2147483648 \<le> v" and "v + 100 \<le> 2147483648"
  shows "\<exists>m'. process_with_leak v m = (Inr (if v < 0 then - 1 else v + 50), m') \<and> avail m' = (\<lambda>_. True) \<and>
    leaked m' = leaked m @ (if v < 0 then [400] else [])"
proof -
  let ?b = "length (heap m)"
  obtain m1 where m1: "malloc 400 100 m = (Inr (Some ?b), m1)" "avail m1 = (\<lambda>_. True)" "shape m1 = shape m @ [(400, True, 100)]"
      "?b < length (heap m1)" "heap m1 ! ?b = \<lparr>bytes = 400, cells = replicate 100 None, live = True\<rparr>"
    by (rule one_block [OF assms(1)])
  obtain m2 where m2: "fill_sums (Some ?b) v 0 100 m1 = (Inr (), m2)" "avail m2 = avail m1" "shape m2 = shape m1"
      "\<forall>j < 100. cells (heap m2 ! ?b) ! j = Some (Num (v + int j))"
    using fill_sums_run [OF m1(4), of 0 100 v] m1(5) assms(2,3) by auto
  have l: "?b < length (heap m2)" using arg_cong [OF m2(3), of length] m1(4) by simp
  have at: "live (heap m2 ! ?b)" "bytes (heap m2 ! ?b) = 400" "length (cells (heap m2 ! ?b)) = 100"
    using arg_cong [OF m2(3), of "\<lambda>l. l ! ?b"] m1(3) l by (simp_all add: shape_nth nth_append)
  obtain m3 where m3: "free (Some ?b) m2 = (Inr (), m3)" "avail m3 = avail m2" "shape m3 = (shape m2)[?b := (400, False, 100)]"
    by (rule free_shape [OF l at(1)]) (use at in simp_all)
  have "read_int (Some ?b) 50 m2 = (Inr (v + 50), m2)"
    using m2(4) at by (simp add: cfun_simps)
  moreover have "leaked m3 = leaked m" "leaked m2 = leaked m @ [400]"
    using m3(3) m2(3) m1(3) by (simp_all add: leaked_shape list_update_append)
  ultimately show ?thesis using m1 m2(1,2) m3 by (simp add: process_with_leak_def cfun_simps)
qed

lemma process_with_leak_leaves:
  "-2147483648 \<le> v \<Longrightarrow> v + 100 \<le> 2147483648 \<Longrightarrow> leaves (process_with_leak v) (if v < 0 then [400] else [])"
  by (rule leavesI) (use process_with_leak_run in blast)

theorem memory_leak_leaves: "leaves (memory_leak fmt_p) [1024, 512, 256, 400]"
proof -
  have l: "leaves (leaky_function fmt_p 1024) [1024]" "leaves (leaky_function fmt_p 512) [512]"
      "leaves (void (process_with_leak (- 5))) [400]" "leaves (void (process_with_leak 10)) []"
    using leaky_function_leaves [of 1024 fmt_p] leaky_function_leaves [of 512 fmt_p]
      leaves_void [OF process_with_leak_leaves [of "- 5"]] leaves_void [OF process_with_leak_leaves [of 10]] by simp_all
  have "leaves (memory_leak fmt_p) ([] @ [] @ [1024] @ [512] @ [] @ [256] @ [] @ [400] @ [] @ [] @ [])"
    unfolding memory_leak_def by (intro leaves_seqc leaves_basic l overwrite_leak_leaves)
  then show ?thesis by simp
qed

lemma init_global_leaves: "leaves (init_global fmt_p) [512]"
proof -
  let ?t = "''Global data that persists until exit''"
  have "leaves (bindc (malloc 512 512) (\<lambda>g. thenc (strcpy g ?t)
      (thenc (print (''  Global buffer at '' @ fmt_p g @ NL)) (ret g)))) [512]" (is "leaves ?p _")
  proof (rule leavesI)
    fix m :: machine assume av: "avail m = (\<lambda>_. True)"
    obtain m1 where "?p m = thenc (print (''  Global buffer at '' @ fmt_p (Some (length (heap m))) @ NL)) (ret (Some (length (heap m)))) m1"
        "avail m1 = (\<lambda>_. True)" "shape m1 = shape m @ [(512, True, 512)]"
      by (rule string_block [OF av, of ?t 512]) simp_all
    then show "\<exists>x m'. ?p m = (Inr x, m') \<and> avail m' = (\<lambda>_. True) \<and> leaked m' = leaked m @ [512]"
      by (simp add: cfun_simps leaked_shape) (simp add: shape_def)
  qed
  from leaves_thenc [OF leaves_basic(2) this] show ?thesis by (simp add: init_global_def)
qed

lemma leaks_buffer_overflow_leaves: "leaves leaks_buffer_overflow []"
proof -
  let ?l = "print (''  (Overflow line commented out '' @ [CHR 0xE2, CHR 0x80, CHR 0x94] @ '' uncomment to test with Valgrind)'' @ NL)"
  have "leaves (bindc (malloc 10 10) (\<lambda>buf. thenc (strcpy buf ''Hello'') (seqc [?l, free buf]))) []" (is "leaves ?p _")
  proof (rule leavesI)
    fix m :: machine assume av: "avail m = (\<lambda>_. True)"
    let ?b = "length (heap m)"
    obtain m1 where m1: "?p m = seqc [?l, free (Some ?b)] m1"
        "avail m1 = (\<lambda>_. True)" "shape m1 = shape m @ [(10, True, 10)]" "?b < length (heap m1)" "live (heap m1 ! ?b)"
        "bytes (heap m1 ! ?b) = 10" "length (cells (heap m1 ! ?b)) = 10"
      by (rule string_block [OF av, of "''Hello''" 10 10 "\<lambda>b. seqc [?l, free b]"]) simp_all
    obtain m2 where m2: "?l m1 = (Inr (), m2)" "heap m2 = heap m1" "avail m2 = avail m1" by (simp add: cfun_simps)
    have s2: "shape m2 = shape m1" using m2(2) by (simp add: shape_def)
    obtain m3 where m3: "free (Some ?b) m2 = (Inr (), m3)" "avail m3 = avail m2" "shape m3 = (shape m1)[?b := (10, False, 10)]"
      by (rule free_shape [of ?b m2]) (use m1 m2 s2 in simp_all)
    have "leaked m3 = leaked m" using m3(3) m1(3) by (simp add: leaked_shape list_update_append)
    with m1 m2 m3 show "\<exists>x m'. ?p m = (Inr x, m') \<and> avail m' = (\<lambda>_. True) \<and> leaked m' = leaked m @ []"
      by (simp add: cfun_simps)
  qed
  then have "leaves (thenc (print (''[Leak 6] Heap buffer overflow'' @ NL))
      (bindc (malloc 10 10) (\<lambda>buf. thenc (strcpy buf ''Hello'') (seqc [?l, free buf])))) ([] @ [])"
    by (intro leaves_thenc leaves_basic)
  then show ?thesis by (simp add: leaks_buffer_overflow_def)
qed

lemma fill_products_run:
  assumes "b < length (heap m)" and "live (heap m ! b)" and "i + k \<le> length (cells (heap m ! b))"
  shows "\<exists>m'. fill_products (Some b) i k m = (Inr (), m') \<and> avail m' = avail m \<and> shape m' = shape m"
  using assms
proof (induction k arbitrary: i m)
  case 0
  then show ?case by (simp add: cfun_simps)
next
  case (Suc k)
  obtain m1 where m1: "write_cells (Some b) i [Num (int i * 42)] m = (Inr (), m1)" "avail m1 = avail m" "shape m1 = shape m"
    by (rule write_shape [OF Suc.prems(1,2), of i "[Num (int i * 42)]"]) (use Suc.prems(3) in simp_all)
  have l1: "b < length (heap m1)" using arg_cong [OF m1(3), of length] Suc.prems(1) by simp
  have "live (heap m1 ! b)" "length (cells (heap m1 ! b)) = length (cells (heap m ! b))"
    using arg_cong [OF m1(3), of "\<lambda>l. l ! b"] Suc.prems(1,2) l1 by (simp_all add: shape_nth)
  then obtain m' where "fill_products (Some b) (i + 1) k m1 = (Inr (), m')" "avail m' = avail m1" "shape m' = shape m1"
    using Suc.IH [OF l1, of "i + 1"] Suc.prems(3) by auto
  then show ?case using m1 by (simp add: cfun_simps)
qed

lemma leaks_use_after_free_leaves: "leaves leaks_use_after_free []"
proof -
  let ?l = "print (''  (Use-after-free line commented out '' @ [CHR 0xE2, CHR 0x80, CHR 0x94] @ '' uncomment to test with Valgrind)'' @ NL)"
  have "leaves (bindc (malloc 40 10) (\<lambda>data. seqc [fill_products data 0 10, free data, ?l])) []" (is "leaves ?p _")
  proof (rule leavesI)
    fix m :: machine assume av: "avail m = (\<lambda>_. True)"
    let ?b = "length (heap m)"
    obtain m1 where m1: "malloc 40 10 m = (Inr (Some ?b), m1)" "avail m1 = (\<lambda>_. True)" "shape m1 = shape m @ [(40, True, 10)]"
        "?b < length (heap m1)" "heap m1 ! ?b = \<lparr>bytes = 40, cells = replicate 10 None, live = True\<rparr>"
      by (rule one_block [OF av])
    obtain m2 where m2: "fill_products (Some ?b) 0 10 m1 = (Inr (), m2)" "avail m2 = avail m1" "shape m2 = shape m1"
      using fill_products_run [OF m1(4), of 0 10] m1(5) by auto
    have l: "?b < length (heap m2)" using arg_cong [OF m2(3), of length] m1(4) by simp
    have at: "live (heap m2 ! ?b)" "bytes (heap m2 ! ?b) = 40" "length (cells (heap m2 ! ?b)) = 10"
      using arg_cong [OF m2(3), of "\<lambda>l. l ! ?b"] m1(3) l by (simp_all add: shape_nth nth_append)
    obtain m3 where m3: "free (Some ?b) m2 = (Inr (), m3)" "avail m3 = avail m2" "shape m3 = (shape m2)[?b := (40, False, 10)]"
      by (rule free_shape [OF l at(1)]) (use at in simp_all)
    have "leaked m3 = leaked m" using m3(3) m2(3) m1(3) by (simp add: leaked_shape list_update_append)
    with m1 m2 m3 show "\<exists>x m'. ?p m = (Inr x, m') \<and> avail m' = (\<lambda>_. True) \<and> leaked m' = leaked m @ []"
      by (simp add: cfun_simps) (simp add: leaked_def)
  qed
  from leaves_thenc [OF leaves_basic(2) this] show ?thesis by (simp add: leaks_use_after_free_def)
qed

text \<open>Blocks that follow one another are released one by one.\<close>

lemma free_strings_run:
  assumes "avail m = (\<lambda>_. True)" and "b < length (heap m)" and "live (heap m ! b)" and "i + k \<le> length (cells (heap m ! b))"
    and "\<forall>j. i \<le> j \<and> j < i + k \<longrightarrow> cells (heap m ! b) ! j = Some (Ptr (Some (b + 1 + j)))"
    and "shape m = pre @ replicate k (sz, True, n)" and "length pre = b + 1 + i"
  shows "\<exists>m'. free_strings (Some b) i k m = (Inr (), m') \<and> avail m' = (\<lambda>_. True) \<and> shape m' = pre @ replicate k (sz, False, n) \<and>
    cells (heap m' ! b) = cells (heap m ! b)"
  using assms
proof (induction k arbitrary: i m pre)
  case 0
  then show ?case by (simp add: cfun_simps)
next
  case (Suc k)
  let ?c = "b + 1 + i"
  have r: "read_pointer (Some b) i m = (Inr (Some ?c), m)"
    using Suc.prems(3-5) by (simp add: cfun_simps)
  have l: "?c < length (heap m)" using arg_cong [OF Suc.prems(6), of length] Suc.prems(7) by simp
  have at: "live (heap m ! ?c)" "bytes (heap m ! ?c) = sz" "length (cells (heap m ! ?c)) = n"
    using arg_cong [OF Suc.prems(6), of "\<lambda>l. l ! ?c"] Suc.prems(7) l by (simp_all add: shape_nth nth_append)
  obtain m1 where m1: "free (Some ?c) m = (Inr (), m1)" "avail m1 = avail m" "shape m1 = (shape m)[?c := (sz, False, n)]"
      "\<And>d. cells (heap m1 ! d) = cells (heap m ! d)"
    by (rule free_shape [OF l at(1)]) (use at in simp_all)
  have s1: "shape m1 = (pre @ [(sz, False, n)]) @ replicate k (sz, True, n)"
    using m1(3) Suc.prems(6,7) by (simp add: list_update_append)
  have l1: "b < length (heap m1)" using arg_cong [OF m1(3), of length] Suc.prems(2) by simp
  have at1: "live (heap m1 ! b)"
    using arg_cong [OF m1(3), of "\<lambda>l. l ! b"] Suc.prems(2,3) l1 by (simp add: shape_nth)
  have i1: "avail m1 = (\<lambda>_. True)" "i + 1 + k \<le> length (cells (heap m1 ! b))"
      "\<forall>j. i + 1 \<le> j \<and> j < i + 1 + k \<longrightarrow> cells (heap m1 ! b) ! j = Some (Ptr (Some (b + 1 + j)))"
      "length (pre @ [(sz, False, n)]) = b + 1 + (i + 1)"
    using m1(2,4) Suc.prems(1,4,5,7) by simp_all
  obtain m' where "free_strings (Some b) (i + 1) k m1 = (Inr (), m')" "avail m' = (\<lambda>_. True)"
      "shape m' = (pre @ [(sz, False, n)]) @ replicate k (sz, False, n)" "cells (heap m' ! b) = cells (heap m1 ! b)"
    using Suc.IH [OF i1(1) l1 at1 i1(2,3) s1 i1(4)] by blast
  then show ?case using r m1(1,4) by (simp add: cfun_simps)
qed

lemma no_leak_leaves: "leaves no_leak []"
proof -
  let ?l = "print (''  All memory properly freed.'' @ NL)"
  have "leaves (bindc (malloc 24 3) (\<lambda>lst. thenc (alloc_strings 64 ''Item '' lst 0 3)
          (seqc [free_strings lst 0 3, free lst, ?l]))) []" (is "leaves ?p _")
  proof (rule leavesI)
    fix m :: machine assume av: "avail m = (\<lambda>_. True)"
    let ?b = "length (heap m)"
    obtain m1 where m1: "?p m = seqc [free_strings (Some ?b) 0 3, free (Some ?b), ?l] m1" "avail m1 = (\<lambda>_. True)"
        "shape m1 = shape m @ (24, True, 3) # replicate 3 (64, True, 64)"
        "\<forall>j < 3. cells (heap m1 ! ?b) ! j = Some (Ptr (Some (?b + 1 + j)))"
      by (rule strings_allocated [OF av, of 64]) simp_all
    have l1: "?b < length (heap m1)" using arg_cong [OF m1(3), of length] by simp
    have at1: "live (heap m1 ! ?b)" "length (cells (heap m1 ! ?b)) = 3"
      using arg_cong [OF m1(3), of "\<lambda>l. l ! ?b"] l1 by (simp_all add: shape_nth nth_append)
    obtain m2 where m2: "free_strings (Some ?b) 0 3 m1 = (Inr (), m2)" "avail m2 = (\<lambda>_. True)"
        "shape m2 = (shape m @ [(24, True, 3)]) @ replicate 3 (64, False, 64)"
      using free_strings_run [OF m1(2) l1 at1(1), of 0 3 "shape m @ [(24, True, 3)]" 64 64] at1(2) m1(3,4) by auto
    have l2: "?b < length (heap m2)" using arg_cong [OF m2(3), of length] by simp
    have at2: "live (heap m2 ! ?b)" "bytes (heap m2 ! ?b) = 24" "length (cells (heap m2 ! ?b)) = 3"
      using arg_cong [OF m2(3), of "\<lambda>l. l ! ?b"] l2 by (simp_all add: shape_nth nth_append)
    obtain m3 where m3: "free (Some ?b) m2 = (Inr (), m3)" "avail m3 = avail m2" "shape m3 = (shape m2)[?b := (24, False, 3)]"
      by (rule free_shape [OF l2 at2(1)]) (use at2 in simp_all)
    have "leaked m3 = leaked m" using m3(3) m2(3) by (simp add: leaked_shape list_update_append)
    with m1 m2 m3 show "\<exists>x m'. ?p m = (Inr x, m') \<and> avail m' = (\<lambda>_. True) \<and> leaked m' = leaked m @ []"
      by (simp add: cfun_simps) (simp add: leaked_def)
  qed
  from leaves_thenc [OF leaves_basic(2) this] show ?thesis by (simp add: no_leak_def)
qed

lemma realloc_run:
  assumes "avail m = (\<lambda>_. True)" and "b < length (heap m)" and "live (heap m ! b)" and "length (cells (heap m ! b)) \<le> n"
  obtains m' where "realloc (Some b) sz n m = (Inr (Some (length (heap m))), m')" and "avail m' = (\<lambda>_. True)"
    and "shape m' = (shape m)[b := (bytes (heap m ! b), False, length (cells (heap m ! b)))] @ [(sz, True, n)]"
proof -
  let ?c = "length (heap m)" and ?old = "heap m ! b"
  let ?m1 = "m\<lparr>requests := requests m + 1, heap := heap m @ [\<lparr>bytes = sz, cells = replicate n None, live = True\<rparr>]\<rparr>"
  let ?m2 = "?m1\<lparr>heap := (heap ?m1)[?c := (heap ?m1 ! ?c)\<lparr>cells := splice 0 (take n (cells ?old)) (cells (heap ?m1 ! ?c))\<rparr>]\<rparr>"
  have s2: "shape ?m2 = shape m @ [(sz, True, n)]"
    using assms(4) by (simp add: shape_def splice_length)
  have at: "b < length (heap ?m2)" "heap ?m2 ! b = ?old" using assms(2) by (simp_all add: nth_append)
  obtain m3 where m3: "free (Some b) ?m2 = (Inr (), m3)" "avail m3 = avail ?m2"
      "shape m3 = (shape ?m2)[b := (bytes (heap ?m2 ! b), False, length (cells (heap ?m2 ! b)))]"
    by (rule free_shape [OF at(1)]) (use at(2) assms(3) in simp_all)
  have "realloc (Some b) sz n m = (Inr (Some ?c), m3)"
    using assms(1,3) m3(1) by (simp add: realloc_def cfun_simps)
  moreover have "shape m3 = (shape m)[b := (bytes ?old, False, length (cells ?old))] @ [(sz, True, n)]"
    using m3(3) assms(2) unfolding s2 at(2) by (simp add: list_update_append)
  ultimately show thesis using that m3(2) assms(1) by simp
qed

lemma leak_realloc_leaves: "leaves (leak_realloc fmt_p) []"
proof -
  let ?f = "\<lambda>buf. bindc (realloc buf 200 200) (\<lambda>tmp.
             if tmp = None then seqc [print (''  realloc failed, original still at '' @ fmt_p buf @ NL), free buf, free buf]
             else seqc [print (''  Reallocated to 200 bytes at '' @ fmt_p tmp @ NL), free tmp])"
  have "leaves (bindc (malloc 100 100) (\<lambda>buf. thenc (strcpy buf ''Initial data'') (?f buf))) []" (is "leaves ?p _")
  proof (rule leavesI)
    fix m :: machine assume av: "avail m = (\<lambda>_. True)"
    let ?b = "length (heap m)"
    obtain m1 where m1: "?p m = ?f (Some ?b) m1" "avail m1 = (\<lambda>_. True)" "shape m1 = shape m @ [(100, True, 100)]"
        "?b < length (heap m1)" "live (heap m1 ! ?b)" "bytes (heap m1 ! ?b) = 100" "length (cells (heap m1 ! ?b)) = 100"
      by (rule string_block [OF av, of "''Initial data''" 100 100 ?f]) simp_all
    let ?c = "length (heap m1)"
    have c: "?c = Suc ?b" using arg_cong [OF m1(3), of length] by simp
    obtain m2 where m2: "realloc (Some ?b) 200 200 m1 = (Inr (Some ?c), m2)" "avail m2 = (\<lambda>_. True)"
        "shape m2 = shape m @ [(100, False, 100), (200, True, 200)]"
      by (rule realloc_run [OF m1(2,4,5), of 200 200]) (use m1(3,6,7) in \<open>simp_all add: list_update_append\<close>)
    let ?m3 = "m2\<lparr>console := console m2 @ [''  Reallocated to 200 bytes at '' @ fmt_p (Some ?c) @ NL]\<rparr>"
    have s3: "shape ?m3 = shape m2" by (simp add: shape_def)
    have l: "?c < length (heap ?m3)" using arg_cong [OF m2(3), of length] c by simp
    have at: "live (heap ?m3 ! ?c)" "bytes (heap ?m3 ! ?c) = 200" "length (cells (heap ?m3 ! ?c)) = 200"
      using arg_cong [OF m2(3), of "\<lambda>l. l ! ?c"] l c by (simp_all add: shape_nth nth_append)
    obtain m4 where m4: "free (Some ?c) ?m3 = (Inr (), m4)" "avail m4 = avail ?m3" "shape m4 = (shape m2)[?c := (200, False, 200)]"
      by (rule free_shape [OF l at(1)]) (use at s3 in simp_all)
    have "leaked m4 = leaked m" using m4(3) m2(3) c by (simp add: leaked_shape list_update_append)
    with m1 m2 m4 show "\<exists>x m'. ?p m = (Inr x, m') \<and> avail m' = (\<lambda>_. True) \<and> leaked m' = leaked m @ []"
      by (simp add: cfun_simps)
  qed
  from leaves_thenc [OF leaves_basic(2) this] show ?thesis by (simp add: leak_realloc_def)
qed

theorem memory_leaks_leaves: "leaves (memory_leaks fmt_p) (256 # replicate 5 100 @ [512])"
proof -
  have "leaves (memory_leaks fmt_p) ([] @ [256] @ replicate 5 100 @ [] @ [512] @ [] @ [] @ [] @ [] @ [])"
    unfolding memory_leaks_def
    by (intro leaves_seqc leaves_basic leak_direct_leaves leak_indirect_leaves leak_realloc_leaves leaves_void init_global_leaves
        leaks_use_after_free_leaves leaks_buffer_overflow_leaves no_leak_leaves)
  then show ?thesis by simp
qed

text \<open>The branch of \<open>leak_realloc\<close> for a failed \<open>realloc\<close> releases the block, and so does the line behind the branches.\<close>

theorem leak_realloc_double_free:
  "fst (leak_realloc fmt_p (started (\<lambda>k. k = 0))) = Inl Bad_Free"
  by (simp add: leak_realloc_def started_def realloc_def strcpy_def cfun_simps)

section \<open>The programs\<close>

lemma leaves_started:
  fixes p :: "unit cfun"
  assumes "leaves p ls"
  shows "\<exists>m. p (started (\<lambda>_. True)) = (Inr (), m) \<and> leaked m = ls"
proof -
  have s: "avail (started (\<lambda>_. True)) = (\<lambda>_. True)" "leaked (started (\<lambda>_. True)) = []" by (simp_all add: started_def leaked_def)
  obtain x m where "p (started (\<lambda>_. True)) = (Inr x, m)" "leaked m = leaked (started (\<lambda>_. True)) @ ls"
    using assms s(1) by (rule leavesE)
  then show ?thesis by (simp add: s(2))
qed

text \<open>
  C33. When memory does not run out, the three programs end without undefined behaviour, and the blocks that they leave to the leak checker are exactly these sizes in this order:
  five nodes, nine buffers and the one of the error path; two buffers, the lost one and the array of the error path; a buffer, five strings and the global buffer.
\<close>

theorem leak_labs_report:
  "(\<exists>m. leak_demo content (started (\<lambda>_. True)) = (Inr (), m) \<and> leaked m = replicate 5 16 @ replicate 9 128 @ (if content = None then [1024] else [])) \<and>
   (\<exists>m. memory_leak fmt_p (started (\<lambda>_. True)) = (Inr (), m) \<and> leaked m = [1024, 512, 256, 400]) \<and>
   (\<exists>m. memory_leaks fmt_p (started (\<lambda>_. True)) = (Inr (), m) \<and> leaked m = 256 # replicate 5 100 @ [512])"
  by (intro conjI leaves_started leak_demo_leaves memory_leak_leaves memory_leaks_leaves)

end
