(* ===== verification/MathLib.thy ===== *)
theory MathLib
  imports CPrelude
begin

text \<open>
  The integer functions of the library in SystemProgramming/Handson/lab03_libraries (mathlib_basic.c and
  mathlib_advanced.c). Signed overflow is undefined in C, so each function is an option: \<open>None\<close> where the
  arithmetic on \<open>int\<close> overflows or an array is left. The floating-point functions are not modelled.
\<close>

section \<open>mathlib_basic\<close>

definition mathlib_add :: "int \<Rightarrow> int \<Rightarrow> int option" where
  "mathlib_add a b = arith32 (a + b)"

definition mathlib_subtract :: "int \<Rightarrow> int \<Rightarrow> int option" where
  "mathlib_subtract a b = arith32 (a - b)"

definition mathlib_multiply :: "int \<Rightarrow> int \<Rightarrow> int option" where
  "mathlib_multiply a b = arith32 (a * b)"

function factorial_loop :: "int \<Rightarrow> int \<Rightarrow> int \<Rightarrow> int option" where
  "factorial_loop i n result =
     (if i \<le> n then
        (case arith32 (result * i) of
           None \<Rightarrow> None
         | Some r \<Rightarrow> factorial_loop (i + 1) n r)
      else Some result)"
  by pat_completeness auto
termination by (relation "measure (\<lambda>(i, n, _). nat (n + 1 - i))") auto

definition mathlib_factorial :: "int \<Rightarrow> int option" where
  "mathlib_factorial n = (if n < 0 then Some (-1) else if n \<le> 1 then Some 1 else factorial_loop 2 n 1)"

lemma c_mod_less: "b \<noteq> 0 \<Longrightarrow> \<bar>c_mod a b\<bar> < \<bar>b\<bar>"
proof -
  assume "b \<noteq> 0"
  have "c_mod a b = sgn a * (\<bar>a\<bar> mod \<bar>b\<bar>)"
    by (cases "a < 0"; cases "b < 0") (auto simp: c_mod_def c_div_def sgn_if minus_div_mult_eq_mod [symmetric])
  moreover have "0 \<le> \<bar>a\<bar> mod \<bar>b\<bar>" using \<open>b \<noteq> 0\<close> by simp
  ultimately have "\<bar>c_mod a b\<bar> \<le> \<bar>a\<bar> mod \<bar>b\<bar>" by (simp add: abs_mult sgn_if)
  also have "\<dots> < \<bar>b\<bar>" using \<open>b \<noteq> 0\<close> by simp
  finally show ?thesis .
qed

function gcd_loop :: "int \<Rightarrow> int \<Rightarrow> int" where
  "gcd_loop a b = (if b \<noteq> 0 then gcd_loop b (c_mod a b) else a)"
  by pat_completeness auto
termination by (relation "measure (\<lambda>(a, b). nat \<bar>b\<bar>)") (simp_all add: c_mod_less)

definition abs32 :: "int \<Rightarrow> int option" where
  "abs32 a = (if a < 0 then arith32 (- a) else Some a)"

definition mathlib_gcd :: "int \<Rightarrow> int \<Rightarrow> int option" where
  "mathlib_gcd a b = do { a' \<leftarrow> abs32 a; b' \<leftarrow> abs32 b; Some (gcd_loop a' b') }"

text \<open>The one overflow of a division, \<open>INT_MIN / -1\<close>, cannot occur: the divisor is never negative.\<close>

definition mathlib_lcm :: "int \<Rightarrow> int \<Rightarrow> int option" where
  "mathlib_lcm a b =
     (if a = 0 \<or> b = 0 then Some 0
      else do { g \<leftarrow> mathlib_gcd a b; arith32 (c_div a g * b) })"

section \<open>mathlib_advanced\<close>

function prime_loop :: "int \<Rightarrow> int \<Rightarrow> int option" where
  "prime_loop i n =
     (case arith32 (i * i) of
        None \<Rightarrow> None
      | Some ii \<Rightarrow>
          if ii \<le> n then
            (if c_mod n i = 0 \<or> c_mod n (i + 2) = 0 then Some 0 else prime_loop (i + 6) n)
          else Some 1)"
  by pat_completeness auto
termination
proof (relation "measure (\<lambda>(i, n). nat (n + 1 - i))")
  fix i n ii :: int
  assume "arith32 (i * i) = Some ii" "ii \<le> n"
  then have "i * i \<le> n" by (simp add: arith32_def split: if_splits)
  moreover have "i \<le> i * i"
  proof (cases "1 \<le> i")
    case True
    then have "i * 1 \<le> i * i" by (intro mult_left_mono) simp_all
    then show ?thesis by simp
  next
    case False
    then have "i \<le> 0" by simp
    also have "0 \<le> i * i" by simp
    finally show ?thesis .
  qed
  ultimately show "((i + 6, n), (i, n)) \<in> measure (\<lambda>(i, n). nat (n + 1 - i))" by simp
qed simp

definition mathlib_is_prime :: "int \<Rightarrow> int option" where
  "mathlib_is_prime n =
     (if n \<le> 1 then Some 0
      else if n \<le> 3 then Some 1
      else if c_mod n 2 = 0 \<or> c_mod n 3 = 0 then Some 0
      else prime_loop 5 n)"

text \<open>\<open>mathlib_fibonacci\<close> fills the array it is given.\<close>

function fibonacci_loop :: "nat \<Rightarrow> nat \<Rightarrow> int list \<Rightarrow> int list option" where
  "fibonacci_loop i count buf =
     (if i < count then
        (if i < length buf then
           (case arith32 (buf ! (i - 1) + buf ! (i - 2)) of
              None \<Rightarrow> None
            | Some v \<Rightarrow> fibonacci_loop (i + 1) count (buf[i := v]))
         else None)
      else Some buf)"
  by pat_completeness auto
termination by (relation "measure (\<lambda>(i, count, _). count - i)") auto

definition mathlib_fibonacci :: "int list \<Rightarrow> int \<Rightarrow> int list option" where
  "mathlib_fibonacci buf count =
     (if count \<le> 0 then Some buf
      else if length buf < 1 then None
      else if count = 1 then Some (buf[0 := 0])
      else if length buf < 2 then None
      else fibonacci_loop 2 (nat count) (buf[0 := 0, 1 := 1]))"

declare factorial_loop.simps [simp del] gcd_loop.simps [simp del] prime_loop.simps [simp del]
  fibonacci_loop.simps [simp del]

section \<open>Factorial, greatest common divisor, least common multiple\<close>

lemma mathlib_factorial_value:
  "mathlib_factorial n = (if n < 0 then Some (-1) else if n \<le> 12 then Some (fact (nat n)) else None)"
proof -
  consider "n < 2" | "2 \<le> n \<and> n \<le> 12" | "13 \<le> n" by linarith
  then show ?thesis
  proof cases
    case 1
    then have "n < 0 \<or> n = 0 \<or> n = 1" by linarith
    then show ?thesis by (auto simp: mathlib_factorial_def)
  next
    case 2
    then have "n = 12 \<or> n = 9 \<or> n = 6 \<or> n = 3 \<or> n = 10 \<or> n = 7 \<or> n = 4 \<or> n = 11 \<or> n = 8 \<or> n = 5 \<or> n = 2" by presburger
    then show ?thesis by (elim disjE) (simp_all add: mathlib_factorial_def factorial_loop.simps fact_numeral)
  next
    case 3
    then show ?thesis
      by (simp add: mathlib_factorial_def factorial_loop.simps arith32_overflow)
  qed
qed

lemma gcd_loop_value: "0 \<le> a \<Longrightarrow> 0 \<le> b \<Longrightarrow> gcd_loop a b = gcd a b"
proof (induction a b rule: gcd_loop.induct)
  case (1 a b)
  show ?case
  proof (cases "b = 0")
    case True
    with 1 show ?thesis by (simp add: gcd_loop.simps [of a])
  next
    case False
    with 1 have "gcd_loop b (a mod b) = gcd b (a mod b)" by simp
    with 1(2,3) False show ?thesis by (simp add: gcd_loop.simps [of a] gcd_red_int [symmetric])
  qed
qed

lemma abs32_value: "-2147483648 < a \<Longrightarrow> a < 2147483648 \<Longrightarrow> abs32 a = Some \<bar>a\<bar>"
  by (simp add: abs32_def)

lemma mathlib_gcd_value:
  assumes "-2147483648 < a" "a < 2147483648" "-2147483648 < b" "b < 2147483648"
  shows "mathlib_gcd a b = Some (gcd a b)"
  using assms by (simp add: mathlib_gcd_def abs32_value gcd_loop_value)

lemma c_div_exact: "0 < g \<Longrightarrow> g dvd a \<Longrightarrow> c_div a g = a div g"
  by (auto simp: c_div_def abs_mult sgn_mult sgn_mult_abs elim!: dvdE)

lemma mathlib_lcm_value:
  assumes "-2147483648 < a" "a < 2147483648" "-2147483648 < b" "b < 2147483648"
  shows "mathlib_lcm a b = arith32 (sgn a * sgn b * lcm a b)"
proof (cases "a = 0 \<or> b = 0")
  case True
  then show ?thesis by (auto simp: mathlib_lcm_def)
next
  case False
  define g where "g = gcd a b"
  have g: "0 < g" "g dvd a" using False by (simp_all add: g_def)
  then obtain k where k: "a = g * k" by blast
  have "lcm a b = g * (\<bar>k\<bar> * \<bar>b\<bar>) div g"
    using g(1) by (simp add: lcm_altdef_int g_def [symmetric]) (simp add: k abs_mult mult.assoc)
  then have "lcm a b = \<bar>k\<bar> * \<bar>b\<bar>" using g(1) by simp
  moreover have "sgn a = sgn k" using g(1) by (simp add: k sgn_mult)
  ultimately have "sgn a * sgn b * lcm a b = (sgn k * \<bar>k\<bar>) * (sgn b * \<bar>b\<bar>)" by (simp add: mult_ac)
  then have l: "sgn a * sgn b * lcm a b = k * b" by (simp only: sgn_mult_abs)
  have "c_div a g = k" using c_div_exact [OF g] g(1) by (simp add: k)
  then show ?thesis using False assms l by (simp add: mathlib_lcm_def mathlib_gcd_value g_def [symmetric])
qed

section \<open>Primality\<close>

definition prime_int :: "int \<Rightarrow> bool" where
  "prime_int n \<longleftrightarrow> 2 \<le> n \<and> (\<forall>d. 2 \<le> d \<and> d < n \<longrightarrow> \<not> d dvd n)"

lemma not_prime_int: "2 \<le> d \<Longrightarrow> d < n \<Longrightarrow> d dvd n \<Longrightarrow> \<not> prime_int n"
  unfolding prime_int_def by blast

text \<open>A number without a divisor up to its square root is prime.\<close>

lemma prime_int_sqrt:
  assumes "2 \<le> n" and "\<And>d. 2 \<le> d \<Longrightarrow> d * d \<le> n \<Longrightarrow> \<not> d dvd n"
  shows "prime_int n"
proof -
  have False if d: "2 \<le> d" "d < n" "d dvd n" for d
  proof -
    obtain e where e: "n = d * e" using d(3) by blast
    have "1 < e"
    proof (rule ccontr)
      assume "\<not> 1 < e"
      then have "d * e \<le> d * 1" using d(1) by (intro mult_left_mono) simp_all
      with e d show False by simp
    qed
    show False
    proof (cases "d \<le> e")
      case True
      then have "d * d \<le> d * e" using d(1) by (intro mult_left_mono) simp_all
      with assms(2) [of d] d e show False by simp
    next
      case False
      then have "e * e \<le> d * e" using \<open>1 < e\<close> by (intro mult_right_mono) simp_all
      with assms(2) [of e] \<open>1 < e\<close> e show False by simp
    qed
  qed
  with assms(1) show ?thesis by (auto simp: prime_int_def)
qed

text \<open>
  The invariant of the loop: \<open>i\<close> is one below a multiple of six and no smaller number divides \<open>n\<close>. Of the
  six numbers that an iteration passes, only \<open>i\<close> and \<open>i + 2\<close> are divisible by neither 2 nor 3.
\<close>

lemma wheel_step:
  assumes "i mod 6 = 5" and "\<not> 2 dvd n" "\<not> 3 dvd n" and "\<not> i dvd n" "\<not> (i + 2) dvd n"
    and "i \<le> d" "d < i + 6"
  shows "\<not> d dvd (n :: int)"
proof -
  have two: "\<not> d dvd n" if "2 dvd d" using that assms(2) dvd_trans by blast
  have three: "\<not> d dvd n" if "3 dvd d" using that assms(3) dvd_trans by blast
  have "d = i \<or> d = i + 1 \<or> d = i + 2 \<or> d = i + 3 \<or> d = i + 4 \<or> d = i + 5" using assms(6,7) by presburger
  moreover have "2 dvd (i + 1)" "2 dvd (i + 3)" "3 dvd (i + 4)" "2 dvd (i + 5)" using assms(1) by presburger+
  ultimately show ?thesis using assms(4,5) two three by blast
qed

lemma square_less_iff: "0 \<le> i \<Longrightarrow> 0 \<le> j \<Longrightarrow> i * i < j * j \<longleftrightarrow> i < (j :: int)"
  by (metis abs_of_nonneg linorder_not_le mult_mono mult_strict_mono')

lemma square_fits: "0 \<le> i \<Longrightarrow> i * i < 2147483648 \<longleftrightarrow> i < (46341 :: int)"
  using square_less_iff [of i 46341] square_less_iff [of 46340 i] by simp linarith

text \<open>The largest square that the loop can compute is that of 46337.\<close>

lemma prime_loop_value:
  assumes "5 \<le> i" "i mod 6 = 5" "i = 5 \<or> (i - 6) * (i - 6) \<le> n"
    and "\<And>d. 2 \<le> d \<Longrightarrow> d < i \<Longrightarrow> d < n \<Longrightarrow> \<not> d dvd n"
    and n: "\<not> 2 dvd n" "\<not> 3 dvd n" "5 \<le> n" "n < 2147483648"
  shows "prime_loop i n = (if \<not> prime_int n then Some 0 else if n < 46337 * 46337 then Some 1 else None)"
  using assms
proof (induction i n rule: prime_loop.induct)
  case (1 i n)
  note h = 1(2-9)
  show ?case
  proof (cases "i < 46341")
    case False
    then have big: "2147483648 \<le> i * i" using square_fits [of i] h(1) by linarith
    have "(i - 6) * (i - 6) < 2147483648" using h(3,8) False by auto
    then have "i < 46347" using square_fits [of "i - 6"] h(1) False by simp
    with False h(2) have i: "i = 46343" by presburger
    have "prime_int n"
    proof (rule prime_int_sqrt)
      fix d :: int assume d: "2 \<le> d" "d * d \<le> n"
      then have "d < 46341" using square_fits [of d] h(8) by simp
      moreover have "d < n" using h(3) \<open>d < 46341\<close> by (simp add: i)
      ultimately show "\<not> d dvd n" using h(4) [of d] d i by simp
    qed (use h in simp)
    moreover have "46337 * 46337 \<le> n" using h(3) by (simp add: i)
    moreover have "prime_loop i n = None" using big by (simp add: prime_loop.simps [of i] arith32_overflow)
    ultimately show ?thesis by simp
  next
    case True
    then have small: "i * i < 2147483648" using square_fits [of i] h(1) by simp
    have fit: "arith32 (i * i) = Some (i * i)"
    proof (rule arith32_ok)
      show "-2147483648 \<le> i * i" by (rule order_trans [of _ 0]) simp_all
    qed (rule small)
    show ?thesis
    proof (cases "i * i \<le> n")
      case False
      have "prime_int n"
      proof (rule prime_int_sqrt)
        fix d :: int assume d: "2 \<le> d" "d * d \<le> n"
        then have "d * d < i * i" using False by simp
        then have "d < i" using square_less_iff [of d i] d(1) h(1) by simp
        moreover have "d < n"
        proof -
          have "d * 2 \<le> d * d" using d(1) by (intro mult_left_mono) simp_all
          with d show ?thesis by linarith
        qed
        ultimately show "\<not> d dvd n" using h(4) d by simp
      qed (use h in simp)
      moreover have "n < 46337 * 46337"
      proof -
        have "i \<le> 46337" using True h(2) by presburger
        then have "i * i \<le> 46337 * 46337" using h(1) by (intro mult_mono) simp_all
        with False show ?thesis by simp
      qed
      moreover have "prime_loop i n = Some 1" using False by (simp add: prime_loop.simps [of i] fit)
      ultimately show ?thesis by simp
    next
      case le: True
      have "i * 5 \<le> i * i" using h(1) by (intro mult_left_mono) simp_all
      with le have "i + 2 < n" using h(1) by linarith
      have c: "c_mod n i = n mod i" "c_mod n (i + 2) = n mod (i + 2)" using h(1,7) by simp_all
      show ?thesis
      proof (cases "i dvd n \<or> i + 2 dvd n")
        case True
        then have "\<not> prime_int n" using h(1) \<open>i + 2 < n\<close> not_prime_int [of i n] not_prime_int [of "i + 2" n] by auto
        moreover have "n mod i = 0 \<or> n mod (i + 2) = 0" using True by (simp add: dvd_eq_mod_eq_0)
        ultimately show ?thesis using le by (simp add: prime_loop.simps [of i] fit c)
      next
        case False
        then have nz: "n mod i \<noteq> 0" "n mod (i + 2) \<noteq> 0" by (simp_all add: dvd_eq_mod_eq_0)
        have "prime_loop (i + 6) n = (if \<not> prime_int n then Some 0 else if n < 46337 * 46337 then Some 1 else None)"
        proof (rule 1(1) [OF fit le])
          show "\<not> (c_mod n i = 0 \<or> c_mod n (i + 2) = 0)" using nz by (simp add: c)
          show "(i + 6) mod 6 = 5" using h(2) by simp
          show "\<not> d dvd n" if "2 \<le> d" "d < i + 6" "d < n" for d
          proof (cases "d < i")
            case True
            with h(4) that show ?thesis by simp
          next
            case d: False
            then show ?thesis using wheel_step [OF h(2,5,6)] False that(2) by simp
          qed
        qed (use h le in simp_all)
        then show ?thesis using le nz by (simp add: prime_loop.simps [of i] fit c)
      qed
    qed
  qed
qed

text \<open>
  C22. \<open>mathlib_is_prime\<close> decides primality for every \<open>int\<close> except the primes from 46337 * 46337 up, on which the
  square of the loop variable overflows: no prime above that bound is ever recognised.
\<close>

theorem mathlib_is_prime_correct:
  assumes "-2147483648 \<le> n" and "n < 2147483648"
  shows "mathlib_is_prime n =
    (if \<not> (2 \<le> n \<and> (\<forall>d. 2 \<le> d \<and> d < n \<longrightarrow> \<not> d dvd n)) then Some 0
     else if n < 46337 * 46337 then Some 1 else None)"
proof -
  have p: "(2 \<le> n \<and> (\<forall>d. 2 \<le> d \<and> d < n \<longrightarrow> \<not> d dvd n)) \<longleftrightarrow> prime_int n" by (simp add: prime_int_def)
  have "mathlib_is_prime n = (if \<not> prime_int n then Some 0 else if n < 46337 * 46337 then Some 1 else None)"
  proof (cases "n \<le> 3")
    case True
    then have "n \<le> 1 \<or> n = 2 \<or> n = 3" by presburger
    moreover have "prime_int 2" by (auto simp: prime_int_def)
    moreover have "prime_int 3"
    proof (rule prime_int_sqrt)
      fix d :: int assume "2 \<le> d" "d * d \<le> 3"
      moreover from this have "2 * 2 \<le> d * d" by (intro mult_mono) simp_all
      ultimately show "\<not> d dvd 3" by simp
    qed simp
    ultimately show ?thesis by (auto simp: mathlib_is_prime_def prime_int_def)
  next
    case False
    show ?thesis
    proof (cases "2 dvd n \<or> 3 dvd n")
      case True
      then have "n mod 2 = 0 \<or> n mod 3 = 0" by (simp add: dvd_eq_mod_eq_0)
      moreover have "\<not> prime_int n" using True False not_prime_int [of 2 n] not_prime_int [of 3 n] by auto
      ultimately show ?thesis using False by (simp add: mathlib_is_prime_def)
    next
      case odd: False
      then have "n \<noteq> 4" "n mod 2 \<noteq> 0" "n mod 3 \<noteq> 0" by (auto simp: dvd_eq_mod_eq_0)
      moreover have "\<not> d dvd n" if d: "2 \<le> d" "d < 5" for d :: int
      proof -
        have "d = 2 \<or> d = 3 \<or> d = 4" using d by presburger
        moreover have "\<not> 4 dvd n" using odd by presburger
        ultimately show ?thesis using odd by blast
      qed
      ultimately have "prime_loop 5 n = (if \<not> prime_int n then Some 0 else if n < 46337 * 46337 then Some 1 else None)"
        using odd False assms(2) by (intro prime_loop_value) simp_all
      then show ?thesis using False \<open>n mod 2 \<noteq> 0\<close> \<open>n mod 3 \<noteq> 0\<close> by (simp add: mathlib_is_prime_def)
    qed
  qed
  then show ?thesis by (simp only: p)
qed

theorem mathlib_is_prime_correct_witness:
  "mathlib_is_prime 91 = Some 0 \<and> mathlib_is_prime 7 = Some 1"
proof
  have "7 dvd (91 :: int)" by simp
  then have "\<exists>d\<ge>2. d < 91 \<and> d dvd (91 :: int)" by (intro exI [of _ 7]) simp
  then show "mathlib_is_prime 91 = Some 0" using mathlib_is_prime_correct [of 91] by simp
  have "\<not> d dvd 7" if d: "2 \<le> d" "d < 7" for d :: int
  proof -
    have "d = 2 \<or> d = 3 \<or> d = 4 \<or> d = 5 \<or> d = 6" using d by presburger
    then show ?thesis by auto
  qed
  then show "mathlib_is_prime 7 = Some 1" using mathlib_is_prime_correct [of 7] by auto
qed

section \<open>Fibonacci numbers\<close>

fun fib :: "nat \<Rightarrow> int" where
  "fib 0 = 0"
| "fib (Suc 0) = 1"
| "fib (Suc (Suc n)) = fib (Suc n) + fib n"

lemma fib_nonneg: "0 \<le> fib n"
  by (induction n rule: fib.induct) simp_all

lemma fib_mono: "m \<le> n \<Longrightarrow> fib m \<le> fib n"
proof (induction n rule: dec_induct)
  case (step n)
  have "fib n \<le> fib (Suc n)" by (cases n) (simp_all add: fib_nonneg)
  with step show ?case by linarith
qed simp

lemma fib_iterate: "((\<lambda>(a, b). (b, a + b)) ^^ n) (0, 1) = (fib n, fib (Suc n))"
  by (induction n) (simp_all add: fib.simps)

declare fib.simps(3) [simp del]

lemma fib_limits: "fib 46 = 1836311903" "fib 47 = 2971215073"
  using fib_iterate [of 46] by (simp_all add: eval_nat_numeral)

lemma arith32_fib: "arith32 (fib n) = (if n \<le> 46 then Some (fib n) else None)"
  using fib_mono [of n 46] fib_mono [of 47 n] fib_nonneg [of n] fib_limits by (auto simp: arith32_overflow)

lemma fibonacci_loop_value:
  assumes "2 \<le> i" "i \<le> count" "i \<le> length buf" "i \<le> 47" and "take i buf = map fib [0..<i]"
  shows "fibonacci_loop i count buf =
    (if count \<le> 47 \<and> count \<le> length buf then Some (map fib [0..<count] @ drop count buf) else None)"
  using assms
proof (induction i count buf rule: fibonacci_loop.induct)
  case (1 i count buf)
  consider "i = count" | "i < count" "i = length buf" | "i < count" "i < length buf" using 1(3,4) by linarith
  then show ?case
  proof cases
    case 1
    then have "fibonacci_loop i count buf = Some buf" by (simp add: fibonacci_loop.simps [of count])
    moreover have "map fib [0..<count] @ drop count buf = buf"
      using append_take_drop_id [of count buf] \<open>take i buf = _\<close> unfolding 1 by metis
    ultimately show ?thesis using 1 \<open>i \<le> 47\<close> \<open>i \<le> length buf\<close> by simp
  next
    case 2
    then show ?thesis by (simp add: fibonacci_loop.simps [of "length buf"])
  next
    case 3
    obtain k where k: "i = Suc (Suc k)" using \<open>2 \<le> i\<close> by (metis add_2_eq_Suc le_Suc_ex)
    have nth: "buf ! j = fib j" if "j < i" for j
      using that \<open>take i buf = _\<close> by (metis add_0 diff_zero length_map length_upt nth_map nth_take nth_upt)
    have sum: "buf ! (i - 1) + buf ! (i - 2) = fib i" using nth [of "Suc k"] nth [of k] by (simp add: k fib.simps)
    show ?thesis
    proof (cases "i = 47")
      case True
      then show ?thesis using 3 sum by (simp add: fibonacci_loop.simps [of 47] arith32_fib)
    next
      case False
      then have a: "arith32 (buf ! (i - 1) + buf ! (i - 2)) = Some (fib i)" using sum \<open>i \<le> 47\<close> by (simp add: arith32_fib)
      have "take (i + 1) (buf[i := fib i]) = map fib [0..<i + 1]"
        using 3(2) \<open>take i buf = _\<close> by (simp add: take_Suc_conv_app_nth)
      moreover have "drop count (buf[i := fib i]) = drop count buf" using 3(1) by simp
      moreover have "fibonacci_loop i count buf = fibonacci_loop (i + 1) count (buf[i := fib i])"
        using 3 by (subst fibonacci_loop.simps) (simp only: a if_True option.case)
      ultimately show ?thesis using 1(1) [OF 3 a] 3 False \<open>i \<le> 47\<close> \<open>2 \<le> i\<close> by simp
    qed
  qed
qed

lemma mathlib_fibonacci_value:
  assumes "0 < count"
  shows "mathlib_fibonacci buf count =
    (if count \<le> 47 \<and> count \<le> int (length buf) then Some (map fib [0..<nat count] @ drop (nat count) buf) else None)"
proof -
  obtain n where n: "count = int n" "0 < n" using assms by (metis of_nat_0_less_iff zero_less_imp_eq_int)
  consider "buf = []" | "n = 1" "buf \<noteq> []" | "2 \<le> n" "length buf = 1" | "2 \<le> n" "2 \<le> length buf"
    using n(2) by (cases buf rule: list.exhaust; force simp: Suc_le_eq)
  then show ?thesis
  proof cases
    case 4
    have "take 2 (buf[0 := 0, 1 := 1]) = map fib [0..<2]"
      using 4(2) by (cases buf rule: remdups_adj.cases) (simp_all add: numeral_2_eq_2)
    then have "fibonacci_loop 2 n (buf[0 := 0, 1 := 1]) =
        (if n \<le> 47 \<and> n \<le> length buf then Some (map fib [0..<n] @ drop n buf) else None)"
      using 4 by (subst fibonacci_loop_value) simp_all
    with 4 n show ?thesis by (simp add: mathlib_fibonacci_def)
  qed (use n in \<open>auto simp: mathlib_fibonacci_def neq_Nil_conv\<close>)
qed

text \<open>
  The integer functions of the library compute what their names say, exactly as long as the result is an
  \<open>int\<close>: the factorial up to that of 12, the first 47 Fibonacci numbers, the greatest common divisor of all
  arguments but the smallest \<open>int\<close>, and the least common multiple, with the sign of the product of the arguments.
\<close>

theorem mathlib_functions_correct:
  assumes "-2147483648 < a" "a < 2147483648" "-2147483648 < b" "b < 2147483648" and "0 < count"
  shows "mathlib_factorial a = (if a < 0 then Some (-1) else if a \<le> 12 then Some (fact (nat a)) else None) \<and>
    mathlib_gcd a b = Some (gcd a b) \<and>
    mathlib_lcm a b = arith32 (sgn (a * b) * lcm a b) \<and>
    mathlib_fibonacci buf count =
      (if count \<le> 47 \<and> count \<le> int (length buf) then Some (map fib [0..<nat count] @ drop (nat count) buf) else None)"
  using assms by (simp add: mathlib_factorial_value mathlib_gcd_value mathlib_lcm_value mathlib_fibonacci_value sgn_mult)

theorem mathlib_functions_correct_witness:
  "mathlib_gcd 48 (-18) = Some 6 \<and> mathlib_lcm 12 18 = Some 36 \<and> mathlib_factorial 12 = Some 479001600 \<and>
   mathlib_fibonacci [7, 7, 7, 7, 7, 7] 5 = Some [0, 1, 1, 2, 3, 7]"
proof -
  have "lcm 12 18 = (36 :: int)" by (simp add: lcm_altdef_int gcd_non_0_int)
  then have l: "mathlib_lcm 12 18 = Some 36" using mathlib_functions_correct [of 12 18 1 "[]"] by (simp add: sgn_mult)
  have g: "mathlib_gcd 48 (-18) = Some 6" using mathlib_functions_correct [of 48 "-18" 1 "[]"] by (simp add: gcd_non_0_int)
  have f: "mathlib_factorial 12 = Some 479001600" using mathlib_functions_correct [of 12 1 1 "[]"] by (simp add: fact_numeral)
  have "mathlib_fibonacci [7, 7, 7, 7, 7, 7] 5 = Some [0, 1, 1, 2, 3, 7]"
    using mathlib_functions_correct [of 1 1 5 "[7, 7, 7, 7, 7, 7]"] by (simp add: eval_nat_numeral upt_rec fib.simps)
  with l g f show ?thesis by blast
qed

end
