(* ===== verification/MemFS.thy ===== *)
theory MemFS
  imports Refinement FuseTypes
begin

text \<open>
  The in-memory FUSE filesystem, SystemProgramming/Handson/lab17_fuse/memfs.c.

  The state is the static array \<open>entries\<close> of 64 slots. A handler takes the environment (the clock,
  the caller's ids, whether the next \<open>realloc\<close> succeeds and what fresh memory holds), the slots and
  the arguments FUSE passes, and returns the C return value with the new slots; \<open>None\<close> is an access
  outside a data block. The block of a \<open>NULL\<close> data pointer is the empty list.
\<close>

section \<open>State\<close>

definition MAX_FILES :: nat where "MAX_FILES = 64"
definition MAX_NAME_LEN :: nat where "MAX_NAME_LEN = 255"
definition MAX_DATA_SIZE :: int where "MAX_DATA_SIZE = 1024 * 1024"

record memfs_entry =
  e_name :: string
  e_is_dir :: bool
  e_mode :: u32
  e_uid :: u32
  e_gid :: u32
  e_atime :: int
  e_mtime :: int
  e_ctime :: int
  e_data :: "u8 list"
  e_size :: int
  e_used :: bool

type_synonym entries = "memfs_entry list"

record memfs_env =
  now :: int
  env_uid :: u32
  env_gid :: u32
  realloc_ok :: bool
  fresh :: "nat \<Rightarrow> u8"

definition zero_entry :: memfs_entry where
  "zero_entry = \<lparr>e_name = [], e_is_dir = False, e_mode = 0, e_uid = 0, e_gid = 0, e_atime = 0,
     e_mtime = 0, e_ctime = 0, e_data = [], e_size = 0, e_used = False\<rparr>"

text \<open>\<open>main\<close> clears the table before handing over to FUSE.\<close>

definition memfs_init :: entries where
  "memfs_init = replicate MAX_FILES zero_entry"

section \<open>The slot table\<close>

fun find_entry_from :: "nat \<Rightarrow> entries \<Rightarrow> string \<Rightarrow> nat option" where
  "find_entry_from i [] path = None"
| "find_entry_from i (e # es) path =
     (if e_used e \<and> e_name e = path then Some i else find_entry_from (Suc i) es path)"

definition find_entry :: "entries \<Rightarrow> string \<Rightarrow> nat option" where
  "find_entry es path = find_entry_from 0 es path"

fun find_free_from :: "nat \<Rightarrow> entries \<Rightarrow> nat option" where
  "find_free_from i [] = None"
| "find_free_from i (e # es) = (if \<not> e_used e then Some i else find_free_from (Suc i) es)"

definition alloc_entry :: "memfs_env \<Rightarrow> entries \<Rightarrow> (nat \<times> entries) option" where
  "alloc_entry env es =
     (case find_free_from 0 es of
        None \<Rightarrow> None
      | Some i \<Rightarrow> Some (i, es[i := zero_entry\<lparr>e_used := True, e_atime := now env,
                                 e_mtime := now env, e_ctime := now env\<rparr>]))"

section \<open>FUSE operations\<close>

text \<open>The octal modes of the code: 0755 is \<open>0x1ED\<close>, 0777 is \<open>0x1FF\<close>.\<close>

definition memfs_getattr :: "memfs_env \<Rightarrow> entries \<Rightarrow> string \<Rightarrow> int \<times> stat_buf" where
  "memfs_getattr env es path =
     (if path = ''/'' then
        (0, zero_stat\<lparr>st_mode := or S_IFDIR 0x1ED, st_nlink := 2,
              st_uid := env_uid env, st_gid := env_gid env\<rparr>)
      else case find_entry es path of
        None \<Rightarrow> (- ENOENT, zero_stat)
      | Some i \<Rightarrow>
          (let e = es ! i;
               st = (if e_is_dir e
                     then zero_stat\<lparr>st_mode := or S_IFDIR (e_mode e), st_nlink := 2\<rparr>
                     else zero_stat\<lparr>st_mode := or S_IFREG (e_mode e), st_nlink := 1,
                            st_size := e_size e\<rparr>)
           in (0, st\<lparr>st_uid := e_uid e, st_gid := e_gid e, st_atime := e_atime e,
                     st_mtime := e_mtime e, st_ctime := e_ctime e\<rparr>)))"

text \<open>The name under which a slot is listed in directory \<open>path\<close>, if it is a direct child.\<close>

definition child_name :: "string \<Rightarrow> string \<Rightarrow> string option" where
  "child_name path name =
     (if path = ''/'' then
        (if name \<noteq> [] \<and> name ! 0 = CHR ''/'' \<and> CHR ''/'' \<notin> set (drop 1 name)
         then Some (drop 1 name) else None)
      else
        (if take (length path) name = path \<and> length path < length name
            \<and> name ! length path = CHR ''/'' \<and> CHR ''/'' \<notin> set (drop (length path + 1) name)
         then Some (drop (length path + 1) name) else None))"

definition memfs_readdir :: "entries \<Rightarrow> string \<Rightarrow> int \<times> string list" where
  "memfs_readdir es path =
     (0, [''.'', ''..''] @
         List.map_filter (\<lambda>e. if e_used e then child_name path (e_name e) else None) es)"

definition memfs_create :: "memfs_env \<Rightarrow> entries \<Rightarrow> string \<Rightarrow> u32 \<Rightarrow> int \<times> entries" where
  "memfs_create env es path mode =
     (if find_entry es path \<noteq> None then (- EEXIST, es)
      else case alloc_entry env es of
        None \<Rightarrow> (- ENOSPC, es)
      | Some (i, es') \<Rightarrow>
          (0, es'[i := (es' ! i)\<lparr>e_name := take MAX_NAME_LEN path, e_is_dir := False,
                 e_mode := and mode 0x1FF, e_uid := env_uid env, e_gid := env_gid env,
                 e_data := [], e_size := 0\<rparr>]))"

definition memfs_open :: "entries \<Rightarrow> string \<Rightarrow> int" where
  "memfs_open es path = (if find_entry es path = None then - ENOENT else 0)"

definition memfs_read ::
  "memfs_env \<Rightarrow> entries \<Rightarrow> string \<Rightarrow> int \<Rightarrow> int \<Rightarrow> (int \<times> u8 list \<times> entries) option" where
  "memfs_read env es path sz offset =
     (case find_entry es path of
        None \<Rightarrow> Some (- ENOENT, [], es)
      | Some i \<Rightarrow>
          (let e = es ! i in
           if offset \<ge> cast_s64 (e_size e) then Some (0, [], es)
           else
             (let sz' = (if cast_u64 (offset + sz) > e_size e
                           then cast_u64 (e_size e - offset) else sz)
              in case get_bytes offset sz' (e_data e) of
                   None \<Rightarrow> None
                 | Some bytes \<Rightarrow>
                     Some (cast_s32 sz', bytes, es[i := e\<lparr>e_atime := now env\<rparr>]))))"

text \<open>\<open>realloc\<close>: the old bytes up to the new size, then bytes of indeterminate value.\<close>

definition realloc_block :: "memfs_env \<Rightarrow> u8 list \<Rightarrow> int \<Rightarrow> u8 list option" where
  "realloc_block env d n =
     (if realloc_ok env
      then Some (take (nat n) d @ map (fresh env) [length d ..< nat n]) else None)"

definition memfs_write ::
  "memfs_env \<Rightarrow> entries \<Rightarrow> string \<Rightarrow> u8 list \<Rightarrow> int \<Rightarrow> (int \<times> entries) option" where
  "memfs_write env es path buf offset =
     (let sz = int (length buf) in
      case find_entry es path of
        None \<Rightarrow> Some (- ENOENT, es)
      | Some i \<Rightarrow>
          (let e = es ! i; new_size = cast_u64 (offset + sz) in
           if new_size > MAX_DATA_SIZE then Some (- ENOSPC, es)
           else if new_size > e_size e then
             (case realloc_block env (e_data e) new_size of
                None \<Rightarrow> Some (- ENOMEM, es[i := e\<lparr>e_data := []\<rparr>])
              | Some d \<Rightarrow>
                  (case (if offset > cast_s64 (e_size e)
                         then put_bytes (e_size e) (replicate (nat (offset - e_size e)) 0) d
                         else Some d) of
                     None \<Rightarrow> None
                   | Some d1 \<Rightarrow>
                       (case put_bytes offset buf d1 of
                          None \<Rightarrow> None
                        | Some d2 \<Rightarrow>
                            Some (cast_s32 sz,
                              es[i := e\<lparr>e_data := d2, e_size := new_size,
                                        e_mtime := now env\<rparr>]))))
           else
             (case put_bytes offset buf (e_data e) of
                None \<Rightarrow> None
              | Some d2 \<Rightarrow>
                  Some (cast_s32 sz, es[i := e\<lparr>e_data := d2, e_mtime := now env\<rparr>]))))"

definition memfs_mkdir :: "memfs_env \<Rightarrow> entries \<Rightarrow> string \<Rightarrow> u32 \<Rightarrow> int \<times> entries" where
  "memfs_mkdir env es path mode =
     (if find_entry es path \<noteq> None then (- EEXIST, es)
      else case alloc_entry env es of
        None \<Rightarrow> (- ENOSPC, es)
      | Some (i, es') \<Rightarrow>
          (0, es'[i := (es' ! i)\<lparr>e_name := take MAX_NAME_LEN path, e_is_dir := True,
                 e_mode := and mode 0x1FF, e_uid := env_uid env, e_gid := env_gid env\<rparr>]))"

definition memfs_unlink :: "entries \<Rightarrow> string \<Rightarrow> int \<times> entries" where
  "memfs_unlink es path =
     (case find_entry es path of
        None \<Rightarrow> (- ENOENT, es)
      | Some i \<Rightarrow>
          if e_is_dir (es ! i) then (- EISDIR, es)
          else (0, es[i := (es ! i)\<lparr>e_used := False\<rparr>]))"

text \<open>Some other used slot lies below \<open>path\<close>.\<close>

definition has_child :: "entries \<Rightarrow> nat \<Rightarrow> string \<Rightarrow> bool" where
  "has_child es k path =
     list_ex (\<lambda>j. j \<noteq> k \<and> e_used (es ! j)
        \<and> take (length path) (e_name (es ! j)) = path
        \<and> length path < length (e_name (es ! j))
        \<and> e_name (es ! j) ! length path = CHR ''/'') [0 ..< length es]"

definition memfs_rmdir :: "entries \<Rightarrow> string \<Rightarrow> int \<times> entries" where
  "memfs_rmdir es path =
     (case find_entry es path of
        None \<Rightarrow> (- ENOENT, es)
      | Some i \<Rightarrow>
          if \<not> e_is_dir (es ! i) then (- ENOTDIR, es)
          else if has_child es i path then (- ENOTEMPTY, es)
          else (0, es[i := (es ! i)\<lparr>e_used := False\<rparr>]))"

definition memfs_truncate ::
  "memfs_env \<Rightarrow> entries \<Rightarrow> string \<Rightarrow> int \<Rightarrow> (int \<times> entries) option" where
  "memfs_truncate env es path sz =
     (case find_entry es path of
        None \<Rightarrow> Some (- ENOENT, es)
      | Some i \<Rightarrow>
          (let e = es ! i in
           if cast_u64 sz > MAX_DATA_SIZE then Some (- ENOSPC, es)
           else
             (let d = (case realloc_block env (e_data e) sz of None \<Rightarrow> [] | Some d \<Rightarrow> d)
              in case (if sz > cast_s64 (e_size e)
                       then put_bytes (e_size e) (replicate (nat (sz - e_size e)) 0) d
                       else Some d) of
                   None \<Rightarrow> None
                 | Some d1 \<Rightarrow>
                     Some (0, es[i := e\<lparr>e_data := d1, e_size := sz, e_mtime := now env\<rparr>]))))"

section \<open>The slot table: look-up and update\<close>

definition slot_holds :: "entries \<Rightarrow> nat \<Rightarrow> string \<Rightarrow> bool" where
  "slot_holds es i path \<longleftrightarrow> i < length es \<and> e_used (es ! i) \<and> e_name (es ! i) = path"

definition uniq_names :: "entries \<Rightarrow> bool" where
  "uniq_names es \<longleftrightarrow>
     (\<forall>i < length es. \<forall>j < length es. e_used (es ! i) \<longrightarrow> e_used (es ! j)
        \<longrightarrow> e_name (es ! i) = e_name (es ! j) \<longrightarrow> i = j)"

lemma uniq_namesD: "uniq_names es \<Longrightarrow> slot_holds es i p \<Longrightarrow> slot_holds es j p \<Longrightarrow> i = j"
  by (auto simp: uniq_names_def slot_holds_def)

lemma uniq_namesI: "(\<And>i j p. slot_holds es i p \<Longrightarrow> slot_holds es j p \<Longrightarrow> i = j) \<Longrightarrow> uniq_names es"
  by (auto simp: uniq_names_def slot_holds_def)

lemma slot_holds_Cons:
  "slot_holds (e # es) 0 p \<longleftrightarrow> e_used e \<and> e_name e = p"
  "slot_holds (e # es) (Suc i) p \<longleftrightarrow> slot_holds es i p"
  by (simp_all add: slot_holds_def)

lemma slot_holds_update:
  "slot_holds (es[i := e]) j p \<longleftrightarrow>
     (if j = i then i < length es \<and> e_used e \<and> e_name e = p else slot_holds es j p)"
  by (auto simp: slot_holds_def)

lemma find_entry_from_None:
  "find_entry_from k es p = None \<longleftrightarrow> (\<forall>i. \<not> slot_holds es i p)"
proof (induction es arbitrary: k)
  case Nil
  then show ?case by (simp add: slot_holds_def)
next
  case (Cons e es)
  show ?case
    using Cons.IH [of "Suc k"] all_nat_Suc [of "\<lambda>i. \<not> slot_holds (e # es) i p"]
    by (simp add: slot_holds_Cons)
qed

lemma find_entry_from_Some:
  "find_entry_from k es p = Some j \<Longrightarrow> k \<le> j \<and> slot_holds es (j - k) p"
proof (induction es arbitrary: k)
  case Nil
  then show ?case by simp
next
  case (Cons e es)
  show ?case
  proof (cases "e_used e \<and> e_name e = p")
    case True
    with Cons.prems show ?thesis by (simp add: slot_holds_Cons)
  next
    case False
    with Cons.prems have "Suc k \<le> j \<and> slot_holds es (j - Suc k) p"
      by (intro Cons.IH) simp
    then show ?thesis
      using slot_holds_Cons(2) [of e es "j - Suc k" p] by (simp add: Suc_diff_Suc)
  qed
qed

lemma find_entry_None: "find_entry es p = None \<longleftrightarrow> (\<forall>i. \<not> slot_holds es i p)"
  by (simp add: find_entry_def find_entry_from_None)

lemma find_entry_SomeD: "find_entry es p = Some i \<Longrightarrow> slot_holds es i p"
  using find_entry_from_Some [of 0 es p i] by (simp add: find_entry_def)

lemma find_entry_iff: "uniq_names es \<Longrightarrow> find_entry es p = Some i \<longleftrightarrow> slot_holds es i p"
  by (metis find_entry_None find_entry_SomeD not_None_eq uniq_namesD)

lemma find_free_from_Some:
  "find_free_from k es = Some j \<Longrightarrow> k \<le> j \<and> j - k < length es \<and> \<not> e_used (es ! (j - k))"
proof (induction es arbitrary: k)
  case (Cons e es)
  show ?case
  proof (cases "e_used e")
    case True
    with Cons.prems have "Suc k \<le> j \<and> j - Suc k < length es \<and> \<not> e_used (es ! (j - Suc k))"
      by (intro Cons.IH) simp
    then show ?thesis by (auto simp: nth_Cons')
  next
    case False
    with Cons.prems show ?thesis by simp
  qed
qed simp

lemma find_free_from_None: "find_free_from k es = None \<longleftrightarrow> (\<forall>e \<in> set es. e_used e)"
  by (induction es arbitrary: k) auto

lemma alloc_entry_Some:
  assumes "alloc_entry env es = Some (i, es')"
  shows "i < length es" and "\<not> e_used (es ! i)"
    and "es' = es[i := zero_entry\<lparr>e_used := True, e_atime := now env, e_mtime := now env,
                      e_ctime := now env\<rparr>]"
  using assms find_free_from_Some [of 0 es i]
  by (auto simp: alloc_entry_def split: option.splits)

lemma alloc_entry_None: "alloc_entry env es = None \<longleftrightarrow> (\<forall>e \<in> set es. e_used e)"
  by (simp add: alloc_entry_def find_free_from_None [of 0, symmetric] split: option.splits)

section \<open>Abstraction: a map from paths to nodes\<close>

type_synonym node = "bool \<times> u8 list"
type_synonym fs = "string \<Rightarrow> node option"

definition node_of :: "memfs_entry \<Rightarrow> node" where
  "node_of e = (e_is_dir e, e_data e)"

definition fs_abs :: "entries \<Rightarrow> fs" where
  "fs_abs es p = map_option (\<lambda>i. node_of (es ! i)) (find_entry es p)"

lemma fs_abs_None: "fs_abs es p = None \<longleftrightarrow> find_entry es p = None"
  by (simp add: fs_abs_def)

text \<open>The three ways a handler changes the table: overwrite a slot, free it, fill a free one.\<close>

lemma slot_holds_len: "slot_holds es i p \<Longrightarrow> i < length es"
  by (simp add: slot_holds_def)

lemma slot_holds_name: "slot_holds es i p \<Longrightarrow> slot_holds es i q \<longleftrightarrow> q = p"
  by (auto simp: slot_holds_def)

lemma slot_free: "\<not> e_used (es ! i) \<Longrightarrow> \<not> slot_holds es i q"
  by (simp add: slot_holds_def)

lemma uniq_update:
  assumes "uniq_names es" and "slot_holds es i p" and "e_name e = p"
  shows "uniq_names (es[i := e])"
  using assms by (intro uniq_namesI) (auto simp: slot_holds_update dest: uniq_namesD split: if_splits)

lemma uniq_insert:
  assumes "uniq_names es" and "find_entry es p = None" and "e_name e = p"
  shows "uniq_names (es[i := e])"
  using assms by (intro uniq_namesI)
    (auto simp: slot_holds_update find_entry_None dest: uniq_namesD split: if_splits)

lemma find_entry_update:
  assumes "uniq_names es" and "slot_holds es i p" and "e_used e" and "e_name e = p"
  shows "find_entry (es[i := e]) q = find_entry es q"
proof (rule option_eqI)
  fix j
  have "slot_holds (es[i := e]) j q \<longleftrightarrow> slot_holds es j q"
    using assms(3,4) slot_holds_len [OF assms(2)] slot_holds_name [OF assms(2), of q]
    by (auto simp: slot_holds_update)
  then show "find_entry (es[i := e]) q = Some j \<longleftrightarrow> find_entry es q = Some j"
    by (simp add: find_entry_iff assms(1) uniq_update [OF assms(1,2,4)])
qed

lemma find_entry_delete:
  assumes "uniq_names es" and "slot_holds es i p" and "\<not> e_used e" and "e_name e = p"
  shows "find_entry (es[i := e]) q = (if q = p then None else find_entry es q)"
proof (rule option_eqI)
  fix j
  have "slot_holds (es[i := e]) j q \<longleftrightarrow> slot_holds es j q \<and> q \<noteq> p"
    using assms(3) uniq_namesD [OF assms(1,2)] slot_holds_name [OF assms(2), of q]
    by (auto simp: slot_holds_update)
  then show "find_entry (es[i := e]) q = Some j \<longleftrightarrow>
      (if q = p then None else find_entry es q) = Some j"
    by (simp add: find_entry_iff assms(1) uniq_update [OF assms(1,2,4)])
qed

lemma find_entry_insert:
  assumes "uniq_names es" and "i < length es" and "\<not> e_used (es ! i)"
    and "find_entry es p = None" and "e_used e" and "e_name e = p"
  shows "find_entry (es[i := e]) q = (if q = p then Some i else find_entry es q)"
proof (rule option_eqI)
  fix j
  have "slot_holds (es[i := e]) j q \<longleftrightarrow>
      (if q = p then j = i else slot_holds es j q)"
    using assms(2,4,5,6) slot_free [OF assms(3)]
    by (auto simp: slot_holds_update find_entry_None)
  then show "find_entry (es[i := e]) q = Some j \<longleftrightarrow>
      (if q = p then Some i else find_entry es q) = Some j"
    by (auto simp: find_entry_iff assms(1) uniq_insert [OF assms(1,4,6)])
qed

lemma find_entry_other:
  assumes "slot_holds es i p" and "q \<noteq> p" and "find_entry es q = Some j"
  shows "i \<noteq> j"
  using assms find_entry_SomeD [OF assms(3)] by (auto simp: slot_holds_def)

lemma fs_abs_update:
  assumes "uniq_names es" and "slot_holds es i p" and "e_used e" and "e_name e = p"
  shows "fs_abs (es[i := e]) = (fs_abs es)(p \<mapsto> node_of e)"
proof
  fix q
  have "i < length es" "find_entry es p = Some i"
    using assms(1,2) by (simp_all add: slot_holds_def find_entry_iff)
  then show "fs_abs (es[i := e]) q = ((fs_abs es)(p \<mapsto> node_of e)) q"
    using find_entry_other [OF assms(2), of q]
    by (cases "find_entry es q") (auto simp: fs_abs_def find_entry_update [OF assms])
qed

lemma fs_abs_delete:
  assumes "uniq_names es" and "slot_holds es i p" and "\<not> e_used e" and "e_name e = p"
  shows "fs_abs (es[i := e]) = (fs_abs es)(p := None)"
proof
  fix q
  show "fs_abs (es[i := e]) q = ((fs_abs es)(p := None)) q"
    using find_entry_other [OF assms(2), of q]
    by (cases "find_entry es q") (auto simp: fs_abs_def find_entry_delete [OF assms])
qed

lemma fs_abs_insert:
  assumes "uniq_names es" and "i < length es" and "\<not> e_used (es ! i)"
    and "find_entry es p = None" and "e_used e" and "e_name e = p"
  shows "fs_abs (es[i := e]) = (fs_abs es)(p \<mapsto> node_of e)"
proof
  fix q
  have "find_entry es q = Some j \<Longrightarrow> i \<noteq> j" for j
    using assms(3) find_entry_SomeD [of es q j] by (auto simp: slot_holds_def)
  then show "fs_abs (es[i := e]) q = ((fs_abs es)(p \<mapsto> node_of e)) q"
    using assms(2) by (cases "find_entry es q") (auto simp: fs_abs_def find_entry_insert [OF assms])
qed

section \<open>Well-formed tables\<close>

text \<open>
  Every used slot's block has exactly the recorded size, at most 1 MB, and no two used slots carry
  the same name.
\<close>

definition entry_ok :: "memfs_entry \<Rightarrow> bool" where
  "entry_ok e \<longleftrightarrow> (e_used e \<longrightarrow> int (length (e_data e)) = e_size e \<and> e_size e \<le> MAX_DATA_SIZE)"

definition memfs_wf :: "entries \<Rightarrow> bool" where
  "memfs_wf es \<longleftrightarrow> length es = MAX_FILES \<and> (\<forall>e \<in> set es. entry_ok e) \<and> uniq_names es"

lemma memfs_wf_init: "memfs_wf memfs_init"
  by (auto simp: memfs_wf_def memfs_init_def entry_ok_def zero_entry_def uniq_names_def)

lemma memfs_wf_uniq: "memfs_wf es \<Longrightarrow> uniq_names es"
  by (simp add: memfs_wf_def)

lemma memfs_wf_slot:
  assumes "memfs_wf es" and "find_entry es p = Some i"
  shows "slot_holds es i p" and "int (length (e_data (es ! i))) = e_size (es ! i)"
    and "e_size (es ! i) \<le> MAX_DATA_SIZE" and "e_used (es ! i)" and "e_name (es ! i) = p"
  using assms find_entry_SomeD [OF assms(2)]
  by (auto simp: memfs_wf_def slot_holds_def entry_ok_def)

lemma set_update_ok:
  "Ball (set es) entry_ok \<Longrightarrow> entry_ok e \<Longrightarrow> Ball (set (es[i := e])) entry_ok"
  using set_update_subset_insert [of es i e] by blast

lemma memfs_wf_update:
  assumes "memfs_wf es" and "slot_holds es i p" and "e_name e = p" and "entry_ok e"
  shows "memfs_wf (es[i := e])"
  using assms set_update_ok [of es e i] uniq_update [of es i p e] by (simp add: memfs_wf_def)

lemma memfs_wf_insert:
  assumes "memfs_wf es" and "find_entry es p = None" and "e_name e = p" and "entry_ok e"
  shows "memfs_wf (es[i := e])"
  using assms set_update_ok [of es e i] uniq_insert [of es p e i] by (simp add: memfs_wf_def)

section \<open>Reading and writing one block\<close>

text \<open>What a write and a truncation mean for the bytes of a file: holes read as zero.\<close>

definition awrite :: "u8 list \<Rightarrow> nat \<Rightarrow> u8 list \<Rightarrow> u8 list" where
  "awrite d off buf =
     take off (d @ replicate (off - length d) 0) @ buf @ drop (off + length buf) d"

definition atrunc :: "u8 list \<Rightarrow> nat \<Rightarrow> u8 list" where
  "atrunc d n = take n d @ replicate (n - length d) 0"

lemma length_awrite: "length (awrite d off buf) = max (length d) (off + length buf)"
  by (simp add: awrite_def)

lemma length_atrunc [simp]: "length (atrunc d n) = n"
  by (simp add: atrunc_def)

lemma awrite_inside:
  "off + length buf \<le> length d \<Longrightarrow> put_bytes (int off) buf d = Some (awrite d off buf)"
  by (simp add: put_bytes_def awrite_def)

lemma realloc_grow:
  "realloc_ok env \<Longrightarrow> length d \<le> n \<Longrightarrow>
     realloc_block env d (int n) = Some (d @ map (fresh env) [length d ..< n])"
  by (simp add: realloc_block_def)

lemma put_bytes_append:
  "length ys \<le> length zs \<Longrightarrow>
     put_bytes (int (length d)) ys (d @ zs) = Some (d @ ys @ drop (length ys) zs)"
  by (simp add: put_bytes_def)

lemma awrite_hole:
  assumes "length d < off"
  shows "put_bytes (int (length d)) (replicate (nat (int off - int (length d))) 0)
           (d @ map f [length d ..< off + length buf])
         = Some (d @ replicate (off - length d) 0 @ map f [off ..< off + length buf])"
proof -
  have "nat (int off - int (length d)) = off - length d"
    using assms by linarith
  moreover have "drop (off - length d) (map f [length d ..< off + length buf])
      = map f [off ..< off + length buf]"
    using assms by (simp add: drop_map)
  ultimately show ?thesis using assms by (simp add: put_bytes_append)
qed

lemma awrite_tail:
  assumes "length d = off" and "length zs = length buf"
  shows "put_bytes (int off) buf (d @ zs) = Some (d @ buf)"
  using assms put_bytes_append [of buf zs d] by simp

lemma awrite_grow_over:
  assumes "off \<le> length d" and "length d < off + length buf"
  shows "put_bytes (int off) buf (d @ map f [length d ..< off + length buf]) = Some (awrite d off buf)"
  using assms by (simp add: put_bytes_def awrite_def)

text \<open>On a well-formed table \<open>memfs_write\<close> and \<open>memfs_truncate\<close> are these two functions.\<close>

lemma memfs_write_found:
  assumes wf: "memfs_wf es" and ok: "realloc_ok env" and i: "find_entry es p = Some i"
    and off: "0 \<le> off" "off + int (length buf) \<le> MAX_DATA_SIZE"
  shows "memfs_write env es p buf off =
    (let d = awrite (e_data (es ! i)) (nat off) buf
     in Some (int (length buf),
          es[i := (es ! i)\<lparr>e_data := d, e_size := int (length d), e_mtime := now env\<rparr>]))"
proof -
  obtain o' where o': "off = int o'" using off(1) nonneg_int_cases by blast
  let ?d = "e_data (es ! i)"
  note w = memfs_wf_slot [OF wf i]
  have size: "e_size (es ! i) = int (length ?d)" using w(2) by simp
  have small: "length ?d \<le> 1048576" "o' + length buf \<le> 1048576"
    using w(3) off(2) by (simp_all add: size o' MAX_DATA_SIZE_def)
  have cast: "cast_u64 (off + int (length buf)) = int (o' + length buf)"
    "cast_s64 (int (length ?d)) = int (length ?d)" "cast_s32 (int (length buf)) = int (length buf)"
    using small by (simp_all add: o')
  have rg: "length ?d \<le> o' + length buf \<Longrightarrow>
      realloc_block env ?d (int o' + int (length buf)) =
        Some (?d @ map (fresh env) [length ?d ..< o' + length buf])"
    using realloc_grow [OF ok, of ?d "o' + length buf"] by simp
  consider "o' + length buf \<le> length ?d" | "length ?d < o' + length buf" "o' \<le> length ?d"
    | "length ?d < o'" by linarith
  then show ?thesis
  proof cases
    case 1
    have upd: "(es ! i)\<lparr>e_data := x, e_mtime := now env\<rparr>
        = (es ! i)\<lparr>e_data := x, e_size := int (length ?d), e_mtime := now env\<rparr>" for x
      using size by (cases "es ! i") simp
    from 1 small show ?thesis
      by (simp add: memfs_write_def i Let_def cast size MAX_DATA_SIZE_def awrite_inside o'
            length_awrite upd)
  next
    case 2
    with small show ?thesis
      using awrite_grow_over [of o' ?d buf "fresh env"] rg
      by (simp add: memfs_write_def i Let_def cast size MAX_DATA_SIZE_def o' length_awrite)
  next
    case 3
    have "put_bytes (int o') buf (?d @ replicate (o' - length ?d) 0 @
        map (fresh env) [o' ..< o' + length buf]) = Some (awrite ?d o' buf)"
      using 3 awrite_tail [of "?d @ replicate (o' - length ?d) 0" o'
          "map (fresh env) [o' ..< o' + length buf]" buf]
      by (simp add: awrite_def)
    with 3 small show ?thesis
      using awrite_hole [OF 3, of "fresh env" buf] rg
      by (simp add: memfs_write_def i Let_def cast size MAX_DATA_SIZE_def o' length_awrite)
  qed
qed

lemma memfs_truncate_found:
  assumes wf: "memfs_wf es" and ok: "realloc_ok env" and i: "find_entry es p = Some i"
    and sz: "0 \<le> sz" "sz \<le> MAX_DATA_SIZE"
  shows "memfs_truncate env es p sz =
    Some (0, es[i := (es ! i)\<lparr>e_data := atrunc (e_data (es ! i)) (nat sz), e_size := sz,
                             e_mtime := now env\<rparr>])"
proof -
  obtain n where n: "sz = int n" using sz(1) nonneg_int_cases by blast
  let ?d = "e_data (es ! i)"
  note w = memfs_wf_slot [OF wf i]
  have size: "e_size (es ! i) = int (length ?d)" using w(2) by simp
  have small: "length ?d \<le> 1048576" "n \<le> 1048576"
    using w(3) sz(2) by (simp_all add: size n MAX_DATA_SIZE_def)
  have cast: "cast_u64 (int n) = int n" "cast_s64 (int (length ?d)) = int (length ?d)"
    using small by simp_all
  show ?thesis
  proof (cases "length ?d < n")
    case True
    then have "put_bytes (int (length ?d)) (replicate (n - length ?d) 0)
        (?d @ map (fresh env) [length ?d ..< n]) = Some (atrunc ?d n)"
      by (simp add: put_bytes_append atrunc_def)
    moreover have "nat (int n - int (length ?d)) = n - length ?d" using True by linarith
    ultimately show ?thesis
      using True small
      by (simp add: memfs_truncate_def i Let_def n cast size MAX_DATA_SIZE_def realloc_grow [OF ok])
  next
    case False
    with small show ?thesis
      by (simp add: memfs_truncate_def i Let_def n cast size MAX_DATA_SIZE_def realloc_block_def
            ok atrunc_def)
  qed
qed

section \<open>Requests, and what the table should do with them\<close>

datatype memfs_op =
    OpCreate string u32
  | OpMkdir string u32
  | OpWrite string "u8 list" int
  | OpTruncate string int
  | OpRead string int int
  | OpUnlink string
  | OpRmdir string

fun memfs_step :: "memfs_env \<Rightarrow> entries \<Rightarrow> memfs_op \<Rightarrow> (int \<times> entries) option" where
  "memfs_step env es (OpCreate p mode) = Some (memfs_create env es p mode)"
| "memfs_step env es (OpMkdir p mode) = Some (memfs_mkdir env es p mode)"
| "memfs_step env es (OpWrite p buf off) = memfs_write env es p buf off"
| "memfs_step env es (OpTruncate p sz) = memfs_truncate env es p sz"
| "memfs_step env es (OpRead p sz off) =
     map_option (\<lambda>(r, _, es'). (r, es')) (memfs_read env es p sz off)"
| "memfs_step env es (OpUnlink p) = Some (memfs_unlink es p)"
| "memfs_step env es (OpRmdir p) = Some (memfs_rmdir es p)"

text \<open>
  The requests FUSE can make: offsets and sizes of type \<open>off_t\<close> that do not overflow, and names
  that fit the name field.
\<close>

definition INT64_LIMIT :: int where "INT64_LIMIT = 9223372036854775808"

fun op_path :: "memfs_op \<Rightarrow> string" where
  "op_path (OpCreate p _) = p"
| "op_path (OpMkdir p _) = p"
| "op_path (OpWrite p _ _) = p"
| "op_path (OpTruncate p _) = p"
| "op_path (OpRead p _ _) = p"
| "op_path (OpUnlink p) = p"
| "op_path (OpRmdir p) = p"

fun op_ok :: "memfs_op \<Rightarrow> bool" where
  "op_ok (OpWrite p buf off) \<longleftrightarrow> length p \<le> MAX_NAME_LEN \<and> 0 \<le> off \<and>
     off + int (length buf) < INT64_LIMIT"
| "op_ok (OpRead p sz off) \<longleftrightarrow> length p \<le> MAX_NAME_LEN \<and> 0 \<le> off \<and> 0 \<le> sz \<and>
     off + sz < INT64_LIMIT \<and> sz < 2147483648"
| "op_ok (OpTruncate p sz) \<longleftrightarrow> length p \<le> MAX_NAME_LEN \<and> - INT64_LIMIT \<le> sz \<and> sz < INT64_LIMIT"
| "op_ok x \<longleftrightarrow> length (op_path x) \<le> MAX_NAME_LEN"

text \<open>The specification, over the map from paths to nodes.\<close>

definition lies_below :: "string \<Rightarrow> string \<Rightarrow> bool" where
  "lies_below p q \<longleftrightarrow> take (length p) q = p \<and> length p < length q \<and> q ! length p = CHR ''/''"

fun fs_spec :: "fs \<Rightarrow> memfs_op \<Rightarrow> int \<times> fs" where
  "fs_spec m (OpCreate p _) =
     (if m p \<noteq> None then (- EEXIST, m)
      else if MAX_FILES \<le> card (dom m) then (- ENOSPC, m) else (0, m(p \<mapsto> (False, []))))"
| "fs_spec m (OpMkdir p _) =
     (if m p \<noteq> None then (- EEXIST, m)
      else if MAX_FILES \<le> card (dom m) then (- ENOSPC, m) else (0, m(p \<mapsto> (True, []))))"
| "fs_spec m (OpWrite p buf off) =
     (case m p of
        None \<Rightarrow> (- ENOENT, m)
      | Some (d, bytes) \<Rightarrow>
          if MAX_DATA_SIZE < off + int (length buf) then (- ENOSPC, m)
          else (int (length buf), m(p \<mapsto> (d, awrite bytes (nat off) buf))))"
| "fs_spec m (OpTruncate p sz) =
     (case m p of
        None \<Rightarrow> (- ENOENT, m)
      | Some (d, bytes) \<Rightarrow>
          if sz < 0 \<or> MAX_DATA_SIZE < sz then (- ENOSPC, m)
          else (0, m(p \<mapsto> (d, atrunc bytes (nat sz)))))"
| "fs_spec m (OpRead p sz off) =
     (case m p of
        None \<Rightarrow> (- ENOENT, m)
      | Some (d, bytes) \<Rightarrow> (int (min (nat sz) (length bytes - nat off)), m))"
| "fs_spec m (OpUnlink p) =
     (case m p of
        None \<Rightarrow> (- ENOENT, m)
      | Some (d, bytes) \<Rightarrow> if d then (- EISDIR, m) else (0, m(p := None)))"
| "fs_spec m (OpRmdir p) =
     (case m p of
        None \<Rightarrow> (- ENOENT, m)
      | Some (d, bytes) \<Rightarrow>
          if \<not> d then (- ENOTDIR, m)
          else if \<exists>q. m q \<noteq> None \<and> lies_below p q then (- ENOTEMPTY, m)
          else (0, m(p := None)))"

section \<open>Every handler implements its specification\<close>

lemma fs_abs_found: "find_entry es p = Some i \<Longrightarrow> fs_abs es p = Some (node_of (es ! i))"
  by (simp add: fs_abs_def)

lemma fs_abs_not_found: "find_entry es p = None \<Longrightarrow> fs_abs es p = None"
  by (simp add: fs_abs_def)

text \<open>The table is full exactly when the map holds 64 paths.\<close>

lemma card_dom_abs:
  assumes "memfs_wf es"
  shows "MAX_FILES \<le> card (dom (fs_abs es)) \<longleftrightarrow> (\<forall>e \<in> set es. e_used e)"
proof -
  let ?U = "{i. i < length es \<and> e_used (es ! i)}"
  have dom: "dom (fs_abs es) = (\<lambda>i. e_name (es ! i)) ` ?U"
  proof (rule set_eqI)
    fix q
    have "q \<in> dom (fs_abs es) \<longleftrightarrow> (\<exists>i. slot_holds es i q)"
      using find_entry_None [of es q] by (auto simp: fs_abs_def dom_def)
    then show "q \<in> dom (fs_abs es) \<longleftrightarrow> q \<in> (\<lambda>i. e_name (es ! i)) ` ?U"
      by (auto simp: slot_holds_def)
  qed
  have inj: "inj_on (\<lambda>i. e_name (es ! i)) ?U"
    using assms by (auto simp: memfs_wf_def uniq_names_def inj_on_def)
  have len: "length es = MAX_FILES" using assms by (simp add: memfs_wf_def)
  have card: "card (dom (fs_abs es)) = card ?U"
    by (simp add: dom card_image [OF inj])
  have sub: "?U \<subseteq> {..<length es}" by auto
  show ?thesis
  proof
    assume "MAX_FILES \<le> card (dom (fs_abs es))"
    then have "card ?U = card {..<length es}"
      using card len card_mono [OF finite_lessThan sub] by simp
    then have full: "?U = {..<length es}"
      by (rule card_subset_eq [OF finite_lessThan sub])
    have "e_used (es ! i)" if "i < length es" for i
      using that full by blast
    then show "\<forall>e \<in> set es. e_used e" by (metis in_set_conv_nth)
  next
    assume "\<forall>e \<in> set es. e_used e"
    then have "?U = {..<length es}" by auto
    then show "MAX_FILES \<le> card (dom (fs_abs es))" using card len by simp
  qed
qed

lemma has_child_below:
  assumes "memfs_wf es" and "find_entry es p = Some i"
  shows "has_child es i p \<longleftrightarrow> (\<exists>q. fs_abs es q \<noteq> None \<and> lies_below p q)"
proof
  assume "has_child es i p"
  then obtain j where "j < length es" "e_used (es ! j)" "lies_below p (e_name (es ! j))"
    by (auto simp: has_child_def lies_below_def list_ex_iff)
  then show "\<exists>q. fs_abs es q \<noteq> None \<and> lies_below p q"
    by (auto simp: fs_abs_None find_entry_None slot_holds_def)
next
  assume "\<exists>q. fs_abs es q \<noteq> None \<and> lies_below p q"
  then obtain q j where j: "slot_holds es j q" and q: "lies_below p q"
    by (auto simp: fs_abs_None find_entry_None)
  moreover have "j \<noteq> i"
    using j q memfs_wf_slot(5) [OF assms] by (auto simp: slot_holds_def lies_below_def)
  ultimately show "has_child es i p"
    by (auto simp: has_child_def lies_below_def list_ex_iff slot_holds_def)
qed

definition refines :: "entries \<Rightarrow> memfs_op \<Rightarrow> (int \<times> entries) option \<Rightarrow> bool" where
  "refines es op res \<longleftrightarrow>
     (case res of None \<Rightarrow> False
      | Some (r, es') \<Rightarrow> memfs_wf es' \<and> fs_spec (fs_abs es) op = (r, fs_abs es'))"

lemma refines_update:
  assumes "memfs_wf es" and "find_entry es p = Some i" and "entry_ok e" and "e_used e"
    and "e_name e = p" and "fs_spec (fs_abs es) op = (r, (fs_abs es)(p \<mapsto> node_of e))"
  shows "refines es op (Some (r, es[i := e]))"
  using assms memfs_wf_slot(1) [OF assms(1,2)]
  by (simp add: refines_def memfs_wf_update fs_abs_update memfs_wf_uniq)

lemma refines_delete:
  assumes "memfs_wf es" and "find_entry es p = Some i"
    and "fs_spec (fs_abs es) op = (r, (fs_abs es)(p := None))"
  shows "refines es op (Some (r, es[i := (es ! i)\<lparr>e_used := False\<rparr>]))"
proof -
  note w = memfs_wf_slot [OF assms(1,2)]
  have "fs_abs (es[i := (es ! i)\<lparr>e_used := False\<rparr>]) = (fs_abs es)(p := None)"
    using w(1,5) by (intro fs_abs_delete [OF memfs_wf_uniq [OF assms(1)]]) simp_all
  moreover have "memfs_wf (es[i := (es ! i)\<lparr>e_used := False\<rparr>])"
    using w(1,5) by (intro memfs_wf_update [OF assms(1)]) (simp_all add: entry_ok_def)
  ultimately show ?thesis using assms(3) by (simp add: refines_def)
qed

lemma refines_insert:
  assumes "memfs_wf es" and "find_entry es p = None" and "alloc_entry env es = Some (i, es')"
    and "entry_ok e" and "e_used e" and "e_name e = p"
    and "fs_spec (fs_abs es) op = (r, (fs_abs es)(p \<mapsto> node_of e))"
  shows "refines es op (Some (r, es'[i := e]))"
proof -
  note a = alloc_entry_Some [OF assms(3)]
  have "es'[i := e] = es[i := e]" by (simp add: a(3))
  then show ?thesis
    using assms fs_abs_insert [OF memfs_wf_uniq [OF assms(1)] a(1,2) assms(2,5,6)]
    by (simp add: refines_def memfs_wf_insert)
qed

lemma refines_same:
  "memfs_wf es \<Longrightarrow> fs_spec (fs_abs es) op = (r, fs_abs es) \<Longrightarrow> refines es op (Some (r, es))"
  by (simp add: refines_def)

lemma alloc_full:
  assumes "memfs_wf es" and "alloc_entry env es = None"
  shows "MAX_FILES \<le> card (dom (fs_abs es))"
  using assms by (simp add: card_dom_abs alloc_entry_None)

lemma alloc_room:
  assumes "memfs_wf es" and "alloc_entry env es = Some (i, es')"
  shows "\<not> MAX_FILES \<le> card (dom (fs_abs es))"
    and "es' ! i = zero_entry\<lparr>e_used := True, e_atime := now env, e_mtime := now env,
            e_ctime := now env\<rparr>"
  using assms card_dom_abs [OF assms(1)] alloc_entry_None [of env es] alloc_entry_Some [OF assms(2)]
  by simp_all

lemma refines_create:
  assumes "memfs_wf es" and "length p \<le> MAX_NAME_LEN"
  shows "refines es (OpCreate p mode) (Some (memfs_create env es p mode))"
proof (cases "find_entry es p")
  case (Some i)
  with assms(1) show ?thesis
    by (simp add: memfs_create_def fs_abs_found refines_same)
next
  case None
  show ?thesis
  proof (cases "alloc_entry env es")
    case full: None
    with None assms(1) show ?thesis
      using alloc_full [OF assms(1) full]
      by (simp add: memfs_create_def refines_same fs_abs_not_found)
  next
    case (Some a)
    then obtain i es' where a: "alloc_entry env es = Some (i, es')" by (cases a) auto
    show ?thesis
      using None a alloc_room [OF assms(1) a] assms(2)
      by (simp add: memfs_create_def)
         (rule refines_insert [OF assms(1) None a],
          simp_all add: entry_ok_def zero_entry_def MAX_DATA_SIZE_def fs_abs_not_found node_of_def)
  qed
qed

lemma refines_mkdir:
  assumes "memfs_wf es" and "length p \<le> MAX_NAME_LEN"
  shows "refines es (OpMkdir p mode) (Some (memfs_mkdir env es p mode))"
proof (cases "find_entry es p")
  case (Some i)
  with assms(1) show ?thesis
    by (simp add: memfs_mkdir_def fs_abs_found refines_same)
next
  case None
  show ?thesis
  proof (cases "alloc_entry env es")
    case full: None
    with None assms(1) show ?thesis
      using alloc_full [OF assms(1) full]
      by (simp add: memfs_mkdir_def refines_same fs_abs_not_found)
  next
    case (Some a)
    then obtain i es' where a: "alloc_entry env es = Some (i, es')" by (cases a) auto
    show ?thesis
      using None a alloc_room [OF assms(1) a] assms(2)
      by (simp add: memfs_mkdir_def)
         (rule refines_insert [OF assms(1) None a],
          simp_all add: entry_ok_def zero_entry_def MAX_DATA_SIZE_def fs_abs_not_found node_of_def)
  qed
qed

lemma entry_ok_sized:
  "int (length d) \<le> MAX_DATA_SIZE \<Longrightarrow> entry_ok (e\<lparr>e_data := d, e_size := int (length d), e_mtime := t\<rparr>)"
  by (simp add: entry_ok_def)

lemma refines_write:
  assumes "memfs_wf es" and "realloc_ok env" and "op_ok (OpWrite p buf off)"
  shows "refines es (OpWrite p buf off) (memfs_write env es p buf off)"
proof (cases "find_entry es p")
  case None
  with assms(1) show ?thesis
    by (simp add: memfs_write_def fs_abs_not_found refines_same)
next
  case (Some i)
  note w = memfs_wf_slot [OF assms(1) Some]
  let ?e = "es ! i"
  have range: "0 \<le> off" "off + int (length buf) < 18446744073709551616"
    using assms(3) by (simp_all add: INT64_LIMIT_def)
  show ?thesis
  proof (cases "off + int (length buf) \<le> MAX_DATA_SIZE")
    case False
    then show ?thesis
      using assms(1) Some range
      by (simp add: memfs_write_def Let_def fs_abs_found refines_same node_of_def)
  next
    case True
    let ?d = "awrite (e_data ?e) (nat off) buf"
    have len: "int (length ?d) \<le> MAX_DATA_SIZE"
      using True range(1) w(2,3) by (simp add: length_awrite)
    show ?thesis
      unfolding memfs_write_found [OF assms(1,2) Some range(1) True] Let_def
      using True w len
      by (intro refines_update [OF assms(1) Some])
         (simp_all add: entry_ok_sized fs_abs_found [OF Some] node_of_def)
  qed
qed

lemma refines_truncate:
  assumes "memfs_wf es" and "realloc_ok env" and "op_ok (OpTruncate p sz)"
  shows "refines es (OpTruncate p sz) (memfs_truncate env es p sz)"
proof (cases "find_entry es p")
  case None
  with assms(1) show ?thesis
    by (simp add: memfs_truncate_def fs_abs_not_found refines_same)
next
  case (Some i)
  note w = memfs_wf_slot [OF assms(1) Some]
  have range: "- 9223372036854775808 \<le> sz" "sz < 9223372036854775808"
    using assms(3) by (simp_all add: INT64_LIMIT_def)
  have cast: "MAX_DATA_SIZE < cast_u64 sz \<longleftrightarrow> sz < 0 \<or> MAX_DATA_SIZE < sz"
  proof (cases "sz < 0")
    case True
    then have "cast_u64 sz = sz + 18446744073709551616"
      using range by (intro cast_u64_neg) simp_all
    with True range show ?thesis by (simp add: MAX_DATA_SIZE_def)
  next
    case False
    with range show ?thesis by simp
  qed
  show ?thesis
  proof (cases "sz < 0 \<or> MAX_DATA_SIZE < sz")
    case True
    with Some assms(1) show ?thesis
      by (simp add: memfs_truncate_def Let_def cast fs_abs_found refines_same node_of_def)
  next
    case False
    then have sz: "0 \<le> sz" "sz \<le> MAX_DATA_SIZE" by simp_all
    show ?thesis
      unfolding memfs_truncate_found [OF assms(1,2) Some sz]
      using False w sz
      by (intro refines_update [OF assms(1) Some])
         (simp_all add: entry_ok_def fs_abs_found [OF Some] node_of_def)
  qed
qed

text \<open>Reading: the bytes delivered are the file's own, clipped at its end.\<close>

lemma memfs_read_found:
  assumes wf: "memfs_wf es" and i: "find_entry es p = Some i" and ok: "op_ok (OpRead p sz off)"
  shows "\<exists>es'. memfs_read env es p sz off =
      Some (int (min (nat sz) (length (e_data (es ! i)) - nat off)),
            take (nat sz) (drop (nat off) (e_data (es ! i))), es')
    \<and> (es' = es \<or> es' = es[i := (es ! i)\<lparr>e_atime := now env\<rparr>])"
proof -
  obtain o' where o': "off = int o'" using ok by (auto elim: nonneg_int_cases)
  obtain n where n: "sz = int n" using ok by (auto elim: nonneg_int_cases)
  let ?d = "e_data (es ! i)"
  note w = memfs_wf_slot [OF wf i]
  have size: "e_size (es ! i) = int (length ?d)" using w(2) by simp
  have small: "length ?d \<le> 1048576" using w(3) by (simp add: size MAX_DATA_SIZE_def)
  have lim: "int o' + int n < 9223372036854775808" "int n < 2147483648"
    using ok by (simp_all add: o' n INT64_LIMIT_def)
  have cast: "cast_s64 (int (length ?d)) = int (length ?d)" "cast_u64 (int o' + int n) = int o' + int n"
    "cast_s32 (int n) = int n"
    using small lim by simp_all
  consider "length ?d \<le> o'" | "o' < length ?d" "length ?d < o' + n" | "o' + n \<le> length ?d" "o' < length ?d"
    by linarith
  then show ?thesis
  proof cases
    case 1
    then show ?thesis by (simp add: memfs_read_def i Let_def size cast o' n)
  next
    case 2
    then have c: "cast_u64 (int (length ?d) - int o') = int (length ?d) - int o'"
      "cast_s32 (int (length ?d) - int o') = int (length ?d) - int o'"
      using small by simp_all
    have "get_bytes (int o') (int (length ?d) - int o') ?d = Some (drop o' ?d)"
      using 2 by (simp add: get_bytes_def)
    moreover have "min n (length ?d - o') = length ?d - o'" using 2 by simp
    ultimately show ?thesis
      using 2 by (simp add: memfs_read_def i Let_def size cast o' n c of_nat_diff)
  next
    case 3
    then have "get_bytes (int o') (int n) ?d = Some (take n (drop o' ?d))"
      by (simp add: get_bytes_def)
    with 3 show ?thesis
      by (simp add: memfs_read_def i Let_def size cast o' n min_def)
  qed
qed

lemma refines_read:
  assumes "memfs_wf es" and "op_ok (OpRead p sz off)"
  shows "refines es (OpRead p sz off)
     (map_option (\<lambda>(r, _, es'). (r, es')) (memfs_read env es p sz off))"
proof (cases "find_entry es p")
  case None
  with assms(1) show ?thesis
    by (simp add: memfs_read_def fs_abs_not_found refines_same)
next
  case (Some i)
  note w = memfs_wf_slot [OF assms(1) Some]
  let ?e = "(es ! i)\<lparr>e_atime := now env\<rparr>"
  let ?r = "int (min (nat sz) (length (e_data (es ! i)) - nat off))"
  have spec: "fs_spec (fs_abs es) (OpRead p sz off) = (?r, fs_abs es)"
    by (simp add: fs_abs_found [OF Some] node_of_def)
  have "(fs_abs es)(p \<mapsto> node_of ?e) = fs_abs es"
    using fs_abs_found [OF Some] by (auto simp: node_of_def)
  then have "refines es (OpRead p sz off) (Some (?r, es[i := ?e]))"
    using w spec by (intro refines_update [OF assms(1) Some]) (simp_all add: entry_ok_def)
  then show ?thesis
    using memfs_read_found [OF assms(1) Some assms(2), of env] refines_same [OF assms(1) spec]
    by auto
qed

lemma refines_unlink:
  assumes "memfs_wf es"
  shows "refines es (OpUnlink p) (Some (memfs_unlink es p))"
proof (cases "find_entry es p")
  case None
  with assms show ?thesis by (simp add: memfs_unlink_def fs_abs_not_found refines_same)
next
  case (Some i)
  show ?thesis
    using assms Some refines_delete [OF assms Some, of "OpUnlink p" 0]
    by (simp add: memfs_unlink_def fs_abs_found [OF Some] node_of_def refines_same)
qed

lemma refines_rmdir:
  assumes "memfs_wf es"
  shows "refines es (OpRmdir p) (Some (memfs_rmdir es p))"
proof (cases "find_entry es p")
  case None
  with assms show ?thesis by (simp add: memfs_rmdir_def fs_abs_not_found refines_same)
next
  case (Some i)
  show ?thesis
    using assms Some has_child_below [OF assms Some] refines_delete [OF assms Some, of "OpRmdir p" 0]
    by (simp add: memfs_rmdir_def fs_abs_found [OF Some] node_of_def refines_same)
qed

lemma refines_step:
  assumes "memfs_wf es" and "realloc_ok env" and "op_ok op"
  shows "refines es op (memfs_step env es op)"
  using assms
  by (cases op)
     (simp_all only: memfs_step.simps, simp_all add: refines_create refines_mkdir refines_write
        refines_truncate refines_read refines_unlink refines_rmdir del: fs_spec.simps)

section \<open>Whole runs\<close>

definition memfs_req_step :: "entries \<Rightarrow> memfs_env \<times> memfs_op \<Rightarrow> (int \<times> entries) option" where
  "memfs_req_step es req = memfs_step (fst req) es (snd req)"

definition memfs_req_spec :: "fs \<Rightarrow> memfs_env \<times> memfs_op \<Rightarrow> int \<times> fs" where
  "memfs_req_spec m req = fs_spec m (snd req)"

definition memfs_req_ok :: "memfs_env \<times> memfs_op \<Rightarrow> bool" where
  "memfs_req_ok req \<longleftrightarrow> realloc_ok (fst req) \<and> op_ok (snd req)"

interpretation memfs: simulation memfs_wf fs_abs memfs_req_step memfs_req_spec memfs_req_ok
proof
  fix es req
  assume "memfs_wf es" and "memfs_req_ok req"
  then have "refines es (snd req) (memfs_req_step es req)"
    by (simp add: memfs_req_step_def memfs_req_ok_def refines_step)
  then show "\<exists>r es'. memfs_req_step es req = Some (r, es') \<and> memfs_wf es' \<and>
      memfs_req_spec (fs_abs es) req = (r, fs_abs es')"
    by (auto simp: refines_def memfs_req_spec_def split: option.splits)
qed

lemma fs_abs_init: "fs_abs memfs_init = Map.empty"
proof
  fix p
  have "find_entry memfs_init p = None"
    by (auto simp: find_entry_None slot_holds_def memfs_init_def zero_entry_def)
  then show "fs_abs memfs_init p = None" by (simp add: fs_abs_def)
qed

text \<open>
  C1. The filesystem refines its specification: from a freshly mounted table, any sequence of valid
  requests (with memory available) runs without undefined behaviour, keeps the table well-formed,
  and every return value and the final contents are those of the map from paths to files that the
  specification keeps.
\<close>

theorem memfs_run_refines:
  assumes "list_all memfs_req_ok reqs"
  shows "\<exists>rs es. run_impl memfs_req_step memfs_init reqs = Some (rs, es) \<and> memfs_wf es \<and>
    run_spec memfs_req_spec Map.empty reqs = (rs, fs_abs es)"
  using memfs.run_sim [OF memfs_wf_init assms] by (simp add: fs_abs_init)

definition demo_env :: memfs_env where
  "demo_env = \<lparr>now = 1000, env_uid = 0, env_gid = 0, realloc_ok = True, fresh = (\<lambda>_. 0xAA)\<rparr>"

theorem memfs_run_refines_witness:
  "\<exists>rs es. run_impl memfs_req_step memfs_init
      [(demo_env, OpCreate ''/a'' 0x1A4), (demo_env, OpWrite ''/a'' [1, 2] 3),
       (demo_env, OpUnlink ''/a'')] = Some (rs, es) \<and> memfs_wf es \<and>
    run_spec memfs_req_spec Map.empty
      [(demo_env, OpCreate ''/a'' 0x1A4), (demo_env, OpWrite ''/a'' [1, 2] 3),
       (demo_env, OpUnlink ''/a'')] = (rs, fs_abs es)"
  by (rule memfs_run_refines)
     (simp add: memfs_req_ok_def demo_env_def MAX_NAME_LEN_def INT64_LIMIT_def)

section \<open>Reading back, listing, and the error paths\<close>

lemma take_drop_awrite: "take (length buf) (drop off (awrite d off buf)) = buf"
  by (simp add: awrite_def)

text \<open>
  C2. Reading back a write: whatever the file held, a write that fits in 1 MB is accepted in full
  and a read of the same range then returns exactly the bytes written.
\<close>

theorem memfs_write_read:
  assumes "memfs_wf es" and "realloc_ok env" and "find_entry es p = Some i"
    and "length p \<le> MAX_NAME_LEN" and "0 \<le> off" and "off + int (length buf) \<le> MAX_DATA_SIZE"
  shows "\<exists>es' es''. memfs_write env es p buf off = Some (int (length buf), es') \<and>
    memfs_read env' es' p (int (length buf)) off = Some (int (length buf), buf, es'')"
proof -
  note w = memfs_wf_slot [OF assms(1,3)]
  let ?d = "awrite (e_data (es ! i)) (nat off) buf"
  let ?e = "(es ! i)\<lparr>e_data := ?d, e_size := int (length ?d), e_mtime := now env\<rparr>"
  have len: "int (length ?d) \<le> MAX_DATA_SIZE"
    using w(2,3) assms(5,6) by (simp add: length_awrite)
  have wf': "memfs_wf (es[i := ?e])"
    using len w(1,5) by (intro memfs_wf_update [OF assms(1)]) (simp_all add: entry_ok_sized)
  have i': "find_entry (es[i := ?e]) p = Some i"
    using find_entry_update [OF memfs_wf_uniq [OF assms(1)] w(1), of ?e p] w(4,5) assms(3) by simp
  have ok: "op_ok (OpRead p (int (length buf)) off)"
    using assms(4-6) by (simp add: INT64_LIMIT_def MAX_DATA_SIZE_def)
  have "es[i := ?e] ! i = ?e" using slot_holds_len [OF w(1)] by simp
  then show ?thesis
    using memfs_read_found [OF wf' i' ok, of env'] memfs_write_found [OF assms(1-3,5,6)]
    by (auto simp: Let_def take_drop_awrite length_awrite)
qed

definition one_file :: entries where
  "one_file = memfs_init[0 := zero_entry\<lparr>e_used := True, e_name := ''/a'', e_data := [7, 8],
     e_size := 2\<rparr>]"

lemma one_file_wf: "memfs_wf one_file" and one_file_find: "find_entry one_file ''/a'' = Some 0"
proof -
  have free: "find_entry memfs_init ''/a'' = None"
    using fs_abs_init fs_abs_None [of memfs_init "''/a''"] by simp
  show "memfs_wf one_file"
    unfolding one_file_def
    by (rule memfs_wf_insert [OF memfs_wf_init free])
       (simp_all add: entry_ok_def MAX_DATA_SIZE_def)
  show "find_entry one_file ''/a'' = Some 0"
    by (simp add: one_file_def find_entry_def memfs_init_def MAX_FILES_def numeral_eq_Suc)
qed

theorem memfs_write_read_witness:
  "\<exists>es' es''. memfs_write demo_env one_file ''/a'' [1, 2, 3] 5 = Some (int (length [1, 2, 3 :: u8]), es') \<and>
    memfs_read demo_env es' ''/a'' (int (length [1, 2, 3 :: u8])) 5
      = Some (int (length [1, 2, 3 :: u8]), [1, 2, 3], es'')"
  by (rule memfs_write_read [OF one_file_wf _ one_file_find])
     (simp_all add: demo_env_def MAX_NAME_LEN_def MAX_DATA_SIZE_def)

text \<open>The path under which a direct child \<open>n\<close> of directory \<open>path\<close> is stored.\<close>

definition child_path :: "string \<Rightarrow> string \<Rightarrow> string" where
  "child_path path n = (if path = ''/'' then [] else path) @ CHR ''/'' # n"

lemma child_name_iff:
  "child_name path q = Some n \<longleftrightarrow> q = child_path path n \<and> CHR ''/'' \<notin> set n"
proof (cases "path = ''/''")
  case True
  then show ?thesis by (cases q) (auto simp: child_name_def child_path_def)
next
  case False
  have "take (length path) q = path \<and> length path < length q \<and> q ! length path = CHR ''/''
      \<and> drop (Suc (length path)) q = n \<longleftrightarrow> q = path @ CHR ''/'' # n"
  proof
    assume a: "take (length path) q = path \<and> length path < length q
      \<and> q ! length path = CHR ''/'' \<and> drop (Suc (length path)) q = n"
    then have "q = take (length path) q @ q ! length path # drop (Suc (length path)) q"
      by (intro id_take_nth_drop) simp
    with a show "q = path @ CHR ''/'' # n" by simp
  qed simp
  with False show ?thesis by (auto simp: child_name_def child_path_def)
qed

text \<open>
  C3. Directory listing: \<open>readdir\<close> never fails and lists, beside the two dot entries, exactly the
  direct children of the directory that exist, whatever depth the directory has.
\<close>

theorem memfs_readdir_children:
  "fst (memfs_readdir es path) = 0 \<and>
   set (snd (memfs_readdir es path)) =
     {''.'', ''..''} \<union> {n. CHR ''/'' \<notin> set n \<and> fs_abs es (child_path path n) \<noteq> None}"
proof -
  have "set (List.map_filter (\<lambda>e. if e_used e then child_name path (e_name e) else None) es)
      = {n. \<exists>e \<in> set es. e_used e \<and> child_name path (e_name e) = Some n}"
    by (auto simp: map_filter_def split: if_splits) force
  also have "\<dots> = {n. CHR ''/'' \<notin> set n \<and> (\<exists>i. slot_holds es i (child_path path n))}"
  proof -
    have "(\<exists>e \<in> set es. e_used e \<and> e_name e = q) \<longleftrightarrow> (\<exists>i. slot_holds es i q)" for q
      by (metis in_set_conv_nth slot_holds_def)
    then show ?thesis by (auto simp: child_name_iff)
  qed
  also have "\<dots> = {n. CHR ''/'' \<notin> set n \<and> fs_abs es (child_path path n) \<noteq> None}"
    by (simp add: fs_abs_None find_entry_None)
  finally show ?thesis by (auto simp: memfs_readdir_def)
qed

text \<open>
  A name longer than the 255 bytes of the name field: \<open>create\<close> reports success and takes a
  slot, yet the file it made cannot be opened under the path that was given.
\<close>

theorem memfs_create_long_name:
  assumes "MAX_NAME_LEN < length p" and "find_entry es p = None"
    and "alloc_entry env es \<noteq> None"
  shows "\<exists>es'. memfs_create env es p mode = (0, es') \<and> memfs_open es' p = - ENOENT"
proof -
  obtain i es' where a: "alloc_entry env es = Some (i, es')" using assms(3) by auto
  let ?es = "es'[i := (es' ! i)\<lparr>e_name := take MAX_NAME_LEN p, e_is_dir := False,
                 e_mode := and mode 0x1FF, e_uid := env_uid env, e_gid := env_gid env,
                 e_data := [], e_size := 0\<rparr>]"
  have ne: "take MAX_NAME_LEN p \<noteq> p"
    using assms(1) by (metis length_take less_irrefl min.absorb4)
  then have "\<not> slot_holds ?es j p" for j
    using assms(2) alloc_entry_Some [OF a]
    by (auto simp: slot_holds_update find_entry_None)
  then have "find_entry ?es p = None" by (simp add: find_entry_None)
  with assms(2) a show ?thesis by (simp add: memfs_create_def memfs_open_def)
qed

theorem memfs_create_long_name_witness:
  "\<exists>es'. memfs_create demo_env memfs_init (replicate 300 CHR ''x'') 0 = (0, es') \<and>
     memfs_open es' (replicate 300 CHR ''x'') = - ENOENT"
proof (rule memfs_create_long_name)
  show "MAX_NAME_LEN < length (replicate 300 CHR ''x'')" by (simp add: MAX_NAME_LEN_def)
  show "find_entry memfs_init (replicate 300 CHR ''x'') = None"
    using fs_abs_init fs_abs_None by metis
  show "alloc_entry demo_env memfs_init \<noteq> None"
    by (simp add: alloc_entry_None memfs_init_def zero_entry_def MAX_FILES_def)
qed

text \<open>
  A failing \<open>realloc\<close>: the write that meets it returns \<open>-ENOMEM\<close>, but it has already replaced
  the data pointer by \<open>NULL\<close> while the size stays, and the next read of the file is an access
  through that null pointer.
\<close>

theorem memfs_enomem_corrupts:
  assumes "find_entry es p = Some i" and "\<not> realloc_ok env" and "0 < e_size (es ! i)"
    and "0 \<le> off" and "off + int (length buf) \<le> MAX_DATA_SIZE"
    and "e_size (es ! i) < off + int (length buf)"
  shows "\<exists>es'. memfs_write env es p buf off = Some (- ENOMEM, es') \<and>
    memfs_read env' es' p 1 0 = None"
proof -
  let ?e = "(es ! i)\<lparr>e_data := []\<rparr>"
  have lim: "off + int (length buf) \<le> 1048576" using assms(5) by (simp add: MAX_DATA_SIZE_def)
  have w: "memfs_write env es p buf off = Some (- ENOMEM, es[i := ?e])"
    using assms lim by (simp add: memfs_write_def Let_def realloc_block_def MAX_DATA_SIZE_def)
  have "find_entry_from k (es[i := ?e]) p = find_entry_from k es p" for k
  proof (induction es arbitrary: k i)
    case (Cons a es)
    then show ?case by (cases i) auto
  qed simp
  then have i': "find_entry (es[i := ?e]) p = Some i" using assms(1) by (simp add: find_entry_def)
  have "es[i := ?e] ! i = ?e" using find_entry_SomeD [OF assms(1)] by (simp add: slot_holds_def)
  then have "memfs_read env' (es[i := ?e]) p 1 0 = None"
    using i' assms(3,6) lim by (simp add: memfs_read_def Let_def get_bytes_def)
  with w show ?thesis by blast
qed

theorem memfs_enomem_corrupts_witness:
  "\<exists>es'. memfs_write (demo_env\<lparr>realloc_ok := False\<rparr>) one_file ''/a'' [1, 2, 3] 5 = Some (- ENOMEM, es') \<and>
    memfs_read demo_env es' ''/a'' 1 0 = None"
proof -
  have "one_file ! 0 = zero_entry\<lparr>e_used := True, e_name := ''/a'', e_data := [7, 8], e_size := 2\<rparr>"
    by (simp add: one_file_def memfs_init_def MAX_FILES_def)
  then show ?thesis
    by (intro memfs_enomem_corrupts [OF one_file_find])
       (simp_all add: demo_env_def MAX_DATA_SIZE_def)
qed

end
