(* ===== verification/MessageQueues.thy ===== *)
theory MessageQueues
  imports Bytes "HOL-Library.Multiset"
begin

text \<open>
  Two programs of SystemProgramming/Handson/lab09_ipc: mqueue_demo.c, in which the messages of a POSIX message queue come out by priority, and fifo_demo.c, in which a named
  pipe carries what is typed, as a stream without boundaries of messages. Queue and pipe are as POSIX documents them.
\<close>

section \<open>Message queues\<close>

definition MAX_MSG_SIZE :: nat where "MAX_MSG_SIZE = 256"
definition MAX_MSGS :: nat where "MAX_MSGS = 10"

text \<open>A message has a priority; the queue has the next message first. A message comes after those of the same priority.\<close>

type_synonym message = "nat \<times> string"

fun enqueue :: "message \<Rightarrow> message list \<Rightarrow> message list" where
  "enqueue m [] = [m]"
| "enqueue m (x # q) = (if fst m \<le> fst x then x # enqueue m q else m # x # q)"

text \<open>The call fails on a descriptor that is not open and for a message that is too long.\<close>

datatype sent = Sent "message list" | Send_failed | Blocks

definition mq_send :: "int \<Rightarrow> nat \<Rightarrow> string \<Rightarrow> message list \<Rightarrow> sent" where
  "mq_send mqd p m q =
     (if mqd < 0 then Send_failed else if MAX_MSG_SIZE < length m then Send_failed else if length q = MAX_MSGS then Blocks else Sent (enqueue (p, m) q))"

text \<open>The size of the buffer must be that of the longest message at least; this one has one byte more for a terminating NUL, which is set.\<close>

definition mq_receive :: "nat \<Rightarrow> message list \<Rightarrow> (message \<times> message list) option" where
  "mq_receive bufsize q = (if bufsize < MAX_MSG_SIZE then None else case q of [] \<Rightarrow> None | m # q' \<Rightarrow> Some (m, q'))"

definition sent_line :: "message \<Rightarrow> string" where
  "sent_line m = ''  [Producer] Sent (pri='' @ pad_left 2 (fmt_u (int (fst m))) @ ''): '' @ in_quotes (snd m) @ NL"

definition taken_line :: "message \<Rightarrow> string" where
  "taken_line m = ''  [Consumer] Received (pri='' @ pad_left 2 (fmt_u (int (fst m))) @ ''): '' @ in_quotes (takeWhile (\<lambda>c. c \<noteq> NUL) (snd m)) @ NL"

text \<open>The producer with the result of its own \<open>mq_open\<close>. What \<open>mq_send\<close> returns is ignored, so that a message is reported as sent when it was not.
  \<open>None\<close>: it is blocked for ever, since the consumer waits for its end before it receives.\<close>

fun produce :: "int \<Rightarrow> message list \<Rightarrow> message list \<Rightarrow> (string list \<times> message list) option" where
  "produce child_mq [] q = Some ([], q)"
| "produce child_mq ((p, t) # ms) q =
     (case mq_send child_mq p (t @ [NUL]) q of
        Blocks \<Rightarrow> None
      | Send_failed \<Rightarrow> map_option (\<lambda>(ls, q'). (sent_line (p, t) # ls, q')) (produce child_mq ms q)
      | Sent q1 \<Rightarrow> map_option (\<lambda>(ls, q'). (sent_line (p, t) # ls, q')) (produce child_mq ms q1))"

function consume :: "message list \<Rightarrow> string list" where
  "consume q = (if length q > 0 then (case mq_receive (MAX_MSG_SIZE + 1) q of None \<Rightarrow> [] | Some (m, q') \<Rightarrow> taken_line m # consume q') else [])"
  by pat_completeness auto
termination by (relation "measure length") (auto simp: mq_receive_def split: if_splits list.splits)

declare consume.simps [simp del]

definition messages :: "message list" where
  "messages = [(1, ''Low priority message''), (5, ''Normal message''), (10, ''URGENT: System alert!''), (5, ''Another normal message''), (2, ''Background task done'')]"

definition QUEUE_NAME :: string where "QUEUE_NAME = ''/demo_queue''"

text \<open>
  The program: \<open>mq\<close>, \<open>pid\<close> and \<open>child_mq\<close> are what the \<open>mq_open\<close> of the parent, \<open>fork\<close> and the \<open>mq_open\<close> of the child return, and \<open>tty\<close> tells whether
  standard output is a terminal: if it is not, the lines of the child are still in the buffer of the library when \<open>_exit\<close> discards it. The result of \<open>fork\<close>
  is compared with 0 only: if it fails, there is no child, \<open>waitpid\<close> fails at once and the parent finds the queue empty.
\<close>

definition mqueue_demo :: "(int \<Rightarrow> string) \<Rightarrow> bool \<Rightarrow> int \<Rightarrow> int \<Rightarrow> int \<Rightarrow> message list \<Rightarrow> (string list \<times> int) option" where
  "mqueue_demo strerror tty mq pid child_mq ms =
     (if mq < 0 then Some ([''=== POSIX Message Queue Demo ==='' @ NL @ NL, ''mq_open: '' @ strerror (- mq) @ NL], 1) else
     (case (if pid < 0 then Some ([], []) else produce child_mq ms []) of
        None \<Rightarrow> None
      | Some (ls, q) \<Rightarrow> Some ([''=== POSIX Message Queue Demo ==='' @ NL @ NL, ''[Main] Queue '' @ in_quotes QUEUE_NAME @ '' created.'' @ NL @ NL] @
          (if tty then ls else []) @
          [NL @ ''[Consumer] Receiving messages (highest priority first):'' @ NL, ''[Consumer] Messages in queue: '' @ fmt_d (int (length q)) @ NL @ NL] @
          consume q @ [NL @ ''=== Demo Complete ==='' @ NL], 0)))"

subsection \<open>What comes out\<close>

lemma enqueue_mset [simp]: "mset (enqueue m q) = add_mset m (mset q)"
  by (induction q) auto

lemma enqueue_length [simp]: "length (enqueue m q) = Suc (length q)"
  by (induction q) auto

definition urgency :: "message \<Rightarrow> int" where "urgency m = - int (fst m)"

lemma enqueue_sorted: "sorted (map urgency q) \<Longrightarrow> sorted (map urgency (enqueue m q))"
proof (induction q)
  case (Cons x q)
  have "set (enqueue m q) = insert m (set q)" by (metis enqueue_mset set_mset_add_mset_insert set_mset_mset)
  then show ?case using Cons.IH Cons.prems by (auto simp: urgency_def)
qed simp

lemma enqueue_stable: "filter (\<lambda>x. k = urgency x) (enqueue m q) = filter (\<lambda>x. k = urgency x) q @ (if k = urgency m then [m] else [])"
  if "sorted (map urgency q)"
  using that
proof (induction q)
  case (Cons x q)
  show ?case
  proof (cases "fst m \<le> fst x")
    case True
    have "sorted (map urgency q)" using Cons.prems by simp
    then show ?thesis using True Cons.IH by (cases "k = urgency x") simp_all
  next
    case False
    then have "urgency m < urgency y" if "y \<in> set (x # q)" for y using Cons.prems that by (fastforce simp: urgency_def)
    then have "filter (\<lambda>y. urgency m = urgency y) (x # q) = []" unfolding filter_empty_conv by (metis less_irrefl)
    then show ?thesis using False by (cases "k = urgency m") simp_all
  qed
qed simp

text \<open>The messages that the queue takes come out in the order of a stable sort by falling priority.\<close>

definition fits :: "message \<Rightarrow> bool" where
  "fits m \<longleftrightarrow> length (snd m) < MAX_MSG_SIZE"

definition with_nul :: "message \<Rightarrow> message" where "with_nul m = (fst m, snd m @ [NUL])"

lemma mq_send_cases:
  "mq_send d (fst m) (snd m @ [NUL]) q =
     (if d < 0 \<or> \<not> fits m then Send_failed else if length q = MAX_MSGS then Blocks else Sent (enqueue (with_nul m) q))"
  by (auto simp: mq_send_def fits_def with_nul_def)

lemma produce_Cons:
  "produce d (m # ms) q =
     (case mq_send d (fst m) (snd m @ [NUL]) q of
        Blocks \<Rightarrow> None
      | Send_failed \<Rightarrow> map_option (\<lambda>(ls, q'). (sent_line m # ls, q')) (produce d ms q)
      | Sent q1 \<Rightarrow> map_option (\<lambda>(ls, q'). (sent_line m # ls, q')) (produce d ms q1))"
  by (cases m) (simp split: sent.split)

lemma produce_unopened: "d < 0 \<Longrightarrow> produce d ms q = Some (map sent_line ms, q)"
  by (induction ms arbitrary: q) (simp_all add: produce_Cons mq_send_cases del: produce.simps(2))

lemma produce_fold:
  "0 \<le> d \<Longrightarrow> length q + length (filter fits ms) \<le> MAX_MSGS \<Longrightarrow>
     produce d ms q = Some (map sent_line ms, fold (\<lambda>m. enqueue (with_nul m)) (filter fits ms) q)"
proof (induction ms arbitrary: q)
  case (Cons m ms)
  then show ?case using Cons.IH [of "if fits m then enqueue (with_nul m) q else q"]
    by (cases "fits m") (simp_all add: produce_Cons mq_send_cases del: produce.simps(2))
qed simp

lemma fold_enqueue:
  fixes ms q :: "message list"
  assumes "sorted (map urgency q)"
  defines "r \<equiv> fold (\<lambda>m. enqueue (with_nul m)) ms q"
  shows "sorted (map urgency r)" and "mset r = mset q + mset (map with_nul ms)"
    and "filter (\<lambda>x. k = urgency x) r = filter (\<lambda>x. k = urgency x) (q @ map with_nul ms)"
  unfolding r_def using assms(1)
proof (induction ms arbitrary: q)
  case (Cons m ms)
  { case 1 then show ?case using Cons.IH(1) [of "enqueue (with_nul m) q"] enqueue_sorted by simp }
  { case 2 then show ?case using Cons.IH(2) [of "enqueue (with_nul m) q"] enqueue_sorted by simp }
  { case 3 then show ?case using Cons.IH(3) [of "enqueue (with_nul m) q"] enqueue_sorted enqueue_stable by simp }
qed simp_all

lemma queue_is_sorted: "fold (\<lambda>m. enqueue (with_nul m)) ms [] = sort_key urgency (map with_nul ms)"
  using fold_enqueue [where q = "[]" and ms = ms] by (intro properties_for_sort_key [symmetric]) simp_all

lemma sort_map_with_nul: "sort_key urgency (map with_nul ms) = map with_nul (sort_key urgency ms)"
proof -
  have u: "urgency (with_nul m) = urgency m" for m by (simp add: urgency_def with_nul_def)
  have i: "insort_key urgency (with_nul m) (map with_nul ys) = map with_nul (insort_key urgency m ys)" for m ys by (induction ys) (simp_all add: u)
  show ?thesis by (induction ms) (simp_all add: i sort_key_def)
qed

lemma consume_lines: "consume q = map taken_line q"
proof (induction q)
  case (Cons m q)
  then show ?case by (subst consume.simps) (simp add: mq_receive_def)
qed (simp add: consume.simps)

lemma mqueue_in_order:
  assumes "0 \<le> d" and "length (filter fits ms) \<le> MAX_MSGS"
  shows "produce d ms [] = Some (map sent_line ms, map with_nul (sort_key urgency (filter fits ms)))"
  using produce_fold [of d "[]" ms] assms by (simp add: queue_is_sorted sort_map_with_nul)

text \<open>With more messages than the queue holds, producer and consumer wait for each other.\<close>

lemma produce_blocks:
  "0 \<le> d \<Longrightarrow> length q \<le> MAX_MSGS \<Longrightarrow> MAX_MSGS < length q + length (filter fits ms) \<Longrightarrow> produce d ms q = None"
proof (induction ms arbitrary: q)
  case (Cons m ms)
  then show ?case using Cons.IH [of "if fits m then enqueue (with_nul m) q else q"]
    by (cases "fits m") (auto simp: produce_Cons mq_send_cases simp del: produce.simps(2))
qed simp

definition received_text :: "message \<Rightarrow> string" where
  "received_text m = ''  [Consumer] Received (pri='' @ pad_left 2 (fmt_u (int (fst m))) @ ''): '' @ in_quotes (snd m) @ NL"

lemma consumed_with_nul: "NUL \<notin> set (snd m) \<Longrightarrow> taken_line (with_nul m) = received_text m"
proof -
  assume "NUL \<notin> set (snd m)"
  then have "takeWhile (\<lambda>c. c \<noteq> NUL) (snd m @ [NUL]) = snd m" by (auto simp: takeWhile_eq_all_conv takeWhile_append)
  then show ?thesis by (simp add: taken_line_def received_text_def with_nul_def)
qed

definition arriving :: "int \<Rightarrow> int \<Rightarrow> message list \<Rightarrow> message list" where
  "arriving pid child_mq ms = (if 0 \<le> pid \<and> 0 \<le> child_mq then filter (\<lambda>m. length (snd m) \<le> 255) ms else [])"

text \<open>
  C40. mqueue\_demo.c with any messages and any results of its calls, stated as the whole output. The messages that arrive are those of at most 255 characters, if the fork and the
  opening of the queue in the child succeed, and none otherwise; the longer ones are lost. If at most ten arrive, the program ends with status 0: every message is reported as
  sent, arrived or not, if standard output is a terminal and the fork succeeded, the number of arrived messages is reported, and they are received by falling priority and in the order
  of sending where priorities are equal, with their text whole. If more than ten would arrive, producer and consumer wait for each other and the program does not end.
\<close>

theorem mqueue_by_priority:
  assumes "\<forall>m \<in> set ms. NUL \<notin> set (snd m)"
  shows "mqueue_demo strerror tty mq pid child_mq ms =
    (if mq < 0 then Some ([''=== POSIX Message Queue Demo ==='' @ NL @ NL, ''mq_open: '' @ strerror (- mq) @ NL], 1)
     else if 10 < length (arriving pid child_mq ms) then None
     else Some ([''=== POSIX Message Queue Demo ==='' @ NL @ NL, ''[Main] Queue '' @ in_quotes ''/demo_queue'' @ '' created.'' @ NL @ NL] @
       (if tty \<and> 0 \<le> pid then map sent_line ms else []) @
       [NL @ ''[Consumer] Receiving messages (highest priority first):'' @ NL,
        ''[Consumer] Messages in queue: '' @ fmt_d (int (length (arriving pid child_mq ms))) @ NL @ NL] @
       map received_text (sort_key urgency (arriving pid child_mq ms)) @ [NL @ ''=== Demo Complete ==='' @ NL], 0))"
proof -
  have fits: "filter fits ms = filter (\<lambda>m. length (snd m) \<le> 255) ms"
    by (rule filter_cong) (auto simp: fits_def MAX_MSG_SIZE_def)
  have "map (taken_line \<circ> with_nul) (sort_key urgency (filter fits ms)) = map received_text (sort_key urgency (filter fits ms))"
    using assms by (auto simp: consumed_with_nul)
  then show ?thesis
    using mqueue_in_order [of child_mq ms] produce_blocks [of child_mq "[]" ms] produce_unopened [of child_mq ms "[]"] fits
    by (auto simp: mqueue_demo_def arriving_def consume_lines consume.simps MAX_MSGS_def QUEUE_NAME_def not_le not_less)
qed

text \<open>The messages of the program.\<close>

theorem mqueue_by_priority_witness:
  "\<exists>out. mqueue_demo (\<lambda>_. ''error'') True 3 100 4 messages = Some (out, 0) \<and> length out = 15 \<and> out ! 9 = received_text (10, ''URGENT: System alert!'')
     \<and> out ! 10 = received_text (5, ''Normal message'') \<and> out ! 11 = received_text (5, ''Another normal message'')"
proof -
  have "\<forall>m \<in> set messages. NUL \<notin> set (snd m)" and a: "arriving 100 4 messages = messages" and "length messages = 5"
    by (simp_all add: messages_def arriving_def)
  moreover have "sort_key urgency messages = [(10, ''URGENT: System alert!''), (5, ''Normal message''), (5, ''Another normal message''), (2, ''Background task done''), (1, ''Low priority message'')]"
    by (simp add: messages_def urgency_def sort_key_def)
  ultimately show ?thesis
    using mqueue_by_priority [of messages "\<lambda>_. ''error''" True 3 100 4] by (simp add: nth_append a)
qed

section \<open>A named pipe\<close>

definition MAX_MSG :: nat where "MAX_MSG = 256"
definition PIPE_CAPACITY :: nat where "PIPE_CAPACITY = 65536"

definition QUIT :: string where "QUIT = ''quit''"

text \<open>What the client writes for its input: each line without its end.\<close>

definition line_of :: "string \<Rightarrow> string" where
  "line_of buf = takeWhile (\<lambda>c. c \<noteq> CHR 0x0A) (takeWhile (\<lambda>c. c \<noteq> NUL) buf)"

function client_writes :: "string \<Rightarrow> string list" where
  "client_writes inp = (if inp = [] then [] else
     (let (buf, rest) = fgets MAX_MSG inp; w = line_of buf
      in w # (if w = QUIT then [] else client_writes rest)))"
  by pat_completeness auto
termination
proof (relation "measure length")
  fix inp :: string and x buf rest w
  assume "inp \<noteq> []" and "x = fgets MAX_MSG inp" and "(buf, rest) = x"
  then show "(rest, inp) \<in> measure length" using fgets_less [of inp MAX_MSG] by (simp add: MAX_MSG_def) (metis snd_conv)
qed simp

text \<open>The pipe with its two ends. A process that writes to a pipe without readers is killed; an empty write does nothing.\<close>

record fifo =
  pipe :: string
  to_write :: "string list"
  client_open :: bool
  server_open :: bool
  killed :: bool
  got :: "string list"

definition run_client :: "fifo \<Rightarrow> fifo" where
  "run_client s =
     (if \<not> client_open s then s else
        case to_write s of
          [] \<Rightarrow> s\<lparr>client_open := False\<rparr>
        | w # ws \<Rightarrow>
            if w = [] then s\<lparr>to_write := ws\<rparr>
            else if \<not> server_open s then s\<lparr>client_open := False, killed := True\<rparr>
            else if length (pipe s) + length w \<le> PIPE_CAPACITY then s\<lparr>pipe := pipe s @ w, to_write := ws\<rparr>
            else s)"

definition run_server :: "fifo \<Rightarrow> fifo" where
  "run_server s =
     (if \<not> server_open s then s
      else if pipe s \<noteq> [] then
        (let buf = take (MAX_MSG - 1) (pipe s);
             s1 = s\<lparr>pipe := drop (MAX_MSG - 1) (pipe s), got := got s @ [buf]\<rparr>
         in if takeWhile (\<lambda>c. c \<noteq> NUL) buf = QUIT then s1\<lparr>server_open := False\<rparr> else s1)
      else if client_open s then s
      else s\<lparr>server_open := False\<rparr>)"

definition server_lines :: "fifo \<Rightarrow> string list" where
  "server_lines s = map (\<lambda>buf. ''[Server] Received: '' @ in_quotes (takeWhile (\<lambda>c. c \<noteq> NUL) buf) @ NL) (got s)"

definition connected :: "string list \<Rightarrow> fifo" where
  "connected ws = \<lparr>pipe = [], to_write = ws, client_open = True, server_open = True, killed = False, got = []\<rparr>"

definition fifo_run :: "bool list \<Rightarrow> fifo \<Rightarrow> fifo" where
  "fifo_run bs s = fold (\<lambda>b. if b then run_client else run_server) bs s"

lemma fifo_run_simps: "fifo_run [] s = s" "fifo_run (b # bs) s = fifo_run bs (if b then run_client s else run_server s)"
  by (simp_all add: fifo_run_def)

text \<open>Under every schedule: what was read, what is in the pipe and what is still to be written is what the client writes; no buffer is longer than it may be; and the ends are
  closed for a reason.\<close>

definition fifo_inv :: "string list \<Rightarrow> fifo \<Rightarrow> bool" where
  "fifo_inv ws s \<longleftrightarrow>
     concat (got s) @ pipe s @ concat (to_write s) = concat ws \<and>
     list_all (\<lambda>buf. 0 < length buf \<and> length buf < MAX_MSG) (got s) \<and>
     (\<not> client_open s \<and> \<not> killed s \<longrightarrow> to_write s = []) \<and>
     (killed s \<longrightarrow> \<not> server_open s) \<and>
     (\<not> server_open s \<longrightarrow> (pipe s = [] \<and> to_write s = [] \<and> \<not> client_open s) \<or> (got s \<noteq> [] \<and> takeWhile (\<lambda>c. c \<noteq> NUL) (last (got s)) = QUIT))"

lemma fifo_inv_start: "fifo_inv ws (connected ws)"
  by (simp add: fifo_inv_def connected_def)

lemma fifo_inv_client: "fifo_inv ws s \<Longrightarrow> fifo_inv ws (run_client s)"
  by (auto simp: fifo_inv_def run_client_def split: list.splits)

lemma take_drop_append: "take n xs @ drop n xs @ ys = xs @ ys"
  by (simp flip: append_assoc)

lemma fifo_inv_server: "fifo_inv ws s \<Longrightarrow> fifo_inv ws (run_server s)"
proof -
  assume i: "fifo_inv ws s"
  have l: "pipe s \<noteq> [] \<Longrightarrow> 0 < length (take (MAX_MSG - 1) (pipe s)) \<and> length (take (MAX_MSG - 1) (pipe s)) < MAX_MSG" by (simp add: MAX_MSG_def)
  show ?thesis
    using i l unfolding fifo_inv_def run_server_def Let_def by (auto simp: take_drop_append split: if_splits)
qed

lemma fifo_inv_run: "fifo_inv ws s \<Longrightarrow> fifo_inv ws (fifo_run bs s)"
  by (induction bs arbitrary: s) (simp_all add: fifo_run_simps fifo_inv_client fifo_inv_server)

lemma fifo_nothing_lost:
  assumes "\<not> server_open (fifo_run bs (connected ws))"
  shows "(\<exists>rest. concat ws = concat (got (fifo_run bs (connected ws))) @ rest)"
    and "takeWhile (\<lambda>c. c \<noteq> NUL) (last (got (fifo_run bs (connected ws)))) \<noteq> QUIT \<Longrightarrow> concat (got (fifo_run bs (connected ws))) = concat ws"
  using fifo_inv_run [OF fifo_inv_start, of ws bs] assms by (auto simp: fifo_inv_def dest: sym)

text \<open>If the server reads after each write, it prints the lines that were typed.\<close>

definition typed :: "string \<Rightarrow> bool" where
  "typed w \<longleftrightarrow> w \<noteq> [] \<and> length w < MAX_MSG \<and> NUL \<notin> set w"

definition in_turns :: "string list \<Rightarrow> bool list" where "in_turns ws = concat (map (\<lambda>_. [True, False]) ws)"

lemma typed_whole: "typed w \<Longrightarrow> takeWhile (\<lambda>c. c \<noteq> NUL) w = w"
  by (auto simp: typed_def takeWhile_eq_all_conv)

lemma lockstep:
  assumes "list_all typed ws" and "QUIT \<notin> set (butlast ws)"
  shows "got (fifo_run (in_turns ws) (s\<lparr>pipe := [], to_write := ws, client_open := True, server_open := True\<rparr>)) = got s @ ws"
  using assms
proof (induction ws arbitrary: s)
  case (Cons w ws)
  have w: "w \<noteq> []" "length w \<le> MAX_MSG - 1" "takeWhile (\<lambda>c. c \<noteq> NUL) w = w" "length w \<le> PIPE_CAPACITY"
    using Cons.prems(1) typed_whole [of w] by (simp_all add: typed_def MAX_MSG_def PIPE_CAPACITY_def)
  let ?s = "s\<lparr>pipe := [], to_write := w # ws, client_open := True, server_open := True\<rparr>"
  have "run_client ?s = s\<lparr>pipe := w, to_write := ws, client_open := True, server_open := True\<rparr>" using w by (simp add: run_client_def)
  then have two: "fifo_run (in_turns (w # ws)) ?s = fifo_run (in_turns ws) (run_server (s\<lparr>pipe := w, to_write := ws, client_open := True, server_open := True\<rparr>))"
    by (simp add: in_turns_def fifo_run_simps)
  show ?case
  proof (cases "w = QUIT")
    case True
    then have "ws = []" using Cons.prems(2) by (cases ws) simp_all
    then show ?thesis unfolding two using w by (simp add: run_server_def Let_def in_turns_def fifo_run_simps)
  next
    case False
    then have "run_server (s\<lparr>pipe := w, to_write := ws, client_open := True, server_open := True\<rparr>) =
        (s\<lparr>got := got s @ [w]\<rparr>)\<lparr>pipe := [], to_write := ws, client_open := True, server_open := True\<rparr>"
      using w(1,2) unfolding run_server_def Let_def by (simp add: w(3))
    moreover have "QUIT \<notin> set (butlast ws)" using Cons.prems(2) by (cases ws) simp_all
    ultimately show ?thesis unfolding two using Cons.IH [of "s\<lparr>got := got s @ [w]\<rparr>"] Cons.prems(1) by simp
  qed
qed (simp add: in_turns_def fifo_run_simps)

text \<open>Otherwise lines run together: the word that should end the server is not recognised, or one is recognised that was not typed, and the client is killed.\<close>

lemmas pipe_defs = fifo_run_simps connected_def run_client_def run_server_def server_lines_def MAX_MSG_def PIPE_CAPACITY_def QUIT_def Let_def

lemma quit_missed:
  "server_lines (fifo_run [True, True, True, False] (connected [''hi'', ''quit''])) = [''[Server] Received: '' @ in_quotes ''hiquit'' @ NL]"
  "server_open (fifo_run [True, True, True, False] (connected [''hi'', ''quit'']))"
  by (simp_all add: pipe_defs)

lemma quit_made_up:
  "let s = fifo_run [True, True, False, True] (connected [''qu'', ''it'', ''more'']) in \<not> server_open s \<and> killed s"
  by (simp add: pipe_defs)

end
