(* ===== verification/Modules.thy ===== *)
theory Modules
  imports Lifecycle
begin

text \<open>
  Module initialisation and exit of the drivers. Every definition follows one \<open>__init\<close> or \<open>__exit\<close>
  function: \<open>res\<close> gives the result of each kernel call that acquires a resource, the trace lists the
  acquisitions and releases in the order of the code, error labels included. Configuration that can
  not fail (filling in operation tables, names and limits) acquires nothing and is left out.
\<close>

datatype resource =
    OldMajor | CharRegion | Cdev | DevClass | DevNode | MiscDev
  | PlatformDriver | PlatformDevice | UsbDriver
  | DevState | DevRegs | BackingStore | TagSet | Gendisk | DiskAdded
  | UioDev | Timer | Kobject | SysfsGroup | Irq | InputDev | InputRegistered
  | ThreadA | ThreadB | ProcDir | ProcInfo | ProcStats | ProcConfig
  | DataArray | ProcSeq | PdevAlloc | PdevAdded
  | DebugDir | ProcList | Work | Tasklet | Hrtimer | ProcTrigger

type_synonym rtrace = "resource action list"

section \<open>Character and misc devices\<close>

text \<open>chardev_old.c\<close>

definition chardev_old_init :: "(resource \<Rightarrow> int) \<Rightarrow> int \<times> rtrace" where
  "chardev_old_init res =
     (if res OldMajor < 0 then (res OldMajor, []) else (0, [Acquire OldMajor]))"

definition chardev_old_exit :: rtrace where
  "chardev_old_exit = [Release OldMajor]"

text \<open>chardev_new.c and chardev_ioctl.c, with the labels \<open>err_device\<close>, \<open>err_class\<close>, \<open>err_cdev\<close>.\<close>

definition chardev_new_init :: "(resource \<Rightarrow> int) \<Rightarrow> int \<times> rtrace" where
  "chardev_new_init res =
     (let err_cdev = [Release CharRegion];
          err_class = Release Cdev # err_cdev;
          err_device = Release DevClass # err_class
      in if res CharRegion < 0 then (res CharRegion, [])
         else if res Cdev < 0 then (res Cdev, [Acquire CharRegion] @ err_cdev)
         else if res DevClass < 0 then (res DevClass, [Acquire CharRegion, Acquire Cdev] @ err_class)
         else if res DevNode < 0
           then (res DevNode, [Acquire CharRegion, Acquire Cdev, Acquire DevClass] @ err_device)
         else (0, [Acquire CharRegion, Acquire Cdev, Acquire DevClass, Acquire DevNode]))"

definition chardev_new_exit :: rtrace where
  "chardev_new_exit = [Release DevNode, Release DevClass, Release Cdev, Release CharRegion]"

definition chardev_ioctl_init :: "(resource \<Rightarrow> int) \<Rightarrow> int \<times> rtrace" where
  "chardev_ioctl_init res =
     (let err_cdev = [Release CharRegion];
          err_class = Release Cdev # err_cdev;
          err_device = Release DevClass # err_class
      in if res CharRegion < 0 then (res CharRegion, [])
         else if res Cdev < 0 then (res Cdev, [Acquire CharRegion] @ err_cdev)
         else if res DevClass < 0 then (res DevClass, [Acquire CharRegion, Acquire Cdev] @ err_class)
         else if res DevNode < 0
           then (res DevNode, [Acquire CharRegion, Acquire Cdev, Acquire DevClass] @ err_device)
         else (0, [Acquire CharRegion, Acquire Cdev, Acquire DevClass, Acquire DevNode]))"

definition chardev_ioctl_exit :: rtrace where
  "chardev_ioctl_exit = [Release DevNode, Release DevClass, Release Cdev, Release CharRegion]"

text \<open>misc_demo.c, misc_multi.c and signal_aware.c\<close>

definition misc_demo_init :: "(resource \<Rightarrow> int) \<Rightarrow> int \<times> rtrace" where
  "misc_demo_init res = (if res MiscDev \<noteq> 0 then (res MiscDev, []) else (0, [Acquire MiscDev]))"

definition misc_demo_exit :: rtrace where
  "misc_demo_exit = [Release MiscDev]"

definition misc_multi_init :: "(resource \<Rightarrow> int) \<Rightarrow> int \<times> rtrace" where
  "misc_multi_init res = (if res MiscDev \<noteq> 0 then (res MiscDev, []) else (0, [Acquire MiscDev]))"

definition misc_multi_exit :: rtrace where
  "misc_multi_exit = [Release MiscDev]"

definition signal_aware_init :: "(resource \<Rightarrow> int) \<Rightarrow> int \<times> rtrace" where
  "signal_aware_init res = (if res MiscDev \<noteq> 0 then (res MiscDev, []) else (0, [Acquire MiscDev]))"

definition signal_aware_exit :: rtrace where
  "signal_aware_exit = [Release MiscDev]"

section \<open>The block device\<close>

definition blkdemo_init :: "(resource \<Rightarrow> int) \<Rightarrow> int \<times> rtrace" where
  "blkdemo_init res =
     (let err_free_dev = [Release DevState];
          err_free_data = Release BackingStore # err_free_dev;
          err_free_tag = Release TagSet # err_free_data;
          err_put_disk = Release Gendisk # err_free_tag
      in if res DevState \<noteq> 0 then (- ENOMEM, [])
         else if res BackingStore \<noteq> 0 then (- ENOMEM, [Acquire DevState] @ err_free_dev)
         else if res TagSet \<noteq> 0
           then (res TagSet, [Acquire DevState, Acquire BackingStore] @ err_free_data)
         else if res Gendisk < 0
           then (res Gendisk, [Acquire DevState, Acquire BackingStore, Acquire TagSet] @ err_free_tag)
         else if res DiskAdded \<noteq> 0
           then (res DiskAdded,
                 [Acquire DevState, Acquire BackingStore, Acquire TagSet, Acquire Gendisk] @ err_put_disk)
         else (0, [Acquire DevState, Acquire BackingStore, Acquire TagSet, Acquire Gendisk, Acquire DiskAdded]))"

definition blkdemo_exit :: rtrace where
  "blkdemo_exit = [Release DiskAdded, Release Gendisk, Release TagSet, Release BackingStore, Release DevState]"

section \<open>UIO devices\<close>

definition uio_sim_init :: "(resource \<Rightarrow> int) \<Rightarrow> int \<times> rtrace" where
  "uio_sim_init res =
     (if res DevState \<noteq> 0 then (- ENOMEM, [])
      else if res PlatformDevice < 0 then (res PlatformDevice, [Acquire DevState, Release DevState])
      else if res DevRegs \<noteq> 0
        then (- ENOMEM, [Acquire DevState, Acquire PlatformDevice, Release PlatformDevice, Release DevState])
      else if res UioDev \<noteq> 0
        then (res UioDev, [Acquire DevState, Acquire PlatformDevice, Acquire DevRegs,
                Release DevRegs, Release PlatformDevice, Release DevState])
      else (0, [Acquire DevState, Acquire PlatformDevice, Acquire DevRegs, Acquire UioDev, Acquire Timer]))"

definition uio_sim_exit :: rtrace where
  "uio_sim_exit = [Release Timer, Release UioDev, Release DevRegs, Release PlatformDevice, Release DevState]"

definition uio_demo_init :: "(resource \<Rightarrow> int) \<Rightarrow> int \<times> rtrace" where
  "uio_demo_init res =
     (if res DevState \<noteq> 0 then (- ENOMEM, [])
      else if res DevRegs \<noteq> 0 then (- ENOMEM, [Acquire DevState, Release DevState])
      else if res UioDev \<noteq> 0
        then (res UioDev, [Acquire DevState, Acquire DevRegs, Release DevRegs, Release DevState])
      else (0, [Acquire DevState, Acquire DevRegs, Acquire UioDev, Acquire Timer]))"

definition uio_demo_exit :: rtrace where
  "uio_demo_exit = [Release Timer, Release UioDev, Release DevRegs, Release DevState]"

section \<open>Virtual platform devices, sysfs, interrupts, input\<close>

text \<open>iio_demo.c, rtc_demo.c and wdt_demo.c register a driver and a device for it.\<close>

definition iio_demo_init :: "(resource \<Rightarrow> int) \<Rightarrow> int \<times> rtrace" where
  "iio_demo_init res =
     (if res PlatformDriver \<noteq> 0 then (res PlatformDriver, [])
      else if res PlatformDevice < 0
        then (res PlatformDevice, [Acquire PlatformDriver, Release PlatformDriver])
      else (0, [Acquire PlatformDriver, Acquire PlatformDevice]))"

definition iio_demo_exit :: rtrace where
  "iio_demo_exit = [Release PlatformDevice, Release PlatformDriver]"

definition rtc_demo_init :: "(resource \<Rightarrow> int) \<Rightarrow> int \<times> rtrace" where
  "rtc_demo_init res =
     (if res PlatformDriver \<noteq> 0 then (res PlatformDriver, [])
      else if res PlatformDevice < 0
        then (res PlatformDevice, [Acquire PlatformDriver, Release PlatformDriver])
      else (0, [Acquire PlatformDriver, Acquire PlatformDevice]))"

definition rtc_demo_exit :: rtrace where
  "rtc_demo_exit = [Release PlatformDevice, Release PlatformDriver]"

definition wdt_demo_init :: "(resource \<Rightarrow> int) \<Rightarrow> int \<times> rtrace" where
  "wdt_demo_init res =
     (if res PlatformDriver \<noteq> 0 then (res PlatformDriver, [])
      else if res PlatformDevice < 0
        then (res PlatformDevice, [Acquire PlatformDriver, Release PlatformDriver])
      else (0, [Acquire PlatformDriver, Acquire PlatformDevice]))"

definition wdt_demo_exit :: rtrace where
  "wdt_demo_exit = [Release PlatformDevice, Release PlatformDriver]"

definition usb_demo_init :: "(resource \<Rightarrow> int) \<Rightarrow> int \<times> rtrace" where
  "usb_demo_init res = (res UsbDriver, if res UsbDriver = 0 then [Acquire UsbDriver] else [])"

definition usb_demo_exit :: rtrace where
  "usb_demo_exit = [Release UsbDriver]"

definition sysfs_demo_init :: "(resource \<Rightarrow> int) \<Rightarrow> int \<times> rtrace" where
  "sysfs_demo_init res =
     (if res Kobject \<noteq> 0 then (- ENOMEM, [])
      else if res SysfsGroup \<noteq> 0 then (res SysfsGroup, [Acquire Kobject, Release Kobject])
      else (0, [Acquire Kobject, Acquire SysfsGroup]))"

definition sysfs_demo_exit :: rtrace where
  "sysfs_demo_exit = [Release SysfsGroup, Release Kobject]"

definition irq_demo_init :: "(resource \<Rightarrow> int) \<Rightarrow> int \<times> rtrace" where
  "irq_demo_init res = (if res Irq \<noteq> 0 then (res Irq, []) else (0, [Acquire Irq]))"

definition irq_demo_exit :: rtrace where
  "irq_demo_exit = [Release Irq]"

definition threaded_irq_demo_init :: "(resource \<Rightarrow> int) \<Rightarrow> int \<times> rtrace" where
  "threaded_irq_demo_init res = (if res Irq \<noteq> 0 then (res Irq, []) else (0, [Acquire Irq]))"

definition threaded_irq_demo_exit :: rtrace where
  "threaded_irq_demo_exit = [Release Irq]"

text \<open>input_demo.c: unregistering a registered input device also frees it.\<close>

definition input_demo_init :: "(resource \<Rightarrow> int) \<Rightarrow> int \<times> rtrace" where
  "input_demo_init res =
     (if res InputDev \<noteq> 0 then (- ENOMEM, [])
      else if res InputRegistered \<noteq> 0
        then (res InputRegistered, [Acquire InputDev, Release InputDev])
      else (0, [Acquire InputDev, Acquire InputRegistered, Acquire Timer]))"

definition input_demo_exit :: rtrace where
  "input_demo_exit = [Release Timer, Release InputRegistered, Release InputDev]"

section \<open>Kernel threads\<close>

text \<open>completion_demo.c and barrier_demo.c start two threads. (rcu_demo.c, whose exit function leaves memory to callbacks, is modelled with its threads in \<open>RcuDemo\<close>.)\<close>

definition completion_demo_init :: "(resource \<Rightarrow> int) \<Rightarrow> int \<times> rtrace" where
  "completion_demo_init res =
     (if res ThreadA < 0 then (res ThreadA, [])
      else if res ThreadB < 0 then (res ThreadB, [Acquire ThreadA, Release ThreadA])
      else (0, [Acquire ThreadA, Acquire ThreadB]))"

definition completion_demo_exit :: rtrace where
  "completion_demo_exit = [Release ThreadB, Release ThreadA]"

definition barrier_demo_init :: "(resource \<Rightarrow> int) \<Rightarrow> int \<times> rtrace" where
  "barrier_demo_init res =
     (if res ThreadA < 0 then (res ThreadA, [])
      else if res ThreadB < 0 then (res ThreadB, [Acquire ThreadA, Release ThreadA])
      else (0, [Acquire ThreadA, Acquire ThreadB]))"

definition barrier_demo_exit :: rtrace where
  "barrier_demo_exit = [Release ThreadB, Release ThreadA]"

section \<open>Timers, deferred work and entries of virtual filesystems\<close>

text \<open>ktimer_demo.c, hrtimer_demo.c and context_demo.c arm timers and queue work, which can not fail; their exit functions cancel and wait.\<close>

definition ktimer_demo_init :: "(resource \<Rightarrow> int) \<Rightarrow> int \<times> rtrace" where
  "ktimer_demo_init res = (0, [Acquire Timer])"

definition ktimer_demo_exit :: rtrace where
  "ktimer_demo_exit = [Release Timer]"

definition hrtimer_demo_init :: "(resource \<Rightarrow> int) \<Rightarrow> int \<times> rtrace" where
  "hrtimer_demo_init res = (0, [Acquire Hrtimer])"

definition hrtimer_demo_exit :: rtrace where
  "hrtimer_demo_exit = [Release Hrtimer]"

definition context_demo_init :: "(resource \<Rightarrow> int) \<Rightarrow> int \<times> rtrace" where
  "context_demo_init res = (0, [Acquire Work, Acquire Tasklet, Acquire Timer])"

definition context_demo_exit :: rtrace where
  "context_demo_exit = [Release Timer, Release Tasklet, Release Work]"

text \<open>kthread_demo.c, debugfs_demo.c and process_list.c. After a load that succeeded the pointer to the thread is not null.\<close>

definition kthread_demo_init :: "(resource \<Rightarrow> int) \<Rightarrow> int \<times> rtrace" where
  "kthread_demo_init res = (if res ThreadA < 0 then (res ThreadA, []) else (0, [Acquire ThreadA]))"

definition kthread_demo_exit :: rtrace where
  "kthread_demo_exit = [Release ThreadA]"

definition debugfs_demo_init :: "(resource \<Rightarrow> int) \<Rightarrow> int \<times> rtrace" where
  "debugfs_demo_init res = (if res DebugDir < 0 then (res DebugDir, []) else (0, [Acquire DebugDir]))"

definition debugfs_demo_exit :: rtrace where
  "debugfs_demo_exit = [Release DebugDir]"

definition process_list_init :: "(resource \<Rightarrow> int) \<Rightarrow> int \<times> rtrace" where
  "process_list_init res = (if res ProcList \<noteq> 0 then (- ENOMEM, []) else (0, [Acquire ProcList]))"

definition process_list_exit :: rtrace where
  "process_list_exit = [Release ProcList]"

section \<open>Init functions that ignore a result\<close>

text \<open>
  procfs_demo.c, seqfile_demo.c, platform_device_manual.c and tasklet_demo.c do not look at the result of every call:
  a call that failed acquired nothing, and the function goes on and returns 0.
\<close>

definition if_acquired :: "(resource \<Rightarrow> int) \<Rightarrow> resource \<Rightarrow> rtrace" where
  "if_acquired res r = (if res r = 0 then [Acquire r] else [])"

definition procfs_demo_init :: "(resource \<Rightarrow> int) \<Rightarrow> int \<times> rtrace" where
  "procfs_demo_init res =
     (if res ProcDir \<noteq> 0 then (- ENOMEM, [])
      else (0, [Acquire ProcDir] @ if_acquired res ProcInfo @ if_acquired res ProcStats @ if_acquired res ProcConfig))"

definition procfs_demo_exit :: rtrace where
  "procfs_demo_exit = [Release ProcConfig, Release ProcStats, Release ProcInfo, Release ProcDir]"

definition seqfile_demo_init :: "(resource \<Rightarrow> int) \<Rightarrow> int \<times> rtrace" where
  "seqfile_demo_init res =
     (if res DataArray \<noteq> 0 then (- ENOMEM, [])
      else (0, [Acquire DataArray] @ if_acquired res ProcSeq))"

definition seqfile_demo_exit :: rtrace where
  "seqfile_demo_exit = [Release ProcSeq, Release DataArray]"

definition manual_pdev_init :: "(resource \<Rightarrow> int) \<Rightarrow> int \<times> rtrace" where
  "manual_pdev_init res =
     (if res PdevAlloc \<noteq> 0 then (- ENOMEM, [])
      else (0, [Acquire PdevAlloc] @ if_acquired res PdevAdded))"

definition manual_pdev_exit :: rtrace where
  "manual_pdev_exit = [Release PdevAdded, Release PdevAlloc]"

text \<open>tasklet_demo.c: the tasklet is scheduled whether or not there is an entry to trigger it again.\<close>

definition tasklet_demo_init :: "(resource \<Rightarrow> int) \<Rightarrow> int \<times> rtrace" where
  "tasklet_demo_init res = (0, if_acquired res ProcTrigger @ [Acquire Tasklet])"

definition tasklet_demo_exit :: rtrace where
  "tasklet_demo_exit = [Release Tasklet, Release ProcTrigger]"

section \<open>The drivers meet the contract\<close>

interpretation chardev_old: driver_lifecycle chardev_old_init chardev_old_exit "[OldMajor]"
  by unfold_locales (auto simp: chardev_old_init_def chardev_old_exit_def kernel_results_def le_less Let_def split: if_splits)

interpretation chardev_new: driver_lifecycle chardev_new_init chardev_new_exit "[DevNode, DevClass, Cdev, CharRegion]"
  by unfold_locales (auto simp: chardev_new_init_def chardev_new_exit_def kernel_results_def le_less Let_def split: if_splits)

interpretation chardev_ioctl: driver_lifecycle chardev_ioctl_init chardev_ioctl_exit "[DevNode, DevClass, Cdev, CharRegion]"
  by unfold_locales (auto simp: chardev_ioctl_init_def chardev_ioctl_exit_def kernel_results_def le_less Let_def split: if_splits)

interpretation misc_demo: driver_lifecycle misc_demo_init misc_demo_exit "[MiscDev]"
  by unfold_locales (auto simp: misc_demo_init_def misc_demo_exit_def kernel_results_def le_less Let_def split: if_splits)

interpretation misc_multi: driver_lifecycle misc_multi_init misc_multi_exit "[MiscDev]"
  by unfold_locales (auto simp: misc_multi_init_def misc_multi_exit_def kernel_results_def le_less Let_def split: if_splits)

interpretation signal_aware: driver_lifecycle signal_aware_init signal_aware_exit "[MiscDev]"
  by unfold_locales (auto simp: signal_aware_init_def signal_aware_exit_def kernel_results_def le_less Let_def split: if_splits)

interpretation blkdemo: driver_lifecycle blkdemo_init blkdemo_exit "[DiskAdded, Gendisk, TagSet, BackingStore, DevState]"
  by unfold_locales (auto simp: blkdemo_init_def blkdemo_exit_def kernel_results_def le_less Let_def split: if_splits)

interpretation uio_sim: driver_lifecycle uio_sim_init uio_sim_exit "[Timer, UioDev, DevRegs, PlatformDevice, DevState]"
  by unfold_locales (auto simp: uio_sim_init_def uio_sim_exit_def kernel_results_def le_less Let_def split: if_splits)

interpretation uio_demo: driver_lifecycle uio_demo_init uio_demo_exit "[Timer, UioDev, DevRegs, DevState]"
  by unfold_locales (auto simp: uio_demo_init_def uio_demo_exit_def kernel_results_def le_less Let_def split: if_splits)

interpretation iio_demo: driver_lifecycle iio_demo_init iio_demo_exit "[PlatformDevice, PlatformDriver]"
  by unfold_locales (auto simp: iio_demo_init_def iio_demo_exit_def kernel_results_def le_less Let_def split: if_splits)

interpretation rtc_demo: driver_lifecycle rtc_demo_init rtc_demo_exit "[PlatformDevice, PlatformDriver]"
  by unfold_locales (auto simp: rtc_demo_init_def rtc_demo_exit_def kernel_results_def le_less Let_def split: if_splits)

interpretation wdt_demo: driver_lifecycle wdt_demo_init wdt_demo_exit "[PlatformDevice, PlatformDriver]"
  by unfold_locales (auto simp: wdt_demo_init_def wdt_demo_exit_def kernel_results_def le_less Let_def split: if_splits)

interpretation usb_demo: driver_lifecycle usb_demo_init usb_demo_exit "[UsbDriver]"
  by unfold_locales (auto simp: usb_demo_init_def usb_demo_exit_def kernel_results_def le_less Let_def split: if_splits)

interpretation sysfs_demo: driver_lifecycle sysfs_demo_init sysfs_demo_exit "[SysfsGroup, Kobject]"
  by unfold_locales (auto simp: sysfs_demo_init_def sysfs_demo_exit_def kernel_results_def le_less Let_def split: if_splits)

interpretation irq_demo: driver_lifecycle irq_demo_init irq_demo_exit "[Irq]"
  by unfold_locales (auto simp: irq_demo_init_def irq_demo_exit_def kernel_results_def le_less Let_def split: if_splits)

interpretation threaded_irq_demo: driver_lifecycle threaded_irq_demo_init threaded_irq_demo_exit "[Irq]"
  by unfold_locales (auto simp: threaded_irq_demo_init_def threaded_irq_demo_exit_def kernel_results_def le_less Let_def split: if_splits)

interpretation input_demo: driver_lifecycle input_demo_init input_demo_exit "[Timer, InputRegistered, InputDev]"
  by unfold_locales (auto simp: input_demo_init_def input_demo_exit_def kernel_results_def le_less Let_def split: if_splits)

interpretation completion_demo: driver_lifecycle completion_demo_init completion_demo_exit "[ThreadB, ThreadA]"
  by unfold_locales (auto simp: completion_demo_init_def completion_demo_exit_def kernel_results_def le_less Let_def split: if_splits)

interpretation barrier_demo: driver_lifecycle barrier_demo_init barrier_demo_exit "[ThreadB, ThreadA]"
  by unfold_locales (auto simp: barrier_demo_init_def barrier_demo_exit_def kernel_results_def le_less Let_def split: if_splits)

interpretation ktimer_demo: driver_lifecycle ktimer_demo_init ktimer_demo_exit "[Timer]"
  by unfold_locales (auto simp: ktimer_demo_init_def ktimer_demo_exit_def kernel_results_def le_less Let_def split: if_splits)

interpretation hrtimer_demo: driver_lifecycle hrtimer_demo_init hrtimer_demo_exit "[Hrtimer]"
  by unfold_locales (auto simp: hrtimer_demo_init_def hrtimer_demo_exit_def kernel_results_def le_less Let_def split: if_splits)

interpretation context_demo: driver_lifecycle context_demo_init context_demo_exit "[Timer, Tasklet, Work]"
  by unfold_locales (auto simp: context_demo_init_def context_demo_exit_def kernel_results_def le_less Let_def split: if_splits)

interpretation kthread_demo: driver_lifecycle kthread_demo_init kthread_demo_exit "[ThreadA]"
  by unfold_locales (auto simp: kthread_demo_init_def kthread_demo_exit_def kernel_results_def le_less Let_def split: if_splits)

interpretation debugfs_demo: driver_lifecycle debugfs_demo_init debugfs_demo_exit "[DebugDir]"
  by unfold_locales (auto simp: debugfs_demo_init_def debugfs_demo_exit_def kernel_results_def le_less Let_def split: if_splits)

interpretation process_list: driver_lifecycle process_list_init process_list_exit "[ProcList]"
  by unfold_locales (auto simp: process_list_init_def process_list_exit_def kernel_results_def le_less Let_def split: if_splits)

interpretation procfs_demo: lax_lifecycle procfs_demo_init procfs_demo_exit "[ProcInfo, ProcStats, ProcConfig]"
  by unfold_locales (auto simp: procfs_demo_init_def procfs_demo_exit_def if_acquired_def kernel_results_def le_less split: if_splits)

interpretation seqfile_demo: lax_lifecycle seqfile_demo_init seqfile_demo_exit "[ProcSeq]"
  by unfold_locales (auto simp: seqfile_demo_init_def seqfile_demo_exit_def if_acquired_def kernel_results_def le_less split: if_splits)

interpretation manual_pdev: lax_lifecycle manual_pdev_init manual_pdev_exit "[PdevAdded]"
  by unfold_locales (auto simp: manual_pdev_init_def manual_pdev_exit_def if_acquired_def kernel_results_def le_less split: if_splits)

interpretation tasklet_demo: lax_lifecycle tasklet_demo_init tasklet_demo_exit "[ProcTrigger]"
  by unfold_locales (auto simp: tasklet_demo_init_def tasklet_demo_exit_def if_acquired_def kernel_results_def le_less split: if_splits)

text \<open>All modules of this theory, each with the calls whose results its init function ignores.\<close>

definition modules :: "(((resource \<Rightarrow> int) \<Rightarrow> int \<times> rtrace) \<times> rtrace \<times> resource list) list" where
  "modules =
     [(chardev_old_init, chardev_old_exit, []),
      (chardev_new_init, chardev_new_exit, []),
      (chardev_ioctl_init, chardev_ioctl_exit, []),
      (misc_demo_init, misc_demo_exit, []),
      (misc_multi_init, misc_multi_exit, []),
      (signal_aware_init, signal_aware_exit, []),
      (blkdemo_init, blkdemo_exit, []),
      (uio_sim_init, uio_sim_exit, []),
      (uio_demo_init, uio_demo_exit, []),
      (iio_demo_init, iio_demo_exit, []),
      (rtc_demo_init, rtc_demo_exit, []),
      (wdt_demo_init, wdt_demo_exit, []),
      (usb_demo_init, usb_demo_exit, []),
      (sysfs_demo_init, sysfs_demo_exit, []),
      (irq_demo_init, irq_demo_exit, []),
      (threaded_irq_demo_init, threaded_irq_demo_exit, []),
      (input_demo_init, input_demo_exit, []),
      (completion_demo_init, completion_demo_exit, []),
      (barrier_demo_init, barrier_demo_exit, []),
      (ktimer_demo_init, ktimer_demo_exit, []),
      (hrtimer_demo_init, hrtimer_demo_exit, []),
      (context_demo_init, context_demo_exit, []),
      (kthread_demo_init, kthread_demo_exit, []),
      (debugfs_demo_init, debugfs_demo_exit, []),
      (process_list_init, process_list_exit, []),
      (procfs_demo_init, procfs_demo_exit, [ProcInfo, ProcStats, ProcConfig]),
      (seqfile_demo_init, seqfile_demo_exit, [ProcSeq]),
      (manual_pdev_init, manual_pdev_exit, [PdevAdded]),
      (tasklet_demo_init, tasklet_demo_exit, [ProcTrigger])]"

lemmas contracts =
  chardev_old.lax_lifecycle_axioms
  chardev_new.lax_lifecycle_axioms
  chardev_ioctl.lax_lifecycle_axioms
  misc_demo.lax_lifecycle_axioms
  misc_multi.lax_lifecycle_axioms
  signal_aware.lax_lifecycle_axioms
  blkdemo.lax_lifecycle_axioms
  uio_sim.lax_lifecycle_axioms
  uio_demo.lax_lifecycle_axioms
  iio_demo.lax_lifecycle_axioms
  rtc_demo.lax_lifecycle_axioms
  wdt_demo.lax_lifecycle_axioms
  usb_demo.lax_lifecycle_axioms
  sysfs_demo.lax_lifecycle_axioms
  irq_demo.lax_lifecycle_axioms
  threaded_irq_demo.lax_lifecycle_axioms
  input_demo.lax_lifecycle_axioms
  completion_demo.lax_lifecycle_axioms
  barrier_demo.lax_lifecycle_axioms
  ktimer_demo.lax_lifecycle_axioms
  hrtimer_demo.lax_lifecycle_axioms
  context_demo.lax_lifecycle_axioms
  kthread_demo.lax_lifecycle_axioms
  debugfs_demo.lax_lifecycle_axioms
  process_list.lax_lifecycle_axioms
  procfs_demo.lax_lifecycle_axioms
  seqfile_demo.lax_lifecycle_axioms
  manual_pdev.lax_lifecycle_axioms
  tasklet_demo.lax_lifecycle_axioms

lemma modules_meet_contract: "(init, exit_trace, ignored) \<in> set modules \<Longrightarrow> lax_lifecycle init exit_trace ignored"
  unfolding modules_def by (auto intro: contracts)

text \<open>
  C11. Every module of this theory, under every sequence of load attempts, each with arbitrary results of the kernel calls: loading and (when it
  loaded) unloading releases every acquired resource exactly once, in the reverse order of acquisition, and leaves nothing held, so that
  a failed load can be tried again; the only exceptions are loads of procfs\_demo, seqfile\_demo, platform\_device\_manual and
  tasklet\_demo in which a call has failed whose result their init functions ignore, and after each of these unloading releases
  something that is not held. A load that fails reports the error of one of the calls.
\<close>

theorem modules_leak_free:
  assumes "(init, exit_trace, ignored) \<in> set modules" and "list_all kernel_results es"
  shows "run_trace [] (sessions init exit_trace es) =
      (if \<forall>res \<in> set es. fst (init res) = 0 \<longrightarrow> (\<forall>r \<in> set ignored. res r = 0) then Some [] else None) \<and>
    (\<forall>res \<in> set es. fst (init res) \<noteq> 0 \<longrightarrow> fst (init res) < 0 \<and> fst (init res) \<in> insert (- ENOMEM) (range res)) \<and>
    (ignored \<noteq> [] \<longrightarrow> (init, ignored) \<in> {(procfs_demo_init, [ProcInfo, ProcStats, ProcConfig]), (seqfile_demo_init, [ProcSeq]),
      (manual_pdev_init, [PdevAdded]), (tasklet_demo_init, [ProcTrigger])})"
proof -
  note contract = modules_meet_contract [OF assms(1)]
  have "\<forall>res \<in> set es. fst (init res) \<noteq> 0 \<longrightarrow> fst (init res) < 0 \<and> fst (init res) \<in> insert (- ENOMEM) (range res)"
    using lax_lifecycle.load_error [OF contract] assms(2) unfolding list_all_iff by blast
  then show ?thesis
    using lax_lifecycle.sessions_exact [OF contract assms(2)] assms(1) by (auto simp: modules_def)
qed

text \<open>The block device after a failed load, and the procfs module without one of its entries.\<close>

theorem modules_leak_free_witness:
  "run_trace [] (sessions blkdemo_init blkdemo_exit [(\<lambda>r. if r = Gendisk then - ENOMEM else 0), (\<lambda>_. 0)]) = Some [] \<and>
    run_trace [] (sessions procfs_demo_init procfs_demo_exit [(\<lambda>r. if r = ProcConfig then - ENOMEM else 0)]) = None"
proof -
  have "(blkdemo_init, blkdemo_exit, []) \<in> set modules" and p: "(procfs_demo_init, procfs_demo_exit, [ProcInfo, ProcStats, ProcConfig]) \<in> set modules"
    by (simp_all add: modules_def)
  moreover have k: "list_all kernel_results [(\<lambda>r. if r = Gendisk then - ENOMEM else 0), (\<lambda>_. 0)]"
      "list_all kernel_results [(\<lambda>r. if r = ProcConfig then - ENOMEM else 0)]"
    by (simp_all add: kernel_results_def)
  ultimately show ?thesis
    using modules_leak_free [OF _ k(1), of blkdemo_init blkdemo_exit "[]"] modules_leak_free [OF p k(2)] by (simp add: procfs_demo_init_def)
qed

text \<open>
  The procfs module loads although one of its entries could not be created, and its exit function
  then removes an entry that does not exist; the load reports success in every case but one.
\<close>

theorem procfs_unbalanced:
  assumes "res ProcDir = 0" and "res ProcConfig < 0"
  shows "fst (procfs_demo_init res) = 0 \<and>
    run_trace [] (snd (procfs_demo_init res) @ procfs_demo_exit) = None"
  using assms by (simp add: procfs_demo_init_def procfs_demo_exit_def if_acquired_def)

theorem procfs_unbalanced_witness:
  "run_trace [] (snd (procfs_demo_init (\<lambda>r. if r = ProcConfig then - ENOMEM else 0)) @ procfs_demo_exit) = None"
  using procfs_unbalanced [of "\<lambda>r. if r = ProcConfig then - ENOMEM else 0"] by simp

text \<open>The same holds of the tasklet module, whose load can not fail: without its entry, unloading is not the reverse of loading.\<close>

lemma tasklet_unbalanced:
  "run_trace [] (snd (tasklet_demo_init res) @ tasklet_demo_exit) = (if res ProcTrigger = 0 then Some [] else None)"
  by (simp add: tasklet_demo_init_def tasklet_demo_exit_def if_acquired_def)

end
