(* ===== verification/OomLab.thy ===== *)
theory OomLab
  imports Bytes
begin

text \<open>
  oom_demo.c of SystemProgramming/Handson/lab14_oom. The files of /proc are texts; \<open>oom_score_adj\<close> keeps the number that is written if the process may set it. What \<open>fprintf\<close> prints goes
  to the buffer of the stream and reaches the file when it is closed. \<open>None\<close> is undefined behaviour.
\<close>

section \<open>Reading\<close>

definition read_value :: "int \<Rightarrow> string option \<Rightarrow> int option" where
  "read_value missing content = (case content of
       None \<Rightarrow> Some missing
     | Some t \<Rightarrow> (case scan_int t of None \<Rightarrow> Some missing | Some v \<Rightarrow> if fits_s32 v then Some v else None))"

definition read_oom_score :: "string option \<Rightarrow> int option" where "read_oom_score content = read_value (- 1) content"
definition read_oom_adj :: "string option \<Rightarrow> int option" where "read_oom_adj content = read_value (- 9999) content"

lemma read_value_fmt_d: "fits_s32 v \<Longrightarrow> read_value m (Some (fmt_d v @ NL)) = Some v"
  by (simp add: read_value_def scan_int_fmt_d NL_def is_digit_def)

section \<open>Scores\<close>

definition overcommit_modes :: "string list" where "overcommit_modes = [''heuristic'', ''always allow'', ''never (strict)'']"

text \<open>\<open>None\<close>: a negative mode is read in front of the array.\<close>

definition overcommit_line :: "string option \<Rightarrow> string list option" where
  "overcommit_line content = (case content of
       None \<Rightarrow> Some []
     | Some t \<Rightarrow> (case scan_int t of
           None \<Rightarrow> Some []
         | Some v \<Rightarrow> if v < 0 \<or> \<not> fits_s32 v then None
             else Some [''    overcommit_memory: '' @ fmt_d v @ '' ('' @ (if v \<le> 2 then overcommit_modes ! nat v else ''unknown'') @ '')'' @ NL]))"

definition ratio_line :: "string option \<Rightarrow> string list option" where
  "ratio_line content = (case content of
       None \<Rightarrow> Some []
     | Some t \<Rightarrow> (case scan_int t of
           None \<Rightarrow> Some []
         | Some v \<Rightarrow> if fits_s32 v then Some [''    overcommit_ratio:  '' @ fmt_d v @ ''%'' @ NL] else None))"

definition meminfo_lines :: "string option \<Rightarrow> string list" where
  "meminfo_lines content = (case content of None \<Rightarrow> [] | Some t \<Rightarrow> map ((@) ''    '') (take 8 (input_lines 256 t)))"

definition demo_show_scores :: "int \<Rightarrow> string option \<Rightarrow> string option \<Rightarrow> string option \<Rightarrow> string option \<Rightarrow> string option \<Rightarrow> string list option" where
  "demo_show_scores pid score adj memory ratio meminfo =
     Option.bind (read_oom_score score) (\<lambda>s. Option.bind (read_oom_adj adj) (\<lambda>a. Option.bind (overcommit_line memory) (\<lambda>ms. Option.bind (ratio_line ratio) (\<lambda>rs.
       Some ([''--- Demo 1: OOM Scores ---'' @ NL @ NL, ''  Current process (PID='' @ fmt_d pid @ ''):'' @ NL, ''    oom_score:     '' @ fmt_d s @ NL,
              ''    oom_score_adj: '' @ fmt_d a @ NL, NL @ ''  System overcommit settings:'' @ NL] @ ms @ rs @ [NL @ ''  Memory info:'' @ NL] @ meminfo_lines meminfo)))))"

lemma overcommit_strict: "overcommit_line (Some (fmt_d 2 @ NL)) = Some [''    overcommit_memory: '' @ fmt_d 2 @ '' (never (strict))'' @ NL]"
  using scan_int_fmt_d [of NL 2] by (simp add: overcommit_line_def overcommit_modes_def fits_s32_def NL_def is_digit_def)

text \<open>At most eight lines of the memory information are shown, and they are its beginning.\<close>

lemma meminfo_prefix: "length (meminfo_lines (Some t)) \<le> 8" "concat (input_lines 256 t) = t"
  by (simp_all add: meminfo_lines_def input_lines_concat)

section \<open>Adjusting\<close>

text \<open>The adjustment, the least value that the process may set, and whether it has the right to go below.\<close>

record oom =
  adj :: int
  adj_min :: int
  privileged :: bool

text \<open>The documented file: a value from -1000 to 1000, not below the least without the right, which moves it.\<close>

definition write_adj :: "string \<Rightarrow> oom \<Rightarrow> oom" where
  "write_adj t s = (case scan_int t of
       None \<Rightarrow> s
     | Some v \<Rightarrow> if v < - 1000 \<or> 1000 < v \<or> (v < adj_min s \<and> \<not> privileged s) then s
         else s\<lparr>adj := v, adj_min := (if privileged s then v else adj_min s)\<rparr>)"

text \<open>The file can be opened for writing, or not; the score of the kernel depends on the adjustment.\<close>

definition both_scores :: "(int \<Rightarrow> int) \<Rightarrow> oom \<Rightarrow> string" where
  "both_scores score s = ''oom_score='' @ fmt_d (score (adj s)) @ '', oom_score_adj='' @ fmt_d (adj s)"

definition demo_adjust_score :: "(int \<Rightarrow> string) \<Rightarrow> (int \<Rightarrow> int) \<Rightarrow> int \<Rightarrow> oom \<Rightarrow> string list \<times> oom" where
  "demo_adjust_score strerror score open_r s =
     (let t = [NL @ ''--- Demo 2: Adjusting OOM Score ---'' @ NL, ''  Before: '' @ both_scores score s @ NL]
      in if open_r < 0 then (t @ [''  Cannot adjust oom_score_adj: '' @ strerror (- open_r) @ NL], s)
         else let s1 = write_adj ''500'' s; s2 = write_adj ''0'' s1; s3 = write_adj ''-1000'' s2; s4 = write_adj ''0'' s3
              in (t @ [''  Set oom_score_adj to 500 (more likely to be killed)'' @ NL, ''  After: '' @ both_scores score s1 @ NL,
                       ''  Set oom_score_adj to -1000 (OOM-immune)'' @ DASH @ ''needs root'' @ NL], s4))"

lemma scan_values: "scan_int ''500'' = Some 500" "scan_int ''0'' = Some 0" "scan_int ''-1000'' = Some (- 1000)"
  by code_simp+

lemma demo_adjust_ends:
  assumes "0 \<le> open_r" and "adj_min s \<le> 0"
  shows "adj (snd (demo_adjust_score strerror score open_r s)) = 0"
  using assms by (simp add: demo_adjust_score_def write_adj_def scan_values Let_def)

text \<open>Without the rights the second setting is refused when the stream is closed, but the program says that it was made: it looks at what it has put into the buffer.\<close>

lemma immunity_claimed:
  assumes "\<not> privileged s" and "adj_min s = 0"
  shows "''  Set oom_score_adj to -1000 (OOM-immune)'' @ DASH @ ''needs root'' @ NL \<in> set (fst (demo_adjust_score strerror score 3 s))"
    and "adj (write_adj ''-1000'' (write_adj ''0'' (write_adj ''500'' s))) = 0"
  using assms by (simp_all add: demo_adjust_score_def write_adj_def scan_values Let_def)

text \<open>What is called a reset sets 0: an adjustment that the process had is lost.\<close>

lemma adjustment_lost: "adj (snd (demo_adjust_score strerror score 3 \<lparr>adj = 300, adj_min = 0, privileged = False\<rparr>)) = 0"
  by (rule demo_adjust_ends) simp_all

section \<open>Kills and the eater\<close>

text \<open>The output of the command, or none if it cannot be started.\<close>

definition demo_check_oom_kills :: "string option \<Rightarrow> string list" where
  "demo_check_oom_kills output = (NL @ ''--- Demo 3: Recent OOM Events ---'' @ NL) # (case output of
       None \<Rightarrow> []
     | Some t \<Rightarrow> (let ls = input_lines 512 t in map ((@) ''  '') ls @ (if ls = [] then [''  No recent OOM kills found in dmesg.'' @ NL] else [])))"

text \<open>The chunks that are allocated before the first failure, and the score after each.\<close>

definition CHUNK_MB :: nat where "CHUNK_MB = 10"

fun eat_loop :: "(nat \<Rightarrow> int) \<Rightarrow> nat \<Rightarrow> nat \<Rightarrow> string list" where
  "eat_loop score count 0 = [''  malloc failed after '' @ fmt_u (int (count * CHUNK_MB)) @ '' MB!'' @ NL]"
| "eat_loop score count (Suc n) =
     (if (count + 1) mod 10 = 0 then [''  Allocated: '' @ pad_left 4 (fmt_u (int ((count + 1) * CHUNK_MB))) @ '' MB  (oom_score='' @ fmt_d (score (count + 1)) @ '')'' @ NL] else []) @
     eat_loop score (count + 1) n"

definition demo_eat_memory :: "(nat \<Rightarrow> int) \<Rightarrow> nat \<Rightarrow> string list" where
  "demo_eat_memory score chunks = [NL @ ''--- Demo 4: Memory Eater (VM only!) ---'' @ NL, ''  Allocating memory in 10MB chunks...'' @ NL, ''  Press Ctrl+C to stop.'' @ NL @ NL] @ eat_loop score 0 chunks"

lemma eat_loop_last: "last (eat_loop score count n) = ''  malloc failed after '' @ fmt_u (int ((count + n) * CHUNK_MB)) @ '' MB!'' @ NL"
proof (induction n arbitrary: count)
  case (Suc n)
  have "eat_loop score c k \<noteq> []" for c k by (induction score c k rule: eat_loop.induct) simp_all
  then show ?case using Suc.IH [of "count + 1"] by simp
qed simp

lemma eat_loop_length: "length (eat_loop score count n) = 1 + (count + n) div 10 - count div 10"
proof (induction n arbitrary: count)
  case (Suc n)
  have "(count + 1) div 10 = count div 10 + (if (count + 1) mod 10 = 0 then 1 else 0)" by (simp add: div_Suc)
  moreover have "(count + 1) div 10 \<le> (count + 1 + n) div 10" by (rule div_le_mono) simp
  ultimately show ?case using Suc.IH [of "count + 1"] by simp
qed simp

text \<open>\<open>main\<close>.\<close>

definition oom_demo :: "string list \<Rightarrow> string list option \<Rightarrow> string list \<Rightarrow> string list \<Rightarrow> string list \<Rightarrow> string list option" where
  "oom_demo argv scores adjust kills eat = map_option (\<lambda>ss. [''=== OOM Killer Demo ==='' @ NL @ NL] @ ss @ adjust @ kills @
     (if length argv > 1 \<and> argv ! 1 = ''--eat''
      then [NL @ ''  '' @ [CHR 0xE2, CHR 0x9A, CHR 0xA0] @ '' WARNING: This will consume all available memory!'' @ NL, ''  Only run this in a VM or container.'' @ NL, ''  Starting in 3 seconds...'' @ NL] @ eat
      else [NL @ ''  To test OOM killer, run: '' @ hd argv @ '' --eat (IN A VM ONLY!)'' @ NL]) @ [NL @ ''=== Demo Complete ==='' @ NL]) scores"

end
