(* ===== verification/Ping.thy ===== *)
theory Ping
  imports Packets
begin

text \<open>
  NetworkProgramming/Handson/lab04_raw_sockets/ping_demo.c: the Internet checksum, the echo request and
  the matching of replies. The sum is taken over little-endian 16-bit words in 32 bits, as on the
  hosts the labs run on. Round-trip times are left out: they are floating-point values that the
  program only prints.
\<close>

section \<open>The checksum\<close>

fun sum_words :: "u8 list \<Rightarrow> int \<Rightarrow> int" where
  "sum_words (a # b # rest) acc = sum_words rest (cast_u32 (acc + (uint a + 256 * uint b)))"
| "sum_words [a] acc = cast_u32 (acc + uint a)"
| "sum_words [] acc = acc"

definition fold_sum :: "int \<Rightarrow> int" where
  "fold_sum s0 = (let s1 = cast_u32 (s0 div 65536 + s0 mod 65536); s2 = cast_u32 (s1 + s1 div 65536) in s2)"

definition compute_checksum :: "u8 list \<Rightarrow> int" where
  "compute_checksum data = (4294967295 - fold_sum (sum_words data 0)) mod 65536"

text \<open>The bytes of a 16-bit value in host order, as a store to a header field leaves them.\<close>

definition enc_le16 :: "int \<Rightarrow> u8 list" where
  "enc_le16 x = [word_of_int x, word_of_int (x div 256)]"

text \<open>The sum without wrap-around.\<close>

fun word_total :: "u8 list \<Rightarrow> int" where
  "word_total (a # b # rest) = (uint a + 256 * uint b) + word_total rest"
| "word_total [a] = uint a"
| "word_total [] = 0"

lemma uint_byte: "0 \<le> uint (a :: u8)" "uint (a :: u8) \<le> 255"
  using uint_lt2p [of a] by simp_all

lemma word_total_range: "0 \<le> word_total bs \<and> word_total bs \<le> 65535 * int ((length bs + 1) div 2)"
proof (induction bs rule: word_total.induct)
  case (1 a b rest)
  then show ?case using uint_byte [of a] uint_byte [of b] by simp
next
  case (2 a)
  then show ?case using uint_byte [of a] by simp
qed simp

lemma sum_words_total:
  "0 \<le> acc \<Longrightarrow> acc + word_total bs < 4294967296 \<Longrightarrow> sum_words bs acc = acc + word_total bs"
proof (induction bs acc rule: sum_words.induct)
  case (1 a b rest acc)
  have r: "0 \<le> word_total rest" using word_total_range by simp
  have "cast_u32 (acc + (uint a + 256 * uint b)) = acc + (uint a + 256 * uint b)"
    using 1(2,3) r uint_byte [of a] uint_byte [of b] by (intro cast_u32_id) simp_all
  with 1 uint_byte [of a] uint_byte [of b] show ?case by (simp add: add.assoc)
qed (use uint_byte in \<open>simp_all\<close>)

lemma word_total_append: "even (length xs) \<Longrightarrow> word_total (xs @ ys) = word_total xs + word_total ys"
  by (induction xs rule: word_total.induct) auto

lemma word_total_enc: "0 \<le> x \<Longrightarrow> x < 65536 \<Longrightarrow> word_total (enc_le16 x) = x"
  by (simp add: enc_le16_def uint_word8 int_div_less)

lemma fold_sum_cases:
  assumes "0 \<le> s" and "s < 4294967296"
  shows "fold_sum s mod 65536 mod 65535 = s mod 65535 \<and> (0 < s \<longrightarrow> 0 < fold_sum s mod 65536)"
proof -
  let ?a = "s div 65536" and ?b = "s mod 65536"
  have ab: "0 \<le> ?a" "?a < 65536" "0 \<le> ?b" "?b < 65536" "s = 65536 * ?a + ?b"
    using assms by (simp_all add: int_div_less)
  let ?s1 = "?a + ?b"
  have s1: "cast_u32 ?s1 = ?s1" using ab by simp
  have pos_split: "0 < s \<longrightarrow> 0 < ?s1"
  proof (rule impI, rule ccontr)
    assume "0 < s" "\<not> 0 < ?s1"
    then have "?a = 0" "?b = 0" using ab(1,3) by linarith+
    then show False using ab(5) \<open>0 < s\<close> by (simp only:)
  qed
  have c: "s mod 65535 = ?s1 mod 65535"
  proof -
    have "s = ?s1 + 65535 * ?a" using ab(5) by simp
    then show ?thesis by (metis mod_mult_self2)
  qed
  show ?thesis
  proof (cases "?s1 < 65536")
    case True
    then have "fold_sum s = ?s1" using ab(1-4) s1 by (simp add: fold_sum_def Let_def)
    moreover have "0 < s \<longrightarrow> 0 < ?s1" using pos_split by blast
    moreover have "?s1 mod 65536 = ?s1" using True ab(1,3) by (intro mod_pos_pos_trivial) simp_all
    ultimately show ?thesis using c by (simp only: simp_thms)
  next
    case False
    define x where "x = ?s1 - 65536"
    have x: "0 \<le> x" "x \<le> 65534" "?s1 = 65536 + x" using False ab(1-4) by (simp_all add: x_def)
    then have "?s1 div 65536 = 1" by simp
    then have "fold_sum s = 65537 + x" using s1 x by (simp add: fold_sum_def Let_def)
    moreover have "(65537 + x) mod 65536 = x + 1"
    proof -
      have "(65537 + x) mod 65536 = (x + 1) mod 65536"
        using mod_mult_self2 [of "x + 1" 65536 1] by (simp add: add.commute)
      then show ?thesis using x by simp
    qed
    moreover have "(65536 + x) mod 65535 = (x + 1) mod 65535"
      using mod_mult_self2 [of "x + 1" 65535 1] by (simp add: add.commute)
    ultimately have "fold_sum s mod 65536 = x + 1" "s mod 65535 = (x + 1) mod 65535"
      using c x(3) by (simp_all only:)
    then show ?thesis using x(1) by (simp only: simp_thms) linarith
  qed
qed

lemma fold_sum_full:
  assumes "0 < s" and "s < 4294967296" and "s mod 65535 = 0"
  shows "fold_sum s mod 65536 = 65535"
proof -
  let ?f = "fold_sum s mod 65536"
  have "?f mod 65535 = 0" "0 < ?f" "?f < 65536" using fold_sum_cases [of s] assms by simp_all
  then obtain k where k: "?f = 65535 * k" by (metis mod_eq_0_iff_dvd dvd_def)
  with \<open>0 < ?f\<close> \<open>?f < 65536\<close> have "0 < 65535 * k" "65535 * k < 65536" by metis+
  then have "k = 1" by linarith
  with k show ?thesis by simp
qed

lemma complement: "(4294967295 - f) mod 65536 = 65535 - f mod (65536 :: int)"
proof -
  have "4294967295 - f = (65535 - r) + 65536 * (65535 - q)" if "65536 * q + r = f" for q r :: int
    using that by simp
  from this [OF mult_div_mod_eq]
  have "4294967295 - f = (65535 - f mod 65536) + 65536 * (65535 - f div 65536)" .
  then have "(4294967295 - f) mod 65536 = (65535 - f mod 65536) mod 65536" by (simp only: mod_mult_self2)
  also have "\<dots> = 65535 - f mod 65536"
    using pos_mod_bound [of 65536 f] pos_mod_sign [of 65536 f] by (intro mod_pos_pos_trivial) linarith+
  finally show ?thesis .
qed

lemma checksum_range: "0 \<le> compute_checksum bs \<and> compute_checksum bs < 65536"
  by (simp add: compute_checksum_def)

text \<open>
  Storing the checksum of a message in its checksum field, zero before and at an even offset, makes the
  sum over the whole message come out as zero.
\<close>

lemma checksum_field:
  assumes "even (length pre)" and "even (length post)" and "length pre + length post \<le> 131000"
    and "c = compute_checksum (pre @ [0, 0] @ post)"
  shows "compute_checksum (pre @ enc_le16 c @ post) = 0"
proof -
  let ?z = "pre @ [0, 0] @ post" and ?m = "pre @ enc_le16 c @ post"
  define s where "s = word_total pre + word_total post"
  have c: "0 \<le> c" "c < 65536" using checksum_range assms(4) by simp_all
  have tz: "word_total ?z = s" using assms(1) by (simp add: word_total_append s_def)
  have "word_total ([enc_le16 c ! 0, enc_le16 c ! 1] @ post) = c + word_total post"
    using word_total_enc [OF c] by (simp add: enc_le16_def)
  then have tm: "word_total ?m = s + c" using assms(1) by (simp add: word_total_append s_def enc_le16_def)
  have "word_total pre \<le> 65535 * int ((length pre + 1) div 2)" "word_total post \<le> 65535 * int ((length post + 1) div 2)"
    "0 \<le> word_total pre" "0 \<le> word_total post"
    using word_total_range by blast+
  moreover have "int ((length pre + 1) div 2) + int ((length post + 1) div 2) \<le> 65500"
    using assms(1-3) by presburger
  ultimately have s: "0 \<le> s" "s + c < 4294967296" using c by (simp_all add: s_def)
  have fz: "sum_words ?z 0 = s" "sum_words ?m 0 = s + c"
    using sum_words_total [of 0 ?z] sum_words_total [of 0 ?m] tz tm s c by simp_all
  have cval: "c = 65535 - fold_sum s mod 65536"
    using assms(4) complement [of "fold_sum s"] by (simp only: compute_checksum_def fz)
  have "(s + c) mod 65535 = (s mod 65535 - fold_sum s mod 65536 mod 65535) mod 65535"
  proof -
    have "s + c = (s - fold_sum s mod 65536) + 65535 * 1" using cval by simp
    then have "(s + c) mod 65535 = (s - fold_sum s mod 65536) mod 65535" by (simp only: mod_mult_self2)
    then show ?thesis by (simp add: mod_diff_eq)
  qed
  then have "(s + c) mod 65535 = 0" using fold_sum_cases [of s] s c by simp
  moreover have "0 < s + c"
  proof (rule ccontr)
    assume "\<not> 0 < s + c"
    then have "s = 0" "c = 0" using s c by simp_all
    with cval show False by (simp add: fold_sum_def Let_def cast_u32_def)
  qed
  ultimately have "fold_sum (s + c) mod 65536 = 65535" using fold_sum_full s by simp
  then show ?thesis using complement [of "fold_sum (s + c)"] by (simp only: compute_checksum_def fz)
qed

section \<open>The echo request\<close>

text \<open>A 64-bit value in host order, for the two halves of a \<open>struct timeval\<close>.\<close>

definition enc_le64 :: "int \<Rightarrow> u8 list" where
  "enc_le64 x = map (\<lambda>k. word_of_int (x div 256 ^ k)) [0..<8]"

text \<open>
  The packet with a given checksum field: type, code, checksum, identifier, sequence number, the time
  of sending and 48 bytes of zero. \<open>htons\<close> truncates the sequence number to 16 bits.
\<close>

definition echo_packet :: "int \<Rightarrow> int \<Rightarrow> int \<times> int \<Rightarrow> u8 list \<Rightarrow> u8 list" where
  "echo_packet ident seqno tv ck =
     [word_of_int ICMP_ECHO, 0] @ ck @ enc_be16 ident @ enc_be16 seqno @ enc_le64 (fst tv) @ enc_le64 (snd tv) @ replicate 48 0"

definition echo_request :: "int \<Rightarrow> int \<Rightarrow> int \<times> int \<Rightarrow> u8 list" where
  "echo_request ident seqno tv =
     echo_packet ident seqno tv (enc_le16 (compute_checksum (echo_packet ident seqno tv [0, 0])))"

text \<open>
  What \<open>main\<close> does with a datagram: \<open>Some (Some line)\<close> if it counts as a reply, with the line printed up to
  the round-trip time, \<open>Some None\<close> if it does not, and \<open>None\<close> if a header is read beyond the bytes received.
\<close>

definition handle_reply :: "int \<Rightarrow> u8 list \<Rightarrow> int list \<Rightarrow> string option option" where
  "handle_reply ident recv_buf from_addr =
     do {
       ip \<leftarrow> ip_at recv_buf 0;
       let ip_hdr_len = nat (ip_ihl ip * 4);
       reply \<leftarrow> icmp_at recv_buf ip_hdr_len;
       Some (if icmp_type reply = ICMP_ECHOREPLY \<and> icmp_id reply = ident
             then Some (fmt_d (int (length recv_buf) - int ip_hdr_len) @ '' bytes from '' @ dotted from_addr @
                        '': icmp_seq='' @ fmt_d (icmp_sequence reply) @ '' ttl='' @ fmt_d (ip_ttl ip))
             else None)
     }"

text \<open>
  The loop of \<open>main\<close> over the requests. A round is what the system calls answer: sending fails, no
  datagram comes before the timeout, or one comes, with its sender. The list ends where
  \<open>running\<close> is cleared.
\<close>

datatype ping_round = Send_fails | Timeout | Datagram "u8 list" "int list"

record ping_stats =
  ping_sent :: nat
  ping_received :: nat

primrec ping_loop :: "ping_round list \<Rightarrow> int \<Rightarrow> int \<Rightarrow> int \<Rightarrow> ping_stats \<Rightarrow> (ping_stats \<times> string list) option" where
  "ping_loop [] ident seqno max_count st = Some (st, [])"
| "ping_loop (r # rs) ident seqno max_count st =
     (if seqno > max_count then Some (st, [])
      else case r of
        Send_fails \<Rightarrow> ping_loop rs ident (seqno + 1) max_count st
      | Timeout \<Rightarrow>
          map_option (\<lambda>(st', out). (st', (''Request timeout for icmp_seq '' @ fmt_d seqno) # out))
            (ping_loop rs ident (seqno + 1) max_count (st\<lparr>ping_sent := ping_sent st + 1\<rparr>))
      | Datagram buf addr \<Rightarrow>
          do {
            m \<leftarrow> handle_reply ident buf addr;
            let st1 = st\<lparr>ping_sent := ping_sent st + 1, ping_received := ping_received st + (case m of None \<Rightarrow> 0 | Some _ \<Rightarrow> 1)\<rparr>;
            (st', out) \<leftarrow> ping_loop rs ident (seqno + 1) max_count st1;
            Some (st', (case m of None \<Rightarrow> [] | Some line \<Rightarrow> [line]) @ out)
          })"

definition ping_summary :: "string \<Rightarrow> ping_stats \<Rightarrow> string" where
  "ping_summary target st =
     NL @ ''--- '' @ target @ '' ping statistics ---'' @ NL @
     dec (ping_sent st) @ '' packets transmitted, '' @ dec (ping_received st) @ '' received, ''"

lemma enc_le64_length [simp]: "length (enc_le64 x) = 8"
  by (simp add: enc_le64_def)

lemma enc_le16_length [simp]: "length (enc_le16 x) = 2"
  by (simp add: enc_le16_def)

lemma echo_request_checksum: "compute_checksum (echo_request ident seqno tv) = 0"
proof -
  let ?rest = "enc_be16 ident @ enc_be16 seqno @ enc_le64 (fst tv) @ enc_le64 (snd tv) @ replicate 48 0"
  have "compute_checksum ([word_of_int ICMP_ECHO, 0] @ enc_le16 (compute_checksum ([word_of_int ICMP_ECHO, 0] @ [0, 0] @ ?rest)) @ ?rest) = 0"
    by (rule checksum_field [OF _ _ _ refl]) simp_all
  then show ?thesis by (simp only: echo_request_def echo_packet_def)
qed

text \<open>
  The answer of a host to a request, as the raw socket delivers it: an IP header without options, then the
  request with the type of an echo reply and some checksum.
\<close>

definition echo_answer :: "u8 list \<Rightarrow> u8 list \<Rightarrow> u8 list \<Rightarrow> u8 list" where
  "echo_answer hdr ck req = hdr @ [word_of_int ICMP_ECHOREPLY, 0] @ ck @ drop 4 req"

fun answers :: "int \<Rightarrow> int \<Rightarrow> (u8 list \<times> u8 list \<times> (int \<times> int) \<times> int list) list \<Rightarrow> ping_round list" where
  "answers ident seqno [] = []"
| "answers ident seqno ((hdr, ck, tv, addr) # rest) =
     Datagram (echo_answer hdr ck (echo_request ident seqno tv)) addr # answers ident (seqno + 1) rest"

definition ip_header20 :: "u8 list \<Rightarrow> bool" where
  "ip_header20 hdr \<longleftrightarrow> length hdr = 20 \<and> hdr ! 0 = 0x45"

lemma handle_echo_answer:
  assumes "ip_header20 hdr" and "length ck = 2" and "0 \<le> ident" "ident < 65536" and "0 \<le> seqno" "seqno < 65536"
  shows "handle_reply ident (echo_answer hdr ck (echo_request ident seqno tv)) addr =
    Some (Some (''72 bytes from '' @ dotted addr @ '': icmp_seq='' @ fmt_d seqno @ '' ttl='' @ fmt_d (byte_at hdr 8)))"
proof -
  let ?rest = "enc_le64 (fst tv) @ enc_le64 (snd tv) @ replicate 48 0"
  let ?buf = "hdr @ [0, 0] @ ck @ enc_be16 ident @ enc_be16 seqno @ ?rest"
  have b: "echo_answer hdr ck (echo_request ident seqno tv) = ?buf"
    by (simp add: echo_answer_def echo_request_def echo_packet_def)
  have l: "length hdr = 20" "hdr ! 0 = 0x45" using assms(1) by (simp_all add: ip_header20_def)
  have ip: "\<exists>ip. ip_at ?buf 0 = Some ip \<and> ip_ihl ip = 5 \<and> ip_ttl ip = byte_at hdr 8"
    using l by (simp add: ip_at_def header_sizes byte_at_def nth_append)
  then obtain ip where ip: "ip_at ?buf 0 = Some ip" "ip_ihl ip = 5" "ip_ttl ip = byte_at hdr 8" by blast
  have "be16 ?buf 24 = ident mod 65536"
    using be16_enc [of "hdr @ [0, 0] @ ck" ident "enc_be16 seqno @ ?rest"] l assms(2) by simp
  moreover have "be16 ?buf 26 = seqno mod 65536"
    using be16_enc [of "hdr @ [0, 0] @ ck @ enc_be16 ident" seqno ?rest] l assms(2) by simp
  moreover have "byte_at ?buf 20 = 0" using l by (simp add: byte_at_def nth_append)
  ultimately have c: "\<exists>c. icmp_at ?buf 20 = Some c \<and> icmp_type c = 0 \<and> icmp_id c = ident \<and> icmp_sequence c = seqno"
    using l assms by (simp add: icmp_at_def header_sizes)
  then obtain c where c: "icmp_at ?buf 20 = Some c" "icmp_type c = 0" "icmp_id c = ident" "icmp_sequence c = seqno" by blast
  have n: "length ?buf = 92" using l assms(2) by simp
  have t: "fmt_d 72 = ''72''" by code_simp
  have "handle_reply ident buf addr = Some (Some (fmt_d 72 @ '' bytes from '' @ dotted addr @
      '': icmp_seq='' @ fmt_d seqno @ '' ttl='' @ fmt_d (byte_at hdr 8)))" if "buf = ?buf" for buf
    using ip c n unfolding that [symmetric] by (simp add: handle_reply_def)
  from this [OF refl] show ?thesis unfolding b t by simp
qed

lemma ping_loop_answers:
  assumes "list_all (\<lambda>(hdr, ck, _). ip_header20 hdr \<and> length ck = 2) xs" and "0 \<le> ident" "ident < 65536"
    and "0 \<le> seqno" and "seqno + int (length xs) \<le> 65536" and "seqno + int (length xs) \<le> max_count + 1"
  shows "\<exists>out. length out = length xs \<and>
    ping_loop (answers ident seqno xs) ident seqno max_count st =
      Some (st\<lparr>ping_sent := ping_sent st + length xs, ping_received := ping_received st + length xs\<rparr>, out)"
  using assms
proof (induction xs arbitrary: seqno st)
  case (Cons x xs)
  obtain hdr ck tv addr where x: "x = (hdr, ck, tv, addr)" by (metis prod_cases4)
  let ?st = "st\<lparr>ping_sent := ping_sent st + 1, ping_received := ping_received st + 1\<rparr>"
  have "\<exists>out. length out = length xs \<and> ping_loop (answers ident (seqno + 1) xs) ident (seqno + 1) max_count ?st =
    Some (?st\<lparr>ping_sent := ping_sent ?st + length xs, ping_received := ping_received ?st + length xs\<rparr>, out)"
    using Cons.prems by (intro Cons.IH) simp_all
  moreover have "ip_header20 hdr" "length ck = 2" "seqno < 65536" "\<not> seqno > max_count" using Cons.prems x by simp_all
  ultimately show ?case using handle_echo_answer [of hdr ck ident seqno tv addr] Cons.prems x by auto
qed simp

text \<open>
  Every request that goes out is a valid echo request: it is 72 bytes long and its checksum verifies,
  the receiver's sum over it being zero. When each request is answered by its echo, every one of the requests is
  counted as sent and as received, and a line is printed for each.
\<close>

theorem ping_answered:
  assumes "list_all (\<lambda>(hdr, ck, _). ip_header20 hdr \<and> length ck = 2) xs" and "0 \<le> ident" "ident < 65536"
    and "length xs < 65536"
  shows "length (echo_request ident seqno tv) = 72 \<and> compute_checksum (echo_request ident seqno tv) = 0 \<and>
    (\<exists>out. length out = length xs \<and>
       ping_loop (answers ident 1 xs) ident 1 (int (length xs)) \<lparr>ping_sent = 0, ping_received = 0\<rparr> =
         Some (\<lparr>ping_sent = length xs, ping_received = length xs\<rparr>, out))"
proof (intro conjI)
  show "length (echo_request ident seqno tv) = 72" by (simp add: echo_request_def echo_packet_def)
  show "compute_checksum (echo_request ident seqno tv) = 0" by (rule echo_request_checksum)
  show "\<exists>out. length out = length xs \<and>
       ping_loop (answers ident 1 xs) ident 1 (int (length xs)) \<lparr>ping_sent = 0, ping_received = 0\<rparr> =
         Some (\<lparr>ping_sent = length xs, ping_received = length xs\<rparr>, out)"
    using ping_loop_answers [OF assms(1-3), of 1 "int (length xs)" "\<lparr>ping_sent = 0, ping_received = 0\<rparr>"] assms(4) by simp
qed

theorem ping_answered_witness:
  "\<exists>out. ping_loop (answers 77 1 [(0x45 # replicate 19 0, [0, 0], (5, 6), [8, 8, 8, 8]), (0x45 # replicate 19 1, [2, 3], (6, 7), [8, 8, 8, 8])])
       77 1 2 \<lparr>ping_sent = 0, ping_received = 0\<rparr> = Some (\<lparr>ping_sent = 2, ping_received = 2\<rparr>, out)"
proof -
  define xs :: "(u8 list \<times> u8 list \<times> (int \<times> int) \<times> int list) list"
    where "xs = [(0x45 # replicate 19 0, [0, 0], (5, 6), [8, 8, 8, 8]), (0x45 # replicate 19 1, [2, 3], (6, 7), [8, 8, 8, 8])]"
  have "length xs = 2" "list_all (\<lambda>(hdr, ck, _). ip_header20 hdr \<and> length ck = 2) xs" by (simp_all add: xs_def ip_header20_def)
  with ping_answered [of xs 77 1 "(0, 0)"] have "\<exists>out. ping_loop (answers 77 1 xs) 77 1 2 \<lparr>ping_sent = 0, ping_received = 0\<rparr> =
    Some (\<lparr>ping_sent = 2, ping_received = 2\<rparr>, out)" by auto
  then show ?thesis unfolding xs_def .
qed

text \<open>
  The sequence number of a reply is not compared with that of the request: the late answer to one request is
  counted as the answer to another.
\<close>

lemma ping_late_answer:
  assumes "ip_header20 hdr" and "length ck = 2" and "0 \<le> ident" "ident < 65536"
  shows "\<exists>out. ping_loop [Timeout, Datagram (echo_answer hdr ck (echo_request ident 1 tv)) addr] ident 1 2
    \<lparr>ping_sent = 0, ping_received = 0\<rparr> = Some (\<lparr>ping_sent = 2, ping_received = 1\<rparr>, out)"
  using handle_echo_answer [OF assms, of 1 tv addr] by simp

end
