(* ===== verification/PipeLabs.thy ===== *)
theory PipeLabs
  imports Schedules
begin

text \<open>
  pipe_demo.c of SystemProgramming/Handson/lab09_ipc. Each function takes what the program does after it. A buffer that \<open>read\<close> fills is terminated at the index that it
  returned, which is undefined behaviour when that is negative or behind the end. The programs that are executed, \<open>uname\<close>, \<open>ls\<close> and \<open>wc\<close>, are parameters.
\<close>

section \<open>The program\<close>

definition PIPE_MSG :: string where "PIPE_MSG = ''Hello from parent via pipe!''"

definition demo_basic_pipe :: "(int \<Rightarrow> string) \<Rightarrow> prog \<Rightarrow> prog" where
  "demo_basic_pipe strerror k = say ''--- Demo 1: Basic Pipe ---''
     (Pipe (\<lambda>r rd wr.
        if r < 0 then perror strerror ''pipe'' (- r) k
        else Fork (\<lambda>pid.
          if pid = 0 then
            Close wr (Read rd 255 (\<lambda>n buf. terminated 256 n
              (say (''  [Child]  Received: '' @ in_quotes buf) (Close rd (Quit 0)))))
          else
            Close rd (Write wr PIPE_MSG (\<lambda>_.
              say (''  [Parent] Sent: '' @ in_quotes PIPE_MSG) (Close wr (Waitpid pid False (\<lambda>_ _. k))))))))"

definition PIPE_REPLY :: string where "PIPE_REPLY = ''ACK from child!''"

definition PIPE_REQUEST :: string where "PIPE_REQUEST = ''Request from parent''"

definition demo_bidirectional :: "prog \<Rightarrow> prog" where
  "demo_bidirectional k = say (NL @ ''--- Demo 2: Bidirectional Pipes ---'')
     (Pipe (\<lambda>_ p2c_rd p2c_wr. Pipe (\<lambda>_ c2p_rd c2p_wr. Fork (\<lambda>pid.
        if pid = 0 then
          Close p2c_wr (Close c2p_rd (Read p2c_rd 255 (\<lambda>n buf. terminated 256 n
            (say (''  [Child]  Got: '' @ in_quotes buf)
              (Write c2p_wr PIPE_REPLY (\<lambda>_. Close p2c_rd (Close c2p_wr (Quit 0))))))))
        else
          Close p2c_rd (Close c2p_wr (Write p2c_wr PIPE_REQUEST (\<lambda>_. Close p2c_wr
            (Read c2p_rd 255 (\<lambda>n reply. terminated 256 n
              (say (''  [Parent] Reply: '' @ in_quotes reply) (Close c2p_rd (Waitpid pid False (\<lambda>_ _. k)))))))))))))"

definition demo_dup2_redirect :: "prog \<Rightarrow> prog" where
  "demo_dup2_redirect k = say (NL @ ''--- Demo 3: dup2 Redirect ---'')
     (Pipe (\<lambda>_ rd wr. Fork (\<lambda>pid.
        if pid = 0 then Close rd (Dup2 wr 1 (Close wr (Exec [''uname'', ''-a''] (Quit 1))))
        else Close wr (Read rd 511 (\<lambda>n buf. terminated 512 n
          (Print (''  [Parent] Captured child stdout:'' @ NL @ ''  '' @ buf) (Close rd (Waitpid pid False (\<lambda>_ _. k)))))))))"

definition demo_nonblocking :: "prog \<Rightarrow> prog" where
  "demo_nonblocking k = say (NL @ ''--- Demo 4: Non-Blocking Pipe ---'')
     (Pipe (\<lambda>_ rd wr. Nonblock rd (Read rd 256 (\<lambda>n _.
        (if n = - EAGAIN then say (''  Non-blocking read: EAGAIN (no data yet)'' @ DASH @ ''correct!'') else (\<lambda>c. c))
          (Write wr ''data'' (\<lambda>_. Read rd 256 (\<lambda>n buf.
            (if n > 0 then (\<lambda>c. terminated 256 n (say (''  Non-blocking read: got '' @ in_quotes buf) c)) else (\<lambda>c. c))
              (Close rd (Close wr k)))))))))"

definition demo_pipe_pipeline :: "prog \<Rightarrow> prog" where
  "demo_pipe_pipeline k = say (NL @ ''--- Demo 5: Pipe Pipeline (ls | wc -l) ---'')
     (Pipe (\<lambda>_ rd wr. Fork (\<lambda>p1.
        if p1 = 0 then Close rd (Dup2 wr 1 (Close wr (Exec [''ls'', ''/usr/bin''] (Quit 1))))
        else Fork (\<lambda>p2.
          if p2 = 0 then Close wr (Dup2 rd 0 (Close rd (Exec [''wc'', ''-l''] (Quit 1))))
          else Close rd (Close wr (Waitpid p1 False (\<lambda>_ _. Waitpid p2 False (\<lambda>_ _. k))))))))"

definition pipe_demo :: "(int \<Rightarrow> string) \<Rightarrow> prog" where
  "pipe_demo strerror = say (''=== Pipe Communication Demo ==='' @ NL)
     (demo_basic_pipe strerror (demo_bidirectional (demo_dup2_redirect (demo_nonblocking (demo_pipe_pipeline
       (say (NL @ ''=== Demo Complete ==='') (Return 0)))))))"

section \<open>A configuration\<close>

text \<open>One for computing: a command that prints a line, one that prints two lines, and one that counts lines up to the end of its input.\<close>

definition count_lines :: prog where
  "count_lines = Read 0 100 (\<lambda>_ buf. Read 0 100 (\<lambda>n _.
     if n \<noteq> 0 then Return 1 else Write 1 (fmt_d (int (length (filter (\<lambda>x. x = CHR 0x0A) buf))) @ NL) (\<lambda>_. Return 0)))"

definition commands :: "string list \<Rightarrow> prog option" where
  "commands as = (if hd as = ''uname'' then Some (Write 1 (''Linux'' @ NL) (\<lambda>_. Return 0))
     else if hd as = ''ls'' then Some (Write 1 (''a'' @ NL @ ''b'' @ NL) (\<lambda>_. Return 0))
     else if hd as = ''wc'' then Some count_lines else None)"

definition terminal :: config where
  "terminal = \<lparr>images = commands, max_procs = 10, tty = True, first_pid = 2\<rparr>"

definition redirected :: config where "redirected = terminal\<lparr>tty := False\<rparr>"

section \<open>Every schedule\<close>






text \<open>When standard output is a file, what the child has printed is still in its buffer when \<open>_exit\<close> ends it.\<close>

lemma redirected_loses: "runs_to redirected 20 (demo_basic_pipe strerror (Return 0))
  [[''--- Demo 1: Basic Pipe ---'' @ NL, ''  [Parent] Sent: '' @ in_quotes PIPE_MSG @ NL], []]"
  by (rule runs_toI) code_simp

section \<open>The demonstrations\<close>


end
