(* ===== verification/PlatformDrivers.thy ===== *)
theory PlatformDrivers
  imports Bytes
begin

text \<open>
  Platform drivers of KernelProgramming/Handson that keep a small device state: lab28_pwm/pwm_driver.c,
  lab31_watchdog/wdt_demo.c, lab30_rtc/rtc_demo.c, lab33_iio/iio_demo.c and lab23_gpio/gpio_driver.c.
  The results of the resource calls of a probe are its arguments, \<open>Inl\<close> the error they return.
  Timers are the time at which they fire; \<open>kstrtoint\<close>, the clock and the random numbers are arguments.
\<close>

section \<open>pwm_driver\<close>

definition PERIOD_NS :: int where "PERIOD_NS = 1000000"

record pwm_demo_priv =
  duty_percent :: int
  direction :: int
  breathing :: bool
  breathe_armed :: bool
  pwm_set :: "(u64 \<times> u64) option"  \<comment> \<open>duty and period of the last \<open>pwm_config\<close>\<close>
  pwm_on :: bool

definition pwm_config :: "int \<Rightarrow> pwm_demo_priv \<Rightarrow> pwm_demo_priv" where
  "pwm_config percent p = p\<lparr>pwm_set := Some (word_of_int PERIOD_NS * word_of_int percent div 100, word_of_int PERIOD_NS)\<rparr>"

definition pwm_demo_probe :: "bool \<Rightarrow> int + unit \<Rightarrow> int \<Rightarrow> int \<times> pwm_demo_priv option" where
  "pwm_demo_probe alloc_ok pwm_get add_groups =
     (if \<not> alloc_ok then (- ENOMEM, None)
      else case pwm_get of
             Inl err \<Rightarrow> (err, None)
           | Inr _ \<Rightarrow>
               let p = (pwm_config 0 \<lparr>duty_percent = 0, direction = 0, breathing = False, breathe_armed = False,
                        pwm_set = None, pwm_on = False\<rparr>)\<lparr>pwm_on := True\<rparr>
               in if add_groups \<noteq> 0 then (add_groups, None) else (0, Some p))"

definition duty_show :: "pwm_demo_priv \<Rightarrow> string" where
  "duty_show p = fmt_d (duty_percent p) @ NL"

definition duty_store :: "(string \<Rightarrow> int + int) \<Rightarrow> string \<Rightarrow> int \<Rightarrow> pwm_demo_priv \<Rightarrow> int \<times> pwm_demo_priv" where
  "duty_store kstrtoint buf count p =
     (case kstrtoint buf of
        Inl _ \<Rightarrow> (- EINVAL, p)
      | Inr v \<Rightarrow>
          if v < 0 \<or> v > 100 then (- EINVAL, p)
          else (count, pwm_config v (p\<lparr>duty_percent := v\<rparr>)))"

definition breathe_store :: "(string \<Rightarrow> int + int) \<Rightarrow> string \<Rightarrow> int \<Rightarrow> pwm_demo_priv \<Rightarrow> int \<times> pwm_demo_priv" where
  "breathe_store kstrtoint buf count p =
     (case kstrtoint buf of
        Inl _ \<Rightarrow> (- EINVAL, p)
      | Inr v \<Rightarrow>
          (count,
           if v \<noteq> 0 \<and> \<not> breathing p
           then p\<lparr>breathing := True, direction := 1, duty_percent := 0, breathe_armed := True\<rparr>
           else if v = 0 \<and> breathing p then p\<lparr>breathing := False, breathe_armed := False\<rparr>
           else p))"

definition breathe_timer_fn :: "pwm_demo_priv \<Rightarrow> pwm_demo_priv" where
  "breathe_timer_fn p =
     (let p1 = p\<lparr>breathe_armed := False, duty_percent := duty_percent p + direction p * 2\<rparr>;
          p2 = (if duty_percent p1 \<ge> 100 then p1\<lparr>direction := -1\<rparr>
                else if duty_percent p1 \<le> 0 then p1\<lparr>direction := 1\<rparr> else p1);
          p3 = pwm_config (duty_percent p2) p2
      in if breathing p3 then p3\<lparr>breathe_armed := True\<rparr> else p3)"

definition pwm_demo_remove :: "pwm_demo_priv \<Rightarrow> int \<times> pwm_demo_priv" where
  "pwm_demo_remove p = (0, p\<lparr>breathe_armed := False, pwm_on := False\<rparr>)"

text \<open>The duty cycle after \<open>n\<close> ticks: up in steps of two to 100, then down, and so on.\<close>

definition triangle :: "nat \<Rightarrow> int" where
  "triangle n = (if n mod 100 \<le> 50 then 2 * int (n mod 100) else 200 - 2 * int (n mod 100))"

lemma mod_Suc_100: "Suc n mod 100 = (if n mod 100 = 99 then 0 else Suc (n mod 100))"
  using mod_Suc [of n 100] by (simp split: if_splits)

lemma tick_sets:
  "breathe_armed (breathe_timer_fn r) = breathing r \<and> breathing (breathe_timer_fn r) = breathing r \<and>
     pwm_set (breathe_timer_fn r) = pwm_set (pwm_config (duty_percent (breathe_timer_fn r)) r)"
  by (auto simp: breathe_timer_fn_def pwm_config_def Let_def)

lemma tick_state:
  "duty_percent (breathe_timer_fn r) = duty_percent r + direction r * 2"
  "direction (breathe_timer_fn r) =
     (if duty_percent r + direction r * 2 \<ge> 100 then -1
      else if duty_percent r + direction r * 2 \<le> 0 then 1 else direction r)"
  by (auto simp: breathe_timer_fn_def pwm_config_def Let_def)

lemma breathe_ticks:
  assumes "duty_percent p = 0" and "direction p = 1" and "breathing p"
  shows "let q = (breathe_timer_fn ^^ n) p in duty_percent q = triangle n \<and> breathing q \<and>
    direction q = (if n mod 100 < 50 then 1 else -1)"
proof (induction n)
  case 0
  then show ?case using assms by (simp add: triangle_def)
next
  case (Suc n)
  let ?q = "(breathe_timer_fn ^^ n) p"
  have q: "duty_percent ?q = triangle n" "breathing ?q" "direction ?q = (if n mod 100 < 50 then 1 else -1)"
    using Suc by (simp_all add: Let_def)
  have n: "n mod 100 < 100" by simp
  consider "n mod 100 < 49" | "n mod 100 = 49" | "50 \<le> n mod 100" "n mod 100 < 99" | "n mod 100 = 99"
    using n by linarith
  then show ?case
    by cases (simp_all add: tick_state tick_sets Let_def q triangle_def mod_Suc_100)
qed

lemma triangle_range: "0 \<le> triangle n \<and> triangle n \<le> 100"
  by (auto simp: triangle_def)

lemma pwm_config_in_range:
  assumes "0 \<le> v" and "v \<le> 100"
  shows "pwm_set (pwm_config v p) = Some (word_of_int (10000 * v), word_of_int 1000000)"
proof -
  have "uint (word_of_int (1000000 * v) :: u64) = (1000000 * v) mod 2 ^ 64"
    by (simp only: uint_word_of_int) simp
  also have "\<dots> = 1000000 * v" using assms by (intro mod_pos_pos_trivial) simp_all
  finally have "uint (word_of_int (1000000 * v) :: u64) = 1000000 * v" .
  then have "(word_of_int (1000000 * v) div 100 :: u64) = word_of_int (1000000 * v div 100)"
    by (simp only: word_div_def) simp
  moreover have "1000000 * v div 100 = 10000 * v" by simp
  moreover have "(word_of_int PERIOD_NS * word_of_int v :: u64) = word_of_int (1000000 * v)"
    by (simp add: PERIOD_NS_def)
  ultimately show ?thesis by (simp only: pwm_config_def) (simp add: PERIOD_NS_def)
qed

text \<open>
  Breathing: from the moment a non-zero value is written to \<open>breathe\<close>, and while nothing else is
  written, the duty cycle after \<open>n\<close> timer ticks is a triangle wave between 0 and 100 percent in steps
  of two, the hardware is set to that share of the period, and the timer stays armed.
\<close>

theorem breathing_wave:
  assumes "kst buf = Inr v" and "v \<noteq> 0" and "\<not> breathing p"
  shows "let q = (breathe_timer_fn ^^ Suc n) (snd (breathe_store kst buf count p)) in
    duty_percent q = triangle (Suc n) \<and> 0 \<le> duty_percent q \<and> duty_percent q \<le> 100 \<and>
    pwm_set q = Some (word_of_int (10000 * triangle (Suc n)), word_of_int 1000000) \<and> breathe_armed q"
proof -
  let ?p = "snd (breathe_store kst buf count p)" and ?q = "(breathe_timer_fn ^^ Suc n) (snd (breathe_store kst buf count p))"
  have p: "duty_percent ?p = 0" "direction ?p = 1" "breathing ?p" using assms by (simp_all add: breathe_store_def)
  have d: "duty_percent ?q = triangle (Suc n)" "breathing ?q"
    using breathe_ticks [OF p, of "Suc n"] by (simp_all only: Let_def)
  let ?r = "(breathe_timer_fn ^^ n) ?p"
  have r: "?q = breathe_timer_fn ?r" by simp
  have "breathe_armed ?q" using d(2) tick_sets [of ?r] unfolding r by simp
  moreover have "pwm_set ?q = Some (word_of_int (10000 * triangle (Suc n)), word_of_int 1000000)"
    using pwm_config_in_range [of "triangle (Suc n)" ?r] triangle_range [of "Suc n"] d(1) tick_sets [of ?r] unfolding r by simp
  ultimately show ?thesis using d(1) triangle_range [of "Suc n"] by (simp only: Let_def simp_thms)
qed

theorem breathing_wave_witness:
  "duty_percent ((breathe_timer_fn ^^ Suc 74) (snd (breathe_store (\<lambda>_. Inr 1) ''1'' 1
     (the (snd (pwm_demo_probe True (Inr ()) 0)))))) = 50"
proof -
  have "\<not> breathing (the (snd (pwm_demo_probe True (Inr ()) 0)))" by (simp add: pwm_demo_probe_def pwm_config_def)
  from breathing_wave [of "\<lambda>_. Inr 1" "''1''" 1, OF _ _ this, of 74 1] show ?thesis
    by (simp add: Let_def triangle_def del: funpow.simps)
qed

text \<open>
  A duty cycle written while the LED breathes is not reconciled with the direction: 100 written while
  it brightens makes the next tick ask for 102 percent of the period, and 0 written while it dims
  makes the next tick compute minus two percent, which wraps around.
\<close>

lemma breathe_overdrive:
  assumes "kst buf = Inr 100" and "direction p = 1"
  shows "duty_percent (breathe_timer_fn (snd (duty_store kst buf count p))) = 102 \<and>
    pwm_set (breathe_timer_fn (snd (duty_store kst buf count p))) = Some (1020000, 1000000)"
  using assms by (simp add: duty_store_def breathe_timer_fn_def pwm_config_def Let_def PERIOD_NS_def word_div_def uint_word_of_int)

lemma breathe_underflow:
  assumes "kst buf = Inr 0" and "direction p = -1"
  shows "duty_percent (breathe_timer_fn (snd (duty_store kst buf count p))) = -2 \<and>
    pwm_set (breathe_timer_fn (snd (duty_store kst buf count p))) = Some (184467440737075516, 1000000)"
  using assms by (simp add: duty_store_def breathe_timer_fn_def pwm_config_def Let_def PERIOD_NS_def word_div_def uint_word_of_int)

section \<open>wdt_demo\<close>

definition DEFAULT_TIMEOUT :: u32 where "DEFAULT_TIMEOUT = 10"

record wdt_demo_priv =
  wdd_timeout :: u32
  wdt_timer :: "nat option"
  wdt_running :: bool
  wdt_expiries :: nat

definition wdt_probe_state :: wdt_demo_priv where
  "wdt_probe_state = \<lparr>wdd_timeout = DEFAULT_TIMEOUT, wdt_timer = None, wdt_running = False, wdt_expiries = 0\<rparr>"

definition wdt_expired :: "wdt_demo_priv \<Rightarrow> wdt_demo_priv" where
  "wdt_expired p = p\<lparr>wdt_expiries := wdt_expiries p + 1\<rparr>"

definition wdt_arm :: "nat \<Rightarrow> nat \<Rightarrow> wdt_demo_priv \<Rightarrow> wdt_demo_priv" where
  "wdt_arm HZ now p = p\<lparr>wdt_timer := Some (now + unat (wdd_timeout p * word_of_nat HZ))\<rparr>"

definition wdt_demo_start :: "nat \<Rightarrow> nat \<Rightarrow> wdt_demo_priv \<Rightarrow> int \<times> wdt_demo_priv" where
  "wdt_demo_start HZ now p = (0, (wdt_arm HZ now p)\<lparr>wdt_running := True\<rparr>)"

definition wdt_demo_stop :: "wdt_demo_priv \<Rightarrow> int \<times> wdt_demo_priv" where
  "wdt_demo_stop p = (0, p\<lparr>wdt_timer := None, wdt_running := False\<rparr>)"

definition wdt_demo_ping :: "nat \<Rightarrow> nat \<Rightarrow> wdt_demo_priv \<Rightarrow> int \<times> wdt_demo_priv" where
  "wdt_demo_ping HZ now p = (0, wdt_arm HZ now p)"

definition wdt_demo_set_timeout :: "nat \<Rightarrow> nat \<Rightarrow> bool \<Rightarrow> u32 \<Rightarrow> wdt_demo_priv \<Rightarrow> int \<times> wdt_demo_priv" where
  "wdt_demo_set_timeout HZ now watchdog_active t p =
     (let p1 = p\<lparr>wdd_timeout := t\<rparr>
      in (0, if watchdog_active then snd (wdt_demo_ping HZ now p1) else p1))"

text \<open>
  Probing returns the result, the state and what \<open>platform_get_drvdata\<close> will give later: the code
  stores its state with \<open>watchdog_set_drvdata\<close> only, so the platform device has none.
\<close>

definition wdt_demo_probe :: "bool \<Rightarrow> int \<Rightarrow> int \<times> wdt_demo_priv option \<times> wdt_demo_priv option" where
  "wdt_demo_probe alloc_ok register =
     (if \<not> alloc_ok then (- ENOMEM, None, None)
      else if register \<noteq> 0 then (register, None, None)
      else (0, Some wdt_probe_state, None))"

text \<open>\<open>None\<close> is the use of a null pointer as the private data.\<close>

definition wdt_demo_remove :: "wdt_demo_priv option \<Rightarrow> (int \<times> wdt_demo_priv) option" where
  "wdt_demo_remove drvdata =
     (case drvdata of None \<Rightarrow> None | Some p \<Rightarrow> Some (0, p\<lparr>wdt_timer := None\<rparr>))"

text \<open>Time passes to \<open>t\<close>: a timer that is due fires. A user pings after each of the gaps.\<close>

definition wdt_advance :: "nat \<Rightarrow> wdt_demo_priv \<Rightarrow> wdt_demo_priv" where
  "wdt_advance t p =
     (case wdt_timer p of
        None \<Rightarrow> p
      | Some e \<Rightarrow> if e \<le> t then wdt_expired (p\<lparr>wdt_timer := None\<rparr>) else p)"

fun wdt_pings :: "nat \<Rightarrow> nat \<Rightarrow> nat list \<Rightarrow> wdt_demo_priv \<Rightarrow> nat \<times> wdt_demo_priv" where
  "wdt_pings HZ now [] p = (now, p)"
| "wdt_pings HZ now (gap # gaps) p =
     wdt_pings HZ (now + gap) gaps (snd (wdt_demo_ping HZ (now + gap) (wdt_advance (now + gap) p)))"

lemma wdt_pings_alive:
  assumes "n = unat (wdd_timeout p * word_of_nat HZ)"
  shows "wdt_timer p = Some (now + n) \<Longrightarrow> list_all (\<lambda>g. g < n) gaps \<Longrightarrow>
    wdt_pings HZ now gaps p = (now + sum_list gaps, p\<lparr>wdt_timer := Some (now + sum_list gaps + n)\<rparr>)"
  using assms
proof (induction gaps arbitrary: now p)
  case (Cons g gaps)
  let ?q = "p\<lparr>wdt_timer := Some (now + g + n)\<rparr>"
  have "wdt_advance (now + g) p = p" using Cons.prems by (simp add: wdt_advance_def)
  then have "snd (wdt_demo_ping HZ (now + g) (wdt_advance (now + g) p)) = ?q"
    using Cons.prems(3) by (simp add: wdt_demo_ping_def wdt_arm_def)
  with Cons.IH [of ?q "now + g"] Cons.prems show ?case by (simp add: add.assoc)
qed simp

text \<open>
  C18. The watchdog does its work: started with a timeout, it never expires as long as every ping comes
  less than the timeout after the one before, and when the pings stop it expires exactly once, as
  soon as the timeout has passed since the last ping and not before.
\<close>

theorem wdt_keepalive:
  assumes "unat (wdd_timeout p) * HZ < 4294967296" and "list_all (\<lambda>g. g < unat (wdd_timeout p) * HZ) gaps"
    and "wdt_pings HZ now gaps (snd (wdt_demo_start HZ now p)) = (t, q)"
  shows "wdt_expiries q = wdt_expiries p \<and>
    wdt_expiries (wdt_advance (t + d) q) = wdt_expiries p + (if unat (wdd_timeout p) * HZ \<le> d then 1 else 0) \<and>
    wdt_expiries (wdt_advance (t + d + d') (wdt_advance (t + d) q)) =
      wdt_expiries p + (if unat (wdd_timeout p) * HZ \<le> d + d' then 1 else 0)"
proof -
  let ?n = "unat (wdd_timeout p) * HZ" and ?s = "snd (wdt_demo_start HZ now p)"
  have n: "unat (wdd_timeout ?s * word_of_nat HZ) = ?n"
  proof -
    have "unat (wdd_timeout p * word_of_nat HZ) = (unat (wdd_timeout p) * (HZ mod 4294967296)) mod 4294967296"
      by (simp add: unat_word_ariths(2) unat_of_nat)
    also have "\<dots> = ?n" using assms(1) by (simp add: mod_mult_right_eq)
    finally show ?thesis by (simp add: wdt_demo_start_def wdt_arm_def)
  qed
  then have armed: "wdt_timer ?s = Some (now + ?n)" by (simp add: wdt_demo_start_def wdt_arm_def)
  have "(t, q) = (now + sum_list gaps, ?s\<lparr>wdt_timer := Some (now + sum_list gaps + ?n)\<rparr>)"
    using wdt_pings_alive [OF n [symmetric] armed assms(2)] assms(3) by simp
  then have q: "wdt_timer q = Some (t + ?n)" "wdt_expiries q = wdt_expiries p"
    by (simp_all add: wdt_demo_start_def wdt_arm_def)
  then show ?thesis by (simp add: wdt_advance_def wdt_expired_def)
qed

theorem wdt_keepalive_witness:
  "wdt_expiries (wdt_advance 6500 (snd (wdt_pings 250 1000 [2000, 1000] (snd (wdt_demo_start 250 1000 wdt_probe_state))))) = 1"
proof -
  have "list_all (\<lambda>g. g < unat (wdd_timeout wdt_probe_state) * 250) [2000, 1000]"
    "unat (wdd_timeout wdt_probe_state) * 250 < 4294967296"
    by (simp_all add: wdt_probe_state_def DEFAULT_TIMEOUT_def)
  moreover obtain q where q: "wdt_pings 250 1000 [2000, 1000] (snd (wdt_demo_start 250 1000 wdt_probe_state)) = (4000, q)"
    by simp
  ultimately have "wdt_expiries (wdt_advance (4000 + 2500) q) = wdt_expiries wdt_probe_state + 1"
    using wdt_keepalive [of wdt_probe_state 250 "[2000, 1000]" 1000 4000 q 2500 0]
    by (simp add: wdt_probe_state_def DEFAULT_TIMEOUT_def)
  with q show ?thesis by (simp add: wdt_probe_state_def)
qed

text \<open>Unloading the driver after a successful probe uses a null pointer.\<close>

lemma wdt_unload_traps: "wdt_demo_probe True 0 = (0, Some p, drvdata) \<Longrightarrow> wdt_demo_remove drvdata = None"
  by (auto simp: wdt_demo_probe_def wdt_demo_remove_def)

section \<open>rtc_demo\<close>

text \<open>The offset of the virtual clock; the calendar conversions of the RTC core are arguments.\<close>

definition rtc_demo_read_time :: "(int \<Rightarrow> 'tm) \<Rightarrow> int \<Rightarrow> int \<Rightarrow> int \<times> 'tm" where
  "rtc_demo_read_time time64_to_tm tv_sec offset_secs = (0, time64_to_tm (tv_sec + offset_secs))"

definition rtc_demo_set_time :: "('tm \<Rightarrow> int) \<Rightarrow> int \<Rightarrow> 'tm \<Rightarrow> int \<times> int" where
  "rtc_demo_set_time tm_to_time64 tv_sec tm = (0, tm_to_time64 tm - tv_sec)"

definition rtc_demo_probe :: "bool \<Rightarrow> int + unit \<Rightarrow> int \<times> int option" where
  "rtc_demo_probe alloc_ok register =
     (if \<not> alloc_ok then (- ENOMEM, None)
      else case register of Inl err \<Rightarrow> (err, None) | Inr _ \<Rightarrow> (0, Some 0))"

lemma rtc_set_read:
  assumes "\<And>t. tm_to_time64 (time64_to_tm t) = t"
  shows "tm_to_time64 (snd (rtc_demo_read_time time64_to_tm (now + d) (snd (rtc_demo_set_time tm_to_time64 now tm)))) =
    tm_to_time64 tm + d"
  using assms by (simp add: rtc_demo_read_time_def rtc_demo_set_time_def)

section \<open>iio_demo\<close>

datatype iio_type = IIO_TEMP | IIO_ACCEL
datatype iio_mod = NO_MOD | MOD_X | MOD_Y | MOD_Z
datatype iio_mask = INFO_RAW | INFO_SCALE | INFO_OFFSET | INFO_OTHER

record iio_demo_priv =
  temp_offset :: int
  sample_count :: int

definition iio_demo_channels :: "(iio_type \<times> iio_mod) list" where
  "iio_demo_channels = [(IIO_TEMP, NO_MOD), (IIO_ACCEL, MOD_X), (IIO_ACCEL, MOD_Y), (IIO_ACCEL, MOD_Z)]"

definition IIO_VAL_INT :: int where "IIO_VAL_INT = 1"
definition IIO_VAL_INT_PLUS_MICRO :: int where "IIO_VAL_INT_PLUS_MICRO = 2"

definition iio_demo_read_raw ::
  "u32 \<Rightarrow> iio_type \<times> iio_mod \<Rightarrow> iio_mask \<Rightarrow> iio_demo_priv \<Rightarrow> int \<times> int option \<times> int option \<times> iio_demo_priv" where
  "iio_demo_read_raw random chan what p =
     (let p1 = p\<lparr>sample_count := cast_s32 (sample_count p + 1)\<rparr> in
      case what of
        INFO_RAW \<Rightarrow>
          if fst chan = IIO_TEMP then (IIO_VAL_INT, Some (sint (2500 + random mod 100 - 50)), None, p1)
          else (let v = sint (random mod 2000) - 1000
                in (IIO_VAL_INT, Some (if snd chan = MOD_Z then v + 9800 else v), None, p1))
      | INFO_SCALE \<Rightarrow>
          (IIO_VAL_INT_PLUS_MICRO, Some 0, Some (if fst chan = IIO_TEMP then 10000 else 1000), p1)
      | INFO_OFFSET \<Rightarrow> (IIO_VAL_INT, Some (temp_offset p1), None, p1)
      | INFO_OTHER \<Rightarrow> (- EINVAL, None, None, p1))"

definition iio_demo_write_raw :: "iio_type \<times> iio_mod \<Rightarrow> int \<Rightarrow> iio_mask \<Rightarrow> iio_demo_priv \<Rightarrow> int \<times> iio_demo_priv" where
  "iio_demo_write_raw chan v what p =
     (if what = INFO_OFFSET \<and> fst chan = IIO_TEMP then (0, p\<lparr>temp_offset := v\<rparr>) else (- EINVAL, p))"

definition iio_demo_probe :: "bool \<Rightarrow> int \<Rightarrow> int \<times> iio_demo_priv option" where
  "iio_demo_probe alloc_ok register =
     (if \<not> alloc_ok then (- ENOMEM, None)
      else (register, if register = 0 then Some \<lparr>temp_offset = 0, sample_count = 0\<rparr> else None))"

lemma iio_offset_roundtrip:
  "iio_demo_write_raw (IIO_TEMP, NO_MOD) v INFO_OFFSET p = (0, q) \<Longrightarrow>
     fst (snd (iio_demo_read_raw r (IIO_TEMP, NO_MOD) INFO_OFFSET q)) = Some v"
  by (auto simp: iio_demo_write_raw_def iio_demo_read_raw_def Let_def)

section \<open>gpio_driver\<close>

record gpio_demo_priv =
  led_state :: bool
  led_line :: bool
  last_irq_time :: u64
  press_count :: u64

definition time_before :: "u64 \<Rightarrow> u64 \<Rightarrow> bool" where
  "time_before a b \<longleftrightarrow> cast_s64 (uint (a - b)) < 0"

definition button_isr :: "u64 \<Rightarrow> u64 \<Rightarrow> gpio_demo_priv \<Rightarrow> gpio_demo_priv" where
  "button_isr debounce now p =
     (if time_before now (last_irq_time p + debounce) then p
      else (let p1 = p\<lparr>last_irq_time := now, press_count := press_count p + 1, led_state := \<not> led_state p\<rparr>
            in p1\<lparr>led_line := led_state p1\<rparr>))"

definition blink_timer_fn :: "gpio_demo_priv \<Rightarrow> gpio_demo_priv" where
  "blink_timer_fn p = (let p1 = p\<lparr>led_state := \<not> led_state p\<rparr> in p1\<lparr>led_line := led_state p1\<rparr>)"

definition gpio_demo_probe ::
  "bool \<Rightarrow> int + unit \<Rightarrow> int + bool \<Rightarrow> int \<Rightarrow> int \<Rightarrow> int \<times> gpio_demo_priv option" where
  "gpio_demo_probe alloc_ok led button irq request =
     (let ok = (0, Some \<lparr>led_state = False, led_line = False, last_irq_time = 0, press_count = 0\<rparr>) in
      if \<not> alloc_ok then (- ENOMEM, None)
      else case led of
             Inl err \<Rightarrow> (err, None)
           | Inr _ \<Rightarrow>
               (case button of
                  Inl err \<Rightarrow> (err, None)
                | Inr False \<Rightarrow> ok
                | Inr True \<Rightarrow>
                    if irq < 0 then (irq, None)
                    else if request \<noteq> 0 then (request, None) else ok))"

definition gpio_demo_remove :: "gpio_demo_priv \<Rightarrow> int \<times> gpio_demo_priv" where
  "gpio_demo_remove p = (0, p\<lparr>led_line := False\<rparr>)"

text \<open>A bouncing contact: interrupts within the debounce time of an accepted press change nothing.\<close>

lemma button_bounce:
  assumes "d < debounce" and "debounce < 9223372036854775808" and "\<not> time_before now (last_irq_time p + debounce)"
  shows "button_isr debounce (now + d) (button_isr debounce now p) = button_isr debounce now p"
proof -
  have "last_irq_time (button_isr debounce now p) = now" using assms(3) by (simp add: button_isr_def Let_def)
  moreover have "time_before (now + d) (now + debounce)"
  proof -
    have r: "0 \<le> uint d" "uint d < uint debounce" "uint debounce < 9223372036854775808"
      using assms(1,2) by (simp_all add: word_less_def)
    have "uint (now + d - (now + debounce)) = (uint d - uint debounce) mod 18446744073709551616"
      by (simp add: uint_word_ariths)
    then have "cast_s64 (uint (now + d - (now + debounce))) = cast_s64 (uint d - uint debounce)"
      by (simp add: cast_s64_def mod_add_left_eq)
    also have "\<dots> = uint d - uint debounce" by (rule cast_s64_id; insert r; linarith)
    finally show ?thesis using r by (simp only: time_before_def)
  qed
  ultimately show ?thesis using assms(3) unfolding button_isr_def [of debounce "now + d"] by simp
qed

end
