(* ===== verification/PrivDrop.thy ===== *)
theory PrivDrop
  imports EchoServers
begin

text \<open>
  SystemProgramming/Handson/lab12_users_groups/priv_drop.c. The credentials of a process and the calls that change them are modelled as
  they are documented: a process whose effective user is root may set everything, another one may only move its effective ids to its
  real or saved ones. A call can also fail for a reason of its own, such as a lack of memory. The user database and the groups of
  a user, \<open>strerror\<close>, and what opening /etc/shadow delivers to whom are arguments. Headings and the explanations of the program for users
  other than root are left out of its output.
\<close>

section \<open>Credentials\<close>

record cred =
  ruid :: u32
  euid :: u32
  suid :: u32
  rgid :: u32
  egid :: u32
  sgid :: u32
  groups :: "u32 list"

record passwd =
  pw_uid :: u32
  pw_gid :: u32

datatype cred_call = Setuid u32 | Setgid u32 | Setgroups "u32 list"

text \<open>Whether the call is permitted, and the credentials after it.\<close>

definition make_call :: "cred_call \<Rightarrow> cred \<Rightarrow> bool \<times> cred" where
  "make_call call c = (case call of
     Setuid u \<Rightarrow>
       if euid c = 0 then (True, c\<lparr>ruid := u, euid := u, suid := u\<rparr>)
       else if u = ruid c \<or> u = suid c then (True, c\<lparr>euid := u\<rparr>) else (False, c)
   | Setgid g \<Rightarrow>
       if euid c = 0 then (True, c\<lparr>rgid := g, egid := g, sgid := g\<rparr>)
       else if g = rgid c \<or> g = sgid c then (True, c\<lparr>egid := g\<rparr>) else (False, c)
   | Setgroups gs \<Rightarrow> if euid c = 0 then (True, c\<lparr>groups := gs\<rparr>) else (False, c))"

text \<open>
  The calls of the program in turn; \<open>trouble\<close> says which of them fail for another reason. The error number is \<open>EPERM\<close> when a call is not permitted.
\<close>

definition try_call :: "(nat \<Rightarrow> int option) \<Rightarrow> nat \<Rightarrow> cred_call \<Rightarrow> cred \<Rightarrow> int option \<times> cred" where
  "try_call trouble k call c =
     (case trouble k of
        Some e \<Rightarrow> (Some e, c)
      | None \<Rightarrow> (case make_call call c of (True, c1) \<Rightarrow> (None, c1) | (False, c1) \<Rightarrow> (Some EPERM, c1)))"

section \<open>The program\<close>

definition print_ids :: "string \<Rightarrow> cred \<Rightarrow> string" where
  "print_ids label c =
     ''  ['' @ label @ ''] UID='' @ fmt_d (sint (ruid c)) @ '' EUID='' @ fmt_d (sint (euid c)) @
     '' GID='' @ fmt_d (sint (rgid c)) @ '' EGID='' @ fmt_d (sint (egid c)) @ NL"

text \<open>The result, what is written to standard output, and the credentials after it.\<close>

definition drop_privileges ::
  "(string \<Rightarrow> passwd option) \<Rightarrow> (string \<Rightarrow> u32 \<Rightarrow> u32 list) \<Rightarrow> (int \<Rightarrow> string) \<Rightarrow> (nat \<Rightarrow> int option) \<Rightarrow> string \<Rightarrow> cred \<Rightarrow>
   int \<times> string list \<times> cred" where
  "drop_privileges users group_list strerror trouble username c =
     (case users username of
        None \<Rightarrow> (-1, [], c)
      | Some pw \<Rightarrow>
          (let l0 = ''  Dropping to user '' @ [CHR 0x27] @ username @ [CHR 0x27] @ '' (UID='' @ fmt_d (sint (pw_uid pw)) @ '', GID='' @
                 fmt_d (sint (pw_gid pw)) @ '')'' @ NL;
               l1 = ''  [OK] Supplementary groups set'' @ NL;
               l2 = ''  [OK] GID set to '' @ fmt_d (sint (pw_gid pw)) @ NL;
               l3 = ''  [OK] UID set to '' @ fmt_d (sint (pw_uid pw)) @ NL
           in case try_call trouble 0 (Setgroups (group_list username (pw_gid pw))) c of
                (Some e, c1) \<Rightarrow> (-1, [l0], c1)
              | (None, c1) \<Rightarrow>
                  (case try_call trouble 1 (Setgid (pw_gid pw)) c1 of
                     (Some e, c2) \<Rightarrow> (-1, [l0, l1], c2)
                   | (None, c2) \<Rightarrow>
                       (case try_call trouble 2 (Setuid (pw_uid pw)) c2 of
                          (Some e, c3) \<Rightarrow> (-1, [l0, l1, l2], c3)
                        | (None, c3) \<Rightarrow>
                            (case try_call trouble 3 (Setuid 0) c3 of
                               (None, c4) \<Rightarrow> (-1, [l0, l1, l2, l3], c4)
                             | (Some e, c4) \<Rightarrow>
                                 (0, [l0, l1, l2, l3, ''  [OK] Cannot escalate back to root (errno='' @ fmt_d e @ '': '' @ strerror e @ '')'' @ NL],
                                  c4))))))"

text \<open>\<open>shadow\<close> is the text of the file, or the error of opening it, for a process with given credentials.\<close>

definition priv_main ::
  "(string \<Rightarrow> passwd option) \<Rightarrow> (string \<Rightarrow> u32 \<Rightarrow> u32 list) \<Rightarrow> (int \<Rightarrow> string) \<Rightarrow> (nat \<Rightarrow> int option) \<Rightarrow>
   (cred \<Rightarrow> int + string) \<Rightarrow> cred \<Rightarrow> int \<times> string list \<times> cred" where
  "priv_main users group_list strerror trouble shadow c =
     (if euid c \<noteq> 0 then (0, [print_ids ''START'' c, NL @ ''  Not running as root. Run with: sudo priv_drop'' @ NL], c)
      else
        (let l1 = (case shadow c of
                     Inl e \<Rightarrow> []
                   | Inr file \<Rightarrow> (case fgets 256 file of
                                  (line, rest) \<Rightarrow>
                                    if file = [] then []
                                    else [''  /etc/shadow first line: '' @ fmt_prec 40 line @ ''...'' @ NL]))
         in case drop_privileges users group_list strerror trouble ''nobody'' c of
              (r, out, c1) \<Rightarrow>
                if r < 0 then (1, print_ids ''START'' c # l1 @ out, c1)
                else (0, print_ids ''START'' c # l1 @ out @ [print_ids ''AFTER DROP'' c1,
                       (case shadow c1 of
                          Inr file \<Rightarrow> ''  [FAIL] Could still read /etc/shadow!'' @ NL
                        | Inl e \<Rightarrow> ''  [OK] Cannot read /etc/shadow: '' @ strerror e @ NL)], c1)))"

section \<open>Properties\<close>

definition dropped :: "u32 \<Rightarrow> u32 \<Rightarrow> u32 list \<Rightarrow> cred" where
  "dropped u g gs = \<lparr>ruid = u, euid = u, suid = u, rgid = g, egid = g, sgid = g, groups = gs\<rparr>"

text \<open>Credentials that are the same in all their places cannot be changed any more, except by root.\<close>

lemma dropped_stays: "u \<noteq> 0 \<Longrightarrow> snd (make_call call (dropped u g gs)) = dropped u g gs"
  by (auto simp: make_call_def dropped_def split: cred_call.split)

lemma dropped_stays_run: "u \<noteq> 0 \<Longrightarrow> fold (\<lambda>call c. snd (make_call call c)) calls (dropped u g gs) = dropped u g gs"
  by (induction calls) (simp_all add: dropped_stays)

lemma escalation_fails: "fst (try_call trouble k (Setuid 0) (dropped u g gs)) \<noteq> None \<Longrightarrow> trouble k = None \<Longrightarrow> u \<noteq> 0"
  by (auto simp: try_call_def make_call_def dropped_def)

lemma try_call_fails: "try_call trouble k call c = (Some e, c1) \<Longrightarrow> c1 = c"
  by (auto simp: try_call_def make_call_def split: option.splits cred_call.splits if_splits)

lemma try_setgroups_root:
  "euid c = 0 \<Longrightarrow> try_call trouble k (Setgroups gs) c = (None, c1) \<Longrightarrow> c1 = c\<lparr>groups := gs\<rparr>"
  "euid c = 0 \<Longrightarrow> try_call trouble k (Setgid g) c = (None, c1) \<Longrightarrow> c1 = c\<lparr>rgid := g, egid := g, sgid := g\<rparr>"
  "euid c = 0 \<Longrightarrow> try_call trouble k (Setuid u) c = (None, c1) \<Longrightarrow> c1 = c\<lparr>ruid := u, euid := u, suid := u\<rparr>"
  by (auto simp: try_call_def make_call_def split: option.splits)

lemma try_setgroups_permitted: "try_call trouble k (Setgroups gs) c = (None, c1) \<Longrightarrow> euid c = 0"
  by (auto simp: try_call_def make_call_def split: option.splits if_splits)

text \<open>
  C32. When \<open>drop_privileges\<close> reports success, and its last call was answered by the permission check, the process has the identity of the user
  and nothing else, in all its ids and groups, that identity is not root, and no sequence of further calls changes any of it. A
  root process succeeds for every user other than root unless a call fails for a reason of its own.
\<close>

theorem drop_privileges_final:
  assumes "trouble 3 = None"
  shows "(\<forall>out c1. drop_privileges users group_list strerror trouble username c = (0, out, c1) \<longrightarrow>
      (\<exists>pw. users username = Some pw \<and> pw_uid pw \<noteq> 0 \<and>
         c1 = dropped (pw_uid pw) (pw_gid pw) (group_list username (pw_gid pw)) \<and>
         (\<forall>calls. fold (\<lambda>call c. snd (make_call call c)) calls c1 = c1))) \<and>
    (euid c = 0 \<and> trouble 0 = None \<and> trouble 1 = None \<and> trouble 2 = None \<and> users username = Some pw0 \<and> pw_uid pw0 \<noteq> 0 \<longrightarrow>
      fst (drop_privileges users group_list strerror trouble username c) = 0)"
proof (intro conjI allI impI)
  fix out c1
  assume "drop_privileges users group_list strerror trouble username c = (0, out, c1)"
  then obtain pw ca cb cc e where
      pw: "users username = Some pw" and
      calls: "try_call trouble 0 (Setgroups (group_list username (pw_gid pw))) c = (None, ca)"
        "try_call trouble 1 (Setgid (pw_gid pw)) ca = (None, cb)" "try_call trouble 2 (Setuid (pw_uid pw)) cb = (None, cc)"
        "try_call trouble 3 (Setuid 0) cc = (Some e, c1)"
    by (auto simp: drop_privileges_def Let_def split: option.splits prod.splits)
  have "euid c = 0" using try_setgroups_permitted [OF calls(1)] .
  then have ca: "ca = c\<lparr>groups := group_list username (pw_gid pw)\<rparr>" using try_setgroups_root(1) calls(1) by blast
  then have cb: "cb = ca\<lparr>rgid := pw_gid pw, egid := pw_gid pw, sgid := pw_gid pw\<rparr>"
    using try_setgroups_root(2) [OF _ calls(2)] \<open>euid c = 0\<close> by simp
  then have cc: "cc = dropped (pw_uid pw) (pw_gid pw) (group_list username (pw_gid pw))"
    using try_setgroups_root(3) [OF _ calls(3)] \<open>euid c = 0\<close> ca by (simp add: dropped_def)
  have nonzero: "pw_uid pw \<noteq> 0" using escalation_fails [of trouble 3] calls(4) cc assms by (metis fst_conv option.distinct(1))
  have "c1 = cc" using try_call_fails [OF calls(4)] .
  then show "\<exists>pw. users username = Some pw \<and> pw_uid pw \<noteq> 0 \<and>
         c1 = dropped (pw_uid pw) (pw_gid pw) (group_list username (pw_gid pw)) \<and>
         (\<forall>calls. fold (\<lambda>call c. snd (make_call call c)) calls c1 = c1)"
    using pw nonzero cc dropped_stays_run [OF nonzero] by auto
next
  assume "euid c = 0 \<and> trouble 0 = None \<and> trouble 1 = None \<and> trouble 2 = None \<and> users username = Some pw0 \<and> pw_uid pw0 \<noteq> 0"
  then show "fst (drop_privileges users group_list strerror trouble username c) = 0"
    using assms by (simp add: drop_privileges_def try_call_def make_call_def Let_def)
qed

text \<open>A root process that becomes user 65534.\<close>

theorem drop_privileges_final_witness:
  "\<exists>out. drop_privileges (\<lambda>_. Some \<lparr>pw_uid = 65534, pw_gid = 65534\<rparr>) (\<lambda>_ g. [g]) (\<lambda>_. ''x'') (\<lambda>_. None) ''nobody'' (dropped 0 0 [0]) =
     (0, out, dropped 65534 65534 [65534])"
proof -
  let ?r = "drop_privileges (\<lambda>_. Some \<lparr>pw_uid = 65534, pw_gid = 65534\<rparr>) (\<lambda>_ g. [g]) (\<lambda>_. ''x'') (\<lambda>_. None) ''nobody'' (dropped 0 0 [0])"
  note final = drop_privileges_final [of "\<lambda>_. None" "\<lambda>_. Some \<lparr>pw_uid = 65534, pw_gid = 65534\<rparr>" "\<lambda>_ g. [g]" "\<lambda>_. ''x''" "''nobody''"
    "dropped 0 0 [0]" "\<lparr>pw_uid = 65534, pw_gid = 65534\<rparr>"]
  have "fst ?r = 0" using final by (simp add: dropped_def)
  then obtain out c1 where r: "?r = (0, out, c1)" by (metis prod.collapse)
  then have "c1 = dropped 65534 65534 [65534]" using final by simp
  with r show ?thesis by blast
qed

text \<open>For the user root the function restores nothing and reports a failure.\<close>

lemma drop_to_root_fails:
  "users username = Some pw \<Longrightarrow> pw_uid pw = 0 \<Longrightarrow> (\<forall>k. trouble k = None) \<Longrightarrow>
     fst (drop_privileges users group_list strerror trouble username c) = -1"
  by (auto simp: drop_privileges_def try_call_def make_call_def Let_def split: if_splits bool.splits prod.splits)

end
