(* ===== verification/ProcessLabs.thy ===== *)
theory ProcessLabs
  imports Schedules
begin

text \<open>
  process_lab.c and zombie_creator.c of SystemProgramming/Handson/lab07_process_management. A sleep is a turn; how long it lasts is not modelled, so that the theorems hold for any
  timing. Programs that are executed are parameters.
\<close>

section \<open>process\_lab\<close>

definition demo_basic_fork :: "(int \<Rightarrow> string) \<Rightarrow> prog \<Rightarrow> prog" where
  "demo_basic_fork strerror k = say ''--- Demo 1: Basic fork() ---''
     (Fork (\<lambda>pid.
        if pid < 0 then perror strerror ''fork'' (- pid) k
        else if pid = 0 then Getpid (\<lambda>me. Getppid (\<lambda>pp. say (''  [Child]  PID='' @ fmt_d me @ ''  PPID='' @ fmt_d pp) (Quit 42)))
        else Getpid (\<lambda>me. say (''  [Parent] PID='' @ fmt_d me @ ''  Child='' @ fmt_d pid)
          (Waitpid pid False (\<lambda>_ st.
             if WIFEXITED st then say (''  [Parent] Child exited with code '' @ fmt_d (WEXITSTATUS st)) k else k)))))"

definition demo_fork_exec :: "(int \<Rightarrow> string) \<Rightarrow> prog \<Rightarrow> prog" where
  "demo_fork_exec strerror k = say (NL @ ''--- Demo 2: fork() + exec() ---'')
     (Fork (\<lambda>pid.
        if pid = 0 then
          say (''  [Child]  About to exec '' @ in_quotes ''ls -la /tmp'' @ ''...'')
            (Exec [''ls'', ''-la'', ''/tmp''] (perror strerror ''execlp'' ENOENT (Quit 1)))
        else if pid > 0 then
          Waitpid pid False (\<lambda>_ st. say (''  [Parent] exec'' @ [CHR 0x27] @ ''d process exited with code '' @ fmt_d (WEXITSTATUS st)) k)
        else k))"

text \<open>\<open>n\<close> of the children are still to be made.\<close>

fun spawn_children :: "nat \<Rightarrow> nat \<Rightarrow> prog \<Rightarrow> prog" where
  "spawn_children i 0 k = k"
| "spawn_children i (Suc n) k =
     Fork (\<lambda>pid.
       if pid = 0 then
         Getpid (\<lambda>me. say (''  [Child '' @ fmt_d (int i) @ ''] PID='' @ fmt_d me @ '' starting work...'')
           (Sleep (Getpid (\<lambda>me. say (''  [Child '' @ fmt_d (int i) @ ''] PID='' @ fmt_d me @ '' done.'') (Quit (int i))))))
       else spawn_children (i + 1) n k)"

definition demo_multiple_children :: "nat \<Rightarrow> prog \<Rightarrow> prog" where
  "demo_multiple_children num_children k = say (NL @ ''--- Demo 3: Multiple Children ---'')
     (spawn_children 0 num_children
       (say (''  [Parent] Waiting for '' @ fmt_d (int num_children) @ '' children...'')
         (Loop (Waitpid (- 1) False (\<lambda>wpid st.
             if wpid > 0 then say (''  [Parent] Child PID='' @ fmt_d wpid @ '' exited with code '' @ fmt_d (WEXITSTATUS st)) Again else Break))
           k)))"

definition demo_process_chain :: "prog \<Rightarrow> prog" where
  "demo_process_chain k = say (NL @ ''--- Demo 4: Process Chain ---'')
     (Getpid (\<lambda>me. say (''  [Generation 0] PID='' @ fmt_d me)
       (Fork (\<lambda>p1.
          if p1 = 0 then
            Getpid (\<lambda>me. Getppid (\<lambda>pp. say (''  [Generation 1] PID='' @ fmt_d me @ ''  PPID='' @ fmt_d pp)
              (Fork (\<lambda>p2.
                 if p2 = 0 then Getpid (\<lambda>me. Getppid (\<lambda>pp. say (''  [Generation 2] PID='' @ fmt_d me @ ''  PPID='' @ fmt_d pp) (Quit 0)))
                 else Waitpid p2 False (\<lambda>_ _. Quit 0)))))
          else Waitpid p1 False (\<lambda>_ _. k)))))"

definition demo_environment :: "prog \<Rightarrow> prog" where
  "demo_environment k = say (NL @ ''--- Demo 5: Environment Variables ---'')
     (Setenv ''MY_CUSTOM_VAR'' ''HelloFromParent''
       (Fork (\<lambda>pid.
          if pid = 0 then
            Getenv ''MY_CUSTOM_VAR'' (\<lambda>val. say (''  [Child]  MY_CUSTOM_VAR = '' @ in_quotes (case val of Some v \<Rightarrow> v | None \<Rightarrow> ''(null)''))
              (Setenv ''MY_CUSTOM_VAR'' ''ModifiedByChild''
                (Getenv ''MY_CUSTOM_VAR'' (\<lambda>val. case val of None \<Rightarrow> Fault | Some v \<Rightarrow> say (''  [Child]  Modified to '' @ in_quotes v) (Quit 0)))))
          else
            Waitpid pid False (\<lambda>_ _. Getenv ''MY_CUSTOM_VAR'' (\<lambda>val. case val of None \<Rightarrow> Fault
              | Some v \<Rightarrow> say (''  [Parent] MY_CUSTOM_VAR = '' @ in_quotes v @ '' (unchanged)'') k)))))"

definition process_lab :: "(int \<Rightarrow> string) \<Rightarrow> prog" where
  "process_lab strerror = say (''=== Process Management Lab ==='' @ NL)
     (demo_basic_fork strerror (demo_fork_exec strerror (demo_multiple_children 4 (demo_process_chain (demo_environment
       (say (NL @ ''=== Lab Complete ==='') (Return 0)))))))"

section \<open>zombie\_creator\<close>

definition demo_zombie :: "prog \<Rightarrow> prog" where
  "demo_zombie k = say ''--- Demo 1: Zombie Process ---''
     (Fork (\<lambda>pid.
        if pid = 0 then Getpid (\<lambda>me. say (''  [Child]  PID='' @ fmt_d me @ '' exiting now...'') (Quit 0))
        else Getpid (\<lambda>me. say (''  [Parent] PID='' @ fmt_d me @ '', Child='' @ fmt_d pid)
          (say (''  [Parent] NOT calling wait()'' @ DASH @ ''child is now a zombie.'')
          (say (''  [Parent] Run: ps aux | grep '' @ fmt_d pid)
          (say (''  [Parent] You should see '' @ in_quotes ''<defunct>'' @ '' in the output.'')
          (say ''  [Parent] Sleeping 10 seconds to observe...''
          (Sleep (Waitpid pid False (\<lambda>_ st. say (''  [Parent] Reaped zombie. Exit code: '' @ fmt_d (WEXITSTATUS st)) k))))))))))"

definition demo_orphan :: "prog \<Rightarrow> prog" where
  "demo_orphan k = say (NL @ ''--- Demo 2: Orphan Process ---'')
     (Fork (\<lambda>pid.
        if pid = 0 then
          Getpid (\<lambda>me. Getppid (\<lambda>pp. say (''  [Child]  PID='' @ fmt_d me @ '', PPID='' @ fmt_d pp @ '' (before orphan)'')
            (Sleep (Getpid (\<lambda>me. Getppid (\<lambda>pp.
              say (''  [Child]  PID='' @ fmt_d me @ '', PPID='' @ fmt_d pp @ '' (after orphan'' @ DASH @ ''adopted by init)'') (Quit 0)))))))
        else Getpid (\<lambda>me. say (''  [Parent] PID='' @ fmt_d me @ '' exiting, leaving child '' @ fmt_d pid @ '' as orphan.'') (Sleep k))))"

definition sigchld_handler :: "int \<Rightarrow> prog" where
  "sigchld_handler sig = Loop (Waitpid (- 1) True (\<lambda>pid _. if pid > 0 then Again else Break)) handler_return"

fun spawn_exiting :: "nat \<Rightarrow> nat \<Rightarrow> prog \<Rightarrow> prog" where
  "spawn_exiting i 0 k = k"
| "spawn_exiting i (Suc n) k =
     Fork (\<lambda>pid.
       if pid = 0 then Getpid (\<lambda>me. say (''  [Child '' @ fmt_d (int i) @ ''] PID='' @ fmt_d me @ '' exiting...'') (Quit (int i)))
       else say (''  [Parent] Spawned child '' @ fmt_d (int i) @ '' (PID='' @ fmt_d pid @ '')'') (spawn_exiting (i + 1) n k))"

definition demo_no_zombie :: "nat \<Rightarrow> prog \<Rightarrow> prog" where
  "demo_no_zombie children k = say (NL @ ''--- Demo 3: Zombie Prevention with SIGCHLD ---'')
     (Sigaction SIGCHLD (Some sigchld_handler)
       (spawn_exiting 0 children
         (Sleep
           (say (''  [Parent] No zombies'' @ DASH @ ''all children reaped by SIGCHLD handler.'')
           (say ''  [Parent] Verify: ps aux | grep defunct | grep -v grep''
             (Sigaction SIGCHLD None k))))))"

definition zombie_creator :: "string list \<Rightarrow> prog" where
  "zombie_creator argv = say (''=== Zombie & Orphan Process Demo ==='' @ NL)
     (let done = say (NL @ ''=== Demo Complete ==='') (Return 0);
          choice = (if length argv > 1 \<and> argv ! 1 \<noteq> [] then [hd (argv ! 1)] else [])
      in if choice = ''1'' then demo_zombie done
         else if choice = ''2'' then demo_orphan done
         else if choice = ''3'' then demo_no_zombie 5 done
         else say (''Usage: '' @ hd argv @ '' <demo_number>'')
           (say (''  1'' @ DASH @ ''Zombie process demo (10 second wait)'') (say (''  2'' @ DASH @ ''Orphan process demo'')
             (say (''  3'' @ DASH @ ''Zombie prevention with SIGCHLD'') done))))"

section \<open>A configuration\<close>

definition list_tmp :: config where
  "list_tmp = \<lparr>images = (\<lambda>as. if as = [''ls'', ''-la'', ''/tmp''] then Some (Write 1 (''total 0'' @ NL) (\<lambda>_. Return 0)) else None),
     max_procs = 10, tty = True, first_pid = 2\<rparr>"

section \<open>Every schedule\<close>





definition all_reaped :: "kernel \<Rightarrow> bool" where
  "all_reaped k \<longleftrightarrow> map status (procs k) = Zombie 0 # replicate (length (procs k) - 1) Reaped"


lemma zombie_runs: "every_schedule list_tmp 20 (demo_zombie (Quit 0)) nothing_broken all_reaped"
  by (rule every_scheduleI) code_simp

lemma orphan_runs: "every_schedule list_tmp 20 (demo_orphan (Quit 0)) nothing_broken all_reaped"
  by (rule every_scheduleI) code_simp

text \<open>An orphan is told the number of its parent or of init, by the time at which it asks.\<close>

lemma orphan_may_be_early:
  "shown (here (procs (play list_tmp [0, 1, 1, 1, 1, 1] (boot list_tmp (demo_orphan (Quit 0)))) ! 1)) =
     [''  [Child]  PID=3, PPID=2 (before orphan)'' @ NL, ''  [Child]  PID=3, PPID=2 (after orphan'' @ DASH @ ''adopted by init)'' @ NL]"
  "shown (here (procs (play list_tmp [0, 1, 1, 0, 0, 0, 1, 1, 1] (boot list_tmp (demo_orphan (Quit 0)))) ! 1)) =
     [''  [Child]  PID=3, PPID=2 (before orphan)'' @ NL, ''  [Child]  PID=3, PPID=1 (after orphan'' @ DASH @ ''adopted by init)'' @ NL]"
  by code_simp+

text \<open>One signal may stand for two children; the loop of the handler reaps both.\<close>

lemma handler_reaps_both:
  "map status (procs (play list_tmp [0, 0, 0, 0, 0, 1, 1, 1, 2, 2, 2, 0, 0, 0, 0, 0, 0, 0, 0] (boot list_tmp (demo_no_zombie 2 (Quit 0))))) = [Running, Reaped, Reaped]"
  by code_simp

text \<open>The first signal ends the sleep: the parent goes on, says that there are no zombies and gives up the handler; a child that ends later stays a zombie.\<close>

lemma zombie_after_message:
  "let k = play list_tmp [0, 0, 0, 0, 0, 1, 1, 1, 0, 0, 0, 0, 0, 0, 0, 0, 0, 0, 0, 2, 2, 2] (boot list_tmp (demo_no_zombie 2 (Quit 0)))
   in map status (procs k) = [Running, Reaped, Zombie 256] \<and>
      ''  [Parent] No zombies'' @ DASH @ ''all children reaped by SIGCHLD handler.'' @ NL \<in> set (shown (here (procs k ! 0)))"
  by code_simp

lemma one_child_no_zombie: "every_schedule list_tmp 30 (demo_no_zombie 1 (Quit 0)) nothing_broken all_reaped"
  by (rule every_scheduleI) code_simp

section \<open>The lab\<close>


end
