(* ===== verification/Queues.thy ===== *)
theory Queues
  imports CPrelude
begin

text \<open>
  The queue contract shared by the circular buffer of the producer-consumer program, the linked task
  queue of the thread pool and kernel FIFOs: entering appends at the back where it is allowed,
  leaving takes from the front. The client lemma says that any sequence of operations delivers what
  was accepted, in order, and holds the rest.
\<close>

datatype 'a qop = Enter 'a | Leave

text \<open>
  A client that tries operations: an operation that is not possible is skipped. The result is the
  state with what was accepted and what was delivered.
\<close>

fun run_queue ::
  "('a \<Rightarrow> 's \<Rightarrow> bool) \<Rightarrow> ('s \<Rightarrow> bool) \<Rightarrow> ('a \<Rightarrow> 's \<Rightarrow> 's) \<Rightarrow> ('s \<Rightarrow> 'a \<times> 's) \<Rightarrow>
   'a qop list \<Rightarrow> 's \<Rightarrow> 's \<times> 'a list \<times> 'a list" where
  "run_queue can emp enq deq [] s = (s, [], [])"
| "run_queue can emp enq deq (Enter x # ops) s =
     (if can x s
      then (case run_queue can emp enq deq ops (enq x s) of (t, ins, outs) \<Rightarrow> (t, x # ins, outs))
      else run_queue can emp enq deq ops s)"
| "run_queue can emp enq deq (Leave # ops) s =
     (if emp s then run_queue can emp enq deq ops s
      else (case deq s of (x, s') \<Rightarrow>
              (case run_queue can emp enq deq ops s' of (t, ins, outs) \<Rightarrow> (t, ins, x # outs))))"

locale fifo_queue =
  fixes good :: "'s \<Rightarrow> bool"
    and contents :: "'s \<Rightarrow> 'a list"
    and can :: "'a \<Rightarrow> 's \<Rightarrow> bool"
    and emp :: "'s \<Rightarrow> bool"
    and enq :: "'a \<Rightarrow> 's \<Rightarrow> 's"
    and deq :: "'s \<Rightarrow> 'a \<times> 's"
  assumes enq_law: "good s \<Longrightarrow> can x s \<Longrightarrow> good (enq x s) \<and> contents (enq x s) = contents s @ [x]"
    and deq_law: "good s \<Longrightarrow> \<not> emp s \<Longrightarrow>
      good (snd (deq s)) \<and> contents s = fst (deq s) # contents (snd (deq s))"
    and emp_law: "good s \<Longrightarrow> emp s \<longleftrightarrow> contents s = []"
begin

lemma run_fifo:
  "good s \<Longrightarrow> run_queue can emp enq deq ops s = (t, ins, outs) \<Longrightarrow>
     good t \<and> contents s @ ins = outs @ contents t"
proof (induction ops arbitrary: s t ins outs)
  case (Cons op ops)
  show ?case
  proof (cases op)
    case (Enter x)
    with Cons show ?thesis
      using enq_law [of s x] by (auto split: if_splits prod.splits) fastforce+
  next
    case Leave
    with Cons show ?thesis
      using deq_law [of s] by (auto split: if_splits prod.splits)
  qed
qed simp

lemma nothing_lost:
  assumes "good s" and "contents s = []" and "run_queue can emp enq deq ops s = (t, ins, outs)" and "emp t"
  shows "ins = outs"
  using run_fifo [OF assms(1,3)] assms(2,4) emp_law [of t] by simp

end

text \<open>A queue of limited capacity, with a test for being full, and removal that says whether there was an element.\<close>

locale bounded_fifo = fifo_queue ok held "\<lambda>_ q. \<not> full q" emp put "\<lambda>q. the (get q)"
  for ok :: "'s \<Rightarrow> bool"
    and held :: "'s \<Rightarrow> 'a list"
    and full emp :: "'s \<Rightarrow> bool"
    and put :: "'a \<Rightarrow> 's \<Rightarrow> 's"
    and get :: "'s \<Rightarrow> ('a \<times> 's) option" +
  fixes cap :: nat
  assumes full_law: "ok q \<Longrightarrow> full q \<longleftrightarrow> length (held q) = cap"
    and cap_law: "ok q \<Longrightarrow> length (held q) \<le> cap"
    and get_law: "ok q \<Longrightarrow> get q = None \<longleftrightarrow> emp q"
begin

lemma get_first: "ok q \<Longrightarrow> held q = x # xs \<Longrightarrow> \<exists>q'. get q = Some (x, q') \<and> ok q' \<and> held q' = xs"
  using get_law [of q] emp_law [of q] deq_law [of q] by (cases "get q") auto

lemma put_last: "ok q \<Longrightarrow> length (held q) < cap \<Longrightarrow> ok (put x q) \<and> held (put x q) = held q @ [x]"
  using enq_law [of q x] full_law [of q] by simp

end

end
