(* ===== verification/ProdCons.thy ===== *)
theory ProdCons
  imports Queues
begin

text \<open>
  The bounded buffer of SystemProgramming/Handson/lab08_thread_management/producer_consumer.c with its
  two producers and two consumers. The buffer operations are functions; the threads are a step
  relation whose steps are the points at which the scheduler can switch: taking the mutex, testing
  the count and then going to sleep or accessing the buffer, signalling, and releasing the mutex. A
  thread that sleeps on a condition variable is woken by a signal (or spuriously, by a relation of
  its own), takes the mutex when it is free and tests again. The state also records what was produced
  and consumed, in order.
\<close>

section \<open>The circular buffer\<close>

definition BUFFER_SIZE :: nat where "BUFFER_SIZE = 8"
definition NUM_ITEMS :: nat where "NUM_ITEMS = 20"

record bounded_buffer =
  bb_buffer :: "int list"
  bb_head :: nat
  bb_tail :: nat
  bb_count :: nat

definition bb_init :: bounded_buffer where
  "bb_init = \<lparr>bb_buffer = replicate BUFFER_SIZE 0, bb_head = 0, bb_tail = 0, bb_count = 0\<rparr>"

definition bb_put :: "int \<Rightarrow> bounded_buffer \<Rightarrow> bounded_buffer" where
  "bb_put item b = b\<lparr>bb_buffer := (bb_buffer b)[bb_head b := item],
     bb_head := (bb_head b + 1) mod BUFFER_SIZE, bb_count := bb_count b + 1\<rparr>"

definition bb_get :: "bounded_buffer \<Rightarrow> int \<times> bounded_buffer" where
  "bb_get b = (bb_buffer b ! bb_tail b,
     b\<lparr>bb_tail := (bb_tail b + 1) mod BUFFER_SIZE, bb_count := bb_count b - 1\<rparr>)"

definition ring_ok :: "bounded_buffer \<Rightarrow> bool" where
  "ring_ok b \<longleftrightarrow> length (bb_buffer b) = BUFFER_SIZE \<and> bb_tail b < BUFFER_SIZE \<and>
     bb_count b \<le> BUFFER_SIZE \<and> bb_head b = (bb_tail b + bb_count b) mod BUFFER_SIZE"

definition ring_contents :: "bounded_buffer \<Rightarrow> int list" where
  "ring_contents b = map (\<lambda>i. bb_buffer b ! ((bb_tail b + i) mod BUFFER_SIZE)) [0..<bb_count b]"

lemma ring_slot_free:
  assumes "t < n" and "c < n" and "i < (c :: nat)"
  shows "(t + i) mod n \<noteq> (t + c) mod n"
proof
  assume "(t + i) mod n = (t + c) mod n"
  then have "(t + c - (t + i)) mod n = 0"
    by (metis assms(3) le_add_diff_inverse2 less_imp_le mod_eq_0_iff_dvd mod_eq_dvd_iff_nat nat_add_left_cancel_le)
  with assms show False by simp
qed

lemma ring_put:
  assumes "ring_ok b" and "bb_count b \<noteq> BUFFER_SIZE"
  shows "ring_ok (bb_put x b) \<and> ring_contents (bb_put x b) = ring_contents b @ [x]"
proof -
  have c: "bb_count b < BUFFER_SIZE" and pos: "0 < BUFFER_SIZE"
    using assms by (simp_all add: ring_ok_def BUFFER_SIZE_def)
  have old: "(bb_buffer b)[bb_head b := x] ! ((bb_tail b + i) mod BUFFER_SIZE) =
      bb_buffer b ! ((bb_tail b + i) mod BUFFER_SIZE)" if "i < bb_count b" for i
    using ring_slot_free [OF _ c that, of "bb_tail b"] assms(1) by (simp add: ring_ok_def)
  have new: "(bb_buffer b)[bb_head b := x] ! bb_head b = x"
    using assms(1) pos by (simp add: ring_ok_def)
  have "bb_head b = (bb_tail b + bb_count b) mod BUFFER_SIZE" using assms(1) by (simp add: ring_ok_def)
  with old new assms(1) c show ?thesis
    by (auto simp: ring_ok_def ring_contents_def bb_put_def mod_Suc_eq)
qed

lemma ring_get:
  assumes "ring_ok b" and "bb_count b \<noteq> 0"
  shows "ring_ok (snd (bb_get b)) \<and> ring_contents b = fst (bb_get b) # ring_contents (snd (bb_get b))"
proof -
  obtain k where k: "bb_count b = Suc k" using assms(2) by (cases "bb_count b") auto
  have "[0..<Suc k] = 0 # map Suc [0..<k]" by (simp only: map_Suc_upt upt_conv_Cons zero_less_Suc One_nat_def)
  moreover have "(Suc (bb_tail b) mod BUFFER_SIZE + i) mod BUFFER_SIZE = Suc (bb_tail b + i) mod BUFFER_SIZE" for i
    by (simp add: mod_add_left_eq)
  ultimately show ?thesis
    using assms(1) k by (simp add: ring_ok_def ring_contents_def bb_get_def BUFFER_SIZE_def o_def)
qed

text \<open>A consumer removes an item only if there is one.\<close>

definition ring_take :: "bounded_buffer \<Rightarrow> (int \<times> bounded_buffer) option" where
  "ring_take b = (if bb_count b = 0 then None else Some (bb_get b))"

lemma ring_empty: "ring_contents b = [] \<longleftrightarrow> bb_count b = 0"
  by (simp add: ring_contents_def)

interpretation ring: bounded_fifo ring_ok ring_contents "\<lambda>b. bb_count b = BUFFER_SIZE" "\<lambda>b. bb_count b = 0"
    bb_put ring_take BUFFER_SIZE
  by unfold_locales (auto simp: ring_put ring_get ring_take_def ring_empty, simp_all add: ring_ok_def ring_contents_def)

section \<open>The threads\<close>

text \<open>
  Where a thread is: before \<open>pthread_mutex_lock\<close>; in front of the \<open>while\<close> test, holding the mutex;
  asleep in \<open>pthread_cond_wait\<close>; woken and about to take the mutex again; in front of
  \<open>pthread_cond_signal\<close>; in front of \<open>pthread_mutex_unlock\<close>; finished. The argument is the loop
  variable \<open>i\<close> of a producer, the local \<open>consumed\<close> of a consumer before it is incremented.
\<close>

datatype phase = Locking nat | Testing nat | Sleeping nat | Woken nat | Signalling nat | Unlocking nat | Finished

datatype tid = Producer nat | Consumer nat

record world =
  buf :: bounded_buffer
  owner :: "tid option"
  phase_of :: "tid \<Rightarrow> phase"
  produced :: "int list"
  consumed :: "int list"

definition item_of :: "nat \<Rightarrow> nat \<Rightarrow> int" where
  "item_of p i = int p * 1000 + int i"

definition world_init :: world where
  "world_init = \<lparr>buf = bb_init, owner = None, phase_of = (\<lambda>_. Locking 0), produced = [], consumed = []\<rparr>"

text \<open>The two producers and the two consumers of \<open>main\<close>.\<close>

definition threads :: "tid list" where
  "threads = [Producer 0, Producer 1, Consumer 0, Consumer 1]"

definition set_phase :: "tid \<Rightarrow> phase \<Rightarrow> world \<Rightarrow> world" where
  "set_phase t ph w = w\<lparr>phase_of := (phase_of w)(t := ph)\<rparr>"

fun asleep :: "phase \<Rightarrow> bool" where
  "asleep (Sleeping n) = True"
| "asleep _ = False"

text \<open>The threads asleep on the condition variable that \<open>t\<close> signals: \<open>not_empty\<close> or \<open>not_full\<close>.\<close>

fun sleepers :: "tid \<Rightarrow> world \<Rightarrow> tid list" where
  "sleepers (Producer p) w = filter (\<lambda>u. asleep (phase_of w u)) [Consumer 0, Consumer 1]"
| "sleepers (Consumer k) w = filter (\<lambda>u. asleep (phase_of w u)) [Producer 0, Producer 1]"

inductive step :: "world \<Rightarrow> world \<Rightarrow> bool" where
  lock: "t \<in> set threads \<Longrightarrow> phase_of w t = Locking n \<or> phase_of w t = Woken n \<Longrightarrow> owner w = None \<Longrightarrow>
    step w ((set_phase t (Testing n) w)\<lparr>owner := Some t\<rparr>)"
| wait_full: "Producer p \<in> set threads \<Longrightarrow> phase_of w (Producer p) = Testing n \<Longrightarrow>
    bb_count (buf w) = BUFFER_SIZE \<Longrightarrow>
    step w ((set_phase (Producer p) (Sleeping n) w)\<lparr>owner := None\<rparr>)"
| produce: "Producer p \<in> set threads \<Longrightarrow> phase_of w (Producer p) = Testing n \<Longrightarrow>
    bb_count (buf w) \<noteq> BUFFER_SIZE \<Longrightarrow>
    step w ((set_phase (Producer p) (Signalling n) w)
      \<lparr>buf := bb_put (item_of p n) (buf w), produced := produced w @ [item_of p n]\<rparr>)"
| wait_empty: "Consumer k \<in> set threads \<Longrightarrow> phase_of w (Consumer k) = Testing n \<Longrightarrow>
    bb_count (buf w) = 0 \<Longrightarrow>
    step w ((set_phase (Consumer k) (Sleeping n) w)\<lparr>owner := None\<rparr>)"
| consume: "Consumer k \<in> set threads \<Longrightarrow> phase_of w (Consumer k) = Testing n \<Longrightarrow>
    bb_count (buf w) \<noteq> 0 \<Longrightarrow> bb_get (buf w) = (x, b) \<Longrightarrow>
    step w ((set_phase (Consumer k) (Signalling n) w)\<lparr>buf := b, consumed := consumed w @ [x]\<rparr>)"
| signal_none: "t \<in> set threads \<Longrightarrow> phase_of w t = Signalling n \<Longrightarrow> sleepers t w = [] \<Longrightarrow>
    step w (set_phase t (Unlocking n) w)"
| signal_one: "t \<in> set threads \<Longrightarrow> phase_of w t = Signalling n \<Longrightarrow> u \<in> set (sleepers t w) \<Longrightarrow>
    phase_of w u = Sleeping m \<Longrightarrow>
    step w (set_phase t (Unlocking n) (set_phase u (Woken m) w))"
| unlock: "t \<in> set threads \<Longrightarrow> phase_of w t = Unlocking n \<Longrightarrow>
    step w ((set_phase t (if n + 1 < NUM_ITEMS then Locking (n + 1) else Finished) w)\<lparr>owner := None\<rparr>)"

inductive spurious :: "world \<Rightarrow> world \<Rightarrow> bool" where
  wake: "t \<in> set threads \<Longrightarrow> phase_of w t = Sleeping n \<Longrightarrow> spurious w (set_phase t (Woken n) w)"

inductive_cases stepE: "step w w'"
inductive_cases spuriousE: "spurious w w'"

inductive reachable :: "world \<Rightarrow> bool" where
  start: "reachable world_init"
| later: "reachable w \<Longrightarrow> step w w' \<Longrightarrow> reachable w'"
| roused: "reachable w \<Longrightarrow> spurious w w' \<Longrightarrow> reachable w'"

section \<open>Invariants\<close>

text \<open>How many items a thread has put in or taken out.\<close>

fun moved :: "phase \<Rightarrow> nat" where
  "moved (Locking n) = n"
| "moved (Testing n) = n"
| "moved (Sleeping n) = n"
| "moved (Woken n) = n"
| "moved (Signalling n) = n + 1"
| "moved (Unlocking n) = n + 1"
| "moved Finished = NUM_ITEMS"

fun critical :: "phase \<Rightarrow> bool" where
  "critical (Testing n) = True"
| "critical (Signalling n) = True"
| "critical (Unlocking n) = True"
| "critical _ = False"

fun phase_ok :: "phase \<Rightarrow> bool" where
  "phase_ok Finished = True"
| "phase_ok (Signalling n) = (n < NUM_ITEMS)"
| "phase_ok (Unlocking n) = (n < NUM_ITEMS)"
| "phase_ok x = (moved x < NUM_ITEMS)"

definition items_of :: "nat \<Rightarrow> int list \<Rightarrow> int list" where
  "items_of p xs = filter (\<lambda>x. x div 1000 = int p) xs"

text \<open>The buffer holds what was produced and not yet consumed, in order.\<close>

definition data_inv :: "bounded_buffer \<Rightarrow> int list \<Rightarrow> int list \<Rightarrow> bool" where
  "data_inv b pr co \<longleftrightarrow> ring_ok b \<and> pr = co @ ring_contents b"

text \<open>The thread in a critical phase, if any, is the owner of the mutex.\<close>

definition mutex_inv :: "tid option \<Rightarrow> (tid \<Rightarrow> phase) \<Rightarrow> bool" where
  "mutex_inv ow ph \<longleftrightarrow> (\<forall>t. (critical (ph t) \<longleftrightarrow> ow = Some t) \<and> phase_ok (ph t))"

text \<open>Every producer has put in its items in order, and every item taken out was counted by a consumer.\<close>

definition moved_inv :: "(tid \<Rightarrow> nat) \<Rightarrow> int list \<Rightarrow> int list \<Rightarrow> bool" where
  "moved_inv m pr co \<longleftrightarrow>
     (\<forall>p \<in> {0, 1}. items_of p pr = map (item_of p) [0..<m (Producer p)]) \<and>
     length pr = m (Producer 0) + m (Producer 1) \<and> length co = m (Consumer 0) + m (Consumer 1)"

definition world_ok :: "world \<Rightarrow> bool" where
  "world_ok w \<longleftrightarrow> data_inv (buf w) (produced w) (consumed w) \<and> mutex_inv (owner w) (phase_of w) \<and>
     moved_inv (\<lambda>t. moved (phase_of w t)) (produced w) (consumed w)"

text \<open>
  No signal is missing: while a consumer sleeps, every item held is matched by a consumer that is
  going to test the count or by a producer about to signal; while a producer sleeps, so is every
  free slot.
\<close>

fun coming :: "phase \<Rightarrow> nat" where
  "coming (Testing n) = 1"
| "coming (Woken n) = 1"
| "coming _ = 0"

fun signals :: "phase \<Rightarrow> nat" where
  "signals (Signalling n) = 1"
| "signals _ = 0"

definition wake_inv :: "nat \<Rightarrow> (tid \<Rightarrow> phase) \<Rightarrow> bool" where
  "wake_inv c ph \<longleftrightarrow>
     (asleep (ph (Consumer 0)) \<or> asleep (ph (Consumer 1)) \<longrightarrow>
        c \<le> coming (ph (Consumer 0)) + coming (ph (Consumer 1)) + signals (ph (Producer 0)) + signals (ph (Producer 1))) \<and>
     (asleep (ph (Producer 0)) \<or> asleep (ph (Producer 1)) \<longrightarrow>
        BUFFER_SIZE \<le> c + coming (ph (Producer 0)) + coming (ph (Producer 1)) + signals (ph (Consumer 0)) + signals (ph (Consumer 1)))"

lemmas world_inv_defs = world_ok_def data_inv_def mutex_inv_def moved_inv_def

lemma world_ok_init: "world_ok world_init"
  by (simp add: world_inv_defs world_init_def bb_init_def ring_ok_def ring_contents_def BUFFER_SIZE_def
      items_of_def NUM_ITEMS_def)

lemma mutex_step:
  assumes "mutex_inv ow ph" and "ow = None \<or> ow = Some t" and "ow' = None \<or> ow' = Some t"
    and "critical x \<longleftrightarrow> ow' = Some t" and "phase_ok x"
  shows "mutex_inv ow' (ph(t := x))"
  using assms by (auto simp: mutex_inv_def)

lemma mutex_keep:
  "mutex_inv ow ph \<Longrightarrow> critical x = critical (ph t) \<Longrightarrow> phase_ok x \<Longrightarrow> mutex_inv ow (ph(t := x))"
  by (auto simp: mutex_inv_def)

lemma moved_same: "moved x = moved (ph t) \<Longrightarrow> (\<lambda>u. moved ((ph(t := x)) u)) = (\<lambda>u. moved (ph u))"
  by auto

text \<open>A step that moves no item: the thread changes its phase, the mutex changes hands accordingly.\<close>

lemma phase_step_ok:
  assumes "world_ok w" and "moved x = moved (phase_of w t)" and "phase_ok x"
    and "critical x \<longleftrightarrow> ow = Some t" and "owner w = None \<or> owner w = Some t" and "ow = None \<or> ow = Some t"
  shows "world_ok ((set_phase t x w)\<lparr>owner := ow\<rparr>)"
  using assms(1) mutex_step [OF _ assms(5,6,4,3)] moved_same [of x "phase_of w" t, OF assms(2)]
  by (simp add: world_ok_def set_phase_def del: fun_upd_apply)

lemma phase_keep_ok:
  assumes "world_ok w" and "moved x = moved (phase_of w t)" and "phase_ok x" and "critical x = critical (phase_of w t)"
  shows "world_ok (set_phase t x w)"
  using assms(1) mutex_keep [where ph = "phase_of w" and t = t, OF _ assms(4) assms(3)] moved_same [of x "phase_of w" t, OF assms(2)]
  by (simp add: world_ok_def set_phase_def del: fun_upd_apply)

lemma item_of_div: "n < NUM_ITEMS \<Longrightarrow> item_of p n div 1000 = int p"
  by (simp add: item_of_def NUM_ITEMS_def)

lemma items_of_append: "items_of p (xs @ ys) = items_of p xs @ items_of p ys"
  by (simp add: items_of_def)

lemma holder:
  "world_ok w \<Longrightarrow> critical (phase_of w t) \<Longrightarrow> owner w = Some t"
  "world_ok w \<Longrightarrow> phase_ok (phase_of w t)"
  by (auto simp: world_ok_def mutex_inv_def)

lemma produce_ok:
  assumes "world_ok w" and "p \<in> {0, 1}" and ph: "phase_of w (Producer p) = Testing n"
    and "bb_count (buf w) \<noteq> BUFFER_SIZE"
  shows "world_ok ((set_phase (Producer p) (Signalling n) w)
      \<lparr>buf := bb_put (item_of p n) (buf w), produced := produced w @ [item_of p n]\<rparr>)"
proof -
  let ?x = "item_of p n"
  have n: "n < NUM_ITEMS" and ow: "owner w = Some (Producer p)"
    using holder [OF assms(1), of "Producer p"] ph by simp_all
  have d: "data_inv (bb_put ?x (buf w)) (produced w @ [?x]) (consumed w)"
    using assms(1,4) ring.enq_law [of "buf w" ?x] by (simp add: world_ok_def data_inv_def)
  have m: "mutex_inv (owner w) ((phase_of w)(Producer p := Signalling n))"
    using assms(1) n ow by (simp add: mutex_keep world_ok_def ph del: fun_upd_apply)
  have "items_of q [?x] = (if q = p then [?x] else [])" for q
    using item_of_div [OF n, of p] by (simp add: items_of_def)
  then have v: "moved_inv (\<lambda>u. moved (((phase_of w)(Producer p := Signalling n)) u)) (produced w @ [?x]) (consumed w)"
    using assms(1,2) ph by (auto simp: world_ok_def moved_inv_def items_of_append)
  from d m v show ?thesis by (simp add: world_ok_def set_phase_def del: fun_upd_apply)
qed

lemma consume_ok:
  assumes "world_ok w" and "k \<in> {0, 1}" and ph: "phase_of w (Consumer k) = Testing n"
    and "bb_count (buf w) \<noteq> 0" and get: "bb_get (buf w) = (x, b)"
  shows "world_ok ((set_phase (Consumer k) (Signalling n) w)\<lparr>buf := b, consumed := consumed w @ [x]\<rparr>)"
proof -
  have n: "n < NUM_ITEMS" and ow: "owner w = Some (Consumer k)"
    using holder [OF assms(1), of "Consumer k"] ph by simp_all
  have d: "data_inv b (produced w) (consumed w @ [x])"
    using assms(1,4) ring.deq_law [of "buf w"] by (simp add: world_ok_def data_inv_def ring_take_def get)
  have m: "mutex_inv (owner w) ((phase_of w)(Consumer k := Signalling n))"
    using assms(1) n ow by (simp add: mutex_keep world_ok_def ph del: fun_upd_apply)
  have v: "moved_inv (\<lambda>u. moved (((phase_of w)(Consumer k := Signalling n)) u)) (produced w) (consumed w @ [x])"
    using assms(1,2) ph by (auto simp: world_ok_def moved_inv_def)
  from d m v show ?thesis by (simp add: world_ok_def set_phase_def del: fun_upd_apply)
qed

lemma threads_index: "Producer p \<in> set threads \<Longrightarrow> p \<in> {0, 1}" "Consumer p \<in> set threads \<Longrightarrow> p \<in> {0, 1}"
  by (auto simp: threads_def)

lemma sleepers_asleep: "u \<in> set (sleepers t w) \<Longrightarrow> asleep (phase_of w u)"
  by (induction t w rule: sleepers.induct) (simp_all split: if_splits, blast+)

lemma signal_ok:
  assumes ok: "world_ok w" and t: "phase_of w t = Signalling n" and u: "phase_of w u = Sleeping m"
  shows "world_ok (set_phase t (Unlocking n) (set_phase u (Woken m) w))"
proof -
  have ut: "u \<noteq> t" using t u by auto
  have "world_ok (set_phase u (Woken m) w)"
    using holder(2) [OF ok, of u] u by (intro phase_keep_ok ok) simp_all
  then show ?thesis
    using holder(2) [OF ok, of t] t ut by (rule_tac phase_keep_ok) (auto simp: set_phase_def)
qed

lemma step_ok: "step w w' \<Longrightarrow> world_ok w \<Longrightarrow> world_ok w'"
proof (induction rule: step.induct)
  case (lock t w n)
  then show ?case using holder(2) [of w t] by (intro phase_step_ok) auto
next
  case (wait_full p w n)
  then show ?case using holder [of w "Producer p"] by (intro phase_step_ok) simp_all
next
  case (produce p w n)
  then show ?case using produce_ok threads_index by simp
next
  case (wait_empty k w n)
  then show ?case using holder [of w "Consumer k"] by (intro phase_step_ok) simp_all
next
  case (consume k w n x b)
  then show ?case using consume_ok threads_index by simp
next
  case (signal_none t w n)
  then show ?case using holder(2) [of w t] by (intro phase_keep_ok) simp_all
next
  case (signal_one t w n u m)
  then show ?case by (intro signal_ok)
next
  case (unlock t w n)
  then show ?case using holder [of w t] by (intro phase_step_ok) (auto simp: NUM_ITEMS_def)
qed

lemma spurious_ok: "spurious w w' \<Longrightarrow> world_ok w \<Longrightarrow> world_ok w'"
proof (induction rule: spurious.induct)
  case (wake t w n)
  then show ?case using holder(2) [of w t] by (intro phase_keep_ok) simp_all
qed

lemma reachable_ok: "reachable w \<Longrightarrow> world_ok w"
  by (induction rule: reachable.induct) (auto intro: world_ok_init step_ok spurious_ok)

lemma wake_init: "wake_inv (bb_count (buf world_init)) (phase_of world_init)"
  by (simp add: wake_inv_def world_init_def)

lemma put_get_count:
  "bb_count (bb_put x b) = bb_count b + 1" "bb_get b = (x, b') \<Longrightarrow> bb_count b' = bb_count b - 1"
  by (auto simp: bb_put_def bb_get_def)

lemma thread_cases: "t \<in> set threads \<Longrightarrow> t = Producer 0 \<or> t = Producer 1 \<or> t = Consumer 0 \<or> t = Consumer 1"
  by (auto simp: threads_def)

lemma sleepers_thread:
  "u \<in> set (sleepers t w) \<Longrightarrow> (\<exists>p. t = Producer p) \<and> (u = Consumer 0 \<or> u = Consumer 1) \<or>
     (\<exists>k. t = Consumer k) \<and> (u = Producer 0 \<or> u = Producer 1)"
  by (induction t w rule: sleepers.induct) (auto split: if_splits)

lemma wake_step: "step w w' \<Longrightarrow> wake_inv (bb_count (buf w)) (phase_of w) \<Longrightarrow> wake_inv (bb_count (buf w')) (phase_of w')"
proof (induction rule: step.induct)
  case (lock t w n)
  from thread_cases [OF lock(1)] lock(2,4) show ?case
    by (elim disjE) (simp_all add: wake_inv_def set_phase_def, auto?)
next
  case (wait_full p w n)
  from thread_cases [OF wait_full(1)] wait_full(2-) show ?case
    by (elim disjE) (simp_all add: wake_inv_def set_phase_def, auto?)
next
  case (produce p w n)
  from thread_cases [OF produce(1)] produce(2-) show ?case
    by (elim disjE) (simp_all add: wake_inv_def set_phase_def put_get_count, auto?)
next
  case (wait_empty k w n)
  from thread_cases [OF wait_empty(1)] wait_empty(2-) show ?case
    by (elim disjE) (simp_all add: wake_inv_def set_phase_def, auto?)
next
  case (consume k w n x b)
  from thread_cases [OF consume(1)] consume(2,3,5) show ?case
    by (elim disjE) (simp_all add: wake_inv_def set_phase_def put_get_count(2) [OF consume(4)], auto?)
next
  case (signal_none t w n)
  from thread_cases [OF signal_none(1)] signal_none(2-) show ?case
    by (elim disjE) (simp_all add: wake_inv_def set_phase_def split: if_splits, auto?)
next
  case (signal_one t w n u m)
  from thread_cases [OF signal_one(1)] sleepers_thread [OF signal_one(3)] signal_one(2,4,5) show ?case
    by (elim disjE) (simp_all add: wake_inv_def set_phase_def, auto?)
next
  case (unlock t w n)
  from thread_cases [OF unlock(1)] unlock(2-) show ?case
    by (elim disjE) (simp_all add: wake_inv_def set_phase_def, auto?)
qed

lemma wake_spurious:
  "spurious w w' \<Longrightarrow> wake_inv (bb_count (buf w)) (phase_of w) \<Longrightarrow> wake_inv (bb_count (buf w')) (phase_of w')"
proof (induction rule: spurious.induct)
  case (wake t w n)
  from thread_cases [OF wake(1)] wake(2-) show ?case
    by (elim disjE) (simp_all add: wake_inv_def set_phase_def, auto?)
qed

lemma reachable_wake: "reachable w \<Longrightarrow> wake_inv (bb_count (buf w)) (phase_of w)"
  by (induction rule: reachable.induct) (auto intro: wake_init wake_step wake_spurious)

section \<open>Schedules\<close>

text \<open>One thread takes its next step, if it can; a signal wakes the first sleeper.\<close>

definition fire :: "tid \<Rightarrow> world \<Rightarrow> world option" where
  "fire t w =
     (if t \<notin> set threads then None
      else case phase_of w t of
        Locking n \<Rightarrow> if owner w = None then Some ((set_phase t (Testing n) w)\<lparr>owner := Some t\<rparr>) else None
      | Woken n \<Rightarrow> if owner w = None then Some ((set_phase t (Testing n) w)\<lparr>owner := Some t\<rparr>) else None
      | Testing n \<Rightarrow>
          (case t of
             Producer p \<Rightarrow>
               if bb_count (buf w) = BUFFER_SIZE then Some ((set_phase t (Sleeping n) w)\<lparr>owner := None\<rparr>)
               else Some ((set_phase t (Signalling n) w)
                 \<lparr>buf := bb_put (item_of p n) (buf w), produced := produced w @ [item_of p n]\<rparr>)
           | Consumer k \<Rightarrow>
               if bb_count (buf w) = 0 then Some ((set_phase t (Sleeping n) w)\<lparr>owner := None\<rparr>)
               else (case bb_get (buf w) of
                       (x, b) \<Rightarrow> Some ((set_phase t (Signalling n) w)\<lparr>buf := b, consumed := consumed w @ [x]\<rparr>)))
      | Signalling n \<Rightarrow>
          (case sleepers t w of
             [] \<Rightarrow> Some (set_phase t (Unlocking n) w)
           | u # _ \<Rightarrow> Some (set_phase t (Unlocking n) (set_phase u (Woken (moved (phase_of w u))) w)))
      | Unlocking n \<Rightarrow>
          Some ((set_phase t (if n + 1 < NUM_ITEMS then Locking (n + 1) else Finished) w)\<lparr>owner := None\<rparr>)
      | Sleeping n \<Rightarrow> None
      | Finished \<Rightarrow> None)"

lemma asleep_iff: "asleep x \<longleftrightarrow> x = Sleeping (moved x)"
  by (cases x) auto

lemma signal_first: "t \<in> set threads \<Longrightarrow> phase_of w t = Signalling n \<Longrightarrow> sleepers t w = u # us \<Longrightarrow>
    step w (set_phase t (Unlocking n) (set_phase u (Woken (moved (phase_of w u))) w))"
proof (rule signal_one)
  assume "sleepers t w = u # us"
  then show u: "u \<in> set (sleepers t w)" by simp
  then show "phase_of w u = Sleeping (moved (phase_of w u))"
    using sleepers_asleep asleep_iff by blast
qed

lemma unlock_more: "t \<in> set threads \<Longrightarrow> phase_of w t = Unlocking n \<Longrightarrow> Suc n < NUM_ITEMS \<Longrightarrow>
    step w ((set_phase t (Locking (Suc n)) w)\<lparr>owner := None\<rparr>)"
  using unlock [of t w n] by simp

lemma unlock_last: "t \<in> set threads \<Longrightarrow> phase_of w t = Unlocking n \<Longrightarrow> \<not> Suc n < NUM_ITEMS \<Longrightarrow>
    step w ((set_phase t Finished w)\<lparr>owner := None\<rparr>)"
  using unlock [of t w n] by simp

lemma fire_step: "fire t w = Some w' \<Longrightarrow> step w w'"
  unfolding fire_def
  by (cases "t \<in> set threads"; cases "phase_of w t"; cases t)
     (auto split: if_splits prod.splits list.splits simp del: sleepers.simps
       intro: step.intros signal_first unlock_more unlock_last)

fun schedule :: "tid list \<Rightarrow> world \<Rightarrow> world" where
  "schedule [] w = w"
| "schedule (t # ts) w = (case fire t w of None \<Rightarrow> w | Some w' \<Rightarrow> schedule ts w')"

lemma schedule_reachable: "reachable w \<Longrightarrow> reachable (schedule ts w)"
  by (induction ts arbitrary: w) (auto split: option.split dest: fire_step intro: later)

section \<open>Properties\<close>

text \<open>
  C12. In every reachable state nothing is lost, duplicated or reordered: what was produced is what was
  consumed followed by what the buffer holds; at most eight items are held; every producer's items
  are consumed in its order; and at most one thread is inside a critical section.
\<close>

theorem buffer_never_loses:
  assumes "reachable w" and "p \<in> {0, 1}"
  shows "produced w = consumed w @ ring_contents (buf w) \<and> bb_count (buf w) \<le> 8 \<and>
    (\<exists>n. items_of p (consumed w) = map (item_of p) [0..<n]) \<and>
    (\<forall>t u. critical (phase_of w t) \<and> critical (phase_of w u) \<longrightarrow> t = u)"
proof -
  note ok = reachable_ok [OF assms(1)]
  have d: "produced w = consumed w @ ring_contents (buf w)" "bb_count (buf w) \<le> 8"
    using ok by (simp_all add: world_ok_def data_inv_def ring_ok_def BUFFER_SIZE_def)
  let ?k = "length (items_of p (consumed w))" and ?n = "moved (phase_of w (Producer p))"
  have "items_of p (consumed w) @ items_of p (ring_contents (buf w)) = map (item_of p) [0..<?n]"
  proof -
    have "items_of p (produced w) = map (item_of p) [0..<?n]"
      using ok assms(2) by (auto simp: world_ok_def moved_inv_def)
    then show ?thesis by (simp only: d(1) items_of_append)
  qed
  then have "items_of p (consumed w) = take ?k (map (item_of p) [0..<?n])" "?k \<le> ?n"
    by (metis append_eq_conv_conj, metis le_add1 length_append length_map length_upt diff_zero)
  then have "items_of p (consumed w) = map (item_of p) [0..<?k]" by (simp add: take_map)
  moreover have "t = u" if "critical (phase_of w t)" "critical (phase_of w u)" for t u
    using holder(1) [OF ok that(1)] holder(1) [OF ok that(2)] by simp
  ultimately show ?thesis using d by blast
qed

text \<open>Producer 0 puts in two items, consumer 1 takes one out.\<close>

definition sample_world :: world where
  "sample_world = schedule (replicate 8 (Producer 0) @ replicate 3 (Consumer 1)) world_init"

theorem buffer_never_loses_witness:
  "produced sample_world = [0, 1] \<and> consumed sample_world = [0] \<and> ring_contents (buf sample_world) = [1]"
proof -
  have "reachable sample_world" unfolding sample_world_def by (intro schedule_reachable start)
  then have "produced sample_world = consumed sample_world @ ring_contents (buf sample_world)"
    using buffer_never_loses [of sample_world 0] by simp
  moreover have "consumed sample_world = [0]" "ring_contents (buf sample_world) = [1]" by code_simp+
  ultimately show ?thesis by simp
qed

text \<open>
  When all four threads have finished, every item of both producers was consumed exactly once, in
  the order of production, and the buffer is empty.
\<close>

theorem all_items_delivered:
  assumes "reachable w" and "list_all (\<lambda>t. phase_of w t = Finished) threads"
  shows "consumed w = produced w \<and> length (consumed w) = 40 \<and> bb_count (buf w) = 0 \<and>
    items_of 0 (consumed w) = map (item_of 0) [0..<20] \<and> items_of 1 (consumed w) = map (item_of 1) [0..<20]"
proof -
  note ok = reachable_ok [OF assms(1)]
  have f: "moved (phase_of w t) = 20" if "t \<in> set threads" for t
    using assms(2) that by (simp add: list_all_iff NUM_ITEMS_def)
  have len: "length (produced w) = 40" "length (consumed w) = 40"
    using ok f by (simp_all add: world_ok_def moved_inv_def threads_def)
  moreover have "produced w = consumed w @ ring_contents (buf w)"
    using ok by (simp add: world_ok_def data_inv_def)
  ultimately have same: "ring_contents (buf w) = []" "consumed w = produced w" by auto
  then show ?thesis
    using ok f len by (auto simp: world_ok_def moved_inv_def threads_def ring_contents_def)
qed

text \<open>First producer 0 and consumer 0 alternate, then producer 1 and consumer 1.\<close>

definition sample_schedule :: "tid list" where
  "sample_schedule =
     concat (replicate 20 (replicate 4 (Producer 0) @ replicate 4 (Consumer 0))) @
     concat (replicate 20 (replicate 4 (Producer 1) @ replicate 4 (Consumer 1)))"

theorem all_items_delivered_witness:
  "length (consumed (schedule sample_schedule world_init)) = 40"
proof -
  have "reachable (schedule sample_schedule world_init)" by (intro schedule_reachable start)
  moreover have "list_all (\<lambda>t. phase_of (schedule sample_schedule world_init) t = Finished) threads"
    by code_simp
  ultimately show ?thesis using all_items_delivered by blast
qed

text \<open>A thread that can move.\<close>

definition useful :: "world \<Rightarrow> tid \<Rightarrow> bool" where
  "useful w t \<longleftrightarrow>
     (case phase_of w t of
        Locking n \<Rightarrow> owner w = None
      | Woken n \<Rightarrow> owner w = None
      | Testing n \<Rightarrow> True
      | Signalling n \<Rightarrow> True
      | Unlocking n \<Rightarrow> True
      | Sleeping n \<Rightarrow> False
      | Finished \<Rightarrow> False)"

lemma useful_moves: "t \<in> set threads \<Longrightarrow> useful w t \<Longrightarrow> \<exists>w'. step w w'"
proof -
  assume "t \<in> set threads" "useful w t"
  then have "\<exists>w'. fire t w = Some w'"
    by (auto simp: useful_def fire_def simp del: sleepers.simps split: phase.splits tid.splits prod.splits list.splits)
  then show ?thesis using fire_step by blast
qed

lemma owner_useful: "world_ok w \<Longrightarrow> owner w = Some t \<Longrightarrow> useful w t"
proof -
  assume ok: "world_ok w" "owner w = Some t"
  then have "critical (phase_of w t)" by (auto simp: world_ok_def mutex_inv_def)
  then show ?thesis by (cases "phase_of w t") (simp_all add: useful_def)
qed

lemma owner_thread: "reachable w \<Longrightarrow> owner w = Some t \<Longrightarrow> t \<in> set threads"
  by (induction arbitrary: t rule: reachable.induct)
     (auto simp: world_init_def set_phase_def elim!: stepE spuriousE split: if_splits)

lemma asleep_or_done:
  assumes "world_ok w" and "owner w = None" and "\<not> useful w t"
  shows "phase_of w t = Finished \<and> moved (phase_of w t) = 20 \<or> asleep (phase_of w t) \<and> moved (phase_of w t) < 20"
    and "coming (phase_of w t) = 0" and "signals (phase_of w t) = 0"
  using assms(2,3) holder [OF assms(1), of t] by (auto simp: useful_def NUM_ITEMS_def split: phase.splits)

lemma not_all_asleep:
  assumes "world_ok w" and "wake_inv (bb_count (buf w)) (phase_of w)" and "owner w = None"
    and idle: "\<And>t. t \<in> set threads \<Longrightarrow> \<not> useful w t" and "t \<in> set threads"
  shows "phase_of w t = Finished"
proof -
  note d = asleep_or_done [OF assms(1,3) idle]
  have "length (produced w) = moved (phase_of w (Producer 0)) + moved (phase_of w (Producer 1))"
    "length (consumed w) = moved (phase_of w (Consumer 0)) + moved (phase_of w (Consumer 1))"
    using assms(1) by (simp_all add: world_ok_def moved_inv_def)
  moreover have "length (produced w) = length (consumed w) + bb_count (buf w)"
    using assms(1) by (simp add: world_ok_def data_inv_def ring_contents_def)
  ultimately have held: "moved (phase_of w (Producer 0)) + moved (phase_of w (Producer 1)) =
      moved (phase_of w (Consumer 0)) + moved (phase_of w (Consumer 1)) + bb_count (buf w)"
    by simp
  have tid: "Producer 0 \<in> set threads" "Producer 1 \<in> set threads" "Consumer 0 \<in> set threads" "Consumer 1 \<in> set threads"
    by (simp_all add: threads_def)
  have wake: "asleep (phase_of w (Consumer 0)) \<or> asleep (phase_of w (Consumer 1)) \<Longrightarrow> bb_count (buf w) = 0"
    "asleep (phase_of w (Producer 0)) \<or> asleep (phase_of w (Producer 1)) \<Longrightarrow> 8 \<le> bb_count (buf w)"
    using assms(2) d(2,3) [OF tid(1)] d(2,3) [OF tid(2)] d(2,3) [OF tid(3)] d(2,3) [OF tid(4)]
    by (auto simp: wake_inv_def BUFFER_SIZE_def)
  have "\<not> asleep (phase_of w t)"
    using thread_cases [OF assms(5)] wake held d(1) [OF tid(1)] d(1) [OF tid(2)] d(1) [OF tid(3)] d(1) [OF tid(4)]
    by (elim disjE) auto
  with d(1) [OF assms(5)] show ?thesis by blast
qed

text \<open>
  No deadlock and no lost wake-up: in every reachable state in which some thread has not finished,
  some thread can take a step, without the help of a spurious wake-up.
\<close>

theorem no_deadlock:
  assumes "reachable w" and "t \<in> set threads" and "phase_of w t \<noteq> Finished"
  shows "\<exists>w'. step w w'"
proof -
  note ok = reachable_ok [OF assms(1)]
  have "\<exists>u \<in> set threads. useful w u"
  proof (cases "owner w")
    case None
    with not_all_asleep [OF ok reachable_wake [OF assms(1)] None _ assms(2)] assms(3) show ?thesis by blast
  next
    case (Some u)
    with owner_thread [OF assms(1)] owner_useful [OF ok] show ?thesis by blast
  qed
  then show ?thesis using useful_moves by blast
qed

text \<open>Consumer 0 sleeps, producer 1 holds the mutex.\<close>

definition blocked_world :: world where
  "blocked_world = schedule [Consumer 0, Consumer 0, Producer 1] world_init"

theorem no_deadlock_witness: "asleep (phase_of blocked_world (Consumer 0)) \<and> (\<exists>w'. step blocked_world w')"
proof -
  have "reachable blocked_world" unfolding blocked_world_def by (intro schedule_reachable start)
  moreover have "Consumer 0 \<in> set threads" "phase_of blocked_world (Consumer 0) \<noteq> Finished" by code_simp+
  ultimately have "\<exists>w'. step blocked_world w'" by (rule no_deadlock)
  moreover have "asleep (phase_of blocked_world (Consumer 0))" by code_simp
  ultimately show ?thesis by blast
qed

text \<open>
  What is left to do: six for every item a thread still has to move, and a weight for its phase.
\<close>

fun weight :: "phase \<Rightarrow> nat" where
  "weight (Signalling n) = 8"
| "weight (Unlocking n) = 5"
| "weight (Locking n) = 4"
| "weight (Woken n) = 4"
| "weight (Testing n) = 3"
| "weight (Sleeping n) = 2"
| "weight Finished = 0"

definition work_left :: "(tid \<Rightarrow> phase) \<Rightarrow> nat" where
  "work_left ph = (\<Sum>t\<leftarrow>threads. 6 * (NUM_ITEMS - moved (ph t)) + weight (ph t))"

lemma work_change:
  assumes "t \<in> set threads"
  shows "work_left (ph(t := x)) + (6 * (NUM_ITEMS - moved (ph t)) + weight (ph t)) =
    work_left ph + (6 * (NUM_ITEMS - moved x) + weight x)"
  using thread_cases [OF assms] by (elim disjE) (simp_all add: work_left_def threads_def)

lemma work_less:
  assumes "t \<in> set threads" and "6 * (NUM_ITEMS - moved x) + weight x < 6 * (NUM_ITEMS - moved (ph t)) + weight (ph t)"
  shows "work_left (ph(t := x)) < work_left ph"
  using work_change [OF assms(1), of ph x] assms(2) by simp

definition phases_ok :: "world \<Rightarrow> bool" where
  "phases_ok w \<longleftrightarrow> (\<forall>t. phase_ok (phase_of w t))"

lemma phases_okD: "phases_ok w \<Longrightarrow> phase_ok (phase_of w t)"
  by (simp add: phases_ok_def)

lemma phase_bound:
  "phases_ok w \<Longrightarrow> phase_of w t = Locking n \<Longrightarrow> n < NUM_ITEMS" "phases_ok w \<Longrightarrow> phase_of w t = Testing n \<Longrightarrow> n < NUM_ITEMS"
  "phases_ok w \<Longrightarrow> phase_of w t = Sleeping n \<Longrightarrow> n < NUM_ITEMS" "phases_ok w \<Longrightarrow> phase_of w t = Woken n \<Longrightarrow> n < NUM_ITEMS"
  "phases_ok w \<Longrightarrow> phase_of w t = Signalling n \<Longrightarrow> n < NUM_ITEMS"
  using phases_okD [of w t] by simp_all

lemma phases_ok_set: "phases_ok w \<Longrightarrow> phase_ok x \<Longrightarrow> phases_ok (set_phase t x w)"
  by (simp add: phases_ok_def set_phase_def)

lemma phases_ok_more [simp]:
  "phases_ok (w\<lparr>owner := ow\<rparr>) = phases_ok w" "phases_ok (w\<lparr>buf := b, produced := pr\<rparr>) = phases_ok w"
  "phases_ok (w\<lparr>buf := b, consumed := co\<rparr>) = phases_ok w"
  by (simp_all add: phases_ok_def)

lemma phases_ok_step: "step w w' \<Longrightarrow> phases_ok w \<Longrightarrow> phases_ok w'"
proof (induction rule: step.induct)
  case (signal_one t w n u m)
  then have "u \<noteq> t" by auto
  with signal_one show ?case
    using phases_okD [of w t] phases_okD [of w u] by (auto intro!: phases_ok_set)
qed (auto intro!: phases_ok_set dest: phase_bound)

lemma phases_ok_spurious: "spurious w w' \<Longrightarrow> phases_ok w \<Longrightarrow> phases_ok w'"
  by (induction rule: spurious.induct) (auto intro!: phases_ok_set dest: phase_bound)

lemma step_work: "step w w' \<Longrightarrow> phases_ok w \<Longrightarrow> work_left (phase_of w') < work_left (phase_of w)"
proof (induction rule: step.induct)
  case (lock t w n)
  then show ?case by (auto simp: set_phase_def simp del: fun_upd_apply intro!: work_less)
next
  case (wait_full p w n)
  then show ?case by (auto simp: set_phase_def simp del: fun_upd_apply intro!: work_less)
next
  case (produce p w n)
  then show ?case using phases_okD [of w "Producer p"]
    by (auto simp: set_phase_def simp del: fun_upd_apply intro!: work_less)
next
  case (wait_empty k w n)
  then show ?case by (auto simp: set_phase_def simp del: fun_upd_apply intro!: work_less)
next
  case (consume k w n x b)
  then show ?case using phases_okD [of w "Consumer k"]
    by (auto simp: set_phase_def simp del: fun_upd_apply intro!: work_less)
next
  case (signal_none t w n)
  then show ?case by (auto simp: set_phase_def simp del: fun_upd_apply intro!: work_less)
next
  case (signal_one t w n u m)
  then have ut: "t \<noteq> u" by auto
  have u: "u \<in> set threads" using signal_one(3) by (cases t) (auto simp: threads_def split: if_splits)
  let ?ph = "(phase_of w)(u := Woken m)"
  have "work_left (?ph(t := Unlocking n)) + 3 = work_left ?ph"
    using work_change [OF signal_one(1), of ?ph "Unlocking n"] signal_one(2) ut by simp
  moreover have "work_left ?ph = work_left (phase_of w) + 2"
    using work_change [OF u, of "phase_of w" "Woken m"] signal_one(4) by simp
  ultimately show ?case by (simp add: set_phase_def del: fun_upd_apply)
next
  case (unlock t w n)
  then show ?case using phases_okD [of w t]
    by (auto simp: set_phase_def simp del: fun_upd_apply intro!: work_less)
qed

fun fired :: "tid list \<Rightarrow> world \<Rightarrow> nat" where
  "fired [] w = 0"
| "fired (t # ts) w = (case fire t w of None \<Rightarrow> 0 | Some w' \<Rightarrow> Suc (fired ts w'))"

section \<open>The main thread\<close>

text \<open>
  \<open>main\<close> waits for the producers, sleeps for two seconds, and then cancels and joins one consumer after the other. How far the consumers get in the two seconds is
  not known, so the sleep may end at any time. A consumer that was cancelled ends at a cancellation point: in the pause between two items (the
  phase \<open>Locking\<close>, but for the first item), or in \<open>pthread_cond_wait\<close>, where it first takes the mutex again and, having no handler to release it, ends as its owner.
  \<open>cut_short\<close> records whether a consumer was cancelled that had not finished.
\<close>

datatype main_place = Join_Producer nat | Sleep_2 | Cancel nat | Join_Consumer nat | Demo_Over

record program =
  world_of :: world
  main_at :: main_place
  cancelled :: "nat list"
  cut_short :: bool

definition program_start :: program where
  "program_start = \<lparr>world_of = world_init, main_at = Join_Producer 0, cancelled = [], cut_short = False\<rparr>"

inductive program_step :: "program \<Rightarrow> program \<Rightarrow> bool" where
  thread: "step (world_of s) w \<Longrightarrow> program_step s (s\<lparr>world_of := w\<rparr>)"
| join_producer: "main_at s = Join_Producer i \<Longrightarrow> phase_of (world_of s) (Producer i) = Finished \<Longrightarrow>
    program_step s (s\<lparr>main_at := if i + 1 < 2 then Join_Producer (i + 1) else Sleep_2\<rparr>)"
| sleep_over: "main_at s = Sleep_2 \<Longrightarrow> program_step s (s\<lparr>main_at := Cancel 0\<rparr>)"
| cancel: "main_at s = Cancel k \<Longrightarrow>
    program_step s (s\<lparr>main_at := Join_Consumer k, cancelled := k # cancelled s,
      cut_short := cut_short s \<or> phase_of (world_of s) (Consumer k) \<noteq> Finished\<rparr>)"
| join_consumer: "main_at s = Join_Consumer k \<Longrightarrow> phase_of (world_of s) (Consumer k) = Finished \<Longrightarrow>
    program_step s (s\<lparr>main_at := if k + 1 < 2 then Cancel (k + 1) else Demo_Over\<rparr>)"
| end_pause: "k \<in> set (cancelled s) \<Longrightarrow> Consumer k \<in> set threads \<Longrightarrow> phase_of (world_of s) (Consumer k) = Locking n \<Longrightarrow> 0 < n \<Longrightarrow>
    program_step s (s\<lparr>world_of := set_phase (Consumer k) Finished (world_of s)\<rparr>)"
| end_wait: "k \<in> set (cancelled s) \<Longrightarrow> Consumer k \<in> set threads \<Longrightarrow> phase_of (world_of s) (Consumer k) \<in> {Sleeping n, Woken n} \<Longrightarrow>
    owner (world_of s) = None \<Longrightarrow>
    program_step s (s\<lparr>world_of := (set_phase (Consumer k) Finished (world_of s))\<lparr>owner := Some (Consumer k)\<rparr>\<rparr>)"

inductive_cases pstepE: "program_step s s'"

text \<open>A run of \<open>n\<close> steps, \<open>m\<close> of them spurious wake-ups.\<close>

inductive runs :: "nat \<Rightarrow> nat \<Rightarrow> program \<Rightarrow> program \<Rightarrow> bool" where
  none: "runs 0 0 s s"
| more: "runs n m s t \<Longrightarrow> program_step t u \<Longrightarrow> runs (Suc n) m s u"
| woken: "runs n m s t \<Longrightarrow> spurious (world_of t) w \<Longrightarrow> runs (Suc n) (Suc m) s (t\<lparr>world_of := w\<rparr>)"

text \<open>What \<open>main\<close> still has to do, and the measure of the program.\<close>

fun main_weight :: "main_place \<Rightarrow> nat" where
  "main_weight (Join_Producer i) = 7 - i"
| "main_weight Sleep_2 = 5"
| "main_weight (Cancel k) = 4 - 2 * k"
| "main_weight (Join_Consumer k) = 3 - 2 * k"
| "main_weight Demo_Over = 0"

definition program_work :: "program \<Rightarrow> nat" where
  "program_work s = work_left (phase_of (world_of s)) + main_weight (main_at s)"

fun main_ok :: "main_place \<Rightarrow> bool" where
  "main_ok (Join_Producer i) = (i < 2)"
| "main_ok (Cancel k) = (k < 2)"
| "main_ok (Join_Consumer k) = (k < 2)"
| "main_ok _ = True"

lemma work_finished:
  assumes "t \<in> set threads" and "0 < weight (ph t)"
  shows "work_left (ph(t := Finished)) < work_left ph"
  using assms by (intro work_less) simp_all

lemma program_step_work:
  "program_step s s' \<Longrightarrow> phases_ok (world_of s) \<and> main_ok (main_at s) \<Longrightarrow>
     program_work s' < program_work s \<and> phases_ok (world_of s') \<and> main_ok (main_at s')"
proof (induction rule: program_step.induct)
  case (thread s w)
  then show ?case using step_work [of "world_of s" w] phases_ok_step [of "world_of s" w] by (simp add: program_work_def)
next
  case (end_pause k s n)
  then show ?case using work_finished [of "Consumer k" "phase_of (world_of s)"]
    by (auto simp: program_work_def set_phase_def phases_ok_def simp del: fun_upd_apply) (simp add: phases_okD)
next
  case (end_wait k s n)
  then show ?case using work_finished [of "Consumer k" "phase_of (world_of s)"]
    by (auto simp: program_work_def set_phase_def phases_ok_def simp del: fun_upd_apply) (simp_all add: phases_okD)
qed (auto simp: program_work_def)

lemma spurious_work:
  assumes "spurious w w'"
  shows "work_left (phase_of w') = work_left (phase_of w) + 2"
  using assms
proof (induction rule: spurious.induct)
  case (wake t w n)
  then show ?case using work_change [OF wake(1), of "phase_of w" "Woken n"] by (simp add: set_phase_def del: fun_upd_apply)
qed

lemma runs_work:
  "runs n m s t \<Longrightarrow> phases_ok (world_of s) \<and> main_ok (main_at s) \<Longrightarrow>
     phases_ok (world_of t) \<and> main_ok (main_at t) \<and> n + program_work t \<le> program_work s + 3 * m"
proof (induction rule: runs.induct)
  case (more n m s t u)
  then show ?case using program_step_work [of t u] by fastforce
next
  case (woken n m s t w)
  then show ?case using spurious_work [of "world_of t" w] phases_ok_spurious [of "world_of t" w] by (simp add: program_work_def)
qed simp

text \<open>The threads that \<open>main\<close> has joined; a thread that has finished stays so.\<close>

fun joined :: "main_place \<Rightarrow> tid list" where
  "joined (Join_Producer i) = take i [Producer 0, Producer 1]"
| "joined Sleep_2 = [Producer 0, Producer 1]"
| "joined (Cancel k) = [Producer 0, Producer 1] @ take k [Consumer 0, Consumer 1]"
| "joined (Join_Consumer k) = [Producer 0, Producer 1] @ take k [Consumer 0, Consumer 1]"
| "joined Demo_Over = threads"

lemma step_finished: "step w w' \<Longrightarrow> phase_of w t = Finished \<Longrightarrow> phase_of w' t = Finished"
  by (induction rule: step.induct) (auto simp: set_phase_def)

lemma spurious_finished: "spurious w w' \<Longrightarrow> phase_of w t = Finished \<Longrightarrow> phase_of w' t = Finished"
  by (induction rule: spurious.induct) (auto simp: set_phase_def)

definition uncut :: "program \<Rightarrow> bool" where
  "uncut s \<longleftrightarrow> reachable (world_of s) \<and> main_ok (main_at s) \<and>
     (\<forall>k \<in> set (cancelled s). phase_of (world_of s) (Consumer k) = Finished) \<and>
     (\<forall>t \<in> set (joined (main_at s)). phase_of (world_of s) t = Finished)"

lemma less_two: "i < 2 \<longleftrightarrow> i = 0 \<or> i = (1 :: nat)"
  by auto

lemma uncut_step: "program_step s s' \<Longrightarrow> uncut s \<or> cut_short s \<Longrightarrow> uncut s' \<or> cut_short s'"
proof (induction rule: program_step.induct)
  case (thread s w)
  then show ?case using step_finished [of "world_of s" w] later [of "world_of s" w] by (auto simp: uncut_def)
next
  case (join_producer s i)
  then show ?case by (auto simp: uncut_def less_two)
next
  case (join_consumer s k)
  then show ?case by (auto simp: uncut_def less_two threads_def)
qed (auto simp: uncut_def)

lemma uncut_run: "runs n m s t \<Longrightarrow> uncut s \<or> cut_short s \<Longrightarrow> uncut t \<or> cut_short t"
proof (induction rule: runs.induct)
  case (woken n m s t w)
  then show ?case using spurious_finished [of "world_of t" w] roused [of "world_of t" w] by (auto simp: uncut_def)
qed (auto dest: uncut_step)

lemma start_ok: "uncut program_start" "phases_ok (world_of program_start)" "program_work program_start = 503"
  by (auto simp: uncut_def program_start_def phases_ok_def world_init_def start [unfolded world_init_def] NUM_ITEMS_def program_work_def work_left_def threads_def)

lemma uncut_moves:
  assumes "uncut s" and "main_at s \<noteq> Demo_Over"
  shows "\<exists>s'. program_step s s'"
proof (rule ccontr)
  assume stuck: "\<not> (\<exists>s'. program_step s s')"
  then have "\<nexists>w. step (world_of s) w" by (blast intro: thread)
  then have f: "phase_of (world_of s) t = Finished" if "t \<in> set threads" for t
    using no_deadlock [of "world_of s" t] assms(1) that by (auto simp: uncut_def)
  have "main_ok (main_at s)" using assms(1) by (simp add: uncut_def)
  then have "\<exists>s'. program_step s s'"
    using f assms(2) by (cases "main_at s") (auto simp: less_two threads_def intro: program_step.intros)
  with stuck show False by blast
qed

text \<open>
  C13. The whole program, with its main thread. A run of which \<open>m\<close> steps are spurious wake-ups has at most \<open>503 + 3 * m\<close> steps. If no consumer is
  cancelled before it has finished, the program does not stop before the end of \<open>main\<close>, and there all threads have
  finished, all forty items were consumed, in the order in which they were produced, and the buffer is empty. (That the two seconds that \<open>main\<close> sleeps are long enough for that is an assumption that the
  program makes; the lemmas after this one show what may happen otherwise.)
\<close>

theorem program_ends:
  assumes "runs n m program_start s"
  shows "n \<le> 503 + 3 * m \<and>
    (\<not> cut_short s \<longrightarrow> (\<exists>s'. program_step s s') \<or> main_at s = Demo_Over) \<and>
    (\<not> cut_short s \<and> main_at s = Demo_Over \<longrightarrow>
       list_all (\<lambda>t. phase_of (world_of s) t = Finished) threads \<and> length (consumed (world_of s)) = 40 \<and>
       consumed (world_of s) = produced (world_of s) \<and> bb_count (buf (world_of s)) = 0)"
proof -
  have "n \<le> 503 + 3 * m" using runs_work [OF assms] start_ok by (simp add: program_start_def)
  moreover have u: "uncut s \<or> cut_short s" using uncut_run [OF assms] start_ok by blast
  moreover have "list_all (\<lambda>t. phase_of (world_of s) t = Finished) threads" if "uncut s" "main_at s = Demo_Over"
    using that by (simp add: uncut_def list_all_iff)
  ultimately show ?thesis using uncut_moves [of s] all_items_delivered [of "world_of s"] by (auto simp: uncut_def)
qed

text \<open>The steps of threads in a schedule, and then \<open>main\<close>.\<close>

lemma runs_threads: "runs n m p s \<Longrightarrow> runs (n + fired ts (world_of s)) m p (s\<lparr>world_of := schedule ts (world_of s)\<rparr>)"
proof (induction ts arbitrary: n s)
  case (Cons t ts)
  show ?case
  proof (cases "fire t (world_of s)")
    case (Some w)
    then have "runs (Suc n) m p (s\<lparr>world_of := w\<rparr>)" using more [OF Cons.prems thread [OF fire_step]] by blast
    then show ?thesis using Some Cons.IH [of "Suc n" "s\<lparr>world_of := w\<rparr>"] by simp
  qed (use Cons.prems in simp)
qed simp

fun main_step :: "program \<Rightarrow> program option" where
  "main_step s =
     (case main_at s of
        Join_Producer i \<Rightarrow> if phase_of (world_of s) (Producer i) = Finished then Some (s\<lparr>main_at := if i + 1 < 2 then Join_Producer (i + 1) else Sleep_2\<rparr>) else None
      | Sleep_2 \<Rightarrow> Some (s\<lparr>main_at := Cancel 0\<rparr>)
      | Cancel k \<Rightarrow> Some (s\<lparr>main_at := Join_Consumer k, cancelled := k # cancelled s, cut_short := cut_short s \<or> phase_of (world_of s) (Consumer k) \<noteq> Finished\<rparr>)
      | Join_Consumer k \<Rightarrow> if phase_of (world_of s) (Consumer k) = Finished then Some (s\<lparr>main_at := if k + 1 < 2 then Cancel (k + 1) else Demo_Over\<rparr>) else None
      | Demo_Over \<Rightarrow> None)"

lemma main_step_pstep: "main_step s = Some s' \<Longrightarrow> program_step s s'"
  using join_producer [of s] join_consumer [of s] sleep_over [of s] cancel [of s] by (cases "main_at s") (auto split: if_splits)

fun main_steps :: "nat \<Rightarrow> program \<Rightarrow> program" where
  "main_steps 0 s = s"
| "main_steps (Suc k) s = (case main_step s of None \<Rightarrow> s | Some s' \<Rightarrow> main_steps k s')"

lemma runs_main: "runs n m p s \<Longrightarrow> \<exists>n'. runs n' m p (main_steps k s)"
  by (induction k arbitrary: n s) (auto simp del: main_step.simps split: option.splits dest!: main_step_pstep intro: more)

declare main_step.simps [simp del]

lemma sample_run: "\<exists>n. runs n 0 program_start (main_steps k (program_start\<lparr>world_of := schedule ts world_init\<rparr>))"
proof -
  have "runs (0 + fired ts (world_of program_start)) 0 program_start (program_start\<lparr>world_of := schedule ts (world_of program_start)\<rparr>)"
    by (intro runs_threads none)
  then show ?thesis using runs_main by (simp add: program_start_def)
qed

theorem program_ends_witness:
  "let s = main_steps 7 (program_start\<lparr>world_of := schedule sample_schedule world_init\<rparr>)
   in main_at s = Demo_Over \<and> \<not> cut_short s \<and> length (consumed (world_of s)) = 40"
proof -
  let ?s = "main_steps 7 (program_start\<lparr>world_of := schedule sample_schedule world_init\<rparr>)"
  obtain n where "runs n 0 program_start ?s" using sample_run by blast
  moreover have "main_at ?s = Demo_Over" "\<not> cut_short ?s" by code_simp+
  ultimately show ?thesis using program_ends [of n 0 ?s] by (simp only: Let_def) blast
qed

text \<open>
  What may happen when the two seconds are too short. Both consumers have taken 16 items. If they are cancelled in their pauses, the eight items that the buffer holds are lost. If
  both wait for the mutex in \<open>pthread_cond_wait\<close>, the first that is cancelled keeps it for ever, and \<open>main\<close> waits for ever for the second.
\<close>

fun end_consumer :: "nat \<Rightarrow> program \<Rightarrow> program" where
  "end_consumer k s =
     (if k \<notin> set (cancelled s) \<or> Consumer k \<notin> set threads then s
      else case phase_of (world_of s) (Consumer k) of
             Locking n \<Rightarrow> if 0 < n then s\<lparr>world_of := set_phase (Consumer k) Finished (world_of s)\<rparr> else s
           | Woken n \<Rightarrow> if owner (world_of s) = None
                then s\<lparr>world_of := (set_phase (Consumer k) Finished (world_of s))\<lparr>owner := Some (Consumer k)\<rparr>\<rparr> else s
           | _ \<Rightarrow> s)"

lemma runs_end: "\<exists>n. runs n m p s \<Longrightarrow> \<exists>n. runs n m p (end_consumer k s)"
  using end_pause [of k s] end_wait [of k s] by (auto split: phase.split intro: more)

lemma runs_main_ex: "\<exists>n. runs n m p s \<Longrightarrow> \<exists>n. runs n m p (main_steps k s)"
  using runs_main by blast

definition sixteen_each :: "tid list" where
  "sixteen_each =
     concat (replicate 16 (replicate 4 (Producer 0) @ replicate 4 (Consumer 0))) @
     concat (replicate 16 (replicate 4 (Producer 1) @ replicate 4 (Consumer 1)))"

definition cancel_both :: "tid list \<Rightarrow> program" where
  "cancel_both ts = main_steps 1 (end_consumer 1 (main_steps 2 (end_consumer 0 (main_steps 4 (program_start\<lparr>world_of := schedule ts world_init\<rparr>)))))"

lemma cancel_both_runs: "\<exists>n. runs n 0 program_start (cancel_both ts)"
  unfolding cancel_both_def by (intro runs_main_ex runs_end sample_run)

lemma cancelled_loses:
  "let s = cancel_both (sixteen_each @ replicate 16 (Producer 0) @ replicate 16 (Producer 1))
   in main_at s = Demo_Over \<and> length (consumed (world_of s)) = 32 \<and> bb_count (buf (world_of s)) = 8"
  by code_simp

lemma dead_owner_stuck:
  "owner (world_of s) = Some (Consumer 0) \<Longrightarrow> list_all (\<lambda>t. phase_of (world_of s) t = Finished) [Producer 0, Producer 1, Consumer 0] \<Longrightarrow>
     phase_of (world_of s) (Consumer 1) = Woken n \<Longrightarrow> main_at s = Join_Consumer 1 \<Longrightarrow> \<not> program_step s s'"
  by (auto simp: threads_def elim!: pstepE stepE)

lemma cancelled_hangs:
  "\<nexists>s'. program_step (cancel_both (sixteen_each @ [Consumer 0, Consumer 0, Consumer 1, Consumer 1] @ replicate 16 (Producer 0) @ replicate 16 (Producer 1))) s'"
proof -
  let ?s = "cancel_both (sixteen_each @ [Consumer 0, Consumer 0, Consumer 1, Consumer 1] @ replicate 16 (Producer 0) @ replicate 16 (Producer 1))"
  have "owner (world_of ?s) = Some (Consumer 0)" "list_all (\<lambda>t. phase_of (world_of ?s) t = Finished) [Producer 0, Producer 1, Consumer 0]"
    "phase_of (world_of ?s) (Consumer 1) = Woken 16" "main_at ?s = Join_Consumer 1"
    by code_simp+
  then show ?thesis using dead_owner_stuck by blast
qed

end
