(* ===== verification/RcuDemo.thy ===== *)
theory RcuDemo
  imports Bytes
begin

text \<open>
  KernelProgramming/Handson/lab14_sync/rcu_demo.c: a reader and a writer that share a pointer under RCU, and the init and
  exit functions that start and stop them. A schedule is a list of the actors that take the steps. Memory is explicit: an address
  is allocated or not, and reading or freeing one that is not is undefined behaviour.

  The kernel is modelled by what it documents: a callback that \<open>call_rcu\<close> has queued may run once the read-side critical
  sections that existed at the time of the call have ended; \<open>kthread_stop\<close> returns when the thread has exited; the
  code of a module is gone once its exit function has returned. What \<open>kmalloc\<close> and \<open>kthread_run\<close> return is part of the schedule.
\<close>

section \<open>The program\<close>

record rcu_data =
  my_value :: int
  info :: string

datatype reader_place =
    RAbsent
  | RTest
  | RLock
  | RDereference
  | RPrint "nat option"
  | RUnlock
  | RExited

text \<open>The writer with its local \<open>version\<close>, the new version and the old one.\<close>

datatype writer_place =
    WAbsent
  | WTest int
  | WAlloc int
  | WFill int nat
  | WLoad int nat
  | WPublish int nat "nat option"
  | WRetire int "nat option"
  | WExited

text \<open>The module: in \<open>rcu_demo_init\<close>, loaded, in \<open>rcu_demo_exit\<close>, or gone.\<close>

datatype module_place =
    IAlloc
  | IRunReader nat
  | IRunWriter nat
  | IStopReader nat int
  | IJoinReader nat int
  | IFree nat int
  | InitFailed int
  | Loaded
  | EJoinWriter
  | EStopReader
  | EJoinReader
  | ESynchronize
  | EFree
  | Unloaded

record rcu_state =
  memory :: "nat \<Rightarrow> rcu_data option"
  global_data :: "nat option"
  callbacks :: "(nat \<times> bool) list"   \<comment> \<open>what my_rcu_free will get, and whether a reader must leave first\<close>
  reader :: reader_place
  writer :: writer_place
  stop_reader :: bool
  stop_writer :: bool
  module :: module_place
  printed :: "rcu_data list"

definition rcu_start :: rcu_state where
  "rcu_start = \<lparr>memory = (\<lambda>_. None), global_data = None, callbacks = [], reader = RAbsent, writer = WAbsent,
     stop_reader = False, stop_writer = False, module = IAlloc, printed = []\<rparr>"

datatype result = Blocked | Undefined_Behaviour | Next rcu_state

fun reading :: "reader_place \<Rightarrow> bool" where
  "reading RDereference = True" | "reading (RPrint d) = True" | "reading RUnlock = True"
| "reading _ = False"

definition reader_fn :: "rcu_state \<Rightarrow> result" where
  "reader_fn s =
     (case reader s of
        RAbsent \<Rightarrow> Blocked
      | RTest \<Rightarrow> Next (s\<lparr>reader := if stop_reader s then RExited else RLock\<rparr>)
      | RLock \<Rightarrow> Next (s\<lparr>reader := RDereference\<rparr>)
      | RDereference \<Rightarrow> Next (s\<lparr>reader := RPrint (global_data s)\<rparr>)
      | RPrint d \<Rightarrow>
          (case d of
             None \<Rightarrow> Next (s\<lparr>reader := RUnlock\<rparr>)
           | Some a \<Rightarrow>
               (case memory s a of
                  None \<Rightarrow> Undefined_Behaviour
                | Some x \<Rightarrow> Next (s\<lparr>reader := RUnlock, printed := printed s @ [x]\<rparr>)))
      | RUnlock \<Rightarrow> Next (s\<lparr>reader := RTest, callbacks := map (\<lambda>(a, w). (a, False)) (callbacks s)\<rparr>)
      | RExited \<Rightarrow> Blocked)"

text \<open>The bytes of fresh memory are of no account: they are written before the pointer is published.\<close>

definition junk :: rcu_data where "junk = \<lparr>my_value = 0, info = []\<rparr>"

text \<open>The answer of \<open>kmalloc\<close> is an address that is not in use, or none.\<close>

definition writer_fn :: "nat option \<Rightarrow> rcu_state \<Rightarrow> result" where
  "writer_fn kmalloc s =
     (case writer s of
        WAbsent \<Rightarrow> Blocked
      | WTest version \<Rightarrow>
          (if stop_writer s then Next (s\<lparr>writer := WExited\<rparr>)
           else (case arith32 (version + 1) of None \<Rightarrow> Undefined_Behaviour | Some v \<Rightarrow> Next (s\<lparr>writer := WAlloc v\<rparr>)))
      | WAlloc v \<Rightarrow>
          (case kmalloc of
             None \<Rightarrow> Next (s\<lparr>writer := WTest v\<rparr>)
           | Some a \<Rightarrow>
               (if memory s a = None then Next (s\<lparr>writer := WFill v a, memory := (memory s)(a \<mapsto> junk)\<rparr>) else Blocked))
      | WFill v a \<Rightarrow>
          Next (s\<lparr>writer := WLoad v a, memory := (memory s)(a \<mapsto> \<lparr>my_value = v, info = take 31 (''version_'' @ fmt_d v)\<rparr>)\<rparr>)
      | WLoad v a \<Rightarrow> Next (s\<lparr>writer := WPublish v a (global_data s)\<rparr>)
      | WPublish v a old \<Rightarrow> Next (s\<lparr>writer := WRetire v old, global_data := Some a\<rparr>)
      | WRetire v old \<Rightarrow>
          Next (case old of
                  None \<Rightarrow> s\<lparr>writer := WTest v\<rparr>
                | Some a \<Rightarrow> s\<lparr>writer := WTest v, callbacks := callbacks s @ [(a, reading (reader s))]\<rparr>)
      | WExited \<Rightarrow> Blocked)"

definition kfree :: "nat \<Rightarrow> rcu_state \<Rightarrow> result" where
  "kfree a s = (if memory s a = None then Undefined_Behaviour else Next (s\<lparr>memory := (memory s)(a := None)\<rparr>))"

text \<open>The callback number \<open>i\<close> of those queued.\<close>

definition my_rcu_free :: "nat \<Rightarrow> rcu_state \<Rightarrow> result" where
  "my_rcu_free i s =
     (if i < length (callbacks s) \<and> \<not> snd (callbacks s ! i) then
        (if module s = Unloaded then Undefined_Behaviour
         else kfree (fst (callbacks s ! i)) (s\<lparr>callbacks := take i (callbacks s) @ drop (i + 1) (callbacks s)\<rparr>))
      else Blocked)"

definition rcu_init_step :: "int \<Rightarrow> nat option \<Rightarrow> rcu_state \<Rightarrow> result" where
  "rcu_init_step kthread_run kmalloc s =
     (case module s of
        IAlloc \<Rightarrow>
          (case kmalloc of
             None \<Rightarrow> Next (s\<lparr>module := InitFailed (- ENOMEM)\<rparr>)
           | Some a \<Rightarrow>
               (if memory s a = None
                then Next (s\<lparr>module := IRunReader a, memory := (memory s)(a \<mapsto> \<lparr>my_value = 0, info = ''initial''\<rparr>),
                             global_data := Some a\<rparr>)
                else Blocked))
      | IRunReader a \<Rightarrow>
          Next (if kthread_run < 0 then s\<lparr>module := IFree a kthread_run\<rparr> else s\<lparr>module := IRunWriter a, reader := RTest\<rparr>)
      | IRunWriter a \<Rightarrow>
          Next (if kthread_run < 0 then s\<lparr>module := IStopReader a kthread_run\<rparr>
                else s\<lparr>module := Loaded, writer := WTest 0\<rparr>)
      | IStopReader a e \<Rightarrow> Next (s\<lparr>module := IJoinReader a e, stop_reader := True\<rparr>)
      | IJoinReader a e \<Rightarrow> if reader s = RExited then Next (s\<lparr>module := IFree a e\<rparr>) else Blocked
      | IFree a e \<Rightarrow> kfree a (s\<lparr>module := InitFailed e\<rparr>)
      | _ \<Rightarrow> Blocked)"

definition rcu_exit_step :: "rcu_state \<Rightarrow> result" where
  "rcu_exit_step s =
     (case module s of
        Loaded \<Rightarrow> Next (s\<lparr>module := EJoinWriter, stop_writer := True\<rparr>)
      | EJoinWriter \<Rightarrow> if writer s = WExited then Next (s\<lparr>module := EStopReader\<rparr>) else Blocked
      | EStopReader \<Rightarrow> Next (s\<lparr>module := EJoinReader, stop_reader := True\<rparr>)
      | EJoinReader \<Rightarrow> if reader s = RExited then Next (s\<lparr>module := ESynchronize\<rparr>) else Blocked
      | ESynchronize \<Rightarrow> if reading (reader s) then Blocked else Next (s\<lparr>module := EFree\<rparr>)
      | EFree \<Rightarrow>
          (case global_data s of
             None \<Rightarrow> Next (s\<lparr>module := Unloaded\<rparr>)
           | Some a \<Rightarrow> kfree a (s\<lparr>module := Unloaded\<rparr>))
      | _ \<Rightarrow> Blocked)"

datatype rcu_actor = Init_Step int "nat option" | Exit_Step | Reader_Step | Writer_Step "nat option" | Callback_Step nat

definition rcu_step :: "rcu_actor \<Rightarrow> rcu_state \<Rightarrow> result" where
  "rcu_step a s =
     (case a of
        Init_Step r m \<Rightarrow> rcu_init_step r m s
      | Exit_Step \<Rightarrow> rcu_exit_step s
      | Reader_Step \<Rightarrow> reader_fn s
      | Writer_Step m \<Rightarrow> writer_fn m s
      | Callback_Step i \<Rightarrow> my_rcu_free i s)"

primrec rcu_run :: "rcu_actor list \<Rightarrow> rcu_state \<Rightarrow> result" where
  "rcu_run [] s = Next s"
| "rcu_run (a # as) s =
     (case rcu_step a s of Blocked \<Rightarrow> Blocked | Undefined_Behaviour \<Rightarrow> Undefined_Behaviour | Next s' \<Rightarrow> rcu_run as s')"

section \<open>Who owns an address\<close>

text \<open>The new version before it is published, the old one between publication and \<open>call_rcu\<close>.\<close>

fun unpublished :: "writer_place \<Rightarrow> nat option" where
  "unpublished (WFill v a) = Some a" | "unpublished (WLoad v a) = Some a" | "unpublished (WPublish v a d) = Some a"
| "unpublished _ = None"

fun replaced :: "writer_place \<Rightarrow> nat option" where
  "replaced (WRetire v d) = d"
| "replaced _ = None"

fun gone :: "module_place \<Rightarrow> bool" where
  "gone (InitFailed e) = True" | "gone Unloaded = True"
| "gone _ = False"

definition opt_list :: "'a option \<Rightarrow> 'a list" where
  "opt_list x = (case x of None \<Rightarrow> [] | Some a \<Rightarrow> [a])"

lemma opt_list_simps [simp]: "opt_list None = []" "opt_list (Some a) = [a]"
  by (simp_all add: opt_list_def)

text \<open>Every allocated address, as often as something owns it.\<close>

definition owned :: "rcu_state \<Rightarrow> nat list" where
  "owned s =
     opt_list (if gone (module s) then None else global_data s) @ opt_list (unpublished (writer s)) @
     opt_list (replaced (writer s)) @ map fst (callbacks s)"

fun phase_ok :: "module_place \<Rightarrow> rcu_state \<Rightarrow> bool" where
  "phase_ok IAlloc s \<longleftrightarrow> reader s = RAbsent \<and> writer s = WAbsent \<and> global_data s = None \<and> callbacks s = []"
| "phase_ok (IRunReader a) s \<longleftrightarrow> reader s = RAbsent \<and> writer s = WAbsent \<and> global_data s = Some a \<and> callbacks s = []"
| "phase_ok (IFree a e) s \<longleftrightarrow>
     (reader s = RAbsent \<or> reader s = RExited) \<and> writer s = WAbsent \<and> global_data s = Some a \<and> callbacks s = []"
| "phase_ok (IRunWriter a) s \<longleftrightarrow> writer s = WAbsent \<and> global_data s = Some a \<and> callbacks s = []"
| "phase_ok (IStopReader a e) s \<longleftrightarrow> writer s = WAbsent \<and> global_data s = Some a \<and> callbacks s = []"
| "phase_ok (IJoinReader a e) s \<longleftrightarrow> writer s = WAbsent \<and> global_data s = Some a \<and> callbacks s = []"
| "phase_ok (InitFailed e) s \<longleftrightarrow> (reader s = RAbsent \<or> reader s = RExited) \<and> writer s = WAbsent \<and> callbacks s = []"
| "phase_ok Loaded s \<longleftrightarrow> global_data s \<noteq> None"
| "phase_ok EJoinWriter s \<longleftrightarrow> global_data s \<noteq> None"
| "phase_ok EStopReader s \<longleftrightarrow> writer s = WExited \<and> global_data s \<noteq> None"
| "phase_ok EJoinReader s \<longleftrightarrow> writer s = WExited \<and> global_data s \<noteq> None"
| "phase_ok ESynchronize s \<longleftrightarrow> writer s = WExited \<and> reader s = RExited \<and> global_data s \<noteq> None"
| "phase_ok EFree s \<longleftrightarrow> writer s = WExited \<and> reader s = RExited \<and> global_data s \<noteq> None"
| "phase_ok Unloaded s \<longleftrightarrow> writer s = WExited \<and> reader s = RExited"

text \<open>What a reader has dereferenced is current, about to be retired, or retired and waiting for it.\<close>

definition held_ok :: "rcu_state \<Rightarrow> bool" where
  "held_ok s \<longleftrightarrow>
     (\<forall>a. reader s = RPrint (Some a) \<longrightarrow> global_data s = Some a \<or> replaced (writer s) = Some a \<or> (a, True) \<in> set (callbacks s))"

definition rcu_ok :: "rcu_state \<Rightarrow> bool" where
  "rcu_ok s \<longleftrightarrow>
     distinct (owned s) \<and> dom (memory s) = set (owned s) \<and> held_ok s \<and> phase_ok (module s) s \<and>
     (\<forall>v a d. writer s = WPublish v a d \<longrightarrow> d = global_data s)"

lemma rcu_ok_start: "rcu_ok rcu_start"
  by (simp add: rcu_ok_def rcu_start_def owned_def held_ok_def)

text \<open>The phases do not depend on what the threads do while they run.\<close>

lemma phase_reader_runs:
  assumes "phase_ok (module s) s" and "reader s \<noteq> RAbsent" and "reader s \<noteq> RExited"
    and "writer s' = writer s" "global_data s' = global_data s" "callbacks s' = [] \<or> callbacks s \<noteq> []" "module s' = module s"
  shows "phase_ok (module s') s'"
  using assms by (cases "module s") auto

lemma phase_writer_runs:
  assumes "phase_ok (module s) s" and "writer s \<noteq> WAbsent" and "writer s \<noteq> WExited"
    and "reader s' = reader s" "global_data s' = None \<longrightarrow> global_data s = None" "module s' = module s"
  shows "phase_ok (module s') s'"
  using assms by (cases "module s") auto

lemma held_allocated:
  assumes "rcu_ok s" and "reader s = RPrint (Some a)"
  shows "memory s a \<noteq> None"
proof -
  have "\<not> gone (module s)" using assms by (cases "module s") (auto simp: rcu_ok_def)
  moreover have "global_data s = Some a \<or> replaced (writer s) = Some a \<or> (a, True) \<in> set (callbacks s)"
    using assms by (simp add: rcu_ok_def held_ok_def)
  ultimately have "a \<in> set (owned s)" by (force simp: owned_def)
  with assms(1) show ?thesis by (auto simp: rcu_ok_def)
qed

lemma rcu_ok_keeps:
  assumes "rcu_ok s" and "owned s' = owned s" "dom (memory s') = dom (memory s)" "held_ok s'" "phase_ok (module s') s'"
    and "\<forall>v a d. writer s' = WPublish v a d \<longrightarrow> d = global_data s'"
  shows "rcu_ok s'"
  using assms by (simp add: rcu_ok_def)

lemma rcu_ok_reader:
  assumes "rcu_ok s" and "reader_fn s = Next s'"
  shows "rcu_ok s'"
proof -
  have r: "reader s \<noteq> RAbsent" "reader s \<noteq> RExited" using assms(2) by (auto simp: reader_fn_def)
  have c: "map fst (map (\<lambda>(a, w). (a, False)) xs) = map fst xs" for xs :: "(nat \<times> bool) list" by (induction xs) auto
  have e: "writer s' = writer s" "global_data s' = global_data s" "memory s' = memory s" "module s' = module s"
    "map fst (callbacks s') = map fst (callbacks s)"
    using assms(2) c [of "callbacks s"] by (auto simp: reader_fn_def split: reader_place.splits option.splits)
  have "callbacks s' = [] \<or> callbacks s \<noteq> []" using e(5) by auto
  then have "phase_ok (module s') s'" using assms(1) by (intro phase_reader_runs [OF _ r e(1,2) _ e(4)]) (simp_all add: rcu_ok_def)
  moreover have "held_ok s'"
    using assms by (auto simp: rcu_ok_def held_ok_def reader_fn_def split: reader_place.splits option.splits if_splits)
  moreover have "owned s' = owned s" by (simp add: owned_def e)
  ultimately show ?thesis using assms(1) by (simp add: rcu_ok_def e)
qed

lemma rcu_ok_writer:
  assumes "rcu_ok s" and "writer_fn m s = Next s'"
  shows "rcu_ok s'"
proof -
  have r: "writer s \<noteq> WAbsent" "writer s \<noteq> WExited" using assms(2) by (auto simp: writer_fn_def)
  have n: "\<not> gone (module s)" using assms(1) r by (cases "module s") (auto simp: rcu_ok_def)
  have e: "reader s' = reader s" "module s' = module s" "global_data s' = None \<longrightarrow> global_data s = None"
    using assms(2) by (cases "writer s"; auto simp: writer_fn_def split: option.splits if_splits)+
  have "phase_ok (module s) s" using assms(1) by (simp add: rcu_ok_def)
  then have "phase_ok (module s') s'" using r e(1,3,2) by (rule phase_writer_runs)
  moreover have "held_ok s' \<and> distinct (owned s') \<and> dom (memory s') = set (owned s')"
  proof (cases "\<exists>a v. writer s = WAlloc v \<and> m = Some a")
    case True
    then obtain a v where w: "writer s = WAlloc v" "m = Some a" by blast
    with assms(2) have s': "memory s a = None" "s' = s\<lparr>writer := WFill v a, memory := (memory s)(a \<mapsto> junk)\<rparr>"
      by (auto simp: writer_fn_def split: if_splits)
    then have "a \<notin> set (owned s)" using assms(1) by (auto simp: rcu_ok_def)
    moreover have "owned s = opt_list (global_data s) @ map fst (callbacks s)"
      "owned s' = opt_list (global_data s) @ a # map fst (callbacks s)"
      using w s' n by (simp_all add: owned_def)
    ultimately show ?thesis using s' assms(1) w by (auto simp: rcu_ok_def held_ok_def)
  next
    case False
    show ?thesis
    proof (cases "writer s")
      case (WPublish v a d)
      with assms have s': "s' = s\<lparr>writer := WRetire v d, global_data := Some a\<rparr>" "d = global_data s"
        by (simp_all add: writer_fn_def rcu_ok_def)
      have "owned s = opt_list d @ a # map fst (callbacks s)" "owned s' = a # opt_list d @ map fst (callbacks s)"
        using WPublish s' n by (simp_all add: owned_def)
      with s' assms(1) WPublish show ?thesis by (auto simp: rcu_ok_def held_ok_def)
    next
      case (WRetire v d)
      with assms(2) have s': "s' = s\<lparr>writer := WTest v, callbacks := callbacks s @ (case d of None \<Rightarrow> [] | Some a \<Rightarrow> [(a, reading (reader s))])\<rparr>"
        by (cases d) (auto simp: writer_fn_def)
      have "owned s = opt_list (global_data s) @ opt_list d @ map fst (callbacks s)"
        "owned s' = opt_list (global_data s) @ map fst (callbacks s) @ opt_list d"
        using WRetire s' n by (cases d; simp add: owned_def)+
      with s' assms(1) WRetire show ?thesis by (cases d) (auto simp: rcu_ok_def held_ok_def)
    next
      case (WTest v)
      then have "owned s' = owned s" "memory s' = memory s" "held_ok s' = held_ok s"
        using assms(2) n by (auto simp: writer_fn_def owned_def held_ok_def split: if_splits option.splits)
      with assms(1) show ?thesis by (simp add: rcu_ok_def)
    next
      case (WAlloc v)
      then have "owned s' = owned s" "memory s' = memory s" "held_ok s' = held_ok s"
        using assms(2) n False by (auto simp: writer_fn_def owned_def held_ok_def split: option.splits)
      with assms(1) show ?thesis by (simp add: rcu_ok_def)
    next
      case (WFill v a)
      then have o: "owned s' = owned s" "held_ok s' = held_ok s" "dom (memory s') = insert a (dom (memory s))" "a \<in> set (owned s)"
        using assms(2) n by (auto simp: writer_fn_def owned_def held_ok_def)
      with assms(1) show ?thesis by (auto simp: rcu_ok_def)
    next
      case (WLoad v a)
      then have "owned s' = owned s" "memory s' = memory s" "held_ok s' = held_ok s"
        using assms(2) n by (auto simp: writer_fn_def owned_def held_ok_def)
      with assms(1) show ?thesis by (simp add: rcu_ok_def)
    qed (use r in simp_all)
  qed
  moreover have "d = global_data s'" if "writer s' = WPublish v a d" for v a d
    using assms that by (cases "writer s") (auto simp: rcu_ok_def writer_fn_def split: option.splits if_splits)
  ultimately show ?thesis by (simp add: rcu_ok_def)
qed

lemma kfree_owned: "rcu_ok s \<Longrightarrow> a \<in> set (owned s) \<Longrightarrow> memory s a \<noteq> None"
  by (auto simp: rcu_ok_def)

lemma remove_nth:
  assumes "i < length xs" and "distinct (map fst xs)"
  shows "map fst xs = map fst (take i xs) @ fst (xs ! i) # map fst (drop (i + 1) xs)"
    and "(a, b) \<in> set xs \<Longrightarrow> (a, b) \<noteq> xs ! i \<Longrightarrow> (a, b) \<in> set (take i xs @ drop (i + 1) xs)"
proof -
  have x: "xs = take i xs @ xs ! i # drop (i + 1) xs" using assms(1) by (simp add: id_take_nth_drop)
  then show "map fst xs = map fst (take i xs) @ fst (xs ! i) # map fst (drop (i + 1) xs)" by (metis list.simps(9) map_append)
  have "set xs = insert (xs ! i) (set (take i xs @ drop (i + 1) xs))" by (subst x) auto
  then show "(a, b) \<in> set xs \<Longrightarrow> (a, b) \<noteq> xs ! i \<Longrightarrow> (a, b) \<in> set (take i xs @ drop (i + 1) xs)" by blast
qed

lemma callback_allocated: "rcu_ok s \<Longrightarrow> i < length (callbacks s) \<Longrightarrow> memory s (fst (callbacks s ! i)) \<noteq> None"
  by (rule kfree_owned) (simp_all add: owned_def)

lemma rcu_ok_callback:
  assumes "rcu_ok s" and "my_rcu_free i s = Next s'"
  shows "rcu_ok s'"
proof -
  let ?c = "callbacks s"
  obtain a where c: "i < length ?c" "?c ! i = (a, False)" and u: "module s \<noteq> Unloaded"
    and s': "s' = s\<lparr>callbacks := take i ?c @ drop (i + 1) ?c, memory := (memory s)(a := None)\<rparr>"
    using assms(2) by (cases "?c ! i") (auto simp: my_rcu_free_def kfree_def split: if_splits)
  have d: "distinct (map fst ?c)" using assms(1) by (auto simp: rcu_ok_def owned_def)
  note rm = remove_nth [OF c(1) d]
  define front where "front = opt_list (if gone (module s) then None else global_data s) @ opt_list (unpublished (writer s)) @ opt_list (replaced (writer s))"
  have o: "owned s = front @ map fst (take i ?c) @ a # map fst (drop (i + 1) ?c)"
    "owned s' = front @ map fst (take i ?c) @ map fst (drop (i + 1) ?c)"
    using rm(1) by (simp_all add: owned_def front_def s' c(2))
  have "distinct (owned s)" using assms(1) by (simp add: rcu_ok_def)
  then have "distinct (owned s')" "set (owned s') = set (owned s) - {a}" unfolding o by auto
  moreover have "held_ok s'"
    using assms(1) rm(2) c(2) by (fastforce simp: rcu_ok_def held_ok_def s')
  moreover have "phase_ok (module s') s'" using assms(1) c(1) by (cases "module s") (auto simp: rcu_ok_def s')
  ultimately show ?thesis using assms(1) by (simp add: rcu_ok_def s')
qed

lemma rcu_ok_init:
  assumes "rcu_ok s" and "rcu_init_step r m s = Next s'"
  shows "rcu_ok s'"
proof (cases "module s")
  case IAlloc
  with assms(1) have i: "reader s = RAbsent" "writer s = WAbsent" "global_data s = None" "callbacks s = []" "dom (memory s) = {}"
    by (auto simp: rcu_ok_def owned_def)
  show ?thesis
  proof (cases m)
    case None
    with IAlloc i assms(2) show ?thesis by (auto simp: rcu_ok_def rcu_init_step_def owned_def held_ok_def)
  next
    case (Some a)
    with IAlloc i assms(2) show ?thesis by (auto simp: rcu_ok_def rcu_init_step_def owned_def held_ok_def split: if_splits)
  qed
next
  case (IFree a e)
  with assms have i: "reader s = RAbsent \<or> reader s = RExited" "writer s = WAbsent" "global_data s = Some a" "callbacks s = []"
    "dom (memory s) = {a}" "s' = s\<lparr>module := InitFailed e, memory := (memory s)(a := None)\<rparr>"
    by (auto simp: rcu_ok_def owned_def rcu_init_step_def kfree_def split: if_splits)
  then show ?thesis by (auto simp: rcu_ok_def owned_def held_ok_def)
next
  case (IRunReader a)
  with assms have "s' = (if r < 0 then s\<lparr>module := IFree a r\<rparr> else s\<lparr>module := IRunWriter a, reader := RTest\<rparr>)"
    "reader s = RAbsent" "writer s = WAbsent" "global_data s = Some a" "callbacks s = []"
    by (simp_all add: rcu_init_step_def rcu_ok_def)
  with IRunReader show ?thesis by (intro rcu_ok_keeps [OF assms(1)]) (simp_all add: owned_def held_ok_def)
next
  case (IRunWriter a)
  with assms have "s' = (if r < 0 then s\<lparr>module := IStopReader a r\<rparr> else s\<lparr>module := Loaded, writer := WTest 0\<rparr>)"
    "writer s = WAbsent" "global_data s = Some a" "callbacks s = []" "held_ok s"
    by (simp_all add: rcu_init_step_def rcu_ok_def)
  with IRunWriter show ?thesis by (intro rcu_ok_keeps [OF assms(1)]) (simp_all add: owned_def held_ok_def)
next
  case (IStopReader a e)
  with assms have "s' = s\<lparr>module := IJoinReader a e, stop_reader := True\<rparr>"
    "writer s = WAbsent" "global_data s = Some a" "callbacks s = []" "held_ok s"
    by (simp_all add: rcu_init_step_def rcu_ok_def)
  with IStopReader show ?thesis by (intro rcu_ok_keeps [OF assms(1)]) (simp_all add: owned_def held_ok_def)
next
  case (IJoinReader a e)
  with assms have "s' = s\<lparr>module := IFree a e\<rparr>" "reader s = RExited"
    "writer s = WAbsent" "global_data s = Some a" "callbacks s = []" "held_ok s"
    by (auto simp: rcu_init_step_def rcu_ok_def split: if_splits)
  with IJoinReader show ?thesis by (intro rcu_ok_keeps [OF assms(1)]) (simp_all add: owned_def held_ok_def)
qed (use assms(2) in \<open>simp_all add: rcu_init_step_def\<close>)

lemma rcu_ok_exit:
  assumes "rcu_ok s" and "rcu_exit_step s = Next s'"
  shows "rcu_ok s'"
proof (cases "module s = EFree")
  case True
  with assms obtain a where g: "global_data s = Some a" "writer s = WExited" "reader s = RExited"
    and s': "s' = s\<lparr>module := Unloaded, memory := (memory s)(a := None)\<rparr>"
    by (auto simp: rcu_ok_def rcu_exit_step_def kfree_def split: if_splits)
  have "owned s = a # owned s'" using True g s' by (simp add: owned_def)
  with assms(1) g s' show ?thesis by (auto simp: rcu_ok_def held_ok_def)
next
  case False
  with assms(2) have same: "reader s' = reader s" "writer s' = writer s" "global_data s' = global_data s" "callbacks s' = callbacks s"
    "memory s' = memory s" and m: "\<not> gone (module s)" "\<not> gone (module s')"
    by (cases "module s"; simp add: rcu_exit_step_def split: if_splits; force)+
  have "phase_ok (module s) s" using assms(1) by (simp add: rcu_ok_def)
  then have "phase_ok (module s') s'" using assms(2) False by (cases "module s") (auto simp: rcu_exit_step_def split: if_splits)
  moreover have "owned s' = owned s" "held_ok s' = held_ok s" using same m by (simp_all add: owned_def held_ok_def)
  ultimately show ?thesis using assms(1) same by (simp add: rcu_ok_def)
qed

lemma rcu_ok_step: "rcu_ok s \<Longrightarrow> rcu_step a s = Next s' \<Longrightarrow> rcu_ok s'"
  unfolding rcu_step_def
  by (cases a; simp only: rcu_actor.case; (erule (1) rcu_ok_init rcu_ok_exit rcu_ok_reader rcu_ok_writer rcu_ok_callback))

lemma rcu_ok_run: "rcu_run as s = Next s' \<Longrightarrow> rcu_ok s \<Longrightarrow> rcu_ok s'"
  by (induction as arbitrary: s) (auto split: result.splits dest: rcu_ok_step)

section \<open>What the reader sees\<close>

text \<open>A version that is complete: the initial one, or one the writer has filled in.\<close>

definition whole :: "rcu_data \<Rightarrow> bool" where
  "whole x \<longleftrightarrow> info x = (if my_value x = 0 then ''initial'' else take 31 (''version_'' @ fmt_d (my_value x)))"

definition current :: "rcu_state \<Rightarrow> rcu_data option" where
  "current s = Option.bind (global_data s) (memory s)"

definition held :: "rcu_state \<Rightarrow> rcu_data option" where
  "held s = (case reader s of RPrint (Some a) \<Rightarrow> memory s a | _ \<Rightarrow> None)"

lemma held_same [simp]:
  "held (s\<lparr>writer := w\<rparr>) = held s" "held (s\<lparr>callbacks := c\<rparr>) = held s" "held (s\<lparr>module := p\<rparr>) = held s"
  "held (s\<lparr>stop_reader := b\<rparr>) = held s" "held (s\<lparr>stop_writer := b\<rparr>) = held s" "held (s\<lparr>global_data := d\<rparr>) = held s"
  by (auto simp: held_def split: reader_place.splits option.splits)

lemma current_same [simp]:
  "current (s\<lparr>writer := w\<rparr>) = current s" "current (s\<lparr>callbacks := c\<rparr>) = current s" "current (s\<lparr>module := p\<rparr>) = current s"
  "current (s\<lparr>stop_reader := b\<rparr>) = current s" "current (s\<lparr>stop_writer := b\<rparr>) = current s"
  "current (s\<lparr>reader := r\<rparr>) = current s" "current (s\<lparr>printed := out\<rparr>) = current s"
  by (simp_all add: current_def)

text \<open>How the version the writer works on compares with the current one.\<close>

fun writer_ahead :: "writer_place \<Rightarrow> rcu_state \<Rightarrow> int \<Rightarrow> bool" where
  "writer_ahead WAbsent s g \<longleftrightarrow> g = 0"
| "writer_ahead (WTest v) s g \<longleftrightarrow> 0 \<le> g \<and> g \<le> v"
| "writer_ahead (WAlloc v) s g \<longleftrightarrow> 0 \<le> g \<and> g < v"
| "writer_ahead (WFill v a) s g \<longleftrightarrow> 0 \<le> g \<and> g < v"
| "writer_ahead (WLoad v a) s g \<longleftrightarrow> 0 \<le> g \<and> g < v \<and> (\<exists>x. memory s a = Some x \<and> my_value x = v \<and> whole x)"
| "writer_ahead (WPublish v a d) s g \<longleftrightarrow> 0 \<le> g \<and> g < v \<and> (\<exists>x. memory s a = Some x \<and> my_value x = v \<and> whole x)"
| "writer_ahead (WRetire v d) s g \<longleftrightarrow> 0 \<le> g \<and> g \<le> v"
| "writer_ahead WExited s g \<longleftrightarrow> True"

lemma writer_ahead_memory: "memory t = memory s \<Longrightarrow> writer_ahead w t g \<longleftrightarrow> writer_ahead w s g"
  by (cases w) simp_all

lemma writer_ahead_same [simp]:
  "writer_ahead w (s\<lparr>module := p\<rparr>) g \<longleftrightarrow> writer_ahead w s g"
  "writer_ahead w (s\<lparr>module := p, stop_reader := b\<rparr>) g \<longleftrightarrow> writer_ahead w s g"
  "writer_ahead w (s\<lparr>module := p, stop_writer := b\<rparr>) g \<longleftrightarrow> writer_ahead w s g"
  by (rule writer_ahead_memory; simp)+

definition seen_upto :: "rcu_state \<Rightarrow> rcu_data \<Rightarrow> bool" where
  "seen_upto s x \<longleftrightarrow> (\<forall>y \<in> set (printed s). my_value y \<le> my_value x)"

definition view_ok :: "rcu_state \<Rightarrow> bool" where
  "view_ok s \<longleftrightarrow>
     sorted (map my_value (printed s)) \<and> list_all whole (printed s) \<and>
     (\<not> gone (module s) \<longrightarrow>
        (case current s of
           None \<Rightarrow> printed s = []
         | Some g \<Rightarrow> whole g \<and> seen_upto s g \<and> writer_ahead (writer s) s (my_value g) \<and>
             (\<forall>h. held s = Some h \<longrightarrow> whole h \<and> my_value h \<le> my_value g \<and> seen_upto s h)))"

lemma view_ok_start: "view_ok rcu_start"
  by (simp add: view_ok_def rcu_start_def current_def)

text \<open>The current version and the one a reader holds stay as they are when memory changes elsewhere.\<close>

lemma held_not_freed:
  assumes "rcu_ok s" and "reader s = RPrint (Some h)" and "(a, False) \<in> set (callbacks s)"
  shows "h \<noteq> a"
proof
  assume "h = a"
  have "\<not> gone (module s)" using assms by (cases "module s") (auto simp: rcu_ok_def)
  moreover have "distinct (owned s)" "global_data s = Some a \<or> replaced (writer s) = Some a \<or> (a, True) \<in> set (callbacks s)"
    using assms \<open>h = a\<close> by (auto simp: rcu_ok_def held_ok_def)
  moreover have "(a, True) \<notin> set (callbacks s)"
  proof
    assume "(a, True) \<in> set (callbacks s)"
    moreover have "inj_on fst (set (callbacks s))" using \<open>distinct (owned s)\<close> by (simp add: owned_def distinct_map)
    ultimately show False using assms(3) inj_onD [of fst "set (callbacks s)" "(a, True)" "(a, False)"] by simp
  qed
  moreover have "a \<in> set (map fst (callbacks s))" using assms(3) by force
  ultimately show False by (auto simp: owned_def simp del: set_map)
qed

lemma unpublished_apart:
  assumes "rcu_ok s" and "unpublished (writer s) = Some a"
  shows "global_data s \<noteq> Some a" "reader s \<noteq> RPrint (Some a)"
proof -
  have "\<not> gone (module s)" using assms by (cases "module s") (auto simp: rcu_ok_def)
  moreover have "distinct (owned s)" using assms(1) by (simp add: rcu_ok_def)
  ultimately have d: "global_data s \<noteq> Some a" "replaced (writer s) \<noteq> Some a" "a \<notin> fst ` set (callbacks s)"
    using assms(2) by (auto simp: owned_def)
  then show "global_data s \<noteq> Some a" by simp
  show "reader s \<noteq> RPrint (Some a)"
  proof
    assume "reader s = RPrint (Some a)"
    with assms(1) d have "(a, True) \<in> set (callbacks s)" by (auto simp: rcu_ok_def held_ok_def)
    with d(3) show False by force
  qed
qed

lemma view_ok_keeps:
  assumes "view_ok s" and "printed s' = printed s" "gone (module s) \<longrightarrow> gone (module s')"
    and "\<not> gone (module s') \<Longrightarrow> current s' = current s" "\<not> gone (module s') \<Longrightarrow> held s' = held s \<or> held s' = None"
    and "\<And>g. \<not> gone (module s') \<Longrightarrow> writer_ahead (writer s) s g \<Longrightarrow> writer_ahead (writer s') s' g"
  shows "view_ok s'"
  using assms by (auto simp: view_ok_def seen_upto_def split: option.splits)

lemma running_current:
  assumes "rcu_ok s" and "reader s \<noteq> RAbsent \<and> reader s \<noteq> RExited \<or> writer s \<noteq> WAbsent \<and> writer s \<noteq> WExited"
  shows "\<not> gone (module s)" "\<exists>a x. global_data s = Some a \<and> memory s a = Some x \<and> current s = Some x"
proof -
  show g: "\<not> gone (module s)" using assms by (cases "module s") (auto simp: rcu_ok_def)
  have "global_data s \<noteq> None" using assms by (cases "module s") (auto simp: rcu_ok_def)
  then obtain a where a: "global_data s = Some a" by auto
  with g have "a \<in> set (owned s)" by (simp add: owned_def)
  then have "memory s a \<noteq> None" using assms(1) by (rule kfree_owned [rotated])
  with a show "\<exists>a x. global_data s = Some a \<and> memory s a = Some x \<and> current s = Some x" by (auto simp: current_def)
qed

lemma view_ok_reader:
  assumes "view_ok s" and "rcu_ok s" and "reader_fn s = Next s'"
  shows "view_ok s'"
proof -
  have "reader s \<noteq> RAbsent \<and> reader s \<noteq> RExited" using assms(3) by (auto simp: reader_fn_def)
  then obtain a g where g: "\<not> gone (module s)" "global_data s = Some a" "memory s a = Some g" "current s = Some g"
    using running_current [OF assms(2)] by blast
  have w: "writer_ahead (writer s) t x = writer_ahead (writer s) s x" if "memory t = memory s" for t x
    using that by (cases "writer s") simp_all
  show ?thesis
  proof (cases "reader s")
    case RDereference
    with assms(3) have s': "s' = s\<lparr>reader := RPrint (Some a)\<rparr>" by (simp add: reader_fn_def g)
    with g have "current s' = Some g" "held s' = Some g" by (simp_all add: current_def held_def)
    with assms(1) g s' w [of s'] show ?thesis by (simp add: view_ok_def seen_upto_def)
  next
    case (RPrint d)
    show ?thesis
    proof (cases d)
      case (Some h)
      with RPrint assms(3) obtain x where x: "memory s h = Some x" "s' = s\<lparr>reader := RUnlock, printed := printed s @ [x]\<rparr>"
        by (auto simp: reader_fn_def split: option.splits)
      have "held s = Some x" "held s' = None" "current s' = Some g" using RPrint Some x g by (simp_all add: held_def current_def)
      with assms(1) g x w [of s'] show ?thesis by (auto simp: view_ok_def seen_upto_def sorted_append)
    qed (use RPrint assms g w [of s'] in \<open>auto simp: reader_fn_def held_def intro: view_ok_keeps\<close>)
  qed (use assms g w [of s'] in \<open>auto simp: reader_fn_def held_def intro!: view_ok_keeps [OF assms(1)] split: if_splits\<close>)
qed

lemma view_ok_writer:
  assumes "view_ok s" and "rcu_ok s" and "writer_fn m s = Next s'"
  shows "view_ok s'"
proof -
  have "writer s \<noteq> WAbsent \<and> writer s \<noteq> WExited" using assms(3) by (auto simp: writer_fn_def)
  then obtain p g where g: "\<not> gone (module s)" "global_data s = Some p" "memory s p = Some g" "current s = Some g"
    using running_current [OF assms(2)] by blast
  show ?thesis
  proof (cases "writer s")
    case (WTest v)
    with assms show ?thesis
      by (auto simp: writer_fn_def arith32_def intro!: view_ok_keeps [OF assms(1)] split: if_splits option.splits)
  next
    case (WAlloc v)
    show ?thesis
    proof (cases m)
      case None
      with WAlloc assms show ?thesis by (auto simp: writer_fn_def intro!: view_ok_keeps [OF assms(1)])
    next
      case (Some a)
      with WAlloc assms(3) have a: "memory s a = None" "s' = s\<lparr>writer := WFill v a, memory := (memory s)(a \<mapsto> junk)\<rparr>"
        by (auto simp: writer_fn_def split: if_splits)
      have "reader s \<noteq> RPrint (Some a)" using held_allocated [OF assms(2)] a(1) by auto
      then have "held s' = held s" using a(2) by (auto simp: held_def split: reader_place.splits option.splits)
      moreover have "current s' = current s" using a g by (auto simp: current_def)
      ultimately show ?thesis using a(2) WAlloc by (intro view_ok_keeps [OF assms(1)]) simp_all
    qed
  next
    case (WFill v a)
    define x where "x = \<lparr>my_value = v, info = take 31 (''version_'' @ fmt_d v)\<rparr>"
    have s': "s' = s\<lparr>writer := WLoad v a, memory := (memory s)(a \<mapsto> x)\<rparr>" using WFill assms(3) by (simp add: writer_fn_def x_def)
    note ap = unpublished_apart [OF assms(2), of a]
    have "held s' = held s" using ap(2) s' WFill by (auto simp: held_def split: reader_place.splits option.splits)
    moreover have "current s' = current s" using ap(1) s' WFill g by (auto simp: current_def)
    moreover have "writer_ahead (writer s') s' y" if "writer_ahead (writer s) s y" for y
      using that WFill s' by (auto simp: x_def whole_def)
    ultimately show ?thesis using s' by (intro view_ok_keeps [OF assms(1)]) simp_all
  next
    case (WLoad v a)
    with assms show ?thesis by (auto simp: writer_fn_def intro!: view_ok_keeps [OF assms(1)])
  next
    case (WPublish v a d)
    with assms(3) have s': "s' = s\<lparr>writer := WRetire v d, global_data := Some a\<rparr>" by (simp add: writer_fn_def)
    have v: "whole g" "seen_upto s g" "writer_ahead (writer s) s (my_value g)"
      "\<forall>h. held s = Some h \<longrightarrow> whole h \<and> my_value h \<le> my_value g \<and> seen_upto s h"
      using assms(1) g by (simp_all add: view_ok_def)
    then obtain x where x: "memory s a = Some x" "my_value x = v" "whole x" "0 \<le> my_value g" "my_value g < v"
      using WPublish by auto
    have "current s' = Some x" "held s' = held s" using s' x(1) by (simp_all add: current_def)
    with assms(1) g v x s' show ?thesis by (force simp: view_ok_def seen_upto_def)
  next
    case (WRetire v d)
    with assms show ?thesis
      by (cases d) (auto simp: writer_fn_def intro!: view_ok_keeps [OF assms(1)])
  qed (use assms(3) in \<open>simp_all add: writer_fn_def\<close>)
qed

lemma view_ok_callback:
  assumes "view_ok s" and "rcu_ok s" and "my_rcu_free i s = Next s'"
  shows "view_ok s'"
proof -
  let ?c = "callbacks s"
  obtain a where c: "i < length ?c" "?c ! i = (a, False)"
    and s': "s' = s\<lparr>callbacks := take i ?c @ drop (i + 1) ?c, memory := (memory s)(a := None)\<rparr>"
    using assms(3) by (cases "?c ! i") (auto simp: my_rcu_free_def kfree_def split: if_splits)
  have q: "(a, False) \<in> set ?c" using c nth_mem by metis
  then have f: "a \<in> set (map fst ?c)" by force
  have dist: "distinct (owned s)" using assms(2) by (simp add: rcu_ok_def)
  from assms(1) show ?thesis
  proof (rule view_ok_keeps)
    assume n: "\<not> gone (module s')"
    then have "global_data s \<noteq> Some a" using dist f s' by (auto simp: owned_def simp del: set_map)
    then show "current s' = current s" using s' by (auto simp: current_def split: bind_splits)
    show "held s' = held s \<or> held s' = None"
      using held_not_freed [OF assms(2) _ q] s' by (auto simp: held_def split: reader_place.splits option.splits)
    fix g assume w: "writer_ahead (writer s) s g"
    have "unpublished (writer s) \<noteq> Some a" using dist f by (auto simp: owned_def simp del: set_map)
    with w show "writer_ahead (writer s') s' g" using s' by (cases "writer s") auto
  qed (use s' in simp_all)
qed

lemma view_ok_init:
  assumes "view_ok s" and "rcu_ok s" and "rcu_init_step r m s = Next s'"
  shows "view_ok s'"
proof (cases "module s")
  case IAlloc
  then have i: "reader s = RAbsent" "writer s = WAbsent" "global_data s = None" using assms(2) by (simp_all add: rcu_ok_def)
  with IAlloc assms(1) have p: "printed s = []" by (simp add: view_ok_def current_def)
  show ?thesis
  proof (cases m)
    case None
    with IAlloc assms(3) p show ?thesis by (auto simp: rcu_init_step_def view_ok_def)
  next
    case (Some a)
    with IAlloc assms(3) p i show ?thesis
      by (auto simp: rcu_init_step_def view_ok_def current_def held_def whole_def seen_upto_def split: if_splits)
  qed
next
  case (IFree a e)
  with assms(1,3) show ?thesis by (auto simp: rcu_init_step_def kfree_def view_ok_def split: if_splits)
next
  case (IRunReader a)
  then have i: "reader s = RAbsent" "writer s = WAbsent" using assms(2) by (simp_all add: rcu_ok_def)
  with IRunReader assms(3) show ?thesis
    by (intro view_ok_keeps [OF assms(1)]) (auto simp: rcu_init_step_def held_def split: if_splits)
next
  case (IRunWriter a)
  then have "writer s = WAbsent" using assms(2) by (simp add: rcu_ok_def)
  with IRunWriter assms(3) show ?thesis
    by (intro view_ok_keeps [OF assms(1)]) (auto simp: rcu_init_step_def split: if_splits)
qed (use assms in \<open>auto simp: rcu_init_step_def rcu_ok_def intro!: view_ok_keeps [OF assms(1)] split: if_splits\<close>)

lemma view_ok_exit:
  assumes "view_ok s" and "rcu_exit_step s = Next s'"
  shows "view_ok s'"
proof (cases "module s")
  case EFree
  with assms show ?thesis by (auto simp: rcu_exit_step_def kfree_def view_ok_def split: if_splits option.splits)
qed (use assms in \<open>auto simp: rcu_exit_step_def intro!: view_ok_keeps [OF assms(1)] split: if_splits\<close>)

lemma rcu_reach:
  assumes "rcu_run as rcu_start = Next s"
  shows "rcu_ok s \<and> view_ok s"
proof -
  have step: "view_ok t'" if "rcu_step a t = Next t'" "rcu_ok t" "view_ok t" for a t t'
    using that unfolding rcu_step_def
    by (cases a; simp only: rcu_actor.case)
      (erule (2) view_ok_init [rotated 2] view_ok_reader [rotated 2] view_ok_writer [rotated 2] view_ok_callback [rotated 2] |
       erule (1) view_ok_exit [rotated])+
  have "rcu_run as t = Next s \<Longrightarrow> rcu_ok t \<Longrightarrow> view_ok t \<Longrightarrow> rcu_ok s \<and> view_ok s" for t
    by (induction as arbitrary: t) (auto split: result.splits dest: rcu_ok_step step)
  then show ?thesis using assms rcu_ok_start view_ok_start by blast
qed

section \<open>Properties\<close>

lemma kfree_fails: "kfree a s = Undefined_Behaviour \<longleftrightarrow> memory s a = None"
  by (simp add: kfree_def)

lemma rcu_faults:
  assumes "rcu_ok s" and "rcu_step a s = Undefined_Behaviour"
  shows "module s = Unloaded \<and> callbacks s \<noteq> [] \<or> (\<exists>v. writer s = WTest v \<and> \<not> fits_s32 (v + 1))"
proof (cases a)
  case (Init_Step r m)
  have "memory s x \<noteq> None" if "module s = IFree x e" for x e
    using assms(1) that by (auto simp: rcu_ok_def owned_def)
  with Init_Step assms(2) show ?thesis
    by (cases "module s") (auto simp: rcu_step_def rcu_init_step_def kfree_def split: if_splits option.splits)
next
  case Exit_Step
  have "memory s x \<noteq> None" if "module s = EFree" "global_data s = Some x" for x
    using assms(1) that by (auto simp: rcu_ok_def owned_def)
  with Exit_Step assms(2) show ?thesis
    by (cases "module s") (auto simp: rcu_step_def rcu_exit_step_def kfree_def split: if_splits option.splits)
next
  case Reader_Step
  with assms(2) held_allocated [OF assms(1)] show ?thesis
    by (auto simp: rcu_step_def reader_fn_def split: reader_place.splits option.splits)
next
  case (Writer_Step m)
  with assms(2) show ?thesis
    by (cases "writer s") (auto simp: rcu_step_def writer_fn_def arith32_def split: if_splits option.splits)
next
  case (Callback_Step i)
  with assms(2) callback_allocated [OF assms(1), of i] show ?thesis
    by (auto simp: rcu_step_def my_rcu_free_def kfree_def split: if_splits)
qed

text \<open>
  C29. Under every schedule, whatever the kernel answers: no step reads or frees memory that is free, and the only undefined steps are
  a callback that runs after the module is gone and the overflow of \<open>version\<close>. The reader prints only complete versions, and
  never an older one after a newer one. When init has failed nothing is left allocated; when the module is
  unloaded only what still waits in callbacks is.
\<close>

theorem rcu_demo_safe:
  assumes "rcu_run as rcu_start = Next s"
  shows "(rcu_step a s = Undefined_Behaviour \<longrightarrow>
       module s = Unloaded \<and> callbacks s \<noteq> [] \<or> (\<exists>v. writer s = WTest v \<and> \<not> fits_s32 (v + 1))) \<and>
    list_all whole (printed s) \<and> sorted (map my_value (printed s)) \<and>
    (gone (module s) \<longrightarrow> dom (memory s) = fst ` set (callbacks s))"
proof -
  have ok: "rcu_ok s" "view_ok s" using rcu_reach [OF assms] by auto
  have "dom (memory s) = fst ` set (callbacks s)" if "gone (module s)"
    using ok(1) that by (cases "module s") (auto simp: rcu_ok_def owned_def)
  with rcu_faults [OF ok(1)] ok(2) show ?thesis by (simp add: view_ok_def)
qed

text \<open>
  The exit function does not wait for the callbacks: after one update the module can be unloaded with a callback queued, and
  when the callback comes its code is gone.
\<close>

definition early_unload :: "rcu_actor list" where
  "early_unload =
     [Init_Step 0 (Some 1), Init_Step 0 None, Init_Step 0 None] @ replicate 2 (Writer_Step (Some 2)) @ replicate 4 (Writer_Step None) @
     [Exit_Step, Writer_Step None, Exit_Step, Exit_Step, Reader_Step, Exit_Step, Exit_Step, Exit_Step]"

lemma early_unload_run:
  "\<exists>s. rcu_run early_unload rcu_start = Next s \<and> module s = Unloaded \<and> callbacks s = [(1, False)] \<and> memory s 1 \<noteq> None \<and>
     rcu_step (Callback_Step 0) s = Undefined_Behaviour"
  by (simp add: early_unload_def eval_nat_numeral rcu_start_def rcu_step_def rcu_init_step_def rcu_exit_step_def
      reader_fn_def writer_fn_def my_rcu_free_def kfree_def)

lemma rcu_demo_safe_witness:
  "\<exists>s. rcu_run early_unload rcu_start = Next s \<and> dom (memory s) = {1} \<and> list_all whole (printed s)"
proof -
  obtain s where s: "rcu_run early_unload rcu_start = Next s" "module s = Unloaded" "callbacks s = [(1, False)]"
    using early_unload_run by blast
  from rcu_demo_safe [OF s(1)] s show ?thesis by simp
qed

end
