(* ===== verification/RtDemo.thy ===== *)
theory RtDemo
  imports Bytes
begin

text \<open>
  KernelProgramming/Handson/lab38_rt/rt_demo.c: the lock measurement, the callback of the high-resolution timer and the report in
  \<open>/proc/rt_demo\<close>. Times are \<open>s64\<close> nanoseconds and wrap around, as the kernel compiles them. The answers of
  \<open>ktime_get\<close> are arguments. An array access outside its bounds is \<open>None\<close>.
\<close>

definition NUM_SAMPLES :: nat where "NUM_SAMPLES = 100"

record rt_demo_data =
  raw_lock_times :: "int list"
  reg_lock_times :: "int list"
  sample_count :: nat
  timer_fires :: nat
  timer_latencies :: "int list"
  timer_expected :: int
  timer_expires :: int   \<comment> \<open>the expiry time inside the timer\<close>

definition ktime_sub :: "int \<Rightarrow> int \<Rightarrow> int" where
  "ktime_sub a b = cast_s64 (a - b)"

definition ktime_add_us :: "int \<Rightarrow> int \<Rightarrow> int" where
  "ktime_add_us t us = cast_s64 (t + us * 1000)"

text \<open>\<open>kzalloc\<close> has cleared the structure.\<close>

definition rt_zero :: rt_demo_data where
  "rt_zero = \<lparr>raw_lock_times = replicate NUM_SAMPLES 0, reg_lock_times = replicate NUM_SAMPLES 0, sample_count = 0, timer_fires = 0,
     timer_latencies = replicate NUM_SAMPLES 0, timer_expected = 0, timer_expires = 0\<rparr>"

text \<open>The loop reads the clock four times in a round; \<open>clock n\<close> is the \<open>n\<close>-th reading.\<close>

fun measure_loop :: "(nat \<Rightarrow> int) \<Rightarrow> nat \<Rightarrow> rt_demo_data \<Rightarrow> rt_demo_data" where
  "measure_loop clock 0 d = d"
| "measure_loop clock (Suc i) d =
     (let d = measure_loop clock i d in
      d\<lparr>raw_lock_times := (raw_lock_times d)[i := ktime_sub (clock (4 * i + 1)) (clock (4 * i))],
        reg_lock_times := (reg_lock_times d)[i := ktime_sub (clock (4 * i + 3)) (clock (4 * i + 2))]\<rparr>)"

definition measure_lock_latency :: "(nat \<Rightarrow> int) \<Rightarrow> rt_demo_data \<Rightarrow> rt_demo_data" where
  "measure_lock_latency clock d = (measure_loop clock NUM_SAMPLES d)\<lparr>sample_count := NUM_SAMPLES\<rparr>"

text \<open>
  \<open>hrtimer_forward_now\<close> moves the expiry time by the number of intervals that puts it after the current time.
\<close>

definition hrtimer_forward :: "int \<Rightarrow> int \<Rightarrow> int \<Rightarrow> int" where
  "hrtimer_forward now interval expires =
     (if now < expires then expires else expires + interval * ((now - expires) div interval + 1))"

text \<open>The callback, at the time \<open>now\<close>; the result says whether the timer is to run again.\<close>

definition rt_timer_callback :: "int \<Rightarrow> rt_demo_data \<Rightarrow> (bool \<times> rt_demo_data) option" where
  "rt_timer_callback now d =
     (if timer_fires d < NUM_SAMPLES then
        (if timer_fires d < length (timer_latencies d) then
           Some (True, d\<lparr>timer_latencies := (timer_latencies d)[timer_fires d := ktime_sub now (timer_expected d)],
                         timer_fires := timer_fires d + 1, timer_expected := ktime_add_us now 1000,
                         timer_expires := hrtimer_forward now 1000000 (timer_expires d)\<rparr>)
         else None)
      else Some (False, d))"

text \<open>The part of init from the measurement on: \<open>t\<close> is the clock when the expectation is set, \<open>t'\<close> when the timer is started.\<close>

definition rt_demo_init :: "(nat \<Rightarrow> int) \<Rightarrow> int \<Rightarrow> int \<Rightarrow> rt_demo_data" where
  "rt_demo_init clock t t' =
     (measure_lock_latency clock rt_zero)\<lparr>timer_fires := 0, timer_expected := ktime_add_us t 1000, timer_expires := t' + 1000000\<rparr>"

text \<open>The timer fires at the given times, as long as the callback asks for it.\<close>

fun rt_timer_runs :: "int list \<Rightarrow> rt_demo_data \<Rightarrow> rt_demo_data option" where
  "rt_timer_runs [] d = Some d"
| "rt_timer_runs (now # ts) d =
     (case rt_timer_callback now d of
        None \<Rightarrow> None
      | Some (again, d') \<Rightarrow> if again then rt_timer_runs ts d' else Some d')"

text \<open>The statistics of a loop of \<open>proc_show\<close>: minimum, maximum and sum.\<close>

definition S64_MAX :: int where "S64_MAX = 9223372036854775807"

fun stats_loop :: "int list \<Rightarrow> nat \<Rightarrow> int \<times> int \<times> int \<Rightarrow> (int \<times> int \<times> int) option" where
  "stats_loop xs 0 acc = Some acc"
| "stats_loop xs (Suc i) acc =
     Option.bind (stats_loop xs i acc) (\<lambda>(mn, mx, total).
       if i < length xs
       then (let val = xs ! i in Some (if val < mn then val else mn, if val > mx then val else mx, cast_s64 (total + val)))
       else None)"

definition stats :: "int list \<Rightarrow> nat \<Rightarrow> (int \<times> int \<times> int) option" where
  "stats xs n = map_option (\<lambda>(mn, mx, total). (mn, mx, c_div total (int n))) (stats_loop xs n (S64_MAX, 0, 0))"

definition fmt_stats :: "string \<Rightarrow> string \<Rightarrow> int \<times> int \<times> int \<Rightarrow> string" where
  "fmt_stats pre unit v =
     (case v of (mn, mx, avg) \<Rightarrow>
        pre @ ''min='' @ fmt_d mn @ unit @ ''  max='' @ fmt_d mx @ unit @ ''  avg='' @ fmt_d avg @ unit @ NL)"

definition proc_show :: "string \<Rightarrow> int \<Rightarrow> rt_demo_data \<Rightarrow> string option" where
  "proc_show preemption HZ d =
     (let head = ''=== RT Kernel Programming Demo ==='' @ NL @ NL @ ''Kernel preemption model: '' @ preemption @ NL @
        ''HZ = '' @ fmt_d HZ @ '' (tick = '' @ fmt_d (c_div 1000000 HZ) @ '' us)'' @ NL @ NL in
      if sample_count d = 0 then Some (head @ ''No samples yet (load module to collect)'' @ NL)
      else
        Option.bind (stats (raw_lock_times d) (sample_count d)) (\<lambda>raw.
        Option.bind (stats (reg_lock_times d) (sample_count d)) (\<lambda>reg.
        let locks = head @ ''Lock Acquisition Latency (ns):'' @ NL @ fmt_stats ''  raw_spinlock: '' [] raw @
              fmt_stats ''  spinlock:     '' [] reg @ NL in
        if timer_fires d > 0 then
          map_option (\<lambda>lat. locks @ ''HRTimer Scheduling Latency (1ms period, '' @ fmt_d (int (timer_fires d)) @ '' fires):'' @ NL @
              fmt_stats ''  '' '' ns'' lat)
            (stats (timer_latencies d) (timer_fires d))
        else Some locks)))"

section \<open>The statistics\<close>

lemma if_min_max: "(if (v :: int) < m then v else m) = min v m" "(if v > m then v else m) = max v m"
  by (simp_all add: min_def max_def)

lemma stats_loop_eq:
  assumes "n \<le> length xs" and "\<forall>x \<in> set (take n xs). -9223372036854775808 \<le> x \<and> x \<le> S64_MAX"
    and "\<forall>k \<le> n. \<bar>sum_list (take k xs)\<bar> \<le> S64_MAX"
  shows "stats_loop xs n (S64_MAX, 0, 0) =
    Some (fold min (take n xs) S64_MAX, fold max (take n xs) 0, sum_list (take n xs))"
  using assms
proof (induction n)
  case (Suc n)
  have t: "take (Suc n) xs = take n xs @ [xs ! n]" using Suc.prems(1) by (simp add: take_Suc_conv_app_nth)
  have "\<bar>sum_list (take (Suc n) xs)\<bar> \<le> S64_MAX" using Suc.prems(3) by blast
  then have "cast_s64 (sum_list (take n xs) + xs ! n) = sum_list (take n xs) + xs ! n"
    by (intro cast_s64_id) (simp_all add: t S64_MAX_def abs_le_iff)
  moreover have "stats_loop xs n (S64_MAX, 0, 0) = Some (fold min (take n xs) S64_MAX, fold max (take n xs) 0, sum_list (take n xs))"
    using Suc t by simp
  ultimately show ?case using Suc.prems(1) by (simp add: t Let_def if_min_max)
qed simp

lemma fold_min_eq: "fold min xs (m :: int) = (if xs = [] then m else min m (Min (set xs)))"
  by (induction xs arbitrary: m) (auto simp: min.assoc Min_insert2 min.left_commute)

lemma fold_max_eq: "fold max xs (m :: int) = (if xs = [] then m else max m (Max (set xs)))"
  by (induction xs arbitrary: m) (auto simp: max.assoc max.left_commute)

lemma sum_list_bounds:
  assumes "\<forall>x \<in> set xs. lo \<le> x \<and> x \<le> (hi :: int)"
  shows "int (length xs) * lo \<le> sum_list xs \<and> sum_list xs \<le> int (length xs) * hi"
  using assms by (induction xs) (auto simp: algebra_simps)

text \<open>
  The statistics of samples that are not negative and whose sum cannot overflow are what they are called: minimum, maximum and
  the average rounded down, which lies between the two.
\<close>

lemma stats_correct:
  assumes n: "0 < n" "n \<le> length xs" and x: "\<forall>x \<in> set (take n xs). 0 \<le> x \<and> x * int n \<le> S64_MAX"
  shows "stats xs n = Some (Min (set (take n xs)), Max (set (take n xs)), sum_list (take n xs) div int n) \<and>
    Min (set (take n xs)) \<le> sum_list (take n xs) div int n \<and> sum_list (take n xs) div int n \<le> Max (set (take n xs))"
proof -
  define ys where "ys = take n xs"
  have ys: "length ys = n" "ys \<noteq> []" using n by (auto simp: ys_def)
  have le: "x \<le> S64_MAX" if "x \<in> set ys" for x
  proof -
    have "x * 1 \<le> x * int n" using n(1) assms(3) that by (intro mult_left_mono) (auto simp: ys_def)
    then show ?thesis using assms(3) that by (auto simp: ys_def)
  qed
  have hi: "\<forall>x \<in> set ys. 0 \<le> x \<and> x \<le> S64_MAX div int n"
  proof
    fix y assume "y \<in> set ys"
    then have "0 \<le> y" "y * int n \<le> S64_MAX" using x by (simp_all add: ys_def)
    then show "0 \<le> y \<and> y \<le> S64_MAX div int n" using zdiv_mono1 [of "y * int n" S64_MAX "int n"] n(1) by simp
  qed
  have part: "\<bar>sum_list (take k xs)\<bar> \<le> S64_MAX" if "k \<le> n" for k
  proof -
    have "set (take k xs) \<subseteq> set ys" using that by (simp add: ys_def set_take_subset_set_take)
    then have b: "0 \<le> sum_list (take k xs)" "sum_list (take k xs) \<le> int (length (take k xs)) * (S64_MAX div int n)"
      using sum_list_bounds [of "take k xs" 0 "S64_MAX div int n"] hi by auto
    note b(2)
    also have "int (length (take k xs)) * (S64_MAX div int n) \<le> int n * (S64_MAX div int n)"
      using that by (intro mult_right_mono) (simp_all add: S64_MAX_def pos_imp_zdiv_nonneg_iff n(1))
    also have "\<dots> \<le> S64_MAX" using n(1) by (simp add: minus_mod_eq_mult_div [symmetric])
    finally show ?thesis using b(1) by simp
  qed
  have "stats_loop xs n (S64_MAX, 0, 0) = Some (fold min ys S64_MAX, fold max ys 0, sum_list ys)"
    unfolding ys_def using part le x by (intro stats_loop_eq n(2)) (auto simp: ys_def)
  moreover have "fold min ys S64_MAX = Min (set ys)" using ys le [OF Min_in] by (simp add: fold_min_eq min_absorb2)
  moreover have "fold max ys 0 = Max (set ys)" using ys x by (simp add: fold_max_eq max_def) (metis Max_in finite_set set_empty ys_def ys(2))
  moreover have s: "int n * Min (set ys) \<le> sum_list ys \<and> sum_list ys \<le> int n * Max (set ys)"
    using sum_list_bounds [of ys "Min (set ys)" "Max (set ys)"] ys by simp
  moreover have "0 \<le> sum_list ys" using sum_list_bounds [of ys 0 S64_MAX] x le by (auto simp: ys_def)
  moreover have "Min (set ys) \<le> sum_list ys div int n"
    using zdiv_mono1 [of "int n * Min (set ys)" "sum_list ys" "int n"] s n(1) by simp
  moreover have "sum_list ys div int n \<le> Max (set ys)"
    using zdiv_mono1 [of "sum_list ys" "int n * Max (set ys)" "int n"] s n(1) by simp
  ultimately show ?thesis using n(1) by (simp add: stats_def ys_def)
qed

section \<open>What the timer measures\<close>

text \<open>
  The timer fires at multiples of a millisecond after its start, late by what \<open>ls\<close> says.
\<close>

definition firing_times :: "int \<Rightarrow> nat \<Rightarrow> int list \<Rightarrow> int list" where
  "firing_times start k ls = map (\<lambda>i. start + 1000000 * int (k + i + 1) + ls ! i) [0..<length ls]"

lemma firing_times_Cons: "firing_times start k (l # ls) = (start + 1000000 * int (k + 1) + l) # firing_times start (k + 1) ls"
proof -
  have "[0..<Suc (length ls)] = 0 # map Suc [0..<length ls]" by (simp only: map_Suc_upt upt_conv_Cons zero_less_Suc One_nat_def)
  then show ?thesis by (simp add: firing_times_def algebra_simps)
qed

text \<open>From the second firing on, the value recorded is the difference of two latencies.\<close>

fun differences :: "int \<Rightarrow> int list \<Rightarrow> int list" where
  "differences prev [] = []"
| "differences prev (l # ls) = (l - prev) # differences l ls"

lemma length_differences [simp]: "length (differences prev ls) = length ls"
  by (induction ls arbitrary: prev) simp_all

lemma sum_differences: "ls \<noteq> [] \<Longrightarrow> sum_list (differences prev ls) = last ls - prev"
proof (induction ls arbitrary: prev)
  case (Cons l ls)
  then show ?case by (cases ls) simp_all
qed simp

lemma forward_next: "0 \<le> l \<Longrightarrow> l < 1000000 \<Longrightarrow> hrtimer_forward (e + l) 1000000 e = e + 1000000"
  by (simp add: hrtimer_forward_def div_pos_pos_trivial)

lemma timer_runs:
  assumes "length (timer_latencies d) = 100" and "k = timer_fires d" and "k + length ls \<le> 100"
    and "0 \<le> start" "start \<le> 4611686018427387904" and "\<forall>l \<in> set ls. 0 \<le> l \<and> l < 1000000" and "-1000000 \<le> prev" "prev < 1000000"
    and "timer_expected d = start + 1000000 * int (k + 1) + prev" and "timer_expires d = start + 1000000 * int (k + 1)"
  shows "\<exists>d'. rt_timer_runs (firing_times start k ls) d = Some d' \<and> timer_fires d' = k + length ls \<and> length (timer_latencies d') = 100 \<and>
    timer_latencies d' = take k (timer_latencies d) @ differences prev ls @ drop (k + length ls) (timer_latencies d) \<and>
    sample_count d' = sample_count d \<and> raw_lock_times d' = raw_lock_times d \<and> reg_lock_times d' = reg_lock_times d"
  using assms
proof (induction ls arbitrary: k d prev)
  case Nil
  then show ?case by (simp add: firing_times_def)
next
  case (Cons l ls)
  define now where "now = start + 1000000 * int (k + 1) + l"
  have l: "0 \<le> l" "l < 1000000" and k: "k < 100" using Cons.prems by simp_all
  have now: "0 \<le> now" "now < 5000000000000000000" using Cons.prems(4,5) l k by (simp_all add: now_def)
  define d1 where "d1 = d\<lparr>timer_latencies := (timer_latencies d)[k := l - prev], timer_fires := k + 1,
    timer_expected := now + 1000000, timer_expires := start + 1000000 * int (k + 2)\<rparr>"
  have sub: "ktime_sub now (timer_expected d) = l - prev" "ktime_add_us now 1000 = now + 1000000"
    using l Cons.prems(7,8) now by (simp_all add: ktime_sub_def ktime_add_us_def Cons.prems(9) now_def)
  have "hrtimer_forward now 1000000 (timer_expires d) = start + 1000000 * int (k + 2)"
    using forward_next [OF l, of "timer_expires d"] by (simp add: now_def Cons.prems(10) algebra_simps)
  then have step: "rt_timer_callback now d = Some (True, d1)"
    using k Cons.prems(1,2) sub by (simp add: rt_timer_callback_def NUM_SAMPLES_def d1_def)
  have "\<exists>d'. rt_timer_runs (firing_times start (k + 1) ls) d1 = Some d' \<and> timer_fires d' = (k + 1) + length ls \<and> length (timer_latencies d') = 100 \<and>
      timer_latencies d' = take (k + 1) (timer_latencies d1) @ differences l ls @ drop ((k + 1) + length ls) (timer_latencies d1) \<and>
      sample_count d' = sample_count d1 \<and> raw_lock_times d' = raw_lock_times d1 \<and> reg_lock_times d' = reg_lock_times d1"
    using Cons.prems l by (intro Cons.IH) (simp_all add: d1_def now_def)
  then obtain d' where d': "rt_timer_runs (firing_times start (k + 1) ls) d1 = Some d'" "timer_fires d' = (k + 1) + length ls"
    "length (timer_latencies d') = 100" "sample_count d' = sample_count d1" "raw_lock_times d' = raw_lock_times d1" "reg_lock_times d' = reg_lock_times d1"
    "timer_latencies d' = take (k + 1) (timer_latencies d1) @ differences l ls @ drop ((k + 1) + length ls) (timer_latencies d1)" by blast
  have "take (k + 1) (timer_latencies d1) = take k (timer_latencies d) @ [l - prev]"
    using k Cons.prems(1) by (simp add: d1_def take_Suc_conv_app_nth)
  moreover have "drop ((k + 1) + length ls) (timer_latencies d1) = drop ((k + 1) + length ls) (timer_latencies d)"
    by (simp add: d1_def)
  ultimately show ?case
    using d' step by (intro exI [of _ d']) (simp add: firing_times_Cons now_def d1_def)
qed

lemma measure_loop_keeps:
  "sample_count (measure_loop clock n d) = sample_count d" "timer_latencies (measure_loop clock n d) = timer_latencies d"
  by (induction n) (simp_all add: Let_def)

text \<open>
  The callback never leaves its array, and asks for at most a hundred firings. When the timer fires late by \<open>ls\<close>, it
  does not record those latencies: it compares each firing with one millisecond after the one before, so the first entry is off by the time between two
  statements of init and every other one is a difference of latencies. Their sum, and with it the average that the report prints, depends on the first and
  last firing only.
\<close>

theorem rt_timer_latencies:
  assumes "ls \<noteq> []" and "length ls \<le> 100" and "\<forall>l \<in> set ls. 0 \<le> l \<and> l < 1000000"
    and "0 \<le> t" "t \<le> t'" "t' - t \<le> 1000000" "t' \<le> 4611686018427387904"
  shows "\<exists>d. rt_timer_runs (firing_times t' 0 ls) (rt_demo_init clock t t') = Some d \<and> timer_fires d = length ls \<and>
    take (length ls) (timer_latencies d) = differences (t - t') ls \<and>
    sum_list (take (length ls) (timer_latencies d)) = last ls + (t' - t)"
proof -
  define d0 where "d0 = rt_demo_init clock t t'"
  have e: "length (timer_latencies d0) = 100" "timer_fires d0 = 0" "timer_expires d0 = t' + 1000000"
    by (simp_all add: d0_def rt_demo_init_def measure_lock_latency_def measure_loop_keeps rt_zero_def NUM_SAMPLES_def)
  have x: "timer_expected d0 = t' + 1000000 * int (0 + 1) + (t - t')"
    using assms(4-7) by (simp add: d0_def rt_demo_init_def ktime_add_us_def)
  obtain d where d: "rt_timer_runs (firing_times t' 0 ls) d0 = Some d" "timer_fires d = 0 + length ls"
    "timer_latencies d = take 0 (timer_latencies d0) @ differences (t - t') ls @ drop (0 + length ls) (timer_latencies d0)"
  proof -
    have "\<exists>d. rt_timer_runs (firing_times t' 0 ls) d0 = Some d \<and> timer_fires d = 0 + length ls \<and> length (timer_latencies d) = 100 \<and>
        timer_latencies d = take 0 (timer_latencies d0) @ differences (t - t') ls @ drop (0 + length ls) (timer_latencies d0) \<and>
        sample_count d = sample_count d0 \<and> raw_lock_times d = raw_lock_times d0 \<and> reg_lock_times d = reg_lock_times d0"
      using e(1) e(2) [symmetric] _ _ _ assms(3) _ _ x
    proof (rule timer_runs)
      show "0 + length ls \<le> 100" "0 \<le> t'" "t' \<le> 4611686018427387904" "- 1000000 \<le> t - t'" "t - t' < 1000000"
        "timer_expires d0 = t' + 1000000 * int (0 + 1)"
        using assms(2,4-7) e(3) by simp_all
    qed
    then show thesis using that by blast
  qed
  then show ?thesis using assms(1) sum_differences [OF assms(1), of "t - t'"] by (simp add: d0_def)
qed

text \<open>Latencies of 5000, 2000 and 9000 nanoseconds are recorded as 5000, -3000 and 7000; the report then says 7000 at most.\<close>

lemma rt_timer_latencies_witness:
  "\<exists>d. rt_timer_runs (firing_times 0 0 [5000, 2000, 9000]) (rt_demo_init (\<lambda>_. 0) 0 0) = Some d \<and> timer_fires d = 3 \<and>
     take 3 (timer_latencies d) = [5000, -3000, 7000] \<and> stats (timer_latencies d) 3 = Some (-3000, 7000, 3000)"
proof -
  obtain d where d: "rt_timer_runs (firing_times 0 0 [5000, 2000, 9000]) (rt_demo_init (\<lambda>_. 0) 0 0) = Some d" "timer_fires d = 3"
    "take 3 (timer_latencies d) = [5000, -3000, 7000]"
    using rt_timer_latencies [of "[5000, 2000, 9000]" 0 0 "\<lambda>_. 0"] by (auto simp: eval_nat_numeral)
  have n: "length (timer_latencies d) \<ge> 3" using arg_cong [OF d(3), of length] by simp
  have "timer_latencies d ! i = [5000, -3000, 7000] ! i" if "i < 3" for i
    using d(3) that by (metis nth_take)
  note this [of 0] this [of 1] this [of 2] n
  moreover have "timer_latencies d \<noteq> []" using n by auto
  ultimately have "stats (timer_latencies d) 3 = Some (-3000, 7000, 3000)"
    by (simp add: stats_def eval_nat_numeral Let_def S64_MAX_def)
  with d show ?thesis by blast
qed

end
