(* ===== verification/SchedLabs.thy ===== *)
theory SchedLabs
  imports Bytes
begin

text \<open>
  The scheduling labs of SystemProgramming/Handson: sched_demo.c of lab10_scheduling and \<open>demo_thread_policies\<close> of thread_sched.c of lab11_thread_sched (policies, priorities and nice
  values), and cpu_pinning.c of lab19_cpu_pinning (sets of processors). The scheduling state of a process is what the documented calls read and change; a process without
  the rights cannot lower its nice value or get a real-time policy.
\<close>

unbundle bit_operations_syntax

section \<open>Policies\<close>

abbreviation (input) SCHED_OTHER :: int where "SCHED_OTHER \<equiv> 0"
abbreviation (input) SCHED_FIFO :: int where "SCHED_FIFO \<equiv> 1"
abbreviation (input) SCHED_RR :: int where "SCHED_RR \<equiv> 2"
abbreviation (input) SCHED_BATCH :: int where "SCHED_BATCH \<equiv> 3"
abbreviation (input) SCHED_IDLE :: int where "SCHED_IDLE \<equiv> 5"

definition policy_str :: "int \<Rightarrow> string" where
  "policy_str p = (if p = SCHED_OTHER then ''OTHER'' else if p = SCHED_FIFO then ''FIFO'' else if p = SCHED_RR then ''RR'' else ''???'')"

definition policy_name :: "int \<Rightarrow> string" where
  "policy_name policy =
     (if policy = SCHED_OTHER then ''SCHED_OTHER (CFS)'' else if policy = SCHED_FIFO then ''SCHED_FIFO'' else if policy = SCHED_RR then ''SCHED_RR''
      else if policy = SCHED_BATCH then ''SCHED_BATCH'' else if policy = SCHED_IDLE then ''SCHED_IDLE'' else ''Unknown'')"

text \<open>What a process is scheduled by; whether it has the rights.\<close>

record sched =
  rights :: bool
  policy :: int
  sched_priority :: int
  nice_value :: int

text \<open>The documented calls: the range of priorities of a policy, and the change of policy.\<close>

definition priority_range :: "int \<Rightarrow> int \<times> int" where
  "priority_range p = (if p = SCHED_FIFO \<or> p = SCHED_RR then (1, 99) else (0, 0))"

definition sched_setscheduler :: "int \<Rightarrow> int \<Rightarrow> sched \<Rightarrow> int \<times> sched" where
  "sched_setscheduler p pri s =
     (if pri < fst (priority_range p) \<or> snd (priority_range p) < pri then (- EINVAL, s)
      else if (p = SCHED_FIFO \<or> p = SCHED_RR) \<and> \<not> rights s then (- EPERM, s)
      else (0, s\<lparr>policy := p, sched_priority := pri\<rparr>))"

text \<open>\<open>nice\<close>: the increment is added to the value, which stays between -20 and 19.\<close>

definition nice :: "int \<Rightarrow> sched \<Rightarrow> int \<times> sched" where
  "nice inc s =
     (if inc < 0 \<and> \<not> rights s then (- EPERM, s)
      else let n = max (- 20) (min 19 (nice_value s + inc)) in (0, s\<lparr>nice_value := n\<rparr>))"

section \<open>sched\_demo\<close>

definition range_line :: "int \<Rightarrow> string" where
  "range_line p = ''    '' @ pad_right 20 (policy_name p) @ '' min='' @ fmt_d (fst (priority_range p)) @ '' max='' @ fmt_d (snd (priority_range p)) @ NL"

text \<open>The time quantum, in seconds and nanoseconds, if the call succeeds.\<close>

definition demo_query_sched :: "int \<Rightarrow> (int \<times> int) option \<Rightarrow> sched \<Rightarrow> string list" where
  "demo_query_sched pid quantum s =
     [''--- Demo 1: Current Scheduling Info ---'' @ NL, ''  PID:      '' @ fmt_d pid @ NL, ''  Policy:   '' @ policy_name (policy s) @ NL,
      ''  Priority: '' @ fmt_d (sched_priority s) @ NL, ''  Nice:     '' @ fmt_d (nice_value s) @ NL, NL @ ''  Priority ranges:'' @ NL] @
     map range_line [SCHED_OTHER, SCHED_FIFO, SCHED_RR, SCHED_BATCH, SCHED_IDLE] @
     (case quantum of None \<Rightarrow> [] | Some (tv_sec, tv_nsec) \<Rightarrow> [NL @ ''  RR time quantum: '' @ fmt_d (tv_sec * 1000 + c_div tv_nsec 1000000) @ '' ms'' @ NL])"

definition demo_nice :: "sched \<Rightarrow> string list \<times> sched" where
  "demo_nice s =
     (let (e1, s1) = nice 5 s;
          (e2, s2) = nice (- 5) s1
      in ([NL @ ''--- Demo 2: Nice Values ---'' @ NL, ''  Current nice: '' @ fmt_d (nice_value s) @ NL] @
          (if e1 = 0 then [''  After nice(5): '' @ fmt_d (nice_value s1) @ NL] else []) @
          [if e2 \<noteq> 0 then ''  nice(-5): Permission denied (need root)'' @ NL else ''  After nice(-5): '' @ fmt_d (nice_value s2) @ NL], s2))"

definition demo_realtime :: "(int \<Rightarrow> string) \<Rightarrow> sched \<Rightarrow> string list \<times> sched" where
  "demo_realtime strerror s = (if \<not> rights s
     then ([NL @ ''--- Demo 3: Real-Time Scheduling ---'' @ NL, ''  [SKIP] Requires root. Run with: sudo sched_demo'' @ NL], s)
     else
       (let (e1, s1) = sched_setscheduler SCHED_FIFO 50 s;
            (e2, s2) = sched_setscheduler SCHED_RR 30 s1;
            (e3, s3) = sched_setscheduler SCHED_OTHER 0 s2
        in ([NL @ ''--- Demo 3: Real-Time Scheduling ---'' @ NL,
             if e1 = 0 then ''  Set SCHED_FIFO with priority 50'' @ NL else ''  sched_setscheduler FIFO: '' @ strerror (- e1) @ NL,
             ''  Current: '' @ policy_name (policy s1) @ '', priority='' @ fmt_d (sched_priority s1) @ NL] @
            (if e2 = 0 then [''  Switched to SCHED_RR with priority 30'' @ NL] else []) @ [''  Back to SCHED_OTHER'' @ NL], s3)))"

text \<open>The children of the competition: the label of each and the nice value that it runs with. A child starts with that of its parent.\<close>

definition competitor :: "sched \<Rightarrow> int \<Rightarrow> string \<times> int" where
  "competitor s nice_val =
     (''nice='' @ fmt_d nice_val,
      nice_value (if nice_val < 0 \<and> rights s then snd (nice nice_val s) else if nice_val \<ge> 0 then snd (nice nice_val s) else s))"

definition demo_priority_competition :: "sched \<Rightarrow> (string \<times> int) list" where
  "demo_priority_competition s = map (competitor s) [- 10, 0, 10]"

lemma nice_bounds:
  assumes "- 20 \<le> nice_value s \<and> nice_value s \<le> 19"
  shows "- 20 \<le> nice_value (snd (nice inc s)) \<and> nice_value (snd (nice inc s)) \<le> 19" and "0 \<le> inc \<Longrightarrow> nice_value s \<le> nice_value (snd (nice inc s))"
  using assms by (auto simp: nice_def Let_def)

lemma demo_realtime_restores:
  "rights s \<Longrightarrow> snd (demo_realtime strerror s) = s\<lparr>policy := SCHED_OTHER, sched_priority := 0\<rparr>"
  "\<not> rights s \<Longrightarrow> snd (demo_realtime strerror s) = s"
  by (simp_all add: demo_realtime_def sched_setscheduler_def priority_range_def)

lemma demo_realtime_lines:
  assumes "rights s"
  shows "fst (demo_realtime strerror s) =
    [NL @ ''--- Demo 3: Real-Time Scheduling ---'' @ NL, ''  Set SCHED_FIFO with priority 50'' @ NL, ''  Current: SCHED_FIFO, priority=50'' @ NL,
     ''  Switched to SCHED_RR with priority 30'' @ NL, ''  Back to SCHED_OTHER'' @ NL]"
proof -
  have "fmt_d 50 = ''50''" by (simp add: fmt_d_def dec.simps digit_def)
  then show ?thesis using assms by (simp add: demo_realtime_def sched_setscheduler_def priority_range_def policy_name_def)
qed

text \<open>With the rights the competition is that of the labels. Without them the nice value that the second demonstration has raised stays, so that two of the three children have
  the same, and none that of its label.\<close>

lemma competition_root:
  assumes "rights s" and "nice_value s = 0"
  shows "map snd (demo_priority_competition (snd (demo_nice s))) = [- 10, 0, 10]"
  using assms by (simp add: demo_priority_competition_def competitor_def demo_nice_def nice_def)

lemma competition_user:
  assumes "\<not> rights s" and "nice_value s = 0"
  shows "map snd (demo_priority_competition (snd (demo_nice s))) = [5, 5, 15]"
  using assms by (simp add: demo_priority_competition_def competitor_def demo_nice_def nice_def)

section \<open>Threads with a policy\<close>

record thread_info =
  thread_id :: nat
  info_policy :: int
  info_priority :: int

text \<open>The line of a thread that has got what was asked for.\<close>

definition sched_thread :: "thread_info \<Rightarrow> sched \<Rightarrow> string" where
  "sched_thread info actual = ''  [Thread '' @ fmt_d (int (thread_id info)) @ ''] Policy='' @ pad_right 5 (policy_str (policy actual)) @ '' Priority='' @
     fmt_d (sched_priority actual) @ '' (requested: '' @ policy_str (info_policy info) @ ''/'' @ fmt_d (info_priority info) @ '')'' @ NL"

definition thread_configs :: "thread_info list" where
  "thread_configs =
     [\<lparr>thread_id = 0, info_policy = SCHED_OTHER, info_priority = 0\<rparr>, \<lparr>thread_id = 1, info_policy = SCHED_FIFO, info_priority = 10\<rparr>,
      \<lparr>thread_id = 2, info_policy = SCHED_FIFO, info_priority = 50\<rparr>, \<lparr>thread_id = 3, info_policy = SCHED_RR, info_priority = 30\<rparr>]"

text \<open>The line that belongs to each configuration; in which order the threads print them is not fixed. The thread is created with the scheduling of its attributes.\<close>

definition thread_line :: "(int \<Rightarrow> string) \<Rightarrow> sched \<Rightarrow> thread_info \<Rightarrow> string" where
  "thread_line strerror s c =
     (let (err, actual) = sched_setscheduler (info_policy c) (info_priority c) s
      in if err \<noteq> 0 then ''  [Thread '' @ fmt_d (int (thread_id c)) @ ''] Create failed: '' @ strerror (- err) @ NL else sched_thread c actual)"

definition demo_thread_policies :: "(int \<Rightarrow> string) \<Rightarrow> sched \<Rightarrow> string list" where
  "demo_thread_policies strerror s = (''--- Demo 1: Per-Thread Scheduling Policies ---'' @ NL) #
     (if \<not> rights s then [''  [SKIP] Requires root.'' @ NL] else map (thread_line strerror s) thread_configs)"

lemma thread_gets_requested:
  assumes "rights s" and "c \<in> set thread_configs"
  shows "fst (sched_setscheduler (info_policy c) (info_priority c) s) = 0"
    and "policy (snd (sched_setscheduler (info_policy c) (info_priority c) s)) = info_policy c"
    and "sched_priority (snd (sched_setscheduler (info_policy c) (info_priority c) s)) = info_priority c"
  using assms by (auto simp: thread_configs_def sched_setscheduler_def priority_range_def)

section \<open>Sets of processors\<close>

text \<open>\<open>cpu_set_t\<close> has 1024 bits; the macros ignore numbers outside.\<close>

type_synonym cpu_set = "1024 word"

definition CPU_ZERO :: cpu_set where "CPU_ZERO = 0"

definition CPU_SET :: "int \<Rightarrow> cpu_set \<Rightarrow> cpu_set" where
  "CPU_SET i m = (if 0 \<le> i \<and> i < 1024 then set_bit (nat i) m else m)"

definition CPU_ISSET :: "int \<Rightarrow> cpu_set \<Rightarrow> bool" where
  "CPU_ISSET i m \<longleftrightarrow> 0 \<le> i \<and> i < 1024 \<and> bit m (nat i)"

definition CPU_COUNT :: "cpu_set \<Rightarrow> nat" where
  "CPU_COUNT m = length (filter (bit m) [0..<1024])"

definition members :: "int \<Rightarrow> cpu_set \<Rightarrow> string" where
  "members n m = concat (map (\<lambda>i. if CPU_ISSET i m then fmt_d i @ '' '' else []) [0..n - 1])"

lemma CPU_ISSET_simps [simp]:
  "\<not> CPU_ISSET i CPU_ZERO"
  "CPU_ISSET i (CPU_SET j m) \<longleftrightarrow> (i = j \<and> 0 \<le> j \<and> j < 1024) \<or> CPU_ISSET i m"
  "CPU_ISSET i (a AND b) \<longleftrightarrow> CPU_ISSET i a \<and> CPU_ISSET i b"
  "CPU_ISSET i (a OR b) \<longleftrightarrow> CPU_ISSET i a \<or> CPU_ISSET i b"
  "CPU_ISSET i (a XOR b) \<longleftrightarrow> CPU_ISSET i a \<noteq> CPU_ISSET i b"
  by (auto simp: CPU_ISSET_def CPU_ZERO_def CPU_SET_def bit_simps)

lemma cpu_set_eq_iff: "a = b \<longleftrightarrow> (\<forall>i. CPU_ISSET i a = CPU_ISSET i b)"
proof
  assume *: "\<forall>i. CPU_ISSET i a = CPU_ISSET i b"
  have "bit a n = bit b n" if "n < 1024" for n using * [rule_format, of "int n"] that by (simp add: CPU_ISSET_def)
  then show "a = b" by (intro bit_word_eqI) simp
qed simp

lemma CPU_COUNT_card: "CPU_COUNT m = card {i. CPU_ISSET i m}"
proof -
  have "{i. CPU_ISSET i m} = int ` {n. n < 1024 \<and> bit m n}" by (force simp: CPU_ISSET_def image_iff intro: exI [where x = "nat i" for i])
  then have "card {i. CPU_ISSET i m} = card {n. n < 1024 \<and> bit m n}" by (simp add: card_image)
  also have "\<dots> = card (set (filter (bit m) [0..<1024]))" by (rule arg_cong [where f = card]) auto
  also have "\<dots> = CPU_COUNT m" unfolding CPU_COUNT_def by (rule distinct_card) simp
  finally show ?thesis ..
qed

section \<open>cpu\_pinning\<close>

text \<open>The documented call: a process can be pinned to the processors that are available to it; none of them is an error.\<close>

definition sched_setaffinity :: "cpu_set \<Rightarrow> cpu_set \<Rightarrow> cpu_set \<Rightarrow> int \<times> cpu_set" where
  "sched_setaffinity avail m cur = (if m AND avail = 0 then (- EINVAL, cur) else (0, m AND avail))"

definition demo_topology :: "int \<Rightarrow> int \<Rightarrow> cpu_set option \<Rightarrow> string list" where
  "demo_topology ncpus_conf ncpus affinity =
     [''=== Demo 1: CPU Topology ==='' @ NL, ''  CPUs configured: '' @ fmt_d ncpus_conf @ NL, ''  CPUs online:     '' @ fmt_d ncpus @ NL] @
     (case affinity of None \<Rightarrow> []
      | Some m \<Rightarrow> [''  Current affinity: '' @ members ncpus_conf m @ NL, ''  Affinity count:   '' @ fmt_d (int (CPU_COUNT m)) @ NL])"

definition first_cpus :: "int \<Rightarrow> cpu_set" where
  "first_cpus ncpus = fold CPU_SET [0..ncpus - 1] CPU_ZERO"

text \<open>\<open>getcpu\<close> is the processor that the process is on when it asks.\<close>

definition demo_pin_process :: "(int \<Rightarrow> string) \<Rightarrow> int \<Rightarrow> int \<Rightarrow> cpu_set \<Rightarrow> (cpu_set \<Rightarrow> int) \<Rightarrow> cpu_set \<Rightarrow> string list \<times> cpu_set" where
  "demo_pin_process strerror pid ncpus avail getcpu cur =
     (let target_cpu = 0;
          (r, cur1) = sched_setaffinity avail (CPU_SET target_cpu CPU_ZERO) cur;
          (r2, cur2) = sched_setaffinity avail (first_cpus ncpus) cur1
      in ([NL @ ''=== Demo 2: Pin Process to CPU ==='' @ NL, ''  Pinning PID '' @ fmt_d pid @ '' to CPU '' @ fmt_d target_cpu @ ''...'' @ NL,
           if r = 0 then ''  Success! Running on CPU '' @ fmt_d (getcpu cur1) @ NL else ''  sched_setaffinity: '' @ strerror (- r) @ NL,
           ''  Restored to all CPUs'' @ NL], cur2))"

record thread_arg =
  ta_cpu :: int
  ta_thread_id :: int

definition pinned_thread :: "cpu_set \<Rightarrow> (cpu_set \<Rightarrow> int) \<Rightarrow> cpu_set \<Rightarrow> thread_arg \<Rightarrow> string" where
  "pinned_thread avail getcpu cur ta =
     (let (r, cur1) = sched_setaffinity avail (CPU_SET (ta_cpu ta) CPU_ZERO) cur
      in if r = 0 then ''  Thread '' @ fmt_d (ta_thread_id ta) @ '': pinned to CPU '' @ fmt_d (ta_cpu ta) @ '', running on CPU '' @ fmt_d (getcpu cur1) @ NL
         else ''  Thread '' @ fmt_d (ta_thread_id ta) @ '': failed to pin to CPU '' @ fmt_d (ta_cpu ta) @ NL)"

definition pin_args :: "int \<Rightarrow> thread_arg list" where
  "pin_args ncpus = map (\<lambda>i. \<lparr>ta_cpu = c_mod i ncpus, ta_thread_id = i\<rparr>) [0..(if ncpus < 4 then ncpus else 4) - 1]"

definition demo_pin_threads :: "int \<Rightarrow> cpu_set \<Rightarrow> (cpu_set \<Rightarrow> int) \<Rightarrow> cpu_set \<Rightarrow> string list" where
  "demo_pin_threads ncpus avail getcpu cur = map (pinned_thread avail getcpu cur) (pin_args ncpus)"

definition demo_cpuset_ops :: "string list" where
  "demo_cpuset_ops =
     (let set1 = CPU_SET 1 (CPU_SET 0 CPU_ZERO); set2 = CPU_SET 2 (CPU_SET 1 CPU_ZERO)
      in [NL @ ''=== Demo 4: cpu_set_t Operations ==='' @ NL, ''  Set1: {0, 1}'' @ NL, ''  Set2: {1, 2}'' @ NL,
          ''  AND:  {'' @ members 4 (set1 AND set2) @ ''}'' @ NL, ''  OR:   {'' @ members 4 (set1 OR set2) @ ''}'' @ NL,
          ''  XOR:  {'' @ members 4 (set1 XOR set2) @ ''}'' @ NL, ''  Set1 == Set2: '' @ (if set1 = set2 then ''yes'' else ''no'') @ NL])"

text \<open>\<open>None\<close>: the name of a policy is read outside the array.\<close>

definition policy_names :: "string list" where "policy_names = [''SCHED_OTHER'', ''SCHED_FIFO'', ''SCHED_RR'']"

definition range_text :: "int \<Rightarrow> string" where
  "range_text p = fmt_d (fst (priority_range p)) @ '' - '' @ fmt_d (snd (priority_range p))"

definition demo_sched_policy :: "sched \<Rightarrow> (string list \<times> sched) option" where
  "demo_sched_policy s = (if policy s < 0 then None else
     (let (r, s1) = sched_setscheduler SCHED_FIFO 10 s;
          (_, s2) = sched_setscheduler SCHED_OTHER 0 s1
      in Some ([NL @ ''=== Demo 5: Scheduling Policy + Pinning ==='' @ NL,
           ''  Current policy: '' @ (if policy s < 3 then policy_names ! nat (policy s) else ''unknown'') @ '' (priority '' @ fmt_d (sched_priority s) @ '')'' @ NL,
           ''  Priority range for SCHED_FIFO: '' @ range_text SCHED_FIFO @ NL, ''  Priority range for SCHED_RR:   '' @ range_text SCHED_RR @ NL,
           if r = 0 then ''  Set SCHED_FIFO priority 10'' @ DASH @ ''OK'' @ NL else ''  Cannot set SCHED_FIFO (need root/CAP_SYS_NICE)'' @ NL],
          if r = 0 then s2 else s)))"

lemma first_cpus_members: "CPU_ISSET i (first_cpus n) \<longleftrightarrow> 0 \<le> i \<and> i < n \<and> i < 1024"
proof -
  have "CPU_ISSET i (fold CPU_SET js m) \<longleftrightarrow> (i \<in> set js \<and> 0 \<le> i \<and> i < 1024) \<or> CPU_ISSET i m" for js m
    by (induction js arbitrary: m) auto
  then show ?thesis by (auto simp: first_cpus_def)
qed

lemma and_zero: "a AND b = CPU_ZERO \<longleftrightarrow> (\<forall>i. \<not> (CPU_ISSET i a \<and> CPU_ISSET i b))"
  by (auto simp: cpu_set_eq_iff)

text \<open>A thread that is pinned runs where it should, since there is no other processor in its set.\<close>

lemma pinned_runs_there:
  assumes "sched_setaffinity avail (CPU_SET c CPU_ZERO) cur = (0, cur1)" and "CPU_ISSET (getcpu cur1) cur1"
  shows "getcpu cur1 = c \<and> CPU_COUNT cur1 = 1"
proof -
  have cur1: "cur1 = CPU_SET c CPU_ZERO AND avail" using assms(1) by (auto simp: sched_setaffinity_def split: if_splits)
  then have i: "CPU_ISSET i cur1 \<longleftrightarrow> i = c \<and> 0 \<le> c \<and> c < 1024 \<and> CPU_ISSET i avail" for i by auto
  then have "{i. CPU_ISSET i cur1} = {c}" using assms(2) by auto
  then show ?thesis using assms(2) i by (simp add: CPU_COUNT_card)
qed

lemma c_mod_small: "0 \<le> i \<Longrightarrow> i < n \<Longrightarrow> c_mod i n = i"
  by (simp add: c_mod_def c_div_def)

lemma pin_threads_spread:
  assumes "1 \<le> n"
  shows "map ta_cpu (pin_args n) = [0..min n 4 - 1]" and "map ta_thread_id (pin_args n) = [0..min n 4 - 1]"
proof -
  have "c_mod i n = i" if "i \<in> set [0..min n 4 - 1]" for i using that by (intro c_mod_small) auto
  then have "map (\<lambda>i. c_mod i n) [0..min n 4 - 1] = map (\<lambda>i. i) [0..min n 4 - 1]" by (rule map_cong [OF refl])
  moreover have m: "(if n < 4 then n else 4) = min n 4" by simp
  ultimately show "map ta_cpu (pin_args n) = [0..min n 4 - 1]" unfolding pin_args_def m by (simp add: comp_def)
  show "map ta_thread_id (pin_args n) = [0..min n 4 - 1]" unfolding pin_args_def m by (simp add: comp_def)
qed

text \<open>What is called restored is the first \<open>ncpus\<close> processors of those available: a process that was confined to some of them is not any more.\<close>

lemma demo_pin_process_affinity:
  assumes "0 < ncpus" and "CPU_ISSET 0 avail"
  shows "CPU_ISSET i (snd (demo_pin_process strerror pid ncpus avail getcpu cur)) \<longleftrightarrow> 0 \<le> i \<and> i < ncpus \<and> CPU_ISSET i avail"
proof -
  have "first_cpus ncpus AND avail \<noteq> CPU_ZERO" using assms by (auto simp: and_zero first_cpus_members intro: exI [where x = 0])
  moreover have "CPU_ISSET i avail \<Longrightarrow> i < 1024" by (simp add: CPU_ISSET_def)
  ultimately show ?thesis
    by (auto simp: demo_pin_process_def sched_setaffinity_def first_cpus_members CPU_ZERO_def split: prod.splits if_splits)
qed

lemma demo_pin_process_widens:
  "\<not> CPU_ISSET 3 (CPU_SET 1 CPU_ZERO) \<and> CPU_ISSET 3 (snd (demo_pin_process strerror pid 4 (first_cpus 4) getcpu (CPU_SET 1 CPU_ZERO)))"
  using demo_pin_process_affinity [of 4 "first_cpus 4" 3 strerror pid getcpu "CPU_SET 1 CPU_ZERO"] by (simp add: first_cpus_members)

lemma small_numbers: "fmt_d 0 = ''0''" "fmt_d 1 = ''1''" "fmt_d 2 = ''2''" "fmt_d 3 = ''3''"
  by (simp_all add: fmt_d_def dec.simps digit_def)

text \<open>What the operations on sets print: each number is followed by a blank, also the last.\<close>

lemma demo_cpuset_ops_lines: "demo_cpuset_ops =
  [NL @ ''=== Demo 4: cpu_set_t Operations ==='' @ NL, ''  Set1: {0, 1}'' @ NL, ''  Set2: {1, 2}'' @ NL, ''  AND:  {1 }'' @ NL, ''  OR:   {0 1 2 }'' @ NL,
   ''  XOR:  {0 2 }'' @ NL, ''  Set1 == Set2: no'' @ NL]"
proof -
  have u: "[0..4 - 1] = [0, 1, 2, 3 :: int]" by (simp add: upto_rec1)
  have ne: "CPU_SET 1 (CPU_SET 0 CPU_ZERO) \<noteq> CPU_SET 2 (CPU_SET 1 CPU_ZERO)"
  proof
    assume e: "CPU_SET 1 (CPU_SET 0 CPU_ZERO) = CPU_SET 2 (CPU_SET 1 CPU_ZERO)"
    have "CPU_ISSET 0 (CPU_SET 1 (CPU_SET 0 CPU_ZERO))" by simp
    then show False unfolding e by simp
  qed
  show ?thesis unfolding demo_cpuset_ops_def Let_def members_def u by (simp add: ne small_numbers)
qed

lemma demo_topology_count: "demo_topology c n (Some (first_cpus 3)) ! 4 = ''  Affinity count:   3'' @ NL"
proof -
  have "{i. CPU_ISSET i (first_cpus 3)} = {0, 1, 2}" by (auto simp: first_cpus_members)
  then have "CPU_COUNT (first_cpus 3) = 3" by (simp add: CPU_COUNT_card)
  then show ?thesis by (simp add: demo_topology_def small_numbers)
qed

lemma demo_sched_policy_restores: "policy s = SCHED_OTHER \<Longrightarrow> sched_priority s = 0 \<Longrightarrow> \<exists>ls. demo_sched_policy s = Some (ls, s)"
  by (auto simp: demo_sched_policy_def sched_setscheduler_def priority_range_def split: prod.splits if_splits)

text \<open>A process that had a real-time policy has lost it afterwards.\<close>

lemma demo_sched_policy_loses:
  assumes "rights s" and "policy s = SCHED_RR"
  shows "\<exists>ls. demo_sched_policy s = Some (ls, s\<lparr>policy := SCHED_OTHER, sched_priority := 0\<rparr>)"
  using assms by (simp add: demo_sched_policy_def sched_setscheduler_def priority_range_def)

end
