(* ===== verification/ShmRing.thy ===== *)
theory ShmRing
  imports Bytes
begin

text \<open>
  The two processes of SystemProgramming/Handson/lab09_ipc/shm_demo.c from the \<open>fork\<close> on: the child produces twenty items into a
  ring of eight places in shared memory, the parent consumes them; three semaphores order their accesses. Each access to
  shared memory is a step of its own, and a schedule says which process takes the next step. A step that would wait is not
  possible. What the processes print is kept apart, in order.
\<close>

section \<open>State\<close>

definition RING_SIZE :: nat where "RING_SIZE = 8"
definition SHM_ITEMS :: nat where "SHM_ITEMS = 20"

record shared_ring =
  r_buffer :: "int list"
  r_head :: nat
  r_tail :: nat
  r_produced :: nat
  r_consumed :: nat

text \<open>
  Where a process is in round \<open>i\<close> of its loop: before the two calls of \<open>sem_wait\<close>, before the access to the buffer, the change of
  the index, that of the counter and the report, before the two calls of \<open>sem_post\<close>. After the loop the child
  has left; the parent waits for it, and has then ended. The second argument is the local variable \<open>val\<close>.
\<close>

datatype shm_place =
    WaitTurn nat | WaitMutex nat | Access nat | Advance nat int | Count nat int | Report nat int | PostMutex nat | PostTurn nat
  | LoopDone | Ended

record shm_world =
  ring :: shared_ring
  sem_prod :: nat
  sem_cons :: nat
  sem_mutex :: nat
  child :: shm_place
  parent :: shm_place
  child_out :: "string list"
  parent_out :: "string list"

definition ring_zero :: shared_ring where
  "ring_zero = \<lparr>r_buffer = replicate RING_SIZE 0, r_head = 0, r_tail = 0, r_produced = 0, r_consumed = 0\<rparr>"

definition loop_at :: "nat \<Rightarrow> shm_place" where
  "loop_at i = (if i < SHM_ITEMS then WaitTurn i else LoopDone)"

text \<open>A failure of \<open>fork\<close> is not noticed: the parent runs as the consumer and there is no child.\<close>

definition shm_start :: "bool \<Rightarrow> shm_world" where
  "shm_start forked = \<lparr>ring = ring_zero, sem_prod = RING_SIZE, sem_cons = 0, sem_mutex = 1,
     child = (if forked then loop_at 0 else Ended), parent = loop_at 0, child_out = [], parent_out = []\<rparr>"

section \<open>Steps\<close>

definition produced_line :: "int \<Rightarrow> nat \<Rightarrow> nat \<Rightarrow> string" where
  "produced_line v head n =
     ''  [Producer] Produced '' @ fmt_d v @ ''  (head='' @ fmt_d (int head) @ '', total='' @ fmt_d (int n) @ '')'' @ NL"

definition consumed_line :: "int \<Rightarrow> nat \<Rightarrow> nat \<Rightarrow> string" where
  "consumed_line v tail n =
     ''  [Consumer] Consumed '' @ fmt_d v @ ''  (tail='' @ fmt_d (int tail) @ '', total='' @ fmt_d (int n) @ '')'' @ NL"

definition final_line :: "shared_ring \<Rightarrow> string" where
  "final_line r = NL @ ''Final: produced='' @ fmt_d (int (r_produced r)) @ '', consumed='' @ fmt_d (int (r_consumed r)) @ NL"

definition child_step :: "shm_world \<Rightarrow> shm_world option" where
  "child_step s = (case child s of
     WaitTurn i \<Rightarrow> if sem_prod s = 0 then None else Some (s\<lparr>sem_prod := sem_prod s - 1, child := WaitMutex i\<rparr>)
   | WaitMutex i \<Rightarrow> if sem_mutex s = 0 then None else Some (s\<lparr>sem_mutex := sem_mutex s - 1, child := Access i\<rparr>)
   | Access i \<Rightarrow> Some (s\<lparr>ring := (ring s)\<lparr>r_buffer := (r_buffer (ring s))[r_head (ring s) := int i * 10]\<rparr>, child := Advance i 0\<rparr>)
   | Advance i v \<Rightarrow> Some (s\<lparr>ring := (ring s)\<lparr>r_head := (r_head (ring s) + 1) mod RING_SIZE\<rparr>, child := Count i v\<rparr>)
   | Count i v \<Rightarrow> Some (s\<lparr>ring := (ring s)\<lparr>r_produced := r_produced (ring s) + 1\<rparr>, child := Report i v\<rparr>)
   | Report i v \<Rightarrow> Some (s\<lparr>child_out := child_out s @ [produced_line (int i * 10) (r_head (ring s)) (r_produced (ring s))],
       child := PostMutex i\<rparr>)
   | PostMutex i \<Rightarrow> Some (s\<lparr>sem_mutex := sem_mutex s + 1, child := PostTurn i\<rparr>)
   | PostTurn i \<Rightarrow> Some (s\<lparr>sem_cons := sem_cons s + 1, child := loop_at (i + 1)\<rparr>)
   | LoopDone \<Rightarrow> Some (s\<lparr>child := Ended\<rparr>)
   | Ended \<Rightarrow> None)"

definition parent_step :: "shm_world \<Rightarrow> shm_world option" where
  "parent_step s = (case parent s of
     WaitTurn i \<Rightarrow> if sem_cons s = 0 then None else Some (s\<lparr>sem_cons := sem_cons s - 1, parent := WaitMutex i\<rparr>)
   | WaitMutex i \<Rightarrow> if sem_mutex s = 0 then None else Some (s\<lparr>sem_mutex := sem_mutex s - 1, parent := Access i\<rparr>)
   | Access i \<Rightarrow> Some (s\<lparr>parent := Advance i (r_buffer (ring s) ! r_tail (ring s))\<rparr>)
   | Advance i v \<Rightarrow> Some (s\<lparr>ring := (ring s)\<lparr>r_tail := (r_tail (ring s) + 1) mod RING_SIZE\<rparr>, parent := Count i v\<rparr>)
   | Count i v \<Rightarrow> Some (s\<lparr>ring := (ring s)\<lparr>r_consumed := r_consumed (ring s) + 1\<rparr>, parent := Report i v\<rparr>)
   | Report i v \<Rightarrow> Some (s\<lparr>parent_out := parent_out s @ [consumed_line v (r_tail (ring s)) (r_consumed (ring s))],
       parent := PostMutex i\<rparr>)
   | PostMutex i \<Rightarrow> Some (s\<lparr>sem_mutex := sem_mutex s + 1, parent := PostTurn i\<rparr>)
   | PostTurn i \<Rightarrow> Some (s\<lparr>sem_prod := sem_prod s + 1, parent := loop_at (i + 1)\<rparr>)
   | LoopDone \<Rightarrow> if child s = Ended then Some (s\<lparr>parent := Ended, parent_out := parent_out s @ [final_line (ring s)]\<rparr>) else None
   | Ended \<Rightarrow> None)"

datatype shm_process = Child | Parent

text \<open>There are finitely many processes, so statements about all of them can be computed.\<close>

instantiation shm_process :: enum
begin

definition enum_shm_process :: "shm_process list" where
  "enum_shm_process = [Child, Parent]"

definition enum_all_shm_process :: "(shm_process \<Rightarrow> bool) \<Rightarrow> bool" where
  "enum_all_shm_process P \<longleftrightarrow> P Child \<and> P Parent"

definition enum_ex_shm_process :: "(shm_process \<Rightarrow> bool) \<Rightarrow> bool" where
  "enum_ex_shm_process P \<longleftrightarrow> P Child \<or> P Parent"

instance
proof
  have cases: "a = Child \<or> a = Parent" for a :: shm_process by (cases a) simp_all
  then show univ: "(UNIV :: shm_process set) = set enum_class.enum" by (auto simp: enum_shm_process_def)
  show "distinct (enum_class.enum :: shm_process list)" by (simp add: enum_shm_process_def)
  show "enum_class.enum_all P \<longleftrightarrow> Ball UNIV P" for P :: "shm_process \<Rightarrow> bool" using cases by (auto simp: enum_all_shm_process_def) metis
  show "enum_class.enum_ex P \<longleftrightarrow> Bex UNIV P" for P :: "shm_process \<Rightarrow> bool" using cases by (auto simp: enum_ex_shm_process_def) metis
qed

end

lemma all_processes: "(\<forall>a. P a) \<longleftrightarrow> P Child \<and> P Parent"
  using enum_all_shm_process_def [of P] enum_class.enum_all_UNIV [of P] by simp

definition shm_step :: "shm_process \<Rightarrow> shm_world \<Rightarrow> shm_world option" where
  "shm_step a = (case a of Child \<Rightarrow> child_step | Parent \<Rightarrow> parent_step)"

fun shm_run :: "shm_process list \<Rightarrow> shm_world \<Rightarrow> shm_world option" where
  "shm_run [] s = Some s"
| "shm_run (a # sched) s = Option.bind (shm_step a s) (shm_run sched)"

section \<open>Invariant\<close>

text \<open>How often a process at a place has passed each of the points of its loop.\<close>

fun rounds :: "shm_place \<Rightarrow> nat" where
  "rounds (WaitTurn i) = i" | "rounds (WaitMutex i) = i" | "rounds (Access i) = i" | "rounds (Advance i v) = i"
| "rounds (Count i v) = i" | "rounds (Report i v) = i" | "rounds (PostMutex i) = i" | "rounds (PostTurn i) = i"
| "rounds LoopDone = SHM_ITEMS" | "rounds Ended = SHM_ITEMS"

fun stage :: "shm_place \<Rightarrow> nat" where
  "stage (WaitTurn i) = 0" | "stage (WaitMutex i) = 1" | "stage (Access i) = 2" | "stage (Advance i v) = 3"
| "stage (Count i v) = 4" | "stage (Report i v) = 5" | "stage (PostMutex i) = 6" | "stage (PostTurn i) = 7"
| "stage LoopDone = 0" | "stage Ended = 0"

definition passed :: "nat \<Rightarrow> shm_place \<Rightarrow> nat" where
  "passed k pl = rounds pl + (if k < stage pl then 1 else 0)"

definition holds_mutex :: "shm_place \<Rightarrow> bool" where
  "holds_mutex pl \<longleftrightarrow> 2 \<le> stage pl \<and> stage pl \<le> 6"

fun val_ok :: "shm_place \<Rightarrow> bool" where
  "val_ok (Advance i v) = (v = int i * 10)" | "val_ok (Count i v) = (v = int i * 10)" | "val_ok (Report i v) = (v = int i * 10)"
| "val_ok _ = True"

definition in_loop :: "shm_place \<Rightarrow> bool" where
  "in_loop pl \<longleftrightarrow> (rounds pl < SHM_ITEMS \<or> pl = LoopDone \<or> pl = Ended)"

definition shm_line :: "(int \<Rightarrow> nat \<Rightarrow> nat \<Rightarrow> string) \<Rightarrow> nat \<Rightarrow> string" where
  "shm_line f i = f (int i * 10) ((i + 1) mod RING_SIZE) (i + 1)"

definition turns_ok :: "shm_world \<Rightarrow> bool" where
  "turns_ok s \<longleftrightarrow>
     sem_prod s + passed 0 (child s) = RING_SIZE + rounds (parent s) \<and>
     sem_cons s + passed 0 (parent s) = rounds (child s) \<and>
     sem_mutex s + (if holds_mutex (child s) then 1 else 0) + (if holds_mutex (parent s) then 1 else 0) = 1 \<and>
     in_loop (child s) \<and> in_loop (parent s) \<and> (parent s = Ended \<longrightarrow> child s = Ended)"

definition indices_ok :: "shm_world \<Rightarrow> bool" where
  "indices_ok s \<longleftrightarrow>
     r_head (ring s) = passed 3 (child s) mod RING_SIZE \<and> r_produced (ring s) = passed 4 (child s) \<and>
     r_tail (ring s) = passed 3 (parent s) mod RING_SIZE \<and> r_consumed (ring s) = passed 4 (parent s)"

definition stored :: "shm_world \<Rightarrow> int list" where
  "stored s = map (\<lambda>k. r_buffer (ring s) ! (k mod RING_SIZE)) [passed 2 (parent s)..<passed 2 (child s)]"

definition buffer_ok :: "shm_world \<Rightarrow> bool" where
  "buffer_ok s \<longleftrightarrow> length (r_buffer (ring s)) = RING_SIZE \<and> val_ok (parent s) \<and>
     stored s = map (\<lambda>k. int k * 10) [passed 2 (parent s)..<passed 2 (child s)]"

definition outs_ok :: "shm_world \<Rightarrow> bool" where
  "outs_ok s \<longleftrightarrow>
     child_out s = map (shm_line produced_line) [0..<passed 5 (child s)] \<and>
     parent_out s = map (shm_line consumed_line) [0..<passed 5 (parent s)] @
       (if parent s = Ended then [NL @ ''Final: produced=20, consumed=20'' @ NL] else [])"

definition shm_ok :: "shm_world \<Rightarrow> bool" where
  "shm_ok s \<longleftrightarrow> turns_ok s \<and> indices_ok s \<and> buffer_ok s \<and> outs_ok s"

lemmas shm_ok_defs = shm_ok_def turns_ok_def indices_ok_def buffer_ok_def outs_ok_def stored_def

lemma passed_simps [simp]:
  "passed k (WaitTurn i) = i" "passed k (WaitMutex i) = (if k < 1 then i + 1 else i)" "passed k (Access i) = (if k < 2 then i + 1 else i)"
  "passed k (Advance i v) = (if k < 3 then i + 1 else i)" "passed k (Count i v) = (if k < 4 then i + 1 else i)"
  "passed k (Report i v) = (if k < 5 then i + 1 else i)" "passed k (PostMutex i) = (if k < 6 then i + 1 else i)"
  "passed k (PostTurn i) = (if k < 7 then i + 1 else i)" "passed k LoopDone = SHM_ITEMS" "passed k Ended = SHM_ITEMS"
  by (simp_all add: passed_def)

lemma holds_mutex_simps [simp]:
  "\<not> holds_mutex (WaitTurn i)" "\<not> holds_mutex (WaitMutex i)" "holds_mutex (Access i)" "holds_mutex (Advance i v)"
  "holds_mutex (Count i v)" "holds_mutex (Report i v)" "holds_mutex (PostMutex i)" "\<not> holds_mutex (PostTurn i)"
  "\<not> holds_mutex LoopDone" "\<not> holds_mutex Ended"
  by (simp_all add: holds_mutex_def)

lemma in_loop_simps [simp]:
  "in_loop (WaitTurn i) = (i < SHM_ITEMS)" "in_loop (WaitMutex i) = (i < SHM_ITEMS)" "in_loop (Access i) = (i < SHM_ITEMS)"
  "in_loop (Advance i v) = (i < SHM_ITEMS)" "in_loop (Count i v) = (i < SHM_ITEMS)" "in_loop (Report i v) = (i < SHM_ITEMS)"
  "in_loop (PostMutex i) = (i < SHM_ITEMS)" "in_loop (PostTurn i) = (i < SHM_ITEMS)" "in_loop LoopDone" "in_loop Ended"
  by (simp_all add: in_loop_def)

lemma passed_bounds: "rounds pl \<le> passed k pl" "passed k pl \<le> rounds pl + 1"
  by (simp_all add: passed_def)

lemma passed_antimono: "j \<le> k \<Longrightarrow> passed k pl \<le> passed j pl"
  by (simp add: passed_def)

lemma rounds_in_loop: "in_loop pl \<Longrightarrow> rounds pl \<le> SHM_ITEMS"
  by (auto simp: in_loop_def)

lemma shm_start_ok: "shm_ok (shm_start True)"
  by (simp add: shm_ok_defs shm_start_def loop_at_def ring_zero_def RING_SIZE_def SHM_ITEMS_def)

lemma loop_at_simps:
  assumes "i < SHM_ITEMS"
  shows "rounds (loop_at (i + 1)) = i + 1" "stage (loop_at (i + 1)) = 0" "passed k (loop_at (i + 1)) = i + 1"
    "\<not> holds_mutex (loop_at (i + 1))" "in_loop (loop_at (i + 1))" "val_ok (loop_at (i + 1))" "loop_at (i + 1) \<noteq> Ended"
  using assms by (auto simp: loop_at_def passed_def holds_mutex_def in_loop_def)

lemma slots_differ:
  assumes "j \<le> k" and "k < i" and "i < j + RING_SIZE"
  shows "k mod RING_SIZE \<noteq> i mod RING_SIZE"
proof
  assume "k mod RING_SIZE = i mod RING_SIZE"
  then have "RING_SIZE dvd i - k" using assms(2) by (metis less_imp_le mod_eq_dvd_iff_nat)
  then show False using assms by (auto simp: RING_SIZE_def dest: dvd_imp_le)
qed



lemma access_slot:
  assumes "shm_ok s" and "child s = Access i" and "rounds (parent s) \<le> k" and "k < i"
  shows "(r_buffer (ring s))[r_head (ring s) := v] ! (k mod RING_SIZE) = r_buffer (ring s) ! (k mod RING_SIZE)"
proof -
  have "i < rounds (parent s) + RING_SIZE" "r_head (ring s) = i mod RING_SIZE"
    using assms(1,2) by (simp_all add: shm_ok_defs)
  with slots_differ [OF assms(3,4)] show ?thesis by simp
qed

lemma access_stored:
  assumes "shm_ok s" and "child s = Access i" and "child_step s = Some s'"
  shows "buffer_ok s'"
proof -
  have s': "s' = s\<lparr>ring := (ring s)\<lparr>r_buffer := (r_buffer (ring s))[r_head (ring s) := int i * 10]\<rparr>, child := Advance i 0\<rparr>"
    using assms(2,3) by (simp add: child_step_def)
  have b: "length (r_buffer (ring s)) = RING_SIZE" "val_ok (parent s)" "r_head (ring s) = i mod RING_SIZE"
      "map (\<lambda>k. r_buffer (ring s) ! (k mod RING_SIZE)) [passed 2 (parent s)..<i] = map (\<lambda>k. int k * 10) [passed 2 (parent s)..<i]"
    using assms(1,2) by (simp_all add: shm_ok_defs passed_def [of _ "Access _"])
  have le: "passed 2 (parent s) \<le> i"
    using assms(1,2) passed_antimono [where j = 0 and k = 2 and pl = "parent s"] by (simp add: shm_ok_def turns_ok_def)
  have "map (\<lambda>k. (r_buffer (ring s))[r_head (ring s) := int i * 10] ! (k mod RING_SIZE)) [passed 2 (parent s)..<i] =
      map (\<lambda>k. int k * 10) [passed 2 (parent s)..<i]"
    unfolding b(4) [symmetric] by (intro map_cong refl access_slot [OF assms(1,2)]) (use passed_bounds(1) [of "parent s" 2] in auto)
  then show ?thesis using b(1-3) le by (simp add: s' buffer_ok_def stored_def passed_def [of _ "Advance _ _"] RING_SIZE_def)
qed

lemma child_keeps:
  assumes "child_step s = Some s'"
  shows "parent s' = parent s" "parent_out s' = parent_out s" "r_tail (ring s') = r_tail (ring s)" "r_consumed (ring s') = r_consumed (ring s)"
  using assms by (auto simp: child_step_def split: shm_place.splits if_splits)

lemma child_turns: "turns_ok s \<Longrightarrow> child_step s = Some s' \<Longrightarrow> turns_ok s'"
  by (cases "child s") (auto simp: turns_ok_def child_step_def loop_at_simps [simplified] split: if_splits)

lemma child_indices: "indices_ok s \<Longrightarrow> child_step s = Some s' \<Longrightarrow> turns_ok s \<Longrightarrow> indices_ok s'"
  by (cases "child s") (auto simp: turns_ok_def indices_ok_def child_step_def loop_at_simps [simplified] mod_Suc_eq split: if_splits)


lemma child_buffer_kept: "shm_ok s \<Longrightarrow> child_step s = Some s' \<Longrightarrow> \<forall>i. child s \<noteq> Access i \<Longrightarrow> buffer_ok s'"
  by (cases "child s") (auto simp: shm_ok_def buffer_ok_def stored_def child_step_def turns_ok_def loop_at_simps [simplified] split: if_splits)

lemma child_buffer: "shm_ok s \<Longrightarrow> child_step s = Some s' \<Longrightarrow> buffer_ok s'"
  using access_stored [of s _ s'] child_buffer_kept [of s s'] by blast

lemma child_outs: "shm_ok s \<Longrightarrow> child_step s = Some s' \<Longrightarrow> outs_ok s'"
  by (cases "child s")
    (auto simp: shm_ok_def turns_ok_def indices_ok_def outs_ok_def child_step_def loop_at_simps [simplified] shm_line_def split: if_splits)

lemma child_step_ok: "shm_ok s \<Longrightarrow> child_step s = Some s' \<Longrightarrow> shm_ok s'"
  using child_turns [of s s'] child_indices [of s s'] child_buffer [of s s'] child_outs [of s s'] by (simp add: shm_ok_def [of s] shm_ok_def [of s'])

text \<open>The parent loads what the child has stored in the round of the same number.\<close>

lemma loaded_value:
  assumes "shm_ok s" and "parent s = Access i"
  shows "r_buffer (ring s) ! r_tail (ring s) = int i * 10" "i < passed 2 (child s)"
proof -
  have i: "i < rounds (child s)" "r_tail (ring s) = i mod RING_SIZE"
    using assms by (simp_all add: shm_ok_def turns_ok_def indices_ok_def)
  then show lt: "i < passed 2 (child s)" using passed_bounds(1) [of "child s" 2] by simp
  then have "[i..<passed 2 (child s)] = i # [Suc i..<passed 2 (child s)]" by (simp add: upt_conv_Cons)
  then show "r_buffer (ring s) ! r_tail (ring s) = int i * 10"
    using assms i(2) by (simp add: shm_ok_def buffer_ok_def stored_def)
qed

lemma final_line_20:
  "r_produced r = SHM_ITEMS \<Longrightarrow> r_consumed r = SHM_ITEMS \<Longrightarrow> final_line r = NL @ ''Final: produced=20, consumed=20'' @ NL"
  by (simp add: final_line_def SHM_ITEMS_def fmt_d_def dec.simps digit_def)

lemma parent_turns: "turns_ok s \<Longrightarrow> parent_step s = Some s' \<Longrightarrow> turns_ok s'"
  by (cases "parent s") (auto simp: turns_ok_def parent_step_def loop_at_simps [simplified] split: if_splits)

lemma parent_indices: "indices_ok s \<Longrightarrow> parent_step s = Some s' \<Longrightarrow> turns_ok s \<Longrightarrow> indices_ok s'"
  by (cases "parent s") (auto simp: turns_ok_def indices_ok_def parent_step_def loop_at_simps [simplified] mod_Suc_eq split: if_splits)

lemma parent_loads:
  assumes "shm_ok s" and "parent s = Access i" and "parent_step s = Some s'"
  shows "buffer_ok s'"
proof -
  have s': "s' = s\<lparr>parent := Advance i (int i * 10)\<rparr>"
    using assms(2,3) loaded_value(1) [OF assms(1,2)] by (simp add: parent_step_def)
  have "[i..<passed 2 (child s)] = i # [Suc i..<passed 2 (child s)]"
    using loaded_value(2) [OF assms(1,2)] by (simp add: upt_conv_Cons)
  then show ?thesis using assms(1,2) by (simp add: s' shm_ok_def buffer_ok_def stored_def)
qed

lemma parent_buffer_kept: "shm_ok s \<Longrightarrow> parent_step s = Some s' \<Longrightarrow> \<forall>i. parent s \<noteq> Access i \<Longrightarrow> buffer_ok s'"
  by (cases "parent s") (auto simp: shm_ok_def buffer_ok_def stored_def parent_step_def turns_ok_def loop_at_simps [simplified] split: if_splits)

lemma parent_buffer: "shm_ok s \<Longrightarrow> parent_step s = Some s' \<Longrightarrow> buffer_ok s'"
  using parent_loads [of s _ s'] parent_buffer_kept [of s s'] by blast

lemma parent_outs: "shm_ok s \<Longrightarrow> parent_step s = Some s' \<Longrightarrow> outs_ok s'"
  by (cases "parent s")
    (auto simp: shm_ok_def turns_ok_def indices_ok_def buffer_ok_def outs_ok_def parent_step_def loop_at_simps [simplified] shm_line_def
      final_line_20 split: if_splits)

lemma parent_step_ok: "shm_ok s \<Longrightarrow> parent_step s = Some s' \<Longrightarrow> shm_ok s'"
  using parent_turns [of s s'] parent_indices [of s s'] parent_buffer [of s s'] parent_outs [of s s'] by (simp add: shm_ok_def [of s] shm_ok_def [of s'])

section \<open>Progress\<close>

definition place_rank :: "shm_place \<Rightarrow> nat" where
  "place_rank pl = 8 * rounds pl + (if pl = Ended then 1 else stage pl)"

lemma child_rank:
  "turns_ok s \<Longrightarrow> child_step s = Some s' \<Longrightarrow> place_rank (child s') = Suc (place_rank (child s)) \<and> parent s' = parent s"
  by (cases "child s") (auto simp: turns_ok_def child_step_def place_rank_def loop_at_simps [simplified] split: if_splits)

lemma parent_rank:
  "turns_ok s \<Longrightarrow> parent_step s = Some s' \<Longrightarrow> place_rank (parent s') = Suc (place_rank (parent s)) \<and> child s' = child s"
  by (cases "parent s") (auto simp: turns_ok_def parent_step_def place_rank_def loop_at_simps [simplified] split: if_splits)

lemma place_rank_bound: "in_loop pl \<Longrightarrow> place_rank pl \<le> 161"
  by (cases pl) (auto simp: place_rank_def SHM_ITEMS_def)

lemma shm_step_ok: "shm_ok s \<Longrightarrow> shm_step a s = Some s' \<Longrightarrow> shm_ok s'"
  using child_step_ok [of s s'] parent_step_ok [of s s'] by (cases a) (simp_all add: shm_step_def)

definition shm_rank :: "shm_world \<Rightarrow> nat" where
  "shm_rank s = place_rank (child s) + place_rank (parent s)"

lemma shm_step_rank: "shm_ok s \<Longrightarrow> shm_step a s = Some s' \<Longrightarrow> shm_rank s' = Suc (shm_rank s)"
  using child_rank [of s s'] parent_rank [of s s'] by (cases a) (simp_all add: shm_step_def shm_ok_def shm_rank_def)

lemma shm_rank_bound: "shm_ok s \<Longrightarrow> shm_rank s \<le> 322"
  using place_rank_bound [of "child s"] place_rank_bound [of "parent s"] by (simp add: shm_ok_def turns_ok_def shm_rank_def)

lemma shm_run_ok: "shm_run sched s = Some s' \<Longrightarrow> shm_ok s \<Longrightarrow> shm_ok s' \<and> shm_rank s' = shm_rank s + length sched"
proof (induction sched arbitrary: s)
  case (Cons a sched)
  then obtain t where t: "shm_step a s = Some t" "shm_run sched t = Some s'" by (auto simp: bind_eq_Some_conv)
  show ?case using Cons.IH [OF t(2) shm_step_ok [OF Cons.prems(2) t(1)]] shm_step_rank [OF Cons.prems(2) t(1)] by simp
qed simp

text \<open>As long as a process has not ended, one of them can take a step.\<close>

lemma child_blocked: "turns_ok s \<Longrightarrow> child_step s = None \<Longrightarrow>
    (sem_prod s = 0 \<and> (\<exists>i. child s = WaitTurn i)) \<or> holds_mutex (parent s) \<or> child s = Ended"
  by (cases "child s") (auto simp: turns_ok_def child_step_def split: if_splits)

lemma parent_blocked: "turns_ok s \<Longrightarrow> parent_step s = None \<Longrightarrow>
    (sem_cons s = 0 \<and> (\<exists>i. parent s = WaitTurn i)) \<or> holds_mutex (child s) \<or> (parent s = LoopDone \<and> child s \<noteq> Ended) \<or> parent s = Ended"
  by (cases "parent s") (auto simp: turns_ok_def parent_step_def split: if_splits)

lemma holder_moves:
  "holds_mutex (child s) \<Longrightarrow> child_step s \<noteq> None" "holds_mutex (parent s) \<Longrightarrow> parent_step s \<noteq> None"
  by (cases "child s"; simp add: child_step_def) (cases "parent s"; simp add: parent_step_def)

lemma shm_progress:
  assumes ok: "turns_ok s" and blocked: "child_step s = None" "parent_step s = None"
  shows "child s = Ended \<and> parent s = Ended"
proof -
  have free: "\<not> holds_mutex (child s)" "\<not> holds_mutex (parent s)" by (metis holder_moves(1) blocked(1), metis holder_moves(2) blocked(2))
  have c: "sem_prod s + passed 0 (child s) = RING_SIZE + rounds (parent s)" "sem_cons s + passed 0 (parent s) = rounds (child s)"
    "in_loop (child s)" "in_loop (parent s)" using ok by (simp_all add: turns_ok_def)
  have p: "rounds (child s) \<le> passed 0 (child s)" "rounds (parent s) \<le> passed 0 (parent s)" by (rule passed_bounds(1))+
  consider "sem_prod s = 0" "\<exists>i. child s = WaitTurn i" | "child s = Ended" using child_blocked [OF ok blocked(1)] free by auto
  then have ended: "child s = Ended"
  proof cases
    case 1
    then obtain i where i: "child s = WaitTurn i" "i = RING_SIZE + rounds (parent s)" "i < SHM_ITEMS" using c by auto
    consider "sem_cons s = 0" "\<exists>i. parent s = WaitTurn i" | "parent s = LoopDone" | "parent s = Ended"
      using parent_blocked [OF ok blocked(2)] free by auto
    then show ?thesis by cases (use i c in \<open>auto simp: RING_SIZE_def\<close>)
  qed
  consider "sem_cons s = 0" "\<exists>i. parent s = WaitTurn i" | "parent s = Ended"
    using parent_blocked [OF ok blocked(2)] free ended by auto
  then have "parent s = Ended" by cases (use ended c in auto)
  with ended show ?thesis ..
qed

lemma shm_can_end: "shm_ok s \<Longrightarrow> \<exists>sched s'. shm_run sched s = Some s' \<and> child s' = Ended \<and> parent s' = Ended"
proof (induction "322 - shm_rank s" arbitrary: s rule: less_induct)
  case less
  show ?case
  proof (cases "child_step s = None \<and> parent_step s = None")
    case True
    then have "child s = Ended \<and> parent s = Ended" using shm_progress [of s] less.prems by (simp add: shm_ok_def)
    then show ?thesis by (intro exI [of _ "[]"]) simp
  next
    case False
    then obtain a t where t: "shm_step a s = Some t"
      by (metis shm_step_def shm_process.simps(3,4) not_None_eq)
    then have t_ok: "shm_ok t" "shm_rank t = Suc (shm_rank s)"
      using shm_step_ok [OF less.prems] shm_step_rank [OF less.prems] by auto
    then have "322 - shm_rank t < 322 - shm_rank s" using shm_rank_bound [of t] by simp
    from less.hyps [OF this t_ok(1)] obtain sched s' where "shm_run sched t = Some s'" "child s' = Ended \<and> parent s' = Ended" by blast
    then show ?thesis using t by (intro exI [of _ "a # sched"]) auto
  qed
qed

section \<open>The demo\<close>

text \<open>
  C31. Whatever the order in which the processes run: they are never both between \<open>sem_wait(sem_mutex)\<close> and \<open>sem_post(sem_mutex)\<close>;
  the parent receives exactly what the child has produced, in order, and never lags by more than the eight places of
  the ring; no order has more than 322 steps; and if no process can take another step, both have ended, with all twenty items reported by both.
\<close>

theorem shm_demo_delivers:
  assumes "shm_run sched (shm_start True) = Some s"
  shows "\<not> (holds_mutex (child s) \<and> holds_mutex (parent s)) \<and> length sched \<le> 322 \<and>
    (\<exists>m n. n \<le> m \<and> m \<le> n + 8 \<and> m \<le> 20 \<and>
       child_out s = map (\<lambda>i. produced_line (int i * 10) ((i + 1) mod 8) (i + 1)) [0..<m] \<and>
       parent_out s = map (\<lambda>i. consumed_line (int i * 10) ((i + 1) mod 8) (i + 1)) [0..<n] @
         (if parent s = Ended then [NL @ ''Final: produced=20, consumed=20'' @ NL] else []) \<and>
       ((\<forall>a. shm_step a s = None) \<longrightarrow> m = 20 \<and> n = 20 \<and> child s = Ended \<and> parent s = Ended))"
proof -
  have ok: "shm_ok s" and rank: "shm_rank s = length sched"
    using shm_run_ok [OF assms shm_start_ok] by (simp_all add: shm_rank_def shm_start_def place_rank_def loop_at_def SHM_ITEMS_def)
  then have t: "turns_ok s" "outs_ok s" by (simp_all add: shm_ok_def)
  define m where "m = passed 5 (child s)"
  define n where "n = passed 5 (parent s)"
  have "\<not> (holds_mutex (child s) \<and> holds_mutex (parent s))" using t(1) by (auto simp: turns_ok_def)
  moreover have "length sched \<le> 322" using shm_rank_bound [OF ok] rank by simp
  moreover have "n \<le> m" "m \<le> n + 8"
    using t(1) passed_antimono [of 0 5 "child s"] passed_antimono [of 0 5 "parent s"] passed_bounds(1) [of "child s" 5]
      passed_bounds(1) [of "parent s" 5]
    by (simp_all add: turns_ok_def m_def n_def RING_SIZE_def)
  moreover have "m \<le> 20"
    using t(1) by (cases "child s") (auto simp: turns_ok_def m_def SHM_ITEMS_def)
  moreover have "m = 20 \<and> n = 20 \<and> child s = Ended \<and> parent s = Ended" if "\<forall>a. shm_step a s = None"
  proof -
    have "child_step s = None" "parent_step s = None" using that by (simp_all add: all_processes shm_step_def)
    with shm_progress [OF t(1)] show ?thesis by (simp add: m_def n_def SHM_ITEMS_def)
  qed
  ultimately show ?thesis using t(2) unfolding outs_ok_def m_def [symmetric] n_def [symmetric]
    by (intro conjI exI [of _ m] exI [of _ n]) (auto simp: shm_line_def RING_SIZE_def)
qed

text \<open>A run to the end exists; its last report is the complete one.\<close>

theorem shm_demo_delivers_witness:
  "\<exists>sched s. shm_run sched (shm_start True) = Some s \<and> length sched \<le> 322 \<and> length (child_out s) = 20 \<and>
     last (parent_out s) = NL @ ''Final: produced=20, consumed=20'' @ NL"
proof -
  obtain sched s where s: "shm_run sched (shm_start True) = Some s" "child s = Ended" "parent s = Ended"
    using shm_can_end [OF shm_start_ok] by blast
  then have "\<forall>a. shm_step a s = None" by (simp add: all_processes shm_step_def child_step_def parent_step_def)
  with shm_demo_delivers [OF s(1)] s show ?thesis by (auto simp: exI [of _ sched])
qed

text \<open>If \<open>fork\<close> fails, the parent waits for ever.\<close>

lemma shm_demo_fork_fails: "shm_step a (shm_start False) = None \<and> parent (shm_start False) \<noteq> Ended"
  by (cases a) (simp_all add: shm_step_def shm_start_def child_step_def parent_step_def loop_at_def SHM_ITEMS_def)

end
