(* ===== verification/SignalLab.thy ===== *)
theory SignalLab
  imports Schedules
begin

text \<open>
  signal_handler.c of SystemProgramming/Handson/lab07_process_management: handlers that count, and a signal that is blocked. A handler is a program that ends with a return to
  what it interrupted; its own signal is blocked while it runs.
\<close>

section \<open>Handlers\<close>

definition bump :: "string \<Rightarrow> prog \<Rightarrow> prog" where
  "bump x c = Load x (\<lambda>n. Store x (n + 1) c)"

definition handle_sigint :: "int \<Rightarrow> prog" where
  "handle_sigint sender = bump ''got_sigint'' (Write 1 (NL @ ''[HANDLER] SIGINT received! (Ctrl+C)'' @ NL) (\<lambda>_. handler_return))"

definition handle_sigusr1 :: "int \<Rightarrow> prog" where
  "handle_sigusr1 sender = bump ''got_sigusr1'' (Write 1 (take 127 (''[HANDLER] SIGUSR1 from PID='' @ fmt_d sender @ NL)) (\<lambda>_. handler_return))"

definition handle_sigusr2 :: "int \<Rightarrow> prog" where
  "handle_sigusr2 sender = bump ''got_sigusr2'' (Write 1 (''[HANDLER] SIGUSR2 received!'' @ NL) (\<lambda>_. handler_return))"

definition setup_handlers :: "prog \<Rightarrow> prog" where
  "setup_handlers k = Sigaction SIGINT (Some handle_sigint) (Sigaction SIGUSR1 (Some handle_sigusr1) (Sigaction SIGUSR2 (Some handle_sigusr2) k))"

section \<open>Masking\<close>

definition demo_signal_mask :: "prog \<Rightarrow> prog" where
  "demo_signal_mask k = say (NL @ ''--- Signal Masking Demo ---'')
     (Sigblock SIGUSR1 (\<lambda>old_mask. say ''  SIGUSR1 is now BLOCKED.''
       (Getpid (\<lambda>me. say (''  Sending SIGUSR1 to self (PID='' @ fmt_d me @ '')...'')
         (Getpid (\<lambda>me. Kill me SIGUSR1 (say ''  Signal sent but handler NOT called (blocked).''
           (Sigpending (\<lambda>pend. (if SIGUSR1 \<in> set pend then say ''  SIGUSR1 is PENDING.'' else (\<lambda>c. c))
             (say ''  Unblocking SIGUSR1...''
               (Sigsetmask old_mask (say ''  Handler should have fired above.'' k))))))))))))"

definition counts :: "(int \<Rightarrow> int \<Rightarrow> int \<Rightarrow> prog) \<Rightarrow> prog" where
  "counts c = Load ''got_sigint'' (\<lambda>a. Load ''got_sigusr1'' (\<lambda>b. Load ''got_sigusr2'' (\<lambda>d. c a b d)))"

definition wait_three :: "prog \<Rightarrow> prog" where
  "wait_three k = Loop (Load ''got_sigint'' (\<lambda>n. if n < 3
       then counts (\<lambda>a b d. say (''  [main] Waiting... (SIGINT='' @ fmt_d a @ '', USR1='' @ fmt_d b @ '', USR2='' @ fmt_d d @ '')'') (Sleep Again))
       else Break)) k"

definition signal_main :: prog where
  "signal_main = say ''=== Signal Handling Demo ==='' (Getpid (\<lambda>me. say (''PID: '' @ fmt_d me @ NL)
     (setup_handlers
       (say ''Handlers installed for SIGINT, SIGUSR1, SIGUSR2.'' (say ''Try these commands from another terminal:''
       (Getpid (\<lambda>me. say (''  kill -SIGUSR1 '' @ fmt_d me) (Getpid (\<lambda>me. say (''  kill -SIGUSR2 '' @ fmt_d me)
       (say (''  Press Ctrl+C to send SIGINT'' @ NL)
       (demo_signal_mask
         (say (NL @ ''--- Waiting for signals (Ctrl+C three times to exit) ---'')
           (wait_three
             (say (NL @ ''[main] Received 3 SIGINTs. Exiting.'')
               (counts (\<lambda>a b d. say (''Signal counts: SIGINT='' @ fmt_d a @ '', SIGUSR1='' @ fmt_d b @ '', SIGUSR2='' @ fmt_d d) (Return 0)))))))))))))))))"

section \<open>The demonstration\<close>

definition quiet :: config where
  "quiet = \<lparr>images = (\<lambda>_. None), max_procs = 10, tty = True, first_pid = 2\<rparr>"

text \<open>The handler runs when the signal is unblocked, before the next line, and once.\<close>

lemma signal_mask_runs:
  "runs_to quiet 30 (setup_handlers (demo_signal_mask (Load ''got_sigusr1'' (\<lambda>n. say (fmt_d n) (Quit 0)))))
     [[NL @ ''--- Signal Masking Demo ---'' @ NL, ''  SIGUSR1 is now BLOCKED.'' @ NL, ''  Sending SIGUSR1 to self (PID=2)...'' @ NL,
       ''  Signal sent but handler NOT called (blocked).'' @ NL, ''  SIGUSR1 is PENDING.'' @ NL, ''  Unblocking SIGUSR1...'' @ NL,
       ''[HANDLER] SIGUSR1 from PID=2'' @ NL, ''  Handler should have fired above.'' @ NL, ''1'' @ NL]]"
  by (rule runs_toI) code_simp

text \<open>A signal that arrives again before it is taken is counted once, so that Ctrl+C three times need not be three.\<close>

lemma pending_once:
  "raise_signal i SIGINT t (raise_signal i SIGINT s k) = raise_signal i SIGINT s k"
  by (auto simp: raise_signal_def upd_def dropped_def)

text \<open>A handler is not interrupted by its own signal, so that no count is lost.\<close>

lemma own_signal_blocked:
  assumes "handlers (here (procs k ! i)) sig = Some h" and "i < length (procs k)"
  shows "sig \<in> set (blocked (here (procs (take_signal g i (sig, s) k) ! i)))"
proof -
  have "blocked (at d c l) = blocked l" for d c l by (cases "texts c") (simp add: at_def put_def)
  then show ?thesis using assms by (simp add: take_signal_def advance_def upd_def resume_def Let_def)
qed

end
