(* ===== verification/SlabDemo.thy ===== *)
theory SlabDemo
  imports Bytes
begin

text \<open>
  KernelProgramming/Handson/lab13_memory/slab_demo.c: a cache of a hundred objects of which half are freed and
  allocated again. Whether the \<open>n\<close>-th call of \<open>kmem_cache_alloc\<close> succeeds is an argument; the call's number stands
  for the address it returns. The state has the objects that are allocated, the array of pointers, as a function of the index, and the number of calls.
  \<open>None\<close> is undefined behaviour: following or freeing a null pointer, an index outside the array.
\<close>

definition NUM_OBJECTS :: nat where "NUM_OBJECTS = 100"

text \<open>Of an object, its \<open>id\<close> and \<open>name\<close>; fresh memory has arbitrary contents.\<close>

record my_object =
  obj_id :: int
  obj_name :: string

record slab_state =
  my_cache :: "nat \<Rightarrow> my_object option"
  objects :: "nat \<Rightarrow> nat option"
  calls :: nat

definition slab_start :: slab_state where
  "slab_start = \<lparr>my_cache = (\<lambda>_. None), objects = (\<lambda>_. None), calls = 0\<rparr>"

text \<open>\<open>objects[i] = kmem_cache_alloc(...)\<close>\<close>

definition alloc_object :: "(nat \<Rightarrow> my_object option) \<Rightarrow> nat \<Rightarrow> slab_state \<Rightarrow> slab_state" where
  "alloc_object kmem i s =
     (case kmem (calls s) of
        None \<Rightarrow> s\<lparr>objects := (objects s)(i := None), calls := calls s + 1\<rparr>
      | Some junk \<Rightarrow>
          s\<lparr>objects := (objects s)(i := Some (calls s)), my_cache := (my_cache s)(calls s \<mapsto> junk), calls := calls s + 1\<rparr>)"

text \<open>An access through \<open>objects[i]\<close>.\<close>

definition deref :: "int \<Rightarrow> slab_state \<Rightarrow> (nat \<times> my_object) option" where
  "deref i s =
     (if 0 \<le> i \<and> i < int NUM_OBJECTS then
        Option.bind (objects s (nat i)) (\<lambda>a. map_option (Pair a) (my_cache s a))
      else None)"

definition set_object :: "nat \<Rightarrow> (my_object \<Rightarrow> my_object) \<Rightarrow> slab_state \<Rightarrow> slab_state option" where
  "set_object i f s = map_option (\<lambda>(a, x). s\<lparr>my_cache := (my_cache s)(a \<mapsto> f x)\<rparr>) (deref (int i) s)"

definition obj_label :: "nat \<Rightarrow> string" where
  "obj_label i = take 27 (''obj_'' @ pad_zero 3 (fmt_d (int i)))"

text \<open>The first loop, from index \<open>i\<close> on; the result has the index at which it stopped.\<close>

function alloc_loop :: "(nat \<Rightarrow> my_object option) \<Rightarrow> nat \<Rightarrow> slab_state \<Rightarrow> (nat \<times> slab_state) option" where
  "alloc_loop kmem i s =
     (if i < NUM_OBJECTS then
        (let s1 = alloc_object kmem i s in
         if objects s1 i = None then Some (i, s1)
         else Option.bind (set_object i (\<lambda>x. x\<lparr>obj_id := int i, obj_name := obj_label i\<rparr>) s1) (alloc_loop kmem (i + 1)))
      else Some (i, s))"
  by pat_completeness auto
termination by (relation "measure (\<lambda>(kmem, i, s). NUM_OBJECTS - i)") auto

text \<open>\<open>kmem_cache_free(my_cache, objects[i]); objects[i] = NULL;\<close>\<close>

definition free_object :: "nat \<Rightarrow> slab_state \<Rightarrow> slab_state option" where
  "free_object i s =
     map_option (\<lambda>(a, x). s\<lparr>my_cache := (my_cache s)(a := None), objects := (objects s)(i := None)\<rparr>) (deref (int i) s)"

fun free_half :: "nat \<Rightarrow> slab_state \<Rightarrow> slab_state option" where
  "free_half 0 s = Some s"
| "free_half (Suc n) s = Option.bind (free_half n s) (free_object n)"

fun realloc_half :: "(nat \<Rightarrow> my_object option) \<Rightarrow> nat \<Rightarrow> slab_state \<Rightarrow> slab_state option" where
  "realloc_half kmem 0 s = Some s"
| "realloc_half kmem (Suc n) s =
     Option.bind (realloc_half kmem n s) (\<lambda>s. set_object n (\<lambda>x. x\<lparr>obj_id := int n + 1000\<rparr>) (alloc_object kmem n s))"

text \<open>
  The init function once the cache exists: the two lines it prints about the first and the last object, and the state at the end.
\<close>

definition slab_demo_init :: "(nat \<Rightarrow> my_object option) \<Rightarrow> (string list \<times> slab_state) option" where
  "slab_demo_init kmem =
     Option.bind (alloc_loop kmem 0 slab_start) (\<lambda>(i, s).
     Option.bind (deref 0 s) (\<lambda>(a, first).
     Option.bind (deref (int i - 1) s) (\<lambda>(b, last).
     Option.bind (free_half (NUM_OBJECTS div 2) s) (\<lambda>s.
     map_option (Pair [''First: id='' @ fmt_d (obj_id first) @ '' name='' @ obj_name first @ NL,
                       ''Last:  id='' @ fmt_d (obj_id last) @ '' name='' @ obj_name last @ NL])
       (realloc_half kmem (NUM_OBJECTS div 2) s)))))"

text \<open>The exit function: it frees every object that is in the array. \<open>kmem_cache_destroy\<close> wants an empty cache.\<close>

fun free_all :: "nat \<Rightarrow> slab_state \<Rightarrow> slab_state option" where
  "free_all 0 s = Some s"
| "free_all (Suc n) s =
     Option.bind (free_all n s) (\<lambda>s.
       case objects s n of
         None \<Rightarrow> Some s
       | Some a \<Rightarrow> (if my_cache s a = None then None else Some (s\<lparr>my_cache := (my_cache s)(a := None)\<rparr>)))"

definition slab_demo_exit :: "slab_state \<Rightarrow> slab_state option" where
  "slab_demo_exit s = free_all NUM_OBJECTS s"

declare alloc_loop.simps [simp del]

section \<open>The states of the loops\<close>

definition labelled :: "nat \<Rightarrow> my_object" where
  "labelled i = \<lparr>obj_id = int i, obj_name = obj_label i\<rparr>"

text \<open>
  After \<open>c\<close> calls, with the objects from \<open>m\<close> to \<open>k\<close> of the first loop and \<open>n\<close> from the last loop.
\<close>

definition slab_at :: "(nat \<Rightarrow> my_object option) \<Rightarrow> nat \<Rightarrow> nat \<Rightarrow> nat \<Rightarrow> nat \<Rightarrow> slab_state" where
  "slab_at kmem c m k n =
     \<lparr>my_cache = (\<lambda>a. if m \<le> a \<and> a < k then Some (labelled a)
                     else if c \<le> a \<and> a < c + n then map_option (\<lambda>x. x\<lparr>obj_id := int (a - c) + 1000\<rparr>) (kmem a) else None),
      objects = (\<lambda>i. if m \<le> i \<and> i < k then Some i else if i < n then Some (c + i) else None), calls = c + n\<rparr>"

definition works :: "(nat \<Rightarrow> my_object option) \<Rightarrow> nat \<Rightarrow> nat \<Rightarrow> bool" where
  "works kmem i n \<longleftrightarrow> (\<forall>j. i \<le> j \<and> j < n \<longrightarrow> kmem j \<noteq> None)"

lemma alloc_step:
  assumes "i < NUM_OBJECTS" and "kmem i = Some junk"
  shows "alloc_loop kmem i (slab_at kmem i 0 i 0) = alloc_loop kmem (i + 1) (slab_at kmem (i + 1) 0 (i + 1) 0)"
proof -
  let ?s = "alloc_object kmem i (slab_at kmem i 0 i 0)"
  have o: "objects ?s i = Some i" "my_cache ?s i = Some junk" using assms(2) by (simp_all add: alloc_object_def slab_at_def)
  have "set_object i (\<lambda>x. x\<lparr>obj_id := int i, obj_name := obj_label i\<rparr>) ?s =
      Some (?s\<lparr>my_cache := (my_cache ?s)(i \<mapsto> junk\<lparr>obj_id := int i, obj_name := obj_label i\<rparr>)\<rparr>)"
    using assms(1) o by (simp add: set_object_def deref_def)
  also have "?s\<lparr>my_cache := (my_cache ?s)(i \<mapsto> junk\<lparr>obj_id := int i, obj_name := obj_label i\<rparr>)\<rparr> = slab_at kmem (i + 1) 0 (i + 1) 0"
    using assms(2) by (auto simp: alloc_object_def slab_at_def labelled_def fun_eq_iff)
  finally show ?thesis using assms(1) o by (subst alloc_loop.simps) simp
qed

lemma alloc_loop_from:
  assumes "i \<le> NUM_OBJECTS"
  shows "\<exists>k c. alloc_loop kmem i (slab_at kmem i 0 i 0) = Some (k, slab_at kmem c 0 k 0) \<and> i \<le> k \<and> k \<le> NUM_OBJECTS \<and> works kmem i k \<and>
    (if k = NUM_OBJECTS then c = k else kmem k = None \<and> c = k + 1)"
  using assms
proof (induction "NUM_OBJECTS - i" arbitrary: i)
  case 0
  then have i: "i = NUM_OBJECTS" by simp
  then have "alloc_loop kmem i (slab_at kmem i 0 i 0) = Some (i, slab_at kmem i 0 i 0)" by (subst alloc_loop.simps) simp
  with i show ?case by (intro exI [of _ i] conjI) (auto simp: works_def)
next
  case (Suc d)
  then have i: "i < NUM_OBJECTS" by simp
  show ?case
  proof (cases "kmem i")
    case None
    have "alloc_object kmem i (slab_at kmem i 0 i 0) = slab_at kmem (i + 1) 0 i 0"
      using None by (auto simp: alloc_object_def slab_at_def fun_eq_iff)
    then have "alloc_loop kmem i (slab_at kmem i 0 i 0) = Some (i, slab_at kmem (i + 1) 0 i 0)"
      using i by (subst alloc_loop.simps) (simp add: slab_at_def)
    with i None show ?thesis by (intro exI [of _ i] exI [of _ "i + 1"] conjI) (auto simp: works_def)
  next
    case (Some junk)
    have "works kmem i k" if "works kmem (i + 1) k" for k
      using that Some unfolding works_def by (metis Suc_eq_plus1 Suc_leI le_neq_implies_less option.discI)
    with Suc.hyps(1) [of "i + 1"] Suc.hyps(2) i alloc_step [of i kmem junk] Some show ?thesis by fastforce
  qed
qed

lemma free_half_from:
  assumes "n \<le> k" and "k \<le> NUM_OBJECTS"
  shows "free_half n (slab_at kmem c 0 k 0) = Some (slab_at kmem c n k 0)"
  using assms(1)
proof (induction n)
  case (Suc n)
  then have "free_object n (slab_at kmem c n k 0) = Some (slab_at kmem c (Suc n) k 0)"
    using assms(2) by (auto simp: free_object_def deref_def slab_at_def fun_eq_iff)
  with Suc show ?case by simp
qed simp

text \<open>Freeing more than there is follows a null pointer.\<close>

lemma free_half_null:
  assumes "k < n" and "n \<le> NUM_OBJECTS"
  shows "free_half n (slab_at kmem c 0 k 0) = None"
  using assms
proof (induction n)
  case (Suc n)
  show ?case
  proof (cases "k < n")
    case False
    then have "k = n" using Suc.prems by simp
    moreover have "free_object n (slab_at kmem c n n 0) = None" by (simp add: free_object_def deref_def slab_at_def)
    ultimately show ?thesis using Suc.prems free_half_from [of n k kmem c] by simp
  qed (use Suc in simp)
qed simp

lemma realloc_from:
  assumes "n \<le> m" and "m \<le> k" and "k \<le> c" and "k \<le> NUM_OBJECTS" and "works kmem c (c + n)"
  shows "realloc_half kmem n (slab_at kmem c m k 0) = Some (slab_at kmem c m k n)"
  using assms(1,5)
proof (induction n)
  case (Suc n)
  then have "kmem (c + n) \<noteq> None" unfolding works_def by simp
  then obtain junk where j: "kmem (c + n) = Some junk" by auto
  have w: "works kmem c (c + n)" using Suc.prems by (simp add: works_def)
  have "set_object n (\<lambda>x. x\<lparr>obj_id := int n + 1000\<rparr>) (alloc_object kmem n (slab_at kmem c m k n)) = Some (slab_at kmem c m k (Suc n))"
    using Suc.prems(1) assms(2-4) j
    by (auto simp: set_object_def deref_def alloc_object_def slab_at_def fun_eq_iff)
  with Suc w show ?case by simp
qed simp

lemma realloc_null:
  assumes "n \<le> m" and "m \<le> k" and "k \<le> c" and "k \<le> NUM_OBJECTS" and "\<not> works kmem c (c + n)"
  shows "realloc_half kmem n (slab_at kmem c m k 0) = None"
  using assms(1,5)
proof (induction n)
  case (Suc n)
  show ?case
  proof (cases "works kmem c (c + n)")
    case True
    with Suc.prems have "kmem (c + n) = None" unfolding works_def by (metis add_Suc_right less_Suc_eq)
    then have "set_object n (\<lambda>x. x\<lparr>obj_id := int n + 1000\<rparr>) (alloc_object kmem n (slab_at kmem c m k n)) = None"
      by (simp add: set_object_def deref_def alloc_object_def slab_at_def Let_def)
    with True Suc.prems assms(2-4) realloc_from [of n m k c kmem] show ?thesis by simp
  next
    case False
    with Suc show ?thesis by simp
  qed
qed (auto simp: works_def)

lemma free_all_from:
  assumes "k \<le> c" and "m \<le> k" and "works kmem c (c + m)"
  shows "free_all n (slab_at kmem c m k m) =
    Some ((slab_at kmem c m k m)\<lparr>my_cache := (\<lambda>a. if \<exists>i<n. objects (slab_at kmem c m k m) i = Some a then None
                                             else my_cache (slab_at kmem c m k m) a)\<rparr>)"
proof (induction n)
  case (Suc n)
  let ?s = "slab_at kmem c m k m"
  show ?case
  proof (cases "objects ?s n")
    case None
    have "(\<exists>i<Suc n. objects ?s i = Some a) \<longleftrightarrow> (\<exists>i<n. objects ?s i = Some a)" for a
      using None less_Suc_eq by auto
    with Suc None show ?thesis by simp
  next
    case (Some b)
    have "my_cache ?s b \<noteq> None" using Some assms by (auto simp: slab_at_def works_def split: if_splits)
    moreover have "\<not> (\<exists>i<n. objects ?s i = Some b)" using Some assms(1,2) by (auto simp: slab_at_def split: if_splits)
    moreover have ex: "(\<exists>i<Suc n. objects ?s i = Some a) \<longleftrightarrow> a = b \<or> (\<exists>i<n. objects ?s i = Some a)" for a
      using Some less_Suc_eq by auto
    ultimately have "free_all (Suc n) ?s = Some (?s\<lparr>my_cache := (\<lambda>a. if \<exists>i<n. objects ?s i = Some a then None else my_cache ?s a)(b := None)\<rparr>)"
      using Suc Some by auto
    also have "(\<lambda>a. if \<exists>i<n. objects ?s i = Some a then None else my_cache ?s a)(b := None) =
        (\<lambda>a. if \<exists>i<Suc n. objects ?s i = Some a then None else my_cache ?s a)"
      by (rule ext) (auto simp: ex)
    finally show ?thesis .
  qed
qed simp

section \<open>Properties\<close>

lemma slab_at_start: "slab_start = slab_at kmem 0 0 0 0"
  by (auto simp: slab_start_def slab_at_def fun_eq_iff)

lemma deref_at: "deref (int i) (slab_at kmem c 0 k 0) = (if i < k \<and> i < NUM_OBJECTS then Some (i, labelled i) else None)"
  by (simp add: deref_def slab_at_def)

text \<open>
  What init does when the first \<open>k\<close> allocations succeed and either all hundred do or the next one fails; the second
  loop's allocations are those from \<open>c\<close> on.
\<close>

lemma slab_demo_init_eq:
  assumes "alloc_loop kmem 0 slab_start = Some (k, slab_at kmem c 0 k 0)" and "k \<le> NUM_OBJECTS" and "k \<le> c"
  shows "slab_demo_init kmem =
    (if 50 \<le> k \<and> works kmem c (c + 50)
     then Some ([''First: id='' @ fmt_d 0 @ '' name='' @ obj_label 0 @ NL,
                 ''Last:  id='' @ fmt_d (int k - 1) @ '' name='' @ obj_label (k - 1) @ NL], slab_at kmem c 50 k 50)
     else None)"
proof (cases "k = 0")
  case True
  then have "deref 0 (slab_at kmem c 0 k 0) = None" by (simp add: deref_def slab_at_def)
  with True assms(1) show ?thesis by (simp add: slab_demo_init_def)
next
  case False
  then have f: "deref 0 (slab_at kmem c 0 k 0) = Some (0, labelled 0)" using assms(2) deref_at [of 0 kmem c k] by (simp add: NUM_OBJECTS_def)
  have l: "deref (int k - 1) (slab_at kmem c 0 k 0) = Some (k - 1, labelled (k - 1))"
    using False assms(2) deref_at [of "k - 1" kmem c k] by (simp add: of_nat_diff)
  show ?thesis
  proof (cases "50 \<le> k")
    case True
    then have h: "free_half 50 (slab_at kmem c 0 k 0) = Some (slab_at kmem c 50 k 0)" using assms(2) by (rule free_half_from)
    show ?thesis
    proof (cases "works kmem c (c + 50)")
      case w: True
      have "realloc_half kmem 50 (slab_at kmem c 50 k 0) = Some (slab_at kmem c 50 k 50)"
        using True assms(2,3) w by (intro realloc_from) simp_all
      with True w f l h assms(1) False show ?thesis by (simp add: slab_demo_init_def NUM_OBJECTS_def labelled_def of_nat_diff)
    next
      case w: False
      have "realloc_half kmem 50 (slab_at kmem c 50 k 0) = None"
        using True assms(2,3) w by (intro realloc_null) simp_all
      with True w f l h assms(1) show ?thesis by (simp add: slab_demo_init_def NUM_OBJECTS_def)
    qed
  next
    case False
    then have "free_half 50 (slab_at kmem c 0 k 0) = None" by (intro free_half_null) (simp_all add: NUM_OBJECTS_def)
    with False f l assms(1) show ?thesis by (simp add: slab_demo_init_def NUM_OBJECTS_def)
  qed
qed

lemma slab_demo_exit_clean:
  assumes "50 \<le> k" and "k \<le> c" and "k \<le> NUM_OBJECTS" and "works kmem c (c + 50)"
  shows "\<exists>s'. slab_demo_exit (slab_at kmem c 50 k 50) = Some s' \<and> my_cache s' = (\<lambda>_. None)"
proof -
  let ?s = "slab_at kmem c 50 k 50"
  have "my_cache ?s a = None" if "\<not> (\<exists>i<NUM_OBJECTS. objects ?s i = Some a)" for a
  proof (rule ccontr)
    assume "my_cache ?s a \<noteq> None"
    then have "50 \<le> a \<and> a < k \<or> c \<le> a \<and> a < c + 50" by (auto simp: slab_at_def split: if_splits)
    then have "objects ?s a = Some a \<and> a < NUM_OBJECTS \<or> objects ?s (a - c) = Some a \<and> a - c < NUM_OBJECTS"
      using assms(1-3) by (auto simp: slab_at_def NUM_OBJECTS_def)
    with that show False by blast
  qed
  then have "(\<lambda>a. if \<exists>i<NUM_OBJECTS. objects ?s i = Some a then None else my_cache ?s a) = (\<lambda>_. None)" by auto
  then show ?thesis using free_all_from [of k c 50 kmem NUM_OBJECTS] assms by (simp add: slab_demo_exit_def)
qed

text \<open>
  C0. The module works exactly when at least the first fifty allocations succeed, and the fifty of the second loop: it is undefined
  in every other case. Where it works it says which objects it has, and unloading it leaves the cache empty.
\<close>

theorem slab_demo_defined:
  "\<exists>k c. k \<le> 100 \<and> works kmem 0 k \<and> (if k = 100 then c = 100 else kmem k = None \<and> c = k + 1) \<and>
    (if 50 \<le> k \<and> works kmem c (c + 50)
     then \<exists>out s s'. slab_demo_init kmem = Some (out, s) \<and>
       out = [''First: id=0 name=obj_000'' @ NL, ''Last:  id='' @ fmt_d (int k - 1) @ '' name='' @ obj_label (k - 1) @ NL] \<and>
       (\<forall>i < 100. map_option (\<lambda>a. map_option obj_id (my_cache s a)) (objects s i) =
          (if i < 50 then Some (Some (int i + 1000)) else if i < k then Some (Some (int i)) else None)) \<and>
       slab_demo_exit s = Some s' \<and> my_cache s' = (\<lambda>_. None)
     else slab_demo_init kmem = None)"
proof -
  obtain k c where k: "alloc_loop kmem 0 slab_start = Some (k, slab_at kmem c 0 k 0)" "k \<le> NUM_OBJECTS" "works kmem 0 k"
    "if k = NUM_OBJECTS then c = k else kmem k = None \<and> c = k + 1"
    using alloc_loop_from [of 0 kmem] by (auto simp: slab_at_start [of kmem])
  have c: "k \<le> c" using k(4) by (simp split: if_splits)
  have "\<exists>out s s'. slab_demo_init kmem = Some (out, s) \<and>
       out = [''First: id=0 name=obj_000'' @ NL, ''Last:  id='' @ fmt_d (int k - 1) @ '' name='' @ obj_label (k - 1) @ NL] \<and>
       (\<forall>i < 100. map_option (\<lambda>a. map_option obj_id (my_cache s a)) (objects s i) =
          (if i < 50 then Some (Some (int i + 1000)) else if i < k then Some (Some (int i)) else None)) \<and>
       slab_demo_exit s = Some s' \<and> my_cache s' = (\<lambda>_. None)" if w: "50 \<le> k" "works kmem c (c + 50)"
  proof -
    let ?s = "slab_at kmem c 50 k 50"
    have "map_option (\<lambda>a. map_option obj_id (my_cache ?s a)) (objects ?s i) =
        (if i < 50 then Some (Some (int i + 1000)) else if i < k then Some (Some (int i)) else None)" if i: "i < 100" for i
    proof (cases "i < 50")
      case True
      then obtain x where "kmem (c + i) = Some x" using w(2) unfolding works_def by (meson le_add1 nat_add_left_cancel_less not_Some_eq)
      with True c w(1) show ?thesis by (simp add: slab_at_def)
    next
      case False
      then show ?thesis by (simp add: slab_at_def labelled_def)
    qed
    moreover have "''First: id='' @ fmt_d 0 @ '' name='' @ obj_label 0 = ''First: id=0 name=obj_000''"
      by (simp add: fmt_d_def dec.simps digit_def obj_label_def pad_zero_def numeral_2_eq_2)
    ultimately show ?thesis using slab_demo_init_eq [OF k(1,2) c] slab_demo_exit_clean [OF w(1) c k(2) w(2)] w by auto
  qed
  then show ?thesis using k c slab_demo_init_eq [OF k(1,2) c] by (intro exI [of _ k] exI [of _ c]) (simp add: NUM_OBJECTS_def)
qed

text \<open>When memory does not run out, all hundred objects are there; with room for only seventy-five the module still works.\<close>

lemma slab_demo_defined_witness:
  "\<exists>out s s'. slab_demo_init (\<lambda>n. if n = 75 then None else Some (labelled 0)) = Some (out, s) \<and>
     out ! 1 = ''Last:  id='' @ fmt_d 74 @ '' name='' @ obj_label 74 @ NL \<and>
     slab_demo_exit s = Some s' \<and> my_cache s' = (\<lambda>_. None)"
proof -
  let ?kmem = "\<lambda>n. if n = 75 then None else Some (labelled 0)"
  obtain k c where k: "k \<le> 100" "works ?kmem 0 k" "if k = 100 then c = 100 else ?kmem k = None \<and> c = k + 1"
    "if 50 \<le> k \<and> works ?kmem c (c + 50)
     then \<exists>out s s'. slab_demo_init ?kmem = Some (out, s) \<and>
       out = [''First: id=0 name=obj_000'' @ NL, ''Last:  id='' @ fmt_d (int k - 1) @ '' name='' @ obj_label (k - 1) @ NL] \<and>
       (\<forall>i < 100. map_option (\<lambda>a. map_option obj_id (my_cache s a)) (objects s i) =
          (if i < 50 then Some (Some (int i + 1000)) else if i < k then Some (Some (int i)) else None)) \<and>
       slab_demo_exit s = Some s' \<and> my_cache s' = (\<lambda>_. None)
     else slab_demo_init ?kmem = None"
    using slab_demo_defined [of ?kmem] by blast
  have "\<not> works ?kmem 0 100" unfolding works_def by (intro notI) (drule spec [of _ 75], simp)
  then have "k = 75" "c = 76" using k(2,3) by (auto split: if_splits)
  moreover have "works ?kmem 76 126" by (simp add: works_def)
  ultimately show ?thesis using k(4) by auto
qed

end
