(* ===== verification/SmallLabs.thy ===== *)
theory SmallLabs
  imports UserCopy
begin

text \<open>
  Small programs of SystemProgramming/Handson: the checked functions of lab04_error_handling/assert_demo.c, the bit macros of
  lab01_gcc_compilation/macro_magic.c, and the transformations of lab02_binutils_elf/mystery_binary.c. Floating point is left out.
\<close>

section \<open>assert_demo\<close>

text \<open>
  A call returns, aborts with the kind of the assertion that failed, or is undefined. In a release build the assertions do nothing.
\<close>

datatype assertion = Assert_Msg string | Null_Pointer | Precondition | Postcondition

datatype 'a checked = Returns 'a | Aborts assertion | Undefined_Call

definition check :: "bool \<Rightarrow> bool \<Rightarrow> assertion \<Rightarrow> 'a checked \<Rightarrow> 'a checked" where
  "check debug cond a rest = (if debug \<and> \<not> cond then Aborts a else rest)"

definition safe_array_get :: "bool \<Rightarrow> int list option \<Rightarrow> int \<Rightarrow> int \<Rightarrow> int checked" where
  "safe_array_get debug arr sz index =
     check debug (arr \<noteq> None) Null_Pointer
     (check debug (0 \<le> index \<and> index < sz) (Assert_Msg ''Array index out of bounds'')
     (case arr of
        None \<Rightarrow> Undefined_Call
      | Some a \<Rightarrow> if 0 \<le> index \<and> index < int (length a) then Returns (a ! nat index) else Undefined_Call))"

text \<open>\<open>strncpy(dst, src, n)\<close> writes exactly \<open>n\<close> bytes: the string, then NULs.\<close>

definition str_n_copy :: "string \<Rightarrow> string \<Rightarrow> int \<Rightarrow> string option" where
  "str_n_copy dst s n =
     (if int (length dst) < n then None
      else put_bytes 0 (take (nat n) (s @ replicate (nat n - length s) NUL)) dst)"

text \<open>The result is the contents of the destination. \<open>src\<close> is memory from the source on, a string if it has a NUL.\<close>

definition safe_copy :: "bool \<Rightarrow> string option \<Rightarrow> int \<Rightarrow> string option \<Rightarrow> string checked" where
  "safe_copy debug dst dst_size src =
     check debug (dst \<noteq> None) Null_Pointer
     (check debug (src \<noteq> None) Null_Pointer
     (check debug (0 < dst_size) Precondition
     (case Option.bind src c_string of
        None \<Rightarrow> Undefined_Call
      | Some s \<Rightarrow>
          check debug (int (length s) < dst_size) (Assert_Msg ''Source string too long for destination buffer'')
          (case Option.bind dst (\<lambda>d. Option.bind (str_n_copy d s (cast_u64 (dst_size - 1)))
                  (\<lambda>d1. put_bytes (cast_u64 (dst_size - 1)) [NUL] d1)) of
             None \<Rightarrow> Undefined_Call
           | Some d2 \<Rightarrow>
               (case c_string d2 of
                  None \<Rightarrow> Undefined_Call
                | Some t \<Rightarrow> check debug (length t \<le> length s) Postcondition (Returns d2))))))"

fun fact_loop :: "nat \<Rightarrow> int \<Rightarrow> int \<Rightarrow> int option" where
  "fact_loop 0 i result = Some result"
| "fact_loop (Suc k) i result = Option.bind (arith32 (result * i)) (fact_loop k (i + 1))"

definition factorial :: "bool \<Rightarrow> int \<Rightarrow> int checked" where
  "factorial debug n =
     check debug (0 \<le> n) Precondition
     (check debug (n \<le> 20) (Assert_Msg ''Input too large, would overflow int'')
     (case fact_loop (nat (n - 1)) 2 1 of
        None \<Rightarrow> Undefined_Call
      | Some result \<Rightarrow> check debug (0 < result) Postcondition (Returns result)))"

lemma arith32_fact: "(fact n :: int) \<le> 2147483647 \<Longrightarrow> arith32 (fact n) = Some (fact n)"
proof -
  have "0 \<le> (fact n :: int)" by simp
  then have "- 2147483648 \<le> (fact n :: int)" by linarith
  then show "(fact n :: int) \<le> 2147483647 \<Longrightarrow> arith32 (fact n) = Some (fact n)" by (simp add: arith32_def fits_s32_def)
qed

lemma fact_loop_value:
  assumes "fact (j + k) \<le> (2147483647 :: int)"
  shows "fact_loop k (int j + 1) (fact j) = Some (fact (j + k))"
  using assms
proof (induction k arbitrary: j)
  case (Suc k)
  have f: "fact j * (int j + 1) = (fact (Suc j) :: int)" by (simp add: algebra_simps)
  have "(fact (Suc j) :: int) \<le> fact (j + Suc k)" by (rule fact_mono) simp
  then have "arith32 (fact j * (int j + 1)) = Some (fact (Suc j))"
    unfolding f using Suc.prems by (intro arith32_fact) linarith
  then show ?case using Suc.IH [of "Suc j"] Suc.prems by (simp add: algebra_simps)
qed simp

lemma fact_loop_overflow:
  assumes "2147483647 < (fact (j + k) :: int)" and "fact j \<le> (2147483647 :: int)"
  shows "fact_loop k (int j + 1) (fact j) = None"
  using assms
proof (induction k arbitrary: j)
  case (Suc k)
  have f: "fact j * (int j + 1) = (fact (Suc j) :: int)" by (simp add: algebra_simps)
  show ?case
  proof (cases "(fact (Suc j) :: int) \<le> 2147483647")
    case True
    then have "arith32 (fact j * (int j + 1)) = Some (fact (Suc j))"
      unfolding f by (rule arith32_fact)
    then show ?thesis using Suc.IH [of "Suc j"] Suc.prems(1) True by (simp add: algebra_simps)
  next
    case False
    then have "arith32 (fact j * (int j + 1)) = None" unfolding f by (simp add: arith32_def fits_s32_def)
    then show ?thesis by simp
  qed
qed simp

text \<open>
  The assertion admits inputs up to 20, but a 32-bit integer holds the factorial up to 12 only: between 13 and 20 the computation overflows, and no
  assertion stops it.
\<close>

lemma fact_12: "(fact 12 :: int) = 479001600" "(fact 13 :: int) = 6227020800"
  by (simp_all add: fact_numeral)

theorem factorial_cases:
  "factorial debug n =
     (if debug \<and> n < 0 then Aborts Precondition
      else if debug \<and> 20 < n then Aborts (Assert_Msg ''Input too large, would overflow int'')
      else if n \<le> 12 then Returns (fact (nat n)) else Undefined_Call)"
proof -
  have low: "fact_loop (nat (n - 1)) 2 1 = Some (fact (nat n))" if "n \<le> 12"
  proof (cases "1 \<le> n")
    case True
    then have e: "1 + nat (n - 1) = nat n" by simp
    have "nat n \<le> 12" using that by simp
    then have "(fact (nat n) :: int) \<le> fact 12" by (rule fact_mono)
    then show ?thesis using fact_loop_value [of 1 "nat (n - 1)"] fact_12 unfolding e by simp
  next
    case False
    then have "nat (n - 1) = 0" "nat n = 0" by simp_all
    then show ?thesis by simp
  qed
  have high: "fact_loop (nat (n - 1)) 2 1 = None" if "12 < n"
  proof -
    have e: "1 + nat (n - 1) = nat n" using that by simp
    have "13 \<le> nat n" using that by simp
    then have "(fact 13 :: int) \<le> fact (nat n)" by (rule fact_mono)
    then show ?thesis using fact_loop_overflow [of 1 "nat (n - 1)"] fact_12 unfolding e by simp
  qed
  have "0 < (fact (nat n) :: int)" by simp
  then show ?thesis using low high by (cases "n \<le> 12") (auto simp: factorial_def check_def)
qed


text \<open>
  With a destination of the size given, a copy that the assertions admit is the string padded with NULs; without assertions it is cut to the size.
\<close>

lemma str_n_copy_value:
  "n \<le> length dst \<Longrightarrow> str_n_copy dst s (int n) = Some (take n (s @ replicate (n - length s) NUL) @ drop n dst)"
  by (auto simp: str_n_copy_def put_bytes_def min_def)

lemma safe_copy_value:
  assumes "c_string src = Some s" and "length dst = Suc n" and "Suc n < 18446744073709551616"
  shows "safe_copy debug (Some dst) (int (Suc n)) (Some src) =
    (if debug \<and> Suc n \<le> length s then Aborts (Assert_Msg ''Source string too long for destination buffer'')
     else Returns (take n s @ replicate (Suc n - length (take n s)) NUL))"
proof -
  have c: "cast_u64 (int (Suc n) - 1) = int n" using assms(3) by simp
  have cpy: "str_n_copy dst s (int n) = Some (take n s @ replicate (n - length s) NUL @ drop n dst)"
    using str_n_copy_value [of n dst s] assms(2) by simp
  define t where "t = take n s"
  have d: "length (drop n dst) = 1" using assms(2) by simp
  then obtain z where z: "drop n dst = [z]" by (cases "drop n dst") auto
  have len: "length (t @ replicate (n - length s) NUL) = n" by (simp add: t_def)
  have put: "put_bytes (int n) [NUL] (t @ replicate (n - length s) NUL @ drop n dst) = Some (t @ replicate (n - length s) NUL @ [NUL])"
    using len by (simp add: put_bytes_def z)
  have pad: "replicate (n - length s) NUL @ [NUL] = replicate (Suc n - length t) NUL"
    unfolding t_def by (cases "n \<le> length s") (simp_all add: replicate_append_same Suc_diff_le min_def)
  have "NUL \<notin> set t" using c_string_no_nul [OF assms(1)] by (auto simp: t_def dest: in_set_takeD)
  moreover obtain m where m: "Suc n - length t = Suc m" using that by (cases "Suc n - length t") (simp_all add: t_def)
  ultimately have str: "c_string (t @ replicate (Suc n - length t) NUL) = Some t" by (simp add: c_string_terminated)
  have "length t \<le> length s" by (simp add: t_def)
  moreover have "Suc n \<le> length s \<longleftrightarrow> \<not> int (length s) < int (Suc n)" by linarith
  ultimately show ?thesis
    using assms(1) c cpy put pad str by (auto simp: safe_copy_def check_def t_def [symmetric])
qed

lemma safe_array_get_debug:
  "safe_array_get True (Some a) (int (length a)) index =
     (if 0 \<le> index \<and> index < int (length a) then Returns (a ! nat index) else Aborts (Assert_Msg ''Array index out of bounds''))"
  by (simp add: safe_array_get_def check_def)

section \<open>macro_magic\<close>

text \<open>A shift of a 32-bit value by 32 or more is undefined.\<close>

definition shifted_bit :: "nat \<Rightarrow> u32 option" where
  "shifted_bit b = (if b < 32 then Some (push_bit b 1) else None)"

definition BIT_SET :: "u32 \<Rightarrow> nat \<Rightarrow> u32 option" where "BIT_SET v b = map_option (or v) (shifted_bit b)"
definition BIT_CLEAR :: "u32 \<Rightarrow> nat \<Rightarrow> u32 option" where "BIT_CLEAR v b = map_option (\<lambda>w. and v (not w)) (shifted_bit b)"
definition BIT_TOGGLE :: "u32 \<Rightarrow> nat \<Rightarrow> u32 option" where "BIT_TOGGLE v b = map_option (xor v) (shifted_bit b)"
definition BIT_CHECK :: "u32 \<Rightarrow> nat \<Rightarrow> u32 option" where "BIT_CHECK v b = (if b < 32 then Some (and (drop_bit b v) 1) else None)"
definition MACRO_MIN :: "int \<Rightarrow> int \<Rightarrow> int" where "MACRO_MIN a b = (if a < b then a else b)"
definition MACRO_MAX :: "int \<Rightarrow> int \<Rightarrow> int" where "MACRO_MAX a b = (if a > b then a else b)"

text \<open>What \<open>demonstrate_macros\<close> writes to standard output.\<close>

definition MACRO_PAGE_SIZE :: nat where "MACRO_PAGE_SIZE = 4096"

definition demonstrate_macros :: "string list option" where
  "demonstrate_macros =
     Option.bind (BIT_SET 0 3) (\<lambda>f1. Option.bind (BIT_SET f1 7) (\<lambda>f2.
     Option.bind (BIT_CHECK f2 3) (\<lambda>c3. Option.bind (BIT_CHECK f2 4) (\<lambda>c4. Option.bind (BIT_TOGGLE f2 3) (\<lambda>f3.
       Some [NL @ ''Register values: r0='' @ fmt_d 0 @ '', r1='' @ fmt_d 1 @ '', r7='' @ fmt_d 7 @ NL,
         ''PAGE_SIZE macro expands to: 4096 = '' @ fmt_d (int MACRO_PAGE_SIZE) @ NL,
         ''MIN(42, 17) = '' @ fmt_d (MACRO_MIN 42 17) @ NL, ''MAX(42, 17) = '' @ fmt_d (MACRO_MAX 42 17) @ NL,
         ''Array has '' @ dec (length [10 :: int, 20, 30, 40, 50]) @ '' elements'' @ NL,
         ''Flags after setting bits 3,7: 0x'' @ pad_zero 8 (fmt_X (uint f2)) @ NL,
         ''Bit 3 is: '' @ fmt_u (uint c3) @ NL, ''Bit 4 is: '' @ fmt_u (uint c4) @ NL,
         ''Flags after toggling bit 3: 0x'' @ pad_zero 8 (fmt_X (uint f3)) @ NL])))))"

lemma bit_macros:
  assumes "b < 32"
  shows "\<exists>s c t. BIT_SET v b = Some s \<and> BIT_CLEAR v b = Some c \<and> BIT_TOGGLE v b = Some t \<and>
    (\<forall>i. bit s i = (i < 32 \<and> (i = b \<or> bit v i))) \<and> (\<forall>i. bit c i = (i \<noteq> b \<and> bit v i)) \<and>
    (\<forall>i. bit t i = (i < 32 \<and> (if i = b then \<not> bit v i else bit v i))) \<and> BIT_CHECK v b = Some (of_bool (bit v b))"
proof -
  let ?w = "push_bit b 1 :: u32"
  have w: "bit ?w i \<longleftrightarrow> i = b" for i using assms by (auto simp: bit_simps)
  have "bit (or v ?w) i = (i < 32 \<and> (i = b \<or> bit v i))" for i
    using assms by (auto simp: bit_or_iff w simp del: push_bit_of_1 dest: bit_imp_le_length)
  moreover have "bit (and v (not ?w)) i = (i \<noteq> b \<and> bit v i)" for i
    by (auto simp: bit_and_iff bit_not_iff w simp del: push_bit_of_1 dest: bit_imp_le_length)
  moreover have "bit (xor v ?w) i = (i < 32 \<and> (if i = b then \<not> bit v i else bit v i))" for i
    using assms by (auto simp: bit_xor_iff w simp del: push_bit_of_1 dest: bit_imp_le_length)
  moreover have "and (drop_bit b v) 1 = of_bool (bit v b)" by (simp add: and_one_eq bit_iff_odd_drop_bit mod2_eq_if)
  ultimately show ?thesis using assms by (simp add: BIT_SET_def BIT_CLEAR_def BIT_TOGGLE_def BIT_CHECK_def shifted_bit_def)
qed


lemma demonstrate_macros_value:
  "demonstrate_macros = Some [NL @ ''Register values: r0=0, r1=1, r7=7'' @ NL, ''PAGE_SIZE macro expands to: 4096 = 4096'' @ NL,
     ''MIN(42, 17) = 17'' @ NL, ''MAX(42, 17) = 42'' @ NL, ''Array has 5 elements'' @ NL,
     ''Flags after setting bits 3,7: 0x00000088'' @ NL, ''Bit 3 is: 1'' @ NL, ''Bit 4 is: 0'' @ NL,
     ''Flags after toggling bit 3: 0x00000080'' @ NL]"
proof -
  have bits: "BIT_SET 0 3 = Some 8" "BIT_SET 8 7 = Some 0x88" "BIT_CHECK 0x88 3 = Some 1" "BIT_CHECK 0x88 4 = Some 0" "BIT_TOGGLE 0x88 3 = Some 0x80"
    by (simp_all add: BIT_SET_def BIT_TOGGLE_def BIT_CHECK_def shifted_bit_def)
  have dec: "fmt_d 0 = ''0''" "fmt_d 1 = ''1''" "fmt_d 7 = ''7''" "fmt_d (int MACRO_PAGE_SIZE) = ''4096''" "dec (Suc (Suc (Suc (Suc (Suc 0))))) = ''5''" "fmt_d 17 = ''17''" "fmt_d 42 = ''42''" "fmt_u 1 = ''1''" "fmt_u 0 = ''0''" by (simp_all add: fmt_d_def fmt_u_def dec.simps digit_def MACRO_PAGE_SIZE_def)
  have "fmt_X 0x88 = ''88''" "fmt_X 0x80 = ''80''" by (simp_all add: fmt_X_def hex.simps digit_upper_def)
  moreover have "pad_zero 8 ''88'' = ''00000088''" "pad_zero 8 ''80'' = ''00000080''" by (simp_all add: pad_zero_def numeral_eq_Suc)
  ultimately have hex: "pad_zero 8 (fmt_X 0x88) = ''00000088''" "pad_zero 8 (fmt_X 0x80) = ''00000080''" by simp_all
  show ?thesis by (simp add: demonstrate_macros_def bits dec hex MACRO_MIN_def MACRO_MAX_def)
qed

section \<open>mystery_binary\<close>

text \<open>A plain \<open>char\<close> is signed.\<close>

definition char_value :: "char \<Rightarrow> int" where
  "char_value c = sint (ord8 c)"

fun hash_loop :: "string \<Rightarrow> int \<Rightarrow> int option" where
  "hash_loop [] h = Some h"
| "hash_loop (c # cs) h = Option.bind (Option.bind (arith32 (h * 31)) (\<lambda>k. arith32 (k + char_value c))) (hash_loop cs)"

definition phase_beta :: "string \<Rightarrow> int option" where
  "phase_beta input = hash_loop input 0"

definition SECRET_KEY :: string where "SECRET_KEY = ''XK9-DELTA-FOXTROT-2026''"

text \<open>The first \<open>len\<close> bytes; more than there are is undefined.\<close>

definition xor_transform :: "u8 list \<Rightarrow> nat \<Rightarrow> u8 \<Rightarrow> u8 list option" where
  "xor_transform data len key = (if len \<le> length data then Some (map (\<lambda>b. xor b key) (take len data) @ drop len data) else None)"

text \<open>The two transformations of \<open>main\<close>, each over the string that the array holds at that time.\<close>

definition xor_twice :: "u8 list \<Rightarrow> u8 \<Rightarrow> u8 list option" where
  "xor_twice message key = Option.bind (xor_transform message (strlen message) key) (\<lambda>m. xor_transform m (strlen m) key)"

lemma xor_zero_eq: "0 = xor b (k :: u8) \<Longrightarrow> b = k"
proof -
  assume "0 = xor b k"
  then have "xor (xor b k) k = k" by simp
  then show "b = k" by (simp only: xor.assoc xor_self_eq xor.right_neutral)
qed

lemma strlen_string: "0 \<notin> set bs \<Longrightarrow> strlen (bs @ 0 # rest) = length bs"
  by (induction bs) (auto simp: strlen_def)

lemma xor_transform_involution:
  "xor_transform data len key = Some d \<Longrightarrow> xor_transform d len key = Some data"
  by (auto simp: xor_transform_def o_def xor.assoc split: if_splits)

text \<open>
  The second transformation restores the message unless it contains the key: such a character becomes the NUL at which the second \<open>strlen\<close> stops.
\<close>

lemma xor_twice_restores:
  assumes "0 \<notin> set bs" and "key \<notin> set bs"
  shows "xor_twice (bs @ [0]) key = Some (bs @ [0])"
proof -
  have n: "strlen (map (\<lambda>b. xor b key) bs @ [0]) = length bs" "strlen (bs @ [0]) = length bs"
  proof -
    have "0 \<notin> set (map (\<lambda>b. xor b key) bs)" using assms(2) by (auto dest: xor_zero_eq)
    then show "strlen (map (\<lambda>b. xor b key) bs @ [0]) = length bs" "strlen (bs @ [0]) = length bs"
      using assms(1) strlen_string by (metis length_map, metis)
  qed
  have one: "xor_transform (bs @ [0]) (length bs) key = Some (map (\<lambda>b. xor b key) bs @ [0])" by (simp add: xor_transform_def)
  show ?thesis unfolding xor_twice_def n one by (simp add: n(1) xor_transform_involution [OF one])
qed

lemma mystery_message: "xor_twice (text_bytes ''Operation successful'' @ [0]) 0x55 = Some (text_bytes ''Operation successful'' @ [0])"
  by (rule xor_twice_restores) (simp_all add: text_bytes_def ord8_def)

text \<open>The hash of the key overflows.\<close>

lemma phase_beta_overflows: "phase_beta SECRET_KEY = None"
proof -
  have v: "char_value (CHR ''X'') = 88" "char_value (CHR ''K'') = 75" "char_value (CHR ''9'') = 57" "char_value (CHR ''-'') = 45"
    "char_value (CHR ''D'') = 68"
    by (simp_all add: char_value_def ord8_def)
  have h: "phase_beta (''XK9-D'' @ rest) = hash_loop rest 83560413" for rest
    by (simp add: phase_beta_def v arith32_def fits_s32_def)
  have "hash_loop (CHR ''E'' # rest) 83560413 = None" for rest by (simp add: arith32_def fits_s32_def)
  with h [of "''ELTA-FOXTROT-2026''"] show ?thesis by (simp add: SECRET_KEY_def)
qed

end
