(* ===== verification/SyncDemo.thy ===== *)
theory SyncDemo
  imports Bytes
begin

text \<open>
  KernelProgramming/Handson/lab14_sync/sync_demo.c: two kernel threads that increment four counters, one without
  protection, one atomic, one under a spinlock and one under a mutex, and the init function that starts and stops
  them. A schedule is a list of the actors that take the steps; a step is one access to shared memory or one call of
  the kernel, so an increment that is not atomic is a load and a store.
\<close>

section \<open>The program\<close>

definition NUM_ITERATIONS :: nat where "NUM_ITERATIONS = 100000"

text \<open>
  Where a worker is. The number is its loop variable \<open>i\<close>; \<open>Loaded\<close>, \<open>SpinLoaded\<close> and \<open>MutexLoaded\<close> also hold the
  value just loaded from the counter. \<open>Exited\<close> says whether the thread has called \<open>worker_fn\<close>.
\<close>

datatype place =
    Absent
  | Created
  | LoopTest nat
  | Loaded nat int
  | AtAtomic nat
  | AtSpinLock nat
  | InSpin nat
  | SpinLoaded nat int
  | AtSpinUnlock nat
  | AtMutexLock nat
  | InMutex nat
  | MutexLoaded nat int
  | AtMutexUnlock nat
  | Exited bool

text \<open>
  Where the init function is: in front of \<open>kthread_run\<close> and of \<open>kthread_stop\<close> for thread number \<open>j\<close>, waiting in
  \<open>kthread_stop\<close>, at its end, or past a \<open>kthread_stop\<close> of a thread that has already exited, whose
  \<open>task_struct\<close> may be freed.
\<close>

datatype init_place = Creating nat | Stopping nat | Joining nat | InitDone | StaleTask

record sync_state =
  unprotected :: int
  atomic_cnt :: int
  spinlock_cnt :: int
  mutex_cnt :: int
  my_spinlock :: "nat option"
  my_mutex :: "nat option"
  worker :: "nat \<Rightarrow> place"
  stop_flag :: "nat \<Rightarrow> bool"
  thread_ptr :: "nat \<Rightarrow> bool"
  init_at :: init_place

definition sync_start :: sync_state where
  "sync_start = \<lparr>unprotected = 0, atomic_cnt = 0, spinlock_cnt = 0, mutex_cnt = 0, my_spinlock = None, my_mutex = None,
     worker = (\<lambda>_. Absent), stop_flag = (\<lambda>_. False), thread_ptr = (\<lambda>_. False), init_at = Creating 0\<rparr>"

definition go :: "nat \<Rightarrow> place \<Rightarrow> sync_state \<Rightarrow> sync_state" where
  "go t p s = s\<lparr>worker := (worker s)(t := p)\<rparr>"

text \<open>
  The kernel: whether each \<open>kthread_run\<close> succeeds, and whether a thread that is stopped before it has run for the first
  time leaves without calling its function.
\<close>

record kthreads =
  creates :: "nat \<Rightarrow> bool"
  skips_stopped :: bool

text \<open>\<open>None\<close>: the thread cannot run.\<close>

definition worker_fn :: "kthreads \<Rightarrow> nat \<Rightarrow> sync_state \<Rightarrow> sync_state option" where
  "worker_fn k t s =
     (case worker s t of
        Absent \<Rightarrow> None
      | Created \<Rightarrow> Some (go t (if stop_flag s t \<and> skips_stopped k then Exited False else LoopTest 0) s)
      | LoopTest i \<Rightarrow> Some (go t (if i < NUM_ITERATIONS then Loaded i (unprotected s) else Exited True) s)
      | Loaded i v \<Rightarrow> Some (go t (AtAtomic i) (s\<lparr>unprotected := v + 1\<rparr>))
      | AtAtomic i \<Rightarrow> Some (go t (AtSpinLock i) (s\<lparr>atomic_cnt := atomic_cnt s + 1\<rparr>))
      | AtSpinLock i \<Rightarrow> (if my_spinlock s = None then Some (go t (InSpin i) (s\<lparr>my_spinlock := Some t\<rparr>)) else None)
      | InSpin i \<Rightarrow> Some (go t (SpinLoaded i (spinlock_cnt s)) s)
      | SpinLoaded i v \<Rightarrow> Some (go t (AtSpinUnlock i) (s\<lparr>spinlock_cnt := v + 1\<rparr>))
      | AtSpinUnlock i \<Rightarrow> Some (go t (AtMutexLock i) (s\<lparr>my_spinlock := None\<rparr>))
      | AtMutexLock i \<Rightarrow> (if my_mutex s = None then Some (go t (InMutex i) (s\<lparr>my_mutex := Some t\<rparr>)) else None)
      | InMutex i \<Rightarrow> Some (go t (MutexLoaded i (mutex_cnt s)) s)
      | MutexLoaded i v \<Rightarrow> Some (go t (AtMutexUnlock i) (s\<lparr>mutex_cnt := v + 1\<rparr>))
      | AtMutexUnlock i \<Rightarrow> Some (go t (LoopTest (i + 1)) (s\<lparr>my_mutex := None\<rparr>))
      | Exited called \<Rightarrow> None)"

fun has_exited :: "place \<Rightarrow> bool" where
  "has_exited (Exited called) = True"
| "has_exited _ = False"

definition sync_demo_init :: "kthreads \<Rightarrow> sync_state \<Rightarrow> sync_state option" where
  "sync_demo_init k s =
     (case init_at s of
        Creating j \<Rightarrow>
          (if j < 2 then
             (let s1 = s\<lparr>init_at := Creating (j + 1)\<rparr> in
              Some (if creates k j then go j Created (s1\<lparr>thread_ptr := (thread_ptr s)(j := True)\<rparr>) else s1))
           else Some (s\<lparr>init_at := Stopping 0\<rparr>))
      | Stopping j \<Rightarrow>
          (if j < 2 then
             (if thread_ptr s j then
                (if has_exited (worker s j) then Some (s\<lparr>init_at := StaleTask\<rparr>)
                 else Some (s\<lparr>stop_flag := (stop_flag s)(j := True), init_at := Joining j\<rparr>))
              else Some (s\<lparr>init_at := Stopping (j + 1)\<rparr>))
           else Some (s\<lparr>init_at := InitDone\<rparr>))
      | Joining j \<Rightarrow> (if has_exited (worker s j) then Some (s\<lparr>init_at := Stopping (j + 1)\<rparr>) else None)
      | InitDone \<Rightarrow> None
      | StaleTask \<Rightarrow> None)"

datatype actor = Init | Worker nat

definition sync_step :: "kthreads \<Rightarrow> actor \<Rightarrow> sync_state \<Rightarrow> sync_state option" where
  "sync_step k a s = (case a of Init \<Rightarrow> sync_demo_init k s | Worker t \<Rightarrow> worker_fn k t s)"

primrec sync_run :: "kthreads \<Rightarrow> actor list \<Rightarrow> sync_state \<Rightarrow> sync_state option" where
  "sync_run k [] s = Some s"
| "sync_run k (a # as) s = Option.bind (sync_step k a s) (sync_run k as)"

text \<open>The lines that init prints at the end.\<close>

definition sync_report :: "sync_state \<Rightarrow> string list" where
  "sync_report s =
     (let expected = int (NUM_ITERATIONS * 2); verdict = (\<lambda>n good bad. if n = expected then good else bad) in
      [''Results (expected '' @ fmt_d expected @ ''):'' @ NL,
       ''  Unprotected : '' @ fmt_d (unprotected s) @ '' '' @ verdict (unprotected s) ''(lucky!)'' ''(DATA RACE!)'' @ NL,
       ''  Atomic      : '' @ fmt_d (atomic_cnt s) @ '' '' @ verdict (atomic_cnt s) ''(OK)'' ''(BUG!)'' @ NL,
       ''  Spinlock    : '' @ fmt_d (spinlock_cnt s) @ '' '' @ verdict (spinlock_cnt s) ''(OK)'' ''(BUG!)'' @ NL,
       ''  Mutex       : '' @ fmt_d (mutex_cnt s) @ '' '' @ verdict (mutex_cnt s) ''(OK)'' ''(BUG!)'' @ NL])"

section \<open>The counters under locks\<close>

lemma N_ge_2: "2 \<le> NUM_ITERATIONS" by (simp add: NUM_ITERATIONS_def)

text \<open>How often a worker at a place has incremented each counter.\<close>

fun stored :: "place \<Rightarrow> nat" where
  "stored Absent = 0" | "stored Created = 0"
| "stored (LoopTest i) = i" | "stored (Loaded i v) = i"
| "stored (AtAtomic i) = i + 1" | "stored (AtSpinLock i) = i + 1" | "stored (InSpin i) = i + 1"
| "stored (SpinLoaded i v) = i + 1" | "stored (AtSpinUnlock i) = i + 1" | "stored (AtMutexLock i) = i + 1"
| "stored (InMutex i) = i + 1" | "stored (MutexLoaded i v) = i + 1" | "stored (AtMutexUnlock i) = i + 1"
| "stored (Exited called) = (if called then NUM_ITERATIONS else 0)"

fun atomics :: "place \<Rightarrow> nat" where
  "atomics (AtAtomic i) = i"
| "atomics p = stored p"

fun spun :: "place \<Rightarrow> nat" where
  "spun (AtAtomic i) = i" | "spun (AtSpinLock i) = i" | "spun (InSpin i) = i" | "spun (SpinLoaded i v) = i"
| "spun p = stored p"

fun mutexed :: "place \<Rightarrow> nat" where
  "mutexed (AtAtomic i) = i" | "mutexed (AtSpinLock i) = i" | "mutexed (InSpin i) = i" | "mutexed (SpinLoaded i v) = i"
| "mutexed (AtSpinUnlock i) = i" | "mutexed (AtMutexLock i) = i" | "mutexed (InMutex i) = i" | "mutexed (MutexLoaded i v) = i"
| "mutexed p = stored p"

fun in_spin :: "place \<Rightarrow> bool" where
  "in_spin (InSpin i) = True" | "in_spin (SpinLoaded i v) = True" | "in_spin (AtSpinUnlock i) = True"
| "in_spin _ = False"

fun in_mutex :: "place \<Rightarrow> bool" where
  "in_mutex (InMutex i) = True" | "in_mutex (MutexLoaded i v) = True" | "in_mutex (AtMutexUnlock i) = True"
| "in_mutex _ = False"

text \<open>Each lock is held by the worker between lock and unlock, and only by that one.\<close>

definition locks_ok :: "sync_state \<Rightarrow> bool" where
  "locks_ok s \<longleftrightarrow>
     (\<forall>t. in_spin (worker s t) \<longleftrightarrow> my_spinlock s = Some t) \<and> (\<forall>t. in_mutex (worker s t) \<longleftrightarrow> my_mutex s = Some t) \<and>
     (\<forall>t i v. worker s t = SpinLoaded i v \<longrightarrow> v = spinlock_cnt s) \<and>
     (\<forall>t i v. worker s t = MutexLoaded i v \<longrightarrow> v = mutex_cnt s)"

definition counts_ok :: "sync_state \<Rightarrow> bool" where
  "counts_ok s \<longleftrightarrow>
     atomic_cnt s = int (atomics (worker s 0) + atomics (worker s 1)) \<and>
     spinlock_cnt s = int (spun (worker s 0) + spun (worker s 1)) \<and>
     mutex_cnt s = int (mutexed (worker s 0) + mutexed (worker s 1))"

text \<open>The loop variables stay in their range, and there are two workers.\<close>

fun in_loop :: "place \<Rightarrow> bool" where
  "in_loop (LoopTest i) \<longleftrightarrow> i \<le> NUM_ITERATIONS"
| "in_loop (Exited called) \<longleftrightarrow> True" | "in_loop Absent \<longleftrightarrow> True" | "in_loop Created \<longleftrightarrow> True"
| "in_loop (AtAtomic i) \<longleftrightarrow> i < NUM_ITERATIONS" | "in_loop (Loaded i v) \<longleftrightarrow> i < NUM_ITERATIONS"
| "in_loop p \<longleftrightarrow> stored p \<le> NUM_ITERATIONS"

definition workers_ok :: "sync_state \<Rightarrow> bool" where
  "workers_ok s \<longleftrightarrow> (\<forall>t. in_loop (worker s t)) \<and> (\<forall>t\<ge>2. worker s t = Absent)"

lemma in_loop_stored: "in_loop p \<Longrightarrow> stored p \<le> NUM_ITERATIONS"
  by (cases p) simp_all

lemma two_workers:
  assumes "workers_ok s" and "worker_fn k t s = Some s'"
  shows "t = 0 \<or> t = 1"
proof (rule ccontr)
  assume "\<not> (t = 0 \<or> t = 1)"
  then have "worker s t = Absent" using assms(1) by (auto simp: workers_ok_def)
  with assms(2) show False by (simp add: worker_fn_def)
qed

lemma worker_other: "worker_fn k t s = Some s' \<Longrightarrow> u \<noteq> t \<Longrightarrow> worker s' u = worker s u"
  by (auto simp: worker_fn_def go_def split: place.splits if_splits)

lemma worker_in_loop: "worker_fn k t s = Some s' \<Longrightarrow> in_loop (worker s t) \<Longrightarrow> in_loop (worker s' t)"
  using N_ge_2 by (cases "worker s t") (auto simp: worker_fn_def go_def split: if_splits)

lemma workers_ok_worker:
  assumes "workers_ok s" and "worker_fn k t s = Some s'"
  shows "workers_ok s'"
proof -
  have "in_loop (worker s' u)" for u
    using assms worker_other [OF assms(2), of u] worker_in_loop [OF assms(2)] by (cases "u = t") (simp_all add: workers_ok_def)
  moreover have "worker s' u = Absent" if "2 \<le> u" for u
    using assms(1) two_workers [OF assms] worker_other [OF assms(2), of u] that by (auto simp: workers_ok_def)
  ultimately show ?thesis by (simp add: workers_ok_def)
qed

lemma locks_ok_worker:
  assumes "locks_ok s" and "worker_fn k t s = Some s'"
  shows "locks_ok s'"
proof -
  have lk: "in_spin (worker s u) \<longleftrightarrow> my_spinlock s = Some u" "in_mutex (worker s u) \<longleftrightarrow> my_mutex s = Some u" for u
    using assms(1) by (simp_all add: locks_ok_def)
  have ld: "worker s u = SpinLoaded i v \<Longrightarrow> v = spinlock_cnt s" "worker s u = MutexLoaded i v \<Longrightarrow> v = mutex_cnt s" for u i v
    using assms(1) by (simp_all add: locks_ok_def)
  have "in_spin (worker s' u) \<longleftrightarrow> my_spinlock s' = Some u" for u
    using lk(1) [of u] lk(1) [of t] assms(2)
    by (cases "u = t"; cases "worker s t") (auto simp: worker_fn_def go_def split: if_splits)
  moreover have "in_mutex (worker s' u) \<longleftrightarrow> my_mutex s' = Some u" for u
    using lk(2) [of u] lk(2) [of t] assms(2)
    by (cases "u = t"; cases "worker s t") (auto simp: worker_fn_def go_def split: if_splits)
  moreover have "v = spinlock_cnt s'" if "worker s' u = SpinLoaded i v" for u i v
    using lk(1) [of u] lk(1) [of t] ld(1) [of u i v] assms(2) that
    by (cases "u = t"; cases "worker s t") (auto simp: worker_fn_def go_def split: if_splits)
  moreover have "v = mutex_cnt s'" if "worker s' u = MutexLoaded i v" for u i v
    using lk(2) [of u] lk(2) [of t] ld(2) [of u i v] assms(2) that
    by (cases "u = t"; cases "worker s t") (auto simp: worker_fn_def go_def split: if_splits)
  ultimately show ?thesis unfolding locks_ok_def by blast
qed

lemma worker_counts:
  assumes "worker_fn k t s = Some s'" and "in_loop (worker s t)" and "locks_ok s"
  shows "atomic_cnt s' = atomic_cnt s + int (atomics (worker s' t)) - int (atomics (worker s t))"
    and "spinlock_cnt s' = spinlock_cnt s + int (spun (worker s' t)) - int (spun (worker s t))"
    and "mutex_cnt s' = mutex_cnt s + int (mutexed (worker s' t)) - int (mutexed (worker s t))"
proof -
  have v: "worker s t = SpinLoaded i v \<Longrightarrow> v = spinlock_cnt s" "worker s t = MutexLoaded i v \<Longrightarrow> v = mutex_cnt s" for i v
    using assms(3) by (simp_all add: locks_ok_def)
  show "atomic_cnt s' = atomic_cnt s + int (atomics (worker s' t)) - int (atomics (worker s t))"
    using assms(1,2) by (cases "worker s t") (auto simp: worker_fn_def go_def split: if_splits)
  show "spinlock_cnt s' = spinlock_cnt s + int (spun (worker s' t)) - int (spun (worker s t))"
  proof (cases "worker s t")
    case (SpinLoaded i x)
    with v(1) assms(1,2) show ?thesis by (simp add: worker_fn_def go_def) auto
  qed (use assms(1,2) in \<open>auto simp: worker_fn_def go_def split: if_splits\<close>)
  show "mutex_cnt s' = mutex_cnt s + int (mutexed (worker s' t)) - int (mutexed (worker s t))"
  proof (cases "worker s t")
    case (MutexLoaded i x)
    with v(2) assms(1,2) show ?thesis by (simp add: worker_fn_def go_def) auto
  qed (use assms(1,2) in \<open>auto simp: worker_fn_def go_def split: if_splits\<close>)
qed

lemma counts_ok_worker:
  assumes "workers_ok s" and "locks_ok s" and "counts_ok s" and "worker_fn k t s = Some s'"
  shows "counts_ok s'"
proof -
  have "in_loop (worker s t)" using assms(1) by (simp add: workers_ok_def)
  from worker_counts [OF assms(4) this assms(2)] two_workers [OF assms(1,4)] assms(3)
    worker_other [OF assms(4), of 0] worker_other [OF assms(4), of 1]
  show ?thesis by (auto simp: counts_ok_def)
qed

section \<open>The counter without protection\<close>

text \<open>A worker that has not yet entered its function, or never will.\<close>

fun idle :: "place \<Rightarrow> bool" where
  "idle Absent = True" | "idle Created = True" | "idle (Exited called) = (\<not> called)"
| "idle _ = False"

fun reads :: "place \<Rightarrow> (nat \<times> int) option" where
  "reads (Loaded i v) = Some (i, v)"
| "reads _ = None"

text \<open>
  The counter is at most the number of stores and not below one after the first. A value that is loaded after the first
  iteration is then at least one, and the store of a last iteration at least two. Without the other worker the counter is exact.
\<close>

definition racy_side :: "int \<Rightarrow> place \<Rightarrow> place \<Rightarrow> bool" where
  "racy_side u p q \<longleftrightarrow>
     (\<forall>i v. reads p = Some (i, v) \<longrightarrow>
        0 \<le> v \<and> v \<le> int (stored p + stored q) \<and> (0 < i \<longrightarrow> 1 \<le> v) \<and> (idle q \<longrightarrow> v = int (stored p))) \<and>
     (idle q \<longrightarrow> u = int (stored p))"

definition racy :: "int \<Rightarrow> place \<Rightarrow> place \<Rightarrow> bool" where
  "racy u p q \<longleftrightarrow>
     0 \<le> u \<and> u \<le> int (stored p + stored q) \<and> (0 < stored p + stored q \<longrightarrow> 1 \<le> u) \<and>
     (stored p = NUM_ITERATIONS \<and> stored q = NUM_ITERATIONS \<longrightarrow> 2 \<le> u) \<and>
     racy_side u p q \<and> racy_side u q p"

definition racy_ok :: "sync_state \<Rightarrow> bool" where
  "racy_ok s \<longleftrightarrow> racy (unprotected s) (worker s 0) (worker s 1)"

lemma racy_sym: "racy u p q \<longleftrightarrow> racy u q p"
  by (auto simp: racy_def add.commute)

lemma idle_facts: "idle p \<Longrightarrow> stored p = 0 \<and> reads p = None"
  by (cases p) simp_all

text \<open>What a step of a worker does as far as this counter is concerned: it stores, loads or does neither.\<close>

lemma worker_racy:
  assumes "worker_fn k t s = Some s'" and "in_loop (worker s t)"
  obtains (store) i v where "reads (worker s t) = Some (i, v)" "stored (worker s t) = i" "i < NUM_ITERATIONS" "\<not> idle (worker s' t)"
      "unprotected s' = v + 1" "stored (worker s' t) = i + 1" "reads (worker s' t) = None" "\<not> idle (worker s t)"
    | (load) i where "stored (worker s t) = i" "stored (worker s' t) = i" "reads (worker s' t) = Some (i, unprotected s)"
      "unprotected s' = unprotected s" "\<not> idle (worker s t)" "\<not> idle (worker s' t)"
    | (other) "stored (worker s' t) = stored (worker s t)" "reads (worker s' t) = None" "unprotected s' = unprotected s"
      "idle (worker s' t) \<longrightarrow> idle (worker s t)"
proof (cases "worker s t")
  case (LoopTest i)
  with assms show thesis by (cases "i < NUM_ITERATIONS") (auto simp: worker_fn_def go_def intro: load other)
next
  case (Loaded i v)
  with assms show thesis by (auto simp: worker_fn_def go_def intro!: store)
qed (use assms other in \<open>auto simp: worker_fn_def go_def split: if_splits\<close>)

lemma racy_store:
  assumes "racy u p q" and "reads p = Some (i, v)" "stored p = i" "stored p' = i + 1" "reads p' = None" "\<not> idle p" "\<not> idle p'"
    and "stored q \<le> NUM_ITERATIONS"
  shows "racy (v + 1) p' q"
proof -
  have v: "0 \<le> v" "v \<le> int (i + stored q)" "0 < i \<Longrightarrow> 1 \<le> v" "idle q \<Longrightarrow> v = int i"
    using assms(1-3) by (simp_all add: racy_def racy_side_def)
  have "2 \<le> v + 1" if "i + 1 = NUM_ITERATIONS" using v(3) that N_ge_2 by simp
  moreover have "racy_side (v + 1) p' q" using assms v(4) by (simp add: racy_side_def)
  moreover have "racy_side (v + 1) q p'" using assms(1,3,4,7) by (fastforce simp: racy_def racy_side_def)
  ultimately show ?thesis using v(1,2) assms(3,4) by (simp add: racy_def)
qed

lemma racy_load:
  assumes "racy u p q" and "stored p = i" "stored p' = i" "reads p' = Some (i, u)" "\<not> idle p" "\<not> idle p'"
  shows "racy u p' q"
  using assms by (auto simp: racy_def racy_side_def)

lemma racy_other:
  assumes "racy u p q" and "stored p' = stored p" "reads p' = None" "idle p' \<longrightarrow> idle p"
  shows "racy u p' q"
  using assms by (auto simp: racy_def racy_side_def)

lemma racy_worker:
  assumes "worker_fn k t s = Some s'" and "in_loop (worker s t)" and "in_loop q" and "racy (unprotected s) (worker s t) q"
  shows "racy (unprotected s') (worker s' t) q"
  using assms(1,2)
proof (cases rule: worker_racy)
  case (store i v)
  with racy_store [OF assms(4), of i v] in_loop_stored [OF assms(3)] show ?thesis by simp
next
  case (load i)
  with racy_load [OF assms(4), of i] show ?thesis by simp
next
  case other
  with racy_other [OF assms(4)] show ?thesis by simp
qed

lemma racy_ok_worker:
  assumes "workers_ok s" and "racy_ok s" and "worker_fn k t s = Some s'"
  shows "racy_ok s'"
proof -
  have l: "in_loop (worker s u)" for u using assms(1) by (simp add: workers_ok_def)
  from two_workers [OF assms(1,3)] show ?thesis
  proof
    assume "t = 0"
    with racy_worker [OF assms(3) l l [of 1]] assms(2) worker_other [OF assms(3), of 1] show ?thesis by (simp add: racy_ok_def)
  next
    assume "t = 1"
    with racy_worker [OF assms(3) l l [of 0]] assms(2) worker_other [OF assms(3), of 0] show ?thesis
      by (simp add: racy_ok_def racy_sym)
  qed
qed

section \<open>The init function\<close>

fun made :: "init_place \<Rightarrow> nat" where
  "made (Creating j) = j"
| "made _ = 2"

fun joined :: "init_place \<Rightarrow> nat" where
  "joined (Stopping j) = j" | "joined (Joining j) = j" | "joined InitDone = 2"
| "joined _ = 0"

definition init_ok :: "kthreads \<Rightarrow> sync_state \<Rightarrow> bool" where
  "init_ok k s \<longleftrightarrow>
     made (init_at s) \<le> 2 \<and> joined (init_at s) \<le> 2 \<and>
     (\<forall>t. thread_ptr s t \<longleftrightarrow> worker s t \<noteq> Absent) \<and>
     (\<forall>t. worker s t \<noteq> Absent \<longleftrightarrow> t < made (init_at s) \<and> creates k t) \<and>
     (\<forall>t < joined (init_at s). worker s t = Absent \<or> has_exited (worker s t)) \<and>
     (\<forall>j. init_at s = Joining j \<longrightarrow> thread_ptr s j)"

definition sync_inv :: "kthreads \<Rightarrow> sync_state \<Rightarrow> bool" where
  "sync_inv k s \<longleftrightarrow> workers_ok s \<and> locks_ok s \<and> counts_ok s \<and> racy_ok s \<and> init_ok k s"

lemma worker_keeps_init:
  assumes "worker_fn k t s = Some s'"
  shows "init_at s' = init_at s" "thread_ptr s' = thread_ptr s" "worker s t \<noteq> Absent" "worker s' t \<noteq> Absent" "\<not> has_exited (worker s t)"
  using assms by (auto simp: worker_fn_def go_def split: place.splits if_splits)

lemma init_ok_worker:
  assumes "init_ok k s" and "worker_fn k t s = Some s'"
  shows "init_ok k s'"
proof -
  note w = worker_keeps_init [OF assms(2)]
  have "worker s' u \<noteq> Absent \<longleftrightarrow> worker s u \<noteq> Absent" for u
    using worker_other [OF assms(2), of u] w(3,4) by (cases "u = t") simp_all
  moreover have "worker s' u = worker s u" if "u < joined (init_at s)" for u
    using worker_other [OF assms(2), of u] w(3,5) assms(1) that by (cases "u = t") (auto simp: init_ok_def)
  ultimately show ?thesis using assms(1) w(1,2) by (auto simp: init_ok_def)
qed

lemma init_ok_moves:
  assumes "init_ok k s" and "worker s' = worker s" "thread_ptr s' = thread_ptr s" "made (init_at s') = made (init_at s)"
    and "joined (init_at s') \<le> 2" "\<forall>t<joined (init_at s'). worker s t = Absent \<or> has_exited (worker s t)"
    and "\<forall>j. init_at s' = Joining j \<longrightarrow> thread_ptr s j"
  shows "init_ok k s'"
  using assms by (simp add: init_ok_def)

lemma init_ok_init:
  assumes "init_ok k s" and "sync_demo_init k s = Some s'"
  shows "init_ok k s'"
proof (cases "init_at s")
  case (Creating j)
  with assms have le: "j \<le> 2" and p: "\<forall>t. thread_ptr s t \<longleftrightarrow> worker s t \<noteq> Absent"
    and w: "\<forall>t. worker s t \<noteq> Absent \<longleftrightarrow> t < j \<and> creates k t"
    by (simp_all add: init_ok_def)
  show ?thesis
  proof (cases "j < 2")
    case True
    with assms(2) Creating have "s' = (let s1 = s\<lparr>init_at := Creating (j + 1)\<rparr> in
        if creates k j then go j Created (s1\<lparr>thread_ptr := (thread_ptr s)(j := True)\<rparr>) else s1)"
      by (simp add: sync_demo_init_def Let_def)
    then have s': "init_at s' = Creating (Suc j)" "thread_ptr s' t \<longleftrightarrow> thread_ptr s t \<or> t = j \<and> creates k j"
      "worker s' t \<noteq> Absent \<longleftrightarrow> worker s t \<noteq> Absent \<or> t = j \<and> creates k j" for t
      by (simp_all add: go_def Let_def)
    have "thread_ptr s' t \<longleftrightarrow> worker s' t \<noteq> Absent" for t using p s'(2) [of t] s'(3) [of t] by blast
    moreover have "worker s' t \<noteq> Absent \<longleftrightarrow> t < Suc j \<and> creates k t" for t using w s'(3) [of t] less_Suc_eq [of t j] True by blast
    ultimately show ?thesis using True unfolding init_ok_def s'(1) by simp
  next
    case False
    with assms(2) Creating le have "s' = s\<lparr>init_at := Stopping 0\<rparr>" "j = 2" by (simp_all add: sync_demo_init_def)
    with p w show ?thesis by (simp add: init_ok_def)
  qed
next
  case (Stopping j)
  with assms(1) have j: "j \<le> 2" "\<forall>t<j. worker s t = Absent \<or> has_exited (worker s t)" "thread_ptr s j \<longleftrightarrow> worker s j \<noteq> Absent"
    unfolding init_ok_def by simp_all
  from assms(1) show ?thesis
  proof (rule init_ok_moves)
    show "\<forall>t<joined (init_at s'). worker s t = Absent \<or> has_exited (worker s t)" "joined (init_at s') \<le> 2"
      using j Stopping assms(2) by (auto simp: sync_demo_init_def less_Suc_eq split: if_splits)
  qed (use Stopping assms(2) in \<open>auto simp: sync_demo_init_def split: if_splits\<close>)
next
  case (Joining j)
  with assms have j: "thread_ptr s j" "made (init_at s) = 2" "\<forall>t<j. worker s t = Absent \<or> has_exited (worker s t)"
    "has_exited (worker s j)" "s' = s\<lparr>init_at := Stopping (j + 1)\<rparr>"
    unfolding init_ok_def by (auto simp: sync_demo_init_def split: if_splits)
  have "j < 2" using assms(1) j(1,2) unfolding init_ok_def by metis
  with j Joining show ?thesis by (intro init_ok_moves [OF assms(1)]) (auto simp: less_Suc_eq)
qed (use assms in \<open>simp_all add: sync_demo_init_def\<close>)

text \<open>Init changes a worker only by creating it.\<close>

lemma init_creates:
  assumes "sync_demo_init k s = Some s'"
  obtains "worker s' = worker s" "unprotected s' = unprotected s" "atomic_cnt s' = atomic_cnt s" "spinlock_cnt s' = spinlock_cnt s"
      "mutex_cnt s' = mutex_cnt s" "my_spinlock s' = my_spinlock s" "my_mutex s' = my_mutex s"
    | j where "init_at s = Creating j" "j < 2" "s' = go j Created (s\<lparr>init_at := Creating (j + 1), thread_ptr := (thread_ptr s)(j := True)\<rparr>)"
  using assms by (auto simp: sync_demo_init_def Let_def split: init_place.splits if_splits)

lemma sync_inv_init:
  assumes "sync_inv k s" and "sync_demo_init k s = Some s'"
  shows "sync_inv k s'"
proof -
  have "init_ok k s'" using assms init_ok_init [of k s s'] by (simp add: sync_inv_def)
  moreover have "workers_ok s' \<and> locks_ok s' \<and> counts_ok s' \<and> racy_ok s'"
    using assms(2)
  proof (cases rule: init_creates)
    case 1
    have "workers_ok s'" "racy_ok s'" using assms(1) 1 by (simp_all add: sync_inv_def workers_ok_def racy_ok_def)
    moreover have "locks_ok s'" using assms(1) 1 by (simp add: sync_inv_def locks_ok_def)
    moreover have "counts_ok s'" using assms(1) 1 by (simp add: sync_inv_def counts_ok_def)
    ultimately show ?thesis by simp
  next
    case (2 j)
    have a: "worker s j = Absent" using assms(1) 2 by (auto simp: sync_inv_def init_ok_def)
    have "racy u Absent q \<Longrightarrow> racy u Created q" "racy u q Absent \<Longrightarrow> racy u q Created" for u q
      using racy_other [of u Absent q Created] by (simp_all add: racy_sym)
    then have "racy_ok s'" using assms(1) 2 a less_2_cases [OF 2(2)] by (auto simp: sync_inv_def racy_ok_def go_def)
    moreover have "locks_ok s'" using assms(1) 2 a by (auto simp: sync_inv_def locks_ok_def go_def) (metis in_spin.simps in_mutex.simps)+
    moreover have "workers_ok s'" "counts_ok s'"
      using assms(1) 2 a less_2_cases [OF 2(2)] by (auto simp: sync_inv_def workers_ok_def counts_ok_def go_def)
    ultimately show ?thesis by simp
  qed
  ultimately show ?thesis by (simp add: sync_inv_def)
qed

lemma sync_inv_step:
  assumes "sync_inv k s" and "sync_step k a s = Some s'"
  shows "sync_inv k s'"
proof (cases a)
  case Init
  with assms sync_inv_init show ?thesis by (simp add: sync_step_def)
next
  case (Worker t)
  with assms(2) have w: "worker_fn k t s = Some s'" by (simp add: sync_step_def)
  from assms(1) show ?thesis
    using workers_ok_worker [OF _ w] locks_ok_worker [OF _ w] counts_ok_worker [OF _ _ _ w] racy_ok_worker [OF _ _ w]
      init_ok_worker [OF _ w]
    by (simp add: sync_inv_def)
qed

lemma sync_inv_start: "sync_inv k sync_start"
  by (simp add: sync_inv_def sync_start_def workers_ok_def locks_ok_def counts_ok_def racy_ok_def racy_def racy_side_def
      init_ok_def NUM_ITERATIONS_def)

lemma sync_inv_run: "sync_run k as s = Some s' \<Longrightarrow> sync_inv k s \<Longrightarrow> sync_inv k s'"
  by (induction as arbitrary: s) (auto simp: sync_inv_step bind_eq_Some_conv)

section \<open>What the report says\<close>

text \<open>The workers that have called \<open>worker_fn\<close> and returned.\<close>

definition finished :: "sync_state \<Rightarrow> nat" where
  "finished s = length (filter (\<lambda>t. worker s t = Exited True) [0, 1])"

lemma exited_counts:
  assumes "p = Absent \<or> has_exited p"
  shows "stored p = (if p = Exited True then NUM_ITERATIONS else 0)" "atomics p = stored p" "spun p = stored p" "mutexed p = stored p"
    "idle p \<longleftrightarrow> p \<noteq> Exited True"
  using assms by (cases p; simp)+

text \<open>
  C28. Whenever init ends, under any schedule and whatever \<open>kthread_run\<close> returned, the counters with protection are 100000
  times the number of workers that ran. The unprotected one is exact if at most one ran; if both did, it is
  anything from 2 to 200000.
\<close>

theorem sync_demo_counters:
  assumes "sync_run k as sync_start = Some s" and "init_at s = InitDone"
  shows "let w = int (finished s) * 100000 in
    atomic_cnt s = w \<and> spinlock_cnt s = w \<and> mutex_cnt s = w \<and> w \<le> 200000 \<and>
    (if finished s = 2 then 2 \<le> unprotected s \<and> unprotected s \<le> w else unprotected s = w)"
proof -
  have inv: "sync_inv k s" using sync_inv_run [OF assms(1) sync_inv_start] .
  have e: "worker s 0 = Absent \<or> has_exited (worker s 0)" "worker s 1 = Absent \<or> has_exited (worker s 1)"
    using inv assms(2) by (simp_all add: sync_inv_def init_ok_def)
  have c: "counts_ok s" and r: "racy (unprotected s) (worker s 0) (worker s 1)"
    using inv by (simp_all add: sync_inv_def racy_ok_def)
  show ?thesis
    using c r exited_counts [OF e(1)] exited_counts [OF e(2)]
    by (simp add: counts_ok_def racy_def racy_side_def finished_def NUM_ITERATIONS_def Let_def split: if_splits)
qed

section \<open>Every schedule ends\<close>

text \<open>How many steps a worker and init have left at most.\<close>

fun left :: "place \<Rightarrow> int" where
  "left Absent = 11 * int NUM_ITERATIONS + 3"
| "left Created = 11 * int NUM_ITERATIONS + 2"
| "left (LoopTest i) = 11 * (int NUM_ITERATIONS - int i) + 1"
| "left (Loaded i v) = 11 * (int NUM_ITERATIONS - int i)"
| "left (AtAtomic i) = 11 * (int NUM_ITERATIONS - int i) - 1"
| "left (AtSpinLock i) = 11 * (int NUM_ITERATIONS - int i) - 2"
| "left (InSpin i) = 11 * (int NUM_ITERATIONS - int i) - 3"
| "left (SpinLoaded i v) = 11 * (int NUM_ITERATIONS - int i) - 4"
| "left (AtSpinUnlock i) = 11 * (int NUM_ITERATIONS - int i) - 5"
| "left (AtMutexLock i) = 11 * (int NUM_ITERATIONS - int i) - 6"
| "left (InMutex i) = 11 * (int NUM_ITERATIONS - int i) - 7"
| "left (MutexLoaded i v) = 11 * (int NUM_ITERATIONS - int i) - 8"
| "left (AtMutexUnlock i) = 11 * (int NUM_ITERATIONS - int i) - 9"
| "left (Exited called) = 0"

fun init_left :: "init_place \<Rightarrow> int" where
  "init_left (Creating j) = 8 - int j"
| "init_left (Stopping j) = 5 - 2 * int j"
| "init_left (Joining j) = 4 - 2 * int j"
| "init_left InitDone = 0"
| "init_left StaleTask = 0"

definition steps_left :: "sync_state \<Rightarrow> int" where
  "steps_left s = init_left (init_at s) + left (worker s 0) + left (worker s 1)"

lemma left_nonneg: "in_loop p \<Longrightarrow> 0 \<le> left p"
  by (cases p) simp_all

lemma worker_left: "worker_fn k t s = Some s' \<Longrightarrow> in_loop (worker s t) \<Longrightarrow> left (worker s' t) < left (worker s t)"
  by (cases "worker s t") (auto simp: worker_fn_def go_def split: if_splits)

lemma steps_left_nonneg: "sync_inv k s \<Longrightarrow> 0 \<le> steps_left s"
  using left_nonneg [of "worker s 0"] left_nonneg [of "worker s 1"]
  by (cases "init_at s") (auto simp: sync_inv_def workers_ok_def init_ok_def steps_left_def)

lemma init_decreases:
  assumes "sync_inv k s" and "sync_demo_init k s = Some s'"
  shows "steps_left s' < steps_left s"
proof -
  have "made (init_at s) \<le> 2" "joined (init_at s) \<le> 2" using assms(1) by (simp_all add: sync_inv_def init_ok_def)
  then have "init_left (init_at s') < init_left (init_at s)"
    using assms(2) by (cases "init_at s") (auto simp: sync_demo_init_def go_def Let_def split: if_splits)
  moreover have "left (worker s' t) \<le> left (worker s t)" for t
    using assms(2)
  proof (cases rule: init_creates)
    case (2 j)
    then have "worker s j = Absent" using assms(1) by (auto simp: sync_inv_def init_ok_def)
    with 2 show ?thesis by (simp add: go_def)
  qed simp
  ultimately show ?thesis using add_less_le_mono add_mono unfolding steps_left_def by smt
qed

lemma step_decreases:
  assumes "sync_inv k s" and "sync_step k a s = Some s'"
  shows "steps_left s' < steps_left s"
proof (cases a)
  case Init
  with init_decreases assms show ?thesis by (simp add: sync_step_def)
next
  case (Worker t)
  with assms(2) have w: "worker_fn k t s = Some s'" by (simp add: sync_step_def)
  have "workers_ok s" using assms(1) by (simp add: sync_inv_def)
  then show ?thesis
    using two_workers [OF _ w] worker_left [OF w] worker_other [OF w] worker_keeps_init(1) [OF w]
    by (auto simp: workers_ok_def steps_left_def)
qed

lemma run_bounded: "sync_run k as s = Some s' \<Longrightarrow> sync_inv k s \<Longrightarrow> int (length as) \<le> steps_left s"
proof (induction as arbitrary: s)
  case (Cons a as)
  then obtain s1 where s1: "sync_step k a s = Some s1" "sync_run k as s1 = Some s'" by (auto simp: bind_eq_Some_conv)
  with Cons sync_inv_step [OF Cons.prems(2) s1(1)] step_decreases [OF Cons.prems(2) s1(1)] show ?case by force
qed (simp add: steps_left_nonneg)

text \<open>A worker that is blocked waits for the other one, which is inside the same critical section and runs.\<close>

lemma worker_blocked:
  assumes "locks_ok s" and "worker_fn k t s = None" and "worker s t \<noteq> Absent" and "\<not> has_exited (worker s t)"
  shows "\<exists>u. worker_fn k u s \<noteq> None"
proof -
  consider i where "worker s t = AtSpinLock i" "my_spinlock s \<noteq> None" | i where "worker s t = AtMutexLock i" "my_mutex s \<noteq> None"
    using assms(2-4) by (cases "worker s t") (auto simp: worker_fn_def split: if_splits)
  then show ?thesis
  proof cases
    case 1
    then obtain u where "my_spinlock s = Some u" by auto
    then have "in_spin (worker s u)" using assms(1) by (simp add: locks_ok_def)
    then have "worker_fn k u s \<noteq> None" by (cases "worker s u") (simp_all add: worker_fn_def)
    then show ?thesis ..
  next
    case 2
    then obtain u where "my_mutex s = Some u" by auto
    then have "in_mutex (worker s u)" using assms(1) by (simp add: locks_ok_def)
    then have "worker_fn k u s \<noteq> None" by (cases "worker s u") (simp_all add: worker_fn_def)
    then show ?thesis ..
  qed
qed

lemma sync_progress:
  assumes "sync_inv k s" and "\<forall>a. sync_step k a s = None"
  shows "init_at s = InitDone \<or> init_at s = StaleTask"
proof (rule ccontr)
  assume n: "\<not> ?thesis"
  have stuck: "worker_fn k t s = None" "sync_demo_init k s = None" for t
    using assms(2) [rule_format, of "Worker t"] assms(2) [rule_format, of Init] by (simp_all add: sync_step_def)
  then obtain j where j: "init_at s = Joining j" "\<not> has_exited (worker s j)"
    using n by (auto simp: sync_demo_init_def Let_def split: init_place.splits if_splits)
  have "worker s j \<noteq> Absent" using assms(1) j(1) unfolding sync_inv_def init_ok_def by metis
  with worker_blocked [of s k j] j(2) stuck(1) assms(1) show False by (simp add: sync_inv_def)
qed

text \<open>
  The module cannot deadlock or run forever: every schedule has at most 2200014 steps, and where no step is left init has
  ended, or has passed a thread to \<open>kthread_stop\<close> that had already returned.
\<close>

theorem sync_demo_ends:
  assumes "sync_run k as sync_start = Some s"
  shows "length as \<le> 2200014 \<and> ((\<forall>a. sync_step k a s = None) \<longrightarrow> init_at s = InitDone \<or> init_at s = StaleTask)"
proof
  have "int (length as) \<le> steps_left sync_start" using run_bounded [OF assms sync_inv_start] .
  then show "length as \<le> 2200014" by (simp add: steps_left_def sync_start_def NUM_ITERATIONS_def)
  show "(\<forall>a. sync_step k a s = None) \<longrightarrow> init_at s = InitDone \<or> init_at s = StaleTask"
    using sync_progress sync_inv_run [OF assms sync_inv_start] by blast
qed

section \<open>Particular schedules\<close>

lemma sync_run_append: "sync_run k (as @ bs) s = Option.bind (sync_run k as s) (sync_run k bs)"
proof (induction as arbitrary: s)
  case (Cons a as)
  then show ?case by (cases "sync_step k a s") simp_all
qed simp

definition turns :: "nat \<Rightarrow> nat \<Rightarrow> actor list" where
  "turns n t = replicate n (Worker t)"

lemma turns_Suc: "turns (Suc n) t = Worker t # turns n t"
  by (simp add: turns_def)

text \<open>One worker runs alone, from the place after the store of an iteration to the next, and for whole iterations.\<close>

definition protected_increments :: "int \<Rightarrow> sync_state \<Rightarrow> sync_state" where
  "protected_increments n s = s\<lparr>atomic_cnt := atomic_cnt s + n, spinlock_cnt := spinlock_cnt s + n, mutex_cnt := mutex_cnt s + n\<rparr>"

lemma rest_of_iteration:
  assumes "worker s t = AtAtomic i" "my_spinlock s = None" "my_mutex s = None"
  shows "sync_run k (turns 9 t) s = Some (go t (LoopTest (i + 1)) (protected_increments 1 s))"
  using assms by (simp add: eval_nat_numeral turns_Suc sync_step_def worker_fn_def go_def protected_increments_def) (simp add: turns_def)

lemma turns_add: "sync_run k (turns (m + n) t) s = Option.bind (sync_run k (turns m t) s) (sync_run k (turns n t))"
  by (simp add: turns_def replicate_add sync_run_append)

lemma one_iteration:
  assumes "worker s t = LoopTest i" "i < NUM_ITERATIONS" "my_spinlock s = None" "my_mutex s = None"
  shows "sync_run k (turns 11 t) s =
    Some (go t (LoopTest (i + 1)) (protected_increments 1 (s\<lparr>unprotected := unprotected s + 1\<rparr>)))"
proof -
  have "sync_run k (turns 2 t) s = Some (go t (AtAtomic i) (s\<lparr>unprotected := unprotected s + 1\<rparr>))"
    using assms by (simp add: eval_nat_numeral turns_Suc sync_step_def worker_fn_def go_def) (simp add: turns_def)
  moreover have "turns 11 t = turns (2 + 9) t" by simp
  ultimately show ?thesis using assms(3,4)
    by (simp only: turns_add bind.simps) (simp add: rest_of_iteration go_def protected_increments_def)
qed

lemma iterations:
  assumes "worker s t = LoopTest i" "i + n \<le> NUM_ITERATIONS" "my_spinlock s = None" "my_mutex s = None"
  shows "sync_run k (turns (11 * n) t) s =
    Some (go t (LoopTest (i + n)) (protected_increments (int n) (s\<lparr>unprotected := unprotected s + int n\<rparr>)))"
  using assms
proof (induction n arbitrary: s i)
  case 0
  then have "(worker s)(t := LoopTest i) = worker s" by auto
  with 0 show ?case by (simp add: turns_def go_def protected_increments_def)
next
  case (Suc n)
  have e: "turns (11 * Suc n) t = turns (11 + 11 * n) t" by simp
  define s1 where "s1 = go t (LoopTest (i + 1)) (protected_increments 1 (s\<lparr>unprotected := unprotected s + 1\<rparr>))"
  have "sync_run k (turns (11 * n) t) s1 =
      Some (go t (LoopTest (i + 1 + n)) (protected_increments (int n) (s1\<lparr>unprotected := unprotected s1 + int n\<rparr>)))"
    using Suc.prems by (intro Suc.IH) (simp_all add: s1_def go_def protected_increments_def)
  moreover have "sync_run k (turns 11 t) s = Some s1" using one_iteration [of s t i k] Suc.prems by (simp add: s1_def)
  ultimately show ?case by (simp add: e turns_add s1_def go_def protected_increments_def)
qed

text \<open>
  The worst interleaving: thread 0 loads the counter and is held up while thread 1 runs all its iterations but one; thread 0 stores,
  thread 1 loads, thread 0 runs to its end, and thread 1 stores.
\<close>

definition lost_updates :: "actor list" where
  "lost_updates =
     [Init, Init, Init, Worker 0, Worker 1, Init, Worker 0] @ turns (11 * (NUM_ITERATIONS - 1)) 1 @ [Worker 0, Worker 1] @
     turns 9 0 @ turns (11 * (NUM_ITERATIONS - 1)) 0 @ [Worker 0, Init, Init, Worker 1] @ turns 9 1 @ [Worker 1, Init, Init]"

definition two :: "place \<Rightarrow> place \<Rightarrow> nat \<Rightarrow> place" where
  "two p q t = (if t = 0 then p else if t = 1 then q else Absent)"

lemma two_simps:
  "two p q 0 = p" "two p q (Suc 0) = q" "(two p q)(0 := r) = two r q" "(two p q)(Suc 0 := r) = two p r"
  "(\<lambda>_. Absent) = two Absent Absent"
  by (auto simp: two_def)

lemma sync_demo_loses_updates:
  assumes "creates k 0" and "creates k 1"
  shows "\<exists>s. sync_run k lost_updates sync_start = Some s \<and> init_at s = InitDone \<and> finished s = 2 \<and> unprotected s = 2"
proof -
  define N where "N = NUM_ITERATIONS"
  have N: "2 \<le> N" "N - Suc 0 < N" using N_ge_2 by (simp_all add: N_def)
  note eval = two_simps sync_step_def worker_fn_def sync_demo_init_def go_def protected_increments_def Let_def
  define s1 where "s1 = sync_start\<lparr>worker := two (Loaded 0 0) (LoopTest 0),
    stop_flag := (\<lambda>_. False)(0 := True), thread_ptr := (\<lambda>_. False)(0 := True, 1 := True), init_at := Joining 0\<rparr>"
  have 1: "sync_run k [Init, Init, Init, Worker 0, Worker 1, Init, Worker 0] sync_start = Some s1"
    using assms N by (simp add: eval sync_start_def s1_def N_def [symmetric])
  define s2 where "s2 = protected_increments (int (N - 1)) (s1\<lparr>unprotected := int (N - 1), worker := two (Loaded 0 0) (LoopTest (N - 1))\<rparr>)"
  have 2: "sync_run k (turns (11 * (N - 1)) 1) s1 = Some s2"
    using N iterations [of s1 1 0 "N - 1" k] by (simp add: s1_def s2_def sync_start_def eval N_def [symmetric])
  define s3 where "s3 = s2\<lparr>unprotected := 1, worker := two (AtAtomic 0) (Loaded (N - 1) 1)\<rparr>"
  have 3: "sync_run k [Worker 0, Worker 1] s2 = Some s3"
    using N by (simp add: eval s1_def s2_def s3_def N_def [symmetric])
  define s4 where "s4 = protected_increments 1 (s3\<lparr>worker := two (LoopTest 1) (Loaded (N - 1) 1)\<rparr>)"
  have 4: "sync_run k (turns 9 0) s3 = Some s4"
    using rest_of_iteration [of s3 0 0 k] by (simp add: eval s1_def s2_def s3_def s4_def sync_start_def)
  define s5 where "s5 = protected_increments (int (N - 1)) (s4\<lparr>unprotected := int N, worker := two (LoopTest N) (Loaded (N - 1) 1)\<rparr>)"
  have 5: "sync_run k (turns (11 * (N - 1)) 0) s4 = Some s5"
    using N iterations [of s4 0 1 "N - 1" k]
    by (simp add: s5_def s4_def s3_def s2_def s1_def sync_start_def eval N_def [symmetric] of_nat_diff)
  define s6 where "s6 = s5\<lparr>unprotected := 2, worker := two (Exited True) (AtAtomic (N - 1)),
    stop_flag := (\<lambda>_. False)(0 := True, 1 := True), init_at := Joining 1\<rparr>"
  have 6: "sync_run k [Worker 0, Init, Init, Worker 1] s5 = Some s6"
    using N by (simp add: eval s6_def s5_def s4_def s3_def s2_def s1_def N_def [symmetric])
  define s7 where "s7 = protected_increments 1 (s6\<lparr>worker := two (Exited True) (LoopTest N)\<rparr>)"
  have 7: "sync_run k (turns 9 1) s6 = Some s7"
    using N rest_of_iteration [of s6 1 "N - 1" k] by (simp add: eval s7_def s6_def s5_def s4_def s3_def s2_def s1_def sync_start_def)
  have 8: "\<exists>s. sync_run k [Worker 1, Init, Init] s7 = Some s \<and> init_at s = InitDone \<and> finished s = 2 \<and> unprotected s = 2"
    by (simp add: eval s7_def s6_def finished_def N_def [symmetric])
  show ?thesis using 8 unfolding lost_updates_def N_def [symmetric] by (simp only: sync_run_append 1 2 3 4 5 6 7 bind.simps)
qed

text \<open>Both threads are stopped before they have run, or one returns before it is stopped.\<close>

lemma sync_demo_may_count_nothing:
  assumes "creates k 0" and "creates k 1" and "skips_stopped k"
  shows "\<exists>s. sync_run k [Init, Init, Init, Init, Worker 0, Init, Init, Worker 1, Init, Init] sync_start = Some s \<and>
    init_at s = InitDone \<and> atomic_cnt s = 0 \<and>
    sync_report s ! 2 = ''  Atomic      : '' @ fmt_d 0 @ '' '' @ ''(BUG!)'' @ NL"
  using assms
  by (simp add: sync_step_def worker_fn_def sync_demo_init_def go_def Let_def sync_start_def sync_report_def NUM_ITERATIONS_def)

lemma sync_demo_stops_stale_task:
  assumes "creates k 0" and "creates k 1"
  shows "\<exists>s. sync_run k ([Init, Init, Init, Worker 0] @ turns (11 * NUM_ITERATIONS) 0 @ [Worker 0, Init]) sync_start = Some s \<and>
    init_at s = StaleTask"
proof -
  define s1 where "s1 = sync_start\<lparr>worker := two (LoopTest 0) Created, thread_ptr := (\<lambda>_. False)(0 := True, 1 := True), init_at := Stopping 0\<rparr>"
  have 1: "sync_run k [Init, Init, Init, Worker 0] sync_start = Some s1"
    using assms by (simp add: two_simps sync_step_def worker_fn_def sync_demo_init_def go_def Let_def sync_start_def s1_def)
  obtain s2 where 2: "sync_run k (turns (11 * NUM_ITERATIONS) 0) s1 = Some s2" "worker s2 0 = LoopTest NUM_ITERATIONS"
    "init_at s2 = Stopping 0" "thread_ptr s2 0"
    using iterations [of s1 0 0 NUM_ITERATIONS k]
    by (auto simp: s1_def sync_start_def two_simps go_def protected_increments_def)
  have "\<exists>s. sync_run k [Worker 0, Init] s2 = Some s \<and> init_at s = StaleTask"
    using 2 by (simp add: sync_step_def worker_fn_def sync_demo_init_def go_def)
  then show ?thesis by (simp only: sync_run_append 1 2(1) bind.simps)
qed

definition both_created :: kthreads where
  "both_created = \<lparr>creates = (\<lambda>_. True), skips_stopped = True\<rparr>"

lemma sync_demo_counters_witness:
  "\<exists>s. sync_run both_created lost_updates sync_start = Some s \<and> atomic_cnt s = 200000 \<and> unprotected s = 2"
proof -
  obtain s where s: "sync_run both_created lost_updates sync_start = Some s" "init_at s = InitDone" "finished s = 2" "unprotected s = 2"
    using sync_demo_loses_updates [of both_created] by (auto simp: both_created_def)
  from sync_demo_counters [OF s(1,2)] s show ?thesis by (simp add: Let_def)
qed

lemma sync_demo_ends_witness:
  "\<exists>s. sync_run both_created lost_updates sync_start = Some s \<and> length lost_updates \<le> 2200014"
proof -
  obtain s where s: "sync_run both_created lost_updates sync_start = Some s"
    using sync_demo_loses_updates [of both_created] by (auto simp: both_created_def)
  with sync_demo_ends [OF s] show ?thesis by simp
qed

end
