(* ===== verification/SystemInfo.thy ===== *)
theory SystemInfo
  imports Bytes
begin

text \<open>
  Two programs of SystemProgramming/Handson that report what the system says: user_info.c of lab12_users_groups and memory_demo.c of lab13_memory. The data bases of users and groups, the
  files of /proc and the addresses that the kernel gives are arguments; \<open>None\<close> is undefined behaviour.
\<close>

section \<open>user\_info\<close>

record user_entry =
  user_name :: string
  user_uid :: int
  user_gid :: int
  user_dir :: string
  user_shell :: string
  user_gecos :: string

record group_entry =
  gr_name :: string
  gr_gid :: int
  gr_mem :: "string list"

text \<open>Numbers of users and groups are unsigned; they are printed as signed ones.\<close>

definition fmt_id :: "int \<Rightarrow> string" where "fmt_id n = fmt_d (cast_s32 n)"

definition demo_current_identity :: "(int \<Rightarrow> user_entry option) \<Rightarrow> int \<Rightarrow> int \<Rightarrow> int \<Rightarrow> int \<Rightarrow> string list" where
  "demo_current_identity getpwuid uid euid gid egid =
     [''--- Demo 1: Current Identity ---'' @ NL, ''  Real UID:      '' @ fmt_id uid @ NL, ''  Effective UID: '' @ fmt_id euid @ NL, ''  Real GID:      '' @ fmt_id gid @ NL,
      ''  Effective GID: '' @ fmt_id egid @ NL, ''  Running as root: '' @ (if euid = 0 then ''YES'' else ''NO'') @ NL] @
     (case getpwuid uid of None \<Rightarrow> []
      | Some pw \<Rightarrow> [NL @ ''  Username:  '' @ user_name pw @ NL, ''  Home:      '' @ user_dir pw @ NL, ''  Shell:     '' @ user_shell pw @ NL, ''  GECOS:     '' @ user_gecos pw @ NL])"

text \<open>The supplementary groups, if the call succeeds; without memory the list is stored through a null pointer.\<close>

definition demo_groups :: "(int \<Rightarrow> group_entry option) \<Rightarrow> bool \<Rightarrow> int \<Rightarrow> int list \<Rightarrow> string list option" where
  "demo_groups getgrgid malloc_ok gid groups =
     (if groups \<noteq> [] \<and> \<not> malloc_ok then None
      else Some ([NL @ ''--- Demo 2: Group Information ---'' @ NL] @
        (case getgrgid gid of None \<Rightarrow> [] | Some gr \<Rightarrow> [''  Primary group: '' @ gr_name gr @ '' (GID='' @ fmt_id gid @ '')'' @ NL]) @
        (if groups = [] then [] else (''  Supplementary groups ('' @ fmt_d (int (length groups)) @ ''):'' @ NL) #
          map (\<lambda>g. ''    GID='' @ pad_right 6 (fmt_id g) @ '' '' @ (case getgrgid g of Some gr \<Rightarrow> gr_name gr | None \<Rightarrow> ''(unknown)'') @ NL) groups)))"

definition user_row :: "string \<Rightarrow> string \<Rightarrow> string \<Rightarrow> string \<Rightarrow> string" where
  "user_row a b c d = ''  '' @ pad_right 12 a @ '' '' @ pad_right 6 b @ '' '' @ pad_right 6 c @ '' '' @ d @ NL"

definition demo_enumerate_users :: "user_entry list \<Rightarrow> string list" where
  "demo_enumerate_users users =
     [NL @ ''--- Demo 3: System Users (first 10) ---'' @ NL, user_row ''Username'' ''UID'' ''GID'' ''Home'', user_row ''--------'' ''---'' ''---'' ''----''] @
     map (\<lambda>pw. user_row (user_name pw) (fmt_id (user_uid pw)) (fmt_id (user_gid pw)) (user_dir pw)) (take 10 users)"

text \<open>The members with commas between them.\<close>

fun member_list :: "nat \<Rightarrow> string list \<Rightarrow> string" where
  "member_list i [] = []"
| "member_list i (m # ms) = (if i \<noteq> 0 then '','' else []) @ m @ member_list (i + 1) ms"

definition group_row :: "group_entry \<Rightarrow> string" where
  "group_row gr = ''  '' @ pad_right 16 (gr_name gr) @ '' '' @ pad_right 6 (fmt_id (gr_gid gr)) @ '' '' @ (if gr_mem gr \<noteq> [] then member_list 0 (gr_mem gr) else ''(none)'') @ NL"

definition demo_enumerate_groups :: "group_entry list \<Rightarrow> string list" where
  "demo_enumerate_groups gs =
     [NL @ ''--- Demo 4: System Groups (first 10) ---'' @ NL, ''  '' @ pad_right 16 ''Group'' @ '' '' @ pad_right 6 ''GID'' @ '' Members'' @ NL,
      ''  '' @ pad_right 16 ''-----'' @ '' '' @ pad_right 6 ''---'' @ '' -------'' @ NL] @ map group_row (take 10 gs)"

definition lookup_line :: "string \<Rightarrow> user_entry option \<Rightarrow> string list" where
  "lookup_line name e = (case e of None \<Rightarrow> []
     | Some pw \<Rightarrow> [''  '' @ name @ '': UID='' @ fmt_id (user_uid pw) @ '', GID='' @ fmt_id (user_gid pw) @ '', shell='' @ user_shell pw @ NL])"

definition demo_lookup :: "user_entry list \<Rightarrow> group_entry list \<Rightarrow> string list" where
  "demo_lookup users gs = [NL @ ''--- Demo 5: Lookups ---'' @ NL] @ lookup_line ''root'' (find (\<lambda>u. user_name u = ''root'') users) @
     lookup_line ''nobody'' (find (\<lambda>u. user_name u = ''nobody'') users) @
     (case find (\<lambda>g. gr_name g = ''root'') gs of None \<Rightarrow> [] | Some g \<Rightarrow> [''  Group '' @ in_quotes ''root'' @ '': GID='' @ fmt_id (gr_gid g) @ NL])"

definition user_info :: "user_entry list \<Rightarrow> group_entry list \<Rightarrow> bool \<Rightarrow> int \<Rightarrow> int \<Rightarrow> int \<Rightarrow> int \<Rightarrow> int list \<Rightarrow> string list option" where
  "user_info users gs malloc_ok uid euid gid egid groups =
     map_option (\<lambda>ls. [''=== User & Group Information Demo ==='' @ NL @ NL] @ demo_current_identity (\<lambda>n. find (\<lambda>u. user_uid u = n) users) uid euid gid egid @ ls @
         demo_enumerate_users users @ demo_enumerate_groups gs @ demo_lookup users gs @ [NL @ ''=== Demo Complete ==='' @ NL])
       (demo_groups (\<lambda>n. find (\<lambda>g. gr_gid g = n) gs) malloc_ok gid groups)"

lemma member_list_commas: "member_list (Suc i) ms = concat (map (\<lambda>m. CHR '','' # m) ms)"
  by (induction ms arbitrary: i) simp_all

lemma member_list_head: "member_list 0 (m # ms) = m @ concat (map (\<lambda>m. CHR '','' # m) ms)"
  by (simp add: member_list_commas)

lemma rows_bounded: "length (demo_enumerate_users users) \<le> 13" "length (demo_enumerate_groups gs) \<le> 13"
  by (simp_all add: demo_enumerate_users_def demo_enumerate_groups_def)

text \<open>The user nobody of a user name space, whose number is the largest there is, is shown with a negative one.\<close>

lemma large_id_negative: "fmt_id 4294967294 = ''-2''"
  by (simp add: fmt_id_def cast_s32_def fmt_d_def dec.simps digit_def)

section \<open>memory\_demo\<close>

text \<open>The end of the heap; \<open>sbrk\<close> gives the old one. A failure, of which nothing is tested, is -1 as an address.\<close>

definition demo_brk_sbrk :: "(int \<Rightarrow> string) \<Rightarrow> int \<Rightarrow> bool \<Rightarrow> (string list \<times> int) option" where
  "demo_brk_sbrk fmt_p brk0 room = (if \<not> room then None else
     Some ([''--- Demo 1: brk/sbrk Heap ---'' @ NL, ''  Initial program break: '' @ fmt_p brk0 @ NL, ''  After sbrk(4096):      '' @ fmt_p (brk0 + 4096) @ NL,
            ''  Allocated block at:    '' @ fmt_p brk0 @ NL, ''  Wrote 4096 bytes to heap.'' @ NL, ''  After sbrk(-4096):     '' @ fmt_p (brk0 + 4096 - 4096) @ NL], brk0 + 4096 - 4096))"

lemma demo_brk_restores: "demo_brk_sbrk fmt_p brk0 True = Some (ls, b) \<Longrightarrow> b = brk0 \<and> ls ! 1 = ''  Initial program break: '' @ fmt_p brk0 @ NL \<and> ls ! 5 = ''  After sbrk(-4096):     '' @ fmt_p brk0 @ NL"
  by (auto simp: demo_brk_sbrk_def)

definition demo_malloc_sizes :: "string \<Rightarrow> string \<Rightarrow> string \<Rightarrow> string \<Rightarrow> string list" where
  "demo_malloc_sizes small medium large huge =
     (let q = ''  (likely mmap'' @ [CHR 0x27] @ ''d)'' @ NL
      in [NL @ ''--- Demo 2: malloc Small vs Large ---'' @ NL, ''  small  (64 B):   '' @ small @ NL, ''  medium (1 KB):   '' @ medium @ NL, ''  large  (256 KB): '' @ large @ q,
          ''  huge   (10 MB):  '' @ huge @ q, NL @ ''  Heap region:   around '' @ small @ NL, ''  Mmap region:   around '' @ large @ NL])"

definition demo_proc_maps :: "(int \<Rightarrow> string) \<Rightarrow> (int + string) \<Rightarrow> string list" where
  "demo_proc_maps strerror file = (NL @ ''--- Demo 3: Memory Maps (/proc/self/maps) ---'' @ NL) # (case file of
       Inl e \<Rightarrow> [''fopen: '' @ strerror e @ NL]
     | Inr t \<Rightarrow> [''  '' @ pad_right 36 ''Address Range'' @ '' '' @ pad_right 5 ''Perms'' @ '' '' @ pad_right 10 ''Offset'' @ '' Path'' @ NL] @ map ((@) ''  '') (take 15 (input_lines 512 t)) @
         [''  ... (truncated, run '' @ in_quotes ''cat /proc/self/maps'' @ '' for full output)'' @ NL])"

definition anon_mmap_lines :: "(int \<Rightarrow> string) \<Rightarrow> int \<Rightarrow> string \<Rightarrow> string list" where
  "anon_mmap_lines strerror map_r mem = (NL @ ''--- Demo 4: Anonymous mmap ---'' @ NL) # (if map_r < 0 then [''mmap: '' @ strerror (- map_r) @ NL]
     else [''  Mapped 4 MB at '' @ mem @ NL, ''  MADV_SEQUENTIAL hint set.'' @ NL, ''  Wrote 4 MB pattern.'' @ NL, ''  MADV_DONTNEED'' @ DASH @ ''pages reclaimed by kernel.'' @ NL, ''  Unmapped.'' @ NL])"

definition demo_mlock :: "(int \<Rightarrow> string) \<Rightarrow> int \<Rightarrow> string list" where
  "demo_mlock strerror r = (NL @ ''--- Demo 5: mlock (Pin Pages) ---'' @ NL) #
     (if r = 0 then [''  Locked 1 MB in RAM (won'' @ [CHR 0x27] @ ''t be swapped).'' @ NL, ''  Unlocked.'' @ NL]
      else [''  mlock (may need '' @ in_quotes ''ulimit -l unlimited'' @ '' or root): '' @ strerror (- r) @ NL])"

definition has_prefix :: "string \<Rightarrow> string \<Rightarrow> bool" where
  "has_prefix p l \<longleftrightarrow> take (length p) l = p"

definition demo_vmstats :: "(int \<Rightarrow> string) \<Rightarrow> (int + string) \<Rightarrow> string list" where
  "demo_vmstats strerror file = (NL @ ''--- Demo 6: Virtual Memory Stats ---'' @ NL) # (case file of
       Inl e \<Rightarrow> [''fopen: '' @ strerror e @ NL]
     | Inr t \<Rightarrow> map ((@) ''  '') (filter (\<lambda>l. has_prefix ''Vm'' l \<or> has_prefix ''Rss'' l \<or> has_prefix ''Threads'' l) (input_lines 256 t)))"

lemma demo_proc_maps_bounded: "length (demo_proc_maps strerror (Inr t)) \<le> 18"
  by (simp add: demo_proc_maps_def)

text \<open>The lines of a text whose lines are short enough are those that \<open>fgets\<close> gives.\<close>

definition short_line :: "nat \<Rightarrow> string \<Rightarrow> bool" where
  "short_line n l \<longleftrightarrow> CHR 0x0A \<notin> set l \<and> Suc (length l) < n"

lemma input_lines_short: "list_all (short_line n) ls \<Longrightarrow> input_lines n (concat (map (\<lambda>l. l @ NL) ls)) = map (\<lambda>l. l @ NL) ls"
proof (induction ls)
  case Nil
  then show ?case by (simp add: input_lines.simps)
next
  case (Cons l ls)
  let ?rest = "concat (map (\<lambda>l. l @ NL) ls)"
  have "fgets n (l @ NL @ ?rest) = (l @ NL, ?rest)" using fgets_line [of l n ?rest] Cons.prems by (simp add: NL_def short_line_def)
  moreover have "l @ NL @ ?rest \<noteq> []" and "1 < n" using Cons.prems by (simp_all add: NL_def short_line_def)
  ultimately show ?case using Cons.IH Cons.prems by (simp add: input_lines.simps [of n "l @ NL @ ?rest"] del: fgets.simps)
qed

lemma demo_vmstats_filters:
  assumes "list_all (short_line 256) ls"
  shows "demo_vmstats strerror (Inr (concat (map (\<lambda>l. l @ NL) ls))) =
    (NL @ ''--- Demo 6: Virtual Memory Stats ---'' @ NL) # map (\<lambda>l. ''  '' @ l @ NL) (filter (\<lambda>l. has_prefix ''Vm'' (l @ NL) \<or> has_prefix ''Rss'' (l @ NL) \<or> has_prefix ''Threads'' (l @ NL)) ls)"
  using input_lines_short [of 256 ls] assms by (simp add: demo_vmstats_def filter_map comp_def)

end
