(* ===== verification/TempFiles.thy ===== *)
theory TempFiles
  imports FileDemos
begin

text \<open>
  tempfile_demo.c of SystemProgramming/Handson/lab15_tempfiles and error_handling_demo.c of lab04_error_handling over the same file calls. Arguments are the suffix that
  \<open>mkstemp\<close> chooses, whether a call that the model of files does not let fail does fail, and \<open>stale\<close>, the number that the first line of \<open>demo_mkstemp\<close> prints: its
  format asks for an argument that is not passed.
\<close>

section \<open>Temporary files\<close>

definition mkstemp :: "string \<Rightarrow> string \<Rightarrow> posix \<Rightarrow> int \<times> posix" where
  "mkstemp prefix suffix s = sys_open (prefix @ suffix) (O_RDWR\<lparr>o_creat := True, o_excl := True\<rparr>) s"

definition TEMP_DASH :: string where "TEMP_DASH = [CHR 0xE2, CHR 0x80, CHR 0x94]"

definition TEMP_DATA :: string where "TEMP_DATA = ''Sensitive temporary data'' @ NL"

definition demo_mkstemp :: "(int \<Rightarrow> string) \<Rightarrow> string \<Rightarrow> int \<Rightarrow> posix \<Rightarrow> demo" where
  "demo_mkstemp strerror suffix stale s =
     (let out1 = [''--- Demo 1: mkstemp (Secure) ---'' @ NL];
          path = ''/tmp/myapp_'' @ suffix;
          (fd, s1) = mkstemp ''/tmp/myapp_'' suffix s
      in if fd < 0 then Some (out1 @ [''mkstemp: '' @ strerror (errno s1) @ NL], s1)
         else
           (let data = TEMP_DATA;
                s2 = snd (sys_write fd (map Some data) s1);
                s3 = sys_unlink path s2;
                s4 = snd (sys_lseek fd 0 SEEK_SET s3);
                (n, bytes, s5) = sys_read fd 63 s4
            in if n < 0 then None
               else map_option (\<lambda>t. (out1 @
                   [''  Created: '' @ path @ '' (fd='' @ fmt_d stale @ '')'' @ NL,
                    ''  Permissions: 600 (should be 0600)'' @ NL,
                    ''  Wrote '' @ fmt_u (int (length data)) @ '' bytes.'' @ NL,
                    ''  Unlinked (file open but name removed from filesystem).'' @ NL,
                    ''  Read back: '' @ in_quotes t @ NL, ''  Closed '' @ TEMP_DASH @ '' file now completely gone.'' @ NL], sys_close fd s5))
                 (buffer_text (bytes @ [Some NUL]))))"

definition ANONYMOUS :: string where "ANONYMOUS = ''Ultra-secure: this file NEVER had a name.'' @ NL"

text \<open>\<open>refused\<close> is the error of a filesystem that has no anonymous files or does not give one.\<close>

definition EOPNOTSUPP :: int where "EOPNOTSUPP = 95"

definition demo_o_tmpfile :: "(int \<Rightarrow> string) \<Rightarrow> int option \<Rightarrow> posix \<Rightarrow> demo" where
  "demo_o_tmpfile strerror refused s =
     (let out1 = [NL @ ''--- Demo 5: O_TMPFILE (Linux 3.11+) ---'' @ NL];
          (fd, s1) = (case refused of Some e \<Rightarrow> (- 1, s\<lparr>errno := e\<rparr>) | None \<Rightarrow> sys_open_anonymous O_RDWR s)
      in if fd < 0 then
           (if errno s1 = EOPNOTSUPP then Some (out1 @ [''  O_TMPFILE not supported on this filesystem.'' @ NL], s1)
            else Some (out1 @ [''  open O_TMPFILE: '' @ strerror (errno s1) @ NL], s1))
         else
           (let s2 = snd (sys_write fd (map Some ANONYMOUS) s1);
                s3 = snd (sys_lseek fd 0 SEEK_SET s2);
                (n, bytes, s4) = sys_read fd 127 s3
            in if n < 0 then None
               else map_option (\<lambda>t. (out1 @
                   [''  Created anonymous file (fd='' @ fmt_d fd @ '', no name on disk!)'' @ NL, ''  Content: '' @ in_quotes t @ NL,
                    ''  Closed '' @ TEMP_DASH @ '' gone forever.'' @ NL], sys_close fd s4))
                 (buffer_text (bytes @ [Some NUL]))))"

section \<open>Errors\<close>

text \<open>The return value, the buffer up to the NUL, and the state; \<open>read_fails\<close> is the error of \<open>read\<close>, if it fails.\<close>

definition safe_read_file :: "int option \<Rightarrow> string \<Rightarrow> nat \<Rightarrow> posix \<Rightarrow> (int \<times> contents \<times> posix) option" where
  "safe_read_file read_fails path bufsize s =
     (let (fd, s1) = sys_open path O_RDONLY s
      in if fd < 0 then Some (- errno s1, [], s1)
         else
           (let (nread, bytes, s2) = (case read_fails of
                Some e \<Rightarrow> (- 1, [], s1\<lparr>errno := e\<rparr>)
              | None \<Rightarrow> sys_read fd (nat (cast_u64 (int bufsize - 1))) s1)
            in if nread < 0 then
                 (let saved_errno = errno s2 in Some (- saved_errno, [], sys_close fd s2))
               else if length bytes < bufsize then Some (cast_s32 nread, bytes @ [Some NUL], sys_close fd s2)
               else None))"

definition demo_file_errors :: "(int \<Rightarrow> string) \<Rightarrow> posix \<Rightarrow> string list \<times> posix" where
  "demo_file_errors strerror s =
     (let (fd, s1) = sys_open ''/tmp/nonexistent_file_xyz_123.txt'' O_RDONLY s;
          out1 = [NL @ ''--- Demo 1: File Operation Errors ---'' @ NL] @
            (if fd < 0 then
               [''  open() failed:'' @ NL, ''    errno value: '' @ fmt_d (errno s1) @ NL, ''    errno name:  ENOENT (2)'' @ NL,
                ''    strerror():  '' @ strerror (errno s1) @ NL, ''    perror():    '', ''open: '' @ strerror (errno s1) @ NL]
             else []);
          (fd2, s2) = sys_open ''/etc/shadow'' O_RDONLY s1;
          out2 = out1 @ (if fd2 < 0 then
               [NL @ ''  open(/etc/shadow) failed:'' @ NL, ''    errno: '' @ fmt_d (errno s2) @ '' ('' @ strerror (errno s2) @ '')'' @ NL] else []);
          fl = O_WRONLY\<lparr>o_creat := True, o_excl := True\<rparr>;
          path = ''/tmp/error_demo_test.txt'';
          (fd3, s3) = sys_open path fl s2
      in if fd3 < 0 then (out2, s3)
         else
           (let (fd4, s4) = sys_open path fl (sys_close fd3 s3)
            in (out2 @ (if fd4 < 0 \<and> errno s4 = EEXIST then
                  [NL @ ''  Second open with O_EXCL failed as expected:'' @ NL, ''    errno: '' @ fmt_d (errno s4) @ '' ('' @ strerror (errno s4) @ '')'' @ NL]
                else []), sys_unlink path s4)))"

text \<open>The line of one call of \<open>safe_read_file\<close> in \<open>demo_proper_pattern\<close>, for the file that exists and for the other.\<close>

definition hostname_line :: "(int \<Rightarrow> string) \<Rightarrow> int \<times> contents \<Rightarrow> string option" where
  "hostname_line strerror r =
     (if fst r \<ge> 0 then map_option (\<lambda>t. ''  Read /etc/hostname: '' @ in_quotes t @ '' ('' @ fmt_d (fst r) @ '' bytes)'' @ NL)
          (buffer_text (take (if fst r > 30 then 30 else nat (fst r)) (snd r) @ [Some NUL]))
      else Some (''  Read /etc/hostname failed: '' @ strerror (- fst r) @ NL))"

definition nonexistent_line :: "(int \<Rightarrow> string) \<Rightarrow> int \<times> contents \<Rightarrow> string" where
  "nonexistent_line strerror r =
     (if fst r \<ge> 0 then ''  Read /nonexistent: success (unexpected!)'' @ NL
      else ''  Read /nonexistent failed: '' @ strerror (- fst r) @ '' (code '' @ fmt_d (fst r) @ '')'' @ NL)"

definition demo_proper_pattern :: "(int \<Rightarrow> string) \<Rightarrow> int option \<Rightarrow> posix \<Rightarrow> demo" where
  "demo_proper_pattern strerror read_fails s =
     Option.bind (safe_read_file read_fails ''/etc/hostname'' 256 s) (\<lambda>(r1, b1, s1).
       Option.bind (hostname_line strerror (r1, b1)) (\<lambda>l1.
         Option.bind (safe_read_file read_fails ''/nonexistent'' 256 s1) (\<lambda>(r2, b2, s2).
           Some ([NL @ ''--- Demo 3: Proper Error Handling Pattern ---'' @ NL, l1, nonexistent_line strerror (r2, b2)], s2))))"

definition errno_line :: "(int \<Rightarrow> string) \<Rightarrow> posix \<Rightarrow> string" where
  "errno_line strerror s = ''  After successful fopen: errno='' @ fmt_d (errno s) @ '' (still '' @ strerror (errno s) @ ''!)'' @ NL"

definition demo_errno_gotchas :: "(int \<Rightarrow> string) \<Rightarrow> posix \<Rightarrow> string list \<times> posix" where
  "demo_errno_gotchas strerror s =
     (let (fd, s1) = sys_open ''/nonexistent'' O_RDONLY s;
          (f, s2) = sys_open ''/etc/hostname'' O_RDONLY s1
      in ([NL @ ''--- Demo 4: errno Gotchas ---'' @ NL,
           ''  After failed open: errno='' @ fmt_d (errno s1) @ '' ('' @ strerror (errno s1) @ '')'' @ NL,
           errno_line strerror s2], if f < 0 then s2 else sys_close f s2))"

section \<open>Lemmas\<close>

lemma text_facts [simp]:
  "length TEMP_DATA = 25" "NUL \<notin> set TEMP_DATA" "length ANONYMOUS = 42" "NUL \<notin> set ANONYMOUS"
  by (simp_all add: TEMP_DATA_def ANONYMOUS_def NL_def)

lemma not_exists_new:
  assumes "files_ok s"
  shows "\<not> exists_file (next_file s) s"
proof
  assume "exists_file (next_file s) s"
  then consider path where "names s path = Some (next_file s)" | fd f where "fds s fd = Some f" and "ofile f = next_file s"
    by (auto simp: exists_file_def)
  then show False
  proof cases
    case 1
    then show False using files_okD(1) [OF assms] less_irrefl by blast
  next
    case 2
    then show False using files_okD(2) [OF assms, of fd f] by simp
  qed
qed

text \<open>The temporary file is read back after its name is gone, and nothing refers to it in the end.\<close>

lemma demo_mkstemp_run:
  assumes "free_fd s = Some k" and "permits s path" and "names s path = None" and "path = ''/tmp/myapp_'' @ suffix" and "files_ok s"
  shows "\<exists>out s'. demo_mkstemp strerror suffix stale s = Some (out, s') \<and> ''  Read back: '' @ in_quotes TEMP_DATA @ NL \<in> set out \<and>
    names s' = names s \<and> fds s' = fds s \<and> files s' (next_file s) = map Some TEMP_DATA \<and> \<not> exists_file (next_file s) s'"
proof -
  let ?fl = "O_RDWR\<lparr>o_creat := True, o_excl := True\<rparr>" and ?i = "next_file s"
  let ?st = "\<lambda>nm d f. s\<lparr>names := nm, files := (files s)(?i := d), next_file := Suc ?i, fds := (fds s)(k := Some f)\<rparr>"
  let ?sn = "\<lambda>d f. s\<lparr>files := (files s)(?i := d), next_file := Suc ?i, fds := (fds s)(k := Some f)\<rparr>"
  let ?nm = "(names s)(path := Some ?i)"
  have fl: "o_creat ?fl" "\<not> o_trunc ?fl" "o_read ?fl" "o_write ?fl" "\<not> o_append ?fl" by simp_all
  have o: "mkstemp ''/tmp/myapp_'' suffix s = (int k, ?st ?nm [] (opened ?i ?fl))"
    using assms(1-3) unfolding mkstemp_def assms(4) [symmetric] by (simp add: sys_open_def)
  have w: "sys_write (int k) (map Some TEMP_DATA) (?st ?nm [] (opened ?i ?fl)) = (25, ?st ?nm (map Some TEMP_DATA) ((opened ?i ?fl)\<lparr>pos := 25\<rparr>))"
    using fl by (simp add: open_calls write_at_empty)
  have n: "?nm(path := None) = names s" using assms(3) by (simp add: fun_upd_idem)
  have u: "sys_unlink path (?st ?nm (map Some TEMP_DATA) ((opened ?i ?fl)\<lparr>pos := 25\<rparr>)) = ?sn (map Some TEMP_DATA) ((opened ?i ?fl)\<lparr>pos := 25\<rparr>)"
    using n by (simp add: sys_unlink_def)
  have l: "sys_lseek (int k) 0 SEEK_SET (?sn (map Some TEMP_DATA) ((opened ?i ?fl)\<lparr>pos := 25\<rparr>)) = (0, ?sn (map Some TEMP_DATA) (opened ?i ?fl))"
    by (simp add: open_calls) (simp add: opened_def)
  have r: "sys_read (int k) 63 (?sn (map Some TEMP_DATA) (opened ?i ?fl)) =
      (25, map Some TEMP_DATA, ?sn (map Some TEMP_DATA) ((opened ?i ?fl)\<lparr>pos := 25\<rparr>))"
    using fl by (simp add: open_calls)
  let ?e = "s\<lparr>files := (files s)(?i := map Some TEMP_DATA), next_file := Suc ?i\<rparr>"
  have c: "sys_close (int k) (?sn (map Some TEMP_DATA) ((opened ?i ?fl)\<lparr>pos := 25\<rparr>)) = ?e"
    by (simp add: close_open close_restores [OF assms(1)])
  have t: "buffer_text (map Some TEMP_DATA @ [Some NUL]) = Some TEMP_DATA" by (simp add: buffer_text_terminated)
  have x: "\<not> exists_file ?i ?e" using not_exists_new [OF assms(5)] by (simp add: exists_file_def)
  show ?thesis
    unfolding demo_mkstemp_def Let_def assms(4) [symmetric] using x by (simp add: o w u l r c t)
qed

lemma demo_o_tmpfile_run:
  assumes "free_fd s = Some k" and "files_ok s"
  shows "\<exists>out s'. demo_o_tmpfile strerror None s = Some (out, s') \<and> ''  Content: '' @ in_quotes ANONYMOUS @ NL \<in> set out \<and>
    names s' = names s \<and> fds s' = fds s \<and> \<not> exists_file (next_file s) s'"
proof -
  let ?i = "next_file s"
  let ?st = "\<lambda>d f. s\<lparr>files := (files s)(?i := d), next_file := Suc ?i, fds := (fds s)(k := Some f)\<rparr>"
  have o: "sys_open_anonymous O_RDWR s = (int k, ?st [] (opened ?i O_RDWR))" using assms(1) by (simp add: sys_open_anonymous_def)
  have w: "sys_write (int k) (map Some ANONYMOUS) (?st [] (opened ?i O_RDWR)) = (42, ?st (map Some ANONYMOUS) ((opened ?i O_RDWR)\<lparr>pos := 42\<rparr>))"
    by (simp add: open_calls write_at_empty)
  have l: "sys_lseek (int k) 0 SEEK_SET (?st (map Some ANONYMOUS) ((opened ?i O_RDWR)\<lparr>pos := 42\<rparr>)) = (0, ?st (map Some ANONYMOUS) (opened ?i O_RDWR))"
    by (simp add: open_calls) (simp add: opened_def)
  have r: "sys_read (int k) 127 (?st (map Some ANONYMOUS) (opened ?i O_RDWR)) =
      (42, map Some ANONYMOUS, ?st (map Some ANONYMOUS) ((opened ?i O_RDWR)\<lparr>pos := 42\<rparr>))"
    by (simp add: open_calls)
  let ?e = "s\<lparr>files := (files s)(?i := map Some ANONYMOUS), next_file := Suc ?i\<rparr>"
  have c: "sys_close (int k) (?st (map Some ANONYMOUS) ((opened ?i O_RDWR)\<lparr>pos := 42\<rparr>)) = ?e"
    by (simp add: close_open close_restores [OF assms(1)])
  have t: "buffer_text (map Some ANONYMOUS @ [Some NUL]) = Some ANONYMOUS" by (simp add: buffer_text_terminated)
  have x: "\<not> exists_file ?i ?e" using not_exists_new [OF assms(2)] by (simp add: exists_file_def)
  show ?thesis unfolding demo_o_tmpfile_def Let_def using x by (simp add: o w l r c t)
qed

text \<open>Every path of \<open>safe_read_file\<close> leaves the descriptors as they were.\<close>

lemma safe_read_file_reads:
  assumes "free_fd s = Some k" and "permits s path" and "names s path = Some i" and "0 < bufsize" and "bufsize \<le> 2 ^ 31"
  shows "safe_read_file None path bufsize s =
    Some (int (min (bufsize - 1) (length (files s i))), take (bufsize - 1) (files s i) @ [Some NUL], s)"
proof -
  let ?s1 = "s\<lparr>fds := (fds s)(k := Some (opened i O_RDONLY))\<rparr>"
  let ?d = "take (bufsize - 1) (files s i)"
  have o: "sys_open path O_RDONLY s = (int k, ?s1)" using assms(1-3) by (simp add: open_existing)
  have n: "nat (cast_u64 (int bufsize - 1)) = bufsize - 1" using assms(4,5) by (simp add: cast_u64_def)
  have r: "sys_read (int k) (bufsize - 1) ?s1 = (int (length ?d), ?d, s\<lparr>fds := (fds s)(k := Some ((opened i O_RDONLY)\<lparr>pos := length ?d\<rparr>))\<rparr>)"
    by (simp add: read_open)
  have c: "sys_close (int k) (s\<lparr>fds := (fds s)(k := Some f)\<rparr>) = s" for f
    by (simp add: close_open close_restores [OF assms(1)])
  have m: "length ?d < bufsize" using assms(4) by simp
  have l: "int (length ?d) < 2 ^ 31" using m assms(5) by simp
  have b: "cast_s32 (int (length ?d)) = int (length ?d)" by (rule cast_s32_id) (use l in simp_all)
  show ?thesis
    unfolding safe_read_file_def Let_def n o by (simp only: r prod.case option.case c b) (use m in \<open>simp add: min.commute\<close>)
qed

lemma safe_read_file_errors:
  assumes "free_fd s = Some k"
  shows "names s path = None \<Longrightarrow> safe_read_file rf path bufsize s = Some (- ENOENT, [], s\<lparr>errno := ENOENT\<rparr>)"
    and "names s path = Some i \<Longrightarrow> \<not> permits s path \<Longrightarrow> safe_read_file rf path bufsize s = Some (- EACCES, [], s\<lparr>errno := EACCES\<rparr>)"
    and "names s path = Some i \<Longrightarrow> permits s path \<Longrightarrow> safe_read_file (Some e) path bufsize s = Some (- e, [], s\<lparr>errno := e\<rparr>)"
  using assms by (simp_all add: safe_read_file_def sys_open_def sys_close_def close_restores)

text \<open>A buffer of no bytes is read into without a bound.\<close>

lemma safe_read_file_no_buffer:
  "free_fd s = Some k \<Longrightarrow> permits s path \<Longrightarrow> names s path = Some i \<Longrightarrow> length (files s i) < 2 ^ 63 \<Longrightarrow> safe_read_file None path 0 s = None"
  by (simp add: safe_read_file_def open_existing read_open)

lemma demo_proper_pattern_run:
  assumes "free_fd s = Some k" and "permits s ''/etc/hostname''" and "names s ''/etc/hostname'' = Some i" and "files s i = map Some host"
    and "NUL \<notin> set host" and "length host < 256" and "names s ''/nonexistent'' = None"
  shows "demo_proper_pattern strerror None s = Some
    ([NL @ ''--- Demo 3: Proper Error Handling Pattern ---'' @ NL,
      ''  Read /etc/hostname: '' @ in_quotes (take 30 host) @ '' ('' @ fmt_d (int (length host)) @ '' bytes)'' @ NL,
      ''  Read /nonexistent failed: '' @ strerror ENOENT @ '' (code '' @ fmt_d (- ENOENT) @ '')'' @ NL], s\<lparr>errno := ENOENT\<rparr>)"
proof -
  have r1: "safe_read_file None ''/etc/hostname'' 256 s = Some (int (length host), map Some host @ [Some NUL], s)"
    using safe_read_file_reads [OF assms(1-3), of 256] assms(4,6) by (simp add: min_def)
  have r2: "safe_read_file None ''/nonexistent'' 256 s = Some (- ENOENT, [], s\<lparr>errno := ENOENT\<rparr>)"
    by (rule safe_read_file_errors(1) [OF assms(1,7)])
  have nul: "NUL \<notin> set (take 30 host)" using assms(5) by (meson in_set_takeD)
  have t: "take (if int (length host) > 30 then 30 else nat (int (length host))) (map Some host @ [Some NUL]) = map Some (take 30 host)"
    by (simp add: take_map)
  have h: "hostname_line strerror (int (length host), map Some host @ [Some NUL]) =
      Some (''  Read /etc/hostname: '' @ in_quotes (take 30 host) @ '' ('' @ fmt_d (int (length host)) @ '' bytes)'' @ NL)"
    unfolding hostname_line_def fst_conv snd_conv t buffer_text_terminated [OF nul] by simp
  have e: "nonexistent_line strerror (- ENOENT, []) = ''  Read /nonexistent failed: '' @ strerror ENOENT @ '' (code '' @ fmt_d (- ENOENT) @ '')'' @ NL"
    unfolding nonexistent_line_def by simp
  show ?thesis unfolding demo_proper_pattern_def r1 option.case bind.simps prod.case h r2 e ..
qed

text \<open>A descriptor that can be opened on the password file is never closed.\<close>

lemma demo_file_errors_leaks:
  assumes "free_fd s = Some k" and "names s ''/tmp/nonexistent_file_xyz_123.txt'' = None" and "names s ''/etc/shadow'' = Some i"
    and "permits s ''/etc/shadow''" and "names s ''/tmp/error_demo_test.txt'' = Some j"
  shows "fds s k = None \<and> fds (snd (demo_file_errors strerror s)) k \<noteq> None"
proof -
  let ?s1 = "s\<lparr>errno := ENOENT\<rparr>"
  have o1: "sys_open ''/tmp/nonexistent_file_xyz_123.txt'' O_RDONLY s = (- 1, ?s1)" using assms(1,2) by (simp add: sys_open_def)
  have f1: "free_fd ?s1 = Some k" using assms(1) free_fd_cong [of ?s1 s] by simp
  let ?s2 = "?s1\<lparr>fds := (fds s)(k := Some (opened i O_RDONLY))\<rparr>"
  have o2: "sys_open ''/etc/shadow'' O_RDONLY ?s1 = (int k, ?s2)" using f1 assms(3,4) by (simp add: open_existing)
  have o3: "\<exists>e. sys_open ''/tmp/error_demo_test.txt'' (O_WRONLY\<lparr>o_creat := True, o_excl := True\<rparr>) ?s2 = (- 1, ?s2\<lparr>errno := e\<rparr>)"
    using assms(5) by (auto simp: sys_open_def split: option.splits)
  then obtain e where o3': "sys_open ''/tmp/error_demo_test.txt'' (O_WRONLY\<lparr>o_creat := True, o_excl := True\<rparr>) ?s2 = (- 1, ?s2\<lparr>errno := e\<rparr>)" ..
  have "snd (demo_file_errors strerror s) = ?s2\<lparr>errno := e\<rparr>"
    unfolding demo_file_errors_def o1 Let_def prod.case o2 o3' by simp
  then show ?thesis using free_fd_Some [OF assms(1)] by simp
qed

text \<open>A call that succeeds leaves the error number of the one before.\<close>

lemma demo_errno_gotchas_run:
  assumes "free_fd s = Some k" and "names s ''/nonexistent'' = None" and "names s ''/etc/hostname'' = Some i" and "permits s ''/etc/hostname''"
  shows "demo_errno_gotchas strerror s =
    ([NL @ ''--- Demo 4: errno Gotchas ---'' @ NL,
      ''  After failed open: errno='' @ fmt_d ENOENT @ '' ('' @ strerror ENOENT @ '')'' @ NL,
      ''  After successful fopen: errno='' @ fmt_d ENOENT @ '' (still '' @ strerror ENOENT @ ''!)'' @ NL], s\<lparr>errno := ENOENT\<rparr>)"
proof -
  let ?s1 = "s\<lparr>errno := ENOENT\<rparr>"
  have o1: "sys_open ''/nonexistent'' O_RDONLY s = (- 1, ?s1)" using assms(1,2) by (simp add: sys_open_def)
  have f1: "free_fd ?s1 = Some k" using assms(1) free_fd_cong [of ?s1 s] by simp
  let ?s2 = "?s1\<lparr>fds := (fds s)(k := Some (opened i O_RDONLY))\<rparr>"
  have o2: "sys_open ''/etc/hostname'' O_RDONLY ?s1 = (int k, ?s2)" using f1 assms(3,4) by (simp add: open_existing)
  have c: "sys_close (int k) ?s2 = ?s1" by (simp add: close_open close_restores [OF assms(1)])
  show ?thesis unfolding demo_errno_gotchas_def o1 Let_def prod.case o2 errno_line_def by (simp add: c)
qed

end
