(* ===== verification/ThreadLab.thy ===== *)
theory ThreadLab
  imports Bytes
begin

text \<open>
  thread_lab.c of SystemProgramming/Handson/lab08_thread_management: threads that increment a counter with and without a mutex, thread-local storage, and the values that
  threads return. A step is one access to shared memory. The increment without a mutex is a load and a store, as a compiler without optimisation makes it; for the language it
  is a data race. The number of rounds is an argument of the threads.
\<close>

section \<open>Without a mutex\<close>

text \<open>The rounds a thread has left, and the value it has loaded and not yet stored.\<close>

record racer =
  left :: nat
  reg :: "int option"

record race =
  shared_counter :: int
  racers :: "bool \<Rightarrow> racer"

definition set_racer :: "bool \<Rightarrow> racer \<Rightarrow> race \<Rightarrow> race" where
  "set_racer b t s = s\<lparr>racers := (racers s)(b := t)\<rparr>"

definition unsafe_increment :: "bool \<Rightarrow> race \<Rightarrow> race" where
  "unsafe_increment b s =
     (let t = racers s b
      in case reg t of
           None \<Rightarrow> if left t = 0 then s else set_racer b (t\<lparr>reg := Some (shared_counter s)\<rparr>) s
         | Some v \<Rightarrow> set_racer b \<lparr>left = left t - 1, reg = None\<rparr> (s\<lparr>shared_counter := v + 1\<rparr>))"

definition race_start :: "nat \<Rightarrow> race" where
  "race_start iterations = \<lparr>shared_counter = 0, racers = (\<lambda>_. \<lparr>left = iterations, reg = None\<rparr>)\<rparr>"

definition race_run :: "bool list \<Rightarrow> race \<Rightarrow> race" where
  "race_run bs s = fold unsafe_increment bs s"

definition joined :: "race \<Rightarrow> bool" where
  "joined s \<longleftrightarrow> left (racers s True) = 0 \<and> left (racers s False) = 0"

definition race_lines :: "nat \<Rightarrow> race \<Rightarrow> string list" where
  "race_lines iterations s =
     [''  Expected: '' @ fmt_d (int iterations * 2) @ NL, ''  Actual:   '' @ fmt_d (shared_counter s) @ NL,
      ''  Lost:     '' @ fmt_d (int iterations * 2 - shared_counter s) @ '' updates (race condition!)'' @ NL]"

text \<open>The rounds done so far bound every value from above; from below, a value is positive once a round is done, and what a thread loads after its first round is.\<close>

definition rounds_done :: "nat \<Rightarrow> race \<Rightarrow> int" where
  "rounds_done n s = (int n - int (left (racers s True))) + (int n - int (left (racers s False)))"

definition race_inv :: "nat \<Rightarrow> race \<Rightarrow> bool" where
  "race_inv n s \<longleftrightarrow>
     (\<forall>b. left (racers s b) \<le> n \<and> (reg (racers s b) \<noteq> None \<longrightarrow> 0 < left (racers s b))) \<and>
     0 \<le> shared_counter s \<and> shared_counter s \<le> rounds_done n s \<and>
     (0 < rounds_done n s \<longrightarrow> 1 \<le> shared_counter s) \<and>
     (\<forall>b v. reg (racers s b) = Some v \<longrightarrow> 0 \<le> v \<and> v \<le> rounds_done n s \<and> (left (racers s b) < n \<longrightarrow> 1 \<le> v)) \<and>
     (2 \<le> n \<and> joined s \<longrightarrow> 2 \<le> shared_counter s)"

lemma race_inv_start: "race_inv n (race_start n)"
  by (simp add: race_inv_def race_start_def rounds_done_def joined_def)

lemma rounds_nonneg:
  assumes "race_inv n s" and "left (racers s b) < n"
  shows "0 < rounds_done n s"
proof -
  have "left (racers s True) \<le> n" and "left (racers s False) \<le> n" using assms(1) by (simp_all add: race_inv_def)
  then show ?thesis using assms(2) by (cases b) (simp_all add: rounds_done_def)
qed

lemma race_inv_load:
  assumes "race_inv n s" and "reg (racers s b) = None" and "0 < left (racers s b)"
  shows "race_inv n (set_racer b ((racers s b)\<lparr>reg := Some (shared_counter s)\<rparr>) s)"
proof -
  let ?s = "set_racer b ((racers s b)\<lparr>reg := Some (shared_counter s)\<rparr>) s"
  have l: "left (racers ?s c) = left (racers s c)" and c: "shared_counter ?s = shared_counter s" for c by (simp_all add: set_racer_def)
  have r: "reg (racers ?s c) = (if c = b then Some (shared_counter s) else reg (racers s c))" for c by (simp add: set_racer_def)
  have d: "rounds_done n ?s = rounds_done n s" and j: "joined ?s = joined s" by (simp_all add: rounds_done_def joined_def l)
  show ?thesis
    unfolding race_inv_def d j l c r
    using assms rounds_nonneg [OF assms(1)] unfolding race_inv_def by auto
qed

lemma race_inv_store:
  assumes "race_inv n s" and "reg (racers s b) = Some v"
  shows "race_inv n (set_racer b \<lparr>left = left (racers s b) - 1, reg = None\<rparr> (s\<lparr>shared_counter := v + 1\<rparr>))"
proof -
  let ?s = "set_racer b \<lparr>left = left (racers s b) - 1, reg = None\<rparr> (s\<lparr>shared_counter := v + 1\<rparr>)"
  have pos: "0 < left (racers s b)" and v: "0 \<le> v" "v \<le> rounds_done n s" "left (racers s b) < n \<Longrightarrow> 1 \<le> v"
    using assms by (auto simp: race_inv_def)
  have l: "left (racers ?s c) = (if c = b then left (racers s b) - 1 else left (racers s c))" for c by (simp add: set_racer_def)
  have r: "reg (racers ?s c) = (if c = b then None else reg (racers s c))" for c by (simp add: set_racer_def)
  have c: "shared_counter ?s = v + 1" by (simp add: set_racer_def)
  have d: "rounds_done n ?s = rounds_done n s + 1" using pos by (cases b) (simp_all add: rounds_done_def set_racer_def of_nat_diff)
  have fin: "2 \<le> n \<Longrightarrow> joined ?s \<Longrightarrow> 1 \<le> v" using v(3) pos by (cases b) (auto simp: joined_def set_racer_def)
  have i: "left (racers s c) \<le> n" "reg (racers s c) \<noteq> None \<Longrightarrow> 0 < left (racers s c)"
    "reg (racers s c) = Some w \<Longrightarrow> 0 \<le> w \<and> w \<le> rounds_done n s \<and> (left (racers s c) < n \<longrightarrow> 1 \<le> w)" for c w
    using assms(1) by (simp_all add: race_inv_def)
  show ?thesis
    unfolding race_inv_def d c
  proof (intro conjI allI impI)
    fix c w
    show "left (racers ?s c) \<le> n" using i(1) [of c] i(1) [of b] by (auto simp: set_racer_def)
    show "reg (racers ?s c) \<noteq> None \<Longrightarrow> 0 < left (racers ?s c)" using i(2) [of c] by (simp add: set_racer_def split: if_splits)
    assume "reg (racers ?s c) = Some w"
    then have "c \<noteq> b" and "reg (racers s c) = Some w" by (simp_all add: set_racer_def split: if_splits)
    then show "0 \<le> w" and "w \<le> rounds_done n s + 1" and "left (racers ?s c) < n \<Longrightarrow> 1 \<le> w" using i(3) [of c w] by (simp_all add: set_racer_def)
  qed (use v fin in auto)
qed

lemma race_inv_step: "race_inv n s \<Longrightarrow> race_inv n (unsafe_increment b s)"
proof (cases "reg (racers s b)")
  case None
  then show "race_inv n s \<Longrightarrow> race_inv n (unsafe_increment b s)"
    using race_inv_load [of n s b] by (simp add: unsafe_increment_def Let_def)
next
  case (Some v)
  then show "race_inv n s \<Longrightarrow> race_inv n (unsafe_increment b s)"
    using race_inv_store [of n s b v] by (simp add: unsafe_increment_def Let_def)
qed

lemma race_inv_run: "race_inv n s \<Longrightarrow> race_inv n (race_run bs s)"
  unfolding race_run_def by (induction bs arbitrary: s) (simp_all add: race_inv_step)

text \<open>The bounds are reached: the best schedule loses nothing, the worst leaves 2 whatever the number of rounds.\<close>

definition rounds :: "nat \<Rightarrow> bool \<Rightarrow> bool list" where "rounds n b = replicate (2 * n) b"

definition worst_schedule :: "nat \<Rightarrow> bool list" where
  "worst_schedule n = [True] @ rounds (n - 1) False @ [True, False] @ rounds (n - 1) True @ [False]"

lemma run_rounds:
  "reg (racers s b) = None \<Longrightarrow> k \<le> left (racers s b) \<Longrightarrow>
     race_run (rounds k b) s = s\<lparr>shared_counter := shared_counter s + int k, racers := (racers s)(b := \<lparr>left = left (racers s b) - k, reg = None\<rparr>)\<rparr>"
proof (induction k arbitrary: s)
  case 0
  have "(racers s)(b := \<lparr>left = left (racers s b), reg = None\<rparr>) = racers s" using 0 by (intro ext) (simp add: fun_upd_def)
  then show ?case by (simp add: race_run_def rounds_def)
next
  case (Suc k)
  let ?s = "s\<lparr>shared_counter := shared_counter s + 1, racers := (racers s)(b := \<lparr>left = left (racers s b) - 1, reg = None\<rparr>)\<rparr>"
  have "rounds (Suc k) b = b # b # rounds k b" by (simp add: rounds_def)
  moreover have "unsafe_increment b (unsafe_increment b s) = ?s"
    using Suc.prems by (simp add: unsafe_increment_def set_racer_def Let_def)
  ultimately have "race_run (rounds (Suc k) b) s = race_run (rounds k b) ?s" by (simp add: race_run_def)
  also have "\<dots> = s\<lparr>shared_counter := shared_counter s + int (Suc k), racers := (racers s)(b := \<lparr>left = left (racers s b) - Suc k, reg = None\<rparr>)\<rparr>"
    using Suc.IH [of ?s] Suc.prems by (simp del: fun_upd_apply add: fun_upd_same)
  finally show ?case .
qed

lemma race_run_app: "race_run (xs @ ys) s = race_run ys (race_run xs s)" "race_run (b # ys) s = race_run ys (unsafe_increment b s)" "race_run [] s = s"
  by (simp_all add: race_run_def)

lemma best_case: "shared_counter (race_run (rounds n True @ rounds n False) (race_start n)) = 2 * int n \<and> joined (race_run (rounds n True @ rounds n False) (race_start n))"
  by (simp add: race_run_app run_rounds race_start_def joined_def)

lemma worst_case:
  assumes "2 \<le> n"
  shows "shared_counter (race_run (worst_schedule n) (race_start n)) = 2 \<and> joined (race_run (worst_schedule n) (race_start n))"
proof -
  let ?f = "\<lambda>t f. (\<lambda>b::bool. if b then t else f)"
  have start: "race_start n = \<lparr>shared_counter = 0, racers = ?f \<lparr>left = n, reg = None\<rparr> \<lparr>left = n, reg = None\<rparr>\<rparr>"
    by (auto simp: race_start_def)
  have u: "(?f t f)(True := t') = ?f t' f" "(?f t f)(False := f') = ?f t f'" for t f t' f' :: racer by (auto simp: fun_eq_iff)
  show ?thesis
    using assms unfolding worst_schedule_def start
    by (simp add: race_run_app run_rounds unsafe_increment_def set_racer_def Let_def u joined_def)
qed

text \<open>The number of steps of a schedule that are taken is bounded, and a thread with rounds left can always step.\<close>

definition race_measure :: "race \<Rightarrow> nat" where
  "race_measure s = (\<Sum>b\<in>{True, False}. 2 * left (racers s b) - (if reg (racers s b) = None then 0 else 1))"

lemma race_step_measure:
  assumes "0 < left (racers s b)"
  shows "race_measure (unsafe_increment b s) < race_measure s"
  using assms by (cases b; cases "reg (racers s b)") (auto simp: race_measure_def unsafe_increment_def set_racer_def Let_def)

section \<open>With a mutex\<close>

datatype safe_place = Outside | Inside | Loaded int | Stored

record safer =
  rest :: nat
  at_safe :: safe_place

record safe =
  safe_counter :: int
  counter_mutex :: "bool option"
  safers :: "bool \<Rightarrow> safer"

definition set_safer :: "bool \<Rightarrow> safer \<Rightarrow> safe \<Rightarrow> safe" where
  "set_safer b t s = s\<lparr>safers := (safers s)(b := t)\<rparr>"

definition safe_increment :: "bool \<Rightarrow> safe \<Rightarrow> safe" where
  "safe_increment b s =
     (let t = safers s b
      in case at_safe t of
           Outside \<Rightarrow> if rest t = 0 \<or> counter_mutex s \<noteq> None then s else set_safer b (t\<lparr>at_safe := Inside\<rparr>) (s\<lparr>counter_mutex := Some b\<rparr>)
         | Inside \<Rightarrow> set_safer b (t\<lparr>at_safe := Loaded (safe_counter s)\<rparr>) s
         | Loaded v \<Rightarrow> set_safer b (t\<lparr>at_safe := Stored\<rparr>) (s\<lparr>safe_counter := v + 1\<rparr>)
         | Stored \<Rightarrow> set_safer b \<lparr>rest = rest t - 1, at_safe = Outside\<rparr> (s\<lparr>counter_mutex := None\<rparr>))"

definition safe_start :: "nat \<Rightarrow> safe" where
  "safe_start iterations = \<lparr>safe_counter = 0, counter_mutex = None, safers = (\<lambda>_. \<lparr>rest = iterations, at_safe = Outside\<rparr>)\<rparr>"

definition safe_run :: "bool list \<Rightarrow> safe \<Rightarrow> safe" where
  "safe_run bs s = fold safe_increment bs s"

definition safe_joined :: "safe \<Rightarrow> bool" where
  "safe_joined s \<longleftrightarrow> rest (safers s True) = 0 \<and> rest (safers s False) = 0"

definition mutex_lines :: "nat \<Rightarrow> safe \<Rightarrow> string list" where
  "mutex_lines iterations s =
     [''  Expected: '' @ fmt_d (int iterations * 2) @ NL, ''  Actual:   '' @ fmt_d (safe_counter s) @ NL,
      ''  Result:   '' @ (if safe_counter s = int iterations * 2 then ''CORRECT'' else ''WRONG'') @ NL]"

text \<open>What a thread has added: its rounds and the one that is stored but not counted.\<close>

definition added :: "nat \<Rightarrow> safer \<Rightarrow> int" where
  "added n t = int n - int (rest t) + (if at_safe t = Stored then 1 else 0)"

definition safe_inv :: "nat \<Rightarrow> safe \<Rightarrow> bool" where
  "safe_inv n s \<longleftrightarrow>
     safe_counter s = added n (safers s True) + added n (safers s False) \<and>
     (\<forall>b. (at_safe (safers s b) \<noteq> Outside \<longleftrightarrow> counter_mutex s = Some b) \<and> (at_safe (safers s b) \<noteq> Outside \<longrightarrow> 0 < rest (safers s b)) \<and>
       (\<forall>v. at_safe (safers s b) = Loaded v \<longrightarrow> v = safe_counter s))"

lemma safe_inv_start: "safe_inv n (safe_start n)"
  by (simp add: safe_inv_def safe_start_def added_def)

lemma safe_inv_cases:
  "safe_inv n s \<longleftrightarrow>
     safe_counter s = added n (safers s True) + added n (safers s False) \<and>
     (at_safe (safers s True) \<noteq> Outside \<longleftrightarrow> counter_mutex s = Some True) \<and> (at_safe (safers s False) \<noteq> Outside \<longleftrightarrow> counter_mutex s = Some False) \<and>
     (at_safe (safers s True) \<noteq> Outside \<longrightarrow> 0 < rest (safers s True)) \<and> (at_safe (safers s False) \<noteq> Outside \<longrightarrow> 0 < rest (safers s False)) \<and>
     (\<forall>v. at_safe (safers s True) = Loaded v \<longrightarrow> v = safe_counter s) \<and> (\<forall>v. at_safe (safers s False) = Loaded v \<longrightarrow> v = safe_counter s)"
  by (auto simp: safe_inv_def all_bool_eq)

lemma safe_inv_step: "safe_inv n s \<Longrightarrow> safe_inv n (safe_increment b s)"
  by (cases b; cases "at_safe (safers s b)") (auto simp: safe_inv_cases safe_increment_def set_safer_def added_def Let_def)

lemma safe_inv_run: "safe_inv n s \<Longrightarrow> safe_inv n (safe_run bs s)"
  unfolding safe_run_def by (induction bs arbitrary: s) (simp_all add: safe_inv_step)

lemma mutex_exact:
  assumes "safe_joined (safe_run bs (safe_start n))"
  shows "safe_counter (safe_run bs (safe_start n)) = 2 * int n"
    and "mutex_lines n (safe_run bs (safe_start n)) =
      [''  Expected: '' @ fmt_d (int n * 2) @ NL, ''  Actual:   '' @ fmt_d (int n * 2) @ NL, ''  Result:   CORRECT'' @ NL]"
proof -
  have i: "safe_inv n (safe_run bs (safe_start n))" by (rule safe_inv_run [OF safe_inv_start])
  then show c: "safe_counter (safe_run bs (safe_start n)) = 2 * int n"
    using assms by (auto simp: safe_inv_cases safe_joined_def added_def)
  show "mutex_lines n (safe_run bs (safe_start n)) =
      [''  Expected: '' @ fmt_d (int n * 2) @ NL, ''  Actual:   '' @ fmt_d (int n * 2) @ NL, ''  Result:   CORRECT'' @ NL]"
    by (simp add: mutex_lines_def c mult.commute)
qed

section \<open>Return values and thread-local storage\<close>

text \<open>What a thread of the first demonstration returns, and what is printed when it is joined.\<close>

definition basic_thread_func :: "nat \<Rightarrow> int" where "basic_thread_func i = int i * 10"

definition join_line :: "nat \<Rightarrow> string" where
  "join_line i = ''  [Main] Thread '' @ fmt_d (int i) @ '' returned '' @ fmt_d (basic_thread_func i) @ NL"

definition NUM_THREADS :: nat where "NUM_THREADS = 4"

definition demo_basic_threads :: "string list" where
  "demo_basic_threads = map join_line [0..<NUM_THREADS]"

text \<open>Each thread has its own variable: the steps of a thread are to assign it and to print it twice.\<close>

record tls =
  tls_value :: "nat \<Rightarrow> int"
  tls_pc :: "nat \<Rightarrow> nat"
  tls_out :: "nat \<Rightarrow> string list"

definition tls_thread_func :: "nat \<Rightarrow> tls \<Rightarrow> tls" where
  "tls_thread_func i s =
     (let s' = s\<lparr>tls_pc := (tls_pc s)(i := tls_pc s i + 1)\<rparr>;
          out = (\<lambda>t. s'\<lparr>tls_out := (tls_out s)(i := tls_out s i @ [t])\<rparr>)
      in if tls_pc s i = 0 then s'\<lparr>tls_value := (tls_value s)(i := int i * 100)\<rparr>
         else if tls_pc s i = 1 then out (''  [Thread '' @ fmt_d (int i) @ ''] TLS value = '' @ fmt_d (tls_value s i) @ NL)
         else if tls_pc s i = 2 then out (''  [Thread '' @ fmt_d (int i) @ ''] TLS still = '' @ fmt_d (tls_value s i) @ '' (unchanged by others)'' @ NL)
         else s)"

definition tls_start :: tls where
  "tls_start = \<lparr>tls_value = (\<lambda>_. 0), tls_pc = (\<lambda>_. 0), tls_out = (\<lambda>_. [])\<rparr>"

definition tls_texts :: "nat \<Rightarrow> string list" where
  "tls_texts i = [''  [Thread '' @ fmt_d (int i) @ ''] TLS value = '' @ fmt_d (int i * 100) @ NL,
     ''  [Thread '' @ fmt_d (int i) @ ''] TLS still = '' @ fmt_d (int i * 100) @ '' (unchanged by others)'' @ NL]"

definition tls_inv :: "tls \<Rightarrow> bool" where
  "tls_inv s \<longleftrightarrow> (\<forall>i. tls_pc s i \<le> 3 \<and> (0 < tls_pc s i \<longrightarrow> tls_value s i = int i * 100) \<and> tls_out s i = take (tls_pc s i - 1) (tls_texts i))"

lemma tls_inv_step: "tls_inv s \<Longrightarrow> tls_inv (tls_thread_func i s)"
  by (auto simp: tls_inv_def tls_thread_func_def tls_texts_def Let_def numeral_eq_Suc)

text \<open>Whatever the others do, a thread prints its own value twice.\<close>

lemma tls_isolated: "let s = fold tls_thread_func is tls_start in tls_pc s i = 3 \<longrightarrow> tls_out s i = tls_texts i"
proof -
  have "tls_inv s \<Longrightarrow> tls_inv (fold tls_thread_func is s)" for s by (induction "is" arbitrary: s) (simp_all add: tls_inv_step)
  moreover have "tls_inv tls_start" by (simp add: tls_inv_def tls_start_def)
  ultimately have "tls_inv (fold tls_thread_func is tls_start)" by blast
  then show ?thesis by (auto simp: tls_inv_def tls_texts_def Let_def)
qed

section \<open>The race\<close>

text \<open>
  C38. \<open>demo_race_condition\<close> with \<open>n\<close> rounds, at least two, for each thread: under every schedule in which both threads end, the counter is at least 2 and at most
  \<open>2 * n\<close>; both bounds are reached, 2 with any number of rounds. A schedule has at most \<open>4 * n\<close> steps by threads that have rounds left, and the version with the
  mutex ends with exactly \<open>2 * n\<close>.
\<close>

theorem thread_race_bounds:
  assumes "2 \<le> n"
  shows "(joined (race_run bs (race_start n)) \<longrightarrow>
            2 \<le> shared_counter (race_run bs (race_start n)) \<and> shared_counter (race_run bs (race_start n)) \<le> 2 * int n)
     \<and> (\<exists>worst best. joined (race_run worst (race_start n)) \<and> shared_counter (race_run worst (race_start n)) = 2
          \<and> joined (race_run best (race_start n)) \<and> shared_counter (race_run best (race_start n)) = 2 * int n)
     \<and> race_measure (race_start n) = 4 * n
     \<and> (0 < left (racers (race_run bs (race_start n)) b) \<longrightarrow>
          race_measure (unsafe_increment b (race_run bs (race_start n))) < race_measure (race_run bs (race_start n)))
     \<and> (safe_joined (safe_run bs (safe_start n)) \<longrightarrow> safe_counter (safe_run bs (safe_start n)) = 2 * int n)"
proof -
  let ?s = "race_run bs (race_start n)"
  have i: "race_inv n ?s" by (rule race_inv_run [OF race_inv_start])
  then have "joined ?s \<Longrightarrow> 2 \<le> shared_counter ?s \<and> shared_counter ?s \<le> 2 * int n"
    using assms by (auto simp: race_inv_def joined_def rounds_done_def)
  moreover have "race_measure (race_start n) = 4 * n" by (simp add: race_measure_def race_start_def)
  ultimately show ?thesis
    using worst_case [OF assms] best_case [of n] race_step_measure [of ?s b] mutex_exact(1) [of bs n] by blast
qed

theorem thread_race_bounds_witness:
  "shared_counter (race_run (worst_schedule 3) (race_start 3)) \<le> 2 * int 3 \<and> joined (race_run (worst_schedule 3) (race_start 3)) \<and>
   (\<exists>worst. joined (race_run worst (race_start 3)) \<and> shared_counter (race_run worst (race_start 3)) = 2)"
  using thread_race_bounds [of 3 "worst_schedule 3" True] worst_case [of 3] by auto

end
