(* ===== verification/ThreadPool.thy ===== *)
theory ThreadPool
  imports Queues "HOL-Library.Multiset"
begin

text \<open>
  The thread pool of SystemProgramming/Handson/lab08_thread_management/thread_pool.c: a linked list of
  tasks in a heap of nodes, with head and tail pointers, and a step relation of the main thread and
  the workers. A step is a critical section of the queue mutex or of the statistics mutex, or the
  execution of a task; sleeping workers are woken by the signal of \<open>pool_submit\<close>, by the broadcast of
  \<open>pool_destroy\<close>, or spuriously. A task is a function pointer and its argument, both numbers; running
  it appends it to the ghost list \<open>executed\<close>.
\<close>

section \<open>The task queue\<close>

record task =
  func :: nat
  arg :: nat
  next_task :: "nat option"

record pool =
  heap :: "nat \<Rightarrow> task option"
  head :: "nat option"
  tail :: "nat option"
  shutdown :: bool
  task_count :: nat
  tasks_completed :: nat

definition pool_create :: pool where
  "pool_create = \<lparr>heap = (\<lambda>_. None), head = None, tail = None, shutdown = False, task_count = 0, tasks_completed = 0\<rparr>"

text \<open>The list operations inside the critical sections of \<open>pool_submit\<close> and \<open>worker\<close>.\<close>

fun link_tail :: "nat option \<Rightarrow> nat \<Rightarrow> (nat \<Rightarrow> task option) \<Rightarrow> (nat \<Rightarrow> task option)" where
  "link_tail None a h = h"
| "link_tail (Some l) a h = h(l \<mapsto> (the (h l))\<lparr>next_task := Some a\<rparr>)"

definition enq_task :: "nat \<times> nat \<times> nat \<Rightarrow> pool \<Rightarrow> pool" where
  "enq_task t p = (case t of (a, f, x) \<Rightarrow>
     let h = (heap p)(a \<mapsto> \<lparr>func = f, arg = x, next_task = None\<rparr>)
     in p\<lparr>heap := link_tail (tail p) a h,
          head := (if tail p = None then Some a else head p),
          tail := Some a, task_count := task_count p + 1\<rparr>)"

definition deq_task :: "pool \<Rightarrow> (nat \<times> nat \<times> nat) \<times> pool" where
  "deq_task p =
     (let a = the (head p); t = the (heap p a);
          p1 = p\<lparr>head := next_task t\<rparr>;
          p2 = (if head p1 = None then p1\<lparr>tail := None\<rparr> else p1)
      in ((a, func t, arg t), p2\<lparr>task_count := task_count p2 - 1\<rparr>))"

definition free_task :: "nat \<Rightarrow> pool \<Rightarrow> pool" where
  "free_task a p = p\<lparr>heap := (heap p)(a := None)\<rparr>"

text \<open>The nodes on the list, and the list they hold.\<close>

fun chain :: "(nat \<Rightarrow> task option) \<Rightarrow> nat option \<Rightarrow> nat list \<Rightarrow> bool" where
  "chain h None as = (as = [])"
| "chain h (Some a) as = (case as of [] \<Rightarrow> False | b # bs \<Rightarrow> b = a \<and> (case h a of None \<Rightarrow> False | Some t \<Rightarrow> chain h (next_task t) bs))"

fun walk :: "(nat \<Rightarrow> task option) \<Rightarrow> nat \<Rightarrow> nat option \<Rightarrow> (nat \<times> nat \<times> nat) list" where
  "walk h (Suc n) (Some a) = (case h a of None \<Rightarrow> [] | Some t \<Rightarrow> (a, func t, arg t) # walk h n (next_task t))"
| "walk h _ _ = []"

definition queued :: "pool \<Rightarrow> (nat \<times> nat \<times> nat) list" where
  "queued p = walk (heap p) (task_count p) (head p)"

definition queue_ok :: "pool \<Rightarrow> bool" where
  "queue_ok p \<longleftrightarrow> (\<exists>as. chain (heap p) (head p) as \<and> distinct as \<and> length as = task_count p \<and>
     tail p = (if as = [] then None else Some (last as)))"

lemma chain_other: "chain h q as \<Longrightarrow> b \<notin> set as \<Longrightarrow> chain (h(b := v)) q as"
  by (induction as arbitrary: q; case_tac q) (auto split: option.splits)

lemma walk_other: "chain h q as \<Longrightarrow> b \<notin> set as \<Longrightarrow> walk (h(b := v)) (length as) q = walk h (length as) q"
  by (induction as arbitrary: q; case_tac q) (auto split: option.splits)

lemma chain_dom: "chain h q as \<Longrightarrow> set as \<subseteq> dom h"
  by (induction as arbitrary: q; case_tac q) (auto split: option.splits)

lemma walk_addrs: "chain h q as \<Longrightarrow> map fst (walk h (length as) q) = as"
  by (induction as arbitrary: q; case_tac q) (auto split: option.splits)

lemma chain_snoc:
  assumes "chain h q as" and "distinct as" and "as \<noteq> []" and "a \<notin> set as" and "h a = Some n" and "next_task n = None"
  shows "chain (link_tail (Some (last as)) a h) q (as @ [a]) \<and>
    walk (link_tail (Some (last as)) a h) (Suc (length as)) q = walk h (length as) q @ [(a, func n, arg n)]"
  using assms
proof (induction as arbitrary: q)
  case (Cons b bs)
  then obtain t where t: "q = Some b" "h b = Some t" "chain h (next_task t) bs"
    by (cases q) (auto split: option.splits)
  show ?case
  proof (cases "bs = []")
    case True
    with Cons.prems t show ?thesis by (cases "next_task t") auto
  next
    case False
    with Cons.prems have "last bs \<noteq> b" by auto
    with False Cons t show ?thesis by auto
  qed
qed simp

lemma enq_task_law:
  assumes "queue_ok p" and "heap p (fst t) = None"
  shows "queue_ok (enq_task t p) \<and> queued (enq_task t p) = queued p @ [t]"
proof -
  obtain a f x where t: "t = (a, f, x)" by (cases t)
  obtain as where as: "chain (heap p) (head p) as" "distinct as" "length as = task_count p"
    "tail p = (if as = [] then None else Some (last as))"
    using assms(1) by (auto simp: queue_ok_def)
  have a: "a \<notin> set as" using chain_dom [OF as(1)] assms(2) t by auto
  let ?n = "\<lparr>func = f, arg = x, next_task = None\<rparr>" and ?h = "(heap p)(a \<mapsto> \<lparr>func = f, arg = x, next_task = None\<rparr>)"
  show ?thesis
  proof (cases "as = []")
    case True
    then have "queued p = []" using as by (cases "head p") (simp_all add: queued_def)
    moreover have "chain ?h (Some a) [a]" by simp
    ultimately show ?thesis using True as t
      by (auto simp: queue_ok_def queued_def enq_task_def intro!: exI [of _ "[a]"])
  next
    case False
    have c: "chain ?h (head p) as" "walk ?h (length as) (head p) = walk (heap p) (length as) (head p)"
      using chain_other [OF as(1) a] walk_other [OF as(1) a] by simp_all
    have snoc: "chain (link_tail (Some (last as)) a ?h) (head p) (as @ [a])"
      "walk (link_tail (Some (last as)) a ?h) (Suc (length as)) (head p) = walk ?h (length as) (head p) @ [(a, f, x)]"
      using chain_snoc [OF c(1) as(2) False a, of ?n] by simp_all
    have "enq_task t p = p\<lparr>heap := link_tail (Some (last as)) a ?h, tail := Some a, task_count := Suc (task_count p)\<rparr>"
      using False as(4) t by (simp add: enq_task_def Let_def)
    with snoc as(2,3) a t c(2) show ?thesis
      by (auto simp: queue_ok_def queued_def simp del: link_tail.simps intro!: exI [of _ "as @ [a]"])
  qed
qed

lemma deq_task_law:
  assumes "queue_ok p" and "head p \<noteq> None"
  shows "queue_ok (snd (deq_task p)) \<and> queued p = fst (deq_task p) # queued (snd (deq_task p))"
proof -
  obtain as where as: "chain (heap p) (head p) as" "distinct as" "length as = task_count p"
    "tail p = (if as = [] then None else Some (last as))"
    using assms(1) by (auto simp: queue_ok_def)
  with assms(2) obtain a bs t where a: "head p = Some a" "as = a # bs" "heap p a = Some t"
    "chain (heap p) (next_task t) bs"
    by (auto split: option.splits list.splits)
  have "task_count p = Suc (length bs)" using as(3) a(2) by simp
  moreover have "bs = [] \<longleftrightarrow> next_task t = None" using a(4) by (cases "next_task t"; cases bs) auto
  ultimately show ?thesis using as a
    by (auto simp: queue_ok_def queued_def deq_task_def Let_def intro!: exI [of _ bs])
qed

interpretation tasks: fifo_queue queue_ok queued "\<lambda>t p. heap p (fst t) = None" "\<lambda>p. head p = None" enq_task deq_task
proof unfold_locales
  show "queue_ok (enq_task t p) \<and> queued (enq_task t p) = queued p @ [t]"
    if "queue_ok p" and "heap p (fst t) = None" for p t
    using that by (rule enq_task_law)
  show "queue_ok (snd (deq_task p)) \<and> queued p = fst (deq_task p) # queued (snd (deq_task p))"
    if "queue_ok p" and "head p \<noteq> None" for p
    using that by (rule deq_task_law)
  show "head p = None \<longleftrightarrow> queued p = []" if "queue_ok p" for p
  proof
    assume "queued p = []"
    then show "head p = None" using deq_task_law [OF that] by (cases "head p") auto
  qed (simp add: queued_def)
qed

section \<open>The threads\<close>

text \<open>
  Where a worker is: about to enter the critical section of the queue (also after a wake-up), asleep
  in \<open>pthread_cond_wait\<close>, holding a task it took, about to count it, or returned. The main thread
  still has tasks to submit, waits in \<open>pthread_join\<close>, or has returned from \<open>pool_destroy\<close>.
\<close>

datatype wphase = Ready | Asleep | Holding "nat \<times> nat \<times> nat" | Counting | Exited

datatype mphase = Submitting "(nat \<times> nat) list" | Joining | Destroyed

record sys =
  pool_of :: pool
  workers :: "wphase list"
  mainp :: mphase
  submitted :: "(nat \<times> nat) list"
  started :: "(nat \<times> nat) list"
  executed :: "(nat \<times> nat) list"

definition sys_init :: "nat \<Rightarrow> (nat \<times> nat) list \<Rightarrow> sys" where
  "sys_init n jobs = \<lparr>pool_of = pool_create, workers = replicate n Ready, mainp = Submitting jobs,
     submitted = [], started = [], executed = []\<rparr>"

text \<open>
  One pass of a worker through the first critical section: it goes to sleep, leaves the loop, or takes
  a task.
\<close>

definition worker_turn :: "pool \<Rightarrow> wphase \<times> pool" where
  "worker_turn p =
     (if head p = None \<and> \<not> shutdown p then (Asleep, p)
      else if shutdown p \<and> head p = None then (Exited, p)
      else (case deq_task p of (t, p') \<Rightarrow> (Holding t, p')))"

definition wake_one :: "wphase list \<Rightarrow> nat \<Rightarrow> wphase list" where
  "wake_one ws i = (if i < length ws \<and> ws ! i = Asleep then ws[i := Ready] else ws)"

definition wake_all :: "wphase list \<Rightarrow> wphase list" where
  "wake_all ws = map (\<lambda>w. if w = Asleep then Ready else w) ws"

text \<open>\<open>pool_submit\<close> with the node \<open>a\<close> that \<open>malloc\<close> returned; the signal wakes the worker \<open>i\<close>.\<close>

definition pool_submit :: "nat \<Rightarrow> nat \<Rightarrow> nat \<times> nat \<Rightarrow> sys \<Rightarrow> sys" where
  "pool_submit a i job s = s\<lparr>pool_of := enq_task (a, job) (pool_of s),
     workers := wake_one (workers s) i, submitted := submitted s @ [job]\<rparr>"

definition begin_destroy :: "sys \<Rightarrow> sys" where
  "begin_destroy s = s\<lparr>pool_of := (pool_of s)\<lparr>shutdown := True\<rparr>, workers := wake_all (workers s), mainp := Joining\<rparr>"

text \<open>The loop of \<open>pool_destroy\<close> that frees what is left on the list.\<close>

fun free_rest :: "nat \<Rightarrow> nat option \<Rightarrow> (nat \<Rightarrow> task option) \<Rightarrow> (nat \<Rightarrow> task option)" where
  "free_rest (Suc n) (Some a) h = free_rest n (next_task (the (h a))) (h(a := None))"
| "free_rest _ _ h = h"

definition end_destroy :: "sys \<Rightarrow> sys" where
  "end_destroy s = s\<lparr>pool_of := (pool_of s)\<lparr>heap := free_rest (task_count (pool_of s)) (head (pool_of s)) (heap (pool_of s))\<rparr>,
     mainp := Destroyed\<rparr>"

definition take_turn :: "nat \<Rightarrow> sys \<Rightarrow> sys" where
  "take_turn i s = (case worker_turn (pool_of s) of (w, p) \<Rightarrow>
     s\<lparr>pool_of := p, workers := (workers s)[i := w],
       started := started s @ (case w of Holding t \<Rightarrow> [snd t] | _ \<Rightarrow> [])\<rparr>)"

definition run_task :: "nat \<Rightarrow> nat \<times> nat \<times> nat \<Rightarrow> sys \<Rightarrow> sys" where
  "run_task i t s = s\<lparr>executed := executed s @ [snd t], pool_of := free_task (fst t) (pool_of s),
     workers := (workers s)[i := Counting]\<rparr>"

definition count_task :: "nat \<Rightarrow> sys \<Rightarrow> sys" where
  "count_task i s = s\<lparr>pool_of := (pool_of s)\<lparr>tasks_completed := tasks_completed (pool_of s) + 1\<rparr>,
     workers := (workers s)[i := Ready]\<rparr>"

inductive pstep :: "sys \<Rightarrow> sys \<Rightarrow> bool" where
  submit: "mainp s = Submitting (job # jobs) \<Longrightarrow> heap (pool_of s) a = None \<Longrightarrow>
    Asleep \<notin> set (workers s) \<or> i < length (workers s) \<and> workers s ! i = Asleep \<Longrightarrow>
    pstep s ((pool_submit a i job s)\<lparr>mainp := Submitting jobs\<rparr>)"
| destroy: "mainp s = Submitting [] \<Longrightarrow> pstep s (begin_destroy s)"
| turn: "i < length (workers s) \<Longrightarrow> workers s ! i = Ready \<Longrightarrow> pstep s (take_turn i s)"
| execute: "i < length (workers s) \<Longrightarrow> workers s ! i = Holding t \<Longrightarrow> pstep s (run_task i t s)"
| tally: "i < length (workers s) \<Longrightarrow> workers s ! i = Counting \<Longrightarrow> pstep s (count_task i s)"
| join: "mainp s = Joining \<Longrightarrow> set (workers s) \<subseteq> {Exited} \<Longrightarrow> pstep s (end_destroy s)"

inductive pspurious :: "sys \<Rightarrow> sys \<Rightarrow> bool" where
  rouse: "i < length (workers s) \<Longrightarrow> workers s ! i = Asleep \<Longrightarrow> pspurious s (s\<lparr>workers := (workers s)[i := Ready]\<rparr>)"

inductive preach :: "nat \<Rightarrow> (nat \<times> nat) list \<Rightarrow> sys \<Rightarrow> bool" for n jobs where
  p_start: "preach n jobs (sys_init n jobs)"
| p_step: "preach n jobs s \<Longrightarrow> pstep s s' \<Longrightarrow> preach n jobs s'"
| p_spurious: "preach n jobs s \<Longrightarrow> pspurious s s' \<Longrightarrow> preach n jobs s'"

section \<open>Invariant\<close>

text \<open>What a worker holds, and whether it counts a task or is ready, as multisets and numbers.\<close>

fun held :: "wphase \<Rightarrow> (nat \<times> nat \<times> nat) multiset" where
  "held (Holding t) = {#t#}"
| "held _ = {#}"

fun counting :: "wphase \<Rightarrow> nat" where
  "counting Counting = 1"
| "counting _ = 0"

fun ready :: "wphase \<Rightarrow> nat" where
  "ready Ready = 1"
| "ready _ = 0"

definition over :: "(wphase \<Rightarrow> 'a::comm_monoid_add) \<Rightarrow> wphase list \<Rightarrow> 'a" where
  "over f ws = sum_list (map f ws)"

fun jobs_left :: "mphase \<Rightarrow> (nat \<times> nat) list" where
  "jobs_left (Submitting js) = js"
| "jobs_left _ = []"

text \<open>The heap holds exactly the nodes on the list and those the workers hold, each once.\<close>

definition nodes_ok :: "pool \<Rightarrow> wphase list \<Rightarrow> bool" where
  "nodes_ok p ws \<longleftrightarrow> queue_ok p \<and> finite (dom (heap p)) \<and>
     mset_set (dom (heap p)) = image_mset fst (mset (queued p) + over held ws)"

definition jobs_ok :: "(nat \<times> nat) list \<Rightarrow> sys \<Rightarrow> bool" where
  "jobs_ok jobs s \<longleftrightarrow> submitted s @ jobs_left (mainp s) = jobs \<and>
     submitted s = started s @ map snd (queued (pool_of s)) \<and>
     mset (started s) = mset (executed s) + image_mset snd (over held (workers s)) \<and>
     tasks_completed (pool_of s) + over counting (workers s) = length (executed s)"

definition stop_ok :: "sys \<Rightarrow> bool" where
  "stop_ok s \<longleftrightarrow> (shutdown (pool_of s) \<longleftrightarrow> (\<forall>js. mainp s \<noteq> Submitting js)) \<and>
     (Exited \<in> set (workers s) \<longrightarrow> shutdown (pool_of s) \<and> queued (pool_of s) = []) \<and>
     (mainp s = Destroyed \<longrightarrow> set (workers s) \<subseteq> {Exited}) \<and>
     (Asleep \<in> set (workers s) \<longrightarrow> \<not> shutdown (pool_of s) \<and>
        length (queued (pool_of s)) \<le> over ready (workers s))"

definition pool_inv :: "nat \<Rightarrow> (nat \<times> nat) list \<Rightarrow> sys \<Rightarrow> bool" where
  "pool_inv n jobs s \<longleftrightarrow> length (workers s) = n \<and> nodes_ok (pool_of s) (workers s) \<and> jobs_ok jobs s \<and> stop_ok s"

lemma over_upd:
  fixes f :: "wphase \<Rightarrow> 'a::comm_monoid_add"
  shows "i < length ws \<Longrightarrow> over f (ws[i := w]) + f (ws ! i) = over f ws + f w"
  by (induction ws arbitrary: i) (auto simp: over_def ac_simps split: nat.splits)

lemma over_held_upd: "i < length ws \<Longrightarrow> held (ws ! i) = {#} \<Longrightarrow> over held (ws[i := w]) = over held ws + held w"
  using over_upd [of i ws held w] by simp

lemma over_wake_one: "over held (wake_one ws i) = over held ws" "over counting (wake_one ws i) = over counting ws"
  using over_upd [of i ws held Ready] over_upd [of i ws counting Ready] by (auto simp: wake_one_def)

lemma over_wake_all: "over held (wake_all ws) = over held ws" "over counting (wake_all ws) = over counting ws"
  by (induction ws) (auto simp: over_def wake_all_def)

lemma tail_in_heap: "queue_ok p \<Longrightarrow> tail p = Some l \<Longrightarrow> l \<in> dom (heap p)"
  using chain_dom [of "heap p" "head p"] by (auto simp: queue_ok_def split: if_splits) (metis domD last_in_set subsetD)

lemma enq_dom:
  "queue_ok p \<Longrightarrow> heap p a = None \<Longrightarrow> dom (heap (enq_task (a, job) p)) = insert a (dom (heap p))"
  using tail_in_heap [of p] by (cases "tail p"; cases job) (auto simp: enq_task_def Let_def)

lemma deq_keeps: "heap (snd (deq_task p)) = heap p" "shutdown (snd (deq_task p)) = shutdown p"
  "tasks_completed (snd (deq_task p)) = tasks_completed p"
  by (simp_all add: deq_task_def Let_def)

lemma enq_keeps: "shutdown (enq_task t p) = shutdown p" "tasks_completed (enq_task t p) = tasks_completed p"
  by (cases t; simp add: enq_task_def Let_def)+

lemma pool_fields: "queued (p\<lparr>shutdown := b\<rparr>) = queued p" "queue_ok (p\<lparr>shutdown := b\<rparr>) = queue_ok p"
  "queued (p\<lparr>tasks_completed := n\<rparr>) = queued p" "queue_ok (p\<lparr>tasks_completed := n\<rparr>) = queue_ok p"
  by (simp_all add: queued_def queue_ok_def)

lemma nodes_enq:
  assumes "nodes_ok p ws" and "heap p a = None" and "over held ws' = over held ws"
  shows "nodes_ok (enq_task (a, job) p) ws'"
  using assms enq_task_law [of p "(a, job)"] enq_dom [of p a job]
  by (auto simp: nodes_ok_def domIff simp del: dom_eq_empty_conv)

lemma nodes_deq:
  assumes "nodes_ok p ws" and "head p \<noteq> None" and "i < length ws" and "ws ! i = Ready"
  shows "nodes_ok (snd (deq_task p)) (ws[i := Holding (fst (deq_task p))])"
proof -
  obtain t p' where d: "deq_task p = (t, p')" by (cases "deq_task p")
  have "over held (ws[i := Holding t]) = add_mset t (over held ws)"
    using over_held_upd [OF assms(3), of "Holding t"] assms(4) by simp
  then show ?thesis
    using assms(1) deq_task_law [OF _ assms(2)] deq_keeps [of p] d by (auto simp: nodes_ok_def)
qed

lemma free_ok:
  assumes "queue_ok p" and "a \<notin> set (map fst (queued p))"
  shows "queue_ok (free_task a p) \<and> queued (free_task a p) = queued p"
proof -
  obtain as where as: "chain (heap p) (head p) as" "distinct as" "length as = task_count p"
    "tail p = (if as = [] then None else Some (last as))"
    using assms(1) by (auto simp: queue_ok_def)
  then have "a \<notin> set as" using assms(2) walk_addrs [OF as(1)] as(3) by (metis queued_def)
  with as chain_other [OF as(1), of a None] walk_other [OF as(1), of a None] show ?thesis
    by (auto simp: queue_ok_def queued_def free_task_def)
qed

lemma free_fresh:
  assumes "nodes_ok p ws" and "i < length ws" and "ws ! i = Holding t"
  shows "fst t \<notin> set (map fst (queued p))"
proof
  assume "fst t \<in> set (map fst (queued p))"
  then have "fst t \<in># image_mset fst (mset (queued p))" by simp
  then have "1 \<le> count (image_mset fst (mset (queued p))) (fst t)" by (simp only: count_greater_eq_one_iff)
  moreover have "over held ws = add_mset t (over held (ws[i := Counting]))"
    using over_upd [OF assms(2), of held Counting] assms(3) by simp
  then have "count (mset_set (dom (heap p))) (fst t) = count (image_mset fst (mset (queued p))) (fst t) +
      count (image_mset fst (over held (ws[i := Counting]))) (fst t) + 1"
    using assms(1) by (simp add: nodes_ok_def del: mset_map)
  moreover have "count (mset_set (dom (heap p))) (fst t) \<le> 1" by (simp add: count_mset_set')
  ultimately show False by linarith
qed

lemma nodes_free:
  assumes "nodes_ok p ws" and "i < length ws" and "ws ! i = Holding t"
  shows "nodes_ok (free_task (fst t) p) (ws[i := Counting])"
proof -
  have h: "over held ws = add_mset t (over held (ws[i := Counting]))"
    using over_upd [OF assms(2), of held Counting] assms(3) by simp
  let ?rest = "image_mset fst (mset (queued p) + over held (ws[i := Counting]))"
  have m: "mset_set (dom (heap p)) = add_mset (fst t) ?rest" and fin: "finite (dom (heap p))"
    using assms(1) h by (simp_all add: nodes_ok_def)
  then have "fst t \<in># mset_set (dom (heap p))" by simp
  then have inD: "fst t \<in> dom (heap p)" using fin by simp
  have "mset_set (dom (heap p) - {fst t}) = ?rest"
    using mset_set_Diff [OF fin, of "{fst t}"] inD m by simp
  moreover have "queue_ok (free_task (fst t) p) \<and> queued (free_task (fst t) p) = queued p"
    using free_ok [OF _ free_fresh [OF assms]] assms(1) by (simp add: nodes_ok_def)
  moreover have "dom (heap (free_task (fst t) p)) = dom (heap p) - {fst t}"
    by (auto simp: free_task_def)
  ultimately show ?thesis using fin by (simp add: nodes_ok_def)
qed

lemma nodes_same: "nodes_ok p ws \<Longrightarrow> over held ws' = over held ws \<Longrightarrow> nodes_ok p ws'"
  by (simp add: nodes_ok_def)

text \<open>What \<open>over ready\<close> counts.\<close>

lemma ready_upd:
  "i < length ws \<Longrightarrow> over ready (ws[i := w]) + ready (ws ! i) = over ready ws + ready w"
  by (rule over_upd)

lemma set_upd: "x \<in> set (ws[i := w]) \<Longrightarrow> x = w \<or> x \<in> set ws"
  using set_update_subset_insert [of ws i w] by auto

lemma asleep_wake_one: "Asleep \<in> set (wake_one ws i) \<Longrightarrow> Asleep \<in> set ws"
  "Exited \<in> set (wake_one ws i) \<Longrightarrow> Exited \<in> set ws"
  by (auto simp: wake_one_def split: if_splits dest: set_upd)

lemma wake_all_set: "Asleep \<notin> set (wake_all ws)" "Exited \<in> set (wake_all ws) \<Longrightarrow> Exited \<in> set ws"
  by (auto simp: wake_all_def split: if_splits)

lemmas sys_defs = pool_submit_def begin_destroy_def take_turn_def run_task_def count_task_def

lemma submit_inv:
  assumes inv: "pool_inv n jobs s" and m: "mainp s = Submitting (job # js)" and a: "heap (pool_of s) a = None"
    and i: "Asleep \<notin> set (workers s) \<or> i < length (workers s) \<and> workers s ! i = Asleep"
  shows "pool_inv n jobs ((pool_submit a i job s)\<lparr>mainp := Submitting js\<rparr>)"
proof -
  have ok: "nodes_ok (pool_of s) (workers s)" "jobs_ok jobs s" "stop_ok s" using inv by (simp_all add: pool_inv_def)
  have q: "queued (enq_task (a, job) (pool_of s)) = queued (pool_of s) @ [(a, job)]"
    using enq_task_law [of "pool_of s" "(a, job)"] ok(1) a by (simp add: nodes_ok_def)
  have "nodes_ok (enq_task (a, job) (pool_of s)) (wake_one (workers s) i)"
    using nodes_enq [OF ok(1) a over_wake_one(1)] .
  moreover have "jobs_ok jobs ((pool_submit a i job s)\<lparr>mainp := Submitting js\<rparr>)"
    using ok(2) m q over_wake_one by (auto simp: jobs_ok_def pool_submit_def enq_keeps)
  moreover have "stop_ok ((pool_submit a i job s)\<lparr>mainp := Submitting js\<rparr>)"
  proof -
    have "over ready (wake_one (workers s) i) = over ready (workers s) + 1" if "Asleep \<in> set (workers s)"
      using i that ready_upd [of i "workers s" Ready] by (auto simp: wake_one_def)
    then show ?thesis using ok(3) m q asleep_wake_one [of "workers s" i]
      by (auto simp: stop_ok_def pool_submit_def enq_keeps)
  qed
  moreover have "length (wake_one (workers s) i) = n" using inv by (simp add: pool_inv_def wake_one_def)
  ultimately show ?thesis by (simp add: pool_inv_def pool_submit_def)
qed

lemma destroy_inv:
  assumes inv: "pool_inv n jobs s" and m: "mainp s = Submitting []"
  shows "pool_inv n jobs (begin_destroy s)"
proof -
  have ok: "nodes_ok (pool_of s) (workers s)" "jobs_ok jobs s" "stop_ok s" "length (workers s) = n"
    using inv by (simp_all add: pool_inv_def)
  have "nodes_ok ((pool_of s)\<lparr>shutdown := True\<rparr>) (wake_all (workers s))"
    using nodes_same [OF ok(1) over_wake_all(1)] by (simp add: nodes_ok_def pool_fields)
  moreover have "jobs_ok jobs (begin_destroy s)"
    using ok(2) m over_wake_all by (auto simp: jobs_ok_def begin_destroy_def pool_fields)
  moreover have "stop_ok (begin_destroy s)"
    using ok(3) m wake_all_set [of "workers s"] by (auto simp: stop_ok_def begin_destroy_def pool_fields)
  ultimately show ?thesis using ok(4) by (simp add: pool_inv_def begin_destroy_def wake_all_def)
qed

lemma turn_inv:
  assumes inv: "pool_inv n jobs s" and i: "i < length (workers s)" and w: "workers s ! i = Ready"
  shows "pool_inv n jobs (take_turn i s)"
proof -
  let ?p = "pool_of s" and ?ws = "workers s"
  have ok: "nodes_ok ?p ?ws" "jobs_ok jobs s" "stop_ok s" "length ?ws = n"
    using inv by (simp_all add: pool_inv_def)
  have qk: "queue_ok ?p" using ok(1) by (simp add: nodes_ok_def)
  note sums = over_upd [OF i, of held] over_upd [OF i, of counting] ready_upd [OF i]
  have notjoined: "mainp s \<noteq> Destroyed" using ok(3) i w by (force simp: stop_ok_def dest: nth_mem)
  show ?thesis
  proof (cases "head ?p = None")
    case True
    then have e: "queued ?p = []" using tasks.emp_law [OF qk] by simp
    let ?w = "if shutdown ?p then Exited else Asleep"
    have t: "take_turn i s = s\<lparr>workers := ?ws[i := ?w]\<rparr>"
      using True by (simp add: take_turn_def worker_turn_def)
    have s: "over held (?ws[i := ?w]) = over held ?ws" "over counting (?ws[i := ?w]) = over counting ?ws"
      using sums(1,2) [of ?w] w by (auto split: if_splits)
    have "stop_ok (s\<lparr>workers := ?ws[i := ?w]\<rparr>)"
      using ok(3) e notjoined by (auto simp: stop_ok_def split: if_splits dest!: set_upd)
    then show ?thesis using ok s nodes_same [OF ok(1) s(1)]
      by (auto simp: t pool_inv_def jobs_ok_def)
  next
    case False
    obtain x p' where d: "deq_task ?p = (x, p')" by (cases "deq_task ?p")
    have t: "take_turn i s = s\<lparr>pool_of := p', workers := ?ws[i := Holding x], started := started s @ [snd x]\<rparr>"
      using False d by (auto simp: take_turn_def worker_turn_def)
    have q: "queued ?p = x # queued p'" using deq_task_law [OF qk False] d by simp
    have k: "shutdown p' = shutdown ?p" "tasks_completed p' = tasks_completed ?p" using deq_keeps [of ?p] d by simp_all
    have s: "over held (?ws[i := Holding x]) = add_mset x (over held ?ws)"
      "over counting (?ws[i := Holding x]) = over counting ?ws" "over ready ?ws = over ready (?ws[i := Holding x]) + 1"
      using sums [of "Holding x"] w by auto
    have "nodes_ok p' (?ws[i := Holding x])" using nodes_deq [OF ok(1) False i w] d by simp
    moreover have "jobs_ok jobs (take_turn i s)" using ok(2) q s k by (auto simp: t jobs_ok_def)
    moreover have "stop_ok (take_turn i s)"
      using ok(3) q k s(3) notjoined by (auto simp: t stop_ok_def dest!: set_upd)
    ultimately show ?thesis using ok(4) by (simp add: t pool_inv_def)
  qed
qed

lemma execute_inv:
  assumes inv: "pool_inv n jobs s" and i: "i < length (workers s)" and w: "workers s ! i = Holding t"
  shows "pool_inv n jobs (run_task i t s)"
proof -
  let ?p = "pool_of s" and ?ws = "workers s"
  have ok: "nodes_ok ?p ?ws" "jobs_ok jobs s" "stop_ok s" "length ?ws = n"
    using inv by (simp_all add: pool_inv_def)
  have n: "nodes_ok (free_task (fst t) ?p) (?ws[i := Counting])" by (rule nodes_free [OF ok(1) i w])
  have s: "over held ?ws = add_mset t (over held (?ws[i := Counting]))"
    "over counting (?ws[i := Counting]) = over counting ?ws + 1" "over ready (?ws[i := Counting]) = over ready ?ws"
    using over_upd [OF i, of held Counting] over_upd [OF i, of counting Counting] ready_upd [OF i, of Counting] w by auto
  have q: "queued (free_task (fst t) ?p) = queued ?p"
    using free_ok [OF _ free_fresh [OF ok(1) i w]] ok(1) by (simp add: nodes_ok_def)
  have notjoined: "mainp s \<noteq> Destroyed" using ok(3) i w by (force simp: stop_ok_def dest: nth_mem)
  have "jobs_ok jobs (run_task i t s)" using ok(2) q s by (auto simp: jobs_ok_def run_task_def) (simp add: free_task_def)
  moreover have "stop_ok (run_task i t s)"
    using ok(3) q s(3) notjoined by (auto simp: stop_ok_def run_task_def free_task_def dest!: set_upd)
  ultimately show ?thesis using ok(4) n by (simp add: pool_inv_def run_task_def)
qed

lemma tally_inv:
  assumes inv: "pool_inv n jobs s" and i: "i < length (workers s)" and w: "workers s ! i = Counting"
  shows "pool_inv n jobs (count_task i s)"
proof -
  let ?p = "pool_of s" and ?ws = "workers s"
  have ok: "nodes_ok ?p ?ws" "jobs_ok jobs s" "stop_ok s" "length ?ws = n"
    using inv by (simp_all add: pool_inv_def)
  have s: "over held (?ws[i := Ready]) = over held ?ws" "over counting ?ws = over counting (?ws[i := Ready]) + 1"
    "over ready (?ws[i := Ready]) = over ready ?ws + 1"
    using over_upd [OF i, of held Ready] over_upd [OF i, of counting Ready] ready_upd [OF i, of Ready] w by auto
  have notjoined: "mainp s \<noteq> Destroyed" using ok(3) i w by (force simp: stop_ok_def dest: nth_mem)
  have "nodes_ok (?p\<lparr>tasks_completed := tasks_completed ?p + 1\<rparr>) (?ws[i := Ready])"
    using nodes_same [OF ok(1) s(1)] by (simp add: nodes_ok_def pool_fields)
  moreover have "jobs_ok jobs (count_task i s)"
    using ok(2) s by (auto simp: jobs_ok_def count_task_def pool_fields)
  moreover have "stop_ok (count_task i s)"
    using ok(3) s(3) notjoined by (auto simp: stop_ok_def count_task_def pool_fields dest!: set_upd)
  ultimately show ?thesis using ok(4) by (simp add: pool_inv_def count_task_def)
qed

lemma rouse_inv:
  assumes inv: "pool_inv n jobs s" and i: "i < length (workers s)" and w: "workers s ! i = Asleep"
  shows "pool_inv n jobs (s\<lparr>workers := (workers s)[i := Ready]\<rparr>)"
proof -
  let ?p = "pool_of s" and ?ws = "workers s"
  have ok: "nodes_ok ?p ?ws" "jobs_ok jobs s" "stop_ok s" "length ?ws = n"
    using inv by (simp_all add: pool_inv_def)
  have s: "over held (?ws[i := Ready]) = over held ?ws" "over counting (?ws[i := Ready]) = over counting ?ws"
    "over ready (?ws[i := Ready]) = over ready ?ws + 1"
    using over_upd [OF i, of held Ready] over_upd [OF i, of counting Ready] ready_upd [OF i, of Ready] w by auto
  have notjoined: "mainp s \<noteq> Destroyed" using ok(3) i w by (force simp: stop_ok_def dest: nth_mem)
  have "stop_ok (s\<lparr>workers := ?ws[i := Ready]\<rparr>)"
    using ok(3) s(3) notjoined by (auto simp: stop_ok_def dest!: set_upd)
  then show ?thesis
    using ok s nodes_same [OF ok(1) s(1)] by (auto simp: pool_inv_def jobs_ok_def)
qed

lemma all_exited: "set ws \<subseteq> {Exited} \<Longrightarrow> over held ws = {#} \<and> over counting ws = 0"
  by (induction ws) (auto simp: over_def)

lemma join_inv:
  assumes inv: "pool_inv n jobs s" and "0 < n" and m: "mainp s = Joining" and x: "set (workers s) \<subseteq> {Exited}"
  shows "pool_inv n jobs (end_destroy s)"
proof -
  have ok: "nodes_ok (pool_of s) (workers s)" "jobs_ok jobs s" "stop_ok s" "length (workers s) = n"
    using inv by (simp_all add: pool_inv_def)
  have "workers s \<noteq> []" using ok(4) assms(2) by auto
  then have "Exited \<in> set (workers s)" using x by (cases "workers s") auto
  then have "queued (pool_of s) = []" using ok(3) by (simp add: stop_ok_def)
  then have "head (pool_of s) = None" using tasks.emp_law [of "pool_of s"] ok(1) by (simp add: nodes_ok_def)
  then have "end_destroy s = s\<lparr>mainp := Destroyed\<rparr>" by (simp add: end_destroy_def)
  then show ?thesis using ok m x by (auto simp: pool_inv_def jobs_ok_def stop_ok_def)
qed

lemma init_inv: "pool_inv n jobs (sys_init n jobs)"
proof -
  have "over f (replicate n Ready) = 0" if "f Ready = 0" for f :: "wphase \<Rightarrow> 'b::comm_monoid_add"
    using that by (induction n) (simp_all add: over_def)
  from this [of held] this [of counting] show ?thesis
    by (auto simp: pool_inv_def sys_init_def nodes_ok_def jobs_ok_def stop_ok_def pool_create_def queue_ok_def queued_def)
qed

lemma preach_inv: "preach n jobs s \<Longrightarrow> 0 < n \<Longrightarrow> pool_inv n jobs s"
proof (induction rule: preach.induct)
  case p_start
  then show ?case by (simp add: init_inv)
next
  case (p_step s s')
  from p_step(2) p_step(3) [OF p_step(4)] show ?case
    by (cases rule: pstep.cases)
       (auto intro: submit_inv destroy_inv turn_inv execute_inv tally_inv join_inv p_step(4))
next
  case (p_spurious s s')
  from p_spurious(2) p_spurious(3) [OF p_spurious(4)] show ?case
    by (cases rule: pspurious.cases) (auto intro: rouse_inv)
qed

section \<open>Properties\<close>

text \<open>
  C14. Whatever the interleaving, tasks are taken in the order in which they were submitted, each at
  most once: what was executed, what workers hold and what is queued make up what was submitted, the
  counter lags behind the executed tasks only by workers that are about to update it, and no node of
  the heap is lost or freed twice.
\<close>

theorem pool_conserves_tasks:
  assumes "preach n jobs s" and "0 < n"
  shows "submitted s = started s @ map snd (queued (pool_of s)) \<and>
    mset (submitted s) = mset (executed s) + image_mset snd (over held (workers s)) + mset (map snd (queued (pool_of s))) \<and>
    tasks_completed (pool_of s) + over counting (workers s) = length (executed s) \<and>
    mset_set (dom (heap (pool_of s))) = mset (map fst (queued (pool_of s))) + image_mset fst (over held (workers s))"
  using preach_inv [OF assms] by (auto simp: pool_inv_def nodes_ok_def jobs_ok_def)

text \<open>
  C15. When \<open>pool_destroy\<close> has returned, every submitted task was executed exactly once, all are
  counted, and every node was freed.
\<close>

theorem destroy_completes:
  assumes "preach n jobs s" and "0 < n" and "mainp s = Destroyed"
  shows "mset (executed s) = mset jobs \<and> tasks_completed (pool_of s) = length jobs \<and> heap (pool_of s) = (\<lambda>_. None)"
proof -
  have ok: "nodes_ok (pool_of s) (workers s)" "jobs_ok jobs s" "stop_ok s" "length (workers s) = n"
    using preach_inv [OF assms(1,2)] by (simp_all add: pool_inv_def)
  have x: "set (workers s) \<subseteq> {Exited}" using ok(3) assms(3) by (simp add: stop_ok_def)
  moreover have "workers s \<noteq> []" using ok(4) assms(2) by auto
  ultimately have "Exited \<in> set (workers s)" by (cases "workers s") auto
  then have q: "queued (pool_of s) = []" using ok(3) by (simp add: stop_ok_def)
  have "mset_set (dom (heap (pool_of s))) = {#}" using ok(1) q all_exited [OF x] by (simp add: nodes_ok_def)
  then have "heap (pool_of s) = (\<lambda>_. None)" using ok(1) by (simp add: nodes_ok_def mset_set_empty_iff)
  moreover have j: "submitted s = jobs" "submitted s = started s" "mset (started s) = mset (executed s)"
    "tasks_completed (pool_of s) = length (executed s)"
    using ok(2) q assms(3) all_exited [OF x] by (auto simp: jobs_ok_def)
  moreover have "length (executed s) = length jobs" using j mset_eq_length by metis
  ultimately show ?thesis by auto
qed

lemma all_asleep: "set ws \<subseteq> {Asleep} \<Longrightarrow> ws \<noteq> [] \<Longrightarrow> Asleep \<in> set ws \<and> over ready ws = 0"
proof -
  assume a: "set ws \<subseteq> {Asleep}" "ws \<noteq> []"
  then have "over ready ws = 0" by (induction ws) (auto simp: over_def split: list.splits)
  with a show ?thesis by (cases ws) auto
qed

lemma pool_can_step:
  assumes "preach n jobs s" and "0 < n" and "mainp s \<noteq> Destroyed"
  shows "\<exists>s'. pstep s s'"
proof (cases "mainp s")
  case (Submitting js)
  show ?thesis
  proof (cases js)
    case (Cons job rest)
    have "finite (dom (heap (pool_of s)))" using preach_inv [OF assms(1,2)] by (simp add: pool_inv_def nodes_ok_def)
    then obtain a where a: "heap (pool_of s) a = None"
      by (metis domIff ex_new_if_finite infinite_UNIV_nat)
    have "\<exists>i. Asleep \<notin> set (workers s) \<or> i < length (workers s) \<and> workers s ! i = Asleep"
      by (auto simp: in_set_conv_nth)
    with submit [OF _ a] Submitting Cons show ?thesis by blast
  qed (use Submitting destroy in blast)
next
  case Joining
  show ?thesis
  proof (cases "set (workers s) \<subseteq> {Exited}")
    case False
    then obtain i where i: "i < length (workers s)" "workers s ! i \<noteq> Exited"
      by (metis in_set_conv_nth singletonI subsetI)
    have "shutdown (pool_of s)" "Asleep \<in> set (workers s) \<longrightarrow> \<not> shutdown (pool_of s)"
      using preach_inv [OF assms(1,2)] Joining by (auto simp: pool_inv_def stop_ok_def)
    then have "workers s ! i \<noteq> Asleep" using i(1) nth_mem by metis
    then show ?thesis using i by (cases "workers s ! i") (auto intro: turn execute tally)
  qed (use Joining join in blast)
qed (use assms(3) in simp)


text \<open>
  The pool never hangs: as long as \<open>pool_destroy\<close> has not returned some thread can take a step;
  no submitted task waits while every worker sleeps.
\<close>

theorem pool_progress:
  assumes "preach n jobs s" and "0 < n" and "mainp s \<noteq> Destroyed"
  shows "(\<exists>s'. pstep s s') \<and> \<not> (queued (pool_of s) \<noteq> [] \<and> set (workers s) \<subseteq> {Asleep})"
proof
  show "\<not> (queued (pool_of s) \<noteq> [] \<and> set (workers s) \<subseteq> {Asleep})"
    using preach_inv [OF assms(1,2)] assms(2) all_asleep [of "workers s"] by (auto simp: pool_inv_def stop_ok_def)
  show "\<exists>s'. pstep s s'" using pool_can_step [OF assms] .
qed

text \<open>Two workers, three tasks; a schedule that leads to the end.\<close>

definition first_asleep :: "sys \<Rightarrow> nat" where
  "first_asleep s = (case filter (\<lambda>i. workers s ! i = Asleep) [0..<length (workers s)] of
     [] \<Rightarrow> length (workers s) | i # _ \<Rightarrow> i)"

lemma first_asleep_ok:
  "Asleep \<notin> set (workers s) \<or> first_asleep s < length (workers s) \<and> workers s ! first_asleep s = Asleep"
proof (cases "filter (\<lambda>i. workers s ! i = Asleep) [0..<length (workers s)]")
  case Nil
  then show ?thesis by (auto simp: filter_empty_conv in_set_conv_nth)
next
  case (Cons i js)
  then have "i \<in> set (filter (\<lambda>i. workers s ! i = Asleep) [0..<length (workers s)])" by simp
  then have "i < length (workers s) \<and> workers s ! i = Asleep" by simp
  with Cons show ?thesis by (simp add: first_asleep_def)
qed

fun pfire :: "nat option \<Rightarrow> sys \<Rightarrow> sys option" where
  "pfire None s =
     (case mainp s of
        Submitting (job # js) \<Rightarrow>
          if heap (pool_of s) (length (submitted s)) = None
          then Some ((pool_submit (length (submitted s)) (first_asleep s) job s)\<lparr>mainp := Submitting js\<rparr>)
          else None
      | Submitting [] \<Rightarrow> Some (begin_destroy s)
      | Joining \<Rightarrow> if set (workers s) \<subseteq> {Exited} then Some (end_destroy s) else None
      | Destroyed \<Rightarrow> None)"
| "pfire (Some i) s =
     (if i < length (workers s)
      then case workers s ! i of Ready \<Rightarrow> Some (take_turn i s) | Holding t \<Rightarrow> Some (run_task i t s)
           | Counting \<Rightarrow> Some (count_task i s) | _ \<Rightarrow> None
      else None)"

lemma pfire_main: "pfire None s = Some s' \<Longrightarrow> pstep s s'"
  using submit [OF _ _ first_asleep_ok, of s] destroy [of s] join [of s]
  by (simp split: mphase.splits list.splits if_splits) blast+

lemma pfire_step: "pfire w s = Some s' \<Longrightarrow> pstep s s'"
  using pfire_main by (cases w) (auto split: if_splits wphase.splits intro: pstep.intros)

fun pschedule :: "nat option list \<Rightarrow> sys \<Rightarrow> sys" where
  "pschedule [] s = s"
| "pschedule (w # ws) s = (case pfire w s of None \<Rightarrow> s | Some s' \<Rightarrow> pschedule ws s')"

lemma pschedule_reach: "preach n jobs s \<Longrightarrow> preach n jobs (pschedule ws s)"
  by (induction ws arbitrary: s) (auto split: option.split dest: pfire_step intro: p_step)

definition sample_jobs :: "(nat \<times> nat) list" where
  "sample_jobs = [(7, 100), (7, 101), (8, 102)]"

definition sample_turns :: "nat option list" where
  "sample_turns = [Some 0, None, None, Some 1, Some 0, None, Some 1, Some 0, Some 0, Some 1, Some 0, Some 0,
     Some 0, Some 0, None, Some 1, Some 0, None]"

theorem pool_conserves_tasks_witness:
  "queued (pool_of (pschedule (take 4 sample_turns) (sys_init 2 sample_jobs))) = [(1, 7, 101)] \<and>
   submitted (pschedule (take 4 sample_turns) (sys_init 2 sample_jobs)) = [(7, 100), (7, 101)]"
proof -
  let ?s = "pschedule (take 4 sample_turns) (sys_init 2 sample_jobs)"
  have "preach 2 sample_jobs ?s" by (intro pschedule_reach p_start)
  then have "submitted ?s = started ?s @ map snd (queued (pool_of ?s))" using pool_conserves_tasks by simp
  moreover have "started ?s = [(7, 100)]" "queued (pool_of ?s) = [(1, 7, 101)]" by code_simp+
  ultimately show ?thesis by simp
qed

theorem destroy_completes_witness:
  "mset (executed (pschedule sample_turns (sys_init 2 sample_jobs))) = {#(7, 100), (7, 101), (8, 102)#}"
proof -
  have "preach 2 sample_jobs (pschedule sample_turns (sys_init 2 sample_jobs))" by (intro pschedule_reach p_start)
  moreover have "mainp (pschedule sample_turns (sys_init 2 sample_jobs)) = Destroyed" by code_simp
  ultimately show ?thesis using destroy_completes by (simp add: sample_jobs_def)
qed

theorem pool_progress_witness:
  "\<exists>s'. pstep (pschedule [Some 0, Some 1] (sys_init 2 sample_jobs)) s'"
proof -
  have "preach 2 sample_jobs (pschedule [Some 0, Some 1] (sys_init 2 sample_jobs))" by (intro pschedule_reach p_start)
  moreover have "mainp (pschedule [Some 0, Some 1] (sys_init 2 sample_jobs)) \<noteq> Destroyed" by code_simp
  ultimately show ?thesis using pool_progress by simp
qed

end
