(* ===== verification/TimerLab.thy ===== *)
theory TimerLab
  imports Bytes
begin

text \<open>
  timer_demo.c of SystemProgramming/Handson/lab16_timers: sleeping with interruptions, a timer that sends signals, and timers that are read. Timers count the periods that are
  over, as documented; times are nanoseconds since the start. When the program gets to run, when signals interrupt it and what \<open>printf\<close> makes of a double are arguments.
\<close>

section \<open>Clocks\<close>

definition clocks :: "string list" where
  "clocks = [''CLOCK_REALTIME'', ''CLOCK_MONOTONIC'', ''CLOCK_MONOTONIC_RAW'', ''CLOCK_PROCESS_CPUTIME_ID'', ''CLOCK_THREAD_CPUTIME_ID'', ''CLOCK_BOOTTIME'']"

definition seconds :: "int \<times> int \<Rightarrow> string" where
  "seconds ts = fmt_d (fst ts) @ ''.'' @ pad_zero 9 (fmt_d (snd ts))"

text \<open>The reading of each clock with the nanoseconds of its resolution, if there is such a clock.\<close>

definition demo_clocks :: "(string \<Rightarrow> ((int \<times> int) \<times> int) option) \<Rightarrow> string list" where
  "demo_clocks reading = (''--- Demo 1: Available Clocks ---'' @ NL) #
     concat (map (\<lambda>name. case reading name of None \<Rightarrow> []
       | Some (ts, res) \<Rightarrow> [''  '' @ pad_right 30 name @ '' '' @ seconds ts @ ''  (res: '' @ fmt_d res @ '' ns)'' @ NL]) clocks)"

section \<open>Sleeping\<close>

definition split_ns :: "int \<Rightarrow> int \<times> int" where
  "split_ns ns = (ns div 1000000000, ns mod 1000000000)"

text \<open>How long it sleeps until each signal; the call that no signal interrupts sleeps as long as it was asked to. The lines, and what was slept in all.\<close>

fun sleep_loop :: "int \<Rightarrow> int list \<Rightarrow> string list \<times> int" where
  "sleep_loop req [] = ([], req)"
| "sleep_loop req (s # ss) =
     (if s < req then (let (ls, slept) = sleep_loop (req - s) ss in ((''  Interrupted! Remaining: '' @ seconds (split_ns (req - s)) @ NL) # ls, s + slept))
      else ([], req))"

definition demo_nanosleep :: "(int \<Rightarrow> string) \<Rightarrow> int list \<Rightarrow> string list" where
  "demo_nanosleep fmt_ms signals =
     (let (ls, slept) = sleep_loop 500000000 signals
      in [NL @ ''--- Demo 2: nanosleep ---'' @ NL, ''  Sleeping 500ms...'' @ NL] @ ls @ [''  Actual sleep: '' @ fmt_ms slept @ '' ms'' @ NL])"

text \<open>However often it is interrupted, it sleeps what it should.\<close>

lemma sleep_loop_total: "snd (sleep_loop req ss) = req"
  by (induction req ss rule: sleep_loop.induct) (auto simp: split_def Let_def)

lemma sleep_loop_lines: "list_all (\<lambda>s. s = 0) ss \<Longrightarrow> 0 < req \<Longrightarrow> length (fst (sleep_loop req ss)) = length ss"
  by (induction req ss rule: sleep_loop.induct) (auto simp: split_def Let_def)

section \<open>A timer that sends signals\<close>

datatype place = Check | Paused | Stopped

record posix_timer =
  timer_count :: int
  main_at :: place
  timer_lines :: "string list"

text \<open>A signal, with the number of ticks that were missed; it ends a pause.\<close>

definition timer_handler :: "int \<Rightarrow> posix_timer \<Rightarrow> posix_timer" where
  "timer_handler overrun s =
     s\<lparr>timer_count := timer_count s + 1,
       main_at := (if main_at s = Paused then Check else main_at s),
       timer_lines := timer_lines s @ [''  [Timer] Tick '' @ fmt_d (timer_count s + 1) @ '' (overrun='' @ fmt_d overrun @ '')'' @ NL]\<rparr>"

definition demo_posix_timer :: "posix_timer \<Rightarrow> posix_timer" where
  "demo_posix_timer s = (case main_at s of
       Check \<Rightarrow> if timer_count s < 5 then s\<lparr>main_at := Paused\<rparr>
         else s\<lparr>main_at := Stopped, timer_lines := timer_lines s @ [''  Timer stopped after '' @ fmt_d (timer_count s) @ '' ticks.'' @ NL]\<rparr>
     | _ \<Rightarrow> s)"

definition timer_started :: posix_timer where
  "timer_started = \<lparr>timer_count = 0, main_at = Check,
     timer_lines = [NL @ ''--- Demo 3: POSIX Timer (timer_create) ---'' @ NL, ''  Started 200ms periodic timer. Waiting for 5 ticks...'' @ NL]\<rparr>"

text \<open>\<open>Some n\<close>: a signal with overrun \<open>n\<close>, while the timer runs; \<open>None\<close>: a step of the main program.\<close>

definition timer_run :: "int option list \<Rightarrow> posix_timer \<Rightarrow> posix_timer" where
  "timer_run es s = fold (\<lambda>e s. case e of None \<Rightarrow> demo_posix_timer s | Some n \<Rightarrow> if main_at s = Stopped then s else timer_handler n s) es s"

lemma timer_run_simps: "timer_run [] s = s"
  "timer_run (e # es) s = timer_run es (case e of None \<Rightarrow> demo_posix_timer s | Some n \<Rightarrow> if main_at s = Stopped then s else timer_handler n s)"
  by (simp_all add: timer_run_def)

lemma timer_stops_late: "0 \<le> timer_count s \<Longrightarrow> (main_at s = Stopped \<longrightarrow> 5 \<le> timer_count s) \<Longrightarrow>
  main_at (timer_run es s) = Stopped \<longrightarrow> 5 \<le> timer_count (timer_run es s)"
proof (induction es arbitrary: s)
  case (Cons e es)
  then show ?case by (cases e) (auto simp: timer_run_simps demo_posix_timer_def timer_handler_def split: place.splits)
qed (simp add: timer_run_simps)

lemma timer_waits: "main_at (timer_run es timer_started) = Stopped \<Longrightarrow> 5 \<le> timer_count (timer_run es timer_started)"
  using timer_stops_late [of timer_started es] by (simp add: timer_started_def)

text \<open>If the program waits for each tick, it stops after five; a tick between the test and the pause makes it wait for one more.\<close>

lemma five_ticks: "let s = timer_run [None, Some 0, None, Some 0, None, Some 0, None, Some 0, None, Some 0, None] timer_started
  in main_at s = Stopped \<and> timer_count s = 5 \<and> length (timer_lines s) = 8"
  by (simp add: timer_run_simps timer_started_def demo_posix_timer_def timer_handler_def)

lemma six_ticks: "let s = timer_run [Some 0, Some 0, Some 0, Some 0, None, Some 0, None] timer_started
  in main_at s = Stopped \<and> timer_count s = 5"
  "let s = timer_run [Some 0, Some 0, Some 0, Some 0, None, Some 0, Some 0, None] timer_started in main_at s = Stopped \<and> timer_count s = 6"
  by (simp_all add: timer_run_simps timer_started_def demo_posix_timer_def timer_handler_def)

section \<open>Timers that are read\<close>

definition INTERVAL :: int where "INTERVAL = 100000000"

text \<open>The periods that are over and have not been read; \<open>count\<close> of them have.\<close>

definition expirations :: "int \<Rightarrow> int \<Rightarrow> int" where
  "expirations now count = now div INTERVAL - count"

text \<open>\<open>poll\<close> returns when a period is over, but after half a second at the latest; the program goes on a while later. The lines, the count and the time at the end; \<open>None\<close>: it goes on.\<close>

fun timerfd_loop :: "int list \<Rightarrow> int \<Rightarrow> int \<Rightarrow> (string list \<times> int \<times> int) option" where
  "timerfd_loop lates now count = (if 8 \<le> count then Some ([], count, now) else
     (case lates of
        [] \<Rightarrow> None
      | late # ls \<Rightarrow>
          (let due = max now ((count + 1) * INTERVAL);
               timeout = now + 500000000;
               t = min due timeout + late
           in if due \<le> timeout
              then (let n = expirations t count
                    in map_option (\<lambda>(ls', r). ((''  [timerfd] Tick '' @ fmt_d (count + n) @ '' (expirations='' @ fmt_u n @ '')'' @ NL) # ls', r)) (timerfd_loop ls t (count + n)))
              else timerfd_loop ls t count)))"

declare timerfd_loop.simps [simp del]

definition demo_timerfd :: "(int \<Rightarrow> string) \<Rightarrow> int \<Rightarrow> int list \<Rightarrow> string list option" where
  "demo_timerfd strerror tfd lates =
     (let t = NL @ ''--- Demo 4: timerfd ---'' @ NL
      in if tfd < 0 then Some [t, ''timerfd_create: '' @ strerror (- tfd) @ NL]
         else map_option (\<lambda>(ls, _). [t, ''  Started 100ms timerfd. Reading 8 ticks...'' @ NL] @ ls @ [''  timerfd stopped.'' @ NL]) (timerfd_loop lates 0 0))"

lemma timerfd_tick:
  assumes "count < 8" and due: "due = max now ((count + 1) * INTERVAL)" and "due \<le> now + 500000000"
    and t: "t = due + late" and n: "n = t div INTERVAL - count"
  shows "timerfd_loop (late # ls) now count =
    map_option (\<lambda>(ls', r). ((''  [timerfd] Tick '' @ fmt_d (count + n) @ '' (expirations='' @ fmt_u n @ '')'' @ NL) # ls', r)) (timerfd_loop ls t (count + n))"
proof -
  have c: "\<not> 8 \<le> count" using assms(1) by simp
  have m: "min due (now + 500000000) + late = t" using assms(3) t by (simp add: min_def)
  show ?thesis
    unfolding timerfd_loop.simps [of "late # ls" now count] Let_def due [symmetric] m expirations_def n [symmetric] list.case
    using c assms(3) by (simp only: if_False if_True)
qed

text \<open>The count is always the number of periods that are over, so that no tick is lost however late the program is; eight reads are enough.\<close>

lemma timerfd_counts:
  assumes "list_all (\<lambda>l. 0 \<le> l) lates" and "0 \<le> count" and "now div INTERVAL = count" and "8 \<le> count + int (length lates)"
  shows "\<exists>ls c t. timerfd_loop lates now count = Some (ls, c, t) \<and> 8 \<le> c \<and> c = t div INTERVAL \<and> length ls \<le> nat (8 - count)"
  using assms
proof (induction lates arbitrary: now count)
  case Nil
  then show ?case by (simp add: timerfd_loop.simps)
next
  case (Cons late ls)
  show ?case
  proof (cases "8 \<le> count")
    case True
    then show ?thesis using Cons.prems(3) by (simp add: timerfd_loop.simps)
  next
    case False
    have i: "0 < INTERVAL" by (simp add: INTERVAL_def)
    have lt: "now < (count + 1) * INTERVAL" and ge: "count * INTERVAL \<le> now"
      using Cons.prems(3) i by (simp_all add: INTERVAL_def)
    then have due: "max now ((count + 1) * INTERVAL) = (count + 1) * INTERVAL" by simp
    have soon: "(count + 1) * INTERVAL \<le> now + 500000000" using ge by (simp add: INTERVAL_def algebra_simps)
    let ?t = "(count + 1) * INTERVAL + late"
    let ?n = "expirations ?t count"
    have late: "0 \<le> late" using Cons.prems(1) by simp
    have n: "count + ?n = ?t div INTERVAL" by (simp add: expirations_def)
    have "(count + 1) * INTERVAL div INTERVAL \<le> ?t div INTERVAL" using late i by (intro zdiv_mono1) simp_all
    then have n1: "1 \<le> ?n" using i by (simp add: expirations_def)
    have "list_all (\<lambda>l. 0 \<le> l) ls" and "0 \<le> count + ?n" and "8 \<le> count + ?n + int (length ls)" using Cons.prems n1 by simp_all
    from Cons.IH [OF this(1,2) n [symmetric] this(3)]
    obtain ls' c t where r: "timerfd_loop ls ?t (count + ?n) = Some (ls', c, t)" "8 \<le> c" "c = t div INTERVAL" "length ls' \<le> nat (8 - (count + ?n))"
      by blast
    have "timerfd_loop (late # ls) now count = map_option (\<lambda>(ls', r). ((''  [timerfd] Tick '' @ fmt_d (count + ?n) @ '' (expirations='' @ fmt_u ?n @ '')'' @ NL) # ls', r))
        (timerfd_loop ls ?t (count + ?n))"
      using False soon by (intro timerfd_tick [OF _ due [symmetric] _ refl]) (simp_all add: expirations_def)
    then have "timerfd_loop (late # ls) now count = Some ((''  [timerfd] Tick '' @ fmt_d (count + ?n) @ '' (expirations='' @ fmt_u ?n @ '')'' @ NL) # ls', c, t)"
      unfolding r(1) by simp
    moreover have "length ls' + 1 \<le> nat (8 - count)" using r(4) n1 False by linarith
    ultimately show ?thesis using r(2,3) by simp
  qed
qed

lemma timerfd_over: "8 \<le> count \<Longrightarrow> timerfd_loop ls now count = Some ([], count, now)"
  by (simp add: timerfd_loop.simps)

lemma on_time_from:
  "int k \<le> 8 \<Longrightarrow> timerfd_loop (replicate k 0) ((8 - int k) * INTERVAL) (8 - int k) =
    Some (map (\<lambda>i. ''  [timerfd] Tick '' @ fmt_d i @ '' (expirations='' @ fmt_u 1 @ '')'' @ NL) [8 - int k + 1..8], 8, 8 * INTERVAL)"
proof (induction k)
  case 0
  then show ?case by (simp add: timerfd_over)
next
  case (Suc k)
  let ?c = "8 - int (Suc k)"
  have i: "0 < INTERVAL" "INTERVAL \<le> 500000000" by (simp_all add: INTERVAL_def)
  have m: "max (?c * INTERVAL) ((?c + 1) * INTERVAL) = (?c + 1) * INTERVAL" using i by (simp add: max_def)
  have d: "(?c + 1) * INTERVAL \<le> ?c * INTERVAL + 500000000" using i by (simp add: algebra_simps)
  have "timerfd_loop (0 # replicate k 0) (?c * INTERVAL) ?c =
      map_option (\<lambda>(ls', r). ((''  [timerfd] Tick '' @ fmt_d (?c + 1) @ '' (expirations='' @ fmt_u 1 @ '')'' @ NL) # ls', r))
        (timerfd_loop (replicate k 0) ((?c + 1) * INTERVAL) (?c + 1))"
    by (rule timerfd_tick [OF _ m [symmetric]]) (use i d in simp_all)
  moreover have "?c + 1 = 8 - int k" by simp
  moreover have "[8 - int (Suc k) + 1..8] = (8 - int k) # [8 - int k + 1..8]" using Suc.prems by (simp add: upto_rec1)
  ultimately show ?case using Suc.IH Suc.prems by simp
qed

lemma on_time: "timerfd_loop (replicate 8 0) 0 0 =
  Some (map (\<lambda>i. ''  [timerfd] Tick '' @ fmt_d i @ '' (expirations='' @ fmt_u 1 @ '')'' @ NL) [1..8], 8, 8 * INTERVAL)"
  using on_time_from [of 8] by simp

text \<open>A program that is late reads several periods at once, and more than eight ticks in all.\<close>

lemma late_program: "\<exists>ls. timerfd_loop [0, 1000000000] 0 0 = Some (ls, 12, 12 * INTERVAL) \<and> length ls = 2"
proof -
  have "timerfd_loop [0, 1000000000] 0 0 = map_option (\<lambda>(ls', r). ((''  [timerfd] Tick '' @ fmt_d (0 + 1) @ '' (expirations='' @ fmt_u 1 @ '')'' @ NL) # ls', r))
      (timerfd_loop [1000000000] INTERVAL (0 + 1))"
    by (rule timerfd_tick [OF _ refl]) (simp_all add: INTERVAL_def)
  moreover have "timerfd_loop [1000000000] INTERVAL 1 = map_option (\<lambda>(ls', r). ((''  [timerfd] Tick '' @ fmt_d (1 + 11) @ '' (expirations='' @ fmt_u 11 @ '')'' @ NL) # ls', r))
      (timerfd_loop [] (12 * INTERVAL) (1 + 11))"
    by (rule timerfd_tick [OF _ refl]) (simp_all add: INTERVAL_def)
  ultimately show ?thesis by (simp add: timerfd_over)
qed

text \<open>The timer that fires once: the read returns when it has.\<close>

definition demo_oneshot :: "(int \<Rightarrow> string) \<Rightarrow> int \<Rightarrow> string list" where
  "demo_oneshot fmt_ms late = [NL @ ''--- Demo 5: One-Shot Timer ---'' @ NL, ''  One-shot timer set for 300ms...'' @ NL,
     ''  Timer fired after '' @ fmt_ms (300000000 + late) @ '' ms (expected ~300ms)'' @ NL]"

end
