(* ===== verification/Tracer.thy ===== *)
theory Tracer
  imports Bytes
begin

text \<open>
  SystemProgramming/Handson/lab05_ptrace_antidebug/mini_strace.c: the table of names and the loop that prints one line for each system call of the
  traced process. What happens to that process is an argument, the list of the stops that \<open>waitpid\<close> reports: with
  \<open>PTRACE_SYSCALL\<close> a process stops when it enters and when it leaves a system call, and also, without any mark that tells it apart, when a signal is
  delivered to it. A list that ends means that \<open>ptrace\<close> fails.
\<close>

section \<open>The program\<close>

definition syscall_table :: "(int \<times> string) list" where
  "syscall_table =
     [(0, ''read''), (1, ''write''), (2, ''open''), (3, ''close''), (4, ''stat''), (5, ''fstat''), (9, ''mmap''), (10, ''mprotect''),
      (11, ''munmap''), (12, ''brk''), (21, ''access''), (25, ''mremap''), (39, ''getpid''), (56, ''clone''), (57, ''fork''),
      (59, ''execve''), (60, ''exit''), (63, ''uname''), (72, ''fcntl''), (78, ''getdents''), (79, ''getcwd''), (89, ''readlink''),
      (96, ''gettimeofday''), (102, ''getuid''), (104, ''getgid''), (110, ''getppid''), (158, ''arch_prctl''),
      (218, ''set_tid_address''), (231, ''exit_group''), (257, ''openat''), (262, ''newfstatat''), (302, ''prlimit64''),
      (318, ''getrandom''), (332, ''statx'')]"

definition syscall_name :: "int \<Rightarrow> string option" where
  "syscall_name num = map_of syscall_table num"

text \<open>A stop with the registers \<open>orig_rax\<close> and \<open>rax\<close>, or the end of the process. \<open>GETREGS\<close> can fail.\<close>

datatype wait_status = Stopped int u64 | Regs_Unreadable | Exited int | Killed int

record tracer =
  syscall_count :: int
  in_syscall :: bool
  t_out :: string

definition tracer_start :: tracer where
  "tracer_start = \<lparr>syscall_count = 0, in_syscall = False, t_out = []\<rparr>"

text \<open>\<open>-(int)ret\<close> is undefined for the smallest \<open>int\<close>.\<close>

definition on_stop :: "(int \<Rightarrow> string) \<Rightarrow> int \<Rightarrow> u64 \<Rightarrow> tracer \<Rightarrow> tracer option" where
  "on_stop strerror orig_rax rax t =
     (if \<not> in_syscall t then
        map_option (\<lambda>n. t\<lparr>syscall_count := n, in_syscall := True, t_out := t_out t @
            pad_right 6 (fmt_d n) @ '' '' @
            (case syscall_name orig_rax of
               Some name \<Rightarrow> pad_right 20 name @ '' ''
             | None \<Rightarrow> ''syscall_'' @ pad_right 12 (fmt_d orig_rax) @ '' '')\<rparr>)
          (arith32 (syscall_count t + 1))
      else if sint rax < 0 then
        map_option (\<lambda>e. t\<lparr>in_syscall := False, t_out := t_out t @ ''= -1 ('' @ strerror e @ '')'' @ NL\<rparr>)
          (arith32 (- cast_s32 (sint rax)))
      else Some (t\<lparr>in_syscall := False, t_out := t_out t @ ''= '' @ fmt_d (sint rax) @ NL\<rparr>))"

fun trace_loop :: "(int \<Rightarrow> string) \<Rightarrow> wait_status list \<Rightarrow> tracer \<Rightarrow> tracer option" where
  "trace_loop strerror [] t = Some t"
| "trace_loop strerror (Stopped orig_rax rax # es) t = Option.bind (on_stop strerror orig_rax rax t) (trace_loop strerror es)"
| "trace_loop strerror (Regs_Unreadable # es) t = Some t"
| "trace_loop strerror (Exited code # es) t =
     Some (t\<lparr>t_out := t_out t @ NL @ ''[mini_strace] Process exited with code '' @ fmt_d code @ NL\<rparr>)"
| "trace_loop strerror (Killed sig # es) t =
     Some (t\<lparr>t_out := t_out t @ NL @ ''[mini_strace] Process killed by signal '' @ fmt_d sig @ NL\<rparr>)"

definition trace_header :: "int \<Rightarrow> string \<Rightarrow> string" where
  "trace_header child prog =
     ''[mini_strace] Tracing PID '' @ fmt_d child @ '': '' @ prog @ NL @
     pad_right 6 ''COUNT'' @ '' '' @ pad_right 20 ''SYSCALL'' @ '' RETURN'' @ NL @ ''------ -------------------- --------'' @ NL"

definition mini_strace :: "(int \<Rightarrow> string) \<Rightarrow> int \<Rightarrow> string \<Rightarrow> wait_status list \<Rightarrow> string option" where
  "mini_strace strerror child prog es =
     map_option (\<lambda>t. trace_header child prog @ t_out t @ NL @ ''[mini_strace] Total syscalls traced: '' @ fmt_d (syscall_count t) @ NL)
       (trace_loop strerror es tracer_start)"

section \<open>Properties\<close>

text \<open>The stops of a process that makes some calls, with their results, and then exits.\<close>

definition call_stops :: "int \<times> u64 \<Rightarrow> wait_status list" where
  "call_stops = (\<lambda>(n, r). [Stopped n (- 38), Stopped n r])"

definition name_column :: "int \<Rightarrow> string" where
  "name_column n = (case syscall_name n of Some name \<Rightarrow> pad_right 20 name | None \<Rightarrow> ''syscall_'' @ pad_right 12 (fmt_d n))"

definition result_column :: "(int \<Rightarrow> string) \<Rightarrow> u64 \<Rightarrow> string" where
  "result_column strerror r = (if sint r < 0 then ''= -1 ('' @ strerror (- sint r) @ '')'' else ''= '' @ fmt_d (sint r)) @ NL"

definition trace_line :: "(int \<Rightarrow> string) \<Rightarrow> nat \<Rightarrow> int \<times> u64 \<Rightarrow> string" where
  "trace_line strerror i = (\<lambda>(n, r). pad_right 6 (fmt_d (int i)) @ '' '' @ name_column n @ '' '' @ result_column strerror r)"

lemma on_stop_entry:
  "\<not> in_syscall t \<Longrightarrow> arith32 (syscall_count t + 1) = Some k \<Longrightarrow>
     on_stop strerror n r t = Some (t\<lparr>syscall_count := k, in_syscall := True,
       t_out := t_out t @ pad_right 6 (fmt_d k) @ '' '' @ name_column n @ '' ''\<rparr>)"
  by (simp add: on_stop_def name_column_def split: option.split)

lemma names_fit: "syscall_name n = Some name \<Longrightarrow> length name \<le> 20"
  by (auto simp: syscall_name_def syscall_table_def split: if_splits)

lemma trace_calls:
  assumes "\<forall>(n, r) \<in> set calls. - 4096 < sint r" and "k + length calls < 2147483648"
  shows "trace_loop strerror (concat (map call_stops calls) @ es) \<lparr>syscall_count = int k, in_syscall = False, t_out = out\<rparr> =
    trace_loop strerror es \<lparr>syscall_count = int (k + length calls), in_syscall = False,
      t_out = out @ concat (map (\<lambda>(i, c). trace_line strerror i c) (enumerate (k + 1) calls))\<rparr>"
  using assms
proof (induction calls arbitrary: k out)
  case (Cons c calls)
  obtain n r where c: "c = (n, r)" by (cases c)
  have r: "- 4096 < sint r" using Cons.prems(1) c by simp
  have k: "arith32 (int k + 1) = Some (int k + 1)" using Cons.prems(2) by (simp add: arith32_def fits_s32_def)
  have "cast_s32 (sint r) = sint r \<and> arith32 (- sint r) = Some (- sint r)" if "sint r < 0"
    using r that by (simp add: cast_s32_id arith32_def fits_s32_def)
  then have "trace_loop strerror (call_stops c @ xs) \<lparr>syscall_count = int k, in_syscall = False, t_out = out\<rparr> =
      trace_loop strerror xs \<lparr>syscall_count = int (k + 1), in_syscall = False, t_out = out @ trace_line strerror (k + 1) c\<rparr>" for xs
    using k by (simp add: c call_stops_def on_stop_def trace_line_def name_column_def result_column_def add.commute split: option.split)
  then show ?case using Cons.IH [of "k + 1" "out @ trace_line strerror (k + 1) c"] Cons.prems by simp
qed simp


text \<open>
  A process that makes any calls and exits, without a signal: the output has one line for each call, in order and numbered, with the name of the
  call in a column of twenty characters and its result or error, and the total is the number of calls.
\<close>

theorem mini_strace_reports:
  assumes "\<forall>(n, r) \<in> set calls. - 4096 < sint r" and "length calls < 2147483648"
  shows "mini_strace strerror child prog (concat (map call_stops calls) @ [Exited code]) =
    Some (trace_header child prog @ concat (map (\<lambda>(i, c). trace_line strerror i c) (enumerate 1 calls)) @
      NL @ ''[mini_strace] Process exited with code '' @ fmt_d code @ NL @
      NL @ ''[mini_strace] Total syscalls traced: '' @ fmt_d (int (length calls)) @ NL)"
  using trace_calls [of calls 0 strerror "[Exited code]" "[]"] assms by (simp add: mini_strace_def tracer_start_def)

text \<open>A \<open>write\<close> of five bytes, an \<open>open\<close> of a file that does not exist, and an unknown call.\<close>

theorem mini_strace_reports_witness:
  "map_option (drop (length (trace_header 7 ''/bin/x''))) (mini_strace (\<lambda>e. ''err'' @ fmt_d e) 7 ''/bin/x''
       (concat (map call_stops [(1, 5), (257, - 2), (500, 0)]) @ [Exited 3])) =
    Some (''1      write                = 5'' @ NL @
          ''2      openat               = -1 (err2)'' @ NL @
          ''3      syscall_500          = 0'' @ NL @
          NL @ ''[mini_strace] Process exited with code 3'' @ NL @ NL @ ''[mini_strace] Total syscalls traced: 3'' @ NL)"
proof -
  have num: "fmt_d 1 = ''1''" "fmt_d 2 = ''2''" "fmt_d 3 = ''3''" "fmt_d 5 = ''5''" "fmt_d 0 = ''0''" "fmt_d 500 = ''500''"
    by (simp_all add: fmt_d_def dec.simps digit_def)
  have names: "syscall_name 1 = Some ''write''" "syscall_name 257 = Some ''openat''" "syscall_name 500 = None"
    by (simp_all add: syscall_name_def syscall_table_def)
  have names: "name_column 1 = ''write               ''" "name_column 257 = ''openat              ''" "name_column 500 = ''syscall_500         ''"
    by (simp_all add: name_column_def names num pad_right_def numeral_eq_Suc)
  have counts: "pad_right 6 ''1'' = ''1     ''" "pad_right 6 ''2'' = ''2     ''" "pad_right 6 ''3'' = ''3     ''"
    by (simp_all add: pad_right_def numeral_eq_Suc)
  have "enumerate 1 [(1 :: int, 5 :: u64), (257, - 2), (500, 0)] = [(1, 1, 5), (2, 257, - 2), (3, 500, 0)]" by simp
  then show ?thesis
    using mini_strace_reports [of "[(1, 5), (257, - 2), (500, 0)]" "\<lambda>e. ''err'' @ fmt_d e" 7 "''/bin/x''" 3]
    by (simp add: trace_line_def result_column_def names counts num)
qed

text \<open>
  A signal is taken for an entry: from then on entries and results are exchanged, and the first call after it is reported as a result with the error of
  an unknown call.
\<close>

lemma signal_stop_shifts:
  "trace_loop strerror [Stopped (-1) 0, Stopped n (- 38), Stopped n r] tracer_start =
     Some \<lparr>syscall_count = 2, in_syscall = True,
       t_out = ''1      syscall_-1           = -1 ('' @ strerror 38 @ '')'' @ NL @ ''2      '' @ name_column n @ '' ''\<rparr>"
proof -
  have num: "fmt_d 1 = ''1''" "fmt_d 2 = ''2''" "fmt_d (-1) = ''-1''" by (simp_all add: fmt_d_def dec.simps digit_def)
  have pads: "pad_right 6 ''1'' = ''1     ''" "pad_right 6 ''2'' = ''2     ''" by (simp_all add: pad_right_def numeral_eq_Suc)
  have "syscall_name (-1) = None" by (simp add: syscall_name_def syscall_table_def)
  then have col: "name_column (-1) = ''syscall_-1          ''" by (simp add: name_column_def num pad_right_def numeral_eq_Suc)
  define t1 where "t1 = \<lparr>syscall_count = 1, in_syscall = True, t_out = ''1      syscall_-1           ''\<rparr>"
  define t2 where "t2 = \<lparr>syscall_count = 1, in_syscall = False, t_out = ''1      syscall_-1           = -1 ('' @ strerror 38 @ '')'' @ NL\<rparr>"
  have "on_stop strerror (-1) 0 tracer_start = Some t1"
    by (subst on_stop_entry [where k = 1]) (simp_all add: tracer_start_def t1_def arith32_def fits_s32_def num pads col)
  moreover have "on_stop strerror n (- 38) t1 = Some t2"
    by (simp add: on_stop_def t1_def t2_def arith32_def fits_s32_def)
  moreover have "on_stop strerror n r t2 = Some (t2\<lparr>syscall_count := 2, in_syscall := True, t_out := t_out t2 @ ''2      '' @ name_column n @ '' ''\<rparr>)"
    by (subst on_stop_entry [where k = 2]) (simp_all add: t2_def arith32_def fits_s32_def num pads)
  ultimately show ?thesis by (simp add: t2_def)
qed

end
