(* ===== verification/Uio.thy ===== *)
theory Uio
  imports Bytes
begin

text \<open>
  The user-space I/O programs of SystemProgramming/Handson/lab20_uio: the simulated devices kmod/uio_demo.c and
  sim_device/uio_sim.c with their timers and interrupt control, and the programs uio_user.c and uio_sim_user.c that map their
  registers and wait for interrupts. Registers are shared memory. Of the UIO core the programs use what it documents: a device
  has an event counter; a descriptor can be read once the counter differs from the value it read last, and the read delivers
  the counter; writing to it calls \<open>irqcontrol\<close>.
\<close>

section \<open>The simulated devices\<close>

definition REG_ID :: nat where "REG_ID = 0"
definition REG_STATUS :: nat where "REG_STATUS = 4"
definition REG_CONTROL :: nat where "REG_CONTROL = 8"
definition REG_DATA :: nat where "REG_DATA = 12"
definition REG_IRQ_ACK :: nat where "REG_IRQ_ACK = 16"

lemmas reg_offsets = REG_ID_def REG_STATUS_def REG_CONTROL_def REG_DATA_def REG_IRQ_ACK_def

definition MEM_SIZE :: nat where "MEM_SIZE = 4096"

record uio_device =
  regs :: "u32 list"
  irqs :: u64
  enabled :: bool
  armed :: bool   \<comment> \<open>whether the timer is pending\<close>
  event :: u32

text \<open>The device as \<open>uio_sim_init\<close> leaves it.\<close>

definition uio_sim_start :: uio_device where
  "uio_sim_start =
     \<lparr>regs = (replicate (MEM_SIZE div 4) 0)[REG_ID div 4 := 0x53494D44], irqs = 0, enabled = True, armed = True, event = 0\<rparr>"

definition set_reg :: "nat \<Rightarrow> u32 \<Rightarrow> uio_device \<Rightarrow> uio_device" where
  "set_reg off v d = d\<lparr>regs := (regs d)[off div 4 := v]\<rparr>"

definition get_reg :: "nat \<Rightarrow> uio_device \<Rightarrow> u32" where
  "get_reg off d = regs d ! (off div 4)"

text \<open>The timer, which runs when it is pending.\<close>

definition uio_sim_timer :: "uio_device \<Rightarrow> uio_device" where
  "uio_sim_timer d =
     (if armed d then
        (if enabled d
         then (set_reg REG_STATUS 1 d)\<lparr>irqs := irqs d + 1, event := event d + 1, armed := True\<rparr>
         else d\<lparr>armed := False\<rparr>)
      else d)"

definition uio_sim_irqcontrol :: "int \<Rightarrow> uio_device \<Rightarrow> uio_device" where
  "uio_sim_irqcontrol irq_on d = d\<lparr>enabled := irq_on \<noteq> 0, armed := irq_on \<noteq> 0\<rparr>"

text \<open>The other device has no \<open>enabled\<close> flag and keeps its counter in the shared memory.\<close>

definition DEMO_MAGIC :: u32 where "DEMO_MAGIC = 0x44454D4F"

definition uio_demo_start :: uio_device where
  "uio_demo_start = \<lparr>regs = (replicate (MEM_SIZE div 4) 0)[0 := DEMO_MAGIC], irqs = 0, enabled = True, armed = True, event = 0\<rparr>"

definition uio_demo_timer :: "uio_device \<Rightarrow> uio_device" where
  "uio_demo_timer d =
     (if armed d then
        (let n = irqs d + 1 in d\<lparr>irqs := n, regs := (regs d)[0 := DEMO_MAGIC, 1 := ucast n], event := event d + 1, armed := True\<rparr>)
      else d)"

definition uio_demo_irqcontrol :: "int \<Rightarrow> uio_device \<Rightarrow> uio_device" where
  "uio_demo_irqcontrol irq_on d = d\<lparr>armed := irq_on \<noteq> 0\<rparr>"

section \<open>uio_sim_user\<close>

definition hex8 :: "u32 \<Rightarrow> string" where
  "hex8 w = ''0x'' @ pad_zero 8 (fmt_X (uint w))"

text \<open>
  The registers are read and written first. Then the program polls, a second at a time, for up to ten interrupts. The list
  says how often the timer of the device fires in each of these seconds; it ends when the user interrupts the program.
\<close>

fun uio_poll_loop :: "nat list \<Rightarrow> nat \<Rightarrow> u32 \<Rightarrow> uio_device \<Rightarrow> string list \<times> uio_device" where
  "uio_poll_loop [] irq_total seen d = ([], d)"
| "uio_poll_loop (f # fs) irq_total seen d =
     (if irq_total < 10 then
        (let d1 = (uio_sim_timer ^^ f) d in
         if event d1 \<noteq> seen then
           (let line = ''  IRQ #'' @ fmt_d (int irq_total + 1) @ '' (kernel count: '' @ fmt_u (uint (event d1)) @ '')'' @ NL;
                (out, d2) = uio_poll_loop fs (irq_total + 1) (event d1) (uio_sim_irqcontrol 1 (set_reg REG_IRQ_ACK 1 d1)) in
            (line # out, d2))
         else
           (let (out, d2) = uio_poll_loop fs irq_total seen d1 in ((''  (no interrupt in 1s)'' @ NL) # out, d2)))
      else ([], d))"

definition uio_sim_user_main :: "nat list \<Rightarrow> uio_device \<Rightarrow> string list \<times> uio_device" where
  "uio_sim_user_main fs d =
     (let d1 = set_reg REG_CONTROL 1 d; d2 = set_reg REG_DATA 0xDEADBEEF d1;
          (out, d3) = uio_poll_loop fs 0 (event d) d2 in
      ([''  Device ID:     '' @ hex8 (get_reg REG_ID d) @ NL, ''  Status:        '' @ hex8 (get_reg REG_STATUS d) @ NL,
        ''  Control:       '' @ hex8 (get_reg REG_CONTROL d1) @ NL, ''  Data readback: '' @ hex8 (get_reg REG_DATA d2) @ NL] @
       out @ [''  Device disabled.'' @ NL], set_reg REG_CONTROL 0 d3))"

section \<open>uio_user\<close>

text \<open>
  \<open>strrchr(dev_path, '/')\<close> and the part after it, or the whole path.
\<close>

definition uio_name :: "string \<Rightarrow> string" where
  "uio_name dev_path = rev (takeWhile (\<lambda>c. c \<noteq> CHR ''/'') (rev dev_path))"

text \<open>
  \<open>read_sysfs_attr\<close> with a buffer of \<open>len\<close> bytes. The files are an argument: the contents of a path, or none if it cannot be
  opened or read; a read delivers as much as fits. The result is the code and the contents of the buffer, \<open>None\<close> if the code leaves the buffer.
\<close>

definition read_sysfs_attr :: "(string \<Rightarrow> string option) \<Rightarrow> string \<Rightarrow> string \<Rightarrow> string \<Rightarrow> (int \<times> string) option" where
  "read_sysfs_attr sysfs name attr buf =
     (let path = take 255 (''/sys/class/uio/'' @ name @ ''/'' @ attr) in
      case sysfs path of
        None \<Rightarrow> Some (-1, buf)
      | Some text \<Rightarrow>
          (let n = length (take (length buf - 1) text) in
           if length buf = 0 then None
           else
             (let b1 = (take n text @ drop n buf)[n := NUL];
                  b2 = (if 0 < n \<and> b1 ! (n - 1) = NL ! 0 then b1[n - 1 := NUL] else b1) in
              Some (0, b2))))"

definition print_sysfs_attr :: "(string \<Rightarrow> string option) \<Rightarrow> string \<Rightarrow> string \<Rightarrow> string \<Rightarrow> string \<Rightarrow> (string list \<times> string) option" where
  "print_sysfs_attr sysfs name label attr buf =
     Option.bind (read_sysfs_attr sysfs name attr buf) (\<lambda>(r, b).
       if r = 0 then map_option (\<lambda>t. ([label @ t @ NL], b)) (c_string b) else Some ([], b))"

fun print_sysfs_attrs :: "(string \<Rightarrow> string option) \<Rightarrow> string \<Rightarrow> (string \<times> string) list \<Rightarrow> string \<Rightarrow> string list option" where
  "print_sysfs_attrs sysfs name [] buf = Some []"
| "print_sysfs_attrs sysfs name ((label, attr) # rest) buf =
     Option.bind (print_sysfs_attr sysfs name label attr buf) (\<lambda>(out, b). map_option ((@) out) (print_sysfs_attrs sysfs name rest b))"

text \<open>The 256 bytes of \<open>buf\<close> start indeterminate.\<close>

definition print_uio_info :: "(string \<Rightarrow> string option) \<Rightarrow> string \<Rightarrow> string \<Rightarrow> string list option" where
  "print_uio_info sysfs junk name =
     map_option ((@) [''=== UIO Device Info ==='' @ NL, ''  Device: '' @ name @ NL])
       (print_sysfs_attrs sysfs name
         [(''  Name:    '', ''name''), (''  Version: '', ''version''), (''  Map0 addr: '', ''maps/map0/addr''), (''  Map0 size: '', ''maps/map0/size'')]
         junk)"

text \<open>The rest of \<open>main\<close> on the device of uio_demo.c, whose timer fires \<open>f\<close> times until the read; none means that the read goes on waiting.\<close>

definition uio_user_main :: "nat \<Rightarrow> uio_device \<Rightarrow> (string list \<times> uio_device) option" where
  "uio_user_main f d =
     (let dump = map (\<lambda>i. ''    ['' @ pad_zero 2 (fmt_X (int (i * 4))) @ ''] = '' @ hex8 (regs d ! i) @ NL) [0, 1, 2, 3];
          d1 = (uio_demo_timer ^^ f) d in
      if event d1 \<noteq> event d
      then Some (dump @ [''  Interrupt received! Count: '' @ fmt_u (uint (event d1)) @ NL], uio_demo_irqcontrol 1 d1)
      else None)"

section \<open>A session on the simulated device\<close>

text \<open>The device while it runs, after \<open>e\<close> interrupts.\<close>

definition running :: "u32 list \<Rightarrow> nat \<Rightarrow> uio_device" where
  "running r e = \<lparr>regs = r, irqs = word_of_nat e, enabled = True, armed = True, event = word_of_nat e\<rparr>"

lemma timer_running: "(uio_sim_timer ^^ f) (running r e) = running (if f = 0 then r else r[1 := 1]) (e + f)"
proof (induction f)
  case (Suc f)
  then show ?case by (simp add: uio_sim_timer_def running_def set_reg_def reg_offsets)
qed simp

lemma ack_running: "uio_sim_irqcontrol 1 (set_reg off v (running r e)) = running (r[off div 4 := v]) e"
  by (simp add: uio_sim_irqcontrol_def set_reg_def running_def)

text \<open>The interrupts a session reports: one for each second in which the timer has fired, up to the tenth.\<close>

fun irq_lines :: "nat \<Rightarrow> nat \<Rightarrow> nat list \<Rightarrow> string list" where
  "irq_lines k e [] = []"
| "irq_lines k e (f # fs) =
     (if 10 \<le> k then []
      else if f = 0 then (''  (no interrupt in 1s)'' @ NL) # irq_lines k e fs
      else (''  IRQ #'' @ fmt_d (int k + 1) @ '' (kernel count: '' @ fmt_d (int (e + f)) @ '')'' @ NL) # irq_lines (k + 1) (e + f) fs)"

text \<open>The seconds of a session that are waited for, from \<open>k\<close> interrupts on.\<close>

fun waited :: "nat \<Rightarrow> nat list \<Rightarrow> nat list" where
  "waited k [] = []"
| "waited k (f # fs) = (if 10 \<le> k then [] else f # waited (if f = 0 then k else k + 1) fs)"

lemma unat_event: "e < 2 ^ 32 \<Longrightarrow> unat (word_of_nat e :: u32) = e"
  by (simp add: unat_of_nat)

lemma word_event_eq:
  assumes "e + f < 2 ^ 32"
  shows "(word_of_nat (e + f) :: u32) = word_of_nat e \<longleftrightarrow> f = 0"
proof
  assume "(word_of_nat (e + f) :: u32) = word_of_nat e"
  then have "unat (word_of_nat (e + f) :: u32) = unat (word_of_nat e :: u32)" by simp
  then show "f = 0" using assms unat_event [of "e + f"] unat_event [of e] by (simp del: of_nat_add)
qed simp

lemma uint_event: "e < 2 ^ 32 \<Longrightarrow> fmt_u (uint (word_of_nat e :: u32)) = fmt_d (int e)"
  by (simp add: fmt_u_def fmt_d_def unat_event flip: unat_eq_nat_uint)

lemma poll_loop_eq:
  assumes "e + sum_list (waited k fs) < 2 ^ 32"
  shows "uio_poll_loop fs k (word_of_nat e) (running r e) =
    (irq_lines k e fs, running (if \<exists>f \<in> set (waited k fs). f \<noteq> 0 then r[1 := 1, 4 := 1] else r) (e + sum_list (waited k fs)))"
  using assms
proof (induction fs arbitrary: k e r)
  case (Cons f fs)
  show ?case
  proof (cases "k < 10")
    case True
    show ?thesis
    proof (cases "f = 0")
      case f: True
      with True Cons.prems have "uio_poll_loop fs k (word_of_nat e) (running r e) =
          (irq_lines k e fs, running (if \<exists>f \<in> set (waited k fs). f \<noteq> 0 then r[1 := 1, 4 := 1] else r) (e + sum_list (waited k fs)))"
        by (intro Cons.IH) simp
      then show ?thesis using f True by (simp add: running_def)
    next
      case f: False
      let ?r = "r[1 := 1, 4 := 1]"
      have lt: "e + f < 2 ^ 32" "(e + f) + sum_list (waited (k + 1) fs) < 2 ^ 32" using Cons.prems True f by simp_all
      have "(if b then ?r[1 := 1, 4 := 1] else ?r) = ?r" for b
        by (simp add: list_update_swap [of 4 "Suc 0" r] list_update_swap [of 4 "Suc 0"])
      with Cons.IH [OF lt(2), of ?r] have ih: "uio_poll_loop fs (k + 1) (word_of_nat (e + f)) (running ?r (e + f)) =
          (irq_lines (k + 1) (e + f) fs, running ?r (e + f + sum_list (waited (k + 1) fs)))" by simp
      have t: "(uio_sim_timer ^^ f) (running r e) = running (r[1 := 1]) (e + f)" using f by (simp add: timer_running)
      have ev: "event (running (r[1 := 1]) (e + f)) \<noteq> word_of_nat e" "event (running (r[1 := 1]) (e + f)) = word_of_nat (e + f)"
        using word_event_eq [OF lt(1)] f by (simp_all add: running_def del: of_nat_add)
      have a: "uio_sim_irqcontrol 1 (set_reg REG_IRQ_ACK 1 (running (r[1 := 1]) (e + f))) = running ?r (e + f)"
        by (simp add: ack_running REG_IRQ_ACK_def)
      have u: "fmt_u (uint (word_of_nat (e + f) :: u32)) = fmt_d (int (e + f))" using lt(1) by (rule uint_event)
      show ?thesis using True f ev ih a
        by (simp only: uio_poll_loop.simps t Let_def) (simp add: u [simplified] add.assoc)
    qed
  qed simp
qed (simp add: running_def)

lemma numeral_7: "(7 :: nat) = Suc (Suc (Suc (Suc (Suc (Suc (Suc 0))))))" by simp

lemma hex8_values:
  "hex8 0x53494D44 = ''0x53494D44''" "hex8 0 = ''0x00000000''" "hex8 1 = ''0x00000001''" "hex8 0xDEADBEEF = ''0xDEADBEEF''"
  by (simp_all add: hex8_def fmt_X_def hex.simps digit_upper_def pad_zero_def numeral_7)

text \<open>
  C30. Device and program together: the program reports an interrupt, with the number of interrupts so far, for each second in which the
  timer has fired, and stops after the tenth. The control and acknowledge registers are memory that the device does not look at: the status stays set after the
  acknowledgement, and when the program has disabled the device it is enabled, with its timer pending.
\<close>

theorem uio_session:
  assumes "sum_list (waited 0 fs) < 2 ^ 32"
  shows "\<exists>d. uio_sim_user_main fs uio_sim_start =
      ([''  Device ID:     0x53494D44'' @ NL, ''  Status:        0x00000000'' @ NL,
        ''  Control:       0x00000001'' @ NL, ''  Data readback: 0xDEADBEEF'' @ NL] @ irq_lines 0 0 fs @ [''  Device disabled.'' @ NL], d) \<and>
    get_reg REG_STATUS d = (if \<exists>f \<in> set (waited 0 fs). f \<noteq> 0 then 1 else 0) \<and> get_reg REG_CONTROL d = 0 \<and>
    enabled d \<and> armed d \<and> event d = word_of_nat (sum_list (waited 0 fs))"
proof -
  define r0 :: "u32 list" where "r0 = replicate 1024 0"
  define r where "r = r0[0 := 0x53494D44, 2 := 1, 3 := 0xDEADBEEF]"
  have start: "uio_sim_start = running (r0[0 := 0x53494D44]) 0"
    by (simp add: uio_sim_start_def running_def r0_def MEM_SIZE_def REG_ID_def)
  have set: "set_reg REG_DATA 0xDEADBEEF (set_reg REG_CONTROL 1 uio_sim_start) = running r 0"
    by (simp add: start set_reg_def running_def reg_offsets r_def)
  define any where "any = (\<exists>f \<in> set (waited 0 fs). f \<noteq> 0)"
  define n where "n = sum_list (waited 0 fs)"
  have loop: "uio_poll_loop fs 0 0 (running r 0) = (irq_lines 0 0 fs, running (if any then r[1 := 1, 4 := 1] else r) n)"
    using poll_loop_eq [of 0 0 fs r] assms by (simp add: any_def n_def)
  have len: "length r0 = 1024" by (simp add: r0_def)
  have regs: "get_reg REG_ID uio_sim_start = 0x53494D44" "get_reg REG_STATUS uio_sim_start = 0"
    "get_reg REG_CONTROL (set_reg REG_CONTROL 1 uio_sim_start) = 1" "get_reg REG_DATA (running r 0) = 0xDEADBEEF" "event uio_sim_start = 0"
    using len by (simp_all add: start get_reg_def set_reg_def running_def reg_offsets r_def) (simp_all add: r0_def)
  define d where "d = set_reg REG_CONTROL 0 (running (if any then r[1 := 1, 4 := 1] else r) n)"
  have "uio_sim_user_main fs uio_sim_start =
      ([''  Device ID:     0x53494D44'' @ NL, ''  Status:        0x00000000'' @ NL,
        ''  Control:       0x00000001'' @ NL, ''  Data readback: 0xDEADBEEF'' @ NL] @ irq_lines 0 0 fs @ [''  Device disabled.'' @ NL], d)"
    unfolding uio_sim_user_main_def Let_def set loop regs d_def by (simp add: set loop regs hex8_values)
  moreover have "get_reg REG_STATUS d = (if any then 1 else 0)" "get_reg REG_CONTROL d = 0"
    using len by (simp_all add: d_def get_reg_def set_reg_def running_def reg_offsets r_def) (simp add: r0_def)
  moreover have "enabled d" "armed d" "event d = word_of_nat n" by (simp_all add: d_def set_reg_def running_def)
  ultimately show ?thesis unfolding any_def n_def by blast
qed

text \<open>A session of four seconds, in which the timer fires once, not at all, twice and once.\<close>

lemma uio_session_witness:
  "\<exists>d out. uio_sim_user_main [1, 0, 2, 1] uio_sim_start = (out, d) \<and> enabled d \<and> event d = 4 \<and>
     drop 4 out = [''  IRQ #1 (kernel count: 1)'' @ NL, ''  (no interrupt in 1s)'' @ NL, ''  IRQ #2 (kernel count: 3)'' @ NL,
       ''  IRQ #3 (kernel count: 4)'' @ NL, ''  Device disabled.'' @ NL]"
proof -
  obtain d where "uio_sim_user_main [1, 0, 2, 1] uio_sim_start =
      ([''  Device ID:     0x53494D44'' @ NL, ''  Status:        0x00000000'' @ NL,
        ''  Control:       0x00000001'' @ NL, ''  Data readback: 0xDEADBEEF'' @ NL] @ irq_lines 0 0 [1, 0, 2, 1] @ [''  Device disabled.'' @ NL], d)"
    "enabled d" "event d = 4"
    using uio_session [of "[1, 0, 2, 1]"] by auto
  then show ?thesis by (simp add: fmt_d_def dec.simps digit_def)
qed

section \<open>Properties of uio_user\<close>

lemma uio_name_last: "CHR ''/'' \<notin> set name \<Longrightarrow> uio_name (pre @ CHR ''/'' # name) = name"
proof -
  assume "CHR ''/'' \<notin> set name"
  then have "takeWhile (\<lambda>c. c \<noteq> CHR ''/'') (rev name @ CHR ''/'' # rev pre) = rev name"
    by (subst takeWhile_append2) auto
  then show ?thesis by (simp add: uio_name_def)
qed

lemma uio_name_plain:
  assumes "CHR ''/'' \<notin> set name"
  shows "uio_name name = name"
proof -
  have "takeWhile (\<lambda>c. c \<noteq> CHR ''/'') (rev name) = rev name"
    using assms by (intro takeWhile_eq_all_conv [THEN iffD2]) auto
  then show ?thesis unfolding uio_name_def by (simp only: rev_rev_ident)
qed

text \<open>The buffer always holds a string that ends inside it, so the program prints for every file system.\<close>

lemma read_sysfs_attr_terminates:
  assumes "buf \<noteq> []"
  shows "\<exists>r b. read_sysfs_attr sysfs name attr buf = Some (r, b) \<and> length b = length buf \<and> (r = 0 \<longrightarrow> NUL \<in> set b)"
proof (cases "sysfs (take 255 (''/sys/class/uio/'' @ name @ ''/'' @ attr))")
  case None
  then show ?thesis by (simp add: read_sysfs_attr_def)
next
  case (Some content)
  define n where "n = length (take (length buf - 1) content)"
  define b1 where "b1 = (take n content @ drop n buf)[n := NUL]"
  define b2 where "b2 = (if 0 < n \<and> b1 ! (n - 1) = NL ! 0 then b1[n - 1 := NUL] else b1)"
  have n: "n < length buf" using assms by (cases buf) (simp_all add: n_def)
  have l: "length b1 = length buf" "length b2 = length buf" using n by (simp_all add: b1_def b2_def n_def)
  have "b1 ! n = NUL" using n l(1) unfolding b1_def by (simp add: n_def)
  then have "b2 ! n = NUL" using n l(1) by (simp add: b2_def nth_list_update)
  then have "NUL \<in> set b2" using n l(2) by (metis nth_mem)
  moreover have "read_sysfs_attr sysfs name attr buf = Some (0, b2)"
    unfolding read_sysfs_attr_def Let_def b2_def b1_def n_def using assms
    by (simp only: Some option.case length_0_conv simp_thms if_False)
  ultimately show ?thesis using l(2) by blast
qed

lemma print_sysfs_attrs_defined: "buf \<noteq> [] \<Longrightarrow> print_sysfs_attrs sysfs name attrs buf \<noteq> None"
proof (induction attrs arbitrary: buf)
  case (Cons a attrs)
  obtain label attr where a: "a = (label, attr)" by (cases a)
  obtain r b where b: "read_sysfs_attr sysfs name attr buf = Some (r, b)" "length b = length buf" "r = 0 \<longrightarrow> NUL \<in> set b"
    using read_sysfs_attr_terminates [OF Cons.prems] by blast
  have "b \<noteq> []" using b(2) Cons.prems by auto
  with Cons.IH [OF this] b show ?case by (auto simp: a print_sysfs_attr_def c_string_def)
qed simp

lemma print_uio_info_defined: "length junk = 256 \<Longrightarrow> print_uio_info sysfs junk name \<noteq> None"
  using print_sysfs_attrs_defined [of junk] unfolding print_uio_info_def by (cases "junk = []") (auto simp del: print_sysfs_attrs.simps)

lemma demo_timer_runs:
  "(uio_demo_timer ^^ f) uio_demo_start =
     uio_demo_start\<lparr>irqs := word_of_nat f, event := word_of_nat f, regs := (regs uio_demo_start)[1 := ucast (word_of_nat f :: u64)]\<rparr>"
  if "0 < f" for f
  using that
proof (induction f)
  case (Suc f)
  have [simp]: "armed uio_demo_start" "regs uio_demo_start ! 0 = DEMO_MAGIC" "irqs uio_demo_start = 0" "event uio_demo_start = 0"
    "(regs uio_demo_start)[0 := DEMO_MAGIC] = regs uio_demo_start"
    by (simp_all add: uio_demo_start_def MEM_SIZE_def)
  show ?case
  proof (cases "f = 0")
    case True
    then show ?thesis by (simp add: uio_demo_timer_def Let_def)
  next
    case False
    define u where "u = uio_demo_start\<lparr>irqs := word_of_nat f, event := word_of_nat f,
      regs := (regs uio_demo_start)[1 := ucast (word_of_nat f :: u64)]\<rparr>"
    have "(uio_demo_timer ^^ Suc f) uio_demo_start = uio_demo_timer u" using False Suc.IH by (simp add: u_def)
    also have "\<dots> = uio_demo_start\<lparr>irqs := word_of_nat (Suc f), event := word_of_nat (Suc f),
        regs := (regs uio_demo_start)[1 := ucast (word_of_nat (Suc f) :: u64)]\<rparr>"
      by (simp add: u_def uio_demo_timer_def Let_def list_update_swap [of "Suc 0" 0] add.commute)
    finally show ?thesis .
  qed
qed simp

lemma uio_user_reports:
  assumes "0 < f" and "f < 2 ^ 32"
  shows "\<exists>out d. uio_user_main f uio_demo_start = Some (out, d) \<and> hd out = ''    [00] = 0x44454D4F'' @ NL \<and>
    last out = ''  Interrupt received! Count: '' @ fmt_d (int f) @ NL \<and> armed d"
proof -
  have e: "event ((uio_demo_timer ^^ f) uio_demo_start) = word_of_nat f" using demo_timer_runs [OF assms(1)] by simp
  have "event uio_demo_start = 0" "regs uio_demo_start ! 0 = DEMO_MAGIC" by (simp_all add: uio_demo_start_def MEM_SIZE_def)
  moreover have "(word_of_nat f :: u32) \<noteq> 0" using word_event_eq [of 0 f] assms by simp
  moreover have "hex8 DEMO_MAGIC = ''0x44454D4F''"
    by (simp add: DEMO_MAGIC_def hex8_def fmt_X_def hex.simps digit_upper_def pad_zero_def)
  moreover have "pad_zero 2 (fmt_X 0) = ''00''" by (simp add: pad_zero_def fmt_X_def hex.simps digit_upper_def numeral_2_eq_2)
  ultimately show ?thesis using uint_event [OF assms(2)] by (simp add: uio_user_main_def e uio_demo_irqcontrol_def)
qed

end
