(* ===== verification/VirtualFiles.thy ===== *)
theory VirtualFiles
  imports CharDev Queues
begin

text \<open>
  The files in /proc and /sys: KernelProgramming/Handson/lab09_virtual_fs/procfs_demo.c,
  sysfs_demo.c and seqfile_demo.c, and the /proc front end of the kernel FIFO in
  KernelProgramming/Handson/lab16_data_structures/kfifo_demo.c. \<open>kstrtoint\<close>, \<open>jiffies\<close> and \<open>HZ\<close> are
  arguments. So is the kernel FIFO; where the code relies on it, that it is the bounded queue which its documentation describes is a hypothesis.
\<close>

section \<open>Shared steps\<close>

text \<open>The common end of the read handlers that send a text once, at offset 0.\<close>

definition text_reply :: "nat \<Rightarrow> int \<Rightarrow> string \<Rightarrow> (int \<times> u8 list) option" where
  "text_reply room count txt =
     (let len = int (length txt);
          n = (if len > count then count else len)
      in case copy_to_user room (text_bytes txt) 0 n of
           None \<Rightarrow> None
         | Some (ok, out) \<Rightarrow> Some (if ok then n else - EFAULT, out))"

text \<open>Terminating the string after \<open>count\<close> bytes and removing a trailing newline.\<close>

definition end_line :: "nat \<Rightarrow> u8 list \<Rightarrow> u8 list" where
  "end_line count buf =
     (let b = buf[count := 0]
      in if count > 0 \<and> b ! (count - 1) = 10 then b[count - 1 := 0] else b)"

definition strip_nl :: "u8 list \<Rightarrow> u8 list" where
  "strip_nl bs = (if bs \<noteq> [] \<and> last bs = 10 then butlast bs else bs)"

definition text_in :: "u8 list \<Rightarrow> u8 list" where
  "text_in buf = takeWhile (\<lambda>b. b \<noteq> 0) buf"

lemma text_in_upd: "n < length b \<Longrightarrow> text_in (b[n := 0]) = text_in (take n b)"
proof (induction b arbitrary: n)
  case (Cons x b)
  then show ?case by (cases n) (simp_all add: text_in_def)
qed simp

lemma text_in_end_line:
  assumes "count < length buf"
  shows "text_in (end_line count buf) = text_in (strip_nl (take count buf))"
proof -
  show ?thesis
  proof (cases count)
    case 0
    then show ?thesis using text_in_upd [of 0 buf] assms by (simp add: end_line_def strip_nl_def)
  next
    case (Suc k)
    have l: "take count buf = take k buf @ [buf ! k]" using assms Suc by (simp add: take_Suc_conv_app_nth)
    show ?thesis
    proof (cases "buf ! k = 10")
      case True
      then have "end_line count buf = (buf[count := 0])[k := 0]" using Suc by (simp add: end_line_def)
      moreover have "take k (buf[count := 0]) = take k buf" using Suc by simp
      ultimately show ?thesis using text_in_upd [of k "buf[count := 0]"] True assms Suc l by (simp add: strip_nl_def)
    next
      case False
      then have "end_line count buf = buf[count := 0]" using Suc by (simp add: end_line_def)
      then show ?thesis using text_in_upd [OF assms] False l by (simp add: strip_nl_def)
    qed
  qed
qed

lemma end_line_length [simp]: "length (end_line n b) = length b"
  by (simp add: end_line_def Let_def)

lemma end_line_last: "n < length b \<Longrightarrow> b ! i = 0 \<Longrightarrow> n \<le> i \<Longrightarrow> i < length b \<Longrightarrow> end_line n b ! i = 0"
  by (auto simp: end_line_def Let_def nth_list_update)

section \<open>procfs_demo\<close>

record procfs =
  config_buf :: "u8 list"
  read_count :: u64
  write_count :: u64

definition procfs_start :: procfs where
  "procfs_start = \<lparr>config_buf = text_bytes ''default_config'' @ replicate 242 0, read_count = 0, write_count = 0\<rparr>"

definition info_text :: "nat \<Rightarrow> nat \<Rightarrow> string" where
  "info_text jiffies HZ = ''Driver: procfs_demo'' @ NL @ ''Version: 1.0'' @ NL @
     ''Uptime: '' @ dec (jiffies div HZ) @ '' seconds'' @ NL @ ''HZ: '' @ dec HZ @ NL"

definition info_read :: "nat \<Rightarrow> nat \<Rightarrow> nat \<Rightarrow> int \<Rightarrow> int \<Rightarrow> procfs \<Rightarrow> (int \<times> u8 list \<times> int \<times> procfs) option" where
  "info_read jiffies HZ room count off s =
     (if off > 0 then Some (0, [], off, s)
      else case text_reply room count (info_text jiffies HZ) of
             None \<Rightarrow> None
           | Some (r, out) \<Rightarrow>
               if r < 0 then Some (r, out, off, s)
               else Some (r, out, off + r, s\<lparr>read_count := read_count s + 1\<rparr>))"

definition stats_text :: "procfs \<Rightarrow> string" where
  "stats_text s = ''Reads:  '' @ dec (unat (read_count s)) @ NL @ ''Writes: '' @ dec (unat (write_count s)) @ NL"

definition stats_read :: "nat \<Rightarrow> int \<Rightarrow> int \<Rightarrow> procfs \<Rightarrow> (int \<times> u8 list \<times> int \<times> procfs) option" where
  "stats_read room count off s =
     (if off > 0 then Some (0, [], off, s)
      else case text_reply room count (stats_text s) of
             None \<Rightarrow> None
           | Some (r, out) \<Rightarrow> Some (r, out, if r < 0 then off else off + r, s))"

definition config_read :: "nat \<Rightarrow> int \<Rightarrow> int \<Rightarrow> procfs \<Rightarrow> (int \<times> u8 list \<times> int \<times> procfs) option" where
  "config_read room count off s =
     (let len = int (strlen (config_buf s)) in
      if off \<ge> len then Some (0, [], off, s)
      else (let n = (if len - off > count then count else len - off) in
            case copy_to_user room (config_buf s) off n of
              None \<Rightarrow> None
            | Some (ok, out) \<Rightarrow> if ok then Some (n, out, off + n, s) else Some (- EFAULT, out, off, s)))"

definition config_write :: "u8 list \<Rightarrow> int \<Rightarrow> procfs \<Rightarrow> (int \<times> procfs) option" where
  "config_write user count s =
     (if count \<ge> 256 then Some (- EINVAL, s)
      else case copy_from_user user count (config_buf s) of
             None \<Rightarrow> None
           | Some (ok, buf) \<Rightarrow>
               if \<not> ok then Some (- EFAULT, s\<lparr>config_buf := buf\<rparr>)
               else Some (count, s\<lparr>config_buf := end_line (nat count) buf, write_count := write_count s + 1\<rparr>))"

definition config_ok :: "procfs \<Rightarrow> bool" where
  "config_ok s \<longleftrightarrow> length (config_buf s) = 256 \<and> config_buf s ! 255 = 0"

definition config_text :: "procfs \<Rightarrow> u8 list" where
  "config_text s = text_in (config_buf s)"

lemma config_text_take: "config_text s = take (strlen (config_buf s)) (config_buf s)"
  by (simp add: config_text_def text_in_def strlen_def takeWhile_eq_take [symmetric])

lemma config_text_length: "length (config_text s) = strlen (config_buf s)"
  by (simp add: config_text_def text_in_def strlen_def)

lemma config_strlen: "config_ok s \<Longrightarrow> strlen (config_buf s) \<le> 255"
  using strlen_at [of 255 "config_buf s"] by (simp add: config_ok_def)

interpretation config: file_reader config_read config_ok config_text
proof
  fix s :: procfs and off count :: int and room :: nat
  assume ok: "config_ok s" and a: "0 \<le> off" "0 \<le> count" "count < 2147483648" "count \<le> int room"
  let ?len = "int (strlen (config_buf s))" and ?out = "take (nat count) (drop (nat off) (config_text s))"
  show "config_read room count off s = Some (int (length ?out), ?out, off + int (length ?out), s)"
  proof (cases "off \<ge> ?len")
    case True
    then have "drop (nat off) (config_text s) = []" using a(1) by (simp add: config_text_length nat_le_iff)
    with True show ?thesis by (simp add: config_read_def)
  next
    case False
    let ?n = "if ?len - off > count then count else ?len - off"
    have n: "0 \<le> ?n" "?n \<le> int room" "off + ?n \<le> int (length (config_buf s))"
      using a False strlen_le [of "config_buf s"] by auto
    have "nat ?n = min (nat count) (strlen (config_buf s) - nat off)" using a False by (auto simp: min_def)
    then have out: "take (nat ?n) (drop (nat off) (config_buf s)) = ?out"
      by (simp add: config_text_take drop_take)
    have "int (length ?out) = ?n" using a False by (auto simp: config_text_length min_def)
    then show ?thesis
      using False copy_to_user_ok [OF a(1) n(1,3,2)] out by (simp add: config_read_def Let_def)
  qed
qed

lemma config_write_keeps:
  assumes "config_ok s" and "0 \<le> count"
  shows "\<exists>r s'. config_write user count s = Some (r, s') \<and> config_ok s'"
proof (cases "count \<ge> 256")
  case True
  then show ?thesis using assms by (simp add: config_write_def)
next
  case False
  have len: "length (config_buf s) = 256" "config_buf s ! 255 = 0" using assms(1) by (simp_all add: config_ok_def)
  obtain ok buf where c: "copy_from_user user count (config_buf s) = Some (ok, buf)"
    using False assms(2) len by (cases "copy_from_user user count (config_buf s)") (auto simp: copy_from_user_def split: if_splits)
  have n: "nat count \<le> 255" using False by simp
  have buf: "length buf = 256" "buf ! 255 = 0"
    using c len copy_from_user_length [OF c] n by (auto simp: copy_from_user_def nth_append split: if_splits)
  then have "end_line (nat count) buf ! 255 = 0" using n by (simp add: end_line_last)
  then show ?thesis using c False buf by (simp add: config_write_def config_ok_def)
qed

text \<open>
  The configuration file is safe and faithful: no write, whatever its length and whether or not
  it faults, leaves the buffer without a terminating NUL; and a write of up to 255 bytes is what a
  reader then gets, in chunks of any size, up to the first NUL and without one trailing newline.
\<close>

theorem config_roundtrip:
  assumes "config_ok s" and "0 \<le> count"
  shows "(\<exists>r s'. config_write user count s = Some (r, s') \<and> config_ok s') \<and>
    (count < 256 \<and> count \<le> int (length user) \<and> 0 < k \<and> int k < 2147483648 \<longrightarrow>
      (\<exists>s'. config_write user count s = Some (count, s') \<and>
        cat_from config_read 257 k 0 s' = Some (text_in (strip_nl (take (nat count) user)))))"
proof (intro conjI impI)
  show "\<exists>r s'. config_write user count s = Some (r, s') \<and> config_ok s'" by (rule config_write_keeps [OF assms])
  assume a: "count < 256 \<and> count \<le> int (length user) \<and> 0 < k \<and> int k < 2147483648"
  have len: "length (config_buf s) = 256" using assms(1) by (simp add: config_ok_def)
  let ?buf = "take (nat count) user @ drop (nat count) (config_buf s)"
  let ?s = "s\<lparr>config_buf := end_line (nat count) ?buf, write_count := write_count s + 1\<rparr>"
  have w: "config_write user count s = Some (count, ?s)"
    using a assms(2) len copy_from_user_ok [of count "config_buf s" user] by (simp add: config_write_def)
  then have ok: "config_ok ?s" using config_write_keeps [OF assms, of user] by simp
  have u: "length (take (nat count) user) = nat count" using a assms(2) by (simp add: min_def) linarith
  have "length ?buf = 256" "nat count < 256" using a assms(2) len u by (simp_all only: length_append length_drop) linarith+
  then have "nat count < length ?buf" by (simp only:)
  moreover have "config_text ?s = text_in (end_line (nat count) ?buf)" by (simp add: config_text_def)
  ultimately have "config_text ?s = text_in (strip_nl (take (nat count) ?buf))" by (simp only: text_in_end_line)
  also have "take (nat count) ?buf = take (nat count) user" using u by simp
  finally have t: "config_text ?s = text_in (strip_nl (take (nat count) user))" .
  have "length (drop 0 (config_text ?s)) < 257"
    using config_strlen [OF ok] by (simp add: config_text_length del: select_convs update_convs)
  with config.cat_content [OF ok, of k 0 257] a t
  have "cat_from config_read 257 k 0 ?s = Some (text_in (strip_nl (take (nat count) user)))"
    by (simp del: procfs.simps)
  with w show "\<exists>s'. config_write user count s = Some (count, s') \<and>
        cat_from config_read 257 k 0 s' = Some (text_in (strip_nl (take (nat count) user)))" by blast
qed

theorem config_roundtrip_witness:
  "\<exists>s'. config_write [102, 97, 115, 116, 10] 5 procfs_start = Some (5, s') \<and>
     cat_from config_read 257 3 0 s' = Some [102, 97, 115, 116]"
proof -
  have "config_ok procfs_start" by code_simp
  from config_roundtrip [OF this, of 5 "[102, 97, 115, 116, 10]" 3] show ?thesis
    by (simp add: text_in_def strip_nl_def)
qed

section \<open>sysfs_demo\<close>

record sysfs =
  device_value :: int
  device_status :: "u8 list"

definition sysfs_start :: sysfs where
  "sysfs_start = \<lparr>device_value = 0, device_status = text_bytes ''idle'' @ replicate 60 0\<rparr>"

text \<open>\<open>strncpy\<close>: the string up to its NUL or \<open>n\<close> bytes, padded with zeros.\<close>

definition strncpy :: "u8 list \<Rightarrow> u8 list \<Rightarrow> nat \<Rightarrow> u8 list" where
  "strncpy dst src n = take n (text_in src @ replicate n 0) @ drop n dst"

definition value_show :: "sysfs \<Rightarrow> string" where
  "value_show s = fmt_d (device_value s) @ NL"

definition value_store :: "(string \<Rightarrow> int + int) \<Rightarrow> string \<Rightarrow> int \<Rightarrow> sysfs \<Rightarrow> int \<times> sysfs" where
  "value_store kstrtoint buf count s =
     (case kstrtoint buf of
        Inl err \<Rightarrow> (err, s)
      | Inr v \<Rightarrow> (count, s\<lparr>device_value := v\<rparr>))"

definition status_show :: "sysfs \<Rightarrow> string" where
  "status_show s = map chr8 (text_in (device_status s)) @ NL"

definition status_store :: "u8 list \<Rightarrow> int \<Rightarrow> sysfs \<Rightarrow> int \<times> sysfs" where
  "status_store buf count s =
     (if count \<ge> 64 then (- EINVAL, s)
      else (count, s\<lparr>device_status := end_line (nat count) (strncpy (device_status s) buf (nat count))\<rparr>))"

lemma status_store_show:
  assumes "length (device_status s) = 64" and "0 \<le> count" and "count < 64" and "count \<le> int (length buf)" and "0 \<notin> set buf"
  shows "fst (status_store buf count s) = count \<and>
    length (device_status (snd (status_store buf count s))) = 64 \<and>
    status_show (snd (status_store buf count s)) = map chr8 (strip_nl (take (nat count) buf)) @ NL"
proof -
  let ?n = "nat count" and ?d = "strncpy (device_status s) buf (nat count)"
  have n: "?n \<le> length buf" "?n < 64" using assms(3,4) by linarith+
  have t: "text_in buf = buf" using assms(5) by (auto simp: text_in_def takeWhile_eq_all_conv)
  then have d: "length ?d = 64" "take ?n ?d = take ?n buf"
    using n assms(1) by (simp_all add: strncpy_def)
  have "text_in (end_line ?n ?d) = text_in (strip_nl (take ?n buf))"
    using text_in_end_line [of ?n ?d] d n by simp
  also have "\<dots> = strip_nl (take ?n buf)"
  proof -
    have "set (strip_nl (take ?n buf)) \<subseteq> set buf"
      by (auto simp: strip_nl_def dest!: in_set_butlastD in_set_takeD)
    then show ?thesis using assms(5) by (auto simp: text_in_def takeWhile_eq_all_conv)
  qed
  finally show ?thesis using assms(3) d by (simp add: status_store_def status_show_def)
qed

section \<open>seqfile_demo\<close>

record my_data =
  d_id :: int
  d_name :: string
  d_value :: u64

definition seqfile_data :: "u64 \<Rightarrow> my_data list" where
  "seqfile_data jiffies = map (\<lambda>i. \<lparr>d_id = int i, d_name = take 31 (''item_'' @ pad_zero 3 (dec i)),
     d_value = jiffies + word_of_nat (i * 100)\<rparr>) [0..<50]"

definition my_seq_start :: "my_data list \<Rightarrow> nat \<Rightarrow> my_data option" where
  "my_seq_start data pos = (if pos \<ge> 50 then None else Some (data ! pos))"

definition my_seq_next :: "my_data list \<Rightarrow> nat \<Rightarrow> my_data option \<times> nat" where
  "my_seq_next data pos = (let p = pos + 1 in (if p \<ge> 50 then None else Some (data ! p), p))"

definition my_seq_show :: "my_data \<Rightarrow> string" where
  "my_seq_show item = ''['' @ pad_left 3 (fmt_d (d_id item)) @ ''] '' @ pad_right 20 (d_name item) @ '' '' @
     dec (unat (d_value item)) @ NL"

text \<open>A reader that shows items until \<open>next\<close> gives none, from any position it starts at.\<close>

fun seq_lines :: "nat \<Rightarrow> my_data list \<Rightarrow> my_data option \<Rightarrow> nat \<Rightarrow> string list option" where
  "seq_lines _ data None pos = Some []"
| "seq_lines 0 data (Some d) pos = None"
| "seq_lines (Suc fuel) data (Some d) pos =
     (case my_seq_next data pos of (v, p) \<Rightarrow> map_option ((#) (my_seq_show d)) (seq_lines fuel data v p))"

lemma seq_lines_all:
  assumes "length data = 50"
  shows "pos < 50 \<Longrightarrow> seq_lines (50 - pos) data (Some (data ! pos)) pos = Some (map my_seq_show (drop pos data))"
proof (induction "50 - pos" arbitrary: pos)
  case (Suc n)
  have d: "drop pos data = data ! pos # drop (Suc pos) data" using assms Suc.prems by (simp add: Cons_nth_drop_Suc)
  show ?case
  proof (cases "Suc pos < 50")
    case True
    then have "n = 50 - Suc pos" using Suc.hyps(2) by simp
    with Suc.hyps(1) [OF this True] d True show ?thesis
      by (simp add: my_seq_next_def Suc.hyps(2) [symmetric] Let_def)
  next
    case False
    then have "pos = 49" using Suc.prems by simp
    then show ?thesis using assms d by (simp add: my_seq_next_def)
  qed
qed simp

lemma seqfile_resumes: "pos < 50 \<Longrightarrow>
    seq_lines (50 - pos) (seqfile_data j) (my_seq_start (seqfile_data j) pos) pos = Some (map my_seq_show (drop pos (seqfile_data j)))"
  using seq_lines_all [of "seqfile_data j" pos] by (simp add: my_seq_start_def seqfile_data_def)

section \<open>kfifo_demo\<close>

definition FIFO_SIZE :: nat where "FIFO_SIZE = 64"

text \<open>The operations of the kernel FIFO that the code calls, on its state; \<open>kfifo_get\<close> gives \<open>None\<close> where it returns 0.\<close>

record 'q kfifo_ops =
  kfifo_is_full :: "'q \<Rightarrow> bool"
  kfifo_is_empty :: "'q \<Rightarrow> bool"
  kfifo_put :: "int \<Rightarrow> 'q \<Rightarrow> 'q"
  kfifo_get :: "'q \<Rightarrow> (int \<times> 'q) option"

definition fifo_write ::
  "'q kfifo_ops \<Rightarrow> (string \<Rightarrow> int + int) \<Rightarrow> u8 list \<Rightarrow> u8 list \<Rightarrow> int \<Rightarrow> 'q \<Rightarrow> (int \<times> 'q) option" where
  "fifo_write K kstrtoint kbuf user count q =
     (if count \<ge> 32 then Some (- EINVAL, q)
      else case copy_from_user user count kbuf of
             None \<Rightarrow> None
           | Some (ok, buf) \<Rightarrow>
               if \<not> ok then Some (- EFAULT, q)
               else (case c_string (map chr8 (buf[nat count := 0])) of
                       None \<Rightarrow> None
                     | Some str \<Rightarrow>
                         (case kstrtoint str of
                            Inl err \<Rightarrow> Some (err, q)
                          | Inr v \<Rightarrow>
                              if kfifo_is_full K q then Some (- ENOSPC, q)
                              else Some (count, kfifo_put K v q))))"

definition fifo_read :: "'q kfifo_ops \<Rightarrow> nat \<Rightarrow> int \<Rightarrow> int \<Rightarrow> 'q \<Rightarrow> (int \<times> u8 list \<times> int \<times> 'q) option" where
  "fifo_read K room count off q =
     (if off > 0 then Some (0, [], off, q)
      else if kfifo_is_empty K q then Some (0, [], off, q)
      else (case kfifo_get K q of
              None \<Rightarrow> Some (0, [], off, q)
            | Some (v, q') \<Rightarrow>
                (case text_reply room count (take 31 (fmt_d v @ NL)) of
                   None \<Rightarrow> None
                 | Some (r, out) \<Rightarrow> Some (r, out, if r < 0 then off else off + r, q'))))"

text \<open>The FIFO after \<open>kfifo_demo_init\<close>: five values are put in, two taken out.\<close>

definition kfifo_demo_init_fifo :: "'q kfifo_ops \<Rightarrow> 'q \<Rightarrow> 'q" where
  "kfifo_demo_init_fifo K q0 =
     (let q5 = fold (\<lambda>i. kfifo_put K (int i * 10)) [1..<6] q0;
          taken = (\<lambda>q. case kfifo_get K q of None \<Rightarrow> q | Some (v, q') \<Rightarrow> q')
      in taken (taken q5))"

text \<open>
  A session of writes of decimal numbers and reads, each on a fresh descriptor: the results of the calls, with the text that a read delivers, and the
  FIFO.
\<close>

fun fifo_session ::
  "'q kfifo_ops \<Rightarrow> (string \<Rightarrow> int + int) \<Rightarrow> nat \<Rightarrow> int qop list \<Rightarrow> 'q \<Rightarrow> ((int \<times> string) list \<times> 'q) option" where
  "fifo_session K kst room [] q = Some ([], q)"
| "fifo_session K kst room (Enter v # ops) q =
     (case fifo_write K kst (replicate 32 0) (text_bytes (fmt_d v)) (int (length (fmt_d v))) q of
        None \<Rightarrow> None
      | Some (r, q') \<Rightarrow> map_option (\<lambda>(rs, t). ((r, []) # rs, t)) (fifo_session K kst room ops q'))"
| "fifo_session K kst room (Leave # ops) q =
     (case fifo_read K room (int room) 0 q of
        None \<Rightarrow> None
      | Some (r, out, _, q') \<Rightarrow> map_option (\<lambda>(rs, t). ((r, map chr8 out) # rs, t)) (fifo_session K kst room ops q'))"

text \<open>What a session is to return, from the values that the FIFO holds, and which it holds at the end.\<close>

fun fifo_expected :: "int qop list \<Rightarrow> int list \<Rightarrow> (int \<times> string) list \<times> int list" where
  "fifo_expected [] xs = ([], xs)"
| "fifo_expected (Enter v # ops) xs =
     (if length xs = FIFO_SIZE then (case fifo_expected ops xs of (rs, t) \<Rightarrow> ((- ENOSPC, []) # rs, t))
      else (case fifo_expected ops (xs @ [v]) of (rs, t) \<Rightarrow> ((int (length (fmt_d v)), []) # rs, t)))"
| "fifo_expected (Leave # ops) [] = (case fifo_expected ops [] of (rs, t) \<Rightarrow> ((0, []) # rs, t))"
| "fifo_expected (Leave # ops) (x # xs) =
     (case fifo_expected ops xs of (rs, t) \<Rightarrow> ((int (length (fmt_d x @ NL)), fmt_d x @ NL) # rs, t))"

lemma dec_length: "n < 10 ^ k \<Longrightarrow> 0 < k \<Longrightarrow> length (dec n) \<le> k"
proof (induction k arbitrary: n)
  case (Suc k)
  show ?case
  proof (cases "n < 10")
    case True
    then show ?thesis by (subst dec.simps) simp
  next
    case False
    then have "0 < k" using Suc.prems(1) by (cases k) auto
    moreover have "n div 10 < 10 ^ k" using Suc.prems(1) by (simp add: div_less_iff_less_mult mult.commute)
    ultimately have "length (dec (n div 10)) \<le> k" using Suc.IH by blast
    with False show ?thesis by (subst dec.simps) simp
  qed
qed simp

lemma fmt_d_length:
  assumes "fits_s32 v"
  shows "length (fmt_d v) \<le> 11"
proof -
  have "nat v < 10 ^ 10" "nat (- v) < 10 ^ 10" using assms by (simp_all add: fits_s32_def) linarith+
  from dec_length [OF this(1)] dec_length [OF this(2)] show ?thesis by (simp add: fmt_d_def)
qed

lemma fmt_d_no_nul: "NUL \<notin> set (fmt_d v)"
  using dec_digits [of NUL "nat v"] dec_digits [of NUL "nat (- v)"] by (auto simp: fmt_d_def is_digit_def)

lemma kbuf_string:
  assumes "length t < 32" and "NUL \<notin> set t"
  shows "c_string (map chr8 ((text_bytes t @ drop (length t) (replicate 32 0))[length t := 0])) = Some t"
proof -
  have "drop (length t) (replicate 32 (0 :: u8)) = 0 # replicate (31 - length t) 0"
    using assms(1) by (simp add: numeral_eq_Suc Suc_diff_le flip: replicate_Suc)
  then have "(text_bytes t @ drop (length t) (replicate 32 0))[length t := 0] = text_bytes t @ 0 # replicate (31 - length t) 0"
    using list_update_length [of "text_bytes t"] by (metis text_bytes_length)
  moreover have "map chr8 (text_bytes t) = t" by (simp add: text_bytes_def o_def)
  moreover have nul: "chr8 0 = NUL" by (simp add: chr8_def) code_simp
  ultimately show ?thesis using c_string_terminated [OF assms(2)] nul by simp
qed

text \<open>What the documentation says of the kernel FIFO, with the values that it holds.\<close>

abbreviation (input) kfifo_laws :: "'q kfifo_ops \<Rightarrow> ('q \<Rightarrow> bool) \<Rightarrow> ('q \<Rightarrow> int list) \<Rightarrow> bool" where
  "kfifo_laws K ok held \<equiv> bounded_fifo ok held (kfifo_is_full K) (kfifo_is_empty K) (kfifo_put K) (kfifo_get K) FIFO_SIZE"

lemmas kfifo_full = bounded_fifo.full_law
lemmas kfifo_put_last = bounded_fifo.put_last
lemmas kfifo_get_first = bounded_fifo.get_first
lemmas kfifo_empty = fifo_queue.emp_law [OF bounded_fifo.axioms(1)]

lemma fifo_write_ok:
  assumes "fits_s32 v" and "kst (fmt_d v) = Inr v"
  shows "fifo_write K kst (replicate 32 0) (text_bytes (fmt_d v)) (int (length (fmt_d v))) q =
    Some (if kfifo_is_full K q then (- ENOSPC, q) else (int (length (fmt_d v)), kfifo_put K v q))"
proof -
  let ?t = "fmt_d v"
  have n: "length ?t < 32" using fmt_d_length [OF assms(1)] by simp
  have "copy_from_user (text_bytes ?t) (int (length ?t)) (replicate 32 0) =
      Some (True, text_bytes ?t @ drop (length ?t) (replicate 32 0))"
    using n copy_from_user_ok [of "int (length ?t)" "replicate 32 0" "text_bytes ?t"] by simp
  then show ?thesis using n kbuf_string [OF n fmt_d_no_nul] assms(2) by (simp add: fifo_write_def)
qed

lemma text_reply_ok:
  "length txt \<le> room \<Longrightarrow> text_reply room (int room) txt = Some (int (length txt), text_bytes txt)"
  using copy_to_user_ok [of 0 "int (length txt)" "text_bytes txt" room] by (simp add: text_reply_def)

lemma fifo_read_ok:
  assumes "fits_s32 v" and "12 \<le> room" and "\<not> kfifo_is_empty K q" and "kfifo_get K q = Some (v, q')"
  shows "fifo_read K room (int room) 0 q =
    Some (int (length (fmt_d v @ NL)), text_bytes (fmt_d v @ NL), int (length (fmt_d v @ NL)), q')"
  using fmt_d_length [OF assms(1)] assms(2-4) text_reply_ok [of "fmt_d v @ NL" room]
  by (simp add: fifo_read_def NL_def)

lemma chr_text: "map chr8 (text_bytes x) = x"
  by (simp add: text_bytes_def o_def)

text \<open>
  C16. The kernel FIFO behind its /proc file, for any FIFO that does what the documentation says: however writes of 32-bit numbers and reads with enough
  room are mixed, a write returns its length and the value is held last, unless 64 values are held: then it returns -ENOSPC and changes nothing. A
  read returns the decimal text of the oldest value with its length, and this value is no longer held; it returns 0 if none is held. So no accepted value is lost or
  reordered.
\<close>

theorem kfifo_session_fifo:
  assumes "kfifo_laws K ok held" and "\<And>v. fits_s32 v \<Longrightarrow> kst (fmt_d v) = Inr v" and "12 \<le> room"
  shows "ok q \<Longrightarrow> list_all fits_s32 (held q) \<Longrightarrow> (\<And>v. Enter v \<in> set ops \<Longrightarrow> fits_s32 v) \<Longrightarrow>
    \<exists>t. fifo_session K kst room ops q = Some (fst (fifo_expected ops (held q)), t) \<and> ok t \<and> held t = snd (fifo_expected ops (held q))"
proof (induction ops "held q" arbitrary: q rule: fifo_expected.induct)
  case (2 v ops)
  have v: "fits_s32 v" using "2.prems"(3) by simp
  note w = fifo_write_ok [of v kst K q, OF v assms(2) [OF v]]
  show ?case
  proof (cases "length (held q) = FIFO_SIZE")
    case True
    then have "kfifo_is_full K q" using kfifo_full [OF assms(1) "2.prems"(1)] by simp
    moreover obtain t where "fifo_session K kst room ops q = Some (fst (fifo_expected ops (held q)), t)" "ok t" "held t = snd (fifo_expected ops (held q))"
      using "2.hyps"(1) [OF True refl "2.prems"(1,2)] "2.prems"(3) by auto
    ultimately show ?thesis using w True by (auto split: prod.split)
  next
    case False
    then have f: "\<not> kfifo_is_full K q" "length (held q) < FIFO_SIZE"
      using kfifo_full [OF assms(1) "2.prems"(1)] bounded_fifo.cap_law [OF assms(1) "2.prems"(1)] by auto
    then have p: "ok (kfifo_put K v q) \<and> held (kfifo_put K v q) = held q @ [v]" using kfifo_put_last [OF assms(1) "2.prems"(1)] by blast
    then obtain t where "fifo_session K kst room ops (kfifo_put K v q) = Some (fst (fifo_expected ops (held q @ [v])), t)" "ok t"
      "held t = snd (fifo_expected ops (held q @ [v]))"
      using "2.hyps"(2) [OF False, of "kfifo_put K v q"] "2.prems" v by auto
    then show ?thesis using w f False by (auto split: prod.split)
  qed
next
  case (3 ops)
  then have "fifo_read K room (int room) 0 q = Some (0, [], 0, q)" using kfifo_empty [OF assms(1), of q] by (simp add: fifo_read_def)
  then show ?case using "3.hyps"(1) [OF "3.hyps"(2)] "3.prems" by (auto simp flip: "3.hyps"(2) split: prod.split)
next
  case (4 ops x xs)
  obtain q' where q': "kfifo_get K q = Some (x, q')" "ok q'" "held q' = xs"
    using kfifo_get_first [OF assms(1) "4.prems"(1) "4.hyps"(2) [symmetric]] by blast
  have x: "fits_s32 x" "list_all fits_s32 xs" using "4.prems"(2) by (simp_all flip: "4.hyps"(2))
  have "fifo_read K room (int room) 0 q = Some (int (length (fmt_d x @ NL)), text_bytes (fmt_d x @ NL), int (length (fmt_d x @ NL)), q')"
    using kfifo_empty [OF assms(1) "4.prems"(1)] q'(1) by (intro fifo_read_ok x assms(3)) (simp_all flip: "4.hyps"(2))
  moreover obtain t where "fifo_session K kst room ops q' = Some (fst (fifo_expected ops xs), t)" "ok t" "held t = snd (fifo_expected ops xs)"
    using "4.hyps"(1) [OF q'(3) [symmetric]] q' x "4.prems"(3) by auto
  ultimately show ?case by (auto simp: chr_text simp flip: "4.hyps"(2) split: prod.split)
qed simp

text \<open>A conversion that reads back what \<open>fmt_d\<close> writes.\<close>

definition sample_kstrtoint :: "string \<Rightarrow> int + int" where
  "sample_kstrtoint str =
     (if str \<noteq> [] \<and> hd str = CHR ''-'' then Inr (- int (undec (tl str))) else Inr (int (undec str)))"

lemma sample_kstrtoint_fmt: "sample_kstrtoint (fmt_d v) = Inr v"
proof -
  have "hd (dec n) \<noteq> CHR ''-''" for n
    using dec_digits [of "hd (dec n)" n] dec_nonempty [of n] by (auto simp: is_digit_def)
  then show ?thesis by (simp add: sample_kstrtoint_def fmt_d_def dec_nonempty undec_dec)
qed

text \<open>A FIFO that is a list.\<close>

definition list_fifo :: "int list kfifo_ops" where
  "list_fifo = \<lparr>kfifo_is_full = (\<lambda>q. length q = FIFO_SIZE), kfifo_is_empty = (\<lambda>q. q = []), kfifo_put = (\<lambda>v q. q @ [v]),
     kfifo_get = (\<lambda>q. if q = [] then None else Some (hd q, tl q))\<rparr>"

lemma list_fifo_laws: "kfifo_laws list_fifo (\<lambda>q. length q \<le> FIFO_SIZE) (\<lambda>q. q)"
  by unfold_locales (auto simp: list_fifo_def)

theorem kfifo_session_fifo_witness:
  "fifo_session list_fifo sample_kstrtoint 20 [Enter 7, Leave, Leave] (kfifo_demo_init_fifo list_fifo []) =
     Some ([(1, []), (3, ''30'' @ NL), (3, ''40'' @ NL)], [50, 7])"
proof -
  have i: "kfifo_demo_init_fifo list_fifo [] = [30, 40, 50]" by code_simp
  have e: "fifo_expected [Enter 7, Leave, Leave] [30, 40, 50] = ([(1, []), (3, ''30'' @ NL), (3, ''40'' @ NL)], [50, 7])" by code_simp
  have "\<exists>t. fifo_session list_fifo sample_kstrtoint 20 [Enter 7, Leave, Leave] [30, 40, 50] =
      Some (fst (fifo_expected [Enter 7, Leave, Leave] [30, 40, 50]), t) \<and> length t \<le> FIFO_SIZE \<and> t = snd (fifo_expected [Enter 7, Leave, Leave] [30, 40, 50])"
    by (rule kfifo_session_fifo [OF list_fifo_laws]) (auto simp: sample_kstrtoint_fmt fits_s32_def FIFO_SIZE_def)
  then show ?thesis by (simp only: i e fst_conv snd_conv) blast
qed

text \<open>
  A read that cannot be delivered destroys data: when the user buffer faults the value has already
  been taken out of the FIFO, and a read with a short count delivers a prefix of the text while the
  whole value is gone.
\<close>

theorem fifo_read_loses:
  assumes "fits_s32 v" and "0 \<le> count" and "count \<le> int (length (fmt_d v))"
    and "\<not> kfifo_is_empty K q" and "kfifo_get K q = Some (v, rest)"
  shows "fifo_read K room count 0 q =
    (if int room < count then Some (- EFAULT, take room (text_bytes (fmt_d v @ NL)), 0, rest)
     else Some (count, take (nat count) (text_bytes (fmt_d v)), count, rest))"
proof -
  let ?t = "fmt_d v @ NL"
  have len: "length ?t \<le> 31" using fmt_d_length [OF assms(1)] by (simp add: NL_def)
  have n: "int (length ?t) > count" "nat count \<le> length (fmt_d v)" using assms(2,3) by (simp_all add: NL_def)
  have g: "get_bytes 0 count (text_bytes ?t) = Some (take (nat count) (text_bytes (fmt_d v)))"
    using n assms(2,3) by (simp add: get_bytes_def text_bytes_def NL_def)
  have "take room (take (nat count) (text_bytes (fmt_d v))) = take room (text_bytes ?t)" if "int room < count"
  proof -
    have "room \<le> length (fmt_d v)" "room \<le> nat count" using that n(2) by linarith+
    then show ?thesis by (simp add: text_bytes_def min_def)
  qed
  with g n assms(2,4,5) len show ?thesis
    by (auto simp: fifo_read_def text_reply_def copy_to_user_def Let_def)
qed

theorem fifo_read_loses_witness:
  "fifo_read list_fifo 0 1 0 [7, 8] = Some (- EFAULT, [], 0, [8])"
  using fifo_read_loses [of 7 1 list_fifo "[7, 8]" "[8]" 0] by (simp add: fits_s32_def fmt_d_def dec.simps list_fifo_def)

end
