(* ===== verification/WorkQueue.thy ===== *)
theory WorkQueue
  imports Bytes
begin

text \<open>
  KernelProgramming/Handson/lab12_bottom_halves/workqueue_demo.c: a static work item, a delayed one and an allocated one on a work queue of the module and
  on that of the system. The module (init, then exit at any time), the worker of either queue and the timer of the delayed item take turns. The work queues behave as
  documented: an item that is pending is not queued again, an item that runs is queued to the worker that runs it, an item stops being pending when its
  function starts, and cancelling waits for a function that runs. Process and CPU numbers are left out of the log.
\<close>

section \<open>State\<close>

datatype work_item = My_Work | My_Delayed | Dyn_Work

datatype dyn_mem = Not_Allocated | Allocated int | Released

datatype wq_place =
    M_Create | M_Queue | M_Delay | M_Sched | M_Alloc | M_Dyn | M_Loaded
  | M_Cancel_Wait | M_Cancel_Delayed | M_Delayed_Wait | M_Flush | M_Gone

text \<open>A running item comes with whether its function is still at its beginning.\<close>

record wq_state =
  place :: wq_place
  on_my :: "work_item list"
  on_sys :: "work_item list"
  run_my :: "(work_item \<times> bool) option"
  run_sys :: "(work_item \<times> bool) option"
  armed :: bool
  dyn :: dyn_mem
  work_count :: nat
  wlog :: "string list"

definition wq_start :: wq_state where
  "wq_start = \<lparr>place = M_Create, on_my = [], on_sys = [], run_my = None, run_sys = None, armed = False, dyn = Not_Allocated, work_count = 0, wlog = []\<rparr>"

datatype stepped = Blocked | Undefined | Next wq_state

definition is_pending :: "work_item \<Rightarrow> wq_state \<Rightarrow> bool" where
  "is_pending w s \<longleftrightarrow> w \<in> set (on_my s) \<or> w \<in> set (on_sys s)"

definition runs_on :: "work_item \<Rightarrow> (work_item \<times> bool) option \<Rightarrow> bool" where
  "runs_on w r \<longleftrightarrow> (case r of None \<Rightarrow> False | Some (v, _) \<Rightarrow> v = w)"

section \<open>The queues\<close>

text \<open>\<open>queue_work\<close> on the queue of the module, and \<open>schedule_work\<close>.\<close>

definition queue_my :: "work_item \<Rightarrow> wq_state \<Rightarrow> wq_state" where
  "queue_my w s =
     (if is_pending w s then s
      else if runs_on w (run_sys s) then s\<lparr>on_sys := on_sys s @ [w]\<rparr>
      else s\<lparr>on_my := on_my s @ [w]\<rparr>)"

definition schedule_work :: "work_item \<Rightarrow> wq_state \<Rightarrow> wq_state" where
  "schedule_work w s =
     (if is_pending w s then s
      else if runs_on w (run_my s) then s\<lparr>on_my := on_my s @ [w]\<rparr>
      else s\<lparr>on_sys := on_sys s @ [w]\<rparr>)"

section \<open>The functions of the items\<close>

definition my_work_fn :: "bool \<Rightarrow> wq_state \<Rightarrow> wq_state" where
  "my_work_fn beginning s =
     (if beginning then
        s\<lparr>work_count := work_count s + 1, wlog := wlog s @ [''Work #'' @ fmt_u (int (work_count s + 1)) @ '' executing'']\<rparr>
      else s\<lparr>wlog := wlog s @ [''Work #'' @ fmt_u (int (work_count s)) @ '' completed after 100ms sleep'']\<rparr>)"

definition my_delayed_fn :: "wq_state \<Rightarrow> wq_state" where
  "my_delayed_fn s = s\<lparr>wlog := wlog s @ [''Delayed work executed'']\<rparr>"

definition dynamic_work_fn :: "wq_state \<Rightarrow> wq_state option" where
  "dynamic_work_fn s = (case dyn s of
     Allocated d \<Rightarrow> Some (s\<lparr>wlog := wlog s @ [''Dynamic work with data='' @ fmt_d d], dyn := Released\<rparr>)
   | _ \<Rightarrow> None)"

text \<open>A step of the function that a worker runs: the state, and what the worker runs then. Once the module is gone there is no function to run.\<close>

definition run_item :: "work_item \<Rightarrow> bool \<Rightarrow> wq_state \<Rightarrow> (wq_state \<times> (work_item \<times> bool) option) option" where
  "run_item w beginning s =
     (if place s = M_Gone then None
      else case w of
        My_Work \<Rightarrow> Some (my_work_fn beginning s, if beginning then Some (My_Work, False) else None)
      | My_Delayed \<Rightarrow> Some (my_delayed_fn s, None)
      | Dyn_Work \<Rightarrow> map_option (\<lambda>t. (t, None)) (dynamic_work_fn s))"

definition my_worker :: "wq_state \<Rightarrow> stepped" where
  "my_worker s = (case run_my s of
     None \<Rightarrow> (case on_my s of [] \<Rightarrow> Blocked | w # ws \<Rightarrow> Next (s\<lparr>on_my := ws, run_my := Some (w, True)\<rparr>))
   | Some (w, b) \<Rightarrow> (case run_item w b s of None \<Rightarrow> Undefined | Some (t, r) \<Rightarrow> Next (t\<lparr>run_my := r\<rparr>)))"

definition sys_worker :: "wq_state \<Rightarrow> stepped" where
  "sys_worker s = (case run_sys s of
     None \<Rightarrow> (case on_sys s of [] \<Rightarrow> Blocked | w # ws \<Rightarrow> Next (s\<lparr>on_sys := ws, run_sys := Some (w, True)\<rparr>))
   | Some (w, b) \<Rightarrow> (case run_item w b s of None \<Rightarrow> Undefined | Some (t, r) \<Rightarrow> Next (t\<lparr>run_sys := r\<rparr>)))"

definition delay_timer :: "wq_state \<Rightarrow> stepped" where
  "delay_timer s = (if armed s then Next ((s\<lparr>armed := False, on_my := on_my s @ [My_Delayed]\<rparr>)) else Blocked)"

section \<open>Init and exit\<close>

text \<open>\<open>ok\<close> is whether the next allocation succeeds; without the queue, the module is not loaded.\<close>

definition workqueue_demo_init :: "bool \<Rightarrow> wq_state \<Rightarrow> stepped" where
  "workqueue_demo_init ok s = (case place s of
     M_Create \<Rightarrow> Next (s\<lparr>place := (if ok then M_Queue else M_Gone)\<rparr>)
   | M_Queue \<Rightarrow> Next ((queue_my My_Work s)\<lparr>place := M_Delay\<rparr>)
   | M_Delay \<Rightarrow> Next (if is_pending My_Delayed s then s\<lparr>place := M_Sched\<rparr> else s\<lparr>armed := True, place := M_Sched\<rparr>)
   | M_Sched \<Rightarrow> Next ((schedule_work My_Work s)\<lparr>place := M_Alloc\<rparr>)
   | M_Alloc \<Rightarrow> Next (if ok then s\<lparr>dyn := Allocated 42, place := M_Dyn\<rparr> else s\<lparr>place := M_Loaded\<rparr>)
   | M_Dyn \<Rightarrow> Next ((queue_my Dyn_Work s)\<lparr>place := M_Loaded\<rparr>)
   | _ \<Rightarrow> Blocked)"

definition workqueue_demo_exit :: "wq_state \<Rightarrow> stepped" where
  "workqueue_demo_exit s = (case place s of
     M_Loaded \<Rightarrow> Next (s\<lparr>on_my := removeAll My_Work (on_my s), on_sys := removeAll My_Work (on_sys s), place := M_Cancel_Wait\<rparr>)
   | M_Cancel_Wait \<Rightarrow> if runs_on My_Work (run_my s) \<or> runs_on My_Work (run_sys s) then Blocked else Next (s\<lparr>place := M_Cancel_Delayed\<rparr>)
   | M_Cancel_Delayed \<Rightarrow> Next (s\<lparr>armed := False, on_my := removeAll My_Delayed (on_my s), place := M_Delayed_Wait\<rparr>)
   | M_Delayed_Wait \<Rightarrow> if runs_on My_Delayed (run_my s) then Blocked else Next (s\<lparr>place := M_Flush\<rparr>)
   | M_Flush \<Rightarrow> if on_my s = [] \<and> run_my s = None then Next (s\<lparr>place := M_Gone\<rparr>) else Blocked
   | _ \<Rightarrow> Blocked)"

datatype wq_actor = Init bool | Exit | My_Worker | Sys_Worker | Timer

definition wq_step :: "wq_actor \<Rightarrow> wq_state \<Rightarrow> stepped" where
  "wq_step a s = (case a of
     Init ok \<Rightarrow> workqueue_demo_init ok s
   | Exit \<Rightarrow> workqueue_demo_exit s
   | My_Worker \<Rightarrow> my_worker s
   | Sys_Worker \<Rightarrow> sys_worker s
   | Timer \<Rightarrow> delay_timer s)"

fun wq_run :: "wq_actor list \<Rightarrow> wq_state \<Rightarrow> stepped" where
  "wq_run [] s = Next s"
| "wq_run (a # as) s = (case wq_step a s of Next t \<Rightarrow> wq_run as t | r \<Rightarrow> r)"

section \<open>Invariant\<close>

fun rank :: "wq_place \<Rightarrow> nat" where
  "rank M_Create = 0" | "rank M_Queue = 1" | "rank M_Delay = 2" | "rank M_Sched = 3" | "rank M_Alloc = 4" | "rank M_Dyn = 5"
| "rank M_Loaded = 6" | "rank M_Cancel_Wait = 7" | "rank M_Cancel_Delayed = 8" | "rank M_Delayed_Wait = 9" | "rank M_Flush = 10" | "rank M_Gone = 11"

definition one_place :: "wq_state \<Rightarrow> bool" where
  "one_place s \<longleftrightarrow> distinct (on_my s) \<and> distinct (on_sys s) \<and>
     My_Delayed \<notin> set (on_sys s) \<and> Dyn_Work \<notin> set (on_sys s) \<and> \<not> runs_on My_Delayed (run_sys s) \<and> \<not> runs_on Dyn_Work (run_sys s) \<and>
     \<not> (My_Work \<in> set (on_my s) \<and> My_Work \<in> set (on_sys s)) \<and>
     \<not> (runs_on My_Work (run_my s) \<and> runs_on My_Work (run_sys s)) \<and>
     \<not> (My_Work \<in> set (on_my s) \<and> runs_on My_Work (run_sys s)) \<and>
     \<not> (My_Work \<in> set (on_sys s) \<and> runs_on My_Work (run_my s)) \<and>
     \<not> (armed s \<and> My_Delayed \<in> set (on_my s))"

definition dyn_ok :: "wq_state \<Rightarrow> bool" where
  "dyn_ok s \<longleftrightarrow>
     (Dyn_Work \<in> set (on_my s) \<longrightarrow> dyn s = Allocated 42 \<and> \<not> runs_on Dyn_Work (run_my s)) \<and>
     (runs_on Dyn_Work (run_my s) \<longrightarrow> dyn s = Allocated 42) \<and>
     (place s = M_Dyn \<longrightarrow> dyn s = Allocated 42 \<and> Dyn_Work \<notin> set (on_my s) \<and> \<not> runs_on Dyn_Work (run_my s)) \<and>
     (rank (place s) < 5 \<longrightarrow> dyn s = Not_Allocated) \<and>
     (dyn s \<noteq> Not_Allocated \<and> dyn s \<noteq> Released \<longrightarrow> place s = M_Dyn \<or> Dyn_Work \<in> set (on_my s) \<or> runs_on Dyn_Work (run_my s))"

definition begins :: "(work_item \<times> bool) option \<Rightarrow> nat" where
  "begins r = (if r = Some (My_Work, True) then 1 else 0)"

text \<open>The executions of the static item that were or will be, and as many as it has been queued.\<close>

definition owed :: "wq_state \<Rightarrow> nat" where
  "owed s = work_count s + (if is_pending My_Work s then 1 else 0) + begins (run_my s) + begins (run_sys s)"

fun allowed :: "nat \<Rightarrow> nat" where
  "allowed r = (if r < 2 then 0 else if r < 4 then 1 else 2)"

definition count_ok :: "wq_state \<Rightarrow> bool" where
  "count_ok s \<longleftrightarrow> owed s \<le> allowed (rank (place s))"

definition stage_ok :: "wq_state \<Rightarrow> bool" where
  "stage_ok s \<longleftrightarrow>
     (rank (place s) < 3 \<longrightarrow> \<not> armed s) \<and>
     (rank (place s) < 2 \<longrightarrow> on_my s = [] \<and> on_sys s = [] \<and> run_my s = None \<and> run_sys s = None) \<and>
     (rank (place s) \<ge> 7 \<longrightarrow> \<not> is_pending My_Work s) \<and>
     (rank (place s) \<ge> 8 \<longrightarrow> \<not> runs_on My_Work (run_my s) \<and> run_sys s = None) \<and>
     (rank (place s) \<ge> 9 \<longrightarrow> \<not> armed s \<and> My_Delayed \<notin> set (on_my s)) \<and>
     (rank (place s) \<ge> 10 \<longrightarrow> \<not> runs_on My_Delayed (run_my s)) \<and>
     (rank (place s) \<ge> 11 \<longrightarrow> on_my s = [] \<and> run_my s = None)"

definition wq_ok :: "wq_state \<Rightarrow> bool" where
  "wq_ok s \<longleftrightarrow> one_place s \<and> dyn_ok s \<and> count_ok s \<and> stage_ok s"

lemmas wq_ok_defs = wq_ok_def one_place_def dyn_ok_def count_ok_def owed_def stage_ok_def

lemma runs_on_simps [simp]:
  "runs_on w None = False"
  "runs_on w (Some (v, b)) = (v = w)"
  by (simp_all add: runs_on_def)

lemma begins_simps [simp]:
  "begins None = 0"
  "begins (Some (w, b)) = (if w = My_Work \<and> b then 1 else 0)"
  by (simp_all add: begins_def)

lemma wq_start_ok: "wq_ok wq_start"
  by (simp add: wq_ok_defs wq_start_def is_pending_def)

lemma queue_my_one: "one_place s \<Longrightarrow> \<not> armed s \<or> w \<noteq> My_Delayed \<Longrightarrow> one_place (queue_my w s)"
  by (cases w) (auto simp: queue_my_def one_place_def is_pending_def)

lemma schedule_work_one: "one_place s \<Longrightarrow> one_place (schedule_work My_Work s)"
  by (auto simp: schedule_work_def one_place_def is_pending_def)

text \<open>What queueing leaves as it is.\<close>

lemma queue_my_keeps [simp]:
  "place (queue_my w s) = place s" "run_my (queue_my w s) = run_my s" "run_sys (queue_my w s) = run_sys s"
  "armed (queue_my w s) = armed s" "dyn (queue_my w s) = dyn s" "work_count (queue_my w s) = work_count s"
  by (simp_all add: queue_my_def)

lemma schedule_work_keeps [simp]:
  "place (schedule_work w s) = place s" "run_my (schedule_work w s) = run_my s" "run_sys (schedule_work w s) = run_sys s"
  "armed (schedule_work w s) = armed s" "dyn (schedule_work w s) = dyn s" "work_count (schedule_work w s) = work_count s"
  by (simp_all add: schedule_work_def)

lemma queued_others [simp]:
  "v \<noteq> w \<Longrightarrow> (v \<in> set (on_my (queue_my w s))) = (v \<in> set (on_my s))"
  "v \<noteq> w \<Longrightarrow> (v \<in> set (on_my (schedule_work w s))) = (v \<in> set (on_my s))"
  by (auto simp: queue_my_def schedule_work_def)

lemma Dyn_queued: "one_place s \<Longrightarrow> Dyn_Work \<in> set (on_my (queue_my Dyn_Work s))"
  by (simp add: queue_my_def one_place_def is_pending_def)

lemma one_place_place [simp]: "one_place (s\<lparr>place := p\<rparr>) = one_place s" "one_place (s\<lparr>dyn := d\<rparr>) = one_place s"
  by (simp_all add: one_place_def)

lemma arm_one: "one_place s \<Longrightarrow> My_Delayed \<notin> set (on_my s) \<Longrightarrow> one_place (s\<lparr>armed := True\<rparr>)"
  by (simp add: one_place_def)

lemma init_one: "one_place s \<Longrightarrow> workqueue_demo_init ok s = Next t \<Longrightarrow> one_place t"
  using queue_my_one [of s My_Work] queue_my_one [of s Dyn_Work] schedule_work_one [of s] arm_one [of s]
  by (cases "place s") (auto simp: workqueue_demo_init_def is_pending_def split: if_splits)

lemma init_dyn: "dyn_ok s \<Longrightarrow> one_place s \<Longrightarrow> workqueue_demo_init ok s = Next t \<Longrightarrow> dyn_ok t"
  using Dyn_queued [of s]
  by (cases "place s") (auto simp: workqueue_demo_init_def dyn_ok_def split: if_splits)

lemma init_count: "count_ok s \<Longrightarrow> workqueue_demo_init ok s = Next t \<Longrightarrow> count_ok t"
  by (cases "place s") (auto simp: workqueue_demo_init_def count_ok_def owed_def is_pending_def queue_my_def schedule_work_def split: if_splits)

lemma init_stage: "stage_ok s \<Longrightarrow> workqueue_demo_init ok s = Next t \<Longrightarrow> stage_ok t"
  by (cases "place s") (auto simp: workqueue_demo_init_def stage_ok_def is_pending_def queue_my_def schedule_work_def split: if_splits)

lemma cancel_one:
  "one_place s \<Longrightarrow> one_place (s\<lparr>on_my := removeAll w (on_my s), on_sys := removeAll w (on_sys s)\<rparr>)"
  "one_place s \<Longrightarrow> one_place (s\<lparr>armed := False, on_my := removeAll w (on_my s)\<rparr>)"
  by (cases w; simp add: one_place_def distinct_removeAll)+

lemma only_my_work_on_sys: "one_place s \<Longrightarrow> \<not> runs_on My_Work (run_sys s) \<Longrightarrow> run_sys s = None"
  by (cases "run_sys s"; cases "fst (the (run_sys s))") (auto simp: one_place_def)

lemma exit_one: "one_place s \<Longrightarrow> workqueue_demo_exit s = Next t \<Longrightarrow> one_place t"
  using cancel_one [of s]
  by (cases "place s") (auto simp: workqueue_demo_exit_def split: if_splits)

lemma exit_dyn: "dyn_ok s \<Longrightarrow> workqueue_demo_exit s = Next t \<Longrightarrow> dyn_ok t"
  by (cases "place s") (auto simp: workqueue_demo_exit_def dyn_ok_def split: if_splits)

lemma exit_count: "count_ok s \<Longrightarrow> workqueue_demo_exit s = Next t \<Longrightarrow> count_ok t"
  by (cases "place s") (auto simp: workqueue_demo_exit_def count_ok_def owed_def is_pending_def split: if_splits)

lemma exit_stage: "stage_ok s \<Longrightarrow> one_place s \<Longrightarrow> workqueue_demo_exit s = Next t \<Longrightarrow> stage_ok t"
  using only_my_work_on_sys [of s]
  by (cases "place s") (auto simp: workqueue_demo_exit_def stage_ok_def is_pending_def split: if_splits)

lemma timer_keeps:
  assumes "one_place s" and "dyn_ok s" and "count_ok s" and "stage_ok s" and "delay_timer s = Next t"
  shows "one_place t" and "dyn_ok t" and "count_ok t" and "stage_ok t"
proof -
  have a: "armed s" and t: "t = s\<lparr>armed := False, on_my := on_my s @ [My_Delayed]\<rparr>"
    using assms(5) by (simp_all add: delay_timer_def split: if_splits)
  show "one_place t" using assms(1) a by (simp add: one_place_def t)
  show "dyn_ok t" using assms(2) by (simp add: dyn_ok_def t)
  have "owed t = owed s" by (simp add: owed_def is_pending_def t)
  then show "count_ok t" using assms(3) by (simp add: count_ok_def t)
  show "stage_ok t" using assms(4) a by (simp add: stage_ok_def is_pending_def t)
qed

text \<open>A worker takes an item.\<close>

lemma my_takes:
  assumes "one_place s" and "dyn_ok s" and "count_ok s" and "stage_ok s" and "run_my s = None" and "on_my s = w # ws"
  defines "t \<equiv> s\<lparr>on_my := ws, run_my := Some (w, True)\<rparr>"
  shows "one_place t" and "dyn_ok t" and "count_ok t" and "stage_ok t"
proof -
  show "one_place t" using assms(1,5,6) by (cases w) (auto simp: one_place_def t_def)
  show "dyn_ok t" using assms(1,2,5,6) by (cases w) (auto simp: dyn_ok_def one_place_def t_def)
  have "owed t = owed s" using assms(1,5,6) by (cases w) (auto simp: owed_def is_pending_def one_place_def t_def)
  then show "count_ok t" using assms(3) by (simp add: count_ok_def t_def)
  show "stage_ok t" using assms(4,5,6) by (cases w) (auto simp: stage_ok_def is_pending_def t_def)
qed

lemma sys_takes:
  assumes "one_place s" and "dyn_ok s" and "count_ok s" and "stage_ok s" and "run_sys s = None" and "on_sys s = w # ws"
  defines "t \<equiv> s\<lparr>on_sys := ws, run_sys := Some (w, True)\<rparr>"
  shows "one_place t" and "dyn_ok t" and "count_ok t" and "stage_ok t"
proof -
  have w: "w = My_Work" using assms(1,6) by (cases w) (auto simp: one_place_def)
  show "one_place t" using assms(1,5,6) by (auto simp: one_place_def t_def w)
  show "dyn_ok t" using assms(2) by (simp add: dyn_ok_def t_def)
  have "owed t = owed s" using assms(1,5,6) by (auto simp: owed_def is_pending_def one_place_def t_def w)
  then show "count_ok t" using assms(3) by (simp add: count_ok_def t_def)
  show "stage_ok t" using assms(4,5,6) by (auto simp: stage_ok_def is_pending_def t_def w)
qed

text \<open>A worker runs a step of the function of its item.\<close>

lemma run_item_fields:
  assumes "run_item w b s = Some (t, r)"
  shows "place t = place s" and "on_my t = on_my s" and "on_sys t = on_sys s" and "run_my t = run_my s" and "run_sys t = run_sys s" and "armed t = armed s"
    and "place s \<noteq> M_Gone" and "r = (if w = My_Work \<and> b then Some (My_Work, False) else None)"
    and "dyn t = (if w = Dyn_Work then Released else dyn s)"
    and "work_count t = work_count s + (if w = My_Work \<and> b then 1 else 0)"
  using assms
  by (cases w; auto simp: run_item_def my_work_fn_def my_delayed_fn_def dynamic_work_fn_def split: if_splits dyn_mem.splits)+

lemma my_runs:
  assumes "one_place s" and "dyn_ok s" and "count_ok s" and "stage_ok s" and "run_my s = Some (w, b)" and "run_item w b s = Some (u, r)"
  defines "t \<equiv> u\<lparr>run_my := r\<rparr>"
  shows "one_place t" and "dyn_ok t" and "count_ok t" and "stage_ok t"
proof -
  note f = run_item_fields [OF assms(6)]
  show "one_place t" using assms(1,5) f(1-6,8) by (cases w) (auto simp: one_place_def t_def)
  show "dyn_ok t" using assms(2,5) f(1-6,8,9) by (cases w) (auto simp: dyn_ok_def t_def)
  have "owed t = owed s" using assms(5) f(1-6,8,10) by (cases w; cases b) (simp_all add: owed_def is_pending_def t_def)
  then show "count_ok t" using assms(3) f(1) by (simp add: count_ok_def t_def)
  show "stage_ok t" using assms(4,5) f(1-8) by (cases w) (auto simp: stage_ok_def is_pending_def t_def)
qed

lemma sys_runs:
  assumes "one_place s" and "dyn_ok s" and "count_ok s" and "stage_ok s" and "run_sys s = Some (w, b)" and "run_item w b s = Some (u, r)"
  defines "t \<equiv> u\<lparr>run_sys := r\<rparr>"
  shows "one_place t" and "dyn_ok t" and "count_ok t" and "stage_ok t"
proof -
  note f = run_item_fields [OF assms(6)]
  have w: "w = My_Work" using assms(1,5) by (cases w) (auto simp: one_place_def)
  show "one_place t" using assms(1,5) f(1-6,8) by (auto simp: one_place_def t_def w)
  show "dyn_ok t" using assms(2) f(1-6,9) by (simp add: dyn_ok_def t_def w)
  have "owed t = owed s" using assms(5) f(1-6,8,10) by (cases b) (simp_all add: owed_def is_pending_def t_def w)
  then show "count_ok t" using assms(3) f(1) by (simp add: count_ok_def t_def)
  show "stage_ok t" using assms(4,5) f(1-8) by (auto simp: stage_ok_def is_pending_def t_def w)
qed

text \<open>Nothing runs without a function to run, and the dynamic item has its memory when it runs.\<close>

lemma run_item_defined:
  assumes "dyn_ok s" and "stage_ok s" and "run_my s = Some (w, b) \<or> run_sys s = Some (w, b) \<and> w = My_Work"
  shows "run_item w b s \<noteq> None"
proof -
  have "place s \<noteq> M_Gone" using assms(2,3) by (auto simp: stage_ok_def)
  moreover have "w = Dyn_Work \<Longrightarrow> dyn s = Allocated 42" using assms(1,3) by (auto simp: dyn_ok_def)
  ultimately show ?thesis by (cases w) (simp_all add: run_item_def dynamic_work_fn_def)
qed

lemma wq_okI: "one_place s \<Longrightarrow> dyn_ok s \<Longrightarrow> count_ok s \<Longrightarrow> stage_ok s \<Longrightarrow> wq_ok s"
  by (simp add: wq_ok_def)

lemma my_worker_ok:
  assumes "wq_ok s"
  shows "my_worker s \<noteq> Undefined" and "my_worker s = Next t \<Longrightarrow> wq_ok t"
proof -
  note ok = assms [unfolded wq_ok_def, THEN conjunct1] assms [unfolded wq_ok_def, THEN conjunct2, THEN conjunct1]
    assms [unfolded wq_ok_def, THEN conjunct2, THEN conjunct2, THEN conjunct1] assms [unfolded wq_ok_def, THEN conjunct2, THEN conjunct2, THEN conjunct2]
  show "my_worker s \<noteq> Undefined"
  proof (cases "run_my s")
    case (Some wb)
    then show ?thesis using run_item_defined [OF ok(2,4), of "fst wb" "snd wb"] by (cases wb) (auto simp: my_worker_def split: option.splits)
  qed (simp add: my_worker_def split: list.splits)
  assume n: "my_worker s = Next t"
  show "wq_ok t"
  proof (cases "run_my s")
    case None
    then obtain w ws where "on_my s = w # ws" "t = s\<lparr>on_my := ws, run_my := Some (w, True)\<rparr>"
      using n by (auto simp: my_worker_def split: list.splits)
    then show ?thesis using my_takes [OF ok None] by (simp add: wq_okI)
  next
    case (Some wb)
    then obtain w b u r where "run_my s = Some (w, b)" "run_item w b s = Some (u, r)" "t = u\<lparr>run_my := r\<rparr>"
      using n by (cases wb) (auto simp: my_worker_def split: option.splits)
    then show ?thesis using my_runs [OF ok] by (simp add: wq_okI)
  qed
qed

lemma sys_worker_ok:
  assumes "wq_ok s"
  shows "sys_worker s \<noteq> Undefined" and "sys_worker s = Next t \<Longrightarrow> wq_ok t"
proof -
  note ok = assms [unfolded wq_ok_def, THEN conjunct1] assms [unfolded wq_ok_def, THEN conjunct2, THEN conjunct1]
    assms [unfolded wq_ok_def, THEN conjunct2, THEN conjunct2, THEN conjunct1] assms [unfolded wq_ok_def, THEN conjunct2, THEN conjunct2, THEN conjunct2]
  have m: "run_sys s = Some (w, b) \<Longrightarrow> w = My_Work" for w b using ok(1) by (cases w) (auto simp: one_place_def)
  show "sys_worker s \<noteq> Undefined"
  proof (cases "run_sys s")
    case (Some wb)
    then show ?thesis using run_item_defined [OF ok(2,4), of "fst wb" "snd wb"] m [of "fst wb" "snd wb"]
      by (cases wb) (auto simp: sys_worker_def split: option.splits)
  qed (simp add: sys_worker_def split: list.splits)
  assume n: "sys_worker s = Next t"
  show "wq_ok t"
  proof (cases "run_sys s")
    case None
    then obtain w ws where "on_sys s = w # ws" "t = s\<lparr>on_sys := ws, run_sys := Some (w, True)\<rparr>"
      using n by (auto simp: sys_worker_def split: list.splits)
    then show ?thesis using sys_takes [OF ok None] by (simp add: wq_okI)
  next
    case (Some wb)
    then obtain w b u r where "run_sys s = Some (w, b)" "run_item w b s = Some (u, r)" "t = u\<lparr>run_sys := r\<rparr>"
      using n by (cases wb) (auto simp: sys_worker_def split: option.splits)
    then show ?thesis using sys_runs [OF ok] by (simp add: wq_okI)
  qed
qed

lemma wq_step_ok:
  assumes "wq_ok s"
  shows "wq_step a s \<noteq> Undefined" and "wq_step a s = Next t \<Longrightarrow> wq_ok t"
proof -
  have u: "workqueue_demo_init ok s \<noteq> Undefined" "workqueue_demo_exit s \<noteq> Undefined" "delay_timer s \<noteq> Undefined" for ok
    by (cases "place s"; simp add: workqueue_demo_init_def workqueue_demo_exit_def delay_timer_def)+
  show "wq_step a s \<noteq> Undefined"
    using u my_worker_ok(1) [OF assms] sys_worker_ok(1) [OF assms] by (cases a) (simp_all add: wq_step_def)
  assume n: "wq_step a s = Next t"
  note ok = assms [unfolded wq_ok_def]
  show "wq_ok t"
  proof (cases a)
    case (Init alloc)
    then show ?thesis using n ok init_one [of s alloc t] init_dyn [of s alloc t] init_count [of s alloc t] init_stage [of s alloc t]
      by (simp add: wq_step_def wq_ok_def)
  next
    case Exit
    then show ?thesis using n ok exit_one [of s t] exit_dyn [of s t] exit_count [of s t] exit_stage [of s t]
      by (simp add: wq_step_def wq_ok_def)
  next
    case Timer
    then show ?thesis using n ok timer_keeps [of s t] by (simp add: wq_step_def wq_ok_def)
  qed (use n my_worker_ok(2) [OF assms] sys_worker_ok(2) [OF assms] in \<open>simp_all add: wq_step_def\<close>)
qed

lemma wq_run_ok:
  "wq_ok s \<Longrightarrow> wq_run as s \<noteq> Undefined"
  "wq_ok s \<Longrightarrow> wq_run as s = Next t \<Longrightarrow> wq_ok t"
  by (induction as arbitrary: s) (auto dest: wq_step_ok split: stepped.splits)

section \<open>Properties\<close>

text \<open>The exit function is never stuck: when it has to wait, a worker can take a step.\<close>

lemma exit_progress:
  assumes "wq_ok s" and "6 \<le> rank (place s)" and "place s \<noteq> M_Gone" and "workqueue_demo_exit s = Blocked"
  shows "my_worker s \<noteq> Blocked \<or> sys_worker s \<noteq> Blocked"
proof -
  have "run_my s \<noteq> None \<or> run_sys s \<noteq> None \<or> on_my s \<noteq> []"
    using assms(2-4) by (cases "place s") (auto simp: workqueue_demo_exit_def runs_on_def split: option.splits if_splits)
  then show ?thesis by (auto simp: my_worker_def sys_worker_def split: option.splits list.splits)
qed

text \<open>
  C35. Under every schedule of init, exit, the two workers and the timer, no function runs without its memory or after the module is gone. Once the module is
  gone nothing is queued, running or armed, the memory of the dynamic item was released by its function if it was allocated, and the
  static item, although queued twice, has run at most twice.
\<close>

theorem workqueue_exit_clean:
  assumes "place s = M_Gone" and "wq_run as wq_start = Next s"
  shows "wq_run (as @ bs) wq_start \<noteq> Undefined \<and>
    on_my s = [] \<and> on_sys s = [] \<and> run_my s = None \<and> run_sys s = None \<and> \<not> armed s \<and>
    (dyn s = Not_Allocated \<or> dyn s = Released) \<and> work_count s \<le> 2"
proof -
  have ok: "wq_ok s" using wq_run_ok(2) [OF wq_start_ok assms(2)] .
  have "on_sys s = []"
    using ok assms(1) by (cases "on_sys s"; cases "hd (on_sys s)") (auto simp: wq_ok_def one_place_def stage_ok_def is_pending_def)
  moreover have "dyn s = Not_Allocated \<or> dyn s = Released"
    using ok assms(1) by (auto simp: wq_ok_def dyn_ok_def stage_ok_def)
  moreover have "owed s \<le> 2" using ok assms(1) by (simp add: wq_ok_def count_ok_def)
  ultimately show ?thesis
    using ok assms(1) wq_run_ok(1) [OF wq_start_ok, of "as @ bs"] by (simp add: wq_ok_def stage_ok_def owed_def)
qed

definition wq_session :: "wq_actor list" where
  "wq_session =
     [Init True, Init True, My_Worker, Init True, Init True, My_Worker, Timer, Init True, Init True, My_Worker, My_Worker, My_Worker, My_Worker,
      Exit, Exit, My_Worker, My_Worker, Exit, Exit, My_Worker, My_Worker, Exit]"

theorem workqueue_exit_clean_witness:
  "\<exists>s. wq_run wq_session wq_start = Next s \<and> dyn s = Released \<and> work_count s = 2 \<and> on_my s = []"
proof -
  define r where "r = wq_run wq_session wq_start"
  have c: "case r of Next s \<Rightarrow> place s = M_Gone \<and> dyn s = Released \<and> work_count s = 2 | _ \<Rightarrow> False"
    unfolding r_def by code_simp
  then obtain s where s: "r = Next s" "place s = M_Gone" "dyn s = Released" "work_count s = 2" by (auto split: stepped.splits)
  from workqueue_exit_clean [OF s(2) s(1) [unfolded r_def], of "[]"] s show ?thesis unfolding r_def by auto
qed

text \<open>The second queueing of the static item is lost when the first is still pending.\<close>

lemma second_queueing_lost:
  "case wq_run [Init True, Init True, Init True, Init True] wq_start of Next s \<Rightarrow> on_my s = [My_Work] \<and> on_sys s = [] | _ \<Rightarrow> False"
  by code_simp

end
