(* ===== verification/Spec2Isabelle.thy ===== *)
theory Spec2Isabelle
  imports AntiDebug BarrierDemo Benchmarks BlockDev Bpf BusDrivers Bytes CHeap
    CPrelude Camera CharDev CompilerLabs CrashDetective CrashLabs Crypto CustomProto
    Dns EchoServers EventServers FatParser FdPassing FileDemos FileViews FuseFat
    FuseTypes HttpServer InitLab Inversion IoctlDev KernelEvents KernelLists LeakLabs
    Lifecycle MathLib MemFS MessageQueues MiniClient MiniProto MiniServer Modules
    OomLab Packets Ping PipeLabs PlatformDrivers PosixFiles PrivDrop ProcessLabs
    Processes ProdCons Queues RcuDemo Refinement RtDemo SchedLabs Schedules
    ShmRing SignalLab SlabDemo SmallLabs SyncDemo SystemInfo TempFiles ThreadLab
    ThreadPool TimerLab Tracer Uio UserCopy VirtualFiles WorkQueue
begin

text \<open>
  A verification development of the C programs of this repository: a Linux course whose labs are filesystems, protocol servers and
  clients, kernel drivers, concurrent programs and small tools. The programs are independent of each other but for the groups
  named below, so the development is one theory for each program or group of similar programs over a few shared theories. Paths are below src/.

  \<^bold>\<open>Shared theories.\<close>
  \<^item> CPrelude: machine integers and C conversions, outcomes, error numbers, bounds-checked buffers, C strings. Bytes: integers in byte buffers,
    the text of \<open>printf\<close>, numbers read from text, \<open>fgets\<close>. UserCopy: the kernel's copies to and from user memory. FuseTypes: \<open>struct stat\<close>.
  \<^item> Refinement, Queues and Lifecycle hold three contracts as locales: a simulation between a state and an abstract state (interpreted for the
    filesystem in MemFS and the hash table in KernelLists), a queue (interpreted for the ring of ProdCons, the task list of ThreadPool and the kernel FIFO of VirtualFiles),
    and the init and exit functions of a module, which release what they have acquired (interpreted for twenty-six modules in Modules). CharDev has two
    more, a reader of a file and a buffer device (interpreted for the five character devices and for /proc files), EchoServers one, an echo
    service (interpreted for three servers).
  \<^item> CHeap: the heap of a C program that leaks or crashes, and C functions over it. PosixFiles: paths, open files and descriptors. Processes:
    processes with \<open>fork\<close>, \<open>wait\<close>, pipes, sockets that carry descriptors, signals and the buffer of \<open>printf\<close>; a program is a value, a system call with what follows each of its
    results. Schedules: a search of all states that a program of processes reaches in any schedule, and the proof that it misses none, so that what
    holds in every schedule is a computation. It has fuel, and is false if that does not suffice: a search that
    succeeds also bounds the number of turns of every schedule.

  \<^bold>\<open>Conventions.\<close> A definition follows one function, handler or loop of the source, and is executable. \<open>None\<close> is undefined behaviour (an access outside an
  object, signed overflow, use of freed memory), also \<open>Trap\<close> or a constructor of a result type where more outcomes are told apart. Integers are words of their width, or
  integers with the casts written out. Errors are negative error numbers or constructors. What the kernel, libc or another library decides is
  an argument of the definitions: results of calls, bytes that arrive, clocks, devices. Where the code relies on the behaviour of a kernel service, that
  service is modelled as it is documented: grace periods in RcuDemo, event counters of UIO, credentials in PrivDrop, the
  socket filter machine in Bpf, the register map in BusDrivers, work queues in WorkQueue, the input core in KernelEvents, the store buffers of processors
  in BarrierDemo, files in PosixFiles, processes in Processes, the real-time scheduler in Inversion, priorities and nice values in SchedLabs, message queues and named pipes in
  MessageQueues, timers in TimerLab, tracing in AntiDebug.

  \<^bold>\<open>Filesystems.\<close>
  \<^item> MemFS (SystemProgramming/Handson/lab17_fuse/memfs.c): the table of entries and all FUSE operations; each refines an abstract filesystem, a
    map from paths to nodes, for all runs of requests; reading back, listing, and what a failed allocation and a long name break.
  \<^item> FuseFat and FatParser (lab18_fuse_fat): a read-only FAT16 driver and a parser for the same images. Look-up, reading along a chain of
    clusters, termination; the two agree on the entries of a directory. The copy loop has fuel: one unit for each round suffices, and a round copies a
    byte at least; with a cyclic chain that is never left the loop does not end, which is a theorem too.

  \<^bold>\<open>Network programs\<close> (NetworkProgramming/Handson).
  \<^item> MiniProto, MiniServer, MiniClient (project_mini_protocol): message headers, exact transfers over short reads and writes, the server loop, the client
    loop, and a session of the two.
  \<^item> Packets, Bpf, Ping, CustomProto, Dns: dissectors that stay inside the packet, the filter program and its checker, checksums and replies, a
    kernel protocol handler with its sender, name compression. \<open>parse_name\<close> has fuel because a pointer loop does not end.
  \<^item> HttpServer, EventServers, EchoServers: an HTTP server and a time client, the servers that use \<open>select\<close> and \<open>epoll\<close>, and the plain echo servers with their
    clients. CrashDetective: the deliberately wrong pair of Debugging/Handson/project_crash_detective.

  \<^bold>\<open>Kernel programs\<close> (KernelProgramming/Handson).
  \<^item> CharDev, IoctlDev (lab18_chardev, lab19_misc_driver), VirtualFiles (lab09_virtual_fs, kfifo_demo), BlockDev (lab36_block), PlatformDrivers
    (pwm, watchdog, rtc, iio, gpio), BusDrivers (serdev, i2c, spi, regmap), KernelLists (hashtable_demo, klist_demo): the handlers and their state.
  \<^item> Modules: the order in which init and exit acquire and release, for every failure. KernelEvents: handlers that the kernel calls (input_demo, hrtimer_demo,
    signal_aware, kthread_multi, threaded_irq_demo).
  \<^item> SyncDemo, RcuDemo, RtDemo (lab14_sync, lab38_rt), SlabDemo (lab13_memory): threads, timers and memory.
    WorkQueue (workqueue_demo.c): items, their queues and the workers, so that nothing is pending after the module is gone. BarrierDemo (barrier_demo.c): a
    writer and a reader over weak memory, where the barriers are needed and suffice.
  \<^item> Camera (lab41_camera): a frame from a camera. InitLab (lab04_boot): the process number 1.

  \<^bold>\<open>System programs\<close> (SystemProgramming/Handson).
  \<^item> ProdCons, ThreadPool (lab08_thread_management), ShmRing (lab09_ipc): bounded buffers and a thread pool. ThreadLab (thread_lab.c): the race over a counter, and its repair.
  \<^item> PipeLabs, ProcessLabs, SignalLab (lab07_process_management, lab09_ipc), FdPassing (also lab05_domain_sockets): programs that fork, wait, talk over
    pipes, handle signals and pass descriptors; what they print in every schedule. MessageQueues (lab09_ipc): message queues and named pipes.
  \<^item> Inversion (lab11_thread_sched): priority inversion, its cure by inheritance. SchedLabs (also lab10_scheduling, lab19_cpu_pinning): policies and sets of
    processors. TimerLab (lab16_timers), OomLab (lab14_oom), SystemInfo (lab12_users_groups, lab13_memory).
  \<^item> FileDemos, TempFiles, FileViews (lab06_file_operations, lab15_tempfiles, lab04_error_handling): programs over files, temporary files, events of files
    and mappings.
  \<^item> Uio (lab20_uio): simulated devices and the programs that use them. Tracer (mini_strace.c), PrivDrop (priv_drop.c).
  \<^item> MathLib (lab03_libraries), Benchmarks (lab01_gcc_compilation, lab16_profiling), Crypto (lab15_encryption), SmallLabs (assert_demo.c,
    macro_magic.c, mystery_binary.c), CompilerLabs (lab01_gcc_compilation, lab02_binutils_elf): arithmetic, sorting, strings, use of a cryptographic library.
  \<^item> AntiDebug (lab05_ptrace_antidebug): detection of a debugger, and how it is defeated; reading the memory of another process.

  \<^bold>\<open>Programs that are wrong on purpose\<close> (Debugging/Handson, lab13_memory): LeakLabs, what each function leaves allocated, which is what a leak checker is to
  report; CrashLabs, where each program leaves defined behaviour and what it has printed by then. A C function over the heap ends with a value or with the undefined
  behaviour it runs into.

  \<^bold>\<open>Concurrency.\<close> A concurrent program is a state with the place of each thread, and steps that are single accesses to shared memory or critical
  sections. ProdCons and ThreadPool use inductive step relations, with invariants by rule induction over the reachable states; the others an executable step function and a list of
  the actors that take the steps, so that a theorem about all schedules is an induction on that list. Termination is a measure that each step lowers, which also
  bounds the number of steps (496, 2200014 and 322 in ProdCons, SyncDemo and ShmRing).

  \<^bold>\<open>What the lemmas show.\<close> In each theory, first the functional behaviour of the operations on every branch, then an invariant that
  all of them keep, then the properties, whose text blocks begin with a number. A property that has hypotheses is followed by a theorem that applies it to a concrete case. Most lemmas that exhibit a
  defect of the code have the defect in their names (loses, leaks, overflows, hangs, undriven).

  \<^bold>\<open>Not modelled.\<close>
  \<^item> Programs that call the kernel once or print what it says, without a state of their own: raw system calls, helper macros, module parameters, the
    resolver and socket options, bus scans, the set-up of a PCI device, packets of libnetfilter_queue.
  \<^item> Data races other than that of ThreadLab: a race is undefined for the language, and the others are targets for the sanitizers.
  \<^item> Floating point: timings, statistics in doubles, numeric benchmarks.
  \<^item> Set-up of sockets, devices and files where only the error path of each call matters, unless a theory says that it is modelled.
  \<^item> Log lines that print addresses, CPU numbers, process numbers or times; the layout of headings.
  \<^item> Weak memory but in BarrierDemo, and the caching of the register map.
\<close>

end
